(* ===== verification/Prelude.thy ===== *)
theory Prelude
  imports Main "HOL-Library.Word"
begin

text \<open>
  Shared vocabulary of the development: the machine types of the C sources, the
  counted \<^verbatim>\<open>for\<close> loop as a fold over an interval of indices together with its invariant
  rule, and the generic facts on lists and words that the component theories use.
\<close>

unbundle bit_operations_syntax

section \<open>Machine types\<close>

type_synonym u8 = "8 word"
type_synonym u16 = "16 word"
type_synonym u32 = "32 word"
type_synonym u64 = "64 word"

text \<open>
  The symbol type of the erasure coder. \<^verbatim>\<open>fecBooster.c\<close> casts \<^verbatim>\<open>u_char\<close> packet buffers to
  \<^verbatim>\<open>fec_sym *\<close> and counts symbols in bytes, and \<^verbatim>\<open>RSECore.c\<close> stores \<^verbatim>\<open>x & 0xFF\<close> in
  \<^verbatim>\<open>fec_sym\<close> arrays: a symbol is one byte.
\<close>

type_synonym fec_sym = u8

section \<open>Collections of rules\<close>

named_theorems wharf_defs \<open>operations of the traffic-class and rule tables\<close>
named_theorems blk_simps \<open>fields of the FEC block after each operation\<close>
named_theorems buf_simps \<open>fields of the packet buffers after each operation\<close>

section \<open>Counted loops\<close>

definition for_loop :: "nat \<Rightarrow> nat \<Rightarrow> (nat \<Rightarrow> 's \<Rightarrow> 's) \<Rightarrow> 's \<Rightarrow> 's" where
  \<comment> \<open>\<open>for (i = lo; i < hi; i++) s = body i s\<close>\<close>
  "for_loop lo hi body s = fold body [lo..<hi] s"

lemma for_loop_empty [simp]: "hi \<le> lo \<Longrightarrow> for_loop lo hi f s = s"
  by (simp add: for_loop_def)

lemma for_loop_Suc: "lo \<le> n \<Longrightarrow> for_loop lo (Suc n) f s = f n (for_loop lo n f s)"
  by (simp add: for_loop_def)

lemma for_loop_unroll: "lo < hi \<Longrightarrow> for_loop lo hi f s = for_loop (Suc lo) hi f (f lo s)"
  by (simp add: for_loop_def upt_rec)

lemma for_loop_induct [consumes 1, case_names init step]:
  assumes "lo \<le> hi" and "P lo s"
    and "\<And>i t. lo \<le> i \<Longrightarrow> i < hi \<Longrightarrow> P i t \<Longrightarrow> P (Suc i) (f i t)"
  shows "P hi (for_loop lo hi f s)"
  using assms
proof (induction hi)
  case 0
  then show ?case by simp
next
  case (Suc n)
  show ?case
  proof (cases "lo = Suc n")
    case True
    with Suc.prems show ?thesis by simp
  next
    case False
    with Suc.prems have "lo \<le> n" by simp
    moreover from this Suc have "P n (for_loop lo n f s)" by simp
    ultimately show ?thesis using Suc.prems by (simp add: for_loop_Suc)
  qed
qed

lemma for_loop_inv:
  assumes "P s" and "\<And>i t. lo \<le> i \<Longrightarrow> i < hi \<Longrightarrow> P t \<Longrightarrow> P (f i t)"
  shows "P (for_loop lo hi f s)"
proof (cases "lo \<le> hi")
  case True
  then show ?thesis
    by (induction rule: for_loop_induct [where P = "\<lambda>_. P"]) (use assms in auto)
next
  case False
  with assms show ?thesis by simp
qed

lemma for_loop_cong:
  assumes "\<And>i t. lo \<le> i \<Longrightarrow> i < hi \<Longrightarrow> f i t = g i t"
  shows "for_loop lo hi f s = for_loop lo hi g s"
  unfolding for_loop_def by (rule fold_cong) (use assms in auto)

text \<open>A loop that writes one slot of an array per iteration, from values fixed beforehand.\<close>

lemma length_for_loop:
  assumes "\<And>i t. length (f i t) = length t"
  shows "length (for_loop lo hi f xs) = length xs"
  by (rule for_loop_inv [where P = "\<lambda>t. length t = length xs"]) (simp_all add: assms)

lemma unat_u8_less [simp]: "unat (x :: u8) < 256"
  using unsigned_less [of x, where ?'a = nat] by simp

lemma unat_u8_le [simp]: "unat (x :: u8) \<le> 255"
  using unat_u8_less [of x] by linarith

lemma unat_u8_Suc: "unat (x :: u8) < 255 \<Longrightarrow> unat (x + 1) = Suc (unat x)"
  by (simp add: unat_word_ariths)

text \<open>
  The same loop with a one-byte counter. A bound above 255 is never reached, since the
  counter wraps: the loop then has no result.
\<close>

partial_function (option) for_loop8 :: "u8 \<Rightarrow> nat \<Rightarrow> (nat \<Rightarrow> 's \<Rightarrow> 's) \<Rightarrow> 's \<Rightarrow> 's option" where
  "for_loop8 i hi body s =
     (if unat i < hi then for_loop8 (i + 1) hi body (body (unat i) s) else Some s)"

lemma for_loop8_from:
  assumes "unat i \<le> hi" and "hi \<le> 255"
  shows "for_loop8 i hi body s = Some (for_loop (unat i) hi body s)"
  using assms(1)
proof (induction "hi - unat i" arbitrary: i s)
  case 0
  then show ?case by (simp add: for_loop8.simps [of i])
next
  case (Suc d)
  then have lt: "unat i < hi" by simp
  then have u: "unat (i + 1) = Suc (unat i)" using assms(2) by (simp add: unat_u8_Suc)
  then have "for_loop8 (i + 1) hi body (body (unat i) s) =
      Some (for_loop (unat (i + 1)) hi body (body (unat i) s))"
    using Suc lt by (intro Suc.hyps) auto
  with lt u show ?case by (simp add: for_loop8.simps [of i] for_loop_unroll)
qed

lemma for_loop8 [simp]: "hi \<le> 255 \<Longrightarrow> for_loop8 0 hi body s = Some (for_loop 0 hi body s)"
  using for_loop8_from [of 0 hi body s] by simp

lemma for_loop8_result_bound: "for_loop8 i hi body s = Some r \<Longrightarrow> hi \<le> 255"
proof (erule for_loop8.raw_induct [where P = "\<lambda>_ hi _ _ _. hi \<le> 255", rotated])
  fix f :: "u8 \<Rightarrow> nat \<Rightarrow> (nat \<Rightarrow> 'b \<Rightarrow> 'b) \<Rightarrow> 'b \<Rightarrow> 'b option" and i hi body s r
  assume IH: "\<And>i hi body s r. f i hi body s = Some r \<Longrightarrow> hi \<le> 255"
    and "(if unat i < hi then f (i + 1) hi body (body (unat i) s) else Some s) = Some r"
  then show "hi \<le> 255"
    by (cases "unat i < hi") (simp_all add: IH order.trans [OF _ unat_u8_le [of i]])
qed

lemma for_loop8_diverges: "256 \<le> hi \<Longrightarrow> for_loop8 i hi body s = None"
  using for_loop8_result_bound [of i hi body s] by (cases "for_loop8 i hi body s") fastforce+

section \<open>Arrays\<close>

lemma upd_nth_if: "j < length xs \<Longrightarrow> xs[i := x] ! j = (if i = j then x else xs ! j)"
  by (simp add: nth_list_update)

lemma row_index_less:
  assumes "i < r" and "j < (c::nat)"
  shows "i * c + j < r * c"
proof -
  have "i * c + j < i * c + c" using assms(2) by simp
  also have "\<dots> = Suc i * c" by simp
  also have "\<dots> \<le> r * c" using assms(1) by (intro mult_le_mono1) simp
  finally show ?thesis .
qed

lemma row_index_eq_iff:
  assumes "j < c" and "j' < (c::nat)"
  shows "i * c + j = i' * c + j' \<longleftrightarrow> i = i' \<and> j = j'"
proof
  assume eq: "i * c + j = i' * c + j'"
  have "(i * c + j) div c = i" and "(i' * c + j') div c = i'"
    using assms by (simp_all add: div_add1_eq)
  with eq have "i = i'" by metis
  with eq show "i = i' \<and> j = j'" by simp
qed simp

text \<open>Filling a two-dimensional array entry by entry.\<close>

lemma for_loop_fill_row:
  assumes "i < length g" and "length (g ! i) = C" and "n \<le> C"
  shows "for_loop 0 n (\<lambda>j g. g[i := (g ! i)[j := f j]]) g = g[i := map f [0..<n] @ drop n (g ! i)]"
  using assms(3)
proof (induction n)
  case (Suc n)
  have "drop n (g ! i) = g ! i ! n # drop (Suc n) (g ! i)"
    using Suc.prems assms by (simp add: Cons_nth_drop_Suc)
  then have "(map f [0..<n] @ drop n (g ! i))[n := f n] = map f [0..<Suc n] @ drop (Suc n) (g ! i)"
    by (simp add: list_update_append)
  with Suc assms show ?case by (simp add: for_loop_Suc)
qed (use assms in simp)

lemma for_loop_fill:
  assumes "length g = R" and "\<And>r. r \<in> set g \<Longrightarrow> length r = C"
  shows "for_loop 0 R (\<lambda>i g. for_loop 0 C (\<lambda>j g. g[i := (g ! i)[j := f i j]]) g) g =
         map (\<lambda>i. map (f i) [0..<C]) [0..<R]"
proof -
  define row where "row i = map (f i) [0..<C]" for i
  have "for_loop 0 n (\<lambda>i g. for_loop 0 C (\<lambda>j g. g[i := (g ! i)[j := f i j]]) g) g =
         map row [0..<n] @ drop n g" if "n \<le> R" for n
    using that
  proof (induction n)
    case (Suc n)
    let ?h = "map row [0..<n] @ drop n g"
    have dr: "drop n g = g ! n # drop (Suc n) g"
      using Suc.prems assms(1) by (simp add: Cons_nth_drop_Suc)
    have "length (?h ! n) = C" and "n < length ?h"
      using Suc.prems assms by (simp_all add: nth_append)
    then have "for_loop 0 C (\<lambda>j g. g[n := (g ! n)[j := f n j]]) ?h = ?h[n := row n]"
      using for_loop_fill_row [of n ?h C C "f n"] by (simp add: row_def)
    also have "\<dots> = map row [0..<Suc n] @ drop (Suc n) g"
      by (simp add: dr list_update_append)
    finally show ?case using Suc by (simp add: for_loop_Suc)
  qed simp
  from this [of R] show ?thesis using assms(1) by (simp add: row_def)
qed

text \<open>Writing the cells \<open>ix i j\<close> of a flat array.\<close>

lemma for_loop_row_cells:
  assumes "n \<le> C" and "\<And>j. j < C \<Longrightarrow> ix j < length xs"
    and "\<And>j j'. j < C \<Longrightarrow> j' < C \<Longrightarrow> ix j = ix j' \<longleftrightarrow> j = j'"
  shows "length (for_loop 0 n (\<lambda>j xs. xs[ix j := v j]) xs) = length xs \<and>
    (\<forall>j<n. for_loop 0 n (\<lambda>j xs. xs[ix j := v j]) xs ! ix j = v j) \<and>
    (\<forall>x. x \<notin> ix ` {..<n} \<longrightarrow> for_loop 0 n (\<lambda>j xs. xs[ix j := v j]) xs ! x = xs ! x)"
  using assms
proof (induction n)
  case (Suc n)
  then have "length (for_loop 0 n (\<lambda>j xs. xs[ix j := v j]) xs) = length xs" by simp
  with Suc show ?case by (auto simp: for_loop_Suc nth_list_update less_Suc_eq lessThan_Suc)
qed simp

lemma for_loop_cells:
  assumes "\<And>i j. i < R \<Longrightarrow> j < C \<Longrightarrow> ix i j < length xs"
    and "\<And>i j i' j'. i < R \<Longrightarrow> j < C \<Longrightarrow> i' < R \<Longrightarrow> j' < C \<Longrightarrow> ix i j = ix i' j' \<longleftrightarrow> i = i' \<and> j = j'"
  shows "length (for_loop 0 R (\<lambda>i xs. for_loop 0 C (\<lambda>j xs. xs[ix i j := v i j]) xs) xs) = length xs"
    and "i < R \<Longrightarrow> j < C \<Longrightarrow>
      for_loop 0 R (\<lambda>i xs. for_loop 0 C (\<lambda>j xs. xs[ix i j := v i j]) xs) xs ! ix i j = v i j"
    and "(\<And>i j. i < R \<Longrightarrow> j < C \<Longrightarrow> x \<noteq> ix i j) \<Longrightarrow>
      for_loop 0 R (\<lambda>i xs. for_loop 0 C (\<lambda>j xs. xs[ix i j := v i j]) xs) xs ! x = xs ! x"
proof -
  let ?f = "\<lambda>i xs. for_loop 0 C (\<lambda>j xs. xs[ix i j := v i j]) xs"
  have "length (for_loop 0 n ?f xs) = length xs \<and>
    (\<forall>i<n. \<forall>j<C. for_loop 0 n ?f xs ! ix i j = v i j) \<and>
    (\<forall>x. (\<forall>i<n. \<forall>j<C. x \<noteq> ix i j) \<longrightarrow> for_loop 0 n ?f xs ! x = xs ! x)" if "n \<le> R" for n
    using that
  proof (induction n)
    case (Suc n)
    define ys where "ys = for_loop 0 n ?f xs"
    have IH: "length ys = length xs" "\<And>i j. i < n \<Longrightarrow> j < C \<Longrightarrow> ys ! ix i j = v i j"
      "\<And>x. (\<forall>i<n. \<forall>j<C. x \<noteq> ix i j) \<Longrightarrow> ys ! x = xs ! x" using Suc by (simp_all add: ys_def)
    have row: "length (?f n ys) = length ys \<and> (\<forall>j<C. ?f n ys ! ix n j = v n j) \<and>
      (\<forall>x. x \<notin> ix n ` {..<C} \<longrightarrow> ?f n ys ! x = ys ! x)"
      using assms Suc.prems by (intro for_loop_row_cells) (auto simp: IH)
    have other: "?f n ys ! ix i j = ys ! ix i j" if "i < n" "j < C" for i j
    proof -
      have "ix i j \<notin> ix n ` {..<C}" using assms(2) [of i j n] that Suc.prems by auto
      with row show ?thesis by blast
    qed
    have "?f n ys ! x = xs ! x" if x: "\<forall>i<Suc n. \<forall>j<C. x \<noteq> ix i j" for x
    proof -
      have "x \<notin> ix n ` {..<C}" using x by auto
      then have "?f n ys ! x = ys ! x" using row by blast
      also have "\<dots> = xs ! x" using x by (intro IH(3)) simp
      finally show ?thesis .
    qed
    moreover have "?f n ys ! ix i j = v i j" if "i < Suc n" "j < C" for i j
      using row other IH(2) that by (cases "i = n") auto
    ultimately show ?case using row IH(1) by (simp add: for_loop_Suc ys_def)
  qed simp
  from this [of R] show "length (for_loop 0 R ?f xs) = length xs"
    and "i < R \<Longrightarrow> j < C \<Longrightarrow> for_loop 0 R ?f xs ! ix i j = v i j"
    and "(\<And>i j. i < R \<Longrightarrow> j < C \<Longrightarrow> x \<noteq> ix i j) \<Longrightarrow> for_loop 0 R ?f xs ! x = xs ! x" by auto
qed

lemma concat_rows_nth:
  assumes "\<And>r. r \<in> set xss \<Longrightarrow> length r = n" and "i < length xss" and "j < n"
  shows "concat xss ! (i * n + j) = xss ! i ! j"
  using assms
proof (induction xss arbitrary: i)
  case (Cons r xss)
  then have "length r = n" by simp
  with Cons show ?case by (cases i) (simp_all add: nth_append add.assoc)
qed simp

section \<open>Packets of different lengths\<close>

text \<open>The packets of a group are coded as if padded with zeros to the longest.\<close>

definition padded :: "fec_sym list \<Rightarrow> nat \<Rightarrow> fec_sym" where
  "padded p i = (if i < length p then p ! i else 0)"

definition longest :: "fec_sym list list \<Rightarrow> nat" where
  "longest ps = fold max (map length ps) 0"

lemma longest_Nil [simp]: "longest [] = 0"
  by (simp add: longest_def)

lemma longest_snoc [simp]: "longest (ps @ [p]) = max (longest ps) (length p)"
  by (simp add: longest_def max.commute)

lemma length_le_longest: "p \<in> set ps \<Longrightarrow> length p \<le> longest ps"
  by (induction ps rule: rev_induct) auto

lemma longest_le: "longest ps \<le> n \<longleftrightarrow> (\<forall>p\<in>set ps. length p \<le> n)"
  by (induction ps rule: rev_induct) auto

lemma padded_beyond: "longest ps \<le> i \<Longrightarrow> p \<in> set ps \<Longrightarrow> padded p i = 0"
  using length_le_longest [of p ps] by (simp add: padded_def)

section \<open>Words\<close>

lemma xor_self_cancel [simp]: "(a :: 'a::len word) XOR (a XOR b) = b"
  by (metis xor.assoc xor.left_neutral xor_self_eq)

lemma unat_inj [simp]: "unat (x :: 'a::len word) = unat y \<longleftrightarrow> x = y"
  by (rule word_unat_eq_iff [symmetric])

lemma of_nat_unat [simp]: "of_nat (unat (x :: 'a::len word)) = x"
  by simp

lemma unat_of_nat_u8: "n < 256 \<Longrightarrow> unat (of_nat n :: u8) = n"
  by (simp add: unat_of_nat)

section \<open>Characters of C\<close>

text \<open>\<^verbatim>\<open>isspace\<close> of the C locale, the terminating zero, and the string that starts in an array of characters.\<close>

definition is_space :: "char \<Rightarrow> bool" where
  "is_space ch \<longleftrightarrow> ch = CHR '' '' \<or> (9 \<le> (of_char ch :: nat) \<and> (of_char ch :: nat) \<le> 13)"

abbreviation NUL :: char where "NUL \<equiv> CHR 0x00"

definition c_string :: "string \<Rightarrow> string option" where
  \<comment> \<open>there is none when the zero is missing: reading on leaves the array\<close>
  "c_string arr = (if NUL \<in> set arr then Some (takeWhile (\<lambda>ch. ch \<noteq> NUL) arr) else None)"

definition strncpy :: "string \<Rightarrow> string \<Rightarrow> string option" where
  \<comment> \<open>\<open>strncpy(arr, s, strlen(s))\<close>: as many bytes as the string has, no terminating zero\<close>
  "strncpy arr s = (if length s \<le> length arr then Some (s @ drop (length s) arr) else None)"

lemma c_string_append: "c_string (s @ NUL # rest) = Some (takeWhile (\<lambda>c. c \<noteq> NUL) s)"
  by (induction s) (auto simp: c_string_def)

lemma takeWhile_not_NUL [simp]: "NUL \<notin> set s \<Longrightarrow> takeWhile (\<lambda>c. c \<noteq> NUL) s = s"
  by (auto simp: takeWhile_eq_all_conv)

lemma length_filter_upt: "length (filter P [0..<n]) = card {i. i < n \<and> P i}"
proof -
  have "{x. P x} \<inter> set [0..<n] = {i. i < n \<and> P i}" by auto
  then show ?thesis using distinct_length_filter [of "[0..<n]" P] by simp
qed

end
