(* ===== verification/GF256.thy ===== *)
theory GF256
  imports Prelude
begin

text \<open>
  The field with 256 elements that the erasure coder computes in. Bytes are polynomials
  over GF(2) modulo \<open>x^8 + x^4 + x^3 + x^2 + 1\<close> (\<^verbatim>\<open>0x11d\<close>, the modulus both
  \<^verbatim>\<open>gf_math_find_mod\<close> and \<^verbatim>\<open>Get_primitive_polynomial\<close> choose for 8-bit symbols). The theory
  gives the reference multiplication, proves that 2 is a primitive element and makes the
  type \<open>gf256\<close> an instance of the class of fields, so that the linear algebra of the code
  is done with the library's sums and field rules.
\<close>

section \<open>Multiplication by the generator\<close>

definition xtime :: "u8 \<Rightarrow> u8" where
  "xtime x = push_bit 1 x XOR (if bit x 7 then 0x1D else 0)"

lemma xtime_xor: "xtime (x XOR y) = xtime x XOR xtime y"
  by (simp add: xtime_def bit_xor_iff ac_simps)

lemma xtime_0 [simp]: "xtime 0 = 0"
  by (simp add: xtime_def)

definition gexp :: "nat \<Rightarrow> u8" where
  "gexp i = (xtime ^^ i) 1"

lemma gexp_0 [simp]: "gexp 0 = 1"
  by (simp add: gexp_def)

lemma gexp_Suc: "gexp (Suc i) = xtime (gexp i)"
  by (simp add: gexp_def)

section \<open>Reference multiplication\<close>

fun gmul_bits :: "nat \<Rightarrow> u8 \<Rightarrow> u8 \<Rightarrow> u8" where
  "gmul_bits 0 x y = 0"
| "gmul_bits (Suc n) x y = (if bit y 0 then x else 0) XOR gmul_bits n (xtime x) (drop_bit 1 y)"

definition gmul :: "u8 \<Rightarrow> u8 \<Rightarrow> u8" where
  "gmul x y = gmul_bits 8 x y"

lemma gmul_bits_xor_left:
  "gmul_bits n (x XOR x') y = gmul_bits n x y XOR gmul_bits n x' y"
  by (induction n arbitrary: x x' y) (simp_all add: xtime_xor ac_simps)

lemma gmul_bits_xor_right:
  "gmul_bits n x (y XOR y') = gmul_bits n x y XOR gmul_bits n x y'"
proof (induction n arbitrary: x y y')
  case (Suc n)
  have "drop_bit 1 (y XOR y') = drop_bit 1 y XOR drop_bit 1 y'"
    by (simp add: drop_bit_xor)
  with Suc show ?case by (simp add: bit_xor_iff ac_simps)
qed simp

lemma gmul_bits_zero_left [simp]: "gmul_bits n 0 y = 0"
  by (induction n arbitrary: y) simp_all

lemma gmul_bits_zero_right [simp]: "gmul_bits n x 0 = 0"
  by (induction n arbitrary: x) simp_all

lemma gmul_bits_xtime: "gmul_bits n (xtime x) y = xtime (gmul_bits n x y)"
  by (induction n arbitrary: x y) (simp_all add: xtime_xor)

lemma gmul_xor_left: "gmul (x XOR x') y = gmul x y XOR gmul x' y"
  by (simp add: gmul_def gmul_bits_xor_left)

lemma gmul_xor_right: "gmul x (y XOR y') = gmul x y XOR gmul x y'"
  by (simp add: gmul_def gmul_bits_xor_right)

lemma gmul_zero [simp]: "gmul 0 y = 0" "gmul x 0 = 0"
  by (simp_all add: gmul_def)

lemma gmul_xtime: "gmul (xtime x) y = xtime (gmul x y)"
  by (simp add: gmul_def gmul_bits_xtime)

lemmas gmul_eval = gmul_def eval_nat_numeral xtime_def

lemma gmul_bits_unfold8:
  "gmul_bits 8 x y =
     (if bit y 0 then x else 0) XOR (if bit y 1 then (xtime ^^ 1) x else 0)
     XOR (if bit y 2 then (xtime ^^ 2) x else 0) XOR (if bit y 3 then (xtime ^^ 3) x else 0)
     XOR (if bit y 4 then (xtime ^^ 4) x else 0) XOR (if bit y 5 then (xtime ^^ 5) x else 0)
     XOR (if bit y 6 then (xtime ^^ 6) x else 0) XOR (if bit y 7 then (xtime ^^ 7) x else 0)"
  by (simp add: eval_nat_numeral bit_drop_bit_eq ac_simps)

lemma gmul_one_left [simp]: "gmul 1 y = y"
proof -
  have p: "(xtime ^^ 1) 1 = 2" "(xtime ^^ 2) 1 = 4" "(xtime ^^ 3) 1 = 8" "(xtime ^^ 4) 1 = 16"
    "(xtime ^^ 5) 1 = 32" "(xtime ^^ 6) 1 = 64" "(xtime ^^ 7) 1 = 128"
    by (simp_all add: eval_nat_numeral xtime_def)
  show ?thesis
    unfolding gmul_def gmul_bits_unfold8 p
  proof (rule bit_word_eqI, goal_cases)
    case (1 n)
    then have "n = 0 \<or> n = 1 \<or> n = 2 \<or> n = 3 \<or> n = 4 \<or> n = 5 \<or> n = 6 \<or> n = 7" by auto
    then show ?case by (elim disjE) (simp_all add: bit_xor_iff)
  qed
qed

section \<open>2 is a primitive element\<close>

lemma gmul_gexp: "gmul (gexp i) (gexp j) = gexp (i + j)"
  by (induction i) (simp_all add: gexp_Suc gmul_xtime)

lemma gexp_double: "gexp (2 * i) = gmul (gexp i) (gexp i)"
  by (simp add: gmul_gexp mult_2)

lemma gmul_expand:
  "gmul x y =
     (if bit y 0 then x else 0) XOR (if bit y 1 then xtime x else 0)
     XOR (if bit y 2 then xtime (xtime x) else 0)
     XOR (if bit y 3 then xtime (xtime (xtime x)) else 0)
     XOR (if bit y 4 then xtime (xtime (xtime (xtime x))) else 0)
     XOR (if bit y 5 then xtime (xtime (xtime (xtime (xtime x)))) else 0)
     XOR (if bit y 6 then xtime (xtime (xtime (xtime (xtime (xtime x))))) else 0)
     XOR (if bit y 7 then xtime (xtime (xtime (xtime (xtime (xtime (xtime x)))))) else 0)"
  unfolding gmul_def gmul_bits_unfold8 by (simp add: eval_nat_numeral)

lemma gexp_1: "gexp 1 = 2"
  by (simp add: gexp_Suc xtime_def)

lemma gexp_2: "gexp 2 = 4"
  using gexp_double [of 1] by (simp add: gexp_1 [simplified] gmul_expand xtime_def)

lemma gexp_4: "gexp 4 = 16"
  using gexp_double [of 2] by (simp add: gexp_2 gmul_expand xtime_def)

lemma gexp_8: "gexp 8 = 29"
  using gexp_double [of 4] by (simp add: gexp_4 gmul_expand xtime_def)

lemma gexp_16: "gexp 16 = 76"
  using gexp_double [of 8] by (simp add: gexp_8 gmul_expand xtime_def)

lemma gexp_32: "gexp 32 = 157"
  using gexp_double [of 16] by (simp add: gexp_16 gmul_expand xtime_def)

lemma gexp_64: "gexp 64 = 95"
  using gexp_double [of 32] by (simp add: gexp_32 gmul_expand xtime_def)

lemma gexp_128: "gexp 128 = 133"
  using gexp_double [of 64] by (simp add: gexp_64 gmul_expand xtime_def)

lemmas gexp_pow2 = gexp_1 gexp_2 gexp_4 gexp_8 gexp_16 gexp_32 gexp_64 gexp_128

lemma gexp_3: "gexp 3 = 8"
  using gmul_gexp [of 2 1] by (simp add: gexp_pow2 gexp_1 [simplified] gmul_expand xtime_def)

lemma gexp_12: "gexp 12 = 205"
  using gmul_gexp [of 8 4] by (simp add: gexp_pow2 gmul_expand xtime_def)

lemma gexp_15: "gexp 15 = 38"
  using gmul_gexp [of 12 3] by (simp add: gexp_12 gexp_3 gmul_expand xtime_def)

lemma gexp_48: "gexp 48 = 70"
  using gmul_gexp [of 32 16] by (simp add: gexp_pow2 gmul_expand xtime_def)

lemma gexp_51: "gexp 51 = 10"
  using gmul_gexp [of 48 3] by (simp add: gexp_48 gexp_3 gmul_expand xtime_def)

lemma gexp_204: "gexp 204 = 221"
  using gexp_double [of 102] gexp_double [of 51]
  by (simp add: gexp_51 gmul_expand xtime_def)

lemma gexp_255: "gexp 255 = 1"
  using gmul_gexp [of 204 51] by (simp add: gexp_204 gexp_51 gmul_expand xtime_def)

lemma gexp_17: "gexp 17 = 152"
  using gmul_gexp [of 16 1] by (simp add: gexp_pow2 gexp_1 [simplified] gmul_expand xtime_def)

lemma gexp_68: "gexp 68 = 153"
  using gmul_gexp [of 64 4] by (simp add: gexp_pow2 gmul_expand xtime_def)

lemma gexp_85: "gexp 85 = 214"
  using gmul_gexp [of 68 17] by (simp add: gexp_68 gexp_17 gmul_expand xtime_def)

lemma xtime_pow: "(xtime ^^ i) y = gmul (gexp i) y"
  by (induction i) (simp_all add: gexp_Suc gmul_xtime)

lemma xtime_pow_255 [simp]: "(xtime ^^ 255) y = y"
  by (simp add: xtime_pow gexp_255)

lemma xtime_inj: "xtime x = xtime y \<Longrightarrow> x = y"
proof -
  assume eq: "xtime x = xtime y"
  have z: "(xtime ^^ 254) (xtime z) = z" for z
  proof -
    have "(xtime ^^ Suc 254) z = (xtime ^^ 254) (xtime z)" by (simp only: funpow_Suc_right o_apply)
    then show ?thesis by simp
  qed
  have "x = (xtime ^^ 254) (xtime x)" by (rule z [symmetric])
  also have "\<dots> = y" unfolding eq by (rule z)
  finally show "x = y" .
qed

lemma gexp_diff: "i \<le> j \<Longrightarrow> gexp i = gexp j \<Longrightarrow> gexp (j - i) = 1"
proof (induction i arbitrary: j)
  case (Suc i)
  then obtain j' where j: "j = Suc j'" by (cases j) auto
  with Suc.prems have "gexp i = gexp j'" by (auto simp: gexp_Suc dest: xtime_inj)
  with Suc.IH [of j'] Suc.prems j show ?case by simp
qed simp

lemma gexp_mult_period: "gexp d = 1 \<Longrightarrow> gexp (d * m) = 1"
  by (induction m) (simp_all flip: gmul_gexp)

lemma gexp_gcd: assumes "gexp a = 1" and "gexp b = 1" and "a \<noteq> 0" shows "gexp (gcd a b) = 1"
proof -
  obtain x y where "a * x = b * y + gcd a b" using bezout_nat [OF assms(3)] by metis
  then have "gexp (a * x) = gmul (gexp (b * y)) (gexp (gcd a b))" by (simp add: gmul_gexp)
  with assms show ?thesis by (simp add: gexp_mult_period)
qed

lemma divisors_255:
  assumes "g dvd (255::nat)" and "g \<noteq> 255"
  shows "g dvd 15 \<or> g dvd 51 \<or> g dvd 85"
proof -
  obtain m where m: "255 = g * m" using assms(1) by (rule dvdE)
  have small:
    "list_all (\<lambda>m. m dvd 255 \<longrightarrow> 255 div m dvd 15 \<or> 255 div m dvd 51 \<or> 255 div m dvd 85) [2..<16]"
    "list_all (\<lambda>g. g dvd 255 \<longrightarrow> g dvd 15 \<or> g dvd 51 \<or> g dvd 85) [2..<16]" by simp_all
  have "g \<noteq> 0" and "m \<noteq> 0" and "m \<noteq> 1" using m assms(2) by (auto intro: Nat.gr0I)
  show ?thesis
  proof (cases "g \<le> 15")
    case True
    show ?thesis
    proof (cases "g = 1")
      case False
      with True \<open>g \<noteq> 0\<close> have "g \<in> set [2..<16]" unfolding set_upt atLeastLessThan_iff by linarith
      with small(2) assms(1) show ?thesis unfolding list_all_iff by blast
    qed simp
  next
    case False
    then have "16 \<le> g" by simp
    then have "16 * m \<le> 255" unfolding m by (rule mult_le_mono1)
    then have "m \<in> set [2..<16]"
      unfolding set_upt atLeastLessThan_iff using \<open>m \<noteq> 0\<close> \<open>m \<noteq> 1\<close> by linarith
    moreover have "m dvd 255" unfolding m by simp
    moreover have "255 div m = g" unfolding m using \<open>m \<noteq> 0\<close> by simp
    ultimately show ?thesis using small(1) unfolding list_all_iff by metis
  qed
qed

lemma gexp_order: assumes "gexp d = 1" and "0 < d" shows "255 \<le> d"
proof (rule ccontr)
  assume "\<not> 255 \<le> d"
  define g where "g = gcd d 255"
  have g: "gexp g = 1" unfolding g_def using assms gexp_255 by (intro gexp_gcd) auto
  have "g \<le> d" unfolding g_def using assms(2) by (simp add: gcd_le1_nat)
  with \<open>\<not> 255 \<le> d\<close> have "g \<noteq> 255" by simp
  moreover have "g dvd 255" by (simp add: g_def)
  ultimately have "g dvd 15 \<or> g dvd 51 \<or> g dvd 85" by (rule divisors_255 [rotated])
  then have "gexp 15 = 1 \<or> gexp 51 = 1 \<or> gexp 85 = 1"
    using gexp_mult_period [OF g] by (metis dvdE)
  then show False by (simp add: gexp_15 gexp_51 gexp_85)
qed

lemma gexp_inj_on: "inj_on gexp {0..<255}"
proof (rule linorder_inj_onI')
  fix i j :: nat
  assume "i \<in> {0..<255}" "j \<in> {0..<255}" "i < j"
  then show "gexp i \<noteq> gexp j" using gexp_diff [of i j] gexp_order [of "j - i"] by auto
qed

lemma gexp_nonzero [simp]: "gexp i \<noteq> 0"
proof (induction i)
  case (Suc i)
  then show ?case using xtime_inj [of "gexp i" 0] by (auto simp: gexp_Suc)
qed simp

lemma gexp_image: "gexp ` {0..<255} = - {0}"
proof (rule card_subset_eq)
  show "card (gexp ` {0..<255}) = card (- {0 :: u8})"
    using card_image [OF gexp_inj_on] by (simp add: Compl_eq_Diff_UNIV card_Diff_subset card_word)
qed auto

lemma gexp_surj: assumes "x \<noteq> 0" obtains i where "i < 255" and "x = gexp i"
proof -
  from assms have "x \<in> gexp ` {0..<255}" by (simp add: gexp_image)
  then show ?thesis using that by auto
qed

lemma gexp_period [simp]: "gexp (i + 255) = gexp i"
  by (metis gmul_gexp gexp_255 gmul_one_left add.commute)

lemma gexp_mod: "gexp (i mod 255) = gexp i"
proof -
  have "gexp (i mod 255 + 255 * (i div 255)) = gexp (i mod 255)"
    by (metis gmul_gexp gexp_255 gexp_mult_period gmul_one_left add.commute)
  then show ?thesis by (simp add: mod_mult_div_eq)
qed

section \<open>Field laws of the reference multiplication\<close>

lemma gmul_commute: "gmul x y = gmul y x"
proof (cases "x = 0 \<or> y = 0")
  case False
  then obtain i j where "x = gexp i" "y = gexp j" by (metis gexp_surj)
  then show ?thesis by (simp add: gmul_gexp add.commute)
qed auto

lemma gmul_assoc: "gmul (gmul x y) z = gmul x (gmul y z)"
proof (cases "x = 0 \<or> y = 0 \<or> z = 0")
  case False
  then obtain i j l where "x = gexp i" "y = gexp j" "z = gexp l" by (metis gexp_surj)
  then show ?thesis by (simp add: gmul_gexp add.assoc)
qed auto

lemma gmul_one_right [simp]: "gmul x 1 = x"
  by (simp add: gmul_commute [of x])

definition ginv :: "u8 \<Rightarrow> u8" where
  "ginv x = (gmul x ^^ 254) 1"

lemma gmul_pow_gexp: "(gmul (gexp i) ^^ n) 1 = gexp (n * i)"
  by (induction n) (simp_all add: gmul_gexp)

lemma ginv_gexp: "ginv (gexp i) = gexp (254 * i)"
  by (simp add: ginv_def gmul_pow_gexp)

lemma ginv_0 [simp]: "ginv 0 = 0"
  by (simp add: ginv_def eval_nat_numeral)

lemma gmul_ginv: assumes "x \<noteq> 0" shows "gmul (ginv x) x = 1"
proof -
  obtain i where "x = gexp i" using assms by (metis gexp_surj)
  moreover have "254 * i + i = 255 * i" by simp
  ultimately show ?thesis
    by (metis ginv_gexp gmul_gexp gexp_255 gexp_mult_period)
qed

section \<open>The type of field elements\<close>

typedef gf256 = "UNIV :: u8 set" morphisms gf_rep gf
  by simp

setup_lifting type_definition_gf256

instantiation gf256 :: field
begin

lift_definition zero_gf256 :: gf256 is 0 .
lift_definition one_gf256 :: gf256 is 1 .
lift_definition plus_gf256 :: "gf256 \<Rightarrow> gf256 \<Rightarrow> gf256" is "\<lambda>x y. x XOR y" .
lift_definition minus_gf256 :: "gf256 \<Rightarrow> gf256 \<Rightarrow> gf256" is "\<lambda>x y. x XOR y" .
lift_definition uminus_gf256 :: "gf256 \<Rightarrow> gf256" is "\<lambda>x. x" .
lift_definition times_gf256 :: "gf256 \<Rightarrow> gf256 \<Rightarrow> gf256" is gmul .
lift_definition inverse_gf256 :: "gf256 \<Rightarrow> gf256" is ginv .
lift_definition divide_gf256 :: "gf256 \<Rightarrow> gf256 \<Rightarrow> gf256" is "\<lambda>x y. gmul x (ginv y)" .

instance
proof
  fix a b c :: gf256
  show "a + b + c = a + (b + c)" by transfer (simp add: ac_simps)
  show "a + b = b + a" by transfer (simp add: ac_simps)
  show "0 + a = a" by transfer simp
  show "- a + a = 0" by transfer simp
  show "a - b = a + - b" by transfer simp
  show "a * b * c = a * (b * c)" by transfer (simp add: gmul_assoc)
  show "a * b = b * a" by transfer (rule gmul_commute)
  show "1 * a = a" by transfer simp
  show "(a + b) * c = a * c + b * c" by transfer (rule gmul_xor_left)
  show "(0 :: gf256) \<noteq> 1" by transfer simp
  show "a \<noteq> 0 \<Longrightarrow> inverse a * a = 1" by transfer (rule gmul_ginv)
  show "a div b = a * inverse b" by transfer simp
  show "inverse (0 :: gf256) = 0" by transfer simp
qed

end

lemma gf_rep_gf [simp]: "gf_rep (gf x) = x" and gf_gf_rep [simp]: "gf (gf_rep y) = y"
  by (simp_all add: gf_inverse gf_rep_inverse)

lemma gf_eq_iff [simp]: "gf x = gf y \<longleftrightarrow> x = y"
  by (metis gf_rep_gf)

lemma gf_zero [simp]: "gf 0 = 0" and gf_one [simp]: "gf 1 = 1"
  by (simp_all add: zero_gf256_def one_gf256_def)

lemma gf_zero_iff [simp]: "gf x = 0 \<longleftrightarrow> x = 0"
  by (metis gf_eq_iff gf_zero)

lemma gf_xor: "gf (x XOR y) = gf x + gf y"
  by (metis plus_gf256.rep_eq gf_rep_gf gf_gf_rep)

lemma gf_gmul: "gf (gmul x y) = gf x * gf y"
  by (metis times_gf256.rep_eq gf_rep_gf gf_gf_rep)

lemma gf_ginv: "gf (ginv x) = inverse (gf x)"
  by (metis inverse_gf256.rep_eq gf_rep_gf gf_gf_rep)

lemma gf256_minus_plus: "(a :: gf256) - b = a + b"
  by transfer simp

lemma gf256_uminus [simp]: "- (a :: gf256) = a"
  by transfer simp

lemma gf256_add_self [simp]: "(a :: gf256) + a = 0"
  by transfer simp

end
