(* ===== verification/Rse_Math.thy ===== *)
theory Rse_Math
  imports GF256
begin

text \<open>
  Galois-field arithmetic of the reference coder \<^verbatim>\<open>rse.bkp.c\<close>: the constants it takes from
  its header, the generation of the logarithm, exponent and inverse tables, the multiply
  and multiply-accumulate macros in both of their compile-time variants. The tables are
  shown to hold the logarithms, powers and inverses of the field of \<^verbatim>\<open>GF256\<close>, and the
  macros to compute its product.

  \<^verbatim>\<open>rse.h\<close> is not part of the repository. What the code takes from it are parameters: the
  numeric constants are the fields of a record that every operation receives, and the theorems name
  what they need of them.
\<close>

section \<open>Constants\<close>

text \<open>\<^verbatim>\<open>FPGA/RSEConfig/Configuration.h\<close> fixes the largest group.\<close>

definition FEC_MAX_K :: nat where "FEC_MAX_K = 50"
definition FEC_MAX_H :: nat where "FEC_MAX_H = 5"

datatype fec_err = FEC_ERR_MOD_NOT_FOUND | FEC_ERR_INVALID_PARAMS | FEC_ERR_ENC_MISSING_DATA

record rse_h =
  FEC_M :: nat
  FEC_N :: nat
  FEC_MAX_N :: nat
  FEC_MAX_COLS :: nat
  FEC_EXTRA_COLS :: nat
  fec_errno :: "fec_err \<Rightarrow> int"

text \<open>The configuration with one-byte symbols, one symbol for every byte value.\<close>

definition byte_symbols :: "rse_h \<Rightarrow> bool" where
  "byte_symbols c \<longleftrightarrow> FEC_M c = 8 \<and> FEC_N c = 256"

lemma byte_symbolsD: "byte_symbols c \<Longrightarrow> FEC_M c = 8" "byte_symbols c \<Longrightarrow> FEC_N c = 256"
  by (simp_all add: byte_symbols_def)

section \<open>Tables\<close>

record gf_tables =
  fec_2_log :: "fec_sym list"
  fec_2_exp :: "fec_sym list"
  fec_invefec :: "fec_sym list"

definition zero_tables :: "rse_h \<Rightarrow> gf_tables" where
  \<comment> \<open>the static arrays before initialisation\<close>
  "zero_tables c = \<lparr>fec_2_log = replicate (FEC_N c) 0, fec_2_exp = replicate (FEC_N c) 0,
     fec_invefec = replicate (FEC_N c) 0\<rparr>"

definition gf_math_find_mod :: "rse_h \<Rightarrow> int" where
  "gf_math_find_mod c =
     (if FEC_M c = 3 then 0xb
      else if FEC_M c = 4 then 0x13
      else if FEC_M c = 5 then 0x25
      else if FEC_M c = 6 then 0x43
      else if FEC_M c = 7 then 0x89
      else if FEC_M c = 8 then 0x11d
      else if FEC_M c = 16 then 0x1100b
      else fec_errno c FEC_ERR_MOD_NOT_FOUND)"

definition next_power :: "rse_h \<Rightarrow> gf_tables \<Rightarrow> nat \<Rightarrow> fec_sym" where
  \<comment> \<open>the value written to \<open>fec_2_exp[i]\<close>\<close>
  "next_power c t i =
     (if i = 0 then 1
      else let temp = uint (fec_2_exp t ! (i - 1)) * 2
           in if int (FEC_N c) \<le> temp then word_of_int (temp XOR gf_math_find_mod c)
              else word_of_int temp)"

definition gf_math_log_tables_generate :: "rse_h \<Rightarrow> gf_tables \<Rightarrow> gf_tables" where
  "gf_math_log_tables_generate c t =
     (let t1 = for_loop 0 (FEC_N c)
            (\<lambda>i t. let e = next_power c t i in
               t\<lparr>fec_2_exp := (fec_2_exp t)[i := e],
                 fec_2_log := (fec_2_log t)[unat e := of_nat i]\<rparr>) t
      in for_loop 0 (FEC_N c)
            (\<lambda>i t. t\<lparr>fec_invefec :=
               (fec_invefec t)[unat (fec_2_exp t ! (FEC_N c - 1 - unat (fec_2_log t ! i))) := of_nat i]\<rparr>) t1)"

section \<open>Multiplication\<close>

text \<open>
  The macros take C integers: the generator passes \<^verbatim>\<open>j+1\<close>. An index at or beyond
  \<^verbatim>\<open>FEC_N\<close> would read outside the tables, so the theorems ask for operands below it.
\<close>

definition FEC_GF_MULT :: "rse_h \<Rightarrow> gf_tables \<Rightarrow> nat \<Rightarrow> nat \<Rightarrow> fec_sym" where
  "FEC_GF_MULT c t a b =
     (if a \<noteq> 0 \<and> b \<noteq> 0
      then if unat (fec_2_log t ! a) + unat (fec_2_log t ! b) > FEC_N c - 1
           then fec_2_exp t ! (unat (fec_2_log t ! a) + unat (fec_2_log t ! b) - (FEC_N c - 1))
           else fec_2_exp t ! (unat (fec_2_log t ! a) + unat (fec_2_log t ! b))
      else 0)"

definition FEC_MAC :: "rse_h \<Rightarrow> gf_tables \<Rightarrow> fec_sym \<Rightarrow> fec_sym \<Rightarrow> fec_sym \<Rightarrow> fec_sym" where
  "FEC_MAC c t a b p =
     (if a \<noteq> 0 \<and> b \<noteq> 0
      then if unat (fec_2_log t ! unat a) + unat (fec_2_log t ! unat b) > FEC_N c - 1
           then p XOR fec_2_exp t ! (unat (fec_2_log t ! unat a) + unat (fec_2_log t ! unat b) - (FEC_N c - 1))
           else p XOR fec_2_exp t ! (unat (fec_2_log t ! unat a) + unat (fec_2_log t ! unat b))
      else p)"

text \<open>The variant with one lookup in an \<open>N \<times> N\<close> table (\<^verbatim>\<open>FEC_MAC_LOOKUP\<close>).\<close>

definition gf_math_mult_tables_generate :: "rse_h \<Rightarrow> gf_tables \<Rightarrow> fec_sym list list \<Rightarrow> fec_sym list list" where
  "gf_math_mult_tables_generate c t gf_table =
     for_loop 0 (FEC_N c) (\<lambda>i g. for_loop 0 (FEC_N c)
        (\<lambda>j g. g[i := (g ! i)[j := FEC_GF_MULT c t i j]]) g) gf_table"

definition FEC_MAC_LOOKUP :: "rse_h \<Rightarrow> fec_sym list list \<Rightarrow> fec_sym \<Rightarrow> fec_sym \<Rightarrow> fec_sym \<Rightarrow> fec_sym" where
  \<comment> \<open>\<open>*((fec_sym *)gf_mult_table + (a << FEC_M) + b)\<close>: entry \<open>a << FEC_M + b\<close> of the flat array\<close>
  "FEC_MAC_LOOKUP c gf_mult_table a b p =
     (if a \<noteq> 0 \<and> b \<noteq> 0 then p XOR concat gf_mult_table ! (push_bit (FEC_M c) (unat a) + unat b) else p)"

section \<open>Correctness of the tables\<close>

definition tables_ok :: "gf_tables \<Rightarrow> bool" where
  "tables_ok t \<longleftrightarrow>
     (\<forall>i<256. fec_2_exp t ! i = gexp i) \<and>
     (\<forall>x. x \<noteq> 0 \<longrightarrow> 0 < unat (fec_2_log t ! unat x) \<and> gexp (unat (fec_2_log t ! unat x)) = x) \<and>
     (\<forall>x. fec_invefec t ! unat x = ginv x)"

lemma bit_7_iff: "bit (x :: u8) 7 \<longleftrightarrow> 128 \<le> uint x"
proof -
  have "0 \<le> uint x" and "uint x < 256" using unsigned_less [of x, where ?'a = int] by simp_all
  then have "uint x div 128 = (if uint x < 128 then 0 else 1)" by auto
  moreover have "bit x 7 \<longleftrightarrow> bit (uint x) 7" by (simp add: bit_uint_iff)
  ultimately show ?thesis by (simp add: bit_iff_odd)
qed

lemma xtime_int:
  "xtime x = (let v = uint x * 2 in if 256 \<le> v then word_of_int (v XOR 0x11d) else word_of_int v)"
proof -
  have "word_of_int (uint x * 2) = push_bit 1 x" by (simp add: push_bit_eq_mult)
  moreover have "(word_of_int (v XOR 0x11d) :: u8) = word_of_int v XOR 0x1D" for v
  proof -
    have "(word_of_int (v XOR 0x11d) :: u8) = word_of_int v XOR word_of_int 0x11d"
      by (rule of_int_xor_eq)
    also have "(word_of_int 0x11d :: u8) = 0x1D" by simp
    finally show ?thesis .
  qed
  ultimately show ?thesis by (simp add: Let_def xtime_def bit_7_iff)
qed

lemma next_power_gexp:
  assumes "byte_symbols c" and "\<And>j. j < i \<Longrightarrow> fec_2_exp t ! j = gexp j"
  shows "next_power c t i = gexp i"
proof (cases i)
  case (Suc j)
  with assms show ?thesis
    by (simp add: next_power_def gf_math_find_mod_def byte_symbols_def gexp_Suc xtime_int Let_def)
qed (simp add: next_power_def)

text \<open>First loop: powers and logarithms.\<close>

definition log_loop_inv :: "nat \<Rightarrow> gf_tables \<Rightarrow> bool" where
  "log_loop_inv i t \<longleftrightarrow>
     length (fec_2_exp t) = 256 \<and> length (fec_2_log t) = 256 \<and> length (fec_invefec t) = 256 \<and>
     (\<forall>j<i. fec_2_exp t ! j = gexp j) \<and> fec_2_log t ! 0 = 0 \<and> fec_invefec t ! 0 = 0 \<and>
     (\<forall>j<i. gexp (unat (fec_2_log t ! unat (gexp j))) = gexp j) \<and>
     (i = 256 \<longrightarrow> fec_2_log t ! 1 = 255)"

lemma log_loop_inv_step:
  assumes c: "byte_symbols c" and i: "i < 256" and inv: "log_loop_inv i t"
  shows "log_loop_inv (Suc i)
     (let e = next_power c t i in t\<lparr>fec_2_exp := (fec_2_exp t)[i := e],
        fec_2_log := (fec_2_log t)[unat e := of_nat i]\<rparr>)"
proof -
  have e: "next_power c t i = gexp i"
    using inv by (intro next_power_gexp [OF c]) (simp add: log_loop_inv_def)
  have u: "unat (of_nat i :: u8) = i" using i by (rule unat_of_nat_u8)
  have nz: "unat (gexp i) \<noteq> 0" by (simp add: unat_eq_zero)
  have "i = 255 \<longrightarrow> unat (gexp i) = 1" by (simp add: gexp_255)
  then show ?thesis using inv i u nz
    by (auto simp: e log_loop_inv_def Let_def upd_nth_if less_Suc_eq)
qed

lemma log_loop:
  assumes c: "byte_symbols c"
  shows "log_loop_inv 256 (for_loop 0 (FEC_N c)
     (\<lambda>i t. let e = next_power c t i in t\<lparr>fec_2_exp := (fec_2_exp t)[i := e],
        fec_2_log := (fec_2_log t)[unat e := of_nat i]\<rparr>) (zero_tables c))"
proof -
  have "FEC_N c = 256" using c by (rule byte_symbolsD)
  moreover have "log_loop_inv 0 (zero_tables c)"
    using c by (simp add: log_loop_inv_def zero_tables_def byte_symbols_def)
  ultimately show ?thesis
    using for_loop_induct [of 0 256 log_loop_inv] log_loop_inv_step [OF c] by simp
qed

lemma log_loop_inv_log:
  assumes "log_loop_inv 256 t" and "x \<noteq> 0"
  shows "0 < unat (fec_2_log t ! unat x) \<and> gexp (unat (fec_2_log t ! unat x)) = x"
proof -
  obtain j where "j < 255" and j: "x = gexp j" using assms(2) by (rule gexp_surj)
  then have g: "gexp (unat (fec_2_log t ! unat x)) = x"
    using assms(1) by (simp add: log_loop_inv_def)
  moreover have "unat (fec_2_log t ! unat x) \<noteq> 0"
  proof
    assume z: "unat (fec_2_log t ! unat x) = 0"
    with g have "x = 1" by simp
    with z assms(1) show False by (simp add: log_loop_inv_def)
  qed
  ultimately show ?thesis by simp
qed

text \<open>Second loop: inverses.\<close>

lemma gexp_inverse:
  assumes "n \<le> 255" shows "gexp (255 - n) = ginv (gexp n)"
proof -
  have "gf (gexp (255 - n)) * gf (gexp n) = 1"
    using assms by (simp add: gmul_gexp gexp_255 flip: gf_gmul)
  then have "gf (gexp (255 - n)) = gf (ginv (gexp n))"
    by (simp add: gf_ginv field_simps)
  then show ?thesis by simp
qed

lemma ginv_ginv [simp]: "ginv (ginv x) = x"
proof -
  have "gf (ginv (ginv x)) = gf x" by (simp add: gf_ginv)
  then show ?thesis by simp
qed

lemma ginv_eq_iff [simp]: "ginv x = ginv y \<longleftrightarrow> x = y"
  by (metis ginv_ginv)

lemma ginv_eq_0_iff [simp]: "ginv x = 0 \<longleftrightarrow> x = 0"
  by (metis ginv_0 ginv_ginv)

definition inv_loop_inv :: "nat \<Rightarrow> gf_tables \<Rightarrow> bool" where
  "inv_loop_inv i t \<longleftrightarrow>
     log_loop_inv 256 t \<and>
     (\<forall>x. x \<noteq> 0 \<longrightarrow> unat x < i \<longrightarrow> fec_invefec t ! unat (ginv x) = x)"

lemma inv_loop_index:
  assumes "log_loop_inv 256 t" and "i < 256"
  shows "fec_2_exp t ! (255 - unat (fec_2_log t ! i)) = (if i = 0 then 1 else ginv (of_nat i))"
proof (cases "i = 0")
  case True
  with assms show ?thesis by (simp add: log_loop_inv_def gexp_255)
next
  case False
  define x :: u8 where "x = of_nat i"
  have i: "unat x = i" unfolding x_def using assms(2) by (rule unat_of_nat_u8)
  with False have "x \<noteq> 0" by auto
  then have "gexp (unat (fec_2_log t ! i)) = x"
    using log_loop_inv_log [OF assms(1)] by (metis i)
  then have "gexp (255 - unat (fec_2_log t ! i)) = ginv x"
    using gexp_inverse [OF unat_u8_le] by metis
  with False assms show ?thesis by (simp add: log_loop_inv_def x_def)
qed

lemma inv_loop_inv_step:
  assumes c: "byte_symbols c" and i: "i < 256" and inv: "inv_loop_inv i t"
  shows "inv_loop_inv (Suc i) (t\<lparr>fec_invefec :=
     (fec_invefec t)[unat (fec_2_exp t ! (FEC_N c - 1 - unat (fec_2_log t ! i))) := of_nat i]\<rparr>)"
proof -
  have len: "length (fec_invefec t) = 256" and l: "log_loop_inv 256 t"
    using inv by (simp_all add: inv_loop_inv_def log_loop_inv_def)
  define y where "y = fec_2_exp t ! (255 - unat (fec_2_log t ! i))"
  have y: "y = (if i = 0 then 1 else ginv (of_nat i))" unfolding y_def using l i by (rule inv_loop_index)
  have u: "unat (of_nat i :: u8) = i" using i by (rule unat_of_nat_u8)
  have ynz: "unat y \<noteq> 0" using u by (cases "i = 0") (auto simp: y unat_eq_zero)
  have "log_loop_inv 256 (t\<lparr>fec_invefec := (fec_invefec t)[unat y := of_nat i]\<rparr>)"
    using l ynz by (simp add: log_loop_inv_def)
  moreover have "(fec_invefec t)[unat y := of_nat i] ! unat (ginv x) = x"
    if x: "x \<noteq> 0" "unat x < Suc i" for x
  proof (cases "unat x = i")
    case True
    then have "x = of_nat i" by (metis of_nat_unat)
    then show ?thesis using x u y len by (auto simp: unat_eq_zero)
  next
    case False
    with x have "unat x < i" and "x \<noteq> of_nat i" using u by auto
    then have "i \<noteq> 0" and "unat y \<noteq> unat (ginv x)" by (auto simp: y)
    with x \<open>unat x < i\<close> inv show ?thesis by (simp add: inv_loop_inv_def)
  qed
  ultimately show ?thesis using c by (simp add: inv_loop_inv_def byte_symbols_def y_def)
qed

theorem tables_generate_ok:
  assumes c: "byte_symbols c"
  shows "tables_ok (gf_math_log_tables_generate c (zero_tables c))"
proof -
  define t1 where "t1 = for_loop 0 (FEC_N c)
     (\<lambda>i t. let e = next_power c t i in t\<lparr>fec_2_exp := (fec_2_exp t)[i := e],
        fec_2_log := (fec_2_log t)[unat e := of_nat i]\<rparr>) (zero_tables c)"
  have "log_loop_inv 256 t1" unfolding t1_def using c by (rule log_loop)
  then have "inv_loop_inv 0 t1" by (simp add: inv_loop_inv_def)
  then have "inv_loop_inv 256 (gf_math_log_tables_generate c (zero_tables c))"
    unfolding gf_math_log_tables_generate_def Let_def t1_def [unfolded Let_def, symmetric]
    using for_loop_induct [of 0 256 inv_loop_inv] inv_loop_inv_step [OF c] byte_symbolsD(2) [OF c]
    by simp
  moreover have "fec_invefec t ! unat x = ginv x" if "inv_loop_inv 256 t" for t x
  proof (cases "x = 0")
    case True
    with that show ?thesis by (simp add: inv_loop_inv_def log_loop_inv_def)
  next
    case False
    with that have "fec_invefec t ! unat (ginv (ginv x)) = ginv x"
      unfolding inv_loop_inv_def by (metis ginv_eq_0_iff unat_u8_less)
    then show ?thesis by simp
  qed
  ultimately show ?thesis
    using log_loop_inv_log unfolding tables_ok_def inv_loop_inv_def log_loop_inv_def by blast
qed

section \<open>Correctness of the multiplication macros\<close>

lemma tables_ok_sum:
  assumes t: "tables_ok t" and c: "byte_symbols c" and "x \<noteq> 0" "y \<noteq> 0"
    and m: "m = unat (fec_2_log t ! unat x) + unat (fec_2_log t ! unat y)"
  shows "fec_2_exp t ! (if m > FEC_N c - 1 then m - (FEC_N c - 1) else m) = gmul x y"
proof -
  have N: "FEC_N c = 256" using c by (rule byte_symbolsD)
  have "unat (fec_2_log t ! unat x) < 256" "unat (fec_2_log t ! unat y) < 256" by simp_all
  then have "m - 255 < 256" unfolding m by linarith
  moreover have "gexp (m - 255) = gexp m" if "255 < m"
    using that gexp_period [of "m - 255"] by simp
  moreover have "gexp m = gmul x y"
    using assms by (simp add: tables_ok_def flip: gmul_gexp)
  ultimately show ?thesis using t by (simp add: tables_ok_def N)
qed

lemma FEC_GF_MULT_gmul:
  assumes "tables_ok t" and "byte_symbols c"
  shows "FEC_GF_MULT c t (unat x) (unat y) = gmul x y"
proof (cases "x = 0 \<or> y = 0")
  case False
  then show ?thesis
    using tables_ok_sum [OF assms, of x y] by (auto simp: FEC_GF_MULT_def unat_eq_zero)
qed (auto simp: FEC_GF_MULT_def)

lemma FEC_GF_MULT_nat:
  assumes "tables_ok t" and "byte_symbols c" and "a < 256"
  shows "FEC_GF_MULT c t a (unat y) = gmul (of_nat a) y"
  using FEC_GF_MULT_gmul [OF assms(1,2), of "of_nat a" y] assms(3) by (simp add: unat_of_nat_u8)

lemma FEC_MAC_gmul:
  assumes "tables_ok t" and "byte_symbols c"
  shows "FEC_MAC c t a b p = p XOR gmul a b"
proof (cases "a = 0 \<or> b = 0")
  case False
  then show ?thesis
    using tables_ok_sum [OF assms, of a b] by (auto simp: FEC_MAC_def)
qed (auto simp: FEC_MAC_def)

lemma FEC_MAC_LOOKUP_gmul:
  assumes t: "tables_ok t" and c: "byte_symbols c"
    and g: "length g = 256" "\<And>r. r \<in> set g \<Longrightarrow> length r = 256"
  shows "FEC_MAC_LOOKUP c (gf_math_mult_tables_generate c t g) a b p = p XOR gmul a b"
proof -
  define T where "T = map (\<lambda>i. map (FEC_GF_MULT c t i) [0..<256]) [0..<256]"
  have T: "gf_math_mult_tables_generate c t g = T"
    using g byte_symbolsD(2) [OF c] by (simp add: gf_math_mult_tables_generate_def T_def for_loop_fill)
  have "concat T ! (unat a * 256 + unat b) = T ! unat a ! unat b"
    by (rule concat_rows_nth) (auto simp: T_def)
  also have "\<dots> = gmul a b" using t c by (simp add: T_def FEC_GF_MULT_gmul)
  finally show ?thesis
    using byte_symbolsD(1) [OF c] by (auto simp: FEC_MAC_LOOKUP_def T push_bit_eq_mult)
qed

end
