(* ===== verification/Linear_Code.thy ===== *)
theory Linear_Code
  imports Prelude
begin

text \<open>
  The linear algebra behind the erasure code, over an arbitrary field and independent of
  any representation: a polynomial with as many roots as coefficients vanishes, the
  elimination that \<^verbatim>\<open>matrix_solve\<close> and \<^verbatim>\<open>Generate_generator\<close> perform (no pivoting, every
  row normalised in every round) on matrices as functions, when it reaches the identity, and
  why a systematic Vandermonde matrix has only regular square submatrices.
\<close>

section \<open>Polynomials given by their coefficients\<close>

fun horner :: "'a::comm_ring_1 list \<Rightarrow> 'a \<Rightarrow> 'a" where
  "horner [] x = 0"
| "horner (c # cs) x = c + x * horner cs x"

fun synthetic :: "'a::comm_ring_1 \<Rightarrow> 'a list \<Rightarrow> 'a list" where
  "synthetic r [] = []"
| "synthetic r [c] = []"
| "synthetic r (c # cs) = horner cs r # synthetic r cs"

lemma horner_synthetic: "horner cs x = horner cs r + (x - r) * horner (synthetic r cs) x"
proof (induction r cs rule: synthetic.induct)
  case (3 r c c' cs)
  define q where "q = horner (synthetic r (c' # cs)) x"
  have "horner (c # c' # cs) x = c + x * (horner (c' # cs) r + (x - r) * q)"
    using 3 by (simp only: horner.simps(2) [of c] q_def)
  also have "\<dots> = horner (c # c' # cs) r + (x - r) * (horner (c' # cs) r + x * q)"
    by (simp add: algebra_simps)
  finally show ?case by (simp add: q_def)
qed simp_all

lemma length_synthetic: "length (synthetic r cs) = length cs - 1"
  by (induction r cs rule: synthetic.induct) simp_all

lemma synthetic_zero:
  assumes "set (synthetic r cs) \<subseteq> {0}" and "horner cs r = 0"
  shows "set cs \<subseteq> {0}"
  using assms
proof (induction r cs rule: synthetic.induct)
  case (3 r c c' cs)
  then have "horner (c' # cs) r = 0" and "set (synthetic r (c' # cs)) \<subseteq> {0}" by simp_all
  with 3 show ?case by simp
qed simp_all

theorem horner_roots_zero:
  fixes cs :: "'a::idom list"
  assumes "finite S" and "length cs \<le> card S" and "\<And>x. x \<in> S \<Longrightarrow> horner cs x = 0"
  shows "set cs \<subseteq> {0}"
  using assms
proof (induction "length cs" arbitrary: cs S)
  case 0
  then show ?case by simp
next
  case (Suc n)
  then obtain r where r: "r \<in> S" by (metis card.empty ex_in_conv not_less_zero Suc_le_lessD)
  have "set (synthetic r cs) \<subseteq> {0}"
  proof (rule Suc.hyps(1))
    show "n = length (synthetic r cs)" using Suc.hyps(2) by (simp add: length_synthetic)
    show "finite (S - {r})" using Suc.prems by simp
    show "length (synthetic r cs) \<le> card (S - {r})"
      using Suc.hyps(2) Suc.prems(1,2) r by (simp add: length_synthetic)
    fix x assume x: "x \<in> S - {r}"
    then have "horner cs x = 0" and "horner cs r = 0" using Suc.prems r by auto
    with x show "horner (synthetic r cs) x = 0" using horner_synthetic [of cs x r] by auto
  qed
  then show ?case by (rule synthetic_zero) (rule Suc.prems(3) [OF r])
qed

lemma horner_add: "length cs = length ds \<Longrightarrow> horner (map2 (+) cs ds) x = horner cs x + horner ds x"
  by (induction cs ds rule: list_induct2) (simp_all add: algebra_simps)

lemma horner_scale: "horner (map (\<lambda>c. a * c) cs) x = a * horner cs x"
  by (induction cs) (simp_all add: algebra_simps)

lemma horner_map_upt: "horner (map f [m..<m+n]) x = (\<Sum>i<n. f (m + i) * x ^ i)"
proof (induction n arbitrary: m)
  case (Suc n)
  have "map f [m..<m + Suc n] = f m # map f [Suc m..<Suc m + n]" by (simp add: upt_rec)
  then have "horner (map f [m..<m + Suc n]) x = f m + x * (\<Sum>i<n. f (Suc m + i) * x ^ i)"
    using Suc.IH [of "Suc m"] by simp
  also have "\<dots> = (\<Sum>i<Suc n. f (m + i) * x ^ i)"
    by (simp add: sum.lessThan_Suc_shift sum_distrib_left algebra_simps del: sum.lessThan_Suc)
  finally show ?case .
qed simp

lemma horner_sum: "horner (map f [0..<n]) x = (\<Sum>i<n. f i * x ^ i)"
  using horner_map_upt [of f 0 n x] by simp

section \<open>Elimination without pivoting\<close>

type_synonym 'a mat = "nat \<Rightarrow> nat \<Rightarrow> 'a"

definition norm_rows :: "nat \<Rightarrow> nat \<Rightarrow> 'a::field mat \<Rightarrow> 'a mat" where
  "norm_rows R k M = (\<lambda>i j. if i < R \<and> M i k \<noteq> 0 then M i j * inverse (M i k) else M i j)"

definition sub_row :: "nat \<Rightarrow> nat \<Rightarrow> 'a::field mat \<Rightarrow> 'a mat" where
  "sub_row R k M = (\<lambda>i j. if i < R \<and> i \<noteq> k \<and> M i k \<noteq> 0 then M i j - M k j else M i j)"

definition elim_step :: "nat \<Rightarrow> nat \<Rightarrow> 'a::field mat \<Rightarrow> 'a mat" where
  "elim_step R k M = sub_row R k (norm_rows R k M)"

fun elim :: "nat \<Rightarrow> nat \<Rightarrow> 'a::field mat \<Rightarrow> 'a mat" where
  "elim R 0 M = M"
| "elim R (Suc k) M = elim_step R k (elim R k M)"

definition norm_diag :: "nat \<Rightarrow> 'a::field mat \<Rightarrow> 'a mat" where
  "norm_diag R M = (\<lambda>i j. if i < R then M i j * inverse (M i i) else M i j)"

definition solve :: "nat \<Rightarrow> 'a::field mat \<Rightarrow> 'a mat" where
  "solve R M = norm_diag (R - 1) (elim R R M)"

text \<open>
  The condition under which every pivot is non-zero: the leading square submatrices have
  independent rows.
\<close>

definition leading_regular :: "nat \<Rightarrow> 'a::field mat \<Rightarrow> bool" where
  "leading_regular R M \<longleftrightarrow>
     (\<forall>k<R. \<forall>l. (\<forall>j\<le>k. (\<Sum>i\<le>k. l i * M i j) = 0) \<longrightarrow> l k = 0)"

definition row_combination :: "nat \<Rightarrow> 'a::field mat \<Rightarrow> (nat \<Rightarrow> 'a) \<Rightarrow> (nat \<Rightarrow> 'a) \<Rightarrow> bool" where
  "row_combination R M l r \<longleftrightarrow> (\<forall>j. r j = (\<Sum>i<R. l i * M i j))"

lemma row_combination_scale:
  "row_combination R M l r \<Longrightarrow> row_combination R M (\<lambda>i. l i * a) (\<lambda>j. r j * a)"
  by (simp add: row_combination_def sum_distrib_left sum_distrib_right ac_simps)

lemma row_combination_diff:
  "row_combination R M l r \<Longrightarrow> row_combination R M l' r' \<Longrightarrow>
   row_combination R M (\<lambda>i. l i - l' i) (\<lambda>j. r j - r' j)"
  by (simp add: row_combination_def sum_subtractf algebra_simps)

lemma row_combination_unit:
  "i < R \<Longrightarrow> row_combination R M (\<lambda>l. if l = i then 1 else 0) (M i)"
  by (simp add: row_combination_def if_distrib [where f = "\<lambda>a. a * _"] cong: if_cong)

text \<open>The invariant after \<open>k\<close> rounds.\<close>

definition elim_inv :: "nat \<Rightarrow> nat \<Rightarrow> 'a::field mat \<Rightarrow> 'a mat \<Rightarrow> bool" where
  "elim_inv R k M A \<longleftrightarrow>
     (\<forall>i<R. \<forall>j<k. A i j \<noteq> 0 \<longleftrightarrow> i = j) \<and>
     (\<forall>i<R. \<exists>l. row_combination R M l (A i) \<and> (\<forall>p<R. k \<le> p \<longrightarrow> p \<noteq> i \<longrightarrow> l p = 0) \<and>
        (k \<le> i \<longrightarrow> l i \<noteq> 0))"

lemma elim_inv_0: "elim_inv R 0 M M"
  unfolding elim_inv_def by (auto intro!: exI row_combination_unit)

lemma elim_inv_pivot:
  assumes inv: "elim_inv R k M A" and k: "k < R" and reg: "leading_regular R M"
  shows "A k k \<noteq> 0"
proof
  assume z: "A k k = 0"
  from inv k obtain l where l: "row_combination R M l (A k)"
    and sup: "\<forall>p<R. k \<le> p \<longrightarrow> p \<noteq> k \<longrightarrow> l p = 0" and nz: "l k \<noteq> 0"
    by (auto simp: elim_inv_def)
  have "(\<Sum>i\<le>k. l i * M i j) = 0" if "j \<le> k" for j
  proof -
    have "(\<Sum>i\<le>k. l i * M i j) = (\<Sum>i<R. l i * M i j)"
      using k sup by (intro sum.mono_neutral_left) auto
    also have "\<dots> = A k j" using l by (simp add: row_combination_def)
    also have "\<dots> = 0"
    proof (cases "j = k")
      case False
      with that have "j < k" by simp
      with inv k show ?thesis by (auto simp: elim_inv_def)
    qed (simp add: z)
    finally show ?thesis .
  qed
  with reg k have "l k = 0" unfolding leading_regular_def by blast
  with nz show False ..
qed

lemma elim_inv_norm:
  assumes "elim_inv R k M A"
  shows "elim_inv R k M (norm_rows R k A)"
proof -
  have "\<exists>l. row_combination R M l (norm_rows R k A i) \<and>
          (\<forall>p<R. k \<le> p \<longrightarrow> p \<noteq> i \<longrightarrow> l p = 0) \<and> (k \<le> i \<longrightarrow> l i \<noteq> 0)" if i: "i < R" for i
  proof (cases "A i k = 0")
    case True
    then have "norm_rows R k A i = A i" by (simp add: norm_rows_def)
    with assms i show ?thesis by (auto simp: elim_inv_def)
  next
    case False
    then have e: "norm_rows R k A i = (\<lambda>j. A i j * inverse (A i k))"
      using i by (simp add: norm_rows_def)
    from assms i obtain l where "row_combination R M l (A i)"
      "\<forall>p<R. k \<le> p \<longrightarrow> p \<noteq> i \<longrightarrow> l p = 0" "k \<le> i \<longrightarrow> l i \<noteq> 0"
      by (auto simp: elim_inv_def)
    then show ?thesis unfolding e using False
      by (intro exI [of _ "\<lambda>p. l p * inverse (A i k)"]) (simp add: row_combination_scale)
  qed
  moreover have "norm_rows R k A i j \<noteq> 0 \<longleftrightarrow> A i j \<noteq> 0" for i j
    by (simp add: norm_rows_def)
  ultimately show ?thesis using assms by (simp add: elim_inv_def)
qed

lemma elim_inv_sub:
  assumes inv: "elim_inv R k M A" and k: "k < R"
    and one: "\<And>i. i < R \<Longrightarrow> A i k \<noteq> 0 \<Longrightarrow> A i k = 1" and piv: "A k k \<noteq> 0"
  shows "elim_inv R (Suc k) M (sub_row R k A)"
proof -
  from inv k obtain lk where lk: "row_combination R M lk (A k)"
    and supk: "\<forall>p<R. k \<le> p \<longrightarrow> p \<noteq> k \<longrightarrow> lk p = 0"
    by (auto simp: elim_inv_def)
  have "\<exists>l. row_combination R M l (sub_row R k A i) \<and>
          (\<forall>p<R. Suc k \<le> p \<longrightarrow> p \<noteq> i \<longrightarrow> l p = 0) \<and> (Suc k \<le> i \<longrightarrow> l i \<noteq> 0)" if i: "i < R" for i
  proof -
    from inv i obtain l where l: "row_combination R M l (A i)"
      and sup: "\<forall>p<R. k \<le> p \<longrightarrow> p \<noteq> i \<longrightarrow> l p = 0" and nz: "k \<le> i \<longrightarrow> l i \<noteq> 0"
      by (auto simp: elim_inv_def)
    show ?thesis
    proof (cases "i \<noteq> k \<and> A i k \<noteq> 0")
      case True
      then have "sub_row R k A i = (\<lambda>j. A i j - A k j)" using i by (simp add: sub_row_def)
      with True show ?thesis using l lk sup supk nz i
        by (intro exI [of _ "\<lambda>p. l p - lk p"]) (auto simp: row_combination_diff)
    next
      case False
      then have "sub_row R k A i = A i" using i by (auto simp: sub_row_def)
      then show ?thesis using l sup nz by auto
    qed
  qed
  moreover have "sub_row R k A i j \<noteq> 0 \<longleftrightarrow> i = j" if i: "i < R" and j: "j < Suc k" for i j
  proof (cases "j = k")
    case True
    then show ?thesis using one [OF i] one [OF k piv] piv i by (auto simp: sub_row_def)
  next
    case False
    with j have jk: "j < k" by simp
    then have "A k j = 0" and "A i j \<noteq> 0 \<longleftrightarrow> i = j" using inv i k by (auto simp: elim_inv_def)
    then show ?thesis by (simp add: sub_row_def)
  qed
  ultimately show ?thesis by (simp add: elim_inv_def)
qed

lemma elim_inv_step:
  assumes "elim_inv R k M A" and "k < R" and "leading_regular R M"
  shows "elim_inv R (Suc k) M (elim_step R k A)"
  unfolding elim_step_def
proof (rule elim_inv_sub)
  show "elim_inv R k M (norm_rows R k A)" using assms(1) by (rule elim_inv_norm)
  have "A k k \<noteq> 0" using assms by (rule elim_inv_pivot)
  then show "norm_rows R k A k k \<noteq> 0" by (simp add: norm_rows_def)
qed (use assms in \<open>auto simp: norm_rows_def split: if_splits\<close>)

lemma elim_inv_elim: "leading_regular R M \<Longrightarrow> k \<le> R \<Longrightarrow> elim_inv R k M (elim R k M)"
  by (induction k) (simp_all add: elim_inv_0 elim_inv_step)

lemma elim_last_one:
  assumes "leading_regular R M" and "0 < R"
  shows "elim R R M (R - 1) (R - 1) = 1"
proof -
  obtain k where R: "R = Suc k" using assms(2) by (cases R) auto
  have "elim_inv R k M (elim R k M)" using assms R by (intro elim_inv_elim) auto
  then have "elim R k M k k \<noteq> 0" by (rule elim_inv_pivot) (use assms R in auto)
  then show ?thesis by (simp add: R elim_step_def sub_row_def norm_rows_def)
qed

theorem solve_identity:
  assumes reg: "leading_regular R M" and i: "i < R" and j: "j < R"
  shows "solve R M i j = (if i = j then 1 else 0)"
proof -
  have inv: "elim_inv R R M (elim R R M)" using reg by (simp add: elim_inv_elim)
  then have nz: "elim R R M i' j' \<noteq> 0 \<longleftrightarrow> i' = j'" if "i' < R" "j' < R" for i' j'
    using that by (simp add: elim_inv_def)
  show ?thesis
  proof (cases "i < R - 1")
    case True
    with nz [OF i j] nz [OF i i] show ?thesis by (auto simp: solve_def norm_diag_def)
  next
    case False
    with i have r: "i = R - 1" by simp
    have "elim R R M i i = 1" unfolding r using reg i by (intro elim_last_one) auto
    with nz [OF i j] False show ?thesis by (auto simp: solve_def norm_diag_def)
  qed
qed

theorem solve_row_combination:
  assumes "leading_regular R M" and "i < R"
  shows "\<exists>l. row_combination R M l (solve R M i)"
proof -
  have "elim_inv R R M (elim R R M)" using assms(1) by (simp add: elim_inv_elim)
  then obtain l where l: "row_combination R M l (elim R R M i)"
    using assms(2) by (auto simp: elim_inv_def)
  show ?thesis
  proof (cases "i < R - 1")
    case True
    then have "solve R M i = (\<lambda>j. elim R R M i j * inverse (elim R R M i i))"
      by (simp add: solve_def norm_diag_def)
    then show ?thesis using row_combination_scale [OF l] by auto
  next
    case False
    then have "solve R M i = elim R R M i" by (simp add: solve_def norm_diag_def)
    with l show ?thesis by auto
  qed
qed

text \<open>A vector that satisfies the given equations satisfies the transformed ones.\<close>

corollary solve_kernel:
  assumes "leading_regular R M" and "i < R"
    and "\<And>i. i < R \<Longrightarrow> (\<Sum>j<C. M i j * x j) = 0"
  shows "(\<Sum>j<C. solve R M i j * x j) = 0"
proof -
  from assms(1,2) obtain l where l: "row_combination R M l (solve R M i)"
    using solve_row_combination by blast
  then have "(\<Sum>j<C. solve R M i j * x j) = (\<Sum>j<C. \<Sum>p<R. l p * (M p j * x j))"
    by (simp add: row_combination_def sum_distrib_right mult.assoc)
  also have "\<dots> = (\<Sum>p<R. l p * (\<Sum>j<C. M p j * x j))"
    by (subst sum.swap) (simp add: sum_distrib_left)
  also have "\<dots> = 0" using assms(3) by simp
  finally show ?thesis .
qed

text \<open>
  With one more column than rows the transformation solves the equations: the entry of the
  last column is the (negated) value of the unknown.
\<close>

corollary solve_equations:
  assumes reg: "leading_regular R M" and i: "i < R"
    and eq: "\<And>i. i < R \<Longrightarrow> (\<Sum>j<R. M i j * x j) + M i R = 0"
  shows "solve R M i R = - x i"
proof -
  define y where "y = (\<lambda>j. if j < R then x j else 1)"
  have "(\<Sum>j<Suc R. M i j * y j) = 0" if "i < R" for i
    using eq [OF that] by (simp add: y_def)
  then have "(\<Sum>j<Suc R. solve R M i j * y j) = 0"
    using reg i by (intro solve_kernel) auto
  moreover have "(\<Sum>j<R. solve R M i j * y j) = (\<Sum>j<R. if j = i then x i else 0)"
    using reg i by (intro sum.cong) (auto simp: solve_identity y_def)
  ultimately have "x i + solve R M i R = 0" using i by (simp add: y_def)
  then show ?thesis by (simp add: eq_neg_iff_add_eq_0 add.commute)
qed

section \<open>Systematic Vandermonde matrices\<close>

text \<open>
  \<open>vandermonde x\<close> has the powers of the point \<open>x j\<close> in column \<open>j\<close>. Bringing it to the
  form in which its first \<open>h\<close> columns are the identity gives the parity equations of the
  code.
\<close>

definition vandermonde :: "(nat \<Rightarrow> 'a::field) \<Rightarrow> 'a mat" where
  "vandermonde x = (\<lambda>i j. x j ^ i)"

lemma vandermonde_leading_regular:
  assumes "inj_on x {..<h}"
  shows "leading_regular h (vandermonde x)"
  unfolding leading_regular_def
proof (intro allI impI)
  fix k l
  assume k: "k < h" and z: "\<forall>j\<le>k. (\<Sum>i\<le>k. l i * vandermonde x i j) = 0"
  have "set (map l [0..<Suc k]) \<subseteq> {0}"
  proof (rule horner_roots_zero)
    have "inj_on x {..<Suc k}" using k by (intro inj_on_subset [OF assms]) auto
    then show "length (map l [0..<Suc k]) \<le> card (x ` {..<Suc k})" by (simp add: card_image)
    fix y assume "y \<in> x ` {..<Suc k}"
    then obtain j where "j \<le> k" and y: "y = x j" by (auto simp: less_Suc_eq_le)
    with z have "(\<Sum>i<Suc k. l i * x j ^ i) = 0" by (simp add: vandermonde_def lessThan_Suc_atMost)
    then show "horner (map l [0..<Suc k]) y = 0" by (simp only: horner_sum y)
  qed simp
  then show "l k = 0" by auto
qed

definition systematic :: "nat \<Rightarrow> nat \<Rightarrow> (nat \<Rightarrow> 'a::field) \<Rightarrow> 'a mat \<Rightarrow> bool" where
  "systematic h n x W \<longleftrightarrow>
     (\<forall>i<h. \<forall>j<h. W i j = (if i = j then 1 else 0)) \<and>
     (\<forall>i<h. \<exists>l. \<forall>j<n. W i j = (\<Sum>p<h. l p * x j ^ p))"

lemma systematic_solve:
  assumes "inj_on x {..<h}"
  shows "systematic h n x (solve h (vandermonde x))"
proof -
  have reg: "leading_regular h (vandermonde x)" using assms by (rule vandermonde_leading_regular)
  have "\<exists>l. \<forall>j<n. solve h (vandermonde x) i j = (\<Sum>p<h. l p * x j ^ p)" if "i < h" for i
    using solve_row_combination [OF reg that] by (auto simp: row_combination_def vandermonde_def)
  then show ?thesis using reg by (auto simp: systematic_def solve_identity)
qed

lemma systematic_combination:
  assumes sys: "systematic h n x W" and rs: "set rs \<subseteq> {..<h}"
  obtains cs where "length cs = h"
    and "\<And>j. j < n \<Longrightarrow> (\<Sum>i<length rs. l i * W (rs ! i) j) = horner cs (x j)"
proof -
  from sys have "\<forall>i<h. \<exists>p. \<forall>j<n. W i j = (\<Sum>q<h. p q * x j ^ q)" by (auto simp: systematic_def)
  then obtain P where P: "\<And>i j. i < h \<Longrightarrow> j < n \<Longrightarrow> W i j = (\<Sum>q<h. P i q * x j ^ q)" by metis
  have r: "rs ! i < h" if "i < length rs" for i using rs that by (meson lessThan_iff nth_mem subsetD)
  define f where "f q = (\<Sum>i<length rs. l i * P (rs ! i) q)" for q
  have "(\<Sum>i<length rs. l i * W (rs ! i) j) = horner (map f [0..<h]) (x j)" if "j < n" for j
  proof -
    have "(\<Sum>i<length rs. l i * W (rs ! i) j) = (\<Sum>i<length rs. \<Sum>q<h. l i * P (rs ! i) q * x j ^ q)"
      using that by (simp add: P r sum_distrib_left mult.assoc)
    also have "\<dots> = (\<Sum>q<h. f q * x j ^ q)"
      by (subst sum.swap) (simp add: f_def sum_distrib_right)
    finally show ?thesis by (simp add: horner_sum)
  qed
  then show ?thesis using that [of "map f [0..<h]"] by simp
qed

lemma horner_zero_coeffs: "set cs \<subseteq> {0} \<Longrightarrow> horner cs x = 0"
  by (induction cs) auto

text \<open>
  Every square submatrix outside the identity part is regular: a combination of the chosen
  rows that vanishes on the chosen columns is a polynomial of degree below \<open>h\<close> with \<open>h\<close>
  roots, the chosen columns and the identity columns of the rows not chosen.
\<close>

theorem systematic_submatrix_regular:
  assumes sys: "systematic h n x W" and inj: "inj_on x {..<n}" and hn: "h \<le> n"
    and rs: "distinct rs" "set rs \<subseteq> {..<h}"
    and cs: "distinct cs" "set cs \<subseteq> {h..<n}" and len: "length rs = length cs"
    and z: "\<And>j. j < length cs \<Longrightarrow> (\<Sum>i<length rs. l i * W (rs ! i) (cs ! j)) = 0"
    and i: "i < length rs"
  shows "l i = 0"
proof -
  from sys have id: "\<And>i j. i < h \<Longrightarrow> j < h \<Longrightarrow> W i j = (if i = j then 1 else 0)"
    by (auto simp: systematic_def)
  have r: "rs ! i < h" if "i < length rs" for i using rs(2) that by (meson lessThan_iff nth_mem subsetD)
  define y where "y j = (\<Sum>i<length rs. l i * W (rs ! i) j)" for j
  obtain ps where ps: "length ps = h" and y: "\<And>j. j < n \<Longrightarrow> y j = horner ps (x j)"
    unfolding y_def using systematic_combination [OF sys rs(2)] by metis
  define Z where "Z = set cs \<union> ({..<h} - set rs)"
  have yZ: "y j = 0" if "j \<in> Z" for j
  proof (cases "j \<in> set cs")
    case True
    then show ?thesis using z by (auto simp: y_def in_set_conv_nth)
  next
    case False
    with that have "j < h" and "j \<notin> set rs" by (auto simp: Z_def)
    then have "rs ! i \<noteq> j" if "i < length rs" for i using that nth_mem by blast
    with \<open>j < h\<close> show ?thesis by (auto simp: y_def id r intro!: sum.neutral)
  qed
  have Zn: "Z \<subseteq> {..<n}" using cs(2) hn by (auto simp: Z_def)
  have "card Z = card (set cs) + card ({..<h} - set rs)"
    unfolding Z_def using cs(2) by (intro card_Un_disjoint) auto
  also have "\<dots> = h"
    using rs cs len card_mono [OF _ rs(2)] by (simp add: distinct_card card_Diff_subset)
  finally have "card (x ` Z) = h" using inj_on_subset [OF inj Zn] by (simp add: card_image)
  moreover have "horner ps v = 0" if "v \<in> x ` Z" for v
  proof -
    from that obtain j where "j \<in> Z" "v = x j" by blast
    then show ?thesis using yZ y Zn by (metis lessThan_iff subsetD)
  qed
  ultimately have "set ps \<subseteq> {0}"
    using ps finite_subset [OF Zn] by (intro horner_roots_zero [of "x ` Z"]) auto
  then have "y (rs ! i) = 0" using y [of "rs ! i"] r [OF i] hn by (simp add: horner_zero_coeffs)
  moreover have "y (rs ! i) = (\<Sum>i'<length rs. if i' = i then l i else 0)"
    unfolding y_def using rs(1) i
    by (intro sum.cong) (auto simp: id r nth_eq_iff_index_eq)
  ultimately show ?thesis using i by simp
qed

text \<open>The points determine the systematic code: two rows that agree on the identity columns are equal.\<close>

theorem systematic_unique:
  assumes W: "systematic h n x W" and W': "systematic h n x W'" and inj: "inj_on x {..<n}" and hn: "h \<le> n"
    and i: "i < h" and j: "j < n"
  shows "W i j = W' i j"
proof -
  from W i obtain l where l: "\<And>j. j < n \<Longrightarrow> W i j = (\<Sum>p<h. l p * x j ^ p)" by (auto simp: systematic_def)
  from W' i obtain l' where l': "\<And>j. j < n \<Longrightarrow> W' i j = (\<Sum>p<h. l' p * x j ^ p)" by (auto simp: systematic_def)
  define cs where "cs = map (\<lambda>p. l p - l' p) [0..<h]"
  have diff: "horner cs (x j) = W i j - W' i j" if "j < n" for j
    using l [OF that] l' [OF that] by (simp add: cs_def horner_sum sum_subtractf algebra_simps)
  have "set cs \<subseteq> {0}"
  proof (rule horner_roots_zero)
    have "inj_on x {..<h}" using inj hn by (auto intro: inj_on_subset)
    then show "length cs \<le> card (x ` {..<h})" by (simp add: cs_def card_image)
    show "horner cs v = 0" if "v \<in> x ` {..<h}" for v
      using that diff hn W W' i by (auto simp: systematic_def)
  qed simp
  then show ?thesis using diff [OF j] horner_zero_coeffs by (metis eq_iff_diff_eq_0)
qed

end
