(* ===== verification/Rse_Matrix.thy ===== *)
theory Rse_Matrix
  imports Rse_Math Linear_Code
begin

text \<open>
  The matrix solver of \<^verbatim>\<open>rse.bkp.c\<close>. The C function works in place on a flat array and
  reaches its cells through pointers that move from the leftmost (highest index) cell of a row to the
  rightmost one; the model keeps the array as a list and every pointer as an index into it.
  The refinement theorem shows that the array it leaves behind is the matrix
  \<^term>\<open>solve\<close> of the abstract elimination over the field, when column \<open>j\<close> counts from the
  left as in the comments of the code.
\<close>

section \<open>The interface of a field arithmetic\<close>

text \<open>
  The coders multiply and invert symbols in several ways: by logarithm tables, by a full
  product table, by shift and add. What they rely on is the same: the operations are those
  of the field. \<open>ok\<close> is the condition under which the tables behind the operations are valid.
\<close>

locale gf_arith =
  fixes ok :: "'t \<Rightarrow> bool"
    and mul :: "'t \<Rightarrow> u8 \<Rightarrow> u8 \<Rightarrow> u8"
    and inv :: "'t \<Rightarrow> u8 \<Rightarrow> u8"
  assumes mul_ok: "ok t \<Longrightarrow> gf (mul t a b) = gf a * gf b"
    and inv_ok: "ok t \<Longrightarrow> gf (inv t a) = inverse (gf a)"
begin

lemma mul_gmul: "ok t \<Longrightarrow> mul t a b = gmul a b"
  using mul_ok [of t a b] by (simp flip: gf_gmul)

lemma inv_ginv: "ok t \<Longrightarrow> inv t a = ginv a"
  using inv_ok [of t a] by (simp flip: gf_ginv)

lemma mul_comm: "ok t \<Longrightarrow> mul t a b = mul t b a"
  by (simp add: mul_gmul gmul_commute)

lemma mul_assoc: "ok t \<Longrightarrow> mul t (mul t a b) d = mul t a (mul t b d)"
  by (simp add: mul_gmul gmul_assoc)

lemma mul_inv: "ok t \<Longrightarrow> a \<noteq> 0 \<Longrightarrow> mul t a (inv t a) = 1"
  by (simp add: mul_gmul inv_ginv gmul_commute [of a] gmul_ginv)

lemma mul_xor: "ok t \<Longrightarrow> mul t a (b XOR d) = mul t a b XOR mul t a d"
  by (simp add: mul_gmul gmul_xor_right)

end

text \<open>The logarithm tables of the reference coder provide it.\<close>

interpretation table_arith: gf_arith
  "\<lambda>(c, t). byte_symbols c \<and> tables_ok t"
  "\<lambda>(c, t) a b. FEC_GF_MULT c t (unat a) (unat b)"
  "\<lambda>(c, t) a. fec_invefec t ! unat a"
  by unfold_locales (auto simp: FEC_GF_MULT_gmul gf_gmul tables_ok_def gf_ginv)

section \<open>The solver\<close>

definition scale_row :: "rse_h \<Rightarrow> gf_tables \<Rightarrow> nat \<Rightarrow> nat \<Rightarrow> fec_sym \<Rightarrow> fec_sym list \<Rightarrow> fec_sym list" where
  \<comment> \<open>\<open>for (n=q; n>=m; n--) *n = FEC_GF_MULT(*n, inv)\<close>, the cell \<open>n\<close> being \<open>q - j\<close>\<close>
  "scale_row c t q cols iv p =
     for_loop 0 cols (\<lambda>j p. p[q - j := FEC_GF_MULT c t (unat (p ! (q - j))) (unat iv)]) p"

definition normalise_rows :: "rse_h \<Rightarrow> gf_tables \<Rightarrow> nat \<Rightarrow> nat \<Rightarrow> nat \<Rightarrow> nat \<Rightarrow> fec_sym list \<Rightarrow> fec_sym list" where
  \<comment> \<open>step 1a: column \<open>k\<close> becomes ones and zeros\<close>
  "normalise_rows c t rows cols cols_in_array k p =
     for_loop 0 rows (\<lambda>i p.
       let q = i * cols_in_array + cols - 1; v = p ! (q - k) in
       if v \<noteq> 0 then scale_row c t q cols (fec_invefec t ! unat (p ! (q - k))) p else p) p"

definition add_pivot_row :: "nat \<Rightarrow> nat \<Rightarrow> nat \<Rightarrow> nat \<Rightarrow> fec_sym list \<Rightarrow> fec_sym list" where
  \<comment> \<open>step 1b: row \<open>k\<close> is added to the other rows\<close>
  "add_pivot_row rows cols cols_in_array k p =
     (let r = k * cols_in_array + cols - 1 in
      for_loop 0 rows (\<lambda>i p.
        if i \<noteq> k then
          let q = i * cols_in_array + cols - 1 in
          if p ! (q - k) \<noteq> 0
          then for_loop 0 cols (\<lambda>j p. p[q - j := p ! (q - j) XOR p ! (r - j)]) p
          else p
        else p) p)"

definition matrix_solve :: "rse_h \<Rightarrow> gf_tables \<Rightarrow> fec_sym list \<Rightarrow> fec_sym \<Rightarrow> fec_sym \<Rightarrow> fec_sym \<Rightarrow> fec_sym list \<times> int" where
  \<comment> \<open>the array left behind and the return code\<close>
  "matrix_solve c t p rows_max cols_max cols_in_array =
     (let rows = unat rows_max; cols = unat cols_max; ci = unat cols_in_array;
          p1 = for_loop 0 rows (\<lambda>k p. add_pivot_row rows cols ci k (normalise_rows c t rows cols ci k p)) p;
          p2 = for_loop 0 (rows - 1) (\<lambda>i p.
                 let q = i * ci + cols - 1 in
                 scale_row c t q cols (fec_invefec t ! unat (p ! (q - i))) p) p1
      in (p2, 0))"

section \<open>Arrays as matrices\<close>

definition mat_of :: "nat \<Rightarrow> nat \<Rightarrow> fec_sym list \<Rightarrow> gf256 mat" where
  \<comment> \<open>column \<open>j\<close> from the left\<close>
  "mat_of ci cols p = (\<lambda>i j. gf (p ! (i * ci + cols - 1 - j)))"

definition mat_eq :: "nat \<Rightarrow> nat \<Rightarrow> 'a mat \<Rightarrow> 'a mat \<Rightarrow> bool" where
  "mat_eq R C A B \<longleftrightarrow> (\<forall>i<R. \<forall>j<C. A i j = B i j)"

lemma mat_eq_refl [simp]: "mat_eq R C A A"
  by (simp add: mat_eq_def)

lemma mat_eqD: "mat_eq R C A B \<Longrightarrow> i < R \<Longrightarrow> j < C \<Longrightarrow> A i j = B i j"
  by (simp add: mat_eq_def)

lemma mat_eq_trans: "mat_eq R C A B \<Longrightarrow> mat_eq R C B D \<Longrightarrow> mat_eq R C A D"
  by (simp add: mat_eq_def)

lemma norm_rows_cong: "mat_eq R C A B \<Longrightarrow> k < C \<Longrightarrow> mat_eq R C (norm_rows R k A) (norm_rows R k B)"
  by (simp add: mat_eq_def norm_rows_def)

lemma sub_row_cong: "mat_eq R C A B \<Longrightarrow> k < C \<Longrightarrow> k < R \<Longrightarrow> mat_eq R C (sub_row R k A) (sub_row R k B)"
  by (simp add: mat_eq_def sub_row_def)

lemma elim_step_cong: "mat_eq R C A B \<Longrightarrow> k < C \<Longrightarrow> k < R \<Longrightarrow> mat_eq R C (elim_step R k A) (elim_step R k B)"
  unfolding elim_step_def by (intro sub_row_cong norm_rows_cong)

lemma norm_diag_cong: "mat_eq R C A B \<Longrightarrow> r \<le> R \<Longrightarrow> R \<le> C \<Longrightarrow> mat_eq R C (norm_diag r A) (norm_diag r B)"
  by (auto simp: mat_eq_def norm_diag_def)

lemma elim_cong: "mat_eq R C A B \<Longrightarrow> R \<le> C \<Longrightarrow> k \<le> R \<Longrightarrow> mat_eq R C (elim R k A) (elim R k B)"
  by (induction k) (auto intro: elim_step_cong)

lemma solve_cong: "mat_eq R C A B \<Longrightarrow> R \<le> C \<Longrightarrow> mat_eq R C (solve R A) (solve R B)"
  unfolding solve_def by (intro norm_diag_cong elim_cong) auto

text \<open>Only the cells of the matrix change: the frame of the array.\<close>

definition in_matrix :: "nat \<Rightarrow> nat \<Rightarrow> nat \<Rightarrow> nat \<Rightarrow> bool" where
  "in_matrix R C ci x \<longleftrightarrow> (\<exists>i<R. i * ci \<le> x \<and> x < i * ci + C)"

definition same_frame :: "nat \<Rightarrow> nat \<Rightarrow> nat \<Rightarrow> fec_sym list \<Rightarrow> fec_sym list \<Rightarrow> bool" where
  "same_frame R C ci p p' \<longleftrightarrow>
     length p' = length p \<and> (\<forall>x. \<not> in_matrix R C ci x \<longrightarrow> p' ! x = p ! x)"

lemma same_frame_refl [simp]: "same_frame R C ci p p"
  by (simp add: same_frame_def)

lemma same_frame_trans: "same_frame R C ci p q \<Longrightarrow> same_frame R C ci q r \<Longrightarrow> same_frame R C ci p r"
  by (simp add: same_frame_def)

section \<open>Row operations\<close>

text \<open>One pass over a row, from the leftmost cell \<open>b + C - 1\<close> to cell \<open>b\<close>.\<close>

lemma row_pass:
  assumes len: "b + C \<le> length p" and n: "n \<le> C"
    and F: "\<And>j q. j < C \<Longrightarrow> length q = length p \<Longrightarrow>
      (\<And>x. x < b \<or> b + C \<le> x \<or> x \<le> b + C - 1 - j \<Longrightarrow> q ! x = p ! x) \<Longrightarrow> F j q = G j"
    and p': "p' = for_loop 0 n (\<lambda>j p. p[b + C - 1 - j := F j p]) p"
  shows "length p' = length p \<and> (\<forall>x. p' ! x =
    (if b \<le> x \<and> x < b + C \<and> b + C - n \<le> x then G (b + C - 1 - x) else p ! x))"
  using n p'
proof (induction n arbitrary: p')
  case (Suc n)
  define q where "q = for_loop 0 n (\<lambda>j p. p[b + C - 1 - j := F j p]) p"
  have q: "length q = length p"
    "\<And>x. q ! x = (if b \<le> x \<and> x < b + C \<and> b + C - n \<le> x then G (b + C - 1 - x) else p ! x)"
    using Suc.IH [OF _ q_def] Suc.prems(1) by auto
  have "F n q = G n"
    using Suc.prems(1) q by (intro F) auto
  then have p': "p' = q[b + C - 1 - n := G n]"
    using Suc.prems(2) by (simp add: for_loop_Suc q_def)
  show ?case
  proof (intro conjI allI)
    fix x
    consider (a) "x = b + C - 1 - n" | (b) "x \<noteq> b + C - 1 - n" by blast
    then show "p' ! x = (if b \<le> x \<and> x < b + C \<and> b + C - Suc n \<le> x then G (b + C - 1 - x) else p ! x)"
    proof cases
      case a
      then have "x < length q" "b \<le> x" "x < b + C" "b + C - 1 - x = n" using len Suc.prems(1) q(1) by auto
      with a show ?thesis by (simp add: p')
    next
      case b
      then have "b + C - Suc n \<le> x \<longleftrightarrow> b + C - n \<le> x" using Suc.prems(1) by linarith
      with b show ?thesis by (simp add: p' q)
    qed
  qed (simp add: p' q)
qed auto

text \<open>The shape of the arrays the solver is called on.\<close>

definition fits :: "nat \<Rightarrow> nat \<Rightarrow> nat \<Rightarrow> fec_sym list \<Rightarrow> bool" where
  "fits R C ci p \<longleftrightarrow> 0 < C \<and> C \<le> ci \<and> R * ci \<le> length p"

lemma fits_row: "fits R C ci p \<Longrightarrow> i < R \<Longrightarrow> i * ci + C \<le> length p"
  unfolding fits_def by (metis add_mono_thms_linordered_semiring(1) mult_Suc mult_le_mono1 Suc_leI add.commute le_refl order.trans)

lemma fits_frame: "fits R C ci p \<Longrightarrow> same_frame R' C' ci' p p' \<Longrightarrow> fits R C ci p'"
  by (simp add: fits_def same_frame_def)

lemma cell_in_other_row:
  assumes "fits R C ci p" and "i \<noteq> i'" and "j < C"
  shows "i' * ci + C - 1 - j < i * ci \<or> i * ci + C \<le> i' * ci + C - 1 - j"
proof -
  have C: "0 < C" "C \<le> ci" using assms(1) by (simp_all add: fits_def)
  consider "i' < i" | "i < i'" using assms(2) by linarith
  then show ?thesis
  proof cases
    case 1
    then have "i' * ci + ci \<le> i * ci" by (metis Suc_leI add.commute mult_Suc mult_le_mono1)
    then show ?thesis using C by linarith
  next
    case 2
    then have "i * ci + ci \<le> i' * ci" by (metis Suc_leI add.commute mult_Suc mult_le_mono1)
    then show ?thesis using C assms(3) by linarith
  qed
qed

lemma row_pass_mat:
  assumes fits: "fits R C ci p" and i: "i < R"
    and F: "\<And>j q. j < C \<Longrightarrow> length q = length p \<Longrightarrow> (\<And>i' j. i' \<noteq> i \<Longrightarrow> j < C \<Longrightarrow>
        q ! (i' * ci + C - 1 - j) = p ! (i' * ci + C - 1 - j)) \<Longrightarrow>
      q ! (i * ci + C - 1 - j) = p ! (i * ci + C - 1 - j) \<Longrightarrow> F j q = G j"
    and p': "p' = for_loop 0 C (\<lambda>j p. p[i * ci + C - 1 - j := F j p]) p"
  shows "same_frame R C ci p p'"
    and "j < C \<Longrightarrow> mat_of ci C p' i' j = (if i' = i then gf (G j) else mat_of ci C p i' j)"
proof -
  have *: "length p' = length p \<and> (\<forall>x. p' ! x = (if i * ci \<le> x \<and> x < i * ci + C \<and> i * ci + C - C \<le> x
      then G (i * ci + C - 1 - x) else p ! x))"
    using fits_row [OF fits i] _ _ p'
  proof (rule row_pass)
    fix j q
    assume j: "j < C" and len: "length q = length p"
      and q: "\<And>x. x < i * ci \<or> i * ci + C \<le> x \<or> x \<le> i * ci + C - 1 - j \<Longrightarrow> q ! x = p ! x"
    show "F j q = G j"
    proof (rule F [OF j len])
      show "q ! (i' * ci + C - 1 - j) = p ! (i' * ci + C - 1 - j)" if "i' \<noteq> i" "j < C" for i' j
        using cell_in_other_row [OF fits that(1) [symmetric] that(2)] by (intro q) blast
    qed (simp add: q)
  qed simp
  then show "same_frame R C ci p p'"
    using i by (auto simp: same_frame_def in_matrix_def)
  assume j: "j < C"
  show "mat_of ci C p' i' j = (if i' = i then gf (G j) else mat_of ci C p i' j)"
  proof (cases "i' = i")
    case True
    have "i * ci \<le> i * ci + C - 1 - j" "i * ci + C - 1 - j < i * ci + C"
      "i * ci + C - 1 - (i * ci + C - 1 - j) = j" using j by auto
    with * True show ?thesis by (simp add: mat_of_def)
  next
    case False
    with * cell_in_other_row [OF fits, of i i' j] j show ?thesis by (auto simp: mat_of_def)
  qed
qed

text \<open>A loop over the rows that replaces row \<open>i\<close> in iteration \<open>i\<close>.\<close>

lemma rows_loop:
  assumes "fits R C ci p" and "n \<le> R"
    and step: "\<And>i q. i < n \<Longrightarrow> same_frame R C ci p q \<Longrightarrow>
      (\<And>i' j. i' < R \<Longrightarrow> j < C \<Longrightarrow> mat_of ci C q i' j = (if i' < i then N i' j else mat_of ci C p i' j)) \<Longrightarrow>
      same_frame R C ci q (f i q) \<and>
      (\<forall>i'<R. \<forall>j<C. mat_of ci C (f i q) i' j = (if i' = i then N i j else mat_of ci C q i' j))"
  shows "same_frame R C ci p (for_loop 0 n f p) \<and>
    (\<forall>i<R. \<forall>j<C. mat_of ci C (for_loop 0 n f p) i j = (if i < n then N i j else mat_of ci C p i j))"
proof -
  let ?P = "\<lambda>m q. same_frame R C ci p q \<and>
    (\<forall>i<R. \<forall>j<C. mat_of ci C q i j = (if i < m then N i j else mat_of ci C p i j))"
  have "0 \<le> n" by simp
  then have "?P n (for_loop 0 n f p)"
  proof (induction rule: for_loop_induct [where P = ?P])
    case (step i q)
    then have "same_frame R C ci q (f i q) \<and>
      (\<forall>i'<R. \<forall>j<C. mat_of ci C (f i q) i' j = (if i' = i then N i j else mat_of ci C q i' j))"
      by (intro assms(3)) auto
    with step show ?case by (auto simp: less_Suc_eq intro: same_frame_trans)
  qed auto
  then show ?thesis .
qed

section \<open>Refinement of the solver\<close>

abbreviation mat_step :: "nat \<Rightarrow> nat \<Rightarrow> nat \<Rightarrow> fec_sym list \<Rightarrow> fec_sym list \<Rightarrow> gf256 mat \<Rightarrow> bool" where
  "mat_step R C ci p p' N \<equiv> same_frame R C ci p p' \<and> mat_eq R C (mat_of ci C p') N"

text \<open>The passes that multiply and invert, for any field arithmetic.\<close>

context gf_arith
begin

lemma scale_pass:
  assumes t: "ok t" and fits: "fits R C ci p" and i: "i < R"
    and p': "p' = for_loop 0 C (\<lambda>j p. p[i * ci + C - 1 - j := mul t (p ! (i * ci + C - 1 - j)) iv]) p"
  shows "same_frame R C ci p p'"
    and "j < C \<Longrightarrow> mat_of ci C p' i' j =
      (if i' = i then mat_of ci C p i j * gf iv else mat_of ci C p i' j)"
proof -
  note pass = row_pass_mat [OF fits i _ p', where G = "\<lambda>j. mul t (p ! (i * ci + C - 1 - j)) iv"]
  show "same_frame R C ci p p'" by (rule pass(1)) simp_all
  assume "j < C"
  then have "mat_of ci C p' i' j = (if i' = i then gf (mul t (p ! (i * ci + C - 1 - j)) iv)
      else mat_of ci C p i' j)"
    by (intro pass(2)) simp_all
  then show "mat_of ci C p' i' j = (if i' = i then mat_of ci C p i j * gf iv else mat_of ci C p i' j)"
    by (simp add: mul_ok t) (simp add: mat_of_def)
qed

lemma normalise_pass:
  assumes t: "ok t" and fits: "fits R C ci p" and k: "k < C"
  shows "mat_step R C ci p
    (for_loop 0 R (\<lambda>i p. let q = i * ci + C - 1; v = p ! (q - k) in
       if v \<noteq> 0 then for_loop 0 C (\<lambda>j p. p[q - j := mul t (p ! (q - j)) (inv t v)]) p else p) p)
    (norm_rows R k (mat_of ci C p))"
proof -
  define f where "f = (\<lambda>i p. let q = i * ci + C - 1; v = p ! (q - k) in
       if v \<noteq> 0 then for_loop 0 C (\<lambda>j p. p[q - j := mul t (p ! (q - j)) (inv t v)]) p else p)"
  let ?N = "norm_rows R k (mat_of ci C p)"
  have "same_frame R C ci p (for_loop 0 R f p) \<and> (\<forall>i<R. \<forall>j<C. mat_of ci C (for_loop 0 R f p) i j =
      (if i < R then ?N i j else mat_of ci C p i j))"
  proof (rule rows_loop [OF fits order_refl])
    fix i q
    assume i: "i < R" and fr: "same_frame R C ci p q"
      and q: "\<And>i' j. i' < R \<Longrightarrow> j < C \<Longrightarrow>
        mat_of ci C q i' j = (if i' < i then ?N i' j else mat_of ci C p i' j)"
    have v: "q ! (i * ci + C - 1 - k) = 0 \<longleftrightarrow> mat_of ci C p i k = 0"
      using q [OF i k] by (simp add: mat_of_def)
    define w where "w = inv t (q ! (i * ci + C - 1 - k))"
    have iv: "gf w = inverse (mat_of ci C p i k)"
      unfolding w_def using q [OF i k] inv_ok [OF t] by (simp add: mat_of_def)
    define r where "r = for_loop 0 C (\<lambda>j p. p[i * ci + C - 1 - j := mul t (p ! (i * ci + C - 1 - j)) w]) q"
    note row = scale_pass [OF t fits_frame [OF fits fr] i r_def]
    show "same_frame R C ci q (f i q) \<and>
      (\<forall>i'<R. \<forall>j<C. mat_of ci C (f i q) i' j = (if i' = i then ?N i j else mat_of ci C q i' j))"
    proof (cases "mat_of ci C p i k = 0")
      case True
      then show ?thesis using v i q by (simp add: f_def Let_def norm_rows_def)
    next
      case False
      then have f: "f i q = r"
        using v by (simp add: f_def w_def Let_def r_def)
      show ?thesis unfolding f using False i q by (auto simp: row iv norm_rows_def simp del: One_nat_def)
    qed
  qed
  then show ?thesis by (simp add: f_def mat_eq_def)
qed

end

text \<open>The passes of the reference coder are those over its tables.\<close>

lemma scale_row_mat:
  assumes t: "tables_ok t" "byte_symbols c" and fits: "fits R C ci p" and i: "i < R"
    and p': "p' = scale_row c t (i * ci + C - 1) C iv p"
  shows "same_frame R C ci p p'"
    and "j < C \<Longrightarrow> mat_of ci C p' i' j =
      (if i' = i then mat_of ci C p i j * gf iv else mat_of ci C p i' j)"
  using table_arith.scale_pass [of "(c, t)" R C ci p i p' iv, OF _ fits i] t p'
  by (simp_all add: scale_row_def)

lemma normalise_rows_mat:
  assumes t: "tables_ok t" "byte_symbols c" and fits: "fits R C ci p" and k: "k < C"
  shows "mat_step R C ci p (normalise_rows c t R C ci k p) (norm_rows R k (mat_of ci C p))"
  using table_arith.normalise_pass [of "(c, t)" R C ci p k, OF _ fits k] t
  unfolding normalise_rows_def scale_row_def Let_def prod.case by blast

lemma add_pivot_row_mat:
  assumes fits: "fits R C ci p" and k: "k < C" "k < R"
  shows "mat_step R C ci p (add_pivot_row R C ci k p) (sub_row R k (mat_of ci C p))"
proof -
  define r where "r = k * ci + C - 1"
  define g where "g = (\<lambda>i. for_loop 0 C (\<lambda>j p :: fec_sym list. p[i * ci + C - 1 - j :=
     p ! (i * ci + C - 1 - j) XOR p ! (k * ci + C - 1 - j)]))"
  define f where "f = (\<lambda>i p :: fec_sym list. if i \<noteq> k then if p ! (i * ci + C - 1 - k) \<noteq> 0 then g i p else p else p)"
  let ?N = "sub_row R k (mat_of ci C p)"
  have "same_frame R C ci p (for_loop 0 R f p) \<and> (\<forall>i<R. \<forall>j<C. mat_of ci C (for_loop 0 R f p) i j =
      (if i < R then ?N i j else mat_of ci C p i j))"
  proof (rule rows_loop [OF fits order_refl])
    fix i q
    assume i: "i < R" and fr: "same_frame R C ci p q"
      and q: "\<And>i' j. i' < R \<Longrightarrow> j < C \<Longrightarrow>
        mat_of ci C q i' j = (if i' < i then ?N i' j else mat_of ci C p i' j)"
    have v: "q ! (i * ci + C - 1 - k) = 0 \<longleftrightarrow> mat_of ci C p i k = 0"
      using q [OF i k(1)] by (simp add: mat_of_def)
    have pivot: "mat_of ci C q k j = mat_of ci C p k j" if "j < C" for j
      using q [OF k(2) that] by (simp add: sub_row_def)
    have row: "same_frame R C ci q (g i q)" "j < C \<Longrightarrow> mat_of ci C (g i q) i' j =
        (if i' = i then gf (q ! (i * ci + C - 1 - j) XOR q ! (k * ci + C - 1 - j)) else mat_of ci C q i' j)"
      if "i \<noteq> k" for i' j
      using that k unfolding g_def
      by (intro row_pass_mat [OF fits_frame [OF fits fr] i _ refl]; simp)+
    have sum: "gf (q ! (i * ci + C - 1 - j) XOR q ! (k * ci + C - 1 - j)) =
        mat_of ci C p i j - mat_of ci C p k j" if "j < C" for j
      using q [OF i that] pivot [OF that] by (simp add: gf_xor gf256_minus_plus mat_of_def)
    note sum' = sum [unfolded diff_diff_left plus_1_eq_Suc]
    show "same_frame R C ci q (f i q) \<and>
      (\<forall>i'<R. \<forall>j<C. mat_of ci C (f i q) i' j = (if i' = i then ?N i j else mat_of ci C q i' j))"
    proof (cases "i = k \<or> mat_of ci C p i k = 0")
      case True
      then show ?thesis using v i q by (auto simp: f_def sub_row_def)
    next
      case False
      then show ?thesis using v i q by (simp add: f_def sub_row_def row sum')
    qed
  qed
  moreover have "for_loop 0 R f p = add_pivot_row R C ci k p"
    unfolding add_pivot_row_def Let_def f_def g_def ..
  ultimately show ?thesis by (simp add: mat_eq_def)
qed

lemma elim_loop:
  assumes normalise: "\<And>k p. fits R C ci p \<Longrightarrow> k < C \<Longrightarrow> mat_step R C ci p (f k p) (norm_rows R k (mat_of ci C p))"
    and fits: "fits R C ci p" and RC: "R \<le> C" and "n \<le> R"
  shows "mat_step R C ci p (for_loop 0 n (\<lambda>k p. add_pivot_row R C ci k (f k p)) p) (elim R n (mat_of ci C p))"
  using \<open>n \<le> R\<close>
proof (induction n)
  case (Suc n)
  define q where "q = for_loop 0 n (\<lambda>k p. add_pivot_row R C ci k (f k p)) p"
  define q' where "q' = f n q"
  have n: "n < R" "n < C" using Suc.prems RC by auto
  have fr: "same_frame R C ci p q" and q: "mat_eq R C (mat_of ci C q) (elim R n (mat_of ci C p))"
    using Suc by (simp_all add: q_def)
  note fq = fits_frame [OF fits fr]
  note nr = normalise [OF fq n(2), folded q'_def]
  then have fq': "fits R C ci q'" using fits_frame fq by blast
  note ap = add_pivot_row_mat [OF fq' n(2,1)]
  have "mat_eq R C (sub_row R n (mat_of ci C q')) (elim_step R n (mat_of ci C q))"
    unfolding elim_step_def using nr n by (intro sub_row_cong) auto
  moreover have "mat_eq R C (elim_step R n (mat_of ci C q)) (elim R (Suc n) (mat_of ci C p))"
    using q n by (simp add: elim_step_cong)
  ultimately have "mat_eq R C (mat_of ci C (add_pivot_row R C ci n q')) (elim R (Suc n) (mat_of ci C p))"
    using ap by (meson mat_eq_trans)
  moreover have "same_frame R C ci p (add_pivot_row R C ci n q')"
    using ap nr fr by (blast intro: same_frame_trans)
  ultimately show ?case by (simp add: for_loop_Suc q_def q'_def)
qed simp

lemma diag_loop_mat:
  assumes t: "tables_ok t" "byte_symbols c" and fits: "fits R C ci p" and n: "n \<le> R" and RC: "R \<le> C"
  shows "mat_step R C ci p
    (for_loop 0 n (\<lambda>i p. let q = i * ci + C - 1 in
       scale_row c t q C (fec_invefec t ! unat (p ! (q - i))) p) p)
    (norm_diag n (mat_of ci C p))"
proof -
  define f where "f = (\<lambda>i p. let q = i * ci + C - 1 in
       scale_row c t q C (fec_invefec t ! unat (p ! (q - i))) p)"
  let ?N = "norm_diag n (mat_of ci C p)"
  have "same_frame R C ci p (for_loop 0 n f p) \<and> (\<forall>i<R. \<forall>j<C. mat_of ci C (for_loop 0 n f p) i j =
      (if i < n then ?N i j else mat_of ci C p i j))"
  proof (rule rows_loop [OF fits n])
    fix i q
    assume i: "i < n" and fr: "same_frame R C ci p q"
      and q: "\<And>i' j. i' < R \<Longrightarrow> j < C \<Longrightarrow>
        mat_of ci C q i' j = (if i' < i then ?N i' j else mat_of ci C p i' j)"
    have iR: "i < R" "i < C" using i n RC by auto
    define w where "w = fec_invefec t ! unat (q ! (i * ci + C - 1 - i))"
    have w: "gf w = inverse (mat_of ci C p i i)"
      unfolding w_def using q [OF iR] t(1) by (simp add: mat_of_def tables_ok_def gf_ginv)
    have f: "f i q = scale_row c t (i * ci + C - 1) C w q" by (simp add: f_def w_def)
    note row = scale_row_mat [OF t fits_frame [OF fits fr] iR(1) refl]
    show "same_frame R C ci q (f i q) \<and>
      (\<forall>i'<R. \<forall>j<C. mat_of ci C (f i q) i' j = (if i' = i then ?N i j else mat_of ci C q i' j))"
      unfolding f using i iR q by (auto simp: row w norm_diag_def simp del: One_nat_def)
  qed
  then show ?thesis by (auto simp: f_def mat_eq_def norm_diag_def)
qed

text \<open>
  The array that \<^verbatim>\<open>matrix_solve\<close> leaves behind holds the transformed matrix; the cells outside
  the matrix keep their values and the return code is 0.
\<close>

theorem matrix_solve_refines:
  assumes t: "tables_ok t" "byte_symbols c"
    and dims: "R = unat rows_max" "C = unat cols_max" "ci = unat cols_in_array"
    and RC: "0 < R" "R \<le> C" and fits: "fits R C ci p"
  shows "mat_step R C ci p (fst (matrix_solve c t p rows_max cols_max cols_in_array)) (solve R (mat_of ci C p))"
    and "snd (matrix_solve c t p rows_max cols_max cols_in_array) = 0"
proof -
  define p1 where "p1 = for_loop 0 R (\<lambda>k p. add_pivot_row R C ci k (normalise_rows c t R C ci k p)) p"
  have p1: "mat_step R C ci p p1 (elim R R (mat_of ci C p))"
    unfolding p1_def using t fits RC by (intro elim_loop normalise_rows_mat) auto
  define p2 where "p2 = for_loop 0 (R - 1) (\<lambda>i p. let q = i * ci + C - 1 in
       scale_row c t q C (fec_invefec t ! unat (p ! (q - i))) p) p1"
  have p2: "mat_step R C ci p1 p2 (norm_diag (R - 1) (mat_of ci C p1))"
    unfolding p2_def using t fits_frame [OF fits] p1 RC by (intro diag_loop_mat) auto
  have "mat_eq R C (norm_diag (R - 1) (mat_of ci C p1)) (solve R (mat_of ci C p))"
    unfolding solve_def using p1 RC by (intro norm_diag_cong) auto
  with p1 p2 have "mat_step R C ci p p2 (solve R (mat_of ci C p))"
    by (blast intro: mat_eq_trans same_frame_trans)
  then show "mat_step R C ci p (fst (matrix_solve c t p rows_max cols_max cols_in_array)) (solve R (mat_of ci C p))"
    unfolding p2_def p1_def by (simp add: matrix_solve_def dims Let_def)
  show "snd (matrix_solve c t p rows_max cols_max cols_in_array) = 0"
    by (simp add: matrix_solve_def Let_def)
qed

end
