(* ===== verification/Rse_Codewords.thy ===== *)
theory Rse_Codewords
  imports Rse_Matrix
begin

text \<open>
  Initialisation of the reference coder: the bounds check, the generation of the weight
  matrix and \<^verbatim>\<open>rse_init\<close>. The weights start as the powers of \<open>1, 2, \<dots>, FEC_MAX_N\<close> and are
  solved so that the columns of the parity packets form the identity; the theorems show
  that the result is a systematic code in the sense of \<^verbatim>\<open>Linear_Code\<close>.
\<close>

section \<open>State of the coder\<close>

record rse_state =
  tables :: gf_tables
  gf_mult_table :: "fec_sym list list"
  fec_weights :: "fec_sym list"
    \<comment> \<open>\<open>fec_weights[i][j]\<close> is cell \<open>i * FEC_MAX_N + j\<close>\<close>

definition rse_zero :: "rse_h \<Rightarrow> rse_state" where
  \<comment> \<open>the global arrays at program start\<close>
  "rse_zero c = \<lparr>tables = zero_tables c, gf_mult_table = replicate (FEC_N c) (replicate (FEC_N c) 0),
     fec_weights = replicate (FEC_MAX_H * FEC_MAX_N c) 0\<rparr>"

section \<open>Operations\<close>

definition codewords_check_bounds :: "rse_h \<Rightarrow> int" where
  "codewords_check_bounds c =
     (if FEC_MAX_N c > FEC_N c then fec_errno c FEC_ERR_INVALID_PARAMS
      else if FEC_EXTRA_COLS c \<ge> FEC_MAX_COLS c then fec_errno c FEC_ERR_INVALID_PARAMS
      else if FEC_EXTRA_COLS c > 0 \<and>
              int (FEC_MAX_COLS c) \<ge> signed_take_bit 63 (push_bit (FEC_M c * FEC_EXTRA_COLS c - 1) 2)
           then fec_errno c FEC_ERR_INVALID_PARAMS
      else if FEC_MAX_COLS c < 1 then fec_errno c FEC_ERR_INVALID_PARAMS
      else if 1 < FEC_M c div 8 then fec_errno c FEC_ERR_INVALID_PARAMS
      else 0)"

definition weight_step :: "rse_h \<Rightarrow> gf_tables \<Rightarrow> nat \<Rightarrow> nat \<Rightarrow> fec_sym list \<Rightarrow> fec_sym list" where
  \<comment> \<open>the body of the two loops: \<open>fec_weights[i][j] = \<dots>\<close>\<close>
  "weight_step c t i j w =
     w[i * FEC_MAX_N c + j :=
        if j = 0 \<or> i = 0 then 1
        else FEC_GF_MULT c t (j + 1) (unat (w ! ((i - 1) * FEC_MAX_N c + j)))]"

definition codewords_generate :: "rse_h \<Rightarrow> rse_state \<Rightarrow> (rse_state \<times> int) option" where
  \<comment> \<open>\<open>None\<close> when a loop with a one-byte counter never ends\<close>
  "codewords_generate c s =
     (case for_loop 0 FEC_MAX_H
        (\<lambda>i w. Option.bind w (for_loop8 0 (FEC_MAX_N c) (weight_step c (tables s) i)))
        (Some (fec_weights s)) of
        None \<Rightarrow> None
      | Some w \<Rightarrow>
          (let (w', rc) = matrix_solve c (tables s) w
                 (of_nat FEC_MAX_H) (of_nat (FEC_MAX_N c)) (of_nat (FEC_MAX_N c))
           in Some (s\<lparr>fec_weights := w'\<rparr>, rc)))"

definition rse_init :: "rse_h \<Rightarrow> bool \<Rightarrow> rse_state \<Rightarrow> (rse_state \<times> int) option" where
  \<comment> \<open>the flag is the compile-time switch \<open>FEC_MAC_LOOKUP\<close>\<close>
  "rse_init c lookup s =
     (let rc = codewords_check_bounds c in
      if rc \<noteq> 0 then Some (s, rc)
      else
        let s1 = s\<lparr>tables := gf_math_log_tables_generate c (tables s)\<rparr>;
            s2 = (if lookup then s1\<lparr>gf_mult_table := gf_math_mult_tables_generate c (tables s1) (gf_mult_table s1)\<rparr>
                  else s1)
        in codewords_generate c s2)"

section \<open>The bounds check\<close>

lemma push_bit_byte_cols:
  assumes "FEC_M c = 8" and "0 < FEC_EXTRA_COLS c" and "FEC_EXTRA_COLS c \<le> 7"
  shows "signed_take_bit 63 (push_bit (FEC_M c * FEC_EXTRA_COLS c - 1) (2 :: int)) = 2 ^ (8 * FEC_EXTRA_COLS c)"
proof -
  have "push_bit (FEC_M c * FEC_EXTRA_COLS c - 1) (2 :: int) = 2 ^ (8 * FEC_EXTRA_COLS c)"
    using assms by (cases "FEC_EXTRA_COLS c") (simp_all add: push_bit_eq_mult power_add)
  moreover have "(2 :: int) ^ (8 * FEC_EXTRA_COLS c) < 2 ^ 63"
    using assms(3) by (intro power_strict_increasing) auto
  moreover have "- (2 ^ 63) \<le> (2 :: int) ^ (8 * FEC_EXTRA_COLS c)"
    by (rule order.trans [of _ 0]) simp_all
  ultimately show ?thesis by (metis signed_take_bit_int_eq_self)
qed

theorem codewords_check_bounds_iff:
  assumes "byte_symbols c" and "FEC_EXTRA_COLS c \<le> 7" and "fec_errno c FEC_ERR_INVALID_PARAMS \<noteq> 0"
  shows "codewords_check_bounds c = 0 \<longleftrightarrow>
    FEC_MAX_N c \<le> 256 \<and> FEC_EXTRA_COLS c < FEC_MAX_COLS c \<and>
    (FEC_EXTRA_COLS c = 0 \<or> FEC_MAX_COLS c < 256 ^ FEC_EXTRA_COLS c)"
proof (cases "FEC_EXTRA_COLS c = 0")
  case True
  then show ?thesis
    using assms byte_symbolsD [OF assms(1)] by (auto simp: codewords_check_bounds_def)
next
  case False
  have "(2 :: int) ^ (8 * FEC_EXTRA_COLS c) = int (256 ^ FEC_EXTRA_COLS c)"
    by (simp add: power_mult)
  with False have "signed_take_bit 63 (push_bit (FEC_M c * FEC_EXTRA_COLS c - 1) (2 :: int)) =
      int (256 ^ FEC_EXTRA_COLS c)"
    using push_bit_byte_cols [of c] byte_symbolsD(1) [OF assms(1)] assms(2) by simp
  with False show ?thesis
    using assms(3) byte_symbolsD [OF assms(1)]
    by (simp add: codewords_check_bounds_def del: of_nat_power)
qed

section \<open>The weights before solving\<close>

definition rs_point :: "rse_h \<Rightarrow> nat \<Rightarrow> gf256" where
  \<comment> \<open>the evaluation point of column \<open>j\<close> from the left\<close>
  "rs_point c j = gf (of_nat (FEC_MAX_N c - j))"

lemma rs_point_inj:
  assumes "FEC_MAX_N c \<le> 255"
  shows "inj_on (rs_point c) {..<FEC_MAX_N c}"
proof (rule inj_onI)
  fix i j
  assume ij: "i \<in> {..<FEC_MAX_N c}" "j \<in> {..<FEC_MAX_N c}" and "rs_point c i = rs_point c j"
  then have "(of_nat (FEC_MAX_N c - i) :: u8) = of_nat (FEC_MAX_N c - j)" by (simp add: rs_point_def)
  moreover have "FEC_MAX_N c - i < 256" and "FEC_MAX_N c - j < 256" using assms by linarith+
  ultimately have "FEC_MAX_N c - i = FEC_MAX_N c - j" by (metis unat_of_nat_u8)
  with ij show "i = j" by auto
qed

definition weights_upto :: "rse_h \<Rightarrow> nat \<Rightarrow> nat \<Rightarrow> fec_sym list \<Rightarrow> bool" where
  \<comment> \<open>rows below \<open>i\<close> are complete, row \<open>i\<close> up to column \<open>j\<close>\<close>
  "weights_upto c i j w \<longleftrightarrow>
     length w = FEC_MAX_H * FEC_MAX_N c \<and>
     (\<forall>i' j'. i' < FEC_MAX_H \<longrightarrow> j' < FEC_MAX_N c \<longrightarrow> i' < i \<or> i' = i \<and> j' < j \<longrightarrow>
        gf (w ! (i' * FEC_MAX_N c + j')) = gf (of_nat (j' + 1)) ^ i')"

lemma weight_step_ok:
  assumes t: "tables_ok t" "byte_symbols c" and N: "FEC_MAX_N c \<le> 255"
    and i: "i < FEC_MAX_H" and j: "j < FEC_MAX_N c" and w: "weights_upto c i j w"
  shows "weights_upto c i (Suc j) (weight_step c t i j w)"
proof -
  let ?N = "FEC_MAX_N c"
  have len: "length w = FEC_MAX_H * ?N" using w by (simp add: weights_upto_def)
  have ix: "i * ?N + j < length w" using row_index_less [OF i j] len by simp
  have ne: "i' * ?N + j' = i * ?N + j \<longleftrightarrow> i' = i \<and> j' = j" if "j' < ?N" for i' j'
    using row_index_eq_iff [OF that j] .
  have new: "gf (weight_step c t i j w ! (i * ?N + j)) = gf (of_nat (j + 1)) ^ i"
  proof (cases "j = 0 \<or> i = 0")
    case True
    then show ?thesis using ix by (auto simp: weight_step_def)
  next
    case False
    then have prev: "gf (w ! ((i - 1) * ?N + j)) = gf (of_nat (j + 1)) ^ (i - 1)"
      using w i j by (auto simp: weights_upto_def)
    have "weight_step c t i j w ! (i * ?N + j) = gmul (of_nat (j + 1)) (w ! ((i - 1) * ?N + j))"
      using False ix j N t by (simp add: weight_step_def FEC_GF_MULT_nat del: of_nat_Suc of_nat_add)
    then show ?thesis
      using prev False by (simp only: gf_gmul) (metis power_minus_mult mult.commute neq0_conv)
  qed
  then show ?thesis
    unfolding weights_upto_def
  proof (intro conjI allI impI)
    fix i' j' assume *: "i' < FEC_MAX_H" "j' < ?N" "i' < i \<or> i' = i \<and> j' < Suc j"
    show "gf (weight_step c t i j w ! (i' * ?N + j')) = gf (of_nat (j' + 1)) ^ i'"
    proof (cases "i' = i \<and> j' = j")
      case False
      with ne [OF *(2), of i'] have "weight_step c t i j w ! (i' * ?N + j') = w ! (i' * ?N + j')"
        unfolding weight_step_def by (intro nth_list_update_neq) metis
      with False * w show ?thesis by (auto simp: weights_upto_def less_Suc_eq)
    qed (use new in simp)
  qed (simp add: weight_step_def len)
qed

lemma weights_next_row: "weights_upto c i (FEC_MAX_N c) w \<Longrightarrow> weights_upto c (Suc i) 0 w"
  by (auto simp: weights_upto_def less_Suc_eq)

lemma weights_loop:
  assumes t: "tables_ok t" "byte_symbols c" and N: "FEC_MAX_N c \<le> 255"
    and w: "length w = FEC_MAX_H * FEC_MAX_N c"
  shows "\<exists>w'. for_loop 0 FEC_MAX_H (\<lambda>i w. Option.bind w (for_loop8 0 (FEC_MAX_N c) (weight_step c t i))) (Some w)
      = Some w' \<and> weights_upto c FEC_MAX_H 0 w'"
proof -
  have "0 \<le> FEC_MAX_H" by simp
  then show ?thesis
  proof (induction rule: for_loop_induct [where P = "\<lambda>i x. \<exists>w'. x = Some w' \<and> weights_upto c i 0 w'"])
    case init
    then show ?case using w by (simp add: weights_upto_def)
  next
    case (step i x)
    then obtain w' where x: "x = Some w'" and w': "weights_upto c i 0 w'" by blast
    have "weights_upto c i (FEC_MAX_N c) (for_loop 0 (FEC_MAX_N c) (weight_step c t i) w')"
      using w' step.hyps
      by (intro for_loop_induct [where P = "weights_upto c i"]) (auto intro: weight_step_ok [OF t N])
    then show ?case using x N by (auto intro: weights_next_row)
  qed
qed

section \<open>The generated code\<close>

definition code_ok :: "rse_h \<Rightarrow> fec_sym list \<Rightarrow> bool" where
  \<comment> \<open>the weights are those of a systematic code\<close>
  "code_ok c w \<longleftrightarrow> length w = FEC_MAX_H * FEC_MAX_N c \<and>
     systematic FEC_MAX_H (FEC_MAX_N c) (rs_point c) (mat_of (FEC_MAX_N c) (FEC_MAX_N c) w)"

lemma systematic_cong:
  assumes "mat_eq h n A B" and "systematic h n x A" and "h \<le> n"
  shows "systematic h n x B"
  using assms unfolding systematic_def mat_eq_def by (metis less_le_trans)

definition group_fits :: "rse_h \<Rightarrow> bool" where
  \<comment> \<open>the largest group has a column for each of its packets and the columns are counted in one byte\<close>
  "group_fits c \<longleftrightarrow> FEC_MAX_K + FEC_MAX_H \<le> FEC_MAX_N c \<and> FEC_MAX_N c \<le> 255"

lemma codewords_generate_ok:
  assumes t: "tables_ok (tables s)" "byte_symbols c" and N: "group_fits c"
    and w: "length (fec_weights s) = FEC_MAX_H * FEC_MAX_N c"
  shows "\<exists>w. codewords_generate c s = Some (s\<lparr>fec_weights := w\<rparr>, 0) \<and> code_ok c w"
proof -
  let ?N = "FEC_MAX_N c" and ?w = "\<lambda>w. matrix_solve c (tables s) w
      (of_nat FEC_MAX_H) (of_nat (FEC_MAX_N c)) (of_nat (FEC_MAX_N c))"
  have N': "FEC_MAX_H \<le> ?N" "?N \<le> 255" using N by (simp_all add: group_fits_def)
  from weights_loop [OF t N'(2) w] obtain w1 where
    loop: "for_loop 0 FEC_MAX_H (\<lambda>i w. Option.bind w (for_loop8 0 ?N (weight_step c (tables s) i)))
      (Some (fec_weights s)) = Some w1" and w1: "weights_upto c FEC_MAX_H 0 w1" by blast
  have fits: "fits FEC_MAX_H ?N ?N w1" using w1 N' by (simp add: fits_def weights_upto_def FEC_MAX_H_def)
  have dims: "FEC_MAX_H = unat (of_nat FEC_MAX_H :: u8)" "?N = unat (of_nat ?N :: u8)"
    using N' by (simp_all add: unat_of_nat_u8)
  have H0: "0 < FEC_MAX_H" by (simp add: FEC_MAX_H_def)
  note ms = matrix_solve_refines [OF t dims(1,2,2) H0 N'(1) fits]
  have van: "mat_eq FEC_MAX_H ?N (mat_of ?N ?N w1) (vandermonde (rs_point c))"
    unfolding mat_eq_def
  proof (intro allI impI)
    fix i j assume "i < FEC_MAX_H" and j: "j < ?N"
    then have "gf (w1 ! (i * ?N + (?N - 1 - j))) = gf (of_nat (?N - 1 - j + 1)) ^ i"
      using w1 [unfolded weights_upto_def, THEN conjunct2, rule_format, of i "?N - 1 - j"] by linarith
    moreover have "i * ?N + ?N - 1 - j = i * ?N + (?N - 1 - j)" and "?N - 1 - j + 1 = ?N - j" using j by auto
    ultimately show "mat_of ?N ?N w1 i j = vandermonde (rs_point c) i j"
      by (simp only: mat_of_def vandermonde_def rs_point_def)
  qed
  have "systematic FEC_MAX_H ?N (rs_point c) (solve FEC_MAX_H (vandermonde (rs_point c)))"
    using rs_point_inj [OF N'(2)] N'(1) by (intro systematic_solve) (auto elim: inj_on_subset)
  moreover have "mat_eq FEC_MAX_H ?N (solve FEC_MAX_H (vandermonde (rs_point c))) (mat_of ?N ?N (fst (?w w1)))"
    using ms(1) solve_cong [OF van N'(1)] by (auto simp: mat_eq_def)
  ultimately have "systematic FEC_MAX_H ?N (rs_point c) (mat_of ?N ?N (fst (?w w1)))"
    using systematic_cong N'(1) by blast
  moreover have "length (fst (?w w1)) = FEC_MAX_H * ?N"
    using ms(1) w1 by (simp add: same_frame_def weights_upto_def)
  ultimately have "code_ok c (fst (?w w1))" by (simp add: code_ok_def)
  moreover have "codewords_generate c s = Some (s\<lparr>fec_weights := fst (?w w1)\<rparr>, 0)"
    using ms(2) by (simp add: codewords_generate_def loop split_beta Let_def)
  ultimately show ?thesis by blast
qed

text \<open>\<^verbatim>\<open>rse_init\<close> on the zero-initialised globals.\<close>

lemma rse_init_ok:
  assumes c: "byte_symbols c" and N: "group_fits c" and chk: "codewords_check_bounds c = 0"
  shows "\<exists>s. rse_init c lookup (rse_zero c) = Some (s, 0) \<and> tables_ok (tables s) \<and> code_ok c (fec_weights s) \<and>
    (lookup \<longrightarrow> gf_mult_table s = gf_math_mult_tables_generate c (tables s) (gf_mult_table (rse_zero c)))"
proof -
  define s1 where "s1 = (rse_zero c)\<lparr>tables := gf_math_log_tables_generate c (tables (rse_zero c))\<rparr>"
  define s2 where "s2 = (if lookup
    then s1\<lparr>gf_mult_table := gf_math_mult_tables_generate c (tables s1) (gf_mult_table s1)\<rparr> else s1)"
  have t: "tables_ok (tables s2)" and w: "length (fec_weights s2) = FEC_MAX_H * FEC_MAX_N c"
    using tables_generate_ok [OF c] by (simp_all add: s1_def s2_def rse_zero_def)
  from codewords_generate_ok [OF t c N w] obtain w where
    "codewords_generate c s2 = Some (s2\<lparr>fec_weights := w\<rparr>, 0)" "code_ok c w" by blast
  moreover have "rse_init c lookup (rse_zero c) = codewords_generate c s2"
    by (simp add: rse_init_def chk s1_def s2_def Let_def)
  ultimately show ?thesis using t
    by (intro exI [of _ "s2\<lparr>fec_weights := w\<rparr>"]) (simp add: s2_def s1_def)
qed

text \<open>
  The check admits \<^verbatim>\<open>FEC_MAX_N = FEC_N\<close>, but the loop over the columns then compares a
  one-byte counter with 256 and never ends.
\<close>

lemma rse_init_diverges:
  assumes "256 \<le> FEC_MAX_N c" and "codewords_check_bounds c = 0"
  shows "rse_init c lookup s = None"
proof -
  have "codewords_generate c s' = None" for s'
  proof -
    have "for_loop 0 FEC_MAX_H (\<lambda>i w. Option.bind w (for_loop8 0 (FEC_MAX_N c) (weight_step c (tables s') i)))
        (Some (fec_weights s')) = None"
      by (simp add: FEC_MAX_H_def for_loop_def upt_rec for_loop8_diverges [OF assms(1)])
    then show ?thesis by (simp add: codewords_generate_def)
  qed
  then show ?thesis using assms(2) by (simp add: rse_init_def Let_def)
qed

end
