(* ===== verification/Rse_Block.thy ===== *)
theory Rse_Block
  imports Rse_Codewords
begin

text \<open>
  The FEC block of \<^verbatim>\<open>rse.bkp.c\<close>: the table of the packets of one group, with the address,
  codeword index, length and status of each, and the operations that fill it.

  \<^verbatim>\<open>struct fec_block\<close> is declared in the header that is not in the repository. Its fields are
  those the code uses. The status flags are a datatype: the code switches over all six, so
  they are distinct. Lengths and counts are natural numbers; the conversions to
  \<^verbatim>\<open>fec_sym\<close> that the code makes are written out.
\<close>

section \<open>Data\<close>

datatype fec_flag = FEC_FLAG_NULL | FEC_FLAG_KNOWN | FEC_FLAG_WANTED | FEC_FLAG_IGNORE
  | FEC_FLAG_GENNED | FEC_FLAG_GENOLD

type_synonym addr = nat \<comment> \<open>start of a packet buffer; 0 is the null pointer\<close>
type_synonym mem = "addr \<Rightarrow> nat \<Rightarrow> fec_sym" \<comment> \<open>\<open>p[i]\<close>; buffers at different addresses are disjoint\<close>

record fec_block =
  pdata :: "addr list"
  cbi :: "fec_sym list"
  plen :: "nat list"
  pstat :: "fec_flag list"
  block_C :: nat
  block_N :: nat

definition block_zero :: "nat \<Rightarrow> fec_block" where
  "block_zero n = \<lparr>pdata = replicate n 0, cbi = replicate n 0, plen = replicate n 0,
     pstat = replicate n FEC_FLAG_NULL, block_C = 0, block_N = 0\<rparr>"

section \<open>Operations\<close>

definition fec_block_delete :: "rse_h \<Rightarrow> int list \<Rightarrow> fec_block \<Rightarrow> fec_block" where
  "fec_block_delete c delete_fbis b =
     (let b1 = fold (\<lambda>d b.
            let fbi = unat (word_of_int d :: fec_sym) in
            b\<lparr>pstat := (pstat b)[fbi := if unat (cbi b ! fbi) < FEC_MAX_K then FEC_FLAG_WANTED else FEC_FLAG_IGNORE],
              plen := (plen b)[fbi := 0]\<rparr>) (takeWhile (\<lambda>d. d < int (FEC_MAX_N c)) delete_fbis) b
      in for_loop 0 (block_N b1) (\<lambda>i b.
            if FEC_MAX_K \<le> unat (cbi b ! i) \<and> (pstat b ! i = FEC_FLAG_GENNED \<or> pstat b ! i = FEC_FLAG_GENOLD)
            then b\<lparr>pstat := (pstat b)[i := FEC_FLAG_KNOWN]\<rparr> else b) b1)"

definition fec_block_check :: "rse_h \<Rightarrow> fec_block \<Rightarrow> int" where
  "fec_block_check c b =
     (if FEC_N c \<le> block_N b \<or> FEC_MAX_COLS c < block_C b \<or> block_N b < 1 \<or> block_C b < 1
      then fec_errno c FEC_ERR_INVALID_PARAMS else 0)"

definition fec_block_types_check :: "rse_h \<Rightarrow> nat \<Rightarrow> nat \<Rightarrow> nat \<Rightarrow> int" where
  "fec_block_types_check c COUNT_KNOW COUNT_WANT COUNT_PARI =
     (if COUNT_KNOW < 1 \<or> COUNT_WANT < 1 \<or> COUNT_PARI < COUNT_WANT then fec_errno c FEC_ERR_ENC_MISSING_DATA
      else if FEC_MAX_H < COUNT_PARI then fec_errno c FEC_ERR_ENC_MISSING_DATA
      else 0)"

definition is_known :: "fec_block \<Rightarrow> nat \<Rightarrow> bool" where
  "is_known b i \<longleftrightarrow> pstat b ! i = FEC_FLAG_KNOWN \<or> pstat b ! i = FEC_FLAG_GENNED"

definition is_parity :: "fec_block \<Rightarrow> nat \<Rightarrow> bool" where
  "is_parity b i \<longleftrightarrow> FEC_MAX_K \<le> unat (cbi b ! i) \<and>
     pstat b ! i \<noteq> FEC_FLAG_IGNORE \<and> pstat b ! i \<noteq> FEC_FLAG_GENOLD"

definition fec_block_types_find :: "fec_block \<Rightarrow> nat list \<times> nat list \<times> nat list" where
  \<comment> \<open>the prefixes of \<open>INDEX_KNOW\<close>, \<open>INDEX_WANT\<close>, \<open>INDEX_PARI\<close> that have been filled; the
    counts are their lengths\<close>
  "fec_block_types_find b =
     for_loop 0 (block_N b) (\<lambda>i (know, want, pari).
       ((if is_known b i then know @ [i] else know),
        (if pstat b ! i = FEC_FLAG_WANTED then want @ [i] else want),
        (if is_parity b i then pari @ [i] else pari))) ([], [], [])"

definition fec_block_add_packet :: "addr \<Rightarrow> fec_sym \<Rightarrow> fec_sym \<Rightarrow> nat \<Rightarrow> fec_flag \<Rightarrow> fec_block \<Rightarrow> fec_block" where
  "fec_block_add_packet p fbi cb len flag b =
     (let i = unat fbi;
          b1 = b\<lparr>pdata := (pdata b)[i := p], cbi := (cbi b)[i := cb], plen := (plen b)[i := len],
                 pstat := (pstat b)[i := flag]\<rparr>
      in if block_C b1 < len then b1\<lparr>block_C := len\<rparr> else b1)"

definition fec_block_add_data_packet :: "rse_h \<Rightarrow> addr \<Rightarrow> fec_sym \<Rightarrow> nat \<Rightarrow> fec_flag \<Rightarrow> fec_block \<Rightarrow> fec_block \<times> nat" where
  "fec_block_add_data_packet c p fbi len flag b =
     (let b1 = fec_block_add_packet p fbi fbi len flag b;
          vlen = len + FEC_EXTRA_COLS c;
          b2 = (if block_C b1 < vlen then b1\<lparr>block_C := vlen\<rparr> else b1)
      in (b2, block_C b2))"

definition fec_block_add_parity_packet ::
    "rse_h \<Rightarrow> addr \<Rightarrow> fec_sym \<Rightarrow> fec_sym \<Rightarrow> fec_sym \<Rightarrow> nat \<Rightarrow> fec_flag \<Rightarrow> fec_block \<Rightarrow> fec_block \<times> nat" where
  "fec_block_add_parity_packet c p parity_index k offset len flag b =
     (let cb = of_nat (FEC_MAX_N c) - offset - parity_index - 1;
          fbi = k + parity_index;
          b1 = fec_block_add_packet p fbi cb len flag b
      in (b1, block_C b1))"

definition fec_block_add_wanted_packet ::
    "rse_h \<Rightarrow> addr \<Rightarrow> fec_sym \<Rightarrow> fec_sym \<Rightarrow> fec_sym \<Rightarrow> nat \<Rightarrow> fec_block \<Rightarrow> fec_block \<times> nat" where
  "fec_block_add_wanted_packet c p fbi k offset len b =
     (let cb = (if fbi < k then fbi else of_nat (FEC_MAX_N c) - offset - 1 + k - fbi);
          b1 = fec_block_add_packet p fbi cb len FEC_FLAG_WANTED b
      in (b1, plen b1 ! unat fbi))"

definition fec_block_get_len :: "fec_sym \<Rightarrow> fec_block \<Rightarrow> nat" where
  "fec_block_get_len fbi b = plen b ! unat fbi"

definition fec_block_number_of_data_bits :: "fec_block \<Rightarrow> nat" where
  "fec_block_number_of_data_bits b =
     for_loop 0 (block_N b) (\<lambda>i n. if unat (cbi b ! i) < FEC_MAX_K then n + plen b ! i else n) 0 * 1 * 8"

definition fec_block_init :: "rse_h \<Rightarrow> fec_sym \<Rightarrow> fec_sym \<Rightarrow> fec_flag \<Rightarrow> fec_flag \<Rightarrow> fec_block \<Rightarrow> fec_block" where
  "fec_block_init c k h data_flag parity_flag b =
     (let b1 = (if data_flag \<noteq> FEC_FLAG_NULL
            then for_loop 0 (unat k) (\<lambda>i b. fst (fec_block_add_data_packet c 0 (of_nat i) 0 data_flag b)) b else b);
          b2 = (if parity_flag \<noteq> FEC_FLAG_NULL
            then for_loop 0 (unat h) (\<lambda>i b. fst (fec_block_add_parity_packet c 0 (of_nat i) k 0 0 parity_flag b)) b1 else b1)
      in b2\<lparr>block_C := 0, block_N := unat k + unat h\<rparr>)"

definition fec_block_add :: "nat \<Rightarrow> fec_block \<Rightarrow> fec_block \<times> fec_sym" where
  "fec_block_add cnt b =
     (let fbi = of_nat (block_N b) :: fec_sym;
          b1 = for_loop 0 (unat fbi) (\<lambda>i b.
            if pstat b ! i = FEC_FLAG_GENNED then b\<lparr>pstat := (pstat b)[i := FEC_FLAG_GENOLD]\<rparr> else b) b
      in (b1\<lparr>block_N := block_N b1 + cnt\<rparr>, fbi))"

section \<open>Classification of the packets\<close>

theorem fec_block_types_find_filter:
  "fec_block_types_find b =
     (filter (is_known b) [0..<block_N b], filter (\<lambda>i. pstat b ! i = FEC_FLAG_WANTED) [0..<block_N b],
      filter (is_parity b) [0..<block_N b])"
proof -
  have "0 \<le> block_N b" by simp
  then show ?thesis
    unfolding fec_block_types_find_def
    by (induction rule: for_loop_induct [where P = "\<lambda>n r. r =
     (filter (is_known b) [0..<n], filter (\<lambda>i. pstat b ! i = FEC_FLAG_WANTED) [0..<n],
      filter (is_parity b) [0..<n])"]) auto
qed

lemma fec_block_types_check_iff:
  assumes "fec_errno c FEC_ERR_ENC_MISSING_DATA \<noteq> 0"
  shows "fec_block_types_check c know want pari = 0 \<longleftrightarrow>
    1 \<le> know \<and> 1 \<le> want \<and> want \<le> pari \<and> pari \<le> FEC_MAX_H"
  using assms by (auto simp: fec_block_types_check_def)

section \<open>Adding packets\<close>

definition sized :: "nat \<Rightarrow> fec_block \<Rightarrow> bool" where
  \<comment> \<open>the four arrays of a block have \<open>n\<close> entries\<close>
  "sized n b \<longleftrightarrow> length (pdata b) = n \<and> length (cbi b) = n \<and> length (plen b) = n \<and> length (pstat b) = n"

lemma sized_zero [blk_simps, simp]: "sized n (block_zero n)"
  by (simp add: sized_def block_zero_def)

lemma add_packet_fields [blk_simps]:
  "pdata (fec_block_add_packet p fbi cb len flag b) = (pdata b)[unat fbi := p]"
  "cbi (fec_block_add_packet p fbi cb len flag b) = (cbi b)[unat fbi := cb]"
  "plen (fec_block_add_packet p fbi cb len flag b) = (plen b)[unat fbi := len]"
  "pstat (fec_block_add_packet p fbi cb len flag b) = (pstat b)[unat fbi := flag]"
  "block_C (fec_block_add_packet p fbi cb len flag b) = max (block_C b) len"
  "block_N (fec_block_add_packet p fbi cb len flag b) = block_N b"
  by (simp_all add: fec_block_add_packet_def Let_def)

lemma add_data_packet_fields [blk_simps]:
  "pdata (fst (fec_block_add_data_packet c p fbi len flag b)) = (pdata b)[unat fbi := p]"
  "cbi (fst (fec_block_add_data_packet c p fbi len flag b)) = (cbi b)[unat fbi := fbi]"
  "plen (fst (fec_block_add_data_packet c p fbi len flag b)) = (plen b)[unat fbi := len]"
  "pstat (fst (fec_block_add_data_packet c p fbi len flag b)) = (pstat b)[unat fbi := flag]"
  "block_C (fst (fec_block_add_data_packet c p fbi len flag b)) = max (block_C b) (len + FEC_EXTRA_COLS c)"
  "block_N (fst (fec_block_add_data_packet c p fbi len flag b)) = block_N b"
  "snd (fec_block_add_data_packet c p fbi len flag b) = max (block_C b) (len + FEC_EXTRA_COLS c)"
  by (auto simp: fec_block_add_data_packet_def Let_def blk_simps max_def)

lemma add_parity_packet_fields [blk_simps]:
  "pdata (fst (fec_block_add_parity_packet c p i k off len flag b)) = (pdata b)[unat (k + i) := p]"
  "cbi (fst (fec_block_add_parity_packet c p i k off len flag b)) =
     (cbi b)[unat (k + i) := of_nat (FEC_MAX_N c) - off - i - 1]"
  "plen (fst (fec_block_add_parity_packet c p i k off len flag b)) = (plen b)[unat (k + i) := len]"
  "pstat (fst (fec_block_add_parity_packet c p i k off len flag b)) = (pstat b)[unat (k + i) := flag]"
  "block_C (fst (fec_block_add_parity_packet c p i k off len flag b)) = max (block_C b) len"
  "block_N (fst (fec_block_add_parity_packet c p i k off len flag b)) = block_N b"
  by (simp_all add: fec_block_add_parity_packet_def Let_def blk_simps)

lemma sized_add_packet [simp]: "sized n b \<Longrightarrow> sized n (fec_block_add_packet p fbi cb len flag b)"
  by (simp add: sized_def blk_simps)

text \<open>A parity packet gets the same codeword index whether it is added as parity or as wanted.\<close>

theorem wanted_parity_cbi:
  assumes "unat k + unat i < 256"
  shows "fst (fec_block_add_wanted_packet c p (k + i) k off len b) =
    fst (fec_block_add_parity_packet c p i k off len FEC_FLAG_WANTED b)"
proof -
  have "\<not> k + i < k"
    using assms by (simp add: word_less_nat_alt unat_word_ariths)
  then show ?thesis
    by (simp add: fec_block_add_wanted_packet_def fec_block_add_parity_packet_def Let_def algebra_simps)
qed

section \<open>Deleting packets\<close>

text \<open>
  After a deletion the listed packets are wanted (data) or ignored (parity) with length zero,
  generated parities that stay are known, and everything else is as before.
\<close>

definition deleted_stat :: "fec_block \<Rightarrow> nat \<Rightarrow> fec_flag" where
  "deleted_stat b i = (if unat (cbi b ! i) < FEC_MAX_K then FEC_FLAG_WANTED else FEC_FLAG_IGNORE)"

definition kept_stat :: "fec_block \<Rightarrow> nat \<Rightarrow> fec_flag" where
  "kept_stat b i = (if FEC_MAX_K \<le> unat (cbi b ! i) \<and> pstat b ! i \<in> {FEC_FLAG_GENNED, FEC_FLAG_GENOLD}
     then FEC_FLAG_KNOWN else pstat b ! i)"

lemma delete_mark:
  assumes "sized n b" and "\<forall>d\<in>set ds. 0 \<le> d \<and> d < int n" and "n \<le> 256"
    and b': "b' = fold (\<lambda>d b. let fbi = unat (word_of_int d :: fec_sym) in
            b\<lparr>pstat := (pstat b)[fbi := if unat (cbi b ! fbi) < FEC_MAX_K then FEC_FLAG_WANTED else FEC_FLAG_IGNORE],
              plen := (plen b)[fbi := 0]\<rparr>) ds b"
  shows "pdata b' = pdata b \<and> cbi b' = cbi b \<and> block_N b' = block_N b \<and> block_C b' = block_C b \<and> sized n b' \<and>
    (\<forall>i<n. pstat b' ! i = (if int i \<in> set ds then deleted_stat b i else pstat b ! i) \<and>
           plen b' ! i = (if int i \<in> set ds then 0 else plen b ! i))"
  using assms
proof (induction ds arbitrary: b b')
  case Nil
  then show ?case by simp
next
  case (Cons d ds)
  define b1 where "b1 = b\<lparr>pstat := (pstat b)[nat d := deleted_stat b (nat d)], plen := (plen b)[nat d := 0]\<rparr>"
  have d: "unat (word_of_int d :: fec_sym) = nat d"
    using Cons.prems(2,3) by (simp add: unat_eq_nat_uint uint_word_of_int)
  have "sized n b1" and len: "nat d < n" using Cons.prems by (auto simp: b1_def sized_def nat_less_iff)
  then have IH: "pdata b' = pdata b1 \<and> cbi b' = cbi b1 \<and> block_N b' = block_N b1 \<and> block_C b' = block_C b1 \<and> sized n b' \<and>
    (\<forall>i<n. pstat b' ! i = (if int i \<in> set ds then deleted_stat b1 i else pstat b1 ! i) \<and>
           plen b' ! i = (if int i \<in> set ds then 0 else plen b1 ! i))"
    using Cons.prems(2,3,4) by (intro Cons.IH) (simp_all add: b1_def d deleted_stat_def Let_def)
  have eq: "int i = d \<longleftrightarrow> nat d = i" for i using Cons.prems(2) by auto
  have b1: "deleted_stat b1 = deleted_stat b" "length (pstat b) = n" "length (plen b) = n"
    "\<And>i. i < n \<Longrightarrow> pstat b1 ! i = (if nat d = i then deleted_stat b i else pstat b ! i)"
    "\<And>i. i < n \<Longrightarrow> plen b1 ! i = (if nat d = i then 0 else plen b ! i)"
    using Cons.prems(1) by (auto simp: b1_def deleted_stat_def sized_def nth_list_update fun_eq_iff)
  show ?case
  proof (intro conjI allI impI)
    fix i assume "i < n"
    with IH b1 show "pstat b' ! i = (if int i \<in> set (d # ds) then deleted_stat b i else pstat b ! i)"
      "plen b' ! i = (if int i \<in> set (d # ds) then 0 else plen b ! i)" by (simp_all add: eq)
  qed (use IH in \<open>simp_all add: b1_def\<close>)
qed

lemma delete_promote:
  assumes "sized n b" and "m \<le> n"
    and b': "b' = for_loop 0 m (\<lambda>i b.
            if FEC_MAX_K \<le> unat (cbi b ! i) \<and> (pstat b ! i = FEC_FLAG_GENNED \<or> pstat b ! i = FEC_FLAG_GENOLD)
            then b\<lparr>pstat := (pstat b)[i := FEC_FLAG_KNOWN]\<rparr> else b) b"
  shows "pdata b' = pdata b \<and> cbi b' = cbi b \<and> plen b' = plen b \<and> block_N b' = block_N b \<and>
    block_C b' = block_C b \<and> sized n b' \<and> (\<forall>i<n. pstat b' ! i = (if i < m then kept_stat b i else pstat b ! i))"
  using assms(2) b'
proof (induction m arbitrary: b')
  case (Suc m)
  from Suc.IH [OF _ refl] Suc.prems(1)
  show ?case unfolding Suc.prems(2)
    by (auto simp: for_loop_Suc kept_stat_def sized_def nth_list_update less_Suc_eq)
qed (use assms in simp)

lemma fec_block_delete_fields:
  fixes delete_fbis and c :: rse_h
  defines "ds \<equiv> takeWhile (\<lambda>d. d < int (FEC_MAX_N c)) delete_fbis"
  assumes b: "sized (FEC_MAX_N c) b" and ds: "\<forall>d\<in>set ds. 0 \<le> d" and N: "FEC_MAX_N c \<le> 256"
    and n: "block_N b \<le> FEC_MAX_N c" and b': "b' = fec_block_delete c delete_fbis b"
  shows "pdata b' = pdata b \<and> cbi b' = cbi b \<and> block_N b' = block_N b \<and> block_C b' = block_C b \<and>
    (\<forall>i<block_N b. pstat b' ! i = (if int i \<in> set ds then deleted_stat b i else kept_stat b i) \<and>
       plen b' ! i = (if int i \<in> set ds then 0 else plen b ! i))"
proof -
  define b1 where "b1 = fold (\<lambda>d b. let fbi = unat (word_of_int d :: fec_sym) in
            b\<lparr>pstat := (pstat b)[fbi := if unat (cbi b ! fbi) < FEC_MAX_K then FEC_FLAG_WANTED else FEC_FLAG_IGNORE],
              plen := (plen b)[fbi := 0]\<rparr>) ds b"
  have "\<forall>d\<in>set ds. 0 \<le> d \<and> d < int (FEC_MAX_N c)" using ds by (auto simp: ds_def dest: set_takeWhileD)
  note m = delete_mark [OF b this N b1_def]
  then have "b' = for_loop 0 (block_N b) (\<lambda>i b.
            if FEC_MAX_K \<le> unat (cbi b ! i) \<and> (pstat b ! i = FEC_FLAG_GENNED \<or> pstat b ! i = FEC_FLAG_GENOLD)
            then b\<lparr>pstat := (pstat b)[i := FEC_FLAG_KNOWN]\<rparr> else b) b1"
    by (simp add: b' fec_block_delete_def ds_def Let_def b1_def)
  note p = delete_promote [OF _ n this]
  have "pstat b' ! i = (if int i \<in> set ds then deleted_stat b i else kept_stat b i)" if "i < block_N b" for i
    using m p that n by (auto simp: kept_stat_def deleted_stat_def)
  then show ?thesis using m p n by auto
qed

end
