(* ===== verification/Rse_Code.thy ===== *)
theory Rse_Code
  imports Rse_Block
begin

text \<open>
  The encoder and decoder \<^verbatim>\<open>rse_code\<close> of \<^verbatim>\<open>rse.bkp.c\<close>: it classifies the packets of a block,
  sets up one equation per wanted packet, and for every symbol position accumulates the
  known symbols, solves (when decoding) and writes the wanted symbols to memory.

  The lemmas follow it column by column: when every column has a solution, the coder
  returns 0, writes that solution into the buffers of the wanted packets, records their
  lengths and status, and leaves everything else as it was.
\<close>

section \<open>State\<close>

record coder =
  fbk :: "fec_block list"
  fcm_e :: "fec_sym list" \<comment> \<open>\<open>fcm.e[i][j]\<close> is cell \<open>i * (FEC_MAX_H + 1) + j\<close>\<close>
  fcm_d :: "fec_sym list"
  memory :: mem

definition coder_zero :: "rse_h \<Rightarrow> nat \<Rightarrow> coder" where
  "coder_zero c blocks = \<lparr>fbk = replicate blocks (block_zero (FEC_MAX_N c)),
     fcm_e = replicate (FEC_MAX_H * (FEC_MAX_H + 1)) 0, fcm_d = replicate (FEC_MAX_H * (FEC_MAX_H + 1)) 0,
     memory = (\<lambda>_ _. 0)\<rparr>"

definition cell :: "nat \<Rightarrow> nat \<Rightarrow> nat" where
  "cell i j = i * (FEC_MAX_H + 1) + j"

section \<open>Operations\<close>

definition mac :: "rse_h \<Rightarrow> bool \<Rightarrow> rse_state \<Rightarrow> fec_sym \<Rightarrow> fec_sym \<Rightarrow> fec_sym \<Rightarrow> fec_sym" where
  \<comment> \<open>\<open>FEC_MAC\<close> in the compiled variant\<close>
  "mac c lookup s a b p =
     (if lookup then FEC_MAC_LOOKUP c (gf_mult_table s) a b p else FEC_MAC c (tables s) a b p)"

definition weight :: "rse_h \<Rightarrow> rse_state \<Rightarrow> nat \<Rightarrow> nat \<Rightarrow> fec_sym" where
  "weight c s row col = fec_weights s ! (row * FEC_MAX_N c + col)"

definition parity_row :: "rse_h \<Rightarrow> fec_block \<Rightarrow> nat \<Rightarrow> nat" where
  \<comment> \<open>\<open>row = FEC_MAX_N - cbi - 1\<close>, stored in a \<open>fec_sym\<close>\<close>
  "parity_row c b q = unat (of_nat (FEC_MAX_N c) - cbi b ! q - 1 :: fec_sym)"

definition code_equations_duplicate :: "nat \<Rightarrow> coder \<Rightarrow> coder" where
  "code_equations_duplicate sz g =
     for_loop 0 sz (\<lambda>row g. for_loop 0 (sz + 1) (\<lambda>col g.
        g\<lparr>fcm_d := (fcm_d g)[cell row col := fcm_e g ! cell row col]\<rparr>) g) g"

definition code_equations_generate :: "rse_h \<Rightarrow> rse_state \<Rightarrow> fec_block \<Rightarrow> nat list \<Rightarrow> nat \<Rightarrow> nat list \<Rightarrow> coder \<Rightarrow> coder" where
  "code_equations_generate c s b INDEX_WANT COUNT_PARI INDEX_PARI g =
     for_loop 0 COUNT_PARI (\<lambda>i g.
       let row = parity_row c b (INDEX_PARI ! i) in
       for_loop 0 (length INDEX_WANT) (\<lambda>j g.
         let q = unat (cbi b ! (INDEX_WANT ! j)); z = length INDEX_WANT - j in
         g\<lparr>fcm_e := (fcm_e g)[cell i z := weight c s row q]\<rparr>) g) g"

definition known_symbol :: "rse_h \<Rightarrow> fec_block \<Rightarrow> mem \<Rightarrow> nat \<Rightarrow> nat \<Rightarrow> fec_sym" where
  \<comment> \<open>steps A and B of \<open>matrix_multiply\<close>: the symbol of packet \<open>q\<close> in column \<open>col\<close>\<close>
  "known_symbol c b m q col =
     (if block_C b - FEC_EXTRA_COLS c \<le> col \<and> unat (cbi b ! q) < FEC_MAX_K
      then of_nat (drop_bit (8 * 1 * (block_C b - col - 1)) (plen b ! q))
      else if col < plen b ! q then m (pdata b ! q) col else 0)"

definition matrix_multiply :: "rse_h \<Rightarrow> bool \<Rightarrow> rse_state \<Rightarrow> fec_block \<Rightarrow> nat list \<Rightarrow> nat \<Rightarrow> nat list \<Rightarrow> nat \<Rightarrow> coder \<Rightarrow> coder" where
  "matrix_multiply c lookup s b INDEX_KNOW COUNT_PARI INDEX_PARI col g =
     for_loop 0 (length INDEX_KNOW) (\<lambda>i g.
       let q = INDEX_KNOW ! i; cq = unat (cbi b ! q); data = known_symbol c b (memory g) q col in
       for_loop 0 COUNT_PARI (\<lambda>j g.
         let row = parity_row c b (INDEX_PARI ! j) in
         g\<lparr>fcm_d := (fcm_d g)[cell j 0 := mac c lookup s (weight c s row cq) data (fcm_d g ! cell j 0)]\<rparr>) g) g"

definition write_symbol :: "rse_h \<Rightarrow> char \<Rightarrow> nat \<Rightarrow> nat \<Rightarrow> fec_sym \<Rightarrow> fec_block \<times> mem \<Rightarrow> fec_block \<times> mem" where
  \<comment> \<open>one iteration of \<open>write_accumulated_sum_into_wanted_packets\<close>\<close>
  "write_symbol c code_mode col q v bm =
     (let (b, m) = bm;
          m1 = m(pdata b ! q := (m (pdata b ! q))(col := v));
          b1 = (if col + 1 = block_C b \<and> (code_mode = CHR ''d'' \<or> code_mode = CHR ''e'')
                then b\<lparr>pstat := (pstat b)[q := FEC_FLAG_GENNED]\<rparr> else b);
          b2 = (if col + 1 = block_C b \<and> FEC_EXTRA_COLS c = 0
                then b1\<lparr>plen := (plen b1)[q := block_C b1]\<rparr> else b1);
          b3 = (if unat (cbi b2 ! q) < FEC_MAX_K \<and> col = 0 then b2\<lparr>plen := (plen b2)[q := 0]\<rparr> else b2);
          b4 = (if unat (cbi b3 ! q) < FEC_MAX_K \<and> block_C b3 - FEC_EXTRA_COLS c \<le> col
                then b3\<lparr>plen := (plen b3)[q := plen b3 ! q + push_bit (8 * 1 * (block_C b3 - col - 1)) (unat v)]\<rparr>
                else b3)
      in (b4, m1))"

definition write_accumulated_sum_into_wanted_packets ::
    "rse_h \<Rightarrow> nat \<Rightarrow> nat list \<Rightarrow> nat \<Rightarrow> char \<Rightarrow> coder \<Rightarrow> coder" where
  "write_accumulated_sum_into_wanted_packets c fb INDEX_WANT col code_mode g =
     (let (b, m) = for_loop 0 (length INDEX_WANT)
            (\<lambda>j. write_symbol c code_mode col (INDEX_WANT ! j) (fcm_d g ! cell j 0)) (fbk g ! fb, memory g)
      in g\<lparr>fbk := (fbk g)[fb := b], memory := m\<rparr>)"

definition code_column :: "rse_h \<Rightarrow> bool \<Rightarrow> rse_state \<Rightarrow> nat \<Rightarrow> char \<Rightarrow> nat list \<Rightarrow> nat list \<Rightarrow> nat \<Rightarrow> nat list \<Rightarrow>
    nat \<Rightarrow> coder \<Rightarrow> coder \<times> int" where
  \<comment> \<open>the body of the loop over the symbol positions\<close>
  "code_column c lookup s fb code_mode know want parities_to_use pari col g =
     (let g1 = code_equations_duplicate parities_to_use g;
          g2 = matrix_multiply c lookup s (fbk g1 ! fb) know parities_to_use pari col g1;
          (d, rc) = (if code_mode = CHR ''d'' \<or> code_mode = CHR ''D''
                     then matrix_solve c (tables s) (fcm_d g2) (of_nat parities_to_use)
                            (of_nat (length want + 1)) (of_nat (FEC_MAX_H + 1))
                     else (fcm_d g2, 0));
          g3 = g2\<lparr>fcm_d := d\<rparr>
      in if rc \<noteq> 0 then (g3, rc)
         else (write_accumulated_sum_into_wanted_packets c fb want col code_mode g3, 0))"

definition rse_code :: "rse_h \<Rightarrow> bool \<Rightarrow> rse_state \<Rightarrow> nat \<Rightarrow> char \<Rightarrow> coder \<Rightarrow> (coder \<times> int) option" where
  \<comment> \<open>\<open>None\<close> when the loop over the packets of the block leaves the arrays of \<open>FEC_MAX_N\<close> entries\<close>
  "rse_code c lookup s fb code_mode g =
     (let b = fbk g ! fb; rc = fec_block_check c b in
      if rc \<noteq> 0 then Some (g, rc)
      else if FEC_MAX_N c < block_N b then None
      else
        let (know, want, pari) = fec_block_types_find b;
            rc = fec_block_types_check c (length know) (length want) (length pari)
        in if rc \<noteq> 0 then Some (g, rc)
           else
             let parities_to_use = (if length want < length pari then length want else length pari);
                 g1 = code_equations_generate c s b want parities_to_use pari g
             in Some (for_loop 0 (block_C b) (\<lambda>col (g, rc).
                  if rc \<noteq> 0 then (g, rc)
                  else code_column c lookup s fb code_mode know want parities_to_use pari col g) (g1, 0)))"

lemma rse_code_defined:
  "block_N (fbk g ! fb) \<le> FEC_MAX_N c \<Longrightarrow> \<exists>g' rc. rse_code c lookup s fb mode g = Some (g', rc)"
  by (simp add: rse_code_def Let_def split_beta surj_pair)

section \<open>Readiness of coder and block\<close>

definition coder_ready :: "rse_h \<Rightarrow> bool \<Rightarrow> rse_state \<Rightarrow> bool" where
  \<comment> \<open>what \<open>rse_init\<close> establishes\<close>
  "coder_ready c lookup s \<longleftrightarrow>
     byte_symbols c \<and> group_fits c \<and> tables_ok (tables s) \<and> code_ok c (fec_weights s) \<and>
     (lookup \<longrightarrow> gf_mult_table s = gf_math_mult_tables_generate c (tables s) (gf_mult_table (rse_zero c)))"

definition matrices_ok :: "coder \<Rightarrow> bool" where
  \<comment> \<open>column 0 of \<open>fcm.e\<close> is never written and stays zero\<close>
  "matrices_ok g \<longleftrightarrow> length (fcm_e g) = FEC_MAX_H * (FEC_MAX_H + 1) \<and>
     length (fcm_d g) = FEC_MAX_H * (FEC_MAX_H + 1) \<and> (\<forall>i<FEC_MAX_H. fcm_e g ! cell i 0 = 0)"

definition indices_ok :: "rse_h \<Rightarrow> fec_block \<Rightarrow> bool" where
  \<comment> \<open>codeword indices are distinct and each is a data index or one of the parity indices\<close>
  "indices_ok c b \<longleftrightarrow> distinct (take (block_N b) (cbi b)) \<and>
     (\<forall>q<block_N b. unat (cbi b ! q) < FEC_MAX_K \<or>
        FEC_MAX_N c - FEC_MAX_H \<le> unat (cbi b ! q) \<and> unat (cbi b ! q) < FEC_MAX_N c)"

definition buffers_ok :: "fec_block \<Rightarrow> bool" where
  \<comment> \<open>a wanted packet shares its buffer with no other packet that takes part\<close>
  "buffers_ok b \<longleftrightarrow> (\<forall>q<block_N b. \<forall>q'<block_N b. pstat b ! q = FEC_FLAG_WANTED \<longrightarrow>
     (pstat b ! q' = FEC_FLAG_WANTED \<or> is_known b q') \<longrightarrow> pdata b ! q' = pdata b ! q \<longrightarrow> q' = q)"

definition block_ready :: "rse_h \<Rightarrow> fec_block \<Rightarrow> bool" where
  "block_ready c b \<longleftrightarrow> sized (FEC_MAX_N c) b \<and> 1 \<le> block_N b \<and> block_N b \<le> FEC_MAX_N c \<and>
     1 \<le> block_C b \<and> block_C b \<le> FEC_MAX_COLS c \<and> indices_ok c b \<and> buffers_ok b"

abbreviation known_of :: "fec_block \<Rightarrow> nat list" where
  "known_of b \<equiv> filter (is_known b) [0..<block_N b]"
abbreviation wanted_of :: "fec_block \<Rightarrow> nat list" where
  "wanted_of b \<equiv> filter (\<lambda>i. pstat b ! i = FEC_FLAG_WANTED) [0..<block_N b]"
abbreviation parity_of :: "fec_block \<Rightarrow> nat list" where
  "parity_of b \<equiv> filter (is_parity b) [0..<block_N b]"

lemma mac_gmul:
  assumes "coder_ready c lookup s"
  shows "mac c lookup s a b p = p XOR gmul a b"
proof -
  have c: "byte_symbols c" "tables_ok (tables s)" using assms by (simp_all add: coder_ready_def)
  then have "FEC_MAC_LOOKUP c (gf_math_mult_tables_generate c (tables s) (gf_mult_table (rse_zero c))) a b p =
      p XOR gmul a b"
    by (intro FEC_MAC_LOOKUP_gmul) (auto simp: rse_zero_def byte_symbols_def)
  then show ?thesis using assms c by (simp add: mac_def FEC_MAC_gmul coder_ready_def)
qed

lemma rse_init_ready:
  assumes "byte_symbols c" and "group_fits c" and "codewords_check_bounds c = 0"
  shows "\<exists>s. rse_init c lookup (rse_zero c) = Some (s, 0) \<and> coder_ready c lookup s"
  using rse_init_ok [OF assms, of lookup] assms unfolding coder_ready_def by blast

lemma coder_zero_matrices [simp]: "matrices_ok (coder_zero c n)"
proof -
  have "cell i 0 < FEC_MAX_H * (FEC_MAX_H + 1)" if "i < FEC_MAX_H" for i
    using row_index_less [OF that, of 0 "FEC_MAX_H + 1"] by (simp add: cell_def)
  then show ?thesis by (simp add: matrices_ok_def coder_zero_def)
qed

section \<open>The matrices\<close>

lemma cell_eq_iff: "j \<le> FEC_MAX_H \<Longrightarrow> j' \<le> FEC_MAX_H \<Longrightarrow> cell i j = cell i' j' \<longleftrightarrow> i = i' \<and> j = j'"
  unfolding cell_def by (rule row_index_eq_iff) simp_all

lemma cell_less: "i < FEC_MAX_H \<Longrightarrow> j \<le> FEC_MAX_H \<Longrightarrow> cell i j < FEC_MAX_H * (FEC_MAX_H + 1)"
  unfolding cell_def by (rule row_index_less) simp_all

lemma duplicate_as_update:
  "code_equations_duplicate sz g = g\<lparr>fcm_d := for_loop 0 sz (\<lambda>row d. for_loop 0 (sz + 1)
     (\<lambda>col d. d[cell row col := fcm_e g ! cell row col]) d) (fcm_d g)\<rparr>"
proof -
  have inner: "for_loop 0 n (\<lambda>col g. g\<lparr>fcm_d := (fcm_d g)[cell row col := fcm_e g ! cell row col]\<rparr>) g =
      g\<lparr>fcm_d := for_loop 0 n (\<lambda>col d. d[cell row col := fcm_e g ! cell row col]) (fcm_d g)\<rparr>" for n row and g :: coder
    by (induction n) (simp_all add: for_loop_Suc)
  have "for_loop 0 m (\<lambda>row g. for_loop 0 n (\<lambda>col g.
        g\<lparr>fcm_d := (fcm_d g)[cell row col := fcm_e g ! cell row col]\<rparr>) g) g =
      g\<lparr>fcm_d := for_loop 0 m (\<lambda>row d. for_loop 0 n
        (\<lambda>col d. d[cell row col := fcm_e g ! cell row col]) d) (fcm_d g)\<rparr>" for m n
    by (induction m) (simp_all add: for_loop_Suc inner)
  then show ?thesis unfolding code_equations_duplicate_def .
qed

lemma duplicate_cells:
  assumes g: "matrices_ok g" and sz: "sz \<le> FEC_MAX_H"
  obtains d where "code_equations_duplicate sz g = g\<lparr>fcm_d := d\<rparr>" and "length d = length (fcm_d g)"
    and "\<And>i j. i < sz \<Longrightarrow> j \<le> sz \<Longrightarrow> d ! cell i j = fcm_e g ! cell i j"
proof
  let ?d = "for_loop 0 sz (\<lambda>row d. for_loop 0 (sz + 1)
     (\<lambda>col d. d[cell row col := fcm_e g ! cell row col]) d) (fcm_d g)"
  show "code_equations_duplicate sz g = g\<lparr>fcm_d := ?d\<rparr>" by (rule duplicate_as_update)
  note cells = for_loop_cells [where R = sz and C = "sz + 1" and ix = cell and xs = "fcm_d g" and
      v = "\<lambda>i j. fcm_e g ! cell i j"]
  have ix: "cell i j < length (fcm_d g)" "cell i j = cell i' j' \<longleftrightarrow> i = i' \<and> j = j'"
    if "i < sz" "j < sz + 1" "i' < sz" "j' < sz + 1" for i j i' j'
    using that sz g cell_less [of i j] cell_eq_iff [of j j' i i'] by (auto simp: matrices_ok_def)
  show "length ?d = length (fcm_d g)" using ix by (intro cells) auto
  show "?d ! cell i j = fcm_e g ! cell i j" if "i < sz" "j \<le> sz" for i j
    using ix that by (intro cells) auto
qed

lemma generate_as_update:
  "code_equations_generate c s b want n pari g = g\<lparr>fcm_e := for_loop 0 n (\<lambda>i e. for_loop 0 (length want)
     (\<lambda>j e. e[cell i (length want - j) :=
        weight c s (parity_row c b (pari ! i)) (unat (cbi b ! (want ! j)))]) e) (fcm_e g)\<rparr>"
proof -
  let ?v = "\<lambda>i j. weight c s (parity_row c b (pari ! i)) (unat (cbi b ! (want ! j)))"
  have inner: "for_loop 0 m (\<lambda>j g. g\<lparr>fcm_e := (fcm_e g)[ix j := v j]\<rparr>) g =
      g\<lparr>fcm_e := for_loop 0 m (\<lambda>j e. e[ix j := v j]) (fcm_e g)\<rparr>" for m ix v and g :: coder
    by (induction m) (simp_all add: for_loop_Suc)
  have "for_loop 0 n (\<lambda>i g. for_loop 0 m (\<lambda>j g. g\<lparr>fcm_e := (fcm_e g)[ix i j := v i j]\<rparr>) g) g =
      g\<lparr>fcm_e := for_loop 0 n (\<lambda>i e. for_loop 0 m (\<lambda>j e. e[ix i j := v i j]) e) (fcm_e g)\<rparr>" for n m ix v
    by (induction n) (simp_all add: for_loop_Suc inner)
  then show ?thesis by (simp add: code_equations_generate_def Let_def)
qed

lemma generate_cells:
  assumes g: "matrices_ok g" and n: "n \<le> FEC_MAX_H" and w: "length want \<le> FEC_MAX_H"
  obtains e where "code_equations_generate c s b want n pari g = g\<lparr>fcm_e := e\<rparr>"
    and "matrices_ok (g\<lparr>fcm_e := e\<rparr>)"
    and "\<And>i j. i < n \<Longrightarrow> j < length want \<Longrightarrow> e ! cell i (length want - j) =
      weight c s (parity_row c b (pari ! i)) (unat (cbi b ! (want ! j)))"
proof
  let ?v = "\<lambda>i j. weight c s (parity_row c b (pari ! i)) (unat (cbi b ! (want ! j)))"
  let ?e = "for_loop 0 n (\<lambda>i e. for_loop 0 (length want) (\<lambda>j e. e[cell i (length want - j) := ?v i j]) e) (fcm_e g)"
  show "code_equations_generate c s b want n pari g = g\<lparr>fcm_e := ?e\<rparr>" by (rule generate_as_update)
  note cells = for_loop_cells [where R = n and C = "length want" and xs = "fcm_e g" and
      ix = "\<lambda>i j. cell i (length want - j)" and v = ?v]
  have ix: "cell i (length want - j) < length (fcm_e g)"
    "cell i (length want - j) = cell i' (length want - j') \<longleftrightarrow> i = i' \<and> j = j'"
    if "i < n" "j < length want" "i' < n" "j' < length want" for i j i' j'
    using that n w g cell_less [of i "length want - j"]
      cell_eq_iff [of "length want - j" "length want - j'" i i'] by (auto simp: matrices_ok_def)
  show "?e ! cell i (length want - j) = ?v i j" if "i < n" "j < length want" for i j
    using ix that by (intro cells) auto
  have "?e ! cell i 0 = fcm_e g ! cell i 0" for i
    using ix w cell_eq_iff [of 0 _ i] by (intro cells(3)) auto
  moreover have "length ?e = length (fcm_e g)" using ix by (intro cells) auto
  ultimately show "matrices_ok (g\<lparr>fcm_e := ?e\<rparr>)" using g by (simp add: matrices_ok_def)
qed

section \<open>Accumulation\<close>

definition accumulated :: "rse_h \<Rightarrow> rse_state \<Rightarrow> fec_block \<Rightarrow> mem \<Rightarrow> nat list \<Rightarrow> nat \<Rightarrow> nat \<Rightarrow> gf256" where
  \<comment> \<open>the weighted sum of the symbols of the packets \<open>know\<close> in column \<open>col\<close>\<close>
  "accumulated c s b m know row col =
     (\<Sum>q\<leftarrow>know. gf (weight c s row (unat (cbi b ! q))) * gf (known_symbol c b m q col))"

lemma accumulated_cong:
  assumes "\<And>q. q \<in> set know \<Longrightarrow> cbi b ! q = cbi b' ! q"
    and "\<And>q. q \<in> set know \<Longrightarrow> known_symbol c b m q col = known_symbol c b' m' q col"
  shows "accumulated c s b m know row col = accumulated c s b' m' know row col"
  unfolding accumulated_def using assms by (intro arg_cong [of _ _ sum_list] map_cong) auto

lemma accumulate_one:
  assumes c: "coder_ready c lookup s" and n: "n \<le> FEC_MAX_H" and len: "length d = FEC_MAX_H * (FEC_MAX_H + 1)"
    and d': "d' = for_loop 0 n (\<lambda>j d. d[cell j 0 := mac c lookup s (w j) x (d ! cell j 0)]) d"
  shows "length d' = length d \<and> (\<forall>j<n. gf (d' ! cell j 0) = gf (d ! cell j 0) + gf (w j) * gf x) \<and>
    (\<forall>y. (\<forall>j<n. y \<noteq> cell j 0) \<longrightarrow> d' ! y = d ! y)"
  using n d'
proof (induction n arbitrary: d')
  case (Suc n)
  from Suc.IH [OF _ refl] Suc.prems(1)
  have IH: "length (for_loop 0 n (\<lambda>j d. d[cell j 0 := mac c lookup s (w j) x (d ! cell j 0)]) d) = length d"
    "\<And>y. (\<forall>j<n. y \<noteq> cell j 0) \<Longrightarrow>
       for_loop 0 n (\<lambda>j d. d[cell j 0 := mac c lookup s (w j) x (d ! cell j 0)]) d ! y = d ! y" by auto
  have "cell n 0 < length d" using cell_less [of n 0] Suc.prems(1) len by simp
  moreover have "cell n 0 \<noteq> cell j 0" if "j < n" for j using cell_eq_iff [of 0 0 n j] that by simp
  ultimately show ?case
    using Suc.IH [OF _ refl] Suc.prems IH(2) [of "cell n 0"]
    by (auto simp: for_loop_Suc nth_list_update less_Suc_eq mac_gmul [OF c] gf_xor gf_gmul)
qed simp

lemma multiply_cells:
  assumes c: "coder_ready c lookup s" and n: "n \<le> FEC_MAX_H" and len: "length (fcm_d g) = FEC_MAX_H * (FEC_MAX_H + 1)"
  obtains d where "matrix_multiply c lookup s b know n pari col g = g\<lparr>fcm_d := d\<rparr>" and "length d = length (fcm_d g)"
    and "\<And>j. j < n \<Longrightarrow> gf (d ! cell j 0) = gf (fcm_d g ! cell j 0) +
      accumulated c s b (memory g) know (parity_row c b (pari ! j)) col"
    and "\<And>y. (\<And>j. j < n \<Longrightarrow> y \<noteq> cell j 0) \<Longrightarrow> d ! y = fcm_d g ! y"
proof -
  let ?w = "\<lambda>q j. weight c s (parity_row c b (pari ! j)) (unat (cbi b ! q))"
  let ?x = "\<lambda>q. known_symbol c b (memory g) q col"
  have inner: "for_loop 0 m (\<lambda>j g. g\<lparr>fcm_d := (fcm_d g)[cell j 0 := mac c lookup s (w j) x (fcm_d g ! cell j 0)]\<rparr>) g =
      g\<lparr>fcm_d := for_loop 0 m (\<lambda>j d. d[cell j 0 := mac c lookup s (w j) x (d ! cell j 0)]) (fcm_d g)\<rparr>"
    for m w x and g :: coder
    by (induction m) (simp_all add: for_loop_Suc)
  define F :: "nat \<Rightarrow> coder \<Rightarrow> coder" where "F = (\<lambda>i g.
       let q = know ! i; cq = unat (cbi b ! q); data = known_symbol c b (memory g) q col in
       for_loop 0 n (\<lambda>j g.
         let row = parity_row c b (pari ! j) in
         g\<lparr>fcm_d := (fcm_d g)[cell j 0 := mac c lookup s (weight c s row cq) data (fcm_d g ! cell j 0)]\<rparr>) g)"
  have F: "F i (g\<lparr>fcm_d := d\<rparr>) = g\<lparr>fcm_d := for_loop 0 n (\<lambda>j d.
      d[cell j 0 := mac c lookup s (?w (know ! i) j) (?x (know ! i)) (d ! cell j 0)]) d\<rparr>" for i d
    unfolding F_def Let_def inner by simp
  have loop: "\<exists>d. for_loop 0 m F g = g\<lparr>fcm_d := d\<rparr> \<and> length d = length (fcm_d g) \<and>
      (\<forall>j<n. gf (d ! cell j 0) = gf (fcm_d g ! cell j 0) + (\<Sum>q\<leftarrow>take m know. gf (?w q j) * gf (?x q))) \<and>
      (\<forall>y. (\<forall>j<n. y \<noteq> cell j 0) \<longrightarrow> d ! y = fcm_d g ! y)" if "m \<le> length know" for m
    using that
  proof (induction m)
    case (Suc m)
    then obtain d where IH: "for_loop 0 m F g = g\<lparr>fcm_d := d\<rparr>" "length d = length (fcm_d g)"
      "\<And>j. j < n \<Longrightarrow> gf (d ! cell j 0) = gf (fcm_d g ! cell j 0) + (\<Sum>q\<leftarrow>take m know. gf (?w q j) * gf (?x q))"
      "\<And>y. (\<forall>j<n. y \<noteq> cell j 0) \<Longrightarrow> d ! y = fcm_d g ! y" by auto
    define d' where "d' = for_loop 0 n (\<lambda>j d. d[cell j 0 := mac c lookup s (?w (know ! m) j) (?x (know ! m)) (d ! cell j 0)]) d"
    note one = accumulate_one [OF c n _ d'_def]
    have "for_loop 0 (Suc m) F g = g\<lparr>fcm_d := d'\<rparr>"
      by (simp add: for_loop_Suc IH(1) F d'_def)
    moreover have "take (Suc m) know = take m know @ [know ! m]"
      using Suc.prems by (simp add: take_Suc_conv_app_nth)
    ultimately show ?case using one IH len by (intro exI [of _ d']) (simp add: add.assoc)
  qed (auto intro: exI [of _ "fcm_d g"])
  from loop [of "length know"] show thesis
    using that by (auto simp: matrix_multiply_def accumulated_def F_def)
qed

section \<open>Writing the results\<close>

definition len_after :: "rse_h \<Rightarrow> fec_block \<Rightarrow> nat \<Rightarrow> nat \<Rightarrow> fec_sym \<Rightarrow> nat" where
  \<comment> \<open>the length recorded for packet \<open>q\<close> after symbol \<open>v\<close> of column \<open>col\<close>\<close>
  "len_after c b col q v =
     (let l1 = (if col + 1 = block_C b \<and> FEC_EXTRA_COLS c = 0 then block_C b else plen b ! q);
          l2 = (if unat (cbi b ! q) < FEC_MAX_K \<and> col = 0 then 0 else l1)
      in if unat (cbi b ! q) < FEC_MAX_K \<and> block_C b - FEC_EXTRA_COLS c \<le> col
         then l2 + push_bit (8 * (block_C b - col - 1)) (unat v) else l2)"

definition stat_after :: "fec_block \<Rightarrow> char \<Rightarrow> nat \<Rightarrow> nat \<Rightarrow> fec_flag" where
  "stat_after b code_mode col q =
     (if col + 1 = block_C b \<and> (code_mode = CHR ''d'' \<or> code_mode = CHR ''e'') then FEC_FLAG_GENNED
      else pstat b ! q)"

lemma write_symbol_fields:
  assumes "q < length (plen b)" and "q < length (pstat b)"
  shows "write_symbol c mode col q v (b, m) =
    (b\<lparr>plen := (plen b)[q := len_after c b col q v], pstat := (pstat b)[q := stat_after b mode col q]\<rparr>,
     m(pdata b ! q := (m (pdata b ! q))(col := v)))"
  using assms unfolding write_symbol_def len_after_def stat_after_def
  by (cases b; cases "col + 1 = block_C b"; cases "unat (cbi b ! q) < FEC_MAX_K"; cases "FEC_EXTRA_COLS c = 0";
      cases "col = 0"; cases "block_C b - FEC_EXTRA_COLS c \<le> col"; simp)

definition same_layout :: "fec_block \<Rightarrow> fec_block \<Rightarrow> bool" where
  "same_layout b b' \<longleftrightarrow> pdata b' = pdata b \<and> cbi b' = cbi b \<and> block_C b' = block_C b \<and> block_N b' = block_N b \<and>
     length (plen b') = length (plen b) \<and> length (pstat b') = length (pstat b)"

lemma same_layout_refl [simp]: "same_layout b b"
  by (simp add: same_layout_def)

lemma same_layout_trans: "same_layout a b \<Longrightarrow> same_layout b d \<Longrightarrow> same_layout a d"
  by (simp add: same_layout_def)

definition written :: "rse_h \<Rightarrow> char \<Rightarrow> nat \<Rightarrow> nat list \<Rightarrow> (nat \<Rightarrow> fec_sym) \<Rightarrow> fec_block \<times> mem \<Rightarrow> nat \<Rightarrow> fec_block \<times> mem \<Rightarrow> bool" where
  \<comment> \<open>the first \<open>n\<close> wanted packets have received their symbol of column \<open>col\<close>\<close>
  "written c mode col want v bm n bm' \<longleftrightarrow>
     (let (b, m) = bm; (b', m') = bm' in
        same_layout b b' \<and>
        (\<forall>q. q \<notin> set (take n want) \<longrightarrow> plen b' ! q = plen b ! q \<and> pstat b' ! q = pstat b ! q) \<and>
        (\<forall>j<n. plen b' ! (want ! j) = len_after c b col (want ! j) (v j) \<and>
               pstat b' ! (want ! j) = stat_after b mode col (want ! j) \<and>
               m' (pdata b ! (want ! j)) col = v j) \<and>
        (\<forall>p x. x \<noteq> col \<or> (\<forall>j<n. p \<noteq> pdata b ! (want ! j)) \<longrightarrow> m' p x = m p x))"

lemma write_loop:
  assumes want: "distinct want" "\<And>q. q \<in> set want \<Longrightarrow> q < length (plen b) \<and> q < length (pstat b)"
    and ptr: "\<And>j j'. j < length want \<Longrightarrow> j' < length want \<Longrightarrow> pdata b ! (want ! j) = pdata b ! (want ! j') \<Longrightarrow> j = j'"
    and "n \<le> length want"
  shows "written c mode col want v (b, m) n
    (for_loop 0 n (\<lambda>j. write_symbol c mode col (want ! j) (v j)) (b, m))"
  using \<open>n \<le> length want\<close>
proof (induction n)
  case 0
  then show ?case by (simp add: written_def)
next
  case (Suc n)
  obtain b' m' where bm: "for_loop 0 n (\<lambda>j. write_symbol c mode col (want ! j) (v j)) (b, m) = (b', m')"
    by (cases "for_loop 0 n (\<lambda>j. write_symbol c mode col (want ! j) (v j)) (b, m)")
  let ?q = "want ! n"
  have n: "n < length want" using Suc.prems by simp
  have W: "written c mode col want v (b, m) n (b', m')" using Suc bm by simp
  then have lay: "same_layout b b'" by (simp add: written_def)
  have q: "?q \<notin> set (take n want)" "?q < length (plen b')" "?q < length (pstat b')"
    using want n lay by (auto simp: same_layout_def in_set_conv_nth nth_eq_iff_index_eq)
  have same: "plen b' ! ?q = plen b ! ?q" "pstat b' ! ?q = pstat b ! ?q" "pdata b' = pdata b" "cbi b' = cbi b"
    "block_C b' = block_C b" using W q(1) by (auto simp: written_def same_layout_def)
  then have after: "len_after c b' col ?q v' = len_after c b col ?q v'" "stat_after b' mode col ?q = stat_after b mode col ?q" for v'
    by (simp_all only: len_after_def stat_after_def)
  define b'' where "b'' = b'\<lparr>plen := (plen b')[?q := len_after c b col ?q (v n)], pstat := (pstat b')[?q := stat_after b mode col ?q]\<rparr>"
  define m'' where "m'' = m'(pdata b ! ?q := (m' (pdata b ! ?q))(col := v n))"
  have step: "for_loop 0 (Suc n) (\<lambda>j. write_symbol c mode col (want ! j) (v j)) (b, m) = (b'', m'')"
    using q by (simp add: for_loop_Suc bm write_symbol_fields after same b''_def m''_def)
  have tk: "set (take (Suc n) want) = insert ?q (set (take n want))" using n by (simp add: take_Suc_conv_app_nth)
  have ne: "want ! j \<noteq> ?q" "pdata b ! (want ! j) \<noteq> pdata b ! ?q" if "j < n" for j
    using that n want(1) ptr [of j n] by (auto simp: nth_eq_iff_index_eq)
  show ?case
    unfolding step written_def Let_def prod.case
  proof (intro conjI allI impI)
    show "same_layout b b''" using lay by (simp add: b''_def same_layout_def)
    fix q assume "q \<notin> set (take (Suc n) want)"
    then show "plen b'' ! q = plen b ! q" "pstat b'' ! q = pstat b ! q"
      using W by (auto simp: tk b''_def written_def)
  next
    fix j assume "j < Suc n"
    then show "plen b'' ! (want ! j) = len_after c b col (want ! j) (v j)"
      "pstat b'' ! (want ! j) = stat_after b mode col (want ! j)" "m'' (pdata b ! (want ! j)) col = v j"
      using W q ne [of j] by (cases "j = n"; auto simp: b''_def m''_def written_def)+
  next
    fix p x assume "x \<noteq> col \<or> (\<forall>j<Suc n. p \<noteq> pdata b ! (want ! j))"
    then show "m'' p x = m p x" using W by (auto simp: m''_def written_def)
  qed
qed

section \<open>One column\<close>

abbreviation eq_weight :: "rse_h \<Rightarrow> rse_state \<Rightarrow> fec_block \<Rightarrow> nat list \<Rightarrow> nat list \<Rightarrow> nat \<Rightarrow> nat \<Rightarrow> gf256" where
  "eq_weight c s b pari want i j \<equiv> gf (weight c s (parity_row c b (pari ! i)) (unat (cbi b ! (want ! j))))"

definition equations_ok :: "rse_h \<Rightarrow> rse_state \<Rightarrow> fec_block \<Rightarrow> nat list \<Rightarrow> nat list \<Rightarrow> coder \<Rightarrow> bool" where
  \<comment> \<open>\<open>fcm.e\<close> holds the equations of the block\<close>
  "equations_ok c s b want pari g \<longleftrightarrow> matrices_ok g \<and> length want \<le> FEC_MAX_H \<and>
     (\<forall>i<length want. \<forall>j<length want. gf (fcm_e g ! cell i (length want - j)) = eq_weight c s b pari want i j)"

definition solves :: "rse_h \<Rightarrow> rse_state \<Rightarrow> fec_block \<Rightarrow> mem \<Rightarrow> char \<Rightarrow> nat list \<Rightarrow> nat list \<Rightarrow> nat list \<Rightarrow> nat \<Rightarrow> (nat \<Rightarrow> gf256) \<Rightarrow> bool" where
  \<comment> \<open>\<open>x j\<close> is what column \<open>col\<close> of wanted packet \<open>j\<close> has to be\<close>
  "solves c s b m mode know want pari col x \<longleftrightarrow>
     (if mode = CHR ''d'' \<or> mode = CHR ''D''
      then leading_regular (length want) (eq_weight c s b pari want) \<and>
        (\<forall>i<length want. (\<Sum>j<length want. eq_weight c s b pari want i j * x j) +
           accumulated c s b m know (parity_row c b (pari ! i)) col = 0)
      else \<forall>i<length want. x i = accumulated c s b m know (parity_row c b (pari ! i)) col)"

lemma leading_regular_cong:
  assumes "mat_eq n n A B" and "leading_regular n A"
  shows "leading_regular n B"
  unfolding leading_regular_def
proof (intro allI impI)
  fix k l
  assume k: "k < n" and z: "\<forall>j\<le>k. (\<Sum>i\<le>k. l i * B i j) = 0"
  have "(\<Sum>i\<le>k. l i * A i j) = (\<Sum>i\<le>k. l i * B i j)" if "j \<le> k" for j
    using that k assms(1) by (intro sum.cong) (auto simp: mat_eq_def)
  with z k assms(2) show "l k = 0" by (simp add: leading_regular_def)
qed

lemma solved_cell:
  assumes t: "tables_ok t" "byte_symbols c" and n: "0 < n" "n \<le> FEC_MAX_H"
    and len: "length d = FEC_MAX_H * (FEC_MAX_H + 1)"
    and W: "\<And>i j. i < n \<Longrightarrow> j < n \<Longrightarrow> gf (d ! cell i (n - j)) = W i j" and reg: "leading_regular n W"
    and eq: "\<And>i. i < n \<Longrightarrow> (\<Sum>j<n. W i j * x j) + gf (d ! cell i 0) = 0"
    and r: "r = matrix_solve c t d (of_nat n) (of_nat (n + 1)) (of_nat (FEC_MAX_H + 1))"
  shows "length (fst r) = length d \<and> snd r = 0 \<and> (\<forall>i<n. gf (fst r ! cell i 0) = x i)"
proof -
  define M where "M = mat_of (FEC_MAX_H + 1) (n + 1) d"
  have H: "FEC_MAX_H = 5" by (simp add: FEC_MAX_H_def)
  have dims: "n = unat (of_nat n :: u8)" "n + 1 = unat (of_nat (n + 1) :: u8)"
    "FEC_MAX_H + 1 = unat (of_nat (FEC_MAX_H + 1) :: u8)"
    using n H by (simp_all only: unat_of_nat_u8)
  have fits: "fits n (n + 1) (FEC_MAX_H + 1) d"
    unfolding fits_def len using n by (intro conjI mult_le_mono1) simp_all
  note ms = matrix_solve_refines [OF t dims n(1) _ fits, folded r M_def]
  have M: "M i j = gf (d ! cell i (n - j))" if "j \<le> n" for i j
    using that by (simp add: M_def mat_of_def cell_def)
  have "mat_eq n n W M" using W M by (simp add: mat_eq_def)
  then have "leading_regular n M" using reg by (rule leading_regular_cong)
  moreover have "(\<Sum>j<n. M i j * x j) + M i n = 0" if "i < n" for i
    using eq [OF that] W [OF that] by (simp add: M)
  ultimately have "solve n M i n = x i" if "i < n" for i
    using solve_equations [of n M i x] that by simp
  moreover have "mat_of (FEC_MAX_H + 1) (n + 1) (fst r) i n = solve n M i n" if "i < n" for i
    using ms(1) that by (auto simp: mat_eq_def)
  ultimately have "gf (fst r ! cell i 0) = x i" if "i < n" for i
    using that by (simp add: mat_of_def cell_def)
  then show ?thesis using ms by (auto simp: same_frame_def)
qed

lemma code_column_cells:
  assumes c: "coder_ready c lookup s" and g: "equations_ok c s (fbk g ! fb) want pari g" and n: "0 < length want"
    and x: "solves c s (fbk g ! fb) (memory g) mode know want pari col x"
  obtains d where "code_column c lookup s fb mode know want (length want) pari col g =
      (write_accumulated_sum_into_wanted_packets c fb want col mode (g\<lparr>fcm_d := d\<rparr>), 0)"
    and "length d = length (fcm_d g)" and "\<And>j. j < length want \<Longrightarrow> gf (d ! cell j 0) = x j"
proof -
  let ?n = "length want" and ?b = "fbk g ! fb"
  let ?acc = "\<lambda>i. accumulated c s ?b (memory g) know (parity_row c ?b (pari ! i)) col"
  have t: "tables_ok (tables s)" "byte_symbols c" using c by (simp_all add: coder_ready_def)
  have mo: "matrices_ok g" and nH: "?n \<le> FEC_MAX_H" using g by (simp_all add: equations_ok_def)
  from mo nH obtain d1 where g1: "code_equations_duplicate ?n g = g\<lparr>fcm_d := d1\<rparr>" "length d1 = length (fcm_d g)"
    and d1: "\<And>i j. i < ?n \<Longrightarrow> j \<le> ?n \<Longrightarrow> d1 ! cell i j = fcm_e g ! cell i j" by (rule duplicate_cells) blast
  have len: "length (fcm_d (g\<lparr>fcm_d := d1\<rparr>)) = FEC_MAX_H * (FEC_MAX_H + 1)"
    using mo g1(2) by (simp add: matrices_ok_def)
  from c nH len obtain d2 where
    g2: "matrix_multiply c lookup s ?b know ?n pari col (g\<lparr>fcm_d := d1\<rparr>) = g\<lparr>fcm_d := d2\<rparr>" "length d2 = length d1"
    and d2: "\<And>j. j < ?n \<Longrightarrow> gf (d2 ! cell j 0) = gf (d1 ! cell j 0) + ?acc j"
      "\<And>y. (\<And>j. j < ?n \<Longrightarrow> y \<noteq> cell j 0) \<Longrightarrow> d2 ! y = d1 ! y"
    by (rule multiply_cells [where b = ?b and know = know and pari = pari and col = col]) auto
  have zero: "gf (d2 ! cell j 0) = ?acc j" if "j < ?n" for j
    using d2(1) [OF that] d1 [OF that, of 0] mo that nH by (simp add: matrices_ok_def)
  have W: "gf (d2 ! cell i (?n - j)) = eq_weight c s ?b pari want i j" if "i < ?n" "j < ?n" for i j
  proof -
    have "cell i (?n - j) \<noteq> cell j' 0" for j' using cell_eq_iff [of "?n - j" 0 i j'] that nH by simp
    then have "d2 ! cell i (?n - j) = fcm_e g ! cell i (?n - j)" using d2(2) d1 that by simp
    then show ?thesis using g that by (simp add: equations_ok_def)
  qed
  show thesis
  proof (cases "mode = CHR ''d'' \<or> mode = CHR ''D''")
    case True
    define r where "r = matrix_solve c (tables s) d2 (of_nat ?n) (of_nat (?n + 1)) (of_nat (FEC_MAX_H + 1))"
    have "length (fst r) = length d2 \<and> snd r = 0 \<and> (\<forall>i<?n. gf (fst r ! cell i 0) = x i)"
      using t n nH _ W _ _ r_def
      by (rule solved_cell) (use True x zero len g1 g2 in \<open>auto simp: solves_def\<close>)
    moreover from this have "code_column c lookup s fb mode know want ?n pari col g =
        (write_accumulated_sum_into_wanted_packets c fb want col mode (g\<lparr>fcm_d := fst r\<rparr>), 0)"
      using True by (simp add: code_column_def g1 g2 Let_def split_beta r_def)
    ultimately show thesis using that [of "fst r"] g1 g2 by simp
  next
    case False
    then show thesis using that [of d2] x zero g1 g2 by (simp add: code_column_def Let_def solves_def)
  qed
qed

section \<open>All columns\<close>

definition length_sum :: "rse_h \<Rightarrow> fec_block \<Rightarrow> nat \<Rightarrow> (nat \<Rightarrow> gf256) \<Rightarrow> nat" where
  \<comment> \<open>the length that the symbols of the first \<open>n\<close> columns encode\<close>
  "length_sum c b n x =
     (\<Sum>col = block_C b - FEC_EXTRA_COLS c..<n. push_bit (8 * (block_C b - col - 1)) (unat (gf_rep (x col))))"

definition coded :: "rse_h \<Rightarrow> char \<Rightarrow> nat \<Rightarrow> nat list \<Rightarrow> (nat \<Rightarrow> nat \<Rightarrow> gf256) \<Rightarrow> coder \<Rightarrow> nat \<Rightarrow> coder \<Rightarrow> bool" where
  \<comment> \<open>\<open>n\<close> columns of the wanted packets have been written\<close>
  "coded c mode fb want x g0 n g \<longleftrightarrow>
     (let b = fbk g0 ! fb; b' = fbk g ! fb in
        fbk g = (fbk g0)[fb := b'] \<and> fcm_e g = fcm_e g0 \<and> length (fcm_d g) = length (fcm_d g0) \<and>
        same_layout b b' \<and>
        (\<forall>q. q \<notin> set want \<longrightarrow> plen b' ! q = plen b ! q \<and> pstat b' ! q = pstat b ! q) \<and>
        (\<forall>j<length want. \<forall>col<n. gf (memory g (pdata b ! (want ! j)) col) = x j col) \<and>
        (\<forall>p y. n \<le> y \<or> p \<notin> (\<lambda>q. pdata b ! q) ` set want \<longrightarrow> memory g p y = memory g0 p y) \<and>
        (\<forall>j<length want. pstat b' ! (want ! j) =
           (if n = block_C b \<and> (mode = CHR ''d'' \<or> mode = CHR ''e'') then FEC_FLAG_GENNED else pstat b ! (want ! j))) \<and>
        (0 < FEC_EXTRA_COLS c \<longrightarrow> (\<forall>j<length want. plen b' ! (want ! j) =
           (if n = 0 \<or> FEC_MAX_K \<le> unat (cbi b ! (want ! j)) then plen b ! (want ! j)
            else length_sum c b n (x j)))))"

text \<open>The wanted packets of a block in whose table the coder may write.\<close>

definition want_ok :: "fec_block \<Rightarrow> nat list \<Rightarrow> nat list \<Rightarrow> bool" where
  "want_ok b know want \<longleftrightarrow> distinct want \<and> (\<forall>q\<in>set want. q < length (plen b) \<and> q < length (pstat b)) \<and>
     (\<forall>q\<in>set want. \<forall>q'\<in>set want \<union> set know. pdata b ! q' = pdata b ! q \<longrightarrow> q' = q) \<and> set know \<inter> set want = {}"

lemma coded_known_symbol:
  assumes "coded c mode fb want x g0 n g" and "want_ok (fbk g0 ! fb) know want" and "q \<in> set know"
  shows "known_symbol c (fbk g ! fb) (memory g) q col = known_symbol c (fbk g0 ! fb) (memory g0) q col"
proof -
  let ?b = "fbk g0 ! fb"
  have "q \<notin> set want" and "pdata ?b ! q \<notin> (\<lambda>q. pdata ?b ! q) ` set want"
    using assms(2,3) by (auto simp: want_ok_def dest: bspec)
  then have "plen (fbk g ! fb) ! q = plen ?b ! q" and "memory g (pdata ?b ! q) = memory g0 (pdata ?b ! q)"
    and "same_layout ?b (fbk g ! fb)"
    using assms(1) by (auto simp: coded_def Let_def fun_eq_iff)
  then show ?thesis by (simp add: known_symbol_def same_layout_def)
qed

lemma coded_solves:
  assumes g: "coded c mode fb want x g0 n g" and w: "want_ok (fbk g0 ! fb) know want"
    and sol: "solves c s (fbk g0 ! fb) (memory g0) mode know want pari col y"
    and eqs: "equations_ok c s (fbk g0 ! fb) want pari g0"
  shows "solves c s (fbk g ! fb) (memory g) mode know want pari col y"
    and "equations_ok c s (fbk g ! fb) want pari g"
proof -
  have lay: "cbi (fbk g ! fb) = cbi (fbk g0 ! fb)" "fcm_e g = fcm_e g0" "length (fcm_d g) = length (fcm_d g0)"
    using g by (auto simp: coded_def Let_def same_layout_def)
  have acc: "accumulated c s (fbk g ! fb) (memory g) know row col = accumulated c s (fbk g0 ! fb) (memory g0) know row col"
    for row by (rule accumulated_cong) (simp_all add: lay coded_known_symbol [OF g w])
  have row: "parity_row c (fbk g ! fb) = parity_row c (fbk g0 ! fb)"
    by (simp add: parity_row_def lay fun_eq_iff)
  show "solves c s (fbk g ! fb) (memory g) mode know want pari col y"
    using sol by (simp only: solves_def lay row acc)
  show "equations_ok c s (fbk g ! fb) want pari g"
    using eqs unfolding equations_ok_def matrices_ok_def lay row .
qed

lemma length_sum_Suc:
  assumes "0 < FEC_EXTRA_COLS c" and "n < block_C b"
  shows "length_sum c b (Suc n) x = (if block_C b - FEC_EXTRA_COLS c \<le> n
    then length_sum c b n x + push_bit (8 * (block_C b - n - 1)) (unat (gf_rep (x n))) else 0)"
    and "n < block_C b - FEC_EXTRA_COLS c \<or> n = 0 \<Longrightarrow> length_sum c b n x = 0"
  by (auto simp: length_sum_def)

lemma coded_step:
  assumes g: "coded c mode fb want x g0 n g" and w: "want_ok (fbk g0 ! fb) know want"
    and fb: "fb < length (fbk g0)" and n: "n < block_C (fbk g0 ! fb)"
    and d: "length d = length (fcm_d g)" "\<And>j. j < length want \<Longrightarrow> gf (d ! cell j 0) = x j n"
  shows "coded c mode fb want x g0 (Suc n)
    (write_accumulated_sum_into_wanted_packets c fb want n mode (g\<lparr>fcm_d := d\<rparr>))"
proof -
  let ?orig = "fbk g0 ! fb" and ?b = "fbk g ! fb" and ?v = "\<lambda>j. d ! cell j 0"
  obtain b' m' where bm: "for_loop 0 (length want) (\<lambda>j. write_symbol c mode n (want ! j) (?v j)) (?b, memory g) = (b', m')"
    by (cases "for_loop 0 (length want) (\<lambda>j. write_symbol c mode n (want ! j) (?v j)) (?b, memory g)")
  have lay: "same_layout ?orig ?b" using g by (simp add: coded_def Let_def)
  then have b: "pdata ?b = pdata ?orig" "cbi ?b = cbi ?orig" "block_C ?b = block_C ?orig"
    "length (plen ?b) = length (plen ?orig)" "length (pstat ?b) = length (pstat ?orig)" by (simp_all add: same_layout_def)
  have wr: "written c mode n want ?v (?b, memory g) (length want) (b', m')"
    unfolding bm [symmetric]
  proof (rule write_loop)
    fix j j' assume j: "j < length want" "j' < length want" "pdata ?b ! (want ! j) = pdata ?b ! (want ! j')"
    then have "pdata ?orig ! (want ! j) = pdata ?orig ! (want ! j')" "want ! j \<in> set want" "want ! j' \<in> set want"
      by (simp_all add: b(1))
    with w have "want ! j = want ! j'" by (auto simp: want_ok_def)
    with w j show "j = j'" by (simp add: want_ok_def nth_eq_iff_index_eq)
  qed (use w b in \<open>auto simp: want_ok_def\<close>)
  define g' where "g' = write_accumulated_sum_into_wanted_packets c fb want n mode (g\<lparr>fcm_d := d\<rparr>)"
  have fg: "fbk g = (fbk g0)[fb := ?b]" using g unfolding coded_def Let_def by (rule conjunct1)
  then have fbk_g: "length (fbk g) = length (fbk g0)" by (metis length_list_update)
  have g': "g' = g\<lparr>fcm_d := d, fbk := (fbk g)[fb := b'], memory := m'\<rparr>"
    by (simp add: g'_def write_accumulated_sum_into_wanted_packets_def bm)
  have fbk': "fbk g' = (fbk g0)[fb := b']" "fbk g' ! fb = b'"
    unfolding g' using fbk_g fb by (simp_all, subst fg, simp)
  have v: "gf_rep (x j n) = ?v j" if "j < length want" for j using d(2) [OF that] by (metis gf_rep_gf)
  have len: "plen b' ! (want ! j) = (if FEC_MAX_K \<le> unat (cbi ?orig ! (want ! j)) then plen ?orig ! (want ! j)
       else length_sum c ?orig (Suc n) (x j))" if "0 < FEC_EXTRA_COLS c" "j < length want" for j
  proof -
    have "plen b' ! (want ! j) = len_after c ?b n (want ! j) (?v j)" using wr that by (simp add: written_def)
    moreover have "plen ?b ! (want ! j) = (if n = 0 \<or> FEC_MAX_K \<le> unat (cbi ?orig ! (want ! j)) then plen ?orig ! (want ! j)
        else length_sum c ?orig n (x j))" using g that by (simp add: coded_def Let_def)
    ultimately show ?thesis
      using that length_sum_Suc [OF that(1) n, of "x j"] by (auto simp: len_after_def Let_def b v)
  qed
  have keep: "\<And>q. q \<notin> set want \<Longrightarrow> plen ?b ! q = plen ?orig ! q \<and> pstat ?b ! q = pstat ?orig ! q"
    and cols: "\<And>j col. j < length want \<Longrightarrow> col < n \<Longrightarrow> gf (memory g (pdata ?orig ! (want ! j)) col) = x j col"
    and rest: "\<And>p y. n \<le> y \<or> p \<notin> (\<lambda>q. pdata ?orig ! q) ` set want \<Longrightarrow> memory g p y = memory g0 p y"
    and stat: "\<And>j. j < length want \<Longrightarrow> pstat ?b ! (want ! j) = pstat ?orig ! (want ! j)"
    and mats: "fcm_e g = fcm_e g0" "length (fcm_d g) = length (fcm_d g0)"
    using g n unfolding coded_def Let_def by (blast, blast, blast, auto)
  have keep': "\<And>q. q \<notin> set want \<Longrightarrow> plen b' ! q = plen ?b ! q \<and> pstat b' ! q = pstat ?b ! q"
    and cols': "\<And>j. j < length want \<Longrightarrow> m' (pdata ?orig ! (want ! j)) n = ?v j"
    and rest': "\<And>p y. y \<noteq> n \<or> (\<forall>j<length want. p \<noteq> pdata ?orig ! (want ! j)) \<Longrightarrow> m' p y = memory g p y"
    and stat': "\<And>j. j < length want \<Longrightarrow> pstat b' ! (want ! j) = stat_after ?b mode n (want ! j)"
    and lay': "same_layout ?b b'"
    using wr unfolding written_def Let_def prod.case b by auto
  have "coded c mode fb want x g0 (Suc n) g'"
    unfolding coded_def Let_def fbk'(2)
  proof (intro conjI allI impI)
    fix j assume j: "j < length want"
    show "pstat b' ! (want ! j) = (if Suc n = block_C ?orig \<and> (mode = CHR ''d'' \<or> mode = CHR ''e'')
        then FEC_FLAG_GENNED else pstat ?orig ! (want ! j))"
      by (auto simp: stat' [OF j] stat_after_def b stat [OF j])
    fix col assume "col < Suc n"
    then show "gf (memory g' (pdata ?orig ! (want ! j)) col) = x j col"
      using cols' [OF j] cols [OF j] rest' d(2) [OF j] by (cases "col = n") (simp_all add: g')
  next
    fix p y assume py: "Suc n \<le> y \<or> p \<notin> (\<lambda>q. pdata ?orig ! q) ` set want"
    then have "m' p y = memory g p y" by (intro rest') auto
    also have "\<dots> = memory g0 p y" using py by (intro rest) auto
    finally show "memory g' p y = memory g0 p y" by (simp add: g')
  qed (use fbk'(1) mats d(1) len keep keep' in \<open>simp_all add: g' same_layout_trans [OF lay lay']\<close>)
  then show ?thesis by (simp add: g'_def)
qed

lemma code_loop:
  assumes c: "coder_ready c lookup s" and w: "want_ok (fbk g0 ! fb) know want" and fb: "fb < length (fbk g0)"
    and eqs: "equations_ok c s (fbk g0 ! fb) want pari g0" and ne: "0 < length want"
    and sol: "\<And>col. col < block_C (fbk g0 ! fb) \<Longrightarrow>
      solves c s (fbk g0 ! fb) (memory g0) mode know want pari col (\<lambda>j. x j col)"
    and pos: "0 < block_C (fbk g0 ! fb)"
  obtains g where "for_loop 0 (block_C (fbk g0 ! fb)) (\<lambda>col (g, rc).
      if rc \<noteq> 0 then (g, rc) else code_column c lookup s fb mode know want (length want) pari col g) (g0, 0) = (g, 0)"
    and "coded c mode fb want x g0 (block_C (fbk g0 ! fb)) g"
proof -
  let ?f = "\<lambda>col (g, rc). if rc \<noteq> 0 then (g, rc)
    else code_column c lookup s fb mode know want (length want) pari col g"
  have "0 \<le> block_C (fbk g0 ! fb)" by simp
  then have "\<exists>g. for_loop 0 (block_C (fbk g0 ! fb)) ?f (g0, 0) = (g, 0) \<and>
      coded c mode fb want x g0 (block_C (fbk g0 ! fb)) g"
  proof (induction rule: for_loop_induct [where P = "\<lambda>n r. \<exists>g. r = (g, 0) \<and> coded c mode fb want x g0 n g"])
    case init
    then show ?case using pos by (auto simp: coded_def Let_def)
  next
    case (step n r)
    then obtain g where r: "r = (g, 0)" and g: "coded c mode fb want x g0 n g" by blast
    note sg = coded_solves [OF g w sol [OF step.hyps(2)] eqs]
    obtain d where "code_column c lookup s fb mode know want (length want) pari n g =
        (write_accumulated_sum_into_wanted_packets c fb want n mode (g\<lparr>fcm_d := d\<rparr>), 0)"
      and "length d = length (fcm_d g)" "\<And>j. j < length want \<Longrightarrow> gf (d ! cell j 0) = x j n"
      using code_column_cells [OF c sg(2) ne sg(1)] by blast
    then show ?case using r coded_step [OF g w fb step.hyps(2)] by simp
  qed
  then show thesis using that by blast
qed

section \<open>The coder\<close>

definition codeable :: "fec_block \<Rightarrow> bool" where
  \<comment> \<open>there are packets to generate and enough parities for them\<close>
  "codeable b \<longleftrightarrow> 1 \<le> length (known_of b) \<and> 1 \<le> length (wanted_of b) \<and>
     length (wanted_of b) \<le> length (parity_of b) \<and> length (parity_of b) \<le> FEC_MAX_H"

lemma block_ready_want_ok:
  assumes "block_ready c b"
  shows "want_ok b (known_of b) (wanted_of b)"
proof -
  have "pstat b ! q \<noteq> FEC_FLAG_WANTED" if "is_known b q" for q using that by (auto simp: is_known_def)
  then show ?thesis
    using assms unfolding want_ok_def block_ready_def sized_def buffers_ok_def by (auto dest: spec)
qed

lemma rse_code_coded:
  assumes c: "coder_ready c lookup s" and fb: "fb < length (fbk g)" and m: "matrices_ok g"
    and b: "block_ready c (fbk g ! fb)" and k: "codeable (fbk g ! fb)"
    and sol: "\<And>col. col < block_C (fbk g ! fb) \<Longrightarrow> solves c s (fbk g ! fb) (memory g) mode
        (known_of (fbk g ! fb)) (wanted_of (fbk g ! fb)) (parity_of (fbk g ! fb)) col (\<lambda>j. x j col)"
  obtains g' e where "rse_code c lookup s fb mode g = Some (g', 0)" and "matrices_ok g'"
    and "coded c mode fb (wanted_of (fbk g ! fb)) x (g\<lparr>fcm_e := e\<rparr>) (block_C (fbk g ! fb)) g'"
proof -
  let ?b = "fbk g ! fb" and ?n = "length (wanted_of (fbk g ! fb))"
  have "?n \<le> FEC_MAX_H" using k by (auto simp: codeable_def)
  with m obtain e where gen: "code_equations_generate c s ?b (wanted_of ?b) ?n (parity_of ?b) g = g\<lparr>fcm_e := e\<rparr>"
    and me: "matrices_ok (g\<lparr>fcm_e := e\<rparr>)"
    and e: "\<And>i j. i < ?n \<Longrightarrow> j < ?n \<Longrightarrow> e ! cell i (?n - j) =
      weight c s (parity_row c ?b (parity_of ?b ! i)) (unat (cbi ?b ! (wanted_of ?b ! j)))"
    using generate_cells [OF m, of ?n "wanted_of ?b" c s ?b "parity_of ?b"] by blast
  let ?g = "g\<lparr>fcm_e := e\<rparr>"
  have eqs: "equations_ok c s (fbk ?g ! fb) (wanted_of ?b) (parity_of ?b) ?g"
    using me e \<open>?n \<le> FEC_MAX_H\<close> by (simp add: equations_ok_def)
  have w: "want_ok (fbk ?g ! fb) (known_of ?b) (wanted_of ?b)" using block_ready_want_ok [OF b] by simp
  have pos: "0 < block_C (fbk ?g ! fb)" and ne: "0 < ?n" and fb': "fb < length (fbk ?g)"
    using b k fb by (auto simp: block_ready_def codeable_def)
  obtain g' where loop: "for_loop 0 (block_C ?b) (\<lambda>col (g, rc). if rc \<noteq> 0 then (g, rc) else
      code_column c lookup s fb mode (known_of ?b) (wanted_of ?b) ?n (parity_of ?b) col g) (?g, 0) = (g', 0)"
    and cod: "coded c mode fb (wanted_of ?b) x ?g (block_C ?b) g'"
    using code_loop [OF c w fb' eqs ne _ pos, of mode x] sol by auto
  have N: "FEC_N c = 256" "FEC_MAX_N c \<le> 255" using c by (auto simp: coder_ready_def byte_symbols_def group_fits_def)
  have chk: "fec_block_check c ?b = 0" using b N by (auto simp: fec_block_check_def block_ready_def)
  have types: "fec_block_types_check c (length (known_of ?b)) ?n (length (parity_of ?b)) = 0"
    using k by (auto simp: fec_block_types_check_def codeable_def)
  have use: "(if ?n < length (parity_of ?b) then ?n else length (parity_of ?b)) = ?n"
    using k by (auto simp: codeable_def)
  have over: "\<not> FEC_MAX_N c < block_N ?b" using b by (simp add: block_ready_def)
  have "rse_code c lookup s fb mode g = Some (g', 0)"
    unfolding rse_code_def Let_def chk fec_block_types_find_filter prod.case types use gen using loop over by simp
  moreover have "matrices_ok g'" using cod me by (auto simp: matrices_ok_def coded_def Let_def)
  ultimately show thesis using that cod by blast
qed

end
