(* ===== verification/Rse_Roundtrip.thy ===== *)
theory Rse_Roundtrip
  imports Rse_Code
begin

text \<open>
  Correctness of the reference coder. Encoding writes the weighted sums of the data
  symbols. Because the weights form a systematic code, any wanted data packets and as many
  parities give a regular system, so decoding recovers every symbol of the codeword that
  the known packets belong to, and the lengths of the lost packets with them. The last
  lemma puts the two together.
\<close>

section \<open>The equations of a block\<close>

lemma parity_row_eq:
  assumes "FEC_MAX_N c \<le> 255" and "unat (cbi b ! q) < FEC_MAX_N c"
  shows "parity_row c b q = FEC_MAX_N c - 1 - unat (cbi b ! q)"
proof -
  have "of_nat (FEC_MAX_N c) - cbi b ! q - 1 = (of_nat (FEC_MAX_N c - 1 - unat (cbi b ! q)) :: u8)"
    using assms(2) by (simp add: of_nat_diff algebra_simps)
  moreover have "FEC_MAX_N c - 1 - unat (cbi b ! q) < 256" using assms(1) by linarith
  ultimately show ?thesis unfolding parity_row_def by (simp only: unat_of_nat_u8)
qed

lemma weight_mat:
  assumes "col < FEC_MAX_N c"
  shows "gf (weight c s row col) = mat_of (FEC_MAX_N c) (FEC_MAX_N c) (fec_weights s) row (FEC_MAX_N c - 1 - col)"
  using assms by (simp add: weight_def mat_of_def)

lemma weight_identity:
  assumes "coder_ready c lookup s" and "row < FEC_MAX_H" and "row' < FEC_MAX_H"
  shows "gf (weight c s row (FEC_MAX_N c - 1 - row')) = (if row = row' then 1 else 0)"
proof -
  have N: "FEC_MAX_H \<le> FEC_MAX_N c"
    and sys: "systematic FEC_MAX_H (FEC_MAX_N c) (rs_point c) (mat_of (FEC_MAX_N c) (FEC_MAX_N c) (fec_weights s))"
    using assms(1) by (auto simp: coder_ready_def code_ok_def group_fits_def)
  have "FEC_MAX_N c - 1 - row' < FEC_MAX_N c" and "FEC_MAX_N c - 1 - (FEC_MAX_N c - 1 - row') = row'"
    using assms(3) N by auto
  with sys assms(2,3) show ?thesis by (simp add: weight_mat systematic_def del: One_nat_def)
qed

definition data_index :: "fec_block \<Rightarrow> nat \<Rightarrow> bool" where
  "data_index b q \<longleftrightarrow> unat (cbi b ! q) < FEC_MAX_K"

lemma indices_okD:
  assumes "indices_ok c b" and "group_fits c" and "q < block_N b" and "length (cbi b) = FEC_MAX_N c" and "block_N b \<le> FEC_MAX_N c"
  shows "unat (cbi b ! q) < FEC_MAX_N c"
    and "data_index b q \<Longrightarrow> FEC_MAX_H \<le> FEC_MAX_N c - 1 - unat (cbi b ! q)"
    and "\<not> data_index b q \<Longrightarrow> parity_row c b q < FEC_MAX_H"
    and "\<not> data_index b q \<Longrightarrow> unat (cbi b ! q) = FEC_MAX_N c - 1 - parity_row c b q"
    and "q' < block_N b \<Longrightarrow> cbi b ! q' = cbi b ! q \<Longrightarrow> q' = q"
proof -
  show lt: "unat (cbi b ! q) < FEC_MAX_N c" using assms by (auto simp: indices_ok_def group_fits_def)
  show "data_index b q \<Longrightarrow> FEC_MAX_H \<le> FEC_MAX_N c - 1 - unat (cbi b ! q)"
    using assms(2) unfolding data_index_def group_fits_def by linarith
  have row: "parity_row c b q = FEC_MAX_N c - 1 - unat (cbi b ! q)"
    using lt assms(2) by (intro parity_row_eq) (auto simp: group_fits_def)
  show "\<not> data_index b q \<Longrightarrow> parity_row c b q < FEC_MAX_H"
    unfolding row using assms(1,3) lt by (auto simp: indices_ok_def data_index_def FEC_MAX_H_def)
  show "\<not> data_index b q \<Longrightarrow> unat (cbi b ! q) = FEC_MAX_N c - 1 - parity_row c b q"
    unfolding row using lt by simp
  assume "q' < block_N b" and eq: "cbi b ! q' = cbi b ! q"
  moreover have "distinct (take (block_N b) (cbi b))" using assms(1) by (simp add: indices_ok_def)
  ultimately show "q' = q"
    using assms(3-5) nth_eq_iff_index_eq [of "take (block_N b) (cbi b)" q' q] by simp
qed

text \<open>For any parity rows and as many data columns the weights form a regular matrix.\<close>

lemma weights_regular:
  assumes c: "coder_ready c lookup s" and rows: "distinct rows" "set rows \<subseteq> {..<FEC_MAX_H}"
    and cols: "distinct cols" "set cols \<subseteq> {..<FEC_MAX_K}" and len: "length rows = length cols"
    and z: "\<And>j. j < length cols \<Longrightarrow> (\<Sum>i<length rows. l i * gf (weight c s (rows ! i) (cols ! j))) = 0"
    and i: "i < length rows"
  shows "l i = 0"
proof -
  let ?N = "FEC_MAX_N c" and ?W = "mat_of (FEC_MAX_N c) (FEC_MAX_N c) (fec_weights s)"
  have N: "FEC_MAX_K + FEC_MAX_H \<le> ?N" "?N \<le> 255" and sys: "systematic FEC_MAX_H ?N (rs_point c) ?W"
    using c by (auto simp: coder_ready_def code_ok_def group_fits_def)
  define cs where "cs = map (\<lambda>q. ?N - 1 - q) cols"
  have lt: "q < ?N - FEC_MAX_H" if "q \<in> set cols" for q using that cols(2) N by fastforce
  show ?thesis
  proof (rule systematic_submatrix_regular [OF sys _ _ rows, where cs = cs])
    show "inj_on (rs_point c) {..<?N}" using N(2) by (rule rs_point_inj)
    have "inj_on (\<lambda>q. ?N - 1 - q) (set cols)"
    proof (rule inj_onI)
      fix q q' assume "q \<in> set cols" "q' \<in> set cols" and eq: "?N - 1 - q = ?N - 1 - q'"
      with lt have "q < ?N - FEC_MAX_H" "q' < ?N - FEC_MAX_H" by blast+
      with eq show "q = q'" by linarith
    qed
    with cols(1) show "distinct cs" by (simp add: cs_def distinct_map)
    show "set cs \<subseteq> {FEC_MAX_H..<?N}" using lt by (fastforce simp: cs_def)
    show "(\<Sum>i<length rows. l i * ?W (rows ! i) (cs ! j)) = 0" if "j < length cs" for j
    proof -
      have "j < length cols" using that by (simp add: cs_def)
      then have "cols ! j < ?N" using lt [of "cols ! j"] by simp
      with z [OF \<open>j < length cols\<close>] \<open>j < length cols\<close> show ?thesis by (simp add: cs_def weight_mat)
    qed
  qed (use N len i in \<open>simp_all add: cs_def\<close>)
qed

text \<open>So any wanted data packets and as many parities give a regular system.\<close>

lemma equations_regular:
  assumes c: "coder_ready c lookup s" and b: "block_ready c b"
    and want: "distinct want" "\<And>q. q \<in> set want \<Longrightarrow> q < block_N b \<and> data_index b q"
    and pari: "distinct pari" "\<And>q. q \<in> set pari \<Longrightarrow> q < block_N b \<and> \<not> data_index b q"
    and len: "length want \<le> length pari"
  shows "leading_regular (length want) (eq_weight c s b pari want)"
  unfolding leading_regular_def
proof (intro allI impI)
  fix k l
  assume k: "k < length want" and z: "\<forall>j\<le>k. (\<Sum>i\<le>k. l i * eq_weight c s b pari want i j) = 0"
  have gfit: "group_fits c" using c by (simp add: coder_ready_def)
  have ix: "indices_ok c b" "length (cbi b) = FEC_MAX_N c" "block_N b \<le> FEC_MAX_N c"
    using b by (auto simp: block_ready_def sized_def)
  note iD = indices_okD [OF ix(1) gfit _ ix(2,3)]
  define rs where "rs = map (parity_row c b) (take (Suc k) pari)"
  define cs where "cs = map (\<lambda>q. unat (cbi b ! q)) (take (Suc k) want)"
  have lens: "length rs = Suc k" "length cs = Suc k" using k len by (simp_all add: rs_def cs_def)
  have nths: "rs ! i = parity_row c b (pari ! i)" "cs ! i = unat (cbi b ! (want ! i))" if "i \<le> k" for i
    using that k len by (simp_all add: rs_def cs_def)
  show "l k = 0"
  proof (rule weights_regular [OF c, where rows = rs and cols = cs])
    have "inj_on (parity_row c b) (set pari)"
      using iD(4,5) pari(2) by (intro inj_onI) (metis unat_inj)
    then show "distinct rs" using pari(1) by (auto simp: rs_def distinct_map intro: inj_on_subset dest: in_set_takeD)
    show "set rs \<subseteq> {..<FEC_MAX_H}" using iD(3) pari(2) by (auto simp: rs_def dest: in_set_takeD)
    have "inj_on (\<lambda>q. unat (cbi b ! q)) (set want)" using want(2) iD(5) by (intro inj_onI) simp
    then show "distinct cs" using want(1) by (auto simp: cs_def distinct_map intro: inj_on_subset dest: in_set_takeD)
    show "set cs \<subseteq> {..<FEC_MAX_K}" using want(2) by (auto simp: cs_def data_index_def dest: in_set_takeD)
    show "(\<Sum>i<length rs. l i * gf (weight c s (rs ! i) (cs ! j))) = 0" if "j < length cs" for j
    proof -
      have "j \<le> k" using that lens by simp
      then have "(\<Sum>i\<le>k. l i * gf (weight c s (rs ! i) (cs ! j))) = (\<Sum>i\<le>k. l i * eq_weight c s b pari want i j)"
        by (intro sum.cong) (simp_all add: nths)
      with z \<open>j \<le> k\<close> show ?thesis by (simp add: lens lessThan_Suc_atMost)
    qed
  qed (simp_all add: lens)
qed

text \<open>
  A column of a codeword, as far as a block sees it: \<open>v\<close> gives the symbol of each codeword index, absent
  data packets count as zero, and each parity symbol is the weighted sum of the data symbols.
\<close>

definition codeword :: "rse_h \<Rightarrow> rse_state \<Rightarrow> fec_block \<Rightarrow> (nat \<Rightarrow> gf256) \<Rightarrow> bool" where
  "codeword c s b v \<longleftrightarrow>
     (\<forall>d<FEC_MAX_K. (\<forall>q<block_N b. unat (cbi b ! q) \<noteq> d) \<longrightarrow> v d = 0) \<and>
     (\<forall>q\<in>set (parity_of b). v (unat (cbi b ! q)) =
        (\<Sum>d<FEC_MAX_K. gf (weight c s (parity_row c b q) d) * v d))"

definition agrees :: "rse_h \<Rightarrow> fec_block \<Rightarrow> mem \<Rightarrow> nat \<Rightarrow> (nat \<Rightarrow> gf256) \<Rightarrow> bool" where
  \<comment> \<open>the known packets carry the symbols of \<open>v\<close>\<close>
  "agrees c b m col v \<longleftrightarrow>
     (\<forall>q\<in>set (known_of b). gf (known_symbol c b m q col) = v (unat (cbi b ! q)))"

definition decoding_block :: "fec_block \<Rightarrow> bool" where
  \<comment> \<open>data packets are known or wanted, the parities in use are known\<close>
  "decoding_block b \<longleftrightarrow>
     (\<forall>q<block_N b. data_index b q \<longrightarrow> is_known b q \<or> pstat b ! q = FEC_FLAG_WANTED) \<and>
     (\<forall>q<block_N b. pstat b ! q = FEC_FLAG_WANTED \<longrightarrow> data_index b q) \<and>
     (\<forall>q\<in>set (parity_of b). is_known b q)"

lemma data_sum:
  assumes c: "coder_ready c lookup s" and b: "block_ready c b"
    and v: "\<And>d. d < FEC_MAX_K \<Longrightarrow> (\<forall>q<block_N b. unat (cbi b ! q) \<noteq> d) \<Longrightarrow> v d = 0"
  shows "(\<Sum>q | q < block_N b \<and> data_index b q. gf (weight c s row (unat (cbi b ! q))) * v (unat (cbi b ! q))) =
    (\<Sum>d<FEC_MAX_K. gf (weight c s row d) * v d)" (is "sum ?f ?D = _")
proof -
  have gfit: "group_fits c" using c by (simp add: coder_ready_def)
  have ix: "indices_ok c b" "length (cbi b) = FEC_MAX_N c" "block_N b \<le> FEC_MAX_N c"
    using b by (auto simp: block_ready_def sized_def)
  note iD = indices_okD [OF ix(1) gfit _ ix(2,3)]
  let ?c = "\<lambda>q. unat (cbi b ! q)" and ?g = "\<lambda>d. gf (weight c s row d) * v d"
  have "inj_on ?c ?D" using iD(5) by (auto intro!: inj_onI)
  then have "sum ?f ?D = sum ?g (?c ` ?D)" by (simp add: sum.reindex)
  also have "\<dots> = sum ?g {..<FEC_MAX_K}"
  proof (rule sum.mono_neutral_left)
    show "\<forall>d\<in>{..<FEC_MAX_K} - ?c ` ?D. ?g d = 0"
      using v by (fastforce simp: data_index_def image_iff)
  qed (auto simp: data_index_def)
  finally show ?thesis .
qed

lemma decode_solves:
  assumes c: "coder_ready c lookup s" and b: "block_ready c b" and k: "codeable b" and d: "decoding_block b"
    and v: "codeword c s b v" and a: "agrees c b m col v"
  shows "solves c s b m CHR ''d'' (known_of b) (wanted_of b) (parity_of b) col
    (\<lambda>j. v (unat (cbi b ! (wanted_of b ! j))))"
proof -
  have gfit: "group_fits c" using c by (simp add: coder_ready_def)
  have ix: "indices_ok c b" "length (cbi b) = FEC_MAX_N c" "block_N b \<le> FEC_MAX_N c"
    using b by (auto simp: block_ready_def sized_def)
  note iD = indices_okD [OF ix(1) gfit _ ix(2,3)]
  have par: "q < block_N b \<and> \<not> data_index b q \<and> is_known b q" if "q \<in> set (parity_of b)" for q
    using that d by (auto simp: decoding_block_def is_parity_def data_index_def)
  have reg: "leading_regular (length (wanted_of b)) (eq_weight c s b (parity_of b) (wanted_of b))"
  proof (rule equations_regular [OF c b])
    show "q < block_N b \<and> data_index b q" if "q \<in> set (wanted_of b)" for q
      using that d by (simp add: decoding_block_def)
    show "q < block_N b \<and> \<not> data_index b q" if "q \<in> set (parity_of b)" for q using par [OF that] by simp
    show "length (wanted_of b) \<le> length (parity_of b)" using k by (simp add: codeable_def)
  qed simp_all
  have eq: "(\<Sum>j<length (wanted_of b). eq_weight c s b (parity_of b) (wanted_of b) i j * v (unat (cbi b ! (wanted_of b ! j)))) +
      accumulated c s b m (known_of b) (parity_row c b (parity_of b ! i)) col = 0"
    if i: "i < length (wanted_of b)" for i
  proof -
    define p where "p = parity_of b ! i"
    define row where "row = parity_row c b p"
    let ?f = "\<lambda>q. gf (weight c s row (unat (cbi b ! q))) * v (unat (cbi b ! q))"
    have "p \<in> set (parity_of b)" unfolding p_def using i k by (intro nth_mem) (auto simp: codeable_def)
    note p = this par [OF this]
    have row: "row < FEC_MAX_H" unfolding row_def using iD(3) p by blast
    let ?K = "{q. q < block_N b \<and> is_known b q}" and ?Wt = "{q. q < block_N b \<and> pstat b ! q = FEC_FLAG_WANTED}"
    let ?D = "{q. q < block_N b \<and> data_index b q}" and ?P = "{q. q < block_N b \<and> is_known b q \<and> \<not> data_index b q}"
    have "(\<Sum>j<length (wanted_of b). ?f (wanted_of b ! j)) = (\<Sum>q\<leftarrow>wanted_of b. ?f q)"
      by (simp add: sum_list_sum_nth atLeast0LessThan)
    also have "\<dots> = sum ?f ?Wt" by (subst sum_list_distinct_conv_sum_set) (auto intro: sum.cong)
    finally have wsum: "(\<Sum>j<length (wanted_of b). ?f (wanted_of b ! j)) = sum ?f ?Wt" .
    have "accumulated c s b m (known_of b) row col = (\<Sum>q\<leftarrow>known_of b. ?f q)"
      unfolding accumulated_def using a by (intro arg_cong [of _ _ sum_list] map_cong) (auto simp: agrees_def)
    also have "\<dots> = sum ?f ?K" by (subst sum_list_distinct_conv_sum_set) (auto intro: sum.cong)
    finally have ksum: "accumulated c s b m (known_of b) row col = sum ?f ?K" .
    have "?Wt \<inter> ?K = {}" "?Wt \<union> ?K = ?D \<union> ?P" "?D \<inter> ?P = {}"
      using d by (auto simp: decoding_block_def is_known_def)
    note disj = this
    have "sum ?f ?Wt + sum ?f ?K = sum ?f (?Wt \<union> ?K)" using disj(1) by (intro sum.union_disjoint [symmetric]) auto
    also have "\<dots> = sum ?f ?D + sum ?f ?P" unfolding disj(2) using disj(3) by (intro sum.union_disjoint) auto
    also have "sum ?f ?D = v (unat (cbi b ! p))"
      using data_sum [OF c b, of v] v p(1) by (simp add: codeword_def row_def)
    also have "sum ?f ?P = (\<Sum>q\<in>?P. if q = p then v (unat (cbi b ! p)) else 0)"
    proof (rule sum.cong)
      fix q assume q: "q \<in> ?P"
      then have "gf (weight c s row (unat (cbi b ! q))) = (if row = parity_row c b q then 1 else 0)"
        using weight_identity [OF c row, of "parity_row c b q"] iD(3,4) by simp
      moreover have "q = p" if "row = parity_row c b q"
      proof -
        have "unat (cbi b ! q) = unat (cbi b ! p)"
          using iD(4) [of q] iD(4) [of p] that q p(2) unfolding row_def by simp
        then show ?thesis using iD(5) [of p q] q p(2) by simp
      qed
      ultimately show "?f q = (if q = p then v (unat (cbi b ! p)) else 0)" by (auto simp: row_def)
    qed simp
    also have "\<dots> = v (unat (cbi b ! p))" using p by simp
    finally show ?thesis unfolding p_def [symmetric] row_def [symmetric] using wsum ksum by simp
  qed
  show ?thesis unfolding solves_def using reg eq by simp
qed

section \<open>Packet lengths\<close>

lemma digits_sum: "(\<Sum>i<n. 256 ^ i * (l div 256 ^ i mod 256)) = l mod 256 ^ n" for l :: nat
proof (induction n)
  case (Suc n)
  then have "(\<Sum>i<Suc n. 256 ^ i * (l div 256 ^ i mod 256)) = 256 ^ n * (l div 256 ^ n mod 256) + l mod 256 ^ n"
    by simp
  also have "\<dots> = l mod 256 ^ Suc n" by (simp only: power_Suc2 mod_mult2_eq)
  finally show ?case .
qed simp

lemma length_sum_recovers:
  assumes E: "FEC_EXTRA_COLS c \<le> block_C b" and L: "len < 256 ^ FEC_EXTRA_COLS c"
    and x: "\<And>col. block_C b - FEC_EXTRA_COLS c \<le> col \<Longrightarrow> col < block_C b \<Longrightarrow>
      x col = gf (of_nat (drop_bit (8 * (block_C b - col - 1)) len))"
  shows "length_sum c b (block_C b) x = len"
proof -
  let ?C = "block_C b" and ?E = "FEC_EXTRA_COLS c"
  have pow: "(2 :: nat) ^ (8 * i) = 256 ^ i" for i by (simp add: power_mult)
  have "length_sum c b ?C x = (\<Sum>col = ?C - ?E..<?C. 256 ^ (?C - 1 - col) * (len div 256 ^ (?C - 1 - col) mod 256))"
    unfolding length_sum_def using x
    by (intro sum.cong) (simp_all add: push_bit_eq_mult drop_bit_eq_div unat_of_nat pow)
  also have "\<dots> = (\<Sum>i<?E. 256 ^ i * (len div 256 ^ i mod 256))"
    using E by (intro sum.reindex_bij_witness [of _ "\<lambda>i. ?C - 1 - i" "\<lambda>col. ?C - 1 - col"]) auto
  also have "\<dots> = len" using L by (simp add: digits_sum)
  finally show ?thesis .
qed

section \<open>Encoding and decoding\<close>

definition encoding_block :: "fec_block \<Rightarrow> bool" where
  \<comment> \<open>all data packets are known, all parities are to be generated\<close>
  "encoding_block b \<longleftrightarrow> (\<forall>q<block_N b. if data_index b q then is_known b q else pstat b ! q = FEC_FLAG_WANTED)"

lemma encoding_block_lists:
  assumes "encoding_block b"
  shows "parity_of b = wanted_of b" and "q \<in> set (wanted_of b) \<longleftrightarrow> q < block_N b \<and> \<not> data_index b q"
    and "q \<in> set (known_of b) \<longleftrightarrow> q < block_N b \<and> data_index b q"
proof -
  have b: "is_known b q \<longleftrightarrow> data_index b q" "pstat b ! q = FEC_FLAG_WANTED \<longleftrightarrow> \<not> data_index b q"
    if "q < block_N b" for q
    using assms that by (auto simp: encoding_block_def is_known_def split: if_splits)
  then show "q \<in> set (wanted_of b) \<longleftrightarrow> q < block_N b \<and> \<not> data_index b q"
    "q \<in> set (known_of b) \<longleftrightarrow> q < block_N b \<and> data_index b q" by auto
  show "parity_of b = wanted_of b"
  proof (intro filter_cong refl)
    fix q assume "q \<in> set [0..<block_N b]"
    then show "is_parity b q = (pstat b ! q = FEC_FLAG_WANTED)"
      using b(2) [of q] by (cases "pstat b ! q") (auto simp: is_parity_def data_index_def)
  qed
qed

lemma encode_solves:
  assumes "encoding_block b"
  shows "solves c s b m CHR ''e'' (known_of b) (wanted_of b) (parity_of b) col
    (\<lambda>j. accumulated c s b m (known_of b) (parity_row c b (wanted_of b ! j)) col)"
  using encoding_block_lists(1) [OF assms] by (simp add: solves_def)

lemma rse_encode:
  assumes c: "coder_ready c lookup s" and fb: "fb < length (fbk g)" and m: "matrices_ok g"
    and b: "block_ready c (fbk g ! fb)" and k: "codeable (fbk g ! fb)" and e: "encoding_block (fbk g ! fb)"
    and "q < block_N (fbk g ! fb)" and "\<not> data_index (fbk g ! fb) q" and "col < block_C (fbk g ! fb)"
  shows "rse_code c lookup s fb CHR ''e'' g = Some (fst (the (rse_code c lookup s fb CHR ''e'' g)), 0)"
    and "gf (memory (fst (the (rse_code c lookup s fb CHR ''e'' g))) (pdata (fbk g ! fb) ! q) col) =
      accumulated c s (fbk g ! fb) (memory g) (known_of (fbk g ! fb)) (parity_row c (fbk g ! fb) q) col"
proof -
  let ?b = "fbk g ! fb"
  obtain g' e' where run: "rse_code c lookup s fb CHR ''e'' g = Some (g', 0)" and
    cod: "coded c CHR ''e'' fb (wanted_of ?b)
      (\<lambda>j col. accumulated c s ?b (memory g) (known_of ?b) (parity_row c ?b (wanted_of ?b ! j)) col)
      (g\<lparr>fcm_e := e'\<rparr>) (block_C ?b) g'"
    using rse_code_coded [OF c fb m b k, of "CHR ''e''"] encode_solves [OF e] by metis
  have "q \<in> set (wanted_of ?b)" using encoding_block_lists(2) [OF e, of q] assms(7,8) by blast
  then obtain j where "j < length (wanted_of ?b)" "q = wanted_of ?b ! j" by (metis in_set_conv_nth)
  then show "gf (memory (fst (the (rse_code c lookup s fb CHR ''e'' g))) (pdata ?b ! q) col) =
      accumulated c s ?b (memory g) (known_of ?b) (parity_row c ?b q) col"
    using cod assms(9) unfolding run coded_def Let_def by auto
  show "rse_code c lookup s fb CHR ''e'' g = Some (fst (the (rse_code c lookup s fb CHR ''e'' g)), 0)" by (simp add: run)
qed

lemma rse_decode:
  assumes c: "coder_ready c lookup s" and fb: "fb < length (fbk g)" and m: "matrices_ok g"
    and b: "block_ready c (fbk g ! fb)" and k: "codeable (fbk g ! fb)" and d: "decoding_block (fbk g ! fb)"
    and v: "\<And>col. col < block_C (fbk g ! fb) \<Longrightarrow> codeword c s (fbk g ! fb) (v col)"
    and a: "\<And>col. col < block_C (fbk g ! fb) \<Longrightarrow> agrees c (fbk g ! fb) (memory g) col (v col)"
    and q: "q < block_N (fbk g ! fb)" "pstat (fbk g ! fb) ! q = FEC_FLAG_WANTED"
    and r: "Some (g', rc) = rse_code c lookup s fb CHR ''d'' g"
  shows "rc = 0"
    and "\<And>col. col < block_C (fbk g ! fb) \<Longrightarrow>
      gf (memory g' (pdata (fbk g ! fb) ! q) col) = v col (unat (cbi (fbk g ! fb) ! q))"
    and "pstat (fbk g' ! fb) ! q = FEC_FLAG_GENNED"
    and "0 < FEC_EXTRA_COLS c \<Longrightarrow> plen (fbk g' ! fb) ! q =
      length_sum c (fbk g ! fb) (block_C (fbk g ! fb)) (\<lambda>col. v col (unat (cbi (fbk g ! fb) ! q)))"
proof -
  let ?b = "fbk g ! fb"
  have rc: "rse_code c lookup s fb CHR ''d'' g = Some (g', rc)" by (rule r [symmetric])
  obtain e where run: "rse_code c lookup s fb CHR ''d'' g = Some (g', 0)" and
    cod: "coded c CHR ''d'' fb (wanted_of ?b) (\<lambda>j col. v col (unat (cbi ?b ! (wanted_of ?b ! j))))
      (g\<lparr>fcm_e := e\<rparr>) (block_C ?b) g'"
  proof (rule rse_code_coded [OF c fb m b k, of "CHR ''d''" "\<lambda>j col. v col (unat (cbi ?b ! (wanted_of ?b ! j)))"])
    show "solves c s ?b (memory g) CHR ''d'' (known_of ?b) (wanted_of ?b) (parity_of ?b) col
        (\<lambda>j. v col (unat (cbi ?b ! (wanted_of ?b ! j))))" if "col < block_C ?b" for col
      using c b k d v [OF that] a [OF that] by (rule decode_solves)
    fix g'' e
    assume "rse_code c lookup s fb CHR ''d'' g = Some (g'', 0)"
      and "coded c CHR ''d'' fb (wanted_of ?b) (\<lambda>j col. v col (unat (cbi ?b ! (wanted_of ?b ! j)))) (g\<lparr>fcm_e := e\<rparr>) (block_C ?b) g''"
    then show thesis using that [of e] unfolding rc by simp
  qed
  show "rc = 0" using r run by simp
  have "q \<in> set (wanted_of ?b)" using q by simp
  then obtain j where j: "j < length (wanted_of ?b)" "q = wanted_of ?b ! j" by (metis in_set_conv_nth)
  have fbs: "fbk (g\<lparr>fcm_e := e\<rparr>) ! fb = ?b" by simp
  note cod' = cod [unfolded coded_def Let_def fbs]
  show "gf (memory g' (pdata ?b ! q) col) = v col (unat (cbi ?b ! q))" if "col < block_C ?b" for col
    using cod' that j by auto
  show "pstat (fbk g' ! fb) ! q = FEC_FLAG_GENNED" using cod' j by auto
  have "\<not> FEC_MAX_K \<le> unat (cbi ?b ! q)" and "block_C ?b \<noteq> 0"
    using d q b by (auto simp: decoding_block_def data_index_def block_ready_def)
  then show "plen (fbk g' ! fb) ! q = length_sum c ?b (block_C ?b) (\<lambda>col. v col (unat (cbi ?b ! q)))"
    if "0 < FEC_EXTRA_COLS c" using cod' that j by auto
qed

section \<open>Round trip\<close>

text \<open>
  A receiver's block holds the same group as the sender's: the data packets it knows are
  copies of the sender's, the parity packets it knows are copies of what the sender generated.
\<close>

definition received :: "rse_h \<Rightarrow> fec_block \<Rightarrow> mem \<Rightarrow> mem \<Rightarrow> fec_block \<Rightarrow> mem \<Rightarrow> bool" where
  "received c bs ms ms' br mr \<longleftrightarrow>
     block_N br = block_N bs \<and> block_C br = block_C bs \<and> cbi br = cbi bs \<and>
     (\<forall>q<block_N bs. is_known br q \<longrightarrow>
        (if data_index bs q
         then plen br ! q = plen bs ! q \<and> (\<forall>col<plen bs ! q. mr (pdata br ! q) col = ms (pdata bs ! q) col)
         else block_C bs \<le> plen br ! q \<and> (\<forall>col<block_C bs. mr (pdata br ! q) col = ms' (pdata bs ! q) col)))"

definition lengths_fit :: "rse_h \<Rightarrow> fec_block \<Rightarrow> bool" where
  \<comment> \<open>every data packet leaves room for its length in the last columns\<close>
  "lengths_fit c b \<longleftrightarrow> (\<forall>q<block_N b. data_index b q \<longrightarrow>
     plen b ! q + FEC_EXTRA_COLS c \<le> block_C b \<and> plen b ! q < 256 ^ FEC_EXTRA_COLS c)"

definition group_symbol :: "rse_h \<Rightarrow> fec_block \<Rightarrow> mem \<Rightarrow> mem \<Rightarrow> nat \<Rightarrow> nat \<Rightarrow> gf256" where
  \<comment> \<open>the symbol of the sender's packet with codeword index \<open>i\<close>\<close>
  "group_symbol c b m m' col i =
     (case find (\<lambda>q. unat (cbi b ! q) = i) [0..<block_N b] of
        None \<Rightarrow> 0
      | Some q \<Rightarrow> if data_index b q then gf (known_symbol c b m q col) else gf (m' (pdata b ! q) col))"

lemma group_symbol_at:
  assumes "block_ready c b" and "group_fits c" and "q < block_N b"
  shows "group_symbol c b m m' col (unat (cbi b ! q)) =
    (if data_index b q then gf (known_symbol c b m q col) else gf (m' (pdata b ! q) col))"
proof -
  have ix: "indices_ok c b" "length (cbi b) = FEC_MAX_N c" "block_N b \<le> FEC_MAX_N c"
    using assms(1) by (auto simp: block_ready_def sized_def)
  obtain q' where q': "find (\<lambda>q'. unat (cbi b ! q') = unat (cbi b ! q)) [0..<block_N b] = Some q'"
    using assms(3) by (cases "find (\<lambda>q'. unat (cbi b ! q') = unat (cbi b ! q)) [0..<block_N b]") (auto simp: find_None_iff)
  then have "q' < block_N b" "cbi b ! q' = cbi b ! q" by (auto simp: find_Some_iff)
  then have "q' = q" using indices_okD(5) [OF ix(1) assms(2,3) ix(2,3)] by blast
  with q' show ?thesis by (simp add: group_symbol_def)
qed

lemma group_symbol_absent:
  "(\<forall>q<block_N b. unat (cbi b ! q) \<noteq> i) \<Longrightarrow> group_symbol c b m m' col i = 0"
  by (auto simp: group_symbol_def find_Some_iff split: option.split)

lemma encoded_codeword:
  assumes c: "coder_ready c lookup s" and fb: "fb < length (fbk g)" and m: "matrices_ok g"
    and b: "block_ready c (fbk g ! fb)" and k: "codeable (fbk g ! fb)" and e: "encoding_block (fbk g ! fb)"
    and r: "Some (g', rc) = rse_code c lookup s fb CHR ''e'' g" and col: "col < block_C (fbk g ! fb)"
    and q: "q < block_N (fbk g ! fb)" "\<not> data_index (fbk g ! fb) q"
  shows "group_symbol c (fbk g ! fb) (memory g) (memory g') col (unat (cbi (fbk g ! fb) ! q)) =
    (\<Sum>d<FEC_MAX_K. gf (weight c s (parity_row c (fbk g ! fb) q) d) *
       group_symbol c (fbk g ! fb) (memory g) (memory g') col d)"
proof -
  let ?b = "fbk g ! fb"
  define v where "v = group_symbol c ?b (memory g) (memory g') col"
  have gfit: "group_fits c" using c by (simp add: coder_ready_def)
  note at = group_symbol_at [OF b gfit, of _ "memory g" "memory g'" col, folded v_def]
  let ?f = "\<lambda>q'. gf (weight c s (parity_row c ?b q) (unat (cbi ?b ! q'))) * v (unat (cbi ?b ! q'))"
  have "memory g' = memory (fst (the (rse_code c lookup s fb CHR ''e'' g)))" using r by (metis fst_conv option.sel)
  then have "v (unat (cbi ?b ! q)) = accumulated c s ?b (memory g) (known_of ?b) (parity_row c ?b q) col"
    using at [OF q(1)] q(2) rse_encode(2) [OF c fb m b k e q col] by simp
  also have "\<dots> = (\<Sum>q'\<leftarrow>known_of ?b. ?f q')"
    unfolding accumulated_def
  proof (intro arg_cong [of _ _ sum_list] map_cong refl)
    fix q' assume "q' \<in> set (known_of ?b)"
    then show "gf (weight c s (parity_row c ?b q) (unat (cbi ?b ! q'))) * gf (known_symbol c ?b (memory g) q' col) = ?f q'"
      using encoding_block_lists(3) [OF e, of q'] at [of q'] by simp
  qed
  also have "\<dots> = sum ?f {q'. q' < block_N ?b \<and> data_index ?b q'}"
    using encoding_block_lists(3) [OF e] by (subst sum_list_distinct_conv_sum_set) (auto intro!: sum.cong)
  also have "\<dots> = (\<Sum>d<FEC_MAX_K. gf (weight c s (parity_row c ?b q) d) * v d)"
    using group_symbol_absent unfolding v_def by (intro data_sum [OF c b]) blast
  finally show ?thesis by (simp add: v_def)
qed

lemma received_agrees:
  assumes bs: "block_ready c bs" and br: "block_ready c br" and gfit: "group_fits c"
    and r: "received c bs ms ms' br mr" and fit: "lengths_fit c bs" and d: "decoding_block br" and col: "col < block_C bs"
  shows "agrees c br mr col (group_symbol c bs ms ms' col)"
  unfolding agrees_def
proof
  fix q assume "q \<in> set (known_of br)"
  then have q: "q < block_N bs" "is_known br q" using r by (auto simp: received_def)
  have same: "block_C br = block_C bs" "cbi br = cbi bs" using r by (auto simp: received_def)
  note at = group_symbol_at [OF bs gfit q(1), of ms ms' col]
  show "gf (known_symbol c br mr q col) = group_symbol c bs ms ms' col (unat (cbi br ! q))"
  proof (cases "data_index bs q")
    case True
    then have "plen br ! q = plen bs ! q" "\<forall>col<plen bs ! q. mr (pdata br ! q) col = ms (pdata bs ! q) col"
      using r q by (auto simp: received_def)
    then have "known_symbol c br mr q col = known_symbol c bs ms q col" by (simp add: known_symbol_def same)
    then show ?thesis using at True by (simp add: same)
  next
    case False
    then have "block_C bs \<le> plen br ! q" "mr (pdata br ! q) col = ms' (pdata bs ! q) col"
      using r q col by (auto simp: received_def)
    then have "known_symbol c br mr q col = ms' (pdata bs ! q) col"
      using False col by (simp add: known_symbol_def same data_index_def)
    then show ?thesis using at False by (simp add: same)
  qed
qed

lemma known_symbol_length:
  assumes "lengths_fit c b" and "q < block_N b" and "data_index b q" and "0 < FEC_EXTRA_COLS c"
  shows "block_C b - FEC_EXTRA_COLS c \<le> col \<Longrightarrow>
      known_symbol c b m q col = of_nat (drop_bit (8 * (block_C b - col - 1)) (plen b ! q))"
    and "col < plen b ! q \<Longrightarrow> known_symbol c b m q col = m (pdata b ! q) col"
  using assms by (auto simp: known_symbol_def data_index_def lengths_fit_def)

lemma rse_roundtrip:
  assumes c: "coder_ready c lookup s" and E: "0 < FEC_EXTRA_COLS c"
    \<comment> \<open>the sender generates the parities\<close>
    and gs: "fs < length (fbk gs)" "matrices_ok gs" "block_ready c (fbk gs ! fs)" "codeable (fbk gs ! fs)"
      "encoding_block (fbk gs ! fs)" "lengths_fit c (fbk gs ! fs)"
    and enc: "Some (gs', rcs) = rse_code c lookup s fs CHR ''e'' gs"
    \<comment> \<open>the receiver has lost some data packets\<close>
    and gr: "fr < length (fbk gr)" "matrices_ok gr" "block_ready c (fbk gr ! fr)" "codeable (fbk gr ! fr)"
      "decoding_block (fbk gr ! fr)"
    and rcv: "received c (fbk gs ! fs) (memory gs) (memory gs') (fbk gr ! fr) (memory gr)"
    and dec: "Some (gr', rcr) = rse_code c lookup s fr CHR ''d'' gr"
    and q: "q < block_N (fbk gr ! fr)" "pstat (fbk gr ! fr) ! q = FEC_FLAG_WANTED"
  shows "rcr = 0" and "pstat (fbk gr' ! fr) ! q = FEC_FLAG_GENNED"
    and "plen (fbk gr' ! fr) ! q = plen (fbk gs ! fs) ! q"
    and "\<And>col. col < plen (fbk gs ! fs) ! q \<Longrightarrow>
      memory gr' (pdata (fbk gr ! fr) ! q) col = memory gs (pdata (fbk gs ! fs) ! q) col"
proof -
  let ?bs = "fbk gs ! fs" and ?br = "fbk gr ! fr"
  let ?v = "group_symbol c ?bs (memory gs) (memory gs')"
  have gfit: "group_fits c" using c by (simp add: coder_ready_def)
  have same: "block_N ?br = block_N ?bs" "block_C ?br = block_C ?bs" "cbi ?br = cbi ?bs"
    using rcv by (auto simp: received_def)
  have di: "data_index ?br = data_index ?bs" "parity_row c ?br = parity_row c ?bs"
    by (simp_all add: data_index_def parity_row_def fun_eq_iff same)
  have v: "codeword c s ?br (?v col)" if "col < block_C ?br" for col
    using encoded_codeword [OF c gs(1-5) enc, of col] group_symbol_absent that gr(5)
    unfolding codeword_def same di by (auto simp: is_parity_def data_index_def same)
  have a: "agrees c ?br (memory gr) col (?v col)" if "col < block_C ?br" for col
    using received_agrees [OF gs(3) gr(3) gfit rcv gs(6) gr(5)] that same by simp
  note dec = rse_decode [OF c gr v a q dec]
  have qd: "q < block_N ?bs" "data_index ?bs q"
    using q gr(5) same di by (auto simp: decoding_block_def)
  have fit: "plen ?bs ! q + FEC_EXTRA_COLS c \<le> block_C ?bs" "plen ?bs ! q < 256 ^ FEC_EXTRA_COLS c"
    using gs(6) qd by (auto simp: lengths_fit_def)
  have sym: "?v col (unat (cbi ?bs ! q)) = gf (known_symbol c ?bs (memory gs) q col)" for col
    using group_symbol_at [OF gs(3) gfit qd(1)] qd(2) by simp
  show "rcr = 0" by (rule dec(1)) assumption+
  show "pstat (fbk gr' ! fr) ! q = FEC_FLAG_GENNED" by (rule dec(3)) assumption+
  have "length_sum c ?br (block_C ?br) (\<lambda>col. ?v col (unat (cbi ?br ! q))) = plen ?bs ! q"
    using fit known_symbol_length(1) [OF gs(6) qd E]
    by (intro length_sum_recovers) (simp_all add: sym same)
  then show "plen (fbk gr' ! fr) ! q = plen ?bs ! q" using dec(4) E by simp
  show "memory gr' (pdata ?br ! q) col = memory gs (pdata ?bs ! q) col" if "col < plen ?bs ! q" for col
    using dec(2) [of col] that fit known_symbol_length(2) [OF gs(6) qd E that] by (simp add: sym same)
qed

end
