(* ===== verification/Rse_Properties.thy ===== *)
theory Rse_Properties
  imports Rse_Roundtrip
begin

text \<open>
  The statements about the reference coder \<^verbatim>\<open>rse.bkp.c\<close> that the rest of the system relies
  on, each with an instance on a concrete configuration and, where a block is involved, a
  concrete group of two data packets and one parity packet.
\<close>

section \<open>A concrete configuration and group\<close>

definition demo_h :: rse_h where
  "demo_h = \<lparr>FEC_M = 8, FEC_N = 256, FEC_MAX_N = 55, FEC_MAX_COLS = 2000, FEC_EXTRA_COLS = 2,
     fec_errno = (\<lambda>e. case e of FEC_ERR_MOD_NOT_FOUND \<Rightarrow> -1 | FEC_ERR_INVALID_PARAMS \<Rightarrow> -2
       | FEC_ERR_ENC_MISSING_DATA \<Rightarrow> -3)\<rparr>"

lemma demo_h_ok: "byte_symbols demo_h" "group_fits demo_h" "0 < FEC_EXTRA_COLS demo_h"
  "FEC_EXTRA_COLS demo_h \<le> 7" "fec_errno demo_h FEC_ERR_INVALID_PARAMS \<noteq> 0"
  "fec_errno demo_h FEC_ERR_ENC_MISSING_DATA \<noteq> 0"
  by (simp_all add: demo_h_def byte_symbols_def group_fits_def FEC_MAX_K_def FEC_MAX_H_def)

lemma demo_h_check: "codewords_check_bounds demo_h = 0"
  using codewords_check_bounds_iff [of demo_h] demo_h_ok by (simp add: demo_h_def)

definition demo_coder :: rse_state where
  "demo_coder = fst (the (rse_init demo_h False (rse_zero demo_h)))"

lemma demo_coder_ready: "coder_ready demo_h False demo_coder"
  using rse_init_ready [OF demo_h_ok(1,2) demo_h_check, of False] by (auto simp: demo_coder_def)

definition demo_block :: "fec_flag list \<Rightarrow> nat list \<Rightarrow> fec_block" where
  \<comment> \<open>data packets at 1 and 2, a parity packet at 3\<close>
  "demo_block st ls = \<lparr>pdata = [1, 2, 3] @ replicate 52 0, cbi = [0, 1, 54] @ replicate 52 0,
     plen = ls @ replicate 52 0, pstat = st @ replicate 52 FEC_FLAG_NULL, block_C = 6, block_N = 3\<rparr>"

definition demo_mem :: mem where
  "demo_mem p i = (if p = 1 then of_nat (10 + i) else if p = 2 then of_nat (20 + i) else 0)"

definition demo_sender :: coder where
  "demo_sender = (coder_zero demo_h 1)\<lparr>memory := demo_mem,
     fbk := [demo_block [FEC_FLAG_KNOWN, FEC_FLAG_KNOWN, FEC_FLAG_WANTED] [4, 3, 0]]\<rparr>"

definition demo_receiver :: coder where
  \<comment> \<open>the second data packet was lost\<close>
  "demo_receiver = (coder_zero demo_h 1)\<lparr>
     memory := (memory (fst (the (rse_code demo_h False demo_coder 0 CHR ''e'' demo_sender))))(1 := demo_mem 1, 2 := \<lambda>_. 0),
     fbk := [demo_block [FEC_FLAG_KNOWN, FEC_FLAG_WANTED, FEC_FLAG_KNOWN] [4, 0, 6]]\<rparr>"

lemma upt_3: "[0..<3] = [0, 1, 2::nat]"
  by (simp add: upt_rec)

lemma all_less_3: "(\<forall>q<3. P q) \<longleftrightarrow> P 0 \<and> P 1 \<and> P (2::nat)"
  by (auto simp: numeral_3_eq_3 numeral_2_eq_2 less_Suc_eq)

lemmas demo_simps = demo_block_def all_less_3 upt_3 is_known_def is_parity_def data_index_def
  FEC_MAX_K_def FEC_MAX_H_def

lemma demo_block_ready:
  assumes "length st = 3" and "length ls = 3"
  shows "sized 55 (demo_block st ls)" and "indices_ok demo_h (demo_block st ls)" and "buffers_ok (demo_block st ls)"
    and "block_ready demo_h (demo_block st ls)"
proof -
  show s: "sized 55 (demo_block st ls)" using assms by (simp add: sized_def demo_block_def)
  show i: "indices_ok demo_h (demo_block st ls)" by (simp add: indices_ok_def demo_simps demo_h_def)
  show b: "buffers_ok (demo_block st ls)" by (simp add: buffers_ok_def demo_simps)
  show "block_ready demo_h (demo_block st ls)"
    using s i b by (simp add: block_ready_def) (simp add: demo_block_def demo_h_def)
qed

lemma demo_sender_ok:
  "0 < length (fbk demo_sender)" "matrices_ok demo_sender" "block_ready demo_h (fbk demo_sender ! 0)"
  "codeable (fbk demo_sender ! 0)" "encoding_block (fbk demo_sender ! 0)" "lengths_fit demo_h (fbk demo_sender ! 0)"
proof -
  show "matrices_ok demo_sender" using coder_zero_matrices [of demo_h 1] by (simp add: matrices_ok_def demo_sender_def)
  show "block_ready demo_h (fbk demo_sender ! 0)" by (simp add: demo_sender_def demo_block_ready)
qed (simp_all add: demo_sender_def codeable_def encoding_block_def lengths_fit_def demo_simps demo_h_def)

lemma demo_receiver_ok:
  "0 < length (fbk demo_receiver)" "matrices_ok demo_receiver" "block_ready demo_h (fbk demo_receiver ! 0)"
  "codeable (fbk demo_receiver ! 0)" "decoding_block (fbk demo_receiver ! 0)"
  "received demo_h (fbk demo_sender ! 0) (memory demo_sender)
     (memory (fst (the (rse_code demo_h False demo_coder 0 CHR ''e'' demo_sender)))) (fbk demo_receiver ! 0) (memory demo_receiver)"
proof -
  show "matrices_ok demo_receiver" using coder_zero_matrices [of demo_h 1] by (simp add: matrices_ok_def demo_receiver_def)
  show "block_ready demo_h (fbk demo_receiver ! 0)" by (simp add: demo_receiver_def demo_block_ready)
qed (simp_all add: demo_receiver_def demo_sender_def codeable_def decoding_block_def received_def demo_simps)

section \<open>Round trip\<close>

text \<open>C3: a group survives the loss of data packets. Encoding a sender's block with all data packets
known returns 0; a receiver's block of the same group knows copies of some of the data
packets and of at least as many generated parities as data packets are missing. Decoding it returns 0 and every
missing packet ends up with the sender's length, the sender's bytes and the status
GENNED.\<close>

theorem rse_lost_packets_recovered:
  assumes "coder_ready c lookup s" and "0 < FEC_EXTRA_COLS c"
    and "fs < length (fbk gs)" "matrices_ok gs" "block_ready c (fbk gs ! fs)" "codeable (fbk gs ! fs)"
      "encoding_block (fbk gs ! fs)" "lengths_fit c (fbk gs ! fs)"
    and "fr < length (fbk gr)" "matrices_ok gr" "block_ready c (fbk gr ! fr)" "codeable (fbk gr ! fr)"
      "decoding_block (fbk gr ! fr)"
    and "q < block_N (fbk gr ! fr)" "pstat (fbk gr ! fr) ! q = FEC_FLAG_WANTED"
  shows "\<exists>gs'. rse_code c lookup s fs CHR ''e'' gs = Some (gs', 0) \<and>
    (received c (fbk gs ! fs) (memory gs) (memory gs') (fbk gr ! fr) (memory gr) \<longrightarrow>
      (\<exists>gr'. rse_code c lookup s fr CHR ''d'' gr = Some (gr', 0) \<and> pstat (fbk gr' ! fr) ! q = FEC_FLAG_GENNED \<and>
        plen (fbk gr' ! fr) ! q = plen (fbk gs ! fs) ! q \<and>
        (\<forall>col<plen (fbk gs ! fs) ! q. memory gr' (pdata (fbk gr ! fr) ! q) col = memory gs (pdata (fbk gs ! fs) ! q) col)))"
proof -
  obtain gs' e where enc: "rse_code c lookup s fs CHR ''e'' gs = Some (gs', 0)"
    using rse_code_coded [OF assms(1,3-6) encode_solves [OF assms(7)]] by metis
  obtain gr' rc where dec: "Some (gr', rc) = rse_code c lookup s fr CHR ''d'' gr"
    using rse_code_defined [of gr fr c] assms(11) by (metis block_ready_def)
  note rt = rse_roundtrip [OF assms(1-8) enc [symmetric] assms(9-13) _ dec assms(14,15)]
  show ?thesis
  proof (rule exI [of _ gs'], rule conjI [OF enc], rule impI, rule exI [of _ gr'], intro conjI allI impI)
    assume r: "received c (fbk gs ! fs) (memory gs) (memory gs') (fbk gr ! fr) (memory gr)"
    show "rse_code c lookup s fr CHR ''d'' gr = Some (gr', 0)" using dec rt(1) [OF r] by simp
    show "pstat (fbk gr' ! fr) ! q = FEC_FLAG_GENNED" and "plen (fbk gr' ! fr) ! q = plen (fbk gs ! fs) ! q"
      by (rule rt(2,3) [OF r])+
    show "memory gr' (pdata (fbk gr ! fr) ! q) col = memory gs (pdata (fbk gs ! fs) ! q) col" if "col < plen (fbk gs ! fs) ! q" for col
      by (rule rt(4) [OF r that])
  qed
qed

theorem rse_lost_packets_recovered_witness:
  "\<exists>gr'. rse_code demo_h False demo_coder 0 CHR ''d'' demo_receiver = Some (gr', 0) \<and>
     plen (fbk gr' ! 0) ! 1 = 3 \<and> memory gr' 2 1 = 21"
proof -
  obtain gs' where e: "rse_code demo_h False demo_coder 0 CHR ''e'' demo_sender = Some (gs', 0)"
    and d: "received demo_h (fbk demo_sender ! 0) (memory demo_sender) (memory gs') (fbk demo_receiver ! 0) (memory demo_receiver) \<longrightarrow>
      (\<exists>gr'. rse_code demo_h False demo_coder 0 CHR ''d'' demo_receiver = Some (gr', 0) \<and>
        plen (fbk gr' ! 0) ! 1 = plen (fbk demo_sender ! 0) ! 1 \<and>
        (\<forall>col<plen (fbk demo_sender ! 0) ! 1. memory gr' (pdata (fbk demo_receiver ! 0) ! 1) col = memory demo_sender (pdata (fbk demo_sender ! 0) ! 1) col))"
    using rse_lost_packets_recovered [OF demo_coder_ready demo_h_ok(3) demo_sender_ok demo_receiver_ok(1-5), of 1]
    by (auto simp: demo_receiver_def demo_block_def)
  have "received demo_h (fbk demo_sender ! 0) (memory demo_sender) (memory gs') (fbk demo_receiver ! 0) (memory demo_receiver)"
    using demo_receiver_ok(6) e by simp
  with d show ?thesis by (auto simp: demo_receiver_def demo_sender_def demo_block_def demo_mem_def)
qed

text \<open>C23: encoding a block whose data packets are known returns 0 and stores in every parity
packet, at every symbol position, the sum of the data symbols weighted by the row of that parity packet.\<close>

theorem rse_encode_weighted_sums:
  assumes "coder_ready c lookup s" and "fb < length (fbk g)" and "matrices_ok g"
    and "block_ready c (fbk g ! fb)" and "codeable (fbk g ! fb)" and "encoding_block (fbk g ! fb)"
    and "q < block_N (fbk g ! fb)" and "\<not> data_index (fbk g ! fb) q" and "col < block_C (fbk g ! fb)"
  shows "\<exists>g'. rse_code c lookup s fb CHR ''e'' g = Some (g', 0) \<and>
    gf (memory g' (pdata (fbk g ! fb) ! q) col) =
      (\<Sum>d\<leftarrow>filter (is_known (fbk g ! fb)) [0..<block_N (fbk g ! fb)].
         gf (weight c s (parity_row c (fbk g ! fb) q) (unat (cbi (fbk g ! fb) ! d))) *
         gf (known_symbol c (fbk g ! fb) (memory g) d col))"
  using rse_encode [OF assms] by (intro exI [of _ "fst (the (rse_code c lookup s fb CHR ''e'' g))"]) (simp add: accumulated_def)

theorem rse_encode_weighted_sums_witness:
  "\<exists>g'. rse_code demo_h False demo_coder 0 CHR ''e'' demo_sender = Some (g', 0) \<and>
   gf (memory g' 3 0) =
     gf (weight demo_h demo_coder 0 0) * gf 10 + gf (weight demo_h demo_coder 0 1) * gf 20"
  using rse_encode_weighted_sums [OF demo_coder_ready demo_sender_ok(1-5), of 2 0]
  by (simp add: demo_sender_def demo_simps parity_row_def demo_h_def known_symbol_def demo_mem_def)


lemma matrix_solve_rc [simp]: "snd (matrix_solve c t p r k ci) = 0"
  by (simp add: matrix_solve_def Let_def)

lemma code_column_rc [simp]: "snd (code_column c lookup s fb mode know want n pari col g) = 0"
  by (simp add: code_column_def Let_def split_beta)



section \<open>Initialisation\<close>

text \<open>C14: initialisation on the zeroed globals returns 0, and the code it sets up corrects erasures: the
weights of the parity packets are the identity, and for any choice of parity rows and as
many data packets the matrix of their weights is regular, so that the symbols of those data packets
are determined by the parities. (A combination of the rows that vanishes on all chosen
columns is trivial.)\<close>

theorem rse_init_code_is_mds:
  assumes "byte_symbols c" and "group_fits c" and "codewords_check_bounds c = 0"
  shows "\<exists>s. rse_init c lookup (rse_zero c) = Some (s, 0) \<and>
    (\<forall>row<FEC_MAX_H. \<forall>p<FEC_MAX_H. weight c s row (FEC_MAX_N c - 1 - p) = (if row = p then 1 else 0)) \<and>
    (\<forall>rows cols l. distinct rows \<and> set rows \<subseteq> {..<FEC_MAX_H} \<and> distinct cols \<and> set cols \<subseteq> {..<FEC_MAX_K} \<and>
       length rows = length cols \<and>
       (\<forall>j<length cols. (\<Sum>i<length rows. l i * gf (weight c s (rows ! i) (cols ! j))) = 0) \<longrightarrow>
       (\<forall>i<length rows. l i = 0))"
proof -
  from rse_init_ready [OF assms, of lookup] obtain s where
    init: "rse_init c lookup (rse_zero c) = Some (s, 0)" and ready: "coder_ready c lookup s" by blast
  have id: "weight c s row (FEC_MAX_N c - 1 - p) = (if row = p then 1 else 0)"
    if "row < FEC_MAX_H" "p < FEC_MAX_H" for row p
    using weight_identity [OF ready that] by (metis gf_eq_iff gf_one gf_zero)
  note reg = weights_regular [OF ready]
  show ?thesis
  proof (intro exI [of _ s] conjI allI impI)
    fix rows cols l i
    assume *: "distinct rows \<and> set rows \<subseteq> {..<FEC_MAX_H} \<and> distinct cols \<and> set cols \<subseteq> {..<FEC_MAX_K} \<and>
       length rows = length cols \<and>
       (\<forall>j<length cols. (\<Sum>i<length rows. l i * gf (weight c s (rows ! i) (cols ! j))) = 0)" and "i < length rows"
    then show "l i = 0" using reg [of rows cols l i] by blast
  qed (use init id in auto)
qed

theorem rse_init_code_is_mds_witness:
  "\<exists>s. rse_init demo_h True (rse_zero demo_h) = Some (s, 0) \<and> weight demo_h s 2 52 = 1 \<and> weight demo_h s 2 50 = 0"
proof -
  obtain s where "rse_init demo_h True (rse_zero demo_h) = Some (s, 0)"
    and "\<forall>row<FEC_MAX_H. \<forall>p<FEC_MAX_H. weight demo_h s row (FEC_MAX_N demo_h - 1 - p) = (if row = p then 1 else 0)"
    using rse_init_code_is_mds [OF demo_h_ok(1,2) demo_h_check, of True] by blast
  moreover from this(2) [rule_format, of 2 2] this(2) [rule_format, of 2 4] have "weight demo_h s 2 52 = 1" "weight demo_h s 2 50 = 0"
    by (simp_all add: demo_h_def FEC_MAX_H_def)
  ultimately show ?thesis by blast
qed

text \<open>C27: with as many codewords as field elements the bounds check succeeds but initialisation
never returns, because the column counter of the weight generation has one byte.\<close>

theorem rse_init_never_returns:
  assumes "byte_symbols c" and "FEC_MAX_N c = FEC_N c" and "FEC_EXTRA_COLS c \<le> 7"
    and "FEC_EXTRA_COLS c < FEC_MAX_COLS c" and "FEC_EXTRA_COLS c = 0 \<or> FEC_MAX_COLS c < 256 ^ FEC_EXTRA_COLS c"
    and "fec_errno c FEC_ERR_INVALID_PARAMS \<noteq> 0"
  shows "codewords_check_bounds c = 0 \<and> rse_init c lookup s = None"
proof -
  have "FEC_MAX_N c = 256" using assms(1,2) by (simp add: byte_symbols_def)
  moreover from this have "codewords_check_bounds c = 0"
    using codewords_check_bounds_iff [of c] assms by simp
  ultimately show ?thesis using rse_init_diverges [of c lookup s] by simp
qed

theorem rse_init_never_returns_witness:
  "codewords_check_bounds (demo_h\<lparr>FEC_MAX_N := 256\<rparr>) = 0 \<and>
   rse_init (demo_h\<lparr>FEC_MAX_N := 256\<rparr>) False (rse_zero demo_h) = None"
  by (rule rse_init_never_returns) (simp_all add: demo_h_def byte_symbols_def)

section \<open>Arithmetic\<close>

text \<open>C25: after the tables have been generated, the multiplication macro is the product of
the field with 256 elements (polynomials over GF(2) modulo 0x11d), and the inverse table
holds the multiplicative inverses.\<close>

theorem table_arithmetic_is_the_field:
  assumes "byte_symbols c"
  shows "let t = gf_math_log_tables_generate c (zero_tables c) in
    (\<forall>a b :: u8. FEC_GF_MULT c t (unat a) (unat b) = gmul a b) \<and>
    (\<forall>a :: u8. a \<noteq> 0 \<longrightarrow> FEC_GF_MULT c t (unat a) (unat (fec_invefec t ! unat a)) = 1)"
proof -
  have t: "tables_ok (gf_math_log_tables_generate c (zero_tables c))" using assms by (rule tables_generate_ok)
  then have "FEC_GF_MULT c (gf_math_log_tables_generate c (zero_tables c)) (unat a) (unat b) = gmul a b" for a b
    using assms by (rule FEC_GF_MULT_gmul)
  moreover have "FEC_GF_MULT c (gf_math_log_tables_generate c (zero_tables c)) (unat a)
      (unat (fec_invefec (gf_math_log_tables_generate c (zero_tables c)) ! unat a)) = 1" if "a \<noteq> 0" for a :: u8
    using table_arith.mul_inv [of "(c, gf_math_log_tables_generate c (zero_tables c))" a] assms t that by simp
  ultimately show ?thesis by (simp add: Let_def)
qed

theorem table_arithmetic_is_the_field_witness:
  "FEC_GF_MULT demo_h (gf_math_log_tables_generate demo_h (zero_tables demo_h)) (unat (2 :: u8)) (unat (0x80 :: u8)) = 0x1d"
proof -
  have "xtime 1 = 2" "xtime 0x80 = 0x1d" by (simp_all add: xtime_def)
  then have "gmul 2 0x80 = 0x1d" using gmul_xtime [of 1 "0x80"] by simp
  then show ?thesis using table_arithmetic_is_the_field [OF demo_h_ok(1)] unfolding Let_def by metis
qed

text \<open>The two compile-time variants of the multiply-and-accumulate macro, three lookups
in tables of 256 entries or one lookup in a table of 256 by 256, compute the same.\<close>

theorem mac_variants_agree:
  assumes "byte_symbols c" and "t = gf_math_log_tables_generate c (zero_tables c)"
  shows "FEC_MAC_LOOKUP c (gf_math_mult_tables_generate c t (gf_mult_table (rse_zero c))) a b p = FEC_MAC c t a b p"
proof -
  have t: "tables_ok t" unfolding assms(2) using assms(1) by (rule tables_generate_ok)
  have "FEC_MAC_LOOKUP c (gf_math_mult_tables_generate c t (gf_mult_table (rse_zero c))) a b p = p XOR gmul a b"
    using t assms(1) by (rule FEC_MAC_LOOKUP_gmul) (use assms(1) in \<open>auto simp: rse_zero_def byte_symbols_def\<close>)
  then show ?thesis using FEC_MAC_gmul [OF t assms(1)] by simp
qed

theorem mac_variants_agree_witness:
  "FEC_MAC_LOOKUP demo_h (gf_math_mult_tables_generate demo_h (gf_math_log_tables_generate demo_h (zero_tables demo_h))
     (gf_mult_table (rse_zero demo_h))) 7 9 1 =
   FEC_MAC demo_h (gf_math_log_tables_generate demo_h (zero_tables demo_h)) 7 9 1"
  by (rule mac_variants_agree [OF demo_h_ok(1) refl])

text \<open>C15: the matrix solver, run on an array that holds the coefficients of \<open>n\<close> equations
in \<open>n\<close> unknowns with the constants in its first column, returns 0, leaves the solution in
that column and touches no cell outside the matrix, for the systems whose leading submatrices are all regular. It never
exchanges rows, so a regular system with a singular leading submatrix, such as the one that exchanges two unknowns, is not
among them; the systems of the decoder are.\<close>

theorem matrix_solve_solves_equations:
  assumes "tables_ok t" and "byte_symbols c" and "0 < n" and "n \<le> FEC_MAX_H"
    and "length d = FEC_MAX_H * (FEC_MAX_H + 1)"
    and "leading_regular n (\<lambda>i j. gf (d ! cell i (n - j)))"
    and "\<And>i. i < n \<Longrightarrow>
      (\<Sum>j<n. gf (d ! cell i (n - j)) * x j) + gf (d ! cell i 0) = 0"
    and "(d', rc) = matrix_solve c t d (of_nat n) (of_nat (n + 1)) (of_nat (FEC_MAX_H + 1))"
  shows "rc = 0 \<and> length d' = length d \<and> (\<forall>i<n. gf (d' ! cell i 0) = x i)"
proof -
  have "length (fst (d', rc)) = length d \<and> snd (d', rc) = 0 \<and> (\<forall>i<n. gf (fst (d', rc) ! cell i 0) = x i)"
    using assms(1-5) _ assms(6-8) by (rule solved_cell) simp
  then show ?thesis by simp
qed

theorem matrix_solve_solves_equations_witness:
  "fst (matrix_solve demo_h (gf_math_log_tables_generate demo_h (zero_tables demo_h))
     ([5, 1] @ replicate 28 0) 1 2 6) ! 0 = 5"
proof -
  let ?t = "gf_math_log_tables_generate demo_h (zero_tables demo_h)"
  obtain d' rc where d: "(d', rc) = matrix_solve demo_h ?t ([5, 1] @ replicate 28 0)
      (of_nat 1) (of_nat (1 + 1)) (of_nat (FEC_MAX_H + 1))" by (metis surj_pair)
  have "rc = 0 \<and> length d' = length ([5, 1] @ replicate 28 (0 :: u8)) \<and> (\<forall>i<1. gf (d' ! cell i 0) = gf 5)"
    by (rule matrix_solve_solves_equations [OF tables_generate_ok [OF demo_h_ok(1)] demo_h_ok(1) _ _ _ _ _ d, where x = "\<lambda>_. gf 5"])
      (simp_all add: FEC_MAX_H_def leading_regular_def cell_def)
  then show ?thesis using d by (simp add: FEC_MAX_H_def cell_def) (metis fst_conv)
qed

section \<open>Blocks\<close>

text \<open>deleting packets marks the listed data packets as wanted and the listed parities as
ignored, with length zero; parities that were generated and stay become known; every other
status, every other length, the addresses and the codeword indices are kept.\<close>

theorem delete_marks_packets:
  assumes "sized (FEC_MAX_N c) b" and "\<forall>d\<in>set delete_fbis. 0 \<le> d" and "FEC_MAX_N c \<le> 256"
    and "block_N b \<le> FEC_MAX_N c" and "i < block_N b"
    and "ds = takeWhile (\<lambda>d. d < int (FEC_MAX_N c)) delete_fbis"
  shows "let b' = fec_block_delete c delete_fbis b in
    pdata b' = pdata b \<and> cbi b' = cbi b \<and> block_N b' = block_N b \<and> block_C b' = block_C b \<and>
    plen b' ! i = (if int i \<in> set ds then 0 else plen b ! i) \<and>
    pstat b' ! i =
      (if int i \<in> set ds then if unat (cbi b ! i) < FEC_MAX_K then FEC_FLAG_WANTED else FEC_FLAG_IGNORE
       else if FEC_MAX_K \<le> unat (cbi b ! i) \<and> pstat b ! i \<in> {FEC_FLAG_GENNED, FEC_FLAG_GENOLD} then FEC_FLAG_KNOWN
       else pstat b ! i)"
proof -
  have "\<forall>d\<in>set (takeWhile (\<lambda>d. d < int (FEC_MAX_N c)) delete_fbis). 0 \<le> d"
    using assms(2) by (auto dest: set_takeWhileD)
  from fec_block_delete_fields [OF assms(1) this assms(3,4) refl] assms(5)
  show ?thesis unfolding assms(6) Let_def deleted_stat_def kept_stat_def by simp
qed

theorem delete_marks_packets_witness:
  "pstat (fec_block_delete demo_h [1, 55] (demo_block [FEC_FLAG_KNOWN, FEC_FLAG_KNOWN, FEC_FLAG_GENNED] [4, 3, 6])) ! 1 =
     FEC_FLAG_WANTED \<and>
   pstat (fec_block_delete demo_h [1, 55] (demo_block [FEC_FLAG_KNOWN, FEC_FLAG_KNOWN, FEC_FLAG_GENNED] [4, 3, 6])) ! 2 =
     FEC_FLAG_KNOWN"
proof -
  let ?b = "demo_block [FEC_FLAG_KNOWN, FEC_FLAG_KNOWN, FEC_FLAG_GENNED] [4, 3, 6]"
  have b: "sized (FEC_MAX_N demo_h) ?b" using demo_block_ready(1) by (simp add: demo_h_def)
  note del = delete_marks_packets [OF b, of "[1, 55]", unfolded Let_def]
  show ?thesis using del [of 1] del [of 2] by (simp add: demo_simps demo_h_def)
qed

end
