(* ===== verification/Rse_Recover.thy ===== *)
theory Rse_Recover
  imports Rse_Roundtrip
begin

text \<open>
  Encoding and decoding as the boosters use them. A receiver may process more columns than the sender
  generated, because a parity packet arrives with bytes appended. The columns of the sender's
  packets are still recovered; in the others the coder computes some solution of its equations.
  The lemmas also say what the coder leaves unchanged.
\<close>

section \<open>Solvability\<close>

lemma finite_gf256: "finite (UNIV :: gf256 set)"
proof (rule finite_surj)
  show "finite (UNIV :: u8 set)" by simp
  show "(UNIV :: gf256 set) \<subseteq> range gf" using gf_gf_rep by (metis rangeI subsetI)
qed

lemma regular_solvable:
  fixes W :: "nat \<Rightarrow> nat \<Rightarrow> gf256"
  assumes reg: "leading_regular n W"
  shows "\<exists>x. \<forall>i<n. (\<Sum>j<n. W i j * x j) + r i = 0"
proof -
  let ?A = "{xs :: gf256 list. length xs = n}"
  define f where "f xs = map (\<lambda>i. \<Sum>j<n. W i j * xs ! j) [0..<n]" for xs :: "gf256 list"
  have fin: "finite ?A" using finite_lists_length_eq [OF finite_gf256, of n] by simp
  have inj: "inj_on f ?A"
  proof (rule inj_onI)
    fix xs ys assume xy: "xs \<in> ?A" "ys \<in> ?A" "f xs = f ys"
    define M where "M i j = (if j < n then W i j else - (\<Sum>j<n. W i j * xs ! j))" for i j
    have regM: "leading_regular n M" using reg by (rule leading_regular_cong [rotated]) (simp add: mat_eq_def M_def)
    have row: "(\<Sum>j<n. W i j * xs ! j) = (\<Sum>j<n. W i j * ys ! j)" if "i < n" for i
      using arg_cong [OF xy(3), of "\<lambda>l. l ! i"] that by (simp add: f_def)
    show "xs = ys"
    proof (rule nth_equalityI)
      fix i assume "i < length xs"
      then have i: "i < n" using xy by simp
      have "solve n M i n = - xs ! i" using regM i by (rule solve_equations) (simp add: M_def)
      moreover have "solve n M i n = - ys ! i" using regM i by (rule solve_equations) (simp add: M_def row)
      ultimately show "xs ! i = ys ! i" by simp
    qed (use xy in simp)
  qed
  have "f ` ?A \<subseteq> ?A" by (auto simp: f_def)
  then have "f ` ?A = ?A" using endo_inj_surj [OF fin _ inj] by blast
  moreover have "map (\<lambda>i. - r i) [0..<n] \<in> ?A" by simp
  ultimately obtain xs where "f xs = map (\<lambda>i. - r i) [0..<n]" by (metis (no_types, lifting) imageE)
  then have "(\<Sum>j<n. W i j * xs ! j) + r i = 0" if "i < n" for i
    using that arg_cong [of "f xs" _ "\<lambda>l. l ! i"] by (fastforce simp: f_def)
  then show ?thesis by blast
qed

section \<open>Decoding some of the columns\<close>

lemma decode_regular:
  assumes "coder_ready c lookup s" and "block_ready c b" and "codeable b" and "decoding_block b"
  shows "leading_regular (length (wanted_of b)) (eq_weight c s b (parity_of b) (wanted_of b))"
  using assms(1,2)
proof (rule equations_regular)
  show "q < block_N b \<and> data_index b q" if "q \<in> set (wanted_of b)" for q
    using that assms(4) by (simp add: decoding_block_def)
  show "q < block_N b \<and> \<not> data_index b q" if "q \<in> set (parity_of b)" for q
    using that by (auto simp: is_parity_def data_index_def)
  show "length (wanted_of b) \<le> length (parity_of b)" using assms(3) by (simp add: codeable_def)
qed simp_all

lemma rse_decode_columns:
  assumes c: "coder_ready c lookup s" and fb: "fb < length (fbk g)" and m: "matrices_ok g"
    and b: "block_ready c (fbk g ! fb)" and k: "codeable (fbk g ! fb)" and d: "decoding_block (fbk g ! fb)"
    and v: "\<And>col. col < n \<Longrightarrow> codeword c s (fbk g ! fb) (v col)"
    and a: "\<And>col. col < n \<Longrightarrow> agrees c (fbk g ! fb) (memory g) col (v col)" and n: "n \<le> block_C (fbk g ! fb)"
  obtains g' where "rse_code c lookup s fb CHR ''d'' g = Some (g', 0)" and "matrices_ok g'"
    and "length (fbk g') = length (fbk g)" and "same_layout (fbk g ! fb) (fbk g' ! fb)"
    and "\<forall>q<block_N (fbk g ! fb). if pstat (fbk g ! fb) ! q = FEC_FLAG_WANTED
      then pstat (fbk g' ! fb) ! q = FEC_FLAG_GENNED \<and>
        (\<forall>col<n. gf (memory g' (pdata (fbk g ! fb) ! q) col) = v col (unat (cbi (fbk g ! fb) ! q)))
      else pstat (fbk g' ! fb) ! q = pstat (fbk g ! fb) ! q"
    and "\<forall>p. (\<forall>q<block_N (fbk g ! fb). pstat (fbk g ! fb) ! q = FEC_FLAG_WANTED \<longrightarrow> p \<noteq> pdata (fbk g ! fb) ! q) \<longrightarrow>
      memory g' p = memory g p"
proof -
  let ?b = "fbk g ! fb"
  let ?W = "eq_weight c s ?b (parity_of ?b) (wanted_of ?b)"
  let ?acc = "\<lambda>i col. accumulated c s ?b (memory g) (known_of ?b) (parity_row c ?b (parity_of ?b ! i)) col"
  have reg: "leading_regular (length (wanted_of ?b)) ?W" by (rule decode_regular [OF c b k d])
  obtain y where y: "\<And>col i. i < length (wanted_of ?b) \<Longrightarrow> (\<Sum>j<length (wanted_of ?b). ?W i j * y col j) + ?acc i col = 0"
  proof -
    have "\<forall>col. \<exists>y. \<forall>i<length (wanted_of ?b). (\<Sum>j<length (wanted_of ?b). ?W i j * y j) + ?acc i col = 0"
      by (rule allI, rule regular_solvable [OF reg])
    from choice [OF this] obtain y where "\<forall>col. \<forall>i<length (wanted_of ?b). (\<Sum>j<length (wanted_of ?b). ?W i j * y col j) + ?acc i col = 0" ..
    then show thesis by (intro that [of y]) simp
  qed
  define x where "x j col = (if col < n then v col (unat (cbi ?b ! (wanted_of ?b ! j))) else y col j)" for j col
  have sol: "solves c s ?b (memory g) CHR ''d'' (known_of ?b) (wanted_of ?b) (parity_of ?b) col (\<lambda>j. x j col)" for col
  proof (cases "col < n")
    case True
    then show ?thesis using decode_solves [OF c b k d v [OF True] a [OF True]] by (simp add: x_def)
  next
    case False
    then show ?thesis using reg y by (simp add: x_def solves_def)
  qed
  obtain g' e where run: "rse_code c lookup s fb CHR ''d'' g = Some (g', 0)" and mo: "matrices_ok g'"
    and cod: "coded c CHR ''d'' fb (wanted_of ?b) x (g\<lparr>fcm_e := e\<rparr>) (block_C ?b) g'"
    by (rule rse_code_coded [OF c fb m b k sol])
  have fbs: "fbk (g\<lparr>fcm_e := e\<rparr>) ! fb = ?b" by simp
  note cod' = cod [unfolded coded_def Let_def fbs]
  have wanted: "\<exists>j<length (wanted_of ?b). q = wanted_of ?b ! j" if "q < block_N ?b" "pstat ?b ! q = FEC_FLAG_WANTED" for q
  proof -
    have "q \<in> set (wanted_of ?b)" using that by simp
    then show ?thesis unfolding in_set_conv_nth by metis
  qed
  show thesis
  proof (rule that [OF run mo])
    show "length (fbk g') = length (fbk g)" using cod' by (metis (no_types, lifting) coder.select_convs(1) coder.surjective coder.update_convs(2) length_list_update)
    show "same_layout ?b (fbk g' ! fb)" using cod' by blast
    show "\<forall>q<block_N ?b. if pstat ?b ! q = FEC_FLAG_WANTED then pstat (fbk g' ! fb) ! q = FEC_FLAG_GENNED \<and>
        (\<forall>col<n. gf (memory g' (pdata ?b ! q) col) = v col (unat (cbi ?b ! q))) else pstat (fbk g' ! fb) ! q = pstat ?b ! q"
    proof (intro allI impI)
      fix q assume q: "q < block_N ?b"
      show "if pstat ?b ! q = FEC_FLAG_WANTED then pstat (fbk g' ! fb) ! q = FEC_FLAG_GENNED \<and>
        (\<forall>col<n. gf (memory g' (pdata ?b ! q) col) = v col (unat (cbi ?b ! q))) else pstat (fbk g' ! fb) ! q = pstat ?b ! q"
      proof (cases "pstat ?b ! q = FEC_FLAG_WANTED")
        case True
        then obtain j where j: "j < length (wanted_of ?b)" "q = wanted_of ?b ! j" using wanted [OF q] by blast
        have "gf (memory g' (pdata ?b ! q) col) = x j col" if "col < n" for col using cod' j n that by auto
        moreover have "pstat (fbk g' ! fb) ! q = FEC_FLAG_GENNED" using cod' j by auto
        ultimately show ?thesis using True j by (simp add: x_def)
      next
        case False
        then have "q \<notin> set (wanted_of ?b)" by simp
        then have "pstat (fbk g' ! fb) ! q = pstat ?b ! q" using cod' by blast
        then show ?thesis using False by simp
      qed
    qed
    show "\<forall>p. (\<forall>q<block_N ?b. pstat ?b ! q = FEC_FLAG_WANTED \<longrightarrow> p \<noteq> pdata ?b ! q) \<longrightarrow> memory g' p = memory g p"
    proof (intro allI impI)
      fix p assume "\<forall>q<block_N ?b. pstat ?b ! q = FEC_FLAG_WANTED \<longrightarrow> p \<noteq> pdata ?b ! q"
      then have "p \<notin> (\<lambda>q. pdata ?b ! q) ` set (wanted_of ?b)" by auto
      then show "memory g' p = memory g p" using cod' by (intro ext) simp
    qed
  qed
qed

section \<open>Encoding\<close>

lemma rse_encode_columns:
  assumes c: "coder_ready c lookup s" and fb: "fb < length (fbk g)" and m: "matrices_ok g"
    and b: "block_ready c (fbk g ! fb)" and k: "codeable (fbk g ! fb)" and e: "encoding_block (fbk g ! fb)"
    and E: "0 < FEC_EXTRA_COLS c"
  obtains g' where "rse_code c lookup s fb CHR ''e'' g = Some (g', 0)" and "matrices_ok g'"
    and "length (fbk g') = length (fbk g)" and "same_layout (fbk g ! fb) (fbk g' ! fb)" and "plen (fbk g' ! fb) = plen (fbk g ! fb)"
    and "\<And>q col. q < block_N (fbk g ! fb) \<Longrightarrow> \<not> data_index (fbk g ! fb) q \<Longrightarrow> col < block_C (fbk g ! fb) \<Longrightarrow>
      gf (memory g' (pdata (fbk g ! fb) ! q) col) =
      accumulated c s (fbk g ! fb) (memory g) (known_of (fbk g ! fb)) (parity_row c (fbk g ! fb) q) col"
    and "\<And>p. (\<And>q. q < block_N (fbk g ! fb) \<Longrightarrow> \<not> data_index (fbk g ! fb) q \<Longrightarrow> p \<noteq> pdata (fbk g ! fb) ! q) \<Longrightarrow>
      memory g' p = memory g p"
proof -
  let ?b = "fbk g ! fb"
  obtain g' e' where run: "rse_code c lookup s fb CHR ''e'' g = Some (g', 0)" and mo: "matrices_ok g'" and
    cod: "coded c CHR ''e'' fb (wanted_of ?b)
      (\<lambda>j col. accumulated c s ?b (memory g) (known_of ?b) (parity_row c ?b (wanted_of ?b ! j)) col)
      (g\<lparr>fcm_e := e'\<rparr>) (block_C ?b) g'"
    using rse_code_coded [OF c fb m b k, of "CHR ''e''"] encode_solves [OF e] by metis
  have fbs: "fbk (g\<lparr>fcm_e := e'\<rparr>) ! fb = ?b" by simp
  note cod' = cod [unfolded coded_def Let_def fbs]
  have lay: "same_layout ?b (fbk g' ! fb)" using cod' by blast
  show thesis
  proof (rule that [OF run mo])
    show "length (fbk g') = length (fbk g)" using cod' by (metis (no_types, lifting) coder.select_convs(1) coder.surjective coder.update_convs(2) length_list_update)
    show "same_layout ?b (fbk g' ! fb)" by (rule lay)
    have "plen (fbk g' ! fb) ! q = plen ?b ! q" for q
    proof (cases "q \<in> set (wanted_of ?b)")
      case True
      then have "FEC_MAX_K \<le> unat (cbi ?b ! q)" using encoding_block_lists(2) [OF e, of q] by (simp add: data_index_def)
      moreover obtain j where j: "j < length (wanted_of ?b)" "q = wanted_of ?b ! j" using True by (metis in_set_conv_nth)
      moreover have "0 < FEC_EXTRA_COLS c \<longrightarrow> (\<forall>j<length (wanted_of ?b). plen (fbk g' ! fb) ! (wanted_of ?b ! j) =
          (if block_C ?b = 0 \<or> FEC_MAX_K \<le> unat (cbi ?b ! (wanted_of ?b ! j)) then plen ?b ! (wanted_of ?b ! j)
           else length_sum c ?b (block_C ?b) (\<lambda>col. accumulated c s ?b (memory g) (known_of ?b) (parity_row c ?b (wanted_of ?b ! j)) col)))"
        using cod' by (elim conjE)
      ultimately show ?thesis using E by simp
    next
      case False
      then show ?thesis using cod' by blast
    qed
    then show "plen (fbk g' ! fb) = plen ?b" using lay by (intro nth_equalityI) (simp_all add: same_layout_def)
  next
    fix q col assume q: "q < block_N ?b" "\<not> data_index ?b q" and col: "col < block_C ?b"
    have "q \<in> set (wanted_of ?b)" using encoding_block_lists(2) [OF e, of q] q by blast
    then obtain j where j: "j < length (wanted_of ?b)" "q = wanted_of ?b ! j" by (metis in_set_conv_nth)
    then show "gf (memory g' (pdata ?b ! q) col) = accumulated c s ?b (memory g) (known_of ?b) (parity_row c ?b q) col"
      using cod' col by auto
  next
    fix p assume p: "\<And>q. q < block_N ?b \<Longrightarrow> \<not> data_index ?b q \<Longrightarrow> p \<noteq> pdata ?b ! q"
    have "p \<notin> (\<lambda>q. pdata ?b ! q) ` set (wanted_of ?b)"
      using p encoding_block_lists(2) [OF e] by blast
    then show "memory g' p = memory g p" using cod' by (intro ext) simp
  qed
qed

end
