(* ===== verification/Fec_Booster.thy ===== *)
theory Fec_Booster
  imports Rse_Recover
begin

text \<open>
  The packet buffers of the erasure booster and its encapsulation,
  \<^verbatim>\<open>cpuBoosters/fecBoosters/fecBooster.c\<close>, \<^verbatim>\<open>fecBooster.h\<close> and \<^verbatim>\<open>fecDefs.h\<close>. Every traffic class has, for each
  port, a table of blocks of packets with their sizes and status; a block is copied to the
  FEC block of the coder, encoded or decoded there, and read back.

  A pointer to bytes is the function that gives the byte at each offset, so that reading past
  the end of an array is visible in the model. The packet buffers themselves live in the memory
  of the coder, since \<^verbatim>\<open>populate_fec_blk\<close> passes their addresses to it. Structures are laid out as on
  a little-endian machine with the bit-field order of the tag's comment. A null pointer
  that the code dereferences is \<open>the None\<close>.

  The slots of the packet buffers are separate memory cells. What would write past a slot of \<open>PKT_BUF_SZ\<close> bytes,
  past the \<open>TOTAL_NUM_PACKETS\<close> slots of a block or past the arrays of the coder has no result, \<open>None\<close>. The functions
  that only read the tables are called with indices that the packet handlers have checked first.
\<close>

section \<open>Memory\<close>

type_synonym bytes = "nat \<Rightarrow> u8"

definition ptr_add :: "bytes \<Rightarrow> nat \<Rightarrow> bytes" where
  "ptr_add p n = (\<lambda>i. p (n + i))"

definition memcpy :: "bytes \<Rightarrow> nat \<Rightarrow> bytes \<Rightarrow> nat \<Rightarrow> bytes" where
  \<comment> \<open>\<open>memcpy(dst + off, src, n)\<close>\<close>
  "memcpy dst off src n = (\<lambda>i. if off \<le> i \<and> i < off + n then src (i - off) else dst i)"

definition htons :: "u16 \<Rightarrow> u16" where
  "htons x = push_bit 8 x OR drop_bit 8 x"

definition load16 :: "bytes \<Rightarrow> nat \<Rightarrow> u16" where
  "load16 p i = ucast (p i) OR push_bit 8 (ucast (p (i + 1)))"

definition store16 :: "bytes \<Rightarrow> nat \<Rightarrow> u16 \<Rightarrow> bytes" where
  "store16 p i v = p(i := ucast v, i + 1 := ucast (drop_bit 8 v))"

definition frame_of :: "bytes \<Rightarrow> nat \<Rightarrow> u8 list" where
  "frame_of p n = map p [0..<n]"

lemma memcpy_simps:
  "i < off \<Longrightarrow> memcpy dst off src n i = dst i" "off + n \<le> i \<Longrightarrow> memcpy dst off src n i = dst i"
  "off \<le> i \<Longrightarrow> i < off + n \<Longrightarrow> memcpy dst off src n i = src (i - off)"
  by (simp_all add: memcpy_def)

lemma htons_htons [simp]: "htons (htons x) = x"
  by (rule bit_word_eqI) (auto simp: htons_def bit_or_iff bit_push_bit_iff bit_drop_bit_eq dest: bit_imp_le_length)

lemma load16_store16 [simp]: "load16 (store16 p i v) i = v"
  by (rule bit_word_eqI)
    (auto simp: load16_def store16_def bit_or_iff bit_push_bit_iff bit_unsigned_iff bit_drop_bit_eq dest: bit_imp_le_length)

lemma load16_cong: "p i = q i \<Longrightarrow> p (i + 1) = q (i + 1) \<Longrightarrow> load16 p i = load16 q i"
  by (simp add: load16_def)

section \<open>Constants and data\<close>

definition SIZE_ETHERNET :: nat where "SIZE_ETHERNET = 14"
definition SIZE_FEC :: nat where "SIZE_FEC = 6" \<comment> \<open>\<open>sizeof(struct fec_header)\<close>\<close>
definition WHARF_TAG_SIZE :: nat where "WHARF_TAG_SIZE = SIZE_ETHERNET + SIZE_FEC"
definition TOTAL_NUM_PACKETS :: nat where "TOTAL_NUM_PACKETS = 50 + 5"
definition PKT_BUF_SZ :: nat where "PKT_BUF_SZ = 2048"
definition NUM_BLOCKS :: nat where "NUM_BLOCKS = 256"
definition TCLASS_MAX :: nat where "TCLASS_MAX = 5"
definition MAX_PORT :: nat where "MAX_PORT = 10"
definition DEFAULT_PORT :: int where "DEFAULT_PORT = 0"
definition WHARF_ETHERTYPE :: u16 where "WHARF_ETHERTYPE = 0x081C"
definition MAX_BLOCK :: nat where "MAX_BLOCK = 6"
definition FRAME_SIZE_CUTOFF :: nat where "FRAME_SIZE_CUTOFF = 1498"
definition FB_INDEX :: nat where "FB_INDEX = 0"

type_synonym tclass_type = u16

record fec_header =
  hdr_block_id :: u8 \<comment> \<open>five bits\<close>
  hdr_class_id :: u8 \<comment> \<open>three bits\<close>
  hdr_index :: u8
  hdr_orig_ethertype :: u16
  hdr_packet_len :: u16

datatype pkt_buffer_status = PACKET_ABSENT | PACKET_PRESENT | PACKET_RECOVERED

record tclass_buffer =
  pkt_sz :: "nat \<Rightarrow> nat \<Rightarrow> nat"
  status :: "nat \<Rightarrow> nat \<Rightarrow> pkt_buffer_status"
  block_id :: u8
  frame_idx :: u8

record tclass =
  tc_k :: fec_sym
  tc_h :: fec_sym
  tc_o :: fec_sym
  buffers :: "nat \<Rightarrow> tclass_buffer"

record booster =
  tclasses :: "tclass_type \<Rightarrow> tclass"
  rse :: coder \<comment> \<open>\<open>fbk\<close> and the memory, which holds \<open>pkts\<close>\<close>

definition pkt_at :: "tclass_type \<Rightarrow> nat \<Rightarrow> nat \<Rightarrow> nat \<Rightarrow> addr" where
  \<comment> \<open>the address of \<open>pkts[blockId][pktIdx]\<close> of a class and port\<close>
  "pkt_at cls port blockId pktIdx =
     Suc (((unat cls * (MAX_PORT + 1) + port) * NUM_BLOCKS + blockId) * TOTAL_NUM_PACKETS + pktIdx)"

definition buffer_zero :: tclass_buffer where
  "buffer_zero = \<lparr>pkt_sz = (\<lambda>_ _. 0), status = (\<lambda>_ _. PACKET_ABSENT), block_id = 0, frame_idx = 0\<rparr>"

definition booster_zero :: "rse_h \<Rightarrow> booster" where
  "booster_zero c = \<lparr>tclasses = (\<lambda>_. \<lparr>tc_k = 0, tc_h = 0, tc_o = 0, buffers = (\<lambda>_. buffer_zero)\<rparr>), rse = coder_zero c 1\<rparr>"

section \<open>Parameters and buffers\<close>

definition get_tclass_buffer :: "booster \<Rightarrow> tclass_type \<Rightarrow> int \<Rightarrow> tclass_buffer option" where
  "get_tclass_buffer st tclass port =
     (if port < 0 \<or> int MAX_PORT < port then None else Some (buffers (tclasses st tclass) (nat port)))"

definition set_buffer :: "tclass_type \<Rightarrow> int \<Rightarrow> tclass_buffer \<Rightarrow> booster \<Rightarrow> booster" where
  \<comment> \<open>assignment through the pointer that \<open>get_tclass_buffer\<close> returns\<close>
  "set_buffer tclass port tcb st = st\<lparr>tclasses := (tclasses st)(tclass :=
     (tclasses st tclass)\<lparr>buffers := (buffers (tclasses st tclass))(nat port := tcb)\<rparr>)\<rparr>"

definition set_fec_params :: "tclass_type \<Rightarrow> fec_sym \<Rightarrow> fec_sym \<Rightarrow> booster \<Rightarrow> booster" where
  "set_fec_params tclass k h st = st\<lparr>tclasses := (tclasses st)(tclass := (tclasses st tclass)\<lparr>tc_k := k, tc_h := h\<rparr>)\<rparr>"

definition get_fec_params :: "booster \<Rightarrow> tclass_type \<Rightarrow> fec_sym \<times> fec_sym" where
  "get_fec_params st tclass = (tc_k (tclasses st tclass), tc_h (tclasses st tclass))"

definition run_coder :: "rse_h \<Rightarrow> bool \<Rightarrow> rse_state \<Rightarrow> char \<Rightarrow> booster \<Rightarrow> booster option" where
  \<comment> \<open>\<open>rse_code\<close> on the block; an error is only logged. A result that is no error was written to all \<open>block_C\<close>
    columns of the wanted packets, which must fit into their slots.\<close>
  "run_coder c lookup s mode st =
     (case rse_code c lookup s FB_INDEX mode (rse st) of
        None \<Rightarrow> None
      | Some (g, rc) \<Rightarrow> if rc = 0 \<and> PKT_BUF_SZ < block_C (fbk (rse st) ! FB_INDEX) then None else Some (st\<lparr>rse := g\<rparr>))"

definition encode_block :: "rse_h \<Rightarrow> bool \<Rightarrow> rse_state \<Rightarrow> booster \<Rightarrow> booster option" where
  "encode_block c lookup s st = run_coder c lookup s CHR ''e'' st"

definition decode_block :: "rse_h \<Rightarrow> bool \<Rightarrow> rse_state \<Rightarrow> tclass_type \<Rightarrow> int \<Rightarrow> nat \<Rightarrow> booster \<Rightarrow> booster option" where
  "decode_block c lookup s tclass port blockId st =
     (case run_coder c lookup s CHR ''d'' st of
        None \<Rightarrow> None
      | Some st1 \<Rightarrow>
          (case get_tclass_buffer st1 tclass port of
             None \<Rightarrow> Some st1
           | Some tcb \<Rightarrow>
               let k = unat (tc_k (tclasses st1 tclass)) in
               if TOTAL_NUM_PACKETS < k \<or> FEC_MAX_N c < k then None
               else Some (set_buffer tclass port
                 (for_loop 0 k (\<lambda>i tcb.
                    if pstat (fbk (rse st1) ! FB_INDEX) ! i = FEC_FLAG_GENNED
                    then tcb\<lparr>status := (status tcb)(blockId := (status tcb blockId)(i := PACKET_RECOVERED))\<rparr>
                    else tcb) tcb) st1)))"

definition is_all_data_pkts_recieved_for_block :: "booster \<Rightarrow> tclass_type \<Rightarrow> int \<Rightarrow> nat \<Rightarrow> bool" where
  "is_all_data_pkts_recieved_for_block st tclass port blockId =
     (case get_tclass_buffer st tclass port of
        None \<Rightarrow> False
      | Some tcb \<Rightarrow> list_all (\<lambda>i. status tcb blockId i \<noteq> PACKET_ABSENT) [0..<unat (tc_k (tclasses st tclass))])"

definition mark_pkts_absent :: "tclass_type \<Rightarrow> int \<Rightarrow> nat \<Rightarrow> booster \<Rightarrow> booster" where
  "mark_pkts_absent tclass port blockId st =
     (case get_tclass_buffer st tclass port of
        None \<Rightarrow> st
      | Some tcb \<Rightarrow>
          set_buffer tclass port
            (for_loop 0 TOTAL_NUM_PACKETS (\<lambda>i tcb.
               tcb\<lparr>status := (status tcb)(blockId := (status tcb blockId)(i := PACKET_ABSENT))\<rparr>) tcb) st)"

definition length_prefix :: "booster \<Rightarrow> tclass_type \<Rightarrow> nat \<Rightarrow> nat" where
  \<comment> \<open>\<open>offset\<close>: data packets are stored behind their length\<close>
  "length_prefix st tclass pktIdx = (if pktIdx < unat (tc_k (tclasses st tclass)) then 2 else 0)"

definition store_packet :: "tclass_type \<Rightarrow> int \<Rightarrow> nat \<Rightarrow> nat \<Rightarrow> u16 \<Rightarrow> bytes \<Rightarrow> booster \<Rightarrow> booster" where
  \<comment> \<open>what an insertion does to its slot\<close>
  "store_packet tclass port blockId pktIdx pktSize packet st =
     (let tcb = buffers (tclasses st tclass) (nat port);
          buff = pkt_at tclass (nat port) blockId pktIdx;
          m = memory (rse st);
          offset = length_prefix st tclass pktIdx;
          m1 = (if offset = 0 then m else m(buff := store16 (m buff) 0 (htons pktSize)));
          m2 = m1(buff := memcpy (m1 buff) offset packet (unat pktSize));
          tcb1 = tcb\<lparr>status := (status tcb)(blockId := (status tcb blockId)(pktIdx := PACKET_PRESENT))\<rparr>;
          tcb2 = tcb1\<lparr>pkt_sz := (pkt_sz tcb1)(blockId := (pkt_sz tcb1 blockId)(pktIdx := unat pktSize + offset))\<rparr>
      in set_buffer tclass port tcb2 (st\<lparr>rse := (rse st)\<lparr>memory := m2\<rparr>\<rparr>))"

definition slot_exists :: "tclass_type \<Rightarrow> nat \<Rightarrow> nat \<Rightarrow> bool" where
  "slot_exists tclass blockId pktIdx \<longleftrightarrow> unat tclass \<le> TCLASS_MAX \<and> blockId < NUM_BLOCKS \<and> pktIdx < TOTAL_NUM_PACKETS"

definition insert_into_pkt_buffer ::
    "tclass_type \<Rightarrow> int \<Rightarrow> nat \<Rightarrow> nat \<Rightarrow> u16 \<Rightarrow> bytes \<Rightarrow> booster \<Rightarrow> (booster \<times> int) option" where
  \<comment> \<open>\<open>None\<close> when there is no such slot or the packet does not fit into it\<close>
  "insert_into_pkt_buffer tclass port blockId pktIdx pktSize packet st =
     (if get_tclass_buffer st tclass port = None then Some (st, - 1)
      else if \<not> slot_exists tclass blockId pktIdx \<or> PKT_BUF_SZ < length_prefix st tclass pktIdx + unat pktSize then None
      else Some (store_packet tclass port blockId pktIdx pktSize packet st, 0))"

definition retrieve_from_pkt_buffer :: "booster \<Rightarrow> tclass_type \<Rightarrow> int \<Rightarrow> nat \<Rightarrow> nat \<Rightarrow> bytes \<times> u16 option" where
  \<comment> \<open>for a valid port; the size is written for data packets only\<close>
  "retrieve_from_pkt_buffer st tclass port blockId pktIdx =
     (let buff = memory (rse st) (pkt_at tclass (nat port) blockId pktIdx) in
      if pktIdx < unat (tc_k (tclasses st tclass)) then (ptr_add buff 2, Some (htons (load16 buff 0)))
      else (buff, None))"

definition pkt_already_inserted :: "booster \<Rightarrow> tclass_type \<Rightarrow> int \<Rightarrow> nat \<Rightarrow> nat \<Rightarrow> bool" where
  "pkt_already_inserted st tclass port blockId pktIdx =
     (status (the (get_tclass_buffer st tclass port)) blockId pktIdx \<noteq> PACKET_ABSENT)"

definition retrieve_encoded_packet :: "booster \<Rightarrow> tclass_type \<Rightarrow> nat \<Rightarrow> bytes \<times> nat" where
  "retrieve_encoded_packet st tclass i =
     (memory (rse st) (pdata (fbk (rse st) ! FB_INDEX) ! i), plen (fbk (rse st) ! FB_INDEX) ! i)"

definition get_fec_block_id :: "booster \<Rightarrow> tclass_type \<Rightarrow> int \<Rightarrow> u8" where
  "get_fec_block_id st tclass port = block_id (the (get_tclass_buffer st tclass port))"

definition get_fec_frame_idx :: "booster \<Rightarrow> tclass_type \<Rightarrow> int \<Rightarrow> u8" where
  "get_fec_frame_idx st tclass port = frame_idx (the (get_tclass_buffer st tclass port))"

definition pkt_recovered :: "booster \<Rightarrow> tclass_type \<Rightarrow> int \<Rightarrow> nat \<Rightarrow> nat \<Rightarrow> bool" where
  "pkt_recovered st tclass port blockId pktIdx =
     (status (the (get_tclass_buffer st tclass port)) blockId pktIdx = PACKET_RECOVERED)"

section \<open>Filling the FEC block\<close>

definition populate_data :: "(nat \<Rightarrow> addr) \<Rightarrow> tclass_buffer \<Rightarrow> nat \<Rightarrow> nat \<Rightarrow> fec_block \<times> nat \<Rightarrow> fec_block \<times> nat" where
  \<comment> \<open>one data packet; the second component is \<open>maxPacketLength\<close>\<close>
  "populate_data pkts tcb blockId i bm =
     (let (b, maxPacketLength) = bm;
          b1 = b\<lparr>pdata := (pdata b)[i := pkts i], cbi := (cbi b)[i := of_nat i]\<rparr>
      in if status tcb blockId i = PACKET_PRESENT then
           let payloadLength = pkt_sz tcb blockId i in
           (b1\<lparr>pstat := (pstat b1)[i := FEC_FLAG_KNOWN], plen := (plen b1)[i := payloadLength]\<rparr>,
            if payloadLength > maxPacketLength then payloadLength else maxPacketLength)
         else (b1\<lparr>pstat := (pstat b1)[i := FEC_FLAG_WANTED]\<rparr>, maxPacketLength))"

definition populate_parity :: "rse_h \<Rightarrow> (nat \<Rightarrow> addr) \<Rightarrow> tclass_buffer \<Rightarrow> nat \<Rightarrow> nat \<Rightarrow> fec_sym \<Rightarrow> bool \<Rightarrow> nat \<Rightarrow> fec_block \<Rightarrow> fec_block" where
  \<comment> \<open>one parity packet; \<open>k\<close> is the number of data packets, \<open>off\<close> the offset \<open>o\<close> of the class\<close>
  "populate_parity c pkts tcb blockId k off expectParity i b =
     (let y = k + i;
          b1 = b\<lparr>cbi := (cbi b)[y := of_nat (FEC_MAX_N c) - off - of_nat i - 1]\<rparr>
      in if expectParity then
           if status tcb blockId y = PACKET_PRESENT then
             let parity_sz = pkt_sz tcb blockId y;
                 b2 = b1\<lparr>pdata := (pdata b1)[y := pkts y], pstat := (pstat b1)[y := FEC_FLAG_KNOWN],
                         plen := (plen b1)[y := parity_sz]\<rparr>
             in if parity_sz > block_C b2 then b2\<lparr>block_C := parity_sz\<rparr> else b2
           else b1\<lparr>pstat := (pstat b1)[y := FEC_FLAG_IGNORE]\<rparr>
         else b1\<lparr>pdata := (pdata b1)[y := pkts y], pstat := (pstat b1)[y := FEC_FLAG_WANTED],
                 plen := (plen b1)[y := block_C b1]\<rparr>)"

definition populate_block :: "rse_h \<Rightarrow> (nat \<Rightarrow> addr) \<Rightarrow> tclass_buffer \<Rightarrow> nat \<Rightarrow> nat \<Rightarrow> nat \<Rightarrow> fec_sym \<Rightarrow> bool \<Rightarrow> fec_block \<Rightarrow> fec_block" where
  "populate_block c pkts tcb blockId k h off expectParity b =
     (let b0 = b\<lparr>block_N := k + h\<rparr> in
      if k > FEC_MAX_K then b0
      else
        let (b1, maxPacketLength) = for_loop 0 k (populate_data pkts tcb blockId) (b0, 0);
            b2 = b1\<lparr>block_C := maxPacketLength + FEC_EXTRA_COLS c\<rparr>
        in if h > FEC_MAX_H then b2
           else for_loop 0 h (populate_parity c pkts tcb blockId k off expectParity) b2)"

definition populate_fec_blk :: "rse_h \<Rightarrow> tclass_type \<Rightarrow> int \<Rightarrow> nat \<Rightarrow> bool \<Rightarrow> booster \<Rightarrow> booster" where
  "populate_fec_blk c tclass port blockId expectParity st =
     (let tc = tclasses st tclass; g = rse st;
          b = populate_block c (pkt_at tclass (nat port) blockId) (buffers tc (nat port)) blockId
                (unat (tc_k tc)) (unat (tc_h tc)) (tc_o tc) expectParity (fbk g ! FB_INDEX)
      in st\<lparr>rse := g\<lparr>fbk := (fbk g)[FB_INDEX := b]\<rparr>\<rparr>)"

definition populate_fec_blk_data :: "rse_h \<Rightarrow> tclass_type \<Rightarrow> int \<Rightarrow> nat \<Rightarrow> booster \<Rightarrow> booster" where
  "populate_fec_blk_data c tclass port blockId st = populate_fec_blk c tclass port blockId False st"

definition populate_fec_blk_data_and_parity :: "rse_h \<Rightarrow> tclass_type \<Rightarrow> int \<Rightarrow> nat \<Rightarrow> booster \<Rightarrow> booster" where
  "populate_fec_blk_data_and_parity c tclass port blockId st = populate_fec_blk c tclass port blockId True st"

section \<open>Block and frame counters\<close>

definition advance_packet_idx :: "tclass_type \<Rightarrow> int \<Rightarrow> booster \<Rightarrow> (booster \<times> u8) option" where
  \<comment> \<open>\<open>None\<close> for the division by zero of a class without data packets\<close>
  "advance_packet_idx tclass port st =
     (let tcb = the (get_tclass_buffer st tclass port); k = tc_k (tclasses st tclass) in
      if k = 0 then None
      else
        let tcb1 = tcb\<lparr>frame_idx := of_nat ((unat (frame_idx tcb) + 1) mod unat k)\<rparr>;
            tcb2 = (if frame_idx tcb1 = 0 then tcb1\<lparr>block_id := of_nat ((unat (block_id tcb1) + 1) mod MAX_BLOCK)\<rparr> else tcb1)
        in Some (set_buffer tclass port tcb2 st, frame_idx tcb2))"

definition advance_block_id :: "tclass_type \<Rightarrow> int \<Rightarrow> booster \<Rightarrow> booster \<times> u8" where
  "advance_block_id tclass port st =
     (let tcb = the (get_tclass_buffer st tclass port);
          tcb1 = tcb\<lparr>block_id := of_nat ((unat (block_id tcb) + 1) mod MAX_BLOCK), frame_idx := 0\<rparr>
      in (set_buffer tclass port tcb1 st, block_id tcb1))"

section \<open>Encapsulation\<close>

definition put_class_id :: "bytes \<Rightarrow> nat \<Rightarrow> u8 \<Rightarrow> bytes" where
  \<comment> \<open>\<open>tag->class_id = v\<close> for a tag at offset \<open>i\<close>\<close>
  "put_class_id p i v = p(i := (p i AND 0x1F) OR push_bit 5 (v AND 7))"

definition put_block_id :: "bytes \<Rightarrow> nat \<Rightarrow> u8 \<Rightarrow> bytes" where
  "put_block_id p i v = p(i := (p i AND 0xE0) OR (v AND 0x1F))"

definition get_fec_header :: "bytes \<Rightarrow> nat \<Rightarrow> fec_header" where
  "get_fec_header p i = \<lparr>hdr_block_id = p i AND 0x1F, hdr_class_id = drop_bit 5 (p i), hdr_index = p (i + 1),
     hdr_orig_ethertype = load16 p (i + 2), hdr_packet_len = load16 p (i + 4)\<rparr>"

definition put_tag :: "bytes \<Rightarrow> tclass_type \<Rightarrow> nat \<Rightarrow> nat \<Rightarrow> bytes" where
  \<comment> \<open>class, block and index of the tag after the Ethernet header\<close>
  "put_tag p tclass blk frame_index =
     (let p1 = put_class_id p SIZE_ETHERNET (ucast tclass); p2 = put_block_id p1 SIZE_ETHERNET (of_nat blk)
      in p2(SIZE_ETHERNET + 1 := of_nat frame_index))"

definition wharf_tag_parity :: "tclass_type \<Rightarrow> nat \<Rightarrow> nat \<Rightarrow> bytes \<Rightarrow> nat \<Rightarrow> bytes \<Rightarrow> nat \<Rightarrow> bytes \<times> nat \<times> int" where
  "wharf_tag_parity tclass blk frame_index packet size_in out size_out =
     (if size_in \<ge> FRAME_SIZE_CUTOFF then (out, size_out, - 1)
      else if size_out < size_in + WHARF_TAG_SIZE then (out, size_out, - 1)
      else
        let o1 = store16 out 12 (htons WHARF_ETHERTYPE);
            o2 = put_tag o1 tclass blk frame_index;
            o3 = store16 o2 (SIZE_ETHERNET + 2) (htons WHARF_ETHERTYPE);
            o4 = store16 o3 (SIZE_ETHERNET + 4) (of_nat (size_in + WHARF_TAG_SIZE));
            o5 = memcpy o4 WHARF_TAG_SIZE packet size_in
        in (o5, size_in + WHARF_TAG_SIZE, 0))"

definition wharf_tag_data :: "tclass_type \<Rightarrow> nat \<Rightarrow> nat \<Rightarrow> bytes option \<Rightarrow> nat \<Rightarrow> bytes \<Rightarrow> nat \<Rightarrow> bytes \<times> nat \<times> int" where
  \<comment> \<open>a null packet is \<open>None\<close>\<close>
  "wharf_tag_data tclass blk frame_index packet size_in out size_out =
     (if size_in \<ge> FRAME_SIZE_CUTOFF then (out, size_out, - 1)
      else
        let new_size = (if packet = None then WHARF_TAG_SIZE else size_in + SIZE_FEC) in
        if size_out < new_size then (out, size_out, - 1)
        else
          let o1 = (case packet of
                      None \<Rightarrow> out
                    | Some p \<Rightarrow> store16 (memcpy out 0 p SIZE_ETHERNET) (SIZE_ETHERNET + 2) (load16 p 12));
              o2 = store16 o1 12 (htons WHARF_ETHERTYPE);
              o3 = put_tag o2 tclass blk frame_index;
              o4 = store16 o3 (SIZE_ETHERNET + 4) (of_nat size_in);
              o5 = (if size_in > 0
                    then memcpy o4 WHARF_TAG_SIZE (ptr_add (the packet) SIZE_ETHERNET) (unat (of_nat size_in - of_nat SIZE_ETHERNET :: u64))
                    else o4)
          in (o5, new_size, 0))"

definition wharf_strip_frame :: "booster \<Rightarrow> bytes \<Rightarrow> (bytes \<times> nat \<times> nat) option" where
  \<comment> \<open>the modified packet, the offset of the returned pointer in it, and the size; \<open>None\<close> is the null pointer\<close>
  "wharf_strip_frame st packet =
     (if htons WHARF_ETHERTYPE \<noteq> load16 packet 12 then None
      else
        let fec_hdr = get_fec_header packet SIZE_ETHERNET; size = unat (hdr_packet_len fec_hdr) in
        if size = SIZE_ETHERNET then Some (packet, SIZE_FEC + SIZE_ETHERNET, 0)
        else if hdr_index fec_hdr < tc_k (tclasses st (ucast (hdr_class_id fec_hdr)))
        then Some (store16 (memcpy packet SIZE_FEC packet SIZE_ETHERNET) (SIZE_FEC + 12) (hdr_orig_ethertype fec_hdr), SIZE_FEC, size)
        else Some (packet, SIZE_FEC + SIZE_ETHERNET, size))"

section \<open>Readiness for decoding\<close>

definition n_missing_data :: "tclass_buffer \<Rightarrow> nat \<Rightarrow> nat \<Rightarrow> nat" where
  "n_missing_data tcb blockId k = for_loop 0 k (\<lambda>i n. if status tcb blockId i = PACKET_ABSENT then n + 1 else n) 0"

definition n_present_parity :: "tclass_buffer \<Rightarrow> nat \<Rightarrow> nat \<Rightarrow> nat \<Rightarrow> nat" where
  "n_present_parity tcb blockId k h = for_loop k (k + h) (\<lambda>i n. if status tcb blockId i = PACKET_PRESENT then n + 1 else n) 0"

definition can_decode :: "booster \<Rightarrow> tclass_type \<Rightarrow> int \<Rightarrow> nat \<Rightarrow> bool" where
  "can_decode st tclass port blockId =
     (let tcb = the (get_tclass_buffer st tclass port); tc = tclasses st tclass in
      n_missing_data tcb blockId (unat (tc_k tc)) \<le> n_present_parity tcb blockId (unat (tc_k tc)) (unat (tc_h tc)))"

end
