(* ===== verification/Fec_Group.thy ===== *)
theory Fec_Group
  imports Fec_Booster
begin

text \<open>
  The packet buffers of \<^verbatim>\<open>fecBooster.c\<close> hold groups of packets: what inserting and retrieving do to a
  slot, which FEC block \<^verbatim>\<open>populate_fec_blk\<close> makes of a block of slots, that encoding fills the
  parity slots with the parity of the data slots, and that decoding fills the
  missing data slots.
\<close>

section \<open>Slots\<close>

definition valid_port :: "int \<Rightarrow> bool" where
  "valid_port port \<longleftrightarrow> 0 \<le> port \<and> port \<le> int MAX_PORT"

definition slot_status :: "booster \<Rightarrow> tclass_type \<Rightarrow> int \<Rightarrow> nat \<Rightarrow> nat \<Rightarrow> pkt_buffer_status" where
  "slot_status st cls port blk i = status (buffers (tclasses st cls) (nat port)) blk i"

definition slot_size :: "booster \<Rightarrow> tclass_type \<Rightarrow> int \<Rightarrow> nat \<Rightarrow> nat \<Rightarrow> nat" where
  "slot_size st cls port blk i = pkt_sz (buffers (tclasses st cls) (nat port)) blk i"

definition slot_mem :: "booster \<Rightarrow> tclass_type \<Rightarrow> int \<Rightarrow> nat \<Rightarrow> nat \<Rightarrow> bytes" where
  "slot_mem st cls port blk i = memory (rse st) (pkt_at cls (nat port) blk i)"

lemmas slot_defs = slot_status_def slot_size_def slot_mem_def

definition in_range :: "int \<Rightarrow> nat \<Rightarrow> nat \<Rightarrow> bool" where
  "in_range port blk i \<longleftrightarrow> valid_port port \<and> blk < NUM_BLOCKS \<and> i < TOTAL_NUM_PACKETS"

lemma get_tclass_buffer_valid [simp]:
  "valid_port port \<Longrightarrow> get_tclass_buffer st cls port = Some (buffers (tclasses st cls) (nat port))"
  by (simp add: get_tclass_buffer_def valid_port_def)

lemma valid_default_port [simp]: "valid_port DEFAULT_PORT"
  by (simp add: valid_port_def DEFAULT_PORT_def)

lemma pkt_at_eq_iff:
  assumes "in_range port blk i" and "in_range port' blk' i'"
  shows "pkt_at cls (nat port) blk i = pkt_at cls' (nat port') blk' i' \<longleftrightarrow> cls = cls' \<and> port = port' \<and> blk = blk' \<and> i = i'"
proof -
  have r: "nat port < MAX_PORT + 1" "nat port' < MAX_PORT + 1" "blk < NUM_BLOCKS" "blk' < NUM_BLOCKS"
    "i < TOTAL_NUM_PACKETS" "i' < TOTAL_NUM_PACKETS" and p: "nat port = nat port' \<longleftrightarrow> port = port'"
    using assms by (auto simp: in_range_def valid_port_def)
  show ?thesis
    unfolding pkt_at_def
    by (simp add: row_index_eq_iff [OF r(5,6)] row_index_eq_iff [OF r(3,4)] row_index_eq_iff [OF r(1,2), simplified] p)
qed

lemma pkt_at_less: "in_range port blk i \<Longrightarrow> pkt_at cls (nat port) blk i \<noteq> 0"
  by (simp add: pkt_at_def)

lemma set_buffer_slots [simp]:
  "rse (set_buffer cls port tcb st) = rse st"
  "tc_k (tclasses (set_buffer cls port tcb st) c') = tc_k (tclasses st c')"
  "tc_h (tclasses (set_buffer cls port tcb st) c') = tc_h (tclasses st c')"
  "tc_o (tclasses (set_buffer cls port tcb st) c') = tc_o (tclasses st c')"
  "buffers (tclasses (set_buffer cls port tcb st) cls) (nat port) = tcb"
  "c' \<noteq> cls \<or> nat p' \<noteq> nat port \<Longrightarrow> buffers (tclasses (set_buffer cls port tcb st) c') (nat p') = buffers (tclasses st c') (nat p')"
  by (auto simp: set_buffer_def)

section \<open>Inserting and retrieving\<close>

definition slot_holds :: "booster \<Rightarrow> tclass_type \<Rightarrow> int \<Rightarrow> nat \<Rightarrow> nat \<Rightarrow> u8 list \<Rightarrow> bool" where
  "slot_holds st cls port blk i xs \<longleftrightarrow> slot_status st cls port blk i = PACKET_PRESENT \<and>
     slot_size st cls port blk i = length xs \<and> (\<forall>j<length xs. slot_mem st cls port blk i j = xs ! j)"

definition prefixed :: "u8 list \<Rightarrow> u8 list" where
  \<comment> \<open>a data packet as it is stored: its size, most significant byte first, and its bytes\<close>
  "prefixed p = ucast (drop_bit 8 (of_nat (length p) :: u16)) # ucast (of_nat (length p) :: u16) # p"

lemma length_prefixed [simp]: "length (prefixed p) = length p + 2"
  by (simp add: prefixed_def)

lemma htons_bytes: "ucast (htons v) = (ucast (drop_bit 8 v) :: u8)" "ucast (drop_bit 8 (htons v)) = (ucast v :: u8)"
  by (rule bit_word_eqI; auto simp: htons_def bit_unsigned_iff bit_or_iff bit_push_bit_iff bit_drop_bit_eq dest: bit_imp_le_length)+

lemma frame_of_nth [simp]: "length (frame_of p n) = n" "j < n \<Longrightarrow> frame_of p n ! j = p j"
  by (simp_all add: frame_of_def)

lemma insert_fits:
  assumes "valid_port port" and "slot_exists cls blk i" and "length_prefix st cls i + unat n \<le> PKT_BUF_SZ"
  shows "insert_into_pkt_buffer cls port blk i n p st = Some (store_packet cls port blk i n p st, 0)"
  using assms by (simp add: insert_into_pkt_buffer_def)

lemma store_holds:
  assumes "valid_port port"
  shows "slot_holds (store_packet cls port blk i n p st) cls port blk i
      (if i < unat (tc_k (tclasses st cls)) then prefixed (frame_of p (unat n)) else frame_of p (unat n))"
proof (cases "i < unat (tc_k (tclasses st cls))")
  case True
  have "(memcpy (store16 m 0 (htons n)) 2 p (unat n)) j = prefixed (frame_of p (unat n)) ! j" if "j < unat n + 2" for m j
    using that by (auto simp: memcpy_def store16_def prefixed_def htons_bytes nth_Cons' numeral_2_eq_2)
  then show ?thesis
    using assms True by (simp add: store_packet_def length_prefix_def Let_def slot_holds_def slot_defs)
next
  case False
  then show ?thesis
    using assms by (simp add: store_packet_def length_prefix_def Let_def slot_holds_def slot_defs memcpy_def)
qed

lemma store_frame:
  assumes "in_range port blk i" and "in_range port' blk' i'" and "\<not> (cls' = cls \<and> port' = port \<and> blk' = blk \<and> i' = i)"
  shows "slot_status (store_packet cls port blk i n p st) cls' port' blk' i' = slot_status st cls' port' blk' i'"
    and "slot_size (store_packet cls port blk i n p st) cls' port' blk' i' = slot_size st cls' port' blk' i'"
    and "slot_mem (store_packet cls port blk i n p st) cls' port' blk' i' = slot_mem st cls' port' blk' i'"
proof -
  have v: "valid_port port" using assms(1) by (simp add: in_range_def)
  have a: "pkt_at cls' (nat port') blk' i' \<noteq> pkt_at cls (nat port) blk i"
    using pkt_at_eq_iff [OF assms(2,1), of cls' cls] assms(3) by simp
  have np: "nat port' \<noteq> nat port" if "port' \<noteq> port" using assms(1,2) that by (auto simp: in_range_def valid_port_def)
  show "slot_mem (store_packet cls port blk i n p st) cls' port' blk' i' = slot_mem st cls' port' blk' i'"
    using a v by (simp add: store_packet_def length_prefix_def Let_def slot_defs)
  show "slot_status (store_packet cls port blk i n p st) cls' port' blk' i' = slot_status st cls' port' blk' i'"
    "slot_size (store_packet cls port blk i n p st) cls' port' blk' i' = slot_size st cls' port' blk' i'"
    using v assms(3) np by (cases "cls' = cls"; cases "port' = port"; auto simp: store_packet_def length_prefix_def Let_def split_beta slot_defs)+
qed

lemma store_params [simp]:
  "tc_k (tclasses (store_packet cls port blk i n p st) c') = tc_k (tclasses st c')"
  "tc_h (tclasses (store_packet cls port blk i n p st) c') = tc_h (tclasses st c')"
  "tc_o (tclasses (store_packet cls port blk i n p st) c') = tc_o (tclasses st c')"
  "fbk (rse (store_packet cls port blk i n p st)) = fbk (rse st)"
  "matrices_ok (rse (store_packet cls port blk i n p st)) = matrices_ok (rse st)"
  by (auto simp: store_packet_def length_prefix_def Let_def split_beta matrices_ok_def split: option.split)

lemma load16_bytes: "p 0 = ucast v \<Longrightarrow> p 1 = ucast (drop_bit 8 v) \<Longrightarrow> load16 p 0 = v"
  using load16_store16 [of p 0 v] by (simp add: load16_def store16_def)

lemma retrieve_prefixed:
  assumes "i < unat (tc_k (tclasses st cls))" and "length p < 65536"
    and m: "\<forall>j<length p + 2. slot_mem st cls port blk i j = prefixed p ! j"
  shows "snd (retrieve_from_pkt_buffer st cls port blk i) = Some (of_nat (length p))"
    and "frame_of (fst (retrieve_from_pkt_buffer st cls port blk i)) (length p) = p"
proof -
  let ?m = "slot_mem st cls port blk i"
  have "?m 0 = prefixed p ! 0" "?m 1 = prefixed p ! 1" using m by auto
  then have "load16 ?m 0 = htons (of_nat (length p))" by (intro load16_bytes) (simp_all add: prefixed_def htons_bytes)
  then show "snd (retrieve_from_pkt_buffer st cls port blk i) = Some (of_nat (length p))"
    using assms(1) by (simp add: retrieve_from_pkt_buffer_def Let_def slot_mem_def)
  have "?m (2 + j) = p ! j" if "j < length p" for j using m [rule_format, of "2 + j"] that by (simp add: prefixed_def)
  then show "frame_of (fst (retrieve_from_pkt_buffer st cls port blk i)) (length p) = p"
    using assms(1) by (intro nth_equalityI) (simp_all add: retrieve_from_pkt_buffer_def Let_def slot_mem_def ptr_add_def)
qed

section \<open>Filling the FEC block\<close>

definition data_filled :: "(nat \<Rightarrow> addr) \<Rightarrow> tclass_buffer \<Rightarrow> nat \<Rightarrow> nat \<Rightarrow> fec_block \<Rightarrow> nat \<Rightarrow> bool" where
  \<comment> \<open>the first \<open>n\<close> data packets are in the block, the longest present one has length \<open>m\<close>\<close>
  "data_filled pkts tcb blk n b m \<longleftrightarrow>
     (\<forall>i<n. pdata b ! i = pkts i \<and> cbi b ! i = of_nat i \<and>
        pstat b ! i = (if status tcb blk i = PACKET_PRESENT then FEC_FLAG_KNOWN else FEC_FLAG_WANTED) \<and>
        (status tcb blk i = PACKET_PRESENT \<longrightarrow> plen b ! i = pkt_sz tcb blk i \<and> pkt_sz tcb blk i \<le> m)) \<and>
     (m = 0 \<or> (\<exists>i<n. status tcb blk i = PACKET_PRESENT \<and> m = pkt_sz tcb blk i))"

lemma all_less_Suc: "(\<forall>i<Suc n. P i) \<longleftrightarrow> (\<forall>i<n. P i) \<and> P n" and ex_less_Suc: "(\<exists>i<Suc n. P i) \<longleftrightarrow> (\<exists>i<n. P i) \<or> P n"
  by (auto simp: less_Suc_eq)

lemma populate_data_loop:
  assumes "sized N b" and "n \<le> N"
  obtains b' m where "for_loop 0 n (populate_data pkts tcb blk) (b, 0) = (b', m)" and "sized N b'"
    and "block_N b' = block_N b" and "data_filled pkts tcb blk n b' m"
proof -
  have "\<exists>b' m. for_loop 0 n (populate_data pkts tcb blk) (b, 0) = (b', m) \<and> sized N b' \<and> block_N b' = block_N b \<and>
      data_filled pkts tcb blk n b' m"
    using assms(2)
  proof (induction n)
    case (Suc n)
    then obtain b' m where IH: "for_loop 0 n (populate_data pkts tcb blk) (b, 0) = (b', m)" "sized N b'" "block_N b' = block_N b"
      "data_filled pkts tcb blk n b' m" by auto
    obtain b'' m' where r: "populate_data pkts tcb blk n (b', m) = (b'', m')" by (cases "populate_data pkts tcb blk n (b', m)")
    have "sized N b''" "block_N b'' = block_N b" "data_filled pkts tcb blk (Suc n) b'' m'"
    proof -
      have len: "n < length (pdata b')" "n < length (cbi b')" "n < length (plen b')" "n < length (pstat b')"
        using IH(2) Suc.prems by (simp_all add: sized_def)
      have r': "b'' = fst (populate_data pkts tcb blk n (b', m))" "m' = snd (populate_data pkts tcb blk n (b', m))" using r by simp_all
      show "sized N b''" "block_N b'' = block_N b"
        using IH(2,3) unfolding r' by (cases "status tcb blk n = PACKET_PRESENT"; simp add: populate_data_def Let_def sized_def)+
      have old: "pdata b'' ! i = pdata b' ! i" "cbi b'' ! i = cbi b' ! i" "pstat b'' ! i = pstat b' ! i" "plen b'' ! i = plen b' ! i"
        if "i < n" for i
        using that unfolding r' by (cases "status tcb blk n = PACKET_PRESENT"; simp add: populate_data_def Let_def)+
      have new: "pdata b'' ! n = pkts n" "cbi b'' ! n = of_nat n"
        "pstat b'' ! n = (if status tcb blk n = PACKET_PRESENT then FEC_FLAG_KNOWN else FEC_FLAG_WANTED)"
        "status tcb blk n = PACKET_PRESENT \<Longrightarrow> plen b'' ! n = pkt_sz tcb blk n"
        "m' = (if status tcb blk n = PACKET_PRESENT then max m (pkt_sz tcb blk n) else m)"
        using len unfolding r' by (cases "status tcb blk n = PACKET_PRESENT"; simp add: populate_data_def Let_def max_def)+
      show "data_filled pkts tcb blk (Suc n) b'' m'"
        using IH(4) unfolding data_filled_def all_less_Suc ex_less_Suc
        by (simp add: old new(1-3)) (use new(4,5) in \<open>auto simp: max_def\<close>)
    qed
    then show ?case using IH(1) r by (simp add: for_loop_Suc)
  qed (use assms(1) in \<open>simp add: data_filled_def\<close>)
  then show thesis using that by blast
qed

definition parity_filled :: "rse_h \<Rightarrow> (nat \<Rightarrow> addr) \<Rightarrow> tclass_buffer \<Rightarrow> nat \<Rightarrow> nat \<Rightarrow> bool \<Rightarrow> nat \<Rightarrow> nat \<Rightarrow> fec_block \<Rightarrow> bool" where
  \<comment> \<open>the first \<open>n\<close> parities are in the block; \<open>C\<close> is the block size that the data packets give\<close>
  "parity_filled c pkts tcb blk k expect n C b \<longleftrightarrow>
     (\<forall>i<n. cbi b ! (k + i) = of_nat (FEC_MAX_N c) - of_nat i - 1 \<and>
        (if expect then
           if status tcb blk (k + i) = PACKET_PRESENT
           then pstat b ! (k + i) = FEC_FLAG_KNOWN \<and> pdata b ! (k + i) = pkts (k + i) \<and>
             plen b ! (k + i) = pkt_sz tcb blk (k + i) \<and> pkt_sz tcb blk (k + i) \<le> block_C b
           else pstat b ! (k + i) = FEC_FLAG_IGNORE
         else pstat b ! (k + i) = FEC_FLAG_WANTED \<and> pdata b ! (k + i) = pkts (k + i) \<and> plen b ! (k + i) = C)) \<and>
     C \<le> block_C b \<and>
     (block_C b = C \<or> expect \<and> (\<exists>i<n. status tcb blk (k + i) = PACKET_PRESENT \<and> block_C b = pkt_sz tcb blk (k + i)))"

lemma populate_parity_loop:
  assumes "sized N b" and "k + n \<le> N" and "block_C b = C" and d: "data_filled pkts tcb blk k b m"
  shows "let b' = for_loop 0 n (populate_parity c pkts tcb blk k 0 expect) b in
    sized N b' \<and> block_N b' = block_N b \<and> data_filled pkts tcb blk k b' m \<and> parity_filled c pkts tcb blk k expect n C b'"
  using assms(2) unfolding Let_def
proof (induction n)
  case (Suc n)
  define bn where "bn = for_loop 0 n (populate_parity c pkts tcb blk k 0 expect) b"
  have IH: "sized N bn" "block_N bn = block_N b" "data_filled pkts tcb blk k bn m" "parity_filled c pkts tcb blk k expect n C bn"
    using Suc by (simp_all add: bn_def)
  define b2 where "b2 = populate_parity c pkts tcb blk k 0 expect n bn"
  have s: "sized N b2 \<and> block_N b2 = block_N b"
    using IH(1,2) by (simp add: b2_def populate_parity_def Let_def sized_def)
  have keep: "pdata b2 ! i = pdata bn ! i" "cbi b2 ! i = cbi bn ! i" "pstat b2 ! i = pstat bn ! i" "plen b2 ! i = plen bn ! i"
    if "i \<noteq> k + n" for i using that by (simp_all add: b2_def populate_parity_def Let_def)
  have df: "data_filled pkts tcb blk k b2 m" using IH(3) by (simp add: data_filled_def keep)
  have C: "block_C b2 = (if expect \<and> status tcb blk (k + n) = PACKET_PRESENT \<and> block_C bn < pkt_sz tcb blk (k + n)
      then pkt_sz tcb blk (k + n) else block_C bn)" by (simp add: b2_def populate_parity_def Let_def)
  have len: "k + n < length (pdata bn)" "k + n < length (cbi bn)" "k + n < length (pstat bn)" "k + n < length (plen bn)"
    using IH(1) Suc.prems by (simp_all add: sized_def)
  have new: "cbi b2 ! (k + n) = of_nat (FEC_MAX_N c) - of_nat n - 1 \<and>
        (if expect then
           if status tcb blk (k + n) = PACKET_PRESENT
           then pstat b2 ! (k + n) = FEC_FLAG_KNOWN \<and> pdata b2 ! (k + n) = pkts (k + n) \<and>
             plen b2 ! (k + n) = pkt_sz tcb blk (k + n) \<and> pkt_sz tcb blk (k + n) \<le> block_C b2
           else pstat b2 ! (k + n) = FEC_FLAG_IGNORE
         else pstat b2 ! (k + n) = FEC_FLAG_WANTED \<and> pdata b2 ! (k + n) = pkts (k + n) \<and> plen b2 ! (k + n) = block_C bn)"
    using len by (simp add: b2_def populate_parity_def Let_def)
  have "\<not> expect \<Longrightarrow> block_C bn = C" using IH(4) by (simp add: parity_filled_def)
  then have "parity_filled c pkts tcb blk k expect (Suc n) C b2"
    using IH(4) new C unfolding parity_filled_def by (auto simp: less_Suc_eq keep intro: le_trans)
  then show ?case using s df by (simp add: for_loop_Suc b2_def bn_def)
qed (use assms in \<open>simp add: parity_filled_def\<close>)

lemma populate_block_filled:
  assumes "sized N b" and "k + h \<le> N" and "k \<le> FEC_MAX_K" and "h \<le> FEC_MAX_H"
  obtains b' m where "populate_block c pkts tcb blk k h 0 expect b = b'" and "sized N b'" and "block_N b' = k + h"
    and "data_filled pkts tcb blk k b' m" and "parity_filled c pkts tcb blk k expect h (m + FEC_EXTRA_COLS c) b'"
proof -
  have "sized N (b\<lparr>block_N := k + h\<rparr>)" "k \<le> N" using assms(1,2) by (simp_all add: sized_def)
  then obtain b1 m where 1: "for_loop 0 k (populate_data pkts tcb blk) (b\<lparr>block_N := k + h\<rparr>, 0) = (b1, m)" "sized N b1"
    "block_N b1 = block_N (b\<lparr>block_N := k + h\<rparr>)" "data_filled pkts tcb blk k b1 m" by (rule populate_data_loop)
  define b2 where "b2 = b1\<lparr>block_C := m + FEC_EXTRA_COLS c\<rparr>"
  have "sized N b2" "data_filled pkts tcb blk k b2 m" "block_N b2 = k + h" using 1 by (simp_all add: b2_def sized_def data_filled_def)
  note loop = populate_parity_loop [OF this(1) assms(2) _ this(2), of "m + FEC_EXTRA_COLS c" c expect]
  have "populate_block c pkts tcb blk k h 0 expect b = for_loop 0 h (populate_parity c pkts tcb blk k 0 expect) b2"
    using assms(3,4) 1(1) by (simp add: populate_block_def Let_def b2_def)
  then show thesis
    by (rule that [where m = m]) (use loop \<open>block_N b2 = k + h\<close> in \<open>simp_all add: b2_def Let_def\<close>)
qed

lemma parity_filledD:
  assumes "parity_filled c pkts tcb blk k expect n C b" and "j < n"
  shows "cbi b ! (k + j) = of_nat (FEC_MAX_N c) - of_nat j - 1"
    and "expect \<Longrightarrow> status tcb blk (k + j) = PACKET_PRESENT \<Longrightarrow> pstat b ! (k + j) = FEC_FLAG_KNOWN \<and>
      pdata b ! (k + j) = pkts (k + j) \<and> plen b ! (k + j) = pkt_sz tcb blk (k + j) \<and> pkt_sz tcb blk (k + j) \<le> block_C b"
    and "expect \<Longrightarrow> status tcb blk (k + j) \<noteq> PACKET_PRESENT \<Longrightarrow> pstat b ! (k + j) = FEC_FLAG_IGNORE"
    and "\<not> expect \<Longrightarrow> pstat b ! (k + j) = FEC_FLAG_WANTED \<and> pdata b ! (k + j) = pkts (k + j) \<and> plen b ! (k + j) = C"
  using assms by (simp_all add: parity_filled_def)

lemma data_filledD:
  assumes "data_filled pkts tcb blk k b m" and "i < k"
  shows "pdata b ! i = pkts i" and "cbi b ! i = of_nat i"
    and "pstat b ! i = (if status tcb blk i = PACKET_PRESENT then FEC_FLAG_KNOWN else FEC_FLAG_WANTED)"
    and "status tcb blk i = PACKET_PRESENT \<Longrightarrow> plen b ! i = pkt_sz tcb blk i \<and> pkt_sz tcb blk i \<le> m"
  using assms by (simp_all add: data_filled_def)

section \<open>The block is ready for the coder\<close>

lemma group_indices:
  assumes N: "group_fits c" and kh: "k \<le> FEC_MAX_K" "h \<le> FEC_MAX_H" and b: "block_N b = k + h"
    and d: "\<And>i. i < k \<Longrightarrow> cbi b ! i = of_nat i" and p: "\<And>j. j < h \<Longrightarrow> cbi b ! (k + j) = of_nat (FEC_MAX_N c) - of_nat j - 1"
  shows "i < k \<Longrightarrow> unat (cbi b ! i) = i" and "j < h \<Longrightarrow> unat (cbi b ! (k + j)) = FEC_MAX_N c - 1 - j"
    and "q < k + h \<Longrightarrow> data_index b q \<longleftrightarrow> q < k" and "j < h \<Longrightarrow> parity_row c b (k + j) = j" and "indices_ok c b"
proof -
  have NN: "FEC_MAX_K + FEC_MAX_H \<le> FEC_MAX_N c" "FEC_MAX_N c \<le> 255" "FEC_MAX_K = 50"
    using N by (auto simp: group_fits_def FEC_MAX_K_def)
  show dat: "unat (cbi b ! i) = i" if "i < k" for i using d that kh NN by (simp add: unat_of_nat_u8)
  show par: "unat (cbi b ! (k + j)) = FEC_MAX_N c - 1 - j" if "j < h" for j
  proof -
    have "cbi b ! (k + j) = of_nat (FEC_MAX_N c) - of_nat j - 1" by (rule p [OF that])
    also have "\<dots> = of_nat (FEC_MAX_N c - 1 - j)" using that kh NN by (simp add: of_nat_diff algebra_simps)
    finally show ?thesis using NN by (simp only: unat_of_nat_u8)
  qed
  have cases: "(q < k \<and> unat (cbi b ! q) = q) \<or> (\<exists>j<h. q = k + j \<and> unat (cbi b ! q) = FEC_MAX_N c - 1 - j)" if "q < k + h" for q
  proof (cases "q < k")
    case False
    then obtain j where "q = k + j" using le_Suc_ex [of k q] by auto
    then show ?thesis using par [of j] that by auto
  qed (use dat in simp)
  show "data_index b q \<longleftrightarrow> q < k" if "q < k + h" for q
    using cases [OF that] kh NN by (auto simp: data_index_def)
  show "parity_row c b (k + j) = j" if "j < h" for j
    using parity_row_eq [of c b "k + j"] par [OF that] that kh NN by auto
  have "distinct (take (k + h) (cbi b))"
  proof (rule distinct_conv_nth [THEN iffD2], intro allI impI)
    fix q q' assume q: "q < length (take (k + h) (cbi b))" "q' < length (take (k + h) (cbi b))" "q \<noteq> q'"
    then have lt: "q < k + h" "q' < k + h" by simp_all
    have "unat (cbi b ! q) \<noteq> unat (cbi b ! q')" using cases [OF lt(1)] cases [OF lt(2)] q(3) kh NN by auto
    then show "take (k + h) (cbi b) ! q \<noteq> take (k + h) (cbi b) ! q'" using lt by auto
  qed
  moreover have "unat (cbi b ! q) < FEC_MAX_K \<or> FEC_MAX_N c - FEC_MAX_H \<le> unat (cbi b ! q) \<and> unat (cbi b ! q) < FEC_MAX_N c"
    if "q < k + h" for q using cases [OF that] kh NN by auto
  ultimately show "indices_ok c b" using b by (simp add: indices_ok_def)
qed

lemma filled_indices:
  assumes N: "group_fits c" and kh: "k \<le> FEC_MAX_K" "h \<le> FEC_MAX_H" and b: "sized (FEC_MAX_N c) b" "block_N b = k + h"
    and d: "data_filled pkts tcb blk k b m" and p: "parity_filled c pkts tcb blk k expect h C b"
  shows "i < k \<Longrightarrow> unat (cbi b ! i) = i" and "j < h \<Longrightarrow> unat (cbi b ! (k + j)) = FEC_MAX_N c - 1 - j"
    and "q < k + h \<Longrightarrow> data_index b q \<longleftrightarrow> q < k" and "j < h \<Longrightarrow> parity_row c b (k + j) = j" and "indices_ok c b"
proof -
  have "\<And>i. i < k \<Longrightarrow> cbi b ! i = of_nat i" "\<And>j. j < h \<Longrightarrow> cbi b ! (k + j) = of_nat (FEC_MAX_N c) - of_nat j - 1"
    using d p by (simp_all add: data_filled_def parity_filled_def)
  note g = group_indices [OF N kh b(2) this]
  show "i < k \<Longrightarrow> unat (cbi b ! i) = i" "j < h \<Longrightarrow> unat (cbi b ! (k + j)) = FEC_MAX_N c - 1 - j"
    "q < k + h \<Longrightarrow> data_index b q \<longleftrightarrow> q < k" "j < h \<Longrightarrow> parity_row c b (k + j) = j" "indices_ok c b" by (simp_all add: g)
qed

lemma filled_ready:
  assumes N: "group_fits c" and kh: "0 < k" "k \<le> FEC_MAX_K" "h \<le> FEC_MAX_H" and b: "sized (FEC_MAX_N c) b" "block_N b = k + h"
    and d: "data_filled pkts tcb blk k b m" and p: "parity_filled c pkts tcb blk k expect h (m + FEC_EXTRA_COLS c) b"
    and E: "0 < FEC_EXTRA_COLS c" and C: "block_C b \<le> FEC_MAX_COLS c"
    and inj: "\<And>i j. i < k + h \<Longrightarrow> j < k + h \<Longrightarrow> pkts i = pkts j \<Longrightarrow> i = j"
  shows "block_ready c b"
proof -
  have P: "pdata b ! q = pkts q" if "q < k + h" "pstat b ! q = FEC_FLAG_WANTED \<or> is_known b q" for q
  proof (cases "q < k")
    case False
    then obtain j where "q = k + j" using le_Suc_ex [of k q] by auto
    moreover from this have "j < h" using that(1) by simp
    ultimately show ?thesis
      using parity_filledD(2-4) [OF p, of j] that(2) by (cases expect; cases "status tcb blk (k + j) = PACKET_PRESENT") (simp_all add: is_known_def)
  qed (use d in \<open>simp add: data_filled_def\<close>)
  have "buffers_ok b"
    unfolding buffers_ok_def b(2)
  proof (intro allI impI)
    fix q q' assume q: "q < k + h" "q' < k + h" "pstat b ! q = FEC_FLAG_WANTED"
      "pstat b ! q' = FEC_FLAG_WANTED \<or> is_known b q'" "pdata b ! q' = pdata b ! q"
    have "pkts q' = pkts q" using P [OF q(1)] P [OF q(2) q(4)] q(3,5) by simp
    then show "q' = q" by (rule inj [OF q(2,1)])
  qed
  moreover have "1 \<le> block_C b" using p E by (simp add: parity_filled_def)
  moreover have "k + h \<le> FEC_MAX_N c" using N kh by (simp add: group_fits_def)
  ultimately show ?thesis
    using filled_indices(5) [OF N kh(2,3) b d p] b C kh(1) by (simp add: block_ready_def)
qed

lemma index_beyond: "q < k + h \<Longrightarrow> \<not> q < k \<Longrightarrow> \<exists>j<h. q = k + j" for q k h :: nat
  by (rule exI [of _ "q - k"]) simp

lemma filter_upt_split: "filter P [0..<k + h] = filter P [0..<k] @ map ((+) k) (filter (\<lambda>j. P (k + j)) [0..<h])"
proof -
  have "map ((+) k) [0..<h] = [k..<k + h]" by (rule nth_equalityI) simp_all
  then have "[0..<k + h] = [0..<k] @ map ((+) k) [0..<h]" by (simp add: upt_add_eq_append [of 0 k h])
  then show ?thesis by (simp add: filter_map comp_def)
qed

end
