(* ===== verification/Wharf_Api.thy ===== *)
theory Wharf_Api
  imports Fec_Booster
begin

text \<open>
  The control interface of the erasure booster, \<^verbatim>\<open>cpuBoosters/fecBoosters/fecBoosterApi.c\<close>: the table of
  traffic classes, the table of rules that map a port and a protocol to a class, the
  command language that fills them, and the classification of packets.

  The table of classes has \<^verbatim>\<open>TCLASS_MAX\<close> entries, but the guards of the code admit the
  index \<^verbatim>\<open>TCLASS_MAX\<close> and negative numbers. An access there leaves the behaviour that C defines: the operation
  has no result, \<open>None\<close>. Nor has a command that passes a null pointer to the C library. Logging is left out, with the reads it
  makes: they are at indices that the operation itself reads, or in range.
\<close>

section \<open>Data\<close>

definition TCLASS_NULL :: tclass_type where "TCLASS_NULL = 0xFF"
definition MAX_RULES :: nat where "MAX_RULES = 16"

record tclass_params =
  tp_k :: fec_sym
  tp_h :: fec_sym
  tp_t :: int
  tp_active :: bool

record rule_entry =
  re_port :: u16
  re_is_tcp :: bool
  re_tclass :: tclass_type
  re_active :: bool

record wharf =
  wharf_enabled :: bool
  default_tclass :: tclass_type
  wrules :: "rule_entry list"
  wclasses :: "tclass_params list"
  fec :: booster

definition no_params :: tclass_params where
  "no_params = \<lparr>tp_k = 0, tp_h = 0, tp_t = 0, tp_active = False\<rparr>"

definition no_rule :: rule_entry where
  "no_rule = \<lparr>re_port = 0, re_is_tcp = False, re_tclass = 0, re_active = False\<rparr>"

definition wharf_zero :: "rse_h \<Rightarrow> wharf" where
  "wharf_zero c = \<lparr>wharf_enabled = False, default_tclass = TCLASS_NULL, wrules = replicate MAX_RULES no_rule,
     wclasses = replicate TCLASS_MAX no_params, fec = booster_zero c\<rparr>"

definition in_table :: "wharf \<Rightarrow> int \<Rightarrow> bool" where
  "in_table w i \<longleftrightarrow> 0 \<le> i \<and> i < int (length (wclasses w))"

definition class_at :: "wharf \<Rightarrow> int \<Rightarrow> tclass_params option" where
  \<comment> \<open>\<open>tclasses[i]\<close>\<close>
  "class_at w i = (if in_table w i then Some (wclasses w ! nat i) else None)"

definition set_class_at :: "int \<Rightarrow> tclass_params \<Rightarrow> wharf \<Rightarrow> wharf option" where
  \<comment> \<open>\<open>tclasses[i] = p\<close>\<close>
  "set_class_at i p w = (if in_table w i then Some (w\<lparr>wclasses := (wclasses w)[nat i := p]\<rparr>) else None)"

section \<open>Traffic classes\<close>

definition valid_tclass :: "wharf \<Rightarrow> int \<Rightarrow> bool option" where
  "valid_tclass w tclassi =
     (if tclassi \<noteq> uint TCLASS_NULL \<and> tclassi > int TCLASS_MAX then Some False
      else if tclassi = uint TCLASS_NULL then Some True
      else map_option tp_active (class_at w tclassi))"

definition wharf_set_tclass :: "tclass_type \<Rightarrow> fec_sym \<Rightarrow> fec_sym \<Rightarrow> int \<Rightarrow> wharf \<Rightarrow> (wharf \<times> int) option" where
  \<comment> \<open>both branches of the test for an active class store the new parameters\<close>
  "wharf_set_tclass tclass k h t w =
     (if unat tclass > TCLASS_MAX then Some (w, - 1)
      else
        case set_class_at (uint tclass) \<lparr>tp_k = k, tp_h = h, tp_t = t, tp_active = True\<rparr> w of
          None \<Rightarrow> None
        | Some w1 \<Rightarrow> Some (w1\<lparr>fec := set_fec_params tclass k h (fec w1)\<rparr>, 0))"

definition wharf_delete_tclass :: "tclass_type \<Rightarrow> wharf \<Rightarrow> (wharf \<times> int) option" where
  "wharf_delete_tclass tclass w =
     (if unat tclass > TCLASS_MAX then Some (w, - 1)
      else
        case class_at w (uint tclass) of
          None \<Rightarrow> None
        | Some p \<Rightarrow> map_option (\<lambda>w1. (w1, 0)) (set_class_at (uint tclass) (p\<lparr>tp_active := False\<rparr>) w))"

definition wharf_get_k :: "wharf \<Rightarrow> tclass_type \<Rightarrow> fec_sym option" where
  "wharf_get_k w tclass =
     (if unat tclass > TCLASS_MAX then Some 0
      else map_option (\<lambda>p. if \<not> tp_active p then 0 else tp_k p) (class_at w (uint tclass)))"

definition wharf_get_t :: "wharf \<Rightarrow> tclass_type \<Rightarrow> int option" where
  "wharf_get_t w tclass =
     (if unat tclass > TCLASS_MAX then Some (- 1)
      else map_option (\<lambda>p. if \<not> tp_active p then - 1 else tp_t p) (class_at w (uint tclass)))"

definition wharf_query_tclass :: "wharf \<Rightarrow> tclass_type \<Rightarrow> (fec_sym \<times> fec_sym \<times> int) option option" where
  \<comment> \<open>\<open>Some None\<close> for the result -1, when nothing is assigned\<close>
  "wharf_query_tclass w tclass =
     (if unat tclass > TCLASS_MAX then Some None
      else map_option (\<lambda>p. if \<not> tp_active p then None else Some (tp_k p, tp_h p, tp_t p)) (class_at w (uint tclass)))"

definition wharf_set_enabled :: "bool \<Rightarrow> wharf \<Rightarrow> wharf" where
  "wharf_set_enabled is_enabled w = w\<lparr>wharf_enabled := is_enabled\<rparr>"

definition wharf_get_enabled :: "wharf \<Rightarrow> bool" where
  "wharf_get_enabled w = wharf_enabled w"

definition wharf_set_default_class :: "tclass_type \<Rightarrow> wharf \<Rightarrow> (wharf \<times> int) option" where
  "wharf_set_default_class tclass w =
     map_option (\<lambda>valid. if \<not> valid then (w, - 1) else (w\<lparr>default_tclass := tclass\<rparr>, 0)) (valid_tclass w (uint tclass))"

section \<open>Rules\<close>

definition rules_equal :: "rule_entry \<Rightarrow> rule_entry \<Rightarrow> bool" where
  "rules_equal r1 r2 \<longleftrightarrow> re_port r1 = re_port r2 \<and> re_is_tcp r1 = re_is_tcp r2"

fun set_rule_from :: "rule_entry \<Rightarrow> rule_entry list \<Rightarrow> rule_entry list option" where
  \<comment> \<open>the loop of \<open>wharf_set_rule\<close>; \<open>None\<close> when there is no room\<close>
  "set_rule_from new_rule [] = None"
| "set_rule_from new_rule (r # rs) =
     (if rules_equal r new_rule then Some (new_rule # rs)
      else if \<not> re_active r then Some (new_rule # rs)
      else map_option ((#) r) (set_rule_from new_rule rs))"

definition wharf_set_rule :: "tclass_type \<Rightarrow> u16 \<Rightarrow> bool \<Rightarrow> wharf \<Rightarrow> (wharf \<times> int) option" where
  "wharf_set_rule tclass port is_tcp w =
     map_option (\<lambda>valid.
       if \<not> valid then (w, - 1)
       else
         case set_rule_from \<lparr>re_port = port, re_is_tcp = is_tcp, re_tclass = tclass, re_active = True\<rparr> (wrules w) of
           None \<Rightarrow> (w, - 1)
         | Some rs \<Rightarrow> (w\<lparr>wrules := rs\<rparr>, 0)) (valid_tclass w (uint tclass))"

fun delete_rule_from :: "rule_entry \<Rightarrow> rule_entry list \<Rightarrow> rule_entry list option" where
  "delete_rule_from to_del [] = None"
| "delete_rule_from to_del (r # rs) =
     (if rules_equal r to_del \<and> re_active r \<and> re_tclass r = re_tclass to_del then Some (r\<lparr>re_active := False\<rparr> # rs)
      else map_option ((#) r) (delete_rule_from to_del rs))"

definition wharf_delete_rule :: "tclass_type \<Rightarrow> u16 \<Rightarrow> bool \<Rightarrow> wharf \<Rightarrow> wharf \<times> int" where
  "wharf_delete_rule tclass port is_tcp w =
     (case delete_rule_from \<lparr>re_port = port, re_is_tcp = is_tcp, re_tclass = tclass, re_active = False\<rparr> (wrules w) of
        None \<Rightarrow> (w, - 1)
      | Some rs \<Rightarrow> (w\<lparr>wrules := rs\<rparr>, 0))"

fun query_rule_from :: "tclass_type \<Rightarrow> rule_entry \<Rightarrow> rule_entry list \<Rightarrow> tclass_type" where
  "query_rule_from dflt query [] = dflt"
| "query_rule_from dflt query (r # rs) =
     (if rules_equal r query then if re_active r then re_tclass r else dflt
      else query_rule_from dflt query rs)"

definition wharf_query_rule :: "wharf \<Rightarrow> u16 \<Rightarrow> bool \<Rightarrow> tclass_type" where
  "wharf_query_rule w port is_tcp =
     (if \<not> wharf_enabled w then TCLASS_NULL
      else query_rule_from (default_tclass w) \<lparr>re_port = port, re_is_tcp = is_tcp, re_tclass = TCLASS_NULL, re_active = False\<rparr> (wrules w))"

section \<open>C strings\<close>

definition is_digit :: "char \<Rightarrow> bool" where
  "is_digit ch \<longleftrightarrow> 48 \<le> (of_char ch :: nat) \<and> (of_char ch :: nat) \<le> 57"

definition digits_value :: "string \<Rightarrow> int" where
  "digits_value ds = fold (\<lambda>ch n. 10 * n + (of_char ch - 48)) ds 0"

definition strtol10 :: "string \<Rightarrow> int" where
  \<comment> \<open>\<open>strtol(s, NULL, 10)\<close> with 64-bit results\<close>
  "strtol10 s =
     (let s1 = dropWhile is_space s;
          neg = (s1 \<noteq> [] \<and> hd s1 = CHR ''-'');
          s2 = (if s1 \<noteq> [] \<and> (hd s1 = CHR ''-'' \<or> hd s1 = CHR ''+'') then tl s1 else s1);
          n = digits_value (takeWhile is_digit s2)
      in max (- (2 ^ 63)) (min (2 ^ 63 - 1) (if neg then - n else n)))"

definition atoi :: "string \<Rightarrow> int" where
  "atoi s = signed_take_bit 31 (strtol10 s)"

definition strtok :: "string \<Rightarrow> string \<Rightarrow> string option \<times> string" where
  \<comment> \<open>the token, if any, and the string in which the next call goes on\<close>
  "strtok s delim =
     (let s1 = dropWhile (\<lambda>ch. ch \<in> set delim) s in
      if s1 = [] then (None, [])
      else (Some (takeWhile (\<lambda>ch. ch \<notin> set delim) s1), drop 1 (dropWhile (\<lambda>ch. ch \<notin> set delim) s1)))"

definition to_upper :: "char \<Rightarrow> char" where
  "to_upper ch = (if 97 \<le> (of_char ch :: nat) \<and> (of_char ch :: nat) \<le> 122 then char_of ((of_char ch :: nat) - 32) else ch)"

definition strcaseeq :: "string \<Rightarrow> string \<Rightarrow> bool" where
  \<comment> \<open>\<open>strcasecmp(s, t) == 0\<close>\<close>
  "strcaseeq s t \<longleftrightarrow> map to_upper s = map to_upper t"

section \<open>Commands\<close>

definition parse_rule_opts :: "wharf \<Rightarrow> string \<Rightarrow> bool \<Rightarrow> (u16 \<times> bool \<times> tclass_type option) option option" where
  \<comment> \<open>port, protocol and, if the caller wants it, class; \<open>Some None\<close> for the result -1\<close>
  "parse_rule_opts w str want_class =
     (case strtok str '' ,'' of
        (None, _) \<Rightarrow> Some None
      | (Some portc, s1) \<Rightarrow>
          let port_i = atoi portc in
          if port_i \<le> 0 \<or> port_i > 65535 then Some None
          else
            case strtok s1 '' ,'' of
              (None, _) \<Rightarrow> Some None
            | (Some is_tcpc, s2) \<Rightarrow>
                let is_tcpi = atoi is_tcpc in
                if is_tcpi \<noteq> 0 \<and> is_tcpi \<noteq> 1 then Some None
                else if want_class then
                  case strtok s2 ('' ,'' @ [CHR 0x0A]) of
                    (None, _) \<Rightarrow> Some None
                  | (Some tclassc, s3) \<Rightarrow>
                      let tclassi = atoi tclassc in
                      map_option (\<lambda>valid. if \<not> valid then None else Some (of_int port_i, is_tcpi = 1, Some (of_int tclassi)))
                        (valid_tclass w tclassi)
                else Some (Some (of_int port_i, is_tcpi = 1, None)))"

definition parse_class_opts :: "string \<Rightarrow> (tclass_type \<times> int \<times> int \<times> int) option" where
  "parse_class_opts str =
     (case strtok str '' ,'' of
        (None, _) \<Rightarrow> None
      | (Some tclassc, s1) \<Rightarrow>
          case strtok s1 '' ,'' of
            (None, _) \<Rightarrow> None
          | (Some ki, s2) \<Rightarrow>
              case strtok s2 '' ,'' of
                (None, _) \<Rightarrow> None
              | (Some hi, s3) \<Rightarrow>
                  case strtok s3 '' ,'' of
                    (None, _) \<Rightarrow> None
                  | (Some ti, s4) \<Rightarrow> Some (of_int (atoi tclassc), atoi ki, atoi hi, atoi ti))"

definition wharf_str_call :: "string \<Rightarrow> wharf \<Rightarrow> (wharf \<times> int) option" where
  \<comment> \<open>\<open>None\<close> when a null pointer reaches the C library or an access leaves the table of classes. The arguments are the rest of the string;
    when there are none, \<open>strtok\<close> in the parsers goes on where the string has ended.\<close>
  "wharf_str_call str w =
     (case strtok str '' '' of
        (None, _) \<Rightarrow> None
      | (Some cmd, args) \<Rightarrow>
          if strcaseeq cmd ''CLASS'' then
            case parse_class_opts args of
              None \<Rightarrow> Some (w, - 1)
            | Some (tclass, k, h, i) \<Rightarrow> wharf_set_tclass tclass (of_int k) (of_int h) i w
          else if strcaseeq cmd ''DELCLASS'' then
            if args = [] then None else wharf_delete_tclass (of_int (atoi args)) w
          else if strcaseeq cmd ''DEFAULT'' then
            if args = [] then None
            else let tclassi = atoi args in
                 case valid_tclass w tclassi of
                   None \<Rightarrow> None
                 | Some valid \<Rightarrow>
                     if \<not> valid then Some (w, - 1)
                     else map_option (\<lambda>(w1, rc). (w1, 0)) (wharf_set_default_class (of_int tclassi) w)
          else if strcaseeq cmd ''SET'' then
            case parse_rule_opts w args True of
              None \<Rightarrow> None
            | Some (Some (port, is_tcp, Some tclass)) \<Rightarrow> wharf_set_rule tclass port is_tcp w
            | Some _ \<Rightarrow> Some (w, - 1)
          else if strcaseeq cmd ''DEL'' then
            case parse_rule_opts w args True of
              None \<Rightarrow> None
            | Some (Some (port, is_tcp, Some tclass)) \<Rightarrow> Some (wharf_delete_rule tclass port is_tcp w)
            | Some _ \<Rightarrow> Some (w, - 1)
          else if strcaseeq cmd ''LIST'' then Some (w, 0)
          else if strcaseeq cmd ''QUERY'' then
            case parse_rule_opts w args False of None \<Rightarrow> None | Some None \<Rightarrow> Some (w, - 1) | Some (Some _) \<Rightarrow> Some (w, 0)
          else if strcaseeq cmd ''ENABLE'' then
            case strtok args '' '' of
              (None, _) \<Rightarrow> Some (w, 0)
            | (Some enablec, _) \<Rightarrow>
                let enablei = atoi enablec in
                if enablei \<noteq> 0 \<and> enablei \<noteq> 1 then Some (w, - 1)
                else Some (wharf_set_enabled (enablei = 1) w, 0)
          else Some (w, - 1))"

definition fgets :: "nat \<Rightarrow> string \<Rightarrow> string \<times> string" where
  \<comment> \<open>the line that is read, with its newline, and the rest of the file\<close>
  "fgets n f =
     (let line = takeWhile (\<lambda>ch. ch \<noteq> CHR 0x0A) f;
          line' = take (n - 1) (if length line < length f then line @ [CHR 0x0A] else line)
      in (line', drop (length line') f))"

function load_lines :: "string \<Rightarrow> wharf \<Rightarrow> (wharf \<times> int) option" where
  "load_lines f w =
     (if f = [] then Some (w, 0)
      else
        let (line, rest) = fgets 1024 f in
        case wharf_str_call line w of
          None \<Rightarrow> None
        | Some (w1, rc) \<Rightarrow> if rc \<noteq> 0 then Some (w1, - 1) else load_lines rest w1)"
  by pat_completeness auto
termination
proof (relation "measure (\<lambda>(f, w). length f)")
  fix f :: string and w x line rest
  assume "f \<noteq> []" and "x = fgets 1024 f" and "(line, rest) = x"
  then have r: "rest = drop (length line) f" and l: "line = take 1023
      (if length (takeWhile (\<lambda>ch. ch \<noteq> CHR 0x0A) f) < length f then takeWhile (\<lambda>ch. ch \<noteq> CHR 0x0A) f @ [CHR 0x0A]
       else takeWhile (\<lambda>ch. ch \<noteq> CHR 0x0A) f)"
    by (auto simp: fgets_def Let_def)
  have "0 < length line" using \<open>f \<noteq> []\<close> unfolding l by (cases f) auto
  then show "((rest, w1), (f, w)) \<in> measure (\<lambda>(f, w). length f)" for w1 :: wharf using \<open>f \<noteq> []\<close> r by simp
qed simp

definition wharf_load_from_file :: "string option \<Rightarrow> wharf \<Rightarrow> (wharf \<times> int) option" where
  \<comment> \<open>the contents of the file, \<open>None\<close> if it cannot be opened\<close>
  "wharf_load_from_file file w = (case file of None \<Rightarrow> Some (w, - 1) | Some f \<Rightarrow> load_lines f w)"

section \<open>Classification of packets\<close>

definition PROTOCOL_OFFSET :: nat where "PROTOCOL_OFFSET = SIZE_ETHERNET + 9"
definition IPV4_OFFSET :: nat where "IPV4_OFFSET = SIZE_ETHERNET"
definition PORT_OFFSET :: nat where "PORT_OFFSET = SIZE_ETHERNET + 22"
definition TCP_PROTOCOL :: u8 where "TCP_PROTOCOL = 0x06"
definition UDP_PROTOCOL :: u8 where "UDP_PROTOCOL = 0x11"

definition IS_IPV4 :: "u8 \<Rightarrow> bool" where
  \<comment> \<open>\<open>!(0x4F)\<close> is a logical negation and has the value 0\<close>
  "IS_IPV4 bits \<longleftrightarrow> bits AND 0x4 \<noteq> 0 \<and> \<not> (bits AND (if (0x4F :: u8) = 0 then 1 else 0) \<noteq> 0)"

definition is_ipv4 :: "bytes \<Rightarrow> nat \<Rightarrow> bool" where
  "is_ipv4 packet pkt_len = (if pkt_len < IPV4_OFFSET then False else IS_IPV4 (packet IPV4_OFFSET))"

definition is_tcp :: "bytes \<Rightarrow> nat \<Rightarrow> bool" where
  "is_tcp packet pkt_len = (if pkt_len < PROTOCOL_OFFSET then False else packet PROTOCOL_OFFSET = TCP_PROTOCOL)"

definition is_udp :: "bytes \<Rightarrow> nat \<Rightarrow> bool" where
  "is_udp packet pkt_len = (if pkt_len < PROTOCOL_OFFSET then False else packet PROTOCOL_OFFSET = UDP_PROTOCOL)"

definition get_port :: "bytes \<Rightarrow> nat \<Rightarrow> u16" where
  "get_port packet pkt_len = (if pkt_len < PORT_OFFSET then 0 else htons (load16 packet PORT_OFFSET))"

definition wharf_query_packet :: "wharf \<Rightarrow> bytes \<Rightarrow> nat \<Rightarrow> tclass_type" where
  "wharf_query_packet w packet pkt_len =
     (if \<not> is_ipv4 packet pkt_len then default_tclass w
      else if is_tcp packet pkt_len then wharf_query_rule w (get_port packet pkt_len) True
      else if is_udp packet pkt_len then wharf_query_rule w (get_port packet pkt_len) False
      else default_tclass w)"

end
