(* ===== verification/Rse_Test.thy ===== *)
theory Rse_Test
  imports Fec_Group Rse_Recover Wharf_Api
begin

text \<open>
  The test program \<^verbatim>\<open>FPGA/RSEVivadoHLS/rsetest.c\<close> of the reference coder: it fills a block with random
  packets, encodes it, marks some packets as erased and decodes.

  Packet \<open>i\<close> of the array \<open>p\<close> has the address \<open>Suc i\<close>. The numbers of \<^verbatim>\<open>rand\<close> are an argument, a function of the seed and the
  number of calls since \<^verbatim>\<open>srand\<close>. The results on the left are the exit status, \<^verbatim>\<open>abort\<close>, a write past an array, and an initialisation that does not return.
  Printing and measuring times are left out; \<^verbatim>\<open>FEC_SPEED_TEST\<close> is defined, since \<^verbatim>\<open>results_print\<close> uses it.
\<close>

section \<open>State\<close>

datatype test_halt = Test_exit int | Test_abort | Test_bounds | Test_loops

type_synonym prng = "int \<Rightarrow> nat \<Rightarrow> int"

definition pkt :: "nat \<Rightarrow> addr" where
  "pkt i = Suc i"

definition with_block :: "nat \<Rightarrow> (fec_block \<Rightarrow> fec_block) \<Rightarrow> coder \<Rightarrow> coder" where
  "with_block fb f g = g\<lparr>fbk := (fbk g)[fb := f (fbk g ! fb)]\<rparr>"

section \<open>The steps of a test\<close>

definition random_packet :: "rse_h \<Rightarrow> prng \<Rightarrow> int \<Rightarrow> nat \<Rightarrow> nat \<Rightarrow> mem \<Rightarrow> mem" where
  "random_packet c rand seed cols i m =
     for_loop 0 cols (\<lambda>j m. m(pkt i := (m (pkt i))(j := word_of_int (rand seed (i * cols + j) mod int (FEC_N c))))) m"

definition fill_data :: "rse_h \<Rightarrow> prng \<Rightarrow> nat \<Rightarrow> nat \<Rightarrow> int \<Rightarrow> nat \<Rightarrow> coder \<times> nat \<Rightarrow> coder \<times> nat" where
  "fill_data c rand fb cols seed = (\<lambda>i (g, len).
     let m = random_packet c rand seed cols i (memory g);
         (b, len1) = fec_block_add_data_packet c (pkt i) (of_nat i) cols FEC_FLAG_KNOWN (fbk g ! fb)
     in (with_block fb (\<lambda>_. b) (g\<lparr>memory := m\<rparr>), len1))"

definition fill_parity :: "rse_h \<Rightarrow> nat \<Rightarrow> fec_sym \<Rightarrow> fec_sym \<Rightarrow> nat \<Rightarrow> nat \<Rightarrow> coder \<Rightarrow> coder" where
  "fill_parity c fb k off len = (\<lambda>i.
     with_block fb (\<lambda>b. fst (fec_block_add_parity_packet c (pkt (i + unat k)) (of_nat i) k off len FEC_FLAG_WANTED b)))"

definition fec_blk_get :: "rse_h \<Rightarrow> prng \<Rightarrow> nat \<Rightarrow> fec_sym \<Rightarrow> fec_sym \<Rightarrow> int \<Rightarrow> int \<Rightarrow> fec_sym \<Rightarrow> coder \<Rightarrow> test_halt + coder" where
  "fec_blk_get c rand fb k h cols seed off g =
     (if FEC_MAX_N c < unat k + unat h then Inl Test_bounds
      else
        let g1 = with_block fb (fec_block_init c k h FEC_FLAG_WANTED FEC_FLAG_WANTED) g in
        if FEC_MAX_K < unat k then Inl (Test_exit 33)
        else if FEC_MAX_H < unat h then Inl (Test_exit 34)
        else if cols < 0 \<or> int (FEC_MAX_COLS c) < cols then Inl Test_bounds
        else
          let (g2, fec_packet_length) = for_loop 0 (unat k) (fill_data c rand fb (nat cols) seed) (g1, 0);
              g3 = for_loop 0 (unat h) (fill_parity c fb k off fec_packet_length) g2
          in if cols > 1 \<and> k > 1 \<and> FEC_EXTRA_COLS c > 0
             then Inr (with_block fb (\<lambda>b. fst (fec_block_add_data_packet c (pkt (unat (k - 1))) (k - 1) (nat (cols - 1)) FEC_FLAG_KNOWN b)) g3)
             else Inr g3)"

definition code_or_exit :: "(coder \<times> int) option \<Rightarrow> test_halt + coder" where
  \<comment> \<open>what every caller of \<open>rse_code\<close> does with its result\<close>
  "code_or_exit r = (case r of None \<Rightarrow> Inl Test_bounds | Some (g1, rc) \<Rightarrow> if rc \<noteq> 0 then Inl (Test_exit rc) else Inr g1)"

definition simple_encode :: "rse_h \<Rightarrow> bool \<Rightarrow> rse_state \<Rightarrow> nat \<Rightarrow> coder \<Rightarrow> test_halt + coder" where
  "simple_encode c lookup s fb g = code_or_exit (rse_code c lookup s fb CHR ''e'' g)"

definition simple_erase :: "rse_h \<Rightarrow> nat \<Rightarrow> int list \<Rightarrow> coder \<Rightarrow> test_halt + coder" where
  "simple_erase c fb e g =
     (if list_all (\<lambda>d. unat (word_of_int d :: fec_sym) < FEC_MAX_N c) (takeWhile (\<lambda>d. d < int (FEC_MAX_N c)) e)
      then Inr (with_block fb (fec_block_delete c e) g) else Inl Test_bounds)"

definition simple_decode :: "rse_h \<Rightarrow> bool \<Rightarrow> rse_state \<Rightarrow> nat \<Rightarrow> coder \<Rightarrow> test_halt + coder" where
  "simple_decode c lookup s fb g = code_or_exit (rse_code c lookup s fb CHR ''d'' g)"

definition simple_add :: "rse_h \<Rightarrow> bool \<Rightarrow> rse_state \<Rightarrow> nat \<Rightarrow> fec_sym \<Rightarrow> nat \<Rightarrow> coder \<Rightarrow> test_halt + coder" where
  "simple_add c lookup s fb k add_count g =
     (let (b, fbi) = fec_block_add add_count (fbk g ! fb);
          len = fec_block_get_len (fbi - 1) b;
          g1 = for_loop 0 add_count (\<lambda>i.
            with_block fb (\<lambda>b. fst (fec_block_add_wanted_packet c (pkt (unat fbi + i)) (fbi + of_nat i) k 0 len b))) (with_block fb (\<lambda>_. b) g)
      in if FEC_MAX_N c < unat fbi + add_count then Inl Test_bounds
         else code_or_exit (rse_code c lookup s fb CHR ''e'' g1))"

primrec fec_multi_test :: "rse_h \<Rightarrow> bool \<Rightarrow> rse_state \<Rightarrow> nat \<Rightarrow> char \<Rightarrow> coder \<Rightarrow> test_halt + coder" where
  \<comment> \<open>on block 0\<close>
  "fec_multi_test c lookup s 0 code_mode g = Inr g"
| "fec_multi_test c lookup s (Suc n) code_mode g =
     (case code_or_exit (rse_code c lookup s 0 code_mode g) of
        Inl e \<Rightarrow> Inl e
      | Inr g1 \<Rightarrow> fec_multi_test c lookup s n code_mode g1)"

definition erase_random_data_packets :: "rse_h \<Rightarrow> nat \<Rightarrow> coder \<Rightarrow> coder" where
  "erase_random_data_packets c h g = with_block 0 (fec_block_delete c (map int [0..<h] @ [int (FEC_MAX_N c)])) g"

definition simple_speed_test :: "rse_h \<Rightarrow> bool \<Rightarrow> rse_state \<Rightarrow> nat \<Rightarrow> int \<Rightarrow> fec_sym \<Rightarrow> coder \<Rightarrow> test_halt + coder" where
  "simple_speed_test c lookup s fb r h g =
     (case fec_multi_test c lookup s (nat (r + 1)) CHR ''E'' g of
        Inl e \<Rightarrow> Inl e
      | Inr g1 \<Rightarrow>
          (case code_or_exit (rse_code c lookup s fb CHR ''e'' g1) of
             Inl e \<Rightarrow> Inl e
           | Inr g2 \<Rightarrow> fec_multi_test c lookup s (nat (r + 1)) CHR ''D'' (erase_random_data_packets c (unat h) g2)))"

section \<open>The program\<close>

definition check_stack_size :: "int \<Rightarrow> test_halt + unit" where
  "check_stack_size sz = (if sz * 1 div 1000 > 7000 then Inl (Test_exit 1) else Inr ())"

record test_opts =
  opt_a :: fec_sym
  opt_h :: fec_sym
  opt_k :: fec_sym
  opt_c :: int
  opt_o :: fec_sym
  opt_r :: int
  opt_s :: int
  opt_e :: "int list"

definition Default_erase_list :: "int list" where
  "Default_erase_list = [0, 2, 4]"

definition default_opts :: test_opts where
  "default_opts = \<lparr>opt_a = 0, opt_h = 4, opt_k = 8, opt_c = 2, opt_o = 0, opt_r = 1, opt_s = 3, opt_e = []\<rparr>"

primrec test_options :: "rse_h \<Rightarrow> (char \<times> string) list \<Rightarrow> test_opts \<Rightarrow> test_halt + test_opts" where
  \<comment> \<open>the options that \<open>getopt\<close> returns with their arguments\<close>
  "test_options c [] t = Inr t"
| "test_options c (x # xs) t =
     (let ch = fst x; v = atoi (snd x) in
      if ch = CHR ''a'' then test_options c xs (t\<lparr>opt_a := word_of_int v\<rparr>)
      else if ch = CHR ''c'' then test_options c xs (t\<lparr>opt_c := v\<rparr>)
      else if ch = CHR ''e'' then
        if length (opt_e t) < FEC_MAX_N c then test_options c xs (t\<lparr>opt_e := opt_e t @ [v]\<rparr>) else Inl Test_bounds
      else if ch = CHR ''h'' then test_options c xs (t\<lparr>opt_h := word_of_int v\<rparr>)
      else if ch = CHR ''k'' then test_options c xs (t\<lparr>opt_k := word_of_int v\<rparr>)
      else if ch = CHR ''o'' then test_options c xs (t\<lparr>opt_o := word_of_int v\<rparr>)
      else if ch = CHR ''r'' then test_options c xs (t\<lparr>opt_r := v\<rparr>)
      else if ch = CHR ''s'' then test_options c xs (t\<lparr>opt_s := v\<rparr>)
      else Inl Test_abort)"

definition test_run :: "rse_h \<Rightarrow> bool \<Rightarrow> rse_state \<Rightarrow> prng \<Rightarrow> test_opts \<Rightarrow> int list \<Rightarrow> coder \<Rightarrow> test_halt + coder" where
  \<comment> \<open>what follows the initialisation of the coder\<close>
  "test_run c lookup s rand t e_list g =
     (case fec_blk_get c rand 0 (opt_k t) (opt_h t) (opt_c t) (opt_s t) (opt_o t) g of
        Inl e \<Rightarrow> Inl e
      | Inr g1 \<Rightarrow>
          if opt_r t = 0 then Inr g1
          else if opt_r t = 1 then
            case simple_encode c lookup s 0 g1 of
              Inl e \<Rightarrow> Inl e
            | Inr g2 \<Rightarrow>
                (case (if opt_a t > 0 then simple_add c lookup s 0 (opt_k t) (unat (opt_a t)) g2 else Inr g2) of
                   Inl e \<Rightarrow> Inl e
                 | Inr g3 \<Rightarrow>
                     (case simple_erase c 0 e_list g3 of
                        Inl e \<Rightarrow> Inl e
                      | Inr g4 \<Rightarrow> simple_decode c lookup s 0 g4))
          else simple_speed_test c lookup s 0 (opt_r t) (opt_h t) g1)"

definition test_main :: "rse_h \<Rightarrow> bool \<Rightarrow> nat \<Rightarrow> prng \<Rightarrow> nat \<Rightarrow> (char \<times> string) list \<Rightarrow> test_halt + coder" where
  "test_main c lookup blocks rand argc opts =
     (case check_stack_size (int (FEC_MAX_COLS c * FEC_MAX_N c)) of
        Inl e \<Rightarrow> Inl e
      | Inr _ \<Rightarrow>
          (case test_options c opts default_opts of
             Inl e \<Rightarrow> Inl e
           | Inr t \<Rightarrow>
               if argc = 2 then Inl (Test_exit 1)
               else
                 let es = (if opt_e t = [] \<or> hd (opt_e t) = int (FEC_MAX_N c) then Default_erase_list else opt_e t) in
                 if FEC_MAX_N c \<le> length es then Inl Test_bounds
                 else case rse_init c lookup (rse_zero c) of
                        None \<Rightarrow> Inl Test_loops
                      | Some (s, rc) \<Rightarrow>
                          if rc \<noteq> 0 then Inl (Test_exit rc)
                          else test_run c lookup s rand t (es @ [int (FEC_MAX_N c)]) (coder_zero c blocks)))"

end
