(* ===== verification/Rse_Test_Run.thy ===== *)
theory Rse_Test_Run
  imports Rse_Test Rse_Properties
begin

text \<open>
  A run of the test program \<^verbatim>\<open>rsetest.c\<close>: what the block and the memory hold after each step, and that decoding
  brings back the random data of the erased packets.
\<close>

section \<open>The block of a test\<close>

definition test_layout :: "rse_h \<Rightarrow> nat \<Rightarrow> nat \<Rightarrow> nat \<Rightarrow> fec_block \<Rightarrow> bool" where
  \<comment> \<open>\<open>k\<close> data packets and \<open>h\<close> parity packets with \<open>C\<close> columns, each at its address\<close>
  "test_layout c k h C b \<longleftrightarrow> sized (FEC_MAX_N c) b \<and> block_N b = k + h \<and> block_C b = C \<and>
     (\<forall>q<k + h. pdata b ! q = pkt q) \<and> (\<forall>i<k. cbi b ! i = of_nat i) \<and> (\<forall>j<h. cbi b ! (k + j) = of_nat (FEC_MAX_N c) - of_nat j - 1)"

definition test_block :: "rse_h \<Rightarrow> nat \<Rightarrow> nat \<Rightarrow> nat \<Rightarrow> (nat \<Rightarrow> nat) \<Rightarrow> fec_block \<Rightarrow> bool" where
  "test_block c k h C len b \<longleftrightarrow> test_layout c k h C b \<and> (\<forall>i<k. plen b ! i = len i) \<and> (\<forall>j<h. plen b ! (k + j) = C)"

lemma with_block_simps [simp]:
  "fb < length (fbk g) \<Longrightarrow> fbk (with_block fb f g) ! fb = f (fbk g ! fb)"
  "length (fbk (with_block fb f g)) = length (fbk g)" "memory (with_block fb f g) = memory g"
  "matrices_ok (with_block fb f g) = matrices_ok g" "matrices_ok (g\<lparr>memory := m\<rparr>) = matrices_ok g"
  by (simp_all add: with_block_def matrices_ok_def)

lemma test_layout_indices:
  assumes "test_layout c k h C b" and "group_fits c" and "k \<le> FEC_MAX_K" "h \<le> FEC_MAX_H"
  shows "indices_ok c b" and "q < k + h \<Longrightarrow> data_index b q \<longleftrightarrow> q < k"
  using group_indices [OF assms(2-4), of b] assms(1) by (simp_all add: test_layout_def)

lemma test_layout_ready:
  assumes b: "test_layout c k h C b" and N: "group_fits c" and kh: "0 < k" "k \<le> FEC_MAX_K" "h \<le> FEC_MAX_H"
    and C: "1 \<le> C" "C \<le> FEC_MAX_COLS c"
  shows "block_ready c b"
proof -
  have "k + h \<le> FEC_MAX_N c" using N kh by (simp add: group_fits_def)
  moreover have "buffers_ok b" using b by (auto simp: buffers_ok_def test_layout_def pkt_def)
  ultimately show ?thesis using test_layout_indices(1) [OF b N kh(2,3)] b C kh(1) by (simp add: block_ready_def test_layout_def)
qed

section \<open>Filling the block\<close>

lemma random_packet_mem:
  "random_packet c rand seed cols i m =
     m(pkt i := \<lambda>j. if j < cols then word_of_int (rand seed (i * cols + j) mod int (FEC_N c)) else m (pkt i) j)"
proof -
  have "for_loop 0 n (\<lambda>j m. m(pkt i := (m (pkt i))(j := word_of_int (rand seed (i * cols + j) mod int (FEC_N c))))) m =
      m(pkt i := \<lambda>j. if j < n then word_of_int (rand seed (i * cols + j) mod int (FEC_N c)) else m (pkt i) j)" for n
    by (induction n) (auto simp: for_loop_Suc fun_eq_iff)
  then show ?thesis by (simp add: random_packet_def)
qed

lemma init_sized:
  assumes "sized n b"
  shows "sized n (fec_block_init c k h FEC_FLAG_WANTED FEC_FLAG_WANTED b)"
    and "block_N (fec_block_init c k h FEC_FLAG_WANTED FEC_FLAG_WANTED b) = unat k + unat h"
    and "block_C (fec_block_init c k h FEC_FLAG_WANTED FEC_FLAG_WANTED b) = 0"
proof -
  have "sized n (for_loop 0 m (\<lambda>i b. fst (fec_block_add_data_packet c 0 (of_nat i) 0 FEC_FLAG_WANTED b)) b)" for m
    using assms by (induction m) (auto simp: for_loop_Suc sized_def blk_simps)
  note 1 = this [of "unat k"]
  have "sized n (for_loop 0 m (\<lambda>i b. fst (fec_block_add_parity_packet c 0 (of_nat i) k 0 0 FEC_FLAG_WANTED b)) b1)" if "sized n b1" for m b1
    using that by (induction m) (auto simp: for_loop_Suc sized_def blk_simps)
  note 2 = this [OF 1, of "unat h"]
  show "sized n (fec_block_init c k h FEC_FLAG_WANTED FEC_FLAG_WANTED b)"
    using 2 by (simp add: fec_block_init_def Let_def sized_def)
qed (simp_all add: fec_block_init_def Let_def)

definition random_data :: "rse_h \<Rightarrow> prng \<Rightarrow> int \<Rightarrow> nat \<Rightarrow> nat \<Rightarrow> nat \<Rightarrow> fec_sym" where
  "random_data c rand seed cols i j = word_of_int (rand seed (i * cols + j) mod int (FEC_N c))"

lemma data_loop:
  assumes fb: "fb < length (fbk g)" and b: "sized N (fbk g ! fb)" "block_C (fbk g ! fb) = 0" and n: "n \<le> N" "n \<le> 255"
  obtains g' where "for_loop 0 n (fill_data c rand fb cols seed) (g, 0) = (g', if n = 0 then 0 else cols + FEC_EXTRA_COLS c)"
    and "length (fbk g') = length (fbk g)" and "matrices_ok g' = matrices_ok g" and "sized N (fbk g' ! fb)" and "block_N (fbk g' ! fb) = block_N (fbk g ! fb)"
    and "block_C (fbk g' ! fb) = (if n = 0 then 0 else cols + FEC_EXTRA_COLS c)"
    and "\<forall>i<n. pdata (fbk g' ! fb) ! i = pkt i \<and> cbi (fbk g' ! fb) ! i = of_nat i \<and> plen (fbk g' ! fb) ! i = cols \<and> pstat (fbk g' ! fb) ! i = FEC_FLAG_KNOWN"
    and "\<forall>i<n. \<forall>j<cols. memory g' (pkt i) j = random_data c rand seed cols i j"
proof -
  have "\<exists>g'. for_loop 0 n (fill_data c rand fb cols seed) (g, 0) = (g', if n = 0 then 0 else cols + FEC_EXTRA_COLS c) \<and>
    length (fbk g') = length (fbk g) \<and> matrices_ok g' = matrices_ok g \<and> sized N (fbk g' ! fb) \<and> block_N (fbk g' ! fb) = block_N (fbk g ! fb) \<and>
    block_C (fbk g' ! fb) = (if n = 0 then 0 else cols + FEC_EXTRA_COLS c) \<and>
    (\<forall>i<n. pdata (fbk g' ! fb) ! i = pkt i \<and> cbi (fbk g' ! fb) ! i = of_nat i \<and> plen (fbk g' ! fb) ! i = cols \<and> pstat (fbk g' ! fb) ! i = FEC_FLAG_KNOWN) \<and>
    (\<forall>i<n. \<forall>j<cols. memory g' (pkt i) j = random_data c rand seed cols i j)"
    using n
  proof (induction n)
    case (Suc n)
    then obtain g' where IH: "for_loop 0 n (fill_data c rand fb cols seed) (g, 0) = (g', if n = 0 then 0 else cols + FEC_EXTRA_COLS c)"
      "length (fbk g') = length (fbk g)" "matrices_ok g' = matrices_ok g" "sized N (fbk g' ! fb)" "block_N (fbk g' ! fb) = block_N (fbk g ! fb)"
      "block_C (fbk g' ! fb) = (if n = 0 then 0 else cols + FEC_EXTRA_COLS c)"
      "\<forall>i<n. pdata (fbk g' ! fb) ! i = pkt i \<and> cbi (fbk g' ! fb) ! i = of_nat i \<and> plen (fbk g' ! fb) ! i = cols \<and> pstat (fbk g' ! fb) ! i = FEC_FLAG_KNOWN"
      "\<forall>i<n. \<forall>j<cols. memory g' (pkt i) j = random_data c rand seed cols i j" by auto
    let ?b = "fst (fec_block_add_data_packet c (pkt n) (of_nat n) cols FEC_FLAG_KNOWN (fbk g' ! fb))"
    let ?g = "with_block fb (\<lambda>_. ?b) (g'\<lparr>memory := random_packet c rand seed cols n (memory g')\<rparr>)"
    have u: "unat (of_nat n :: fec_sym) = n" using Suc.prems(2) by (simp add: unat_of_nat_u8)
    have fb': "fb < length (fbk (g'\<lparr>memory := random_packet c rand seed cols n (memory g')\<rparr>))" using fb IH(2) by simp
    have C: "max (block_C (fbk g' ! fb)) (cols + FEC_EXTRA_COLS c) = cols + FEC_EXTRA_COLS c" using IH(6) by simp
    have len: "n < length (pdata (fbk g' ! fb))" "n < length (cbi (fbk g' ! fb))" "n < length (plen (fbk g' ! fb))" "n < length (pstat (fbk g' ! fb))"
      using IH(4) Suc.prems(1) by (simp_all add: sized_def)
    have "fill_data c rand fb cols seed n (g', l) = (?g, cols + FEC_EXTRA_COLS c)" for l
      using C by (simp add: fill_data_def Let_def split_beta add_data_packet_fields)
    then have run: "for_loop 0 (Suc n) (fill_data c rand fb cols seed) (g, 0) = (?g, cols + FEC_EXTRA_COLS c)"
      by (simp add: for_loop_Suc IH(1))
    have s: "sized N ?b" "block_N ?b = block_N (fbk g ! fb)" "block_C ?b = cols + FEC_EXTRA_COLS c"
      using IH(4,5) C by (simp_all add: sized_def add_data_packet_fields)
    have entries: "\<forall>i<Suc n. pdata ?b ! i = pkt i \<and> cbi ?b ! i = of_nat i \<and> plen ?b ! i = cols \<and> pstat ?b ! i = FEC_FLAG_KNOWN"
      using IH(7) len by (auto simp: add_data_packet_fields u nth_list_update less_Suc_eq)
    have mem: "\<forall>i<Suc n. \<forall>j<cols. memory ?g (pkt i) j = random_data c rand seed cols i j"
      using IH(8) by (auto simp: random_packet_mem random_data_def pkt_def less_Suc_eq)
    have f: "fbk ?g ! fb = ?b" "length (fbk ?g) = length (fbk g)" "matrices_ok ?g = matrices_ok g" using fb' IH(2,3) by simp_all
    show ?case unfolding run by (intro exI [of _ ?g]) (use s entries mem in \<open>simp only: f prod.inject refl if_False nat.distinct simp_thms\<close>)
  qed (use b in \<open>intro exI [of _ g], simp\<close>)
  then show thesis using that by blast
qed

lemma parity_loop:
  assumes fb: "fb < length (fbk g)" and b: "sized N (fbk g ! fb)" "unat k + n \<le> N" "N \<le> 255" "block_C (fbk g ! fb) = C"
  shows "let g' = for_loop 0 n (fill_parity c fb k 0 C) g; b = fbk g ! fb; b' = fbk g' ! fb in
    length (fbk g') = length (fbk g) \<and> matrices_ok g' = matrices_ok g \<and> memory g' = memory g \<and> sized N b' \<and> block_N b' = block_N b \<and> block_C b' = C \<and>
    (\<forall>i<unat k. pdata b' ! i = pdata b ! i \<and> cbi b' ! i = cbi b ! i \<and> plen b' ! i = plen b ! i \<and> pstat b' ! i = pstat b ! i) \<and>
    (\<forall>j<n. pdata b' ! (unat k + j) = pkt (unat k + j) \<and> cbi b' ! (unat k + j) = of_nat (FEC_MAX_N c) - of_nat j - 1 \<and>
      plen b' ! (unat k + j) = C \<and> pstat b' ! (unat k + j) = FEC_FLAG_WANTED)"
  using b(2) unfolding Let_def
proof (induction n)
  case (Suc n)
  define g' where "g' = for_loop 0 n (fill_parity c fb k 0 C) g"
  note IH = Suc.IH [folded g'_def]
  have lt: "unat k + n \<le> N" using Suc.prems by simp
  let ?b = "fst (fec_block_add_parity_packet c (pkt (n + unat k)) (of_nat n) k 0 C FEC_FLAG_WANTED (fbk g' ! fb))"
  have u: "unat (k + of_nat n) = unat k + n" using Suc.prems b(3) by (simp add: unat_word_ariths unat_of_nat)
  have run: "for_loop 0 (Suc n) (fill_parity c fb k 0 C) g = with_block fb (\<lambda>_. ?b) g'"
    by (simp add: for_loop_Suc g'_def fill_parity_def with_block_def)
  have fb': "fb < length (fbk g')" using IH lt fb by simp
  have len: "unat k + n < length (pdata (fbk g' ! fb))" "unat k + n < length (cbi (fbk g' ! fb))" "unat k + n < length (plen (fbk g' ! fb))"
    "unat k + n < length (pstat (fbk g' ! fb))" using IH Suc.prems by (simp_all add: sized_def)
  have s: "sized N ?b" "block_N ?b = block_N (fbk g ! fb)" "block_C ?b = C" using IH lt by (simp_all add: sized_def add_parity_packet_fields)
  have old: "pdata ?b ! i = pdata (fbk g' ! fb) ! i" "cbi ?b ! i = cbi (fbk g' ! fb) ! i" "plen ?b ! i = plen (fbk g' ! fb) ! i" "pstat ?b ! i = pstat (fbk g' ! fb) ! i"
    if "i < unat k + n" for i using that by (simp_all add: add_parity_packet_fields u)
  have new: "pdata ?b ! (unat k + n) = pkt (unat k + n)" "cbi ?b ! (unat k + n) = of_nat (FEC_MAX_N c) - of_nat n - 1" "plen ?b ! (unat k + n) = C"
    "pstat ?b ! (unat k + n) = FEC_FLAG_WANTED" using len by (simp_all add: add_parity_packet_fields u add.commute)
  show ?case unfolding run using IH lt fb' s by (auto simp: less_Suc_eq old new)
qed (use b in simp)

text \<open>The length of a data packet: the last one is a symbol shorter, when that leaves a symbol and there is another packet.\<close>

definition data_len :: "nat \<Rightarrow> nat \<Rightarrow> nat \<Rightarrow> nat" where
  "data_len k cols i = (if i = k - 1 \<and> 1 < k \<and> 1 < cols then cols - 1 else cols)"

lemma blk_get:
  assumes fb: "fb < length (fbk g)" and b: "sized (FEC_MAX_N c) (fbk g ! fb)" and N: "group_fits c" and m: "matrices_ok g"
    and kh: "0 < unat k" "unat k \<le> FEC_MAX_K" "unat h \<le> FEC_MAX_H" and E: "0 < FEC_EXTRA_COLS c" and cols: "cols \<le> FEC_MAX_COLS c"
  obtains g' where "fec_blk_get c rand fb k h (int cols) seed 0 g = Inr g'" and "length (fbk g') = length (fbk g)" and "matrices_ok g'"
    and "test_block c (unat k) (unat h) (cols + FEC_EXTRA_COLS c) (data_len (unat k) cols) (fbk g' ! fb)"
    and "\<forall>i<unat k. pstat (fbk g' ! fb) ! i = FEC_FLAG_KNOWN" and "\<forall>j<unat h. pstat (fbk g' ! fb) ! (unat k + j) = FEC_FLAG_WANTED"
    and "\<forall>i<unat k. \<forall>j<cols. memory g' (pkt i) j = random_data c rand seed cols i j"
proof -
  have NN: "FEC_MAX_N c \<le> 255" "unat k + unat h \<le> FEC_MAX_N c" "unat k \<le> 255" using N kh by (auto simp: group_fits_def FEC_MAX_K_def)
  let ?C = "cols + FEC_EXTRA_COLS c"
  define g1 where "g1 = with_block fb (fec_block_init c k h FEC_FLAG_WANTED FEC_FLAG_WANTED) g"
  have 1: "fb < length (fbk g1)" "sized (FEC_MAX_N c) (fbk g1 ! fb)" "block_C (fbk g1 ! fb) = 0" "block_N (fbk g1 ! fb) = unat k + unat h" "matrices_ok g1"
    "length (fbk g1) = length (fbk g)"
    using fb m init_sized [OF b] by (simp_all add: g1_def)
  obtain g2 where 2: "for_loop 0 (unat k) (fill_data c rand fb cols seed) (g1, 0) = (g2, if unat k = 0 then 0 else ?C)"
    "length (fbk g2) = length (fbk g1)" "matrices_ok g2 = matrices_ok g1" "sized (FEC_MAX_N c) (fbk g2 ! fb)" "block_N (fbk g2 ! fb) = block_N (fbk g1 ! fb)"
    "block_C (fbk g2 ! fb) = (if unat k = 0 then 0 else ?C)"
    "\<forall>i<unat k. pdata (fbk g2 ! fb) ! i = pkt i \<and> cbi (fbk g2 ! fb) ! i = of_nat i \<and> plen (fbk g2 ! fb) ! i = cols \<and> pstat (fbk g2 ! fb) ! i = FEC_FLAG_KNOWN"
    "\<forall>i<unat k. \<forall>j<cols. memory g2 (pkt i) j = random_data c rand seed cols i j"
    by (rule data_loop [OF 1(1-3), of "unat k" c rand cols seed]) (use NN in linarith, use NN in linarith, rule that)
  define g3 where "g3 = for_loop 0 (unat h) (fill_parity c fb k 0 ?C) g2"
  have C2: "block_C (fbk g2 ! fb) = ?C" using 2(6) kh(1) by simp
  note 3 = parity_loop [OF _ 2(4) NN(2,1) C2, of c, unfolded Let_def, folded g3_def]
  have fb3: "fb < length (fbk g3)" using 3 2(2) 1(1) by simp
  have tb: "test_block c (unat k) (unat h) ?C (\<lambda>_. cols) (fbk g3 ! fb)"
    unfolding test_block_def test_layout_def
  proof (intro conjI allI impI)
    fix q assume q: "q < unat k + unat h"
    show "pdata (fbk g3 ! fb) ! q = pkt q"
    proof (cases "q < unat k")
      case False
      then obtain j where "j < unat h" "q = unat k + j" using index_beyond [OF q] by blast
      then show ?thesis using 3 2(2) 1(1) by simp
    qed (use 3 2(2,7) 1(1) in simp)
  qed (use 3 2(2,5,7) 1(1,4) in simp_all)
  have st: "\<forall>i<unat k. pstat (fbk g3 ! fb) ! i = FEC_FLAG_KNOWN" "\<forall>j<unat h. pstat (fbk g3 ! fb) ! (unat k + j) = FEC_FLAG_WANTED"
    "\<forall>i<unat k. \<forall>j<cols. memory g3 (pkt i) j = random_data c rand seed cols i j" "matrices_ok g3" "length (fbk g3) = length (fbk g)"
    using 3 2(2,3,7,8) 1(1,5,6) by simp_all
  have k1: "k > 1 \<longleftrightarrow> 1 < unat k" by (simp add: word_less_nat_alt)
  have run: "fec_blk_get c rand fb k h (int cols) seed 0 g =
      (if 1 < cols \<and> 1 < unat k then Inr (with_block fb (\<lambda>b. fst (fec_block_add_data_packet c (pkt (unat (k - 1))) (k - 1) (cols - 1) FEC_FLAG_KNOWN b)) g3) else Inr g3)"
    using NN kh cols E 2(1) by (simp add: fec_blk_get_def g1_def [symmetric] g3_def [symmetric] k1 nat_diff_distrib')
  show thesis
  proof (cases "1 < cols \<and> 1 < unat k")
    case False
    then have "data_len (unat k) cols = (\<lambda>_. cols)" by (auto simp: data_len_def)
    then show ?thesis by (intro that [of g3]) (use run [unfolded if_not_P [OF False]] tb st in simp_all)
  next
    case True
    let ?b = "fst (fec_block_add_data_packet c (pkt (unat (k - 1))) (k - 1) (cols - 1) FEC_FLAG_KNOWN (fbk g3 ! fb))"
    have u: "unat (k - 1) = unat k - 1" using True unat_minus_one [of k] by (metis less_zeroE unat_0)
    have lst: "unat k - 1 < FEC_MAX_N c" using NN kh(1) by linarith
    have "test_block c (unat k) (unat h) ?C (data_len (unat k) cols) ?b"
      using tb True lst kh(1) unfolding test_block_def test_layout_def
      by (auto simp: add_data_packet_fields sized_def u nth_list_update data_len_def u [symmetric])
    moreover have "\<forall>i<unat k. pstat ?b ! i = FEC_FLAG_KNOWN" "\<forall>j<unat h. pstat ?b ! (unat k + j) = FEC_FLAG_WANTED"
      using st(1,2) tb kh(1) lst by (auto simp: add_data_packet_fields u nth_list_update test_block_def test_layout_def sized_def)
    ultimately show ?thesis
      by (intro that [of "with_block fb (\<lambda>b. fst (fec_block_add_data_packet c (pkt (unat (k - 1))) (k - 1) (cols - 1) FEC_FLAG_KNOWN b)) g3"])
        (use run True st fb3 in simp_all)
  qed
qed

section \<open>Encoding, erasing and decoding\<close>

lemma upt_filter_less: "filter (\<lambda>q. q < k) [0..<k + h] = [0..<k]" for k h :: nat
  by (simp add: filter_upt_split)

lemma upt_filter_ge: "filter (\<lambda>q. \<not> q < k) [0..<k + h] = [k..<k + h]" for k h :: nat
proof -
  have "map ((+) k) [0..<h] = [k..<k + h]" by (rule nth_equalityI) simp_all
  then show ?thesis by (simp add: filter_upt_split)
qed

lemma full_block:
  assumes b: "test_layout c k h C b" and N: "group_fits c" and kh: "0 < k" "k \<le> FEC_MAX_K" "0 < h" "h \<le> FEC_MAX_H"
    and st: "\<forall>i<k. pstat b ! i = FEC_FLAG_KNOWN" "\<forall>j<h. pstat b ! (k + j) = FEC_FLAG_WANTED"
  shows "encoding_block b" and "codeable b"
proof -
  note di = test_layout_indices(2) [OF b N kh(2,4)]
  have n: "block_N b = k + h" using b by (simp add: test_layout_def)
  have stat: "pstat b ! q = (if q < k then FEC_FLAG_KNOWN else FEC_FLAG_WANTED)" if "q < k + h" for q
    using index_beyond [OF that] st by (cases "q < k") auto
  show e: "encoding_block b" unfolding encoding_block_def n using di stat by (simp add: is_known_def)
  have "known_of b = filter (\<lambda>q. q < k) [0..<k + h]" unfolding n by (rule filter_cong [OF refl]) (simp add: is_known_def stat)
  moreover have "wanted_of b = filter (\<lambda>q. \<not> q < k) [0..<k + h]" unfolding n by (rule filter_cong [OF refl]) (simp add: stat)
  ultimately show "codeable b" using encoding_block_lists(1) [OF e] kh unfolding upt_filter_less upt_filter_ge by (simp add: codeable_def)
qed

lemma encode_status:
  assumes c: "coder_ready c lookup s" and fb: "fb < length (fbk g)" and m: "matrices_ok g"
    and b: "block_ready c (fbk g ! fb)" and k: "codeable (fbk g ! fb)" and e: "encoding_block (fbk g ! fb)"
    and r: "rse_code c lookup s fb CHR ''e'' g = Some (g', rc)" and q: "q < block_N (fbk g ! fb)"
  shows "pstat (fbk g' ! fb) ! q = (if data_index (fbk g ! fb) q then pstat (fbk g ! fb) ! q else FEC_FLAG_GENNED)"
proof -
  let ?b = "fbk g ! fb"
  obtain e' where cod: "coded c CHR ''e'' fb (wanted_of ?b)
      (\<lambda>j col. accumulated c s ?b (memory g) (known_of ?b) (parity_row c ?b (wanted_of ?b ! j)) col)
      (g\<lparr>fcm_e := e'\<rparr>) (block_C ?b) g'"
  proof (rule rse_code_coded [OF c fb m b k encode_solves [OF e]])
    fix g2 e2
    assume "rse_code c lookup s fb CHR ''e'' g = Some (g2, 0)"
      and "coded c CHR ''e'' fb (wanted_of ?b) (\<lambda>j col. accumulated c s ?b (memory g) (known_of ?b) (parity_row c ?b (wanted_of ?b ! j)) col)
        (g\<lparr>fcm_e := e2\<rparr>) (block_C ?b) g2"
    with r that [of e2] show thesis by simp
  qed
  have fbs: "fbk (g\<lparr>fcm_e := e'\<rparr>) ! fb = ?b" by simp
  note cod' = cod [unfolded coded_def Let_def fbs]
  show ?thesis
  proof (cases "data_index ?b q")
    case True
    then have "q \<notin> set (wanted_of ?b)" using encoding_block_lists(2) [OF e, of q] by blast
    moreover have "\<forall>q. q \<notin> set (wanted_of ?b) \<longrightarrow> plen (fbk g' ! fb) ! q = plen ?b ! q \<and> pstat (fbk g' ! fb) ! q = pstat ?b ! q"
      using cod' by (elim conjE)
    ultimately show ?thesis using True by simp
  next
    case False
    then have "q \<in> set (wanted_of ?b)" using encoding_block_lists(2) [OF e, of q] q by blast
    then obtain j where "j < length (wanted_of ?b)" "q = wanted_of ?b ! j" by (metis in_set_conv_nth)
    then show ?thesis using cod' False by auto
  qed
qed

lemma delete_sized: "sized n b \<Longrightarrow> sized n (fec_block_delete c ds b)"
proof -
  have 1: "sized n (fold (\<lambda>d b. let fbi = unat (word_of_int d :: fec_sym) in
            b\<lparr>pstat := (pstat b)[fbi := if unat (cbi b ! fbi) < FEC_MAX_K then FEC_FLAG_WANTED else FEC_FLAG_IGNORE],
              plen := (plen b)[fbi := 0]\<rparr>) xs b)" if "sized n b" for xs b
    using that by (induction xs arbitrary: b) (auto simp: sized_def Let_def)
  have 2: "sized n (for_loop 0 m (\<lambda>i b. if FEC_MAX_K \<le> unat (cbi b ! i) \<and> (pstat b ! i = FEC_FLAG_GENNED \<or> pstat b ! i = FEC_FLAG_GENOLD)
            then b\<lparr>pstat := (pstat b)[i := FEC_FLAG_KNOWN]\<rparr> else b) b)" if "sized n b" for m b
    using that by (induction m) (auto simp: for_loop_Suc sized_def)
  assume "sized n b"
  then show ?thesis unfolding fec_block_delete_def Let_def using 1 2 by (simp only: Let_def)
qed

definition erased_stat :: "nat \<Rightarrow> int list \<Rightarrow> nat \<Rightarrow> fec_flag" where
  "erased_stat k es q = (if int q \<in> set es then if q < k then FEC_FLAG_WANTED else FEC_FLAG_IGNORE else FEC_FLAG_KNOWN)"

lemma erased_block:
  assumes b: "test_block c k h C len b" and N: "group_fits c" and kh: "k \<le> FEC_MAX_K" "h \<le> FEC_MAX_H"
    and st: "\<forall>q<k + h. pstat b ! q = (if q < k then FEC_FLAG_KNOWN else FEC_FLAG_GENNED)"
    and es: "\<forall>d\<in>set es. 0 \<le> d \<and> d < int (FEC_MAX_N c)"
  defines "b' \<equiv> fec_block_delete c (es @ [int (FEC_MAX_N c)]) b"
  shows "test_layout c k h C b'" and "\<forall>q<k + h. pstat b' ! q = erased_stat k es q" and "\<forall>q<k + h. plen b' ! q = (if int q \<in> set es then 0 else plen b ! q)"
    and "cbi b' = cbi b"
proof -
  have tw: "takeWhile (\<lambda>d. d < int (FEC_MAX_N c)) (es @ [int (FEC_MAX_N c)]) = es" using es by (simp add: takeWhile_append)
  have lay: "test_layout c k h C b" using b by (simp add: test_block_def)
  have n: "block_N b = k + h" "sized (FEC_MAX_N c) b" "k + h \<le> FEC_MAX_N c" "FEC_MAX_N c \<le> 256" using lay N kh by (auto simp: test_layout_def group_fits_def)
  have ge: "\<forall>d\<in>set es. 0 \<le> d" using es by blast
  have nn: "block_N b \<le> FEC_MAX_N c" using n by simp
  note del = fec_block_delete_fields [of c b "es @ [int (FEC_MAX_N c)]" b', unfolded tw, OF n(2) ge n(4) nn b'_def [THEN meta_eq_to_obj_eq]]
  show "test_layout c k h C b'" using lay del delete_sized [OF n(2), of c "es @ [int (FEC_MAX_N c)]"] by (simp add: test_layout_def b'_def [symmetric])
  note di = test_layout_indices(2) [OF lay N kh, unfolded data_index_def]
  have di': "FEC_MAX_K \<le> unat (cbi b ! q) \<longleftrightarrow> \<not> q < k" if "q < k + h" for q using di [OF that] by linarith
  show "\<forall>q<k + h. pstat b' ! q = erased_stat k es q"
    using del st di di' unfolding n(1) by (auto simp: erased_stat_def deleted_stat_def kept_stat_def)
  show "\<forall>q<k + h. plen b' ! q = (if int q \<in> set es then 0 else plen b ! q)" using del unfolding n(1) by blast
  show "cbi b' = cbi b" using del by blast
qed

lemma erased_codeable:
  assumes b: "test_layout c k h C b" and N: "group_fits c" and kh: "k \<le> FEC_MAX_K" "h \<le> FEC_MAX_H" and st: "\<forall>q<k + h. pstat b ! q = erased_stat k es q"
    and lost: "card {i. i < k \<and> int i \<in> set es} \<le> card {j. j < h \<and> int (k + j) \<notin> set es}" "\<exists>i<k. int i \<in> set es" "\<exists>q<k + h. int q \<notin> set es"
  shows "codeable b" and "decoding_block b"
proof -
  note di = test_layout_indices(2) [OF b N kh]
  have n: "block_N b = k + h" using b by (simp add: test_layout_def)
  have kn: "is_known b q \<longleftrightarrow> int q \<notin> set es" "pstat b ! q = FEC_FLAG_WANTED \<longleftrightarrow> q < k \<and> int q \<in> set es" "is_parity b q \<longleftrightarrow> \<not> q < k \<and> int q \<notin> set es"
    if "q < k + h" for q using st that di [OF that] by (auto simp: is_known_def is_parity_def erased_stat_def data_index_def)
  have "wanted_of b = filter (\<lambda>q. q < k \<and> int q \<in> set es) [0..<k + h]" unfolding n by (rule filter_cong [OF refl]) (simp add: kn)
  then have w: "length (wanted_of b) = card {i. i < k \<and> int i \<in> set es}" by (simp add: length_filter_upt) (rule arg_cong [of _ _ card], auto)
  have "parity_of b = filter (\<lambda>q. \<not> q < k \<and> int q \<notin> set es) [0..<k + h]" unfolding n by (rule filter_cong [OF refl]) (simp add: kn)
  then have p: "length (parity_of b) = card {j. j < h \<and> int (k + j) \<notin> set es}" by (simp add: filter_upt_split length_filter_upt)
  have "card {j. j < h \<and> int (k + j) \<notin> set es} \<le> card {j. j < h}" by (rule card_mono) auto
  moreover have "0 < length (known_of b)"
  proof -
    from lost(3) obtain q where "q < k + h" "int q \<notin> set es" by auto
    then have "q \<in> set (known_of b)" using kn(1) [of q] by (simp add: n)
    then show ?thesis by (rule length_pos_if_in_set)
  qed
  moreover have "0 < length (wanted_of b)"
  proof -
    from lost(2) obtain i where "i < k + h" "i < k" "int i \<in> set es" by auto
    then have "i \<in> set (wanted_of b)" using kn(2) [of i] by (simp add: n)
    then show ?thesis by (rule length_pos_if_in_set)
  qed
  ultimately show "codeable b" using w p lost(1) kh(2) unfolding codeable_def by (intro conjI) (linarith | simp)+
  show "decoding_block b" unfolding decoding_block_def using kn di by (auto simp: n)
qed

lemma test_recovers:
  assumes c: "coder_ready c lookup s" and E: "0 < FEC_EXTRA_COLS c" and fb: "fb < length (fbk g)" and m: "matrices_ok g"
    and b: "sized (FEC_MAX_N c) (fbk g ! fb)" and kh: "0 < unat k" "unat k \<le> FEC_MAX_K" "0 < unat h" "unat h \<le> FEC_MAX_H"
    and cols: "cols + FEC_EXTRA_COLS c \<le> FEC_MAX_COLS c" "cols < 256 ^ FEC_EXTRA_COLS c"
    and es: "\<forall>d\<in>set es. 0 \<le> d \<and> d < int (FEC_MAX_N c)"
    and lost: "card {i. i < unat k \<and> int i \<in> set es} \<le> card {j. j < unat h \<and> int (unat k + j) \<notin> set es}"
      "\<exists>i<unat k. int i \<in> set es" "\<exists>q<unat k + unat h. int q \<notin> set es"
  obtains g1 g2 g3 g4 where "fec_blk_get c rand fb k h (int cols) seed 0 g = Inr g1" and "simple_encode c lookup s fb g1 = Inr g2"
    and "simple_erase c fb (es @ [int (FEC_MAX_N c)]) g2 = Inr g3" and "simple_decode c lookup s fb g3 = Inr g4"
    and "\<forall>i<unat k. int i \<in> set es \<longrightarrow> pstat (fbk g4 ! fb) ! i = FEC_FLAG_GENNED \<and> plen (fbk g4 ! fb) ! i = data_len (unat k) cols i \<and>
      (\<forall>j<data_len (unat k) cols i. memory g4 (pkt i) j = random_data c rand seed cols i j)"
proof -
  let ?k = "unat k" and ?h = "unat h" and ?C = "cols + FEC_EXTRA_COLS c"
  have N: "group_fits c" "FEC_MAX_N c \<le> 255" "?k + ?h \<le> FEC_MAX_N c" using c kh by (auto simp: coder_ready_def group_fits_def)
  have C: "cols \<le> FEC_MAX_COLS c" "1 \<le> ?C" "?C \<le> FEC_MAX_COLS c" using cols(1) E by simp_all
  obtain g1 where 1: "fec_blk_get c rand fb k h (int cols) seed 0 g = Inr g1" "length (fbk g1) = length (fbk g)" "matrices_ok g1"
    "test_block c ?k ?h ?C (data_len ?k cols) (fbk g1 ! fb)"
    "\<forall>i<?k. pstat (fbk g1 ! fb) ! i = FEC_FLAG_KNOWN" "\<forall>j<?h. pstat (fbk g1 ! fb) ! (?k + j) = FEC_FLAG_WANTED"
    "\<forall>i<?k. \<forall>j<cols. memory g1 (pkt i) j = random_data c rand seed cols i j"
    by (rule blk_get [OF fb b N(1) m kh(1,2,4) E C(1), of rand seed]) (rule that)
  let ?b1 = "fbk g1 ! fb"
  have lay1: "test_layout c ?k ?h ?C ?b1" using 1(4) by (simp add: test_block_def)
  have fb1: "fb < length (fbk g1)" using fb 1(2) by simp
  have ready1: "block_ready c ?b1" by (rule test_layout_ready [OF lay1 N(1) kh(1,2,4) C(2,3)])
  note full = full_block [OF lay1 N(1) kh 1(5,6)] and di = test_layout_indices(2) [OF lay1 N(1) kh(2,4)]
  have n1: "block_N ?b1 = ?k + ?h" "block_C ?b1 = ?C" using lay1 by (simp_all add: test_layout_def)
  have fit: "lengths_fit c ?b1" unfolding lengths_fit_def n1 using 1(4) di cols(2) by (auto simp: test_block_def data_len_def)
  obtain g2 where 2: "rse_code c lookup s fb CHR ''e'' g1 = Some (g2, 0)" "matrices_ok g2" "length (fbk g2) = length (fbk g1)" "same_layout ?b1 (fbk g2 ! fb)"
    "plen (fbk g2 ! fb) = plen ?b1"
    "\<And>q col. q < block_N ?b1 \<Longrightarrow> \<not> data_index ?b1 q \<Longrightarrow> col < block_C ?b1 \<Longrightarrow>
      gf (memory g2 (pdata ?b1 ! q) col) = accumulated c s ?b1 (memory g1) (known_of ?b1) (parity_row c ?b1 q) col"
    "\<And>p. (\<And>q. q < block_N ?b1 \<Longrightarrow> \<not> data_index ?b1 q \<Longrightarrow> p \<noteq> pdata ?b1 ! q) \<Longrightarrow> memory g2 p = memory g1 p"
    using rse_encode_columns [OF c fb1 1(3) ready1 full(2,1) E] by metis
  let ?b2 = "fbk g2 ! fb"
  have enc: "simple_encode c lookup s fb g1 = Inr g2" using 2(1) by (simp add: simple_encode_def code_or_exit_def)
  have tb2: "test_block c ?k ?h ?C (data_len ?k cols) ?b2"
    using 1(4) 2(4,5) by (simp add: test_block_def test_layout_def same_layout_def sized_def)
  have st2: "\<forall>q<?k + ?h. pstat ?b2 ! q = (if q < ?k then FEC_FLAG_KNOWN else FEC_FLAG_GENNED)"
    using encode_status [OF c fb1 1(3) ready1 full(2,1) 2(1)] di 1(5) n1 by simp
  note b3 = erased_block [OF tb2 N(1) kh(2,4) st2 es]
  define g3 where "g3 = with_block fb (fec_block_delete c (es @ [int (FEC_MAX_N c)])) g2"
  have er: "simple_erase c fb (es @ [int (FEC_MAX_N c)]) g2 = Inr g3"
    using es N(2) by (auto simp: simple_erase_def g3_def list_all_iff unat_eq_nat_uint uint_word_of_int nat_less_iff takeWhile_append dest: set_takeWhileD)
  have 3: "fb < length (fbk g3)" "matrices_ok g3" "memory g3 = memory g2" "fbk g3 ! fb = fec_block_delete c (es @ [int (FEC_MAX_N c)]) ?b2"
    using fb1 2(2,3) by (simp_all add: g3_def)
  have ready3: "block_ready c (fbk g3 ! fb)" unfolding 3(4) by (rule test_layout_ready [OF b3(1) N(1) kh(1,2,4) C(2,3)])
  note code3 = erased_codeable [OF b3(1) N(1) kh(2,4) b3(2) lost, folded 3(4)]
  have data: "memory g2 (pkt i) = memory g1 (pkt i)" if "i < ?k" for i
    by (rule 2(7)) (use that lay1 di n1 in \<open>auto simp: test_layout_def pkt_def\<close>)
  have rcv: "received c ?b1 (memory g1) (memory g2) (fbk g3 ! fb) (memory g3)"
    unfolding received_def n1 3(3,4)
  proof (intro conjI allI impI)
    fix q assume q: "q < ?k + ?h" and kn: "is_known (fec_block_delete c (es @ [int (FEC_MAX_N c)]) ?b2) q"
    have ne: "int q \<notin> set es" using kn b3(2) q by (auto simp: is_known_def erased_stat_def split: if_splits)
    have p: "pdata (fec_block_delete c (es @ [int (FEC_MAX_N c)]) ?b2) ! q = pkt q" "pdata ?b1 ! q = pkt q"
      using b3(1) lay1 q by (simp_all add: test_layout_def)
    have l: "plen (fec_block_delete c (es @ [int (FEC_MAX_N c)]) ?b2) ! q = plen ?b1 ! q" using b3(3) ne q 2(5) by simp
    show "if data_index ?b1 q
         then plen (fec_block_delete c (es @ [int (FEC_MAX_N c)]) ?b2) ! q = plen ?b1 ! q \<and>
           (\<forall>col<plen ?b1 ! q. memory g2 (pdata (fec_block_delete c (es @ [int (FEC_MAX_N c)]) ?b2) ! q) col = memory g1 (pdata ?b1 ! q) col)
         else ?C \<le> plen (fec_block_delete c (es @ [int (FEC_MAX_N c)]) ?b2) ! q \<and>
           (\<forall>col<?C. memory g2 (pdata (fec_block_delete c (es @ [int (FEC_MAX_N c)]) ?b2) ! q) col = memory g2 (pdata ?b1 ! q) col)"
    proof (cases "q < ?k")
      case True
      then show ?thesis using di [OF q] l p data by simp
    next
      case False
      then obtain j where "j < ?h" "q = ?k + j" using index_beyond [OF q] by blast
      then show ?thesis using di [OF q] l p 1(4) by (simp add: test_block_def)
    qed
  qed (use b3(1,4) 2(4) in \<open>simp_all add: test_layout_def same_layout_def\<close>)
  obtain g4 rc where 4: "Some (g4, rc) = rse_code c lookup s fb CHR ''d'' g3"
    using rse_code_defined [of g3 fb c] ready3 by (metis block_ready_def)
  have n3: "block_N (fbk g3 ! fb) = ?k + ?h" "\<forall>q<?k + ?h. pstat (fbk g3 ! fb) ! q = erased_stat ?k es q" "\<forall>q<?k + ?h. pdata (fbk g3 ! fb) ! q = pkt q"
    using b3 unfolding 3(4) by (simp_all add: test_layout_def)
  note rt = rse_roundtrip [OF c E fb1 1(3) ready1 full(2,1) fit 2(1) [symmetric] 3(1,2) ready3 code3 rcv 4]
  have res: "rc = 0 \<and> pstat (fbk g4 ! fb) ! i = FEC_FLAG_GENNED \<and> plen (fbk g4 ! fb) ! i = data_len ?k cols i \<and>
      (\<forall>j<data_len ?k cols i. memory g4 (pkt i) j = random_data c rand seed cols i j)" if i: "i < ?k" "int i \<in> set es" for i
  proof -
    have w: "i < block_N (fbk g3 ! fb)" "pstat (fbk g3 ! fb) ! i = FEC_FLAG_WANTED" using n3 i by (simp_all add: erased_stat_def)
    have l: "plen ?b1 ! i = data_len ?k cols i" "pdata ?b1 ! i = pkt i" "pdata (fbk g3 ! fb) ! i = pkt i" "data_len ?k cols i \<le> cols"
      using 1(4) lay1 n3(3) i(1) by (simp_all add: test_block_def test_layout_def data_len_def)
    show ?thesis using rt [OF w] l 1(7) i(1) by auto
  qed
  have "rc = 0" using lost(2) res by blast
  then have dec: "simple_decode c lookup s fb g3 = Inr g4" using 4 [symmetric] by (simp add: simple_decode_def code_or_exit_def)
  show thesis by (rule that [OF 1(1) enc er dec]) (use res in blast)
qed

section \<open>The program\<close>

text \<open>C16: A single run of the test program with any numbers of data and parity packets, any packet size, seed and list of erasures returns without an error, if
  packets are erased but not more data packets than parity packets are left: every erased data packet has been regenerated and holds the
  random symbols and the length it had before.\<close>

theorem rsetest_recovers:
  assumes "byte_symbols c" and "group_fits c" and "codewords_check_bounds c = 0" and "0 < FEC_EXTRA_COLS c"
    and "FEC_MAX_COLS c * FEC_MAX_N c \<le> 7000999" and "0 < blocks"
    and "argc \<noteq> 2" and "test_options c opts default_opts = Inr t" and "opt_r t = 1" and "opt_a t = 0" and "opt_o t = 0"
    and "0 < unat (opt_k t)" "unat (opt_k t) \<le> FEC_MAX_K" "0 < unat (opt_h t)" "unat (opt_h t) \<le> FEC_MAX_H"
    and "opt_c t = int cols" "cols + FEC_EXTRA_COLS c \<le> FEC_MAX_COLS c" "cols < 256 ^ FEC_EXTRA_COLS c"
    and "es = (if opt_e t = [] then Default_erase_list else opt_e t)" "length es < FEC_MAX_N c" "\<forall>d\<in>set es. 0 \<le> d \<and> d < int (FEC_MAX_N c)"
    and "card {i. i < unat (opt_k t) \<and> int i \<in> set es} \<le> card {j. j < unat (opt_h t) \<and> int (unat (opt_k t) + j) \<notin> set es}"
      "\<exists>i<unat (opt_k t). int i \<in> set es" "\<exists>q<unat (opt_k t) + unat (opt_h t). int q \<notin> set es"
  shows "\<exists>g. test_main c lookup blocks rand argc opts = Inr g \<and>
    (\<forall>i<unat (opt_k t). int i \<in> set es \<longrightarrow> pstat (fbk g ! 0) ! i = FEC_FLAG_GENNED \<and> plen (fbk g ! 0) ! i = data_len (unat (opt_k t)) cols i \<and>
      (\<forall>j<data_len (unat (opt_k t)) cols i. memory g (pkt i) j = random_data c rand (opt_s t) cols i j))"
proof -
  obtain s where s: "rse_init c lookup (rse_zero c) = Some (s, 0)" "coder_ready c lookup s"
    using rse_init_ready [OF assms(1-3), of lookup] by blast
  have z: "0 < length (fbk (coder_zero c blocks))" "sized (FEC_MAX_N c) (fbk (coder_zero c blocks) ! 0)"
    using assms(6) by (simp_all add: coder_zero_def)
  obtain g1 g2 g3 g4 where run: "fec_blk_get c rand 0 (opt_k t) (opt_h t) (int cols) (opt_s t) 0 (coder_zero c blocks) = Inr g1"
    "simple_encode c lookup s 0 g1 = Inr g2" "simple_erase c 0 (es @ [int (FEC_MAX_N c)]) g2 = Inr g3" "simple_decode c lookup s 0 g3 = Inr g4"
    "\<forall>i<unat (opt_k t). int i \<in> set es \<longrightarrow> pstat (fbk g4 ! 0) ! i = FEC_FLAG_GENNED \<and> plen (fbk g4 ! 0) ! i = data_len (unat (opt_k t)) cols i \<and>
      (\<forall>j<data_len (unat (opt_k t)) cols i. memory g4 (pkt i) j = random_data c rand (opt_s t) cols i j)"
    by (rule test_recovers [OF s(2) assms(4) z(1) coder_zero_matrices z(2) assms(12-15,17,18,21-24), of rand "opt_s t"]) (rule that)
  have "(if opt_e t = [] \<or> hd (opt_e t) = int (FEC_MAX_N c) then Default_erase_list else opt_e t) = es"
    using assms(19,21) by (cases "opt_e t") auto
  moreover have "int (FEC_MAX_COLS c * FEC_MAX_N c) * 1 div 1000 \<le> 7000"
    using div_le_mono [OF assms(5), of 1000] by (simp flip: of_nat_mult add: zdiv_int [of _ 1000, simplified, symmetric])
  ultimately have "test_main c lookup blocks rand argc opts = test_run c lookup s rand t (es @ [int (FEC_MAX_N c)]) (coder_zero c blocks)"
    using assms(5,7,8,20) s(1) by (simp add: test_main_def check_stack_size_def)
  also have "\<dots> = Inr g4" using run assms(9-11,16) by (simp add: test_run_def)
  finally show ?thesis using run(5) by blast
qed

theorem rsetest_recovers_witness:
  "\<exists>g. test_main demo_h False 1 (\<lambda>_ n. int n) 1 [] = Inr g \<and> plen (fbk g ! 0) ! 4 = 2 \<and> memory g (pkt 4) 1 = 9"
proof -
  have l: "{i. i < 8 \<and> int i \<in> set Default_erase_list} = {0, 2, 4}" by (auto simp: Default_erase_list_def)
  have p: "{j. j < 4 \<and> int (8 + j) \<notin> set Default_erase_list} = {0..<4}" by (auto simp: Default_erase_list_def)
  have "\<exists>g. test_main demo_h False 1 (\<lambda>_ n. int n) 1 [] = Inr g \<and>
    (\<forall>i<unat (opt_k default_opts). int i \<in> set Default_erase_list \<longrightarrow> pstat (fbk g ! 0) ! i = FEC_FLAG_GENNED \<and>
      plen (fbk g ! 0) ! i = data_len (unat (opt_k default_opts)) 2 i \<and>
      (\<forall>j<data_len (unat (opt_k default_opts)) 2 i. memory g (pkt i) j = random_data demo_h (\<lambda>_ n. int n) (opt_s default_opts) 2 i j))"
    by (rule rsetest_recovers [OF demo_h_ok(1,2) demo_h_check demo_h_ok(3)])
      (simp_all add: default_opts_def demo_h_def FEC_MAX_K_def FEC_MAX_H_def l [simplified] p [simplified], auto simp: Default_erase_list_def intro: exI [of _ 0] exI [of _ 1])
  then obtain g where g: "test_main demo_h False 1 (\<lambda>_ n. int n) 1 [] = Inr g"
    "4 < unat (opt_k default_opts) \<and> int 4 \<in> set Default_erase_list \<longrightarrow> plen (fbk g ! 0) ! 4 = data_len (unat (opt_k default_opts)) 2 4 \<and>
      (\<forall>j<data_len (unat (opt_k default_opts)) 2 4. memory g (pkt 4) j = random_data demo_h (\<lambda>_ n. int n) (opt_s default_opts) 2 4 j)" by blast
  have "plen (fbk g ! 0) ! 4 = 2 \<and> (\<forall>j<2. memory g (pkt 4) j = 8 + of_nat j)"
    using g(2) by (simp add: default_opts_def Default_erase_list_def data_len_def random_data_def demo_h_def)
  then show ?thesis using g(1) by auto
qed

end
