(* ===== verification/Hls_Encoder.thy ===== *)
theory Hls_Encoder
  imports Rse_Roundtrip
begin

text \<open>
  The symbol encoder of the FPGA design, \<^verbatim>\<open>FPGA/RSEVivadoHLS/Encoder.c\<close>. It has its own
  field arithmetic (shift-and-add products and powers while generating, tables while encoding), its own
  generation of the parity weights and an incremental encoder that adds one data
  symbol at a time to the parity symbols.

  The theorems show that its arithmetic provides the same interface as the tables of the
  reference coder, and that its generator matrix equals the weights of the reference coder, so that
  the parity symbols of both are the same.
\<close>

section \<open>Arithmetic\<close>

definition Modulo_add :: "rse_h \<Rightarrow> fec_sym \<Rightarrow> fec_sym \<Rightarrow> fec_sym" where
  "Modulo_add c X Y =
     (let Sum = unat X + unat Y in of_nat (if Sum > FEC_N c - 1 then Sum - (FEC_N c - 1) else Sum))"

definition GF_add :: "fec_sym \<Rightarrow> fec_sym \<Rightarrow> fec_sym" where
  "GF_add X Y = X XOR Y"

definition GF_substract :: "fec_sym \<Rightarrow> fec_sym \<Rightarrow> fec_sym" where
  "GF_substract X Y = X XOR Y"

definition Get_primitive_polynomial :: "rse_h \<Rightarrow> int" where
  "Get_primitive_polynomial c =
     (if FEC_M c = 3 then 0xB else if FEC_M c = 4 then 0x13 else if FEC_M c = 5 then 0x25
      else if FEC_M c = 6 then 0x43 else if FEC_M c = 7 then 0x89 else if FEC_M c = 8 then 0x11D
      else if FEC_M c = 16 then 0x1100B else 0)"

definition Generate_exp_table :: "rse_h \<Rightarrow> fec_sym list \<Rightarrow> fec_sym list" where
  "Generate_exp_table c Table =
     for_loop 1 (FEC_N c) (\<lambda>i T.
       let Value = 2 * uint (T ! (i - 1));
           Value' = (if Value \<ge> int (FEC_N c) then Value XOR Get_primitive_polynomial c else Value)
       in T[i := word_of_int Value']) (Table[0 := 1])"

definition Generate_log_table :: "rse_h \<Rightarrow> fec_sym list \<Rightarrow> fec_sym list" where
  "Generate_log_table c Table =
     (let Exp_table = Generate_exp_table c (replicate (FEC_N c) 0)
      in for_loop 1 (FEC_N c) (\<lambda>i T. T[unat (Exp_table ! i) := of_nat i]) Table)"

definition GF_exp :: "rse_h \<Rightarrow> fec_sym \<Rightarrow> fec_sym" where
  \<comment> \<open>the static table is generated on the first call (or on every call) from zeros\<close>
  "GF_exp c X = Generate_exp_table c (replicate (FEC_N c) 0) ! unat X"

definition GF_log :: "rse_h \<Rightarrow> fec_sym \<Rightarrow> fec_sym" where
  "GF_log c X = Generate_log_table c (replicate (FEC_N c) 0) ! unat X"

function GF_slow_loop :: "rse_h \<Rightarrow> fec_sym \<Rightarrow> fec_sym \<Rightarrow> fec_sym \<Rightarrow> fec_sym \<Rightarrow> fec_sym" where
  \<comment> \<open>\<open>while (X > 0 && Y > 0)\<close>\<close>
  "GF_slow_loop c Primitive X Y Product =
     (if X > 0 \<and> Y > 0 then
        GF_slow_loop c Primitive
          (if X AND of_nat (FEC_N c div 2) \<noteq> 0 then push_bit 1 X XOR Primitive else push_bit 1 X)
          (drop_bit 1 Y)
          (if Y AND 1 \<noteq> 0 then Product XOR X else Product)
      else Product)"
  by pat_completeness auto

definition GF_slow_multiply :: "rse_h \<Rightarrow> fec_sym \<Rightarrow> fec_sym \<Rightarrow> fec_sym" where
  "GF_slow_multiply c X Y = GF_slow_loop c (word_of_int (Get_primitive_polynomial c)) X Y 0"

definition GF_multiply :: "rse_h \<Rightarrow> fec_sym \<Rightarrow> fec_sym \<Rightarrow> fec_sym" where
  "GF_multiply c X Y =
     (if X > 0 \<and> Y > 0 then GF_exp c (Modulo_add c (GF_log c X) (GF_log c Y)) else 0)"

definition GF_slow_invert :: "rse_h \<Rightarrow> fec_sym \<Rightarrow> fec_sym" where
  "GF_slow_invert c X = for_loop 0 (FEC_N c - 2) (\<lambda>i Product. GF_slow_multiply c Product X) 1"

definition Generate_invert_table :: "rse_h \<Rightarrow> fec_sym list \<Rightarrow> fec_sym list" where
  "Generate_invert_table c Table =
     for_loop 0 (FEC_N c) (\<lambda>i T.
       T[unat (GF_exp c (of_nat (FEC_N c - 1 - unat (GF_log c (of_nat i))))) := of_nat i]) Table"

definition GF_invert :: "rse_h \<Rightarrow> fec_sym \<Rightarrow> fec_sym" where
  "GF_invert c X = Generate_invert_table c (replicate (FEC_N c) 0) ! unat X"

section \<open>The generator matrix\<close>

definition gen_weight_step :: "rse_h \<Rightarrow> nat \<Rightarrow> nat \<Rightarrow> fec_sym list \<Rightarrow> fec_sym list" where
  \<comment> \<open>\<open>Matrix[i][j]\<close> is cell \<open>i * FEC_MAX_N + j\<close> of the local array\<close>
  "gen_weight_step c i j m =
     m[i * FEC_MAX_N c + j :=
        if j = 0 \<or> i = 0 then 1 else GF_slow_multiply c (of_nat (j + 1)) (m ! ((i - 1) * FEC_MAX_N c + j))]"

definition gen_normalise :: "rse_h \<Rightarrow> nat \<Rightarrow> fec_sym list \<Rightarrow> fec_sym list" where
  "gen_normalise c k m =
     for_loop 0 FEC_MAX_H (\<lambda>i m.
       let q = i * FEC_MAX_N c + FEC_MAX_N c - 1; Value = m ! (q - k) in
       if Value \<noteq> 0
       then for_loop 0 (FEC_MAX_N c) (\<lambda>j m. m[q - j := GF_slow_multiply c (m ! (q - j)) (GF_slow_invert c Value)]) m
       else m) m"

definition gen_subtract :: "rse_h \<Rightarrow> nat \<Rightarrow> fec_sym list \<Rightarrow> fec_sym list" where
  "gen_subtract c k m =
     for_loop 0 FEC_MAX_H (\<lambda>i m.
       if i \<noteq> k \<and> m ! (i * FEC_MAX_N c + FEC_MAX_N c - 1 - k) \<noteq> 0
       then for_loop 0 (FEC_MAX_N c) (\<lambda>j m.
              m[i * FEC_MAX_N c + FEC_MAX_N c - 1 - j :=
                 GF_substract (m ! (i * FEC_MAX_N c + FEC_MAX_N c - 1 - j))
                              (m ! (k * FEC_MAX_N c + FEC_MAX_N c - 1 - j))]) m
       else m) m"

definition gen_matrix :: "rse_h \<Rightarrow> fec_sym list" where
  \<comment> \<open>the local array after the elimination\<close>
  "gen_matrix c =
     (let m0 = for_loop 0 FEC_MAX_H (\<lambda>i. for_loop 0 (FEC_MAX_N c) (gen_weight_step c i))
                 (replicate (FEC_MAX_H * FEC_MAX_N c) 0)
      in for_loop 0 FEC_MAX_H (\<lambda>k m. gen_subtract c k (gen_normalise c k m)) m0)"

definition Generate_generator :: "rse_h \<Rightarrow> fec_sym list list \<Rightarrow> fec_sym list list" where
  "Generate_generator c Generator =
     (let m = gen_matrix c in
      for_loop 0 FEC_MAX_H (\<lambda>i g.
        let Reciprocal = GF_slow_invert c (m ! (i * FEC_MAX_N c + FEC_MAX_N c - 1 - i)) in
        for_loop 0 FEC_MAX_K (\<lambda>j g.
          g[i := (g ! i)[FEC_MAX_K - 1 - j :=
             GF_slow_multiply c (m ! (i * FEC_MAX_N c + (FEC_MAX_K - 1 - j))) Reciprocal]]) g) Generator)"

definition hls_generator :: "rse_h \<Rightarrow> fec_sym list list" where
  \<comment> \<open>the static \<open>Generator\<close> of \<open>Incremental_encode\<close> once initialised\<close>
  "hls_generator c = Generate_generator c (replicate FEC_MAX_H (replicate FEC_MAX_K 0))"

definition Incremental_encode :: "rse_h \<Rightarrow> fec_sym \<Rightarrow> fec_sym list \<Rightarrow> nat \<Rightarrow> nat \<Rightarrow> bool \<Rightarrow> fec_sym list" where
  "Incremental_encode c Data Parity Packet_index h Clear =
     for_loop 0 FEC_MAX_H (\<lambda>i P.
       if i < h then P[i := GF_add (if Clear then 0 else P ! i) (GF_multiply c Data (hls_generator c ! i ! Packet_index))]
       else P) Parity"

section \<open>Slow arithmetic\<close>

lemma unat_drop_bit_1: "unat (drop_bit 1 (Y :: u8)) = unat Y div 2"
  by (simp add: drop_bit_eq_div unat_div)

termination GF_slow_loop
proof (relation "measure (\<lambda>(c, p, X, Y, P). unat Y)")
  fix c :: rse_h and Primitive X Y Product :: fec_sym
  assume "X > 0 \<and> Y > 0"
  then have "0 < unat Y" by (simp add: unat_gt_0 word_neq_0_conv)
  moreover note unat_drop_bit_1 [of Y]
  ultimately show "((c, Primitive, if X AND of_nat (FEC_N c div 2) \<noteq> 0 then push_bit 1 X XOR Primitive else push_bit 1 X,
      drop_bit 1 Y, if Y AND 1 \<noteq> 0 then Product XOR X else Product), c, Primitive, X, Y, Product)
    \<in> measure (\<lambda>(c, p, X, Y, P). unat Y)" by simp
qed simp

declare GF_slow_loop.simps [simp del]

lemma and_128_iff: "(X :: u8) AND 128 \<noteq> 0 \<longleftrightarrow> bit X 7"
proof
  assume "bit X 7"
  then have "bit (X AND 128) 7" by (simp add: bit_and_iff)
  then show "X AND 128 \<noteq> 0" by (metis bit_0_eq bot_apply bot_bool_def)
next
  assume "X AND 128 \<noteq> 0"
  then obtain n where n: "bit (X AND 128) n" by (metis bit_eqI bit_0_eq bot_apply bot_bool_def)
  have "(128 :: u8) = 2 ^ 7" by simp
  with n have "n = 7" by (auto simp only: bit_and_iff bit_exp_iff)
  with n show "bit X 7" by (simp add: bit_and_iff)
qed

lemma and_1_iff: "(Y :: u8) AND 1 \<noteq> 0 \<longleftrightarrow> bit Y 0"
  by (simp add: and_one_eq bit_0 odd_iff_mod_2_eq_one)

lemma slow_loop:
  assumes c: "byte_symbols c" and "unat Y < 2 ^ n"
  shows "GF_slow_loop c 0x1D X Y P = P XOR gmul_bits n X Y"
  using assms(2)
proof (induction n arbitrary: X Y P)
  case 0
  then have "Y = 0" by (simp add: unat_eq_zero)
  then show ?case by (simp add: GF_slow_loop.simps)
next
  case (Suc n)
  have N: "FEC_N c div 2 = 128" using c by (simp add: byte_symbols_def)
  have xt: "(if X AND of_nat (FEC_N c div 2) \<noteq> 0 then push_bit 1 X XOR 0x1D else push_bit 1 X) = xtime X"
    unfolding N using and_128_iff [of X] by (simp add: xtime_def)
  have "unat (drop_bit 1 Y) < 2 ^ n" unfolding unat_drop_bit_1 using Suc.prems by simp
  note IH = Suc.IH [OF this]
  show ?case
  proof (cases "X > 0 \<and> Y > 0")
    case True
    then have "GF_slow_loop c 0x1D X Y P =
        GF_slow_loop c 0x1D (xtime X) (drop_bit 1 Y) (if bit Y 0 then P XOR X else P)"
      unfolding GF_slow_loop.simps [of c _ X Y] xt and_1_iff by (rule if_P)
    then show ?thesis unfolding IH by (simp add: xor.assoc)
  next
    case False
    then have "X = 0 \<or> Y = 0" using word_gt_0 [of X] word_gt_0 [of Y] by blast
    then show ?thesis
      using False by (auto simp: GF_slow_loop.simps [of c _ X Y] simp del: gmul_bits.simps)
  qed
qed

lemma GF_slow_multiply_gmul:
  assumes "byte_symbols c"
  shows "GF_slow_multiply c X Y = gmul X Y"
proof -
  have "word_of_int 0x11D = (0x1D :: u8)" by simp
  then have "word_of_int (Get_primitive_polynomial c) = (0x1D :: u8)"
    unfolding Get_primitive_polynomial_def byte_symbolsD(1) [OF assms] by simp
  then show ?thesis using slow_loop [OF assms, of Y 8 X 0] by (simp add: GF_slow_multiply_def gmul_def)
qed

lemma GF_slow_invert_ginv:
  assumes "byte_symbols c"
  shows "GF_slow_invert c X = ginv X"
proof -
  have "for_loop 0 n (\<lambda>i P. GF_slow_multiply c P X) 1 = (gmul X ^^ n) 1" for n
    by (induction n) (simp_all add: for_loop_Suc GF_slow_multiply_gmul [OF assms] gmul_commute [of X])
  then show ?thesis using assms by (simp add: GF_slow_invert_def ginv_def byte_symbols_def)
qed

interpretation slow_arith: gf_arith byte_symbols GF_slow_multiply GF_slow_invert
  by unfold_locales (simp_all add: GF_slow_multiply_gmul GF_slow_invert_ginv gf_gmul gf_ginv)

section \<open>Tables\<close>

lemma exp_table:
  assumes c: "byte_symbols c" and T: "length T = 256"
  shows "length (Generate_exp_table c T) = 256 \<and> (\<forall>i<256. Generate_exp_table c T ! i = gexp i)"
proof -
  have N: "FEC_N c = 256" and M: "FEC_M c = 8" using c by (simp_all add: byte_symbols_def)
  have "(1::nat) \<le> 256" by simp
  then show ?thesis
    unfolding Generate_exp_table_def N
  proof (induction rule: for_loop_induct [where P = "\<lambda>n T. length T = 256 \<and> (\<forall>i<n. T ! i = gexp i)"])
    case init
    then show ?case using T by simp
  next
    case (step i T)
    then have i: "1 \<le> i" "i < 256" and "T ! (i - 1) = gexp (i - 1)" by simp_all
    moreover have "gexp i = xtime (gexp (i - 1))" using i gexp_Suc [of "i - 1"] by simp
    ultimately show ?case
      using step by (auto simp: Let_def xtime_int Get_primitive_polynomial_def M mult.commute less_Suc_eq nth_list_update)
  qed
qed

lemma GF_exp_gexp: "byte_symbols c \<Longrightarrow> GF_exp c X = gexp (unat X)"
  using exp_table [of c "replicate 256 0"] by (simp add: GF_exp_def byte_symbols_def)

lemma log_table:
  assumes c: "byte_symbols c" and T: "length T = 256" and x: "x \<noteq> 0"
  shows "0 < unat (Generate_log_table c T ! unat x) \<and> gexp (unat (Generate_log_table c T ! unat x)) = x"
proof -
  have N: "FEC_N c = 256" using c by (simp_all add: byte_symbols_def)
  define E where "E = Generate_exp_table c (replicate 256 0)"
  have E: "E ! i = gexp i" if "i < 256" for i using exp_table [OF c, of "replicate 256 0"] that by (simp add: E_def)
  have "(1::nat) \<le> 256" by simp
  then have "length (Generate_log_table c T) = 256 \<and> (\<forall>j. 1 \<le> j \<longrightarrow> j < 256 \<longrightarrow>
      0 < unat (Generate_log_table c T ! unat (gexp j)) \<and> gexp (unat (Generate_log_table c T ! unat (gexp j))) = gexp j)"
    unfolding Generate_log_table_def N E_def [symmetric] Let_def
  proof (induction rule: for_loop_induct [where P = "\<lambda>n T. length T = 256 \<and> (\<forall>j. 1 \<le> j \<longrightarrow> j < n \<longrightarrow>
      0 < unat (T ! unat (gexp j)) \<and> gexp (unat (T ! unat (gexp j))) = gexp j)"])
    case init
    then show ?case using T by simp
  next
    case (step i T)
    then have i: "1 \<le> i" "i < 256" by simp_all
    then have "unat (of_nat i :: u8) = i" by (intro unat_of_nat_u8) simp
    with i show ?case using step by (auto simp: E nth_list_update less_Suc_eq)
  qed
  moreover obtain j where "1 \<le> j" "j < 256" "gexp j = x"
  proof -
    obtain j where j: "j < 255" "x = gexp j" using gexp_surj [OF x] .
    show thesis
    proof (cases "j = 0")
      case True
      then show thesis using that [of 255] j gexp_period [of 0] by simp
    next
      case False
      then show thesis using that [of j] j by simp
    qed
  qed
  ultimately show ?thesis by auto
qed

lemma GF_log_gexp:
  assumes "byte_symbols c" and "x \<noteq> 0"
  shows "0 < unat (GF_log c x)" and "gexp (unat (GF_log c x)) = x"
  using log_table [OF assms(1) _ assms(2), of "replicate 256 0"] assms(1) by (simp_all add: GF_log_def byte_symbols_def)

lemma GF_multiply_gmul:
  assumes c: "byte_symbols c"
  shows "GF_multiply c X Y = gmul X Y"
proof (cases "X = 0 \<or> Y = 0")
  case False
  let ?S = "unat (GF_log c X) + unat (GF_log c Y)"
  have N: "FEC_N c = 256" using c by (simp add: byte_symbols_def)
  have "unat (GF_log c X) < 256" "unat (GF_log c Y) < 256" by simp_all
  then have "?S - 255 < 256" and "\<not> 255 < ?S \<Longrightarrow> ?S < 256" by linarith+
  then have "unat (Modulo_add c (GF_log c X) (GF_log c Y)) = (if ?S > 255 then ?S - 255 else ?S)"
    unfolding Modulo_add_def Let_def N by (simp add: unat_of_nat_u8 del: of_nat_add)
  moreover have "gexp (?S - 255) = gexp ?S" if "255 < ?S" using that gexp_period [of "?S - 255"] by simp
  moreover have "gexp ?S = gmul X Y"
    using False GF_log_gexp(2) [OF c, of X] GF_log_gexp(2) [OF c, of Y] by (simp flip: gmul_gexp)
  ultimately show ?thesis using False by (simp add: GF_multiply_def GF_exp_gexp [OF c] word_neq_0_conv [symmetric])
qed (auto simp: GF_multiply_def)

section \<open>The generator equals the weights of the reference coder\<close>

lemma gen_weight_step_eq:
  assumes "tables_ok t" and "byte_symbols c" and "FEC_MAX_N c \<le> 255" and "j < FEC_MAX_N c"
  shows "gen_weight_step c i j m = weight_step c t i j m"
  using assms FEC_GF_MULT_nat [OF assms(1,2), of "j + 1"]
  by (simp add: gen_weight_step_def weight_step_def GF_slow_multiply_gmul del: of_nat_Suc of_nat_add)

lemma gen_weights:
  assumes c: "byte_symbols c" and N: "FEC_MAX_N c \<le> 255" and m: "length m = FEC_MAX_H * FEC_MAX_N c"
  shows "weights_upto c FEC_MAX_H 0 (for_loop 0 FEC_MAX_H (\<lambda>i. for_loop 0 (FEC_MAX_N c) (gen_weight_step c i)) m)"
proof -
  note t = tables_generate_ok [OF c]
  have "0 \<le> FEC_MAX_H" by simp
  then show ?thesis
  proof (induction rule: for_loop_induct [where P = "\<lambda>i. weights_upto c i 0"])
    case init
    then show ?case using m by (simp add: weights_upto_def)
  next
    case (step i m)
    have "weights_upto c i (FEC_MAX_N c) (for_loop 0 (FEC_MAX_N c) (gen_weight_step c i) m)"
      using step by (intro for_loop_induct [where P = "weights_upto c i"])
        (auto simp: gen_weight_step_eq [OF t c N] intro: weight_step_ok [OF t c N])
    then show ?case by (rule weights_next_row)
  qed
qed

lemma weights_vandermonde:
  assumes "weights_upto c FEC_MAX_H 0 w"
  shows "mat_eq FEC_MAX_H (FEC_MAX_N c) (mat_of (FEC_MAX_N c) (FEC_MAX_N c) w) (vandermonde (rs_point c))"
  unfolding mat_eq_def
proof (intro allI impI)
  let ?N = "FEC_MAX_N c"
  fix i j assume "i < FEC_MAX_H" and j: "j < ?N"
  then have "gf (w ! (i * ?N + (?N - 1 - j))) = gf (of_nat (?N - 1 - j + 1)) ^ i"
    using assms [unfolded weights_upto_def, THEN conjunct2, rule_format, of i "?N - 1 - j"] by linarith
  moreover have "i * ?N + ?N - 1 - j = i * ?N + (?N - 1 - j)" and "?N - 1 - j + 1 = ?N - j" using j by auto
  ultimately show "mat_of ?N ?N w i j = vandermonde (rs_point c) i j"
    by (simp only: mat_of_def vandermonde_def rs_point_def)
qed

lemma gen_subtract_eq: "gen_subtract c k m = add_pivot_row FEC_MAX_H (FEC_MAX_N c) (FEC_MAX_N c) k m"
  unfolding gen_subtract_def add_pivot_row_def Let_def GF_substract_def by (rule for_loop_cong) simp

lemma gen_normalise_mat:
  assumes "byte_symbols c" and "fits FEC_MAX_H (FEC_MAX_N c) (FEC_MAX_N c) m" and "k < FEC_MAX_N c"
  shows "mat_step FEC_MAX_H (FEC_MAX_N c) (FEC_MAX_N c) m (gen_normalise c k m)
    (norm_rows FEC_MAX_H k (mat_of (FEC_MAX_N c) (FEC_MAX_N c) m))"
  unfolding gen_normalise_def using assms by (rule slow_arith.normalise_pass)

lemma gen_matrix_mat:
  assumes c: "byte_symbols c" and gfit: "group_fits c"
  shows "length (gen_matrix c) = FEC_MAX_H * FEC_MAX_N c"
    and "mat_eq FEC_MAX_H (FEC_MAX_N c) (mat_of (FEC_MAX_N c) (FEC_MAX_N c) (gen_matrix c))
      (elim FEC_MAX_H FEC_MAX_H (vandermonde (rs_point c)))"
proof -
  let ?N = "FEC_MAX_N c" and ?V = "vandermonde (rs_point c)"
  have N: "FEC_MAX_H \<le> ?N" "?N \<le> 255" "0 < ?N" using gfit by (auto simp: group_fits_def FEC_MAX_H_def)
  define m0 where "m0 = for_loop 0 FEC_MAX_H (\<lambda>i. for_loop 0 ?N (gen_weight_step c i)) (replicate (FEC_MAX_H * ?N) 0)"
  have w: "weights_upto c FEC_MAX_H 0 m0" unfolding m0_def using c N(2) by (rule gen_weights) simp
  then have fits: "fits FEC_MAX_H ?N ?N m0" using N by (simp add: fits_def weights_upto_def)
  have m: "gen_matrix c = for_loop 0 FEC_MAX_H (\<lambda>k m. add_pivot_row FEC_MAX_H ?N ?N k (gen_normalise c k m)) m0"
    by (simp add: gen_matrix_def m0_def gen_subtract_eq Let_def)
  have step: "mat_step FEC_MAX_H ?N ?N m0 (gen_matrix c) (elim FEC_MAX_H FEC_MAX_H (mat_of ?N ?N m0))"
    unfolding m using gen_normalise_mat [OF c] fits N(1) by (intro elim_loop) auto
  moreover have "mat_eq FEC_MAX_H ?N (elim FEC_MAX_H FEC_MAX_H (mat_of ?N ?N m0)) (elim FEC_MAX_H FEC_MAX_H ?V)"
    using weights_vandermonde [OF w] N(1) by (intro elim_cong) auto
  ultimately show "mat_eq FEC_MAX_H ?N (mat_of ?N ?N (gen_matrix c)) (elim FEC_MAX_H FEC_MAX_H ?V)"
    using mat_eq_trans by blast
  show "length (gen_matrix c) = FEC_MAX_H * ?N" using step w by (simp add: same_frame_def weights_upto_def)
qed

text \<open>A loop that fills the rows of a two-dimensional array from right to left.\<close>

lemma fill_from_right:
  assumes "length g = R" and "\<And>r. r \<in> set g \<Longrightarrow> length r = C"
  shows "for_loop 0 R (\<lambda>i g. for_loop 0 C (\<lambda>j g. g[i := (g ! i)[C - 1 - j := f i (C - 1 - j)]]) g) g =
    map (\<lambda>i. map (f i) [0..<C]) [0..<R]"
proof -
  have row: "for_loop 0 n (\<lambda>j g. g[i := (g ! i)[C - 1 - j := f i (C - 1 - j)]]) g =
      g[i := take (C - n) (g ! i) @ map (f i) [C - n..<C]]"
    if "i < length g" "length (g ! i) = C" "n \<le> C" for n i and g :: "'a list list"
    using that(3)
  proof (induction n)
    case (Suc n)
    have C: "C - n = Suc (C - Suc n)" using Suc.prems by simp
    then have "take (C - n) (g ! i) = take (C - Suc n) (g ! i) @ [g ! i ! (C - Suc n)]"
      using that Suc.prems by (simp add: take_Suc_conv_app_nth)
    moreover have "[C - Suc n..<C] = (C - Suc n) # [C - n..<C]" using Suc.prems C by (simp add: upt_conv_Cons)
    ultimately have "(take (C - n) (g ! i) @ map (f i) [C - n..<C])[C - 1 - n := f i (C - 1 - n)] =
        take (C - Suc n) (g ! i) @ map (f i) [C - Suc n..<C]"
      using that by (simp add: list_update_append)
    then show ?case using Suc that by (simp add: for_loop_Suc)
  qed (use that in simp)
  have "for_loop 0 n (\<lambda>i g. for_loop 0 C (\<lambda>j g. g[i := (g ! i)[C - 1 - j := f i (C - 1 - j)]]) g) g =
      map (\<lambda>i. map (f i) [0..<C]) [0..<n] @ drop n g" if "n \<le> R" for n
    using that
  proof (induction n)
    case (Suc n)
    let ?h = "map (\<lambda>i. map (f i) [0..<C]) [0..<n] @ drop n g"
    have dr: "drop n g = g ! n # drop (Suc n) g" using Suc.prems assms(1) by (simp add: Cons_nth_drop_Suc)
    have "length (?h ! n) = C" "n < length ?h" using Suc.prems assms by (simp_all add: nth_append)
    from row [OF this(2,1) order_refl] have
      "for_loop 0 C (\<lambda>j g. g[n := (g ! n)[C - 1 - j := f n (C - 1 - j)]]) ?h = ?h[n := map (f n) [0..<C]]" by simp
    then show ?case using Suc by (simp add: for_loop_Suc dr list_update_append)
  qed simp
  from this [of R] show ?thesis using assms(1) by simp
qed

lemma elim_solve:
  assumes gfit: "group_fits c" and i: "i < FEC_MAX_H"
  defines "V \<equiv> vandermonde (rs_point c)"
  shows "elim FEC_MAX_H FEC_MAX_H V i n * inverse (elim FEC_MAX_H FEC_MAX_H V i i) = solve FEC_MAX_H V i n"
proof (cases "i < FEC_MAX_H - 1")
  case True
  then show ?thesis by (simp add: solve_def norm_diag_def)
next
  case False
  then have i': "i = FEC_MAX_H - 1" using i by simp
  have N: "FEC_MAX_H \<le> FEC_MAX_N c" "FEC_MAX_N c \<le> 255" using gfit by (simp_all add: group_fits_def)
  have "inj_on (rs_point c) {..<FEC_MAX_H}" using rs_point_inj [OF N(2)] by (rule inj_on_subset) (use N(1) in simp)
  then have "leading_regular FEC_MAX_H V" unfolding V_def by (rule vandermonde_leading_regular)
  then have "elim FEC_MAX_H FEC_MAX_H V i i = 1" unfolding i' using i by (intro elim_last_one) auto
  then show ?thesis using False by (simp add: solve_def norm_diag_def)
qed

lemma hls_generator_entry:
  assumes c: "byte_symbols c" and gfit: "group_fits c" and i: "i < FEC_MAX_H" and j: "j < FEC_MAX_K"
  shows "gf (hls_generator c ! i ! j) = solve FEC_MAX_H (vandermonde (rs_point c)) i (FEC_MAX_N c - 1 - j)"
proof -
  let ?N = "FEC_MAX_N c" and ?V = "vandermonde (rs_point c)" and ?m = "gen_matrix c"
  have N: "FEC_MAX_K + FEC_MAX_H \<le> ?N" "?N \<le> 255" using gfit by (auto simp: group_fits_def)
  define f where "f i j = GF_slow_multiply c (?m ! (i * ?N + j)) (GF_slow_invert c (?m ! (i * ?N + ?N - 1 - i)))" for i j
  have "hls_generator c = map (\<lambda>i. map (f i) [0..<FEC_MAX_K]) [0..<FEC_MAX_H]"
    unfolding hls_generator_def Generate_generator_def Let_def f_def by (rule fill_from_right) auto
  then have entry: "hls_generator c ! i ! j = f i j" using i j by simp
  have m: "mat_of ?N ?N ?m i n = elim FEC_MAX_H FEC_MAX_H ?V i n" if "n < ?N" for n
    using gen_matrix_mat(2) [OF c gfit] i that by (simp add: mat_eq_def)
  have "gf (?m ! (i * ?N + j)) = elim FEC_MAX_H FEC_MAX_H ?V i (?N - 1 - j)"
    using m [of "?N - 1 - j"] N j by (simp add: mat_of_def)
  moreover have "gf (?m ! (i * ?N + ?N - 1 - i)) = elim FEC_MAX_H FEC_MAX_H ?V i i"
    using m [of i] N i by (simp add: mat_of_def)
  ultimately have "gf (hls_generator c ! i ! j) =
      elim FEC_MAX_H FEC_MAX_H ?V i (?N - 1 - j) * inverse (elim FEC_MAX_H FEC_MAX_H ?V i i)"
    by (simp only: entry f_def slow_arith.mul_ok [OF c] slow_arith.inv_ok [OF c])
  then show ?thesis by (simp only: elim_solve [OF gfit i])
qed

lemma hls_generator_weight:
  assumes c: "coder_ready c lookup s" and i: "i < FEC_MAX_H" and j: "j < FEC_MAX_K"
  shows "hls_generator c ! i ! j = weight c s i j"
proof -
  let ?N = "FEC_MAX_N c"
  have b: "byte_symbols c" "group_fits c" and sys: "systematic FEC_MAX_H ?N (rs_point c) (mat_of ?N ?N (fec_weights s))"
    using c by (simp_all add: coder_ready_def code_ok_def)
  have N: "FEC_MAX_K + FEC_MAX_H \<le> ?N" "?N \<le> 255" using b(2) by (auto simp: group_fits_def)
  have inj: "inj_on (rs_point c) {..<?N}" using N(2) by (rule rs_point_inj)
  then have "inj_on (rs_point c) {..<FEC_MAX_H}" by (rule inj_on_subset) (use N(1) in simp)
  then have "systematic FEC_MAX_H ?N (rs_point c) (solve FEC_MAX_H (vandermonde (rs_point c)))" by (rule systematic_solve)
  from systematic_unique [OF this sys inj _ i, of "?N - 1 - j"] N j
  have "gf (hls_generator c ! i ! j) = gf (weight c s i j)"
    by (simp add: hls_generator_entry [OF b i j] weight_mat del: One_nat_def)
  then show ?thesis by simp
qed

section \<open>Incremental encoding\<close>

lemma incremental_encode_nth:
  assumes c: "byte_symbols c" and P: "length P = FEC_MAX_H" and i: "i < FEC_MAX_H"
  shows "length (Incremental_encode c d P k h Clear) = FEC_MAX_H"
    and "gf (Incremental_encode c d P k h Clear ! i) =
      (if i < h then (if Clear then 0 else gf (P ! i)) + gf d * gf (hls_generator c ! i ! k) else gf (P ! i))"
proof -
  let ?f = "\<lambda>i P. if i < h then P[i := GF_add (if Clear then 0 else P ! i) (GF_multiply c d (hls_generator c ! i ! k))] else P"
  have "0 \<le> FEC_MAX_H" by simp
  then have "length (for_loop 0 FEC_MAX_H ?f P) = FEC_MAX_H \<and> (\<forall>j<FEC_MAX_H. gf (for_loop 0 FEC_MAX_H ?f P ! j) =
      (if j < FEC_MAX_H \<and> j < h then (if Clear then 0 else gf (P ! j)) + gf d * gf (hls_generator c ! j ! k) else gf (P ! j)))"
  proof (induction rule: for_loop_induct [where P = "\<lambda>n Q. length Q = FEC_MAX_H \<and> (\<forall>j<FEC_MAX_H. gf (Q ! j) =
      (if j < n \<and> j < h then (if Clear then 0 else gf (P ! j)) + gf d * gf (hls_generator c ! j ! k) else gf (P ! j)))"])
    case init
    then show ?case using P by simp
  next
    case (step n Q)
    then have Q: "length Q = FEC_MAX_H" "gf (Q ! n) = gf (P ! n)" by auto
    show ?case
      using step Q(1) Q(2) by (auto simp: nth_list_update less_Suc_eq GF_add_def gf_xor gf_gmul GF_multiply_gmul [OF c])
  qed
  then show "length (Incremental_encode c d P k h Clear) = FEC_MAX_H"
    "gf (Incremental_encode c d P k h Clear ! i) =
      (if i < h then (if Clear then 0 else gf (P ! i)) + gf d * gf (hls_generator c ! i ! k) else gf (P ! i))"
    using i by (simp_all add: Incremental_encode_def)
qed

section \<open>Cross-check against the reference coder\<close>

text \<open>\<^verbatim>\<open>RSE_core_test.c\<close> runs this encoder beside \<^verbatim>\<open>matrix_multiply\<close> and compares.\<close>

definition test_data :: "rse_h \<Rightarrow> fec_block \<Rightarrow> mem \<Rightarrow> nat \<Rightarrow> nat \<Rightarrow> fec_sym" where
  \<comment> \<open>\<open>Data[i]\<close>\<close>
  "test_data c b m Position i =
     (if Position + 1 = block_C b \<and> FEC_EXTRA_COLS c > 0 then of_nat (plen b ! i)
      else if Position < plen b ! i then m (pdata b ! i) Position else 0)"

definition test_parity :: "rse_h \<Rightarrow> fec_block \<Rightarrow> mem \<Rightarrow> nat \<Rightarrow> nat \<Rightarrow> nat \<Rightarrow> fec_sym list" where
  "test_parity c b m Data_packet_count Parity_packet_count Position =
     for_loop 0 Data_packet_count
       (\<lambda>i P. Incremental_encode c (test_data c b m Position i) P i Parity_packet_count (i = 0))
       (replicate FEC_MAX_H 0)"

definition Verify_matrix_multiply :: "rse_h \<Rightarrow> nat \<Rightarrow> nat \<Rightarrow> nat \<Rightarrow> nat \<Rightarrow> coder \<Rightarrow> bool" where
  \<comment> \<open>\<open>False\<close> when the program exits with a mismatch\<close>
  "Verify_matrix_multiply c fb Data_packet_count Parity_packet_count Position g =
     (let b = fbk g ! fb in
      if \<not> list_all (\<lambda>i. pstat b ! i = FEC_FLAG_KNOWN) [0..<Data_packet_count] then True
      else if \<not> list_all (\<lambda>i. pstat b ! (Data_packet_count + i) = FEC_FLAG_WANTED) [0..<Parity_packet_count] then True
      else list_all (\<lambda>i. fcm_d g ! cell i 0 =
             test_parity c b (memory g) Data_packet_count Parity_packet_count Position ! i) [0..<Parity_packet_count])"

definition encode_matrix :: "rse_h \<Rightarrow> nat \<Rightarrow> nat \<Rightarrow> nat \<Rightarrow> nat \<Rightarrow> coder \<Rightarrow> coder" where
  "encode_matrix c fb Data_packet_count Parity_packet_count Position g =
     (let P = test_parity c (fbk g ! fb) (memory g) Data_packet_count Parity_packet_count Position
      in for_loop 0 Parity_packet_count (\<lambda>i g. g\<lparr>fcm_d := (fcm_d g)[cell i 0 := P ! i]\<rparr>) g)"

lemma test_parity_sum:
  assumes c: "byte_symbols c" and i: "i < n" "i < FEC_MAX_H"
  shows "gf (test_parity c b m k n col ! i) = (\<Sum>d<k. gf (test_data c b m col d) * gf (hls_generator c ! i ! d))"
proof -
  have "length (test_parity c b m k n col) = FEC_MAX_H \<and> gf (test_parity c b m k n col ! i) =
      (\<Sum>d<k. gf (test_data c b m col d) * gf (hls_generator c ! i ! d))"
    unfolding test_parity_def
  proof (induction k)
    case (Suc k)
    then show ?case
      using incremental_encode_nth [OF c _ i(2)] i(1) by (simp add: for_loop_Suc)
  qed (use i in simp)
  then show ?thesis ..
qed

definition group_layout :: "rse_h \<Rightarrow> fec_block \<Rightarrow> nat \<Rightarrow> nat \<Rightarrow> bool" where
  \<comment> \<open>\<open>k\<close> data packets followed by \<open>n\<close> parities, with their codeword indices\<close>
  "group_layout c b k n \<longleftrightarrow> k \<le> FEC_MAX_K \<and> n \<le> FEC_MAX_H \<and>
     (\<forall>i<k. unat (cbi b ! i) = i) \<and> (\<forall>i<n. unat (cbi b ! (k + i)) = FEC_MAX_N c - 1 - i)"

lemma test_data_known_symbol:
  assumes "group_layout c b k n" and "i < k" and "FEC_EXTRA_COLS c \<le> 1" and "col < block_C b"
  shows "test_data c b m col i = known_symbol c b m i col"
proof (cases "FEC_EXTRA_COLS c = 0")
  case True
  then show ?thesis using assms by (simp add: test_data_def known_symbol_def)
next
  case False
  then have E: "FEC_EXTRA_COLS c = 1" using assms(3) by simp
  have "unat (cbi b ! i) < FEC_MAX_K" using assms(1,2) by (auto simp: group_layout_def)
  moreover have "block_C b - 1 \<le> col \<longleftrightarrow> col + 1 = block_C b" using assms(4) by auto
  moreover have "block_C b - col - 1 = 0" if "col + 1 = block_C b" using that by simp
  ultimately show ?thesis by (auto simp: test_data_def known_symbol_def E)
qed

lemma hls_parity_accumulated:
  assumes c: "coder_ready c lookup s" and lay: "group_layout c b k n" and i: "i < n"
    and E: "FEC_EXTRA_COLS c \<le> 1" and col: "col < block_C b"
  shows "gf (test_parity c b m k n col ! i) = accumulated c s b m [0..<k] (parity_row c b (k + i)) col"
proof -
  have b: "byte_symbols c" "group_fits c" using c by (simp_all add: coder_ready_def)
  have iH: "i < FEC_MAX_H" and k: "k \<le> FEC_MAX_K" using lay i by (auto simp: group_layout_def)
  have "unat (cbi b ! (k + i)) = FEC_MAX_N c - 1 - i" using lay i by (simp add: group_layout_def)
  then have row: "parity_row c b (k + i) = i"
    using parity_row_eq [of c b "k + i"] b(2) iH by (auto simp: group_fits_def)
  have "gf (test_parity c b m k n col ! i) = (\<Sum>d<k. gf (weight c s i d) * gf (known_symbol c b m d col))"
    using test_parity_sum [OF b(1) i iH, of b m k col] hls_generator_weight [OF c iH] k
      test_data_known_symbol [OF lay _ E col, of _ m] by (simp add: mult.commute)
  also have "\<dots> = accumulated c s b m [0..<k] i col"
    unfolding accumulated_def using lay
    by (subst sum_list_distinct_conv_sum_set) (auto simp: group_layout_def intro!: sum.cong)
  finally show ?thesis by (simp add: row)
qed

end
