(* ===== verification/Rse_Core.thy ===== *)
theory Rse_Core
  imports Hls_Encoder
begin

text \<open>
  The packet encoder of the FPGA design, \<^verbatim>\<open>FPGA/RSEVivadoHLS/RSECore.c\<close>. Packets arrive and
  leave as sequences of 64-bit words. While a group is being collected every packet is passed
  through and added to the parity buffers; when all data packets of the group have
  been seen, each call emits one parity packet.

  The state is the set of static variables. The main results are the invariant that the
  buffers hold the parity of the packets seen so far, padded to the longest of them, and the
  contents of the parity packets that are emitted.
\<close>

section \<open>Constants and data\<close>

definition HEADER_SIZE :: nat where "HEADER_SIZE = 112 div 8"
definition LENGTH_SIZE :: nat where "LENGTH_SIZE = 16 div 8"
definition LENGTH_OFFSET :: nat where "LENGTH_OFFSET = HEADER_SIZE"
definition PAYLOAD_OFFSET :: nat where "PAYLOAD_OFFSET = LENGTH_OFFSET + LENGTH_SIZE"
definition FEC_HDR_WIDTH :: nat where "FEC_HDR_WIDTH = 3 + 5 + 8 + 16 + 16"
definition FEC_MAX_PACKET_SIZE :: nat where "FEC_MAX_PACKET_SIZE = 1518"

record fec_header =
  hdr_Packet_length :: u16
  hdr_Original_type :: u16
  hdr_Packet_index :: u8
  hdr_Block_index :: "5 word"
  hdr_Traffic_class :: "3 word"
  hdr_Is_valid :: bool

record input_tuple =
  in_h :: u8
  in_k :: u8
  in_fec :: fec_header
  in_Valid :: bool

record packet_interface =
  pi_Error :: bool
  pi_Count :: nat \<comment> \<open>4 bits: the number of valid bytes, at most 8\<close>
  pi_Data :: u64
  pi_End_of_frame :: bool
  pi_Start_of_frame :: bool

record rse_core =
  Header :: "fec_sym list"
  Parity_buffer :: "fec_sym list list"
  Packet_length_parity :: "fec_sym list list"
  Packet_index :: u8
  Maximum_packet_length :: nat

definition core_zero :: rse_core where
  "core_zero = \<lparr>Header = replicate HEADER_SIZE 0,
     Parity_buffer = replicate FEC_MAX_PACKET_SIZE (replicate FEC_MAX_H 0),
     Packet_length_parity = replicate LENGTH_SIZE (replicate FEC_MAX_H 0),
     Packet_index = 0, Maximum_packet_length = 0\<rparr>"

definition data_byte :: "u64 \<Rightarrow> nat \<Rightarrow> fec_sym" where
  \<comment> \<open>\<open>(Input.Data >> 8 * (7 - Byte_offset)) & 0xFF\<close>\<close>
  "data_byte w i = ucast (drop_bit (8 * (7 - i)) w AND 0xFF)"

section \<open>Operations\<close>

fun Ignore_packet :: "packet_interface list \<Rightarrow> packet_interface list option" where
  \<comment> \<open>\<open>None\<close> when the input ends before a word with \<open>End_of_frame\<close>\<close>
  "Ignore_packet [] = None"
| "Ignore_packet (Input # ws) =
     (if pi_End_of_frame Input then Some [Input] else map_option ((#) Input) (Ignore_packet ws))"

definition encode_byte :: "rse_h \<Rightarrow> nat \<Rightarrow> packet_interface \<Rightarrow> nat \<Rightarrow> nat \<Rightarrow> rse_core \<Rightarrow> rse_core" where
  \<comment> \<open>one iteration over the bytes of a word; \<open>Offset\<close> is \<open>8 * Word_offset + Byte_offset\<close>\<close>
  "encode_byte c h Input Word_offset Byte_offset s =
     (let Offset = 8 * Word_offset + Byte_offset;
          s1 = (if Offset < HEADER_SIZE
                then s\<lparr>Header := (Header s)[Offset := data_byte (pi_Data Input) Byte_offset]\<rparr> else s)
      in if Byte_offset < pi_Count Input then
           let Initialize = (Packet_index s1 = 0 \<or> Offset \<ge> Maximum_packet_length s1);
               Symbol = data_byte (pi_Data Input) Byte_offset
           in s1\<lparr>Parity_buffer := (Parity_buffer s1)[Offset :=
                   Incremental_encode c Symbol (Parity_buffer s1 ! Offset) (unat (Packet_index s1)) h Initialize]\<rparr>
         else s1)"

fun encode_words :: "rse_h \<Rightarrow> nat \<Rightarrow> packet_interface list \<Rightarrow> nat \<Rightarrow> nat \<Rightarrow> rse_core \<Rightarrow>
    (rse_core \<times> packet_interface list \<times> nat) option" where
  \<comment> \<open>the \<open>do \<dots> while (!End)\<close> loop: state, output words, packet length\<close>
  "encode_words c h [] Word_offset Packet_length s = None"
| "encode_words c h (Input # ws) Word_offset Packet_length s =
     (let s1 = for_loop 0 8 (encode_byte c h Input Word_offset) s;
          Packet_length' = Packet_length + pi_Count Input
      in if pi_End_of_frame Input then Some (s1, [Input], Packet_length')
         else case encode_words c h ws (Word_offset + 1) Packet_length' s1 of
                None \<Rightarrow> None
              | Some (s2, out, len) \<Rightarrow> Some (s2, Input # out, len))"

definition encode_length :: "rse_h \<Rightarrow> nat \<Rightarrow> nat \<Rightarrow> rse_core \<Rightarrow> rse_core" where
  \<comment> \<open>the parity of the two bytes of the packet length\<close>
  "encode_length c h Packet_length s =
     for_loop 0 LENGTH_SIZE (\<lambda>Offset s.
       let Symbol = ucast ((drop_bit (8 * Offset) (of_nat Packet_length :: u32)) AND 0xFF) in
       s\<lparr>Packet_length_parity := (Packet_length_parity s)[Offset :=
          Incremental_encode c Symbol (Packet_length_parity s ! Offset) (unat (Packet_index s)) h (Packet_index s = 0)]\<rparr>) s"

definition Encode_packet :: "rse_h \<Rightarrow> input_tuple \<Rightarrow> fec_header \<Rightarrow> packet_interface list \<Rightarrow> rse_core \<Rightarrow>
    (rse_core \<times> fec_header \<times> packet_interface list) option" where
  \<comment> \<open>\<open>Output_tuple\<close> is the header the caller passes; two of its fields are written\<close>
  "Encode_packet c Input_tuple Output_tuple Input_packet s =
     (let s0 = (if Packet_index s = 0 then s\<lparr>Maximum_packet_length := 0\<rparr> else s) in
      case encode_words c (unat (in_h Input_tuple)) Input_packet 0 0 s0 of
        None \<Rightarrow> None
      | Some (s1, out, Packet_length) \<Rightarrow>
          let s2 = (if Packet_length > Maximum_packet_length s1 then s1\<lparr>Maximum_packet_length := Packet_length\<rparr> else s1);
              s3 = encode_length c (unat (in_h Input_tuple)) Packet_length s2;
              hdr = Output_tuple\<lparr>hdr_Packet_index := Packet_index s3,
                       hdr_Packet_length := of_nat (Packet_length + FEC_HDR_WIDTH div 8)\<rparr>
          in Some (s3\<lparr>Packet_index := Packet_index s3 + 1\<rparr>, hdr, out))"

definition parity_byte :: "input_tuple \<Rightarrow> rse_core \<Rightarrow> nat \<Rightarrow> nat \<Rightarrow> fec_sym" where
  \<comment> \<open>\<open>Input_byte\<close>: byte \<open>Offset\<close> of the parity packet\<close>
  "parity_byte Input_tuple s Packet_length Offset =
     (let r = unat (Packet_index s) - unat (in_k Input_tuple) in
      if Offset < LENGTH_OFFSET then Header s ! Offset
      else if Offset < PAYLOAD_OFFSET then
        Packet_length_parity s ! (LENGTH_SIZE - 1 - (Offset - LENGTH_OFFSET)) ! r
      else if Offset < Packet_length then Parity_buffer s ! (Offset - PAYLOAD_OFFSET) ! r
      else 0)"

definition parity_word :: "input_tuple \<Rightarrow> rse_core \<Rightarrow> nat \<Rightarrow> nat \<Rightarrow> u64" where
  \<comment> \<open>\<open>Output.Data <<= 8; Output.Data |= Input_byte\<close> for the eight bytes of a word\<close>
  "parity_word Input_tuple s Packet_length Word_offset =
     for_loop 0 8 (\<lambda>Byte_offset d.
       push_bit 8 d OR ucast (parity_byte Input_tuple s Packet_length (8 * Word_offset + Byte_offset))) 0"

definition parity_output :: "input_tuple \<Rightarrow> rse_core \<Rightarrow> nat \<Rightarrow> nat \<Rightarrow> packet_interface" where
  "parity_output Input_tuple s Packet_length Word_offset =
     (let End = (Word_offset = (Packet_length - 1) div 8); Remainder = Packet_length mod 8 in
      \<lparr>pi_Error = False, pi_Count = (if End \<and> Remainder \<noteq> 0 then Remainder else 8),
       pi_Data = parity_word Input_tuple s Packet_length Word_offset,
       pi_End_of_frame = End, pi_Start_of_frame = (Word_offset = 0)\<rparr>)"

definition Output_parity_packet :: "input_tuple \<Rightarrow> fec_header \<Rightarrow> rse_core \<Rightarrow> rse_core \<times> fec_header \<times> packet_interface list" where
  \<comment> \<open>the loop ends with word \<open>(Packet_length - 1) / 8\<close>; the length is positive\<close>
  "Output_parity_packet Input_tuple Output_tuple s =
     (let Packet_length = Maximum_packet_length s + HEADER_SIZE + LENGTH_SIZE;
          out = map (parity_output Input_tuple s Packet_length) [0..<(Packet_length - 1) div 8 + 1];
          hdr = Output_tuple\<lparr>hdr_Packet_index := Packet_index s,
                   hdr_Packet_length := of_nat (Packet_length + FEC_HDR_WIDTH div 8)\<rparr>;
          i = Packet_index s + 1
      in (s\<lparr>Packet_index := if unat i = unat (in_k Input_tuple) + unat (in_h Input_tuple) then 0 else i\<rparr>, hdr, out))"

definition RSE_core :: "rse_h \<Rightarrow> input_tuple \<Rightarrow> fec_header \<Rightarrow> packet_interface list \<Rightarrow> rse_core \<Rightarrow>
    (rse_core \<times> fec_header \<times> packet_interface list) option" where
  "RSE_core c Input_tuple Output_tuple Input_packet s =
     (if \<not> in_Valid Input_tuple then map_option (\<lambda>out. (s, Output_tuple, out)) (Ignore_packet Input_packet)
      else if Packet_index s < in_k Input_tuple then Encode_packet c Input_tuple Output_tuple Input_packet s
      else Some (Output_parity_packet Input_tuple Output_tuple s))"

section \<open>Frames\<close>

fun frame_ok :: "packet_interface list \<Rightarrow> bool" where
  \<comment> \<open>full words up to the last one, which alone ends the frame\<close>
  "frame_ok [] \<longleftrightarrow> False"
| "frame_ok [w] \<longleftrightarrow> pi_End_of_frame w \<and> 1 \<le> pi_Count w \<and> pi_Count w \<le> 8"
| "frame_ok (w # ws) \<longleftrightarrow> \<not> pi_End_of_frame w \<and> pi_Count w = 8 \<and> frame_ok ws"

definition frame_bytes :: "packet_interface list \<Rightarrow> fec_sym list" where
  "frame_bytes ws = concat (map (\<lambda>w. map (data_byte (pi_Data w)) [0..<pi_Count w]) ws)"

lemma frame_bytes_Cons: "frame_bytes (w # ws) = map (data_byte (pi_Data w)) [0..<pi_Count w] @ frame_bytes ws"
  by (simp add: frame_bytes_def)

lemma Ignore_packet_frame: "frame_ok ws \<Longrightarrow> Ignore_packet ws = Some ws"
  by (induction ws rule: frame_ok.induct) auto

section \<open>Encoding the bytes of a packet\<close>

definition core_shape :: "rse_core \<Rightarrow> bool" where
  "core_shape s \<longleftrightarrow> length (Header s) = HEADER_SIZE \<and>
     length (Parity_buffer s) = FEC_MAX_PACKET_SIZE \<and> (\<forall>P\<in>set (Parity_buffer s). length P = FEC_MAX_H) \<and>
     length (Packet_length_parity s) = LENGTH_SIZE \<and> (\<forall>P\<in>set (Packet_length_parity s). length P = FEC_MAX_H)"

lemma core_shape_zero: "core_shape core_zero"
  by (simp add: core_shape_def core_zero_def)

definition row_after :: "rse_h \<Rightarrow> nat \<Rightarrow> rse_core \<Rightarrow> fec_sym \<Rightarrow> nat \<Rightarrow> fec_sym list" where
  \<comment> \<open>row \<open>i\<close> of the parity buffer after the symbol \<open>d\<close> has been added to it\<close>
  "row_after c h s d i = Incremental_encode c d (Parity_buffer s ! i) (unat (Packet_index s)) h
     (Packet_index s = 0 \<or> Maximum_packet_length s \<le> i)"

lemma encode_byte_fields [simp]:
  "Packet_index (encode_byte c h w wo b s) = Packet_index s"
  "Maximum_packet_length (encode_byte c h w wo b s) = Maximum_packet_length s"
  "Packet_length_parity (encode_byte c h w wo b s) = Packet_length_parity s"
  by (simp_all add: encode_byte_def Let_def)

lemma encode_byte_buffer:
  "Parity_buffer (encode_byte c h w wo b s) =
     (if b < pi_Count w then (Parity_buffer s)[8 * wo + b := row_after c h s (data_byte (pi_Data w) b) (8 * wo + b)]
      else Parity_buffer s)"
  by (simp add: encode_byte_def Let_def row_after_def)

lemma encode_byte_header:
  "length (Header s) = HEADER_SIZE \<Longrightarrow> Header (encode_byte c h w wo b s) = (Header s)[8 * wo + b := data_byte (pi_Data w) b]"
  by (simp add: encode_byte_def Let_def list_update_beyond)

lemma encode_word_fields [simp]:
  "Packet_index (for_loop 0 n (encode_byte c h w wo) s) = Packet_index s"
  "Maximum_packet_length (for_loop 0 n (encode_byte c h w wo) s) = Maximum_packet_length s"
  "Packet_length_parity (for_loop 0 n (encode_byte c h w wo) s) = Packet_length_parity s"
  by (induction n) (simp_all add: for_loop_Suc)

lemma encode_word_buffer:
  "length (Parity_buffer (for_loop 0 n (encode_byte c h w wo) s)) = length (Parity_buffer s) \<and>
   (\<forall>i<length (Parity_buffer s). Parity_buffer (for_loop 0 n (encode_byte c h w wo) s) ! i =
     (if 8 * wo \<le> i \<and> i < 8 * wo + min n (pi_Count w) then row_after c h s (data_byte (pi_Data w) (i - 8 * wo)) i
      else Parity_buffer s ! i))"
proof (induction n)
  case (Suc n)
  let ?s = "for_loop 0 n (encode_byte c h w wo) s"
  have row: "row_after c h ?s d (8 * wo + n) = row_after c h s d (8 * wo + n)" if "8 * wo + n < length (Parity_buffer s)" for d
    using Suc that by (simp add: row_after_def)
  show ?case
  proof (intro conjI allI impI)
    show "length (Parity_buffer (for_loop 0 (Suc n) (encode_byte c h w wo) s)) = length (Parity_buffer s)"
      using Suc by (simp add: for_loop_Suc encode_byte_buffer)
    fix i assume "i < length (Parity_buffer s)"
    then show "Parity_buffer (for_loop 0 (Suc n) (encode_byte c h w wo) s) ! i =
     (if 8 * wo \<le> i \<and> i < 8 * wo + min (Suc n) (pi_Count w) then row_after c h s (data_byte (pi_Data w) (i - 8 * wo)) i
      else Parity_buffer s ! i)"
      using Suc row by (cases "i = 8 * wo + n") (auto simp: for_loop_Suc encode_byte_buffer)
  qed
qed auto

lemma encode_word_header:
  assumes "length (Header s) = HEADER_SIZE"
  shows "length (Header (for_loop 0 n (encode_byte c h w wo) s)) = HEADER_SIZE \<and>
   (\<forall>i<HEADER_SIZE. Header (for_loop 0 n (encode_byte c h w wo) s) ! i =
     (if 8 * wo \<le> i \<and> i < 8 * wo + n then data_byte (pi_Data w) (i - 8 * wo) else Header s ! i))"
proof (induction n)
  case (Suc n)
  let ?s = "for_loop 0 n (encode_byte c h w wo) s"
  have H: "Header (for_loop 0 (Suc n) (encode_byte c h w wo) s) = (Header ?s)[8 * wo + n := data_byte (pi_Data w) n]"
    using Suc by (simp add: for_loop_Suc encode_byte_header)
  show ?case
    unfolding H using Suc by (auto simp: nth_list_update less_Suc_eq)
qed (use assms in auto)

text \<open>The whole packet. Its words other than the last are full, so byte \<open>i\<close> is in word \<open>i div 8\<close>.\<close>

lemma frame_bytes_length: "frame_ok ws \<Longrightarrow> frame_bytes ws \<noteq> []"
  by (cases ws rule: frame_ok.cases) (auto simp: frame_bytes_Cons)

definition packet_added :: "rse_h \<Rightarrow> nat \<Rightarrow> nat \<Rightarrow> fec_sym list \<Rightarrow> rse_core \<Rightarrow> rse_core \<Rightarrow> bool" where
  \<comment> \<open>the bytes have been added to the rows from \<open>base\<close> on, and everything else is as it was\<close>
  "packet_added c h base bs s s' \<longleftrightarrow>
     Packet_index s' = Packet_index s \<and> Maximum_packet_length s' = Maximum_packet_length s \<and>
     Packet_length_parity s' = Packet_length_parity s \<and> length (Header s') = HEADER_SIZE \<and>
     length (Parity_buffer s') = length (Parity_buffer s) \<and>
     (\<forall>i<length (Parity_buffer s). Parity_buffer s' ! i =
        (if base \<le> i \<and> i < base + length bs then row_after c h s (bs ! (i - base)) i else Parity_buffer s ! i)) \<and>
     (\<forall>i<HEADER_SIZE. base \<le> i \<longrightarrow> i < base + length bs \<longrightarrow> Header s' ! i = bs ! (i - base)) \<and>
     (\<forall>i<HEADER_SIZE. i < base \<longrightarrow> Header s' ! i = Header s ! i)"

lemma encode_word_added:
  assumes "length (Header s) = HEADER_SIZE" and "pi_Count w \<le> 8"
  shows "packet_added c h (8 * wo) (map (data_byte (pi_Data w)) [0..<pi_Count w]) s (for_loop 0 8 (encode_byte c h w wo) s)"
  using encode_word_buffer [where n = 8 and c = c and h = h and w = w and wo = wo and s = s]
    encode_word_header [OF assms(1), where n = 8 and c = c and h = h and w = w and wo = wo] assms(2)
  unfolding packet_added_def by (simp add: min_absorb2) auto

lemma packet_added_append:
  assumes 1: "packet_added c h base xs s s1" and 2: "packet_added c h (base + length xs) ys s1 s2"
  shows "packet_added c h base (xs @ ys) s s2"
proof -
  have row: "row_after c h s1 d i = row_after c h s d i" if "i < length (Parity_buffer s)" "base + length xs \<le> i" for d i
    using 1 that by (simp add: packet_added_def row_after_def)
  have "Parity_buffer s2 ! i = (if base \<le> i \<and> i < base + length (xs @ ys) then row_after c h s ((xs @ ys) ! (i - base)) i
      else Parity_buffer s ! i)" if i: "i < length (Parity_buffer s)" for i
  proof (cases "base + length xs \<le> i")
    case True
    then have "\<not> i - base < length xs" "i - base - length xs = i - (base + length xs)" by simp_all
    then show ?thesis using 1 2 row [OF i True] True i by (simp add: packet_added_def nth_append)
  next
    case False
    then have "base \<le> i \<Longrightarrow> i - base < length xs" by simp
    then show ?thesis using 1 2 False i by (auto simp: packet_added_def nth_append)
  qed
  moreover have "Header s2 ! i = (xs @ ys) ! (i - base)" if i: "i < HEADER_SIZE" "base \<le> i" "i < base + length (xs @ ys)" for i
  proof (cases "base + length xs \<le> i")
    case True
    then have "\<not> i - base < length xs" "i - base - length xs = i - (base + length xs)" by simp_all
    then show ?thesis using 2 True i by (simp add: packet_added_def nth_append)
  next
    case False
    then have "i - base < length xs" using i by simp
    then show ?thesis using 1 2 False i by (simp add: packet_added_def nth_append)
  qed
  ultimately show ?thesis using 1 2 unfolding packet_added_def by simp
qed

lemma encode_words_frame:
  assumes "frame_ok ws" and "length (Header s) = HEADER_SIZE"
  shows "\<exists>s'. encode_words c h ws wo n s = Some (s', ws, n + length (frame_bytes ws)) \<and>
    packet_added c h (8 * wo) (frame_bytes ws) s s'"
  using assms
proof (induction ws arbitrary: wo n s rule: frame_ok.induct)
  case (2 w)
  then show ?case using encode_word_added [of s w c h wo] by (simp add: frame_bytes_def Let_def)
next
  case (3 w w' ws)
  let ?s1 = "for_loop 0 8 (encode_byte c h w wo) s"
  from 3 have w: "\<not> pi_End_of_frame w" "pi_Count w = 8" "frame_ok (w' # ws)" by simp_all
  have a: "packet_added c h (8 * wo) (map (data_byte (pi_Data w)) [0..<8]) s ?s1"
    using encode_word_added [of s w c h wo] 3(3) w(2) by simp
  then have "length (Header ?s1) = HEADER_SIZE" by (simp add: packet_added_def)
  from 3(1) [OF w(3) this, of "wo + 1" "n + 8"]
  obtain s' where s': "encode_words c h (w' # ws) (wo + 1) (n + 8) ?s1 = Some (s', w' # ws, n + 8 + length (frame_bytes (w' # ws)))"
    and b: "packet_added c h (8 * (wo + 1)) (frame_bytes (w' # ws)) ?s1 s'" by blast
  have "packet_added c h (8 * wo) (map (data_byte (pi_Data w)) [0..<8] @ frame_bytes (w' # ws)) s s'"
    using a by (rule packet_added_append) (use b in \<open>simp add: add.commute\<close>)
  then show ?case using s' w by (simp add: Let_def frame_bytes_Cons [of w])
qed simp

section \<open>The invariant of a group\<close>

definition length_byte :: "fec_sym list \<Rightarrow> nat \<Rightarrow> fec_sym" where
  \<comment> \<open>byte \<open>o\<close> of the length of a packet, least significant first\<close>
  "length_byte p i = ucast (drop_bit (8 * i) (of_nat (length p) :: u32) AND 0xFF)"

definition group_parity :: "rse_h \<Rightarrow> nat \<Rightarrow> (fec_sym list \<Rightarrow> fec_sym) \<Rightarrow> fec_sym list list \<Rightarrow> gf256" where
  \<comment> \<open>the weighted sum for parity \<open>r\<close> of one symbol of each packet\<close>
  "group_parity c r part ps = (\<Sum>d<length ps. gf (part (ps ! d)) * gf (hls_generator c ! r ! d))"

definition core_inv :: "rse_h \<Rightarrow> nat \<Rightarrow> fec_sym list list \<Rightarrow> rse_core \<Rightarrow> bool" where
  \<comment> \<open>the buffers after the packets \<open>ps\<close> of a group with \<open>h\<close> parities\<close>
  "core_inv c h ps s \<longleftrightarrow> core_shape s \<and>
     (ps \<noteq> [] \<longrightarrow> Maximum_packet_length s = longest ps \<and> longest ps \<le> FEC_MAX_PACKET_SIZE \<and>
       (HEADER_SIZE \<le> length (last ps) \<longrightarrow> Header s = take HEADER_SIZE (last ps))) \<and>
     (ps \<noteq> [] \<longrightarrow> (\<forall>r<h. \<forall>i<longest ps. gf (Parity_buffer s ! i ! r) = group_parity c r (\<lambda>p. padded p i) ps)) \<and>
     (ps \<noteq> [] \<longrightarrow> (\<forall>r<h. \<forall>i<LENGTH_SIZE. gf (Packet_length_parity s ! i ! r) = group_parity c r (\<lambda>p. length_byte p i) ps))"

lemma group_parity_snoc:
  "group_parity c r part (ps @ [p]) = group_parity c r part ps + gf (part p) * gf (hls_generator c ! r ! length ps)"
  by (simp add: group_parity_def nth_append)

lemma group_parity_zero: "(\<And>p. p \<in> set ps \<Longrightarrow> part p = 0) \<Longrightarrow> group_parity c r part ps = 0"
  by (simp add: group_parity_def)

lemma row_after_nth:
  assumes "byte_symbols c" and "core_shape s" and "i < FEC_MAX_PACKET_SIZE" and "h \<le> FEC_MAX_H"
  shows "length (row_after c h s d i) = FEC_MAX_H"
    and "r < h \<Longrightarrow> gf (row_after c h s d i ! r) =
      (if Packet_index s = 0 \<or> Maximum_packet_length s \<le> i then 0 else gf (Parity_buffer s ! i ! r)) +
      gf d * gf (hls_generator c ! r ! unat (Packet_index s))"
proof -
  have P: "length (Parity_buffer s ! i) = FEC_MAX_H" using assms by (simp add: core_shape_def)
  show "length (row_after c h s d i) = FEC_MAX_H"
    unfolding row_after_def by (rule incremental_encode_nth(1) [OF assms(1) P, of 0]) (simp add: FEC_MAX_H_def)
  show "gf (row_after c h s d i ! r) =
      (if Packet_index s = 0 \<or> Maximum_packet_length s \<le> i then 0 else gf (Parity_buffer s ! i ! r)) +
      gf d * gf (hls_generator c ! r ! unat (Packet_index s))" if "r < h"
    using incremental_encode_nth(2) [OF assms(1) P, of r] that assms(4) by (simp add: row_after_def)
qed

lemma encode_length_fields [simp]:
  "Packet_index (encode_length c h n s) = Packet_index s" "Header (encode_length c h n s) = Header s"
  "Parity_buffer (encode_length c h n s) = Parity_buffer s"
  "Maximum_packet_length (encode_length c h n s) = Maximum_packet_length s"
  by (simp_all add: encode_length_def LENGTH_SIZE_def numeral_2_eq_2 for_loop_Suc Let_def)

lemma encode_length_nth:
  assumes "byte_symbols c" and "core_shape s" and "i < LENGTH_SIZE" and "h \<le> FEC_MAX_H"
  shows "length (Packet_length_parity (encode_length c h (length p) s)) = LENGTH_SIZE"
    and "length (Packet_length_parity (encode_length c h (length p) s) ! i) = FEC_MAX_H"
    and "r < h \<Longrightarrow> gf (Packet_length_parity (encode_length c h (length p) s) ! i ! r) =
      (if Packet_index s = 0 then 0 else gf (Packet_length_parity s ! i ! r)) +
      gf (length_byte p i) * gf (hls_generator c ! r ! unat (Packet_index s))"
proof -
  let ?f = "\<lambda>i. Incremental_encode c (length_byte p i) (Packet_length_parity s ! i) (unat (Packet_index s)) h (Packet_index s = 0)"
  have L: "length (Packet_length_parity s) = 2" using assms(2) by (simp add: core_shape_def LENGTH_SIZE_def)
  then have E: "Packet_length_parity (encode_length c h (length p) s) = [?f 0, ?f 1]"
    by (cases "Packet_length_parity s" rule: list.exhaust; cases "tl (Packet_length_parity s)" rule: list.exhaust)
      (auto simp: encode_length_def LENGTH_SIZE_def numeral_2_eq_2 for_loop_Suc Let_def length_byte_def)
  have i: "i = 0 \<or> i = 1" using assms(3) by (auto simp: LENGTH_SIZE_def)
  then have e: "Packet_length_parity (encode_length c h (length p) s) ! i = ?f i" by (auto simp: E)
  have P: "length (Packet_length_parity s ! i) = FEC_MAX_H" using assms(2,3) by (simp add: core_shape_def)
  show "length (Packet_length_parity (encode_length c h (length p) s)) = LENGTH_SIZE" by (simp add: E LENGTH_SIZE_def)
  show "length (Packet_length_parity (encode_length c h (length p) s) ! i) = FEC_MAX_H"
    unfolding e by (rule incremental_encode_nth(1) [OF assms(1) P, of 0]) (simp add: FEC_MAX_H_def)
  show "gf (Packet_length_parity (encode_length c h (length p) s) ! i ! r) =
      (if Packet_index s = 0 then 0 else gf (Packet_length_parity s ! i ! r)) +
      gf (length_byte p i) * gf (hls_generator c ! r ! unat (Packet_index s))" if "r < h"
    using incremental_encode_nth(2) [OF assms(1) P, of r] that assms(4) by (simp add: e)
qed

text \<open>One data packet: it is passed on unchanged and added to the group.\<close>

definition data_header :: "nat \<Rightarrow> fec_sym list \<Rightarrow> fec_header \<Rightarrow> fec_header" where
  \<comment> \<open>what the encoder writes to the header of packet \<open>i\<close> with the given contents\<close>
  "data_header i p hdr = hdr\<lparr>hdr_Packet_index := of_nat i, hdr_Packet_length := of_nat (length p + FEC_HDR_WIDTH div 8)\<rparr>"

lemma packet_added_shape:
  assumes "byte_symbols c" and "core_shape s" and "h \<le> FEC_MAX_H" and "packet_added c h 0 p s s'"
  shows "core_shape s'"
proof -
  have L: "length (Parity_buffer s) = FEC_MAX_PACKET_SIZE" "\<And>i. i < FEC_MAX_PACKET_SIZE \<Longrightarrow> length (Parity_buffer s ! i) = FEC_MAX_H"
    using assms(2) by (simp_all add: core_shape_def)
  have "length (Parity_buffer s' ! i) = FEC_MAX_H" if "i < FEC_MAX_PACKET_SIZE" for i
    using assms(4) L that row_after_nth(1) [OF assms(1,2) that assms(3)] by (simp add: packet_added_def)
  then show ?thesis
    using assms(2,4) L(1) by (auto simp: core_shape_def packet_added_def in_set_conv_nth)
qed

lemma packet_added_parity:
  assumes c: "byte_symbols c" and inv: "core_inv c h ps s" and idx: "unat (Packet_index s) = length ps" and h: "h \<le> FEC_MAX_H"
    and a: "packet_added c h 0 p (if Packet_index s = 0 then s\<lparr>Maximum_packet_length := 0\<rparr> else s) s'"
    and r: "r < h" and i: "i < longest (ps @ [p])" "longest (ps @ [p]) \<le> FEC_MAX_PACKET_SIZE"
  shows "gf (Parity_buffer s' ! i ! r) = group_parity c r (\<lambda>p. padded p i) (ps @ [p])"
proof -
  define s0 where "s0 = (if Packet_index s = 0 then s\<lparr>Maximum_packet_length := 0\<rparr> else s)"
  have z: "Packet_index s = 0 \<longleftrightarrow> ps = []" using idx by (metis length_0_conv unat_eq_zero)
  have s0: "core_shape s0" "Packet_index s0 = Packet_index s" "Parity_buffer s0 = Parity_buffer s"
    "Maximum_packet_length s0 = longest ps" using inv z by (auto simp: s0_def core_inv_def core_shape_def)
  have iF: "i < FEC_MAX_PACKET_SIZE" using i by (rule less_le_trans)
  have len: "length (Parity_buffer s0) = FEC_MAX_PACKET_SIZE" using s0(1) by (simp add: core_shape_def)
  have old: "group_parity c r (\<lambda>p. padded p i) ps = (if Packet_index s = 0 \<or> longest ps \<le> i then 0 else gf (Parity_buffer s ! i ! r))"
    using inv r z padded_beyond [of ps i] by (auto simp: core_inv_def intro!: group_parity_zero)
  show ?thesis
  proof (cases "i < length p")
    case True
    then have "Parity_buffer s' ! i = row_after c h s0 (p ! i) i"
      using a iF len unfolding packet_added_def s0_def [symmetric] by simp
    then have "gf (Parity_buffer s' ! i ! r) = group_parity c r (\<lambda>p. padded p i) ps + gf (p ! i) * gf (hls_generator c ! r ! length ps)"
      using row_after_nth(2) [OF c s0(1) iF h r, of "p ! i"] by (simp add: s0 idx old)
    then show ?thesis using True by (simp add: group_parity_snoc padded_def [of p])
  next
    case False
    then have lt: "i < longest ps" using i(1) by simp
    then have "Packet_index s \<noteq> 0" using z by auto
    moreover have "Parity_buffer s' ! i = Parity_buffer s ! i"
      using a False iF len s0(3) unfolding packet_added_def s0_def [symmetric] by simp
    ultimately show ?thesis using old lt False by (simp add: group_parity_snoc padded_def [of p])
  qed
qed

lemma Encode_packet_step:
  assumes c: "byte_symbols c" and inv: "core_inv c (unat (in_h t)) ps s" and idx: "unat (Packet_index s) = length ps"
    and h: "unat (in_h t) \<le> FEC_MAX_H" and ws: "frame_ok ws" and len: "longest (ps @ [frame_bytes ws]) \<le> FEC_MAX_PACKET_SIZE"
  shows "\<exists>s'. Encode_packet c t hdr ws s = Some (s', data_header (length ps) (frame_bytes ws) hdr, ws) \<and>
    core_inv c (unat (in_h t)) (ps @ [frame_bytes ws]) s' \<and> Packet_index s' = Packet_index s + 1"
proof -
  let ?h = "unat (in_h t)" and ?p = "frame_bytes ws"
  let ?s = "if Packet_index s = 0 then s\<lparr>Maximum_packet_length := 0\<rparr> else s"
  have s: "core_shape ?s" "Packet_index ?s = Packet_index s" "Packet_length_parity ?s = Packet_length_parity s"
    using inv by (auto simp: core_inv_def core_shape_def)
  then have H: "length (Header ?s) = HEADER_SIZE" by (simp add: core_shape_def)
  have z: "Packet_index s = 0 \<longleftrightarrow> ps = []" using idx by (metis length_0_conv unat_eq_zero)
  have M: "Maximum_packet_length ?s = longest ps" using inv z by (auto simp: core_inv_def)
  from encode_words_frame [OF ws H, of c ?h 0 0] obtain s1 where
    s1: "encode_words c ?h ws 0 0 ?s = Some (s1, ws, length ?p)" and a: "packet_added c ?h 0 ?p ?s s1" by auto
  define s2 where "s2 = (if length ?p > Maximum_packet_length s1 then s1\<lparr>Maximum_packet_length := length ?p\<rparr> else s1)"
  define s3 where "s3 = encode_length c ?h (length ?p) s2"
  have sh1: "core_shape s1" by (rule packet_added_shape [OF c s(1) h a])
  have f1: "Packet_index s1 = Packet_index s" "Maximum_packet_length s1 = longest ps" "Packet_length_parity s1 = Packet_length_parity s"
    using a s M by (simp_all add: packet_added_def)
  then have f2: "Packet_index s2 = Packet_index s" "Maximum_packet_length s2 = longest (ps @ [?p])"
    "Packet_length_parity s2 = Packet_length_parity s" "Parity_buffer s2 = Parity_buffer s1" "Header s2 = Header s1"
    by (auto simp: s2_def)
  have sh2: "core_shape s2" using sh1 by (simp add: s2_def core_shape_def)
  have idx3: "Packet_index s3 = Packet_index s" by (simp add: s3_def f2)
  have run: "Encode_packet c t hdr ws s = Some (s3\<lparr>Packet_index := Packet_index s + 1\<rparr>, data_header (length ps) ?p hdr, ws)"
    using s1 idx3 unfolding Encode_packet_def Let_def
    by (simp flip: s2_def s3_def add: data_header_def idx [symmetric] f2(1))
  have sh3: "core_shape s3"
  proof -
    have "length (Packet_length_parity s3) = LENGTH_SIZE" and "\<And>i. i < LENGTH_SIZE \<Longrightarrow> length (Packet_length_parity s3 ! i) = FEC_MAX_H"
      using encode_length_nth(1) [OF c sh2 _ h, of 0 ?p] encode_length_nth(2) [OF c sh2 _ h, of _ ?p]
      by (simp_all add: s3_def LENGTH_SIZE_def)
    then have "\<forall>P\<in>set (Packet_length_parity s3). length P = FEC_MAX_H" by (auto simp: in_set_conv_nth)
    then show ?thesis using sh2 \<open>length (Packet_length_parity s3) = LENGTH_SIZE\<close> by (simp add: core_shape_def s3_def)
  qed
  have hd: "Header s3 = take HEADER_SIZE ?p" if "HEADER_SIZE \<le> length ?p"
    using a sh1 that by (intro nth_equalityI) (simp_all add: s3_def f2 packet_added_def core_shape_def)
  have par: "gf (Parity_buffer s3 ! i ! r) = group_parity c r (\<lambda>p. padded p i) (ps @ [?p])"
    if "r < ?h" "i < longest (ps @ [?p])" for r i
    using packet_added_parity [OF c inv idx h a that(1,2) len] by (simp add: s3_def f2)
  have lp: "gf (Packet_length_parity s3 ! i ! r) = group_parity c r (\<lambda>p. length_byte p i) (ps @ [?p])"
    if "r < ?h" "i < LENGTH_SIZE" for r i
  proof -
    have "group_parity c r (\<lambda>p. length_byte p i) ps = (if Packet_index s = 0 then 0 else gf (Packet_length_parity s ! i ! r))"
      using inv that z by (auto simp: core_inv_def intro!: group_parity_zero)
    then show ?thesis
      using encode_length_nth(3) [OF c sh2 that(2) h that(1), of ?p] by (simp add: s3_def f2 idx group_parity_snoc)
  qed
  have "core_inv c ?h (ps @ [?p]) (s3\<lparr>Packet_index := Packet_index s + 1\<rparr>)"
  proof -
    have "core_shape (s3\<lparr>Packet_index := Packet_index s + 1\<rparr>)" using sh3 by (simp add: core_shape_def)
    moreover have "Maximum_packet_length s3 = longest (ps @ [?p])" using f2(2) by (simp add: s3_def)
    ultimately show ?thesis unfolding core_inv_def using hd par lp len by (simp del: longest_snoc)
  qed
  with run show ?thesis by simp
qed

section \<open>Parity packets\<close>

lemma shifted_bytes_bit:
  fixes f :: "nat \<Rightarrow> fec_sym"
  assumes "n \<le> 8" and "i < n" and "b < 8"
  shows "bit (for_loop 0 n (\<lambda>j d. push_bit 8 d OR ucast (f j)) (0 :: u64)) (8 * (n - 1 - i) + b) = bit (f i) b"
  using assms
proof (induction n)
  case (Suc n)
  show ?case
  proof (cases "i = n")
    case True
    then show ?thesis using Suc.prems by (simp add: for_loop_Suc bit_or_iff bit_push_bit_iff bit_unsigned_iff)
  next
    case False
    then have i: "i < n" and e: "8 * (n - i) + b = 8 * (n - 1 - i) + b + 8" using Suc.prems by auto
    have "\<not> bit (ucast (f n) :: u64) m" if "8 \<le> m" for m
      using that by (auto simp: bit_unsigned_iff dest: bit_imp_le_length)
    moreover have "8 * (n - 1 - i) + b + 8 < 64" using Suc.prems i by simp
    ultimately show ?thesis
      using Suc i e by (simp add: for_loop_Suc bit_or_iff bit_push_bit_iff del: One_nat_def)
  qed
qed simp

lemma data_byte_parity_word:
  assumes "i < 8"
  shows "data_byte (parity_word t s n wo) i = parity_byte t s n (8 * wo + i)"
proof (rule bit_word_eqI)
  fix b assume "b < LENGTH(8)"
  then have b: "b < 8" by simp
  have m: "bit (0xFF :: u64) b" using b bit_mask_iff [of 8 b, where ?'a = u64] by (simp add: mask_eq_exp_minus_1)
  show "bit (data_byte (parity_word t s n wo) i) b = bit (parity_byte t s n (8 * wo + i)) b"
    using shifted_bytes_bit [of 8 i b "\<lambda>i. parity_byte t s n (8 * wo + i)"] assms b m
    by (simp add: data_byte_def parity_word_def bit_unsigned_iff bit_and_iff bit_drop_bit_eq)
qed

lemma parity_frame_bytes:
  assumes "0 < n"
  shows "frame_bytes (map (parity_output t s n) [0..<(n - 1) div 8 + 1]) = map (parity_byte t s n) [0..<n]"
proof -
  let ?f = "parity_byte t s n" and ?l = "(n - 1) div 8"
  have word: "map (data_byte (pi_Data (parity_output t s n wo))) [0..<m] = map ?f [8 * wo..<8 * wo + m]" if "m \<le> 8" for wo m
    using that by (intro nth_equalityI) (simp_all add: parity_output_def Let_def data_byte_parity_word)
  have full: "frame_bytes (map (parity_output t s n) [0..<q]) = map ?f [0..<8 * q]" if "q \<le> ?l" for q
    using that
  proof (induction q)
    case (Suc q)
    then have "pi_Count (parity_output t s n q) = 8" by (simp add: parity_output_def Let_def)
    then have "frame_bytes (map (parity_output t s n) [0..<Suc q]) = map ?f [0..<8 * q] @ map ?f [8 * q..<8 * q + 8]"
      using Suc word [of 8 q] by (simp add: frame_bytes_def)
    also have "\<dots> = map ?f [0..<8 * Suc q]"
      by (simp only: map_append [symmetric] upt_add_eq_append [symmetric] le0) (simp add: add.commute)
    finally show ?case .
  qed (simp add: frame_bytes_def)
  define m where "m = (n - 1) mod 8"
  have n: "n = 8 * ?l + m + 1" and m: "m < 8"
    using assms mult_div_mod_eq [of 8 "n - 1"] by (simp_all add: m_def)
  have "n mod 8 = (if m = 7 then 0 else m + 1)" using m by (subst n) (auto simp: mod_simps)
  then have cnt: "pi_Count (parity_output t s n ?l) = n - 8 * ?l"
    using n m by (auto simp: parity_output_def Let_def)
  have le: "n - 8 * ?l \<le> 8" "8 * ?l \<le> n" using n m by linarith+
  have "frame_bytes (map (parity_output t s n) [0..<?l + 1]) = map ?f [0..<8 * ?l] @ map ?f [8 * ?l..<8 * ?l + (n - 8 * ?l)]"
    using full [of ?l] word [OF le(1), of ?l] upt_Suc_append [of 0 ?l]
    unfolding Suc_eq_plus1 [symmetric] by (simp add: frame_bytes_def cnt del: One_nat_def)
  also have "\<dots> = map ?f [0..<n]"
    using le(2) by (simp only: map_append [symmetric] upt_add_eq_append [symmetric] le0) simp
  finally show ?thesis .
qed

lemma parity_frame_ok:
  assumes "0 < n"
  shows "frame_ok (map (parity_output t s n) [0..<(n - 1) div 8 + 1])"
proof -
  let ?l = "(n - 1) div 8"
  have words: "frame_ok (map (parity_output t s n) [?l - q..<?l + 1])" if "q \<le> ?l" for q
    using that
  proof (induction q)
    case 0
    have "1 \<le> pi_Count (parity_output t s n ?l) \<and> pi_Count (parity_output t s n ?l) \<le> 8"
      using mod_less_divisor [of 8 n] by (simp add: parity_output_def Let_def less_imp_le)
    moreover have "pi_End_of_frame (parity_output t s n ?l)" by (simp add: parity_output_def Let_def)
    moreover have "[?l..<?l + 1] = [?l]" by simp
    ultimately show ?case by (simp only: diff_zero list.map frame_ok.simps)
  next
    case (Suc q)
    have u: "[?l - Suc q..<?l + 1] = (?l - Suc q) # [?l - q..<?l + 1]"
      using Suc.prems by (simp add: upt_conv_Cons Suc_diff_Suc del: One_nat_def)
    have "[?l - q..<?l + 1] \<noteq> []" by simp
    then obtain x xs where x: "map (parity_output t s n) [?l - q..<?l + 1] = x # xs"
      by (cases "map (parity_output t s n) [?l - q..<?l + 1]") simp_all
    have "?l - Suc q \<noteq> ?l" using Suc.prems by simp
    then have "\<not> pi_End_of_frame (parity_output t s n (?l - Suc q))" "pi_Count (parity_output t s n (?l - Suc q)) = 8"
      by (simp_all add: parity_output_def Let_def del: One_nat_def)
    then show ?case using Suc x u by simp
  qed
  from words [of ?l] show ?thesis by (simp del: One_nat_def)
qed

definition parity_contents :: "rse_h \<Rightarrow> nat \<Rightarrow> fec_sym list list \<Rightarrow> gf256 list" where
  \<comment> \<open>parity packet \<open>r\<close> of a group: an Ethernet header, the parity of the lengths, the parity of the bytes\<close>
  "parity_contents c r ps = map gf (take HEADER_SIZE (last ps)) @
     [group_parity c r (\<lambda>p. length_byte p 1) ps, group_parity c r (\<lambda>p. length_byte p 0) ps] @
     map (\<lambda>i. group_parity c r (\<lambda>p. padded p i) ps) [0..<longest ps]"

lemma parity_bytes:
  assumes inv: "core_inv c h ps s" and ps: "ps \<noteq> []" "HEADER_SIZE \<le> length (last ps)"
    and idx: "unat (Packet_index s) = unat (in_k t) + r" "r < h"
  shows "map gf (map (parity_byte t s (longest ps + HEADER_SIZE + LENGTH_SIZE)) [0..<longest ps + HEADER_SIZE + LENGTH_SIZE]) =
    parity_contents c r ps"
proof (rule nth_equalityI)
  show "length (map gf (map (parity_byte t s (longest ps + HEADER_SIZE + LENGTH_SIZE)) [0..<longest ps + HEADER_SIZE + LENGTH_SIZE])) =
    length (parity_contents c r ps)" using ps by (simp add: parity_contents_def LENGTH_SIZE_def)
  fix i assume "i < length (map gf (map (parity_byte t s (longest ps + HEADER_SIZE + LENGTH_SIZE)) [0..<longest ps + HEADER_SIZE + LENGTH_SIZE]))"
  then have i: "i < longest ps + HEADER_SIZE + LENGTH_SIZE" by simp
  have r: "unat (Packet_index s) - unat (in_k t) = r" using idx(1) by simp
  consider "i < HEADER_SIZE" | "i = HEADER_SIZE" | "i = HEADER_SIZE + 1" | j where "i = HEADER_SIZE + LENGTH_SIZE + j" "j < longest ps"
    using i le_Suc_ex [of "HEADER_SIZE + LENGTH_SIZE" i] by (fastforce simp: LENGTH_SIZE_def)
  then have "gf (parity_byte t s (longest ps + HEADER_SIZE + LENGTH_SIZE) i) = parity_contents c r ps ! i"
  proof cases
    case 4
    then show ?thesis using inv ps idx(2)
      by (simp add: parity_byte_def Let_def r parity_contents_def nth_append core_inv_def LENGTH_OFFSET_def PAYLOAD_OFFSET_def
          min_absorb2 LENGTH_SIZE_def)
  qed (use inv ps idx(2) in \<open>simp_all add: parity_byte_def Let_def r parity_contents_def nth_append core_inv_def
      LENGTH_OFFSET_def PAYLOAD_OFFSET_def min_absorb2 LENGTH_SIZE_def\<close>)
  then show "map gf (map (parity_byte t s (longest ps + HEADER_SIZE + LENGTH_SIZE)) [0..<longest ps + HEADER_SIZE + LENGTH_SIZE]) ! i =
    parity_contents c r ps ! i" using i by simp
qed

lemma Output_parity_packet_step:
  assumes inv: "core_inv c h ps s" and ps: "ps \<noteq> []" "HEADER_SIZE \<le> length (last ps)" and k: "unat (in_k t) = length ps"
    and h: "unat (in_h t) = h" "length ps + h \<le> 255" and idx: "unat (Packet_index s) = length ps + r" "r < h"
  shows "\<exists>s' hdr' out. Output_parity_packet t hdr s = (s', hdr', out) \<and> core_inv c h ps s' \<and>
    Packet_index s' = (if Suc r = h then 0 else of_nat (length ps + Suc r)) \<and>
    hdr' = hdr\<lparr>hdr_Packet_index := of_nat (length ps + r),
      hdr_Packet_length := of_nat (longest ps + HEADER_SIZE + LENGTH_SIZE + FEC_HDR_WIDTH div 8)\<rparr> \<and>
    frame_ok out \<and> map gf (frame_bytes out) = parity_contents c r ps"
proof -
  let ?n = "longest ps + HEADER_SIZE + LENGTH_SIZE"
  have M: "Maximum_packet_length s = longest ps" using inv ps by (simp add: core_inv_def)
  have n: "0 < ?n" by (simp add: LENGTH_SIZE_def)
  have i: "Packet_index s = of_nat (length ps + r)" using idx(1) by (metis of_nat_unat)
  have i1: "Packet_index s + 1 = of_nat (length ps + Suc r)" by (simp add: i)
  have "unat (of_nat (length ps + Suc r) :: u8) = length ps + Suc r" using idx(2) h(2) by (intro unat_of_nat_u8) simp
  then have "unat (Packet_index s + 1) = unat (in_k t) + unat (in_h t) \<longleftrightarrow> Suc r = h" by (simp add: i1 k h(1))
  then have "Output_parity_packet t hdr s =
      (s\<lparr>Packet_index := if Suc r = h then 0 else of_nat (length ps + Suc r)\<rparr>,
       hdr\<lparr>hdr_Packet_index := of_nat (length ps + r), hdr_Packet_length := of_nat (?n + FEC_HDR_WIDTH div 8)\<rparr>,
       map (parity_output t s ?n) [0..<(?n - 1) div 8 + 1])"
    by (simp add: Output_parity_packet_def Let_def M i1 i [symmetric] del: One_nat_def of_nat_add of_nat_Suc)
  moreover have "core_inv c h ps (s\<lparr>Packet_index := x\<rparr>)" for x using inv by (simp add: core_inv_def core_shape_def)
  moreover have "map gf (frame_bytes (map (parity_output t s ?n) [0..<(?n - 1) div 8 + 1])) = parity_contents c r ps"
    using parity_bytes [OF inv ps _ idx(2), of t] idx(1) k by (simp add: parity_frame_bytes [OF n] del: One_nat_def)
  ultimately show ?thesis using parity_frame_ok [OF n, of t s] by simp
qed

section \<open>Whole groups\<close>

fun core_run :: "rse_h \<Rightarrow> input_tuple \<Rightarrow> (fec_header \<times> packet_interface list) list \<Rightarrow> rse_core \<Rightarrow>
    (rse_core \<times> (fec_header \<times> packet_interface list) list) option" where
  \<comment> \<open>successive calls of \<open>RSE_core\<close> with the same parameters\<close>
  "core_run c t [] s = Some (s, [])"
| "core_run c t ((hdr, ws) # xs) s =
     (case RSE_core c t hdr ws s of
        None \<Rightarrow> None
      | Some (s1, hdr', out) \<Rightarrow> map_option (\<lambda>(s2, outs). (s2, (hdr', out) # outs)) (core_run c t xs s1))"

lemma core_run_append:
  "core_run c t (xs @ ys) s =
     (case core_run c t xs s of None \<Rightarrow> None
      | Some (s1, o1) \<Rightarrow> map_option (\<lambda>(s2, o2). (s2, o1 @ o2)) (core_run c t ys s1))"
proof (induction xs arbitrary: s)
  case Nil
  show ?case by (cases "core_run c t ys s") auto
next
  case (Cons x xs)
  then show ?case by (cases x) (auto split: option.splits simp: option.map_comp comp_def case_prod_unfold)
qed

definition group_params :: "nat \<Rightarrow> nat \<Rightarrow> input_tuple \<Rightarrow> bool" where
  "group_params k h t \<longleftrightarrow> in_Valid t \<and> unat (in_k t) = k \<and> unat (in_h t) = h \<and> h \<le> FEC_MAX_H \<and> k + h \<le> 255"

lemma core_run_data:
  assumes c: "byte_symbols c" and t: "group_params k h t"
  shows "core_inv c h ps s \<Longrightarrow> unat (Packet_index s) = length ps \<Longrightarrow> length ps + length xs \<le> k \<Longrightarrow>
    \<forall>x\<in>set xs. frame_ok (snd x) \<Longrightarrow> longest (ps @ map (\<lambda>x. frame_bytes (snd x)) xs) \<le> FEC_MAX_PACKET_SIZE \<Longrightarrow>
    \<exists>s' outs. core_run c t xs s = Some (s', outs) \<and> map snd outs = map snd xs \<and>
      map fst outs = map (\<lambda>i. data_header (length ps + i) (frame_bytes (snd (xs ! i))) (fst (xs ! i))) [0..<length xs] \<and>
      core_inv c h (ps @ map (\<lambda>x. frame_bytes (snd x)) xs) s' \<and> unat (Packet_index s') = length ps + length xs"
proof (induction xs arbitrary: ps s)
  case (Cons x xs)
  obtain hdr ws where x: "x = (hdr, ws)" by (cases x)
  let ?p = "frame_bytes ws"
  have len: "longest (ps @ [?p]) \<le> FEC_MAX_PACKET_SIZE" using Cons.prems(5) by (simp add: longest_le x)
  have lt: "Packet_index s < in_k t" using Cons.prems(2,3) t by (simp add: word_less_nat_alt group_params_def)
  have t': "unat (in_h t) = h" "in_Valid t" "h \<le> FEC_MAX_H" "k \<le> 255" using t by (simp_all add: group_params_def)
  from Encode_packet_step [OF c, of t ps s ws hdr] Cons.prems len t' obtain s1 where
    s1: "RSE_core c t hdr ws s = Some (s1, data_header (length ps) ?p hdr, ws)"
    "core_inv c h (ps @ [?p]) s1" "Packet_index s1 = Packet_index s + 1"
    by (auto simp: x RSE_core_def lt)
  have "unat (Packet_index s1) = length (ps @ [?p])"
    using Cons.prems(2,3) t'(4) by (simp add: s1(3) unat_u8_Suc)
  from Cons.IH [OF s1(2) this] Cons.prems obtain s' outs where
    "core_run c t xs s1 = Some (s', outs)" "map snd outs = map snd xs"
    "map fst outs = map (\<lambda>i. data_header (length (ps @ [?p]) + i) (frame_bytes (snd (xs ! i))) (fst (xs ! i))) [0..<length xs]"
    "core_inv c h ((ps @ [?p]) @ map (\<lambda>x. frame_bytes (snd x)) xs) s'" "unat (Packet_index s') = length (ps @ [?p]) + length xs"
    by (auto simp: x)
  then show ?case using s1(1) by (simp add: x upt_conv_Cons map_Suc_upt [symmetric] del: upt_Suc)
qed simp

lemma core_run_parity:
  assumes t: "group_params (length ps) h t" and ps: "ps \<noteq> []" "HEADER_SIZE \<le> length (last ps)"
  shows "core_inv c h ps s \<Longrightarrow> unat (Packet_index s) = length ps + r \<Longrightarrow> r + length xs = h \<Longrightarrow> xs \<noteq> [] \<Longrightarrow>
    \<exists>s' outs. core_run c t xs s = Some (s', outs) \<and> length outs = length xs \<and>
      (\<forall>j<length xs. hdr_Packet_index (fst (outs ! j)) = of_nat (length ps + r + j) \<and> frame_ok (snd (outs ! j)) \<and>
        map gf (frame_bytes (snd (outs ! j))) = parity_contents c (r + j) ps) \<and>
      core_inv c h ps s' \<and> Packet_index s' = 0"
proof (induction xs arbitrary: r s)
  case (Cons x xs)
  obtain hdr ws where x: "x = (hdr, ws)" by (cases x)
  have t': "in_Valid t" "unat (in_k t) = length ps" "unat (in_h t) = h" "length ps + h \<le> 255"
    using t by (simp_all add: group_params_def)
  have r: "r < h" using Cons.prems(3) by simp
  have "\<not> Packet_index s < in_k t" using Cons.prems(2) t'(2) by (simp add: word_less_nat_alt)
  moreover from Output_parity_packet_step [OF Cons.prems(1) ps t'(2,3,4) Cons.prems(2) r, of hdr] obtain s1 hdr1 out where
    s1: "Output_parity_packet t hdr s = (s1, hdr1, out)" "core_inv c h ps s1"
      "Packet_index s1 = (if Suc r = h then 0 else of_nat (length ps + Suc r))"
      "hdr_Packet_index hdr1 = of_nat (length ps + r)" "frame_ok out" "map gf (frame_bytes out) = parity_contents c r ps"
    by (auto simp del: of_nat_add of_nat_Suc)
  ultimately have run: "RSE_core c t hdr ws s = Some (s1, hdr1, out)" using t'(1) by (simp add: RSE_core_def)
  show ?case
  proof (cases "xs = []")
    case True
    then show ?thesis using run s1 Cons.prems(3) by (simp add: x)
  next
    case False
    then have "Suc r \<noteq> h" using Cons.prems(3) by (cases xs) auto
    then have "unat (Packet_index s1) = length ps + Suc r"
      using s1(3) r t'(4) unat_of_nat_u8 [of "length ps + Suc r"] by simp
    from Cons.IH [OF s1(2) this _ False] Cons.prems(3) obtain s' outs where o:
      "core_run c t xs s1 = Some (s', outs)" "length outs = length xs"
      "\<And>j. j < length xs \<Longrightarrow> hdr_Packet_index (fst (outs ! j)) = of_nat (length ps + Suc r + j) \<and> frame_ok (snd (outs ! j)) \<and>
        map gf (frame_bytes (snd (outs ! j))) = parity_contents c (Suc r + j) ps"
      "core_inv c h ps s'" "Packet_index s' = 0" by auto
    have "hdr_Packet_index (fst (((hdr1, out) # outs) ! j)) = of_nat (length ps + r + j) \<and> frame_ok (snd (((hdr1, out) # outs) ! j)) \<and>
        map gf (frame_bytes (snd (((hdr1, out) # outs) ! j))) = parity_contents c (r + j) ps" if "j < length (x # xs)" for j
      using that s1 o(3) [of "j - 1"] by (cases j) (simp_all del: of_nat_Suc of_nat_add)
    then show ?thesis using run o by (simp add: x del: of_nat_Suc of_nat_add)
  qed
qed simp

end
