(* ===== verification/Hls_Properties.thy ===== *)
theory Hls_Properties
  imports Rse_Core Rse_Properties
begin

text \<open>
  Properties of the encoder of the FPGA design: its field arithmetic and generator matrix are
  those of the reference coder, its cross-check accepts what the reference coder computes, and
  the packet encoder emits the parity packets of each group.
\<close>

section \<open>Data for the witnesses\<close>

definition one_col_h :: rse_h where
  \<comment> \<open>the demonstration configuration with a one-byte length column\<close>
  "one_col_h = demo_h\<lparr>FEC_EXTRA_COLS := 1, FEC_MAX_COLS := 200\<rparr>"

definition one_col_coder :: rse_state where
  "one_col_coder = fst (the (rse_init one_col_h False (rse_zero one_col_h)))"

lemma one_col_ready: "coder_ready one_col_h False one_col_coder"
proof -
  have h: "byte_symbols one_col_h" "group_fits one_col_h" "FEC_EXTRA_COLS one_col_h \<le> 7"
    using demo_h_ok by (simp_all add: one_col_h_def byte_symbols_def group_fits_def)
  have "codewords_check_bounds one_col_h = 0"
    using codewords_check_bounds_iff [of one_col_h] h demo_h_ok by (simp add: one_col_h_def demo_h_def)
  from rse_init_ready [OF h(1,2) this, of False] show ?thesis by (auto simp: one_col_coder_def)
qed

definition short_frame :: "u64 \<Rightarrow> packet_interface list" where
  \<comment> \<open>a frame of fifteen bytes\<close>
  "short_frame w = [\<lparr>pi_Error = False, pi_Count = 8, pi_Data = w, pi_End_of_frame = False, pi_Start_of_frame = True\<rparr>,
     \<lparr>pi_Error = False, pi_Count = 7, pi_Data = w + 1, pi_End_of_frame = True, pi_Start_of_frame = False\<rparr>]"

definition no_header :: fec_header where
  "no_header = \<lparr>hdr_Packet_length = 0, hdr_Original_type = 0, hdr_Packet_index = 0, hdr_Block_index = 0,
     hdr_Traffic_class = 0, hdr_Is_valid = True\<rparr>"

definition demo_tuple :: input_tuple where
  "demo_tuple = \<lparr>in_h = 1, in_k = 2, in_fec = no_header, in_Valid = True\<rparr>"

definition demo_inputs :: "(fec_header \<times> packet_interface list) list" where
  "demo_inputs = [(no_header, short_frame 7), (no_header, short_frame 90)]"

lemma short_frame_ok: "frame_ok (short_frame w)" "length (frame_bytes (short_frame w)) = 15"
  by (simp_all add: short_frame_def frame_bytes_def)

section \<open>Properties\<close>

text \<open>C10: The packet encoder of the FPGA design. Started at a group boundary and called with the
  \<open>k\<close> packets of a group and then \<open>h\<close> more times, it passes the data packets on unchanged,
  numbered from 0, and then emits \<open>h\<close> well-formed packets, numbered from \<open>k\<close>, which consist of the
  Ethernet header of the last data packet, the parity of the two bytes of the packet lengths and
  the parity of the packet bytes, each packet padded with zeros to the longest; the weights
  are those of the reference coder. Afterwards the next group can start.\<close>

theorem hls_core_encodes_group:
  assumes "coder_ready c lookup st" and "group_params k h t" and "k \<le> FEC_MAX_K"
    and "core_shape s" and "Packet_index s = 0"
    and "length xs = k" and "xs \<noteq> []" and "length ys = h" and "ys \<noteq> []"
    and "\<forall>x\<in>set xs. frame_ok (snd x) \<and> length (frame_bytes (snd x)) \<le> FEC_MAX_PACKET_SIZE"
    and "HEADER_SIZE \<le> length (frame_bytes (snd (last xs)))"
  shows "\<exists>s' outs pars. core_run c t (xs @ ys) s = Some (s', outs @ pars) \<and> core_shape s' \<and> Packet_index s' = 0 \<and>
    map snd outs = map snd xs \<and> length pars = h \<and>
    (\<forall>i<k. fst (outs ! i) = data_header i (frame_bytes (snd (xs ! i))) (fst (xs ! i))) \<and>
    (\<forall>r<h. hdr_Packet_index (fst (pars ! r)) = of_nat (k + r) \<and> frame_ok (snd (pars ! r)) \<and>
      (let p = \<lambda>d. frame_bytes (snd (xs ! d)); w = \<lambda>d. gf (weight c st r d) in
       map gf (frame_bytes (snd (pars ! r))) = map gf (take HEADER_SIZE (p (k - 1))) @
         [\<Sum>d<k. gf (length_byte (p d) 1) * w d, \<Sum>d<k. gf (length_byte (p d) 0) * w d] @
         map (\<lambda>i. \<Sum>d<k. gf (padded (p d) i) * w d) [0..<longest (map (\<lambda>x. frame_bytes (snd x)) xs)]))"
proof -
  let ?ps = "map (\<lambda>x. frame_bytes (snd x)) xs"
  have b: "byte_symbols c" using assms(1) by (simp add: coder_ready_def)
  have h: "h \<le> FEC_MAX_H" using assms(2) by (simp add: group_params_def)
  have "core_inv c h [] s" using assms(4) by (simp add: core_inv_def)
  moreover have "longest ([] @ ?ps) \<le> FEC_MAX_PACKET_SIZE" using assms(10) by (simp add: longest_le)
  ultimately obtain s1 outs where d: "core_run c t xs s = Some (s1, outs)" "map snd outs = map snd xs"
    "map fst outs = map (\<lambda>i. data_header i (frame_bytes (snd (xs ! i))) (fst (xs ! i))) [0..<k]"
    "core_inv c h ?ps s1" "unat (Packet_index s1) = length ?ps"
    using core_run_data [OF b assms(2), of "[]" s xs] assms(5,6,10) by auto
  have ps: "group_params (length ?ps) h t" "?ps \<noteq> []" "HEADER_SIZE \<le> length (last ?ps)"
    using assms(2,6,7,11) by (simp_all add: last_map)
  from core_run_parity [OF ps d(4), of 0 ys] d(5) assms(8,9) obtain s' pars where
    p: "core_run c t ys s1 = Some (s', pars)" "length pars = h" "core_inv c h ?ps s'" "Packet_index s' = 0"
    "\<And>r. r < h \<Longrightarrow> hdr_Packet_index (fst (pars ! r)) = of_nat (k + r) \<and> frame_ok (snd (pars ! r)) \<and>
       map gf (frame_bytes (snd (pars ! r))) = parity_contents c r ?ps"
    using assms(6) by auto
  have G: "group_parity c r f ?ps = (\<Sum>d<k. gf (f (frame_bytes (snd (xs ! d)))) * gf (weight c st r d))" if "r < h" for r f
    using hls_generator_weight [OF assms(1), of r] that h assms(3,6) by (simp add: group_parity_def)
  have L: "last ?ps = frame_bytes (snd (xs ! (k - 1)))" using assms(6,7) by (simp add: last_map last_conv_nth flip: assms(6))
  have "core_run c t (xs @ ys) s = Some (s', outs @ pars)" by (simp add: core_run_append d(1) p(1))
  moreover have "core_shape s'" using p(3) by (simp add: core_inv_def)
  moreover have "fst (outs ! i) = data_header i (frame_bytes (snd (xs ! i))) (fst (xs ! i))" if "i < k" for i
    using arg_cong [OF d(3), of "\<lambda>l. l ! i"] arg_cong [OF d(3), of length] that by simp
  ultimately show ?thesis
    using p(2,4,5) d(2) G L by (intro exI [of _ s'] exI [of _ outs] exI [of _ pars]) (simp add: parity_contents_def Let_def)
qed

theorem hls_core_encodes_group_witness:
  "\<exists>s' outs pars. core_run demo_h demo_tuple (demo_inputs @ [(no_header, [])]) core_zero = Some (s', outs @ pars) \<and>
    map snd outs = [short_frame 7, short_frame 90] \<and> length pars = 1 \<and> Packet_index s' = 0"
proof -
  have "group_params 2 1 demo_tuple" by (simp add: group_params_def demo_tuple_def FEC_MAX_H_def)
  moreover have "\<forall>x\<in>set demo_inputs. frame_ok (snd x) \<and> length (frame_bytes (snd x)) \<le> FEC_MAX_PACKET_SIZE"
    by (simp add: demo_inputs_def short_frame_ok FEC_MAX_PACKET_SIZE_def)
  moreover have "HEADER_SIZE \<le> length (frame_bytes (snd (last demo_inputs)))"
    by (simp add: demo_inputs_def short_frame_ok HEADER_SIZE_def)
  moreover have "Packet_index core_zero = 0" "length demo_inputs = 2" "demo_inputs \<noteq> []" "2 \<le> FEC_MAX_K"
    by (simp_all add: core_zero_def demo_inputs_def FEC_MAX_K_def)
  ultimately obtain s' outs pars where
    "core_run demo_h demo_tuple (demo_inputs @ [(no_header, [])]) core_zero = Some (s', outs @ pars)"
    "map snd outs = map snd demo_inputs" "length pars = 1" "Packet_index s' = 0"
    using hls_core_encodes_group [OF demo_coder_ready _ _ core_shape_zero, of 2 1 demo_tuple demo_inputs "[(no_header, [])]"]
    by auto
  then show ?thesis by (intro exI conjI) (simp_all add: demo_inputs_def)
qed

text \<open>C17: The generator matrix computed by the FPGA encoder, with shift-and-add multiplication and Gauss-Jordan
  elimination on a different layout, is the weight matrix that \<open>rse_init\<close> of the reference coder
  sets up, for every parity and data packet.\<close>

theorem hls_generator_is_reference_code:
  assumes "byte_symbols c" and "group_fits c" and "codewords_check_bounds c = 0"
    and "rse_init c lookup (rse_zero c) = Some (st, r)" and "i < FEC_MAX_H" and "j < FEC_MAX_K"
  shows "hls_generator c ! i ! j = weight c st i j"
  using rse_init_ready [OF assms(1-3), of lookup] assms(4-6) by (intro hls_generator_weight) auto

theorem hls_generator_is_reference_code_witness:
  "hls_generator demo_h ! 4 ! 49 = weight demo_h (fst (the (rse_init demo_h True (rse_zero demo_h)))) 4 49"
proof -
  obtain st r where r: "rse_init demo_h True (rse_zero demo_h) = Some (st, r)"
    using rse_init_ready [OF demo_h_ok(1,2) demo_h_check, of True] by auto
  from hls_generator_is_reference_code [OF demo_h_ok(1,2) demo_h_check r, of 4 49] r show ?thesis
    by (simp add: FEC_MAX_H_def FEC_MAX_K_def)
qed

text \<open>The three multiplications of the two coders agree on all symbols: the
  table-driven one of the FPGA encoder, its shift-and-add one, and the macro of the reference coder with its
  generated tables.\<close>

theorem hls_multiply_variants_agree:
  assumes "byte_symbols c"
  shows "GF_multiply c x y = GF_slow_multiply c x y \<and>
    GF_multiply c x y = FEC_GF_MULT c (gf_math_log_tables_generate c (zero_tables c)) (unat x) (unat y)"
  using assms tables_generate_ok [OF assms]
  by (simp add: GF_multiply_gmul GF_slow_multiply_gmul FEC_GF_MULT_gmul)

theorem hls_multiply_variants_agree_witness: "GF_multiply demo_h 2 3 = GF_slow_multiply demo_h 2 3"
  using hls_multiply_variants_agree [OF demo_h_ok(1), of 2 3] by simp

text \<open>C28: The cross-check built into the reference coder. For a group whose data packets
  come first, followed by its parities, and a length column of at most one byte, \<open>Verify_matrix_multiply\<close> accepts
  the column that \<open>matrix_multiply\<close> accumulates, and the replacement \<open>encode_matrix\<close>
  stores the same symbols.\<close>

theorem hls_cross_check_passes:
  assumes "coder_ready c lookup st" and "matrices_ok g" and "group_layout c (fbk g ! fb) k n"
    and "FEC_EXTRA_COLS c \<le> 1" and "col < block_C (fbk g ! fb)" and "\<forall>j<n. fcm_d g ! cell j 0 = 0"
  shows "let g' = matrix_multiply c lookup st (fbk g ! fb) [0..<k] n [k..<k + n] col g;
             g'' = encode_matrix c fb k n col g
    in Verify_matrix_multiply c fb k n col g' \<and> (\<forall>j<n. fcm_d g'' ! cell j 0 = fcm_d g' ! cell j 0)"
proof -
  let ?b = "fbk g ! fb" and ?P = "test_parity c (fbk g ! fb) (memory g) k n col"
  have n: "n \<le> FEC_MAX_H" using assms(3) by (simp add: group_layout_def)
  have len: "length (fcm_d g) = FEC_MAX_H * (FEC_MAX_H + 1)" using assms(2) by (simp add: matrices_ok_def)
  obtain d where d: "matrix_multiply c lookup st ?b [0..<k] n [k..<k + n] col g = g\<lparr>fcm_d := d\<rparr>"
    "\<And>j. j < n \<Longrightarrow> gf (d ! cell j 0) = gf (fcm_d g ! cell j 0) + accumulated c st ?b (memory g) [0..<k] (parity_row c ?b ([k..<k + n] ! j)) col"
    using multiply_cells [OF assms(1) n len] by metis
  have P: "d ! cell j 0 = ?P ! j" if "j < n" for j
  proof -
    have "gf (d ! cell j 0) = gf (?P ! j)"
      using d(2) [OF that] hls_parity_accumulated [OF assms(1,3) that assms(4,5), of "memory g"] assms(6) that by simp
    then show ?thesis by simp
  qed
  have "for_loop 0 m (\<lambda>i g. g\<lparr>fcm_d := (fcm_d g)[cell i 0 := ?P ! i]\<rparr>) g =
      g\<lparr>fcm_d := for_loop 0 m (\<lambda>i d. d[cell i 0 := ?P ! i]) (fcm_d g)\<rparr>" for m
    by (induction m) (simp_all add: for_loop_Suc)
  then have "encode_matrix c fb k n col g = g\<lparr>fcm_d := for_loop 0 n (\<lambda>i d. d[cell i 0 := ?P ! i]) (fcm_d g)\<rparr>"
    by (simp add: encode_matrix_def Let_def)
  moreover have "for_loop 0 n (\<lambda>i d. d[cell i 0 := ?P ! i]) (fcm_d g) ! cell j 0 = ?P ! j" if "j < n" for j
    using for_loop_row_cells [of n n "\<lambda>i. cell i 0" "fcm_d g" "\<lambda>i. ?P ! i"] that n len cell_less [of _ 0] cell_eq_iff [of 0 0] by simp
  ultimately show ?thesis
    using P by (simp add: d(1) Let_def Verify_matrix_multiply_def list_all_iff)
qed

theorem hls_cross_check_passes_witness:
  "let g = demo_sender\<lparr>fbk := [(fbk demo_sender ! 0)\<lparr>block_C := 5\<rparr>]\<rparr> in
   Verify_matrix_multiply one_col_h 0 2 1 4 (matrix_multiply one_col_h False one_col_coder (fbk g ! 0) [0..<2] 1 [2..<2 + 1] 4 g)"
proof -
  define g where "g = demo_sender\<lparr>fbk := [(fbk demo_sender ! 0)\<lparr>block_C := 5\<rparr>]\<rparr>"
  have "matrices_ok g" using demo_sender_ok(2) by (simp add: g_def matrices_ok_def)
  moreover have "group_layout one_col_h (fbk g ! 0) 2 1"
    by (simp add: group_layout_def g_def demo_sender_def demo_block_def one_col_h_def demo_h_def FEC_MAX_K_def FEC_MAX_H_def
        less_2_cases_iff)
  moreover have "fcm_d g ! cell j 0 = 0" if "j < 1" for j
    using that by (simp add: g_def demo_sender_def coder_zero_def cell_def FEC_MAX_H_def)
  ultimately show ?thesis
    using hls_cross_check_passes [OF one_col_ready, of g 0 2 1 4] unfolding g_def [symmetric] Let_def
    by (simp add: one_col_h_def g_def)
qed

end
