(* ===== verification/Fec_Codec.thy ===== *)
theory Fec_Codec
  imports Fec_Group
begin

text \<open>
  Encoding and decoding a block of packet buffers through the coder: \<^verbatim>\<open>populate_fec_blk\<close>
  followed by \<^verbatim>\<open>encode_block\<close> or \<^verbatim>\<open>decode_block\<close> of \<^verbatim>\<open>fecBooster.c\<close>.
\<close>

section \<open>State of the booster\<close>

definition booster_ok :: "rse_h \<Rightarrow> booster \<Rightarrow> bool" where
  "booster_ok c st \<longleftrightarrow> fbk (rse st) \<noteq> [] \<and> sized (FEC_MAX_N c) (fbk (rse st) ! FB_INDEX) \<and> matrices_ok (rse st)"

lemma booster_ok_zero: "booster_ok c (booster_zero c)"
  by (simp add: booster_ok_def booster_zero_def FB_INDEX_def coder_zero_def del: coder_zero_matrices)
    (use coder_zero_matrices [of c 1] in \<open>simp add: coder_zero_def\<close>)

abbreviation max_columns :: "rse_h \<Rightarrow> nat" where
  \<comment> \<open>what the coder takes and a slot holds\<close>
  "max_columns c \<equiv> min (FEC_MAX_COLS c) PKT_BUF_SZ"

definition class_params :: "booster \<Rightarrow> tclass_type \<Rightarrow> nat \<Rightarrow> nat \<Rightarrow> bool" where
  \<comment> \<open>a class with \<open>k\<close> data and \<open>h\<close> parity packets that the coder can handle\<close>
  "class_params st cls k h \<longleftrightarrow> unat (tc_k (tclasses st cls)) = k \<and> unat (tc_h (tclasses st cls)) = h \<and>
     tc_o (tclasses st cls) = 0 \<and> 0 < k \<and> k \<le> FEC_MAX_K \<and> 0 < h \<and> h \<le> FEC_MAX_H"

definition parity_symbol :: "rse_h \<Rightarrow> rse_state \<Rightarrow> u8 list list \<Rightarrow> nat \<Rightarrow> nat \<Rightarrow> gf256" where
  \<comment> \<open>column \<open>col\<close> of parity \<open>r\<close> of a group of packets\<close>
  "parity_symbol c s ps r col = (\<Sum>d<length ps. gf (weight c s r d) * gf (padded (ps ! d) col))"

lemma populate_filled:
  assumes c: "group_fits c" and st: "booster_ok c st" and cls: "class_params st cls k h"
  obtains b m where "populate_fec_blk c cls port blk expect st = st\<lparr>rse := (rse st)\<lparr>fbk := (fbk (rse st))[FB_INDEX := b]\<rparr>\<rparr>"
    and "sized (FEC_MAX_N c) b" and "block_N b = k + h"
    and "data_filled (pkt_at cls (nat port) blk) (buffers (tclasses st cls) (nat port)) blk k b m"
    and "parity_filled c (pkt_at cls (nat port) blk) (buffers (tclasses st cls) (nat port)) blk k expect h (m + FEC_EXTRA_COLS c) b"
proof -
  have p: "unat (tc_k (tclasses st cls)) = k" "unat (tc_h (tclasses st cls)) = h" "tc_o (tclasses st cls) = 0" "k \<le> FEC_MAX_K" "h \<le> FEC_MAX_H"
    using cls by (simp_all add: class_params_def)
  have "sized (FEC_MAX_N c) (fbk (rse st) ! FB_INDEX)" "k + h \<le> FEC_MAX_N c"
    using st p c by (auto simp: booster_ok_def group_fits_def)
  then obtain b m where b: "populate_block c (pkt_at cls (nat port) blk) (buffers (tclasses st cls) (nat port)) blk k h 0 expect (fbk (rse st) ! FB_INDEX) = b"
    "sized (FEC_MAX_N c) b" "block_N b = k + h"
    "data_filled (pkt_at cls (nat port) blk) (buffers (tclasses st cls) (nat port)) blk k b m"
    "parity_filled c (pkt_at cls (nat port) blk) (buffers (tclasses st cls) (nat port)) blk k expect h (m + FEC_EXTRA_COLS c) b"
    using p(4,5) by (rule populate_block_filled)
  show thesis by (rule that [OF _ b(2-5)]) (simp add: populate_fec_blk_def Let_def p b(1))
qed

lemma group_addresses:
  assumes "valid_port port" and "blk < NUM_BLOCKS" and "i < TOTAL_NUM_PACKETS" and "j < TOTAL_NUM_PACKETS"
  shows "pkt_at cls (nat port) blk i = pkt_at cls (nat port) blk j \<longleftrightarrow> i = j"
  using pkt_at_eq_iff [of port blk i port blk j cls cls] assms by (simp add: in_range_def)

lemma group_in_table: "class_params st cls k h \<Longrightarrow> k + h \<le> TOTAL_NUM_PACKETS"
  by (simp add: class_params_def TOTAL_NUM_PACKETS_def FEC_MAX_K_def FEC_MAX_H_def)

section \<open>Encoding\<close>

lemma full_group_longest:
  assumes "data_filled pkts tcb blk (length ps) b m"
    and "\<And>i. i < length ps \<Longrightarrow> status tcb blk i = PACKET_PRESENT \<and> pkt_sz tcb blk i = length (ps ! i)"
  shows "m = longest ps"
proof (rule antisym)
  show "m \<le> longest ps" using assms length_le_longest [of _ ps] by (fastforce simp: data_filled_def)
  show "longest ps \<le> m" using assms by (auto simp: longest_le data_filled_def in_set_conv_nth)
qed

lemma encode_group:
  assumes c: "coder_ready c lookup s" and E: "0 < FEC_EXTRA_COLS c" and st: "booster_ok c st" and cls: "class_params st cls k h"
    and port: "valid_port port" and blk: "blk < NUM_BLOCKS" and ps: "length ps = k" "\<And>i. i < k \<Longrightarrow> slot_holds st cls port blk i (ps ! i)"
    and cols: "longest ps + FEC_EXTRA_COLS c \<le> max_columns c"
  obtains st' where "encode_block c lookup s (populate_fec_blk_data c cls port blk st) = Some st'" and "booster_ok c st'"
    and "tclasses st' = tclasses st"
    and "\<And>r. r < h \<Longrightarrow> retrieve_encoded_packet st' cls (k + r) = (slot_mem st' cls port blk (k + r), longest ps + FEC_EXTRA_COLS c)"
    and "\<And>r col. r < h \<Longrightarrow> col < longest ps \<Longrightarrow> gf (slot_mem st' cls port blk (k + r) col) = parity_symbol c s ps r col"
    and "\<And>a. (\<And>r. r < h \<Longrightarrow> a \<noteq> pkt_at cls (nat port) blk (k + r)) \<Longrightarrow> memory (rse st') a = memory (rse st) a"
proof -
  have gfit: "group_fits c" using c by (simp add: coder_ready_def)
  let ?pk = "pkt_at cls (nat port) blk" and ?tcb = "buffers (tclasses st cls) (nat port)"
  obtain b m where pop: "populate_fec_blk c cls port blk False st = st\<lparr>rse := (rse st)\<lparr>fbk := (fbk (rse st))[FB_INDEX := b]\<rparr>\<rparr>"
    and b: "sized (FEC_MAX_N c) b" "block_N b = k + h" and d: "data_filled ?pk ?tcb blk k b m"
    and p: "parity_filled c ?pk ?tcb blk k False h (m + FEC_EXTRA_COLS c) b"
    using gfit st cls by (rule populate_filled)
  have kh: "0 < k" "k \<le> FEC_MAX_K" "h \<le> FEC_MAX_H" "0 < h" using cls by (auto simp: class_params_def)
  have slots: "status ?tcb blk i = PACKET_PRESENT" "pkt_sz ?tcb blk i = length (ps ! i)"
    "\<And>j. j < length (ps ! i) \<Longrightarrow> memory (rse st) (?pk i) j = ps ! i ! j" if "i < k" for i
    using ps(2) [OF that] by (auto simp: slot_holds_def slot_defs)
  have m: "m = longest ps" using full_group_longest [of ?pk ?tcb blk ps b m] d slots ps(1) by simp
  have C: "block_C b = longest ps + FEC_EXTRA_COLS c" using p by (simp add: parity_filled_def m)
  have inj: "i = j" if "i < k + h" "j < k + h" "?pk i = ?pk j" for i j
    using group_addresses [OF port blk, of i j cls] that group_in_table [OF cls] by simp
  have ready: "block_ready c b"
    using gfit kh(1-3) b d p E _ inj by (rule filled_ready) (use C cols in simp_all)
  note ix = filled_indices [OF gfit kh(2,3) b d p]
  have stat: "pstat b ! q = (if q < k then FEC_FLAG_KNOWN else FEC_FLAG_WANTED)" if q: "q < k + h" for q
  proof (cases "q < k")
    case False
    then obtain j where "q = k + j" "j < h" using index_beyond [OF q] by blast
    then show ?thesis using parity_filledD(4) [OF p, of j] by simp
  qed (use data_filledD(3) [OF d] slots in simp)
  define g where "g = (rse st)\<lparr>fbk := (fbk (rse st))[FB_INDEX := b]\<rparr>"
  have fb: "FB_INDEX < length (fbk (rse st))" using st by (simp add: booster_ok_def FB_INDEX_def)
  then have g: "fbk g ! FB_INDEX = b" "FB_INDEX < length (fbk g)" "matrices_ok g" "memory g = memory (rse st)"
    using st by (simp_all add: g_def booster_ok_def matrices_ok_def)
  have lists: "known_of b = [0..<k]" "wanted_of b = map ((+) k) [0..<h]" "parity_of b = map ((+) k) [0..<h]"
    and enc: "encoding_block b"
  proof -
    show "known_of b = [0..<k]" "wanted_of b = map ((+) k) [0..<h]"
      unfolding b(2) filter_upt_split using stat by (auto simp: is_known_def filter_empty_conv intro!: filter_True)
    show "encoding_block b" using stat ix(3) b(2) by (simp add: encoding_block_def is_known_def)
    from encoding_block_lists(1) [OF this] \<open>wanted_of b = map ((+) k) [0..<h]\<close> show "parity_of b = map ((+) k) [0..<h]" by simp
  qed
  have "codeable b" unfolding codeable_def lists using kh by simp
  then obtain g' where run: "rse_code c lookup s FB_INDEX CHR ''e'' g = Some (g', 0)" "matrices_ok g'" "length (fbk g') = length (fbk g)"
      "same_layout b (fbk g' ! FB_INDEX)" "plen (fbk g' ! FB_INDEX) = plen b"
    and sym: "\<And>q col. q < block_N b \<Longrightarrow> \<not> data_index b q \<Longrightarrow> col < block_C b \<Longrightarrow>
      gf (memory g' (pdata b ! q) col) = accumulated c s b (memory (rse st)) (known_of b) (parity_row c b q) col"
    and rest: "\<And>a. (\<And>q. q < block_N b \<Longrightarrow> \<not> data_index b q \<Longrightarrow> a \<noteq> pdata b ! q) \<Longrightarrow> memory g' a = memory (rse st) a"
    using rse_encode_columns [OF c g(2,3), unfolded g(1,4), OF ready _ enc E] by metis
  define st' where "st' = st\<lparr>rse := g'\<rparr>"
  have run_enc: "encode_block c lookup s (populate_fec_blk_data c cls port blk st) = Some st'"
    by (simp add: encode_block_def run_coder_def populate_fec_blk_data_def pop flip: g_def) (use C cols in \<open>simp add: run(1) st'_def g(1)\<close>)
  have par: "pdata b ! (k + r) = ?pk (k + r)" "plen b ! (k + r) = longest ps + FEC_EXTRA_COLS c" if "r < h" for r
    using parity_filledD(4) [OF p that] by (simp_all add: m)
  show thesis
  proof (rule that [OF run_enc])
    show "booster_ok c st'"
      using run fb b(1) g by (auto simp: booster_ok_def st'_def sized_def same_layout_def)
    show "tclasses st' = tclasses st" by (simp add: st'_def)
    fix r assume r: "r < h"
    show "retrieve_encoded_packet st' cls (k + r) = (slot_mem st' cls port blk (k + r), longest ps + FEC_EXTRA_COLS c)"
      using run(4,5) par [OF r] by (simp add: retrieve_encoded_packet_def st'_def slot_mem_def same_layout_def)
    fix col assume col: "col < longest ps"
    have "gf (memory g' (?pk (k + r)) col) = accumulated c s b (memory (rse st)) [0..<k] r col"
      using sym [of "k + r" col, unfolded lists] r ix(3) [of "k + r"] ix(4) [OF r] col par(1) [OF r] by (simp add: b(2) C)
    also have "\<dots> = (\<Sum>d<k. gf (weight c s r d) * gf (known_symbol c b (memory (rse st)) d col))"
      unfolding accumulated_def using ix(1) by (subst sum_list_distinct_conv_sum_set) (auto intro!: sum.cong)
    also have "\<dots> = parity_symbol c s ps r col"
      unfolding parity_symbol_def ps(1)
      using slots data_filledD(1,4) [OF d] col E by (intro sum.cong) (auto simp: known_symbol_def C padded_def)
    finally show "gf (slot_mem st' cls port blk (k + r) col) = parity_symbol c s ps r col" by (simp add: slot_mem_def st'_def)
  next
    fix a assume a: "\<And>r. r < h \<Longrightarrow> a \<noteq> ?pk (k + r)"
    have "a \<noteq> pdata b ! q" if "q < block_N b" "\<not> data_index b q" for q
    proof -
      have "\<not> q < k" "q < k + h" using ix(3) that b(2) by auto
      then obtain j where "q = k + j" "j < h" using index_beyond by blast
      then show ?thesis using a par(1) by metis
    qed
    then show "memory (rse st') a = memory (rse st) a" using rest by (simp add: st'_def)
  qed
qed

section \<open>Decoding\<close>

lemma count_loop: "for_loop lo (lo + n) (\<lambda>i m. if P i then m + 1 else m) 0 = length (filter (\<lambda>j. P (lo + j)) [0..<n])"
  by (induction n) (simp_all add: for_loop_Suc)

lemma can_decode_counts:
  assumes "valid_port port" and "class_params st cls k h"
  shows "can_decode st cls port blk \<longleftrightarrow>
    length (filter (\<lambda>i. slot_status st cls port blk i = PACKET_ABSENT) [0..<k]) \<le>
    length (filter (\<lambda>r. slot_status st cls port blk (k + r) = PACKET_PRESENT) [0..<h])"
  using assms count_loop [of 0 k] count_loop [of k h]
  by (simp add: can_decode_def Let_def n_missing_data_def n_present_parity_def class_params_def slot_status_def)

lemma all_received_iff:
  assumes "valid_port port" and "class_params st cls k h"
  shows "is_all_data_pkts_recieved_for_block st cls port blk \<longleftrightarrow> (\<forall>i<k. slot_status st cls port blk i \<noteq> PACKET_ABSENT)"
  using assms by (auto simp: is_all_data_pkts_recieved_for_block_def class_params_def slot_status_def list_all_iff)

definition group_received :: "rse_h \<Rightarrow> rse_state \<Rightarrow> booster \<Rightarrow> tclass_type \<Rightarrow> int \<Rightarrow> nat \<Rightarrow> nat \<Rightarrow> nat \<Rightarrow> u8 list list \<Rightarrow> bool" where
  \<comment> \<open>the slots hold a part of the group \<open>ps\<close>: data packets, or parities at least as long as those of the group\<close>
  "group_received c s st cls port blk k h ps \<longleftrightarrow> length ps = k \<and>
     (\<forall>i<k. slot_holds st cls port blk i (ps ! i) \<or> slot_status st cls port blk i = PACKET_ABSENT) \<and>
     (\<forall>r<h. slot_status st cls port blk (k + r) = PACKET_PRESENT \<longrightarrow>
        longest ps + FEC_EXTRA_COLS c \<le> slot_size st cls port blk (k + r) \<and> slot_size st cls port blk (k + r) \<le> max_columns c \<and>
        (\<forall>col<longest ps. gf (slot_mem st cls port blk (k + r) col) = parity_symbol c s ps r col))"

definition group_word :: "rse_h \<Rightarrow> rse_state \<Rightarrow> u8 list list \<Rightarrow> nat \<Rightarrow> nat \<Rightarrow> gf256" where
  \<comment> \<open>the symbol of each codeword index of the group\<close>
  "group_word c s ps col i = (if i < length ps then gf (padded (ps ! i) col)
     else if i < FEC_MAX_K then 0 else parity_symbol c s ps (FEC_MAX_N c - 1 - i) col)"

lemma group_word_sum:
  assumes "length ps \<le> FEC_MAX_K"
  shows "(\<Sum>d<FEC_MAX_K. gf (weight c s r d) * group_word c s ps col d) = parity_symbol c s ps r col"
proof -
  have "(\<Sum>d<FEC_MAX_K. gf (weight c s r d) * group_word c s ps col d) = (\<Sum>d<length ps. gf (weight c s r d) * group_word c s ps col d)"
    using assms by (intro sum.mono_neutral_right) (auto simp: group_word_def)
  also have "\<dots> = parity_symbol c s ps r col" by (simp add: parity_symbol_def group_word_def)
  finally show ?thesis .
qed

lemma recovered_status:
  fixes k :: nat
  assumes "tcb' = for_loop 0 k (\<lambda>i tcb. if Q i then tcb\<lparr>status := (status tcb)(blk := (status tcb blk)(i := PACKET_RECOVERED))\<rparr> else tcb) tcb"
  shows "status tcb' b i = (if b = blk \<and> i < k \<and> Q i then PACKET_RECOVERED else status tcb b i)"
    and "pkt_sz tcb' = pkt_sz tcb" and "block_id tcb' = block_id tcb" and "frame_idx tcb' = frame_idx tcb"
proof -
  have "status tcb' = (\<lambda>b i. if b = blk \<and> i < k \<and> Q i then PACKET_RECOVERED else status tcb b i) \<and> pkt_sz tcb' = pkt_sz tcb \<and>
      block_id tcb' = block_id tcb \<and> frame_idx tcb' = frame_idx tcb"
    unfolding assms by (induction k) (auto simp: for_loop_Suc fun_eq_iff less_Suc_eq)
  then show "status tcb' b i = (if b = blk \<and> i < k \<and> Q i then PACKET_RECOVERED else status tcb b i)"
    "pkt_sz tcb' = pkt_sz tcb" "block_id tcb' = block_id tcb" "frame_idx tcb' = frame_idx tcb" by simp_all
qed

text \<open>The block that \<^verbatim>\<open>populate_fec_blk\<close> makes of a part of a group.\<close>

definition block_of_group :: "rse_h \<Rightarrow> rse_state \<Rightarrow> mem \<Rightarrow> (nat \<Rightarrow> addr) \<Rightarrow> tclass_buffer \<Rightarrow> nat \<Rightarrow> nat \<Rightarrow> nat \<Rightarrow> u8 list list \<Rightarrow> bool" where
  \<comment> \<open>the statement of \<open>group_received\<close> over the memory and the buffer of the class\<close>
  "block_of_group c s mem pk tcb blk k h ps \<longleftrightarrow> length ps = k \<and>
     (\<forall>i<k. status tcb blk i = PACKET_ABSENT \<or> status tcb blk i = PACKET_PRESENT \<and> pkt_sz tcb blk i = length (ps ! i) \<and>
        (\<forall>j<length (ps ! i). mem (pk i) j = ps ! i ! j)) \<and>
     (\<forall>r<h. status tcb blk (k + r) = PACKET_PRESENT \<longrightarrow>
        longest ps + FEC_EXTRA_COLS c \<le> pkt_sz tcb blk (k + r) \<and> pkt_sz tcb blk (k + r) \<le> max_columns c \<and>
        (\<forall>col<longest ps. gf (mem (pk (k + r)) col) = parity_symbol c s ps r col))"

lemma group_block_stat:
  assumes g: "block_of_group c s mem pk tcb blk k h ps" and d: "data_filled pk tcb blk k b m"
    and p: "parity_filled c pk tcb blk k True h C b"
  shows "i < k \<Longrightarrow> pstat b ! i = (if status tcb blk i = PACKET_ABSENT then FEC_FLAG_WANTED else FEC_FLAG_KNOWN)"
    and "r < h \<Longrightarrow> pstat b ! (k + r) = (if status tcb blk (k + r) = PACKET_PRESENT then FEC_FLAG_KNOWN else FEC_FLAG_IGNORE)"
proof -
  show "pstat b ! i = (if status tcb blk i = PACKET_ABSENT then FEC_FLAG_WANTED else FEC_FLAG_KNOWN)" if "i < k"
    using data_filledD(3) [OF d that] g that by (auto simp: block_of_group_def)
  show "pstat b ! (k + r) = (if status tcb blk (k + r) = PACKET_PRESENT then FEC_FLAG_KNOWN else FEC_FLAG_IGNORE)" if "r < h"
    using parity_filledD(2,3) [OF p that] by simp
qed

lemma group_block_lists:
  assumes N: "group_fits c" and kh: "k \<le> FEC_MAX_K" "h \<le> FEC_MAX_H" and b: "sized (FEC_MAX_N c) b" "block_N b = k + h"
    and g: "block_of_group c s mem pk tcb blk k h ps" and d: "data_filled pk tcb blk k b m"
    and p: "parity_filled c pk tcb blk k True h C b"
  shows "wanted_of b = filter (\<lambda>i. status tcb blk i = PACKET_ABSENT) [0..<k]"
    and "parity_of b = map ((+) k) (filter (\<lambda>r. status tcb blk (k + r) = PACKET_PRESENT) [0..<h])"
    and "decoding_block b"
proof -
  note stat = group_block_stat [OF g d p] and ix = filled_indices [OF N kh b d p]
  have "pstat b ! i = FEC_FLAG_WANTED \<longleftrightarrow> status tcb blk i = PACKET_ABSENT" if "i < k" for i using stat(1) [OF that] by simp
  then have w: "filter (\<lambda>i. pstat b ! i = FEC_FLAG_WANTED) [0..<k] = filter (\<lambda>i. status tcb blk i = PACKET_ABSENT) [0..<k]"
    by (intro filter_cong) simp_all
  have "pstat b ! (k + r) \<noteq> FEC_FLAG_WANTED" if "r < h" for r using stat(2) [OF that] by simp
  then show "wanted_of b = filter (\<lambda>i. status tcb blk i = PACKET_ABSENT) [0..<k]"
    unfolding b(2) filter_upt_split w by (simp add: filter_empty_conv)
  have no: "filter (is_parity b) [0..<k] = []" using ix(1) kh(1) by (simp add: filter_empty_conv is_parity_def)
  have yes: "is_parity b (k + r) \<longleftrightarrow> status tcb blk (k + r) = PACKET_PRESENT" if "r < h" for r
    using ix(3) [of "k + r"] stat(2) [OF that] that by (auto simp: is_parity_def data_index_def)
  then show "parity_of b = map ((+) k) (filter (\<lambda>r. status tcb blk (k + r) = PACKET_PRESENT) [0..<h])"
    unfolding b(2) filter_upt_split no by (auto intro!: filter_cong)
  have known: "is_known b (k + r)" if "r < h" "is_parity b (k + r)" for r
    using yes [OF that(1)] stat(2) [OF that(1)] that(2) by (simp add: is_known_def)
  show "decoding_block b"
    unfolding decoding_block_def b(2)
  proof (intro conjI allI impI ballI)
    fix q assume q: "q < k + h"
    show "is_known b q \<or> pstat b ! q = FEC_FLAG_WANTED" if "data_index b q"
      using stat(1) [of q] ix(3) [OF q] that by (auto simp: is_known_def)
    show "data_index b q" if w: "pstat b ! q = FEC_FLAG_WANTED"
    proof (rule ccontr)
      assume "\<not> data_index b q"
      then obtain r where "r < h" "q = k + r" using index_beyond [OF q] ix(3) [OF q] by blast
      then show False using stat(2) [of r] w by (simp split: if_splits)
    qed
  next
    fix q assume q: "q \<in> set (filter (is_parity b) [0..<k + h])"
    then have "\<not> q < k" "q < k + h" using ix(3) [of q] by (auto simp: is_parity_def data_index_def)
    then obtain r where "r < h" "q = k + r" using index_beyond by blast
    then show "is_known b q" using known q by simp
  qed
qed

lemma group_block_columns:
  assumes N: "group_fits c" and kh: "k \<le> FEC_MAX_K" "h \<le> FEC_MAX_H" and b: "sized (FEC_MAX_N c) b" "block_N b = k + h"
    and g: "block_of_group c s mem pk tcb blk k h ps" and d: "data_filled pk tcb blk k b m"
    and p: "parity_filled c pk tcb blk k True h (m + FEC_EXTRA_COLS c) b"
    and some: "r0 < h" "status tcb blk (k + r0) = PACKET_PRESENT"
  shows "longest ps + FEC_EXTRA_COLS c \<le> block_C b" and "block_C b \<le> max_columns c"
    and "codeword c s b (group_word c s ps col)"
    and "0 < FEC_EXTRA_COLS c \<Longrightarrow> col < longest ps \<Longrightarrow> agrees c b mem col (group_word c s ps col)"
proof -
  note stat = group_block_stat [OF g d p] and ix = filled_indices [OF N kh b d p]
  have len: "length ps = k" using g by (simp add: block_of_group_def)
  have sz: "longest ps + FEC_EXTRA_COLS c \<le> pkt_sz tcb blk (k + r)" "pkt_sz tcb blk (k + r) \<le> max_columns c"
    if "r < h" "status tcb blk (k + r) = PACKET_PRESENT" for r using g that by (auto simp: block_of_group_def)
  show C: "longest ps + FEC_EXTRA_COLS c \<le> block_C b"
    using sz(1) [OF some] parity_filledD(2) [OF p some(1) _ some(2)] by simp
  have "m \<le> longest ps"
  proof (cases "m = 0")
    case False
    then obtain i where i: "i < k" "status tcb blk i = PACKET_PRESENT" "m = pkt_sz tcb blk i" using d by (auto simp: data_filled_def)
    then have "m = length (ps ! i)" using g by (auto simp: block_of_group_def)
    then show ?thesis using length_le_longest [of "ps ! i" ps] i(1) len by simp
  qed simp
  then show "block_C b \<le> max_columns c" using p sz [OF some] sz(2) by (auto simp: parity_filled_def)
  have row: "FEC_MAX_N c - 1 - unat (cbi b ! (k + r)) = r" "\<not> unat (cbi b ! (k + r)) < FEC_MAX_K" if "r < h" for r
    using ix(2) [OF that] that kh N by (auto simp: group_fits_def)
  have par: "group_word c s ps col (unat (cbi b ! (k + r))) = parity_symbol c s ps r col" if "r < h" for r col
    using row [OF that] kh len by (auto simp: group_word_def)
  show "codeword c s b (group_word c s ps col)"
    unfolding codeword_def b(2)
  proof (intro conjI allI impI ballI)
    fix x assume x: "x < FEC_MAX_K" "\<forall>q<k + h. unat (cbi b ! q) \<noteq> x"
    then have "\<not> x < k" using ix(1) [of x] by auto
    then show "group_word c s ps col x = 0" using x len by (simp add: group_word_def)
  next
    fix q assume q: "q \<in> set (filter (is_parity b) [0..<k + h])"
    then have "\<not> q < k" "q < k + h" using ix(3) [of q] by (auto simp: is_parity_def data_index_def)
    then obtain r where r: "r < h" "q = k + r" using index_beyond by blast
    show "group_word c s ps col (unat (cbi b ! q)) = (\<Sum>d<FEC_MAX_K. gf (weight c s (parity_row c b q) d) * group_word c s ps col d)"
      using group_word_sum [of ps c s r col] len kh(1) r par [OF r(1)] ix(4) [OF r(1)] by simp
  qed
  assume E: "0 < FEC_EXTRA_COLS c" and col: "col < longest ps"
  show "agrees c b mem col (group_word c s ps col)"
    unfolding agrees_def b(2)
  proof
    fix q assume "q \<in> set (filter (is_known b) [0..<k + h])"
    then have q: "q < k + h" "is_known b q" by auto
    show "gf (known_symbol c b mem q col) = group_word c s ps col (unat (cbi b ! q))"
    proof (cases "q < k")
      case True
      then have s: "status tcb blk q = PACKET_PRESENT" using stat(1) [of q] q(2) g by (auto simp: is_known_def block_of_group_def split: if_splits)
      then have "plen b ! q = length (ps ! q)" "\<forall>j<length (ps ! q). mem (pdata b ! q) j = ps ! q ! j"
        using data_filledD(1,4) [OF d True] g True by (auto simp: block_of_group_def)
      moreover have "\<not> block_C b - FEC_EXTRA_COLS c \<le> col" using C col by simp
      ultimately show ?thesis using ix(1) [OF True] True len by (simp add: known_symbol_def group_word_def padded_def)
    next
      case False
      then obtain r where r: "r < h" "q = k + r" using index_beyond [OF q(1)] by blast
      then have s: "status tcb blk (k + r) = PACKET_PRESENT" using stat(2) [of r] q(2) by (auto simp: is_known_def split: if_splits)
      have "col < plen b ! q" "mem (pdata b ! q) col = mem (pk (k + r)) col"
        using parity_filledD(2) [OF p r(1) _ s] sz(1) [OF r(1) s] col r by auto
      then have "known_symbol c b mem q col = mem (pk (k + r)) col" using row(2) [OF r(1)] r by (simp add: known_symbol_def)
      moreover have "gf (mem (pk (k + r)) col) = parity_symbol c s ps r col" using g r(1) s col by (simp add: block_of_group_def)
      ultimately show ?thesis using par [OF r(1)] r by simp
    qed
  qed
qed

lemma decode_group:
  assumes c: "coder_ready c lookup s" and E: "0 < FEC_EXTRA_COLS c" and st: "booster_ok c st" and cls: "class_params st cls k h"
    and port: "valid_port port" and blk: "blk < NUM_BLOCKS" and rcv: "group_received c s st cls port blk k h ps"
    and can: "can_decode st cls port blk" and miss: "\<not> is_all_data_pkts_recieved_for_block st cls port blk"
  obtains st' where "decode_block c lookup s cls port blk (populate_fec_blk_data_and_parity c cls port blk st) = Some st'"
    and "booster_ok c st'" and "class_params st' cls k h"
    and "\<And>i. slot_status st' cls port blk i =
      (if i < k \<and> slot_status st cls port blk i = PACKET_ABSENT then PACKET_RECOVERED else slot_status st cls port blk i)"
    and "\<And>i j. i < k \<Longrightarrow> j < length (ps ! i) \<Longrightarrow> slot_mem st' cls port blk i j = ps ! i ! j"
    and "\<And>cls' port' blk' i. in_range port' blk' i \<Longrightarrow> \<not> (cls' = cls \<and> port' = port \<and> blk' = blk \<and> i < k) \<Longrightarrow>
      slot_mem st' cls' port' blk' i = slot_mem st cls' port' blk' i"
    and "\<And>cls'. cls' \<noteq> cls \<Longrightarrow> tclasses st' cls' = tclasses st cls'"
proof -
  have gfit: "group_fits c" using c by (simp add: coder_ready_def)
  let ?pk = "pkt_at cls (nat port) blk" and ?tcb = "buffers (tclasses st cls) (nat port)"
  let ?L = "longest ps"
  obtain b m where pop: "populate_fec_blk c cls port blk True st = st\<lparr>rse := (rse st)\<lparr>fbk := (fbk (rse st))[FB_INDEX := b]\<rparr>\<rparr>"
    and b: "sized (FEC_MAX_N c) b" "block_N b = k + h" and d: "data_filled ?pk ?tcb blk k b m"
    and p: "parity_filled c ?pk ?tcb blk k True h (m + FEC_EXTRA_COLS c) b"
    using gfit st cls by (rule populate_filled)
  have kh: "0 < k" "k \<le> FEC_MAX_K" "h \<le> FEC_MAX_H" and len: "length ps = k" using cls rcv by (auto simp: class_params_def group_received_def)
  note ix = filled_indices [OF gfit kh(2,3) b d p]
  have g: "block_of_group c s (memory (rse st)) ?pk ?tcb blk k h ps"
    using rcv by (auto simp: block_of_group_def group_received_def slot_holds_def slot_defs)
  note lists = group_block_lists [OF gfit kh(2,3) b g d p]
  have counts: "length (wanted_of b) \<le> length (parity_of b)" "0 < length (wanted_of b)"
    using can miss can_decode_counts [OF port cls, of blk] all_received_iff [OF port cls, of blk]
    unfolding lists(1,2) by (auto simp: slot_status_def filter_empty_conv)
  then have "parity_of b \<noteq> []" by auto
  then obtain r0 where r0: "r0 < h" "status ?tcb blk (k + r0) = PACKET_PRESENT"
    unfolding lists(2) by (auto simp: filter_empty_conv)
  note cols = group_block_columns [OF gfit kh(2,3) b g d p r0]
  have inj: "i = j" if "i < k + h" "j < k + h" "?pk i = ?pk j" for i j
    using group_addresses [OF port blk, of i j cls] that group_in_table [OF cls] by simp
  have ready: "block_ready c b"
    using gfit kh b d p E _ inj by (rule filled_ready) (use cols(2) in simp_all)
  have "is_known b (k + r0)" using group_block_stat(2) [OF g d p r0(1)] r0(2) by (simp add: is_known_def)
  then have "known_of b \<noteq> []" using r0(1) b(2) by (auto simp: filter_empty_conv)
  moreover have "length (parity_of b) \<le> FEC_MAX_H"
    unfolding lists(2) using kh(3) length_filter_le [of "\<lambda>r. status ?tcb blk (k + r) = PACKET_PRESENT" "[0..<h]"] by simp
  ultimately have codeable: "codeable b" using counts by (simp add: codeable_def Suc_le_eq)
  define g0 where "g0 = (rse st)\<lparr>fbk := (fbk (rse st))[FB_INDEX := b]\<rparr>"
  have fb: "FB_INDEX < length (fbk (rse st))" using st by (simp add: booster_ok_def FB_INDEX_def)
  then have g0: "fbk g0 ! FB_INDEX = b" "FB_INDEX < length (fbk g0)" "matrices_ok g0" "memory g0 = memory (rse st)"
    using st by (simp_all add: g0_def booster_ok_def matrices_ok_def)
  have LC: "?L \<le> block_C b" using cols(1) by simp
  obtain g' where run: "rse_code c lookup s FB_INDEX CHR ''d'' g0 = Some (g', 0)" "matrices_ok g'" "length (fbk g') = length (fbk g0)"
      "same_layout b (fbk g' ! FB_INDEX)"
    and stats: "\<forall>q<block_N b. if pstat b ! q = FEC_FLAG_WANTED then pstat (fbk g' ! FB_INDEX) ! q = FEC_FLAG_GENNED \<and>
        (\<forall>col<?L. gf (memory g' (pdata b ! q) col) = group_word c s ps col (unat (cbi b ! q)))
      else pstat (fbk g' ! FB_INDEX) ! q = pstat b ! q"
    and rest: "\<forall>a. (\<forall>q<block_N b. pstat b ! q = FEC_FLAG_WANTED \<longrightarrow> a \<noteq> pdata b ! q) \<longrightarrow> memory g' a = memory (rse st) a"
    by (rule rse_decode_columns [OF c g0(2,3), where n = ?L and v = "group_word c s ps", unfolded g0(1,4),
          OF ready codeable lists(3) cols(3) cols(4) [OF E] LC])
  define st1 where "st1 = st\<lparr>rse := g'\<rparr>"
  define tcb' where "tcb' = for_loop 0 k (\<lambda>i tcb. if pstat (fbk g' ! FB_INDEX) ! i = FEC_FLAG_GENNED
      then tcb\<lparr>status := (status tcb)(blk := (status tcb blk)(i := PACKET_RECOVERED))\<rparr> else tcb) ?tcb"
  note rec = recovered_status [OF tcb'_def]
  have "unat (tc_k (tclasses st cls)) = k" using cls by (simp add: class_params_def)
  moreover have "k \<le> TOTAL_NUM_PACKETS" "k \<le> FEC_MAX_N c"
    using kh(2) gfit by (simp_all add: FEC_MAX_K_def TOTAL_NUM_PACKETS_def group_fits_def)
  ultimately have run_dec: "decode_block c lookup s cls port blk (populate_fec_blk_data_and_parity c cls port blk st) =
      Some (set_buffer cls port tcb' st1)"
    using port by (simp add: decode_block_def run_coder_def populate_fec_blk_data_and_parity_def pop Let_def flip: g0_def)
      (use cols(2) in \<open>simp add: run(1) st1_def tcb'_def g0(1)\<close>)
  have want: "pstat b ! i = FEC_FLAG_WANTED \<longleftrightarrow> status ?tcb blk i = PACKET_ABSENT" "pdata b ! i = ?pk i" "unat (cbi b ! i) = i" if "i < k" for i
    using group_block_stat(1) [OF g d p that] data_filledD(1) [OF d that] filled_indices(1) [OF gfit kh(2,3) b d p that] by simp_all
  have genned: "pstat (fbk g' ! FB_INDEX) ! i = FEC_FLAG_GENNED \<longleftrightarrow> status ?tcb blk i = PACKET_ABSENT" if "i < k" for i
    using stats [rule_format, of i] want(1) [OF that] group_block_stat(1) [OF g d p that] that b(2) by (cases "status ?tcb blk i = PACKET_ABSENT") simp_all
  have wk: "q < k" if "q < block_N b" "pstat b ! q = FEC_FLAG_WANTED" for q
    using lists(3) that filled_indices(3) [OF gfit kh(2,3) b d p, of q] b(2) by (auto simp: decoding_block_def)
  show thesis
  proof (rule that [OF run_dec])
    show "booster_ok c (set_buffer cls port tcb' st1)"
      using run fb b(1) g0 by (auto simp: booster_ok_def st1_def sized_def same_layout_def)
    show "class_params (set_buffer cls port tcb' st1) cls k h" using cls by (simp add: class_params_def st1_def)
    show "tclasses (set_buffer cls port tcb' st1) cls' = tclasses st cls'" if "cls' \<noteq> cls" for cls'
      using that by (simp add: set_buffer_def st1_def)
    fix i
    show "slot_status (set_buffer cls port tcb' st1) cls port blk i =
      (if i < k \<and> slot_status st cls port blk i = PACKET_ABSENT then PACKET_RECOVERED else slot_status st cls port blk i)"
      using genned [of i] by (auto simp: slot_status_def rec(1))
    fix j assume i: "i < k" and j: "j < length (ps ! i)"
    show "slot_mem (set_buffer cls port tcb' st1) cls port blk i j = ps ! i ! j"
    proof (cases "status ?tcb blk i = PACKET_ABSENT")
      case True
      have "j < ?L" using j length_le_longest [of "ps ! i" ps] i len by simp
      then have "gf (memory g' (?pk i) j) = group_word c s ps j i" using stats [rule_format, of i] want [OF i] True i b(2) by simp
      then show ?thesis using i j len by (simp add: slot_mem_def st1_def group_word_def padded_def)
    next
      case False
      have "memory g' (?pk i) = memory (rse st) (?pk i)"
      proof (rule rest [rule_format])
        fix q assume q: "q < block_N b" "pstat b ! q = FEC_FLAG_WANTED"
        then have "q \<noteq> i" using want(1) [OF i] False by auto
        then show "?pk i \<noteq> pdata b ! q" using want(2) [OF wk [OF q]] inj [of i q] wk [OF q] i by auto
      qed
      then show ?thesis using g i j False by (auto simp: slot_mem_def st1_def block_of_group_def)
    qed
  next
    fix cls' port' blk' i assume r: "in_range port' blk' i" and ne: "\<not> (cls' = cls \<and> port' = port \<and> blk' = blk \<and> i < k)"
    have "memory g' (pkt_at cls' (nat port') blk' i) = memory (rse st) (pkt_at cls' (nat port') blk' i)"
    proof (rule rest [rule_format])
      fix q assume q: "q < block_N b" "pstat b ! q = FEC_FLAG_WANTED"
      have "q < k" by (rule wk [OF q])
      moreover have "in_range port blk q" using port blk \<open>q < k\<close> group_in_table [OF cls] by (simp add: in_range_def)
      ultimately show "pkt_at cls' (nat port') blk' i \<noteq> pdata b ! q" using pkt_at_eq_iff [OF r, of port blk q cls' cls] want(2) ne by auto
    qed
    then show "slot_mem (set_buffer cls port tcb' st1) cls' port' blk' i = slot_mem st cls' port' blk' i" by (simp add: slot_mem_def st1_def)
  qed
qed

end
