(* ===== verification/Fec_Tag.thy ===== *)
theory Fec_Tag
  imports Fec_Booster
begin

text \<open>
  The encapsulation of \<^verbatim>\<open>fecBooster.c\<close>: what the tag of an encapsulated frame says, that stripping a
  tagged data packet gives the packet back, and what stripping a tagged parity packet gives.
\<close>

section \<open>Bytes and fields\<close>

lemma byte_masks: "(0x1F :: u8) = mask 5" "(7 :: u8) = mask 3" "(0xE0 :: u8) = push_bit 5 (mask 3)"
  by (simp_all add: mask_eq_exp_minus_1 push_bit_eq_mult)

lemma class_bits: "drop_bit 5 (put_block_id (put_class_id p i v) i w i) = v AND (7 :: u8)"
  by (rule bit_word_eqI)
    (auto simp: put_block_id_def put_class_id_def byte_masks bit_drop_bit_eq bit_or_iff bit_and_iff bit_push_bit_iff bit_mask_iff)

lemma block_bits: "put_block_id (put_class_id p i v) i w i AND 0x1F = w AND (0x1F :: u8)"
  by (rule bit_word_eqI)
    (auto simp: put_block_id_def put_class_id_def byte_masks bit_or_iff bit_and_iff bit_push_bit_iff bit_mask_iff)

lemma store16_other [simp]: "j \<noteq> i \<Longrightarrow> j \<noteq> i + 1 \<Longrightarrow> store16 p i v j = p j"
  by (simp add: store16_def)

lemma load16_store16_other [simp]: "j + 1 < i \<or> i + 1 < j \<Longrightarrow> load16 (store16 p i v) j = load16 p j"
  by (auto simp: load16_def store16_def)

lemma put_tag_other [simp]: "j \<noteq> 14 \<Longrightarrow> j \<noteq> 15 \<Longrightarrow> put_tag p t b f j = p j"
  by (simp add: put_tag_def Let_def put_block_id_def put_class_id_def SIZE_ETHERNET_def)

lemma load16_put_tag [simp]: "j < 13 \<or> 15 < j \<Longrightarrow> load16 (put_tag p t b f) j = load16 p j"
  by (intro load16_cong) auto

lemma load16_memcpy:
  "j + 1 < off \<or> off + n \<le> j \<Longrightarrow> load16 (memcpy p off q n) j = load16 p j"
  "off \<le> j \<Longrightarrow> j + 1 < off + n \<Longrightarrow> load16 (memcpy p off q n) j = load16 q (j - off)"
  by (auto simp: load16_def memcpy_def Suc_diff_le)

lemma header_put_tag:
  "get_fec_header (put_tag p t b f) 14 = \<lparr>hdr_block_id = of_nat b AND 0x1F, hdr_class_id = ucast t AND 7,
     hdr_index = of_nat f, hdr_orig_ethertype = load16 p 16, hdr_packet_len = load16 p 18\<rparr>"
  using class_bits [of p 14 "ucast t" "of_nat b"] block_bits [of p 14 "ucast t" "of_nat b"]
  by (simp add: get_fec_header_def) (simp add: put_tag_def Let_def SIZE_ETHERNET_def)

lemma get_fec_header_cong:
  "(\<And>j. i \<le> j \<Longrightarrow> j < i + 6 \<Longrightarrow> p j = q j) \<Longrightarrow> get_fec_header p i = get_fec_header q i"
  by (simp add: get_fec_header_def load16_def)

lemma memcpy_upto: "memcpy p off q n j = (if off \<le> j \<and> j < off + n then q (j - off) else p j)"
  by (simp add: memcpy_def)

section \<open>Data packets\<close>

definition tagged_as :: "bytes \<Rightarrow> tclass_type \<Rightarrow> nat \<Rightarrow> nat \<Rightarrow> u16 \<Rightarrow> u16 \<Rightarrow> bool" where
  \<comment> \<open>an encapsulated frame with this tag\<close>
  "tagged_as p tclass blk i orig len \<longleftrightarrow> load16 p 12 = htons WHARF_ETHERTYPE \<and>
     get_fec_header p SIZE_ETHERNET = \<lparr>hdr_block_id = of_nat blk AND 0x1F, hdr_class_id = ucast tclass AND 7,
       hdr_index = of_nat i, hdr_orig_ethertype = orig, hdr_packet_len = len\<rparr>"

lemma tag_data_result:
  assumes "14 \<le> n" and "n < FRAME_SIZE_CUTOFF" and "n + SIZE_FEC \<le> size_out"
  obtains out' where "wharf_tag_data tclass blk i (Some p) n out size_out = (out', n + SIZE_FEC, 0)"
    and "tagged_as out' tclass blk i (load16 p 12) (of_nat n)"
    and "\<And>j. j < 12 \<Longrightarrow> out' j = p j" and "\<And>j. 20 \<le> j \<Longrightarrow> j < n + 6 \<Longrightarrow> out' j = p (j - 6)"
proof -
  define o1 where "o1 = store16 (memcpy out 0 p SIZE_ETHERNET) (SIZE_ETHERNET + 2) (load16 p 12)"
  define o4 where "o4 = store16 (put_tag (store16 o1 12 (htons WHARF_ETHERTYPE)) tclass blk i) (SIZE_ETHERNET + 4) (of_nat n)"
  define o5 where "o5 = memcpy o4 WHARF_TAG_SIZE (ptr_add p SIZE_ETHERNET) (n - 14)"
  have u: "unat (of_nat n - of_nat SIZE_ETHERNET :: u64) = n - 14"
  proof -
    have "(of_nat n - of_nat SIZE_ETHERNET :: u64) = of_nat (n - 14)" using assms(1) by (simp add: SIZE_ETHERNET_def of_nat_diff)
    also have "unat \<dots> = n - 14" using assms(2) by (simp add: unat_of_nat FRAME_SIZE_CUTOFF_def take_bit_eq_mod)
    finally show ?thesis .
  qed
  have run: "wharf_tag_data tclass blk i (Some p) n out size_out = (o5, n + SIZE_FEC, 0)"
    using assms by (simp add: wharf_tag_data_def Let_def u o5_def o4_def o1_def)
  have o5: "o5 j = o4 j" if "j < 20" for j using that by (simp add: o5_def memcpy_simps WHARF_TAG_SIZE_def SIZE_ETHERNET_def SIZE_FEC_def)
  have "load16 o5 12 = htons WHARF_ETHERTYPE"
    using load16_cong [of o5 12 o4] o5 by (simp add: o4_def SIZE_ETHERNET_def)
  moreover have "get_fec_header o5 14 = get_fec_header o4 14" using o5 by (intro get_fec_header_cong) simp
  moreover have "get_fec_header o4 14 = \<lparr>hdr_block_id = of_nat blk AND 0x1F, hdr_class_id = ucast tclass AND 7,
       hdr_index = of_nat i, hdr_orig_ethertype = load16 p 12, hdr_packet_len = of_nat n\<rparr>"
    using header_put_tag [of "store16 o1 12 (htons WHARF_ETHERTYPE)" tclass blk i]
    by (simp add: get_fec_header_def o4_def o1_def SIZE_ETHERNET_def)
  ultimately have tag: "tagged_as o5 tclass blk i (load16 p 12) (of_nat n)" by (simp add: tagged_as_def SIZE_ETHERNET_def)
  show thesis
  proof (rule that [OF run tag])
    fix j :: nat
    show "o5 j = p j" if "j < 12"
      using o5 [of j] that by (simp add: o4_def o1_def SIZE_ETHERNET_def memcpy_simps)
    show "o5 j = p (j - 6)" if "20 \<le> j" "j < n + 6"
    proof -
      have "14 + (j - 20) = j - 6" using that by simp
      then show ?thesis using that assms(1) by (simp add: o5_def memcpy_upto WHARF_TAG_SIZE_def SIZE_ETHERNET_def SIZE_FEC_def ptr_add_def)
    qed
  qed
qed

lemma strip_data:
  assumes t: "tagged_as p tclass blk i orig (of_nat n)" and n: "n < 65536" "n \<noteq> 14"
    and k: "(of_nat i :: u8) < tc_k (tclasses st (ucast (ucast tclass AND 7 :: u8)))"
  shows "wharf_strip_frame st p = Some (store16 (memcpy p SIZE_FEC p SIZE_ETHERNET) (SIZE_FEC + 12) orig, SIZE_FEC, n)"
  using t n k by (simp add: wharf_strip_frame_def tagged_as_def Let_def unat_of_nat take_bit_eq_mod SIZE_ETHERNET_def)

lemma strip_filler:
  assumes t: "tagged_as p tclass blk i orig 14"
  shows "wharf_strip_frame st p = Some (p, WHARF_TAG_SIZE, 0)"
  using t by (simp add: wharf_strip_frame_def tagged_as_def Let_def SIZE_ETHERNET_def WHARF_TAG_SIZE_def SIZE_FEC_def)

lemma strip_tagged_bytes:
  assumes "load16 q 12 = orig" and "\<And>j. j < 12 \<Longrightarrow> p j = q j" and "\<And>j. 20 \<le> j \<Longrightarrow> j < n + 6 \<Longrightarrow> p j = q (j - 6)" and "j < n"
  shows "ptr_add (store16 (memcpy p SIZE_FEC p SIZE_ETHERNET) (SIZE_FEC + 12) orig) SIZE_FEC j = q j"
proof -
  have b: "ucast orig = q 12" "ucast (drop_bit 8 orig) = q 13"
    unfolding assms(1) [symmetric]
    by (rule bit_word_eqI; auto simp: load16_def bit_or_iff bit_push_bit_iff bit_unsigned_iff bit_drop_bit_eq dest: bit_imp_le_length)+
  consider "j < 12" | "j = 12" | "j = 13" | "14 \<le> j" by linarith
  then show ?thesis
  proof cases
    case 4
    then show ?thesis using assms(3) [of "j + 6"] assms(4) by (simp add: ptr_add_def memcpy_upto SIZE_FEC_def SIZE_ETHERNET_def add.commute)
  qed (use b assms(2) in \<open>simp_all add: ptr_add_def store16_def memcpy_upto SIZE_FEC_def SIZE_ETHERNET_def\<close>)
qed

section \<open>Parity packets\<close>

lemma tag_parity_result:
  assumes "n < FRAME_SIZE_CUTOFF" and "n + WHARF_TAG_SIZE \<le> size_out"
  obtains out' where "wharf_tag_parity tclass blk i p n out size_out = (out', n + WHARF_TAG_SIZE, 0)"
    and "tagged_as out' tclass blk i (htons WHARF_ETHERTYPE) (of_nat (n + WHARF_TAG_SIZE))"
    and "\<And>j. j < 12 \<Longrightarrow> out' j = out j" and "\<And>j. j < n \<Longrightarrow> ptr_add out' WHARF_TAG_SIZE j = p j"
proof -
  define o1 where "o1 = put_tag (store16 out 12 (htons WHARF_ETHERTYPE)) tclass blk i"
  define o4 where "o4 = store16 (store16 o1 (SIZE_ETHERNET + 2) (htons WHARF_ETHERTYPE)) (SIZE_ETHERNET + 4) (of_nat (n + WHARF_TAG_SIZE))"
  define o5 where "o5 = memcpy o4 WHARF_TAG_SIZE p n"
  have run: "wharf_tag_parity tclass blk i p n out size_out = (o5, n + WHARF_TAG_SIZE, 0)"
    using assms by (simp add: wharf_tag_parity_def Let_def o5_def o4_def o1_def)
  have o5: "o5 j = o4 j" if "j < 20" for j using that by (simp add: o5_def memcpy_simps WHARF_TAG_SIZE_def SIZE_ETHERNET_def SIZE_FEC_def)
  have "load16 o5 12 = htons WHARF_ETHERTYPE"
    using load16_cong [of o5 12 o4] o5 by (simp add: o4_def o1_def SIZE_ETHERNET_def)
  moreover have "get_fec_header o5 14 = get_fec_header o4 14" using o5 by (intro get_fec_header_cong) simp
  moreover have "get_fec_header o4 14 = \<lparr>hdr_block_id = of_nat blk AND 0x1F, hdr_class_id = ucast tclass AND 7,
       hdr_index = of_nat i, hdr_orig_ethertype = htons WHARF_ETHERTYPE, hdr_packet_len = of_nat (n + WHARF_TAG_SIZE)\<rparr>"
    using header_put_tag [of "store16 out 12 (htons WHARF_ETHERTYPE)" tclass blk i]
    by (simp add: get_fec_header_def o4_def o1_def SIZE_ETHERNET_def)
  ultimately have tag: "tagged_as o5 tclass blk i (htons WHARF_ETHERTYPE) (of_nat (n + WHARF_TAG_SIZE))"
    by (simp add: tagged_as_def SIZE_ETHERNET_def)
  show thesis
  proof (rule that [OF run tag])
    fix j :: nat
    show "o5 j = out j" if "j < 12" using o5 [of j] that by (simp add: o4_def o1_def SIZE_ETHERNET_def)
    show "ptr_add o5 WHARF_TAG_SIZE j = p j" if "j < n" using that by (simp add: ptr_add_def o5_def memcpy_upto)
  qed
qed

lemma strip_parity:
  assumes t: "tagged_as p tclass blk i orig (of_nat n)" and n: "n < 65536" "n \<noteq> 14"
    and k: "\<not> (of_nat i :: u8) < tc_k (tclasses st (ucast (ucast tclass AND 7 :: u8)))"
  shows "wharf_strip_frame st p = Some (p, WHARF_TAG_SIZE, n)"
  using t n k by (simp add: wharf_strip_frame_def tagged_as_def Let_def unat_of_nat take_bit_eq_mod SIZE_ETHERNET_def
      WHARF_TAG_SIZE_def SIZE_FEC_def)

end
