(* ===== verification/Fec_Pcap.thy ===== *)
theory Fec_Pcap
  imports Wharf_Api
begin

text \<open>
  The programs around the erasure booster, \<^verbatim>\<open>cpuBoosters/fecBoosters/fecPcap\<close>: the packet handlers and
  timeout handlers of the encoder (\<^verbatim>\<open>fecEncodeBooster.c\<close>) and the decoder (\<^verbatim>\<open>fecDecodeBooster.c\<close>), the
  forwarder that drops packets for tests (\<^verbatim>\<open>forwardingNonbooster.c\<close>) and the main program (\<^verbatim>\<open>fecPcap.c\<close>).

  A handler takes the captured packet and its length and returns the new state with the frames
  that \<^verbatim>\<open>forward_frame\<close> injects, in order. Capturing and injecting are the work of libpcap; its callbacks
  are the events of \<open>pcap_run\<close>. The argument \<open>stack\<close> holds what uninitialised local arrays contain.
  Reading an indeterminate variable, dividing by zero, leaving the bounds of an array and \<^verbatim>\<open>exit\<close> end the program. The bounds
  are checked where the code comes to an index or a length that it has not compared with them itself; the memory behind a captured frame
  is an argument.
\<close>

section \<open>Outcomes and output\<close>

datatype halt = Exit int | Abort | Trap | Indeterminate | Null_Pointer | Out_Of_Bounds | Endless_Loop

type_synonym frame = "u8 list"

definition forward_frame :: "bytes \<Rightarrow> nat \<Rightarrow> frame list" where
  "forward_frame packet len = [frame_of packet len]"

section \<open>The encoder\<close>

record encoder =
  enc_wharf :: wharf
  last_eth_header :: "tclass_type \<Rightarrow> bytes"
  last_block_id :: "tclass_type \<Rightarrow> int"
  timeouts :: "tclass_type \<Rightarrow> int"

definition enc_fec :: "encoder \<Rightarrow> booster" where
  "enc_fec e = fec (enc_wharf e)"

definition set_enc_fec :: "booster \<Rightarrow> encoder \<Rightarrow> encoder" where
  "set_enc_fec st e = e\<lparr>enc_wharf := (enc_wharf e)\<lparr>fec := st\<rparr>\<rparr>"

definition fill_missing :: "tclass_type \<Rightarrow> nat \<Rightarrow> bytes \<Rightarrow> bytes \<Rightarrow> nat \<Rightarrow> (booster \<times> frame list) option \<Rightarrow> (booster \<times> frame list) option" where
  \<comment> \<open>the body of the loop over data packets; \<open>empty0\<close> is the array \<open>empty_packet\<close> before the call\<close>
  "fill_missing tclass blk last_packet empty0 i sf =
     (case sf of
        None \<Rightarrow> None
      | Some (st, out) \<Rightarrow>
          if \<not> pkt_already_inserted st tclass DEFAULT_PORT blk i then
            let (empty_packet, empty_size, rc) = wharf_tag_data tclass blk i (Some last_packet) SIZE_ETHERNET empty0 WHARF_TAG_SIZE
            in map_option (\<lambda>(st1, rc1). (st1, out @ forward_frame empty_packet empty_size))
                 (insert_into_pkt_buffer tclass DEFAULT_PORT blk i 0 last_packet st)
          else Some (st, out))"

definition parity_frame :: "tclass_type \<Rightarrow> nat \<Rightarrow> bytes \<Rightarrow> (nat \<Rightarrow> bytes) \<Rightarrow> booster \<Rightarrow> nat \<Rightarrow> frame list" where
  \<comment> \<open>the body of the loop over parity packets\<close>
  "parity_frame tclass blk hdr stack st i =
     (let (parity_pkt, parity_size) = retrieve_encoded_packet st tclass i;
          (tagged_pkt, tagged_size, rc) =
            wharf_tag_parity tclass blk i parity_pkt parity_size (stack i) (parity_size + WHARF_TAG_SIZE);
          tagged1 = memcpy tagged_pkt 0 hdr 6;
          tagged2 = memcpy tagged1 6 (ptr_add hdr 6) 6
      in forward_frame tagged2 tagged_size)"

definition encode_and_forward_block ::
    "rse_h \<Rightarrow> bool \<Rightarrow> rse_state \<Rightarrow> (nat \<Rightarrow> bytes) \<Rightarrow> tclass_type \<Rightarrow> nat \<Rightarrow> bytes \<Rightarrow> encoder \<Rightarrow> halt + encoder \<times> bytes \<times> frame list" where
  \<comment> \<open>the header that is passed by reference is returned with its type cleared\<close>
  "encode_and_forward_block c lookup s stack tclass blk hdr e =
     (let last_packet = store16 hdr 12 0 in
      case wharf_query_tclass (enc_wharf e) tclass of
        None \<Rightarrow> Inl Out_Of_Bounds
      | Some None \<Rightarrow> Inl Indeterminate
      | Some (Some (k, h, _)) \<Rightarrow>
          if TOTAL_NUM_PACKETS < unat k \<or> 0 < h \<and> FEC_MAX_N c < unat k + unat h then Inl Out_Of_Bounds
          else
            case for_loop 0 (unat k) (fill_missing tclass blk last_packet (stack 0)) (Some (enc_fec e, [])) of
              None \<Rightarrow> Inl Out_Of_Bounds
            | Some (st1, out1) \<Rightarrow>
                let st2 = populate_fec_blk_data c tclass DEFAULT_PORT blk st1 in
                case encode_block c lookup s st2 of
                  None \<Rightarrow> Inl Out_Of_Bounds
                | Some st3 \<Rightarrow>
                    let out2 = concat (map (parity_frame tclass blk last_packet stack st3) [unat k..<unat k + unat h]);
                        e1 = set_enc_fec st3 e
                    in Inr (e1\<lparr>timeouts := (timeouts e1)(tclass := 0)\<rparr>, last_packet, out1 @ out2))"

definition enc_timeout ::
    "rse_h \<Rightarrow> bool \<Rightarrow> rse_state \<Rightarrow> (nat \<Rightarrow> bytes) \<Rightarrow> tclass_type \<Rightarrow> encoder \<Rightarrow> halt + encoder \<times> frame list" where
  \<comment> \<open>the body of the loop over classes\<close>
  "enc_timeout c lookup s stack i e =
     (if timeouts e i > 0 then
        let e1 = e\<lparr>timeouts := (timeouts e)(i := timeouts e i - 1)\<rparr> in
        if timeouts e1 i = 0 then
          case encode_and_forward_block c lookup s stack i (nat (last_block_id e1 i)) (last_eth_header e1 i) e1 of
            Inl err \<Rightarrow> Inl err
          | Inr (e2, hdr, out) \<Rightarrow>
              let e3 = e2\<lparr>last_eth_header := (last_eth_header e2)(i := hdr)\<rparr>;
                  (st, blk) = advance_block_id i DEFAULT_PORT (enc_fec e3);
                  e4 = (set_enc_fec st e3)\<lparr>last_block_id := (last_block_id e3)(i := uint blk)\<rparr>
              in Inr (set_enc_fec (mark_pkts_absent i DEFAULT_PORT (unat blk) (enc_fec e4)) e4, out)
        else Inr (e1, [])
      else Inr (e, []))"

definition enc_booster_timeout_handler ::
    "rse_h \<Rightarrow> bool \<Rightarrow> rse_state \<Rightarrow> (nat \<Rightarrow> bytes) \<Rightarrow> encoder \<Rightarrow> halt + encoder \<times> frame list" where
  "enc_booster_timeout_handler c lookup s stack e =
     for_loop 0 TCLASS_MAX (\<lambda>i r. case r of
         Inl err \<Rightarrow> Inl err
       | Inr (e, out) \<Rightarrow>
           (case enc_timeout c lookup s stack (of_nat i) e of Inl err \<Rightarrow> Inl err | Inr (e1, out1) \<Rightarrow> Inr (e1, out @ out1)))
       (Inr (e, []))"

definition start_block :: "tclass_type \<Rightarrow> u8 \<Rightarrow> encoder \<Rightarrow> encoder option" where
  \<comment> \<open>what the first packet of a block does\<close>
  "start_block tclass blk e =
     (let e1 = set_enc_fec (mark_pkts_absent tclass DEFAULT_PORT (unat blk) (enc_fec e)) e;
          e2 = e1\<lparr>last_block_id := (last_block_id e1)(tclass := uint blk)\<rparr>
      in map_option (\<lambda>t. if t > 0 then e2\<lparr>timeouts := (timeouts e2)(tclass := t)\<rparr> else e2) (wharf_get_t (enc_wharf e2) tclass))"

definition enc_my_packet_handler ::
    "rse_h \<Rightarrow> bool \<Rightarrow> rse_state \<Rightarrow> (nat \<Rightarrow> bytes) \<Rightarrow> bytes \<Rightarrow> nat \<Rightarrow> encoder \<Rightarrow> halt + encoder \<times> frame list" where
  \<comment> \<open>the array for the new frame is shorter than two headers if the captured frame is shorter than one\<close>
  "enc_my_packet_handler c lookup s stack packet packet_len e =
     (let tclass = wharf_query_packet (enc_wharf e) packet packet_len in
      if tclass = TCLASS_NULL then Inr (e, forward_frame packet packet_len)
      else if TCLASS_MAX < unat tclass \<or> packet_len < SIZE_ETHERNET then Inl Out_Of_Bounds
      else
        let block_id = get_fec_block_id (enc_fec e) tclass DEFAULT_PORT;
            packet_idx = get_fec_frame_idx (enc_fec e) tclass DEFAULT_PORT;
            (new_packet, new_size, rc) = wharf_tag_data tclass (unat block_id) (unat packet_idx) (Some packet) packet_len
               (stack 0) (packet_len + SIZE_FEC)
        in case advance_packet_idx tclass DEFAULT_PORT (enc_fec e) of
             None \<Rightarrow> Inl Trap
           | Some (st1, _) \<Rightarrow>
               let e1 = set_enc_fec st1 e;
                   out = forward_frame new_packet new_size;
                   tag = get_fec_header new_packet SIZE_ETHERNET
               in case (if hdr_index tag = 0 then start_block tclass block_id e1 else Some e1) of
                    None \<Rightarrow> Inl Out_Of_Bounds
                  | Some e2 \<Rightarrow>
                      if TOTAL_NUM_PACKETS \<le> unat packet_idx then Inl Out_Of_Bounds
                      else if pkt_already_inserted (enc_fec e2) tclass DEFAULT_PORT (unat block_id) (unat packet_idx) then Inl (Exit 1)
                      else
                        case insert_into_pkt_buffer tclass DEFAULT_PORT (unat block_id) (unat packet_idx)
                               (of_nat packet_len) packet (enc_fec e2) of
                          None \<Rightarrow> Inl Out_Of_Bounds
                        | Some (st3, _) \<Rightarrow>
                            let e3 = set_enc_fec st3 e2 in
                            case wharf_get_k (enc_wharf e3) tclass of
                              None \<Rightarrow> Inl Out_Of_Bounds
                            | Some k \<Rightarrow>
                                if uint (hdr_index tag) = uint k - 1 then
                                  case encode_and_forward_block c lookup s stack tclass (unat (hdr_block_id tag)) packet e3 of
                                    Inl err \<Rightarrow> Inl err
                                  | Inr (e4, _, out1) \<Rightarrow> Inr (e4, out @ out1)
                                else Inr (e3, out))"

section \<open>The decoder\<close>

record tclass_state =
  nothing_to_decode :: bool
  lastBlockId :: int
  lastPacketIdx :: int
  forwarded :: bool

record decoder =
  dec_wharf :: wharf
  dec_classes :: "tclass_type \<Rightarrow> tclass_state"

definition tclass_state_zero :: tclass_state where
  "tclass_state_zero = \<lparr>nothing_to_decode = False, lastBlockId = 0, lastPacketIdx = 0, forwarded = False\<rparr>"

definition dec_fec :: "decoder \<Rightarrow> booster" where
  "dec_fec d = fec (dec_wharf d)"

definition set_dec_fec :: "booster \<Rightarrow> decoder \<Rightarrow> decoder" where
  "set_dec_fec st d = d\<lparr>dec_wharf := (dec_wharf d)\<lparr>fec := st\<rparr>\<rparr>"

definition set_tclass_state :: "tclass_type \<Rightarrow> (tclass_state \<Rightarrow> tclass_state) \<Rightarrow> decoder \<Rightarrow> decoder" where
  "set_tclass_state tclass f d = d\<lparr>dec_classes := (dec_classes d)(tclass := f (dec_classes d tclass))\<rparr>"

definition reset_decoder :: "tclass_type \<Rightarrow> nat \<Rightarrow> decoder \<Rightarrow> decoder" where
  "reset_decoder tclass blk d =
     (let d1 = set_tclass_state tclass (\<lambda>t. t\<lparr>nothing_to_decode := True\<rparr>) d;
          d2 = set_dec_fec (mark_pkts_absent tclass DEFAULT_PORT blk (dec_fec d1)) d1
      in set_tclass_state tclass (\<lambda>t. t\<lparr>forwarded := True\<rparr>) d2)"

definition forward_recovered :: "booster \<Rightarrow> tclass_type \<Rightarrow> nat \<Rightarrow> nat \<Rightarrow> halt + frame list" where
  \<comment> \<open>the body of the loop over data packets; the size is whatever was recovered\<close>
  "forward_recovered st tclass blk i =
     (if TOTAL_NUM_PACKETS \<le> i then Inl Out_Of_Bounds
      else if pkt_recovered st tclass DEFAULT_PORT blk i then
        case retrieve_from_pkt_buffer st tclass DEFAULT_PORT blk i of
          (pkt, Some sz) \<Rightarrow>
            if unat sz > 0 then if PKT_BUF_SZ < 2 + unat sz then Inl Out_Of_Bounds else Inr (forward_frame pkt (unat sz))
            else Inr []
        | (pkt, None) \<Rightarrow> Inl Indeterminate
      else Inr [])"

primrec forward_each :: "(nat \<Rightarrow> halt + frame list) \<Rightarrow> nat list \<Rightarrow> halt + frame list" where
  "forward_each f [] = Inr []"
| "forward_each f (i # is) =
     (case f i of
        Inl err \<Rightarrow> Inl err
      | Inr out \<Rightarrow> (case forward_each f is of Inl err \<Rightarrow> Inl err | Inr outs \<Rightarrow> Inr (out @ outs)))"

definition decode_and_forward ::
    "rse_h \<Rightarrow> bool \<Rightarrow> rse_state \<Rightarrow> tclass_type \<Rightarrow> nat \<Rightarrow> decoder \<Rightarrow> halt + decoder \<times> frame list" where
  "decode_and_forward c lookup s tclass blk d =
     (if nothing_to_decode (dec_classes d tclass) \<or> is_all_data_pkts_recieved_for_block (dec_fec d) tclass DEFAULT_PORT blk
      then Inr (reset_decoder tclass blk d, [])
      else
        case decode_block c lookup s tclass DEFAULT_PORT blk (populate_fec_blk_data_and_parity c tclass DEFAULT_PORT blk (dec_fec d)) of
          None \<Rightarrow> Inl Out_Of_Bounds
        | Some st2 \<Rightarrow>
            let d1 = set_dec_fec st2 d in
            case wharf_get_k (dec_wharf d1) tclass of
              None \<Rightarrow> Inl Out_Of_Bounds
            | Some k \<Rightarrow>
                (case forward_each (forward_recovered st2 tclass blk) [0..<unat k] of
                   Inl err \<Rightarrow> Inl err
                 | Inr out \<Rightarrow> Inr (reset_decoder tclass blk d1, out)))"

definition buffer_packet :: "tclass_type \<Rightarrow> nat \<Rightarrow> nat \<Rightarrow> nat \<Rightarrow> bytes \<Rightarrow> decoder \<Rightarrow> decoder option" where
  \<comment> \<open>data and parity packets are stored unless they are there already\<close>
  "buffer_packet tclass blk idx sz stripped d =
     (if TOTAL_NUM_PACKETS \<le> idx then None
      else if \<not> pkt_already_inserted (dec_fec d) tclass DEFAULT_PORT blk idx then
        let d' = set_tclass_state tclass (\<lambda>t. t\<lparr>nothing_to_decode := False\<rparr>) d in
        map_option (\<lambda>(st, rc). set_dec_fec st d') (insert_into_pkt_buffer tclass DEFAULT_PORT blk idx (of_nat sz) stripped (dec_fec d'))
      else Some d)"

definition dec_my_packet_handler ::
    "rse_h \<Rightarrow> bool \<Rightarrow> rse_state \<Rightarrow> bytes \<Rightarrow> nat \<Rightarrow> decoder \<Rightarrow> halt + decoder \<times> frame list" where
  \<comment> \<open>the checks of \<open>CHECK_TABLE_ON_DECODE\<close> only log; \<open>can_decode\<close> looks at all \<open>k + h\<close> packets\<close>
  "dec_my_packet_handler c lookup s packet len d =
     (if WHARF_ETHERTYPE \<noteq> htons (load16 packet 12) then Inr (d, forward_frame packet len)
      else
        let fecHeader = get_fec_header packet SIZE_ETHERNET;
            tclass = ucast (hdr_class_id fecHeader);
            blk = unat (hdr_block_id fecHeader);
            idx = unat (hdr_index fecHeader);
            ts = dec_classes d tclass;
            fresh = (int blk \<noteq> lastBlockId ts \<or> int idx \<le> lastPacketIdx ts)
        in if TCLASS_MAX < unat tclass then Inl Out_Of_Bounds
           else if \<not> fresh \<and> forwarded ts then Inr (d, [])
           else
             let d1 = (if fresh then set_tclass_state tclass (\<lambda>t. t\<lparr>forwarded := False\<rparr>) (reset_decoder tclass blk d) else d);
                 d2 = set_tclass_state tclass (\<lambda>t. t\<lparr>lastPacketIdx := int idx\<rparr>) d1
             in case wharf_strip_frame (dec_fec d2) packet of
                  None \<Rightarrow> Inl Null_Pointer
                | Some (packet1, off, sz) \<Rightarrow>
                    let stripped = ptr_add packet1 off in
                    case wharf_get_k (dec_wharf d2) tclass of
                      None \<Rightarrow> Inl Out_Of_Bounds
                    | Some k \<Rightarrow>
                        let out1 = (if hdr_index fecHeader < k \<and> hdr_orig_ethertype fecHeader \<noteq> 0 then forward_frame stripped sz else []) in
                        case buffer_packet tclass blk idx sz stripped d2 of
                          None \<Rightarrow> Inl Out_Of_Bounds
                        | Some d3 \<Rightarrow>
                            let tc = tclasses (dec_fec d3) tclass in
                            if TOTAL_NUM_PACKETS < unat (tc_k tc) + unat (tc_h tc) then Inl Out_Of_Bounds
                            else
                              (case (if can_decode (dec_fec d3) tclass DEFAULT_PORT blk then decode_and_forward c lookup s tclass blk d3 else Inr (d3, [])) of
                                 Inl err \<Rightarrow> Inl err
                               | Inr (d4, out2) \<Rightarrow>
                                   Inr (set_tclass_state tclass (\<lambda>t. t\<lparr>lastBlockId := int blk, lastPacketIdx := int idx\<rparr>) d4, out1 @ out2)))"

definition dec_booster_timeout_handler :: "decoder \<Rightarrow> halt + decoder \<times> frame list" where
  "dec_booster_timeout_handler d = Inr (d, [])"

section \<open>The forwarder that drops packets\<close>

definition WHARF_DROP_AFTER :: int where "WHARF_DROP_AFTER = 8"

record nonbooster =
  drop_count :: int
  packets_so_far :: int

definition nonbooster_zero :: nonbooster where
  "nonbooster_zero = \<lparr>drop_count = 0, packets_so_far = 0\<rparr>"

definition non_my_packet_handler :: "bytes \<Rightarrow> nat \<Rightarrow> nonbooster \<Rightarrow> halt + nonbooster \<times> frame list" where
  \<comment> \<open>\<open>packets_so_far\<close> wraps as a 32-bit integer on the machines in use\<close>
  "non_my_packet_handler packet len n =
     (let n1 = n\<lparr>packets_so_far := signed_take_bit 31 (packets_so_far n + 1)\<rparr> in
      if WHARF_DROP_AFTER = 0 then Inr (n1, forward_frame packet len)
      else if drop_count n1 = 0 then Inr (n1\<lparr>drop_count := WHARF_DROP_AFTER\<rparr>, [])
      else Inr (n1\<lparr>drop_count := drop_count n1 - 1\<rparr>, forward_frame packet len))"

definition non_booster_timeout_handler :: "nonbooster \<Rightarrow> halt + nonbooster \<times> frame list" where
  "non_booster_timeout_handler n = Inr (n, [])"

section \<open>The main program\<close>

datatype pcap_event = Captured bytes nat | Alarm

primrec pcap_run :: "(bytes \<Rightarrow> nat \<Rightarrow> 'st \<Rightarrow> halt + 'st \<times> frame list) \<Rightarrow> ('st \<Rightarrow> halt + 'st \<times> frame list) \<Rightarrow>
    pcap_event list \<Rightarrow> 'st \<Rightarrow> halt + 'st \<times> frame list" where
  \<comment> \<open>the endless loop of \<open>main\<close> over a finite sequence of captured packets and alarms\<close>
  "pcap_run packet timeout [] st = Inr (st, [])"
| "pcap_run packet timeout (ev # evs) st =
     (case (case ev of Captured p n \<Rightarrow> packet p n st | Alarm \<Rightarrow> timeout st) of
        Inl err \<Rightarrow> Inl err
      | Inr (st1, out1) \<Rightarrow>
          (case pcap_run packet timeout evs st1 of Inl err \<Rightarrow> Inl err | Inr (st2, out2) \<Rightarrow> Inr (st2, out1 @ out2)))"

record interfaces =
  inputInterface :: "string option"
  outputInterface :: "string option"

primrec main_options :: "(string \<Rightarrow> string option) \<Rightarrow> (char \<times> string) list \<Rightarrow> interfaces \<Rightarrow> wharf \<Rightarrow> halt + interfaces \<times> wharf" where
  \<comment> \<open>the options that \<open>getopt\<close> returns with their arguments; \<open>files\<close> gives the contents of files\<close>
  "main_options files [] ifs w = Inr (ifs, w)"
| "main_options files (oa # oas) ifs w =
     (let (opt, optarg) = oa in
      if opt = CHR ''i'' then main_options files oas (ifs\<lparr>inputInterface := Some optarg\<rparr>) w
      else if opt = CHR ''o'' then main_options files oas (ifs\<lparr>outputInterface := Some optarg\<rparr>) w
      else if opt = CHR ''w'' \<or> opt = CHR ''t'' then main_options files oas ifs w
      else if opt = CHR ''r'' then
        case wharf_load_from_file (files optarg) w of
          None \<Rightarrow> Inl Null_Pointer
        | Some (w1, rc) \<Rightarrow> if rc \<noteq> 0 then Inl Abort else main_options files oas ifs w1
      else Inl Abort)"

definition main_start :: "rse_h \<Rightarrow> bool \<Rightarrow> (string \<Rightarrow> string option) \<Rightarrow> (char \<times> string) list \<Rightarrow> halt + rse_state \<times> interfaces \<times> wharf" where
  \<comment> \<open>from \<open>rse_init\<close> to the check of the input interface\<close>
  "main_start c lookup files opts =
     (case rse_init c lookup (rse_zero c) of
        None \<Rightarrow> Inl Endless_Loop
      | Some (s, rc) \<Rightarrow>
          if rc \<noteq> 0 then Inl (Exit rc)
          else
            case main_options files opts \<lparr>inputInterface = None, outputInterface = None\<rparr> (wharf_zero c) of
              Inl err \<Rightarrow> Inl err
            | Inr (ifs, w) \<Rightarrow> if inputInterface ifs = None then Inl (Exit 1) else Inr (s, ifs, w))"

definition encoder_zero :: "wharf \<Rightarrow> encoder" where
  "encoder_zero w = \<lparr>enc_wharf = w, last_eth_header = (\<lambda>_ _. 0), last_block_id = (\<lambda>_. 0), timeouts = (\<lambda>_. 0)\<rparr>"

definition decoder_zero :: "wharf \<Rightarrow> decoder" where
  "decoder_zero w = \<lparr>dec_wharf = w, dec_classes = (\<lambda>_. tclass_state_zero)\<rparr>"

end
