(* ===== verification/Fec_Decoder.thy ===== *)
theory Fec_Decoder
  imports Fec_Codec Fec_Tag Fec_Pcap "HOL-Library.Multiset"
begin

text \<open>
  The decoder of \<^verbatim>\<open>fecDecodeBooster.c\<close> on the frames of one group. As soon as \<open>k\<close> of the \<open>k + h\<close> frames of a group
  have arrived, in order, the decoder has forwarded every data packet of the group, and
  it ignores the frames that follow.
\<close>

section \<open>The frames of a group\<close>

definition data_frame :: "frame \<Rightarrow> bool" where
  \<comment> \<open>a packet longer than the Ethernet header, with a type, that the encoder can encapsulate\<close>
  "data_frame p \<longleftrightarrow> SIZE_ETHERNET < length p \<and> length p < FRAME_SIZE_CUTOFF \<and> load16 ((!) p) 12 \<noteq> 0"

definition parity_length :: "rse_h \<Rightarrow> frame list \<Rightarrow> nat" where
  "parity_length c ds = longest (map prefixed ds) + FEC_EXTRA_COLS c"

definition group_ok :: "rse_h \<Rightarrow> tclass_type \<Rightarrow> nat \<Rightarrow> nat \<Rightarrow> nat \<Rightarrow> frame list \<Rightarrow> bool" where
  \<comment> \<open>the data packets of a group, an empty list for a filler; class and block fit in the tag\<close>
  "group_ok c cls blk k h ds \<longleftrightarrow> length ds = k \<and> (\<forall>d\<in>set ds. d = [] \<or> data_frame d) \<and> unat cls \<le> TCLASS_MAX \<and> blk < 32 \<and>
     parity_length c ds < FRAME_SIZE_CUTOFF \<and> parity_length c ds + WHARF_TAG_SIZE \<le> FEC_MAX_COLS c"

definition group_frame :: "rse_h \<Rightarrow> rse_state \<Rightarrow> tclass_type \<Rightarrow> nat \<Rightarrow> frame list \<Rightarrow> nat \<Rightarrow> bytes \<Rightarrow> bool" where
  \<comment> \<open>frame \<open>i\<close> of the group as it travels: a tagged data packet, a tagged filler or a tagged parity packet\<close>
  "group_frame c s cls blk ds i p \<longleftrightarrow>
     (if i < length ds then
        if ds ! i = [] then tagged_as p cls blk i 0 14
        else tagged_as p cls blk i (load16 ((!) (ds ! i)) 12) (of_nat (length (ds ! i))) \<and>
          (\<forall>j<12. p j = ds ! i ! j) \<and> (\<forall>j. 20 \<le> j \<longrightarrow> j < length (ds ! i) + 6 \<longrightarrow> p j = ds ! i ! (j - 6))
      else tagged_as p cls blk i (htons WHARF_ETHERTYPE) (of_nat (parity_length c ds + WHARF_TAG_SIZE)) \<and>
        (\<forall>col<longest (map prefixed ds). gf (p (WHARF_TAG_SIZE + col)) = parity_symbol c s (map prefixed ds) (i - length ds) col))"

lemma u8_less_iff: "a < 256 \<Longrightarrow> b < 256 \<Longrightarrow> (of_nat a :: u8) < of_nat b \<longleftrightarrow> a < b"
  by (simp add: word_less_nat_alt unat_of_nat take_bit_eq_mod)

lemma low_bits_id: "x < 2 ^ n \<Longrightarrow> n < 8 \<Longrightarrow> unat (of_nat x AND mask n :: u8) = x"
proof -
  assume x: "x < 2 ^ n" and n: "n < 8"
  have "unat (of_nat x AND mask n :: u8) = unat (take_bit n (of_nat x :: u8))" by (simp only: take_bit_eq_mask)
  also have "\<dots> = take_bit n (unat (of_nat x :: u8))" by (simp only: unsigned_take_bit_eq)
  also have "unat (of_nat x :: u8) = x"
    using x power_strict_increasing [OF n, of "2 :: nat"] by (intro unat_of_nat_u8) simp
  also have "take_bit n x = x" using x by (simp add: take_bit_nat_eq_self)
  finally show "unat (of_nat x AND mask n :: u8) = x" .
qed

lemma block_bits_id: "blk < 32 \<Longrightarrow> unat (of_nat blk AND 0x1F :: u8) = blk"
  using low_bits_id [of blk 5] by (simp add: mask_eq_exp_minus_1)

lemma class_bits_id: "unat cls < 8 \<Longrightarrow> ucast (ucast (cls :: u16) AND 7 :: u8) = cls"
proof -
  assume c: "unat cls < 8"
  have "unat (of_nat (unat cls) AND 7 :: u8) = unat cls" using low_bits_id [of "unat cls" 3] c by (simp add: mask_eq_exp_minus_1)
  then have "unat (ucast (ucast cls AND 7 :: u8) :: u16) = unat cls" using c by (simp add: unsigned_ucast_eq take_bit_nat_eq_self)
  then show "ucast (ucast cls AND 7 :: u8) = cls" by (simp only: word_unat_eq_iff)
qed

lemma strip_group_frame:
  assumes g: "group_ok c cls blk k h ds" and cls: "class_params st cls k h" and i: "i < k + h"
    and p: "group_frame c s cls blk ds i p"
  obtains q off sz where "wharf_strip_frame st p = Some (q, off, sz)" and "sz < 65536"
    and "i < k \<Longrightarrow> frame_of (ptr_add q off) sz = ds ! i"
    and "\<not> i < k \<Longrightarrow> sz = parity_length c ds + WHARF_TAG_SIZE"
    and "\<And>col. \<not> i < k \<Longrightarrow> col < longest (map prefixed ds) \<Longrightarrow> gf (ptr_add q off col) = parity_symbol c s (map prefixed ds) (i - k) col"
proof -
  have len: "length ds = k" and c8: "unat cls < 8" using g by (simp_all add: group_ok_def TCLASS_MAX_def)
  have kb: "k \<le> 50" "h \<le> 5" and tk: "tc_k (tclasses st cls) = of_nat k"
    using cls by (auto simp: class_params_def FEC_MAX_K_def FEC_MAX_H_def)
  have idx: "(of_nat i :: u8) < tc_k (tclasses st (ucast (ucast cls AND 7 :: u8))) \<longleftrightarrow> i < k"
    using i kb by (simp add: class_bits_id [OF c8] tk u8_less_iff)
  consider "i < k" "ds ! i = []" | "i < k" "ds ! i \<noteq> []" | "\<not> i < k" by blast
  then show thesis
  proof cases
    case 1
    then have "tagged_as p cls blk i 0 14" using p by (simp add: group_frame_def len)
    from strip_filler [OF this] show thesis by (rule that) (use 1 in \<open>simp_all add: frame_of_def\<close>)
  next
    case 2
    let ?d = "ds ! i"
    have d: "tagged_as p cls blk i (load16 ((!) ?d) 12) (of_nat (length ?d))" "\<And>j. j < 12 \<Longrightarrow> p j = ?d ! j"
      "\<And>j. 20 \<le> j \<Longrightarrow> j < length ?d + 6 \<Longrightarrow> p j = ?d ! (j - 6)"
      using p 2 by (simp_all add: group_frame_def len)
    have "?d \<in> set ds" using 2(1) by (simp add: len)
    then have l: "14 < length ?d" "length ?d < 1498"
      using g 2(2) by (auto simp: group_ok_def data_frame_def SIZE_ETHERNET_def FRAME_SIZE_CUTOFF_def)
    let ?q = "store16 (memcpy p SIZE_FEC p SIZE_ETHERNET) (SIZE_FEC + 12) (load16 ((!) ?d) 12)"
    have strip: "wharf_strip_frame st p = Some (?q, SIZE_FEC, length ?d)"
      using strip_data [OF d(1) _ _ idx [THEN iffD2, OF 2(1)]] l by simp
    have "frame_of (ptr_add ?q SIZE_FEC) (length ?d) = ?d"
      using strip_tagged_bytes [of "(!) ?d" "load16 ((!) ?d) 12" p "length ?d", OF refl d(2,3)] by (intro nth_equalityI) simp_all
    from that [OF strip _ this] show thesis using l 2(1) by simp
  next
    case 3
    let ?n = "parity_length c ds + WHARF_TAG_SIZE"
    have t: "tagged_as p cls blk i (htons WHARF_ETHERTYPE) (of_nat ?n)"
      and b: "\<And>col. col < longest (map prefixed ds) \<Longrightarrow> gf (p (WHARF_TAG_SIZE + col)) = parity_symbol c s (map prefixed ds) (i - k) col"
      using p 3 by (simp_all add: group_frame_def len)
    have n: "?n < 65536" "?n \<noteq> 14" using g by (simp_all add: group_ok_def FRAME_SIZE_CUTOFF_def WHARF_TAG_SIZE_def SIZE_ETHERNET_def SIZE_FEC_def)
    from strip_parity [OF t n] idx 3 have "wharf_strip_frame st p = Some (p, WHARF_TAG_SIZE, ?n)" by simp
    then show thesis by (rule that) (use 3 n b in \<open>simp_all add: ptr_add_def\<close>)
  qed
qed

section \<open>The slots of a block\<close>

lemma mark_absent_status:
  "status (for_loop 0 n (\<lambda>i tcb. tcb\<lparr>status := (status tcb)(blk := (status tcb blk)(i := PACKET_ABSENT))\<rparr>) tcb) b i =
    (if b = blk \<and> i < n then PACKET_ABSENT else status tcb b i)"
  by (induction n) (auto simp: for_loop_Suc less_Suc_eq)

lemma mark_pkts_absent_slots:
  assumes "valid_port port"
  shows "slot_status (mark_pkts_absent cls port blk st) cls port blk' i =
      (if blk' = blk \<and> i < TOTAL_NUM_PACKETS then PACKET_ABSENT else slot_status st cls port blk' i)"
    and "rse (mark_pkts_absent cls port blk st) = rse st"
    and "tc_k (tclasses (mark_pkts_absent cls port blk st) c') = tc_k (tclasses st c')"
    and "tc_h (tclasses (mark_pkts_absent cls port blk st) c') = tc_h (tclasses st c')"
    and "tc_o (tclasses (mark_pkts_absent cls port blk st) c') = tc_o (tclasses st c')"
  using assms by (simp_all add: mark_pkts_absent_def slot_status_def mark_absent_status)

lemma mark_absent_params [simp]:
  assumes "valid_port port"
  shows "booster_ok c (mark_pkts_absent cls port blk st) = booster_ok c st"
    and "class_params (mark_pkts_absent cls port blk st) c' k h = class_params st c' k h"
  using mark_pkts_absent_slots [OF assms] by (simp_all add: booster_ok_def class_params_def)

definition received :: "rse_h \<Rightarrow> rse_state \<Rightarrow> booster \<Rightarrow> tclass_type \<Rightarrow> nat \<Rightarrow> nat \<Rightarrow> nat \<Rightarrow> frame list \<Rightarrow> nat list \<Rightarrow> bool" where
  \<comment> \<open>the slots of the block hold the frames \<open>is\<close> of the group and nothing else\<close>
  "received c s st cls blk k h ds is \<longleftrightarrow> booster_ok c st \<and> class_params st cls k h \<and>
     (\<forall>i<k. if i \<in> set is then slot_holds st cls DEFAULT_PORT blk i (prefixed (ds ! i))
            else slot_status st cls DEFAULT_PORT blk i = PACKET_ABSENT) \<and>
     (\<forall>r<h. if k + r \<in> set is
            then slot_status st cls DEFAULT_PORT blk (k + r) = PACKET_PRESENT \<and>
              slot_size st cls DEFAULT_PORT blk (k + r) = parity_length c ds + WHARF_TAG_SIZE \<and>
              (\<forall>col<longest (map prefixed ds). gf (slot_mem st cls DEFAULT_PORT blk (k + r) col) =
                 parity_symbol c s (map prefixed ds) r col)
            else slot_status st cls DEFAULT_PORT blk (k + r) = PACKET_ABSENT)"

lemma received_mark:
  assumes "booster_ok c st" and "class_params st cls k h"
  shows "received c s (mark_pkts_absent cls DEFAULT_PORT blk st) cls blk k h ds []"
  using assms group_in_table [OF assms(2)] by (simp add: received_def mark_pkts_absent_slots)

lemma received_insert:
  assumes rcv: "received c s st cls blk k h ds is" and g: "group_ok c cls blk k h ds" and i: "i < k + h" "i \<notin> set is"
    and sz: "sz < 65536" and d: "i < k \<Longrightarrow> frame_of q sz = ds ! i"
    and n: "\<not> i < k \<Longrightarrow> sz = parity_length c ds + WHARF_TAG_SIZE"
    and b: "\<And>col. \<not> i < k \<Longrightarrow> col < longest (map prefixed ds) \<Longrightarrow> gf (q col) = parity_symbol c s (map prefixed ds) (i - k) col"
  shows "received c s (store_packet cls DEFAULT_PORT blk i (of_nat sz) q st) cls blk k h ds (is @ [i])"
proof -
  let ?st = "store_packet cls DEFAULT_PORT blk i (of_nat sz) q st"
  have ok: "booster_ok c st" "class_params st cls k h" using rcv by (simp_all add: received_def)
  have k: "unat (tc_k (tclasses st cls)) = k" using ok(2) by (simp add: class_params_def)
  have u: "unat (of_nat sz :: u16) = sz" using sz by (simp add: unat_of_nat take_bit_eq_mod)
  have blk: "blk < NUM_BLOCKS" using g by (simp add: group_ok_def NUM_BLOCKS_def)
  have tab: "k + h \<le> TOTAL_NUM_PACKETS" using ok(2) by (rule group_in_table)
  have ir: "in_range DEFAULT_PORT blk j" if "j < k + h" for j using that tab blk by (simp add: in_range_def)
  note new = store_holds [of DEFAULT_PORT cls blk i "of_nat sz" q st, simplified, unfolded k u]
  have old: "slot_status ?st cls DEFAULT_PORT blk j = slot_status st cls DEFAULT_PORT blk j"
    "slot_size ?st cls DEFAULT_PORT blk j = slot_size st cls DEFAULT_PORT blk j"
    "slot_mem ?st cls DEFAULT_PORT blk j = slot_mem st cls DEFAULT_PORT blk j" if "j < k + h" "j \<noteq> i" for j
    using store_frame [OF ir [OF i(1)] ir [OF that(1)], of cls cls] that(2) by simp_all
  have holds: "slot_holds ?st cls DEFAULT_PORT blk j xs \<longleftrightarrow> slot_holds st cls DEFAULT_PORT blk j xs" if "j < k + h" "j \<noteq> i" for j xs
    using old [OF that] by (simp add: slot_holds_def)
  have "longest (map prefixed ds) \<le> sz" if "\<not> i < k" using n [OF that] by (simp add: parity_length_def)
  then have par: "slot_status ?st cls DEFAULT_PORT blk i = PACKET_PRESENT \<and> slot_size ?st cls DEFAULT_PORT blk i = parity_length c ds + WHARF_TAG_SIZE \<and>
      (\<forall>col<longest (map prefixed ds). gf (slot_mem ?st cls DEFAULT_PORT blk i col) = parity_symbol c s (map prefixed ds) (i - k) col)" if "\<not> i < k"
    using new that n b by (simp add: slot_holds_def)
  have data: "slot_holds ?st cls DEFAULT_PORT blk i (prefixed (ds ! i))" if "i < k" using new that d by simp
  have params: "booster_ok c ?st" "class_params ?st cls k h" using ok by (simp_all add: booster_ok_def class_params_def)
  show ?thesis
    unfolding received_def
  proof (intro conjI allI impI params)
    fix j assume "j < k"
    then show "if j \<in> set (is @ [i]) then slot_holds ?st cls DEFAULT_PORT blk j (prefixed (ds ! j))
        else slot_status ?st cls DEFAULT_PORT blk j = PACKET_ABSENT"
      using rcv data holds [of j] old(1) [of j] by (cases "j = i") (auto simp: received_def)
  next
    fix r assume "r < h"
    then show "if k + r \<in> set (is @ [i])
        then slot_status ?st cls DEFAULT_PORT blk (k + r) = PACKET_PRESENT \<and>
          slot_size ?st cls DEFAULT_PORT blk (k + r) = parity_length c ds + WHARF_TAG_SIZE \<and>
          (\<forall>col<longest (map prefixed ds). gf (slot_mem ?st cls DEFAULT_PORT blk (k + r) col) =
             parity_symbol c s (map prefixed ds) r col)
        else slot_status ?st cls DEFAULT_PORT blk (k + r) = PACKET_ABSENT"
      using rcv par old [of "k + r"] by (cases "k + r = i") (auto simp: received_def)
  qed
qed

lemma group_insert:
  assumes g: "group_ok c cls blk k h ds" and cls: "class_params st cls k h" and i: "i < k + h"
    and d: "i < k \<Longrightarrow> frame_of q sz = ds ! i" and n: "\<not> i < k \<Longrightarrow> sz = parity_length c ds + WHARF_TAG_SIZE"
  shows "insert_into_pkt_buffer cls DEFAULT_PORT blk i (of_nat sz) q st = Some (store_packet cls DEFAULT_PORT blk i (of_nat sz) q st, 0)"
proof (rule insert_fits [OF valid_default_port])
  show "slot_exists cls blk i" using g i group_in_table [OF cls] by (simp add: slot_exists_def group_ok_def NUM_BLOCKS_def)
  have sz: "sz < 1518"
  proof (cases "i < k")
    case True
    have "ds ! i \<in> set ds" using g True by (simp add: group_ok_def)
    moreover have "length (ds ! i) = sz" using d [OF True, symmetric] by simp
    ultimately show ?thesis using g by (auto simp: group_ok_def data_frame_def FRAME_SIZE_CUTOFF_def)
  next
    case False
    then show ?thesis using n g by (simp add: group_ok_def FRAME_SIZE_CUTOFF_def WHARF_TAG_SIZE_def SIZE_ETHERNET_def SIZE_FEC_def)
  qed
  then show "length_prefix st cls i + unat (of_nat sz :: u16) \<le> PKT_BUF_SZ"
    by (simp add: length_prefix_def PKT_BUF_SZ_def unat_of_nat take_bit_eq_mod)
qed

section \<open>Decoding\<close>

lemma received_group:
  assumes rcv: "received c s st cls blk k h ds is" and g: "group_ok c cls blk k h ds"
  shows "group_received c s st cls DEFAULT_PORT blk k h (map prefixed ds)"
proof -
  have len: "length ds = k" and C: "parity_length c ds + WHARF_TAG_SIZE \<le> max_columns c"
    using g by (simp_all add: group_ok_def PKT_BUF_SZ_def FRAME_SIZE_CUTOFF_def WHARF_TAG_SIZE_def SIZE_ETHERNET_def SIZE_FEC_def)
  have d: "slot_holds st cls DEFAULT_PORT blk i (prefixed (ds ! i)) \<or> slot_status st cls DEFAULT_PORT blk i = PACKET_ABSENT" if "i < k" for i
    using rcv that by (auto simp: received_def split: if_splits)
  have r: "slot_size st cls DEFAULT_PORT blk (k + r) = parity_length c ds + WHARF_TAG_SIZE \<and>
      (\<forall>col<longest (map prefixed ds). gf (slot_mem st cls DEFAULT_PORT blk (k + r) col) = parity_symbol c s (map prefixed ds) r col)"
    if "r < h" "slot_status st cls DEFAULT_PORT blk (k + r) = PACKET_PRESENT" for r
    using rcv that by (auto simp: received_def split: if_splits)
  show ?thesis using d r C len by (simp add: group_received_def parity_length_def)
qed

lemma received_status:
  assumes "received c s st cls blk k h ds is" and "i < k + h"
  shows "slot_status st cls DEFAULT_PORT blk i = (if i \<in> set is then PACKET_PRESENT else PACKET_ABSENT)"
proof (cases "i < k")
  case True
  then show ?thesis using assms(1) by (auto simp: received_def slot_holds_def split: if_splits)
next
  case False
  then obtain r where "r < h" "i = k + r" using index_beyond [OF assms(2)] by blast
  then show ?thesis using assms(1) by (auto simp: received_def split: if_splits)
qed

definition missing :: "nat \<Rightarrow> nat list \<Rightarrow> nat list" where
  "missing k is = filter (\<lambda>i. i \<notin> set is) [0..<k]"

lemma can_decode_received:
  assumes rcv: "received c s st cls blk k h ds is" and ix: "distinct is" "set is \<subseteq> {..<k + h}"
  shows "can_decode st cls DEFAULT_PORT blk \<longleftrightarrow> k \<le> length is"
    and "is_all_data_pkts_recieved_for_block st cls DEFAULT_PORT blk \<longleftrightarrow> missing k is = []"
proof -
  have cls: "class_params st cls k h" using rcv by (simp add: received_def)
  note st = received_status [OF rcv]
  have a: "filter (\<lambda>i. slot_status st cls DEFAULT_PORT blk i = PACKET_ABSENT) [0..<k] = missing k is"
    unfolding missing_def by (rule filter_cong) (simp_all add: st)
  have b: "filter (\<lambda>r. slot_status st cls DEFAULT_PORT blk (k + r) = PACKET_PRESENT) [0..<h] = filter (\<lambda>r. k + r \<in> set is) [0..<h]"
    by (rule filter_cong) (simp_all add: st)
  have "length is = card (set is)" using ix(1) by (simp add: distinct_card)
  also have "set is = (set is \<inter> {..<k}) \<union> (+) k ` {r. r < h \<and> k + r \<in> set is}"
  proof (intro equalityI subsetI)
    fix i assume i: "i \<in> set is"
    then have "i < k + h" using ix(2) by blast
    then show "i \<in> (set is \<inter> {..<k}) \<union> (+) k ` {r. r < h \<and> k + r \<in> set is}"
      using i index_beyond [of i k h] by (cases "i < k") auto
  qed auto
  also have "card \<dots> = card (set is \<inter> {..<k}) + card {r. r < h \<and> k + r \<in> set is}"
    by (subst card_Un_disjoint) (auto simp: card_image)
  also have "card {r. r < h \<and> k + r \<in> set is} = length (filter (\<lambda>r. k + r \<in> set is) [0..<h])"
    by (subst distinct_card [symmetric]) (auto intro: arg_cong [where f = card])
  finally have "length is = card (set is \<inter> {..<k}) + length (filter (\<lambda>r. k + r \<in> set is) [0..<h])" .
  moreover have "card (set is \<inter> {..<k}) + length (missing k is) = k"
  proof -
    have "length (missing k is) = card ({..<k} - set is)"
      unfolding missing_def by (subst distinct_card [symmetric]) (auto intro: arg_cong [where f = card])
    then show ?thesis using card_Int_Diff [of "{..<k}" "set is"] by (simp add: Int_commute)
  qed
  ultimately show "can_decode st cls DEFAULT_PORT blk \<longleftrightarrow> k \<le> length is"
    unfolding can_decode_counts [OF valid_default_port cls] a b by linarith
  show "is_all_data_pkts_recieved_for_block st cls DEFAULT_PORT blk \<longleftrightarrow> missing k is = []"
    unfolding all_received_iff [OF valid_default_port cls] by (auto simp: st missing_def filter_empty_conv split: if_splits)
qed

abbreviation nonempty :: "frame list \<Rightarrow> frame list" where
  "nonempty \<equiv> filter (\<lambda>d. d \<noteq> [])"

lemma concat_single: "concat (map (\<lambda>i. if P i \<and> f i \<noteq> [] then [f i] else []) is) = nonempty (map f (filter P is))"
  by (induction "is") auto

lemma forward_each_all: "(\<And>i. i \<in> set is \<Longrightarrow> f i = Inr (g i)) \<Longrightarrow> forward_each f is = Inr (concat (map g is))"
  by (induction "is") simp_all

lemma dec_simps [simp]:
  "dec_fec (set_dec_fec st d) = st" "dec_fec (set_tclass_state cls f d) = dec_fec d"
  "dec_classes (set_dec_fec st d) = dec_classes d" "dec_wharf (set_tclass_state cls f d) = dec_wharf d"
  "dec_classes (set_tclass_state cls f d) cls = f (dec_classes d cls)"
  "wharf_get_k (dec_wharf (set_dec_fec st d)) cls' = wharf_get_k (dec_wharf d) cls'"
  by (simp_all add: dec_fec_def set_dec_fec_def set_tclass_state_def wharf_get_k_def class_at_def in_table_def)

lemma reset_decoder_simps [simp]:
  "dec_fec (reset_decoder cls blk d) = mark_pkts_absent cls DEFAULT_PORT blk (dec_fec d)"
  "dec_classes (reset_decoder cls blk d) cls = (dec_classes d cls)\<lparr>nothing_to_decode := True, forwarded := True\<rparr>"
  "wharf_get_k (dec_wharf (reset_decoder cls blk d)) cls' = wharf_get_k (dec_wharf d) cls'"
  by (simp_all add: reset_decoder_def Let_def)

definition dec_ready :: "rse_h \<Rightarrow> decoder \<Rightarrow> tclass_type \<Rightarrow> nat \<Rightarrow> nat \<Rightarrow> bool" where
  \<comment> \<open>the class is configured in the table of classes and in the packet buffers\<close>
  "dec_ready c d cls k h \<longleftrightarrow> booster_ok c (dec_fec d) \<and> class_params (dec_fec d) cls k h \<and>
     wharf_get_k (dec_wharf d) cls = Some (of_nat k)"

text \<open>With \<open>k\<close> frames of the group in the buffers the missing data packets are rebuilt and forwarded.\<close>

lemma decode_and_forward_received:
  assumes c: "coder_ready c lookup s" and E: "0 < FEC_EXTRA_COLS c" and g: "group_ok c cls blk k h ds"
    and rcv: "received c s (dec_fec d) cls blk k h ds is" and k: "wharf_get_k (dec_wharf d) cls = Some (of_nat k)"
    and ix: "distinct is" "set is \<subseteq> {..<k + h}" "k \<le> length is" and todo: "\<not> nothing_to_decode (dec_classes d cls)"
  obtains d' where "decode_and_forward c lookup s cls blk d = Inr (d', nonempty (map ((!) ds) (missing k is)))"
    and "dec_ready c d' cls k h" and "dec_classes d' cls = (dec_classes d cls)\<lparr>nothing_to_decode := True, forwarded := True\<rparr>"
proof (cases "missing k is = []")
  case True
  have "decode_and_forward c lookup s cls blk d = Inr (reset_decoder cls blk d, nonempty (map ((!) ds) (missing k is)))"
    using can_decode_received(2) [OF rcv ix(1,2)] True by (simp add: decode_and_forward_def)
  then show thesis by (rule that) (use rcv k in \<open>simp_all add: dec_ready_def received_def\<close>)
next
  case False
  have cls: "class_params (dec_fec d) cls k h" and ok: "booster_ok c (dec_fec d)" using rcv by (simp_all add: received_def)
  have blk: "blk < NUM_BLOCKS" using g by (simp add: group_ok_def NUM_BLOCKS_def)
  have miss: "\<not> is_all_data_pkts_recieved_for_block (dec_fec d) cls DEFAULT_PORT blk"
    using can_decode_received(2) [OF rcv ix(1,2)] False by simp
  have can: "can_decode (dec_fec d) cls DEFAULT_PORT blk" using can_decode_received(1) [OF rcv ix(1,2)] ix(3) by simp
  obtain st where st: "decode_block c lookup s cls DEFAULT_PORT blk (populate_fec_blk_data_and_parity c cls DEFAULT_PORT blk (dec_fec d)) = Some st"
    "booster_ok c st" "class_params st cls k h"
    "\<And>i. slot_status st cls DEFAULT_PORT blk i =
      (if i < k \<and> slot_status (dec_fec d) cls DEFAULT_PORT blk i = PACKET_ABSENT then PACKET_RECOVERED else slot_status (dec_fec d) cls DEFAULT_PORT blk i)"
    "\<And>i j. i < k \<Longrightarrow> j < length (map prefixed ds ! i) \<Longrightarrow> slot_mem st cls DEFAULT_PORT blk i j = map prefixed ds ! i ! j"
    by (rule decode_group [OF c E ok cls valid_default_port blk received_group [OF rcv g] can miss]) (rule that)
  have len: "length ds = k" using g by (simp add: group_ok_def)
  have out: "forward_recovered st cls blk i = Inr (if i \<notin> set is \<and> ds ! i \<noteq> [] then [ds ! i] else [])" if "i < k" for i
  proof -
    have "ds ! i \<in> set ds" using that len by simp
    then have l: "length (ds ! i) < 65536" and fits: "2 + length (ds ! i) \<le> PKT_BUF_SZ"
      using g by (auto simp: group_ok_def data_frame_def FRAME_SIZE_CUTOFF_def PKT_BUF_SZ_def)
    have tab: "i < TOTAL_NUM_PACKETS" using that group_in_table [OF cls] by simp
    have ik: "i < unat (tc_k (tclasses st cls))" using st(3) that by (simp add: class_params_def)
    have m: "\<forall>j<length (ds ! i) + 2. slot_mem st cls DEFAULT_PORT blk i j = prefixed (ds ! i) ! j"
      using st(5) [OF that] that len by simp
    have u: "unat (of_nat (length (ds ! i)) :: u16) = length (ds ! i)" using l by (simp add: unat_of_nat take_bit_eq_mod)
    have r: "pkt_recovered st cls DEFAULT_PORT blk i \<longleftrightarrow> i \<notin> set is"
      using st(4) [of i] received_status [OF rcv, of i] that by (simp add: pkt_recovered_def slot_status_def)
    obtain pkt where pkt: "retrieve_from_pkt_buffer st cls DEFAULT_PORT blk i = (pkt, Some (of_nat (length (ds ! i))))"
      "frame_of pkt (length (ds ! i)) = ds ! i"
      using retrieve_prefixed [OF ik l m] by (metis prod.collapse)
    show ?thesis using pkt fits tab by (simp add: forward_recovered_def r forward_frame_def u)
  qed
  have o: "forward_each (forward_recovered st cls blk) [0..<k] = Inr (nonempty (map ((!) ds) (missing k is)))"
    using forward_each_all [of "[0..<k]" "forward_recovered st cls blk", OF out] by (simp add: concat_single missing_def)
  have "unat (of_nat k :: u8) = k" using cls by (intro unat_of_nat_u8) (simp add: class_params_def FEC_MAX_K_def)
  then have "decode_and_forward c lookup s cls blk d =
      Inr (reset_decoder cls blk (set_dec_fec st d), nonempty (map ((!) ds) (missing k is)))"
    using todo miss o k by (simp add: decode_and_forward_def st(1) Let_def)
  then show thesis by (rule that) (use st k in \<open>simp_all add: dec_ready_def\<close>)
qed

section \<open>The handler on the frames of a group\<close>

lemma group_frame_header:
  assumes g: "group_ok c cls blk k h ds" and i: "i < 256" and p: "group_frame c s cls blk ds i p"
  shows "htons (load16 p 12) = WHARF_ETHERTYPE" and "ucast (hdr_class_id (get_fec_header p SIZE_ETHERNET)) = cls"
    and "unat (hdr_block_id (get_fec_header p SIZE_ETHERNET)) = blk" and "hdr_index (get_fec_header p SIZE_ETHERNET) = of_nat i"
    and "i < k \<Longrightarrow> hdr_orig_ethertype (get_fec_header p SIZE_ETHERNET) \<noteq> 0 \<longleftrightarrow> ds ! i \<noteq> []"
proof -
  obtain orig len where t: "tagged_as p cls blk i orig len" and o: "i < k \<Longrightarrow> orig \<noteq> 0 \<longleftrightarrow> ds ! i \<noteq> []"
  proof (cases "i < k \<and> ds ! i \<noteq> []")
    case True
    then have "data_frame (ds ! i)" using g by (auto simp: group_ok_def)
    then show thesis using that [of "load16 ((!) (ds ! i)) 12" "of_nat (length (ds ! i))"] p g True by (simp add: group_frame_def group_ok_def data_frame_def)
  next
    case False
    then show thesis using that p g by (fastforce simp: group_frame_def group_ok_def split: if_splits)
  qed
  note hd = t [unfolded tagged_as_def]
  show "htons (load16 p 12) = WHARF_ETHERTYPE" using hd by simp
  show "ucast (hdr_class_id (get_fec_header p SIZE_ETHERNET)) = cls" using hd g by (simp add: class_bits_id group_ok_def TCLASS_MAX_def)
  show "unat (hdr_block_id (get_fec_header p SIZE_ETHERNET)) = blk" using hd g by (simp add: block_bits_id group_ok_def)
  show "hdr_index (get_fec_header p SIZE_ETHERNET) = of_nat i" using hd by simp
  show "hdr_orig_ethertype (get_fec_header p SIZE_ETHERNET) \<noteq> 0 \<longleftrightarrow> ds ! i \<noteq> []" if "i < k" using hd o [OF that] by simp
qed

definition collecting :: "rse_h \<Rightarrow> rse_state \<Rightarrow> decoder \<Rightarrow> tclass_type \<Rightarrow> nat \<Rightarrow> nat \<Rightarrow> nat \<Rightarrow> frame list \<Rightarrow> nat list \<Rightarrow> bool" where
  \<comment> \<open>the decoder is waiting for more frames of the group, the last of which was \<open>last is\<close>\<close>
  "collecting c s d cls blk k h ds is \<longleftrightarrow> received c s (dec_fec d) cls blk k h ds is \<and>
     wharf_get_k (dec_wharf d) cls = Some (of_nat k) \<and> is \<noteq> [] \<and> dec_classes d cls =
       \<lparr>nothing_to_decode = False, lastBlockId = int blk, lastPacketIdx = int (last is), forwarded = False\<rparr>"

definition finished :: "rse_h \<Rightarrow> decoder \<Rightarrow> tclass_type \<Rightarrow> nat \<Rightarrow> nat \<Rightarrow> nat \<Rightarrow> nat \<Rightarrow> bool" where
  \<comment> \<open>the group is forwarded; frames with an index above \<open>i\<close> are ignored\<close>
  "finished c d cls blk k h i \<longleftrightarrow> dec_ready c d cls k h \<and> dec_classes d cls =
       \<lparr>nothing_to_decode = True, lastBlockId = int blk, lastPacketIdx = int i, forwarded = True\<rparr>"

abbreviation frame_data :: "frame list \<Rightarrow> nat \<Rightarrow> frame list" where
  "frame_data ds i \<equiv> (if i < length ds then nonempty [ds ! i] else [])"

definition starts_block :: "decoder \<Rightarrow> tclass_type \<Rightarrow> nat \<Rightarrow> nat \<Rightarrow> bool" where
  "starts_block d cls blk i \<longleftrightarrow> int blk \<noteq> lastBlockId (dec_classes d cls) \<or> int i \<le> lastPacketIdx (dec_classes d cls)"

lemma decoder_step:
  assumes c: "coder_ready c lookup s" and E: "0 < FEC_EXTRA_COLS c" and g: "group_ok c cls blk k h ds"
    and i: "i < k + h" "i \<notin> set is" and p: "group_frame c s cls blk ds i p" and ix: "distinct is" "set is \<subseteq> {..<k + h}"
    and pre: "starts_block d cls blk i \<and> dec_ready c d cls k h \<and> is = [] \<or>
      \<not> starts_block d cls blk i \<and> received c s (dec_fec d) cls blk k h ds is \<and> wharf_get_k (dec_wharf d) cls = Some (of_nat k) \<and>
        \<not> forwarded (dec_classes d cls)"
  obtains d' where "length is + 1 < k" and "dec_my_packet_handler c lookup s p n d = Inr (d', frame_data ds i)"
      and "collecting c s d' cls blk k h ds (is @ [i])"
  | d' where "k \<le> length is + 1"
      and "dec_my_packet_handler c lookup s p n d = Inr (d', frame_data ds i @ nonempty (map ((!) ds) (missing k (is @ [i]))))"
      and "finished c d' cls blk k h i"
proof -
  define d2 where "d2 = set_tclass_state cls (\<lambda>t. t\<lparr>lastPacketIdx := int i\<rparr>)
    (if starts_block d cls blk i then set_tclass_state cls (\<lambda>t. t\<lparr>forwarded := False\<rparr>) (reset_decoder cls blk d) else d)"
  have rcv: "received c s (dec_fec d2) cls blk k h ds is" and k: "wharf_get_k (dec_wharf d2) cls = Some (of_nat k)"
    and skip: "\<not> (\<not> starts_block d cls blk i \<and> forwarded (dec_classes d cls))"
    and ts: "\<exists>b nd. dec_classes d2 cls = \<lparr>nothing_to_decode = nd, lastBlockId = b, lastPacketIdx = int i, forwarded = False\<rparr>"
    using pre received_mark [of c "dec_fec d" cls k h s blk ds]
    by (cases "dec_classes d cls"; auto simp: d2_def dec_ready_def)+
  have cls: "class_params (dec_fec d2) cls k h" using rcv by (simp add: received_def)
  then have kb: "k \<le> 50" "h \<le> 5" by (simp_all add: class_params_def FEC_MAX_K_def FEC_MAX_H_def)
  have i256: "i < 256" and len: "length ds = k" using i(1) kb g by (simp_all add: group_ok_def)
  note hd = group_frame_header [OF g i256 p]
  have ui: "unat (of_nat i :: u8) = i" using i256 by (rule unat_of_nat_u8)
  obtain q off sz where strip: "wharf_strip_frame (dec_fec d2) p = Some (q, off, sz)" and sz: "sz < 65536"
    and st: "i < k \<Longrightarrow> frame_of (ptr_add q off) sz = ds ! i" "\<not> i < k \<Longrightarrow> sz = parity_length c ds + WHARF_TAG_SIZE"
      "\<And>col. \<not> i < k \<Longrightarrow> col < longest (map prefixed ds) \<Longrightarrow> gf (ptr_add q off col) = parity_symbol c s (map prefixed ds) (i - k) col"
    by (rule strip_group_frame [OF g cls i(1) p]) (rule that)
  define d3 where "d3 = set_dec_fec (store_packet cls DEFAULT_PORT blk i (of_nat sz) (ptr_add q off) (dec_fec d2))
    (set_tclass_state cls (\<lambda>t. t\<lparr>nothing_to_decode := False\<rparr>) d2)"
  have new: "\<not> pkt_already_inserted (dec_fec d2) cls DEFAULT_PORT blk i"
    using received_status [OF rcv i(1)] i(2) by (simp add: pkt_already_inserted_def slot_status_def)
  have buf: "buffer_packet cls blk i sz (ptr_add q off) d2 = Some d3"
    using new group_insert [OF g cls i(1) st(1,2)] i(1) group_in_table [OF cls] by (simp add: buffer_packet_def d3_def)
  have rcv3: "received c s (dec_fec d3) cls blk k h ds (is @ [i])"
    using received_insert [OF rcv g i sz st] by (simp add: d3_def)
  have d3: "wharf_get_k (dec_wharf d3) cls = Some (of_nat k)"
    "\<exists>b. dec_classes d3 cls = \<lparr>nothing_to_decode = False, lastBlockId = b, lastPacketIdx = int i, forwarded = False\<rparr>"
    using k ts by (auto simp: d3_def)
  have idx: "(of_nat i :: u8) < of_nat k \<longleftrightarrow> i < k" using i256 kb by (intro u8_less_iff) simp_all
  have out1: "(if (of_nat i :: u8) < of_nat k \<and> hdr_orig_ethertype (get_fec_header p SIZE_ETHERNET) \<noteq> 0
      then forward_frame (ptr_add q off) sz else []) = frame_data ds i"
    using hd(5) st(1) by (simp add: idx forward_frame_def len)
  have tab: "\<not> TCLASS_MAX < unat cls" "\<not> TOTAL_NUM_PACKETS < unat (tc_k (tclasses (dec_fec d3) cls)) + unat (tc_h (tclasses (dec_fec d3) cls))"
    using g rcv3 group_in_table [OF cls] by (simp_all add: group_ok_def received_def class_params_def)
  define r where "r = (if can_decode (dec_fec d3) cls DEFAULT_PORT blk then decode_and_forward c lookup s cls blk d3 else Inr (d3, []))"
  have run: "dec_my_packet_handler c lookup s p n d =
      (case r of Inl err \<Rightarrow> Inl err | Inr (d4, out2) \<Rightarrow>
         Inr (set_tclass_state cls (\<lambda>t. t\<lparr>lastBlockId := int blk, lastPacketIdx := int i\<rparr>) d4, frame_data ds i @ out2))"
    unfolding dec_my_packet_handler_def Let_def hd(1-4) ui starts_block_def [symmetric] d2_def [symmetric]
    unfolding if_not_P [OF tab(1)] if_not_P [OF skip] strip option.case prod.case k buf
    unfolding if_not_P [OF tab(2)] out1 r_def [symmetric] by (simp only: not_True_eq_False if_False simp_thms)
  have ix': "distinct (is @ [i])" "set (is @ [i]) \<subseteq> {..<k + h}" using ix i by simp_all
  note can = can_decode_received(1) [OF rcv3 ix']
  show thesis
  proof (cases "k \<le> length is + 1")
    case True
    obtain d4 where d4: "decode_and_forward c lookup s cls blk d3 = Inr (d4, nonempty (map ((!) ds) (missing k (is @ [i]))))"
      "dec_ready c d4 cls k h" "dec_classes d4 cls = (dec_classes d3 cls)\<lparr>nothing_to_decode := True, forwarded := True\<rparr>"
      by (rule decode_and_forward_received [OF c E g rcv3 d3(1) ix']) (use True d3(2) that in auto)
    have r: "r = Inr (d4, nonempty (map ((!) ds) (missing k (is @ [i]))))" using can True d4(1) by (simp add: r_def)
    show thesis using that(2) [OF True run [unfolded r sum.case prod.case]] d4(2,3) d3(2)
      by (auto simp: finished_def dec_ready_def)
  next
    case False
    then have r: "r = Inr (d3, [])" using can by (simp add: r_def)
    show thesis using that(1) [OF _ run [unfolded r sum.case prod.case append_Nil2]] False rcv3 d3
      by (auto simp: collecting_def)
  qed
qed

section \<open>A group arrives\<close>

abbreviation dec_run :: "rse_h \<Rightarrow> bool \<Rightarrow> rse_state \<Rightarrow> (nat \<times> bytes \<times> nat) list \<Rightarrow> decoder \<Rightarrow> halt + decoder \<times> frame list" where
  \<comment> \<open>the handler on captured frames, each with its index in the group\<close>
  "dec_run c lookup s fs \<equiv> pcap_run (dec_my_packet_handler c lookup s) dec_booster_timeout_handler (map (\<lambda>f. Captured (fst (snd f)) (snd (snd f))) fs)"

definition fresh_for :: "rse_h \<Rightarrow> decoder \<Rightarrow> tclass_type \<Rightarrow> nat \<Rightarrow> nat \<Rightarrow> nat \<Rightarrow> bool" where
  \<comment> \<open>the block comes after another one, or the program has just started\<close>
  "fresh_for c d cls blk k h \<longleftrightarrow> dec_ready c d cls k h \<and>
     (lastBlockId (dec_classes d cls) \<noteq> int blk \<or>
      \<not> forwarded (dec_classes d cls) \<and> (\<forall>i<k + h. slot_status (dec_fec d) cls DEFAULT_PORT blk i = PACKET_ABSENT))"

lemma received_none:
  "booster_ok c st \<Longrightarrow> class_params st cls k h \<Longrightarrow> \<forall>i<k + h. slot_status st cls DEFAULT_PORT blk i = PACKET_ABSENT \<Longrightarrow>
    received c s st cls blk k h ds []"
  by (simp add: received_def)

definition waiting :: "rse_h \<Rightarrow> rse_state \<Rightarrow> decoder \<Rightarrow> tclass_type \<Rightarrow> nat \<Rightarrow> nat \<Rightarrow> nat \<Rightarrow> frame list \<Rightarrow> nat list \<Rightarrow> bool" where
  "waiting c s d cls blk k h ds is \<longleftrightarrow>
     (if is = [] then fresh_for c d cls blk k h else collecting c s d cls blk k h ds is)"

lemma decoder_ignores:
  assumes g: "group_ok c cls blk k h ds" and fin: "finished c d cls blk k h i0" and i: "i0 < i" "i < 256"
    and p: "group_frame c s cls blk ds i p"
  shows "dec_my_packet_handler c lookup s p n d = Inr (d, [])"
proof -
  have "lastBlockId (dec_classes d cls) = int blk" "\<not> int i \<le> lastPacketIdx (dec_classes d cls)" "forwarded (dec_classes d cls)"
    "\<not> TCLASS_MAX < unat cls"
    using fin i g by (simp_all add: finished_def group_ok_def)
  then show ?thesis
    unfolding dec_my_packet_handler_def Let_def group_frame_header(1-4) [OF g i(2) p] unat_of_nat_u8 [OF i(2)] by simp
qed

lemma dec_run_finished:
  assumes g: "group_ok c cls blk k h ds" and fin: "finished c d cls blk k h i0" and kh: "k + h < 256"
  shows "sorted_wrt (<) (i0 # map fst fs) \<Longrightarrow> \<forall>f\<in>set fs. fst f < k + h \<and> group_frame c s cls blk ds (fst f) (fst (snd f)) \<Longrightarrow>
    dec_run c lookup s fs d = Inr (d, [])"
proof (induction fs)
  case (Cons f fs)
  have "dec_my_packet_handler c lookup s (fst (snd f)) (snd (snd f)) d = Inr (d, [])"
    using decoder_ignores [OF g fin, of "fst f" s "fst (snd f)"] Cons.prems kh by auto
  then show ?case using Cons by simp
qed simp

lemma dec_run_waiting:
  assumes c: "coder_ready c lookup s" and E: "0 < FEC_EXTRA_COLS c" and g: "group_ok c cls blk k h ds" and kh: "k + h < 256"
  shows "waiting c s d cls blk k h ds is \<Longrightarrow> sorted_wrt (<) (is @ map fst fs) \<Longrightarrow> set is \<subseteq> {..<k + h} \<Longrightarrow>
    \<forall>f\<in>set fs. fst f < k + h \<and> group_frame c s cls blk ds (fst f) (fst (snd f)) \<Longrightarrow> length is < k \<Longrightarrow> k \<le> length is + length fs \<Longrightarrow>
    \<exists>d' i. dec_run c lookup s fs d = Inr (d', concat (map (frame_data ds) (take (k - length is) (map fst fs))) @
        nonempty (map ((!) ds) (missing k (take k (is @ map fst fs))))) \<and> finished c d' cls blk k h i"
proof (induction fs arbitrary: d "is")
  case (Cons f fs)
  obtain i p n where f: "f = (i, p, n)" by (cases f)
  have i: "i < k + h" "i \<notin> set is" and p: "group_frame c s cls blk ds i p" and ix: "distinct is" "set is \<subseteq> {..<k + h}"
    using Cons.prems(2-4) strict_sorted_iff [of "is"] by (auto simp: f sorted_wrt_append)
  have "is \<noteq> [] \<Longrightarrow> last is < i" using Cons.prems(2) by (simp add: f sorted_wrt_append)
  then have pre: "starts_block d cls blk i \<and> dec_ready c d cls k h \<and> is = [] \<or>
      \<not> starts_block d cls blk i \<and> received c s (dec_fec d) cls blk k h ds is \<and> wharf_get_k (dec_wharf d) cls = Some (of_nat k) \<and>
        \<not> forwarded (dec_classes d cls)"
    using Cons.prems(1) received_none [of c "dec_fec d" cls k h blk s ds]
    by (auto simp: waiting_def fresh_for_def dec_ready_def starts_block_def collecting_def split: if_splits)
  show ?case
  proof (cases rule: decoder_step [OF c E g i p ix pre, of n])
    case (1 d')
    have "waiting c s d' cls blk k h ds (is @ [i])" using 1(3) by (simp add: waiting_def)
    from Cons.IH [OF this] 1(1) Cons.prems(2-4,6) i(1) f obtain d2 j where
      "dec_run c lookup s fs d' = Inr (d2, concat (map (frame_data ds) (take (k - length (is @ [i])) (map fst fs))) @
        nonempty (map ((!) ds) (missing k (take k ((is @ [i]) @ map fst fs)))))" "finished c d2 cls blk k h j" by auto
    moreover have "k - length is = Suc (k - length (is @ [i]))" using 1(1) by simp
    ultimately show ?thesis using 1(2) by (auto simp: f)
  next
    case (2 d')
    have "dec_run c lookup s fs d' = Inr (d', [])"
      using dec_run_finished [OF g 2(3) kh, of fs s] Cons.prems(2,4) by (simp add: f sorted_wrt_append)
    moreover have "k = Suc (length is)" using 2(1) Cons.prems(5) by simp
    ultimately show ?thesis using 2(2,3) by (auto simp: f)
  qed
qed simp

lemma mset_missing:
  assumes "distinct js"
  shows "mset (filter (\<lambda>i. i < k) js) + mset (missing k js) = mset [0..<k]"
proof -
  have "distinct (filter (\<lambda>i. i < k) js @ missing k js)" using assms by (auto simp: missing_def)
  moreover have "set (filter (\<lambda>i. i < k) js @ missing k js) = set [0..<k]" by (auto simp: missing_def)
  ultimately show ?thesis using set_eq_iff_mset_eq_distinct [of _ "[0..<k]"] by (metis distinct_upt mset_append)
qed

lemma frame_data_list: "concat (map (frame_data ds) js) = nonempty (map ((!) ds) (filter (\<lambda>i. i < length ds) js))"
  by (induction js) auto

lemma all_data_out:
  assumes "distinct js"
  shows "mset (concat (map (frame_data ds) js) @ nonempty (map ((!) ds) (missing (length ds) js))) = mset (nonempty ds)"
proof -
  let ?k = "length ds"
  have "mset (map ((!) ds) (filter (\<lambda>i. i < ?k) js @ missing ?k js)) = mset (map ((!) ds) [0..<?k])"
    unfolding mset_map mset_append mset_missing [OF assms] ..
  then have "mset (map ((!) ds) (filter (\<lambda>i. i < ?k) js @ missing ?k js)) = mset ds" by (simp only: map_nth)
  moreover have "concat (map (frame_data ds) js) @ nonempty (map ((!) ds) (missing ?k js)) =
      nonempty (map ((!) ds) (filter (\<lambda>i. i < ?k) js @ missing ?k js))"
    by (simp only: frame_data_list map_append filter_append)
  ultimately show ?thesis by (simp only: mset_filter)
qed

lemma dec_run_group:
  assumes c: "coder_ready c lookup s" and E: "0 < FEC_EXTRA_COLS c" and g: "group_ok c cls blk k h ds"
    and d: "fresh_for c d cls blk k h"
    and fs: "sorted_wrt (<) (map fst fs)" "\<forall>f\<in>set fs. fst f < k + h \<and> group_frame c s cls blk ds (fst f) (fst (snd f))" "k \<le> length fs"
  obtains d' out i where "dec_run c lookup s fs d = Inr (d', out)" and "mset out = mset (nonempty ds)" and "finished c d' cls blk k h i"
proof -
  have kh: "0 < k" "k + h < 256" using d by (auto simp: fresh_for_def dec_ready_def class_params_def FEC_MAX_K_def FEC_MAX_H_def)
  have "waiting c s d cls blk k h ds []" using d by (simp add: waiting_def)
  from dec_run_waiting [OF c E g kh(2) this, of fs] fs kh(1) obtain d' i where
    run: "dec_run c lookup s fs d = Inr (d', concat (map (frame_data ds) (take k (map fst fs))) @ nonempty (map ((!) ds) (missing k (take k (map fst fs)))))"
    "finished c d' cls blk k h i" by auto
  have len: "length ds = k" using g by (simp add: group_ok_def)
  have "distinct (take k (map fst fs))" using strict_sorted_iff [of "map fst fs"] fs(1) by simp
  from all_data_out [OF this, of ds] have
    "mset (concat (map (frame_data ds) (take k (map fst fs))) @ nonempty (map ((!) ds) (missing k (take k (map fst fs))))) = mset (nonempty ds)"
    unfolding len .
  with run that show thesis by blast
qed

end
