(* ===== verification/Fec_Encoder.thy ===== *)
theory Fec_Encoder
  imports Fec_Decoder
begin

text \<open>
  The encoder of \<^verbatim>\<open>fecEncodeBooster.c\<close> on the packets of one block. The frames that it injects are the frames of a group
  in the sense of \<^verbatim>\<open>Fec_Decoder\<close>, whether the block is completed by its last packet or by the timeout.
\<close>

section \<open>Frames that are sent\<close>

definition carries :: "rse_h \<Rightarrow> rse_state \<Rightarrow> tclass_type \<Rightarrow> nat \<Rightarrow> frame list \<Rightarrow> nat \<Rightarrow> frame \<Rightarrow> bool" where
  \<comment> \<open>however the memory behind the captured frame looks, it is frame \<open>i\<close> of the group\<close>
  "carries c s cls blk ds i f \<longleftrightarrow> (\<forall>q. frame_of q (length f) = f \<longrightarrow> group_frame c s cls blk ds i q)"

lemma tagged_as_cong:
  assumes "\<And>j. 12 \<le> j \<Longrightarrow> j < 20 \<Longrightarrow> q j = p j"
  shows "tagged_as q cls blk i orig len = tagged_as p cls blk i orig len"
  using get_fec_header_cong [of 14 q p] load16_cong [of q 12 p] assms by (simp add: tagged_as_def SIZE_ETHERNET_def)

lemma group_frame_carries:
  assumes p: "group_frame c s cls blk ds i p"
    and n: "if i < length ds then (if ds ! i = [] then 20 \<le> n else length (ds ! i) + 6 \<le> n \<and> 14 \<le> length (ds ! i))
            else WHARF_TAG_SIZE + longest (map prefixed ds) \<le> n"
  shows "carries c s cls blk ds i (frame_of p n)"
  unfolding carries_def
proof (intro allI impI)
  fix q assume "frame_of q (length (frame_of p n)) = frame_of p n"
  then have q: "q j = p j" if "j < n" for j using that frame_of_nth(2) [of j n] by (metis frame_of_nth(1))
  have "20 \<le> n" using n by (auto simp: WHARF_TAG_SIZE_def SIZE_ETHERNET_def SIZE_FEC_def split: if_splits)
  then have t: "tagged_as q cls blk i orig len = tagged_as p cls blk i orig len" for orig len
    by (intro tagged_as_cong) (simp add: q)
  show "group_frame c s cls blk ds i q" using p n q by (auto simp: group_frame_def t split: if_splits)
qed

section \<open>The state of the encoder\<close>

lemma enc_simps [simp]:
  "enc_fec (set_enc_fec st e) = st" "timeouts (set_enc_fec st e) = timeouts e" "last_block_id (set_enc_fec st e) = last_block_id e"
  "last_eth_header (set_enc_fec st e) = last_eth_header e"
  "enc_fec (e\<lparr>timeouts := t\<rparr>) = enc_fec e" "enc_fec (e\<lparr>last_block_id := b\<rparr>) = enc_fec e" "enc_fec (e\<lparr>last_eth_header := l\<rparr>) = enc_fec e"
  by (simp_all add: enc_fec_def set_enc_fec_def)

lemma wharf_fec_simps [simp]:
  "wharf_query_tclass (w\<lparr>fec := st\<rparr>) = wharf_query_tclass w" "wharf_get_k (w\<lparr>fec := st\<rparr>) = wharf_get_k w"
  "wharf_get_t (w\<lparr>fec := st\<rparr>) = wharf_get_t w" "wharf_query_packet (w\<lparr>fec := st\<rparr>) = wharf_query_packet w"
  by (simp_all add: fun_eq_iff wharf_query_tclass_def wharf_get_k_def wharf_get_t_def wharf_query_packet_def wharf_query_rule_def class_at_def in_table_def)

definition same_config :: "encoder \<Rightarrow> encoder \<Rightarrow> bool" where
  \<comment> \<open>the two states differ in the packet buffers and the bookkeeping of blocks only\<close>
  "same_config e e' \<longleftrightarrow> (\<exists>st. enc_wharf e' = (enc_wharf e)\<lparr>fec := st\<rparr>)"

lemma same_config_refl [simp]: "same_config e e"
  by (auto simp: same_config_def intro: exI [of _ "fec (enc_wharf e)"])

lemma same_config_set [simp]:
  "same_config e (set_enc_fec st e') = same_config e e'" "same_config e (e'\<lparr>timeouts := t\<rparr>) = same_config e e'"
  "same_config e (e'\<lparr>last_block_id := b\<rparr>) = same_config e e'" "same_config e (e'\<lparr>last_eth_header := l\<rparr>) = same_config e e'"
proof -
  have "(\<exists>st'. (enc_wharf e')\<lparr>fec := st\<rparr> = (enc_wharf e)\<lparr>fec := st'\<rparr>) \<longleftrightarrow> (\<exists>st'. enc_wharf e' = (enc_wharf e)\<lparr>fec := st'\<rparr>)"
    by (cases "enc_wharf e'"; cases "enc_wharf e") auto
  then show "same_config e (set_enc_fec st e') = same_config e e'" by (simp add: same_config_def set_enc_fec_def)
qed (simp_all add: same_config_def)

lemma same_config_left [simp]:
  "same_config (set_enc_fec st e) e' = same_config e e'" "same_config (e\<lparr>timeouts := t\<rparr>) e' = same_config e e'"
  "same_config (e\<lparr>last_block_id := b\<rparr>) e' = same_config e e'" "same_config (e\<lparr>last_eth_header := l\<rparr>) e' = same_config e e'"
  by (simp_all add: same_config_def set_enc_fec_def)

lemma same_configD:
  assumes "same_config e e'"
  shows "wharf_query_tclass (enc_wharf e') = wharf_query_tclass (enc_wharf e)" "wharf_get_k (enc_wharf e') = wharf_get_k (enc_wharf e)"
    "wharf_get_t (enc_wharf e') = wharf_get_t (enc_wharf e)" "wharf_query_packet (enc_wharf e') = wharf_query_packet (enc_wharf e)"
  using assms by (auto simp: same_config_def)

lemma same_config_trans: "same_config e e' \<Longrightarrow> same_config e' e'' \<Longrightarrow> same_config e e''"
  by (auto simp: same_config_def)

definition enc_params :: "encoder \<Rightarrow> tclass_type \<Rightarrow> nat \<Rightarrow> nat \<Rightarrow> bool" where
  "enc_params e cls k h \<longleftrightarrow> (\<exists>t. wharf_query_tclass (enc_wharf e) cls = Some (Some (of_nat k, of_nat h, t)))"

lemma enc_params_get:
  assumes "enc_params e cls k h"
  shows "wharf_get_k (enc_wharf e) cls = Some (of_nat k)" and "\<exists>t. wharf_get_t (enc_wharf e) cls = Some t"
    and "unat cls \<le> TCLASS_MAX"
  using assms by (auto simp: enc_params_def wharf_query_tclass_def wharf_get_k_def wharf_get_t_def split: if_splits)

section \<open>Completing a block\<close>

lemma fill_missing_step:
  assumes g: "group_ok c cls blk k h ds" and rcv: "received c s st cls blk k h ds [0..<n]" and n: "n < k" "ds ! n = []"
    and hdr: "load16 hdr 12 = 0"
  obtains st' f where "fill_missing cls blk hdr empty0 n (Some (st, out)) = Some (st', out @ [f])" and "received c s st' cls blk k h ds [0..<Suc n]"
    and "carries c s cls blk ds n f"
    and "block_id (buffers (tclasses st' cls) 0) = block_id (buffers (tclasses st cls) 0)"
    and "frame_idx (buffers (tclasses st' cls) 0) = frame_idx (buffers (tclasses st cls) 0)"
proof -
  have len: "length ds = k" using g by (simp add: group_ok_def)
  let ?st = "store_packet cls DEFAULT_PORT blk n 0 hdr st"
  have "slot_status st cls DEFAULT_PORT blk n = PACKET_ABSENT" using received_status [OF rcv, of n] n(1) by simp
  then have abs: "\<not> pkt_already_inserted st cls DEFAULT_PORT blk n" by (simp add: pkt_already_inserted_def slot_status_def)
  obtain f where f: "wharf_tag_data cls blk n (Some hdr) SIZE_ETHERNET empty0 WHARF_TAG_SIZE = (f, SIZE_ETHERNET + SIZE_FEC, 0)"
    "tagged_as f cls blk n (load16 hdr 12) (of_nat SIZE_ETHERNET)"
    by (rule tag_data_result [of SIZE_ETHERNET WHARF_TAG_SIZE cls blk n hdr empty0])
      (simp_all add: SIZE_ETHERNET_def WHARF_TAG_SIZE_def SIZE_FEC_def FRAME_SIZE_CUTOFF_def)
  have "group_frame c s cls blk ds n f" using f(2) n hdr len by (simp add: group_frame_def SIZE_ETHERNET_def)
  then have "carries c s cls blk ds n (frame_of f 20)" by (rule group_frame_carries) (use n len in simp)
  moreover have "received c s ?st cls blk k h ds [0..<Suc n]"
    using received_insert [OF rcv g, of n 0 hdr] n by (simp add: frame_of_def)
  moreover have "insert_into_pkt_buffer cls DEFAULT_PORT blk n 0 hdr st = Some (?st, 0)"
    using group_insert [OF g _ _, of st n hdr 0] rcv n by (simp add: received_def frame_of_def)
  then have "fill_missing cls blk hdr empty0 n (Some (st, out)) = Some (?st, out @ [frame_of f 20])"
    using abs f(1) by (simp add: fill_missing_def Let_def split_beta forward_frame_def SIZE_ETHERNET_def SIZE_FEC_def)
  moreover have "block_id (buffers (tclasses ?st cls) 0) = block_id (buffers (tclasses st cls) 0)"
    "frame_idx (buffers (tclasses ?st cls) 0) = frame_idx (buffers (tclasses st cls) 0)"
    by (simp_all add: store_packet_def DEFAULT_PORT_def Let_def split_beta set_buffer_def)
  ultimately show thesis using that by blast
qed

lemma fill_missing_loop:
  assumes g: "group_ok c cls blk k h ds" and rcv: "received c s st cls blk k h ds [0..<m]" and m: "m \<le> k"
    and hdr: "load16 hdr 12 = 0" and ds: "\<forall>i\<in>{m..<k}. ds ! i = []"
  obtains st' fs where "for_loop 0 k (fill_missing cls blk hdr empty0) (Some (st, [])) = Some (st', fs)" and "received c s st' cls blk k h ds [0..<k]"
    and "list_all2 (carries c s cls blk ds) [m..<k] fs"
    and "block_id (buffers (tclasses st' cls) 0) = block_id (buffers (tclasses st cls) 0)"
    and "frame_idx (buffers (tclasses st' cls) 0) = frame_idx (buffers (tclasses st cls) 0)"
proof -
  have "\<exists>st' fs. for_loop 0 n (fill_missing cls blk hdr empty0) (Some (st, [])) = Some (st', fs) \<and> received c s st' cls blk k h ds [0..<max m n] \<and>
      list_all2 (carries c s cls blk ds) [m..<n] fs \<and> block_id (buffers (tclasses st' cls) 0) = block_id (buffers (tclasses st cls) 0) \<and>
      frame_idx (buffers (tclasses st' cls) 0) = frame_idx (buffers (tclasses st cls) 0)" if "n \<le> k" for n
    using that
  proof (induction n)
    case (Suc n)
    then obtain st1 fs where 1: "for_loop 0 n (fill_missing cls blk hdr empty0) (Some (st, [])) = Some (st1, fs)" "received c s st1 cls blk k h ds [0..<max m n]"
      "list_all2 (carries c s cls blk ds) [m..<n] fs" "block_id (buffers (tclasses st1 cls) 0) = block_id (buffers (tclasses st cls) 0)"
      "frame_idx (buffers (tclasses st1 cls) 0) = frame_idx (buffers (tclasses st cls) 0)" by auto
    show ?case
    proof (cases "n < m")
      case True
      then have "slot_status st1 cls DEFAULT_PORT blk n \<noteq> PACKET_ABSENT" using received_status [OF 1(2), of n] Suc.prems by simp
      then have "fill_missing cls blk hdr empty0 n (Some (st1, fs)) = Some (st1, fs)" by (simp add: fill_missing_def pkt_already_inserted_def slot_status_def)
      moreover have "max m (Suc n) = m" "max m n = m" using True by simp_all
      ultimately show ?thesis using 1 True by (simp add: for_loop_Suc)
    next
      case False
      then have rcv1: "received c s st1 cls blk k h ds [0..<n]" using 1(2) by (simp add: max_def)
      obtain st2 f where 2: "fill_missing cls blk hdr empty0 n (Some (st1, fs)) = Some (st2, fs @ [f])" "received c s st2 cls blk k h ds [0..<Suc n]"
        "carries c s cls blk ds n f" "block_id (buffers (tclasses st2 cls) 0) = block_id (buffers (tclasses st1 cls) 0)"
        "frame_idx (buffers (tclasses st2 cls) 0) = frame_idx (buffers (tclasses st1 cls) 0)"
        by (rule fill_missing_step [OF g rcv1 _ _ hdr, of empty0 fs]) (use False Suc.prems ds that in auto)
      have "max m (Suc n) = Suc n" using False by simp
      then show ?thesis using 1 2 False by (auto simp: for_loop_Suc intro!: list_all2_appendI)
    qed
  qed (use rcv in simp)
  from this [OF order_refl] show thesis using that m by (auto simp: max_def split: if_splits)
qed

lemma parity_frame_carries:
  assumes g: "group_ok c cls blk k h ds" and r: "r < h" and p: "retrieve_encoded_packet st cls (k + r) = (p, parity_length c ds)"
    and col: "\<And>col. col < longest (map prefixed ds) \<Longrightarrow> gf (p col) = parity_symbol c s (map prefixed ds) r col"
  obtains f where "parity_frame cls blk hdr stack st (k + r) = [f]" and "carries c s cls blk ds (k + r) f"
proof -
  have len: "length ds = k" and n: "parity_length c ds < FRAME_SIZE_CUTOFF" using g by (simp_all add: group_ok_def)
  let ?n = "parity_length c ds"
  obtain q where q: "wharf_tag_parity cls blk (k + r) p ?n (stack (k + r)) (?n + WHARF_TAG_SIZE) = (q, ?n + WHARF_TAG_SIZE, 0)"
    "tagged_as q cls blk (k + r) (htons WHARF_ETHERTYPE) (of_nat (?n + WHARF_TAG_SIZE))"
    "\<And>j. j < ?n \<Longrightarrow> ptr_add q WHARF_TAG_SIZE j = p j"
    by (rule tag_parity_result [OF n order_refl, of cls blk "k + r" p "stack (k + r)"]) (rule that)
  let ?q = "memcpy (memcpy q 0 hdr 6) 6 (ptr_add hdr 6) 6"
  have keep: "?q j = q j" if "12 \<le> j" for j using that by (simp add: memcpy_def)
  have "tagged_as ?q cls blk (k + r) (htons WHARF_ETHERTYPE) (of_nat (?n + WHARF_TAG_SIZE))"
    using q(2) tagged_as_cong [of ?q q] keep by blast
  moreover have "gf (?q (WHARF_TAG_SIZE + j)) = parity_symbol c s (map prefixed ds) r j" if "j < longest (map prefixed ds)" for j
    using q(3) [of j] col [OF that] that keep [of "WHARF_TAG_SIZE + j"]
    by (simp add: parity_length_def ptr_add_def WHARF_TAG_SIZE_def SIZE_ETHERNET_def)
  ultimately have "group_frame c s cls blk ds (k + r) ?q" by (simp add: group_frame_def len)
  then have "carries c s cls blk ds (k + r) (frame_of ?q (?n + WHARF_TAG_SIZE))"
    by (rule group_frame_carries) (simp add: len parity_length_def)
  moreover have "parity_frame cls blk hdr stack st (k + r) = [frame_of ?q (?n + WHARF_TAG_SIZE)]"
    by (simp add: parity_frame_def p q(1) forward_frame_def Let_def)
  ultimately show thesis using that by blast
qed

lemma parity_frames_carry:
  assumes "\<And>r. r < h \<Longrightarrow> \<exists>f. F (k + r) = [f] \<and> P (k + r) f"
  shows "list_all2 P [k..<k + h] (concat (map F [k..<k + h]))"
  using assms
proof (induction h)
  case (Suc h)
  then obtain f where "F (k + h) = [f]" "P (k + h) f" by blast
  then show ?case using Suc by (auto intro!: list_all2_appendI)
qed simp

lemma class_params_words:
  assumes "class_params st cls k h"
  shows "unat (of_nat k :: u8) = k" and "unat (of_nat h :: u8) = h" and "k + h < 256"
  using assms by (auto simp: class_params_def FEC_MAX_K_def FEC_MAX_H_def unat_of_nat_u8)

lemma encode_and_forward_frames:
  assumes c: "coder_ready c lookup s" and E: "0 < FEC_EXTRA_COLS c" and g: "group_ok c cls blk k h ds"
    and rcv: "received c s (enc_fec e) cls blk k h ds [0..<m]" and m: "m \<le> k" and ds: "\<forall>i\<in>{m..<k}. ds ! i = []"
    and q: "enc_params e cls k h"
  obtains e' fs where "encode_and_forward_block c lookup s stack cls blk hdr e = Inr (e', store16 hdr 12 0, fs)"
    and "list_all2 (carries c s cls blk ds) [m..<k + h] fs" and "same_config e e'"
    and "booster_ok c (enc_fec e')" and "class_params (enc_fec e') cls k h"
    and "block_id (buffers (tclasses (enc_fec e') cls) 0) = block_id (buffers (tclasses (enc_fec e) cls) 0)"
    and "frame_idx (buffers (tclasses (enc_fec e') cls) 0) = frame_idx (buffers (tclasses (enc_fec e) cls) 0)"
    and "timeouts e' = (timeouts e)(cls := 0)" and "last_block_id e' = last_block_id e"
proof -
  let ?hdr = "store16 hdr 12 0" and ?ps = "map prefixed ds"
  have hdr: "load16 ?hdr 12 = 0" by simp
  obtain st1 fs1 where 1: "for_loop 0 k (fill_missing cls blk ?hdr (stack 0)) (Some (enc_fec e, [])) = Some (st1, fs1)"
    "received c s st1 cls blk k h ds [0..<k]" "list_all2 (carries c s cls blk ds) [m..<k] fs1"
    "block_id (buffers (tclasses st1 cls) 0) = block_id (buffers (tclasses (enc_fec e) cls) 0)"
    "frame_idx (buffers (tclasses st1 cls) 0) = frame_idx (buffers (tclasses (enc_fec e) cls) 0)"
    by (rule fill_missing_loop [OF g rcv m hdr ds, of "stack 0"]) (rule that)
  have ok: "booster_ok c st1" and cls: "class_params st1 cls k h" using 1(2) by (simp_all add: received_def)
  have blk: "blk < NUM_BLOCKS" and len: "length ?ps = k" and cols: "longest ?ps + FEC_EXTRA_COLS c \<le> max_columns c"
    using g by (simp_all add: group_ok_def NUM_BLOCKS_def parity_length_def FRAME_SIZE_CUTOFF_def PKT_BUF_SZ_def)
  have holds: "slot_holds st1 cls DEFAULT_PORT blk i (?ps ! i)" if "i < k" for i
    using 1(2) that len by (auto simp: received_def split: if_splits)
  obtain st3 where 3: "encode_block c lookup s (populate_fec_blk_data c cls DEFAULT_PORT blk st1) = Some st3" "booster_ok c st3"
    "tclasses st3 = tclasses st1"
    "\<And>r. r < h \<Longrightarrow> retrieve_encoded_packet st3 cls (k + r) = (slot_mem st3 cls DEFAULT_PORT blk (k + r), longest ?ps + FEC_EXTRA_COLS c)"
    "\<And>r col. r < h \<Longrightarrow> col < longest ?ps \<Longrightarrow> gf (slot_mem st3 cls DEFAULT_PORT blk (k + r) col) = parity_symbol c s ?ps r col"
    by (rule encode_group [OF c E ok cls valid_default_port blk len _ cols]) (rule holds, assumption, rule that)
  define fs2 where "fs2 = concat (map (parity_frame cls blk ?hdr stack st3) [k..<k + h])"
  have "\<exists>f. parity_frame cls blk ?hdr stack st3 (k + r) = [f] \<and> carries c s cls blk ds (k + r) f" if "r < h" for r
    using parity_frame_carries [OF g that 3(4) [OF that, folded parity_length_def] 3(5) [OF that]] by metis
  then have fs2: "list_all2 (carries c s cls blk ds) [k..<k + h] fs2" unfolding fs2_def by (rule parity_frames_carry)
  have "[m..<k + h] = [m..<k] @ [k..<k + h]" using m by (metis upt_add_eq_append)
  then have fs: "list_all2 (carries c s cls blk ds) [m..<k + h] (fs1 @ fs2)" using 1(3) fs2 by (simp add: list_all2_appendI)
  let ?e = "(set_enc_fec st3 e)\<lparr>timeouts := (timeouts e)(cls := 0)\<rparr>"
  have tab: "\<not> TOTAL_NUM_PACKETS < k" "\<not> FEC_MAX_N c < k + h"
    using cls c by (auto simp: class_params_def TOTAL_NUM_PACKETS_def FEC_MAX_K_def FEC_MAX_H_def coder_ready_def group_fits_def)
  have "encode_and_forward_block c lookup s stack cls blk hdr e = Inr (?e, ?hdr, fs1 @ fs2)"
    using q 1(1) 3(1) class_params_words [OF cls] tab by (auto simp: enc_params_def encode_and_forward_block_def Let_def fs2_def)
  then show thesis by (rule that) (use fs 1(4,5) 3(2,3) cls in \<open>simp_all add: class_params_def\<close>)
qed

section \<open>Packets and timeouts\<close>

definition same_slots :: "booster \<Rightarrow> booster \<Rightarrow> tclass_type \<Rightarrow> bool" where
  \<comment> \<open>the states agree on the slots and parameters of a class\<close>
  "same_slots st st' cls \<longleftrightarrow> rse st' = rse st \<and> tc_k (tclasses st' cls) = tc_k (tclasses st cls) \<and>
     tc_h (tclasses st' cls) = tc_h (tclasses st cls) \<and> tc_o (tclasses st' cls) = tc_o (tclasses st cls) \<and>
     status (buffers (tclasses st' cls) 0) = status (buffers (tclasses st cls) 0) \<and>
     pkt_sz (buffers (tclasses st' cls) 0) = pkt_sz (buffers (tclasses st cls) 0)"

lemma same_slotsD:
  assumes "same_slots st st' cls"
  shows "booster_ok c st' = booster_ok c st" and "class_params st' cls k h = class_params st cls k h"
    and "received c s st' cls blk k h ds is = received c s st cls blk k h ds is"
proof -
  show ok: "booster_ok c st' = booster_ok c st" and cp: "class_params st' cls k h = class_params st cls k h"
    using assms by (simp_all add: same_slots_def booster_ok_def class_params_def)
  have slots: "slot_status st' cls DEFAULT_PORT blk i = slot_status st cls DEFAULT_PORT blk i"
    "slot_size st' cls DEFAULT_PORT blk i = slot_size st cls DEFAULT_PORT blk i"
    "slot_mem st' cls DEFAULT_PORT blk i = slot_mem st cls DEFAULT_PORT blk i" for i
    using assms by (simp_all add: same_slots_def slot_defs DEFAULT_PORT_def)
  show "received c s st' cls blk k h ds is = received c s st cls blk k h ds is"
    unfolding received_def slot_holds_def slots ok cp ..
qed

lemma advance_packet_idx_effect:
  assumes "class_params st cls k h" and "unat (frame_idx (buffers (tclasses st cls) 0)) = m" and "m < k"
    and "unat (block_id (buffers (tclasses st cls) 0)) = blk"
  obtains st' x where "advance_packet_idx cls DEFAULT_PORT st = Some (st', x)" and "same_slots st st' cls"
    and "unat (frame_idx (buffers (tclasses st' cls) 0)) = (if Suc m = k then 0 else Suc m)"
    and "unat (block_id (buffers (tclasses st' cls) 0)) = (if Suc m = k then Suc blk mod MAX_BLOCK else blk)"
proof -
  have k: "unat (tc_k (tclasses st cls)) = k" "0 < k" "k \<le> 50" using assms(1) by (simp_all add: class_params_def FEC_MAX_K_def)
  then have k0: "tc_k (tclasses st cls) \<noteq> 0" by auto
  have m: "Suc m mod k = (if Suc m = k then 0 else Suc m)" using assms(3) by simp
  have z: "(of_nat (Suc m mod k) :: u8) = 0 \<longleftrightarrow> Suc m = k"
    unfolding m using assms(3) k(3) by (auto simp: word_unat_eq_iff unat_of_nat take_bit_eq_mod)
  have u: "unat (of_nat (Suc m mod k) :: u8) = Suc m mod k" "unat (of_nat (Suc blk mod MAX_BLOCK) :: u8) = Suc blk mod MAX_BLOCK"
    using mod_less_divisor [OF k(2), of "Suc m"] k(3) by (auto intro!: unat_of_nat_u8 simp: MAX_BLOCK_def simp del: of_nat_Suc)
  show thesis
  proof (rule that)
    show "advance_packet_idx cls DEFAULT_PORT st = Some (fst (the (advance_packet_idx cls DEFAULT_PORT st)), snd (the (advance_packet_idx cls DEFAULT_PORT st)))"
      using k0 by (simp add: advance_packet_idx_def Let_def)
  qed (use k0 k assms z u m in \<open>auto simp: advance_packet_idx_def Let_def same_slots_def set_buffer_def DEFAULT_PORT_def get_tclass_buffer_def\<close>)
qed

definition enc_at :: "rse_h \<Rightarrow> rse_state \<Rightarrow> encoder \<Rightarrow> tclass_type \<Rightarrow> nat \<Rightarrow> nat \<Rightarrow> nat \<Rightarrow> frame list \<Rightarrow> nat \<Rightarrow> bool" where
  \<comment> \<open>the encoder has buffered the first \<open>m\<close> packets of the block\<close>
  "enc_at c s e cls blk k h ds m \<longleftrightarrow> enc_params e cls k h \<and> booster_ok c (enc_fec e) \<and> class_params (enc_fec e) cls k h \<and>
     unat (block_id (buffers (tclasses (enc_fec e) cls) 0)) = blk \<and> unat (frame_idx (buffers (tclasses (enc_fec e) cls) 0)) = m \<and>
     (0 < m \<longrightarrow> received c s (enc_fec e) cls blk k h ds [0..<m] \<and> last_block_id e cls = int blk)"

lemma start_block_effect:
  assumes "start_block cls blk e = Some e'"
  shows "enc_fec e' = mark_pkts_absent cls DEFAULT_PORT (unat blk) (enc_fec e)"
    and "last_block_id e' = (last_block_id e)(cls := uint blk)" and "same_config e e'"
  using assms by (auto simp: start_block_def Let_def)

lemma start_block_some: "\<exists>t. wharf_get_t (enc_wharf e) cls = Some t \<Longrightarrow> \<exists>e'. start_block cls blk e = Some e'"
  by (auto simp: start_block_def Let_def set_enc_fec_def)

lemma mark_absent_counters:
  "block_id (buffers (tclasses (mark_pkts_absent cls DEFAULT_PORT blk st) cls) 0) = block_id (buffers (tclasses st cls) 0)"
  "frame_idx (buffers (tclasses (mark_pkts_absent cls DEFAULT_PORT blk st) cls) 0) = frame_idx (buffers (tclasses st cls) 0)"
proof -
  have "block_id (for_loop 0 n (\<lambda>i tcb. tcb\<lparr>status := (status tcb)(blk := (status tcb blk)(i := PACKET_ABSENT))\<rparr>) tcb) = block_id tcb \<and>
    frame_idx (for_loop 0 n (\<lambda>i tcb. tcb\<lparr>status := (status tcb)(blk := (status tcb blk)(i := PACKET_ABSENT))\<rparr>) tcb) = frame_idx tcb" for n and tcb :: tclass_buffer
    by (induction n) (simp_all add: for_loop_Suc)
  then show "block_id (buffers (tclasses (mark_pkts_absent cls DEFAULT_PORT blk st) cls) 0) = block_id (buffers (tclasses st cls) 0)"
    "frame_idx (buffers (tclasses (mark_pkts_absent cls DEFAULT_PORT blk st) cls) 0) = frame_idx (buffers (tclasses st cls) 0)"
    by (simp_all add: mark_pkts_absent_def set_buffer_def DEFAULT_PORT_def get_tclass_buffer_def)
qed

lemma store_counters:
  "block_id (buffers (tclasses (store_packet cls DEFAULT_PORT blk i n p st) cls) 0) = block_id (buffers (tclasses st cls) 0)"
  "frame_idx (buffers (tclasses (store_packet cls DEFAULT_PORT blk i n p st) cls) 0) = frame_idx (buffers (tclasses st cls) 0)"
  by (simp_all add: store_packet_def DEFAULT_PORT_def Let_def split_beta set_buffer_def)

text \<open>What every packet of the block does, up to the test whether it is the last one.\<close>

lemma packet_buffered:
  assumes g: "group_ok c cls blk k h ds" and at: "enc_at c s e cls blk k h ds m" and m: "m < k"
    and cls: "wharf_query_packet (enc_wharf e) p n = cls" "cls \<noteq> TCLASS_NULL" and d: "frame_of p n = ds ! m" "ds ! m \<noteq> []"
  obtains e3 f where "enc_my_packet_handler c lookup s stack p n e =
      (if Suc m = k then case encode_and_forward_block c lookup s stack cls blk p e3 of
         Inl err \<Rightarrow> Inl err | Inr (e4, _, out1) \<Rightarrow> Inr (e4, [f] @ out1) else Inr (e3, [f]))"
    and "carries c s cls blk ds m f" and "same_config e e3" and "received c s (enc_fec e3) cls blk k h ds [0..<Suc m]"
    and "unat (frame_idx (buffers (tclasses (enc_fec e3) cls) 0)) = (if Suc m = k then 0 else Suc m)"
    and "unat (block_id (buffers (tclasses (enc_fec e3) cls) 0)) = (if Suc m = k then Suc blk mod MAX_BLOCK else blk)"
    and "last_block_id e3 cls = int blk"
proof -
  have pr: "enc_params e cls k h" "booster_ok c (enc_fec e)" "class_params (enc_fec e) cls k h"
    and ctr: "unat (block_id (buffers (tclasses (enc_fec e) cls) 0)) = blk" "unat (frame_idx (buffers (tclasses (enc_fec e) cls) 0)) = m"
    and rcv: "0 < m \<Longrightarrow> received c s (enc_fec e) cls blk k h ds [0..<m] \<and> last_block_id e cls = int blk"
    using at by (auto simp: enc_at_def)
  have len: "length ds = k" "blk < 32" using g by (simp_all add: group_ok_def)
  have dn: "length (ds ! m) = n" using d(1) by (metis frame_of_nth(1))
  have "data_frame (ds ! m)" using g m d(2) by (auto simp: group_ok_def)
  then have n: "14 < n" "n < FRAME_SIZE_CUTOFF" by (simp_all add: data_frame_def SIZE_ETHERNET_def dn)
  have pd: "p j = ds ! m ! j" if "j < n" for j using d(1) that by (metis frame_of_nth(2))
  have k256: "k < 256" using class_params_words(3) [OF pr(3)] by simp
  obtain np where np: "wharf_tag_data cls blk m (Some p) n (stack 0) (n + SIZE_FEC) = (np, n + SIZE_FEC, 0)"
    "tagged_as np cls blk m (load16 p 12) (of_nat n)" "\<And>j. j < 12 \<Longrightarrow> np j = p j" "\<And>j. 20 \<le> j \<Longrightarrow> j < n + 6 \<Longrightarrow> np j = p (j - 6)"
    by (rule tag_data_result [of n "n + SIZE_FEC" cls blk m p "stack 0"]) (use n in \<open>auto simp: that\<close>)
  have l16: "load16 p 12 = load16 ((!) (ds ! m)) 12" using pd n by (intro load16_cong) auto
  have gf: "group_frame c s cls blk ds m np" using np(2-4) m d(2) dn pd n by (simp add: group_frame_def len l16)
  have car: "carries c s cls blk ds m (frame_of np (n + SIZE_FEC))"
    by (rule group_frame_carries [OF gf]) (use m d(2) dn n in \<open>simp add: len SIZE_FEC_def\<close>)
  have hd: "hdr_index (get_fec_header np SIZE_ETHERNET) = of_nat m" "unat (hdr_block_id (get_fec_header np SIZE_ETHERNET)) = blk"
    using np(2) len(2) by (simp_all add: tagged_as_def block_bits_id)
  obtain st1 x where adv: "advance_packet_idx cls DEFAULT_PORT (enc_fec e) = Some (st1, x)" "same_slots (enc_fec e) st1 cls"
    "unat (frame_idx (buffers (tclasses st1 cls) 0)) = (if Suc m = k then 0 else Suc m)"
    "unat (block_id (buffers (tclasses st1 cls) 0)) = (if Suc m = k then Suc blk mod MAX_BLOCK else blk)"
    by (rule advance_packet_idx_effect [OF pr(3) ctr(2) m ctr(1)]) (rule that)
  let ?bid = "block_id (buffers (tclasses (enc_fec e) cls) 0)"
  note get = enc_params_get [OF pr(1)]
  have m0: "(of_nat m :: u8) = 0 \<longleftrightarrow> m = 0" using m k256 by (auto simp: word_unat_eq_iff unat_of_nat take_bit_eq_mod)
  have "\<exists>e'. start_block cls ?bid (set_enc_fec st1 e) = Some e'" using get(2) by (intro start_block_some) (simp add: set_enc_fec_def)
  then obtain e2 where start: "(if (of_nat m :: u8) = 0 then start_block cls ?bid (set_enc_fec st1 e) else Some (set_enc_fec st1 e)) = Some e2"
    by (cases "(of_nat m :: u8) = 0") auto
  have e2: "received c s (enc_fec e2) cls blk k h ds [0..<m]" "last_block_id e2 cls = int blk" "same_config e e2"
    "frame_idx (buffers (tclasses (enc_fec e2) cls) 0) = frame_idx (buffers (tclasses st1 cls) 0)"
    "block_id (buffers (tclasses (enc_fec e2) cls) 0) = block_id (buffers (tclasses st1 cls) 0)"
    using rcv received_mark [of c st1 cls k h s blk ds] same_slotsD [OF adv(2)] pr ctr(1) start start_block_effect [of cls ?bid "set_enc_fec st1 e" e2]
    by (auto simp: m0 mark_absent_counters split: if_splits)
  have absent: "\<not> pkt_already_inserted (enc_fec e2) cls DEFAULT_PORT blk m"
    using received_status [OF e2(1), of m] m by (simp add: pkt_already_inserted_def slot_status_def)
  define e3 where "e3 = set_enc_fec (store_packet cls DEFAULT_PORT blk m (of_nat n) p (enc_fec e2)) e2"
  have ins: "insert_into_pkt_buffer cls DEFAULT_PORT blk m (of_nat n) p (enc_fec e2) =
      Some (store_packet cls DEFAULT_PORT blk m (of_nat n) p (enc_fec e2), 0)"
    using e2(1) d(1) m by (intro group_insert [OF g]) (simp_all add: received_def)
  have tab: "\<not> (TCLASS_MAX < unat cls \<or> n < SIZE_ETHERNET)" "\<not> TOTAL_NUM_PACKETS \<le> m"
    using get(3) n m group_in_table [OF pr(3)] by (simp_all add: SIZE_ETHERNET_def)
  have k3: "wharf_get_k (enc_wharf e3) cls = Some (of_nat k)" using get(1) same_configD(2) [of e e3] e2(3) by (simp add: e3_def)
  have last: "uint (of_nat m :: u8) = uint (of_nat k :: u8) - 1 \<longleftrightarrow> Suc m = k"
    using m k256 by (simp add: uint_nat unat_of_nat_u8 flip: of_nat_Suc) presburger
  have bi: "get_fec_block_id (enc_fec e) cls DEFAULT_PORT = ?bid"
    "get_fec_frame_idx (enc_fec e) cls DEFAULT_PORT = frame_idx (buffers (tclasses (enc_fec e) cls) 0)"
    by (simp_all add: get_fec_block_id_def get_fec_frame_idx_def) (simp_all add: DEFAULT_PORT_def)
  have run: "enc_my_packet_handler c lookup s stack p n e =
      (if Suc m = k then case encode_and_forward_block c lookup s stack cls blk p e3 of
         Inl err \<Rightarrow> Inl err | Inr (e4, _, out1) \<Rightarrow> Inr (e4, [frame_of np (n + SIZE_FEC)] @ out1) else Inr (e3, [frame_of np (n + SIZE_FEC)]))"
    unfolding enc_my_packet_handler_def Let_def cls(1) if_not_P [OF cls(2)] if_not_P [OF tab(1)] bi ctr np(1) prod.case adv(1) option.case hd(1) start
    unfolding if_not_P [OF tab(2)] if_not_P [OF absent] ins option.case prod.case e3_def [symmetric] k3 hd(2) last forward_frame_def ..
  have "received c s (enc_fec e3) cls blk k h ds [0..<Suc m]"
    using received_insert [OF e2(1) g, of m n p] m n d(1) by (simp add: e3_def FRAME_SIZE_CUTOFF_def)
  then show thesis using that [OF run car] e2 adv(3,4) by (simp add: e3_def store_counters)
qed

lemma enc_params_config: "same_config e e' \<Longrightarrow> enc_params e' cls k h = enc_params e cls k h"
  by (simp add: enc_params_def same_configD(1))

lemma encoder_packet:
  assumes c: "coder_ready c lookup s" and E: "0 < FEC_EXTRA_COLS c" and g: "group_ok c cls blk k h ds"
    and at: "enc_at c s e cls blk k h ds m" and m: "m < k"
    and cls: "wharf_query_packet (enc_wharf e) p n = cls" "cls \<noteq> TCLASS_NULL" and d: "frame_of p n = ds ! m" "ds ! m \<noteq> []"
  obtains e' f where "Suc m < k" and "enc_my_packet_handler c lookup s stack p n e = Inr (e', [f])" and "same_config e e'"
      and "carries c s cls blk ds m f" and "enc_at c s e' cls blk k h ds (Suc m)"
  | e' fs where "Suc m = k" and "enc_my_packet_handler c lookup s stack p n e = Inr (e', fs)" and "same_config e e'"
      and "list_all2 (carries c s cls blk ds) [m..<k + h] fs" and "\<And>ds'. enc_at c s e' cls (Suc blk mod MAX_BLOCK) k h ds' 0"
proof -
  have pr: "enc_params e cls k h" using at by (simp add: enc_at_def)
  obtain e3 f where 3: "enc_my_packet_handler c lookup s stack p n e =
      (if Suc m = k then case encode_and_forward_block c lookup s stack cls blk p e3 of
         Inl err \<Rightarrow> Inl err | Inr (e4, _, out1) \<Rightarrow> Inr (e4, [f] @ out1) else Inr (e3, [f]))"
    "carries c s cls blk ds m f" "same_config e e3" "received c s (enc_fec e3) cls blk k h ds [0..<Suc m]"
    "unat (frame_idx (buffers (tclasses (enc_fec e3) cls) 0)) = (if Suc m = k then 0 else Suc m)"
    "unat (block_id (buffers (tclasses (enc_fec e3) cls) 0)) = (if Suc m = k then Suc blk mod MAX_BLOCK else blk)"
    "last_block_id e3 cls = int blk"
    by (rule packet_buffered [OF g at m cls d, of lookup stack]) (rule that)
  have pr3: "enc_params e3 cls k h" using pr enc_params_config [OF 3(3)] by simp
  have ok: "booster_ok c (enc_fec e3)" "class_params (enc_fec e3) cls k h" using 3(4) by (simp_all add: received_def)
  show thesis
  proof (cases "Suc m = k")
    case True
    obtain e4 fs where 4: "encode_and_forward_block c lookup s stack cls blk p e3 = Inr (e4, store16 p 12 0, fs)"
      "list_all2 (carries c s cls blk ds) [Suc m..<k + h] fs" "same_config e3 e4"
      "booster_ok c (enc_fec e4)" "class_params (enc_fec e4) cls k h"
      "block_id (buffers (tclasses (enc_fec e4) cls) 0) = block_id (buffers (tclasses (enc_fec e3) cls) 0)"
      "frame_idx (buffers (tclasses (enc_fec e4) cls) 0) = frame_idx (buffers (tclasses (enc_fec e3) cls) 0)"
      by (rule encode_and_forward_frames [OF c E g 3(4) _ _ pr3, of stack p]) (use True that in auto)
    have "[m..<k + h] = m # [Suc m..<k + h]" using m by (simp add: upt_conv_Cons)
    then have "list_all2 (carries c s cls blk ds) [m..<k + h] ([f] @ fs)" using 3(2) 4(2) by simp
    moreover have "enc_at c s e4 cls (Suc blk mod MAX_BLOCK) k h ds' 0" for ds'
      using 4(4-7) 3(5,6) pr3 enc_params_config [OF 4(3)] by (simp add: enc_at_def True)
    ultimately show thesis
      using that(2) [OF True, of e4 "[f] @ fs"] 3(1) 4(1) True same_config_trans [OF 3(3) 4(3)] by simp
  next
    case False
    have "enc_at c s e3 cls blk k h ds (Suc m)" using pr3 ok 3(4-7) False by (simp add: enc_at_def)
    then show thesis using that(1) [of e3 f] 3(1-3) False m by simp
  qed
qed

abbreviation enc_run :: "rse_h \<Rightarrow> bool \<Rightarrow> rse_state \<Rightarrow> (nat \<Rightarrow> bytes) \<Rightarrow> (bytes \<times> nat) list \<Rightarrow> encoder \<Rightarrow> halt + encoder \<times> frame list" where
  "enc_run c lookup s stack ps \<equiv>
     pcap_run (enc_my_packet_handler c lookup s stack) (enc_booster_timeout_handler c lookup s stack) (map (\<lambda>p. Captured (fst p) (snd p)) ps)"

text \<open>A part of a block, and the rest of a block.\<close>

lemma enc_run_part:
  assumes c: "coder_ready c lookup s" and E: "0 < FEC_EXTRA_COLS c" and g: "group_ok c cls blk k h ds" and cls: "cls \<noteq> TCLASS_NULL"
  shows "enc_at c s e cls blk k h ds m \<Longrightarrow> m + length ps < k \<Longrightarrow> \<forall>p\<in>set ps. wharf_query_packet (enc_wharf e) (fst p) (snd p) = cls \<Longrightarrow>
    \<forall>i<length ps. frame_of (fst (ps ! i)) (snd (ps ! i)) = ds ! (m + i) \<and> ds ! (m + i) \<noteq> [] \<Longrightarrow>
    \<exists>e' fs. enc_run c lookup s stack ps e = Inr (e', fs) \<and> same_config e e' \<and>
      list_all2 (carries c s cls blk ds) [m..<m + length ps] fs \<and> enc_at c s e' cls blk k h ds (m + length ps)"
proof (induction ps arbitrary: e m)
  case (Cons p ps)
  have p: "frame_of (fst p) (snd p) = ds ! m" "ds ! m \<noteq> []" "wharf_query_packet (enc_wharf e) (fst p) (snd p) = cls" and m: "m < k"
    using Cons.prems(2-4) by fastforce+
  show ?case
  proof (cases rule: encoder_packet [OF c E g Cons.prems(1) m p(3) cls p(1,2), of stack])
    case (1 e1 f)
    have "\<forall>i<length ps. frame_of (fst (ps ! i)) (snd (ps ! i)) = ds ! (Suc m + i) \<and> ds ! (Suc m + i) \<noteq> []"
      using Cons.prems(4) by (metis Suc_less_eq add_Suc_shift length_Cons nth_Cons_Suc)
    with Cons.IH [OF 1(5)] Cons.prems(2,3) same_configD(4) [OF 1(3)] obtain e2 fs where 2:
      "enc_run c lookup s stack ps e1 = Inr (e2, fs)" "same_config e1 e2"
      "list_all2 (carries c s cls blk ds) [Suc m..<Suc m + length ps] fs" "enc_at c s e2 cls blk k h ds (Suc m + length ps)" by auto
    have "[m..<m + length (p # ps)] = m # [Suc m..<Suc m + length ps]" by (simp add: upt_conv_Cons del: upt_Suc)
    then have "list_all2 (carries c s cls blk ds) [m..<m + length (p # ps)] (f # fs)" using 1(4) 2(3) by simp
    then show ?thesis using 1(2) 2(1,4) same_config_trans [OF 1(3) 2(2)] by (intro exI [of _ e2] exI [of _ "f # fs"]) simp
  next
    case 2
    then show ?thesis using Cons.prems(2) by simp
  qed
qed simp

lemma pcap_run_append:
  "pcap_run P T (evs @ evs') st =
    (case pcap_run P T evs st of Inl err \<Rightarrow> Inl err
     | Inr (st1, out1) \<Rightarrow> (case pcap_run P T evs' st1 of Inl err \<Rightarrow> Inl err | Inr (st2, out2) \<Rightarrow> Inr (st2, out1 @ out2)))"
  by (induction evs arbitrary: st) (auto split: sum.split)

lemma enc_run_block:
  assumes c: "coder_ready c lookup s" and E: "0 < FEC_EXTRA_COLS c" and g: "group_ok c cls blk k h ds" and cls: "cls \<noteq> TCLASS_NULL"
    and at: "enc_at c s e cls blk k h ds 0" and ps: "\<forall>p\<in>set ps. wharf_query_packet (enc_wharf e) (fst p) (snd p) = cls"
    and ds: "map (\<lambda>p. frame_of (fst p) (snd p)) ps = ds" "\<forall>d\<in>set ds. d \<noteq> []"
  obtains e' fs where "enc_run c lookup s stack ps e = Inr (e', fs)" and "list_all2 (carries c s cls blk ds) [0..<k + h] fs"
    and "same_config e e'" and "\<And>ds'. enc_at c s e' cls (Suc blk mod MAX_BLOCK) k h ds' 0"
proof -
  have len: "length ds = k" "length ps = k" using g ds(1) by (auto simp: group_ok_def)
  have "0 < k" using at by (simp add: enc_at_def class_params_def)
  then obtain ps1 p where p: "ps = ps1 @ [p]" using len(2) by (cases ps rule: rev_cases) auto
  have k: "length ps1 < k" "Suc (length ps1) = k" using len(2) p by simp_all
  have nth: "frame_of (fst (ps ! i)) (snd (ps ! i)) = ds ! i \<and> ds ! i \<noteq> []" if "i < k" for i
  proof
    have "map (\<lambda>p. frame_of (fst p) (snd p)) ps ! i = frame_of (fst (ps ! i)) (snd (ps ! i))" using that len by simp
    then show "frame_of (fst (ps ! i)) (snd (ps ! i)) = ds ! i" unfolding ds(1) by (rule sym)
    have "ds ! i \<in> set ds" using that len by simp
    then show "ds ! i \<noteq> []" using ds(2) by blast
  qed
  have "\<forall>i<length ps1. frame_of (fst (ps1 ! i)) (snd (ps1 ! i)) = ds ! (0 + i) \<and> ds ! (0 + i) \<noteq> []"
  proof (intro allI impI)
    fix i assume i: "i < length ps1"
    then show "frame_of (fst (ps1 ! i)) (snd (ps1 ! i)) = ds ! (0 + i) \<and> ds ! (0 + i) \<noteq> []"
      using nth [of i] k(1) by (simp add: p nth_append)
  qed
  with enc_run_part [OF c E g cls at, of ps1 stack] k(1) ps p obtain e1 fs1 where 1:
    "enc_run c lookup s stack ps1 e = Inr (e1, fs1)" "same_config e e1" "list_all2 (carries c s cls blk ds) [0..<length ps1] fs1"
    "enc_at c s e1 cls blk k h ds (length ps1)" by auto
  have last: "frame_of (fst p) (snd p) = ds ! length ps1" "ds ! length ps1 \<noteq> []" using nth [of "length ps1"] k(1) by (simp_all add: p)
  have q: "wharf_query_packet (enc_wharf e1) (fst p) (snd p) = cls" using ps p same_configD(4) [OF 1(2)] by simp
  show thesis
  proof (cases rule: encoder_packet [OF c E g 1(4) k(1) q cls last, of stack])
    case 1
    then show thesis using k(2) by simp
  next
    case (2 e2 fs2)
    have "[0..<k + h] = [0..<length ps1] @ [length ps1..<k + h]" using k(1) upt_add_eq_append [of 0 "length ps1" "k + h - length ps1"] by simp
    then have "list_all2 (carries c s cls blk ds) [0..<k + h] (fs1 @ fs2)" using 1(3) 2(4) by (simp add: list_all2_appendI)
    moreover have "enc_run c lookup s stack ps e = Inr (e2, fs1 @ fs2)" using 1(1) 2(2) by (simp add: p pcap_run_append)
    ultimately show thesis using that 2(5) same_config_trans [OF 1(2) 2(3)] by blast
  qed
qed

lemma enc_timeout_block:
  assumes c: "coder_ready c lookup s" and E: "0 < FEC_EXTRA_COLS c" and g: "group_ok c cls blk k h ds"
    and at: "enc_at c s e cls blk k h ds m" and m: "0 < m" "m < k" and ds: "\<forall>i\<in>{m..<k}. ds ! i = []" and t: "timeouts e cls = 1"
  obtains e' fs where "enc_timeout c lookup s stack cls e = Inr (e', fs)" and "list_all2 (carries c s cls blk ds) [m..<k + h] fs"
    and "same_config e e'" and "\<And>ds'. enc_at c s e' cls (Suc blk mod MAX_BLOCK) k h ds' 0"
proof -
  let ?e1 = "e\<lparr>timeouts := (timeouts e)(cls := 0)\<rparr>"
  have rcv: "received c s (enc_fec ?e1) cls blk k h ds [0..<m]" and lb: "last_block_id e cls = int blk" and pr: "enc_params ?e1 cls k h"
    and bid: "unat (block_id (buffers (tclasses (enc_fec e) cls) 0)) = blk"
    using at m(1) by (simp_all add: enc_at_def enc_params_def)
  obtain e2 fs where 2: "encode_and_forward_block c lookup s stack cls blk (last_eth_header ?e1 cls) ?e1 = Inr (e2, store16 (last_eth_header ?e1 cls) 12 0, fs)"
    "list_all2 (carries c s cls blk ds) [m..<k + h] fs" "same_config ?e1 e2" "booster_ok c (enc_fec e2)" "class_params (enc_fec e2) cls k h"
    "block_id (buffers (tclasses (enc_fec e2) cls) 0) = block_id (buffers (tclasses (enc_fec ?e1) cls) 0)"
    by (rule encode_and_forward_frames [OF c E g rcv less_imp_le [OF m(2)] ds pr, of stack "last_eth_header ?e1 cls"]) (rule that)
  define e3 where "e3 = e2\<lparr>last_eth_header := (last_eth_header e2)(cls := store16 (last_eth_header ?e1 cls) 12 0)\<rparr>"
  define st blk' where "st = fst (advance_block_id cls DEFAULT_PORT (enc_fec e3))" and "blk' = snd (advance_block_id cls DEFAULT_PORT (enc_fec e3))"
  define e4 where "e4 = (set_enc_fec st e3)\<lparr>last_block_id := (last_block_id e3)(cls := uint blk')\<rparr>"
  define e5 where "e5 = set_enc_fec (mark_pkts_absent cls DEFAULT_PORT (unat blk') (enc_fec e4)) e4"
  have run: "enc_timeout c lookup s stack cls e = Inr (e5, fs)"
    using 2(1) by (simp add: enc_timeout_def t lb split_beta e5_def e4_def st_def blk'_def e3_def Let_def)
  have sl: "same_slots (enc_fec e2) st cls"
    by (simp add: st_def e3_def advance_block_id_def Let_def same_slots_def set_buffer_def DEFAULT_PORT_def get_tclass_buffer_def)
  have cfg: "same_config e e5" using 2(3) by (simp add: e5_def e4_def e3_def)
  have u: "unat (of_nat (Suc blk mod MAX_BLOCK) :: u8) = Suc blk mod MAX_BLOCK" by (rule unat_of_nat_u8) (simp add: MAX_BLOCK_def)
  have ctr: "frame_idx (buffers (tclasses st cls) 0) = 0" "unat (block_id (buffers (tclasses st cls) 0)) = Suc blk mod MAX_BLOCK"
    using 2(6) bid u
    by (simp_all add: st_def e3_def advance_block_id_def Let_def set_buffer_def DEFAULT_PORT_def get_tclass_buffer_def)
  have "enc_at c s e5 cls (Suc blk mod MAX_BLOCK) k h ds' 0" for ds'
    using enc_params_config [OF cfg] at same_slotsD(1,2) [OF sl] 2(4,5) ctr by (simp add: enc_at_def e5_def e4_def mark_absent_counters)
  then show thesis using that [OF run 2(2) cfg] by blast
qed

end
