(* ===== verification/Fec_Stream.thy ===== *)
theory Fec_Stream
  imports Fec_Encoder "HOL-Library.Sublist"
begin

text \<open>
  The encoder and the decoder connected by a network that loses frames but keeps their order: a
  stream of blocks of one traffic class reaches the other side completely
  when at least \<open>k\<close> frames of every block arrive.
\<close>

section \<open>Frames that arrive\<close>

abbreviation captured_frame :: "bytes \<times> nat \<Rightarrow> frame" where
  "captured_frame cap \<equiv> frame_of (fst cap) (snd cap)"

lemma subseq_indices:
  assumes "subseq xs ys"
  obtains js where "sorted_wrt (<) js" and "set js \<subseteq> {..<length ys}" and "xs = map ((!) ys) js"
proof -
  from assms have "\<exists>js. sorted_wrt (<) js \<and> set js \<subseteq> {..<length ys} \<and> xs = map ((!) ys) js"
  proof (induction rule: list_emb.induct)
    case (list_emb_Cons xs ys y)
    then obtain js where "sorted_wrt (<) js" "set js \<subseteq> {..<length ys}" "xs = map ((!) ys) js" by blast
    then show ?case by (intro exI [of _ "map Suc js"]) (auto simp: sorted_wrt_map)
  next
    case (list_emb_Cons2 x y xs ys)
    then obtain js where "sorted_wrt (<) js" "set js \<subseteq> {..<length ys}" "xs = map ((!) ys) js" by blast
    then show ?case using list_emb_Cons2(1) by (intro exI [of _ "0 # map Suc js"]) (auto simp: sorted_wrt_map)
  qed auto
  then show thesis using that by blast
qed

lemma arriving_group:
  assumes c: "coder_ready c lookup s" and E: "0 < FEC_EXTRA_COLS c" and g: "group_ok c cls blk k h ds"
    and d: "fresh_for c d cls blk k h" and fs: "list_all2 (carries c s cls blk ds) [0..<k + h] fs"
    and caps: "subseq (map captured_frame caps) fs" "k \<le> length caps"
  obtains d' out where
      "pcap_run (dec_my_packet_handler c lookup s) dec_booster_timeout_handler (map (\<lambda>p. Captured (fst p) (snd p)) caps) d = Inr (d', out)"
    and "mset out = mset (nonempty ds)" and "dec_ready c d' cls k h" and "lastBlockId (dec_classes d' cls) = int blk"
proof -
  obtain js where js: "sorted_wrt (<) js" "set js \<subseteq> {..<length fs}" "map captured_frame caps = map ((!) fs) js"
    by (rule subseq_indices [OF caps(1)])
  have len: "length fs = k + h" "length caps = length js" using fs js(3) by (auto dest: list_all2_lengthD map_eq_imp_length_eq)
  let ?zs = "zip js caps"
  have z: "map fst ?zs = js" "map snd ?zs = caps" using len(2) by simp_all
  have "\<forall>f\<in>set ?zs. fst f < k + h \<and> group_frame c s cls blk ds (fst f) (fst (snd f))"
  proof
    fix f assume "f \<in> set ?zs"
    then obtain t where t: "t < length js" "f = (js ! t, caps ! t)" using len(2) by (auto simp: in_set_zip)
    have j: "js ! t < k + h" using t(1) js(2) len(1) by (auto simp: subset_iff)
    have "captured_frame (caps ! t) = fs ! (js ! t)" using arg_cong [OF js(3), of "\<lambda>l. l ! t"] t(1) len(2) by simp
    moreover have "carries c s cls blk ds (js ! t) (fs ! (js ! t))" using list_all2_nthD [OF fs, of "js ! t"] j by simp
    ultimately have "group_frame c s cls blk ds (js ! t) (fst (caps ! t))"
      unfolding carries_def by (metis frame_of_nth(1))
    then show "fst f < k + h \<and> group_frame c s cls blk ds (fst f) (fst (snd f))" using j t(2) by simp
  qed
  from dec_run_group [OF c E g d _ this] js(1) z(1) caps(2) len(2) obtain d' out i where
    run: "dec_run c lookup s ?zs d = Inr (d', out)" "mset out = mset (nonempty ds)" "finished c d' cls blk k h i" by auto
  have "map (\<lambda>f. Captured (fst (snd f)) (snd (snd f))) ?zs = map (\<lambda>p. Captured (fst p) (snd p)) caps"
    using z(2) by (metis (no_types, lifting) list.map_comp comp_apply map_eq_conv)
  with run show thesis using that by (auto simp: finished_def)
qed

section \<open>A stream of blocks\<close>

definition block_ok :: "rse_h \<Rightarrow> encoder \<Rightarrow> tclass_type \<Rightarrow> nat \<Rightarrow> (bytes \<times> nat) list \<Rightarrow> bool" where
  \<comment> \<open>\<open>k\<close> packets that the rules map to the class\<close>
  "block_ok c e cls k ps \<longleftrightarrow> length ps = k \<and> list_all (\<lambda>p. data_frame (captured_frame p)) ps \<and>
     list_all (\<lambda>p. wharf_query_packet (enc_wharf e) (fst p) (snd p) = cls) ps \<and>
     parity_length c (map captured_frame ps) < FRAME_SIZE_CUTOFF \<and>
     parity_length c (map captured_frame ps) + WHARF_TAG_SIZE \<le> FEC_MAX_COLS c"

lemma block_ok_group:
  assumes "block_ok c e cls k ps" and "unat cls \<le> TCLASS_MAX" and "blk < MAX_BLOCK"
  shows "group_ok c cls blk k h (map captured_frame ps)" and "\<forall>d\<in>set (map captured_frame ps). d \<noteq> []"
proof -
  show "group_ok c cls blk k h (map captured_frame ps)" using assms by (auto simp: block_ok_def group_ok_def list_all_iff MAX_BLOCK_def)
  show "\<forall>d\<in>set (map captured_frame ps). d \<noteq> []"
  proof
    fix d assume "d \<in> set (map captured_frame ps)"
    then have "data_frame d" using assms(1) by (auto simp: block_ok_def list_all_iff)
    then show "d \<noteq> []" by (auto simp: data_frame_def)
  qed
qed

lemma next_block: "blk < MAX_BLOCK \<Longrightarrow> Suc blk mod MAX_BLOCK \<noteq> blk \<and> Suc blk mod MAX_BLOCK < MAX_BLOCK"
  by (cases "Suc blk = MAX_BLOCK") (auto simp: MAX_BLOCK_def)

abbreviation dec_caps :: "rse_h \<Rightarrow> bool \<Rightarrow> rse_state \<Rightarrow> (bytes \<times> nat) list \<Rightarrow> decoder \<Rightarrow> halt + decoder \<times> frame list" where
  "dec_caps c lookup s caps \<equiv>
     pcap_run (dec_my_packet_handler c lookup s) dec_booster_timeout_handler (map (\<lambda>p. Captured (fst p) (snd p)) caps)"

definition survives :: "nat \<Rightarrow> frame list \<Rightarrow> (bytes \<times> nat) list \<Rightarrow> bool" where
  \<comment> \<open>at least \<open>k\<close> frames of a block arrive, in order\<close>
  "survives k fs caps \<longleftrightarrow> subseq (map captured_frame caps) fs \<and> k \<le> length caps"

lemma stream_recovered:
  assumes c: "coder_ready c lookup s" and E: "0 < FEC_EXTRA_COLS c" and cls: "unat cls \<le> TCLASS_MAX"
  shows "blk < MAX_BLOCK \<Longrightarrow> (\<And>ds. enc_at c s e cls blk k h ds 0) \<Longrightarrow> list_all (block_ok c e cls k) gs \<Longrightarrow>
    \<exists>e' bs. enc_run c lookup s stack (concat gs) e = Inr (e', concat bs) \<and> length bs = length gs \<and> list_all (\<lambda>b. length b = k + h) bs \<and>
      (\<forall>d cs. fresh_for c d cls blk k h \<longrightarrow> list_all2 (survives k) bs cs \<longrightarrow>
        (\<exists>d' out. dec_caps c lookup s (concat cs) d = Inr (d', out) \<and> mset out = mset (map captured_frame (concat gs))))"
proof (induction gs arbitrary: e blk)
  case Nil
  then show ?case by (intro exI [of _ e] exI [of _ "[]"]) simp
next
  case (Cons ps gs)
  let ?ds = "map captured_frame ps"
  have ok: "block_ok c e cls k ps" using Cons.prems(3) by simp
  note g = block_ok_group(1) [OF ok cls Cons.prems(1), of h] block_ok_group(2) [OF ok cls Cons.prems(1)]
  have null: "cls \<noteq> TCLASS_NULL" using cls by (auto simp: TCLASS_NULL_def TCLASS_MAX_def)
  have q: "\<forall>p\<in>set ps. wharf_query_packet (enc_wharf e) (fst p) (snd p) = cls" using ok by (simp add: block_ok_def list_all_iff)
  obtain e1 fs where 1: "enc_run c lookup s stack ps e = Inr (e1, fs)" "list_all2 (carries c s cls blk ?ds) [0..<k + h] fs"
    "same_config e e1" "\<And>ds'. enc_at c s e1 cls (Suc blk mod MAX_BLOCK) k h ds' 0"
    by (rule enc_run_block [OF c E g(1) null Cons.prems(2) q refl g(2), of stack]) (rule that)
  have "list_all (block_ok c e1 cls k) gs"
    using Cons.prems(3) same_configD(4) [OF 1(3)] by (simp add: block_ok_def [abs_def])
  from Cons.IH [OF conjunct2 [OF next_block [OF Cons.prems(1)]] 1(4) this] obtain e' bs where
    2: "enc_run c lookup s stack (concat gs) e1 = Inr (e', concat bs)" "length bs = length gs" "list_all (\<lambda>b. length b = k + h) bs"
    "\<And>d cs. fresh_for c d cls (Suc blk mod MAX_BLOCK) k h \<Longrightarrow> list_all2 (survives k) bs cs \<Longrightarrow>
        \<exists>d' out. dec_caps c lookup s (concat cs) d = Inr (d', out) \<and> mset out = mset (map captured_frame (concat gs))" by blast
  have "\<exists>d' out. dec_caps c lookup s (concat cs) d = Inr (d', out) \<and> mset out = mset (map captured_frame (concat (ps # gs)))"
    if f: "fresh_for c d cls blk k h" and cs: "list_all2 (survives k) (fs # bs) cs" for d cs
  proof -
    from cs obtain caps cs' where cs': "cs = caps # cs'" "survives k fs caps" "list_all2 (survives k) bs cs'"
      by (auto simp: list_all2_Cons1)
    obtain d1 out1 where d1: "dec_caps c lookup s caps d = Inr (d1, out1)" "mset out1 = mset (nonempty ?ds)" "dec_ready c d1 cls k h"
      "lastBlockId (dec_classes d1 cls) = int blk"
      by (rule arriving_group [OF c E g(1) f 1(2), of caps]) (use cs'(2) in \<open>auto simp: survives_def that\<close>)
    have "fresh_for c d1 cls (Suc blk mod MAX_BLOCK) k h" using d1(3,4) next_block [OF Cons.prems(1)] by (auto simp: fresh_for_def)
    from 2(4) [OF this cs'(3)] obtain d2 out2 where d2: "dec_caps c lookup s (concat cs') d1 = Inr (d2, out2)"
      "mset out2 = mset (map captured_frame (concat gs))" by blast
    have "nonempty ?ds = ?ds" using g(2) by (simp add: filter_id_conv)
    then have "mset (out1 @ out2) = mset (map captured_frame (concat (ps # gs)))" using d1(2) d2(2) by simp
    moreover have "dec_caps c lookup s (concat cs) d = Inr (d2, out1 @ out2)" using d1(1) d2(1) by (simp add: cs'(1) pcap_run_append)
    ultimately show ?thesis by blast
  qed
  moreover have "enc_run c lookup s stack (concat (ps # gs)) e = Inr (e', concat (fs # bs))" using 1(1) 2(1) by (simp add: pcap_run_append)
  moreover have "length fs = k + h" using list_all2_lengthD [OF 1(2)] by simp
  ultimately show ?case using 2(2,3) by (intro exI [of _ e'] exI [of _ "fs # bs"]) simp
qed

end
