(* ===== verification/Fec_Invariant.thy ===== *)
theory Fec_Invariant
  imports Fec_Encoder
begin

text \<open>
  The encoder as a state machine whose steps are captured packets and alarms. Whatever arrives, block numbers stay below
  \<^verbatim>\<open>MAX_BLOCK\<close>, frame numbers stay below \<open>k\<close>, the configuration does not change,
  and a block that has been started is completed when its timeout expires.
\<close>

section \<open>Counters\<close>

definition counters :: "booster \<Rightarrow> tclass_type \<Rightarrow> u8 \<times> u8 \<times> fec_sym \<times> fec_sym" where
  "counters st cls = (block_id (buffers (tclasses st cls) 0), frame_idx (buffers (tclasses st cls) 0),
     tc_k (tclasses st cls), tc_h (tclasses st cls))"

lemma counters_set_buffer:
  "counters (set_buffer cls DEFAULT_PORT tcb st) = (counters st)(cls := (block_id tcb, frame_idx tcb, tc_k (tclasses st cls), tc_h (tclasses st cls)))"
  by (auto simp: fun_eq_iff counters_def set_buffer_def DEFAULT_PORT_def)

lemma get_default_buffer: "get_tclass_buffer st cls DEFAULT_PORT = Some (buffers (tclasses st cls) 0)"
  by (simp add: get_tclass_buffer_def DEFAULT_PORT_def MAX_PORT_def)

lemma counters_store [simp]: "counters (store_packet cls DEFAULT_PORT blk i n p st) = counters st"
  by (simp add: store_packet_def DEFAULT_PORT_def set_buffer_def Let_def) (auto simp: counters_def fun_eq_iff)

lemma counters_insert: "insert_into_pkt_buffer cls DEFAULT_PORT blk i n p st = Some (st', rc) \<Longrightarrow> counters st' = counters st"
  by (auto simp: insert_into_pkt_buffer_def split: if_splits)

lemma counters_mark [simp]: "counters (mark_pkts_absent cls DEFAULT_PORT blk st) = counters st"
proof
  fix cls'
  show "counters (mark_pkts_absent cls DEFAULT_PORT blk st) cls' = counters st cls'"
    using mark_absent_counters [of cls blk st]
    by (cases "cls' = cls") (simp_all add: counters_def mark_pkts_absent_def get_default_buffer, simp_all add: set_buffer_def)
qed

lemma counters_populate [simp]: "counters (populate_fec_blk_data c cls port blk st) = counters st"
  by (simp add: fun_eq_iff counters_def populate_fec_blk_data_def populate_fec_blk_def Let_def)

lemma counters_encode: "encode_block c lookup s st = Some st' \<Longrightarrow> counters st' = counters st"
  by (auto simp: fun_eq_iff counters_def encode_block_def run_coder_def split: option.splits if_splits)

lemma counters_fill:
  "for_loop 0 n (fill_missing cls blk hdr empty0) (Some (st, out)) = Some (st', out') \<Longrightarrow> counters st' = counters st"
proof (induction n arbitrary: st' out')
  case (Suc n)
  then have "fill_missing cls blk hdr empty0 n (for_loop 0 n (fill_missing cls blk hdr empty0) (Some (st, out))) = Some (st', out')"
    by (simp add: for_loop_Suc)
  then obtain st1 out1 where 1: "for_loop 0 n (fill_missing cls blk hdr empty0) (Some (st, out)) = Some (st1, out1)"
    "fill_missing cls blk hdr empty0 n (Some (st1, out1)) = Some (st', out')"
    by (cases "for_loop 0 n (fill_missing cls blk hdr empty0) (Some (st, out))") (simp add: fill_missing_def, metis prod.collapse)
  have "counters st' = counters st1" using 1(2) counters_insert by (auto simp: fill_missing_def Let_def split_beta split: if_splits)
  then show ?case using Suc.IH [OF 1(1)] by simp
qed simp

section \<open>Steps\<close>

inductive enc_step :: "rse_h \<Rightarrow> bool \<Rightarrow> rse_state \<Rightarrow> encoder \<Rightarrow> frame list \<Rightarrow> encoder \<Rightarrow> bool"
  for c lookup s where
  captured: "enc_my_packet_handler c lookup s stack p n e = Inr (e', out) \<Longrightarrow> enc_step c lookup s e out e'"
| expired: "enc_booster_timeout_handler c lookup s stack e = Inr (e', out) \<Longrightarrow> enc_step c lookup s e out e'"

inductive enc_reach :: "rse_h \<Rightarrow> bool \<Rightarrow> rse_state \<Rightarrow> wharf \<Rightarrow> encoder \<Rightarrow> bool"
  for c lookup s w where
  start: "enc_reach c lookup s w (encoder_zero w)"
| step: "enc_reach c lookup s w e \<Longrightarrow> enc_step c lookup s e out e' \<Longrightarrow> enc_reach c lookup s w e'"

definition counters_ok :: "encoder \<Rightarrow> bool" where
  "counters_ok e \<longleftrightarrow> (\<forall>cls. let (b, f, k, h) = counters (enc_fec e) cls in
     unat b < MAX_BLOCK \<and> (k \<noteq> 0 \<longrightarrow> f < k)) \<and> (\<forall>cls. 0 \<le> last_block_id e cls \<and> last_block_id e cls < int MAX_BLOCK)"

definition enc_inv :: "wharf \<Rightarrow> encoder \<Rightarrow> bool" where
  \<comment> \<open>counters are in range and the configuration is the one the program started with\<close>
  "enc_inv w e \<longleftrightarrow> counters_ok e \<and> (\<exists>st. enc_wharf e = w\<lparr>fec := st\<rparr>) \<and>
     (\<forall>cls. get_fec_params (enc_fec e) cls = get_fec_params (fec w) cls)"

lemma get_fec_params_counters: "get_fec_params st cls = snd (snd (counters st cls))"
  by (simp add: get_fec_params_def counters_def)

lemma enc_inv_cong:
  assumes "enc_inv w e" and "counters (enc_fec e') = counters (enc_fec e)" and "last_block_id e' = last_block_id e" and "same_config e e'"
  shows "enc_inv w e'"
  using assms by (auto simp: enc_inv_def counters_ok_def get_fec_params_counters same_config_def)

lemma encode_and_forward_counters:
  assumes "encode_and_forward_block c lookup s stack cls blk hdr e = Inr (e', hdr', out)"
  shows "counters (enc_fec e') = counters (enc_fec e)" and "last_block_id e' = last_block_id e" and "same_config e e'"
  using assms counters_encode counters_fill
  by (auto simp: encode_and_forward_block_def Let_def split: option.splits if_splits prod.splits)

lemma advance_packet_idx_counters:
  assumes "advance_packet_idx cls DEFAULT_PORT st = Some (st', x)"
  shows "counters st' = (counters st)(cls := (case counters st cls of (b, f, k, h) \<Rightarrow>
    (if (of_nat ((unat f + 1) mod unat k) :: u8) = 0 then of_nat ((unat b + 1) mod MAX_BLOCK) else b, of_nat ((unat f + 1) mod unat k), k, h)))"
    and "tc_k (tclasses st cls) \<noteq> 0"
  using assms by (auto simp: advance_packet_idx_def get_default_buffer Let_def counters_set_buffer counters_def split: if_splits)

lemma mod_block_less: "unat (of_nat (n mod MAX_BLOCK) :: u8) < MAX_BLOCK"
  using unat_of_nat_u8 [of "n mod MAX_BLOCK"] by (simp add: MAX_BLOCK_def)

lemma mod_frame_less: "k \<noteq> 0 \<Longrightarrow> (of_nat (n mod unat k) :: u8) < k" for k :: u8
proof -
  assume "k \<noteq> 0"
  then have "0 < unat k" by (simp add: unat_gt_0)
  then have "n mod unat k < unat k" by simp
  moreover have "unat k < 256" by (rule unat_u8_less)
  ultimately have "n mod unat k < 256" by (rule less_trans)
  then have "unat (of_nat (n mod unat k) :: u8) = n mod unat k" by (rule unat_of_nat_u8)
  then show "(of_nat (n mod unat k) :: u8) < k" using \<open>n mod unat k < unat k\<close> by (simp add: word_less_nat_alt)
qed

lemma enc_inv_advance:
  assumes "enc_inv w e" and "advance_packet_idx cls DEFAULT_PORT (enc_fec e) = Some (st, x)"
  shows "enc_inv w (set_enc_fec st e)"
proof -
  have cfg: "\<exists>st'. enc_wharf (set_enc_fec st e) = w\<lparr>fec := st'\<rparr>" using assms(1) by (auto simp: enc_inv_def set_enc_fec_def)
  have ok: "counters_ok (set_enc_fec st e)"
    using assms(1) advance_packet_idx_counters [OF assms(2)] word_neq_0_conv [THEN iffD1, OF advance_packet_idx_counters(2) [OF assms(2)]]
      mod_block_less mod_frame_less
    by (auto simp: enc_inv_def counters_ok_def Let_def split_beta counters_def)
  show ?thesis using assms(1) cfg ok advance_packet_idx_counters(1) [OF assms(2)]
    by (auto simp: enc_inv_def get_fec_params_counters split_beta)
qed

lemma enc_inv_last_block:
  "enc_inv w e \<Longrightarrow> 0 \<le> b \<Longrightarrow> b < int MAX_BLOCK \<Longrightarrow> enc_inv w (e\<lparr>last_block_id := (last_block_id e)(cls := b)\<rparr>)"
  by (auto simp: enc_inv_def counters_ok_def enc_fec_def)

lemma enc_inv_block: "enc_inv w e \<Longrightarrow> unat (fst (counters (enc_fec e) cls)) < MAX_BLOCK"
  by (auto simp: enc_inv_def counters_ok_def split_beta)

lemma enc_inv_start_block:
  assumes "enc_inv w e" and "unat b < MAX_BLOCK" and "start_block cls b e = Some e'"
  shows "enc_inv w e'"
proof -
  have "int (unat b) < int MAX_BLOCK" using assms(2) by (simp only: of_nat_less_iff)
  then have "uint b < int MAX_BLOCK" by simp
  then have "enc_inv w (e\<lparr>last_block_id := (last_block_id e)(cls := uint b)\<rparr>)" using assms(1) by (intro enc_inv_last_block) simp_all
  then show ?thesis by (rule enc_inv_cong) (use start_block_effect [OF assms(3)] in simp_all)
qed

lemma enc_inv_packet:
  assumes inv: "enc_inv w e" and run: "enc_my_packet_handler c lookup s stack p n e = Inr (e', out)"
  shows "enc_inv w e'"
proof (cases "wharf_query_packet (enc_wharf e) p n = TCLASS_NULL")
  case True
  then show ?thesis using run inv by (simp add: enc_my_packet_handler_def)
next
  case False
  let ?cls = "wharf_query_packet (enc_wharf e) p n" and ?b = "get_fec_block_id (enc_fec e) (wharf_query_packet (enc_wharf e) p n) DEFAULT_PORT"
  let ?i = "get_fec_frame_idx (enc_fec e) ?cls DEFAULT_PORT"
  define np where "np = fst (wharf_tag_data ?cls (unat ?b) (unat ?i) (Some p) n (stack 0) (n + SIZE_FEC))"
  note run' = run [unfolded enc_my_packet_handler_def Let_def if_not_P [OF False] split_beta np_def [symmetric]]
  obtain st1 x where adv: "advance_packet_idx ?cls DEFAULT_PORT (enc_fec e) = Some (st1, x)"
    using run' by (auto split: option.splits if_splits)
  obtain e2 where e2: "(if hdr_index (get_fec_header np SIZE_ETHERNET) = 0 then start_block ?cls ?b (set_enc_fec st1 e) else Some (set_enc_fec st1 e)) = Some e2"
    using run' by (auto simp: adv split: option.splits if_splits)
  note run2 = run' [unfolded adv option.case fst_conv e2]
  obtain st3 rc where ins: "insert_into_pkt_buffer ?cls DEFAULT_PORT (unat ?b) (unat ?i) (of_nat n) p (enc_fec e2) = Some (st3, rc)"
    using run2 by (auto split: option.splits if_splits)
  define e3 where "e3 = set_enc_fec st3 e2"
  have "unat ?b < MAX_BLOCK" using enc_inv_block [OF inv, of ?cls] by (simp add: get_fec_block_id_def get_default_buffer counters_def)
  then have "enc_inv w e2" using enc_inv_start_block [OF enc_inv_advance [OF inv adv]] enc_inv_advance [OF inv adv] e2 by (auto split: if_splits)
  then have 3: "enc_inv w e3" by (rule enc_inv_cong) (use counters_insert [OF ins] in \<open>auto simp: e3_def\<close>)
  have "e' = e3 \<or> (\<exists>blk hdr out'. encode_and_forward_block c lookup s stack ?cls blk p e3 = Inr (e', hdr, out'))"
    using run2 unfolding ins option.case fst_conv e3_def [symmetric]
    by (simp split: if_splits sum.splits option.splits) (metis prod.collapse)
  then show ?thesis
  proof (elim disjE exE)
    fix blk hdr out' assume r: "encode_and_forward_block c lookup s stack ?cls blk p e3 = Inr (e', hdr, out')"
    show ?thesis by (rule enc_inv_cong [OF 3]) (rule encode_and_forward_counters [OF r])+
  qed (simp add: 3)
qed

lemma enc_inv_timeout:
  assumes inv: "enc_inv w e" and run: "enc_timeout c lookup s stack cls e = Inr (e', out)"
  shows "enc_inv w e'"
proof -
  let ?e1 = "e\<lparr>timeouts := (timeouts e)(cls := timeouts e cls - 1)\<rparr>"
  have 1: "enc_inv w ?e1" using inv by (rule enc_inv_cong) simp_all
  show ?thesis
  proof (cases "0 < timeouts e cls \<and> timeouts e cls - 1 = 0")
    case True
    then obtain e2 hdr where 2: "encode_and_forward_block c lookup s stack cls (nat (last_block_id e cls)) (last_eth_header e cls) ?e1 = Inr (e2, hdr, out)"
      using run by (auto simp: enc_timeout_def Let_def split_beta split: sum.splits)
    define e3 where "e3 = e2\<lparr>last_eth_header := (last_eth_header e2)(cls := hdr)\<rparr>"
    define ab where "ab = advance_block_id cls DEFAULT_PORT (enc_fec e3)"
    define e4 where "e4 = (set_enc_fec (fst ab) e3)\<lparr>last_block_id := (last_block_id e3)(cls := uint (snd ab))\<rparr>"
    have e': "e' = set_enc_fec (mark_pkts_absent cls DEFAULT_PORT (unat (snd ab)) (enc_fec e4)) e4"
      using run 2 True by (simp add: enc_timeout_def Let_def split_beta e4_def ab_def e3_def)
    have 3: "enc_inv w e3" by (rule enc_inv_cong [OF 1]) (use encode_and_forward_counters [OF 2] in \<open>simp_all add: e3_def\<close>)
    have b: "unat (snd ab) < MAX_BLOCK" using mod_block_less by (simp add: ab_def advance_block_id_def Let_def)
    have ab: "counters (fst ab) = (counters (enc_fec e3))(cls := (snd ab, 0, snd (snd (counters (enc_fec e3) cls))))"
      by (simp add: ab_def advance_block_id_def get_default_buffer Let_def counters_set_buffer) (simp add: counters_def)
    have "enc_inv w (set_enc_fec (fst ab) e3)"
      using 3 ab b by (auto simp: enc_inv_def counters_ok_def get_fec_params_counters set_enc_fec_def enc_fec_def word_neq_0_conv split_beta)
    moreover have "int (unat (snd ab)) < int MAX_BLOCK" using b by (simp only: of_nat_less_iff)
    ultimately have "enc_inv w e4" using enc_inv_last_block [of w "set_enc_fec (fst ab) e3" "uint (snd ab)" cls] by (simp add: e4_def)
    then show ?thesis by (rule enc_inv_cong) (simp_all add: e')
  next
    case False
    then have "e' = e \<or> e' = ?e1" using run by (auto simp: enc_timeout_def Let_def split: if_splits)
    then show ?thesis using inv 1 by blast
  qed
qed

lemma enc_inv_timeout_handler:
  assumes inv: "enc_inv w e" and run: "enc_booster_timeout_handler c lookup s stack e = Inr (e', out)"
  shows "enc_inv w e'"
proof -
  have "for_loop 0 n (\<lambda>i r. case r of Inl err \<Rightarrow> Inl err
       | Inr (e, out) \<Rightarrow> (case enc_timeout c lookup s stack (of_nat i) e of Inl err \<Rightarrow> Inl err | Inr (e1, out1) \<Rightarrow> Inr (e1, out @ out1)))
       (Inr (e, [])) = Inr (e', out) \<Longrightarrow> enc_inv w e'" for n e' out
    by (induction n arbitrary: e' out) (auto simp: for_loop_Suc inv split: sum.splits dest!: enc_inv_timeout)
  then show ?thesis using run by (auto simp: enc_booster_timeout_handler_def)
qed

lemma enc_step_inv: "enc_step c lookup s e out e' \<Longrightarrow> enc_inv w e \<Longrightarrow> enc_inv w e'"
  by (induction rule: enc_step.induct) (auto intro: enc_inv_packet enc_inv_timeout_handler)

lemma enc_reach_inv:
  assumes "enc_reach c lookup s w e" and "enc_inv w (encoder_zero w)"
  shows "enc_inv w e"
  using assms by (induction rule: enc_reach.induct) (auto intro: enc_step_inv)

section \<open>Expiring timeouts\<close>

lemma enc_timeout_idle: "timeouts e i \<le> 0 \<Longrightarrow> enc_timeout c lookup s stack i e = Inr (e, [])"
  by (simp add: enc_timeout_def)

lemma enc_timeout_others:
  assumes "enc_timeout c lookup s stack cls e = Inr (e', out)" and "i \<noteq> cls"
  shows "timeouts e' i = timeouts e i"
proof -
  have "timeouts e2 i = timeouts e1 i" if "encode_and_forward_block c lookup s stack cls blk hdr e1 = Inr (e2, hdr', out')" for e1 e2 blk hdr hdr' out'
    using that assms(2) by (auto simp: encode_and_forward_block_def Let_def split: option.splits if_splits prod.splits)
  then show ?thesis using assms by (auto simp: enc_timeout_def Let_def split_beta split: if_splits sum.splits)
qed

definition only_pending :: "encoder \<Rightarrow> tclass_type \<Rightarrow> bool" where
  "only_pending e cls \<longleftrightarrow> unat cls < TCLASS_MAX \<and> (\<forall>i. i \<noteq> cls \<longrightarrow> timeouts e i \<le> 0)"

lemma timeout_handler_single:
  assumes "only_pending e cls"
  shows "enc_booster_timeout_handler c lookup s stack e = enc_timeout c lookup s stack cls e"
proof -
  let ?F = "\<lambda>i r. case r of Inl err \<Rightarrow> Inl err
       | Inr (e, out) \<Rightarrow> (case enc_timeout c lookup s stack (of_nat i) e of Inl err \<Rightarrow> Inl err | Inr (e1, out1) \<Rightarrow> Inr (e1, out @ out1))"
  have "for_loop 0 n ?F (Inr (e, [])) = (if unat cls < n then enc_timeout c lookup s stack cls e else Inr (e, []))" if "n \<le> TCLASS_MAX" for n
    using that
  proof (induction n)
    case (Suc n)
    have cls: "cls = of_nat n \<longleftrightarrow> unat cls = n" using Suc.prems by (auto simp: TCLASS_MAX_def unat_of_nat take_bit_eq_mod)
    consider "unat cls < n" | "unat cls = n" | "n < unat cls" by linarith
    then show ?case
    proof cases
      case 1
      then have "timeouts e' (of_nat n) \<le> 0" if "enc_timeout c lookup s stack cls e = Inr (e', out)" for e' out
        using assms enc_timeout_others [OF that, of "of_nat n"] cls by (auto simp: only_pending_def)
      then show ?thesis using Suc 1 by (auto simp: for_loop_Suc enc_timeout_idle split: sum.split)
    next
      case 2
      then show ?thesis using Suc cls by (auto simp: for_loop_Suc split: sum.split)
    next
      case 3
      then have "timeouts e (of_nat n) \<le> 0" using assms cls by (auto simp: only_pending_def)
      then show ?thesis using Suc 3 by (simp add: for_loop_Suc enc_timeout_idle)
    qed
  qed simp
  from this [OF order_refl] show ?thesis using assms by (simp add: enc_booster_timeout_handler_def only_pending_def)
qed

abbreviation enc_alarms :: "rse_h \<Rightarrow> bool \<Rightarrow> rse_state \<Rightarrow> (nat \<Rightarrow> bytes) \<Rightarrow> nat \<Rightarrow> encoder \<Rightarrow> halt + encoder \<times> frame list" where
  "enc_alarms c lookup s stack t \<equiv>
     pcap_run (enc_my_packet_handler c lookup s stack) (enc_booster_timeout_handler c lookup s stack) (replicate t Alarm)"

lemma enc_at_timeouts [simp]: "enc_at c s (e\<lparr>timeouts := t\<rparr>) cls blk k h ds m = enc_at c s e cls blk k h ds m"
  by (simp add: enc_at_def enc_params_def)

lemma alarms_complete_block:
  assumes c: "coder_ready c lookup s" and E: "0 < FEC_EXTRA_COLS c" and g: "group_ok c cls blk k h ds"
    and m: "0 < m" "m < k" and ds: "\<forall>i\<in>{m..<k}. ds ! i = []"
  shows "enc_at c s e cls blk k h ds m \<Longrightarrow> only_pending e cls \<Longrightarrow> timeouts e cls = int (Suc t) \<Longrightarrow>
    \<exists>e' fs. enc_alarms c lookup s stack (Suc t) e = Inr (e', fs) \<and> list_all2 (carries c s cls blk ds) [m..<k + h] fs \<and>
      (\<forall>ds'. enc_at c s e' cls (Suc blk mod MAX_BLOCK) k h ds' 0)"
proof (induction t arbitrary: e)
  case 0
  obtain e' fs where 1: "enc_timeout c lookup s stack cls e = Inr (e', fs)" "list_all2 (carries c s cls blk ds) [m..<k + h] fs"
    "same_config e e'" "\<And>ds'. enc_at c s e' cls (Suc blk mod MAX_BLOCK) k h ds' 0"
    by (rule enc_timeout_block [OF c E g 0(1) m ds, of stack]) (use 0(3) that in auto)
  then show ?case using timeout_handler_single [OF 0(2)] by auto
next
  case (Suc t)
  let ?e = "e\<lparr>timeouts := (timeouts e)(cls := int (Suc t))\<rparr>"
  have "enc_timeout c lookup s stack cls e = Inr (?e, [])" using Suc.prems(3) by (simp add: enc_timeout_def)
  then have h: "enc_booster_timeout_handler c lookup s stack e = Inr (?e, [])" using timeout_handler_single [OF Suc.prems(2)] by simp
  have "enc_at c s ?e cls blk k h ds m" using Suc.prems(1) by simp
  moreover have "only_pending ?e cls" using Suc.prems(2) by (simp add: only_pending_def)
  moreover have "timeouts ?e cls = int (Suc t)" by simp
  ultimately have "\<exists>e' fs. enc_alarms c lookup s stack (Suc t) ?e = Inr (e', fs) \<and> list_all2 (carries c s cls blk ds) [m..<k + h] fs \<and>
      (\<forall>ds'. enc_at c s e' cls (Suc blk mod MAX_BLOCK) k h ds' 0)" by (rule Suc.IH)
  then obtain e' fs where r: "enc_alarms c lookup s stack (Suc t) ?e = Inr (e', fs)" "list_all2 (carries c s cls blk ds) [m..<k + h] fs"
      "\<forall>ds'. enc_at c s e' cls (Suc blk mod MAX_BLOCK) k h ds' 0" by blast
  have "enc_alarms c lookup s stack (Suc (Suc t)) e = Inr (e', fs)"
    unfolding replicate_Suc [of "Suc t"] pcap_run.simps(2) pcap_event.case h sum.case prod.case r(1) by simp
  then show ?case using r by blast
qed

lemma last_class_never_expires:
  "(\<forall>i. unat i < TCLASS_MAX \<longrightarrow> timeouts e i \<le> 0) \<Longrightarrow> enc_booster_timeout_handler c lookup s stack e = Inr (e, [])"
proof -
  assume t: "\<forall>i. unat i < TCLASS_MAX \<longrightarrow> timeouts e i \<le> 0"
  have "for_loop 0 n (\<lambda>i r. case r of Inl err \<Rightarrow> Inl err
       | Inr (e, out) \<Rightarrow> (case enc_timeout c lookup s stack (of_nat i) e of Inl err \<Rightarrow> Inl err | Inr (e1, out1) \<Rightarrow> Inr (e1, out @ out1)))
       (Inr (e, [])) = Inr (e, [])" if "n \<le> TCLASS_MAX" for n
    using that
  proof (induction n)
    case (Suc n)
    have "unat (of_nat n :: u16) = n" using Suc.prems by (simp add: TCLASS_MAX_def unat_of_nat take_bit_eq_mod)
    then have "timeouts e (of_nat n) \<le> 0" using t Suc.prems by simp
    then show ?case using Suc by (simp add: for_loop_Suc enc_timeout_idle)
  qed simp
  from this [OF order_refl] show ?thesis by (simp add: enc_booster_timeout_handler_def)
qed

end
