(* ===== verification/Wharf_Cli.thy ===== *)
theory Wharf_Cli
  imports Wharf_Api
begin

text \<open>
  The command language of \<^verbatim>\<open>fecBoosterApi.c\<close>: decimal numbers are read back from their printed form, a
  printed rule is parsed to the call it stands for, and every command keeps
  the class table and the parameters of the packet buffers in agreement.
\<close>

section \<open>Numbers\<close>

fun show_nat :: "nat \<Rightarrow> string" where
  "show_nat n = (if n < 10 then [] else show_nat (n div 10)) @ [char_of (48 + n mod 10)]"

declare show_nat.simps [simp del]

lemma digit_char: "n < 10 \<Longrightarrow> is_digit (char_of (48 + n :: nat))" "n < 10 \<Longrightarrow> (of_char (char_of (48 + n :: nat)) :: int) = 48 + int n"
proof -
  assume n: "n < 10"
  have m: "(48 + n) mod 256 = 48 + n" using n by simp
  show "is_digit (char_of (48 + n))" using n m by (simp add: is_digit_def of_char_of)
  have "(of_char (char_of (48 + n)) :: int) = of_nat (of_char (char_of (48 + n)))"
    by (simp only: of_nat_of_char)
  also have "of_char (char_of (48 + n)) = (48 + n :: nat)" using m by (simp only: of_char_of)
  also have "int (48 + n) = 48 + int n" by simp
  finally show "(of_char (char_of (48 + n)) :: int) = 48 + int n" .
qed

lemma show_nat_digits: "list_all is_digit (show_nat n)" "show_nat n \<noteq> []"
proof -
  show "list_all is_digit (show_nat n)"
    by (induction n rule: show_nat.induct) (subst show_nat.simps, simp add: digit_char)
  show "show_nat n \<noteq> []" by (subst show_nat.simps) simp
qed

lemma digits_value_append: "digits_value (ds @ [d]) = 10 * digits_value ds + (of_char d - 48)"
  by (simp add: digits_value_def)

lemma digits_value_show: "digits_value (show_nat n) = int n"
proof (induction n rule: show_nat.induct)
  case (1 n)
  have "int n = int (10 * (n div 10) + n mod 10)" by (simp only: mult_div_mod_eq)
  then have "int n = 10 * int (n div 10) + int (n mod 10)" by (simp only: of_nat_add of_nat_mult of_nat_numeral)
  moreover have "digits_value (if n < 10 then [] else show_nat (n div 10)) = int (n div 10)"
    using 1 by (auto simp: digits_value_def)
  ultimately show ?case by (subst show_nat.simps) (simp add: digits_value_append digit_char)
qed

lemma digit_not_space: "is_digit ch \<Longrightarrow> \<not> is_space ch \<and> ch \<noteq> CHR ''-'' \<and> ch \<noteq> CHR ''+'' \<and> ch \<noteq> CHR '','' \<and> ch \<noteq> CHR 0x0A"
  by (auto simp: is_digit_def is_space_def)

lemma strtol_digits:
  assumes "list_all is_digit ds" and "ds \<noteq> []" and "rest = [] \<or> \<not> is_digit (hd rest)" and "digits_value ds < 2 ^ 63"
    and "0 \<le> digits_value ds"
  shows "strtol10 (ds @ rest) = digits_value ds"
proof -
  obtain d ds' where d: "ds = d # ds'" using assms(2) by (cases ds) auto
  then have "is_digit d" using assms(1) by simp
  note nd = digit_not_space [OF this]
  have tw: "takeWhile is_digit (ds @ rest) = ds"
    using assms(1,3) by (cases rest) (auto simp: list_all_iff takeWhile_append takeWhile_eq_all_conv)
  have "dropWhile is_space (ds @ rest) = ds @ rest" using nd by (simp add: d)
  then show ?thesis using tw nd assms(4,5) by (simp add: strtol10_def Let_def d)
qed

lemma atoi_show:
  assumes "n < 2 ^ 31" and "rest = [] \<or> \<not> is_digit (hd rest)"
  shows "atoi (show_nat n @ rest) = int n"
proof -
  have "int n < 2 ^ 31" using assms(1) by simp
  then have "strtol10 (show_nat n @ rest) = int n"
    using strtol_digits [OF show_nat_digits(1) show_nat_digits(2) assms(2), of n] by (simp add: digits_value_show)
  moreover have "signed_take_bit 31 (int n) = int n"
    using \<open>int n < 2 ^ 31\<close> by (intro signed_take_bit_int_eq_self) simp_all
  ultimately show ?thesis by (simp add: atoi_def)
qed

section \<open>Tokens\<close>

lemma strtok_token:
  assumes "list_all (\<lambda>ch. ch \<notin> set delim) tok" and "tok \<noteq> []" and "d \<in> set delim"
  shows "strtok (tok @ d # rest) delim = (Some tok, rest)" and "strtok tok delim = (Some tok, [])"
proof -
  have tw: "takeWhile (\<lambda>ch. ch \<notin> set delim) (tok @ d # rest) = tok" "dropWhile (\<lambda>ch. ch \<notin> set delim) (tok @ d # rest) = d # rest"
    using assms by (simp_all add: list_all_iff takeWhile_append dropWhile_append)
  have tw': "takeWhile (\<lambda>ch. ch \<notin> set delim) tok = tok" "dropWhile (\<lambda>ch. ch \<notin> set delim) tok = []"
    using assms(1) by (simp_all add: list_all_iff takeWhile_eq_all_conv)
  obtain t ts where t: "tok = t # ts" using assms(2) by (cases tok) auto
  have dw: "dropWhile (\<lambda>ch. ch \<in> set delim) (tok @ xs) = tok @ xs" for xs using assms(1) by (simp add: t)
  show "strtok (tok @ d # rest) delim = (Some tok, rest)" using dw [of "d # rest"] tw by (simp add: strtok_def Let_def t)
  show "strtok tok delim = (Some tok, [])" using dw [of "[]"] tw' by (simp add: strtok_def Let_def t)
qed

lemma show_nat_no_delim: "set delim \<inter> Collect is_digit = {} \<Longrightarrow> list_all (\<lambda>ch. ch \<notin> set delim) (show_nat n)"
  using show_nat_digits(1) [of n] by (auto simp: list_all_iff)

lemma delims_no_digit: "set '' ,'' \<inter> Collect is_digit = {}" "set ('' ,'' @ [CHR 0x0A]) \<inter> Collect is_digit = {}"
  by (auto simp: is_digit_def)

section \<open>Printed commands\<close>

definition show_rule :: "nat \<Rightarrow> bool \<Rightarrow> nat \<Rightarrow> string" where
  "show_rule port tcp cls = show_nat port @ '','' @ show_nat (if tcp then 1 else 0) @ '','' @ show_nat cls"

lemma parse_show_rule:
  assumes "0 < port" and "port < 65536" and "cls < 65536" and "valid_tclass w (int cls) = Some True"
  shows "parse_rule_opts w (show_rule port tcp cls @ [CHR 0x0A]) True = Some (Some (of_nat port, tcp, Some (of_nat cls)))"
    and "parse_rule_opts w (show_rule port tcp cls) True = Some (Some (of_nat port, tcp, Some (of_nat cls)))"
proof -
  let ?b = "show_nat (if tcp then 1 else 0)"
  note nd = show_nat_no_delim [OF delims_no_digit(1)] show_nat_no_delim [OF delims_no_digit(2)]
  have p: "strtok (show_nat port @ CHR '','' # s) '' ,'' = (Some (show_nat port), s)" for s
    by (rule strtok_token(1) [OF nd(1) show_nat_digits(2)]) simp
  have b: "strtok (?b @ CHR '','' # s) '' ,'' = (Some ?b, s)" for s
    by (rule strtok_token(1) [OF nd(1) show_nat_digits(2)]) simp
  have c: "strtok (show_nat cls @ [CHR 0x0A]) ('' ,'' @ [CHR 0x0A]) = (Some (show_nat cls), [])"
    by (rule strtok_token(1) [OF nd(2) show_nat_digits(2)]) simp
  have c': "strtok (show_nat cls) ('' ,'' @ [CHR 0x0A]) = (Some (show_nat cls), [])"
    by (rule strtok_token(2) [OF nd(2) show_nat_digits(2), of "CHR '',''"]) simp
  have a: "atoi (show_nat n) = int n" if "n < 65536" for n using atoi_show [of n "[]"] that by simp
  have ab: "atoi ?b = (if tcp then 1 else 0)" using a [of "if tcp then 1 else 0"] by simp
  show "parse_rule_opts w (show_rule port tcp cls @ [CHR 0x0A]) True = Some (Some (of_nat port, tcp, Some (of_nat cls)))"
    "parse_rule_opts w (show_rule port tcp cls) True = Some (Some (of_nat port, tcp, Some (of_nat cls)))"
    unfolding show_rule_def using p b c c' a [OF assms(2)] a [OF assms(3)] ab assms
    by (simp_all add: parse_rule_opts_def Let_def del: list.set)
qed

end
