(* ===== verification/Wharf_Config.thy ===== *)
theory Wharf_Config
  imports Wharf_Cli Fec_Pcap
begin

text \<open>
  The configurations that the command language can reach with commands that stay inside the table of classes. In all of them the two tables have their size, the parameters of an
  active class are those of the packet buffers, every class that a rule or the default
  can yield is in range, and the packet buffers are untouched.
\<close>

section \<open>The invariant\<close>

inductive configured :: "rse_h \<Rightarrow> wharf \<Rightarrow> bool"
  for c where
  boot: "configured c (wharf_zero c)"
| command: "configured c w \<Longrightarrow> wharf_str_call str w = Some (w', rc) \<Longrightarrow> configured c w'"

definition known_class :: "tclass_type \<Rightarrow> bool" where
  "known_class t \<longleftrightarrow> unat t < TCLASS_MAX \<or> t = TCLASS_NULL"

definition params_agree :: "wharf \<Rightarrow> bool" where
  "params_agree w \<longleftrightarrow> (\<forall>cls p. class_at w (uint cls) = Some p \<longrightarrow> tp_active p \<longrightarrow> get_fec_params (fec w) cls = (tp_k p, tp_h p))"

definition classes_known :: "wharf \<Rightarrow> bool" where
  "classes_known w \<longleftrightarrow> known_class (default_tclass w) \<and> list_all (\<lambda>r. re_active r \<longrightarrow> known_class (re_tclass r)) (wrules w)"

definition buffers_untouched :: "rse_h \<Rightarrow> booster \<Rightarrow> bool" where
  "buffers_untouched c st \<longleftrightarrow> rse st = coder_zero c 1 \<and> (\<forall>cls. tc_o (tclasses st cls) = 0 \<and> buffers (tclasses st cls) = (\<lambda>_. buffer_zero))"

definition config_inv :: "rse_h \<Rightarrow> wharf \<Rightarrow> bool" where
  "config_inv c w \<longleftrightarrow> length (wrules w) = MAX_RULES \<and> length (wclasses w) = TCLASS_MAX \<and> params_agree w \<and>
     classes_known w \<and> buffers_untouched c (fec w)"

section \<open>The operations keep it\<close>

lemma class_at_fields [simp]:
  "class_at (w\<lparr>fec := st\<rparr>) = class_at w" "class_at (w\<lparr>wrules := rs\<rparr>) = class_at w"
  "class_at (w\<lparr>default_tclass := t\<rparr>) = class_at w" "class_at (w\<lparr>wharf_enabled := b\<rparr>) = class_at w"
  by (simp_all add: fun_eq_iff class_at_def in_table_def)

lemma params_agree_fields [simp]:
  "params_agree (w\<lparr>wrules := rs\<rparr>) = params_agree w" "params_agree (w\<lparr>default_tclass := t\<rparr>) = params_agree w"
  "params_agree (w\<lparr>wharf_enabled := b\<rparr>) = params_agree w"
  by (simp_all add: params_agree_def)

lemma class_at_zero: "class_at (wharf_zero c) i = Some p \<Longrightarrow> p = no_params"
  by (auto simp: class_at_def in_table_def wharf_zero_def nat_less_iff split: if_splits)

lemma config_inv_zero: "config_inv c (wharf_zero c)"
  unfolding config_inv_def
proof (intro conjI)
  show "params_agree (wharf_zero c)" by (auto simp: params_agree_def no_params_def dest!: class_at_zero)
qed (simp_all add: wharf_zero_def classes_known_def known_class_def buffers_untouched_def no_rule_def booster_zero_def list_all_iff)

lemma set_class_at_effect:
  assumes "set_class_at i p w = Some w'"
  shows "class_at w' j = (if j = i then Some p else class_at w j)"
    and "wrules w' = wrules w" "default_tclass w' = default_tclass w" "fec w' = fec w" "length (wclasses w') = length (wclasses w)"
  using assms by (auto simp: class_at_def in_table_def set_class_at_def nth_list_update split: if_splits)

lemma set_fec_params_get: "get_fec_params (set_fec_params t k h st) t' = (if t' = t then (k, h) else get_fec_params st t')"
  by (simp add: get_fec_params_def set_fec_params_def)

lemma buffers_set_params: "buffers_untouched c st \<Longrightarrow> buffers_untouched c (set_fec_params t k h st)"
  by (auto simp: buffers_untouched_def set_fec_params_def)

lemma config_inv_set_tclass: "wharf_set_tclass t k h i w = Some (w', rc) \<Longrightarrow> config_inv c w \<Longrightarrow> config_inv c w'"
  by (auto simp: wharf_set_tclass_def config_inv_def params_agree_def classes_known_def set_class_at_effect set_fec_params_get
      buffers_set_params word_uint_eq_iff split: if_splits option.splits)

lemma config_inv_delete_tclass:
  assumes "wharf_delete_tclass t w = Some (w', rc)" and inv: "config_inv c w"
  shows "config_inv c w'"
proof (cases "unat t > TCLASS_MAX")
  case False
  then obtain p where p: "class_at w (uint t) = Some p" "set_class_at (uint t) (p\<lparr>tp_active := False\<rparr>) w = Some w'"
    using assms(1) by (auto simp: wharf_delete_tclass_def split: option.splits)
  note eff = set_class_at_effect [OF p(2)]
  have "params_agree w'" using inv by (auto simp: config_inv_def params_agree_def eff split: if_splits)
  then show ?thesis using inv by (simp add: config_inv_def classes_known_def eff)
qed (use assms in \<open>simp add: wharf_delete_tclass_def\<close>)

lemma config_inv_enabled: "config_inv c w \<Longrightarrow> config_inv c (wharf_set_enabled b w)"
  by (simp add: wharf_set_enabled_def config_inv_def classes_known_def)

text \<open>Which numbers the check of a class accepts, and at which it leaves the table.\<close>

lemma valid_tclass_cases:
  assumes "length (wclasses w) = TCLASS_MAX"
  shows "valid_tclass w i = Some True \<Longrightarrow> 0 \<le> i \<and> i < int TCLASS_MAX \<or> i = uint TCLASS_NULL"
    and "valid_tclass w i = None \<longleftrightarrow> i < 0 \<or> i = int TCLASS_MAX"
  using assms by (auto simp: valid_tclass_def class_at_def in_table_def TCLASS_NULL_def TCLASS_MAX_def split: if_splits)

lemma valid_tclass_known: "config_inv c w \<Longrightarrow> valid_tclass w (uint t) = Some True \<Longrightarrow> known_class t"
  using valid_tclass_cases(1) [of w "uint t"] by (auto simp: known_class_def config_inv_def word_uint_eq_iff nat_less_iff simp flip: nat_uint_eq)

lemma config_inv_default:
  assumes "wharf_set_default_class t w = Some (w', rc)" and inv: "config_inv c w"
  shows "config_inv c w'"
  using assms(1) valid_tclass_known [OF inv, of t] inv
  by (auto simp: wharf_set_default_class_def config_inv_def classes_known_def split: if_splits)

lemma list_all_set_rule: "set_rule_from r rs = Some rs' \<Longrightarrow> P r \<Longrightarrow> list_all P rs \<Longrightarrow> length rs' = length rs \<and> list_all P rs'"
  by (induction rs arbitrary: rs') (auto split: if_splits)

lemma list_all_delete_rule:
  "delete_rule_from r rs = Some rs' \<Longrightarrow> list_all P rs \<Longrightarrow> (\<And>r. P (r\<lparr>re_active := False\<rparr>)) \<Longrightarrow> length rs' = length rs \<and> list_all P rs'"
  by (induction rs arbitrary: rs') (auto split: if_splits)

lemma config_inv_rules:
  assumes "config_inv c w" and "length rs = MAX_RULES" and "list_all (\<lambda>r. re_active r \<longrightarrow> known_class (re_tclass r)) rs"
  shows "config_inv c (w\<lparr>wrules := rs\<rparr>)"
  using assms by (simp add: config_inv_def classes_known_def)

lemma config_inv_set_rule:
  assumes "wharf_set_rule t p tcp w = Some (w', rc)" and inv: "config_inv c w"
  shows "config_inv c w'"
  using assms(1) valid_tclass_known [OF inv, of t] list_all_set_rule [of _ "wrules w" _ "\<lambda>r. re_active r \<longrightarrow> known_class (re_tclass r)"] inv
  by (auto simp: wharf_set_rule_def config_inv_def classes_known_def intro!: config_inv_rules split: option.splits if_splits)

lemma config_inv_delete_rule: "wharf_delete_rule t p tcp w = (w', rc) \<Longrightarrow> config_inv c w \<Longrightarrow> config_inv c w'"
  using list_all_delete_rule [of _ "wrules w" _ "\<lambda>r. re_active r \<longrightarrow> known_class (re_tclass r)"]
  by (auto simp: wharf_delete_rule_def config_inv_def classes_known_def intro!: config_inv_rules split: option.splits)

lemma config_inv_command:
  assumes "wharf_str_call str w = Some (w', rc)" and inv: "config_inv c w"
  shows "config_inv c w'"
  using assms(1) inv config_inv_enabled [OF inv]
  by (auto simp: wharf_str_call_def Let_def split: if_splits option.splits prod.splits
      dest: config_inv_set_tclass config_inv_delete_tclass config_inv_set_rule config_inv_delete_rule config_inv_default)

lemma configured_inv: "configured c w \<Longrightarrow> config_inv c w"
  by (induction rule: configured.induct) (auto intro: config_inv_zero config_inv_command)

section \<open>Programs start in such a configuration\<close>

lemma load_lines_configured: "load_lines f w = Some (w', rc) \<Longrightarrow> configured c w \<Longrightarrow> configured c w'"
proof (induction f w rule: load_lines.induct)
  case (1 f w)
  show ?case
  proof (cases "f = []")
    case True
    then show ?thesis using 1(2,3) by simp
  next
    case False
    obtain line rest where l: "fgets 1024 f = (line, rest)" by fastforce
    obtain w1 rc1 where s: "wharf_str_call line w = Some (w1, rc1)" using 1(2) False l by (cases "wharf_str_call line w") auto
    have c1: "configured c w1" using command [OF 1(3) s] .
    show ?thesis
    proof (cases "rc1 = 0")
      case True
      then have "load_lines rest w1 = Some (w', rc)" using 1(2) False l s by simp
      then show ?thesis using 1(1) [OF False l [symmetric] refl s refl] True c1 by simp
    next
      case f: False
      then show ?thesis using 1(2) False l s c1 by simp
    qed
  qed
qed

lemma main_options_configured: "main_options files opts ifs w = Inr (ifs', w') \<Longrightarrow> configured c w \<Longrightarrow> configured c w'"
proof (induction opts arbitrary: ifs w)
  case (Cons oa opts)
  show ?case
  proof (cases "fst oa = CHR ''r''")
    case True
    then obtain w1 where "wharf_load_from_file (files (snd oa)) w = Some (w1, 0)" "main_options files opts ifs w1 = Inr (ifs', w')"
      using Cons.prems(1) by (auto simp: split_beta split: option.splits if_splits)
    then show ?thesis using Cons.IH Cons.prems(2) load_lines_configured by (auto simp: wharf_load_from_file_def split: option.splits)
  next
    case False
    then show ?thesis using Cons by (auto simp: split_beta split: if_splits)
  qed
qed simp

lemma main_start_configured: "main_start c lookup files opts = Inr (s, ifs, w) \<Longrightarrow> configured c w"
  using main_options_configured [OF _ boot] by (auto simp: main_start_def split: option.splits sum.splits if_splits)

lemma query_rule_known:
  "list_all (\<lambda>r. re_active r \<longrightarrow> known_class (re_tclass r)) rs \<Longrightarrow> known_class d \<Longrightarrow> known_class (query_rule_from d q rs)"
  by (induction rs) auto

lemma query_packet_known: "config_inv c w \<Longrightarrow> known_class (wharf_query_packet w p n)"
  by (auto simp: wharf_query_packet_def wharf_query_rule_def config_inv_def classes_known_def query_rule_known)
    (auto simp: known_class_def)

end
