(* ===== verification/Fec_Properties.thy ===== *)
theory Fec_Properties
  imports Rse_Properties Fec_Stream Fec_Invariant Wharf_Config
begin

text \<open>
  The statements about the erasure booster: recovery of lost packets from the encoder's handler to the decoder's handler, timeouts,
  encapsulation, packet buffers and their bounds, and counters.
\<close>

section \<open>A concrete configuration\<close>

definition demo_wharf :: wharf where
  \<comment> \<open>class 0 has two data packets and one parity packet, and is the default\<close>
  "demo_wharf = fst (the (wharf_set_default_class 0 (fst (the (wharf_set_tclass 0 2 1 3 (wharf_zero demo_h))))))"

definition demo_packet :: "u8 \<Rightarrow> bytes" where
  "demo_packet x j = (if j = 12 then 8 else if j = 13 then 6 else if j = 14 then 0 else x)"

definition demo_stream :: "(bytes \<times> nat) list list" where
  "demo_stream = [[(demo_packet 1, 60), (demo_packet 2, 64)], [(demo_packet 3, 100), (demo_packet 4, 60)]]"

lemma demo_wharf_simps:
  "wharf_query_tclass demo_wharf 0 = Some (Some (2, 1, 3))" "wharf_get_k demo_wharf 0 = Some 2" "default_tclass demo_wharf = 0"
  "fec demo_wharf = set_fec_params 0 2 1 (booster_zero demo_h)" "length (wclasses demo_wharf) = TCLASS_MAX"
  by (simp_all add: demo_wharf_def wharf_set_default_class_def wharf_set_tclass_def set_class_at_def wharf_zero_def
      wharf_query_tclass_def wharf_get_k_def class_at_def in_table_def valid_tclass_def TCLASS_MAX_def TCLASS_NULL_def no_params_def)

lemma demo_fec_ok: "booster_ok demo_h (fec demo_wharf)" "class_params (fec demo_wharf) 0 2 1"
proof -
  show "booster_ok demo_h (fec demo_wharf)"
    using booster_ok_zero [of demo_h] by (simp add: demo_wharf_simps booster_ok_def set_fec_params_def)
  show "class_params (fec demo_wharf) 0 2 1"
    by (simp add: demo_wharf_simps class_params_def set_fec_params_def booster_zero_def FEC_MAX_K_def FEC_MAX_H_def)
qed

lemma enc_at_start: "enc_at c s e cls blk k h ds 0 = enc_at c s e cls blk k h [] 0"
  by (simp add: enc_at_def)

lemma demo_enc_at: "enc_at demo_h s (encoder_zero demo_wharf) 0 0 2 1 ds 0"
  using demo_fec_ok by (simp add: enc_at_def encoder_zero_def enc_params_def demo_wharf_simps(1) enc_fec_def)
    (simp add: demo_wharf_simps set_fec_params_def booster_zero_def buffer_zero_def)

lemma demo_dec_fresh: "fresh_for demo_h (decoder_zero demo_wharf) 0 0 2 1"
  using demo_fec_ok
  by (simp add: fresh_for_def dec_ready_def decoder_zero_def dec_fec_def demo_wharf_simps(2) tclass_state_zero_def)
    (simp add: slot_status_def demo_wharf_simps set_fec_params_def booster_zero_def buffer_zero_def)

lemma demo_frame: "15 \<le> n \<Longrightarrow> n < 1498 \<Longrightarrow> data_frame (frame_of (demo_packet x) n)"
  by (simp add: data_frame_def SIZE_ETHERNET_def FRAME_SIZE_CUTOFF_def load16_def demo_packet_def)

lemma demo_query: "15 \<le> n \<Longrightarrow> wharf_query_packet demo_wharf (demo_packet x) n = 0"
  by (simp add: wharf_query_packet_def is_ipv4_def IPV4_OFFSET_def SIZE_ETHERNET_def IS_IPV4_def demo_packet_def demo_wharf_simps)

lemma demo_stream_ok: "list_all (block_ok demo_h (encoder_zero demo_wharf) 0 2) demo_stream"
  by (simp add: demo_stream_def block_ok_def demo_frame demo_query encoder_zero_def parity_length_def longest_def demo_h_def
      FRAME_SIZE_CUTOFF_def WHARF_TAG_SIZE_def SIZE_ETHERNET_def SIZE_FEC_def)

section \<open>Losses\<close>

text \<open>C1: a stream of packets of one traffic class passes the encoder, a network that loses frames, and the decoder. From every
  block of \<open>k\<close> packets the encoder makes \<open>k + h\<close> frames. If of each block at least \<open>k\<close> frames arrive, in order, whichever they
  are and whatever lies in memory behind them, the decoder forwards exactly the packets of the stream.\<close>

theorem fec_stream_recovered:
  assumes "coder_ready c lookup s" and "0 < FEC_EXTRA_COLS c" and "unat cls \<le> TCLASS_MAX" and "blk < MAX_BLOCK"
    and "enc_at c s e cls blk k h [] 0" and "list_all (block_ok c e cls k) gs"
    and "fresh_for c d cls blk k h"
  shows "\<exists>e' bs. enc_run c lookup s stack (concat gs) e = Inr (e', concat bs) \<and>
    length bs = length gs \<and> list_all (\<lambda>b. length b = k + h) bs \<and>
    (\<forall>cs. list_all2 (survives k) bs cs \<longrightarrow>
      (\<exists>d' out. dec_caps c lookup s (concat cs) d = Inr (d', out) \<and> mset out = mset (map captured_frame (concat gs))))"
proof -
  have at: "enc_at c s e cls blk k h ds 0" for ds by (subst enc_at_start) (rule assms(5))
  from stream_recovered [OF assms(1-4) at assms(6), of stack] show ?thesis
  proof (elim exE conjE)
    fix e' bs
    assume r: "enc_run c lookup s stack (concat gs) e = Inr (e', concat bs)" "length bs = length gs" "list_all (\<lambda>b. length b = k + h) bs"
      and a: "\<forall>d cs. fresh_for c d cls blk k h \<longrightarrow> list_all2 (survives k) bs cs \<longrightarrow>
        (\<exists>d' out. dec_caps c lookup s (concat cs) d = Inr (d', out) \<and> mset out = mset (map captured_frame (concat gs)))"
    show ?thesis using r a [rule_format, OF assms(7)] by (intro exI [of _ e'] exI [of _ bs] conjI allI impI)
  qed
qed

theorem fec_stream_recovered_witness:
  "\<exists>e' b1 b2. enc_run demo_h False demo_coder (\<lambda>_ _. 0) (concat demo_stream) (encoder_zero demo_wharf) = Inr (e', b1 @ b2) \<and>
    (\<forall>c1 c2. survives 2 b1 c1 \<longrightarrow> survives 2 b2 c2 \<longrightarrow>
      (\<exists>d' out. dec_caps demo_h False demo_coder (c1 @ c2) (decoder_zero demo_wharf) = Inr (d', out) \<and>
         mset out = {#frame_of (demo_packet 1) 60, frame_of (demo_packet 2) 64, frame_of (demo_packet 3) 100, frame_of (demo_packet 4) 60#}))"
proof -
  have m: "unat (0 :: tclass_type) \<le> TCLASS_MAX" "0 < MAX_BLOCK" by (simp_all add: MAX_BLOCK_def)
  from fec_stream_recovered [OF demo_coder_ready demo_h_ok(3) m demo_enc_at demo_stream_ok demo_dec_fresh, of "\<lambda>_ _. 0"]
  obtain e' bs where r: "enc_run demo_h False demo_coder (\<lambda>_ _. 0) (concat demo_stream) (encoder_zero demo_wharf) = Inr (e', concat bs)"
    "length bs = 2" "\<And>cs. list_all2 (survives 2) bs cs \<Longrightarrow> \<exists>d' out. dec_caps demo_h False demo_coder (concat cs) (decoder_zero demo_wharf) = Inr (d', out) \<and>
         mset out = mset (map captured_frame (concat demo_stream))"
    by (auto simp: demo_stream_def)
  from r(2) obtain b1 b2 where bs: "bs = [b1, b2]" by (auto simp: length_Suc_conv numeral_2_eq_2)
  have "\<exists>d' out. dec_caps demo_h False demo_coder (c1 @ c2) (decoder_zero demo_wharf) = Inr (d', out) \<and>
      mset out = mset (map captured_frame (concat demo_stream))" if "survives 2 b1 c1" "survives 2 b2 c2" for c1 c2
    using r(3) [of "[c1, c2]"] that bs by simp
  then show ?thesis using r(1) bs by (intro exI [of _ e'] exI [of _ b1] exI [of _ b2]) (simp add: demo_stream_def)
qed

text \<open>C12: a block that has been started but not filled is not kept back: when the alarm has gone off as many times as its
  timeout says, the encoder sends fillers for the missing packets and the parity packets; with \<open>k\<close> of the \<open>k + h\<close> frames
  the decoder forwards the packets of the block, and no fillers.\<close>

theorem fec_timeout_completes_block:
  assumes "coder_ready c lookup s" and "0 < FEC_EXTRA_COLS c" and "group_ok c cls blk k h ds"
    and "enc_at c s e cls blk k h ds m" and "0 < m" and "m < k" and "\<forall>i\<in>{m..<k}. ds ! i = []"
    and "only_pending e cls" and "timeouts e cls = int t" and "0 < t"
  shows "\<exists>e' fs. enc_alarms c lookup s stack t e = Inr (e', fs) \<and> length fs = k - m + h \<and>
    enc_at c s e' cls (Suc blk mod MAX_BLOCK) k h [] 0 \<and>
    (\<forall>fs0 d caps. list_all2 (carries c s cls blk ds) [0..<m] fs0 \<longrightarrow> fresh_for c d cls blk k h \<longrightarrow> survives k (fs0 @ fs) caps \<longrightarrow>
      (\<exists>d' out. dec_caps c lookup s caps d = Inr (d', out) \<and> mset out = mset (nonempty ds)))"
proof -
  obtain t' where t: "t = Suc t'" using assms(10) by (cases t) auto
  have tt: "timeouts e cls = int (Suc t')" using assms(9) t by simp
  from alarms_complete_block [OF assms(1-3,5-7,4,8) tt, of stack] obtain e' fs where
    r: "enc_alarms c lookup s stack t e = Inr (e', fs)" "list_all2 (carries c s cls blk ds) [m..<k + h] fs"
    "enc_at c s e' cls (Suc blk mod MAX_BLOCK) k h [] 0" unfolding t by blast
  have up: "[0..<k + h] = [0..<m] @ [m..<k + h]" using assms(6) upt_add_eq_append [of 0 m "k + h - m"] by simp
  have "\<exists>d' out. dec_caps c lookup s caps d = Inr (d', out) \<and> mset out = mset (nonempty ds)"
    if f: "list_all2 (carries c s cls blk ds) [0..<m] fs0" "fresh_for c d cls blk k h" "survives k (fs0 @ fs) caps" for fs0 d caps
  proof -
    have all: "list_all2 (carries c s cls blk ds) [0..<k + h] (fs0 @ fs)" unfolding up using f(1) r(2) by (rule list_all2_appendI)
    have "subseq (map captured_frame caps) (fs0 @ fs)" "k \<le> length caps" using f(3) by (simp_all add: survives_def)
    then obtain d' out where "dec_caps c lookup s caps d = Inr (d', out)" "mset out = mset (nonempty ds)"
      by (rule arriving_group [OF assms(1-3) f(2) all]) (rule that)
    then show ?thesis by (intro exI conjI)
  qed
  moreover have "length fs = k - m + h" using list_all2_lengthD [OF r(2)] assms(6) by simp
  ultimately show ?thesis using r(1,3) by blast
qed

definition demo_half :: "frame list" where
  "demo_half = [frame_of (demo_packet 1) 60, []]"

lemma demo_half_ok: "group_ok demo_h 0 0 2 1 demo_half"
  by (simp add: demo_half_def group_ok_def demo_frame parity_length_def longest_def demo_h_def
      FRAME_SIZE_CUTOFF_def WHARF_TAG_SIZE_def SIZE_ETHERNET_def SIZE_FEC_def)

theorem fec_timeout_completes_block_witness:
  "\<exists>e f0. enc_my_packet_handler demo_h False demo_coder (\<lambda>_ _. 0) (demo_packet 1) 60 (encoder_zero demo_wharf) = Inr (e, [f0]) \<and>
    (\<exists>e' fs. enc_alarms demo_h False demo_coder (\<lambda>_ _. 0) 3 (e\<lparr>timeouts := (\<lambda>_. 0)(0 := 3)\<rparr>) = Inr (e', fs) \<and> length fs = 2 \<and>
      (\<forall>caps. survives 2 (f0 # fs) caps \<longrightarrow> (\<exists>d' out. dec_caps demo_h False demo_coder caps (decoder_zero demo_wharf) = Inr (d', out) \<and>
         out = [frame_of (demo_packet 1) 60])))"
proof -
  have q: "wharf_query_packet (enc_wharf (encoder_zero demo_wharf)) (demo_packet 1) 60 = 0" by (simp add: encoder_zero_def demo_query)
  have n: "(0 :: tclass_type) \<noteq> TCLASS_NULL" "(0 :: nat) < 2" by (simp_all add: TCLASS_NULL_def)
  have d: "frame_of (demo_packet 1) 60 = demo_half ! 0" "demo_half ! 0 \<noteq> []" by (simp_all add: demo_half_def frame_of_def)
  obtain e f0 where e: "enc_my_packet_handler demo_h False demo_coder (\<lambda>_ _. 0) (demo_packet 1) 60 (encoder_zero demo_wharf) = Inr (e, [f0])"
    "carries demo_h demo_coder 0 0 demo_half 0 f0" "enc_at demo_h demo_coder e 0 0 2 1 demo_half (Suc 0)"
    by (cases rule: encoder_packet [OF demo_coder_ready demo_h_ok(3) demo_half_ok demo_enc_at n(2) q n(1) d, of "\<lambda>_ _. 0"]) auto
  let ?e = "e\<lparr>timeouts := (\<lambda>_. 0)(0 := 3)\<rparr>"
  have at: "enc_at demo_h demo_coder ?e 0 0 2 1 demo_half 1" using e(3) by simp
  have pend: "only_pending ?e 0" "timeouts ?e 0 = int 3" "\<forall>i\<in>{1..<2}. demo_half ! i = []"
    by (simp_all add: only_pending_def TCLASS_MAX_def demo_half_def)
  from fec_timeout_completes_block [OF demo_coder_ready demo_h_ok(3) demo_half_ok at _ _ pend(3,1,2), of "\<lambda>_ _. 0"]
  obtain e' fs where r: "enc_alarms demo_h False demo_coder (\<lambda>_ _. 0) 3 ?e = Inr (e', fs)" "length fs = 2"
    "\<And>fs0 d caps. list_all2 (carries demo_h demo_coder 0 0 demo_half) [0..<1] fs0 \<Longrightarrow> fresh_for demo_h d 0 0 2 1 \<Longrightarrow> survives 2 (fs0 @ fs) caps \<Longrightarrow>
      \<exists>d' out. dec_caps demo_h False demo_coder caps d = Inr (d', out) \<and> mset out = mset (nonempty demo_half)" by auto
  have f0: "list_all2 (carries demo_h demo_coder 0 0 demo_half) [0..<1] [f0]" using e(2) by simp
  have ne: "nonempty demo_half = [frame_of (demo_packet 1) 60]" by (simp add: demo_half_def frame_of_def)
  show ?thesis using e(1) r(1,2) r(3) [OF f0 demo_dec_fresh] by (intro exI conjI) (auto simp: ne)
qed

section \<open>Encapsulation and buffers\<close>

text \<open>C29: the decoder takes off what the encoder put on: stripping a tagged data packet gives back its length and its bytes, with the
  original Ethernet type, wherever the class has more than \<open>i\<close> data packets.\<close>

theorem tag_strip_roundtrip:
  assumes "SIZE_ETHERNET < n" and "n < FRAME_SIZE_CUTOFF" and "n + SIZE_FEC \<le> size_out" and "unat cls < 8"
    and "(of_nat i :: u8) < tc_k (tclasses st cls)"
  shows "\<exists>tagged. wharf_tag_data cls blk i (Some p) n out size_out = (tagged, n + SIZE_FEC, 0) \<and>
    (\<exists>q off. wharf_strip_frame st tagged = Some (q, off, n) \<and> frame_of (ptr_add q off) n = frame_of p n)"
proof -
  have n: "14 \<le> n" "n < 65536" "n \<noteq> 14" using assms(1,2) by (simp_all add: SIZE_ETHERNET_def FRAME_SIZE_CUTOFF_def)
  obtain t where t: "wharf_tag_data cls blk i (Some p) n out size_out = (t, n + SIZE_FEC, 0)"
    "tagged_as t cls blk i (load16 p 12) (of_nat n)" "\<And>j. j < 12 \<Longrightarrow> t j = p j" "\<And>j. 20 \<le> j \<Longrightarrow> j < n + 6 \<Longrightarrow> t j = p (j - 6)"
    by (rule tag_data_result [OF n(1) assms(2,3), of cls blk i p out]) (rule that)
  have k: "(of_nat i :: u8) < tc_k (tclasses st (ucast (ucast cls AND 7 :: u8)))" using assms(5) by (simp add: class_bits_id [OF assms(4)])
  let ?q = "store16 (memcpy t SIZE_FEC t SIZE_ETHERNET) (SIZE_FEC + 12) (load16 p 12)"
  have "frame_of (ptr_add ?q SIZE_FEC) n = frame_of p n"
    using strip_tagged_bytes [of p "load16 p 12" t n, OF refl t(3,4)] by (simp add: frame_of_def)
  then show ?thesis using t(1) strip_data [OF t(2) n(2,3) k] by blast
qed

theorem tag_strip_roundtrip_witness:
  "\<exists>tagged. wharf_tag_data 0 3 1 (Some (demo_packet 7)) 60 (\<lambda>_. 0) 66 = (tagged, 66, 0) \<and>
    (\<exists>q off. wharf_strip_frame (fec demo_wharf) tagged = Some (q, off, 60) \<and> frame_of (ptr_add q off) 60 = frame_of (demo_packet 7) 60)"
  using tag_strip_roundtrip [of 60 66 0 1 "fec demo_wharf" 3 "demo_packet 7" "\<lambda>_. 0"]
  by (simp add: SIZE_ETHERNET_def SIZE_FEC_def FRAME_SIZE_CUTOFF_def demo_wharf_simps set_fec_params_def)

text \<open>A parity packet does not come back with its own length: the tag of a parity packet of \<open>n\<close> bytes holds \<open>n\<close> plus the size
  of the two headers, and stripping reports that number, although only \<open>n\<close> bytes of the frame follow the headers.\<close>

theorem parity_strip_too_long:
  assumes "n < FRAME_SIZE_CUTOFF" and "n + WHARF_TAG_SIZE \<le> size_out" and "unat cls < 8" and "\<not> (of_nat i :: u8) < tc_k (tclasses st cls)"
  shows "\<exists>tagged. wharf_tag_parity cls blk i p n out size_out = (tagged, n + WHARF_TAG_SIZE, 0) \<and>
    wharf_strip_frame st tagged = Some (tagged, WHARF_TAG_SIZE, n + WHARF_TAG_SIZE) \<and> frame_of (ptr_add tagged WHARF_TAG_SIZE) n = frame_of p n"
proof -
  have n: "n + WHARF_TAG_SIZE < 65536" "n + WHARF_TAG_SIZE \<noteq> 14"
    using assms(1) by (simp_all add: FRAME_SIZE_CUTOFF_def WHARF_TAG_SIZE_def SIZE_ETHERNET_def SIZE_FEC_def)
  obtain t where t: "wharf_tag_parity cls blk i p n out size_out = (t, n + WHARF_TAG_SIZE, 0)"
    "tagged_as t cls blk i (htons WHARF_ETHERTYPE) (of_nat (n + WHARF_TAG_SIZE))" "\<And>j. j < n \<Longrightarrow> ptr_add t WHARF_TAG_SIZE j = p j"
    by (rule tag_parity_result [OF assms(1,2), of cls blk i p out]) (rule that)
  have "\<not> (of_nat i :: u8) < tc_k (tclasses st (ucast (ucast cls AND 7 :: u8)))" using assms(4) by (simp add: class_bits_id [OF assms(3)])
  from strip_parity [OF t(2) n this] show ?thesis using t(1,3) by (auto simp: frame_of_def)
qed

theorem parity_strip_too_long_witness:
  "\<exists>tagged. wharf_tag_parity 0 3 2 (demo_packet 9) 66 (\<lambda>_. 0) 86 = (tagged, 86, 0) \<and>
    wharf_strip_frame (fec demo_wharf) tagged = Some (tagged, 20, 86)"
  using parity_strip_too_long [of 66 86 0 2 "fec demo_wharf" 3 "demo_packet 9" "\<lambda>_. 0"]
  by (simp add: SIZE_ETHERNET_def SIZE_FEC_def WHARF_TAG_SIZE_def FRAME_SIZE_CUTOFF_def demo_wharf_simps set_fec_params_def) blast

primrec insert_all :: "(tclass_type \<times> int \<times> nat \<times> nat \<times> u16 \<times> bytes) list \<Rightarrow> booster \<Rightarrow> booster option" where
  \<comment> \<open>insertions one after the other\<close>
  "insert_all [] st = Some st"
| "insert_all (x # xs) st =
     (case x of (cls, port, blk, i, n, p) \<Rightarrow>
        (case insert_into_pkt_buffer cls port blk i n p st of None \<Rightarrow> None | Some (st1, rc) \<Rightarrow> insert_all xs st1))"

lemma insert_all_keeps:
  assumes "in_range port blk i"
  shows "insert_all xs st = Some st' \<Longrightarrow> \<forall>(cls', port', blk', i', n', p')\<in>set xs. \<not> (cls' = cls \<and> port' = port \<and> blk' = blk \<and> i' = i) \<Longrightarrow>
    slot_status st' cls port blk i = slot_status st cls port blk i \<and> slot_mem st' cls port blk i = slot_mem st cls port blk i \<and>
    tc_k (tclasses st' cls) = tc_k (tclasses st cls)"
proof (induction xs arbitrary: st)
  case (Cons x xs)
  obtain cls' port' blk' i' n' p' where x: "x = (cls', port', blk', i', n', p')" by (cases x)
  obtain st1 rc where 1: "insert_into_pkt_buffer cls' port' blk' i' n' p' st = Some (st1, rc)" "insert_all xs st1 = Some st'"
    using Cons.prems(1) by (auto simp: x split: option.splits)
  have ne: "\<not> (cls = cls' \<and> port = port' \<and> blk = blk' \<and> i = i')" using Cons.prems(2) by (auto simp: x)
  have "slot_status st1 cls port blk i = slot_status st cls port blk i \<and> slot_mem st1 cls port blk i = slot_mem st cls port blk i \<and>
    tc_k (tclasses st1 cls) = tc_k (tclasses st cls)"
  proof (cases "valid_port port'")
    case True
    then have st1: "st1 = store_packet cls' port' blk' i' n' p' st" and "in_range port' blk' i'"
      using 1(1) by (auto simp: insert_into_pkt_buffer_def slot_exists_def in_range_def split: if_splits)
    then show ?thesis using store_frame [OF \<open>in_range port' blk' i'\<close> assms ne, of n' p' st] by simp
  next
    case False
    then show ?thesis using 1(1) by (auto simp: insert_into_pkt_buffer_def get_tclass_buffer_def valid_port_def)
  qed
  then show ?case using Cons.IH [OF 1(2)] Cons.prems(2) by simp
qed simp

text \<open>C30: a data packet is inserted if its slot exists and holds it with its length in front, and leaves the packet buffers otherwise. When it is
  inserted it is retrieved later with its size and bytes, whatever else is inserted in between that does not go to its slot and stays in the
  packet buffers.\<close>

theorem insert_retrieve_roundtrip:
  assumes "valid_port port" and "i < unat (tc_k (tclasses st cls))"
  shows "if slot_exists cls blk i \<and> unat n + 2 \<le> PKT_BUF_SZ
    then \<exists>st1. insert_into_pkt_buffer cls port blk i n p st = Some (st1, 0) \<and>
      (\<forall>xs st2. insert_all xs st1 = Some st2 \<longrightarrow>
        (\<forall>(cls', port', blk', i', n', p')\<in>set xs. \<not> (cls' = cls \<and> port' = port \<and> blk' = blk \<and> i' = i)) \<longrightarrow>
        (case retrieve_from_pkt_buffer st2 cls port blk i of (pkt, sz) \<Rightarrow>
           pkt_already_inserted st2 cls port blk i \<and> sz = Some n \<and> frame_of pkt (unat n) = frame_of p (unat n)))
    else insert_into_pkt_buffer cls port blk i n p st = None"
proof (cases "slot_exists cls blk i \<and> unat n + 2 \<le> PKT_BUF_SZ")
  case True
  define st1 where "st1 = store_packet cls port blk i n p st"
  let ?f = "frame_of p (unat n)"
  have ins: "insert_into_pkt_buffer cls port blk i n p st = Some (st1, 0)"
    using True assms unfolding st1_def by (intro insert_fits) (simp_all add: length_prefix_def)
  have h: "slot_holds st1 cls port blk i (prefixed ?f)" using store_holds [OF assms(1), of cls blk i n p st] assms(2) by (simp add: st1_def)
  have r: "in_range port blk i" using True assms(1) by (simp add: in_range_def slot_exists_def)
  have "case retrieve_from_pkt_buffer st2 cls port blk i of (pkt, sz) \<Rightarrow>
      pkt_already_inserted st2 cls port blk i \<and> sz = Some n \<and> frame_of pkt (unat n) = ?f"
    if xs: "insert_all xs st1 = Some st2" "\<forall>(cls', port', blk', i', n', p')\<in>set xs. \<not> (cls' = cls \<and> port' = port \<and> blk' = blk \<and> i' = i)" for xs st2
  proof -
    note keep = insert_all_keeps [OF r xs]
    have k: "i < unat (tc_k (tclasses st2 cls))" using assms(2) keep by (simp add: st1_def)
    have m: "\<forall>j<length ?f + 2. slot_mem st2 cls port blk i j = prefixed ?f ! j" using h keep by (simp add: slot_holds_def)
    have l: "length ?f < 65536" using unsigned_less [of n] by simp
    have "pkt_already_inserted st2 cls port blk i"
      using h keep assms(1) by (simp add: slot_holds_def pkt_already_inserted_def) (simp add: slot_status_def)
    then show ?thesis using retrieve_prefixed [OF k l m] by (simp add: split_beta)
  qed
  then show ?thesis using True ins by auto
next
  case False
  then show ?thesis using assms by (auto simp: insert_into_pkt_buffer_def length_prefix_def)
qed

theorem insert_retrieve_roundtrip_witness:
  "\<exists>st1. insert_into_pkt_buffer 0 0 4 1 60 (demo_packet 7) (fec demo_wharf) = Some (st1, 0) \<and>
    (\<forall>st2. insert_all [(0, 0, 4, 0, 64, demo_packet 8), (0, 0, 5, 1, 64, demo_packet 9), (3, 2, 4, 1, 64, demo_packet 9)] st1 = Some st2 \<longrightarrow>
      frame_of (fst (retrieve_from_pkt_buffer st2 0 0 4 1)) 60 = frame_of (demo_packet 7) 60) \<and>
    insert_into_pkt_buffer 0 0 4 1 2047 (demo_packet 7) (fec demo_wharf) = None"
proof -
  have v: "valid_port 0" "1 < unat (tc_k (tclasses (fec demo_wharf) 0))" "slot_exists 0 4 1"
    by (simp_all add: valid_port_def demo_wharf_simps set_fec_params_def slot_exists_def NUM_BLOCKS_def TOTAL_NUM_PACKETS_def)
  note ins = insert_retrieve_roundtrip [OF v(1,2), of 4]
  have "insert_into_pkt_buffer 0 0 4 1 2047 (demo_packet 7) (fec demo_wharf) = None" using ins [of 2047] by (simp add: PKT_BUF_SZ_def)
  moreover obtain st1 where st1: "insert_into_pkt_buffer 0 0 4 1 60 (demo_packet 7) (fec demo_wharf) = Some (st1, 0)"
    "\<And>xs st2. insert_all xs st1 = Some st2 \<Longrightarrow> \<forall>(cls', port', blk', i', n', p')\<in>set xs. \<not> (cls' = 0 \<and> port' = 0 \<and> blk' = 4 \<and> i' = 1) \<Longrightarrow>
      frame_of (fst (retrieve_from_pkt_buffer st2 0 0 4 1)) 60 = frame_of (demo_packet 7) 60"
    using ins [of 60 "demo_packet 7"] v(3) by (auto simp: PKT_BUF_SZ_def split_beta)
  ultimately show ?thesis using st1(2) [of "[(0, 0, 4, 0, 64, demo_packet 8), (0, 0, 5, 1, 64, demo_packet 9), (3, 2, 4, 1, 64, demo_packet 9)]"] by auto
qed

section \<open>The programs\<close>

text \<open>C13: whatever packets and alarms the encoder program meets after it has started, block numbers stay below \<open>MAX_BLOCK\<close>,
  frame numbers stay below the \<open>k\<close> of their class, and the classes and rules stay as they were loaded.\<close>

theorem encoder_counters_in_range:
  assumes "main_start c lookup files opts = Inr (s, ifs, w)" and "enc_reach c lookup s w e"
  shows "counters_ok e \<and> (\<exists>st. enc_wharf e = w\<lparr>fec := st\<rparr>) \<and> (\<forall>cls. get_fec_params (enc_fec e) cls = get_fec_params (fec w) cls)"
proof -
  have "buffers_untouched c (fec w)" using configured_inv [OF main_start_configured [OF assms(1)]] by (simp add: config_inv_def)
  then have "enc_inv w (encoder_zero w)"
    by (auto simp: enc_inv_def counters_ok_def counters_def encoder_zero_def enc_fec_def buffers_untouched_def buffer_zero_def MAX_BLOCK_def
        word_neq_0_conv intro: exI [of _ "fec w"])
  from enc_reach_inv [OF assms(2) this] show ?thesis by (simp add: enc_inv_def)
qed

lemma demo_start:
  "main_start demo_h False (\<lambda>_. None) [(CHR ''i'', ''eth0'')] =
    Inr (demo_coder, \<lparr>inputInterface = Some ''eth0'', outputInterface = None\<rparr>, wharf_zero demo_h)"
  using rse_init_ready [OF demo_h_ok(1,2) demo_h_check, of False] by (auto simp: main_start_def demo_coder_def)

theorem encoder_counters_in_range_witness:
  "\<exists>e. enc_my_packet_handler demo_h False demo_coder (\<lambda>_ _. 0) (demo_packet 1) 60 (encoder_zero (wharf_zero demo_h)) =
      Inr (e, [frame_of (demo_packet 1) 60]) \<and> counters_ok e"
proof -
  have r: "enc_my_packet_handler demo_h False demo_coder (\<lambda>_ _. 0) (demo_packet 1) 60 (encoder_zero (wharf_zero demo_h)) =
      Inr (encoder_zero (wharf_zero demo_h), [frame_of (demo_packet 1) 60])"
    by (simp add: enc_my_packet_handler_def encoder_zero_def wharf_query_packet_def is_ipv4_def IPV4_OFFSET_def SIZE_ETHERNET_def IS_IPV4_def
        demo_packet_def wharf_zero_def forward_frame_def)
  have "enc_reach demo_h False demo_coder (wharf_zero demo_h) (encoder_zero (wharf_zero demo_h))"
    using enc_reach.step [OF enc_reach.start enc_step.captured [OF r]] .
  from encoder_counters_in_range [OF demo_start this] show ?thesis using r by blast
qed

lemma strip_size:
  assumes "htons (load16 p 12) = WHARF_ETHERTYPE"
  shows "\<exists>q off. wharf_strip_frame st p = Some (q, off,
    if hdr_packet_len (get_fec_header p SIZE_ETHERNET) = 14 then 0 else unat (hdr_packet_len (get_fec_header p SIZE_ETHERNET)))"
proof -
  have t: "\<not> htons WHARF_ETHERTYPE \<noteq> load16 p 12" using arg_cong [OF assms, of htons] by simp
  have l: "unat (hdr_packet_len (get_fec_header p SIZE_ETHERNET)) = SIZE_ETHERNET \<longleftrightarrow> hdr_packet_len (get_fec_header p SIZE_ETHERNET) = 14"
    by (simp add: SIZE_ETHERNET_def word_unat_eq_iff)
  show ?thesis unfolding wharf_strip_frame_def if_not_P [OF t] Let_def l by simp
qed

lemma one_packet_no_decode:
  assumes "\<And>j. j < k + h \<Longrightarrow> slot_status st cls DEFAULT_PORT blk j = (if j = i then PACKET_PRESENT else PACKET_ABSENT)"
    and "k = unat (tc_k (tclasses st cls))" and "h = unat (tc_h (tclasses st cls))" and "2 \<le> k"
  shows "\<not> can_decode st cls DEFAULT_PORT blk"
proof -
  have st: "status (buffers (tclasses st cls) 0) blk j = (if j = i then PACKET_PRESENT else PACKET_ABSENT)" if "j < k + h" for j
    using assms(1) [OF that] by (simp add: slot_status_def DEFAULT_PORT_def)
  have "n_missing_data (buffers (tclasses st cls) 0) blk k = card ({..<k} - {i})"
    unfolding n_missing_data_def count_loop [of 0 k, simplified] length_filter_upt using st by (intro arg_cong [of _ _ card]) auto
  moreover have "n_present_parity (buffers (tclasses st cls) 0) blk k h = card ({j. j < h \<and> k + j = i})"
    unfolding n_present_parity_def count_loop length_filter_upt using st by (intro arg_cong [of _ _ card]) (auto split: if_splits)
  moreover have "card {j. j < h \<and> k + j = i} \<le> card (if k \<le> i then {i - k} else {})" by (rule card_mono) auto
  moreover have "card ({..<k} - {i}) = (if k \<le> i then k else k - 1)" by (simp add: card_Diff_singleton_if)
  ultimately have "\<not> n_missing_data (buffers (tclasses st cls) 0) blk k \<le> n_present_parity (buffers (tclasses st cls) 0) blk k h"
    using assms(4) by (cases "k \<le> i") auto
  then show ?thesis unfolding can_decode_def Let_def get_default_buffer option.sel assms(2,3) .
qed

text \<open>C20: what a frame from outside can do to the decoder, for the first frame of a block of at least two data packets: the handler returns exactly
  if the class of the tag is in the table of classes, the index of the tag and the packets of a block of the class are in the packet buffers,
  and the stripped frame, with its length in front if it is a data packet, fits into its slot. Otherwise
  the program leaves the bounds of its arrays: nothing else is looked at.\<close>

theorem decoder_in_bounds_iff:
  assumes "length (wclasses (dec_wharf d)) = TCLASS_MAX" and "htons (load16 p 12) = WHARF_ETHERTYPE"
    and "tag = get_fec_header p SIZE_ETHERNET" and "cls = ucast (hdr_class_id tag)" and "i = unat (hdr_index tag)"
    and "starts_block d cls (unat (hdr_block_id tag)) i"
    and "k = unat (tc_k (tclasses (dec_fec d) cls))" and "h = unat (tc_h (tclasses (dec_fec d) cls))" and "2 \<le> k"
    and "len = (if hdr_packet_len tag = 14 then 0 else unat (hdr_packet_len tag))"
  shows "if unat cls < TCLASS_MAX \<and> i < TOTAL_NUM_PACKETS \<and> k + h \<le> TOTAL_NUM_PACKETS \<and> (if i < k then 2 else 0) + len \<le> PKT_BUF_SZ
    then \<exists>d' out. dec_my_packet_handler c lookup s p n d = Inr (d', out)
    else dec_my_packet_handler c lookup s p n d = Inl Out_Of_Bounds"
proof -
  let ?blk = "unat (hdr_block_id tag)"
  define d2 where "d2 = set_tclass_state cls (\<lambda>t. t\<lparr>lastPacketIdx := int i\<rparr>)
    (set_tclass_state cls (\<lambda>t. t\<lparr>forwarded := False\<rparr>) (reset_decoder cls ?blk d))"
  have d2: "dec_fec d2 = mark_pkts_absent cls DEFAULT_PORT ?blk (dec_fec d)" "wharf_get_k (dec_wharf d2) = wharf_get_k (dec_wharf d)"
    by (simp_all add: d2_def fun_eq_iff)
  obtain q off where strip: "wharf_strip_frame (dec_fec d2) p = Some (q, off, len)"
    using strip_size [OF assms(2), of "dec_fec d2"] unfolding assms(10,3) by blast
  have par: "unat (tc_k (tclasses (dec_fec d2) cls)) = k" "unat (tc_h (tclasses (dec_fec d2) cls)) = h"
    using mark_pkts_absent_slots(3,4) [OF valid_default_port] by (simp_all add: d2 assms(7,8))
  have len: "unat (of_nat len :: u16) = len"
  proof -
    have "unat (hdr_packet_len tag) < 65536" using unsigned_less [of "hdr_packet_len tag"] by simp
    then have "len < 65536" using assms(10) by simp
    then show ?thesis by (simp add: unat_of_nat take_bit_eq_mod)
  qed
  have blk: "?blk < NUM_BLOCKS" using unat_u8_less [of "hdr_block_id tag"] by (simp add: NUM_BLOCKS_def)
  have eth: "\<not> WHARF_ETHERTYPE \<noteq> htons (load16 p 12)" using assms(2) by simp
  have getk: "unat cls < TCLASS_MAX \<Longrightarrow> \<exists>k'. wharf_get_k (dec_wharf d) cls = Some k'" "unat cls = TCLASS_MAX \<Longrightarrow> wharf_get_k (dec_wharf d) cls = None"
  proof -
    have u: "uint cls < int TCLASS_MAX \<longleftrightarrow> unat cls < TCLASS_MAX" by (metis uint_nat of_nat_less_iff)
    show "unat cls < TCLASS_MAX \<Longrightarrow> \<exists>k'. wharf_get_k (dec_wharf d) cls = Some k'" "unat cls = TCLASS_MAX \<Longrightarrow> wharf_get_k (dec_wharf d) cls = None"
      using assms(1) by (simp_all add: wharf_get_k_def class_at_def in_table_def u)
  qed
  have skip: "\<not> (\<not> starts_block d cls ?blk i \<and> forwarded (dec_classes d cls))" using assms(6) by simp
  note run = dec_my_packet_handler_def [of c lookup s p n d, unfolded Let_def if_not_P [OF eth] assms(3,4,5) [symmetric] starts_block_def [symmetric]
      if_P [OF assms(6)] if_not_P [OF skip] d2_def [symmetric] strip option.case prod.case d2(2)]
  have st: "slot_status (dec_fec d2) cls DEFAULT_PORT ?blk j = PACKET_ABSENT" if "j < TOTAL_NUM_PACKETS" for j
    using that by (simp add: d2(1) mark_pkts_absent_slots(1))
  show ?thesis
  proof (cases "unat cls < TCLASS_MAX \<and> i < TOTAL_NUM_PACKETS")
    case False
    then consider "TCLASS_MAX < unat cls" | "unat cls = TCLASS_MAX" | "unat cls < TCLASS_MAX" "TOTAL_NUM_PACKETS \<le> i" by linarith
    then have "dec_my_packet_handler c lookup s p n d = Inl Out_Of_Bounds"
    proof cases
      case 3
      then obtain k' where "wharf_get_k (dec_wharf d) cls = Some k'" using getk(1) by blast
      then show ?thesis using 3 by (simp add: run buffer_packet_def)
    qed (simp_all add: run getk(2))
    then show ?thesis using False by auto
  next
    case True
    then obtain k' where k': "wharf_get_k (dec_wharf d) cls = Some k'" using getk(1) by blast
    define d3 where "d3 = set_dec_fec (store_packet cls DEFAULT_PORT ?blk i (of_nat len) (ptr_add q off) (dec_fec d2))
      (set_tclass_state cls (\<lambda>t. t\<lparr>nothing_to_decode := False\<rparr>) d2)"
    have buf: "buffer_packet cls ?blk i len (ptr_add q off) d2 = (if (if i < k then 2 else 0) + len \<le> PKT_BUF_SZ then Some d3 else None)"
      using True blk st [of i] par(1) len
      by (simp add: buffer_packet_def pkt_already_inserted_def slot_status_def insert_into_pkt_buffer_def slot_exists_def length_prefix_def d3_def)
    have "\<not> can_decode (dec_fec d3) cls DEFAULT_PORT ?blk" if fit: "k + h \<le> TOTAL_NUM_PACKETS"
    proof (rule one_packet_no_decode [where i = i and k = k and h = h])
      fix j assume j: "j < k + h"
      have r: "in_range DEFAULT_PORT ?blk i" "in_range DEFAULT_PORT ?blk j" using True blk j fit by (simp_all add: in_range_def)
      show "slot_status (dec_fec d3) cls DEFAULT_PORT ?blk j = (if j = i then PACKET_PRESENT else PACKET_ABSENT)"
        using store_frame(1) [OF r, of cls cls] store_holds [OF valid_default_port, of cls ?blk i] st [of j] j fit
        by (auto simp: d3_def slot_holds_def)
    qed (use par assms(9) in \<open>simp_all add: d3_def\<close>)
    then show ?thesis using True par by (auto simp: run k' buf d3_def split_beta)
  qed
qed

theorem decoder_in_bounds_iff_witness:
  "(\<exists>d' out. dec_my_packet_handler demo_h False demo_coder ((demo_packet 0)(12 := 8, 13 := 0x1C, 14 := 3, 15 := 1, 18 := 60)) 66 (decoder_zero demo_wharf) = Inr (d', out)) \<and>
   dec_my_packet_handler demo_h False demo_coder ((demo_packet 0)(12 := 8, 13 := 0x1C, 14 := 3, 15 := 200, 18 := 60)) 66 (decoder_zero demo_wharf) = Inl Out_Of_Bounds \<and>
   dec_my_packet_handler demo_h False demo_coder ((demo_packet 0)(12 := 8, 13 := 0x1C, 14 := 3, 15 := 1, 18 := 60, 19 := 8)) 66 (decoder_zero demo_wharf) = Inl Out_Of_Bounds"
proof -
  let ?p = "\<lambda>i l. (demo_packet 0)(12 := 8, 13 := 0x1C, 14 := 3, 15 := i, 18 := 60, 19 := l)"
  have w: "length (wclasses (dec_wharf (decoder_zero demo_wharf))) = TCLASS_MAX" by (simp add: decoder_zero_def demo_wharf_simps)
  have t: "htons (load16 (?p i l) 12) = WHARF_ETHERTYPE" for i l by (simp add: load16_def htons_def WHARF_ETHERTYPE_def)
  have tag: "get_fec_header (?p i l) SIZE_ETHERNET = \<lparr>hdr_block_id = 3, hdr_class_id = 0, hdr_index = i, hdr_orig_ethertype = 0,
      hdr_packet_len = 60 OR push_bit 8 (ucast l)\<rparr>" for i l
    by (simp add: get_fec_header_def SIZE_ETHERNET_def load16_def demo_packet_def)
  have z: "starts_block (decoder_zero demo_wharf) 0 3 i" for i by (simp add: starts_block_def decoder_zero_def tclass_state_zero_def)
  have k: "unat (tc_k (tclasses (dec_fec (decoder_zero demo_wharf)) 0)) = 2" "unat (tc_h (tclasses (dec_fec (decoder_zero demo_wharf)) 0)) = 1"
    by (simp_all add: decoder_zero_def dec_fec_def demo_wharf_simps set_fec_params_def)
  note iff = decoder_in_bounds_iff [OF w t tag [symmetric] refl refl _ refl refl _ refl, unfolded k, simplified z, simplified]
  have z0: "?p i 0 = (demo_packet 0)(12 := 8, 13 := 0x1C, 14 := 3, 15 := i, 18 := 60)" for i by (auto simp: demo_packet_def)
  show ?thesis
    using iff [of 1 0 demo_h False demo_coder 66] iff [of 200 0 demo_h False demo_coder 66] iff [of 1 8 demo_h False demo_coder 66]
    by (simp add: z z0 k TCLASS_MAX_def TOTAL_NUM_PACKETS_def PKT_BUF_SZ_def)
qed



section \<open>The forwarder that drops packets\<close>

lemma non_run_length:
  "0 \<le> drop_count st \<Longrightarrow> drop_count st \<le> 8 \<Longrightarrow> \<exists>st' out. pcap_run non_my_packet_handler non_booster_timeout_handler (map (\<lambda>p. Captured (fst p) (snd p)) ps) st = Inr (st', out) \<and>
    subseq out (map captured_frame ps) \<and> 9 * (int (length ps) - int (length out)) + drop_count st = int (length ps) + drop_count st' \<and>
    0 \<le> drop_count st' \<and> drop_count st' \<le> 8"
proof (induction ps arbitrary: st)
  case (Cons p ps)
  show ?case
  proof (cases "drop_count st = 0")
    case True
    let ?st = "st\<lparr>packets_so_far := signed_take_bit 31 (packets_so_far st + 1), drop_count := 8\<rparr>"
    have h: "non_my_packet_handler (fst p) (snd p) st = Inr (?st, [])" by (simp add: non_my_packet_handler_def True WHARF_DROP_AFTER_def Let_def)
    from Cons.IH [of ?st] obtain st' out where "pcap_run non_my_packet_handler non_booster_timeout_handler (map (\<lambda>p. Captured (fst p) (snd p)) ps) ?st = Inr (st', out)"
      "subseq out (map captured_frame ps)" "9 * (int (length ps) - int (length out)) + 8 = int (length ps) + drop_count st'"
      "0 \<le> drop_count st'" "drop_count st' \<le> 8" by auto
    then show ?thesis using h True by auto
  next
    case False
    let ?st = "st\<lparr>packets_so_far := signed_take_bit 31 (packets_so_far st + 1), drop_count := drop_count st - 1\<rparr>"
    have h: "non_my_packet_handler (fst p) (snd p) st = Inr (?st, [captured_frame p])"
      using False by (simp add: non_my_packet_handler_def WHARF_DROP_AFTER_def forward_frame_def Let_def)
    from Cons.IH [of ?st] Cons.prems False obtain st' out where "pcap_run non_my_packet_handler non_booster_timeout_handler (map (\<lambda>p. Captured (fst p) (snd p)) ps) ?st = Inr (st', out)"
      "subseq out (map captured_frame ps)" "9 * (int (length ps) - int (length out)) + (drop_count st - 1) = int (length ps) + drop_count st'"
      "0 \<le> drop_count st'" "drop_count st' \<le> 8" by auto
    then show ?thesis using h by (intro exI [of _ st'] exI [of _ "captured_frame p # out"]) auto
  qed
qed simp

text \<open>C33: the forwarder that the tests put between encoder and decoder drops one packet in nine: of a block of \<open>k + h\<close> frames with
  \<open>k + h \<le> 9 * h\<close> at least \<open>k\<close> are forwarded, in order, which is what the decoder needs.\<close>

theorem dropper_stays_recoverable:
  assumes "0 \<le> drop_count st" and "drop_count st \<le> WHARF_DROP_AFTER" and "length ps = k + h" and "k + h \<le> 9 * h"
  shows "\<exists>st' out. pcap_run non_my_packet_handler non_booster_timeout_handler (map (\<lambda>p. Captured (fst p) (snd p)) ps) st = Inr (st', out) \<and>
    subseq out (map captured_frame ps) \<and> k \<le> length out \<and> 0 \<le> drop_count st' \<and> drop_count st' \<le> WHARF_DROP_AFTER"
proof -
  obtain st' out where r: "pcap_run non_my_packet_handler non_booster_timeout_handler (map (\<lambda>p. Captured (fst p) (snd p)) ps) st = Inr (st', out)"
    "subseq out (map captured_frame ps)" "9 * (int (length ps) - int (length out)) + drop_count st = int (length ps) + drop_count st'"
    "0 \<le> drop_count st'" "drop_count st' \<le> 8"
    using non_run_length [of st ps] assms(1,2) by (auto simp: WHARF_DROP_AFTER_def)
  have "int (length ps) \<le> 9 * int h" using of_nat_mono [OF assms(4), where 'a = int] assms(3) by simp
  then have "9 * (int (length ps) - int (length out)) < 9 * (int h + 1)" using r(3,5) assms(1) by presburger
  then have "int (length ps) - int (length out) < int h + 1" by simp
  then have "k \<le> length out" using assms(3) by linarith
  then show ?thesis using r by (auto simp: WHARF_DROP_AFTER_def)
qed

theorem dropper_stays_recoverable_witness:
  "\<exists>st' out. pcap_run non_my_packet_handler non_booster_timeout_handler
     [Captured (demo_packet 1) 60, Captured (demo_packet 2) 60, Captured (demo_packet 3) 60] nonbooster_zero = Inr (st', out) \<and> 2 \<le> length out"
  using dropper_stays_recoverable [of nonbooster_zero "[(demo_packet 1, 60), (demo_packet 2, 60), (demo_packet 3, 60)]" 2 1]
  by (auto simp: nonbooster_zero_def WHARF_DROP_AFTER_def)

text \<open>the program refuses to start on a coder that cannot be initialised, on a rule file that cannot be opened or does not load, on an
  unknown option, and without an input interface.\<close>

theorem main_start_errors:
  assumes "rse_init c lookup (rse_zero c) = Some (s, rc)"
  shows "(rc \<noteq> 0 \<longrightarrow> main_start c lookup files opts = Inl (Exit rc)) \<and>
    (rc = 0 \<longrightarrow> main_start c lookup files [] = Inl (Exit 1) \<and> main_start c lookup files [(CHR ''z'', a)] = Inl Abort \<and>
      (files f = None \<longrightarrow> main_start c lookup files ((CHR ''r'', f) # opts) = Inl Abort) \<and>
      (\<forall>w rc'. files f = Some txt \<longrightarrow> load_lines txt (wharf_zero c) = Some (w, rc') \<longrightarrow> rc' \<noteq> 0 \<longrightarrow>
        main_start c lookup files ((CHR ''r'', f) # opts) = Inl Abort))"
  using assms by (auto simp: main_start_def wharf_load_from_file_def)

theorem main_start_errors_witness:
  "main_start demo_h False (\<lambda>_. None) [] = Inl (Exit 1) \<and> main_start demo_h False (\<lambda>_. None) [(CHR ''r'', ''rules''), (CHR ''i'', ''eth0'')] = Inl Abort"
proof -
  obtain s where "rse_init demo_h False (rse_zero demo_h) = Some (s, 0)" using rse_init_ready [OF demo_h_ok(1,2) demo_h_check] by blast
  from main_start_errors [OF this, of "\<lambda>_. None" "[(CHR ''i'', ''eth0'')]" "''z''" "''rules''"] show ?thesis by simp
qed

end
