(* ===== verification/Tables.thy ===== *)
theory Tables
  imports Main
begin

text \<open>
  The interface of the lookup tables of the program. A table maps keys to values; storing an entry either fails
  or changes the map at one key. A bounded table also says when storing succeeds, an erasable one deletes.
  The table of rules of the erasure booster and the cache of the key-value booster
  are interpretations.
\<close>

primrec put_all :: "('k \<Rightarrow> 'v \<Rightarrow> 't \<Rightarrow> 't option) \<Rightarrow> ('k \<times> 'v) list \<Rightarrow> 't \<Rightarrow> 't option" where
  "put_all put [] t = Some t"
| "put_all put (x # xs) t = Option.bind (put (fst x) (snd x) t) (put_all put xs)"

locale map_table =
  fixes inv :: "'t \<Rightarrow> bool"
    and find :: "'t \<Rightarrow> 'k \<Rightarrow> 'v option"
    and put :: "'k \<Rightarrow> 'v \<Rightarrow> 't \<Rightarrow> 't option"
  assumes put_inv: "inv t \<Longrightarrow> put k v t = Some t' \<Longrightarrow> inv t'"
    and find_put: "inv t \<Longrightarrow> put k v t = Some t' \<Longrightarrow> find t' = (find t)(k \<mapsto> v)"
begin

lemma put_all_find:
  "inv t \<Longrightarrow> put_all put xs t = Some t' \<Longrightarrow> inv t' \<and> find t' = find t ++ map_of (rev xs)"
proof (induction xs arbitrary: t)
  case (Cons x xs)
  from Cons.prems(2) obtain t1 where t1: "put (fst x) (snd x) t = Some t1" "put_all put xs t1 = Some t'"
    by (auto simp: bind_eq_Some_conv)
  have "inv t1" "find t1 = (find t)(fst x \<mapsto> snd x)"
    using put_inv [OF Cons.prems(1) t1(1)] find_put [OF Cons.prems(1) t1(1)] by simp_all
  with Cons.IH [OF _ t1(2)] show ?case by (simp add: map_add_assoc [symmetric] map_add_def fun_eq_iff split: option.split)
qed simp

lemma last_put_wins:
  "inv t \<Longrightarrow> put_all put xs t = Some t' \<Longrightarrow> (k, v) \<in> set xs \<Longrightarrow> (\<And>v'. (k, v') \<in> set xs \<Longrightarrow> v' = v) \<Longrightarrow> find t' k = Some v"
proof -
  assume t: "inv t" "put_all put xs t = Some t'" and k: "(k, v) \<in> set xs" "\<And>v'. (k, v') \<in> set xs \<Longrightarrow> v' = v"
  have "map_of (rev xs) k = Some v"
  proof (cases "map_of (rev xs) k")
    case None
    then show ?thesis using k(1) by (auto simp: map_of_eq_None_iff rev_image_eqI)
  next
    case (Some v')
    then show ?thesis using k(2) map_of_SomeD by fastforce
  qed
  then show ?thesis using put_all_find [OF t] by (simp add: map_add_find_right)
qed

end

locale bounded_table = map_table +
  fixes used :: "'t \<Rightarrow> nat" and cap :: nat
  assumes used_put: "inv t \<Longrightarrow> put k v t = Some t' \<Longrightarrow> used t' = (if find t k = None then Suc (used t) else used t)"
    and put_room: "inv t \<Longrightarrow> find t k \<noteq> None \<or> used t < cap \<Longrightarrow> put k v t \<noteq> None"
    and put_full: "inv t \<Longrightarrow> find t k = None \<Longrightarrow> cap \<le> used t \<Longrightarrow> put k v t = None"
begin

lemma put_all_room:
  "inv t \<Longrightarrow> used t + card (fst ` set xs - dom (find t)) \<le> cap \<Longrightarrow> put_all put xs t \<noteq> None"
proof (induction xs arbitrary: t)
  case (Cons x xs)
  let ?k = "fst x"
  have "find t ?k \<noteq> None \<or> used t < cap"
  proof (rule disjCI)
    assume lt: "\<not> used t < cap"
    then have "card (fst ` set (x # xs) - dom (find t)) = 0" using Cons.prems(2) by linarith
    then have "fst ` set (x # xs) - dom (find t) = {}" by (subst (asm) card_0_eq) auto
    then show "find t ?k \<noteq> None" by auto
  qed
  then obtain t1 where t1: "put ?k (snd x) t = Some t1" using put_room [OF Cons.prems(1)] by blast
  have f: "dom (find t1) = insert ?k (dom (find t))" using find_put [OF Cons.prems(1) t1] by simp
  have "used t1 + card (fst ` set xs - dom (find t1)) \<le> used t + card (fst ` set (x # xs) - dom (find t))"
  proof (cases "find t ?k = None")
    case True
    then have "fst ` set (x # xs) - dom (find t) = insert ?k (fst ` set xs - dom (find t1))" unfolding f by auto
    then have "card (fst ` set (x # xs) - dom (find t)) = Suc (card (fst ` set xs - dom (find t1)))" using f by simp
    then show ?thesis using used_put [OF Cons.prems(1) t1] True by simp
  next
    case False
    then have "fst ` set xs - dom (find t1) = fst ` set (x # xs) - dom (find t)" unfolding f by auto
    then show ?thesis using used_put [OF Cons.prems(1) t1] False by simp
  qed
  then have "put_all put xs t1 \<noteq> None" using Cons.IH [OF put_inv [OF Cons.prems(1) t1]] Cons.prems(2) by simp
  then show ?case by (simp add: t1)
qed simp

end

text \<open>A table from which entries can be deleted.\<close>

locale erasable_table = map_table +
  fixes del :: "'k \<Rightarrow> 't \<Rightarrow> 't"
  assumes del_inv: "inv t \<Longrightarrow> inv (del k t)"
    and find_del: "inv t \<Longrightarrow> find (del k t) = (find t)(k := None)"
begin

lemma put_after_del: "inv t \<Longrightarrow> put k v (del k t) = Some t' \<Longrightarrow> inv t' \<and> find t' = (find t)(k \<mapsto> v)"
  using put_inv [OF del_inv] find_put [OF del_inv] find_del by (metis fun_upd_upd)

lemma del_unused: "inv t \<Longrightarrow> find t k = None \<Longrightarrow> find (del k t) = find t"
  by (simp add: find_del fun_upd_idem)

end

end
