(* ===== verification/Wharf_Rules.thy ===== *)
theory Wharf_Rules
  imports Wharf_Api Tables
begin

text \<open>
  The table of rules of \<^verbatim>\<open>fecBoosterApi.c\<close>. As long as no rule is deleted it implements a map from port and
  protocol to classes; deletions leave entries that later insertions may overtake.
\<close>

section \<open>The rule that was just set\<close>

abbreviation rule_for :: "u16 \<Rightarrow> bool \<Rightarrow> tclass_type \<Rightarrow> rule_entry" where
  "rule_for port tcp cls \<equiv> \<lparr>re_port = port, re_is_tcp = tcp, re_tclass = cls, re_active = True\<rparr>"

abbreviation query_for :: "u16 \<Rightarrow> bool \<Rightarrow> rule_entry" where
  "query_for port tcp \<equiv> \<lparr>re_port = port, re_is_tcp = tcp, re_tclass = TCLASS_NULL, re_active = False\<rparr>"

lemma query_set_rule:
  "set_rule_from (rule_for port tcp cls) rs = Some rs' \<Longrightarrow> query_rule_from d (query_for port tcp) rs' = cls"
  by (induction rs arbitrary: rs') (auto simp: rules_equal_def split: if_splits)

lemma length_set_rule: "set_rule_from r rs = Some rs' \<Longrightarrow> length rs' = length rs"
  by (induction rs arbitrary: rs') (auto split: if_splits)

lemma length_delete_rule: "delete_rule_from r rs = Some rs' \<Longrightarrow> length rs' = length rs"
  by (induction rs arbitrary: rs') (auto split: if_splits)

section \<open>The table as a map\<close>

definition rule_key :: "rule_entry \<Rightarrow> u16 \<times> bool" where
  "rule_key r = (re_port r, re_is_tcp r)"

definition rules_inv :: "rule_entry list \<Rightarrow> bool" where
  \<comment> \<open>the active rules come first and have different keys\<close>
  "rules_inv rs \<longleftrightarrow> length rs = MAX_RULES \<and> distinct (map rule_key (takeWhile re_active rs)) \<and>
     list_all (\<lambda>r. \<not> re_active r) (dropWhile re_active rs)"

definition find_rule :: "rule_entry list \<Rightarrow> u16 \<times> bool \<Rightarrow> tclass_type option" where
  "find_rule rs = map_of (map (\<lambda>r. (rule_key r, re_tclass r)) (takeWhile re_active rs))"

definition put_rule :: "u16 \<times> bool \<Rightarrow> tclass_type \<Rightarrow> rule_entry list \<Rightarrow> rule_entry list option" where
  "put_rule key cls rs = set_rule_from (rule_for (fst key) (snd key) cls) rs"

lemma rules_equal_key: "rules_equal r r' \<longleftrightarrow> rule_key r = rule_key r'"
  by (simp add: rules_equal_def rule_key_def)

lemma query_find_rule:
  assumes "list_all (\<lambda>r. \<not> re_active r) (dropWhile re_active rs)"
  shows "query_rule_from d (query_for port tcp) rs = (case find_rule rs (port, tcp) of None \<Rightarrow> d | Some cls \<Rightarrow> cls)"
proof -
  have "query_rule_from d q bs = d" if "list_all (\<lambda>r. \<not> re_active r) bs" for bs q
    using that by (induction bs) auto
  moreover have "list_all (\<lambda>r. \<not> re_active r) bs" if "list_all (\<lambda>r. \<not> re_active r) (dropWhile re_active bs)" "\<not> re_active (hd bs)" "bs \<noteq> []" for bs
    using that by (cases bs) simp_all
  ultimately show ?thesis
    using assms by (induction rs) (auto simp: find_rule_def rules_equal_def rule_key_def split: if_splits)
qed

lemma set_rule_split:
  assumes "list_all re_active as" and "list_all (\<lambda>r. \<not> re_active r) bs"
  shows "set_rule_from (rule_for p t cls) (as @ bs) =
    (if (p, t) \<in> rule_key ` set as
     then Some (takeWhile (\<lambda>r. rule_key r \<noteq> (p, t)) as @ rule_for p t cls # tl (dropWhile (\<lambda>r. rule_key r \<noteq> (p, t)) as) @ bs)
     else if bs = [] then None else Some (as @ rule_for p t cls # tl bs))"
  using assms
proof (induction as)
  case Nil
  then show ?case by (cases bs) (auto simp: rules_equal_key)
qed (auto simp: rules_equal_key rule_key_def)

lemma takeWhile_split: "list_all P as \<Longrightarrow> list_all (\<lambda>r. \<not> P r) bs \<Longrightarrow> takeWhile P (as @ bs) = as \<and> dropWhile P (as @ bs) = bs"
  by (induction as) (auto simp: takeWhile_eq_all_conv list_all_iff, (cases bs; simp)+)

lemma rules_invE:
  assumes "rules_inv rs"
  obtains as bs where "rs = as @ bs" and "list_all re_active as" and "list_all (\<lambda>r. \<not> re_active r) bs"
    and "distinct (map rule_key as)" and "length as + length bs = MAX_RULES" and "takeWhile re_active rs = as"
proof
  show "rs = takeWhile re_active rs @ dropWhile re_active rs" by simp
  show "list_all re_active (takeWhile re_active rs)" by (auto simp: list_all_iff dest: set_takeWhileD)
  show "length (takeWhile re_active rs) + length (dropWhile re_active rs) = MAX_RULES"
    using assms by (simp add: rules_inv_def flip: length_append)
qed (use assms in \<open>simp_all add: rules_inv_def\<close>)

lemma rules_invI:
  assumes "list_all re_active as" and "list_all (\<lambda>r. \<not> re_active r) bs" and "distinct (map rule_key as)"
    and "length as + length bs = MAX_RULES"
  shows "rules_inv (as @ bs)" and "find_rule (as @ bs) = map_of (map (\<lambda>r. (rule_key r, re_tclass r)) as)"
  using takeWhile_split [OF assms(1,2)] assms by (simp_all add: rules_inv_def find_rule_def)

text \<open>Storing a rule either replaces the active rule with its key or takes the first free entry.\<close>

lemma put_rule_cases:
  assumes inv: "rules_inv rs"
  obtains (replace) xs r ys where "takeWhile re_active rs = xs @ r # ys" and "rule_key r = key"
      and "put_rule key cls rs = Some (xs @ rule_for (fst key) (snd key) cls # ys @ dropWhile re_active rs)"
  | (append) "find_rule rs key = None" and "dropWhile re_active rs \<noteq> []"
      and "put_rule key cls rs = Some (takeWhile re_active rs @ rule_for (fst key) (snd key) cls # tl (dropWhile re_active rs))"
  | (full) "find_rule rs key = None" and "dropWhile re_active rs = []" and "put_rule key cls rs = None"
proof -
  from inv obtain as bs where ab: "rs = as @ bs" "list_all re_active as" "list_all (\<lambda>r. \<not> re_active r) bs"
    "takeWhile re_active rs = as" by (rule rules_invE)
  then have bs: "dropWhile re_active rs = bs" using takeWhile_split [of re_active as bs] by simp
  note split = set_rule_split [OF ab(2,3), of "fst key" "snd key" cls]
  show thesis
  proof (cases "key \<in> rule_key ` set as")
    case True
    then obtain x where "x \<in> set as" "\<not> (rule_key x \<noteq> key)" by auto
    then obtain r ys where d: "dropWhile (\<lambda>r. rule_key r \<noteq> key) as = r # ys"
      by (cases "dropWhile (\<lambda>r. rule_key r \<noteq> key) as") (auto simp: dropWhile_eq_Nil_conv)
    then have r: "rule_key r = key" using hd_dropWhile [of "\<lambda>r. rule_key r \<noteq> key" as] by simp
    have "as = takeWhile (\<lambda>r. rule_key r \<noteq> key) as @ r # ys" using takeWhile_dropWhile_id [of "\<lambda>r. rule_key r \<noteq> key" as] d by simp
    then show thesis
      using replace [of "takeWhile (\<lambda>r. rule_key r \<noteq> key) as" r ys] r split True d ab bs by (simp add: put_rule_def)
  next
    case False
    then have none: "find_rule rs key = None" using ab(4) by (auto simp: find_rule_def map_of_eq_None_iff)
    have put: "put_rule key cls rs = (if bs = [] then None else Some (as @ rule_for (fst key) (snd key) cls # tl bs))"
      using split False ab(1) by (simp add: put_rule_def)
    show thesis
    proof (cases "bs = []")
      case True
      then show thesis using full none put bs by simp
    next
      case False
      then show thesis using append none put unfolding bs ab(4) by simp
    qed
  qed
qed

lemma put_rule_map:
  assumes inv: "rules_inv rs" and put: "put_rule key cls rs = Some rs'"
  shows "rules_inv rs' \<and> find_rule rs' = (find_rule rs)(key \<mapsto> cls) \<and>
    length (takeWhile re_active rs') = length (takeWhile re_active rs) + (if find_rule rs key = None then 1 else 0)"
proof -
  let ?as = "takeWhile re_active rs" and ?bs = "dropWhile re_active rs" and ?n = "rule_for (fst key) (snd key) cls"
  have as: "list_all re_active ?as" by (auto simp: list_all_iff dest: set_takeWhileD)
  have ab: "distinct (map rule_key ?as)" "list_all (\<lambda>r. \<not> re_active r) ?bs" "length ?as + length ?bs = MAX_RULES"
    using inv by (simp_all add: rules_inv_def flip: length_append)
  have key: "rule_key ?n = key" by (simp add: rule_key_def)
  show ?thesis
  proof (cases rule: put_rule_cases [OF inv, of key cls])
    case (1 xs r ys)
    let ?as' = "xs @ ?n # ys"
    have n: "list_all re_active ?as'" "distinct (map rule_key ?as')" "length ?as' + length ?bs = MAX_RULES"
      using as ab 1(1,2) key by (simp_all add: 1(1))
    have rs': "rs' = ?as' @ ?bs" using put 1(3) by simp
    have ne: "key \<notin> rule_key ` set xs" "key \<notin> rule_key ` set ys" using ab(1) 1(2) by (auto simp: 1(1))
    note I = rules_invI [OF n(1) ab(2) n(2,3)]
    have "map_of (map (\<lambda>r. (rule_key r, re_tclass r)) ?as') = (find_rule rs)(key \<mapsto> cls)"
    proof
      fix k
      show "map_of (map (\<lambda>r. (rule_key r, re_tclass r)) ?as') k = ((find_rule rs)(key \<mapsto> cls)) k"
      proof (cases "k = key")
        case True
        then have "map_of (map (\<lambda>r. (rule_key r, re_tclass r)) xs) k = None" using ne(1) by (auto simp: map_of_eq_None_iff)
        then show ?thesis using key True by (simp add: map_add_def)
      qed (use 1(2) key in \<open>simp add: find_rule_def 1(1) map_add_def split: option.split\<close>)
    qed
    moreover have "find_rule rs key \<noteq> None" using ne(1) 1(2) by (simp add: find_rule_def 1(1) map_of_eq_None_iff)
    ultimately show ?thesis using I takeWhile_split [OF n(1) ab(2)] 1(1) by (simp add: rs')
  next
    case 2
    obtain r bs where bs: "?bs = r # bs" using 2(2) by (cases ?bs) auto
    let ?as' = "?as @ [?n]"
    have "key \<notin> rule_key ` set ?as" using 2(1) by (simp add: find_rule_def map_of_eq_None_iff image_image)
    then have n: "list_all re_active ?as'" "distinct (map rule_key ?as')" "length ?as' + length bs = MAX_RULES" "list_all (\<lambda>r. \<not> re_active r) bs"
      using as ab key bs by simp_all
    have rs': "rs' = ?as' @ bs" using put 2(3) bs by simp
    note I = rules_invI [OF n(1,4,2,3)]
    have "map_of (map (\<lambda>r. (rule_key r, re_tclass r)) ?as') = (find_rule rs)(key \<mapsto> cls)"
      using 2(1) key by (auto simp: find_rule_def map_add_def fun_eq_iff split: option.split)
    then show ?thesis using I takeWhile_split [OF n(1,4)] 2(1) unfolding rs' by simp
  next
    case 3
    then show ?thesis using put by simp
  qed
qed

interpretation rules: bounded_table rules_inv find_rule put_rule "\<lambda>rs. length (takeWhile re_active rs)" MAX_RULES
proof
  fix rs key cls rs'
  assume inv: "rules_inv rs"
  have len: "length (takeWhile re_active rs) + length (dropWhile re_active rs) = MAX_RULES"
    using inv by (simp add: rules_inv_def flip: length_append)
  show "rules_inv rs'" "find_rule rs' = (find_rule rs)(key \<mapsto> cls)"
    "length (takeWhile re_active rs') = (if find_rule rs key = None then Suc (length (takeWhile re_active rs)) else length (takeWhile re_active rs))"
    if "put_rule key cls rs = Some rs'" using put_rule_map [OF inv that] by simp_all
  show "put_rule key cls rs \<noteq> None" if "find_rule rs key \<noteq> None \<or> length (takeWhile re_active rs) < MAX_RULES"
    using that len by (cases rule: put_rule_cases [OF inv, of key cls]) auto
  show "put_rule key cls rs = None" if none: "find_rule rs key = None" and full: "MAX_RULES \<le> length (takeWhile re_active rs)"
  proof (cases rule: put_rule_cases [OF inv, of key cls])
    case (1 xs r ys)
    then show ?thesis using none by (auto simp: find_rule_def map_of_eq_None_iff)
  next
    case 2
    have "length (dropWhile re_active rs) = 0" using full len by linarith
    then show ?thesis using 2(2) by (simp del: dropWhile_eq_Nil_conv)
  qed
qed

lemma rules_inv_zero: "rules_inv (wrules (wharf_zero c))" "find_rule (wrules (wharf_zero c)) = (\<lambda>_. None)"
  by (simp_all add: rules_inv_def find_rule_def wharf_zero_def no_rule_def MAX_RULES_def numeral_eq_Suc)

section \<open>Sequences of rules\<close>

primrec set_rules :: "((u16 \<times> bool) \<times> tclass_type) list \<Rightarrow> wharf \<Rightarrow> (wharf \<times> int) option" where
  \<comment> \<open>\<open>wharf_set_rule\<close> for each rule of a list until one fails\<close>
  "set_rules [] w = Some (w, 0)"
| "set_rules (r # rs) w =
     (case wharf_set_rule (snd r) (fst (fst r)) (snd (fst r)) w of
        None \<Rightarrow> None
      | Some (w1, rc) \<Rightarrow> if rc \<noteq> 0 then Some (w1, rc) else set_rules rs w1)"

lemma set_rule_put:
  "valid_tclass w (uint cls) = Some True \<Longrightarrow> wharf_set_rule cls port tcp w =
    Some (case put_rule (port, tcp) cls (wrules w) of None \<Rightarrow> (w, - 1) | Some rs \<Rightarrow> (w\<lparr>wrules := rs\<rparr>, 0))"
  by (simp add: wharf_set_rule_def put_rule_def)

lemma valid_tclass_rules [simp]: "valid_tclass (w\<lparr>wrules := rs\<rparr>) i = valid_tclass w i"
  by (simp add: valid_tclass_def class_at_def in_table_def)

lemma set_rules_put_all:
  "(\<forall>r\<in>set xs. valid_tclass w (uint (snd r)) = Some True) \<Longrightarrow> set_rules xs w = Some (w', 0) \<Longrightarrow>
    \<exists>rs'. put_all put_rule xs (wrules w) = Some rs' \<and> w' = w\<lparr>wrules := rs'\<rparr>"
proof (induction xs arbitrary: w)
  case (Cons x xs)
  obtain key cls where x: "x = (key, cls)" by (cases x)
  obtain rs where rs: "put_rule key cls (wrules w) = Some rs"
    using Cons.prems set_rule_put [of w cls "fst key" "snd key"] by (cases "put_rule key cls (wrules w)") (auto simp: x Let_def)
  then have "set_rules xs (w\<lparr>wrules := rs\<rparr>) = Some (w', 0)"
    using Cons.prems set_rule_put [of w cls "fst key" "snd key"] by (simp add: x)
  from Cons.IH [OF _ this] show ?case using rs Cons.prems(1) by (simp add: x)
qed simp

lemma put_all_set_rules:
  "(\<forall>r\<in>set xs. valid_tclass w (uint (snd r)) = Some True) \<Longrightarrow> put_all put_rule xs (wrules w) = Some rs' \<Longrightarrow>
    set_rules xs w = Some (w\<lparr>wrules := rs'\<rparr>, 0)"
proof (induction xs arbitrary: w)
  case (Cons x xs)
  obtain key cls where x: "x = (key, cls)" by (cases x)
  then obtain rs where rs: "put_rule key cls (wrules w) = Some rs" "put_all put_rule xs rs = Some rs'"
    using Cons.prems(2) by (auto simp: bind_eq_Some_conv)
  from Cons.IH [of "w\<lparr>wrules := rs\<rparr>"] rs(2) Cons.prems(1) have "set_rules xs (w\<lparr>wrules := rs\<rparr>) = Some (w\<lparr>wrules := rs'\<rparr>, 0)" by simp
  then show ?case using rs(1) set_rule_put [of w cls "fst key" "snd key"] Cons.prems(1) by (simp add: x)
qed simp

lemma query_rule_find:
  "rules_inv (wrules w) \<Longrightarrow> wharf_enabled w \<Longrightarrow>
    wharf_query_rule w port tcp = (case find_rule (wrules w) (port, tcp) of None \<Rightarrow> default_tclass w | Some cls \<Rightarrow> cls)"
  unfolding wharf_query_rule_def by (simp add: query_find_rule rules_inv_def)

end
