(* ===== verification/Wharf_Properties.thy ===== *)
theory Wharf_Properties
  imports Wharf_Rules Wharf_Config
begin

text \<open>
  The statements about the control interface: the rule table as a map, its capacity, what a deletion can bring back, the command
  language, the agreement of the tables, and the classification of packets.
\<close>

section \<open>A concrete configuration\<close>

definition demo_symbols :: rse_h where
  "demo_symbols = \<lparr>FEC_M = 8, FEC_N = 256, FEC_MAX_N = 55, FEC_MAX_COLS = 2000, FEC_EXTRA_COLS = 2, fec_errno = (\<lambda>_. -1)\<rparr>"

definition demo_config :: wharf where
  \<comment> \<open>classes 0 and 1 are defined and the booster is enabled\<close>
  "demo_config = wharf_set_enabled True (fst (the (wharf_set_tclass 1 4 2 0 (fst (the (wharf_set_tclass 0 2 1 3
     (wharf_zero demo_symbols)))))))"

lemma demo_config_simps:
  "wharf_enabled demo_config" "default_tclass demo_config = TCLASS_NULL" "wrules demo_config = replicate MAX_RULES no_rule"
  "valid_tclass demo_config 0 = Some True" "valid_tclass demo_config 1 = Some True"
  by (simp_all add: demo_config_def wharf_set_enabled_def wharf_set_tclass_def set_class_at_def wharf_zero_def valid_tclass_def class_at_def in_table_def
      TCLASS_MAX_def TCLASS_NULL_def numeral_eq_Suc)

lemma demo_rules_inv: "rules_inv (wrules demo_config)" "find_rule (wrules demo_config) = (\<lambda>_. None)"
  using rules_inv_zero by (simp_all add: demo_config_simps wharf_zero_def)

section \<open>Rules\<close>

text \<open>C9: starting from an empty table, setting rules one after the other implements updates of a map from port and protocol to
  classes: a query returns the class of the last rule for the port and protocol, or the default class.\<close>

theorem set_rules_refine_map:
  assumes "rules_inv (wrules w)" and "find_rule (wrules w) = (\<lambda>_. None)" and "wharf_enabled w"
    and "\<forall>r\<in>set rs. valid_tclass w (uint (snd r)) = Some True" and "set_rules rs w = Some (w', 0)"
  shows "rules_inv (wrules w') \<and> find_rule (wrules w') = map_of (rev rs) \<and>
    (\<forall>port tcp. wharf_query_rule w' port tcp = (case map_of (rev rs) (port, tcp) of None \<Rightarrow> default_tclass w | Some cls \<Rightarrow> cls))"
proof -
  obtain rs' where r: "put_all put_rule rs (wrules w) = Some rs'" "w' = w\<lparr>wrules := rs'\<rparr>" using set_rules_put_all [OF assms(4,5)] by blast
  have "rules_inv rs' \<and> find_rule rs' = find_rule (wrules w) ++ map_of (rev rs)" by (rule rules.put_all_find [OF assms(1) r(1)])
  then have "rules_inv rs'" "find_rule rs' = map_of (rev rs)" using assms(2) by (simp_all add: map_add_def fun_eq_iff split: option.split)
  moreover have "default_tclass w' = default_tclass w" "wrules w' = rs'" "wharf_enabled w'" using assms(3) by (simp_all add: r(2))
  ultimately show ?thesis using query_rule_find [of w'] by (simp split: option.split)
qed

theorem set_rules_refine_map_witness:
  "\<exists>w'. set_rules [((80, True), 0), ((53, False), 1), ((80, True), 1)] demo_config = Some (w', 0) \<and>
    wharf_query_rule w' 80 True = 1 \<and> wharf_query_rule w' 53 False = 1 \<and> wharf_query_rule w' 80 False = TCLASS_NULL"
proof -
  let ?rs = "[((80, True), 0), ((53, False), 1), ((80, True), 1)] :: ((u16 \<times> bool) \<times> tclass_type) list"
  have v: "\<forall>r\<in>set ?rs. valid_tclass demo_config (uint (snd r)) = Some True" using demo_config_simps by simp
  obtain w' where w': "set_rules ?rs demo_config = Some (w', 0)"
    using demo_config_simps by (simp add: wharf_set_rule_def MAX_RULES_def numeral_eq_Suc no_rule_def rules_equal_def)
  from set_rules_refine_map [OF demo_rules_inv demo_config_simps(1) v w'] have
    q: "wharf_query_rule w' port tcp = (case map_of (rev ?rs) (port, tcp) of None \<Rightarrow> default_tclass demo_config | Some cls \<Rightarrow> cls)" for port tcp
    by blast
  show ?thesis using w' q [of 80 True] q [of 53 False] q [of 80 False] demo_config_simps(2) by simp
qed

text \<open>The table has room for rules on \<open>MAX_RULES\<close> different ports and protocols, however often each of them is set.\<close>

theorem sixteen_rules_fit:
  assumes "rules_inv (wrules w)" and "find_rule (wrules w) = (\<lambda>_. None)" and "\<forall>r\<in>set rs. valid_tclass w (uint (snd r)) = Some True"
    and "card (fst ` set rs) \<le> MAX_RULES"
  shows "\<exists>w'. set_rules rs w = Some (w', 0)"
proof -
  have used: "length (takeWhile re_active (wrules w)) = 0"
    using arg_cong [OF assms(2), of dom] by (cases "takeWhile re_active (wrules w)") (auto simp: find_rule_def dom_map_of_conv_image_fst)
  have "put_all put_rule rs (wrules w) \<noteq> None" by (rule rules.put_all_room [OF assms(1)]) (use used assms(2,4) in simp)
  then show ?thesis using put_all_set_rules [OF assms(3)] by blast
qed

theorem sixteen_rules_fit_witness:
  "\<exists>w'. set_rules (map (\<lambda>i. ((of_nat (i mod 16), True), 1)) [0..<1000]) demo_config = Some (w', 0)"
proof (rule sixteen_rules_fit [OF demo_rules_inv])
  show "\<forall>r\<in>set (map (\<lambda>i. ((of_nat (i mod 16), True), 1)) [0..<1000]). valid_tclass demo_config (uint (snd r)) = Some True" using demo_config_simps by auto
  have "fst ` set (map (\<lambda>i. ((of_nat (i mod 16) :: u16, True), 1 :: tclass_type)) [0..<1000]) \<subseteq> (\<lambda>i. (of_nat i, True)) ` {..<16}" by auto
  then have "card (fst ` set (map (\<lambda>i. ((of_nat (i mod 16) :: u16, True), 1 :: tclass_type)) [0..<1000])) \<le> card {..<16 :: nat}"
    by (rule surj_card_le [rotated]) simp
  then show "card (fst ` set (map (\<lambda>i. ((of_nat (i mod 16) :: u16, True), 1 :: tclass_type)) [0..<1000])) \<le> MAX_RULES" by (simp add: MAX_RULES_def)
qed

text \<open>A rule that was just set answers the next query, in every state of the table, also after deletions.\<close>

theorem set_then_query:
  assumes "wharf_set_rule cls port tcp w = Some (w', 0)" and "wharf_enabled w"
  shows "wharf_query_rule w' port tcp = cls"
  using assms query_set_rule [of port tcp cls "wrules w" _ "default_tclass w"]
  by (auto simp: wharf_set_rule_def wharf_query_rule_def split: if_splits option.splits)

text \<open>C34: deletions do not implement removal from the map. After rules for two keys are set, the first is deleted, the second is set again and
  deleted, and any other rule is set, the table answers queries for the second key with the class it had before; every one of these calls succeeds.\<close>

theorem deleted_rule_comes_back:
  assumes "rules_inv (wrules w)" and "find_rule (wrules w) = (\<lambda>_. None)" and "wharf_enabled w"
    and "valid_tclass w (uint a) = Some True" and "valid_tclass w (uint b) = Some True" and "distinct [k1, k2, k3]" and "a \<noteq> b"
  shows "\<exists>w1 w2 w3 w4 w5 w6. wharf_set_rule a (fst k1) (snd k1) w = Some (w1, 0) \<and> wharf_set_rule a (fst k2) (snd k2) w1 = Some (w2, 0) \<and>
    wharf_delete_rule a (fst k1) (snd k1) w2 = (w3, 0) \<and> wharf_set_rule b (fst k2) (snd k2) w3 = Some (w4, 0) \<and>
    wharf_query_rule w4 (fst k2) (snd k2) = b \<and>
    wharf_delete_rule b (fst k2) (snd k2) w4 = (w5, 0) \<and> wharf_set_rule a (fst k3) (snd k3) w5 = Some (w6, 0) \<and>
    wharf_query_rule w6 (fst k2) (snd k2) = a"
proof -
  have "length (wrules w) = MAX_RULES" and none: "takeWhile re_active (wrules w) = []"
    using assms(1) arg_cong [OF assms(2), of dom]
    by (simp add: rules_inv_def, cases "takeWhile re_active (wrules w)") (auto simp: find_rule_def dom_map_of_conv_image_fst)
  then obtain r1 r2 rs where w: "wrules w = r1 # r2 # rs" by (auto simp: MAX_RULES_def numeral_eq_Suc length_Suc_conv)
  have inact: "\<not> re_active r1" "\<not> re_active r2" using assms(1) none w by (auto simp: rules_inv_def split: if_splits)
  have ne: "\<not> (fst k1 = fst k2 \<and> snd k1 = snd k2)" "\<not> (fst k2 = fst k3 \<and> snd k2 = snd k3)" using assms(6) by (auto simp: prod_eq_iff)
  let ?r = "\<lambda>cls key. rule_for (fst key) (snd key) cls" and ?w = "\<lambda>x y. w\<lparr>wrules := x # y # rs\<rparr>"
  have put: "wharf_set_rule cls port tcp (?w x y) = Some (?w (rule_for port tcp cls) y, 0)"
    if "valid_tclass w (uint cls) = Some True" "\<not> re_active x" for cls port tcp x y using that by (simp add: wharf_set_rule_def)
  have ww: "w = ?w r1 r2" using w by simp
  have "wharf_set_rule a (fst k1) (snd k1) w = Some (?w (?r a k1) r2, 0)" by (subst ww) (rule put [OF assms(4) inact(1)])
  moreover have "wharf_set_rule a (fst k2) (snd k2) (?w (?r a k1) r2) = Some (?w (?r a k1) (?r a k2), 0)"
    using ne(1) inact(2) assms(4) by (auto simp: wharf_set_rule_def rules_equal_def)
  moreover have "wharf_delete_rule a (fst k1) (snd k1) (?w (?r a k1) (?r a k2)) = (?w ((?r a k1)\<lparr>re_active := False\<rparr>) (?r a k2), 0)"
    by (simp add: wharf_delete_rule_def rules_equal_def)
  moreover have "wharf_set_rule b (fst k2) (snd k2) (?w ((?r a k1)\<lparr>re_active := False\<rparr>) (?r a k2)) = Some (?w (?r b k2) (?r a k2), 0)"
    by (rule put [OF assms(5)]) simp
  moreover have "wharf_delete_rule b (fst k2) (snd k2) (?w (?r b k2) (?r a k2)) = (?w ((?r b k2)\<lparr>re_active := False\<rparr>) (?r a k2), 0)"
    by (simp add: wharf_delete_rule_def rules_equal_def)
  moreover have "wharf_set_rule a (fst k3) (snd k3) (?w ((?r b k2)\<lparr>re_active := False\<rparr>) (?r a k2)) = Some (?w (?r a k3) (?r a k2), 0)"
    by (rule put [OF assms(4)]) simp
  moreover have eq: "rules_equal (?r cls k2) (query_for (fst k2) (snd k2))" "\<not> rules_equal (?r cls k3) (query_for (fst k2) (snd k2))" for cls
    using ne(2) unfolding rules_equal_def rule_entry.simps by (blast, metis)
  then have "wharf_query_rule (?w (?r b k2) (?r a k2)) (fst k2) (snd k2) = b" "wharf_query_rule (?w (?r a k3) (?r a k2)) (fst k2) (snd k2) = a"
    using assms(3) by (simp_all add: wharf_query_rule_def)
  ultimately show ?thesis by (intro exI conjI)
qed

theorem deleted_rule_comes_back_witness:
  "\<exists>w1 w2 w3 w4 w5 w6. wharf_set_rule 0 80 True demo_config = Some (w1, 0) \<and> wharf_set_rule 0 53 False w1 = Some (w2, 0) \<and>
    wharf_delete_rule 0 80 True w2 = (w3, 0) \<and> wharf_set_rule 1 53 False w3 = Some (w4, 0) \<and> wharf_query_rule w4 53 False = 1 \<and>
    wharf_delete_rule 1 53 False w4 = (w5, 0) \<and> wharf_set_rule 0 22 True w5 = Some (w6, 0) \<and> wharf_query_rule w6 53 False = 0"
  using deleted_rule_comes_back [OF demo_rules_inv demo_config_simps(1), of 0 1 "(80, True)" "(53, False)" "(22, True)"] demo_config_simps
  by simp

section \<open>Commands\<close>

text \<open>C21: the \<^verbatim>\<open>SET\<close> command is read back as it was written: for every rule with a port above 0 and a valid class, in a line of a file or
  without the newline, the command is the call that sets the rule.\<close>

theorem set_command_roundtrip:
  assumes "0 < port" and "port < 65536" and "cls < 65536" and "valid_tclass w (int cls) = Some True" and "eol = [] \<or> eol = [CHR 0x0A]"
  shows "wharf_str_call (''SET '' @ show_rule port tcp cls @ eol) w = wharf_set_rule (of_nat cls) (of_nat port) tcp w \<and>
    wharf_set_rule (of_nat cls) (of_nat port) tcp w \<noteq> None"
proof -
  have "strtok (''SET'' @ CHR '' '' # show_rule port tcp cls @ eol) '' '' = (Some ''SET'', show_rule port tcp cls @ eol)"
    by (rule strtok_token(1)) simp_all
  then have cmd: "strtok (''SET '' @ show_rule port tcp cls @ eol) '' '' = (Some ''SET'', show_rule port tcp cls @ eol)" by simp
  have "parse_rule_opts w (show_rule port tcp cls @ eol) True = Some (Some (of_nat port, tcp, Some (of_nat cls)))"
    using assms(5) parse_show_rule [OF assms(1-4), of tcp] by auto
  then have "wharf_str_call (''SET '' @ show_rule port tcp cls @ eol) w = wharf_set_rule (of_nat cls) (of_nat port) tcp w"
    unfolding wharf_str_call_def cmd by (simp add: strcaseeq_def to_upper_def)
  moreover have "uint (of_nat cls :: u16) = int cls" using assms(3) by (simp add: unsigned_of_nat take_bit_nat_eq_self flip: of_nat_take_bit)
  ultimately show ?thesis using assms(4) by (simp add: wharf_set_rule_def)
qed

theorem set_command_roundtrip_witness:
  "wharf_str_call ''SET 8080,1,1'' demo_config = wharf_set_rule 1 8080 True demo_config \<and> wharf_set_rule 1 8080 True demo_config \<noteq> None"
proof -
  have "show_nat 8080 = ''8080''" "show_nat 1 = ''1''" 
    by (simp_all add: show_nat.simps [of 8080] show_nat.simps [of 808] show_nat.simps [of 80] show_nat.simps [of 8] show_nat.simps [of "Suc 0"]
        char_of_def bit_0)
  then have "show_rule 8080 True 1 = ''8080,1,1''" by (simp add: show_rule_def)
  then show ?thesis using set_command_roundtrip [of 8080 1 demo_config "[]" True] demo_config_simps by simp
qed

text \<open>C18: in every configuration that commands can reach without leaving the table of classes, the tables have their sizes, the number of
  data and parity packets of an active class are those the packet buffers work with, and rules and default name classes of the table.\<close>

theorem configured_tables_agree:
  assumes "configured c w"
  shows "length (wrules w) = MAX_RULES \<and> length (wclasses w) = TCLASS_MAX \<and> params_agree w \<and> classes_known w \<and>
    (\<forall>cls k h t. wharf_query_tclass w cls = Some (Some (k, h, t)) \<longrightarrow> get_fec_params (fec w) cls = (k, h))"
  using configured_inv [OF assms] by (auto simp: config_inv_def wharf_query_tclass_def params_agree_def split: if_splits)

lemmas command_simps = wharf_str_call_def strtok_def strcaseeq_def to_upper_def parse_class_opts_def atoi_def strtol10_def is_space_def
  is_digit_def digits_value_def signed_take_bit_eq_if_positive

lemma demo_configured: "configured demo_symbols demo_config"
proof -
  let ?c = demo_symbols
  define w1 where "w1 = fst (the (wharf_set_tclass 0 2 1 3 (wharf_zero ?c)))"
  define w2 where "w2 = fst (the (wharf_set_tclass 1 4 2 0 w1))"
  have "wharf_str_call ''CLASS 0,2,1,3'' (wharf_zero ?c) = Some (w1, 0)"
    by (simp add: w1_def command_simps wharf_set_tclass_def TCLASS_MAX_def set_class_at_def in_table_def wharf_zero_def)
  then have 1: "configured ?c w1" by (rule command [OF boot])
  have "wharf_str_call ''CLASS 1,4,2,0'' w1 = Some (w2, 0)"
    by (simp add: w2_def w1_def command_simps wharf_set_tclass_def TCLASS_MAX_def set_class_at_def in_table_def wharf_zero_def)
  then have 2: "configured ?c w2" by (rule command [OF 1])
  have "wharf_str_call ''ENABLE 1'' w2 = Some (demo_config, 0)" by (simp add: w2_def w1_def demo_config_def command_simps)
  then show ?thesis by (rule command [OF 2])
qed

theorem configured_tables_agree_witness:
  "get_fec_params (fec demo_config) 1 = (4, 2) \<and> length (wrules demo_config) = 16"
proof -
  from configured_tables_agree [OF demo_configured] have
    "wharf_query_tclass demo_config 1 = Some (Some (4, 2, 0)) \<longrightarrow> get_fec_params (fec demo_config) 1 = (4, 2)"
    "length (wrules demo_config) = MAX_RULES" by blast+
  moreover have "wharf_query_tclass demo_config 1 = Some (Some (4, 2, 0))"
    by (simp add: demo_config_def wharf_query_tclass_def wharf_set_enabled_def wharf_set_tclass_def set_class_at_def in_table_def wharf_zero_def
        class_at_def TCLASS_MAX_def)
  ultimately show ?thesis by (simp add: MAX_RULES_def)
qed

text \<open>C26: the guards admit one class too many and negative numbers: in every such configuration, defining or deleting a class leaves the table
  for class \<open>TCLASS_MAX\<close> and for no other, and a command that names a class leaves it for \<open>TCLASS_MAX\<close> and for every negative number.\<close>

theorem class_guards_off_by_one:
  assumes "configured c w"
  shows "(wharf_set_tclass cls k h t w = None \<longleftrightarrow> unat cls = TCLASS_MAX) \<and> (wharf_delete_tclass cls w = None \<longleftrightarrow> unat cls = TCLASS_MAX) \<and>
    (valid_tclass w i = None \<longleftrightarrow> i < 0 \<or> i = int TCLASS_MAX)"
proof -
  have l: "length (wclasses w) = TCLASS_MAX" using configured_inv [OF assms] by (simp add: config_inv_def)
  have "in_table w (uint cls) \<longleftrightarrow> unat cls < TCLASS_MAX" using l by (simp add: in_table_def nat_less_iff flip: nat_uint_eq)
  then show ?thesis using valid_tclass_cases(2) [OF l]
    by (auto simp: wharf_set_tclass_def wharf_delete_tclass_def set_class_at_def class_at_def split: option.splits)
qed

theorem class_guards_off_by_one_witness:
  "wharf_str_call ''CLASS 5,2,1,3'' demo_config = None \<and> wharf_str_call ''SET 80,1,-1'' demo_config = None"
proof -
  note off = class_guards_off_by_one [OF demo_configured]
  have "wharf_str_call ''CLASS 5,2,1,3'' demo_config = wharf_set_tclass 5 2 1 3 demo_config" by (simp add: command_simps)
  moreover have "wharf_set_tclass 5 2 1 3 demo_config = None" using off [of 5 2 1 3 0] by (simp add: TCLASS_MAX_def)
  moreover have "valid_tclass demo_config (- 1) = None" using off [of 5 2 1 3 "- 1"] by simp
  then have "wharf_str_call ''SET 80,1,-1'' demo_config = None" by (simp add: command_simps parse_rule_opts_def)
  ultimately show ?thesis by simp
qed

text \<open>C35: whatever the packet, in a configuration that commands can reach without leaving the table of classes it is classified as a class
  of the table, or as no class.\<close>

theorem packets_classified_in_range:
  assumes "configured c w"
  shows "wharf_query_packet w packet len = TCLASS_NULL \<or> unat (wharf_query_packet w packet len) < TCLASS_MAX"
  using query_packet_known [OF configured_inv [OF assms], of packet len] by (auto simp: known_class_def)

theorem packets_classified_in_range_witness:
  "\<exists>w. wharf_set_rule 1 8080 False demo_config = Some (w, 0) \<and>
    (wharf_query_packet w (\<lambda>_. 0x45) 100 = TCLASS_NULL \<or> unat (wharf_query_packet w (\<lambda>_. 0x45) 100) < 5)"
proof -
  obtain w where w: "wharf_set_rule 1 8080 False demo_config = Some (w, 0)"
    using demo_config_simps by (simp add: wharf_set_rule_def MAX_RULES_def numeral_eq_Suc no_rule_def)
  have "wharf_str_call ''SET 8080,0,1'' demo_config = Some (w, 0)"
    using demo_config_simps by (simp add: command_simps parse_rule_opts_def w)
  then have "configured demo_symbols w" by (rule command [OF demo_configured])
  from packets_classified_in_range [OF this] w show ?thesis by (simp add: TCLASS_MAX_def)
qed

text \<open>A line of a rule file that consists of a command without arguments, such as \<^verbatim>\<open>LIST\<close>, ends with its newline where the parser
  compares the command; it is not recognised and loading stops with an error at that line.\<close>

theorem bare_command_line_fails:
  assumes "cmd \<noteq> []" and "CHR '' '' \<notin> set cmd" and "CHR 0x0A \<notin> set cmd" and "length cmd < 1023"
  shows "wharf_load_from_file (Some (cmd @ CHR 0x0A # rest)) w = Some (w, - 1)"
proof -
  have tw: "takeWhile (\<lambda>ch. ch \<noteq> CHR 0x0A) (cmd @ CHR 0x0A # rest) = cmd" using assms(3) by (simp add: takeWhile_append)
  have line: "fgets 1024 (cmd @ CHR 0x0A # rest) = (cmd @ [CHR 0x0A], rest)" unfolding fgets_def tw using assms(4) by (simp add: Let_def)
  have tok: "strtok (cmd @ [CHR 0x0A]) '' '' = (Some (cmd @ [CHR 0x0A]), [])"
    by (rule strtok_token(2) [of _ _ "CHR '' ''"]) (use assms(2) in \<open>auto simp: list_all_iff\<close>)
  have nl: "to_upper (CHR 0x0A) = CHR 0x0A" by (simp add: to_upper_def)
  have "\<not> strcaseeq (cmd @ [CHR 0x0A]) t" if "CHR 0x0A \<notin> set (map to_upper t)" for t
    using that unfolding strcaseeq_def by (metis in_set_conv_decomp list.simps(9) list.map(1) map_append nl)
  then have "wharf_str_call (cmd @ [CHR 0x0A]) w = Some (w, - 1)" unfolding wharf_str_call_def tok by (simp add: to_upper_def)
  then show ?thesis unfolding wharf_load_from_file_def option.case by (subst load_lines.simps) (simp add: line)
qed

theorem bare_command_line_fails_witness:
  "wharf_load_from_file (Some (''LIST'' @ CHR 0x0A # ''ENABLE 1'')) demo_config = Some (demo_config, - 1)"
  by (rule bare_command_line_fails) simp_all

section \<open>Classification\<close>

lemma ipv4_bit: "IS_IPV4 b \<longleftrightarrow> bit b 2"
  by (simp add: IS_IPV4_def bit_iff_and_push_bit_not_eq_0)

text \<open>The test for IPv4 looks at one bit of the first byte after the Ethernet header, the bit of value 4 in the header length: headers of
  20 bytes of any version pass, IPv4 headers of 32 bytes do not.\<close>

theorem ipv4_test_is_one_bit:
  "(IS_IPV4 b \<longleftrightarrow> bit b 2) \<and> IS_IPV4 0x45 \<and> IS_IPV4 0x65 \<and> \<not> IS_IPV4 0x48"
  unfolding ipv4_bit by (simp add: bit_iff_and_push_bit_not_eq_0)

text \<open>a packet that passes the test and has protocol TCP or UDP gets the class of the rule for its destination port, which is read most
  significant byte first; when the booster is disabled it gets none. Every other packet gets the default class.\<close>

theorem packet_class_by_port:
  assumes "38 \<le> len"
  shows "wharf_query_packet w p len =
    (if \<not> bit (p 14) 2 then default_tclass w
     else if p 23 = 6 then wharf_query_rule w (of_nat (256 * unat (p 36) + unat (p 37))) True
     else if p 23 = 17 then wharf_query_rule w (of_nat (256 * unat (p 36) + unat (p 37))) False
     else default_tclass w)"
proof -
  have "htons (load16 p 36) = of_nat (256 * unat (p 36) + unat (p 37))"
  proof (rule bit_word_eqI)
    fix n assume "n < LENGTH(16)"
    have "(of_nat (256 * unat (p 36) + unat (p 37)) :: u16) = push_bit 8 (ucast (p 36)) + ucast (p 37)" by (simp add: push_bit_eq_mult unsigned_of_nat)
    also have "\<dots> = push_bit 8 (ucast (p 36)) OR ucast (p 37)"
      by (rule disjunctive_add) (auto simp: bit_push_bit_iff bit_unsigned_iff dest: bit_imp_le_length)
    finally show "bit (htons (load16 p 36)) n = bit (of_nat (256 * unat (p 36) + unat (p 37)) :: u16) n"
      by (auto simp: htons_def load16_def bit_or_iff bit_push_bit_iff bit_drop_bit_eq bit_unsigned_iff dest: bit_imp_le_length)
  qed
  then show ?thesis using assms
    by (simp add: wharf_query_packet_def is_ipv4_def is_tcp_def is_udp_def get_port_def ipv4_bit IPV4_OFFSET_def PROTOCOL_OFFSET_def
        PORT_OFFSET_def SIZE_ETHERNET_def TCP_PROTOCOL_def UDP_PROTOCOL_def)
qed

theorem packet_class_by_port_witness:
  "wharf_query_packet (fst (the (wharf_set_rule 1 8080 False demo_config))) ((\<lambda>_. 0)(14 := 0x45, 23 := 17, 36 := 0x1F, 37 := 0x90)) 60 =
   wharf_query_rule (fst (the (wharf_set_rule 1 8080 False demo_config))) 8080 False"
  using packet_class_by_port [of 60 "fst (the (wharf_set_rule 1 8080 False demo_config))" "(\<lambda>_. 0)(14 := 0x45, 23 := 17, 36 := 0x1F, 37 := 0x90)"]
  by (simp add: bit_iff_and_push_bit_not_eq_0)

end
