(* ===== verification/Uthash.thy ===== *)
theory Uthash
  imports Prelude Tables
begin

text \<open>
  The hash table of \<^verbatim>\<open>kvstore/uthash.h\<close>, as far as the key-value cache uses it: lookup, insertion and deletion of
  string keys with Jenkins' hash function and the doubling of the buckets.

  A chain of handles in a bucket and the list of elements in insertion order are lists of
  handles; a handle holds the address of its element, the key, whose bytes are not changed while the element is in the table, and the hash value.
  Memory is never exhausted. The number of buckets is a natural number; the 32 bits of the code
  would need 27 doublings to overflow.
\<close>

section \<open>Data\<close>

definition HASH_INITIAL_NUM_BUCKETS :: nat where "HASH_INITIAL_NUM_BUCKETS = 32"
definition HASH_INITIAL_NUM_BUCKETS_LOG2 :: nat where "HASH_INITIAL_NUM_BUCKETS_LOG2 = 5"
definition HASH_BKT_CAPACITY_THRESH :: nat where "HASH_BKT_CAPACITY_THRESH = 10"

record UT_hash_handle =
  hh_elt :: nat
  hh_key :: string
  hh_hashv :: u32

record UT_hash_bucket =
  chain :: "UT_hash_handle list"
  bcount :: nat
  expand_mult :: nat

record UT_hash_table =
  bkts :: "UT_hash_bucket list"
  num_buckets :: nat
  log2_num_buckets :: nat
  num_items :: nat
  app_order :: "UT_hash_handle list"
  ideal_chain_maxlen :: nat
  nonideal_items :: nat
  ineff_expands :: nat
  noexpand :: bool

definition empty_bucket :: UT_hash_bucket where
  "empty_bucket = \<lparr>chain = [], bcount = 0, expand_mult = 0\<rparr>"

section \<open>The hash function\<close>

definition HASH_JEN_MIX :: "u32 \<times> u32 \<times> u32 \<Rightarrow> u32 \<times> u32 \<times> u32" where
  "HASH_JEN_MIX abc =
     (let (a, b, c) = abc;
          a = (a - b - c) XOR drop_bit 13 c;
          b = (b - c - a) XOR push_bit 8 a;
          c = (c - a - b) XOR drop_bit 13 b;
          a = (a - b - c) XOR drop_bit 12 c;
          b = (b - c - a) XOR push_bit 16 a;
          c = (c - a - b) XOR drop_bit 5 b;
          a = (a - b - c) XOR drop_bit 3 c;
          b = (b - c - a) XOR push_bit 10 a;
          c = (c - a - b) XOR drop_bit 15 b
      in (a, b, c))"

definition key_byte :: "string \<Rightarrow> nat \<Rightarrow> u32" where
  \<comment> \<open>a byte of the key, 0 for the cases of the switch that are not entered\<close>
  "key_byte key i = (if i < length key then of_char (key ! i) else 0)"

definition key_word :: "string \<Rightarrow> nat \<Rightarrow> u32" where
  "key_word key i = key_byte key i + push_bit 8 (key_byte key (i + 1)) + push_bit 16 (key_byte key (i + 2)) + push_bit 24 (key_byte key (i + 3))"

function jen_loop :: "u32 \<times> u32 \<times> u32 \<Rightarrow> string \<Rightarrow> (u32 \<times> u32 \<times> u32) \<times> string" where
  "jen_loop ijh key =
     (if 12 \<le> length key then
        let (i, j, h) = ijh in
        jen_loop (HASH_JEN_MIX (i + key_word key 0, j + key_word key 4, h + key_word key 8)) (drop 12 key)
      else (ijh, key))"
  by pat_completeness auto
termination by (relation "measure (\<lambda>(ijh, key). length key)") auto

declare jen_loop.simps [simp del]

definition HASH_JEN :: "string \<Rightarrow> u32" where
  "HASH_JEN key =
     (let ((i, j, h), rest) = jen_loop (0x9e3779b9, 0x9e3779b9, 0xfeedbeef) key;
          h = h + of_nat (length key);
          h = h + push_bit 24 (key_byte rest 10) + push_bit 16 (key_byte rest 9) + push_bit 8 (key_byte rest 8);
          j = j + push_bit 24 (key_byte rest 7) + push_bit 16 (key_byte rest 6) + push_bit 8 (key_byte rest 5) + key_byte rest 4;
          i = i + push_bit 24 (key_byte rest 3) + push_bit 16 (key_byte rest 2) + push_bit 8 (key_byte rest 1) + key_byte rest 0
      in snd (snd (HASH_JEN_MIX (i, j, h))))"

section \<open>Operations\<close>

definition HASH_TO_BKT :: "u32 \<Rightarrow> nat \<Rightarrow> nat" where
  "HASH_TO_BKT hashv num_bkts = unat (hashv AND (of_nat num_bkts - 1))"

definition HASH_FIND_IN_BKT :: "UT_hash_bucket \<Rightarrow> string \<Rightarrow> u32 \<Rightarrow> UT_hash_handle option" where
  "HASH_FIND_IN_BKT b key hashval =
     List.find (\<lambda>h. hh_hashv h = hashval \<and> length (hh_key h) = length key \<and> hh_key h = key) (chain b)"

definition HASH_FIND_BYHASHVALUE :: "UT_hash_table option \<Rightarrow> string \<Rightarrow> u32 \<Rightarrow> UT_hash_handle option" where
  "HASH_FIND_BYHASHVALUE head key hashval =
     (case head of None \<Rightarrow> None
      | Some tbl \<Rightarrow> HASH_FIND_IN_BKT (bkts tbl ! HASH_TO_BKT hashval (num_buckets tbl)) key hashval)"

definition HASH_FIND_STR :: "UT_hash_table option \<Rightarrow> string \<Rightarrow> UT_hash_handle option" where
  "HASH_FIND_STR head key = HASH_FIND_BYHASHVALUE head key (HASH_JEN key)"

definition expand_item :: "nat \<Rightarrow> nat \<Rightarrow> UT_hash_handle \<Rightarrow> UT_hash_bucket list \<times> nat \<Rightarrow> UT_hash_bucket list \<times> nat" where
  \<comment> \<open>one handle moves to its new bucket; the second component is \<open>nonideal_items\<close>\<close>
  "expand_item num_bkts ideal h bn =
     (let (bs, nonideal) = bn; i = HASH_TO_BKT (hh_hashv h) (num_bkts * 2); b = bs ! i; cnt = bcount b + 1 in
      (bs[i := \<lparr>chain = h # chain b, bcount = cnt, expand_mult = (if cnt > ideal then cnt div ideal else expand_mult b)\<rparr>],
       if cnt > ideal then nonideal + 1 else nonideal))"

definition HASH_EXPAND_BUCKETS :: "UT_hash_table \<Rightarrow> UT_hash_table" where
  "HASH_EXPAND_BUCKETS tbl =
     (let n = num_buckets tbl;
          ideal = num_items tbl div 2 ^ (log2_num_buckets tbl + 1) + (if num_items tbl mod (n * 2) \<noteq> 0 then 1 else 0);
          (bs, nonideal) = fold (expand_item n ideal) (concat (map chain (bkts tbl))) (replicate (2 * n) empty_bucket, 0);
          ineff = (if nonideal > num_items tbl div 2 then ineff_expands tbl + 1 else 0)
      in tbl\<lparr>ideal_chain_maxlen := ideal, nonideal_items := nonideal, num_buckets := n * 2, log2_num_buckets := log2_num_buckets tbl + 1,
             bkts := bs, ineff_expands := ineff, noexpand := (if ineff > 1 then True else noexpand tbl)\<rparr>)"

definition HASH_ADD_TO_BKT :: "nat \<Rightarrow> UT_hash_handle \<Rightarrow> UT_hash_table \<Rightarrow> UT_hash_table" where
  "HASH_ADD_TO_BKT i h tbl =
     (let b = bkts tbl ! i;
          b1 = b\<lparr>chain := h # chain b, bcount := bcount b + 1\<rparr>;
          tbl1 = tbl\<lparr>bkts := (bkts tbl)[i := b1]\<rparr>
      in if bcount b1 \<ge> (expand_mult b1 + 1) * HASH_BKT_CAPACITY_THRESH \<and> \<not> noexpand tbl1 then HASH_EXPAND_BUCKETS tbl1 else tbl1)"

definition HASH_MAKE_TABLE :: "UT_hash_handle \<Rightarrow> UT_hash_table" where
  "HASH_MAKE_TABLE h = \<lparr>bkts = replicate HASH_INITIAL_NUM_BUCKETS empty_bucket, num_buckets = HASH_INITIAL_NUM_BUCKETS,
     log2_num_buckets = HASH_INITIAL_NUM_BUCKETS_LOG2, num_items = 0, app_order = [h], ideal_chain_maxlen = 0, nonideal_items = 0,
     ineff_expands = 0, noexpand = False\<rparr>"

definition HASH_ADD_TO_TABLE :: "UT_hash_handle \<Rightarrow> UT_hash_table \<Rightarrow> UT_hash_table" where
  "HASH_ADD_TO_TABLE h tbl =
     (let tbl1 = tbl\<lparr>num_items := num_items tbl + 1\<rparr> in HASH_ADD_TO_BKT (HASH_TO_BKT (hh_hashv h) (num_buckets tbl1)) h tbl1)"

definition HASH_ADD_STR :: "nat \<Rightarrow> string \<Rightarrow> UT_hash_table option \<Rightarrow> UT_hash_table" where
  "HASH_ADD_STR elt key head =
     (let h = \<lparr>hh_elt = elt, hh_key = key, hh_hashv = HASH_JEN key\<rparr>;
          tbl = (case head of None \<Rightarrow> HASH_MAKE_TABLE h | Some tbl \<Rightarrow> tbl\<lparr>app_order := app_order tbl @ [h]\<rparr>)
      in HASH_ADD_TO_TABLE h tbl)"

definition HASH_DEL_IN_BKT :: "nat \<Rightarrow> UT_hash_handle \<Rightarrow> UT_hash_table \<Rightarrow> UT_hash_table" where
  "HASH_DEL_IN_BKT i h tbl =
     (let b = bkts tbl ! i in tbl\<lparr>bkts := (bkts tbl)[i := b\<lparr>bcount := bcount b - 1, chain := remove1 h (chain b)\<rparr>]\<rparr>)"

definition HASH_DELETE_HH :: "UT_hash_handle \<Rightarrow> UT_hash_table \<Rightarrow> UT_hash_table option" where
  \<comment> \<open>the only element has neither predecessor nor successor\<close>
  "HASH_DELETE_HH h tbl =
     (if app_order tbl = [h] then None
      else
        let tbl1 = tbl\<lparr>app_order := remove1 h (app_order tbl)\<rparr>;
            tbl2 = HASH_DEL_IN_BKT (HASH_TO_BKT (hh_hashv h) (num_buckets tbl1)) h tbl1
        in Some (tbl2\<lparr>num_items := num_items tbl2 - 1\<rparr>))"

end
