(* ===== verification/Uthash_Map.thy ===== *)
theory Uthash_Map
  imports Uthash "HOL-Library.Multiset"
begin

text \<open>
  The hash table implements a map from keys to elements. Its invariant: every handle is in the chain of the bucket its
  hash value selects, the chains together hold the elements in insertion order, and keys are different.
  Doubling the buckets rearranges the chains and changes nothing else.
\<close>

section \<open>Buckets\<close>

abbreviation in_chains :: "UT_hash_bucket list \<Rightarrow> UT_hash_handle list" where
  "in_chains bs \<equiv> concat (map chain bs)"

definition buckets_fit :: "nat \<Rightarrow> UT_hash_bucket list \<Rightarrow> bool" where
  "buckets_fit n bs \<longleftrightarrow> length bs = n \<and>
     (\<forall>i<n. bcount (bs ! i) = length (chain (bs ! i)) \<and> (\<forall>h\<in>set (chain (bs ! i)). HASH_TO_BKT (hh_hashv h) n = i))"

lemma HASH_TO_BKT_less: "0 < n \<Longrightarrow> HASH_TO_BKT v n < n"
proof -
  assume n: "0 < n"
  have "v AND (of_nat n - 1) \<le> (of_nat n - 1 :: u32)" by (rule word_and_le1)
  then have "unat (v AND (of_nat n - 1)) \<le> unat (of_nat n - 1 :: u32)" by (simp only: word_le_nat_alt)
  also have "(of_nat n - 1 :: u32) = of_nat (n - 1)" using n by (simp add: of_nat_diff)
  also have "unat (of_nat (n - 1) :: u32) \<le> n - 1" by (simp add: unat_of_nat take_bit_nat_less_eq_self)
  finally show "HASH_TO_BKT v n < n" using n by (simp add: HASH_TO_BKT_def)
qed

lemma in_chains_update:
  assumes "i < length bs"
  shows "mset (in_chains (bs[i := b])) + mset (chain (bs ! i)) = mset (in_chains bs) + mset (chain b)"
proof -
  have "bs = take i bs @ bs ! i # drop (Suc i) bs" using assms by (simp add: id_take_nth_drop)
  then have "mset (in_chains bs) = mset (in_chains (take i bs)) + mset (chain (bs ! i)) + mset (in_chains (drop (Suc i) bs))"
    by (metis (no_types, lifting) add.assoc concat.simps(2) concat_append list.simps(9) map_append mset_append)
  moreover have "mset (in_chains (bs[i := b])) = mset (in_chains (take i bs)) + mset (chain b) + mset (in_chains (drop (Suc i) bs))"
    using assms by (simp add: upd_conv_take_nth_drop)
  ultimately show ?thesis by simp
qed

lemma in_chains_nth:
  assumes "buckets_fit n bs" and "h \<in> set (in_chains bs)"
  shows "h \<in> set (chain (bs ! HASH_TO_BKT (hh_hashv h) n))"
proof -
  from assms(2) obtain b where b: "b \<in> set bs" "h \<in> set (chain b)" by auto
  then obtain j where j: "j < length bs" "bs ! j = b" by (auto simp: in_set_conv_nth)
  then have "HASH_TO_BKT (hh_hashv h) n = j" using assms(1) b(2) by (auto simp: buckets_fit_def)
  then show ?thesis using j b by simp
qed

lemma buckets_fit_update:
  assumes "buckets_fit n bs" and "bcount b = length (chain b)" and "\<forall>h\<in>set (chain b). HASH_TO_BKT (hh_hashv h) n = i"
  shows "buckets_fit n (bs[i := b])"
proof (cases "i < length bs")
  case True
  then show ?thesis using assms by (auto simp: buckets_fit_def nth_list_update)
next
  case False
  then show ?thesis using assms(1) by (simp add: list_update_beyond)
qed

lemma buckets_fit_push:
  assumes "buckets_fit n bs" and "0 < n" and "i = HASH_TO_BKT (hh_hashv h) n"
  shows "buckets_fit n (bs[i := \<lparr>chain = h # chain (bs ! i), bcount = bcount (bs ! i) + 1, expand_mult = m\<rparr>])"
    and "mset (in_chains (bs[i := \<lparr>chain = h # chain (bs ! i), bcount = bcount (bs ! i) + 1, expand_mult = m\<rparr>])) = add_mset h (mset (in_chains bs))"
proof -
  have i: "i < length bs" "i < n" using assms HASH_TO_BKT_less by (simp_all add: buckets_fit_def)
  show "buckets_fit n (bs[i := \<lparr>chain = h # chain (bs ! i), bcount = bcount (bs ! i) + 1, expand_mult = m\<rparr>])"
    using assms i by (auto simp: buckets_fit_def nth_list_update)
  show "mset (in_chains (bs[i := \<lparr>chain = h # chain (bs ! i), bcount = bcount (bs ! i) + 1, expand_mult = m\<rparr>])) = add_mset h (mset (in_chains bs))"
    using in_chains_update [OF i(1), of "\<lparr>chain = h # chain (bs ! i), bcount = bcount (bs ! i) + 1, expand_mult = m\<rparr>"] by simp
qed

lemma buckets_fit_empty: "buckets_fit n (replicate n empty_bucket)" "in_chains (replicate n empty_bucket) = []"
  by (simp_all add: buckets_fit_def empty_bucket_def)

lemma expand_items:
  "buckets_fit (n * 2) bs \<Longrightarrow> 0 < n \<Longrightarrow> \<exists>bs' k'. fold (expand_item n ideal) hs (bs, k) = (bs', k') \<and> buckets_fit (n * 2) bs' \<and>
    mset (in_chains bs') = mset hs + mset (in_chains bs)"
proof (induction hs arbitrary: bs k)
  case (Cons h hs)
  let ?i = "HASH_TO_BKT (hh_hashv h) (n * 2)"
  obtain bs1 k1 where 1: "expand_item n ideal h (bs, k) = (bs1, k1)" by fastforce
  then have "\<exists>m. bs1 = bs[?i := \<lparr>chain = h # chain (bs ! ?i), bcount = bcount (bs ! ?i) + 1, expand_mult = m\<rparr>]"
    by (auto simp: expand_item_def Let_def)
  then have "buckets_fit (n * 2) bs1" "mset (in_chains bs1) = add_mset h (mset (in_chains bs))"
    using buckets_fit_push [OF Cons.prems(1) _ refl, of h] Cons.prems(2) by auto
  with Cons.IH [OF _ Cons.prems(2), of bs1 k1] 1 show ?case by auto
qed simp

section \<open>The table\<close>

definition table_ok :: "UT_hash_table \<Rightarrow> bool" where
  "table_ok t \<longleftrightarrow> 0 < num_buckets t \<and> buckets_fit (num_buckets t) (bkts t) \<and> mset (in_chains (bkts t)) = mset (app_order t) \<and>
     num_items t = length (app_order t) \<and> app_order t \<noteq> [] \<and> distinct (map hh_key (app_order t)) \<and>
     (\<forall>h\<in>set (app_order t). hh_hashv h = HASH_JEN (hh_key h))"

primrec elements :: "UT_hash_table option \<Rightarrow> UT_hash_handle list" where
  "elements None = []"
| "elements (Some t) = app_order t"

definition head_ok :: "UT_hash_table option \<Rightarrow> bool" where
  "head_ok head \<longleftrightarrow> (case head of None \<Rightarrow> True | Some t \<Rightarrow> table_ok t)"

lemma expand_ok:
  assumes "0 < num_buckets t" and "buckets_fit (num_buckets t) (bkts t)"
  shows "buckets_fit (num_buckets (HASH_EXPAND_BUCKETS t)) (bkts (HASH_EXPAND_BUCKETS t))" and "0 < num_buckets (HASH_EXPAND_BUCKETS t)"
    and "mset (in_chains (bkts (HASH_EXPAND_BUCKETS t))) = mset (in_chains (bkts t))"
    and "app_order (HASH_EXPAND_BUCKETS t) = app_order t" and "num_items (HASH_EXPAND_BUCKETS t) = num_items t"
proof -
  let ?n = "num_buckets t"
  define ideal where "ideal = num_items t div 2 ^ (log2_num_buckets t + 1) + (if num_items t mod (?n * 2) \<noteq> 0 then 1 else 0)"
  obtain bs k where f: "fold (expand_item ?n ideal) (in_chains (bkts t)) (replicate (2 * ?n) empty_bucket, 0) = (bs, k)" "buckets_fit (?n * 2) bs"
    "mset (in_chains bs) = mset (in_chains (bkts t))"
    using expand_items [of ?n "replicate (2 * ?n) empty_bucket" ideal "in_chains (bkts t)" 0] buckets_fit_empty [of "2 * ?n"] assms(1)
    by (auto simp: mult.commute)
  have e: "HASH_EXPAND_BUCKETS t = t\<lparr>ideal_chain_maxlen := ideal, nonideal_items := k, num_buckets := ?n * 2, log2_num_buckets := log2_num_buckets t + 1,
      bkts := bs, ineff_expands := (if k > num_items t div 2 then ineff_expands t + 1 else 0),
      noexpand := (if (if k > num_items t div 2 then ineff_expands t + 1 else 0) > 1 then True else noexpand t)\<rparr>"
    unfolding HASH_EXPAND_BUCKETS_def Let_def ideal_def [symmetric] f(1) prod.case ..
  show "buckets_fit (num_buckets (HASH_EXPAND_BUCKETS t)) (bkts (HASH_EXPAND_BUCKETS t))" "0 < num_buckets (HASH_EXPAND_BUCKETS t)"
    "mset (in_chains (bkts (HASH_EXPAND_BUCKETS t))) = mset (in_chains (bkts t))"
    "app_order (HASH_EXPAND_BUCKETS t) = app_order t" "num_items (HASH_EXPAND_BUCKETS t) = num_items t"
    unfolding e using f(2,3) assms(1) by simp_all
qed

lemma add_to_bkt_ok:
  assumes "0 < num_buckets t" and "buckets_fit (num_buckets t) (bkts t)" and "i = HASH_TO_BKT (hh_hashv h) (num_buckets t)"
  shows "let t' = HASH_ADD_TO_BKT i h t in 0 < num_buckets t' \<and> buckets_fit (num_buckets t') (bkts t') \<and>
    mset (in_chains (bkts t')) = add_mset h (mset (in_chains (bkts t))) \<and> app_order t' = app_order t \<and> num_items t' = num_items t"
proof -
  let ?b = "\<lparr>chain = h # chain (bkts t ! i), bcount = bcount (bkts t ! i) + 1, expand_mult = expand_mult (bkts t ! i)\<rparr>"
  let ?t = "t\<lparr>bkts := (bkts t)[i := ?b]\<rparr>"
  have b: "(bkts t ! i)\<lparr>chain := h # chain (bkts t ! i), bcount := bcount (bkts t ! i) + 1\<rparr> = ?b" by simp
  have t: "HASH_ADD_TO_BKT i h t = HASH_EXPAND_BUCKETS ?t \<or> HASH_ADD_TO_BKT i h t = ?t"
    unfolding HASH_ADD_TO_BKT_def Let_def b by auto
  have fit: "0 < num_buckets ?t" "buckets_fit (num_buckets ?t) (bkts ?t)" "mset (in_chains (bkts ?t)) = add_mset h (mset (in_chains (bkts t)))"
    using buckets_fit_push [OF assms(2,1,3)] assms(1) by simp_all
  from t show ?thesis
  proof
    assume e: "HASH_ADD_TO_BKT i h t = HASH_EXPAND_BUCKETS ?t"
    show ?thesis unfolding e Let_def using expand_ok [OF fit(1,2)] fit(3) by simp
  next
    assume e: "HASH_ADD_TO_BKT i h t = ?t"
    show ?thesis unfolding e Let_def using fit by simp
  qed
qed

lemma find_elements:
  assumes "head_ok head"
  shows "HASH_FIND_STR head key = Some h \<longleftrightarrow> h \<in> set (elements head) \<and> hh_key h = key"
proof (cases head)
  case None
  then show ?thesis by (simp add: HASH_FIND_STR_def HASH_FIND_BYHASHVALUE_def)
next
  case (Some t)
  then have t: "table_ok t" using assms by (simp add: head_ok_def)
  let ?n = "num_buckets t" and ?i = "HASH_TO_BKT (HASH_JEN key) (num_buckets t)"
  have fit: "buckets_fit ?n (bkts t)" and n: "0 < ?n" and ms: "mset (in_chains (bkts t)) = mset (app_order t)"
    and d: "distinct (map hh_key (app_order t))" and hv: "\<forall>h\<in>set (app_order t). hh_hashv h = HASH_JEN (hh_key h)"
    using t by (simp_all add: table_ok_def)
  have st: "set (in_chains (bkts t)) = set (app_order t)" using ms by (rule mset_eq_setD)
  have i: "?i < ?n" using HASH_TO_BKT_less [OF n] .
  have mem: "h \<in> set (chain (bkts t ! ?i)) \<longleftrightarrow> h \<in> set (app_order t)" if "hh_key h = key" for h
  proof
    assume "h \<in> set (chain (bkts t ! ?i))"
    then have "h \<in> set (in_chains (bkts t))" using i fit by (auto simp: buckets_fit_def)
    then show "h \<in> set (app_order t)" using st by blast
  next
    assume a: "h \<in> set (app_order t)"
    then have "h \<in> set (in_chains (bkts t))" using st by blast
    then show "h \<in> set (chain (bkts t ! ?i))" using in_chains_nth [OF fit] hv a that by fastforce
  qed
  let ?P = "\<lambda>h. hh_hashv h = HASH_JEN key \<and> length (hh_key h) = length key \<and> hh_key h = key"
  have find: "HASH_FIND_STR head key = List.find ?P (chain (bkts t ! ?i))"
    by (simp add: Some HASH_FIND_STR_def HASH_FIND_BYHASHVALUE_def HASH_FIND_IN_BKT_def)
  show ?thesis
  proof
    assume "HASH_FIND_STR head key = Some h"
    then have "?P h" "h \<in> set (chain (bkts t ! ?i))" unfolding find find_Some_iff by auto
    then show "h \<in> set (elements head) \<and> hh_key h = key" using mem by (simp add: Some)
  next
    assume h: "h \<in> set (elements head) \<and> hh_key h = key"
    then have a: "h \<in> set (app_order t)" and k: "hh_key h = key" by (simp_all add: Some)
    have "h \<in> set (chain (bkts t ! ?i))" using mem [OF k] a by blast
    moreover have "?P h" using bspec [OF hv a] k by simp
    ultimately have "List.find ?P (chain (bkts t ! ?i)) \<noteq> None" unfolding find_None_iff by blast
    then obtain h' where f: "List.find ?P (chain (bkts t ! ?i)) = Some h'" by blast
    then have "hh_key h' = key" "h' \<in> set (chain (bkts t ! ?i))" unfolding find_Some_iff by auto
    then have "h' \<in> set (app_order t)" "hh_key h' = hh_key h" using mem k by auto
    then have "h' = h" using d a by (simp add: distinct_map inj_on_def)
    then show "HASH_FIND_STR head key = Some h" using f find by simp
  qed
qed

lemma find_none: "head_ok head \<Longrightarrow> HASH_FIND_STR head key = None \<longleftrightarrow> key \<notin> hh_key ` set (elements head)"
  using find_elements [of head key] by (metis image_iff not_None_eq)

lemma find_cong:
  assumes "head_ok head" and "head_ok head'"
    and "\<And>h. hh_key h = key \<Longrightarrow> h \<in> set (elements head') \<longleftrightarrow> h \<in> set (elements head)"
  shows "HASH_FIND_STR head' key = HASH_FIND_STR head key"
proof -
  have "HASH_FIND_STR head' key = Some h \<longleftrightarrow> HASH_FIND_STR head key = Some h" for h
    unfolding find_elements [OF assms(1)] find_elements [OF assms(2)] using assms(3) by auto
  then show ?thesis by (cases "HASH_FIND_STR head key"; cases "HASH_FIND_STR head' key") auto
qed

lemma add_ok:
  assumes "head_ok head" and "HASH_FIND_STR head key = None"
  shows "head_ok (Some (HASH_ADD_STR elt key head))"
    and "app_order (HASH_ADD_STR elt key head) = elements head @ [\<lparr>hh_elt = elt, hh_key = key, hh_hashv = HASH_JEN key\<rparr>]"
proof -
  let ?h = "\<lparr>hh_elt = elt, hh_key = key, hh_hashv = HASH_JEN key\<rparr>"
  define t where "t = (case head of None \<Rightarrow> HASH_MAKE_TABLE ?h | Some tbl \<Rightarrow> tbl\<lparr>app_order := app_order tbl @ [?h]\<rparr>)"
  define t1 where "t1 = t\<lparr>num_items := num_items t + 1\<rparr>"
  have t1: "0 < num_buckets t1" "buckets_fit (num_buckets t1) (bkts t1)" "mset (in_chains (bkts t1)) = mset (elements head)"
    "app_order t1 = elements head @ [?h]" "num_items t1 = length (elements head) + 1"
    using assms(1) buckets_fit_empty [of HASH_INITIAL_NUM_BUCKETS]
    by (cases head; simp add: t1_def t_def HASH_MAKE_TABLE_def HASH_INITIAL_NUM_BUCKETS_def head_ok_def table_ok_def)+
  have add: "HASH_ADD_STR elt key head = HASH_ADD_TO_BKT (HASH_TO_BKT (hh_hashv ?h) (num_buckets t1)) ?h t1"
    unfolding HASH_ADD_STR_def HASH_ADD_TO_TABLE_def Let_def t_def [symmetric] t1_def [symmetric] ..
  note ok = add_to_bkt_ok [OF t1(1,2) refl, of ?h, folded add, unfolded Let_def]
  show app: "app_order (HASH_ADD_STR elt key head) = elements head @ [?h]" using ok t1(4) by simp
  have d: "distinct (map hh_key (elements head))" and hv: "\<forall>h\<in>set (elements head). hh_hashv h = HASH_JEN (hh_key h)"
    using assms(1) by (cases head; simp add: head_ok_def table_ok_def)+
  have new: "key \<notin> hh_key ` set (elements head)" using find_none [OF assms(1)] assms(2) by blast
  define t2 where "t2 = HASH_ADD_STR elt key head"
  have "0 < num_buckets t2" "buckets_fit (num_buckets t2) (bkts t2)" "mset (in_chains (bkts t2)) = mset (app_order t2)"
    "num_items t2 = length (app_order t2)"
    using ok t1(3,4,5) unfolding t2_def [symmetric] by simp_all
  then show "head_ok (Some (HASH_ADD_STR elt key head))"
    using d hv new app unfolding t2_def [symmetric] by (auto simp: head_ok_def table_ok_def)
qed

lemma remove_from_both: "h \<in># C \<Longrightarrow> A + C = B + (C - {#h#}) \<Longrightarrow> A = B - {#h#}"
proof -
  assume h: "h \<in># C" and eq: "A + C = B + (C - {#h#})"
  have "add_mset h A + (C - {#h#}) = A + C" using h by (simp add: union_mset_add_mset_left)
  then have "add_mset h A = B" unfolding eq by simp
  then show ?thesis by auto
qed

lemma delete_ok:
  assumes "table_ok t" and "h \<in> set (app_order t)"
  shows "head_ok (HASH_DELETE_HH h t)" and "elements (HASH_DELETE_HH h t) = remove1 h (app_order t)"
proof -
  let ?i = "HASH_TO_BKT (hh_hashv h) (num_buckets t)"
  let ?b = "(bkts t ! ?i)\<lparr>bcount := bcount (bkts t ! ?i) - 1, chain := remove1 h (chain (bkts t ! ?i))\<rparr>"
  have fit: "buckets_fit (num_buckets t) (bkts t)" and n: "0 < num_buckets t" and ms: "mset (in_chains (bkts t)) = mset (app_order t)"
    using assms(1) by (simp_all add: table_ok_def)
  have i: "?i < num_buckets t" "?i < length (bkts t)" using HASH_TO_BKT_less [OF n] fit by (simp_all add: buckets_fit_def)
  have "h \<in> set (in_chains (bkts t))" using assms(2) mset_eq_setD [OF ms] by blast
  then have mem: "h \<in> set (chain (bkts t ! ?i))" by (rule in_chains_nth [OF fit])
  have "mset (in_chains ((bkts t)[?i := ?b])) + mset (chain (bkts t ! ?i)) = mset (in_chains (bkts t)) + (mset (chain (bkts t ! ?i)) - {#h#})"
    using in_chains_update [OF i(2), of ?b] by simp
  then have m: "mset (in_chains ((bkts t)[?i := ?b])) = mset (app_order t) - {#h#}"
    unfolding ms by (rule remove_from_both [rotated]) (simp only: set_mset_mset mem)
  have fit': "buckets_fit (num_buckets t) ((bkts t)[?i := ?b])"
  proof (rule buckets_fit_update [OF fit])
    have b: "bcount (bkts t ! ?i) = length (chain (bkts t ! ?i))" "\<forall>g\<in>set (chain (bkts t ! ?i)). HASH_TO_BKT (hh_hashv g) (num_buckets t) = ?i"
      using fit i(1) by (auto simp: buckets_fit_def)
    show "bcount ?b = length (chain ?b)" using b(1) mem by (simp add: length_remove1)
    show "\<forall>g\<in>set (chain ?b). HASH_TO_BKT (hh_hashv g) (num_buckets t) = ?i" using b(2) set_remove1_subset [of h] by fastforce
  qed
  show "elements (HASH_DELETE_HH h t) = remove1 h (app_order t)"
    by (simp add: HASH_DELETE_HH_def HASH_DEL_IN_BKT_def Let_def)
  show "head_ok (HASH_DELETE_HH h t)"
  proof (cases "app_order t = [h]")
    case False
    have "remove1 h (app_order t) \<noteq> []"
    proof
      assume "remove1 h (app_order t) = []"
      then have "length (app_order t) = 1" using assms(2) length_remove1 [of h "app_order t"] by (cases "app_order t") auto
      then show False using False assms(2) by (auto simp: length_Suc_conv)
    qed
    moreover have "distinct (map hh_key (remove1 h (app_order t)))"
      using assms(1) set_remove1_subset [of h "app_order t"] by (auto simp: table_ok_def distinct_map distinct_remove1 intro: inj_on_subset)
    ultimately show ?thesis using assms n fit' m False
      by (auto simp: head_ok_def HASH_DELETE_HH_def HASH_DEL_IN_BKT_def Let_def table_ok_def length_remove1 dest: set_remove1_subset [THEN subsetD])
  qed (simp add: HASH_DELETE_HH_def head_ok_def)
qed

section \<open>The map\<close>

definition find_elt :: "UT_hash_table option \<Rightarrow> string \<Rightarrow> nat option" where
  "find_elt head key = map_option hh_elt (HASH_FIND_STR head key)"

definition add_new :: "string \<Rightarrow> nat \<Rightarrow> UT_hash_table option \<Rightarrow> UT_hash_table option option" where
  \<comment> \<open>insertion as the cache does it, after a lookup has failed\<close>
  "add_new key elt head = (if HASH_FIND_STR head key = None then Some (Some (HASH_ADD_STR elt key head)) else None)"

definition del_key :: "string \<Rightarrow> UT_hash_table option \<Rightarrow> UT_hash_table option" where
  \<comment> \<open>deletion as the cache does it, of the handle a lookup has found\<close>
  "del_key key head = (case HASH_FIND_STR head key of None \<Rightarrow> head | Some h \<Rightarrow> Option.bind head (HASH_DELETE_HH h))"

lemma del_key_ok:
  assumes "head_ok head"
  shows "head_ok (del_key key head)" and "set (elements (del_key key head)) = {h \<in> set (elements head). hh_key h \<noteq> key}"
proof -
  have "head_ok (del_key key head) \<and> set (elements (del_key key head)) = {h \<in> set (elements head). hh_key h \<noteq> key}"
  proof (cases "HASH_FIND_STR head key")
    case None
    then show ?thesis using assms find_none [OF assms, of key] by (auto simp: del_key_def)
  next
    case (Some h)
    then have h: "h \<in> set (elements head)" "hh_key h = key" using find_elements [OF assms] by auto
    then obtain t where t: "head = Some t" by (cases head) auto
    then have ok: "table_ok t" "h \<in> set (app_order t)" using assms h by (simp_all add: head_ok_def)
    have d: "distinct (map hh_key (app_order t))" using ok(1) by (simp add: table_ok_def)
    have "set (remove1 h (app_order t)) = {g \<in> set (app_order t). hh_key g \<noteq> key}"
      using d ok(2) h(2) by (auto simp: set_remove1_eq distinct_map inj_on_def)
    then show ?thesis using delete_ok [OF ok] Some by (simp add: del_key_def t)
  qed
  then show "head_ok (del_key key head)" "set (elements (del_key key head)) = {h \<in> set (elements head). hh_key h \<noteq> key}" by auto
qed

interpretation hash: erasable_table head_ok find_elt add_new del_key
proof
  fix head key elt head'
  assume ok: "head_ok head" and add: "add_new key elt head = Some head'"
  have none: "HASH_FIND_STR head key = None" and h': "head' = Some (HASH_ADD_STR elt key head)"
    using add by (simp_all add: add_new_def split: if_splits)
  note a = add_ok [OF ok none, of elt, folded h']
  show ok': "head_ok head'" by (rule a(1))
  show "find_elt head' = (find_elt head)(key \<mapsto> elt)"
  proof
    fix k
    have el: "set (elements head') = insert \<lparr>hh_elt = elt, hh_key = key, hh_hashv = HASH_JEN key\<rparr> (set (elements head))" using a(2) by (simp add: h')
    show "find_elt head' k = ((find_elt head)(key \<mapsto> elt)) k"
    proof (cases "k = key")
      case True
      then have "HASH_FIND_STR head' k = Some \<lparr>hh_elt = elt, hh_key = key, hh_hashv = HASH_JEN key\<rparr>" using find_elements [OF ok'] el by simp
      then show ?thesis using True by (simp add: find_elt_def)
    next
      case False
      have "HASH_FIND_STR head' k = HASH_FIND_STR head k"
        using el False by (intro find_cong [OF ok ok']) auto
      then show ?thesis using False by (simp add: find_elt_def)
    qed
  qed
next
  fix head key
  assume ok: "head_ok head"
  show ok': "head_ok (del_key key head)" using del_key_ok [OF ok] by simp
  show "find_elt (del_key key head) = (find_elt head)(key := None)"
  proof
    fix k
    show "find_elt (del_key key head) k = ((find_elt head)(key := None)) k"
    proof (cases "k = key")
      case True
      then show ?thesis using find_none [OF ok', of k] del_key_ok(2) [OF ok] by (auto simp: find_elt_def)
    next
      case False
      have "HASH_FIND_STR (del_key key head) k = HASH_FIND_STR head k"
        using del_key_ok(2) [OF ok, of key] False by (intro find_cong [OF ok ok']) auto
      then show ?thesis using False by (simp add: find_elt_def)
    qed
  qed
qed

end
