(* ===== verification/Kvcache.thy ===== *)
theory Kvcache
  imports Uthash_Map
begin

text \<open>
  The key-value cache of \<^verbatim>\<open>kvstore/kvcache.c\<close>: entries of two arrays of 256 characters on the heap, found
  through the hash table.

  The heap is a map from addresses to entries; \<^verbatim>\<open>calloc\<close> takes the next address, and \<^verbatim>\<open>free\<close> removes the entry.
  The result \<open>None\<close> is a write or a read past an array, or a use of an entry that was freed.
\<close>

section \<open>State\<close>

record cache_entry =
  entry_key :: string
  entry_value :: string

record kv_state =
  key_value_cache :: "UT_hash_table option"
  kv_heap :: "nat \<Rightarrow> cache_entry option"
  kv_next :: nat

definition zero_entry :: cache_entry where
  "zero_entry = \<lparr>entry_key = replicate 256 NUL, entry_value = replicate 256 NUL\<rparr>"

definition kv_init :: kv_state where
  "kv_init = \<lparr>key_value_cache = None, kv_heap = (\<lambda>_. None), kv_next = 0\<rparr>"

definition calloc_entry :: "kv_state \<Rightarrow> nat \<times> kv_state" where
  "calloc_entry st = (kv_next st, st\<lparr>kv_heap := (kv_heap st)(kv_next st \<mapsto> zero_entry), kv_next := Suc (kv_next st)\<rparr>)"

definition strncpy_key :: "nat \<Rightarrow> string \<Rightarrow> kv_state \<Rightarrow> kv_state option" where
  "strncpy_key a key st =
     Option.bind (kv_heap st a) (\<lambda>e. Option.bind (strncpy (entry_key e) key) (\<lambda>arr.
       Some (st\<lparr>kv_heap := (kv_heap st)(a \<mapsto> e\<lparr>entry_key := arr\<rparr>)\<rparr>)))"

definition strncpy_value :: "nat \<Rightarrow> string \<Rightarrow> kv_state \<Rightarrow> kv_state option" where
  "strncpy_value a val st =
     Option.bind (kv_heap st a) (\<lambda>e. Option.bind (strncpy (entry_value e) val) (\<lambda>arr.
       Some (st\<lparr>kv_heap := (kv_heap st)(a \<mapsto> e\<lparr>entry_value := arr\<rparr>)\<rparr>)))"

definition hash_add_entry :: "nat \<Rightarrow> kv_state \<Rightarrow> kv_state option" where
  \<comment> \<open>\<open>HASH_ADD_STR(key_value_cache, key, entry)\<close>: the key is the string in the entry\<close>
  "hash_add_entry a st =
     Option.bind (kv_heap st a) (\<lambda>e. Option.bind (c_string (entry_key e)) (\<lambda>key.
       Some (st\<lparr>key_value_cache := Some (HASH_ADD_STR a key (key_value_cache st))\<rparr>)))"

section \<open>Operations\<close>

definition set_cache_entry :: "string \<Rightarrow> string \<Rightarrow> kv_state \<Rightarrow> kv_state option" where
  "set_cache_entry key val st =
     (case HASH_FIND_STR (key_value_cache st) key of
        None \<Rightarrow>
          (let (a, st1) = calloc_entry st in
           Option.bind (strncpy_key a key st1) (\<lambda>st2. Option.bind (hash_add_entry a st2) (strncpy_value a val)))
      | Some h \<Rightarrow> strncpy_value (hh_elt h) val st)"

definition cas_cache_entry :: "string \<Rightarrow> string \<Rightarrow> string \<Rightarrow> kv_state \<Rightarrow> (bool \<times> kv_state) option" where
  "cas_cache_entry key old_value new_value st =
     (case HASH_FIND_STR (key_value_cache st) key of
        None \<Rightarrow>
          (let (a, st1) = calloc_entry st in
           Option.bind (strncpy_key a key st1) (\<lambda>st2. map_option (Pair True) (strncpy_value a new_value st2)))
      | Some h \<Rightarrow>
          Option.bind (kv_heap st (hh_elt h)) (\<lambda>e. Option.bind (c_string (entry_value e)) (\<lambda>v.
            if v = old_value then map_option (Pair True) (strncpy_value (hh_elt h) new_value st)
            else Some (False, st))))"

definition get_cache_entry :: "string \<Rightarrow> kv_state \<Rightarrow> nat option" where
  \<comment> \<open>the address of the entry\<close>
  "get_cache_entry key st = map_option hh_elt (HASH_FIND_STR (key_value_cache st) key)"

definition delete_cache_entry :: "string \<Rightarrow> kv_state \<Rightarrow> bool \<times> kv_state" where
  "delete_cache_entry key st =
     (case HASH_FIND_STR (key_value_cache st) key of
        None \<Rightarrow> (False, st)
      | Some h \<Rightarrow>
          (True, st\<lparr>key_value_cache := Option.bind (key_value_cache st) (HASH_DELETE_HH h), kv_heap := (kv_heap st)(hh_elt h := None)\<rparr>))"

section \<open>The cache as a map\<close>

definition cached :: "kv_state \<Rightarrow> string \<Rightarrow> string option" where
  \<comment> \<open>the array of the value stored under a key\<close>
  "cached st key = Option.bind (find_elt (key_value_cache st) key) (\<lambda>a. map_option entry_value (kv_heap st a))"

definition kv_ok :: "kv_state \<Rightarrow> bool" where
  "kv_ok st \<longleftrightarrow> head_ok (key_value_cache st) \<and> inj_on hh_elt (set (elements (key_value_cache st))) \<and>
     (\<forall>h\<in>set (elements (key_value_cache st)). hh_elt h < kv_next st \<and>
        (\<exists>e. kv_heap st (hh_elt h) = Some e \<and> length (entry_value e) = 256 \<and> entry_value e ! 255 = NUL))"

definition arg_ok :: "string \<Rightarrow> bool" where
  "arg_ok s \<longleftrightarrow> length s < 256 \<and> NUL \<notin> set s"

definition overlay :: "string \<Rightarrow> string \<Rightarrow> string" where
  "overlay s arr = s @ drop (length s) arr"

datatype kv_op = Set_op string string | Cas_op string string string | Delete_op string

primrec op_ok :: "kv_op \<Rightarrow> bool" where
  "op_ok (Set_op k v) = (arg_ok k \<and> arg_ok v)"
| "op_ok (Cas_op k old new) = (arg_ok k \<and> arg_ok old \<and> arg_ok new)"
| "op_ok (Delete_op k) = arg_ok k"

primrec kv_step :: "kv_op \<Rightarrow> kv_state \<Rightarrow> (bool \<times> kv_state) option" where
  "kv_step (Set_op k v) st = map_option (Pair True) (set_cache_entry k v st)"
| "kv_step (Cas_op k old new) st = cas_cache_entry k old new st"
| "kv_step (Delete_op k) st = Some (delete_cache_entry k st)"

primrec spec_step :: "kv_op \<Rightarrow> (string \<Rightarrow> string option) \<Rightarrow> bool \<times> (string \<Rightarrow> string option)" where
  "spec_step (Set_op k v) m = (True, m(k \<mapsto> overlay v (case m k of None \<Rightarrow> replicate 256 NUL | Some arr \<Rightarrow> arr)))"
| "spec_step (Cas_op k old new) m =
     (case m k of None \<Rightarrow> (True, m)
      | Some arr \<Rightarrow> if c_string arr = Some old then (True, m(k \<mapsto> overlay new arr)) else (False, m))"
| "spec_step (Delete_op k) m = (m k \<noteq> None, m(k := None))"

primrec kv_run :: "kv_op list \<Rightarrow> kv_state \<Rightarrow> (bool list \<times> kv_state) option" where
  "kv_run [] st = Some ([], st)"
| "kv_run (x # xs) st = Option.bind (kv_step x st) (\<lambda>(r, st1). map_option (\<lambda>(rs, st2). (r # rs, st2)) (kv_run xs st1))"

primrec spec_run :: "kv_op list \<Rightarrow> (string \<Rightarrow> string option) \<Rightarrow> bool list \<times> (string \<Rightarrow> string option)" where
  "spec_run [] m = ([], m)"
| "spec_run (x # xs) m = (let (r, m1) = spec_step x m; (rs, m2) = spec_run xs m1 in (r # rs, m2))"

section \<open>Every operation refines the map\<close>

lemma c_string_zero_padded: "arg_ok k \<Longrightarrow> strncpy (replicate 256 NUL) k = Some (overlay k (replicate 256 NUL)) \<and> c_string (overlay k (replicate 256 NUL)) = Some k"
proof
  assume k: "arg_ok k"
  then show "strncpy (replicate 256 NUL) k = Some (overlay k (replicate 256 NUL))" by (simp add: arg_ok_def strncpy_def overlay_def)
  have "256 - length k = Suc (255 - length k)" using k unfolding arg_ok_def by linarith
  then have "replicate (256 - length k) NUL = NUL # replicate (255 - length k) NUL" by (simp only: replicate_Suc)
  then show "c_string (overlay k (replicate 256 NUL)) = Some k" using k by (simp add: overlay_def arg_ok_def c_string_append)
qed

lemma overlay_value:
  assumes "arg_ok v" and "length arr = 256" and "arr ! 255 = NUL"
  shows "strncpy arr v = Some (overlay v arr)" and "length (overlay v arr) = 256" and "overlay v arr ! 255 = NUL"
  using assms by (simp_all add: strncpy_def overlay_def arg_ok_def nth_append)

lemma c_string_terminated: "length arr = 256 \<Longrightarrow> arr ! 255 = NUL \<Longrightarrow> \<exists>s. c_string arr = Some s"
  using nth_mem [of 255 arr] by (simp add: c_string_def)

lemma cached_found:
  assumes "kv_ok st" and "HASH_FIND_STR (key_value_cache st) key = Some h"
  obtains e where "kv_heap st (hh_elt h) = Some e" and "cached st key = Some (entry_value e)" and "length (entry_value e) = 256"
    and "entry_value e ! 255 = NUL" and "h \<in> set (elements (key_value_cache st))" and "hh_key h = key"
  using assms find_elements [of "key_value_cache st" key h] by (auto simp: kv_ok_def cached_def find_elt_def)

lemma cached_missing:
  "kv_ok st \<Longrightarrow> HASH_FIND_STR (key_value_cache st) key = None \<Longrightarrow> cached st key = None"
  by (simp add: cached_def find_elt_def)

lemma write_value:
  assumes ok: "kv_ok st" and h: "HASH_FIND_STR (key_value_cache st) key = Some h" and v: "arg_ok v"
  shows "\<exists>st' arr. strncpy_value (hh_elt h) v st = Some st' \<and> kv_ok st' \<and> cached st key = Some arr \<and> cached st' = (cached st)(key \<mapsto> overlay v arr)"
proof -
  obtain e where e: "kv_heap st (hh_elt h) = Some e" "cached st key = Some (entry_value e)" "length (entry_value e) = 256"
    "entry_value e ! 255 = NUL" "h \<in> set (elements (key_value_cache st))" "hh_key h = key"
    by (rule cached_found [OF ok h]) (rule that)
  note o = overlay_value [OF v e(3,4)]
  let ?st = "st\<lparr>kv_heap := (kv_heap st)(hh_elt h \<mapsto> e\<lparr>entry_value := overlay v (entry_value e)\<rparr>)\<rparr>"
  have s: "strncpy_value (hh_elt h) v st = Some ?st" by (simp add: strncpy_value_def e(1) o(1))
  have ok': "kv_ok ?st" using ok o(2,3) by (auto simp: kv_ok_def)
  have "cached ?st k = ((cached st)(key \<mapsto> overlay v (entry_value e))) k" for k
  proof (cases "HASH_FIND_STR (key_value_cache st) k")
    case None
    then show ?thesis using h by (auto simp: cached_def find_elt_def)
  next
    case (Some g)
    then have g: "g \<in> set (elements (key_value_cache st))" "hh_key g = k"
      using find_elements [of "key_value_cache st" k g] ok by (auto simp: kv_ok_def)
    show ?thesis
    proof (cases "k = key")
      case True
      then show ?thesis using h by (simp add: cached_def find_elt_def)
    next
      case False
      then have "hh_elt g \<noteq> hh_elt h" using ok g e(5,6) by (auto simp: kv_ok_def dest: inj_onD)
      then show ?thesis using False Some by (simp add: cached_def find_elt_def)
    qed
  qed
  then show ?thesis using s ok' e(2) by blast
qed

lemma new_entry:
  assumes ok: "kv_ok st" and none: "HASH_FIND_STR (key_value_cache st) key = None" and k: "arg_ok key"
  defines "a \<equiv> kv_next st"
  defines "st1 \<equiv> st\<lparr>kv_heap := (kv_heap st)(a \<mapsto> \<lparr>entry_key = overlay key (replicate 256 NUL), entry_value = replicate 256 NUL\<rparr>), kv_next := Suc a\<rparr>"
  defines "st2 \<equiv> st1\<lparr>key_value_cache := Some (HASH_ADD_STR a key (key_value_cache st))\<rparr>"
  shows "strncpy_key a key (snd (calloc_entry st)) = Some st1" and "hash_add_entry a st1 = Some st2"
    and "kv_ok st1" and "cached st1 = cached st" and "kv_ok st2" and "cached st2 = (cached st)(key \<mapsto> replicate 256 NUL)"
    and "\<exists>h. HASH_FIND_STR (key_value_cache st2) key = Some h \<and> hh_elt h = a"
proof -
  note z = c_string_zero_padded [OF k]
  show "strncpy_key a key (snd (calloc_entry st)) = Some st1"
    using z by (simp add: strncpy_key_def calloc_entry_def zero_entry_def a_def st1_def)
  show "hash_add_entry a st1 = Some st2" using z by (simp add: hash_add_entry_def st1_def st2_def)
  have fresh: "hh_elt h \<noteq> a" if "h \<in> set (elements (key_value_cache st))" for h using ok that by (auto simp: kv_ok_def a_def)
  show ok1: "kv_ok st1" using ok fresh by (auto simp: kv_ok_def st1_def a_def less_Suc_eq)
  have old: "cached st1 k = cached st k" for k
  proof (cases "HASH_FIND_STR (key_value_cache st) k")
    case (Some h)
    then have "hh_elt h \<noteq> a" using fresh find_elements [of "key_value_cache st" k h] ok by (auto simp: kv_ok_def)
    then show ?thesis using Some by (simp add: cached_def find_elt_def st1_def)
  qed (simp add: cached_def find_elt_def st1_def)
  then show "cached st1 = cached st" by blast
  have hd: "head_ok (key_value_cache st)" using ok by (simp add: kv_ok_def)
  have add: "add_new key a (key_value_cache st) = Some (key_value_cache st2)" by (simp add: add_new_def none st2_def)
  have hd2: "head_ok (key_value_cache st2)" and f2: "find_elt (key_value_cache st2) = (find_elt (key_value_cache st))(key \<mapsto> a)"
    using hash.put_inv [OF hd add] hash.find_put [OF hd add] by simp_all
  have el: "set (elements (key_value_cache st2)) = insert \<lparr>hh_elt = a, hh_key = key, hh_hashv = HASH_JEN key\<rparr> (set (elements (key_value_cache st)))"
    using add_ok(2) [OF hd none, of a] by (simp add: st2_def)
  have "inj_on hh_elt (set (elements (key_value_cache st2)))" unfolding el using ok fresh by (auto simp: kv_ok_def inj_on_def)
  then show "kv_ok st2" using hd2 ok1 unfolding kv_ok_def el by (auto simp: st1_def st2_def)
  have "cached st2 k = ((cached st)(key \<mapsto> replicate 256 NUL)) k" for k
    using old [of k] by (simp add: cached_def f2) (simp add: st1_def st2_def)
  then show "cached st2 = (cached st)(key \<mapsto> replicate 256 NUL)" by blast
  show "\<exists>h. HASH_FIND_STR (key_value_cache st2) key = Some h \<and> hh_elt h = a"
    using fun_cong [OF f2, of key] by (auto simp: find_elt_def)
qed

lemma set_refines:
  assumes "kv_ok st" and "arg_ok key" and "arg_ok v"
  shows "\<exists>st'. set_cache_entry key v st = Some st' \<and> kv_ok st' \<and> cached st' = snd (spec_step (Set_op key v) (cached st))"
proof (cases "HASH_FIND_STR (key_value_cache st) key")
  case (Some h)
  then show ?thesis using write_value [OF assms(1) Some assms(3)] by (auto simp: set_cache_entry_def)
next
  case None
  note n = new_entry [OF assms(1) None assms(2)]
  from n(7) obtain h where h: "HASH_FIND_STR (Some (HASH_ADD_STR (kv_next st) key (key_value_cache st))) key = Some h" "hh_elt h = kv_next st" by auto
  from write_value [OF n(5) _ assms(3), simplified, OF h(1)] n(6) h(2) n(1,2)
  show ?thesis by (auto simp: set_cache_entry_def None calloc_entry_def cached_missing [OF assms(1) None])
qed

lemma cas_refines:
  assumes "kv_ok st" and "arg_ok key" and "arg_ok new"
  shows "\<exists>st'. cas_cache_entry key old new st = Some (fst (spec_step (Cas_op key old new) (cached st)), st') \<and> kv_ok st' \<and>
    cached st' = snd (spec_step (Cas_op key old new) (cached st))"
proof (cases "HASH_FIND_STR (key_value_cache st) key")
  case (Some h)
  obtain e where e: "kv_heap st (hh_elt h) = Some e" "cached st key = Some (entry_value e)" "length (entry_value e) = 256" "entry_value e ! 255 = NUL"
    by (rule cached_found [OF assms(1) Some]) (rule that)
  obtain v where v: "c_string (entry_value e) = Some v" using c_string_terminated [OF e(3,4)] by blast
  from write_value [OF assms(1) Some assms(3)] show ?thesis using assms(1) e(2) by (auto simp: cas_cache_entry_def Some e(1) v)
next
  case None
  note n = new_entry [OF assms(1) None assms(2)]
  let ?a = "kv_next st"
  let ?e = "\<lparr>entry_key = overlay key (replicate 256 NUL), entry_value = overlay new (replicate 256 NUL)\<rparr>"
  let ?st = "st\<lparr>kv_heap := (kv_heap st)(?a \<mapsto> ?e), kv_next := Suc ?a\<rparr>"
  have c: "cas_cache_entry key old new st = Some (True, ?st)"
    using n(1) c_string_zero_padded [OF assms(3)] by (simp add: cas_cache_entry_def None calloc_entry_def strncpy_value_def)
  have fresh: "hh_elt h \<noteq> ?a" if "h \<in> set (elements (key_value_cache st))" for h using assms(1) that by (auto simp: kv_ok_def)
  have "kv_ok ?st" using assms(1) fresh by (auto simp: kv_ok_def less_Suc_eq)
  moreover have "cached ?st k = cached st k" for k
  proof (cases "HASH_FIND_STR (key_value_cache st) k")
    case (Some h)
    then have "hh_elt h \<noteq> ?a" using fresh find_elements [of "key_value_cache st" k h] assms(1) by (auto simp: kv_ok_def)
    then show ?thesis using Some by (simp add: cached_def find_elt_def)
  qed (simp add: cached_def find_elt_def)
  ultimately show ?thesis using c cached_missing [OF assms(1) None] by auto
qed

lemma delete_refines:
  assumes "kv_ok st"
  shows "kv_ok (snd (delete_cache_entry key st))" and "fst (delete_cache_entry key st) = (cached st key \<noteq> None)"
    and "cached (snd (delete_cache_entry key st)) = (cached st)(key := None)"
proof -
  have "kv_ok (snd (delete_cache_entry key st)) \<and> fst (delete_cache_entry key st) = (cached st key \<noteq> None) \<and>
    cached (snd (delete_cache_entry key st)) = (cached st)(key := None)"
  proof (cases "HASH_FIND_STR (key_value_cache st) key")
    case None
    then show ?thesis using assms cached_missing [OF assms None] by (simp add: delete_cache_entry_def fun_upd_idem)
  next
    case (Some h)
    obtain e where "kv_heap st (hh_elt h) = Some e" and e: "cached st key = Some (entry_value e)" and "length (entry_value e) = 256"
      and "entry_value e ! 255 = NUL" and h: "h \<in> set (elements (key_value_cache st))" "hh_key h = key"
      by (rule cached_found [OF assms Some]) (rule that)
    define hd where "hd = del_key key (key_value_cache st)"
    have st': "delete_cache_entry key st = (True, st\<lparr>key_value_cache := hd, kv_heap := (kv_heap st)(hh_elt h := None)\<rparr>)"
      by (simp add: delete_cache_entry_def Some hd_def del_key_def)
    have ok: "head_ok (key_value_cache st)" using assms by (simp add: kv_ok_def)
    have el: "set (elements hd) = {g \<in> set (elements (key_value_cache st)). hh_key g \<noteq> key}" unfolding hd_def by (rule del_key_ok(2) [OF ok])
    have ne: "hh_elt g \<noteq> hh_elt h" if "g \<in> set (elements (key_value_cache st))" "hh_key g \<noteq> key" for g
      using assms h that by (auto simp: kv_ok_def dest: inj_onD)
    have "kv_ok (snd (delete_cache_entry key st))"
      using assms hash.del_inv [OF ok, of key] ne unfolding st' snd_conv kv_ok_def by (auto simp: el hd_def [symmetric] inj_on_def)
    moreover have "cached (snd (delete_cache_entry key st)) k = ((cached st)(key := None)) k" for k
    proof (cases "k = key")
      case True
      then show ?thesis using fun_cong [OF hash.find_del [OF ok, of key], of k] by (simp add: st' cached_def hd_def)
    next
      case False
      have "HASH_FIND_STR (key_value_cache st) k = Some g \<Longrightarrow> hh_elt g \<noteq> hh_elt h" for g
        using ne [of g] find_elements [OF ok, of k g] False by blast
      then show ?thesis using fun_cong [OF hash.find_del [OF ok, of key], of k] False
        by (cases "HASH_FIND_STR (key_value_cache st) k") (auto simp: st' cached_def hd_def find_elt_def)
    qed
    ultimately show ?thesis using e by (auto simp: st')
  qed
  then show "kv_ok (snd (delete_cache_entry key st))" "fst (delete_cache_entry key st) = (cached st key \<noteq> None)"
    "cached (snd (delete_cache_entry key st)) = (cached st)(key := None)" by blast+
qed

lemma kv_init_ok: "kv_ok kv_init" "cached kv_init = (\<lambda>_. None)"
  by (auto simp: kv_init_def kv_ok_def head_ok_def cached_def find_elt_def HASH_FIND_STR_def HASH_FIND_BYHASHVALUE_def)

lemma kv_step_refines:
  assumes "kv_ok st" and "op_ok x"
  shows "\<exists>st'. kv_step x st = Some (fst (spec_step x (cached st)), st') \<and> kv_ok st' \<and> cached st' = snd (spec_step x (cached st))"
proof (cases x)
  case (Set_op k v)
  then show ?thesis using set_refines [OF assms(1)] assms(2) by fastforce
next
  case (Cas_op k old new)
  then show ?thesis using cas_refines [OF assms(1)] assms(2) by simp
next
  case (Delete_op k)
  then show ?thesis using delete_refines [OF assms(1), of k] by (cases "delete_cache_entry k st") auto
qed

lemma kv_run_refines:
  "kv_ok st \<Longrightarrow> list_all op_ok xs \<Longrightarrow>
    \<exists>st'. kv_run xs st = Some (fst (spec_run xs (cached st)), st') \<and> kv_ok st' \<and> cached st' = snd (spec_run xs (cached st))"
proof (induction xs arbitrary: st)
  case (Cons x xs)
  obtain st1 where 1: "kv_step x st = Some (fst (spec_step x (cached st)), st1)" "kv_ok st1" "cached st1 = snd (spec_step x (cached st))"
    using kv_step_refines [OF Cons.prems(1), of x] Cons.prems(2) by auto
  from Cons.IH [OF 1(2)] Cons.prems(2) show ?case by (auto simp: 1 split_beta Let_def)
qed simp

end
