(* ===== verification/Kv_Parser.thy ===== *)
theory Kv_Parser
  imports Kvcache
begin

text \<open>
  The request parser of \<^verbatim>\<open>kvstore/memcache_parser.c\<close> and the forwarder of \<^verbatim>\<open>kvstore/memcache_forwarder.c\<close>.

  A request is a prefix of a memory, a list of characters; pointers into it are offsets. Writing tokens' ends changes the memory.
  The results on the left are \<^verbatim>\<open>abort\<close>, an access past the memory, and the use of an array element that was never written.
  \<^verbatim>\<open>process_get_command\<close>, \<^verbatim>\<open>process_set_command\<close> and \<^verbatim>\<open>process_delete_command\<close> have paths that
  end without \<^verbatim>\<open>return\<close>: there the result is \<open>None\<close>, and what the caller then takes for it is an argument of \<open>client_cache_lookup\<close>.
\<close>

datatype ascii_cmd = GET_CMD | GETS_CMD | SET_CMD | ADD_CMD | REPLACE_CMD | CAS_CMD | APPEND_CMD | PREPEND_CMD | DELETE_CMD
  | INCR_CMD | DECR_CMD | STATS_CMD | FLUSH_ALL_CMD | VERSION_CMD | QUIT_CMD | VERBOSITY_CMD | UNKNOWN_CMD

datatype kv_error = Kv_abort | Kv_out_of_bounds | Kv_uninitialised

section \<open>Commands\<close>

definition commands :: "(string \<times> nat \<times> ascii_cmd) list" where
  "commands =
     [(''get'', 3, GET_CMD), (''gets'', 4, GETS_CMD), (''set'', 3, SET_CMD), (''add'', 3, ADD_CMD), (''replace'', 7, REPLACE_CMD),
      (''cas'', 3, CAS_CMD), (''append'', 6, APPEND_CMD), (''prepend'', 7, PREPEND_CMD), (''delete_object'', 6, DELETE_CMD),
      (''incr'', 4, INCR_CMD), (''decr'', 4, DECR_CMD), (''stats'', 5, STATS_CMD), (''flush_all'', 9, FLUSH_ALL_CMD),
      (''version'', 7, VERSION_CMD), (''quit'', 4, QUIT_CMD), (''verbosity'', 9, VERBOSITY_CMD)]"

definition command_hit :: "string \<Rightarrow> nat \<Rightarrow> string \<times> nat \<times> ascii_cmd \<Rightarrow> bool" where
  \<comment> \<open>the table's strings are at least as long as the compared length, so \<open>strncmp\<close> compares prefixes\<close>
  "command_hit start len c =
     (case c of (cmd, n, _) \<Rightarrow> n \<le> len \<and> take n start = take n cmd \<and> (len = n \<or> is_space (start ! n)))"

definition ascii_to_command :: "string \<Rightarrow> nat \<Rightarrow> ascii_cmd" where
  "ascii_to_command start len =
     (case List.find (command_hit start len) commands of None \<Rightarrow> UNKNOWN_CMD | Some c \<Rightarrow> snd (snd c))"

definition is_cntrl :: "char \<Rightarrow> bool" where
  "is_cntrl ch \<longleftrightarrow> (of_char ch :: nat) < 32 \<or> (of_char ch :: nat) = 127"

definition parse_ascii_key :: "string \<Rightarrow> (u16 \<times> string) option" where
  \<comment> \<open>the length found and the start after the leading spaces; the length is counted in 16 bits\<close>
  "parse_ascii_key start =
     (let start1 = dropWhile is_space start;
          word = takeWhile (\<lambda>c. c \<noteq> NUL \<and> \<not> is_space c \<and> \<not> is_cntrl c) start1;
          len = (of_nat (length word) :: u16)
      in case drop (length word) start1 of
           [] \<Rightarrow> None
         | c # _ \<Rightarrow>
             if len = 0 \<or> len > 240 \<or> (c \<noteq> NUL \<and> c \<noteq> CHR 0x0D \<and> is_cntrl c) then Some (0, start1) else Some (len, start1))"

section \<open>Tokens\<close>

function scan :: "(char \<Rightarrow> bool) \<Rightarrow> string \<Rightarrow> nat \<Rightarrow> nat \<Rightarrow> nat" where
  "scan P mem str fin = (if str < fin \<and> P (mem ! str) then scan P mem (Suc str) fin else str)"
  by pat_completeness auto
termination by (relation "measure (\<lambda>(P, mem, str, fin). fin - str)") auto

declare scan.simps [simp del]

lemma scan_takeWhile:
  "str \<le> fin \<Longrightarrow> fin \<le> length mem \<Longrightarrow> scan P mem str fin = str + length (takeWhile P (drop str (take fin mem)))"
proof (induction P mem str fin rule: scan.induct)
  case (1 P mem str fin)
  show ?case
  proof (cases "str < fin")
    case True
    then have "drop str (take fin mem) = mem ! str # drop (Suc str) (take fin mem)"
      using 1(3) by (subst Cons_nth_drop_Suc [symmetric]) simp_all
    then show ?thesis using 1 True by (subst scan.simps) auto
  qed (subst scan.simps, use 1 in simp)
qed

lemma scan_bounds: "str \<le> fin \<Longrightarrow> str \<le> scan P mem str fin \<and> scan P mem str fin \<le> fin"
  by (induction P mem str fin rule: scan.induct) (subst (1 2) scan.simps, auto)

function ascii_tokenize_command :: "string \<Rightarrow> nat \<Rightarrow> nat \<Rightarrow> nat list \<Rightarrow> nat \<Rightarrow> kv_error + nat list \<times> string" where
  "ascii_tokenize_command mem str fin vec sz =
     (if str < fin then
        let s = scan is_space mem str fin in
        if s = fin then Inr (vec, mem)
        else
          let vec1 = vec @ [s]; e = scan (\<lambda>c. \<not> is_space c) mem s fin in
          if length mem \<le> e then Inl Kv_out_of_bounds
          else
            let mem1 = mem[e := NUL] in
            if length vec1 = sz then Inr (vec1, mem1) else ascii_tokenize_command mem1 (Suc e) fin vec1 sz
      else Inr (vec, mem))"
  by pat_completeness auto
termination
proof (relation "measure (\<lambda>(mem, str, fin, vec, sz). fin - str)", goal_cases)
  case (2 mem str fin vec sz s vec1 e mem1)
  have "str \<le> s" "s \<le> fin" using 2(1,2) scan_bounds [of str fin is_space mem] by simp_all
  then have "str \<le> e" using 2(5) scan_bounds [of s fin "\<lambda>c. \<not> is_space c" mem] by simp
  then show ?case using 2(1) by simp
qed simp

declare ascii_tokenize_command.simps [simp del]

section \<open>Requests\<close>

definition token :: "string \<Rightarrow> nat list \<Rightarrow> nat \<Rightarrow> kv_error + string" where
  \<comment> \<open>the string at \<open>tokens[i]\<close>\<close>
  "token mem tokens i =
     (if length tokens \<le> i then Inl Kv_uninitialised
      else case c_string (drop (tokens ! i) mem) of None \<Rightarrow> Inl Kv_out_of_bounds | Some s \<Rightarrow> Inr s)"

definition process_get_command :: "bool \<Rightarrow> string \<Rightarrow> nat list \<Rightarrow> nat \<Rightarrow> kv_state \<Rightarrow> kv_error + bool option \<times> kv_state" where
  "process_get_command mute mem tokens ntokens st =
     (case token mem tokens 1 of Inl err \<Rightarrow> Inl err
      | Inr key \<Rightarrow> (case get_cache_entry key st of None \<Rightarrow> Inr (Some False, st) | Some kv_entry \<Rightarrow> Inr (None, st)))"

definition process_set_command :: "bool \<Rightarrow> string \<Rightarrow> nat list \<Rightarrow> nat \<Rightarrow> kv_state \<Rightarrow> kv_error + bool option \<times> kv_state" where
  "process_set_command mute mem tokens ntokens st = Inr (None, st)"

definition process_delete_command :: "bool \<Rightarrow> string \<Rightarrow> nat list \<Rightarrow> nat \<Rightarrow> kv_state \<Rightarrow> kv_error + bool option \<times> kv_state" where
  "process_delete_command mute mem tokens ntokens st =
     (case token mem tokens 1 of Inl err \<Rightarrow> Inl err
      | Inr key \<Rightarrow> (let (deleted, st1) = delete_cache_entry key st in Inr (if deleted then None else Some False, st1)))"

definition parse_memcache_request :: "string \<Rightarrow> nat \<Rightarrow> kv_state \<Rightarrow> kv_error + bool option \<times> string \<times> kv_state" where
  "parse_memcache_request mem len st =
     (let command_code = ascii_to_command mem len in
      case ascii_tokenize_command mem 0 len [] 10 of
        Inl err \<Rightarrow> Inl err
      | Inr (tokens, mem1) \<Rightarrow>
          let ntokens = length tokens;
              noreply = (if 10 \<le> ntokens then Inr (True, ntokens)
                         else if ntokens = 0 then Inl Kv_out_of_bounds
                         else case token mem1 tokens (ntokens - 1) of Inl err \<Rightarrow> Inl err
                              | Inr s \<Rightarrow> Inr (if s = ''noreply'' then (True, ntokens - 1) else (False, ntokens)))
          in case noreply of
               Inl err \<Rightarrow> Inl err
             | Inr (mute, n) \<Rightarrow>
                 (case (case command_code of
                          GET_CMD \<Rightarrow> process_get_command mute mem1 tokens n st
                        | SET_CMD \<Rightarrow> process_set_command mute mem1 tokens n st
                        | DELETE_CMD \<Rightarrow> process_delete_command mute mem1 tokens n st
                        | _ \<Rightarrow> Inl Kv_abort) of
                    Inl err \<Rightarrow> Inl err
                  | Inr (ret_val, st1) \<Rightarrow> Inr (ret_val, mem1, st1)))"

section \<open>Forwarding\<close>

definition forward_to_server :: "bool \<Rightarrow> string \<Rightarrow> nat \<Rightarrow> string list" where
  \<comment> \<open>the first argument says whether the interface was opened; the frames handed to \<open>pcap_inject\<close>\<close>
  "forward_to_server server_handle mem len = (if server_handle then [take len mem] else [])"

definition forward_to_client :: "bool \<Rightarrow> string \<Rightarrow> nat \<Rightarrow> string list" where
  "forward_to_client client_handle mem len = (if client_handle then [take len mem] else [])"

definition client_cache_lookup :: "bool \<Rightarrow> bool \<Rightarrow> string \<Rightarrow> nat \<Rightarrow> kv_state \<Rightarrow> kv_error + string list \<times> kv_state" where
  \<comment> \<open>\<open>junk\<close> is what the caller finds when the parser has not returned a value\<close>
  "client_cache_lookup junk server_handle mem len st =
     (case parse_memcache_request mem len st of
        Inl err \<Rightarrow> Inl err
      | Inr (ret_val, mem1, st1) \<Rightarrow>
          Inr (if \<not> (case ret_val of None \<Rightarrow> junk | Some b \<Rightarrow> b) then forward_to_server server_handle mem1 len else [], st1))"

definition server_response_forward :: "bool \<Rightarrow> string \<Rightarrow> nat \<Rightarrow> string list" where
  "server_response_forward client_handle mem len = forward_to_client client_handle mem len"

primrec client_thread :: "bool \<Rightarrow> bool \<Rightarrow> (string \<times> nat) list \<Rightarrow> kv_state \<Rightarrow> kv_error + string list \<times> kv_state" where
  \<comment> \<open>the frames the client's interface delivers, one after the other\<close>
  "client_thread junk server_handle [] st = Inr ([], st)"
| "client_thread junk server_handle (p # ps) st =
     (case client_cache_lookup junk server_handle (fst p) (snd p) st of
        Inl err \<Rightarrow> Inl err
      | Inr (out, st1) \<Rightarrow>
          (case client_thread junk server_handle ps st1 of Inl err \<Rightarrow> Inl err | Inr (outs, st2) \<Rightarrow> Inr (out @ outs, st2)))"

primrec server_thread :: "bool \<Rightarrow> (string \<times> nat) list \<Rightarrow> string list" where
  "server_thread client_handle [] = []"
| "server_thread client_handle (p # ps) = server_response_forward client_handle (fst p) (snd p) @ server_thread client_handle ps"

section \<open>Start\<close>

primrec kv_options :: "(char \<times> string) list \<Rightarrow> string option \<times> string option \<Rightarrow> nat + string option \<times> string option" where
  \<comment> \<open>the options that \<open>getopt\<close> returns; the left result is an exit status\<close>
  "kv_options [] ifs = Inr ifs"
| "kv_options (x # xs) ifs =
     (if fst x = CHR ''c'' then kv_options xs (Some (snd x), snd ifs)
      else if fst x = CHR ''s'' then kv_options xs (fst ifs, Some (snd x))
      else Inl 1)"

definition kv_main :: "(string \<Rightarrow> bool) \<Rightarrow> int \<Rightarrow> (char \<times> string) list \<Rightarrow> nat + bool \<times> bool" where
  \<comment> \<open>\<open>pcap_open_live\<close> and the result of \<open>pthread_create\<close> are arguments; the result says which interfaces are open\<close>
  "kv_main pcap_open_live ret_val opts =
     (case kv_options opts (None, None) of
        Inl code \<Rightarrow> Inl code
      | Inr (client_interface, server_interface) \<Rightarrow>
          if client_interface \<noteq> None \<and> \<not> pcap_open_live (the client_interface) then Inl 1
          else if server_interface \<noteq> None \<and> \<not> pcap_open_live (the server_interface) then Inl 1
          else if ret_val < 0 then Inl 1
          else Inr (client_interface \<noteq> None, server_interface \<noteq> None))"

end
