(* ===== verification/Kv_Tokens.thy ===== *)
theory Kv_Tokens
  imports Kv_Parser
begin

text \<open>
  What the tokenizer of the key-value cache computes: the words of the request, each terminated in place, and nothing else of the memory changed.
\<close>

section \<open>Words\<close>

function words :: "string \<Rightarrow> string list" where
  "words s =
     (case dropWhile is_space s of [] \<Rightarrow> []
      | c # cs \<Rightarrow> takeWhile (\<lambda>c. \<not> is_space c) (c # cs) # words (dropWhile (\<lambda>c. \<not> is_space c) cs))"
  by pat_completeness auto
termination
proof (relation "measure length", goal_cases)
  case (2 s c cs)
  have "length (dropWhile (\<lambda>c. \<not> is_space c) cs) \<le> length cs" by (rule length_dropWhile_le)
  also have "length cs < length (dropWhile is_space s)" using 2 by simp
  also have "\<dots> \<le> length s" by (rule length_dropWhile_le)
  finally show ?case by simp
qed simp

declare words.simps [simp del]

lemma words_Nil [simp]: "words [] = []"
  by (simp add: words.simps)

lemma words_space [simp]: "is_space c \<Longrightarrow> words (c # s) = words s"
  by (subst (1 2) words.simps) simp

lemma words_spaces: "list_all is_space s \<Longrightarrow> words (s @ t) = words t"
  by (induction s) auto

lemma words_word:
  assumes "w \<noteq> []" and "list_all (\<lambda>c. \<not> is_space c) w" and "t = [] \<or> is_space (hd t)"
  shows "words (w @ t) = w # words t"
proof -
  obtain c cs where w: "w = c # cs" using assms(1) by (cases w) auto
  have nw: "takeWhile (\<lambda>c. \<not> is_space c) (w @ t) = w" "dropWhile (\<lambda>c. \<not> is_space c) (cs @ t) = t"
    using assms(2,3) w by (cases t; simp add: takeWhile_append dropWhile_append list_all_iff)+
  have "dropWhile is_space (w @ t) = c # cs @ t" using assms(2) by (simp add: w)
  then show ?thesis using nw by (subst words.simps) (simp add: w)
qed

section \<open>The tokenizer\<close>

lemma scanned:
  assumes "str \<le> fin" and "fin \<le> length mem"
  obtains w where "scan P mem str fin = str + length w" and "list_all P w" and "str + length w \<le> fin"
    and "drop str (take fin mem) = w @ drop (str + length w) (take fin mem)" and "str + length w < fin \<Longrightarrow> \<not> P (mem ! (str + length w))"
proof
  let ?s = "drop str (take fin mem)" let ?w = "takeWhile P ?s"
  show "scan P mem str fin = str + length ?w" by (rule scan_takeWhile [OF assms])
  then show "str + length ?w \<le> fin" using scan_bounds [OF assms(1), of P mem] by simp
  show "list_all P ?w" by (auto simp: list_all_iff dest: set_takeWhileD)
  show "?s = ?w @ drop (str + length ?w) (take fin mem)"
    by (metis add.commute drop_drop dropWhile_eq_drop takeWhile_dropWhile_id)
  assume lt: "str + length ?w < fin"
  then have "length ?w < length ?s" using assms by simp
  then have "\<not> P (?s ! length ?w)" by (rule nth_length_takeWhile)
  then show "\<not> P (mem ! (str + length ?w))" using lt assms by simp
qed

definition tokenized :: "string \<Rightarrow> nat \<Rightarrow> nat \<Rightarrow> string \<Rightarrow> bool" where
  \<comment> \<open>only spaces from \<open>str\<close> on and the byte at \<open>fin\<close> have changed, to the terminating zero\<close>
  "tokenized mem str fin mem' \<longleftrightarrow> length mem' = length mem \<and>
     (\<forall>i<length mem. mem' ! i = mem ! i \<or> (mem' ! i = NUL \<and> str \<le> i \<and> i \<le> fin \<and> (is_space (mem ! i) \<or> i = fin)))"

lemma tokenized_refl: "tokenized mem str fin mem"
  by (simp add: tokenized_def)

lemma tokenized_length: "tokenized mem str fin mem' \<Longrightarrow> length mem' = length mem"
  by (simp add: tokenized_def)

lemma tokenized_before: "tokenized mem str fin mem' \<Longrightarrow> i < length mem \<Longrightarrow> i < str \<Longrightarrow> mem' ! i = mem ! i"
  unfolding tokenized_def using leD by blast

lemma tokenized_step:
  assumes t: "tokenized (mem[e := NUL]) (Suc e) fin mem'" and "str \<le> e" and "e \<le> fin" and "fin < length mem" and "e < fin \<Longrightarrow> is_space (mem ! e)"
  shows "tokenized mem str fin mem'"
  unfolding tokenized_def
proof (intro conjI allI impI)
  show "length mem' = length mem" using tokenized_length [OF t] by simp
  fix i assume i: "i < length mem"
  show "mem' ! i = mem ! i \<or> (mem' ! i = NUL \<and> str \<le> i \<and> i \<le> fin \<and> (is_space (mem ! i) \<or> i = fin))"
  proof (cases "i = e")
    case True
    then have "mem' ! i = NUL" using tokenized_before [OF t, of i] i by simp
    then show ?thesis using assms True by auto
  next
    case False
    then have "mem[e := NUL] ! i = mem ! i" by simp
    then have "mem' ! i = mem ! i \<or> (mem' ! i = NUL \<and> Suc e \<le> i \<and> i \<le> fin \<and> (is_space (mem ! i) \<or> i = fin))"
      using t i unfolding tokenized_def by auto
    then show ?thesis using assms(2) by auto
  qed
qed

lemma tokenized_word:
  assumes t: "tokenized (mem[s + length w := NUL]) (Suc (s + length w)) fin mem'" and e: "s + length w < length mem"
    and w: "w = take (length w) (drop s mem)"
  shows "c_string (drop s mem') = Some (takeWhile (\<lambda>c. c \<noteq> NUL) w)"
proof -
  let ?e = "s + length w"
  have len: "length mem' = length mem" using tokenized_length [OF t] by simp
  have same: "mem' ! i = mem ! i" if "i < ?e" for i using tokenized_before [OF t, of i] e that by simp
  have nul: "mem' ! ?e = NUL" using tokenized_before [OF t, of ?e] e by simp
  have "take (length w) (drop s mem') = w"
  proof (rule nth_equalityI)
    show "length (take (length w) (drop s mem')) = length w" using e len by simp
    fix i assume "i < length (take (length w) (drop s mem'))"
    then have i: "i < length w" by simp
    have "w ! i = mem ! (s + i)" using e i by (subst w) simp
    then show "take (length w) (drop s mem') ! i = w ! i" using same [of "s + i"] i e len by simp
  qed
  moreover have "drop (length w) (drop s mem') = NUL # drop (Suc ?e) mem'"
    using Cons_nth_drop_Suc [of ?e mem'] nul e len by (simp add: add.commute)
  ultimately have "drop s mem' = w @ NUL # drop (Suc ?e) mem'" by (metis append_take_drop_id)
  then show ?thesis by (simp only: c_string_append)
qed

lemma next_word:
  assumes fin: "fin < length mem" and str: "str < fin"
  defines "p \<equiv> scan is_space mem str fin" and "e \<equiv> scan (\<lambda>c. \<not> is_space c) mem (scan is_space mem str fin) fin"
  shows "p = fin \<Longrightarrow> words (drop str (take fin mem)) = []"
    and "p \<noteq> fin \<Longrightarrow> \<exists>w. e = p + length w \<and> w = take (length w) (drop p mem) \<and> str \<le> e \<and> e \<le> fin \<and>
      (e < fin \<longrightarrow> is_space (mem ! e)) \<and> words (drop str (take fin mem)) = w # words (drop (Suc e) (take fin mem))"
proof -
  let ?t = "take fin mem"
  have cons: "drop j ?t = mem ! j # drop (Suc j) ?t" if "j < fin" for j
    using Cons_nth_drop_Suc [of j ?t] that fin by simp
  obtain sp where s: "p = str + length sp" "list_all is_space sp" "p \<le> fin" "drop str ?t = sp @ drop p ?t" "p < fin \<Longrightarrow> \<not> is_space (mem ! p)"
    using scanned [of str fin mem is_space] str fin unfolding p_def by (metis less_imp_le)
  have w0: "words (drop str ?t) = words (drop p ?t)" using words_spaces [OF s(2)] s(4) by metis
  show "words (drop str ?t) = []" if "p = fin" using w0 that by simp
  assume "p \<noteq> fin"
  then have p: "p < fin" using s(3) by simp
  obtain w where w: "e = p + length w" "list_all (\<lambda>c. \<not> is_space c) w" "e \<le> fin" "drop p ?t = w @ drop e ?t" "e < fin \<Longrightarrow> is_space (mem ! e)"
    using scanned [of p fin mem "\<lambda>c. \<not> is_space c"] p fin unfolding e_def p_def [symmetric] by (metis less_imp_le)
  have "w \<noteq> []"
  proof
    assume "w = []"
    then show False using w(1,5) s(5) p by simp
  qed
  moreover have "drop e ?t = [] \<or> is_space (hd (drop e ?t))" using cons [of e] w(3,5) by (cases "e < fin") auto
  ultimately have "words (drop p ?t) = w # words (drop e ?t)" unfolding w(4) by (intro words_word w(2)) auto
  moreover have "words (drop e ?t) = words (drop (Suc e) ?t)" using cons [of e] w(3,5) by (cases "e < fin") auto
  moreover have "w = take (length w) (drop p mem)"
  proof -
    have "w = take (length w) (drop p ?t)" by (subst w(4)) simp
    also have "\<dots> = take (length w) (drop p mem)" using w(1,3) by (simp add: drop_take take_take min_def)
    finally show ?thesis .
  qed
  ultimately show "\<exists>w. e = p + length w \<and> w = take (length w) (drop p mem) \<and> str \<le> e \<and> e \<le> fin \<and>
      (e < fin \<longrightarrow> is_space (mem ! e)) \<and> words (drop str ?t) = w # words (drop (Suc e) ?t)"
    using w0 w(1,3,5) s(1) by (intro exI [of _ w]) auto
qed

lemma tokenize:
  "fin < length mem \<Longrightarrow> length vec < sz \<Longrightarrow>
    \<exists>vec' mem'. ascii_tokenize_command mem str fin vec sz = Inr (vec @ vec', mem') \<and> tokenized mem str fin mem' \<and>
      map (\<lambda>i. c_string (drop i mem')) vec' = map (\<lambda>w. Some (takeWhile (\<lambda>c. c \<noteq> NUL) w)) (take (sz - length vec) (words (drop str (take fin mem))))"
proof (induction mem str fin vec sz rule: ascii_tokenize_command.induct)
  case (1 mem str fin vec sz)
  note prems = "1.prems" and IH = "1.IH"
  let ?t = "take fin mem" let ?p = "scan is_space mem str fin" let ?e = "scan (\<lambda>c. \<not> is_space c) mem ?p fin"
  consider "\<not> str < fin" | "str < fin" "?p = fin" | "str < fin" "?p \<noteq> fin" by blast
  then show ?case
  proof cases
    case 1
    then show ?thesis using tokenized_refl by (subst ascii_tokenize_command.simps) simp
  next
    case 2
    then show ?thesis using tokenized_refl next_word(1) [OF prems(1)] by (subst ascii_tokenize_command.simps) simp
  next
    case 3
    from next_word(2) [OF prems(1) 3] obtain w where w: "?e = ?p + length w" "w = take (length w) (drop ?p mem)"
      "str \<le> ?e" "?e \<le> fin" "?e < fin \<longrightarrow> is_space (mem ! ?e)" "words (drop str ?t) = w # words (drop (Suc ?e) ?t)" by blast
    have e: "?e < length mem" using w(4) prems(1) by linarith
    let ?m = "mem[?e := NUL]"
    have rest: "drop (Suc ?e) (take fin ?m) = drop (Suc ?e) ?t" by (simp add: take_update_swap)
    have one: "ascii_tokenize_command mem str fin vec sz =
        (if length (vec @ [?p]) = sz then Inr (vec @ [?p], ?m) else ascii_tokenize_command ?m (Suc ?e) fin (vec @ [?p]) sz)"
      using 3 e by (subst ascii_tokenize_command.simps) (simp add: Let_def)
    show ?thesis
    proof (cases "length (vec @ [?p]) = sz")
      case True
      have "tokenized mem str fin ?m" by (rule tokenized_step [OF tokenized_refl w(3,4) prems(1)]) (use w(5) in simp)
      moreover have "c_string (drop ?p ?m) = Some (takeWhile (\<lambda>c. c \<noteq> NUL) w)" using tokenized_word [OF _ _ w(2)] e tokenized_refl w(1) by metis
      moreover have "take (sz - length vec) (words (drop str ?t)) = [w]" using True w(6) by (simp flip: True)
      ultimately show ?thesis using one True by auto
    next
      case False
      obtain vec' mem' where r: "ascii_tokenize_command ?m (Suc ?e) fin (vec @ [?p]) sz = Inr ((vec @ [?p]) @ vec', mem')"
        "tokenized ?m (Suc ?e) fin mem'" "map (\<lambda>i. c_string (drop i mem')) vec' = map (\<lambda>w. Some (takeWhile (\<lambda>c. c \<noteq> NUL) w)) (take (sz - length (vec @ [?p])) (words (drop (Suc ?e) ?t)))"
        using IH [OF 3(1) refl 3(2) refl refl _ refl False] e False prems(1,2) unfolding rest by auto
      have "tokenized mem str fin mem'" by (rule tokenized_step [OF r(2) w(3,4) prems(1)]) (use w(5) in simp)
      moreover have "c_string (drop ?p mem') = Some (takeWhile (\<lambda>c. c \<noteq> NUL) w)" using tokenized_word [OF _ _ w(2)] e r(2) w(1) by metis
      moreover have "take (sz - length vec) (words (drop str ?t)) = w # take (sz - length (vec @ [?p])) (words (drop (Suc ?e) ?t))"
      proof -
        have "sz - length vec = Suc (sz - length (vec @ [?p]))" using prems(2) by simp
        then show ?thesis by (simp only: w(6) take_Suc_Cons)
      qed
      ultimately show ?thesis using one r(1,3) False by (intro exI [of _ "?p # vec'"] exI [of _ mem']) simp
    qed
  qed
qed

end
