(* ===== verification/Kv_Properties.thy ===== *)
theory Kv_Properties
  imports Kv_Tokens
begin

text \<open>
  Properties of the key-value cache: it refines a map whose updates overlay the old value, its requests are split into words, and
  which requests it forwards and which stop it.
\<close>

section \<open>The cache\<close>

text \<open>C4: From the empty cache, every sequence of set, compare-and-set and delete operations on keys and values of less than
  256 characters runs without an access past an array and gives the results of the same operations on a map from
  keys to arrays of characters, in which a new value overwrites the front of the old one only, and a compare-and-set of a missing key succeeds without storing anything.
  Lookup of any key then finds the entry whose value the map gives.\<close>

theorem kv_refines_map:
  assumes "list_all op_ok xs"
  shows "\<exists>st. kv_run xs kv_init = Some (fst (spec_run xs (\<lambda>_. None)), st) \<and>
    (\<forall>key. Option.bind (get_cache_entry key st) (\<lambda>a. map_option entry_value (kv_heap st a)) = snd (spec_run xs (\<lambda>_. None)) key)"
proof -
  from kv_run_refines [OF kv_init_ok(1) assms] obtain st where
    st: "kv_run xs kv_init = Some (fst (spec_run xs (\<lambda>_. None)), st)" "cached st = snd (spec_run xs (\<lambda>_. None))"
    by (auto simp: kv_init_ok(2))
  have "Option.bind (get_cache_entry key st) (\<lambda>a. map_option entry_value (kv_heap st a)) = cached st key" for key
    by (simp add: cached_def get_cache_entry_def find_elt_def)
  then show ?thesis using st by auto
qed

theorem kv_refines_map_witness:
  "\<exists>st. kv_run [Cas_op ''a'' ''x'' ''y'', Set_op ''a'' ''xyz'', Cas_op ''a'' ''xyz'' ''b'', Delete_op ''c''] kv_init = Some ([True, True, True, False], st) \<and>
    Option.bind (get_cache_entry ''a'' st) (\<lambda>a. map_option entry_value (kv_heap st a)) = Some (''byz'' @ replicate 253 NUL)"
proof -
  let ?xs = "[Cas_op ''a'' ''x'' ''y'', Set_op ''a'' ''xyz'', Cas_op ''a'' ''xyz'' ''b'', Delete_op ''c'']"
  have ok: "list_all op_ok ?xs" by (simp add: arg_ok_def)
  define R where "R = replicate 253 NUL"
  have o1: "overlay ''xyz'' (replicate 256 NUL) = ''xyz'' @ R" by (simp add: overlay_def R_def)
  have o2: "overlay ''b'' (''xyz'' @ R) = ''byz'' @ R" by (simp add: overlay_def)
  have c: "c_string (''xyz'' @ R) = Some ''xyz''" using c_string_zero_padded [of "''xyz''"] unfolding o1 by (simp add: arg_ok_def)
  have sp: "spec_run ?xs (\<lambda>_. None) = ([True, True, True, False], (\<lambda>_. None)(''a'' \<mapsto> ''byz'' @ R))"
    by (simp only: spec_run.simps spec_step.simps Let_def prod.case option.case fun_upd_same o1 c o2 if_True simp_thms fun_upd_upd)
       (simp add: fun_eq_iff)
  show ?thesis using kv_refines_map [OF ok] unfolding sp R_def by auto
qed

text \<open>A value set over an older one keeps the tail of the older value when it is shorter: what the cache then holds
  as a string is the new value followed by the rest of the old one.\<close>

theorem set_keeps_old_tail:
  assumes "kv_ok st" and "cached st key = None" and "arg_ok key" and "arg_ok v1" and "arg_ok v2"
  shows "\<exists>st1 st2 arr. set_cache_entry key v1 st = Some st1 \<and> set_cache_entry key v2 st1 = Some st2 \<and>
    cached st2 key = Some arr \<and> c_string arr = Some (v2 @ drop (length v2) v1)"
proof -
  obtain st1 where 1: "set_cache_entry key v1 st = Some st1" "kv_ok st1" "cached st1 key = Some (overlay v1 (replicate 256 NUL))"
    using set_refines [OF assms(1,3,4)] assms(2) by auto
  obtain st2 where 2: "set_cache_entry key v2 st1 = Some st2" "cached st2 key = Some (overlay v2 (overlay v1 (replicate 256 NUL)))"
    using set_refines [OF 1(2) assms(3,5)] 1(3) by auto
  let ?w = "v2 @ drop (length v2) v1"
  have w: "arg_ok ?w" using assms(4,5) by (auto simp: arg_ok_def dest: in_set_dropD)
  have "overlay v2 (overlay v1 (replicate 256 NUL)) = overlay ?w (replicate 256 NUL)"
    using assms(4,5) by (simp add: overlay_def arg_ok_def max_def)
  then show ?thesis using 1(1) 2 c_string_zero_padded [OF w] by auto
qed

theorem set_keeps_old_tail_witness:
  "\<exists>st1 st2 arr. set_cache_entry ''k'' ''long'' kv_init = Some st1 \<and> set_cache_entry ''k'' ''sh'' st1 = Some st2 \<and>
    cached st2 ''k'' = Some arr \<and> c_string arr = Some ''shng''"
  using set_keeps_old_tail [OF kv_init_ok(1), of "''k''" "''long''" "''sh''"] by (simp add: kv_init_ok(2) arg_ok_def)

section \<open>Requests\<close>

text \<open>C19: The tokenizer always ends; when there is a byte behind the request, it finds the first words of the request, at most as many as the vector
  has room for, each terminated by a zero, and changes nothing else than spaces and the byte behind the request.\<close>

theorem tokenizer_splits_words:
  assumes "len < length mem" and "0 < sz"
  shows "\<exists>vec mem'. ascii_tokenize_command mem 0 len [] sz = Inr (vec, mem') \<and>
    map (\<lambda>i. c_string (drop i mem')) vec = map (\<lambda>w. Some (takeWhile (\<lambda>c. c \<noteq> NUL) w)) (take sz (words (take len mem))) \<and>
    length mem' = length mem \<and> (\<forall>i. i < length mem \<longrightarrow> mem' ! i \<noteq> mem ! i \<longrightarrow> mem' ! i = NUL \<and> (i = len \<or> i < len \<and> is_space (mem ! i)))"
proof -
  from tokenize [OF assms(1), of "[]" sz 0] assms(2) obtain vec mem' where
    t: "ascii_tokenize_command mem 0 len [] sz = Inr (vec, mem')" "tokenized mem 0 len mem'"
    "map (\<lambda>i. c_string (drop i mem')) vec = map (\<lambda>w. Some (takeWhile (\<lambda>c. c \<noteq> NUL) w)) (take sz (words (take len mem)))" by auto
  have "mem' ! i = NUL \<and> (i = len \<or> i < len \<and> is_space (mem ! i))" if "i < length mem" "mem' ! i \<noteq> mem ! i" for i
    using t(2) that unfolding tokenized_def by (meson le_neq_implies_less)
  then show ?thesis using t tokenized_length [OF t(2)] by blast
qed

theorem tokenizer_splits_words_witness:
  "\<exists>vec mem'. ascii_tokenize_command ''set  k 0X'' 0 8 [] 10 = Inr (vec, mem') \<and> map (\<lambda>i. c_string (drop i mem')) vec = [Some ''set'', Some ''k'', Some ''0'']"
proof -
  have w: "words (take 8 ''set  k 0X'') = [''set'', ''k'', ''0'']" by (simp add: words.simps is_space_def)
  from tokenizer_splits_words [of 8 "''set  k 0X''" 10] show ?thesis unfolding w by auto
qed

text \<open>A lookup the cache cannot answer is forwarded with its separators overwritten: the frame that goes to the server holds
  zeros where the request had the space before the key and the carriage return behind it.\<close>

theorem missed_get_forwarded_with_zeros:
  assumes "key \<noteq> []" and "list_all (\<lambda>c. \<not> is_space c \<and> c \<noteq> NUL) key" and "get_cache_entry key st = None" and "behind \<noteq> []"
  shows "client_cache_lookup junk True (''get '' @ key @ [CHR 0x0D, CHR 0x0A] @ behind) (length key + 6) st =
    Inr ([''get'' @ [NUL] @ key @ [NUL, CHR 0x0A]], st)"
proof -
  let ?n = "length key" and ?crlf = "[CHR 0x0D, CHR 0x0A]"
  let ?m = "''get '' @ key @ ?crlf @ behind" and ?m1 = "''get'' @ [NUL] @ key @ ?crlf @ behind" and ?m2 = "''get'' @ [NUL] @ key @ [NUL, CHR 0x0A] @ behind"
  have sp: "is_space CHR '' ''" "is_space CHR 0x0D" "is_space CHR 0x0A" "\<not> is_space CHR ''g''" "\<not> is_space CHR ''e''" "\<not> is_space CHR ''t''"
    by (simp_all add: is_space_def)
  obtain k ks where k: "key = k # ks" using assms(1) by (cases key) auto
  have ns: "list_all (\<lambda>c. \<not> is_space c) key" and nul: "NUL \<notin> set key" using assms(2) by (auto simp: list_all_iff)
  have cmd: "ascii_to_command ?m (?n + 6) = GET_CMD" using sp by (simp add: ascii_to_command_def commands_def command_hit_def)
  have front: "take (?n + 6) (a @ b # key @ [c, d] @ behind) = a @ b # key @ [c, d]" if "length a = 3" for a b c d
    using that take_append [of "?n + 6" "a @ b # key @ [c, d]" behind] by simp
  have tk: "take (?n + 6) ?m = ''get '' @ key @ ?crlf" "take (?n + 6) ?m1 = ''get'' @ [NUL] @ key @ ?crlf" "take (?n + 6) ?m2 = ''get'' @ [NUL] @ key @ [NUL, CHR 0x0A]"
    using front [of "''get''"] by simp_all
  have s0: "scan is_space ?m 0 (?n + 6) = 0" using sp by (subst scan.simps) simp
  have e0: "scan (\<lambda>c. \<not> is_space c) ?m 0 (?n + 6) = 3" using sp by (subst scan_takeWhile) (simp, simp, simp only: tk, simp)
  have s1: "scan is_space ?m1 4 (?n + 6) = 4" using ns k by (subst scan.simps) simp
  have e1: "scan (\<lambda>c. \<not> is_space c) ?m1 4 (?n + 6) = 4 + ?n"
    using sp ns by (subst scan_takeWhile) (simp, simp, simp only: tk, simp add: takeWhile_append list_all_iff)
  have tail: "drop (Suc (4 + ?n)) (''get'' @ [NUL] @ key @ [NUL, CHR 0x0A]) = [CHR 0x0A]"
    using drop_append [of "Suc (4 + ?n)" "''get'' @ [NUL] @ key @ [NUL]" "[CHR 0x0A]"] by simp
  have s2: "scan is_space ?m2 (Suc (4 + ?n)) (?n + 6) = ?n + 6"
    using sp by (subst scan_takeWhile) (simp, simp, simp only: tk tail, simp)
  have u: "?m[3 := NUL] = ?m1" "?m1[4 + ?n := NUL] = ?m2" by (simp_all add: numeral_eq_Suc list_update_append)
  have t2: "ascii_tokenize_command ?m2 (Suc (4 + ?n)) (?n + 6) [0, 4] 10 = Inr ([0, 4], ?m2)"
    by (subst ascii_tokenize_command.simps) (simp only: s2, simp)
  have t1: "ascii_tokenize_command ?m1 4 (?n + 6) [0] 10 = Inr ([0, 4], ?m2)"
    by (subst ascii_tokenize_command.simps) (simp only: s1 e1 Let_def u, simp add: t2 [simplified])
  have t0: "ascii_tokenize_command ?m 0 (?n + 6) [] 10 = Inr ([0, 4], ?m2)"
    by (subst ascii_tokenize_command.simps) (simp only: s0 e0 Let_def u, simp add: t1 [simplified])
  have tok: "token ?m2 [0, 4] 1 = Inr key"
    using c_string_append [of key "CHR 0x0A # behind"] nul by (simp add: token_def)
  show ?thesis
    using tok assms(3) by (simp add: client_cache_lookup_def parse_memcache_request_def cmd [simplified] t0 [simplified] process_get_command_def forward_to_server_def Let_def tk(3) [simplified])
qed

theorem missed_get_forwarded_with_zeros_witness:
  "client_cache_lookup False True (''get a'' @ [CHR 0x0D, CHR 0x0A] @ ''X'') 7 kv_init = Inr ([''get'' @ [NUL] @ ''a'' @ [NUL, CHR 0x0A]], kv_init)"
proof -
  have "get_cache_entry ''a'' kv_init = None" by (simp add: get_cache_entry_def kv_init_def HASH_FIND_STR_def HASH_FIND_BYHASHVALUE_def)
  then show ?thesis using missed_get_forwarded_with_zeros [of "''a''" kv_init "''X''" False] by (simp add: is_space_def)
qed

lemma command_letter:
  assumes "ascii_to_command mem len \<in> {GET_CMD, SET_CMD, DELETE_CMD}"
  shows "hd mem \<in> {CHR ''g'', CHR ''s'', CHR ''d''}"
proof -
  obtain c where f: "List.find (command_hit mem len) commands = Some c" and c: "snd (snd c) = ascii_to_command mem len"
    using assms unfolding ascii_to_command_def by (cases "List.find (command_hit mem len) commands") auto
  have "c \<in> set commands" "command_hit mem len c" using f unfolding find_Some_iff by auto
  with c have "take (fst (snd c)) mem = take (fst (snd c)) (fst c)" "0 < fst (snd c)" "hd (fst c) \<in> {CHR ''g'', CHR ''s'', CHR ''d''}" "fst c \<noteq> []"
    using assms by (auto simp: command_hit_def commands_def)
  then show ?thesis by (metis hd_take)
qed

text \<open>C36: A frame that is not blank and whose first byte is none of the letters g, s and d stops the program, whatever the cache holds.\<close>

theorem foreign_frames_abort:
  assumes "len < length mem" and "words (take len mem) \<noteq> []" and "hd mem \<notin> {CHR ''g'', CHR ''s'', CHR ''d''}"
  shows "client_cache_lookup junk server_handle mem len st = Inl Kv_abort"
proof -
  obtain vec mem' where t: "ascii_tokenize_command mem 0 len [] 10 = Inr (vec, mem')"
    "map (\<lambda>i. c_string (drop i mem')) vec = map (\<lambda>w. Some (takeWhile (\<lambda>c. c \<noteq> NUL) w)) (take 10 (words (take len mem)))"
    using tokenize [OF assms(1), of "[]" 10 0] by auto
  have "length vec = length (take 10 (words (take len mem)))" using arg_cong [OF t(2), of length] by simp
  then have ne: "vec \<noteq> []" using assms(2) by (cases "words (take len mem)") auto
  have "token mem' vec (length vec - 1) \<noteq> Inl e" for e
  proof -
    have "c_string (drop (vec ! (length vec - 1)) mem') \<in> set (map (\<lambda>i. c_string (drop i mem')) vec)" using ne by simp
    then have "c_string (drop (vec ! (length vec - 1)) mem') \<noteq> None" unfolding t(2) by auto
    then show ?thesis using ne by (cases vec) (auto simp: token_def)
  qed
  then obtain s where s: "token mem' vec (length vec - 1) = Inr s" by (cases "token mem' vec (length vec - 1)") auto
  define cmd where "cmd = ascii_to_command mem len"
  have "cmd \<notin> {GET_CMD, SET_CMD, DELETE_CMD}" using command_letter assms(3) unfolding cmd_def by blast
  then have stop: "(case cmd of GET_CMD \<Rightarrow> A | SET_CMD \<Rightarrow> B | DELETE_CMD \<Rightarrow> C | _ \<Rightarrow> Inl Kv_abort) = Inl Kv_abort" for A B C :: "kv_error + bool option \<times> kv_state"
    by (cases cmd) auto
  show ?thesis unfolding client_cache_lookup_def parse_memcache_request_def t(1) sum.case prod.case Let_def s cmd_def [symmetric] stop
    using ne by (simp split: prod.split)
qed

theorem foreign_frames_abort_witness:
  "client_cache_lookup True True [CHR 0x02, CHR 0x00, CHR 0x5E, CHR 0x10, CHR 0x00] 4 kv_init = Inl Kv_abort"
  by (rule foreign_frames_abort) (simp_all add: words.simps is_space_def)

end
