(* ===== verification/Vj_Compression.thy ===== *)
theory Vj_Compression
  imports Fec_Pcap
begin

text \<open>
  The header compression booster, \<^verbatim>\<open>cpuBoosters/vjCompressor/vjCompression.cpp\<close> and \<^verbatim>\<open>compressor.h\<close>, and the program around it,
  \<^verbatim>\<open>pcapCompressorAndDecompressor.cpp\<close>. The compressor replaces the headers of a TCP packet by a compressed header when the packet before
  it in the same slot of a cache belongs to the same flow; the decompressor keeps a cache of its own.

  A packet is the memory from its address on, so that reads behind its end are visible. Structures are laid out as on a little-endian machine whose compiler
  fills bit fields from the least significant bit. Uninitialised variables of the functions are arguments. A write behind the decompressor's buffer is the outcome
  \<open>Indeterminate\<close>.
\<close>

section \<open>Headers\<close>

definition ETHERTYPE_IP :: u16 where "ETHERTYPE_IP = 0x0800"
definition ETYPE_COMPRESSED :: u16 where "ETYPE_COMPRESSED = 0x1234"
definition CACHE_SZ :: u32 where "CACHE_SZ = 1024"

record ipHeader_t =
  ihl_version :: u8
  tos :: u8
  tot_len :: u16
  ip_id :: u16
  frag_off :: u16
  ttl :: u8
  proto :: u8
  ip_check :: u16
  saddr :: u32
  daddr :: u32

record tcpHeader_t =
  source :: u16
  dest :: u16
  seq :: u32
  ack_seq :: u32
  tcp_flags :: u16
  window :: u16
  tcp_check :: u16
  urg_ptr :: u16

record compressedHeader_t =
  slotId :: u16 \<comment> \<open>ten bits\<close>
  seqChange :: u8 \<comment> \<open>one bit\<close>
  ackChange :: u8 \<comment> \<open>one bit\<close>
  c_pad :: u8 \<comment> \<open>four bits\<close>
  c_tot_len :: u16
  c_id :: u16
  c_flags :: u16
  c_window :: u16
  c_check :: u16
  c_urg_ptr :: u16

record compressorTuple_t =
  tup_len :: u16
  tup_idx :: u16
  ipHeader :: ipHeader_t
  tcpHeader :: tcpHeader_t

text \<open>The casts of a packet pointer to a structure, and the bytes of a structure that is copied to a packet.\<close>

definition load32 :: "bytes \<Rightarrow> nat \<Rightarrow> u32" where
  "load32 p i = ucast (load16 p i) OR push_bit 16 (ucast (load16 p (i + 2)))"

definition bytes16 :: "u16 \<Rightarrow> u8 list" where
  "bytes16 v = [ucast v, ucast (drop_bit 8 v)]"

definition bytes32 :: "u32 \<Rightarrow> u8 list" where
  "bytes32 v = bytes16 (ucast v) @ bytes16 (ucast (drop_bit 16 v))"

definition ntohl :: "u32 \<Rightarrow> u32" where
  "ntohl v = push_bit 16 (ucast (htons (ucast v))) OR ucast (htons (ucast (drop_bit 16 v)))"

definition ip_at :: "bytes \<Rightarrow> nat \<Rightarrow> ipHeader_t" where
  "ip_at p a = \<lparr>ihl_version = p a, tos = p (a + 1), tot_len = load16 p (a + 2), ip_id = load16 p (a + 4), frag_off = load16 p (a + 6),
     ttl = p (a + 8), proto = p (a + 9), ip_check = load16 p (a + 10), saddr = load32 p (a + 12), daddr = load32 p (a + 16)\<rparr>"

definition ip_bytes :: "ipHeader_t \<Rightarrow> u8 list" where
  "ip_bytes h = [ihl_version h, tos h] @ bytes16 (tot_len h) @ bytes16 (ip_id h) @ bytes16 (frag_off h) @ [ttl h, proto h] @ bytes16 (ip_check h) @
     bytes32 (saddr h) @ bytes32 (daddr h)"

definition tcp_at :: "bytes \<Rightarrow> nat \<Rightarrow> tcpHeader_t" where
  "tcp_at p a = \<lparr>source = load16 p a, dest = load16 p (a + 2), seq = load32 p (a + 4), ack_seq = load32 p (a + 8), tcp_flags = load16 p (a + 12),
     window = load16 p (a + 14), tcp_check = load16 p (a + 16), urg_ptr = load16 p (a + 18)\<rparr>"

definition tcp_bytes :: "tcpHeader_t \<Rightarrow> u8 list" where
  "tcp_bytes h = bytes16 (source h) @ bytes16 (dest h) @ bytes32 (seq h) @ bytes32 (ack_seq h) @ bytes16 (tcp_flags h) @ bytes16 (window h) @
     bytes16 (tcp_check h) @ bytes16 (urg_ptr h)"

definition control_bits :: "compressedHeader_t \<Rightarrow> u16" where
  "control_bits h = (slotId h AND 0x3FF) OR push_bit 10 (ucast (seqChange h AND 1)) OR push_bit 11 (ucast (ackChange h AND 1)) OR
     push_bit 12 (ucast (c_pad h AND 15))"

definition compressed_bytes :: "compressedHeader_t \<Rightarrow> u8 list" where
  "compressed_bytes h = bytes16 (control_bits h) @ bytes16 (c_tot_len h) @ bytes16 (c_id h) @ bytes16 (c_flags h) @ bytes16 (c_window h) @
     bytes16 (c_check h) @ bytes16 (c_urg_ptr h)"

definition compressed_at :: "bytes \<Rightarrow> nat \<Rightarrow> compressedHeader_t" where
  "compressed_at p a =
     (let ctl = load16 p a in
      \<lparr>slotId = ctl AND 0x3FF, seqChange = ucast (drop_bit 10 ctl AND 1), ackChange = ucast (drop_bit 11 ctl AND 1), c_pad = ucast (drop_bit 12 ctl),
       c_tot_len = load16 p (a + 2), c_id = load16 p (a + 4), c_flags = load16 p (a + 6), c_window = load16 p (a + 8), c_check = load16 p (a + 10),
       c_urg_ptr = load16 p (a + 12)\<rparr>)"

definition SIZE_IP :: nat where "SIZE_IP = 20"
definition SIZE_TCP :: nat where "SIZE_TCP = 20"
definition SIZE_COMPRESSED :: nat where "SIZE_COMPRESSED = 14"

section \<open>The checksum\<close>

fun ccsum_sum :: "bytes \<Rightarrow> nat \<Rightarrow> nat \<Rightarrow> u32 \<Rightarrow> u32" where
  \<comment> \<open>the loop over the words from \<open>d\<close> and the odd byte behind them\<close>
  "ccsum_sum buf d len r =
     (if 1 < len then ccsum_sum buf (d + 2) (len - 2) (r + ucast (load16 buf d))
      else if len \<noteq> 0 then r + ucast (buf d)
      else r)"

declare ccsum_sum.simps [simp del]

lemma unat_u32_mask16: "unat (r AND 0xFFFF :: u32) = unat r mod 65536"
proof -
  have "r AND 0xFFFF = take_bit 16 r" by (simp add: take_bit_eq_mask mask_eq_exp_minus_1)
  then show ?thesis by (simp add: take_bit_eq_mod unat_mod)
qed

lemma unat_u32_drop16: "unat (drop_bit 16 r :: u32) = unat r div 65536"
  by (simp add: drop_bit_eq_div unat_div)

lemma unat_fold_step: "unat ((r AND 0xFFFF) + drop_bit 16 r :: u32) = unat r mod 65536 + unat r div 65536"
proof -
  have "unat r < 4294967296" using unsigned_less [of r, where ?'a = nat] by simp
  then have "unat r mod 65536 + unat r div 65536 < 2 ^ 32" by simp
  then show ?thesis by (simp add: unat_word_ariths unat_u32_mask16 unat_u32_drop16)
qed

function ccsum_fold :: "u32 \<Rightarrow> u32" where
  "ccsum_fold r = (if drop_bit 16 r \<noteq> 0 then ccsum_fold ((r AND 0xFFFF) + drop_bit 16 r) else r)"
  by pat_completeness auto
termination
proof (relation "measure unat")
  fix r :: u32
  assume "drop_bit 16 r \<noteq> 0"
  then have "unat (drop_bit 16 r) \<noteq> 0" by (simp add: unsigned_eq_0_iff)
  then have "0 < unat r div 65536" by (simp add: unat_u32_drop16)
  moreover have "unat r = 65536 * (unat r div 65536) + unat r mod 65536" by simp
  ultimately have "unat r mod 65536 + unat r div 65536 < unat r" by linarith
  then show "((r AND 0xFFFF) + drop_bit 16 r, r) \<in> measure unat" by (simp add: unat_fold_step)
qed simp

declare ccsum_fold.simps [simp del]

definition ccsum :: "bytes \<Rightarrow> nat \<Rightarrow> u16" where
  "ccsum buf buflen = ucast (NOT (ccsum_fold (ccsum_sum buf 0 buflen 0)))"

section \<open>The compressor\<close>

record compressor =
  compressorCache :: "compressorTuple_t list"
  compressPktId :: u32

definition checkCache :: "compressor \<Rightarrow> compressorTuple_t \<Rightarrow> bool" where
  "checkCache st curPktTup =
     (let lastPkt = compressorCache st ! unat (tup_idx curPktTup) in
      saddr (ipHeader lastPkt) = saddr (ipHeader curPktTup) \<and> daddr (ipHeader lastPkt) = daddr (ipHeader curPktTup) \<and>
      source (tcpHeader lastPkt) = source (tcpHeader curPktTup) \<and> dest (tcpHeader lastPkt) = dest (tcpHeader curPktTup))"

definition buildCompressedHeader :: "compressor \<Rightarrow> compressorTuple_t \<Rightarrow> compressedHeader_t" where
  "buildCompressedHeader st curPktTup =
     (let lastPkt = compressorCache st ! unat (tup_idx curPktTup) in
      \<lparr>slotId = tup_idx curPktTup AND 0x3FF,
       seqChange = (if seq (tcpHeader lastPkt) \<noteq> seq (tcpHeader curPktTup) then 1 else 0),
       ackChange = (if ack_seq (tcpHeader lastPkt) \<noteq> ack_seq (tcpHeader curPktTup) then 1 else 0),
       c_pad = 0, c_tot_len = tot_len (ipHeader curPktTup), c_id = ip_id (ipHeader curPktTup), c_flags = tcp_flags (tcpHeader curPktTup),
       c_window = window (tcpHeader curPktTup), c_check = tcp_check (tcpHeader curPktTup), c_urg_ptr = urg_ptr (tcpHeader curPktTup)\<rparr>)"

definition compressed_packet :: "bytes \<Rightarrow> bytes \<Rightarrow> u32 \<Rightarrow> compressedHeader_t \<Rightarrow> compressorTuple_t \<Rightarrow> frame list" where
  \<comment> \<open>assembling and forwarding the compressed packet; \<open>buf0\<close> is the array before\<close>
  "compressed_packet buf0 packet payloadLen ch curPktTup =
     (let buf = store16 (memcpy buf0 0 packet SIZE_ETHERNET) 12 (htons ETYPE_COMPRESSED); n = SIZE_ETHERNET;
          buf = memcpy buf n ((!) (compressed_bytes ch)) SIZE_COMPRESSED; n = n + SIZE_COMPRESSED;
          (buf, n) = (if seqChange ch = 1 then (memcpy buf n ((!) (bytes32 (seq (tcpHeader curPktTup)))) 4, n + 4) else (buf, n));
          (buf, n) = (if ackChange ch = 1 then (memcpy buf n ((!) (bytes32 (ack_seq (tcpHeader curPktTup)))) 4, n + 4) else (buf, n));
          buf = memcpy buf n (ptr_add packet (SIZE_ETHERNET + SIZE_IP + SIZE_TCP)) (unat payloadLen); n = n + unat payloadLen
      in forward_frame buf n)"

definition flow_index :: "ipHeader_t \<Rightarrow> u16" where
  "flow_index ip = ucast (ntohl (saddr ip) mod CACHE_SZ)"

definition compress :: "bytes \<Rightarrow> bytes \<Rightarrow> u32 \<Rightarrow> compressor \<Rightarrow> compressor \<times> frame list" where
  "compress buf0 packet pktLen st0 =
     (let st = st0\<lparr>compressPktId := compressPktId st0 + 1\<rparr>;
          ip = ip_at packet SIZE_ETHERNET; tcp = tcp_at packet (SIZE_ETHERNET + SIZE_IP);
          payloadLen = pktLen - of_nat (SIZE_ETHERNET + SIZE_IP + SIZE_TCP)
      in
      if htons (load16 packet 12) = ETHERTYPE_IP \<and> proto ip = 6 then
        let curPktTup = \<lparr>tup_len = ucast pktLen, tup_idx = flow_index ip, ipHeader = ip, tcpHeader = tcp\<rparr> in
        if tup_len curPktTup < 100 then (st, forward_frame packet (unat pktLen))
        else
          let st1 = st\<lparr>compressorCache := (compressorCache st)[unat (tup_idx curPktTup) := curPktTup]\<rparr> in
          if \<not> checkCache st curPktTup then (st1, forward_frame packet (unat pktLen))
          else (st1, compressed_packet buf0 packet payloadLen (buildCompressedHeader st curPktTup) curPktTup)
      else (st, forward_frame packet (unat pktLen)))"

section \<open>The decompressor\<close>

record decompressor =
  decompressorCache :: "compressorTuple_t list"
  decompressPktId :: u32

definition rebuilt_ip :: "ipHeader_t \<Rightarrow> compressedHeader_t \<Rightarrow> ipHeader_t" where
  "rebuilt_ip lastIp cHeader =
     (let ip = lastIp\<lparr>tot_len := c_tot_len cHeader, ip_id := c_id cHeader, ip_check := 0\<rparr>
      in ip\<lparr>ip_check := ccsum ((!) (ip_bytes ip)) SIZE_IP\<rparr>)"

definition set_slot_tcp :: "(tcpHeader_t \<Rightarrow> tcpHeader_t) \<Rightarrow> nat \<Rightarrow> decompressor \<Rightarrow> decompressor" where
  "set_slot_tcp f i st =
     st\<lparr>decompressorCache := (decompressorCache st)[i := (decompressorCache st ! i)\<lparr>tcpHeader := f (tcpHeader (decompressorCache st ! i))\<rparr>]\<rparr>"

definition buildDecompressedHeaders ::
    "bytes \<Rightarrow> nat \<Rightarrow> compressorTuple_t \<Rightarrow> decompressor \<Rightarrow> decompressor \<times> compressorTuple_t \<times> nat" where
  \<comment> \<open>the compressed header is at offset \<open>a\<close> of the packet; the last result is the header's length\<close>
  "buildDecompressedHeaders packet a tup0 st =
     (let cHeader = compressed_at packet a; pos = a + SIZE_COMPRESSED; idx = slotId cHeader;
          lastPktTup = decompressorCache st ! unat idx;
          (st1, seq1, pos1) =
            (if seqChange cHeader = 1
             then let v = load32 packet pos in (set_slot_tcp (\<lambda>t. t\<lparr>seq := v\<rparr>) (unat idx) st, v, pos + 4)
             else (st, seq (tcpHeader lastPktTup), pos));
          (st2, ack1, pos2) =
            (if ackChange cHeader = 1
             then let v = load32 packet pos1 in (set_slot_tcp (\<lambda>t. t\<lparr>ack_seq := v\<rparr>) (unat idx) st1, v, pos1 + 4)
             else (st1, ack_seq (tcpHeader lastPktTup), pos1));
          tcp = \<lparr>source = source (tcpHeader lastPktTup), dest = dest (tcpHeader lastPktTup), seq = seq1, ack_seq = ack1,
                 tcp_flags = c_flags cHeader, window = c_window cHeader, tcp_check = c_check cHeader, urg_ptr = c_urg_ptr cHeader\<rparr>
      in (st2, tup0\<lparr>tup_idx := idx, ipHeader := rebuilt_ip (ipHeader lastPktTup) cHeader, tcpHeader := tcp\<rparr>, pos2 - a))"

definition decompressedPktBuf_size :: nat where "decompressedPktBuf_size = 1500"

definition decompressed_packet :: "bytes \<Rightarrow> bytes \<Rightarrow> u32 \<Rightarrow> nat \<Rightarrow> compressorTuple_t \<Rightarrow> halt + frame list" where
  \<comment> \<open>filling the output buffer and forwarding it; \<open>buf0\<close> is the array before\<close>
  "decompressed_packet buf0 packet pktLen cHeaderLen curPktTup =
     (let buf = store16 (memcpy buf0 0 packet SIZE_ETHERNET) 12 (htons ETHERTYPE_IP); n = SIZE_ETHERNET;
          buf = memcpy buf n ((!) (ip_bytes (ipHeader curPktTup))) SIZE_IP; n = n + SIZE_IP;
          buf = memcpy buf n ((!) (tcp_bytes (tcpHeader curPktTup))) SIZE_TCP; n = n + SIZE_TCP;
          payloadLen = pktLen - of_nat (SIZE_ETHERNET + cHeaderLen)
      in
      if decompressedPktBuf_size < n + unat payloadLen then Inl Indeterminate
      else
        let buf = memcpy buf n (ptr_add packet (SIZE_ETHERNET + cHeaderLen)) (unat payloadLen); n = n + unat payloadLen
        in Inr (forward_frame buf n))"

definition decompress ::
    "compressorTuple_t \<Rightarrow> bytes \<Rightarrow> bytes \<Rightarrow> u32 \<Rightarrow> decompressor \<Rightarrow> halt + decompressor \<times> frame list" where
  "decompress tup0 buf0 packet pktLen st0 =
     (let st = st0\<lparr>decompressPktId := decompressPktId st0 + 1\<rparr>; ether_type = htons (load16 packet 12) in
      if ether_type = ETHERTYPE_IP then
        if pktLen < 100 then Inr (st, forward_frame packet (unat pktLen))
        else
          let ip = ip_at packet SIZE_ETHERNET in
          if proto ip = 6 then
            let curPktTup = \<lparr>tup_len = ucast pktLen, tup_idx = flow_index ip, ipHeader = ip, tcpHeader = tcp_at packet (SIZE_ETHERNET + SIZE_IP)\<rparr>
            in Inr (st\<lparr>decompressorCache := (decompressorCache st)[unat (tup_idx curPktTup) := curPktTup]\<rparr>, forward_frame packet (unat pktLen))
          else Inr (st, [])
      else if ether_type \<noteq> ETYPE_COMPRESSED then Inr (st, forward_frame packet (unat pktLen))
      else
        let (st1, curPktTup, cHeaderLen) = buildDecompressedHeaders packet SIZE_ETHERNET tup0 st in
        case decompressed_packet buf0 packet pktLen cHeaderLen curPktTup of
          Inl err \<Rightarrow> Inl err
        | Inr out \<Rightarrow> Inr (st1, out))"

section \<open>The program\<close>

definition zero_tuple :: compressorTuple_t where
  "zero_tuple =
     \<lparr>tup_len = 0, tup_idx = 0,
      ipHeader = \<lparr>ihl_version = 0, tos = 0, tot_len = 0, ip_id = 0, frag_off = 0, ttl = 0, proto = 0, ip_check = 0, saddr = 0, daddr = 0\<rparr>,
      tcpHeader = \<lparr>source = 0, dest = 0, seq = 0, ack_seq = 0, tcp_flags = 0, window = 0, tcp_check = 0, urg_ptr = 0\<rparr>\<rparr>"

definition compressor_init :: compressor where
  "compressor_init = \<lparr>compressorCache = replicate 1024 zero_tuple, compressPktId = 0\<rparr>"

definition decompressor_init :: decompressor where
  "decompressor_init = \<lparr>decompressorCache = replicate 1024 zero_tuple, decompressPktId = 0\<rparr>"

definition in_memory :: "bytes \<Rightarrow> frame \<Rightarrow> bytes" where
  \<comment> \<open>a captured frame, and whatever follows it in memory\<close>
  "in_memory beyond f = (\<lambda>i. if i < length f then f ! i else beyond i)"

primrec compress_run :: "bytes \<Rightarrow> bytes \<Rightarrow> frame list \<Rightarrow> compressor \<Rightarrow> compressor \<times> frame list" where
  \<comment> \<open>\<open>pcap_loop\<close> with \<open>compressHandler\<close>\<close>
  "compress_run beyond buf0 [] st = (st, [])"
| "compress_run beyond buf0 (f # fs) st =
     (let (st1, out1) = compress buf0 (in_memory beyond f) (of_nat (length f)) st; (st2, out2) = compress_run beyond buf0 fs st1
      in (st2, out1 @ out2))"

primrec decompress_run :: "compressorTuple_t \<Rightarrow> bytes \<Rightarrow> bytes \<Rightarrow> frame list \<Rightarrow> decompressor \<Rightarrow> halt + decompressor \<times> frame list" where
  \<comment> \<open>\<open>pcap_loop\<close> with \<open>decompressHandler\<close>\<close>
  "decompress_run tup0 beyond buf0 [] st = Inr (st, [])"
| "decompress_run tup0 beyond buf0 (f # fs) st =
     (case decompress tup0 buf0 (in_memory beyond f) (of_nat (length f)) st of
        Inl err \<Rightarrow> Inl err
      | Inr (st1, out1) \<Rightarrow>
          (case decompress_run tup0 beyond buf0 fs st1 of Inl err \<Rightarrow> Inl err | Inr (st2, out2) \<Rightarrow> Inr (st2, out1 @ out2)))"

record vj_options =
  vj_if_name :: "string option"
  vj_oif_name :: "string option"
  vj_flow :: int

primrec vj_main_options :: "(char \<times> string) list \<Rightarrow> vj_options \<Rightarrow> halt + vj_options" where
  "vj_main_options [] os = Inr os"
| "vj_main_options (oa # oas) os =
     (let (opt, optarg) = oa in
      if opt = CHR ''i'' then vj_main_options oas (os\<lparr>vj_if_name := Some optarg\<rparr>)
      else if opt = CHR ''o'' then vj_main_options oas (os\<lparr>vj_oif_name := Some optarg\<rparr>)
      else if opt = CHR ''f'' then vj_main_options oas (os\<lparr>vj_flow := atoi optarg\<rparr>)
      else Inl Abort)"

definition vj_main ::
    "(string option \<Rightarrow> bool) \<Rightarrow> compressorTuple_t \<Rightarrow> bytes \<Rightarrow> bytes \<Rightarrow> (char \<times> string) list \<Rightarrow> frame list \<Rightarrow> halt + bool \<times> frame list" where
  \<comment> \<open>\<open>pcap_open_live\<close> succeeds for the interfaces of the first argument; the flag of the result says that the frames leave by an interface of their own\<close>
  "vj_main pcap_open tup0 beyond buf0 opts fs =
     (case vj_main_options opts \<lparr>vj_if_name = None, vj_oif_name = None, vj_flow = 0\<rparr> of
        Inl err \<Rightarrow> Inl err
      | Inr os \<Rightarrow>
          if \<not> pcap_open (vj_if_name os) then Inl (Exit 1)
          else
            let output_handle = (vj_oif_name os \<noteq> None \<and> pcap_open (vj_oif_name os)) in
            if vj_flow os = 0 then Inr (output_handle, snd (compress_run beyond buf0 fs compressor_init))
            else if vj_flow os = 1 then
              (case decompress_run tup0 beyond buf0 fs decompressor_init of Inl err \<Rightarrow> Inl err | Inr (st, out) \<Rightarrow> Inr (output_handle, out))
            else if vj_flow os = 2 then Inr (output_handle, concat (map (\<lambda>f. forward_frame (in_memory beyond f) (length f)) fs))
            else Inr (output_handle, []))"

end
