(* ===== verification/Vj_Roundtrip.thy ===== *)
theory Vj_Roundtrip
  imports Vj_Compression
begin

text \<open>
  Compressing and decompressing the packets of one link. The bytes of a header and its fields determine each other, the recomputed checksum is the one that the
  sender stored, and the two caches agree on what the decompressor takes from them. A packet is then
  restored byte by byte.
\<close>

section \<open>Bytes at an address\<close>

definition bytes_at :: "bytes \<Rightarrow> nat \<Rightarrow> u8 list \<Rightarrow> bool" where
  "bytes_at p a xs \<longleftrightarrow> (\<forall>i<length xs. p (a + i) = xs ! i)"

lemma bytes_at_Nil [simp]: "bytes_at p a []"
  by (simp add: bytes_at_def)

lemma bytes_at_Cons [simp]: "bytes_at p a (x # xs) \<longleftrightarrow> p a = x \<and> bytes_at p (a + 1) xs"
proof -
  have "(\<forall>i<Suc (length xs). p (a + i) = (x # xs) ! i) \<longleftrightarrow> p a = x \<and> (\<forall>i<length xs. p (Suc (a + i)) = xs ! i)"
    by (auto simp: less_Suc_eq_0_disj)
  then show ?thesis by (simp add: bytes_at_def)
qed

lemma bytes_at_append: "bytes_at p a (xs @ ys) \<longleftrightarrow> bytes_at p a xs \<and> bytes_at p (a + length xs) ys"
  by (induction xs arbitrary: a) auto

lemma bytes_at_drop: "bytes_at p a xs \<Longrightarrow> bytes_at p (a + n) (drop n xs)"
  by (simp add: bytes_at_def add.assoc)

lemma bytes_at_take: "bytes_at p a xs \<Longrightarrow> bytes_at p a (take n xs)"
  by (simp add: bytes_at_def)

lemma bytes_at_in_memory: "bytes_at (in_memory beyond f) 0 f"
  by (simp add: bytes_at_def in_memory_def)

lemma frame_of_eq: "bytes_at p 0 f \<Longrightarrow> frame_of p (length f) = f"
  by (rule nth_equalityI) (simp_all add: bytes_at_def frame_of_def)

lemma frame_of_bytes_at: "bytes_at p a f \<Longrightarrow> frame_of (ptr_add p a) (length f) = f"
  by (rule nth_equalityI) (simp_all add: bytes_at_def frame_of_def ptr_add_def)

lemma frame_of_memcpy [simp]: "frame_of (memcpy buf n src m) (n + m) = frame_of buf n @ frame_of src m"
  by (rule nth_equalityI) (auto simp: frame_of_def memcpy_def nth_append)

lemma frame_of_list [simp]: "frame_of ((!) xs) (length xs) = xs"
  by (rule nth_equalityI) (simp_all add: frame_of_def)

section \<open>Fields and bytes\<close>

lemma length_bytes16 [simp]: "length (bytes16 v) = 2"
  by (simp add: bytes16_def)

lemma length_bytes32 [simp]: "length (bytes32 v) = 4"
  by (simp add: bytes32_def)

lemma length_header_bytes [simp]:
  "length (ip_bytes ip) = SIZE_IP" "length (tcp_bytes tcp) = SIZE_TCP" "length (compressed_bytes ch) = SIZE_COMPRESSED"
  by (simp_all add: ip_bytes_def tcp_bytes_def compressed_bytes_def SIZE_IP_def SIZE_TCP_def SIZE_COMPRESSED_def)

lemma bytes_at_load16: "bytes_at p a (bytes16 (load16 p a))"
  by (simp add: bytes16_def load16_def)
    (rule conjI; rule bit_word_eqI; auto simp: bit_unsigned_iff bit_or_iff bit_push_bit_iff bit_drop_bit_eq dest: bit_imp_le_length)

lemma load16_bytes_at: "bytes_at p a (bytes16 v) \<Longrightarrow> load16 p a = v"
  by (rule bit_word_eqI)
    (auto simp: load16_def bytes16_def bit_or_iff bit_push_bit_iff bit_unsigned_iff bit_drop_bit_eq dest: bit_imp_le_length)

lemma u32_halves: "ucast (ucast v :: u16) OR push_bit 16 (ucast (ucast (drop_bit 16 v) :: u16)) = (v :: u32)"
  by (rule bit_word_eqI)
    (auto simp: bit_or_iff bit_push_bit_iff bit_unsigned_iff bit_drop_bit_eq dest: bit_imp_le_length)

lemma u32_low: "ucast (ucast (x :: u16) OR push_bit 16 (ucast (y :: u16)) :: u32) = x"
  by (rule bit_word_eqI)
    (auto simp: bit_or_iff bit_push_bit_iff bit_unsigned_iff bit_drop_bit_eq dest: bit_imp_le_length)

lemma u32_high: "ucast (drop_bit 16 (ucast (x :: u16) OR push_bit 16 (ucast (y :: u16)) :: u32)) = y"
  by (rule bit_word_eqI)
    (auto simp: bit_or_iff bit_push_bit_iff bit_unsigned_iff bit_drop_bit_eq dest: bit_imp_le_length)

lemma bytes_at_load32: "bytes_at p a (bytes32 (load32 p a))"
  using bytes_at_load16 [of p a] bytes_at_load16 [of p "a + 2"]
  by (simp add: bytes32_def load32_def u32_low u32_high bytes_at_append del: drop_bit_or)

lemma load32_bytes_at: "bytes_at p a (bytes32 v) \<Longrightarrow> load32 p a = v"
  using load16_bytes_at [of p a "ucast v"] load16_bytes_at [of p "a + 2" "ucast (drop_bit 16 v)"]
  by (simp add: bytes32_def load32_def bytes_at_append u32_halves)

lemma one_one_nat: "1 + (1 + a) = a + (2 :: nat)"
  by simp

lemma bytes_at_ip_at: "bytes_at p a (ip_bytes (ip_at p a))"
  using bytes_at_load16 [of p "a + 2"] bytes_at_load16 [of p "a + 4"] bytes_at_load16 [of p "a + 6"] bytes_at_load16 [of p "a + 10"]
    bytes_at_load32 [of p "a + 12"] bytes_at_load32 [of p "a + 16"]
  by (simp add: ip_bytes_def ip_at_def bytes_at_append one_one_nat ac_simps del: add_2_eq_Suc add_2_eq_Suc' One_nat_def)

lemma bytes_at_tcp_at: "bytes_at p a (tcp_bytes (tcp_at p a))"
  using bytes_at_load16 [of p a] bytes_at_load16 [of p "a + 2"] bytes_at_load32 [of p "a + 4"] bytes_at_load32 [of p "a + 8"]
    bytes_at_load16 [of p "a + 12"] bytes_at_load16 [of p "a + 14"] bytes_at_load16 [of p "a + 16"] bytes_at_load16 [of p "a + 18"]
  by (simp add: tcp_bytes_def tcp_at_def bytes_at_append ac_simps del: add_2_eq_Suc add_2_eq_Suc' One_nat_def)

definition compressed_ok :: "compressedHeader_t \<Rightarrow> bool" where
  "compressed_ok ch \<longleftrightarrow> slotId ch < 1024 \<and> seqChange ch \<in> {0, 1} \<and> ackChange ch \<in> {0, 1} \<and> c_pad ch = 0"

lemma and_3FF: "(x AND 0x3FF :: u16) = take_bit 10 x"
  by (simp add: take_bit_eq_mask mask_eq_exp_minus_1)

lemma small_take_bit: "(x :: u16) < 1024 \<Longrightarrow> take_bit 10 x = x"
  by (simp add: take_bit_eq_mod word_less_nat_alt word_unat_eq_iff unat_mod)

lemma control_bits_fields:
  assumes "compressed_ok ch"
  shows "control_bits ch AND 0x3FF = slotId ch" "ucast (drop_bit 10 (control_bits ch) AND 1) = seqChange ch"
    "ucast (drop_bit 11 (control_bits ch) AND 1) = ackChange ch" "ucast (drop_bit 12 (control_bits ch)) = c_pad ch"
proof -
  have s: "take_bit 10 (slotId ch) = slotId ch" using assms by (simp add: compressed_ok_def small_take_bit)
  have hi: "\<not> bit (slotId ch) n" if "10 \<le> n" for n
    using that s by (metis bit_take_bit_iff not_le)
  have c: "control_bits ch = slotId ch OR push_bit 10 (ucast (seqChange ch)) OR push_bit 11 (ucast (ackChange ch))"
    using assms s by (auto simp: control_bits_def compressed_ok_def and_3FF)
  have q: "seqChange ch = 0 \<or> seqChange ch = 1" "ackChange ch = 0 \<or> ackChange ch = 1" "c_pad ch = 0"
    using assms by (auto simp: compressed_ok_def)
  show "control_bits ch AND 0x3FF = slotId ch" unfolding c and_3FF
    by (rule bit_word_eqI) (use hi in \<open>auto simp: bit_take_bit_iff bit_or_iff bit_push_bit_iff bit_unsigned_iff not_less\<close>)
  show "ucast (drop_bit 10 (control_bits ch) AND 1) = seqChange ch" unfolding c
    by (rule bit_word_eqI) (use q hi in \<open>auto simp: bit_and_iff bit_drop_bit_eq bit_or_iff bit_push_bit_iff bit_unsigned_iff bit_1_iff\<close>)
  show "ucast (drop_bit 11 (control_bits ch) AND 1) = ackChange ch" unfolding c
    by (rule bit_word_eqI) (use q hi in \<open>auto simp: bit_and_iff bit_drop_bit_eq bit_or_iff bit_push_bit_iff bit_unsigned_iff bit_1_iff\<close>)
  show "ucast (drop_bit 12 (control_bits ch)) = c_pad ch" unfolding c
    by (rule bit_word_eqI) (use q hi in \<open>auto simp: bit_and_iff bit_drop_bit_eq bit_or_iff bit_push_bit_iff bit_unsigned_iff bit_1_iff\<close>)
qed

lemma compressed_at_bytes:
  assumes "bytes_at p a (compressed_bytes ch)" and "compressed_ok ch"
  shows "compressed_at p a = ch"
proof -
  have "load16 p a = control_bits ch" "load16 p (a + 2) = c_tot_len ch" "load16 p (a + 4) = c_id ch" "load16 p (a + 6) = c_flags ch"
    "load16 p (a + 8) = c_window ch" "load16 p (a + 10) = c_check ch" "load16 p (a + 12) = c_urg_ptr ch"
    using assms(1) by (auto intro!: load16_bytes_at simp: compressed_bytes_def bytes_at_append ac_simps simp del: add_2_eq_Suc add_2_eq_Suc')
  with control_bits_fields [OF assms(2)] show ?thesis by (simp add: compressed_at_def Let_def)
qed

section \<open>The checksum\<close>

lemma ccsum_fold_bound: "unat (ccsum_fold r) < 65536"
proof (induction r rule: ccsum_fold.induct)
  case (1 r)
  have "unat r < 65536" if "drop_bit 16 r = 0" using unat_u32_drop16 [of r] that by auto
  with 1 show ?case by (subst ccsum_fold.simps) auto
qed

lemma fold_step_mod: "(x mod 65536 + x div 65536) mod 65535 = x mod (65535 :: nat)"
proof -
  have "x = x mod 65536 + x div 65536 + 65535 * (x div 65536)" using div_mult_mod_eq [of x 65536] by linarith
  then show ?thesis by (metis mod_mult_self2)
qed

lemma ccsum_fold_mod: "unat (ccsum_fold r) mod 65535 = unat r mod 65535"
proof (induction r rule: ccsum_fold.induct)
  case (1 r)
  then show ?case by (subst ccsum_fold.simps) (auto simp: unat_fold_step fold_step_mod)
qed

lemma ccsum_fold_0_iff: "ccsum_fold r = 0 \<longleftrightarrow> r = 0"
proof (induction r rule: ccsum_fold.induct)
  case (1 r)
  have "(r AND 0xFFFF) + drop_bit 16 r = 0 \<longleftrightarrow> r = 0"
  proof -
    have "unat r mod 65536 + unat r div 65536 = 0 \<longleftrightarrow> unat r = 0" using div_mult_mod_eq [of "unat r" 65536] by auto
    then show ?thesis by (metis unat_fold_step unat_eq_zero)
  qed
  with 1 show ?case by (subst ccsum_fold.simps) auto
qed

lemma unat_not_u16: "unat (NOT y :: u16) = 65535 - unat y"
proof -
  have b: "0 \<le> uint y" "uint y < 65536" using unsigned_less [of y, where ?'a = int] by simp_all
  have "uint (NOT y) = (65535 - uint y + - 1 * 65536) mod 65536"
    by (simp only: unsigned_not_eq) (simp add: take_bit_eq_mod not_eq_complement minus_diff_commute [of 1 "uint y"])
  also have "\<dots> = (65535 - uint y) mod 65536" by (rule mod_mult_self1)
  also have "\<dots> = 65535 - uint y" using b by (intro mod_pos_pos_trivial) linarith+
  finally have "nat (uint (NOT y)) = nat (65535 - uint y)" by (rule arg_cong)
  also have "\<dots> = nat 65535 - nat (uint y)" using b by (intro nat_diff_distrib) linarith+
  also have "nat 65535 = 65535" by simp
  finally show ?thesis unfolding unat_eq_nat_uint .
qed

lemma ccsum_unat: "unat (ccsum buf n) = 65535 - unat (ccsum_fold (ccsum_sum buf 0 n 0))"
proof -
  let ?x = "ccsum_fold (ccsum_sum buf 0 n 0)"
  have "ucast (NOT ?x) = (NOT (ucast ?x) :: u16)" by (rule bit_word_eqI) (auto simp: bit_unsigned_iff bit_not_iff)
  moreover have "unat (ucast ?x :: u16) = unat ?x" using ccsum_fold_bound [of "ccsum_sum buf 0 n 0"] by (simp add: unsigned_ucast_eq take_bit_eq_mod)
  ultimately show ?thesis by (simp add: ccsum_def unat_not_u16)
qed

lemma ccsum_complement:
  fixes s c :: nat
  assumes "(s + c) mod 65535 = 0" and "c < 65535" and "f < 65536" and "f mod 65535 = s mod 65535" and "0 < f"
  shows "65535 - f = c"
proof -
  have "(f + c) mod 65535 = 0" using assms(1,4) by (metis mod_add_left_eq)
  then have "65535 dvd f + c" by presburger
  then obtain k where "f + c = 65535 * k" by (elim dvdE)
  moreover from this assms have "k = 1" by (cases k; simp; cases "k - 1"; simp)
  ultimately show ?thesis by simp
qed

lemma unat_ccsum_sum:
  assumes "unat r + 65536 * n < 4294967296"
  shows "unat (ccsum_sum buf d (2 * n) r) = unat r + (\<Sum>i<n. unat (load16 buf (d + 2 * i)))"
  using assms
proof (induction n arbitrary: d r)
  case 0
  then show ?case by (simp add: ccsum_sum.simps)
next
  case (Suc n)
  let ?r = "r + ucast (load16 buf d)"
  have w: "unat (load16 buf d) < 65536" using unsigned_less [of "load16 buf d", where ?'a = nat] by simp
  then have u: "unat ?r = unat r + unat (load16 buf d)" using Suc.prems by (simp add: unat_word_ariths unsigned_ucast_eq take_bit_eq_mod)
  have "unat (ccsum_sum buf (d + 2) (2 * n) ?r) = unat ?r + (\<Sum>i<n. unat (load16 buf (d + 2 + 2 * i)))"
    using Suc.prems w u by (intro Suc.IH) simp
  then show ?case by (subst ccsum_sum.simps) (simp add: u sum.lessThan_Suc_shift del: sum.lessThan_Suc)
qed

lemma ip_sum:
  "unat (ccsum_sum ((!) (ip_bytes ip)) 0 SIZE_IP 0) =
   unat (ccsum_sum ((!) (ip_bytes (ip\<lparr>ip_check := 0\<rparr>))) 0 SIZE_IP 0) + unat (ip_check ip)"
proof -
  have c: "load16 ((!) (ip_bytes h)) 10 = ip_check h" for h
    by (rule load16_bytes_at) (simp add: ip_bytes_def bytes16_def bytes32_def)
  have o: "load16 ((!) (ip_bytes (ip\<lparr>ip_check := 0\<rparr>))) (2 * i) = load16 ((!) (ip_bytes ip)) (2 * i)" if "i < 10" "i \<noteq> 5" for i
    using that by (auto simp: load16_def ip_bytes_def bytes16_def bytes32_def nth_Cons' numeral_eq_Suc)
  have s: "unat (ccsum_sum ((!) (ip_bytes h)) 0 SIZE_IP 0) = (\<Sum>i<10. unat (load16 ((!) (ip_bytes h)) (2 * i)))" for h
    using unat_ccsum_sum [of 0 10 "(!) (ip_bytes h)" 0] by (simp add: SIZE_IP_def)
  have "(\<Sum>i<10. f i) = (\<Sum>i\<in>{..<10} - {5 :: nat}. f i) + f 5" for f :: "nat \<Rightarrow> nat"
    by (simp add: sum.remove [of "{..<10}" 5])
  then show ?thesis using c o by (simp add: s)
qed

lemma ccsum_recomputed:
  assumes "ccsum ((!) (ip_bytes ip)) SIZE_IP = 0" and "ip_check ip \<noteq> 0xFFFF"
  shows "ccsum ((!) (ip_bytes (ip\<lparr>ip_check := 0\<rparr>))) SIZE_IP = ip_check ip"
proof -
  let ?t = "ccsum_sum ((!) (ip_bytes ip)) 0 SIZE_IP 0" and ?s = "ccsum_sum ((!) (ip_bytes (ip\<lparr>ip_check := 0\<rparr>))) 0 SIZE_IP 0"
  have c: "unat (ip_check ip) < 65535"
  proof -
    have "unat (ip_check ip) < 65536" using unsigned_less [of "ip_check ip", where ?'a = nat] by simp
    moreover have "unat (ip_check ip) \<noteq> 65535" using assms(2) by (simp add: word_unat_eq_iff)
    ultimately show ?thesis by linarith
  qed
  have f: "unat (ccsum_fold ?t) = 65535"
    using assms(1) ccsum_unat [of "(!) (ip_bytes ip)" SIZE_IP] ccsum_fold_bound [of ?t] by simp
  then have "(unat ?s + unat (ip_check ip)) mod 65535 = 0" using ccsum_fold_mod [of ?t] by (simp add: ip_sum [of ip])
  moreover have "?s \<noteq> 0"
  proof
    assume "?s = 0"
    then have t: "unat ?t = unat (ip_check ip)" by (simp add: ip_sum [of ip])
    with ccsum_fold_mod [of ?t] f c have "unat (ip_check ip) = 0" by simp
    with t f ccsum_fold_0_iff [of ?t] show False by (simp add: unsigned_eq_0_iff)
  qed
  then have "0 < unat (ccsum_fold ?s)" using ccsum_fold_0_iff [of ?s] by (simp add: unat_gt_0)
  ultimately have "65535 - unat (ccsum_fold ?s) = unat (ip_check ip)"
    by (intro ccsum_complement [of "unat ?s"]) (simp_all add: c ccsum_fold_bound ccsum_fold_mod)
  then show ?thesis by (simp add: word_unat_eq_iff ccsum_unat)
qed

section \<open>The compressed packet\<close>

lemma store16_12: "frame_of (store16 (memcpy buf0 0 p SIZE_ETHERNET) 12 v) SIZE_ETHERNET = frame_of p 12 @ bytes16 v"
  by (rule nth_equalityI) (auto simp: frame_of_def store16_def memcpy_def SIZE_ETHERNET_def nth_append bytes16_def nth_Cons')

lemma frame_of_memcpy_at: "k = n + m \<Longrightarrow> frame_of (memcpy buf n src m) k = frame_of buf n @ frame_of src m"
  by simp

lemma frame_of_nth_at: "n = length xs \<Longrightarrow> frame_of ((!) xs) n = xs"
  by simp

lemmas buffer_simps = frame_of_memcpy_at frame_of_nth_at store16_12 [unfolded SIZE_ETHERNET_def] SIZE_ETHERNET_def SIZE_IP_def SIZE_TCP_def SIZE_COMPRESSED_def

definition optional_fields :: "compressedHeader_t \<Rightarrow> tcpHeader_t \<Rightarrow> u8 list" where
  "optional_fields ch tcp = (if seqChange ch = 1 then bytes32 (seq tcp) else []) @ (if ackChange ch = 1 then bytes32 (ack_seq tcp) else [])"

lemma compressed_packet_frame:
  "compressed_packet buf0 packet payloadLen ch t =
   [frame_of packet 12 @ bytes16 (htons ETYPE_COMPRESSED) @ compressed_bytes ch @ optional_fields ch (tcpHeader t) @
    frame_of (ptr_add packet 54) (unat payloadLen)]"
  by (cases "seqChange ch = 1"; cases "ackChange ch = 1")
    (simp_all add: compressed_packet_def Let_def forward_frame_def optional_fields_def buffer_simps del: frame_of_memcpy)

lemma decompressed_packet_frame:
  "decompressed_packet buf0 packet pktLen n t =
   (if 1500 < 54 + unat (pktLen - of_nat (SIZE_ETHERNET + n)) then Inl Indeterminate
    else Inr [frame_of packet 12 @ bytes16 (htons ETHERTYPE_IP) @ ip_bytes (ipHeader t) @ tcp_bytes (tcpHeader t) @
      frame_of (ptr_add packet (SIZE_ETHERNET + n)) (unat (pktLen - of_nat (SIZE_ETHERNET + n)))])"
  by (simp add: decompressed_packet_def Let_def forward_frame_def decompressedPktBuf_size_def buffer_simps del: frame_of_memcpy)

section \<open>Restoring a packet\<close>

definition fixed_fields :: "ipHeader_t \<Rightarrow> u8 \<times> u8 \<times> u16 \<times> u8 \<times> u8" where
  \<comment> \<open>the fields that the decompressor takes from its cache, the flow apart\<close>
  "fixed_fields ip = (ihl_version ip, tos ip, frag_off ip, ttl ip, proto ip)"

lemma rebuilt_ip_eq:
  assumes "fixed_fields prev = fixed_fields ip" "saddr prev = saddr ip" "daddr prev = daddr ip" "c_tot_len ch = tot_len ip" "c_id ch = ip_id ip"
    and "ccsum ((!) (ip_bytes ip)) SIZE_IP = 0" "ip_check ip \<noteq> 0xFFFF"
  shows "rebuilt_ip prev ch = ip"
proof -
  have "prev\<lparr>tot_len := c_tot_len ch, ip_id := c_id ch, ip_check := 0\<rparr> = ip\<lparr>ip_check := 0\<rparr>"
    using assms(1-5) by (simp add: fixed_fields_def)
  then show ?thesis using ccsum_recomputed [OF assms(6,7)] by (simp add: rebuilt_ip_def Let_def)
qed

lemma same_fields [simp]:
  "(tcp :: tcpHeader_t)\<lparr>seq := seq tcp\<rparr> = tcp" "(tcp :: tcpHeader_t)\<lparr>ack_seq := ack_seq tcp\<rparr> = tcp" "tup\<lparr>tcpHeader := tcpHeader tup\<rparr> = (tup :: compressorTuple_t)"
  "(st :: decompressor)\<lparr>decompressorCache := decompressorCache st\<rparr> = st"
  by simp_all

lemma compressed_header_length:
  "compressed_at q a = ch \<Longrightarrow> snd (snd (buildDecompressedHeaders q a tup0 st)) = SIZE_COMPRESSED + length (optional_fields ch tcp)"
  by (simp add: buildDecompressedHeaders_def Let_def optional_fields_def split_beta)

lemma buildDecompressedHeaders_eq:
  fixes st tcp ch
  defines "i \<equiv> unat (slotId ch)"
  defines "prev \<equiv> decompressorCache st ! i"
  assumes b: "bytes_at q a (compressed_bytes ch @ optional_fields ch tcp)" and ok: "compressed_ok ch" and i: "i < length (decompressorCache st)"
    and s: "seqChange ch \<noteq> 1 \<Longrightarrow> seq (tcpHeader prev) = seq tcp" and k: "ackChange ch \<noteq> 1 \<Longrightarrow> ack_seq (tcpHeader prev) = ack_seq tcp"
  shows "buildDecompressedHeaders q a tup0 st =
    (st\<lparr>decompressorCache := (decompressorCache st)[i := prev\<lparr>tcpHeader := (tcpHeader prev)\<lparr>seq := seq tcp, ack_seq := ack_seq tcp\<rparr>\<rparr>]\<rparr>,
     tup0\<lparr>tup_idx := slotId ch, ipHeader := rebuilt_ip (ipHeader prev) ch,
       tcpHeader := \<lparr>source = source (tcpHeader prev), dest = dest (tcpHeader prev), seq = seq tcp, ack_seq = ack_seq tcp, tcp_flags = c_flags ch,
         window = c_window ch, tcp_check = c_check ch, urg_ptr = c_urg_ptr ch\<rparr>\<rparr>,
     SIZE_COMPRESSED + length (optional_fields ch tcp))"
proof -
  have c: "compressed_at q a = ch" using b ok by (simp add: bytes_at_append compressed_at_bytes)
  have f: "bytes_at q (a + SIZE_COMPRESSED) (optional_fields ch tcp)" using b by (simp add: bytes_at_append)
  have f1: "seqChange ch = 1 \<Longrightarrow> load32 q (a + SIZE_COMPRESSED) = seq tcp"
    using f by (auto simp: optional_fields_def bytes_at_append intro: load32_bytes_at split: if_splits)
  have f2: "ackChange ch = 1 \<Longrightarrow> load32 q (a + SIZE_COMPRESSED + (if seqChange ch = 1 then 4 else 0)) = ack_seq tcp"
    using f by (auto simp: optional_fields_def bytes_at_append intro: load32_bytes_at split: if_splits)
  show ?thesis
    by (cases "seqChange ch = 1"; cases "ackChange ch = 1")
      (use f1 f2 i s [symmetric] k [symmetric] in
        \<open>simp_all add: buildDecompressedHeaders_def c Let_def set_slot_tcp_def optional_fields_def i_def prev_def\<close>)
qed

section \<open>The two caches\<close>

type_synonym flow = "u32 \<times> u32 \<times> u16 \<times> u16"

definition flow_of :: "ipHeader_t \<Rightarrow> tcpHeader_t \<Rightarrow> flow" where
  "flow_of ip tcp = (saddr ip, daddr ip, source tcp, dest tcp)"

definition slots_agree :: "(flow \<Rightarrow> u8 \<times> u8 \<times> u16 \<times> u8 \<times> u8) \<Rightarrow> compressorTuple_t \<Rightarrow> compressorTuple_t \<Rightarrow> bool" where
  "slots_agree F c d \<longleftrightarrow>
     flow_of (ipHeader c) (tcpHeader c) = flow_of (ipHeader d) (tcpHeader d) \<and>
     seq (tcpHeader c) = seq (tcpHeader d) \<and> ack_seq (tcpHeader c) = ack_seq (tcpHeader d) \<and>
     (flow_of (ipHeader d) (tcpHeader d) \<noteq> (0, 0, 0, 0) \<longrightarrow> fixed_fields (ipHeader d) = F (flow_of (ipHeader d) (tcpHeader d)))"

definition caches_agree :: "(flow \<Rightarrow> u8 \<times> u8 \<times> u16 \<times> u8 \<times> u8) \<Rightarrow> compressor \<Rightarrow> decompressor \<Rightarrow> bool" where
  "caches_agree F st dt \<longleftrightarrow>
     length (compressorCache st) = 1024 \<and> length (decompressorCache dt) = 1024 \<and>
     (\<forall>i<1024. slots_agree F (compressorCache st ! i) (decompressorCache dt ! i))"

lemma caches_agree_init: "caches_agree F compressor_init decompressor_init"
  by (simp add: caches_agree_def compressor_init_def decompressor_init_def slots_agree_def zero_tuple_def flow_of_def)

lemma caches_agree_update:
  assumes "caches_agree F st dt" and "slots_agree F c d"
    and "compressorCache st' = (compressorCache st)[i := c]" "decompressorCache dt' = (decompressorCache dt)[i := d]"
  shows "caches_agree F st' dt'"
  unfolding caches_agree_def
proof (intro conjI allI impI)
  fix j :: nat
  assume "j < 1024"
  then show "slots_agree F (compressorCache st' ! j) (decompressorCache dt' ! j)"
    using assms by (cases "i = j") (auto simp: caches_agree_def)
qed (use assms in \<open>simp_all add: caches_agree_def\<close>)

lemma caches_agree_same:
  assumes "caches_agree F st dt" and "compressorCache st' = compressorCache st" "decompressorCache dt' = decompressorCache dt"
  shows "caches_agree F st' dt'"
  using assms by (simp add: caches_agree_def)

definition tcp_frame :: "frame \<Rightarrow> bool" where
  \<comment> \<open>the frames that the compressor looks up\<close>
  "tcp_frame f \<longleftrightarrow> htons (load16 ((!) f) 12) = ETHERTYPE_IP \<and> 100 \<le> length f"

definition vj_frame_ok :: "(flow \<Rightarrow> u8 \<times> u8 \<times> u16 \<times> u8 \<times> u8) \<Rightarrow> frame \<Rightarrow> bool" where
  "vj_frame_ok F f \<longleftrightarrow>
     14 \<le> length f \<and> length f < 2 ^ 32 \<and> htons (load16 ((!) f) 12) \<noteq> ETYPE_COMPRESSED \<and>
     (tcp_frame f \<longrightarrow>
        length f \<le> 1500 \<and>
        (let ip = ip_at ((!) f) 14; tcp = tcp_at ((!) f) 34 in
         proto ip = 6 \<and> ccsum ((!) (ip_bytes ip)) SIZE_IP = 0 \<and> ip_check ip \<noteq> 0xFFFF \<and>
         flow_of ip tcp \<noteq> (0, 0, 0, 0) \<and> fixed_fields ip = F (flow_of ip tcp)))"

lemma in_memory_reads:
  "14 \<le> length f \<Longrightarrow> load16 (in_memory beyond f) 12 = load16 ((!) f) 12"
  "54 \<le> length f \<Longrightarrow> ip_at (in_memory beyond f) 14 = ip_at ((!) f) 14"
  "54 \<le> length f \<Longrightarrow> tcp_at (in_memory beyond f) 34 = tcp_at ((!) f) 34"
  by (simp_all add: load16_def load32_def ip_at_def tcp_at_def in_memory_def)

lemma frame_of_in_memory [simp]: "frame_of (in_memory beyond f) (length f) = f"
  by (rule frame_of_eq [OF bytes_at_in_memory])

lemma unat_of_nat_u32: "n < 2 ^ 32 \<Longrightarrow> unat (of_nat n :: u32) = n"
  by (simp add: unat_of_nat)

lemma ucast_of_nat_u16: "n < 65536 \<Longrightarrow> (ucast (of_nat n :: u32) :: u16) = of_nat n"
  by (simp add: unsigned_of_nat take_bit_nat_eq_self)

text \<open>Frames that are not looked up pass both sides.\<close>

lemma other_frames_pass:
  assumes "vj_frame_ok F f" and "\<not> tcp_frame f"
  shows "compress buf0 (in_memory beyond f) (of_nat (length f)) st = (st\<lparr>compressPktId := compressPktId st + 1\<rparr>, [f])"
    and "decompress tup0 buf1 (in_memory beyond' f) (of_nat (length f)) dt = Inr (dt\<lparr>decompressPktId := decompressPktId dt + 1\<rparr>, [f])"
proof -
  have n: "unat (of_nat (length f) :: u32) = length f" and m: "14 \<le> length f" and t: "htons (load16 ((!) f) 12) \<noteq> ETYPE_COMPRESSED"
    using assms(1) by (auto simp: vj_frame_ok_def unat_of_nat_u32)
  have s: "(ucast (of_nat (length f) :: u32) :: u16) < 100" "(of_nat (length f) :: u32) < 100" if "length f < 100"
    using that n by (simp_all add: word_less_nat_alt unsigned_ucast_eq take_bit_eq_mod)
  show "compress buf0 (in_memory beyond f) (of_nat (length f)) st = (st\<lparr>compressPktId := compressPktId st + 1\<rparr>, [f])"
    using assms(2) m s by (auto simp: compress_def Let_def in_memory_reads n forward_frame_def tcp_frame_def)
  show "decompress tup0 buf1 (in_memory beyond' f) (of_nat (length f)) dt = Inr (dt\<lparr>decompressPktId := decompressPktId dt + 1\<rparr>, [f])"
    using assms(2) m s t by (auto simp: decompress_def Let_def in_memory_reads n forward_frame_def tcp_frame_def)
qed

text \<open>Frames that are looked up.\<close>

definition frame_tuple :: "frame \<Rightarrow> compressorTuple_t" where
  "frame_tuple f =
     \<lparr>tup_len = of_nat (length f), tup_idx = flow_index (ip_at ((!) f) 14), ipHeader = ip_at ((!) f) 14, tcpHeader = tcp_at ((!) f) 34\<rparr>"

lemma flow_index_bound: "unat (flow_index ip) < 1024"
  by (simp add: flow_index_def CACHE_SZ_def unsigned_ucast_eq take_bit_eq_mod unat_mod)

lemma compress_tcp_frame:
  assumes "tcp_frame f" and "proto (ip_at ((!) f) 14) = 6" and "length f < 65536"
  defines "t \<equiv> frame_tuple f"
  shows "compress buf0 (in_memory beyond f) (of_nat (length f)) st =
    (st\<lparr>compressPktId := compressPktId st + 1, compressorCache := (compressorCache st)[unat (tup_idx t) := t]\<rparr>,
     if checkCache st t then compressed_packet buf0 (in_memory beyond f) (of_nat (length f - 54)) (buildCompressedHeader st t) t else [f])"
proof -
  have l: "100 \<le> length f" "length f < 65536" "htons (load16 ((!) f) 12) = ETHERTYPE_IP" "proto (ip_at ((!) f) 14) = 6"
    using assms by (simp_all add: tcp_frame_def)
  then have n: "unat (of_nat (length f) :: u32) = length f" by (simp add: unat_of_nat_u32)
  have u: "(ucast (of_nat (length f) :: u32) :: u16) = of_nat (length f)" using l by (simp add: ucast_of_nat_u16)
  have s: "\<not> (of_nat (length f) :: u16) < 100" using l by (simp add: word_less_nat_alt unat_of_nat)
  have p: "(of_nat (length f - 54) :: u32) = of_nat (length f) - 54" using l by (simp add: of_nat_diff)
  have c: "checkCache (st\<lparr>compressPktId := x\<rparr>) = checkCache st" "buildCompressedHeader (st\<lparr>compressPktId := x\<rparr>) = buildCompressedHeader st" for x
    by (simp_all add: fun_eq_iff checkCache_def buildCompressedHeader_def)
  show ?thesis using l s
    by (simp add: compress_def Let_def in_memory_reads n u p c forward_frame_def t_def frame_tuple_def SIZE_ETHERNET_def SIZE_IP_def SIZE_TCP_def)
qed

lemma ok_tcp_frame:
  assumes "vj_frame_ok F f" and "tcp_frame f"
  shows "tcp_frame f" "proto (ip_at ((!) f) 14) = 6" "length f < 65536"
  using assms by (simp_all add: vj_frame_ok_def Let_def)

lemma decompress_tcp_frame:
  assumes "vj_frame_ok F f" and "tcp_frame f"
  defines "t \<equiv> frame_tuple f"
  shows "decompress tup0 buf0 (in_memory beyond f) (of_nat (length f)) dt =
    Inr (dt\<lparr>decompressPktId := decompressPktId dt + 1, decompressorCache := (decompressorCache dt)[unat (tup_idx t) := t]\<rparr>, [f])"
proof -
  have l: "100 \<le> length f" "length f \<le> 1500" "htons (load16 ((!) f) 12) = ETHERTYPE_IP" "proto (ip_at ((!) f) 14) = 6"
    using assms by (simp_all add: vj_frame_ok_def tcp_frame_def Let_def)
  then have n: "unat (of_nat (length f) :: u32) = length f" by (simp add: unat_of_nat_u32)
  have u: "(ucast (of_nat (length f) :: u32) :: u16) = of_nat (length f)" using l by (simp add: ucast_of_nat_u16)
  have s: "\<not> (of_nat (length f) :: u32) < 100" using l n by (simp add: word_less_nat_alt)
  show ?thesis using l s
    by (simp add: decompress_def Let_def in_memory_reads n u forward_frame_def t_def frame_tuple_def SIZE_ETHERNET_def SIZE_IP_def)
qed

lemma frame_parts:
  assumes "htons (load16 p 12) = ETHERTYPE_IP"
  shows "frame_of p (54 + n) =
    frame_of p 12 @ bytes16 (htons ETHERTYPE_IP) @ ip_bytes (ip_at p 14) @ tcp_bytes (tcp_at p 34) @ frame_of (ptr_add p 54) n"
proof -
  have "load16 p 12 = htons ETHERTYPE_IP" using assms by (metis htons_htons)
  then have "bytes_at p 12 (bytes16 (htons ETHERTYPE_IP))" using bytes_at_load16 [of p 12] by simp
  moreover have "bytes_at p 0 (frame_of p 12)" "bytes_at p 54 (frame_of (ptr_add p 54) n)"
    by (simp_all add: bytes_at_def frame_of_def ptr_add_def)
  ultimately have "bytes_at p 0 (frame_of p 12 @ bytes16 (htons ETHERTYPE_IP) @ ip_bytes (ip_at p 14) @ tcp_bytes (tcp_at p 34) @ frame_of (ptr_add p 54) n)"
    using bytes_at_ip_at [of p 14] bytes_at_tcp_at [of p 34] by (simp add: bytes_at_append SIZE_IP_def SIZE_TCP_def frame_of_def [of p 12])
  from frame_of_eq [OF this] show ?thesis by (simp add: SIZE_IP_def SIZE_TCP_def frame_of_def)
qed

lemma compressed_header_ok: "unat (tup_idx t) < 1024 \<Longrightarrow> compressed_ok (buildCompressedHeader st t) \<and> slotId (buildCompressedHeader st t) = tup_idx t"
  by (simp add: compressed_ok_def buildCompressedHeader_def Let_def and_3FF small_take_bit word_less_nat_alt)

lemma length_optional_fields: "length (optional_fields ch tcp) \<le> 8"
  by (simp add: optional_fields_def)

text \<open>A compressed packet as the decompressor sees it.\<close>

lemma decompress_compressed:
  fixes ch tcp e pl
  defines "g \<equiv> e @ bytes16 (htons ETYPE_COMPRESSED) @ compressed_bytes ch @ optional_fields ch tcp @ pl"
  assumes e: "length e = 12" and pl: "length pl \<le> 1446" and ok: "compressed_ok ch" and i: "unat (slotId ch) < length (decompressorCache dt)"
    and sa: "seqChange ch \<noteq> 1 \<longrightarrow> seq (tcpHeader prev) = seq tcp" "ackChange ch \<noteq> 1 \<longrightarrow> ack_seq (tcpHeader prev) = ack_seq tcp"
    and prev: "prev = decompressorCache dt ! unat (slotId ch)"
  shows "decompress tup0 buf0 (in_memory beyond g) (of_nat (length g)) dt =
    Inr (dt\<lparr>decompressPktId := decompressPktId dt + 1,
             decompressorCache := (decompressorCache dt)[unat (slotId ch) := prev\<lparr>tcpHeader := (tcpHeader prev)\<lparr>seq := seq tcp, ack_seq := ack_seq tcp\<rparr>\<rparr>]\<rparr>,
         [e @ bytes16 (htons ETHERTYPE_IP) @ ip_bytes (rebuilt_ip (ipHeader prev) ch) @
          tcp_bytes \<lparr>source = source (tcpHeader prev), dest = dest (tcpHeader prev), seq = seq tcp, ack_seq = ack_seq tcp, tcp_flags = c_flags ch,
            window = c_window ch, tcp_check = c_check ch, urg_ptr = c_urg_ptr ch\<rparr> @ pl])"
proof -
  let ?q = "in_memory beyond g" and ?n = "SIZE_COMPRESSED + length (optional_fields ch tcp)"
  let ?dt = "dt\<lparr>decompressPktId := decompressPktId dt + 1\<rparr>"
  have b: "bytes_at ?q 0 e" "bytes_at ?q 12 (bytes16 (htons ETYPE_COMPRESSED))" "bytes_at ?q 14 (compressed_bytes ch @ optional_fields ch tcp)"
    "bytes_at ?q (14 + ?n) pl"
    using bytes_at_in_memory [of beyond g] by (simp_all add: g_def bytes_at_append e add.assoc)
  have ty: "load16 ?q 12 = htons ETYPE_COMPRESSED" by (rule load16_bytes_at [OF b(2)])
  have lg: "length g = 14 + ?n + length pl" by (simp add: g_def e)
  have "?n \<le> 22" using length_optional_fields [of ch tcp] by (simp add: SIZE_COMPRESSED_def)
  then have pay: "unat (of_nat (length g) - of_nat (14 + ?n) :: u32) = length pl" using pl unfolding lg of_nat_add by (simp add: unat_of_nat)
  have h: "buildDecompressedHeaders ?q 14 tup0 ?dt =
    (?dt\<lparr>decompressorCache := (decompressorCache dt)[unat (slotId ch) := prev\<lparr>tcpHeader := (tcpHeader prev)\<lparr>seq := seq tcp, ack_seq := ack_seq tcp\<rparr>\<rparr>]\<rparr>,
     tup0\<lparr>tup_idx := slotId ch, ipHeader := rebuilt_ip (ipHeader prev) ch,
       tcpHeader := \<lparr>source = source (tcpHeader prev), dest = dest (tcpHeader prev), seq = seq tcp, ack_seq = ack_seq tcp, tcp_flags = c_flags ch,
         window = c_window ch, tcp_check = c_check ch, urg_ptr = c_urg_ptr ch\<rparr>\<rparr>, ?n)"
    using buildDecompressedHeaders_eq [of ?q 14 ch tcp ?dt tup0] b(3) ok i sa prev by simp
  have pl': "frame_of (ptr_add ?q (14 + ?n)) (length pl) = pl" and e': "frame_of ?q 12 = e"
    using frame_of_bytes_at [OF b(4)] frame_of_eq [OF b(1)] e by simp_all
  have d: "decompressed_packet buf0 ?q (of_nat (length g)) ?n t =
      Inr [e @ bytes16 (htons ETHERTYPE_IP) @ ip_bytes (ipHeader t) @ tcp_bytes (tcpHeader t) @ pl]" for t
    using pl by (simp only: decompressed_packet_frame SIZE_ETHERNET_def pay pl' e') simp
  have "ETYPE_COMPRESSED \<noteq> ETHERTYPE_IP" by (simp add: ETYPE_COMPRESSED_def ETHERTYPE_IP_def)
  then show ?thesis by (simp add: decompress_def Let_def ty SIZE_ETHERNET_def h d)
qed

lemma hit_restored:
  assumes f: "vj_frame_ok F f" "tcp_frame f" and ag: "caches_agree F st dt" and hit: "checkCache st (frame_tuple f)"
  defines "t \<equiv> frame_tuple f"
  obtains g d where "compressed_packet buf0 (in_memory beyond f) (of_nat (length f - 54)) (buildCompressedHeader st t) t = [g]"
    "decompress tup0 buf1 (in_memory beyond' g) (of_nat (length g)) dt =
      Inr (dt\<lparr>decompressPktId := decompressPktId dt + 1, decompressorCache := (decompressorCache dt)[unat (tup_idx t) := d]\<rparr>, [f])"
    "slots_agree F t d" "length g + 18 \<le> length f"
proof -
  let ?p = "in_memory beyond f" and ?i = "unat (tup_idx t)" and ?ch = "buildCompressedHeader st t" and ?tcp = "tcpHeader t" and ?ip = "ipHeader t"
  have l: "100 \<le> length f" "length f \<le> 1500" "htons (load16 ?p 12) = ETHERTYPE_IP" "?ip = ip_at ?p 14" "?tcp = tcp_at ?p 34"
    using f by (simp_all add: vj_frame_ok_def tcp_frame_def Let_def t_def frame_tuple_def in_memory_reads)
  have ip: "ccsum ((!) (ip_bytes ?ip)) SIZE_IP = 0" "ip_check ?ip \<noteq> 0xFFFF" "flow_of ?ip ?tcp \<noteq> (0, 0, 0, 0)" "fixed_fields ?ip = F (flow_of ?ip ?tcp)"
    using f by (simp_all add: vj_frame_ok_def Let_def t_def frame_tuple_def)
  have i: "?i < 1024" by (simp add: t_def frame_tuple_def flow_index_bound)
  define prev where "prev = decompressorCache dt ! ?i"
  define d where "d = prev\<lparr>tcpHeader := (tcpHeader prev)\<lparr>seq := seq ?tcp, ack_seq := ack_seq ?tcp\<rparr>\<rparr>"
  let ?e = "frame_of ?p 12" and ?pl = "frame_of (ptr_add ?p 54) (length f - 54)"
  let ?g = "?e @ bytes16 (htons ETYPE_COMPRESSED) @ compressed_bytes ?ch @ optional_fields ?ch ?tcp @ ?pl"
  have sl: "slots_agree F (compressorCache st ! ?i) prev" using ag i by (simp add: caches_agree_def prev_def)
  have fl: "flow_of (ipHeader prev) (tcpHeader prev) = flow_of ?ip ?tcp"
    using sl hit by (simp add: slots_agree_def checkCache_def Let_def flow_of_def t_def)
  have fx: "fixed_fields (ipHeader prev) = fixed_fields ?ip" using sl fl ip(3,4) by (simp add: slots_agree_def)
  have sq: "seqChange ?ch \<noteq> 1 \<longrightarrow> seq (tcpHeader prev) = seq ?tcp" "ackChange ?ch \<noteq> 1 \<longrightarrow> ack_seq (tcpHeader prev) = ack_seq ?tcp"
    using sl by (auto simp: slots_agree_def buildCompressedHeader_def Let_def split: if_splits)
  have rb: "rebuilt_ip (ipHeader prev) ?ch = ?ip"
    using fl fx ip by (intro rebuilt_ip_eq) (simp_all add: flow_of_def buildCompressedHeader_def Let_def)
  have tc: "\<lparr>source = source (tcpHeader prev), dest = dest (tcpHeader prev), seq = seq ?tcp, ack_seq = ack_seq ?tcp, tcp_flags = c_flags ?ch,
      window = c_window ?ch, tcp_check = c_check ?ch, urg_ptr = c_urg_ptr ?ch\<rparr> = ?tcp"
    using fl by (simp add: flow_of_def buildCompressedHeader_def Let_def)
  have ff: "?e @ bytes16 (htons ETHERTYPE_IP) @ ip_bytes ?ip @ tcp_bytes ?tcp @ ?pl = f"
    using frame_parts [OF l(3), of "length f - 54"] l by simp
  have el: "length ?e = 12" "length ?pl \<le> 1446" using l(2) by (simp_all add: frame_of_def)
  have ok: "compressed_ok ?ch" "slotId ?ch = tup_idx t" using compressed_header_ok [OF i, of st] by simp_all
  have bd: "unat (slotId ?ch) < length (decompressorCache dt)" "prev = decompressorCache dt ! unat (slotId ?ch)"
    using ag i ok(2) by (simp_all add: caches_agree_def prev_def)
  have "decompress tup0 buf1 (in_memory beyond' ?g) (of_nat (length ?g)) dt =
    Inr (dt\<lparr>decompressPktId := decompressPktId dt + 1, decompressorCache := (decompressorCache dt)[?i := d]\<rparr>, [f])"
    using decompress_compressed [OF el ok(1) bd(1) sq bd(2), of tup0 buf1 beyond'] by (simp only: ok(2) rb tc ff d_def)
  moreover have "compressed_packet buf0 ?p (of_nat (length f - 54)) ?ch t = [?g]"
    unfolding compressed_packet_frame using l(2) by (subst unat_of_nat_u32) simp_all
  moreover have "slots_agree F t d" using fl fx ip by (simp add: slots_agree_def d_def flow_of_def)
  moreover have "length ?g + 18 \<le> length f"
    using l length_optional_fields [of ?ch ?tcp] by (simp add: frame_of_def SIZE_COMPRESSED_def)
  ultimately show thesis by (intro that [of ?g d]) simp_all
qed

lemma frame_restored:
  assumes f: "vj_frame_ok F f" and ag: "caches_agree F st dt"
  obtains st' g dt' where "compress buf0 (in_memory beyond f) (of_nat (length f)) st = (st', [g])"
    "decompress tup0 buf1 (in_memory beyond' g) (of_nat (length g)) dt = Inr (dt', [f])" "caches_agree F st' dt'"
proof (cases "tcp_frame f")
  case False
  show thesis
    by (rule that [OF other_frames_pass(1) [OF f False] other_frames_pass(2) [OF f False]]) (rule caches_agree_same [OF ag]; simp)
next
  case tcp: True
  let ?t = "frame_tuple f"
  have self: "slots_agree F ?t ?t" using f tcp by (simp add: slots_agree_def vj_frame_ok_def Let_def frame_tuple_def)
  note c = compress_tcp_frame [OF ok_tcp_frame [OF f tcp], of buf0 beyond st]
  show thesis
  proof (cases "checkCache st ?t")
    case False
    then have "compress buf0 (in_memory beyond f) (of_nat (length f)) st =
        (st\<lparr>compressPktId := compressPktId st + 1, compressorCache := (compressorCache st)[unat (tup_idx ?t) := ?t]\<rparr>, [f])" using c by simp
    then show thesis by (rule that [OF _ decompress_tcp_frame [OF f tcp]]) (rule caches_agree_update [OF ag self]; simp)
  next
    case True
    obtain g d where g: "compressed_packet buf0 (in_memory beyond f) (of_nat (length f - 54)) (buildCompressedHeader st ?t) ?t = [g]"
      "decompress tup0 buf1 (in_memory beyond' g) (of_nat (length g)) dt =
        Inr (dt\<lparr>decompressPktId := decompressPktId dt + 1, decompressorCache := (decompressorCache dt)[unat (tup_idx ?t) := d]\<rparr>, [f])"
      "slots_agree F ?t d"
      by (rule hit_restored [OF f tcp ag True])
    have "compress buf0 (in_memory beyond f) (of_nat (length f)) st =
        (st\<lparr>compressPktId := compressPktId st + 1, compressorCache := (compressorCache st)[unat (tup_idx ?t) := ?t]\<rparr>, [g])" using c g(1) True by simp
    then show thesis by (rule that [OF _ g(2)]) (rule caches_agree_update [OF ag g(3)]; simp)
  qed
qed

lemma stream_restored:
  assumes "\<forall>f\<in>set fs. vj_frame_ok F f" and "caches_agree F st dt"
  shows "\<exists>dt'. decompress_run tup0 beyond' buf1 (snd (compress_run beyond buf0 fs st)) dt = Inr (dt', fs)"
  using assms
proof (induction fs arbitrary: st dt)
  case Nil
  then show ?case by simp
next
  case (Cons f fs)
  then obtain st1 g dt1 where s: "compress buf0 (in_memory beyond f) (of_nat (length f)) st = (st1, [g])"
    "decompress tup0 buf1 (in_memory beyond' g) (of_nat (length g)) dt = Inr (dt1, [f])" "caches_agree F st1 dt1"
    by (auto intro: frame_restored)
  from Cons.IH [OF _ s(3)] Cons.prems obtain dt2 where "decompress_run tup0 beyond' buf1 (snd (compress_run beyond buf0 fs st1)) dt1 = Inr (dt2, fs)"
    by auto
  with s show ?case by (simp add: split_beta)
qed

end
