(* ===== verification/Vj_Properties.thy ===== *)
theory Vj_Properties
  imports Vj_Roundtrip
begin

text \<open>
  The statements about header compression: a stream of packets is restored byte by byte, compressed packets are shorter, and what happens to packets that
  the two sides do not expect.
\<close>

text \<open>C5: The frames that the compressor emits for a stream are turned back into exactly this stream by the decompressor, both started with empty caches, provided no frame
  is lost on the way. Flows may share a slot of the cache. Frames that are no IP packets or shorter than 100 bytes are arbitrary (but not of the type of
  compressed frames); longer IP packets are TCP packets of at most 1500 bytes
  whose header checksum verifies, and whose version, header length, service, fragment field and time to live do not change within a flow.\<close>

theorem vj_stream_roundtrip:
  assumes "\<forall>f\<in>set fs. vj_frame_ok F f"
  shows "\<exists>dt. decompress_run tup0 beyond' buf1 (snd (compress_run beyond buf0 fs compressor_init)) decompressor_init = Inr (dt, fs)"
  by (rule stream_restored [OF assms caches_agree_init])

definition demo_headers :: "u8 \<Rightarrow> u8 list" where
  \<comment> \<open>an Ethernet, IP and TCP header from 10.0.0.1 to 10.0.0.2; the argument is the sequence number\<close>
  "demo_headers n = [2, 2, 2, 2, 2, 2, 3, 3, 3, 3, 3, 3, 0x08, 0x00] @ [0x45, 0, 0, 86, 0, 1, 0x40, 0, 64, 6, 0x26, 0x9F, 10, 0, 0, 1, 10, 0, 0, 2] @
     [0x04, 0, 0, 80, 0, 0, 0, n, 0, 0, 0, 1, 0x50, 0x10, 1, 0, 7, 8, 0, 0]"

definition demo_fixed :: "flow \<Rightarrow> u8 \<times> u8 \<times> u16 \<times> u8 \<times> u8" where
  "demo_fixed fl = (0x45, 0, 0x40, 64, 6)"

definition demo_tcp :: "u8 \<Rightarrow> frame" where
  "demo_tcp n = demo_headers n @ replicate 46 n"

lemma demo_tcp_length [simp]: "length (demo_tcp n) = 100"
  by (simp add: demo_tcp_def demo_headers_def)

lemma demo_tcp_frame: "tcp_frame (demo_tcp n)"
  by (simp add: tcp_frame_def) (simp add: demo_tcp_def demo_headers_def load16_def htons_def ETHERTYPE_IP_def)

lemma demo_tcp_ip: "ip_at ((!) (demo_tcp n)) 14 =
    \<lparr>ihl_version = 0x45, tos = 0, tot_len = 0x5600, ip_id = 0x100, frag_off = 0x40, ttl = 64, proto = 6, ip_check = 0x9F26, saddr = 0x100000A, daddr = 0x200000A\<rparr>"
  by (simp add: ip_at_def demo_tcp_def demo_headers_def load16_def load32_def)

lemma demo_tcp_flow: "flow_of (ip_at ((!) (demo_tcp n)) 14) (tcp_at ((!) (demo_tcp n)) 34) = (0x100000A, 0x200000A, 4, 0x5000)"
  by (simp add: flow_of_def demo_tcp_ip) (simp add: tcp_at_def demo_tcp_def demo_headers_def load16_def)

lemma demo_tcp_ok: "vj_frame_ok demo_fixed (demo_tcp n)"
proof -
  have "ccsum ((!) (ip_bytes (ip_at ((!) (demo_tcp n)) 14))) SIZE_IP = 0"
    unfolding demo_tcp_ip by code_simp
  moreover have "htons (load16 ((!) (demo_tcp n)) 12) \<noteq> ETYPE_COMPRESSED"
    using demo_tcp_frame [of n] by (simp add: tcp_frame_def ETHERTYPE_IP_def ETYPE_COMPRESSED_def)
  ultimately show ?thesis by (simp add: vj_frame_ok_def Let_def demo_tcp_flow) (simp add: demo_tcp_ip fixed_fields_def demo_fixed_def)
qed

theorem vj_stream_roundtrip_witness:
  "\<exists>dt. decompress_run zero_tuple (\<lambda>_. 7) (\<lambda>_. 8) (snd (compress_run (\<lambda>_. 9) (\<lambda>_. 5) [demo_tcp 1, demo_tcp 2, replicate 20 1] compressor_init)) decompressor_init =
     Inr (dt, [demo_tcp 1, demo_tcp 2, replicate 20 1])"
proof -
  have "vj_frame_ok demo_fixed (replicate 20 1)"
    by (simp add: vj_frame_ok_def tcp_frame_def) (simp add: load16_def htons_def ETYPE_COMPRESSED_def)
  then show ?thesis by (intro vj_stream_roundtrip [of _ demo_fixed]) (simp add: demo_tcp_ok)
qed

lemma compress_hit_length:
  assumes "vj_frame_ok F f" and "tcp_frame f" and "checkCache st (frame_tuple f)"
  shows "\<exists>st' g. compress buf0 (in_memory beyond f) (of_nat (length f)) st = (st', [g]) \<and> length g + 18 \<le> length f \<and> length f \<le> length g + 26"
proof -
  let ?t = "frame_tuple f"
  have l: "100 \<le> length f" "length f \<le> 1500" using assms(1,2) by (simp_all add: vj_frame_ok_def tcp_frame_def)
  then have "unat (of_nat (length f - 54) :: u32) = length f - 54" by (intro unat_of_nat_u32) simp
  moreover have "length (optional_fields (buildCompressedHeader st ?t) (tcpHeader ?t)) \<le> 8" by (rule length_optional_fields)
  ultimately show ?thesis using l
    unfolding compress_tcp_frame [OF ok_tcp_frame [OF assms(1,2)]] compressed_packet_frame by (simp add: assms(3) frame_of_def SIZE_COMPRESSED_def) linarith
qed

lemma next_packet_hits:
  assumes "tcp_frame f" and "proto (ip_at ((!) f) 14) = 6" and "length f < 65536"
    and "flow_of (ip_at ((!) f) 14) (tcp_at ((!) f) 34) = flow_of (ip_at ((!) f') 14) (tcp_at ((!) f') 34)"
    and "length (compressorCache st) = 1024"
  shows "checkCache (fst (compress buf0 (in_memory beyond f) (of_nat (length f)) st)) (frame_tuple f')"
proof -
  have "flow_index (ip_at ((!) f) 14) = flow_index (ip_at ((!) f') 14)" using assms(4) by (simp add: flow_of_def flow_index_def)
  then show ?thesis unfolding compress_tcp_frame [OF assms(1-3)] using assms(4,5)
    by (simp add: checkCache_def Let_def frame_tuple_def flow_index_bound flow_of_def)
qed

text \<open>C37: A TCP packet that directly follows another packet of its flow is compressed, and its frame shrinks by 18 to 26 bytes.\<close>

theorem vj_next_packet_shrinks:
  assumes "vj_frame_ok F f" and "tcp_frame f" and "vj_frame_ok F f'" and "tcp_frame f'"
    and "flow_of (ip_at ((!) f) 14) (tcp_at ((!) f) 34) = flow_of (ip_at ((!) f') 14) (tcp_at ((!) f') 34)"
    and "length (compressorCache st) = 1024"
  shows "\<exists>st' g. compress buf0 (in_memory beyond f') (of_nat (length f')) (fst (compress buf0 (in_memory beyond f) (of_nat (length f)) st)) = (st', [g]) \<and>
    length g + 18 \<le> length f' \<and> length f' \<le> length g + 26"
  by (intro compress_hit_length [OF assms(3,4)] next_packet_hits ok_tcp_frame [OF assms(1,2)] assms(5,6))

theorem vj_next_packet_shrinks_witness:
  "\<exists>st' g. compress (\<lambda>_. 0) (in_memory (\<lambda>_. 1) (demo_tcp 2)) (of_nat (length (demo_tcp 2)))
      (fst (compress (\<lambda>_. 0) (in_memory (\<lambda>_. 1) (demo_tcp 1)) (of_nat (length (demo_tcp 1))) compressor_init)) = (st', [g]) \<and>
    length g + 18 \<le> length (demo_tcp 2) \<and> length (demo_tcp 2) \<le> length g + 26"
  by (rule vj_next_packet_shrinks [OF demo_tcp_ok demo_tcp_frame demo_tcp_ok demo_tcp_frame])
    (simp_all add: demo_tcp_flow compressor_init_def)

text \<open>C38: An IP packet of at least 100 bytes that is not TCP passes the compressor unchanged, but the decompressor forwards nothing for it.\<close>

theorem vj_other_ip_dropped:
  assumes "tcp_frame f" and "length f < 2 ^ 32" and "proto (ip_at ((!) f) 14) \<noteq> 6"
  shows "snd (compress buf0 (in_memory beyond f) (of_nat (length f)) st) = [f] \<and>
    (\<exists>dt'. decompress tup0 buf1 (in_memory beyond f) (of_nat (length f)) dt = Inr (dt', []))"
proof (rule conjI)
  have l: "54 \<le> length f" "unat (of_nat (length f) :: u32) = length f" "\<not> (of_nat (length f) :: u32) < 100"
    using assms(1,2) by (simp_all add: tcp_frame_def word_less_nat_alt unat_of_nat_u32)
  show "snd (compress buf0 (in_memory beyond f) (of_nat (length f)) st) = [f]"
    using assms l by (simp add: compress_def Let_def SIZE_ETHERNET_def in_memory_reads forward_frame_def)
  show "\<exists>dt'. decompress tup0 buf1 (in_memory beyond f) (of_nat (length f)) dt = Inr (dt', [])"
    using assms l by (simp add: decompress_def Let_def SIZE_ETHERNET_def in_memory_reads tcp_frame_def)
qed

definition demo_udp :: frame where
  "demo_udp = (demo_tcp 1)[23 := 17]"

theorem vj_other_ip_dropped_witness:
  "snd (compress (\<lambda>_. 0) (in_memory (\<lambda>_. 1) demo_udp) (of_nat (length demo_udp)) compressor_init) = [demo_udp] \<and>
   (\<exists>dt'. decompress zero_tuple (\<lambda>_. 0) (in_memory (\<lambda>_. 1) demo_udp) (of_nat (length demo_udp)) decompressor_init = Inr (dt', []))"
proof -
  have "tcp_frame demo_udp" using demo_tcp_frame [of 1] by (simp add: tcp_frame_def demo_udp_def load16_def)
  moreover have "proto (ip_at ((!) demo_udp) 14) \<noteq> 6" by (simp add: ip_at_def demo_udp_def)
  moreover have "length demo_udp < 2 ^ 32" by (simp add: demo_udp_def)
  ultimately show ?thesis using vj_other_ip_dropped [of demo_udp] by blast
qed

text \<open>C39: A TCP packet whose frame is longer than 1500 bytes, such as a full Ethernet frame of 1514 bytes, is compressed
  when its flow is in the cache, and restoring it overruns the decompressor's buffer, whatever its cache holds.\<close>

theorem vj_full_frame_overruns:
  assumes "tcp_frame f" and "proto (ip_at ((!) f) 14) = 6" and "1500 < length f" and "length f < 65536" and "checkCache st (frame_tuple f)"
  shows "\<exists>st' g. compress buf0 (in_memory beyond f) (of_nat (length f)) st = (st', [g]) \<and>
    decompress tup0 buf1 (in_memory beyond' g) (of_nat (length g)) dt = Inl Indeterminate"
proof -
  let ?t = "frame_tuple f" and ?p = "in_memory beyond f"
  let ?ch = "buildCompressedHeader st ?t" and ?n = "length f - 54"
  let ?o = "optional_fields ?ch (tcpHeader ?t)" and ?pl = "frame_of (ptr_add ?p 54) ?n"
  define g where "g = frame_of ?p 12 @ bytes16 (htons ETYPE_COMPRESSED) @ compressed_bytes ?ch @ ?o @ ?pl"
  let ?q = "in_memory beyond' g" and ?m = "SIZE_COMPRESSED + length ?o"
  have "unat (of_nat ?n :: u32) = ?n" using assms(4) by (intro unat_of_nat_u32) simp
  then have c: "snd (compress buf0 ?p (of_nat (length f)) st) = [g]"
    unfolding compress_tcp_frame [OF assms(1,2,4)] compressed_packet_frame g_def using assms(5) by simp
  have b: "bytes_at ?q 12 (bytes16 (htons ETYPE_COMPRESSED))" "bytes_at ?q 14 (compressed_bytes ?ch)"
    using bytes_at_in_memory [of beyond' g] by (simp_all add: g_def bytes_at_append frame_of_def)
  have ty: "load16 ?q 12 = htons ETYPE_COMPRESSED" by (rule load16_bytes_at [OF b(1)])
  have "compressed_ok ?ch" using compressed_header_ok [of ?t st] by (simp add: frame_tuple_def flow_index_bound)
  then have m: "snd (snd (buildDecompressedHeaders ?q 14 tup0 dt0)) = ?m" for dt0
    by (intro compressed_header_length compressed_at_bytes [OF b(2)])
  have lg: "length g = 14 + ?m + ?n" using assms(3) by (simp add: g_def frame_of_def)
  have "?m \<le> 22" using length_optional_fields [of ?ch "tcpHeader ?t"] by (simp add: SIZE_COMPRESSED_def)
  then have "unat (of_nat (length g) - of_nat (14 + ?m) :: u32) = ?n" using assms(4) unfolding lg of_nat_add by (simp add: unat_of_nat)
  then have d: "decompressed_packet buf1 ?q (of_nat (length g)) ?m t = Inl Indeterminate" for t
    unfolding decompressed_packet_frame SIZE_ETHERNET_def using assms(3) by simp
  have "ETYPE_COMPRESSED \<noteq> ETHERTYPE_IP" by (simp add: ETYPE_COMPRESSED_def ETHERTYPE_IP_def)
  then have "decompress tup0 buf1 ?q (of_nat (length g)) dt = Inl Indeterminate"
    by (simp add: decompress_def Let_def ty SIZE_ETHERNET_def split_beta m d)
  with c show ?thesis by (metis prod.collapse)
qed

definition demo_full :: frame where
  "demo_full = demo_headers 2 @ replicate 1460 0"

theorem vj_full_frame_overruns_witness:
  "\<exists>st' g. compress (\<lambda>_. 0) (in_memory (\<lambda>_. 1) demo_full) (of_nat (length demo_full))
      (fst (compress (\<lambda>_. 0) (in_memory (\<lambda>_. 1) (demo_tcp 1)) (of_nat (length (demo_tcp 1))) compressor_init)) = (st', [g]) \<and>
    decompress zero_tuple (\<lambda>_. 0) (in_memory (\<lambda>_. 1) g) (of_nat (length g)) decompressor_init = Inl Indeterminate"
proof (rule vj_full_frame_overruns)
  have "length (demo_headers 2) = 54" by (simp add: demo_headers_def)
  then have n: "demo_full ! i = demo_tcp 2 ! i" if "i < 54" for i using that by (simp add: demo_full_def demo_tcp_def nth_append)
  then have same: "load16 ((!) demo_full) 12 = load16 ((!) (demo_tcp 2)) 12" "ip_at ((!) demo_full) 14 = ip_at ((!) (demo_tcp 2)) 14"
    "tcp_at ((!) demo_full) 34 = tcp_at ((!) (demo_tcp 2)) 34"
    by (simp_all add: load16_def load32_def ip_at_def tcp_at_def)
  show "1500 < length demo_full" "length demo_full < 65536" by (simp_all add: demo_full_def demo_headers_def)
  then show "tcp_frame demo_full" using demo_tcp_frame [of 2] by (simp add: tcp_frame_def same)
  show "proto (ip_at ((!) demo_full) 14) = 6" by (simp add: same demo_tcp_ip)
  have "flow_of (ip_at ((!) (demo_tcp 1)) 14) (tcp_at ((!) (demo_tcp 1)) 34) = flow_of (ip_at ((!) demo_full) 14) (tcp_at ((!) demo_full) 34)"
    by (simp add: same demo_tcp_flow)
  then show "checkCache (fst (compress (\<lambda>_. 0) (in_memory (\<lambda>_. 1) (demo_tcp 1)) (of_nat (length (demo_tcp 1))) compressor_init)) (frame_tuple demo_full)"
    by (intro next_packet_hits ok_tcp_frame [OF demo_tcp_ok demo_tcp_frame]) (simp_all add: compressor_init_def)
qed

end
