(* ===== verification/Hls_Decoder.thy ===== *)
theory Hls_Decoder
  imports Hls_Encoder
begin

text \<open>
  The arithmetic of the FPGA decoder, \<^verbatim>\<open>FPGA/DecoderVivadoHLS/Decoder_core.cpp\<close> with the matrices of \<^verbatim>\<open>Matrices.h\<close>, and the search for the
  missing packet in \<^verbatim>\<open>Decoder.cpp\<close>. The decoder does not solve equations: for the two configurations that it supports, five or fifty
  data packets and one parity packet, it looks up the inverse matrix for the packet that is missing.

  The field arithmetic at the beginning of \<^verbatim>\<open>Decoder_core.cpp\<close> repeats that of \<^verbatim>\<open>Encoder.c\<close>, whose definitions are used here.
\<close>

section \<open>The matrices\<close>

text \<open>The first index is the missing packet, the second one the packet to compute, and the third one the packet received.\<close>

definition Matrices_k_5_h_1 :: "fec_sym list list list" where
  "Matrices_k_5_h_1 =
  [[[141, 243, 190, 185, 19, 0, 0, 0], [1, 0, 0, 0, 0, 0, 0, 0], [0, 1, 0, 0, 0, 0, 0, 0], [0, 0, 1, 0, 0, 0, 0, 0], [0, 0, 0, 1, 0, 0, 0, 0], [0, 0, 0, 0, 0, 0, 0, 0], [0, 0, 0, 0, 0, 0, 0, 0], [0, 0, 0, 0, 0, 0, 0, 0]],
   [[1, 0, 0, 0, 0, 0, 0, 0], [105, 37, 197, 199, 101, 0, 0, 0], [0, 1, 0, 0, 0, 0, 0, 0], [0, 0, 1, 0, 0, 0, 0, 0], [0, 0, 0, 1, 0, 0, 0, 0], [0, 0, 0, 0, 0, 0, 0, 0], [0, 0, 0, 0, 0, 0, 0, 0], [0, 0, 0, 0, 0, 0, 0, 0]],
   [[1, 0, 0, 0, 0, 0, 0, 0], [0, 1, 0, 0, 0, 0, 0, 0], [234, 86, 127, 211, 37, 0, 0, 0], [0, 0, 1, 0, 0, 0, 0, 0], [0, 0, 0, 1, 0, 0, 0, 0], [0, 0, 0, 0, 0, 0, 0, 0], [0, 0, 0, 0, 0, 0, 0, 0], [0, 0, 0, 0, 0, 0, 0, 0]],
   [[1, 0, 0, 0, 0, 0, 0, 0], [0, 1, 0, 0, 0, 0, 0, 0], [0, 0, 1, 0, 0, 0, 0, 0], [174, 184, 252, 108, 221, 0, 0, 0], [0, 0, 0, 1, 0, 0, 0, 0], [0, 0, 0, 0, 0, 0, 0, 0], [0, 0, 0, 0, 0, 0, 0, 0], [0, 0, 0, 0, 0, 0, 0, 0]],
   [[1, 0, 0, 0, 0, 0, 0, 0], [0, 1, 0, 0, 0, 0, 0, 0], [0, 0, 1, 0, 0, 0, 0, 0], [0, 0, 0, 1, 0, 0, 0, 0], [100, 158, 246, 32, 162, 0, 0, 0], [0, 0, 0, 0, 0, 0, 0, 0], [0, 0, 0, 0, 0, 0, 0, 0], [0, 0, 0, 0, 0, 0, 0, 0]],
   [[1, 0, 0, 0, 0, 0, 0, 0], [0, 1, 0, 0, 0, 0, 0, 0], [0, 0, 1, 0, 0, 0, 0, 0], [0, 0, 0, 1, 0, 0, 0, 0], [0, 0, 0, 0, 1, 0, 0, 0], [0, 0, 0, 0, 0, 0, 0, 0], [0, 0, 0, 0, 0, 0, 0, 0], [0, 0, 0, 0, 0, 0, 0, 0]]]"

text \<open>
  In the matrices for fifty packets only the row of the missing packet has entries other than \<open>0\<close> and \<open>1\<close>: the other
  packets are copied from where they were received. The fourteen rows and columns behind the fiftieth are zero.
\<close>

definition Matrices_k_50_h_1_rows :: "fec_sym list list" where
  "Matrices_k_50_h_1_rows =
  [
   [141, 243, 190, 185, 199, 211, 38, 178, 176, 55, 64, 190, 78, 163, 80, 102, 42, 15, 29, 65, 255, 176, 211, 28, 222, 2, 42, 143, 191, 9, 219, 234, 216, 250,
    165, 254, 62, 118, 29, 213, 105, 178, 215, 117, 59, 138, 225, 139, 121, 19],
   [105, 37, 197, 199, 227, 132, 202, 19, 193, 125, 95, 197, 91, 164, 129, 149, 28, 109, 97, 54, 243, 193, 132, 8, 59, 210, 28, 211, 172, 6, 235, 253, 80,
    35, 207, 154, 123, 75, 97, 239, 248, 19, 61, 240, 171, 3, 41, 106, 38, 101],
   [234, 86, 127, 211, 132, 13, 74, 243, 58, 166, 24, 127, 93, 31, 30, 82, 198, 175, 96, 242, 141, 58, 13, 138, 107, 201, 198, 159, 149, 233, 14, 238, 45,
    232, 89, 103, 79, 84, 96, 75, 253, 243, 130, 119, 42, 250, 206, 16, 251, 37],
   [174, 184, 252, 108, 40, 152, 167, 154, 219, 59, 200, 1, 18, 6, 250, 111, 60, 116, 7, 102, 103, 219, 152, 169, 173, 65, 60, 249, 175, 183, 129, 121, 110,
    75, 197, 201, 140, 93, 7, 91, 27, 154, 26, 178, 160, 213, 143, 123, 41, 221],
   [100, 158, 246, 32, 105, 234, 89, 170, 98, 51, 56, 32, 122, 192, 54, 97, 211, 38, 224, 92, 124, 98, 234, 132, 4, 200, 211, 86, 68, 99, 237, 155, 65, 149,
    133, 24, 80, 111, 224, 175, 71, 170, 103, 195, 185, 191, 48, 219, 73, 162],
   [158, 240, 124, 112, 141, 86, 73, 182, 151, 194, 84, 112, 179, 61, 65, 29, 143, 121, 77, 202, 186, 151, 86, 211, 14, 33, 143, 209, 238, 26, 210, 115, 109,
    102, 94, 36, 216, 8, 77, 53, 100, 182, 20, 183, 4, 13, 72, 147, 113, 170],
   [246, 124, 170, 11, 243, 37, 165, 23, 230, 136, 75, 11, 166, 58, 144, 238, 185, 27, 49, 189, 182, 230, 1, 199, 235, 241, 185, 141, 253, 21, 226, 100, 229,
    191, 52, 64, 157, 53, 49, 15, 245, 23, 254, 50, 148, 132, 128, 114, 46, 220],
   [44, 98, 43, 5, 193, 136, 194, 200, 144, 215, 207, 5, 90, 30, 53, 206, 204, 185, 27, 227, 230, 144, 194, 55, 35, 88, 204, 58, 41, 81, 191, 128, 203, 122,
    246, 202, 134, 52, 27, 42, 119, 200, 114, 64, 26, 166, 137, 138, 141, 142],
   [238, 88, 234, 189, 13, 191, 102, 210, 192, 122, 5, 189, 120, 169, 67, 215, 110, 147, 20, 235, 86, 192, 102, 250, 52, 193, 110, 153, 83, 205, 69, 97, 106,
    39, 247, 184, 183, 145, 20, 56, 68, 1, 249, 190, 198, 232, 109, 6, 2, 105],
   [135, 89, 207, 120, 202, 92, 226, 24, 18, 7, 90, 120, 35, 13, 194, 66, 114, 254, 117, 221, 165, 1, 226, 242, 15, 19, 114, 74, 255, 203, 174, 156, 58, 4,
    56, 34, 204, 218, 117, 215, 188, 18, 196, 78, 109, 235, 68, 108, 36, 12],
   [94, 205, 70, 169, 46, 165, 73, 214, 6, 186, 30, 169, 13, 209, 151, 200, 121, 77, 120, 64, 233, 186, 73, 38, 184, 188, 121, 113, 247, 148, 131, 91, 97,
    210, 8, 183, 149, 65, 120, 144, 133, 6, 44, 163, 174, 74, 115, 20, 12, 107],
   [54, 65, 144, 210, 80, 129, 30, 58, 167, 203, 75, 210, 24, 214, 70, 59, 79, 47, 4, 55, 229, 203, 30, 50, 93, 108, 79, 45, 228, 155, 179, 76, 233, 11, 98,
    211, 208, 124, 4, 170, 20, 167, 198, 38, 62, 195, 187, 245, 83, 29],
   [174, 184, 252, 1, 108, 40, 152, 167, 154, 219, 59, 200, 18, 6, 250, 111, 60, 116, 7, 102, 103, 219, 152, 169, 173, 65, 60, 249, 175, 183, 129, 121, 110,
    75, 197, 201, 140, 93, 7, 91, 27, 154, 26, 178, 160, 213, 143, 123, 41, 221],
   [69, 99, 14, 192, 6, 107, 70, 203, 219, 81, 170, 144, 192, 186, 180, 91, 208, 212, 122, 213, 21, 81, 70, 63, 24, 138, 208, 233, 133, 87, 84, 125, 155, 89,
    57, 80, 253, 127, 122, 197, 143, 219, 79, 176, 177, 165, 160, 224, 171, 235],
   [198, 52, 42, 122, 18, 12, 207, 75, 59, 170, 113, 215, 122, 7, 43, 156, 10, 22, 123, 17, 107, 170, 207, 189, 72, 145, 10, 165, 188, 184, 177, 110, 230,
    146, 175, 173, 201, 96, 123, 97, 138, 59, 240, 55, 48, 92, 71, 154, 118, 171],
   [56, 84, 75, 232, 64, 95, 24, 195, 213, 165, 92, 166, 232, 235, 74, 101, 254, 117, 162, 158, 118, 165, 24, 154, 29, 112, 254, 36, 208, 229, 197, 9, 141,
    174, 218, 78, 185, 194, 162, 136, 16, 213, 248, 138, 97, 252, 156, 196, 183, 239],
   [23, 188, 104, 50, 87, 131, 178, 168, 214, 248, 210, 169, 50, 99, 172, 196, 76, 221, 158, 190, 140, 248, 178, 137, 65, 46, 76, 146, 37, 175, 10, 170, 51,
    199, 222, 155, 125, 108, 158, 192, 220, 214, 238, 85, 54, 217, 43, 206, 177, 84],
   [31, 160, 163, 171, 246, 245, 100, 133, 47, 17, 119, 147, 171, 41, 221, 126, 22, 165, 118, 140, 39, 17, 100, 105, 255, 62, 1, 158, 180, 231, 156, 169, 189,
    68, 159, 56, 144, 251, 118, 38, 179, 47, 24, 218, 243, 253, 112, 226, 94, 204],
   [150, 236, 183, 233, 44, 119, 128, 100, 79, 126, 103, 110, 233, 249, 76, 251, 10, 194, 165, 248, 17, 126, 128, 51, 176, 49, 194, 221, 127, 82, 68, 112,
    227, 229, 31, 135, 53, 159, 165, 211, 11, 79, 226, 56, 193, 41, 19, 191, 158, 50],
   [131, 87, 36, 186, 20, 103, 137, 128, 224, 251, 219, 71, 186, 6, 187, 159, 199, 218, 194, 196, 126, 251, 137, 130, 80, 27, 218, 76, 57, 239, 229, 19, 125,
    203, 150, 253, 52, 31, 1, 164, 5, 224, 191, 135, 129, 249, 231, 122, 221, 64],
   [95, 64, 181, 23, 151, 98, 154, 240, 180, 10, 54, 94, 23, 67, 114, 199, 174, 83, 66, 101, 22, 10, 154, 58, 102, 190, 83, 254, 72, 157, 88, 177, 185, 40,
    173, 73, 171, 55, 101, 69, 236, 180, 251, 214, 149, 192, 146, 159, 117, 120],
   [253, 234, 105, 77, 132, 7, 191, 226, 37, 194, 116, 177, 77, 62, 179, 218, 83, 138, 114, 254, 76, 194, 191, 3, 42, 231, 138, 13, 176, 70, 4, 68, 30, 47,
    135, 252, 50, 56, 254, 139, 33, 37, 108, 34, 28, 35, 229, 222, 74, 113],
   [135, 89, 207, 120, 202, 92, 226, 24, 18, 1, 7, 90, 120, 35, 13, 194, 66, 114, 254, 117, 221, 165, 226, 242, 15, 19, 114, 74, 255, 203, 174, 156, 58, 4,
    56, 34, 204, 218, 117, 215, 188, 18, 196, 78, 109, 235, 68, 108, 36, 12],
   [246, 124, 170, 11, 243, 37, 1, 165, 23, 230, 136, 75, 11, 166, 58, 144, 238, 185, 27, 49, 189, 182, 230, 199, 235, 241, 185, 141, 253, 21, 226, 100, 229,
    191, 52, 64, 157, 53, 49, 15, 245, 23, 254, 50, 148, 132, 128, 114, 46, 220],
   [160, 173, 39, 59, 124, 246, 158, 94, 232, 181, 44, 111, 59, 225, 154, 189, 49, 141, 46, 161, 207, 244, 181, 158, 237, 93, 141, 240, 155, 201, 247, 60,
    10, 238, 125, 84, 229, 227, 161, 121, 31, 232, 36, 30, 255, 234, 168, 74, 205, 47],
   [25, 169, 179, 8, 71, 93, 180, 81, 164, 150, 197, 14, 8, 144, 48, 131, 95, 253, 135, 56, 23, 31, 150, 180, 33, 50, 253, 155, 17, 209, 124, 239, 87, 98,
    102, 6, 20, 210, 56, 226, 216, 164, 208, 249, 105, 230, 12, 255, 85, 166],
   [142, 200, 247, 95, 210, 237, 231, 19, 89, 88, 149, 32, 95, 39, 223, 40, 51, 21, 137, 128, 174, 241, 88, 231, 14, 111, 21, 201, 209, 138, 227, 117, 108,
    125, 220, 127, 31, 59, 128, 228, 186, 89, 229, 180, 147, 69, 254, 203, 178, 135],
   [31, 160, 163, 171, 246, 245, 100, 133, 47, 17, 119, 147, 171, 41, 221, 126, 22, 1, 165, 118, 140, 39, 17, 100, 105, 255, 62, 158, 180, 231, 156, 169, 189,
    68, 159, 56, 144, 251, 118, 38, 179, 47, 24, 218, 243, 253, 112, 226, 94, 204],
   [245, 246, 162, 212, 37, 113, 105, 207, 220, 43, 209, 139, 212, 116, 194, 96, 68, 199, 10, 22, 126, 170, 43, 105, 227, 148, 247, 199, 33, 14, 146, 71, 144,
    172, 198, 95, 223, 175, 22, 109, 78, 220, 154, 173, 217, 7, 190, 242, 165, 233],
   [182, 156, 188, 183, 146, 178, 255, 208, 140, 253, 201, 134, 183, 204, 149, 41, 86, 235, 252, 34, 48, 135, 253, 255, 148, 114, 113, 235, 237, 111, 38, 124,
    225, 211, 6, 49, 166, 249, 34, 108, 170, 140, 29, 62, 242, 185, 98, 15, 5, 104],
   [157, 122, 116, 175, 91, 85, 62, 35, 125, 90, 155, 148, 175, 97, 197, 177, 183, 241, 104, 106, 9, 166, 90, 62, 247, 113, 39, 241, 93, 50, 162, 80, 24, 117,
    172, 59, 154, 146, 106, 87, 223, 125, 112, 40, 73, 142, 118, 19, 250, 159],
   [120, 180, 93, 84, 33, 200, 230, 182, 78, 190, 29, 107, 84, 129, 229, 184, 221, 172, 146, 177, 19, 71, 190, 230, 201, 132, 240, 172, 68, 44, 159, 17, 137,
    194, 232, 63, 130, 14, 177, 235, 79, 78, 27, 134, 7, 193, 126, 185, 156, 91],
   [243, 255, 178, 119, 148, 217, 185, 27, 87, 172, 99, 22, 119, 205, 47, 157, 13, 59, 40, 88, 229, 146, 172, 185, 171, 106, 251, 59, 4, 132, 56, 114, 122,
    138, 63, 97, 91, 134, 88, 169, 37, 87, 82, 142, 67, 28, 194, 239, 174, 131],
   [16, 56, 139, 47, 95, 236, 177, 90, 239, 207, 87, 116, 47, 148, 226, 105, 46, 154, 240, 205, 100, 75, 207, 177, 221, 97, 32, 154, 24, 63, 144, 49, 6, 27,
    130, 91, 199, 51, 205, 209, 222, 239, 241, 3, 151, 72, 182, 88, 195, 45],
   [232, 81, 250, 30, 188, 23, 182, 6, 138, 71, 200, 152, 30, 193, 68, 190, 158, 146, 177, 90, 112, 110, 71, 182, 178, 202, 205, 146, 156, 246, 251, 165, 39,
    128, 14, 134, 51, 184, 90, 252, 47, 138, 49, 157, 92, 243, 17, 27, 9, 3],
   [194, 58, 193, 184, 204, 55, 164, 211, 201, 80, 173, 202, 184, 34, 183, 118, 25, 162, 42, 15, 8, 176, 80, 164, 205, 23, 153, 162, 163, 122, 156, 250, 225,
    161, 93, 114, 49, 165, 15, 18, 51, 201, 139, 254, 220, 78, 228, 140, 143, 231],
   [126, 189, 77, 247, 144, 96, 54, 98, 197, 57, 175, 246, 247, 56, 8, 69, 148, 80, 176, 255, 136, 127, 57, 54, 129, 122, 252, 80, 65, 137, 169, 225, 87, 99,
    228, 17, 6, 39, 255, 47, 36, 197, 211, 165, 157, 218, 2, 164, 151, 49],
   [21, 187, 147, 83, 56, 16, 9, 228, 175, 133, 188, 41, 83, 255, 247, 100, 205, 24, 195, 164, 60, 111, 133, 9, 177, 224, 42, 24, 145, 70, 189, 161, 99, 158,
    46, 137, 122, 128, 164, 119, 14, 175, 93, 191, 64, 208, 244, 197, 67, 114],
   [218, 30, 129, 14, 50, 173, 195, 164, 223, 118, 95, 132, 14, 252, 36, 165, 32, 117, 162, 42, 94, 80, 118, 195, 240, 200, 169, 117, 183, 212, 68, 93, 228,
    46, 197, 194, 138, 27, 42, 37, 130, 223, 140, 114, 142, 34, 9, 248, 163, 82],
   [131, 87, 36, 186, 20, 103, 137, 128, 224, 251, 219, 71, 186, 6, 187, 159, 199, 218, 194, 1, 196, 126, 251, 137, 130, 80, 27, 218, 76, 57, 239, 229, 19,
    125, 203, 150, 253, 52, 31, 164, 5, 224, 191, 135, 129, 249, 231, 122, 221, 64],
   [67, 106, 30, 99, 183, 195, 150, 31, 80, 214, 24, 13, 99, 184, 87, 73, 18, 44, 246, 52, 78, 45, 214, 150, 119, 230, 134, 44, 236, 32, 97, 180, 59, 113,
    127, 192, 110, 121, 86, 52, 228, 80, 135, 147, 43, 190, 220, 253, 160, 129],
   [141, 66, 255, 128, 4, 185, 143, 121, 146, 149, 204, 224, 128, 245, 39, 216, 153, 107, 152, 167, 109, 237, 149, 143, 42, 16, 7, 107, 69, 13, 145, 147, 86,
    25, 110, 46, 96, 93, 161, 167, 134, 146, 129, 43, 222, 198, 192, 75, 57, 178],
   [238, 88, 234, 189, 13, 191, 102, 210, 1, 192, 122, 5, 189, 120, 169, 67, 215, 110, 147, 20, 235, 86, 192, 102, 250, 52, 193, 110, 153, 83, 205, 69, 97,
    106, 39, 247, 184, 183, 145, 20, 56, 68, 249, 190, 198, 232, 109, 6, 2, 105],
   [214, 12, 161, 85, 77, 224, 126, 17, 212, 101, 38, 163, 85, 147, 227, 66, 178, 144, 230, 182, 117, 32, 101, 126, 96, 41, 177, 144, 189, 131, 40, 128, 104,
    231, 137, 45, 246, 14, 83, 182, 176, 84, 212, 52, 167, 20, 241, 194, 181, 134],
   [251, 227, 121, 238, 53, 175, 111, 54, 174, 69, 198, 44, 238, 135, 94, 39, 26, 118, 80, 176, 215, 57, 69, 111, 75, 212, 235, 118, 8, 21, 112, 228, 2, 244,
    9, 126, 194, 182, 17, 176, 79, 74, 174, 164, 134, 56, 153, 195, 65, 27],
   [169, 60, 31, 28, 100, 71, 155, 85, 163, 236, 190, 21, 28, 229, 72, 87, 64, 234, 89, 84, 188, 160, 236, 155, 253, 141, 79, 234, 115, 181, 136, 186, 213,
    92, 151, 153, 9, 54, 2, 84, 74, 25, 163, 5, 228, 68, 18, 237, 91, 164],
   [39, 244, 232, 67, 182, 170, 124, 70, 250, 180, 43, 53, 67, 194, 151, 127, 115, 255, 208, 212, 18, 81, 180, 124, 243, 226, 78, 255, 186, 100, 2, 89, 160,
    48, 234, 69, 118, 41, 57, 212, 174, 163, 250, 224, 80, 146, 236, 38, 233, 35],
   [63, 208, 168, 245, 72, 48, 27, 49, 236, 146, 217, 123, 245, 28, 4, 172, 74, 40, 88, 241, 68, 177, 146, 27, 206, 61, 126, 40, 174, 202, 218, 254, 165, 191,
    114, 134, 142, 3, 157, 241, 153, 18, 236, 231, 220, 192, 109, 82, 197, 150],
   [45, 239, 216, 187, 120, 79, 17, 39, 122, 32, 224, 143, 187, 20, 189, 101, 168, 230, 182, 6, 162, 25, 32, 17, 43, 253, 90, 230, 181, 150, 88, 100, 106,
    19, 128, 83, 52, 184, 66, 6, 255, 30, 122, 165, 53, 33, 44, 104, 244, 157],
   [119, 44, 117, 208, 136, 209, 51, 105, 142, 96, 61, 140, 208, 60, 218, 175, 229, 55, 199, 10, 251, 43, 96, 51, 125, 26, 238, 55, 194, 167, 232, 172, 190,
    53, 157, 245, 92, 213, 198, 10, 28, 34, 142, 242, 95, 99, 116, 184, 3, 186]]"

definition Matrices_k_50_h_1 :: "nat \<Rightarrow> nat \<Rightarrow> nat \<Rightarrow> fec_sym" where
  "Matrices_k_50_h_1 Missing_packet Output_packet Input_packet =
     (if 50 \<le> Output_packet \<or> 50 \<le> Input_packet then 0
      else if Missing_packet = 50 then (if Output_packet = Input_packet then 1 else 0)
      else if Output_packet = Missing_packet then Matrices_k_50_h_1_rows ! Missing_packet ! Input_packet
      else if Input_packet = (if Output_packet < Missing_packet then Output_packet else Output_packet - 1) then 1 else 0)"

section \<open>Decoding a word\<close>

definition Lookup_coefficients :: "nat \<Rightarrow> nat \<Rightarrow> nat \<Rightarrow> nat \<Rightarrow> fec_sym list" where
  \<comment> \<open>with five packets the value that is read behind the end of a row is not used\<close>
  "Lookup_coefficients k h Output_packet Missing_packet =
     map (\<lambda>Input_packet.
       if k = 5 \<and> h = 1 then (if Input_packet < 5 then Matrices_k_5_h_1 ! Missing_packet ! Output_packet ! Input_packet else 0)
       else if k = 50 \<and> h = 1 then (if Input_packet < 50 then Matrices_k_50_h_1 Missing_packet Output_packet Input_packet else 0)
       else 0) [0..<FEC_MAX_K]"

definition Matrix_multiply :: "rse_h \<Rightarrow> fec_sym list \<Rightarrow> fec_sym list \<Rightarrow> nat \<Rightarrow> fec_sym" where
  "Matrix_multiply c Input Coefficients k =
     for_loop 0 FEC_MAX_K (\<lambda>Input_packet Output.
       if Input_packet < k then GF_add Output (GF_multiply c (Input ! Input_packet) (Coefficients ! Input_packet)) else Output) 0"

definition FEC_AXI_BUS_WIDTH :: nat where "FEC_AXI_BUS_WIDTH = 64"

definition Matrix_multiply_word :: "rse_h \<Rightarrow> u64 list \<Rightarrow> fec_sym list \<Rightarrow> nat \<Rightarrow> u64" where
  "Matrix_multiply_word c Input Coefficients k =
     for_loop 0 (FEC_AXI_BUS_WIDTH div FEC_M c) (\<lambda>i Output.
       let Input_symbols = map (\<lambda>w. ucast (drop_bit (FEC_AXI_BUS_WIDTH - FEC_M c) (push_bit (FEC_M c * i) w))) Input;
           Output_symbol = Matrix_multiply c Input_symbols Coefficients k
       in push_bit (FEC_M c) Output OR ucast Output_symbol) 0"

definition Find_missing_packet :: "nat list \<Rightarrow> nat \<Rightarrow> nat" where
  "Find_missing_packet Packet_indices k =
     for_loop 0 FEC_MAX_K (\<lambda>Packet Missing_packet.
       if Packet < k \<and> Packet_indices ! Packet = Packet then Packet + 1 else Missing_packet) 0"

end
