(* ===== verification/Gf_Table.thy ===== *)
theory Gf_Table
  imports GF256
begin

text \<open>
  The powers of the generator of the field as numbers, for calculations with constants of the program.
\<close>

fun xtime_list :: "nat \<Rightarrow> u8 \<Rightarrow> u8 list" where
  "xtime_list 0 x = []"
| "xtime_list (Suc n) x = x # xtime_list n (xtime x)"

lemma nth_xtime_list: "i < n \<Longrightarrow> xtime_list n x ! i = (xtime ^^ i) x"
proof (induction n arbitrary: i x)
  case (Suc n)
  then show ?case by (cases i) (simp_all add: funpow_swap1)
qed simp

lemma xtime_list_numeral: "xtime_list (numeral k) x = x # xtime_list (pred_numeral k) (xtime x)"
  by (simp add: numeral_eq_Suc)

lemma exp_list: "xtime_list 255 1 =
  [1, 2, 4, 8, 16, 32, 64, 128, 29, 58, 116, 232, 205, 135, 19, 38, 76, 152, 45, 90, 180, 117, 234, 201, 143, 3, 6, 12, 24, 48, 96, 192, 157, 39,
   78, 156, 37, 74, 148, 53, 106, 212, 181, 119, 238, 193, 159, 35, 70, 140, 5, 10, 20, 40, 80, 160, 93, 186, 105, 210, 185, 111, 222, 161, 95,
   190, 97, 194, 153, 47, 94, 188, 101, 202, 137, 15, 30, 60, 120, 240, 253, 231, 211, 187, 107, 214, 177, 127, 254, 225, 223, 163, 91, 182, 113,
   226, 217, 175, 67, 134, 17, 34, 68, 136, 13, 26, 52, 104, 208, 189, 103, 206, 129, 31, 62, 124, 248, 237, 199, 147, 59, 118, 236, 197, 151, 51,
   102, 204, 133, 23, 46, 92, 184, 109, 218, 169, 79, 158, 33, 66, 132, 21, 42, 84, 168, 77, 154, 41, 82, 164, 85, 170, 73, 146, 57, 114, 228, 213,
   183, 115, 230, 209, 191, 99, 198, 145, 63, 126, 252, 229, 215, 179, 123, 246, 241, 255, 227, 219, 171, 75, 150, 49, 98, 196, 149, 55, 110, 220,
   165, 87, 174, 65, 130, 25, 50, 100, 200, 141, 7, 14, 28, 56, 112, 224, 221, 167, 83, 166, 81, 162, 89, 178, 121, 242, 249, 239, 195, 155, 43,
   86, 172, 69, 138, 9, 18, 36, 72, 144, 61, 122, 244, 245, 247, 243, 251, 235, 203, 139, 11, 22, 44, 88, 176, 125, 250, 233, 207, 131, 27, 54,
   108, 216, 173, 71, 142]"
  by (simp add: xtime_list_numeral xtime_def)

lemma gexp_exp_list: "i < 255 \<Longrightarrow> gexp i = xtime_list 255 1 ! i"
  by (simp add: gexp_def nth_xtime_list del: xtime_list.simps)

lemma gexp_values:
  "gexp 0 = 1" "gexp (Suc 0) = 2" "gexp 2 = 4" "gexp 3 = 8" "gexp 4 = 16" "gexp 5 = 32" "gexp 6 = 64" "gexp 7 = 128" "gexp 8 = 29" "gexp 9 = 58" "gexp 10 = 116"
   "gexp 11 = 232" "gexp 12 = 205" "gexp 13 = 135" "gexp 14 = 19" "gexp 15 = 38" "gexp 16 = 76" "gexp 17 = 152" "gexp 18 = 45" "gexp 19 = 90" "gexp 20 = 180"
   "gexp 21 = 117" "gexp 22 = 234" "gexp 23 = 201" "gexp 24 = 143" "gexp 25 = 3" "gexp 26 = 6" "gexp 27 = 12" "gexp 28 = 24" "gexp 29 = 48" "gexp 30 = 96"
   "gexp 31 = 192" "gexp 32 = 157" "gexp 33 = 39" "gexp 34 = 78" "gexp 35 = 156" "gexp 36 = 37" "gexp 37 = 74" "gexp 38 = 148" "gexp 39 = 53" "gexp 40 = 106"
   "gexp 41 = 212" "gexp 42 = 181" "gexp 43 = 119" "gexp 44 = 238" "gexp 45 = 193" "gexp 46 = 159" "gexp 47 = 35" "gexp 48 = 70" "gexp 49 = 140"
   "gexp 50 = 5" "gexp 51 = 10" "gexp 52 = 20" "gexp 53 = 40" "gexp 54 = 80" "gexp 55 = 160" "gexp 56 = 93" "gexp 57 = 186" "gexp 58 = 105" "gexp 59 = 210"
   "gexp 60 = 185" "gexp 61 = 111" "gexp 62 = 222" "gexp 63 = 161" "gexp 64 = 95" "gexp 65 = 190" "gexp 66 = 97" "gexp 67 = 194" "gexp 68 = 153"
   "gexp 69 = 47" "gexp 70 = 94" "gexp 71 = 188" "gexp 72 = 101" "gexp 73 = 202" "gexp 74 = 137" "gexp 75 = 15" "gexp 76 = 30" "gexp 77 = 60" "gexp 78 = 120"
   "gexp 79 = 240" "gexp 80 = 253" "gexp 81 = 231" "gexp 82 = 211" "gexp 83 = 187" "gexp 84 = 107" "gexp 85 = 214" "gexp 86 = 177" "gexp 87 = 127"
   "gexp 88 = 254" "gexp 89 = 225" "gexp 90 = 223" "gexp 91 = 163" "gexp 92 = 91" "gexp 93 = 182" "gexp 94 = 113" "gexp 95 = 226" "gexp 96 = 217"
   "gexp 97 = 175" "gexp 98 = 67" "gexp 99 = 134" "gexp 100 = 17" "gexp 101 = 34" "gexp 102 = 68" "gexp 103 = 136" "gexp 104 = 13" "gexp 105 = 26"
   "gexp 106 = 52" "gexp 107 = 104" "gexp 108 = 208" "gexp 109 = 189" "gexp 110 = 103" "gexp 111 = 206" "gexp 112 = 129" "gexp 113 = 31" "gexp 114 = 62"
   "gexp 115 = 124" "gexp 116 = 248" "gexp 117 = 237" "gexp 118 = 199" "gexp 119 = 147" "gexp 120 = 59" "gexp 121 = 118" "gexp 122 = 236" "gexp 123 = 197"
   "gexp 124 = 151" "gexp 125 = 51" "gexp 126 = 102" "gexp 127 = 204" "gexp 128 = 133" "gexp 129 = 23" "gexp 130 = 46" "gexp 131 = 92" "gexp 132 = 184"
   "gexp 133 = 109" "gexp 134 = 218" "gexp 135 = 169" "gexp 136 = 79" "gexp 137 = 158" "gexp 138 = 33" "gexp 139 = 66" "gexp 140 = 132" "gexp 141 = 21"
   "gexp 142 = 42" "gexp 143 = 84" "gexp 144 = 168" "gexp 145 = 77" "gexp 146 = 154" "gexp 147 = 41" "gexp 148 = 82" "gexp 149 = 164" "gexp 150 = 85"
   "gexp 151 = 170" "gexp 152 = 73" "gexp 153 = 146" "gexp 154 = 57" "gexp 155 = 114" "gexp 156 = 228" "gexp 157 = 213" "gexp 158 = 183" "gexp 159 = 115"
   "gexp 160 = 230" "gexp 161 = 209" "gexp 162 = 191" "gexp 163 = 99" "gexp 164 = 198" "gexp 165 = 145" "gexp 166 = 63" "gexp 167 = 126" "gexp 168 = 252"
   "gexp 169 = 229" "gexp 170 = 215" "gexp 171 = 179" "gexp 172 = 123" "gexp 173 = 246" "gexp 174 = 241" "gexp 175 = 255" "gexp 176 = 227" "gexp 177 = 219"
   "gexp 178 = 171" "gexp 179 = 75" "gexp 180 = 150" "gexp 181 = 49" "gexp 182 = 98" "gexp 183 = 196" "gexp 184 = 149" "gexp 185 = 55" "gexp 186 = 110"
   "gexp 187 = 220" "gexp 188 = 165" "gexp 189 = 87" "gexp 190 = 174" "gexp 191 = 65" "gexp 192 = 130" "gexp 193 = 25" "gexp 194 = 50" "gexp 195 = 100"
   "gexp 196 = 200" "gexp 197 = 141" "gexp 198 = 7" "gexp 199 = 14" "gexp 200 = 28" "gexp 201 = 56" "gexp 202 = 112" "gexp 203 = 224" "gexp 204 = 221"
   "gexp 205 = 167" "gexp 206 = 83" "gexp 207 = 166" "gexp 208 = 81" "gexp 209 = 162" "gexp 210 = 89" "gexp 211 = 178" "gexp 212 = 121" "gexp 213 = 242"
   "gexp 214 = 249" "gexp 215 = 239" "gexp 216 = 195" "gexp 217 = 155" "gexp 218 = 43" "gexp 219 = 86" "gexp 220 = 172" "gexp 221 = 69" "gexp 222 = 138"
   "gexp 223 = 9" "gexp 224 = 18" "gexp 225 = 36" "gexp 226 = 72" "gexp 227 = 144" "gexp 228 = 61" "gexp 229 = 122" "gexp 230 = 244" "gexp 231 = 245"
   "gexp 232 = 247" "gexp 233 = 243" "gexp 234 = 251" "gexp 235 = 235" "gexp 236 = 203" "gexp 237 = 139" "gexp 238 = 11" "gexp 239 = 22" "gexp 240 = 44"
   "gexp 241 = 88" "gexp 242 = 176" "gexp 243 = 125" "gexp 244 = 250" "gexp 245 = 233" "gexp 246 = 207" "gexp 247 = 131" "gexp 248 = 27" "gexp 249 = 54"
   "gexp 250 = 108" "gexp 251 = 216" "gexp 252 = 173" "gexp 253 = 71" "gexp 254 = 142"
  by (simp_all add: gexp_exp_list exp_list)

end
