(* ===== verification/Hls_Tables.thy ===== *)
theory Hls_Tables
  imports Hls_Decoder Gf_Table
begin

text \<open>
  What the matrices of \<^verbatim>\<open>Matrices.h\<close> contain. The first row of the generator matrix consists of values of a polynomial, which gives its
  entries as powers of the generator of the field. The row of a missing packet has the quotients of these entries.
\<close>

section \<open>The first row of a systematic matrix\<close>

lemma product_horner:
  fixes y :: "nat \<Rightarrow> 'a::comm_ring_1"
  shows "\<exists>cs. length cs = Suc n \<and> (\<forall>x. horner cs x = (\<Prod>s<n. x - y s))"
proof (induction n)
  case 0
  show ?case by (rule exI [of _ "[1]"]) simp
next
  case (Suc n)
  then obtain cs where cs: "length cs = Suc n" "\<And>x. horner cs x = (\<Prod>s<n. x - y s)" by blast
  let ?ds = "map2 (+) (0 # cs) (map (\<lambda>c. - y n * c) (cs @ [0]))"
  have z: "horner (cs @ [0]) x = horner cs x" for x by (induction cs) simp_all
  have "horner ?ds x = horner (0 # cs) x + horner (map (\<lambda>c. - y n * c) (cs @ [0])) x" for x using cs(1) by (intro horner_add) simp
  then have "horner ?ds x = (\<Prod>s<Suc n. x - y s)" for x
    by (simp only: horner_scale z) (simp add: cs(2) algebra_simps)
  moreover have "length ?ds = Suc (Suc n)" using cs(1) by simp
  ultimately show ?case by blast
qed

lemma systematic_first_row:
  fixes x :: "nat \<Rightarrow> 'a::field"
  assumes sys: "systematic (Suc m) n x W" and inj: "inj_on x {..<n}" and mn: "Suc m \<le> n" and j: "j < n"
  shows "W 0 j * (\<Prod>s<m. x 0 - x (Suc s)) = (\<Prod>s<m. x j - x (Suc s))"
proof -
  from sys obtain l where l: "\<And>j. j < n \<Longrightarrow> W 0 j = (\<Sum>p<Suc m. l p * x j ^ p)" by (auto simp: systematic_def)
  from sys have unit: "W 0 i = (if 0 = i then 1 else 0)" if "i < Suc m" for i using that unfolding systematic_def by blast
  obtain cs where cs: "length cs = Suc m" "\<And>z. horner cs z = (\<Prod>s<m. z - x (Suc s))" using product_horner [of m "\<lambda>s. x (Suc s)"] by blast
  define q where "q = horner cs (x 0)"
  define ds where "ds = map2 (+) (map (\<lambda>c. q * c) (map l [0..<Suc m])) (map (\<lambda>c. - 1 * c) cs)"
  have ds: "horner ds (x i) = q * W 0 i - horner cs (x i)" if "i < n" for i
    using cs(1) that unfolding ds_def by (subst horner_add) (simp_all only: length_map length_upt horner_scale horner_sum l, simp_all)
  have "set ds \<subseteq> {0}"
  proof (rule horner_roots_zero)
    have "inj_on x {..<Suc m}" using mn by (intro inj_on_subset [OF inj]) auto
    then show "length ds \<le> card (x ` {..<Suc m})" using cs(1) by (simp add: ds_def card_image)
    fix z assume "z \<in> x ` {..<Suc m}"
    then obtain i where i: "i < Suc m" "z = x i" by auto
    moreover have "horner cs (x i) = 0" if "i \<noteq> 0"
    proof -
      have "i - 1 \<in> {..<m}" "x i - x (Suc (i - 1)) = 0" using i(1) that by simp_all
      then show ?thesis unfolding cs(2) by (intro prod_zero) auto
    qed
    ultimately show "horner ds z = 0" using ds [of i] mn unit [of i] by (auto simp: q_def)
  qed simp
  then have "horner ds (x j) = 0" by (rule horner_zero_coeffs)
  then show ?thesis using ds [OF j] by (simp add: q_def cs(2) ac_simps)
qed

section \<open>The first row of the generator matrix\<close>

definition gen_logs :: "nat list" where
  "gen_logs = [241, 183, 219, 51, 46, 104, 68, 1, 197, 228, 171, 247, 51, 20, 77, 40, 112, 128, 61, 249, 177, 161, 228, 68, 186, 48, 242, 128, 10, 148, 209, 163, 8, 237,
    230, 174, 74, 100, 107, 249, 143, 44, 197, 156, 7, 106, 208, 75, 223, 198]"

definition factor_logs :: "(nat \<times> nat \<times> nat \<times> nat) list" where
  \<comment> \<open>for every data packet the logarithms of the four factors\<close>
  "factor_logs = [(185, 106, 39, 194), (106, 185, 249, 181), (39, 249, 185, 29), (194, 181, 29, 185), (125, 29, 181, 249), (29, 125, 194, 39), (181, 194, 125, 106), (114, 228, 77, 120),
    (166, 77, 228, 9), (77, 166, 114, 154), (228, 114, 166, 201), (9, 154, 201, 166), (120, 201, 154, 114), (201, 120, 9, 228), (154, 9, 120, 77), (15, 36, 225, 47),
    (33, 225, 36, 101), (225, 33, 15, 138), (36, 15, 33, 5), (101, 138, 5, 33), (47, 5, 138, 15), (5, 47, 101, 36), (138, 101, 47, 225), (130, 18, 240, 218),
    (69, 240, 18, 142), (240, 69, 130, 147), (18, 130, 69, 53), (142, 147, 53, 69), (218, 53, 147, 130), (53, 218, 142, 18), (147, 142, 218, 240), (239, 141, 52, 14),
    (129, 52, 141, 224), (52, 129, 239, 100), (141, 239, 129, 4), (224, 100, 4, 129), (14, 4, 100, 239), (4, 14, 224, 141), (100, 224, 14, 52), (76, 8, 200, 248),
    (113, 200, 8, 105), (200, 113, 76, 193), (8, 76, 113, 28), (105, 193, 28, 113), (248, 28, 193, 76), (28, 248, 105, 8), (193, 105, 248, 200), (26, 50, 2, 25),
    (198, 2, 50, 1), (2, 198, 26, 0)]"

lemma gen_logs_length [simp]: "length gen_logs = 50" and factor_logs_length [simp]: "length factor_logs = 50"
  by (simp_all add: gen_logs_def factor_logs_def)

lemma factors:
  "\<forall>j\<in>{..<50}. let (a, b, c, d) = factor_logs ! j in
     gexp a = of_nat (Suc j) XOR 54 \<and> gexp b = of_nat (Suc j) XOR 53 \<and> gexp c = of_nat (Suc j) XOR 52 \<and> gexp d = of_nat (Suc j) XOR 51 \<and>
     (a + b + c + d) mod 255 = (gen_logs ! j + 28) mod 255"
  by (simp add: factor_logs_def gen_logs_def lessThan_nat_numeral lessThan_Suc gexp_values)

lemma gf_prod4: "(\<Prod>s<4 :: nat. gf x - gf (p s)) = gf (gmul (gmul (gmul (x XOR p 0) (x XOR p 1)) (x XOR p 2)) (x XOR p 3))"
  by (simp add: lessThan_nat_numeral lessThan_Suc gf256_minus_plus gf_xor gf_gmul numeral_3_eq_3 numeral_2_eq_2 ac_simps)

lemma hls_generator_first_row:
  assumes c: "byte_symbols c" and N: "FEC_MAX_N c = 55" and j: "j < 50"
  shows "hls_generator c ! 0 ! j = gexp (gen_logs ! j)"
proof -
  obtain a b d e where f: "factor_logs ! j = (a, b, d, e)" by (metis prod_cases4)
  let ?x = "of_nat (Suc j) :: u8" and ?p = "\<lambda>s. of_nat (54 - s) :: u8"
  let ?V = "vandermonde (rs_point c)"
  have gfit: "group_fits c" using N by (simp add: group_fits_def FEC_MAX_K_def FEC_MAX_H_def)
  have inj: "inj_on (rs_point c) {..<55}" using rs_point_inj [of c] N by simp
  then have "inj_on (rs_point c) {..<Suc 4}" by (rule inj_on_subset) simp
  then have "systematic (Suc 4) 55 (rs_point c) (solve (Suc 4) ?V)" by (rule systematic_solve)
  from systematic_first_row [OF this inj, of "54 - j"] j
  have "solve 5 ?V 0 (54 - j) * (\<Prod>s<4. gf 55 - gf (?p s)) = (\<Prod>s<4. gf ?x - gf (?p s))"
    by (simp add: rs_point_def N Suc_diff_le del: of_nat_Suc)
  moreover have "solve 5 ?V 0 (54 - j) = gf (hls_generator c ! 0 ! j)"
    using hls_generator_entry [OF c gfit, of 0 j] j by (simp add: FEC_MAX_H_def FEC_MAX_K_def N)
  moreover have "(\<Prod>s<4. gf 55 - gf (?p s)) = gf (gexp 28)"
  proof -
    have "gmul (gmul (gmul (gexp 0) (gexp 1)) (gexp 25)) (gexp 2) = gexp 28" by (simp add: gmul_gexp)
    then show ?thesis unfolding gf_prod4 by (simp add: gexp_values)
  qed
  moreover have "(\<Prod>s<4. gf ?x - gf (?p s)) = gf (gexp (gen_logs ! j + 28))"
  proof -
    have m: "gexp a = ?x XOR 54" "gexp b = ?x XOR 53" "gexp d = ?x XOR 52" "gexp e = ?x XOR 51"
      "(a + b + d + e) mod 255 = (gen_logs ! j + 28) mod 255"
      using factors [THEN bspec, of j] j unfolding f Let_def prod.case by auto
    have "gexp (a + b + d + e) = gexp (gen_logs ! j + 28)" by (metis gexp_mod m(5))
    then show ?thesis unfolding gf_prod4 by (simp add: m(1-4) [symmetric] gmul_gexp del: of_nat_Suc)
  qed
  ultimately have "gf (hls_generator c ! 0 ! j) * gf (gexp 28) = gf (gexp (gen_logs ! j)) * gf (gexp 28)"
    by (simp add: gf_gmul [symmetric] gmul_gexp)
  then show ?thesis by simp
qed

section \<open>The rows of the missing packets\<close>

definition quotients :: "nat list \<Rightarrow> nat \<Rightarrow> fec_sym list" where
  "quotients es i = map (\<lambda>e. gexp ((e + 255 - es ! i) mod 255)) (take i es @ drop (Suc i) es) @ [gexp (255 - es ! i)]"

lemma rows_50_quotients: "Matrices_k_50_h_1_rows = map (quotients gen_logs) [0..<50]"
  by (simp add: quotients_def gen_logs_def Matrices_k_50_h_1_rows_def gexp_values upt_rec)

end
