(* ===== verification/Hls_Recover.thy ===== *)
theory Hls_Recover
  imports Hls_Tables
begin

text \<open>
  The matrices of the FPGA decoder invert the encoder: with the coefficients for the missing packet, the packets received give back the data packets, word by word.
\<close>

section \<open>The inverse of a code with one parity packet\<close>

definition row_of :: "nat \<Rightarrow> nat \<Rightarrow> nat" where
  \<comment> \<open>which packet is the \<open>l\<close>-th one received when packet \<open>i\<close> is missing\<close>
  "row_of i l = (if l < i then l else Suc l)"

definition decode_coeff :: "(nat \<Rightarrow> gf256) \<Rightarrow> nat \<Rightarrow> nat \<Rightarrow> nat \<Rightarrow> nat \<Rightarrow> gf256" where
  "decode_coeff g k i out l =
     (if out = i then (if row_of i l < k then g (row_of i l) else 1) * inverse (g i)
      else if row_of i l = out then 1 else 0)"

lemma row_of_bij: "i < k \<Longrightarrow> bij_betw (row_of i) {..<k - 1} ({..<k} - {i})"
  by (rule bij_betw_byWitness [where f' = "\<lambda>j. if j < i then j else j - 1"]) (auto simp: row_of_def)

lemma decode_coeff_sum:
  fixes d g :: "nat \<Rightarrow> gf256"
  assumes i: "i \<le> k" and out: "out < k" and g: "i < k \<Longrightarrow> g i \<noteq> 0" and p: "p = (\<Sum>j<k. d j * g j)"
  shows "(\<Sum>l<k. (if row_of i l < k then d (row_of i l) else p) * decode_coeff g k i out l) = d out"
proof (cases "out = i")
  case False
  let ?l = "if out < i then out else out - 1"
  have "(\<Sum>l<k. (if row_of i l < k then d (row_of i l) else p) * decode_coeff g k i out l) = (\<Sum>l<k. if l = ?l then d out else 0)"
    using False out by (intro sum.cong refl) (auto simp: decode_coeff_def row_of_def)
  moreover have "?l < k" using out by auto
  ultimately show ?thesis by simp
next
  case True
  then have ik: "i < k" using out by simp
  then obtain m where k: "k = Suc m" by (cases k) auto
  have F: "(\<Sum>l<m. F (row_of i l)) = (\<Sum>j\<in>{..<k} - {i}. F j)" for F :: "nat \<Rightarrow> gf256"
    using sum.reindex_bij_betw [OF row_of_bij [OF ik], of F] by (simp add: k)
  have "(\<Sum>l<k. (if row_of i l < k then d (row_of i l) else p) * decode_coeff g k i out l) =
      (\<Sum>l<m. d (row_of i l) * g (row_of i l)) * inverse (g i) + p * inverse (g i)"
  proof -
    have "row_of i l < k" if "l < m" for l using that by (auto simp: row_of_def k)
    moreover have "\<not> row_of i m < k" using ik by (auto simp: row_of_def k)
    ultimately show ?thesis using True by (simp add: k decode_coeff_def sum_distrib_right mult.assoc)
  qed
  also have "\<dots> = ((\<Sum>j\<in>{..<k} - {i}. d j * g j) + p) * inverse (g i)" by (simp add: F [of "\<lambda>j. d j * g j"] distrib_right)
  also have "\<dots> = d i"
  proof -
    have "p = d i * g i + (\<Sum>j\<in>{..<k} - {i}. d j * g j)" unfolding p using ik by (intro sum.remove) auto
    then show ?thesis using g [OF ik] by (simp add: add.left_commute mult.assoc)
  qed
  finally show ?thesis using True by simp
qed

section \<open>The matrices\<close>

definition row_weight :: "nat \<Rightarrow> gf256" where
  "row_weight j = gf (gexp (gen_logs ! j))"

lemma gen_logs_bound: "j < 50 \<Longrightarrow> gen_logs ! j < 255"
proof -
  have "list_all (\<lambda>e. e < 255) gen_logs" by (simp add: gen_logs_def)
  then show "j < 50 \<Longrightarrow> gen_logs ! j < 255" by (simp add: list_all_length)
qed

lemma gexp_quotient: "e' < 255 \<Longrightarrow> gf (gexp ((e + 255 - e') mod 255)) = gf (gexp e) * inverse (gf (gexp e'))"
proof -
  assume e: "e' < 255"
  then have "gexp (e + 255 - e' + e') = gexp e" by (simp add: add.commute)
  then have "gmul (gexp (e + 255 - e')) (gexp e') = gexp e" by (simp add: gmul_gexp)
  then have "gf (gexp (e + 255 - e')) * gf (gexp e') = gf (gexp e)" by (metis gf_gmul)
  then show ?thesis by (simp add: gexp_mod field_simps)
qed

lemma quotients_coeff:
  assumes "k \<le> 50" and "i < k" and "l < k"
  shows "gf (quotients (take k gen_logs) i ! l) = decode_coeff row_weight k i i l"
proof -
  have b: "gen_logs ! i < 255" using assms by (intro gen_logs_bound) simp
  define xs where "xs = take i (take k gen_logs) @ drop (Suc i) (take k gen_logs)"
  have xs: "length xs = k - 1" "\<And>l. l < k - 1 \<Longrightarrow> xs ! l = gen_logs ! row_of i l"
    using assms by (auto simp: xs_def nth_append row_of_def min_def)
  have q: "quotients (take k gen_logs) i = map (\<lambda>e. gexp ((e + 255 - gen_logs ! i) mod 255)) xs @ [gexp (255 - gen_logs ! i)]"
    using assms by (simp add: quotients_def xs_def)
  show ?thesis
  proof (cases "l < k - 1")
    case True
    then have "row_of i l < k" by (auto simp: row_of_def)
    with True show ?thesis using gexp_quotient [OF b] by (simp add: q nth_append xs decode_coeff_def row_weight_def)
  next
    case False
    then have l: "l = k - 1" "\<not> row_of i l < k" using assms by (auto simp: row_of_def)
    have "gf (gexp (255 - gen_logs ! i)) = inverse (gf (gexp (gen_logs ! i)))"
      using gexp_quotient [OF b, of 0] gexp_mod [of "255 - gen_logs ! i"] by simp
    then show ?thesis using l by (simp add: q nth_append xs decode_coeff_def row_weight_def)
  qed
qed

lemma coefficients_50:
  assumes "i \<le> 50" and "out < 50" and "l < 50"
  shows "gf (Matrices_k_50_h_1 i out l) = decode_coeff row_weight 50 i out l"
proof (cases "out = i")
  case True
  then have "Matrices_k_50_h_1_rows ! i = quotients (take 50 gen_logs) i" using assms by (simp add: rows_50_quotients)
  then show ?thesis using quotients_coeff [of 50 i l] True assms by (simp add: Matrices_k_50_h_1_def)
next
  case False
  then show ?thesis using assms by (auto simp: Matrices_k_50_h_1_def decode_coeff_def row_of_def)
qed

lemma matrices_5:
  "\<forall>i\<in>{..<6}. \<forall>out\<in>{..<5}. \<forall>l\<in>{..<5}.
     Matrices_k_5_h_1 ! i ! out ! l = (if out = i then quotients (take 5 gen_logs) i ! l else if row_of i l = out then 1 else 0)"
  by (simp add: Matrices_k_5_h_1_def quotients_def gen_logs_def row_of_def gexp_values lessThan_nat_numeral lessThan_Suc)

lemma coefficients_5:
  assumes "i \<le> 5" and "out < 5" and "l < 5"
  shows "gf (Matrices_k_5_h_1 ! i ! out ! l) = decode_coeff row_weight 5 i out l"
proof -
  have "Matrices_k_5_h_1 ! i ! out ! l = (if out = i then quotients (take 5 gen_logs) i ! l else if row_of i l = out then 1 else 0)"
    using matrices_5 assms by simp
  then show ?thesis using quotients_coeff [of 5 i l] assms by (auto simp: decode_coeff_def)
qed

lemma lookup_coefficients:
  assumes "k = 5 \<or> k = 50" and "i \<le> k" and "out < k" and "l < k"
  shows "gf (Lookup_coefficients k 1 out i ! l) = decode_coeff row_weight k i out l"
  using assms coefficients_5 [of i out l] coefficients_50 [of i out l] by (auto simp: Lookup_coefficients_def FEC_MAX_K_def)

section \<open>Symbols\<close>

lemma Matrix_multiply_sum:
  assumes c: "byte_symbols c" and k: "k \<le> FEC_MAX_K"
  shows "gf (Matrix_multiply c xs cs k) = (\<Sum>l<k. gf (xs ! l) * gf (cs ! l))"
proof -
  let ?f = "\<lambda>l out. if l < k then GF_add out (GF_multiply c (xs ! l) (cs ! l)) else out"
  have "gf (for_loop 0 n ?f 0) = (\<Sum>l<min n k. gf (xs ! l) * gf (cs ! l))" for n
  proof (induction n)
    case (Suc n)
    then show ?case
      by (cases "n < k") (simp_all add: for_loop_Suc GF_add_def gf_xor GF_multiply_gmul [OF c] gf_gmul min_def)
  qed simp
  from this [of FEC_MAX_K] show ?thesis using k by (simp add: Matrix_multiply_def min_def)
qed

definition group_parity_symbol :: "rse_h \<Rightarrow> fec_sym list \<Rightarrow> fec_sym list \<Rightarrow> fec_sym" where
  \<comment> \<open>the first parity symbol after the encoder was given one symbol of every data packet\<close>
  "group_parity_symbol c P0 ds = for_loop 0 (length ds) (\<lambda>j P. Incremental_encode c (ds ! j) P j 1 (j = 0)) P0 ! 0"

lemma parity_symbol_sum:
  assumes c: "byte_symbols c" and P: "length P0 = FEC_MAX_H" and ds: "ds \<noteq> []"
  shows "gf (group_parity_symbol c P0 ds) = (\<Sum>j<length ds. gf (ds ! j) * gf (hls_generator c ! 0 ! j))"
proof -
  let ?f = "\<lambda>j P. Incremental_encode c (ds ! j) P j 1 (j = 0)"
  have H: "0 < FEC_MAX_H" by (simp add: FEC_MAX_H_def)
  have "length (for_loop 0 (Suc n) ?f P0) = FEC_MAX_H \<and> gf (for_loop 0 (Suc n) ?f P0 ! 0) = (\<Sum>j<Suc n. gf (ds ! j) * gf (hls_generator c ! 0 ! j))" for n
  proof (induction n)
    case 0
    then show ?case using incremental_encode_nth [OF c P H, of "ds ! 0" 0 1 True] by (simp add: for_loop_Suc)
  next
    case (Suc n)
    then show ?case
      using incremental_encode_nth [OF c _ H, of "for_loop 0 (Suc n) ?f P0" "ds ! Suc n" "Suc n" 1 False] by (simp add: for_loop_Suc [of 0 "Suc n"])
  qed
  moreover obtain n where "length ds = Suc n" using ds by (cases ds) auto
  ultimately show ?thesis by (simp add: group_parity_symbol_def)
qed

definition arrived :: "nat \<Rightarrow> nat \<Rightarrow> 'a list \<Rightarrow> 'a \<Rightarrow> 'a list" where
  \<comment> \<open>the packets in the order of their indices, without packet \<open>i\<close>\<close>
  "arrived k i ds p = map (\<lambda>l. if row_of i l < k then ds ! row_of i l else p) [0..<k]"

lemma symbol_recovered:
  assumes c: "byte_symbols c" "FEC_MAX_N c = 55" and k: "k = 5 \<or> k = 50" and i: "i \<le> k" and out: "out < k"
    and ds: "length ds = k" and P: "length P0 = FEC_MAX_H"
  shows "Matrix_multiply c (arrived k i ds (group_parity_symbol c P0 ds) @ rest) (Lookup_coefficients k 1 out i) k = ds ! out"
proof -
  let ?p = "group_parity_symbol c P0 ds" and ?d = "\<lambda>j. gf (ds ! j)"
  have k50: "k \<le> 50" "0 < k" using k by auto
  have p: "gf ?p = (\<Sum>j<k. ?d j * row_weight j)"
    using parity_symbol_sum [OF c(1) P, of ds] ds k50 hls_generator_first_row [OF c] by (auto simp: row_weight_def)
  have "gf (Matrix_multiply c (arrived k i ds ?p @ rest) (Lookup_coefficients k 1 out i) k) =
      (\<Sum>l<k. (if row_of i l < k then ?d (row_of i l) else gf ?p) * decode_coeff row_weight k i out l)"
    using k50 by (simp add: Matrix_multiply_sum [OF c(1)] FEC_MAX_K_def arrived_def nth_append lookup_coefficients [OF k i out] if_distrib [of gf] del: One_nat_def cong: if_cong)
  also have "\<dots> = ?d out" using i out p by (intro decode_coeff_sum) (simp_all add: row_weight_def)
  finally show ?thesis by simp
qed

lemma Find_missing_received:
  assumes "i \<le> k" and "k \<le> FEC_MAX_K"
  shows "Find_missing_packet (map (row_of i) [0..<k] @ rest) k = i"
proof -
  let ?f = "\<lambda>P m. if P < k \<and> (map (row_of i) [0..<k] @ rest) ! P = P then P + 1 else m"
  have "for_loop 0 n ?f 0 = min n i" for n
  proof (induction n)
    case (Suc n)
    then show ?case using assms by (auto simp: for_loop_Suc nth_append row_of_def min_def)
  qed simp
  from this [of FEC_MAX_K] show ?thesis using assms by (simp add: Find_missing_packet_def min_def)
qed

section \<open>Words\<close>

definition word_symbol :: "u64 \<Rightarrow> nat \<Rightarrow> fec_sym" where
  "word_symbol w i = ucast (drop_bit 56 (push_bit (8 * i) w))"

definition word_of_symbols :: "(nat \<Rightarrow> fec_sym) \<Rightarrow> u64" where
  "word_of_symbols f = for_loop 0 8 (\<lambda>i out. push_bit 8 out OR ucast (f i)) 0"

lemma bit_symbols_loop:
  "n \<le> 8 \<Longrightarrow> bit (for_loop 0 n (\<lambda>i out. push_bit 8 out OR ucast (f i :: fec_sym)) (0 :: u64)) b \<longleftrightarrow>
    b < 8 * n \<and> bit (f (n - 1 - b div 8)) (b mod 8)"
proof (induction n arbitrary: b)
  case (Suc n)
  show ?case
  proof (cases "b < 8")
    case True
    then show ?thesis by (simp add: for_loop_Suc bit_or_iff bit_push_bit_iff bit_unsigned_iff)
  next
    case False
    then have "b div 8 = Suc ((b - 8) div 8)" "(b - 8) mod 8 = b mod 8" by (simp_all add: le_div_geq le_mod_geq)
    then show ?thesis using False Suc.IH [of "b - 8"] Suc.prems
      by (auto simp: for_loop_Suc bit_or_iff bit_push_bit_iff bit_unsigned_iff dest: bit_imp_le_length)
  qed
qed simp

lemma bit_word_symbol: "i < 8 \<Longrightarrow> b < 8 \<Longrightarrow> bit (word_symbol w i) b \<longleftrightarrow> bit w (56 + b - 8 * i)"
  by (simp add: word_symbol_def bit_unsigned_iff bit_drop_bit_eq bit_push_bit_iff)

lemma word_symbol_of_symbols:
  assumes "i < 8"
  shows "word_symbol (word_of_symbols f) i = f i"
proof (rule bit_word_eqI)
  fix b assume "b < LENGTH(8)"
  then have b: "b < 8" by simp
  then have "56 + b - 8 * i = 8 * (7 - i) + b" using assms by simp
  then have "(56 + b - 8 * i) div 8 = 7 - i" "(56 + b - 8 * i) mod 8 = b" "56 + b - 8 * i < 64" using b by simp_all
  then show "bit (word_symbol (word_of_symbols f) i) b \<longleftrightarrow> bit (f i) b"
    using assms b bit_symbols_loop [of 8 f "56 + b - 8 * i"] by (simp add: bit_word_symbol word_of_symbols_def)
qed

lemma word_of_word_symbols:
  assumes "\<And>i. i < 8 \<Longrightarrow> f i = word_symbol w i"
  shows "word_of_symbols f = w"
proof (rule bit_word_eqI)
  fix b assume "b < LENGTH(64)"
  then have b: "b < 64" by simp
  then have q: "b div 8 \<le> 7" "b = 8 * (b div 8) + b mod 8" by simp_all
  then have "56 + b mod 8 - 8 * (7 - b div 8) = b" by linarith
  then have "bit (word_symbol w (7 - b div 8)) (b mod 8) \<longleftrightarrow> bit w b" by (simp add: bit_word_symbol)
  then show "bit (word_of_symbols f) b \<longleftrightarrow> bit w b"
    using assms [of "7 - b div 8"] b bit_symbols_loop [of 8 f b] by (simp add: word_of_symbols_def)
qed

lemma Matrix_multiply_word_symbols:
  assumes "byte_symbols c"
  shows "Matrix_multiply_word c ws cs k = word_of_symbols (\<lambda>i. Matrix_multiply c (map (\<lambda>w. word_symbol w i) ws) cs k)"
  using byte_symbolsD [OF assms] by (simp add: Matrix_multiply_word_def word_of_symbols_def FEC_AXI_BUS_WIDTH_def word_symbol_def Let_def)

end
