(* ===== verification/Hls_Decoder_Properties.thy ===== *)
theory Hls_Decoder_Properties
  imports Hls_Recover Rse_Properties
begin

text \<open>
  The statements about the arithmetic of the FPGA decoder: it inverts the FPGA encoder, in both configurations that it supports.
\<close>

definition group_parity_word :: "rse_h \<Rightarrow> fec_sym list \<Rightarrow> u64 list \<Rightarrow> u64" where
  \<comment> \<open>a word of the parity packet: the incremental encoder runs on each byte position\<close>
  "group_parity_word c P0 ds = word_of_symbols (\<lambda>b. group_parity_symbol c P0 (map (\<lambda>w. word_symbol w b) ds))"

text \<open>C8: The FPGA decoder inverts the FPGA encoder. With five or fifty data packets and one parity packet, whichever packet is missing, the words of the packets that arrived,
  multiplied with the matrix that the decoder looks up for the missing packet it finds, are the words of the data packets. The parity
  word has in each byte the symbol that the incremental encoder accumulates over the data packets; 55 is the length of the code for which
  the matrices were generated.\<close>

theorem hls_decoder_inverts_encoder:
  assumes "byte_symbols c" and "FEC_MAX_N c = 55" and "k = 5 \<or> k = 50" and "i \<le> k" and "out < k"
    and "length ds = k" and "length P0 = FEC_MAX_H"
  shows "Matrix_multiply_word c (arrived k i ds (group_parity_word c P0 ds) @ rest)
    (Lookup_coefficients k 1 out (Find_missing_packet (map (row_of i) [0..<k] @ rest') k)) k = ds ! out"
proof -
  let ?p = "group_parity_word c P0 ds" and ?s = "\<lambda>b. map (\<lambda>w. word_symbol w b)"
  have k: "k \<le> FEC_MAX_K" using assms(3) by (auto simp: FEC_MAX_K_def)
  have s: "?s b (arrived k i ds ?p @ rest) = arrived k i (?s b ds) (group_parity_symbol c P0 (?s b ds)) @ ?s b rest" if "b < 8" for b
    using assms(6) word_symbol_of_symbols [OF that] by (auto simp: arrived_def group_parity_word_def)
  have "Matrix_multiply c (?s b (arrived k i ds ?p @ rest)) (Lookup_coefficients k 1 out i) k = word_symbol (ds ! out) b" if "b < 8" for b
    unfolding s [OF that] using assms(5,6) by (subst symbol_recovered [OF assms(1-5) _ assms(7)]) simp_all
  then show ?thesis
    unfolding Find_missing_received [OF assms(4) k] Matrix_multiply_word_symbols [OF assms(1)] by (intro word_of_word_symbols) simp
qed

theorem hls_decoder_inverts_encoder_witness:
  "Matrix_multiply_word demo_h (arrived 5 2 [11, 22, 33, 44, 2 ^ 60] (group_parity_word demo_h (replicate 5 0) [11, 22, 33, 44, 2 ^ 60]) @ replicate 45 0)
     (Lookup_coefficients 5 1 2 (Find_missing_packet (map (row_of 2) [0..<5] @ replicate 45 0) 5)) 5 = 33"
proof -
  have "FEC_MAX_N demo_h = 55" by (simp add: demo_h_def)
  from hls_decoder_inverts_encoder [OF demo_h_ok(1) this, of 5 2 2 "[11, 22, 33, 44, 2 ^ 60]" "replicate 5 0" "replicate 45 0" "replicate 45 0"]
  show ?thesis by (simp add: FEC_MAX_H_def)
qed

end
