(* ===== verification/Hls_Pipeline.thy ===== *)
theory Hls_Pipeline
  imports Hls_Decoder Rse_Core "HOL-Library.Monad_Syntax"
begin

text \<open>
  The packet decoder of the FPGA design, \<^verbatim>\<open>FPGA/DecoderVivadoHLS/Decoder.cpp\<close>. A call takes one packet with its tuples and runs a pipeline of
  stages that are connected by streams: packets are collected for each traffic class, and when a block is complete or the next one begins, its data packets are
  forwarded, or decoded when one of them is missing.

  A stream is the list of what was written and not yet read; reading from an empty stream has no result, since the hardware waits there forever. Access behind the end of
  an array has no result, either. The depths of the streams are not modelled. The stages run one after the other, as in the C++ program; the hardware overlaps them, but they
  communicate by streams only. Counters of 32 bits that grow by one for each byte or word of a packet are natural numbers.
  What local variables hold before they are written is the record \<open>decoder_locals\<close>.
\<close>

section \<open>Constants\<close>

definition FEC_TRAFFIC_CLASS_WIDTH :: nat where "FEC_TRAFFIC_CLASS_WIDTH = 3"
definition FEC_BLOCK_INDEX_WIDTH :: nat where "FEC_BLOCK_INDEX_WIDTH = 5"
definition FEC_PACKET_INDEX_WIDTH :: nat where "FEC_PACKET_INDEX_WIDTH = 8"
definition FEC_ETHER_TYPE_WIDTH :: nat where "FEC_ETHER_TYPE_WIDTH = 16"
definition FEC_PACKET_LENGTH_WIDTH :: nat where "FEC_PACKET_LENGTH_WIDTH = 16"

definition DIVIDE_AND_ROUND_UP :: "nat \<Rightarrow> nat \<Rightarrow> nat" where "DIVIDE_AND_ROUND_UP Dividend Divisor = (Dividend + Divisor - 1) div Divisor"
definition BYTES_PER_WORD :: nat where "BYTES_PER_WORD = FEC_AXI_BUS_WIDTH div 8"
definition MAC_ADDR_WIDTH :: nat where "MAC_ADDR_WIDTH = 48"

definition ETH_TYPE_END :: nat where "ETH_TYPE_END = FEC_ETHER_TYPE_WIDTH - 1"
definition ETH_SRC_END :: nat where "ETH_SRC_END = ETH_TYPE_END + MAC_ADDR_WIDTH"
definition ETH_DST_END :: nat where "ETH_DST_END = ETH_SRC_END + MAC_ADDR_WIDTH"
definition ETH_IS_VALID_START :: nat where "ETH_IS_VALID_START = ETH_DST_END + 1"
definition ETH_HEADER_SIZE :: nat where "ETH_HEADER_SIZE = ETH_IS_VALID_START + 1"

definition FEC_PACKET_LENGTH_END :: nat where "FEC_PACKET_LENGTH_END = FEC_PACKET_LENGTH_WIDTH - 1"
definition FEC_ORIGINAL_TYPE_END :: nat where "FEC_ORIGINAL_TYPE_END = FEC_PACKET_LENGTH_END + FEC_ETHER_TYPE_WIDTH"
definition FEC_PACKET_INDEX_END :: nat where "FEC_PACKET_INDEX_END = FEC_ORIGINAL_TYPE_END + FEC_PACKET_INDEX_WIDTH"
definition FEC_BLOCK_INDEX_END :: nat where "FEC_BLOCK_INDEX_END = FEC_PACKET_INDEX_END + FEC_BLOCK_INDEX_WIDTH"
definition FEC_TRAFFIC_CLASS_END :: nat where "FEC_TRAFFIC_CLASS_END = FEC_BLOCK_INDEX_END + FEC_TRAFFIC_CLASS_WIDTH"
definition FEC_HEADER_SIZE :: nat where "FEC_HEADER_SIZE = FEC_TRAFFIC_CLASS_END + 1 + 1"

definition PING_PONG_BUFFER_SIZE :: nat where
  "PING_PONG_BUFFER_SIZE = DIVIDE_AND_ROUND_UP (FEC_MAX_PACKET_SIZE + FEC_PACKET_LENGTH_WIDTH div 8) BYTES_PER_WORD"

lemmas width_defs = FEC_TRAFFIC_CLASS_WIDTH_def FEC_BLOCK_INDEX_WIDTH_def FEC_PACKET_INDEX_WIDTH_def FEC_ETHER_TYPE_WIDTH_def FEC_PACKET_LENGTH_WIDTH_def
  MAC_ADDR_WIDTH_def ETH_TYPE_END_def ETH_SRC_END_def ETH_DST_END_def ETH_IS_VALID_START_def ETH_HEADER_SIZE_def
  FEC_PACKET_LENGTH_END_def FEC_ORIGINAL_TYPE_END_def FEC_PACKET_INDEX_END_def FEC_BLOCK_INDEX_END_def FEC_TRAFFIC_CLASS_END_def FEC_HEADER_SIZE_def

lemma decoder_sizes [simp]:
  "BYTES_PER_WORD = 8" "FEC_PACKET_LENGTH_WIDTH div 8 = 2" "FEC_HEADER_SIZE div 8 = 6" "ETH_HEADER_SIZE div 8 = 14"
  "(ETH_HEADER_SIZE + FEC_HEADER_SIZE) div 8 = 20" "PING_PONG_BUFFER_SIZE = 190" "DIVIDE_AND_ROUND_UP n 8 = (n + 7) div 8"
  by (simp_all add: BYTES_PER_WORD_def FEC_AXI_BUS_WIDTH_def width_defs PING_PONG_BUFFER_SIZE_def DIVIDE_AND_ROUND_UP_def FEC_MAX_PACKET_SIZE_def)

section \<open>Tuples\<close>

record tuple_Update_fl =
  Packet_count_1 :: u8
  H_1 :: u8
  K_1 :: u8

record tuple_hdr =
  Fec :: "49 word"
  Eth :: "113 word"

record tuple_ioports =
  Egress_port :: "4 word"
  Ingress_port :: "4 word"

record tuple_Decoder_input =
  in_H :: u8
  in_K :: u8
  Stateful_valid :: bool

record input_tuples =
  Control :: "23 word"
  Update_fl :: tuple_Update_fl
  Hdr :: tuple_hdr
  Ioports :: tuple_ioports
  Local_state :: u16
  Parser_extracts :: u32 \<comment> \<open>\<open>Size\<close>\<close>
  Decoder_input :: tuple_Decoder_input

record output_tuples =
  out_Control :: "23 word"
  out_Update_fl :: tuple_Update_fl
  out_Hdr :: tuple_hdr
  out_Ioports :: tuple_ioports
  out_Local_state :: u16
  out_Parser_extracts :: u32
  out_Packet_count :: u8 \<comment> \<open>\<open>Decoder_output\<close>\<close>

definition bits_range :: "'a::len word \<Rightarrow> nat \<Rightarrow> nat \<Rightarrow> nat" where
  \<comment> \<open>\<open>w.range(hi, lo)\<close>\<close>
  "bits_range w hi lo = unat (take_bit (hi + 1 - lo) (drop_bit lo w))"

definition fec_length :: "49 word \<Rightarrow> nat" where "fec_length w = bits_range w FEC_PACKET_LENGTH_END 0"
definition fec_original_type :: "49 word \<Rightarrow> nat" where "fec_original_type w = bits_range w FEC_ORIGINAL_TYPE_END (FEC_PACKET_LENGTH_END + 1)"
definition fec_packet_index :: "49 word \<Rightarrow> nat" where "fec_packet_index w = bits_range w FEC_PACKET_INDEX_END (FEC_ORIGINAL_TYPE_END + 1)"
definition fec_block_index :: "49 word \<Rightarrow> nat" where "fec_block_index w = bits_range w FEC_BLOCK_INDEX_END (FEC_PACKET_INDEX_END + 1)"
definition fec_traffic_class :: "49 word \<Rightarrow> nat" where "fec_traffic_class w = bits_range w FEC_TRAFFIC_CLASS_END (FEC_BLOCK_INDEX_END + 1)"

section \<open>State\<close>

datatype command = COMMAND_IDLE | COMMAND_OUTPUT_DATA | COMMAND_DECODE | COMMAND_BYPASS

record packet_info =
  Data_packet :: bool
  info_Packet_index :: u8
  Bytes_per_packet :: u16
  Original_type :: u16

record parameters =
  Input_tuples :: input_tuples
  Command :: command
  par_Packet_count :: nat

record decoder_state =
  \<comment> \<open>the static variables, with one element for each traffic class\<close>
  Current_blocks :: "nat \<Rightarrow> 5 word"
  Packet_counts :: "nat \<Rightarrow> u8"
  Data_packet_counts :: "nat \<Rightarrow> u8"
  Data_streams :: "nat \<Rightarrow> u64 list"
  Info_streams :: "nat \<Rightarrow> packet_info list"

definition decoder_init :: decoder_state where
  "decoder_init = \<lparr>Current_blocks = \<lambda>_. 0, Packet_counts = \<lambda>_. 0, Data_packet_counts = \<lambda>_. 0, Data_streams = \<lambda>_. [], Info_streams = \<lambda>_. []\<rparr>"

record decoder_locals =
  \<comment> \<open>local variables before they are written\<close>
  loc_Packet_count :: nat
  loc_Missing_packet :: nat
  loc_Ping_pong_buffer :: "u64 list list"
  loc_Packet_indices :: "u8 list"
  loc_Packet_lengths :: "u16 list"

section \<open>Streams and loops\<close>

definition stream_read :: "'a list \<Rightarrow> ('a \<times> 'a list) option" where
  "stream_read xs = (case xs of [] \<Rightarrow> None | x # rest \<Rightarrow> Some (x, rest))"

definition for_opt :: "nat \<Rightarrow> nat \<Rightarrow> (nat \<Rightarrow> 's \<Rightarrow> 's option) \<Rightarrow> 's \<Rightarrow> 's option" where
  \<comment> \<open>a counted loop whose body may have no result\<close>
  "for_opt lo hi body s = fold (\<lambda>i s. Option.bind s (body i)) [lo..<hi] (Some s)"

section \<open>Collecting packets\<close>

definition Select_command :: "decoder_state \<Rightarrow> bool \<Rightarrow> bool \<Rightarrow> bool \<Rightarrow> nat \<Rightarrow> nat \<Rightarrow> bool \<Rightarrow> command" where
  "Select_command st Wait_for_data is_data New_block Traffic_class k Bypass =
     (if Bypass then COMMAND_BYPASS
      else if Wait_for_data then
        if \<not> New_block then
          if unat (Data_packet_counts st Traffic_class) = k \<and> is_data then COMMAND_OUTPUT_DATA else COMMAND_IDLE
        else
          if unat (Packet_counts st Traffic_class) < k then COMMAND_OUTPUT_DATA
          else if unat (Data_packet_counts st Traffic_class) < k then COMMAND_DECODE
          else COMMAND_IDLE
      else
        if \<not> New_block then
          if unat (Packet_counts st Traffic_class) \<noteq> k then COMMAND_IDLE
          else if unat (Data_packet_counts st Traffic_class) = k then COMMAND_OUTPUT_DATA
          else COMMAND_DECODE
        else
          if unat (Packet_counts st Traffic_class) < k then COMMAND_OUTPUT_DATA else COMMAND_IDLE)"

definition Decide_to_drop :: "decoder_state \<Rightarrow> bool \<Rightarrow> nat \<Rightarrow> bool \<Rightarrow> nat \<Rightarrow> bool" where
  "Decide_to_drop st Wait_for_data Traffic_class New_block k =
     (if New_block then False
      else if Wait_for_data then k \<le> unat (Data_packet_counts st Traffic_class)
      else k \<le> unat (Packet_counts st Traffic_class))"

fun collect_words :: "bool \<Rightarrow> bool \<Rightarrow> nat \<Rightarrow> packet_interface list \<Rightarrow> nat \<Rightarrow> (packet_interface list \<times> u64 list \<times> packet_interface list) option" where
  \<comment> \<open>the \<open>do \<dots> while (!End)\<close> loop: the rest of the input, what is written to the data stream, and what is written to the bypass stream\<close>
  "collect_words Bypass Drop Packet_length [] Offset = None"
| "collect_words Bypass Drop Packet_length (Input # ws) Offset =
     (let data = (if \<not> Bypass \<and> \<not> Drop \<and> Offset < Packet_length then [pi_Data Input] else []);
          bypass = (if Bypass then [Input] else [])
      in if pi_End_of_frame Input then Some (ws, data, bypass)
         else do {
           (rest, data', bypass') \<leftarrow> collect_words Bypass Drop Packet_length ws (Offset + BYTES_PER_WORD);
           Some (rest, data @ data', bypass @ bypass')
         })"

definition collected_counts :: "bool \<Rightarrow> bool \<Rightarrow> nat \<Rightarrow> decoder_state \<Rightarrow> decoder_state" where
  \<comment> \<open>counting a packet of the current block\<close>
  "collected_counts New_block is_data Traffic_class st =
     (if \<not> New_block then
        st\<lparr>Data_packet_counts := (if is_data then (Data_packet_counts st)(Traffic_class := Data_packet_counts st Traffic_class + 1) else Data_packet_counts st),
           Packet_counts := (Packet_counts st)(Traffic_class := Packet_counts st Traffic_class + 1)\<rparr>
      else st)"

definition started_block :: "bool \<Rightarrow> nat \<Rightarrow> nat \<Rightarrow> decoder_state \<Rightarrow> decoder_state" where
  \<comment> \<open>the first packet of a block\<close>
  "started_block is_data Traffic_class Block_index st =
     st\<lparr>Packet_counts := (Packet_counts st)(Traffic_class := 1),
        Data_packet_counts := (Data_packet_counts st)(Traffic_class := if is_data then 1 else 0),
        Current_blocks := (Current_blocks st)(Traffic_class := of_nat Block_index)\<rparr>"

definition Collect_packets :: "decoder_locals \<Rightarrow> bool \<Rightarrow> input_tuples list \<Rightarrow> packet_interface list \<Rightarrow> decoder_state \<Rightarrow>
    (decoder_state \<times> input_tuples list \<times> packet_interface list \<times> parameters \<times> packet_interface list) option" where
  \<comment> \<open>state, what remains of the two input streams, the parameters written, and the bypass stream\<close>
  "Collect_packets loc Wait_for_data Tuple_input Packet_input st = do {
     (Tuples, Tuple_rest) \<leftarrow> stream_read Tuple_input;
     let Bypass = \<not> Stateful_valid (Decoder_input Tuples);
     let K = unat (in_K (Decoder_input Tuples));
     let Packet_length = fec_length (Fec (Hdr Tuples));
     let Packet_index = fec_packet_index (Fec (Hdr Tuples));
     let Block_index = fec_block_index (Fec (Hdr Tuples));
     let Traffic_class = fec_traffic_class (Fec (Hdr Tuples));
     let New_block = (Block_index \<noteq> unat (Current_blocks st Traffic_class));
     let is_data = (Packet_index < K);
     let Drop = Decide_to_drop st Wait_for_data Traffic_class New_block K;
     (Packet_rest, data, bypass) \<leftarrow> collect_words Bypass Drop Packet_length Packet_input 0;
     let st1 = st\<lparr>Data_streams := (Data_streams st)(Traffic_class := Data_streams st Traffic_class @ data)\<rparr>;
     let Info = \<lparr>Data_packet = is_data, info_Packet_index = of_nat Packet_index, Bytes_per_packet = of_nat Packet_length,
                 Original_type = of_nat (fec_original_type (Fec (Hdr Tuples)))\<rparr>;
     let st2 = (if \<not> Bypass \<and> \<not> Drop then st1\<lparr>Info_streams := (Info_streams st1)(Traffic_class := Info_streams st1 Traffic_class @ [Info])\<rparr> else st1);
     let st3 = (if Bypass then st2 else collected_counts New_block is_data Traffic_class st2);
     let pars = \<lparr>Input_tuples = Tuples, Command = Select_command st3 Wait_for_data is_data New_block Traffic_class K Bypass,
                 par_Packet_count = (if Bypass then loc_Packet_count loc else unat (Packet_counts st3 Traffic_class))\<rparr>;
     let st4 = (if \<not> Bypass \<and> New_block then started_block is_data Traffic_class Block_index st3 else st3);
     Some (st4, Tuple_rest, Packet_rest, pars, bypass)
   }"

section \<open>Selecting the packets of a block\<close>

definition words_per_packet :: "packet_info \<Rightarrow> nat" where
  "words_per_packet Info = DIVIDE_AND_ROUND_UP (unat (Bytes_per_packet Info)) BYTES_PER_WORD"

definition select_packet :: "command \<Rightarrow> packet_info list \<times> u64 list \<times> packet_info list \<times> u64 list \<times> packet_info list \<times> u64 list \<times> nat \<Rightarrow>
    (packet_info list \<times> u64 list \<times> packet_info list \<times> u64 list \<times> packet_info list \<times> u64 list \<times> nat) option" where
  \<comment> \<open>the loop body; the streams are those of the traffic class, the raw and the encoded ones\<close>
  "select_packet cmd = (\<lambda>(infos, words, raw_info, raw, encoded_info, encoded, Packet_count). do {
     (Info, infos) \<leftarrow> stream_read infos;
     let encoded_info = (if cmd = COMMAND_DECODE then encoded_info @ [Info] else encoded_info);
     let raw_info = (if cmd \<noteq> COMMAND_DECODE \<and> Data_packet Info then raw_info @ [Info] else raw_info);
     (words, raw, encoded) \<leftarrow> for_opt 0 (words_per_packet Info) (\<lambda>Offset (words, raw, encoded). do {
       (Input, words) \<leftarrow> stream_read words;
       Some (words, if cmd \<noteq> COMMAND_DECODE \<and> Data_packet Info then raw @ [Input] else raw,
         if cmd = COMMAND_DECODE then encoded @ [Input] else encoded)
     }) (words, raw, encoded);
     Some (infos, words, raw_info, raw, encoded_info, encoded, Packet_count + (if cmd = COMMAND_DECODE \<or> Data_packet Info then 1 else 0))
   })"

definition Select_packets :: "parameters \<Rightarrow> decoder_state \<Rightarrow>
    (decoder_state \<times> packet_info list \<times> u64 list \<times> packet_info list \<times> u64 list \<times> nat) option" where
  \<comment> \<open>state, raw and encoded streams, and \<open>Packet_count\<close>\<close>
  "Select_packets pars st =
     (let Traffic_class = fec_traffic_class (Fec (Hdr (Input_tuples pars))); K = unat (in_K (Decoder_input (Input_tuples pars))) in
      if Command pars = COMMAND_DECODE \<or> Command pars = COMMAND_OUTPUT_DATA then do {
        let Count = (if Command pars = COMMAND_DECODE then K else par_Packet_count pars);
        (infos, words, raw_info, raw, encoded_info, encoded, Packet_count) \<leftarrow>
          for_opt 0 Count (\<lambda>_. select_packet (Command pars)) (Info_streams st Traffic_class, Data_streams st Traffic_class, [], [], [], [], 0);
        Some (st\<lparr>Info_streams := (Info_streams st)(Traffic_class := infos), Data_streams := (Data_streams st)(Traffic_class := words)\<rparr>,
          raw_info, raw, encoded_info, encoded, Packet_count)
      }
      else Some (st, [], [], [], [], par_Packet_count pars))"

section \<open>Packing bytes\<close>

definition pack_byte :: "bool \<Rightarrow> u8 \<Rightarrow> 128 word \<times> nat \<Rightarrow> 128 word \<times> nat" where
  "pack_byte Output Byte = (\<lambda>(Data, Count). (if Output then push_bit 8 Data OR ucast Byte else Data, Count + (if Output then 1 else 0)))"

definition pack_word :: "128 word \<times> nat \<Rightarrow> (128 word \<times> nat) \<times> u64 list" where
  \<comment> \<open>writing a word as soon as there are enough bytes\<close>
  "pack_word = (\<lambda>(Data, Count).
     if BYTES_PER_WORD \<le> Count then ((Data, Count - BYTES_PER_WORD), [ucast (drop_bit (8 * (Count - BYTES_PER_WORD)) Data)]) else ((Data, Count), []))"

definition pack_rest :: "128 word \<times> nat \<Rightarrow> u64 list" where
  \<comment> \<open>the last bytes\<close>
  "pack_rest = (\<lambda>(Data, Count). if 0 < Count then [ucast (push_bit (8 * (BYTES_PER_WORD - Count)) Data)] else [])"

section \<open>Removing headers before decoding\<close>

definition preprocess_byte :: "packet_info \<Rightarrow> u64 \<Rightarrow> nat \<Rightarrow> (128 word \<times> nat) \<times> nat \<times> u32 \<Rightarrow> (128 word \<times> nat) \<times> nat \<times> u32" where
  \<comment> \<open>one byte of a word; the state is \<open>Data\<close>, \<open>Count\<close>, \<open>Offset\<close> and \<open>Packet_type\<close>\<close>
  "preprocess_byte Info Input Byte_offset = (\<lambda>(acc, Offset, Packet_type).
     let Output = (Data_packet Info \<and> Offset < ETH_HEADER_SIZE div 8 \<or>
           (ETH_HEADER_SIZE + FEC_HEADER_SIZE) div 8 \<le> Offset \<and> Offset < unat (Bytes_per_packet Info));
         in_type = (12 \<le> Offset \<and> Offset < ETH_HEADER_SIZE div 8);
         Byte = (if in_type then ucast (drop_bit (FEC_ETHER_TYPE_WIDTH - 8) Packet_type AND 0xFF) else data_byte Input Byte_offset)
     in (pack_byte Output Byte acc, Offset + 1, if in_type then push_bit 8 Packet_type else Packet_type))"

definition preprocess_word :: "packet_info \<Rightarrow> u64 list \<times> ((128 word \<times> nat) \<times> nat \<times> u32) \<times> u64 list \<Rightarrow>
    (u64 list \<times> ((128 word \<times> nat) \<times> nat \<times> u32) \<times> u64 list) option" where
  "preprocess_word Info = (\<lambda>(words, s, out). do {
     (Input, words) \<leftarrow> stream_read words;
     let (acc, Offset, Packet_type) = for_loop 0 BYTES_PER_WORD (preprocess_byte Info Input) s;
     let (acc, ws) = pack_word acc;
     Some (words, (acc, Offset, Packet_type), out @ ws)
   })"

definition preprocessed_info :: "packet_info \<Rightarrow> packet_info" where
  "preprocessed_info Info =
     (let n = Bytes_per_packet Info - of_nat (FEC_HEADER_SIZE div 8) in
      Info\<lparr>Bytes_per_packet := if \<not> Data_packet Info then n - of_nat (ETH_HEADER_SIZE div 8) else n + of_nat (FEC_PACKET_LENGTH_WIDTH div 8)\<rparr>)"

definition preprocess_packet :: "packet_info list \<times> u64 list \<times> packet_info list \<times> u64 list \<Rightarrow> (packet_info list \<times> u64 list \<times> packet_info list \<times> u64 list) option" where
  "preprocess_packet = (\<lambda>(infos, words, out_infos, out). do {
     (Info, infos) \<leftarrow> stream_read infos;
     let Data = (ucast ((ucast (Bytes_per_packet Info) :: u32) - of_nat (FEC_HEADER_SIZE div 8)) :: 128 word);
     let Count = (if Data_packet Info then FEC_PACKET_LENGTH_WIDTH div 8 else 0);
     (words, (acc, Offset, Packet_type), out) \<leftarrow>
       for_opt 0 (words_per_packet Info) (\<lambda>_. preprocess_word Info) (words, ((Data, Count), 0, ucast (Original_type Info)), out);
     Some (infos, words, out_infos @ [preprocessed_info Info], out @ pack_rest acc)
   })"

definition Preprocess_headers :: "parameters \<Rightarrow> packet_info list \<Rightarrow> u64 list \<Rightarrow> (packet_info list \<times> u64 list) option" where
  "Preprocess_headers pars infos words =
     (let K = unat (in_K (Decoder_input (Input_tuples pars))) in
      if Command pars = COMMAND_DECODE then do {
        (_, _, out_infos, out) \<leftarrow> for_opt 0 K (\<lambda>_. preprocess_packet) (infos, words, [], []);
        Some (out_infos, out)
      }
      else Some ([], []))"

section \<open>Filling the buffer\<close>

definition reorder_packet :: "nat \<Rightarrow> packet_info list \<times> u64 list \<times> u64 list list \<times> u8 list \<times> u16 list \<times> packet_info list \<Rightarrow>
    (packet_info list \<times> u64 list \<times> u64 list list \<times> u8 list \<times> u16 list \<times> packet_info list) option" where
  "reorder_packet Packet = (\<lambda>(infos, words, buffer, indices, lengths, out_infos). do {
     (Info, infos) \<leftarrow> stream_read infos;
     if FEC_MAX_K \<le> Packet then None else do {
       (words, buffer) \<leftarrow> for_opt 0 (words_per_packet Info) (\<lambda>Offset (words, buffer). do {
         (w, words) \<leftarrow> stream_read words;
         if PING_PONG_BUFFER_SIZE \<le> Offset then None else Some (words, buffer[Packet := (buffer ! Packet)[Offset := w]])
       }) (words, buffer);
       Some (infos, words, buffer, indices[Packet := info_Packet_index Info], lengths[Packet := Bytes_per_packet Info], out_infos @ [Info])
     }
   })"

definition Reorder_packets :: "decoder_locals \<Rightarrow> parameters \<Rightarrow> packet_info list \<Rightarrow> u64 list \<Rightarrow> (u64 list list \<times> u8 list \<times> u16 list \<times> packet_info list) option" where
  "Reorder_packets loc pars infos words =
     (let K = unat (in_K (Decoder_input (Input_tuples pars))) in
      if Command pars = COMMAND_DECODE then do {
        (_, _, buffer, indices, lengths, out_infos) \<leftarrow>
          for_opt 0 K reorder_packet (infos, words, loc_Ping_pong_buffer loc, loc_Packet_indices loc, loc_Packet_lengths loc, []);
        Some (buffer, indices, lengths, out_infos)
      }
      else Some (loc_Ping_pong_buffer loc, loc_Packet_indices loc, loc_Packet_lengths loc, []))"

section \<open>Decoding\<close>

definition masked_word :: "nat \<Rightarrow> nat \<Rightarrow> u64 \<Rightarrow> u64" where
  \<comment> \<open>clearing the bytes behind the end of a packet\<close>
  "masked_word Offset Length w =
     for_loop 0 BYTES_PER_WORD (\<lambda>Byte Word.
       let Mask = NOT (push_bit (8 * (BYTES_PER_WORD - 1 - Byte)) 0xFF) in
       if BYTES_PER_WORD * Offset + Byte < Length then Word else Word AND Mask) w"

function decode_words :: "rse_h \<Rightarrow> u64 list list \<Rightarrow> u16 list \<Rightarrow> fec_sym list \<Rightarrow> nat \<Rightarrow> nat \<Rightarrow> nat \<Rightarrow> nat \<Rightarrow> packet_info \<Rightarrow> (packet_info \<times> u64 list) option" where
  \<comment> \<open>the \<open>while (!End)\<close> loop; \<open>Offset = Words_per_packet - 1\<close> in 32 bits does not hold when \<open>Words_per_packet\<close> is zero\<close>
  "decode_words c buffer lengths Coefficients K Offset Length Words_per_packet Info =
     (if PING_PONG_BUFFER_SIZE \<le> Offset then None
      else
        let Input = map (\<lambda>Packet. masked_word Offset (unat (lengths ! Packet)) (buffer ! Packet ! Offset)) [0..<FEC_MAX_K];
            Output = Matrix_multiply_word c Input Coefficients K;
            Info' = (if Offset = 0 then Info\<lparr>Bytes_per_packet := ucast (drop_bit (FEC_AXI_BUS_WIDTH - FEC_PACKET_LENGTH_WIDTH) Output)\<rparr> else Info)
        in if Offset + 1 = Words_per_packet then Some (Info', [Output])
           else do {
             (Info'', out) \<leftarrow> decode_words c buffer lengths Coefficients K (Offset + 1)
               (unat (Bytes_per_packet Info) + FEC_PACKET_LENGTH_WIDTH div 8) (DIVIDE_AND_ROUND_UP Length BYTES_PER_WORD) Info';
             Some (Info'', Output # out)
           })"
  by pat_completeness auto
termination by (relation "measure (\<lambda>(c, buffer, lengths, Coefficients, K, Offset, r). PING_PONG_BUFFER_SIZE - Offset)") simp_all

declare decode_words.simps [simp del]

definition decode_packet :: "rse_h \<Rightarrow> u64 list list \<Rightarrow> u16 list \<Rightarrow> nat \<Rightarrow> nat \<Rightarrow> nat \<Rightarrow> nat \<Rightarrow> packet_info list \<times> packet_info list \<times> u64 list \<Rightarrow>
    (packet_info list \<times> packet_info list \<times> u64 list) option" where
  "decode_packet c buffer lengths K H Missing_packet Packet = (\<lambda>(infos, out_infos, out). do {
     (Info, infos) \<leftarrow> stream_read infos;
     (Info, ws) \<leftarrow> decode_words c buffer lengths (Lookup_coefficients K H Packet Missing_packet) K 0 1024 1024 Info;
     Some (infos, out_infos @ [Info], out @ ws)
   })"

definition Decode_packets :: "rse_h \<Rightarrow> decoder_locals \<Rightarrow> parameters \<Rightarrow> u64 list list \<Rightarrow> u8 list \<Rightarrow> u16 list \<Rightarrow> packet_info list \<Rightarrow> (packet_info list \<times> u64 list) option" where
  "Decode_packets c loc pars buffer indices lengths infos =
     (let K = unat (in_K (Decoder_input (Input_tuples pars))); H = unat (in_H (Decoder_input (Input_tuples pars))) in
      if Command pars = COMMAND_DECODE then do {
        let Missing_packet = (if H = 1 then Find_missing_packet (map unat indices) K else loc_Missing_packet loc);
        (_, out_infos, out) \<leftarrow> for_opt 0 K (decode_packet c buffer lengths K H Missing_packet) (infos, [], []);
        Some (out_infos, out)
      }
      else Some ([], []))"

section \<open>Removing the length after decoding\<close>

definition postprocess_byte :: "packet_info \<Rightarrow> u64 \<Rightarrow> nat \<Rightarrow> (128 word \<times> nat) \<times> nat \<Rightarrow> (128 word \<times> nat) \<times> nat" where
  "postprocess_byte Info Input Byte_offset = (\<lambda>(acc, Offset).
     let Output = (FEC_PACKET_LENGTH_WIDTH div 8 \<le> Offset \<and> Offset < unat (Bytes_per_packet Info) + FEC_PACKET_LENGTH_WIDTH div 8)
     in (pack_byte Output (data_byte Input Byte_offset) acc, Offset + 1))"

definition postprocess_word :: "packet_info \<Rightarrow> u64 list \<times> ((128 word \<times> nat) \<times> nat) \<times> u64 list \<Rightarrow> (u64 list \<times> ((128 word \<times> nat) \<times> nat) \<times> u64 list) option" where
  "postprocess_word Info = (\<lambda>(words, s, out). do {
     (Input, words) \<leftarrow> stream_read words;
     let (acc, Offset) = for_loop 0 BYTES_PER_WORD (postprocess_byte Info Input) s;
     let (acc, ws) = pack_word acc;
     Some (words, (acc, Offset), out @ ws)
   })"

definition postprocess_packet :: "packet_info list \<times> u64 list \<times> packet_info list \<times> u64 list \<Rightarrow> (packet_info list \<times> u64 list \<times> packet_info list \<times> u64 list) option" where
  "postprocess_packet = (\<lambda>(infos, words, out_infos, out). do {
     (Info, infos) \<leftarrow> stream_read infos;
     let Words_per_packet = DIVIDE_AND_ROUND_UP (unat (Bytes_per_packet Info) + FEC_PACKET_LENGTH_WIDTH div 8) BYTES_PER_WORD;
     (words, (acc, Offset), out) \<leftarrow> for_opt 0 Words_per_packet (\<lambda>_. postprocess_word Info) (words, ((0, 0), 0), out);
     Some (infos, words, out_infos @ [Info], out @ pack_rest acc)
   })"

definition Postprocess_headers :: "parameters \<Rightarrow> packet_info list \<Rightarrow> u64 list \<Rightarrow> (packet_info list \<times> u64 list) option" where
  "Postprocess_headers pars infos words =
     (let K = unat (in_K (Decoder_input (Input_tuples pars))) in
      if Command pars = COMMAND_DECODE then do {
        (_, _, out_infos, out) \<leftarrow> for_opt 0 K (\<lambda>_. postprocess_packet) (infos, words, [], []);
        Some (out_infos, out)
      }
      else Some ([], []))"

section \<open>Output\<close>

definition Forward_packet :: "input_tuples \<Rightarrow> packet_interface list \<Rightarrow> (output_tuples list \<times> packet_interface list) option" where
  "Forward_packet Tuples Packet_input = do {
     out \<leftarrow> Ignore_packet Packet_input;
     Some ([\<lparr>out_Control = Control Tuples, out_Update_fl = Update_fl Tuples, out_Hdr = Hdr Tuples, out_Ioports = Ioports Tuples,
             out_Local_state = Local_state Tuples, out_Parser_extracts = Parser_extracts Tuples, out_Packet_count = 1\<rparr>], out)
   }"

definition output_word :: "packet_info \<Rightarrow> nat \<Rightarrow> u64 \<Rightarrow> packet_interface" where
  "output_word Info Offset Word =
     (let End = (Offset + 1 = words_per_packet Info); Count = unat (Bytes_per_packet Info) mod 8 in
      \<lparr>pi_Error = False, pi_Count = (if \<not> End \<or> Count = 0 then 8 else Count), pi_Data = Word, pi_End_of_frame = End, pi_Start_of_frame = (Offset = 0)\<rparr>)"

definition output_tuple :: "input_tuples \<Rightarrow> command \<Rightarrow> nat \<Rightarrow> packet_info \<Rightarrow> output_tuples" where
  "output_tuple Tuples cmd Packet_count Info =
     (let eth = Eth (Hdr Tuples);
          typed = (eth AND NOT (mask (ETH_TYPE_END + 1))) OR ucast (Original_type Info);
          valid = set_bit ETH_IS_VALID_START typed
      in \<lparr>out_Control = Control Tuples, out_Update_fl = Update_fl Tuples, out_Hdr = (Hdr Tuples)\<lparr>Eth := valid\<rparr>, out_Ioports = Ioports Tuples,
          out_Local_state = Local_state Tuples, out_Parser_extracts = (if cmd \<noteq> COMMAND_DECODE then Parser_extracts Tuples else 0),
          out_Packet_count = of_nat Packet_count\<rparr>)"

definition output_packet :: "input_tuples \<Rightarrow> command \<Rightarrow> nat \<Rightarrow> packet_info list \<times> u64 list \<times> output_tuples list \<times> packet_interface list \<Rightarrow>
    (packet_info list \<times> u64 list \<times> output_tuples list \<times> packet_interface list) option" where
  "output_packet Tuples cmd Packet_count = (\<lambda>(infos, words, tuples, out). do {
     (Info, infos) \<leftarrow> stream_read infos;
     (words, out) \<leftarrow> for_opt 0 (words_per_packet Info) (\<lambda>Offset (words, out). do {
       (Word, words) \<leftarrow> stream_read words;
       Some (words, out @ [output_word Info Offset Word])
     }) (words, out);
     Some (infos, words, tuples @ [output_tuple Tuples cmd Packet_count Info], out)
   })"

definition Output_packets_from :: "input_tuples \<Rightarrow> u64 list \<Rightarrow> packet_info list \<Rightarrow> nat \<Rightarrow> command \<Rightarrow> (output_tuples list \<times> packet_interface list) option" where
  \<comment> \<open>the variant that is given the streams to output\<close>
  "Output_packets_from Tuples words infos Packet_count cmd = do {
     (_, _, tuples, out) \<leftarrow> for_opt 0 Packet_count (\<lambda>_. output_packet Tuples cmd Packet_count) (infos, words, [], []);
     Some (tuples, out)
   }"

definition Output_packets :: "parameters \<Rightarrow> u64 list \<Rightarrow> u64 list \<Rightarrow> packet_info list \<Rightarrow> packet_info list \<Rightarrow> packet_interface list \<Rightarrow> nat \<Rightarrow>
    (output_tuples list \<times> packet_interface list) option" where
  "Output_packets pars decoded raw decoded_info raw_info bypass Packet_count =
     (let K = unat (in_K (Decoder_input (Input_tuples pars))) in
      if Command pars = COMMAND_BYPASS then Forward_packet (Input_tuples pars) bypass
      else if Command pars = COMMAND_DECODE then Output_packets_from (Input_tuples pars) decoded decoded_info K (Command pars)
      else if Command pars = COMMAND_OUTPUT_DATA then Output_packets_from (Input_tuples pars) raw raw_info Packet_count (Command pars)
      else Some ([], []))"

section \<open>The decoder\<close>

definition Decoder :: "rse_h \<Rightarrow> decoder_locals \<Rightarrow> input_tuples list \<Rightarrow> packet_interface list \<Rightarrow> decoder_state \<Rightarrow>
    (decoder_state \<times> input_tuples list \<times> packet_interface list \<times> output_tuples list \<times> packet_interface list) option" where
  "Decoder c loc Tuple_input Packet_input st = do {
     let Wait_for_data = True;
     (st, Tuple_rest, Packet_rest, pars, bypass) \<leftarrow> Collect_packets loc Wait_for_data Tuple_input Packet_input st;
     (st, raw_info, raw, encoded_info, encoded, Packet_count) \<leftarrow> Select_packets pars st;
     (pre_info, preprocessed) \<leftarrow> Preprocess_headers pars encoded_info encoded;
     (buffer, indices, lengths, reordered_info) \<leftarrow> Reorder_packets loc pars pre_info preprocessed;
     (decoded_info, decoded) \<leftarrow> Decode_packets c loc pars buffer indices lengths reordered_info;
     (postprocessed_info, postprocessed) \<leftarrow> Postprocess_headers pars decoded_info decoded;
     (tuples, out) \<leftarrow> Output_packets pars postprocessed raw postprocessed_info raw_info bypass Packet_count;
     Some (st, Tuple_rest, Packet_rest, tuples, out)
   }"

fun decoder_run :: "rse_h \<Rightarrow> decoder_locals \<Rightarrow> (input_tuples \<times> packet_interface list) list \<Rightarrow> decoder_state \<Rightarrow> (decoder_state \<times> (output_tuples list \<times> packet_interface list) list) option" where
  \<comment> \<open>calls with one packet each; the outputs of every call\<close>
  "decoder_run c loc [] st = Some (st, [])"
| "decoder_run c loc ((tuples, packet) # xs) st = do {
     (st, _, _, tuples, out) \<leftarrow> Decoder c loc [tuples] packet st;
     (st, outs) \<leftarrow> decoder_run c loc xs st;
     Some (st, (tuples, out) # outs)
   }"

end
