(* ===== verification/Hls_Streams.thy ===== *)
theory Hls_Streams
  imports Hls_Pipeline Hls_Recover
begin

text \<open>
  Streams of words and the bytes in them. The stages of the decoder that drop some bytes of a packet and pack the others into words share a locale, of which both are
  interpretations.
\<close>

section \<open>Loops over streams\<close>

lemma for_opt_empty [simp]: "for_opt n n body s = Some s"
  by (simp add: for_opt_def)

lemma for_opt_Suc: "lo \<le> n \<Longrightarrow> for_opt lo (Suc n) body s = Option.bind (for_opt lo n body s) (body n)"
  by (simp add: for_opt_def)

lemma for_opt_inv [consumes 1, case_names init step]:
  assumes "lo \<le> hi" and "P lo s"
    and "\<And>i s. lo \<le> i \<Longrightarrow> i < hi \<Longrightarrow> P i s \<Longrightarrow> \<exists>s'. body i s = Some s' \<and> P (Suc i) s'"
  shows "\<exists>s'. for_opt lo hi body s = Some s' \<and> P hi s'"
  using assms
proof (induction hi)
  case (Suc n)
  show ?case
  proof (cases "lo = Suc n")
    case False
    with Suc.prems have "lo \<le> n" by simp
    with Suc obtain t where "for_opt lo n body s = Some t" "P n t" by auto
    with Suc.prems(3) [of n t] \<open>lo \<le> n\<close> show ?thesis by (simp add: for_opt_Suc)
  qed (use Suc.prems in simp)
qed simp

lemma for_opt_states:
  assumes "lo \<le> hi" and "\<And>i. lo \<le> i \<Longrightarrow> i < hi \<Longrightarrow> body i (S i) = Some (S (Suc i))"
  shows "for_opt lo hi body (S lo) = Some (S hi)"
  using for_opt_inv [of lo hi "\<lambda>i s. s = S i" "S lo" body] assms by auto

lemma stream_read_simps [simp]: "stream_read [] = None" "stream_read (x # xs) = Some (x, xs)"
  by (simp_all add: stream_read_def)

lemma drop_append_Cons: "i < length ws \<Longrightarrow> drop i ws @ rest = ws ! i # drop (Suc i) ws @ rest"
  by (simp add: Cons_nth_drop_Suc [symmetric])

section \<open>Bytes of words\<close>

lemma data_byte_symbol: "i < 8 \<Longrightarrow> data_byte w i = word_symbol w i"
proof (rule bit_word_eqI)
  fix b assume i: "i < 8" and "b < LENGTH(8)"
  then have b: "b < 8" by simp
  have m: "bit (0xFF :: u64) b" using b bit_mask_iff [of 8 b, where ?'a = u64] by (simp add: mask_eq_exp_minus_1)
  have "56 + b - 8 * i = 8 * (7 - i) + b" using i by simp
  then show "bit (data_byte w i) b = bit (word_symbol w i) b"
    using i b m by (simp add: data_byte_def bit_word_symbol bit_unsigned_iff bit_and_iff bit_drop_bit_eq)
qed

lemma bit_word_of_symbols: "bit (word_of_symbols f) b \<longleftrightarrow> b < 64 \<and> bit (f (7 - b div 8)) (b mod 8)"
  using bit_symbols_loop [of 8 f b] by (simp add: word_of_symbols_def)

lemma word_of_symbols_cong: "(\<And>b. b < 8 \<Longrightarrow> f b = g b) \<Longrightarrow> word_of_symbols f = word_of_symbols g"
  unfolding word_of_symbols_def by (rule for_loop_cong) simp

definition bytes_words :: "u8 list \<Rightarrow> u64 list" where
  \<comment> \<open>bytes as words, the last one filled with zeros\<close>
  "bytes_words bs = map (\<lambda>w. word_of_symbols (\<lambda>b. padded bs (8 * w + b))) [0..<(length bs + 7) div 8]"

lemma length_bytes_words [simp]: "length (bytes_words bs) = (length bs + 7) div 8"
  by (simp add: bytes_words_def)

lemma nth_bytes_words [simp]: "w < (length bs + 7) div 8 \<Longrightarrow> bytes_words bs ! w = word_of_symbols (\<lambda>b. padded bs (8 * w + b))"
  by (simp add: bytes_words_def)

definition stream_byte :: "u64 list \<Rightarrow> nat \<Rightarrow> u8" where
  "stream_byte ws n = data_byte (ws ! (n div 8)) (n mod 8)"

lemma stream_byte_bytes_words: "n < 8 * ((length bs + 7) div 8) \<Longrightarrow> stream_byte (bytes_words bs) n = padded bs n"
  by (simp add: stream_byte_def data_byte_symbol word_symbol_of_symbols less_mult_imp_div_less mult.commute)

section \<open>Packing\<close>

definition packs :: "u8 list \<Rightarrow> 128 word \<times> nat \<Rightarrow> u64 list \<Rightarrow> bool" where
  \<comment> \<open>the words written and the bytes in \<open>Data\<close> together are \<open>bs\<close>\<close>
  "packs bs acc out \<longleftrightarrow> snd acc + 8 * length out = length bs \<and>
     (\<forall>b<8 * snd acc. bit (fst acc) b \<longleftrightarrow> bit (bs ! (length bs - 1 - b div 8)) (b mod 8)) \<and>
     (\<forall>w<length out. out ! w = word_of_symbols (\<lambda>b. bs ! (8 * w + b)))"

lemma packs_Nil: "packs [] (0, 0) []"
  by (simp add: packs_def)

lemma packs_byte:
  assumes p: "packs bs acc out" and c: "snd acc < 16"
  shows "packs (bs @ [x]) (pack_byte True x acc) out"
proof -
  obtain D C where acc: "acc = (D, C)" by (cases acc)
  have bits: "bit (push_bit 8 D OR ucast x) b \<longleftrightarrow> bit ((bs @ [x]) ! (length bs - b div 8)) (b mod 8)" if "b < 8 * Suc C" for b
  proof (cases "b < 8")
    case True
    then show ?thesis by (simp add: bit_or_iff bit_push_bit_iff bit_unsigned_iff nth_append)
  next
    case False
    then have q: "b div 8 = Suc ((b - 8) div 8)" "(b - 8) mod 8 = b mod 8" by (simp_all add: le_div_geq le_mod_geq)
    have "(b - 8) div 8 < C" using that False by simp
    then have "length bs - b div 8 < length bs" using p by (auto simp: packs_def acc q intro!: diff_less)
    moreover have "\<not> bit x b" using False by (auto dest: bit_imp_le_length)
    moreover have "b < 128" using that c by (simp add: acc)
    ultimately show ?thesis using p that False
      by (simp add: packs_def acc bit_or_iff bit_push_bit_iff bit_unsigned_iff nth_append q)
  qed
  have w: "8 * w + b < length bs" if "w < length out" "b < 8" for w b
    using p that by (simp add: packs_def acc)
  then have "out ! w = word_of_symbols (\<lambda>b. (bs @ [x]) ! (8 * w + b))" if "w < length out" for w
    using p that by (simp add: packs_def nth_append cong: word_of_symbols_cong)
  then show ?thesis using p bits by (simp add: packs_def acc pack_byte_def)
qed

lemma packs_word:
  assumes p: "packs bs acc out" and c: "snd acc < 16"
  shows "packs bs (fst (pack_word acc)) (out @ snd (pack_word acc)) \<and> snd (fst (pack_word acc)) < 8"
proof -
  obtain D C where acc: "acc = (D, C)" by (cases acc)
  show ?thesis
  proof (cases "8 \<le> C")
    case True
    let ?w = "ucast (drop_bit (8 * (C - 8)) D) :: u64"
    have len: "length bs = C + 8 * length out" using p by (simp add: packs_def acc)
    have "bit ?w b \<longleftrightarrow> bit (word_of_symbols (\<lambda>b. bs ! (8 * length out + b))) b" if "b < 64" for b
    proof -
      have q: "(8 * (C - 8) + b) div 8 = C - 8 + b div 8" "(8 * (C - 8) + b) mod 8 = b mod 8" "b div 8 \<le> 7" using that by simp_all
      have "8 * (C - 8) + b < 8 * C" using True that by simp
      moreover have "length bs - 1 - (C - 8 + b div 8) = 8 * length out + (7 - b div 8)" using len True q(3) by simp
      ultimately show ?thesis using p that
        by (simp add: packs_def acc bit_unsigned_iff bit_drop_bit_eq bit_word_of_symbols q)
    qed
    then have "?w = word_of_symbols (\<lambda>b. bs ! (8 * length out + b))" by (intro bit_word_eqI) simp
    then show ?thesis using p True c by (simp add: packs_def acc pack_word_def nth_append less_Suc_eq)
  qed (use p in \<open>simp add: packs_def acc pack_word_def\<close>)
qed

lemma rest_index:
  fixes C d :: nat
  assumes "C < 8" and "0 < C" and "8 - C \<le> d" and "d \<le> 7"
  shows "C + 8 * n - 1 - (d - (8 - C)) = 8 * n + (7 - d)"
  using assms by linarith

lemma packs_rest:
  assumes p: "packs bs acc out" and c: "snd acc < 8"
  shows "out @ pack_rest acc = bytes_words bs"
proof -
  obtain D C where acc: "acc = (D, C)" by (cases acc)
  have len: "length bs = C + 8 * length out" "C < 8" using p c by (simp_all add: packs_def acc)
  have full: "out ! w = word_of_symbols (\<lambda>b. padded bs (8 * w + b))" if "w < length out" for w
    using p that len by (simp add: packs_def padded_def cong: word_of_symbols_cong)
  show ?thesis
  proof (cases "C = 0")
    case True
    then show ?thesis using full len by (intro nth_equalityI) (simp_all add: acc pack_rest_def)
  next
    case False
    let ?w = "ucast (push_bit (8 * (8 - C)) D) :: u64"
    have "bit ?w b \<longleftrightarrow> bit (word_of_symbols (\<lambda>b. padded bs (8 * length out + b))) b" if "b < 64" for b
    proof (cases "8 * (8 - C) \<le> b")
      case True
      then obtain m where m: "b = 8 * (8 - C) + m" using le_Suc_ex by blast
      then have q: "(b - 8 * (8 - C)) div 8 = b div 8 - (8 - C)" "(b - 8 * (8 - C)) mod 8 = b mod 8" "8 - C \<le> b div 8" "b div 8 \<le> 7"
        using that by simp_all
      have "b - 8 * (8 - C) < 8 * C" using True that len(2) by simp
      moreover have "length bs - 1 - (b div 8 - (8 - C)) = 8 * length out + (7 - b div 8)" using rest_index [OF len(2) _ q(3,4)] len(1) False by simp
      moreover have "8 * length out + (7 - b div 8) < length bs" using len q(3) False by simp
      ultimately show ?thesis using p that True
        by (simp add: packs_def acc bit_unsigned_iff bit_push_bit_iff bit_word_of_symbols q padded_def)
    next
      case 2: False
      then have "b div 8 < 8 - C" by (simp add: less_mult_imp_div_less mult.commute)
      then have "length bs \<le> 8 * length out + (7 - b div 8)" using len by simp
      then show ?thesis using 2 by (simp add: bit_unsigned_iff bit_push_bit_iff bit_word_of_symbols padded_def)
    qed
    then have "?w = word_of_symbols (\<lambda>b. padded bs (8 * length out + b))" by (intro bit_word_eqI) simp
    moreover have "(length bs + 7) div 8 = Suc (length out)" using len False by simp
    ultimately show ?thesis using False full by (intro nth_equalityI) (auto simp: acc pack_rest_def nth_append less_Suc_eq)
  qed
qed

definition packer_word :: "(u64 \<Rightarrow> nat \<Rightarrow> (128 word \<times> nat) \<times> 's \<Rightarrow> (128 word \<times> nat) \<times> 's) \<Rightarrow>
    u64 list \<times> ((128 word \<times> nat) \<times> 's) \<times> u64 list \<Rightarrow> (u64 list \<times> ((128 word \<times> nat) \<times> 's) \<times> u64 list) option" where
  \<comment> \<open>the loop over the bytes of a word, for any treatment of a byte\<close>
  "packer_word step = (\<lambda>(words, s, out). do {
     (Input, words) \<leftarrow> stream_read words;
     let (acc, r) = for_loop 0 BYTES_PER_WORD (step Input) s;
     let (acc, ws) = pack_word acc;
     Some (words, (acc, r), out @ ws)
   })"

definition kept :: "(nat \<Rightarrow> u8 \<Rightarrow> u8 list) \<Rightarrow> u64 list \<Rightarrow> nat \<Rightarrow> u8 list" where
  \<comment> \<open>what is left of the first \<open>n\<close> bytes of a stream\<close>
  "kept keep ws n = concat (map (\<lambda>i. keep i (stream_byte ws i)) [0..<n])"

lemma kept_word: "kept keep ws (8 * Suc w) = kept keep ws (8 * w) @ concat (map (\<lambda>j. keep (8 * w + j) (data_byte (ws ! w) j)) [0..<8])"
proof -
  have "[0..<8 * Suc w] = [0..<8 * w] @ map (\<lambda>j. 8 * w + j) [0..<8]"
    using upt_add_eq_append [of 0 "8 * w" 8] by (simp add: map_add_upt [symmetric] add.commute del: upt_Suc)
  moreover have "stream_byte ws (8 * w + j) = data_byte (ws ! w) j" if "j < 8" for j using that by (simp add: stream_byte_def)
  ultimately show ?thesis by (auto simp: kept_def comp_def simp del: mult_Suc_right intro!: arg_cong [where f = concat])
qed

lemma packs_at_most_one:
  assumes "packs bs acc out" and "snd acc < 16" and "length xs \<le> 1"
  shows "packs (bs @ xs) (fold (pack_byte True) xs acc) out \<and> snd (fold (pack_byte True) xs acc) \<le> snd acc + 1"
proof (cases xs)
  case (Cons x ys)
  then have "xs = [x]" using assms(3) by simp
  then show ?thesis using packs_byte [OF assms(1,2), of x] by (simp add: pack_byte_def split_beta)
qed (use assms in simp)

locale byte_packer =
  fixes step :: "u64 \<Rightarrow> nat \<Rightarrow> (128 word \<times> nat) \<times> 's \<Rightarrow> (128 word \<times> nat) \<times> 's"
    and at_offset :: "nat \<Rightarrow> 's"
    and keep :: "nat \<Rightarrow> u8 \<Rightarrow> u8 list"
  assumes step_keep: "step w j (acc, at_offset n) = (fold (pack_byte True) (keep n (data_byte w j)) acc, at_offset (Suc n))"
    and keep_one: "length (keep n x) \<le> 1"
begin

lemma word_loop:
  assumes "packs bs acc out" and "snd acc < 8"
  shows "\<exists>acc'. for_loop 0 8 (step w) (acc, at_offset n) = (acc', at_offset (n + 8)) \<and>
    packs (bs @ concat (map (\<lambda>j. keep (n + j) (data_byte w j)) [0..<8])) acc' out \<and> snd acc' < 16"
proof -
  let ?kept = "\<lambda>m. concat (map (\<lambda>j. keep (n + j) (data_byte w j)) [0..<m])"
  let ?P = "\<lambda>m s. snd s = at_offset (n + m) \<and> packs (bs @ ?kept m) (fst s) out \<and> snd (fst s) < 8 + m"
  have "?P 8 (for_loop 0 8 (step w) (acc, at_offset n))"
  proof (rule for_loop_induct [where P = ?P])
    fix m s assume m: "m < 8" and "?P m s"
    then obtain acc1 where s: "s = (acc1, at_offset (n + m))" and p: "packs (bs @ ?kept m) acc1 out" "snd acc1 < 8 + m" by (cases s) auto
    have "snd acc1 < 16" using p(2) m by simp
    from packs_at_most_one [OF p(1) this keep_one, of "n + m" "data_byte w m"] p(2)
    show "?P (Suc m) (step w m s)" by (simp add: s step_keep)
  qed (use assms in simp_all)
  then show ?thesis by (intro exI [of _ "fst (for_loop 0 8 (step w) (acc, at_offset n))"]) (auto simp: prod_eq_iff)
qed

lemma words_loop:
  assumes "length ws = m" and "packs bs acc []" and "snd acc < 8"
  shows "\<exists>acc' out. for_opt 0 m (\<lambda>_. packer_word step) (ws @ rest, (acc, at_offset 0), out0) = Some (rest, (acc', at_offset (8 * m)), out0 @ out) \<and>
    out @ pack_rest acc' = bytes_words (bs @ kept keep ws (8 * m))"
proof -
  let ?P = "\<lambda>i s. \<exists>acc' out. s = (drop i ws @ rest, (acc', at_offset (8 * i)), out0 @ out) \<and>
    packs (bs @ kept keep ws (8 * i)) acc' out \<and> snd acc' < 8"
  have "\<exists>s. for_opt 0 m (\<lambda>_. packer_word step) (ws @ rest, (acc, at_offset 0), out0) = Some s \<and> ?P m s"
  proof (rule for_opt_inv)
    show "?P 0 (ws @ rest, (acc, at_offset 0), out0)" using assms by (auto simp: kept_def)
    fix i s assume i: "i < m" and "?P i s"
    then obtain acc1 out where s: "s = (drop i ws @ rest, (acc1, at_offset (8 * i)), out0 @ out)"
      and p: "packs (bs @ kept keep ws (8 * i)) acc1 out" "snd acc1 < 8" by blast
    obtain acc2 where l: "for_loop 0 8 (step (ws ! i)) (acc1, at_offset (8 * i)) = (acc2, at_offset (8 * i + 8))"
      "packs (bs @ kept keep ws (8 * Suc i)) acc2 out" "snd acc2 < 16"
      using word_loop [OF p, of "ws ! i" "8 * i"] unfolding kept_word append_assoc by blast
    obtain acc3 ws3 where w: "pack_word acc2 = (acc3, ws3)" by (cases "pack_word acc2")
    from packs_word [OF l(2,3)] have "packs (bs @ kept keep ws (8 * Suc i)) acc3 (out @ ws3)" "snd acc3 < 8" by (simp_all add: w)
    moreover have "packer_word step s = Some (drop (Suc i) ws @ rest, (acc3, at_offset (8 * Suc i)), out0 @ out @ ws3)"
      using i assms(1) l(1) by (simp add: packer_word_def s drop_append_Cons w add.commute)
    ultimately show "\<exists>s'. packer_word step s = Some s' \<and> ?P (Suc i) s'" by blast
  qed simp
  then obtain acc' out where "for_opt 0 m (\<lambda>_. packer_word step) (ws @ rest, (acc, at_offset 0), out0) = Some (rest, (acc', at_offset (8 * m)), out0 @ out)"
    "packs (bs @ kept keep ws (8 * m)) acc' out" "snd acc' < 8" using assms(1) by auto
  with packs_rest show ?thesis by blast
qed

end

end
