(* ===== verification/Hls_Stages.thy ===== *)
theory Hls_Stages
  imports Hls_Streams
begin

text \<open>
  What the stages of the FPGA decoder compute. A data packet that arrives with its tag becomes its length followed by the original packet; a parity packet loses its headers; the buffer then holds
  one row for each packet, and the rows are decoded word by word.
\<close>

section \<open>Bytes that are kept\<close>

definition type_byte :: "u16 \<Rightarrow> nat \<Rightarrow> u8" where
  "type_byte ty n = (if n = 12 then ucast (drop_bit 8 ty) else ucast ty)"

definition pre_keep :: "packet_info \<Rightarrow> nat \<Rightarrow> u8 \<Rightarrow> u8 list" where
  "pre_keep Info n x =
     (if Data_packet Info \<and> n < 14 \<or> 20 \<le> n \<and> n < unat (Bytes_per_packet Info)
      then [if 12 \<le> n \<and> n < 14 then type_byte (Original_type Info) n else x] else [])"

definition type_at :: "u16 \<Rightarrow> nat \<Rightarrow> u32" where
  "type_at ty n = push_bit (if n \<le> 12 then 0 else if n = 13 then 8 else 16) (ucast ty)"

lemma type_at_byte: "12 \<le> n \<Longrightarrow> n < 14 \<Longrightarrow> ucast (drop_bit 8 (type_at ty n) AND 0xFF) = type_byte ty n"
proof -
  assume "12 \<le> n" "n < 14"
  then have n: "n = 12 \<or> n = 13" by auto
  have FF: "(0xFF :: u32) = mask 8" by (simp add: mask_eq_exp_minus_1)
  show ?thesis using n unfolding FF
    by (auto intro!: bit_word_eqI simp: type_at_def type_byte_def bit_unsigned_iff bit_and_iff bit_drop_bit_eq bit_push_bit_iff bit_mask_iff)
qed

lemma preprocess_byte_keep:
  "preprocess_byte Info w j (acc, n, type_at (Original_type Info) n) =
     (fold (pack_byte True) (pre_keep Info n (data_byte w j)) acc, Suc n, type_at (Original_type Info) (Suc n))"
proof -
  have id: "pack_byte False x acc = acc" for x by (simp add: pack_byte_def split_beta)
  have ty: "type_at ty (Suc n) = (if 12 \<le> n \<and> n < 14 then push_bit 8 (type_at ty n) else type_at ty n)" for ty
    by (auto simp: type_at_def)
  show ?thesis unfolding preprocess_byte_def Let_def prod.case
    using type_at_byte [of n "Original_type Info"] by (auto simp: pre_keep_def id ty FEC_ETHER_TYPE_WIDTH_def)
qed

interpretation pre: byte_packer "preprocess_byte Info" "\<lambda>n. (n, type_at (Original_type Info) n)" "pre_keep Info" for Info
  by unfold_locales (simp_all add: preprocess_byte_keep pre_keep_def)

definition post_keep :: "packet_info \<Rightarrow> nat \<Rightarrow> u8 \<Rightarrow> u8 list" where
  "post_keep Info n x = (if 2 \<le> n \<and> n < unat (Bytes_per_packet Info) + 2 then [x] else [])"

interpretation post: byte_packer "postprocess_byte Info" "\<lambda>n. n" "post_keep Info" for Info
  by unfold_locales (auto simp: postprocess_byte_def post_keep_def Let_def pack_byte_def split_beta)

lemma preprocess_word_packer: "preprocess_word Info = packer_word (preprocess_byte Info)"
  by (rule ext) (simp add: preprocess_word_def packer_word_def split_beta Let_def)

lemma postprocess_word_packer: "postprocess_word Info = packer_word (postprocess_byte Info)"
  by (rule ext) (simp add: postprocess_word_def packer_word_def split_beta Let_def)

definition holds_bytes :: "u64 list \<Rightarrow> u8 list \<Rightarrow> bool" where
  \<comment> \<open>the words of a packet; what follows its last byte is arbitrary\<close>
  "holds_bytes ws t \<longleftrightarrow> length ws = (length t + 7) div 8 \<and> (\<forall>n<length t. stream_byte ws n = t ! n)"

lemma holds_bytes_words: "holds_bytes (bytes_words bs) bs"
  by (simp add: holds_bytes_def stream_byte_bytes_words padded_def)

lemma kept_some: "(\<And>n. n \<in> set ns \<Longrightarrow> keep n (f n) = [g n]) \<Longrightarrow> concat (map (\<lambda>n. keep n (f n)) ns) = map g ns"
  by (induction ns) simp_all

lemma kept_none: "(\<And>n. n \<in> set ns \<Longrightarrow> keep n (f n) = []) \<Longrightarrow> concat (map (\<lambda>n. keep n (f n)) ns) = []"
  by simp

lemma upt_split: "i \<le> j \<Longrightarrow> j \<le> k \<Longrightarrow> [i..<k] = [i..<j] @ [j..<k]"
  by (metis le_Suc_ex upt_add_eq_append)

lemma map_nth_range: "hi \<le> length t \<Longrightarrow> map ((!) t) [lo..<hi] = drop lo (take hi t)"
  by (intro nth_equalityI) simp_all

lemma kept_range:
  assumes "\<And>n x. n < lo \<or> hi \<le> n \<Longrightarrow> keep n x = []" and "\<And>n x. lo \<le> n \<Longrightarrow> n < hi \<Longrightarrow> keep n x = [x]" and "lo \<le> hi" and "hi \<le> m"
    and "\<And>n. n < hi \<Longrightarrow> stream_byte ws n = t ! n" and "hi \<le> length t"
  shows "kept keep ws m = drop lo (take hi t)"
proof -
  have u: "[0..<m] = [0..<lo] @ [lo..<hi] @ [hi..<m]" using assms(3,4) upt_split [of 0 lo m] upt_split [of lo hi m] by simp
  let ?k = "\<lambda>ns. concat (map (\<lambda>n. keep n (stream_byte ws n)) ns)"
  have "?k [0..<lo] = []" "?k [hi..<m] = []" using assms(1) by (auto intro!: kept_none)
  moreover have "?k [lo..<hi] = map ((!) t) [lo..<hi]" using assms(2,5) by (intro kept_some) simp
  ultimately show ?thesis unfolding kept_def u map_append concat_append
    by (simp only: append_Nil append_Nil2 map_nth_range [OF assms(6)])
qed

lemma kept_parity:
  assumes "\<not> Data_packet Info" and "unat (Bytes_per_packet Info) = length t" and "holds_bytes ws t" and "20 \<le> length t"
  shows "kept (pre_keep Info) ws (8 * ((length t + 7) div 8)) = drop 20 t"
proof -
  have "length t \<le> 8 * ((length t + 7) div 8)" by simp
  then show ?thesis using assms by (subst kept_range [where lo = 20 and hi = "length t"]) (auto simp: pre_keep_def holds_bytes_def)
qed

lemma kept_data:
  assumes d: "Data_packet Info" and B: "unat (Bytes_per_packet Info) = length t" and ws: "holds_bytes ws t" and t: "20 \<le> length t"
  shows "kept (pre_keep Info) ws (8 * ((length t + 7) div 8)) =
    take 12 t @ [type_byte (Original_type Info) 12, type_byte (Original_type Info) 13] @ drop 20 t"
proof -
  let ?k = "\<lambda>ns. concat (map (\<lambda>n. pre_keep Info n (stream_byte ws n)) ns)" and ?m = "8 * ((length t + 7) div 8)"
  have m: "length t \<le> ?m" by simp
  have u: "[0..<?m] = [0..<12] @ [12, 13] @ [14..<20] @ [20..<length t] @ [length t..<?m]"
    using t m upt_split [of 0 12 ?m] upt_split [of 12 20 ?m] upt_split [of 20 "length t" ?m] by (simp add: upt_rec)
  have s: "stream_byte ws n = t ! n" if "n < length t" for n using ws that by (simp add: holds_bytes_def)
  have "?k [0..<12] = map ((!) t) [0..<12]" using d t s by (intro kept_some) (simp add: pre_keep_def)
  moreover have "?k [20..<length t] = map ((!) t) [20..<length t]" using B s by (intro kept_some) (simp add: pre_keep_def)
  moreover have "map ((!) t) [0..<12] = take 12 t" "map ((!) t) [20..<length t] = drop 20 t" using t by (simp_all only: map_nth_range) simp_all
  moreover have "?k [14..<20] = []" "?k [length t..<?m] = []" using B t by (auto intro!: kept_none simp: pre_keep_def)
  moreover have "?k [12, 13] = [type_byte (Original_type Info) 12, type_byte (Original_type Info) 13]" using d by (simp add: pre_keep_def)
  ultimately show ?thesis unfolding kept_def u map_append concat_append by (simp only: append_assoc append_Nil append_Nil2)
qed

lemma kept_post:
  assumes "holds_bytes ws t" and "length t = unat (Bytes_per_packet Info) + 2"
  shows "kept (post_keep Info) ws (8 * ((length t + 7) div 8)) = drop 2 t"
proof -
  have "length t \<le> 8 * ((length t + 7) div 8)" by simp
  then show ?thesis using assms by (subst kept_range [where lo = 2 and hi = "length t"]) (auto simp: post_keep_def holds_bytes_def)
qed

section \<open>Removing headers\<close>

definition len_bytes :: "nat \<Rightarrow> u8 list" where
  "len_bytes n = [ucast (drop_bit 8 (of_nat n :: u16)), ucast (of_nat n :: u16)]"

lemma length_len_bytes [simp]: "length (len_bytes n) = 2"
  by (simp add: len_bytes_def)

lemma packs_len_bytes:
  assumes "n < 65536"
  shows "packs (len_bytes n) (ucast (of_nat n :: u32), 2) []"
proof -
  have "bit (ucast (of_nat n :: u32) :: 128 word) b \<longleftrightarrow> bit (len_bytes n ! (Suc 0 - b div 8)) (b mod 8)" if "b < 16" for b
  proof (cases "b < 8")
    case True
    then show ?thesis by (simp add: len_bytes_def bit_unsigned_iff bit_of_nat_iff possible_bit_word)
  next
    case False
    then have "b div 8 = 1" using that by simp
    then have "b div 8 = 1" "8 + b mod 8 = b" using div_mult_mod_eq [of b 8] by simp_all
    then show ?thesis using that by (simp add: len_bytes_def bit_unsigned_iff bit_of_nat_iff possible_bit_word bit_drop_bit_eq)
  qed
  then show ?thesis by (simp add: packs_def)
qed

definition packet_row :: "packet_info \<Rightarrow> u8 list \<Rightarrow> u8 list" where
  \<comment> \<open>what preprocessing leaves of a packet\<close>
  "packet_row Info t =
     (if Data_packet Info
      then len_bytes (length t - 6) @ take 12 t @ [type_byte (Original_type Info) 12, type_byte (Original_type Info) 13] @ drop 20 t
      else drop 20 t)"

definition info_fits :: "packet_info \<Rightarrow> u8 list \<Rightarrow> bool" where
  "info_fits Info t \<longleftrightarrow> Bytes_per_packet Info = of_nat (length t) \<and> 20 \<le> length t \<and> length t < 65536"

lemma info_fits_bytes: "info_fits Info t \<Longrightarrow> unat (Bytes_per_packet Info) = length t"
  by (simp add: info_fits_def unat_of_nat)

lemma info_fits_words: "info_fits Info t \<Longrightarrow> words_per_packet Info = (length t + 7) div 8"
  by (simp add: words_per_packet_def info_fits_bytes)

lemma preprocessed_bytes:
  assumes "info_fits Info t"
  shows "Bytes_per_packet (preprocessed_info Info) = of_nat (length (packet_row Info t))"
  using assms by (auto simp: info_fits_def preprocessed_info_def packet_row_def Let_def of_nat_diff)

lemma preprocess_packet_row:
  assumes f: "info_fits Info t" and ws: "holds_bytes ws t"
  shows "preprocess_packet (Info # infos, ws @ words, out_infos, out) =
    Some (infos, words, out_infos @ [preprocessed_info Info], out @ bytes_words (packet_row Info t))"
proof -
  let ?n = "(length t + 7) div 8" and ?C = "if Data_packet Info then 2 else 0 :: nat"
  let ?D = "ucast ((ucast (Bytes_per_packet Info) :: u32) - 6) :: 128 word" and ?l = "if Data_packet Info then len_bytes (length t - 6) else []"
  have t: "20 \<le> length t" "length t < 65536" using f by (simp_all add: info_fits_def)
  have "(ucast (Bytes_per_packet Info) :: u32) = of_nat (length t)" using f by (simp add: info_fits_def unsigned_of_nat take_bit_nat_eq_self)
  then have "(ucast (Bytes_per_packet Info) :: u32) - 6 = of_nat (length t - 6)" using t(1) by (simp add: of_nat_diff)
  then have "packs ?l (?D, ?C) []" using packs_len_bytes [of "length t - 6"] t by (auto simp: packs_def)
  moreover have "length ws = ?n" using ws by (simp add: holds_bytes_def)
  moreover have "?C < 8" by simp
  ultimately obtain acc' o' where l: "for_opt 0 ?n (\<lambda>_. preprocess_word Info) (ws @ words, ((?D, ?C), 0, ucast (Original_type Info)), out) =
      Some (words, (acc', 8 * ?n, type_at (Original_type Info) (8 * ?n)), out @ o')"
    "o' @ pack_rest acc' = bytes_words (?l @ kept (pre_keep Info) ws (8 * ?n))"
    using pre.words_loop [of ws ?n ?l "(?D, ?C)" Info words out] by (auto simp: preprocess_word_packer type_at_def)
  have "?l @ kept (pre_keep Info) ws (8 * ?n) = packet_row Info t"
    using kept_data [OF _ info_fits_bytes [OF f] ws t(1)] kept_parity [OF _ info_fits_bytes [OF f] ws t(1)] by (simp add: packet_row_def)
  then have "o' @ pack_rest acc' = bytes_words (packet_row Info t)" using l(2) by simp
  then show ?thesis
    unfolding preprocess_packet_def prod.case stream_read_simps bind.simps Let_def info_fits_words [OF f] decoder_sizes of_nat_numeral l(1) by simp
qed

lemma postprocess_packet_bytes:
  assumes "holds_bytes ws t" and "length t = unat (Bytes_per_packet Info) + 2"
  shows "postprocess_packet (Info # infos, ws @ words, out_infos, out) = Some (infos, words, out_infos @ [Info], out @ bytes_words (drop 2 t))"
proof -
  let ?n = "(length t + 7) div 8"
  have "length ws = ?n" using assms by (simp add: holds_bytes_def)
  then obtain acc' o' where l: "for_opt 0 ?n (\<lambda>_. postprocess_word Info) (ws @ words, ((0, 0), 0), out) = Some (words, (acc', 8 * ?n), out @ o')"
    "o' @ pack_rest acc' = bytes_words ([] @ kept (post_keep Info) ws (8 * ?n))"
    using post.words_loop [of ws ?n "[]" "(0, 0)" Info words out] packs_Nil by (auto simp: postprocess_word_packer)
  then show ?thesis using kept_post [OF assms] by (simp add: postprocess_packet_def assms(2))
qed

section \<open>Sequences of packets\<close>

type_synonym arrival = "packet_info \<times> u8 list \<times> u64 list"
  \<comment> \<open>a packet in the streams of its class: its record, its bytes and its words\<close>

abbreviation arrival_info :: "arrival \<Rightarrow> packet_info" where "arrival_info r \<equiv> fst r"
abbreviation arrival_bytes :: "arrival \<Rightarrow> u8 list" where "arrival_bytes r \<equiv> fst (snd r)"
abbreviation arrival_words :: "arrival \<Rightarrow> u64 list" where "arrival_words r \<equiv> snd (snd r)"
abbreviation arrival_row :: "arrival \<Rightarrow> u8 list" where "arrival_row r \<equiv> packet_row (arrival_info r) (arrival_bytes r)"

definition arrival_ok :: "arrival \<Rightarrow> bool" where
  "arrival_ok r \<longleftrightarrow> info_fits (arrival_info r) (arrival_bytes r) \<and> holds_bytes (arrival_words r) (arrival_bytes r)"

lemma arrival_ok_words: "arrival_ok r \<Longrightarrow> length (arrival_words r) = words_per_packet (arrival_info r)"
  using info_fits_words [of "arrival_info r" "arrival_bytes r"] by (auto simp: arrival_ok_def holds_bytes_def)

lemma drop_step:
  "i < length rs \<Longrightarrow> map f (drop i rs) @ x = f (rs ! i) # map f (drop (Suc i) rs) @ x"
  "i < length rs \<Longrightarrow> concat (map g (drop i rs)) @ y = g (rs ! i) @ concat (map g (drop (Suc i) rs)) @ y"
  by (simp_all add: Cons_nth_drop_Suc [symmetric])

lemma take_step:
  "i < length rs \<Longrightarrow> map f (take (Suc i) rs) = map f (take i rs) @ [f (rs ! i)]"
  "i < length rs \<Longrightarrow> concat (map g (take (Suc i) rs)) = concat (map g (take i rs)) @ g (rs ! i)"
  by (simp_all add: take_Suc_conv_app_nth)

lemma for_opt_packets:
  assumes "\<And>i infos words xs ys. i < length rs \<Longrightarrow>
      body i (f (rs ! i) # infos, g (rs ! i) @ words, xs, ys) = Some (infos, words, xs @ [f' (rs ! i)], ys @ g' (rs ! i))"
    and "length rs = n"
  shows "for_opt 0 n body (map f rs @ infos, concat (map g rs) @ words, [], []) = Some (infos, words, map f' rs, concat (map g' rs))"
proof -
  let ?S = "\<lambda>i. (map f (drop i rs) @ infos, concat (map g (drop i rs)) @ words, map f' (take i rs), concat (map g' (take i rs)))"
  have "for_opt 0 n body (?S 0) = Some (?S n)"
    by (rule for_opt_states) (use assms in \<open>simp_all add: drop_step take_step\<close>)
  then show ?thesis using assms(2) by simp
qed

lemma select_packet_step:
  assumes "length ws = words_per_packet Info"
  shows "select_packet cmd (Info # infos, ws @ words, raw_info, raw, enc_info, enc, n) =
    Some (infos, words, if cmd \<noteq> COMMAND_DECODE \<and> Data_packet Info then raw_info @ [Info] else raw_info,
      if cmd \<noteq> COMMAND_DECODE \<and> Data_packet Info then raw @ ws else raw,
      if cmd = COMMAND_DECODE then enc_info @ [Info] else enc_info, if cmd = COMMAND_DECODE then enc @ ws else enc,
      n + (if cmd = COMMAND_DECODE \<or> Data_packet Info then 1 else 0))"
proof -
  let ?body = "\<lambda>(Offset :: nat) (words, raw, encoded). do {
       (Input, words) \<leftarrow> stream_read words;
       Some (words, if cmd \<noteq> COMMAND_DECODE \<and> Data_packet Info then raw @ [Input] else raw,
         if cmd = COMMAND_DECODE then encoded @ [Input] else encoded)
     }"
  let ?S = "\<lambda>i. (drop i ws @ words, if cmd \<noteq> COMMAND_DECODE \<and> Data_packet Info then raw @ take i ws else raw,
      if cmd = COMMAND_DECODE then enc @ take i ws else enc)"
  have "for_opt 0 (length ws) ?body (?S 0) = Some (?S (length ws))"
    by (rule for_opt_states) (simp_all add: drop_append_Cons take_Suc_conv_app_nth)
  then have "for_opt 0 (words_per_packet Info) ?body (ws @ words, raw, enc) =
      Some (words, if cmd \<noteq> COMMAND_DECODE \<and> Data_packet Info then raw @ ws else raw, if cmd = COMMAND_DECODE then enc @ ws else enc)"
    by (simp add: assms [symmetric] cong: if_cong)
  then show ?thesis by (simp add: select_packet_def)
qed

lemma select_loop:
  assumes "\<And>r. r \<in> set rs \<Longrightarrow> arrival_ok r" and "length rs = n"
  shows "for_opt 0 n (\<lambda>_. select_packet cmd) (map arrival_info rs @ infos, concat (map arrival_words rs) @ words, [], [], [], [], 0) =
    Some (infos, words,
      if cmd \<noteq> COMMAND_DECODE then filter Data_packet (map arrival_info rs) else [],
      if cmd \<noteq> COMMAND_DECODE then concat (map arrival_words (filter (Data_packet \<circ> arrival_info) rs)) else [],
      if cmd = COMMAND_DECODE then map arrival_info rs else [], if cmd = COMMAND_DECODE then concat (map arrival_words rs) else [],
      if cmd = COMMAND_DECODE then n else length (filter (Data_packet \<circ> arrival_info) rs))"
proof -
  let ?S = "\<lambda>i. (map arrival_info (drop i rs) @ infos, concat (map arrival_words (drop i rs)) @ words,
      if cmd \<noteq> COMMAND_DECODE then filter Data_packet (map arrival_info (take i rs)) else [],
      if cmd \<noteq> COMMAND_DECODE then concat (map arrival_words (filter (Data_packet \<circ> arrival_info) (take i rs))) else [],
      if cmd = COMMAND_DECODE then map arrival_info (take i rs) else [], if cmd = COMMAND_DECODE then concat (map arrival_words (take i rs)) else [],
      if cmd = COMMAND_DECODE then i else length (filter (Data_packet \<circ> arrival_info) (take i rs)))"
  have "for_opt 0 n (\<lambda>_. select_packet cmd) (?S 0) = Some (?S n)"
  proof (rule for_opt_states)
    fix i assume "i < n"
    then have i: "i < length rs" and r: "arrival_ok (rs ! i)" using assms by auto
    show "select_packet cmd (?S i) = Some (?S (Suc i))"
      unfolding drop_step [OF i] select_packet_step [OF arrival_ok_words [OF r]] by (simp add: take_Suc_conv_app_nth [OF i])
  qed simp
  then show ?thesis using assms(2) by (simp cong: if_cong)
qed

lemma preprocess_loop:
  assumes "\<And>r. r \<in> set rs \<Longrightarrow> arrival_ok r" and "length rs = n"
  shows "for_opt 0 n (\<lambda>_. preprocess_packet) (map arrival_info rs, concat (map arrival_words rs), [], []) =
    Some ([], [], map (\<lambda>r. preprocessed_info (arrival_info r)) rs, concat (map (\<lambda>r. bytes_words (arrival_row r)) rs))"
proof -
  have "preprocess_packet (arrival_info (rs ! i) # infos, arrival_words (rs ! i) @ words, xs, ys) =
      Some (infos, words, xs @ [preprocessed_info (arrival_info (rs ! i))], ys @ bytes_words (arrival_row (rs ! i)))"
    if "i < length rs" for i infos words xs ys
    using assms(1) [of "rs ! i"] that by (simp add: arrival_ok_def preprocess_packet_row)
  from for_opt_packets [of rs "\<lambda>_. preprocess_packet" arrival_info arrival_words, OF this assms(2), of "[]" "[]"] show ?thesis by simp
qed

section \<open>The buffer\<close>

definition buffer_shape :: "u64 list list \<times> u8 list \<times> u16 list \<Rightarrow> bool" where
  "buffer_shape = (\<lambda>(buffer, indices, lengths). length buffer = FEC_MAX_K \<and> (\<forall>row\<in>set buffer. length row = PING_PONG_BUFFER_SIZE) \<and>
     length indices = FEC_MAX_K \<and> length lengths = FEC_MAX_K)"

definition buffer_row :: "u64 list list \<times> u8 list \<times> u16 list \<Rightarrow> nat \<Rightarrow> arrival \<Rightarrow> bool" where
  \<comment> \<open>row \<open>l\<close> of the buffer holds a packet\<close>
  "buffer_row = (\<lambda>(buffer, indices, lengths) l r. indices ! l = info_Packet_index (arrival_info r) \<and> lengths ! l = of_nat (length (arrival_row r)) \<and>
     (\<forall>w<(length (arrival_row r) + 7) div 8. buffer ! l ! w = bytes_words (arrival_row r) ! w))"

lemma reorder_words:
  assumes "l < length buffer" and "length ws \<le> length (buffer ! l)" and "length ws \<le> PING_PONG_BUFFER_SIZE" and "n = length ws"
  shows "for_opt 0 n (\<lambda>Offset (words, buffer). do {
      (w, words) \<leftarrow> stream_read words;
      if PING_PONG_BUFFER_SIZE \<le> Offset then None else Some (words, buffer[l := (buffer ! l)[Offset := w]])
    }) (ws @ words, buffer) = Some (words, buffer[l := ws @ drop n (buffer ! l)])"
proof -
  let ?S = "\<lambda>i. (drop i ws @ words, buffer[l := take i ws @ drop i (buffer ! l)])"
  have "for_opt 0 n (\<lambda>Offset (words, buffer). do {
      (w, words) \<leftarrow> stream_read words;
      if PING_PONG_BUFFER_SIZE \<le> Offset then None else Some (words, buffer[l := (buffer ! l)[Offset := w]])
    }) (?S 0) = Some (?S n)"
  proof (rule for_opt_states)
    fix i assume "i < n"
    then have i: "i < length ws" using assms(4) by simp
    have "drop i (buffer ! l) = buffer ! l ! i # drop (Suc i) (buffer ! l)" using i assms(2) by (simp add: Cons_nth_drop_Suc)
    then have "(take i ws @ drop i (buffer ! l))[i := ws ! i] = take (Suc i) ws @ drop (Suc i) (buffer ! l)"
      using i by (simp add: list_update_append take_Suc_conv_app_nth)
    then show "(case ?S i of (words, buffer) \<Rightarrow> do {
      (w, words) \<leftarrow> stream_read words;
      if PING_PONG_BUFFER_SIZE \<le> i then None else Some (words, buffer[l := (buffer ! l)[i := w]])
    }) = Some (?S (Suc i))" using i assms by (simp add: drop_append_Cons)
  qed simp
  then show ?thesis using assms by simp
qed

lemma row_length: "arrival_ok r \<Longrightarrow> length (arrival_row r) < 65536"
  by (auto simp: arrival_ok_def info_fits_def packet_row_def)

lemma preprocessed_words: "arrival_ok r \<Longrightarrow> words_per_packet (preprocessed_info (arrival_info r)) = (length (arrival_row r) + 7) div 8"
  using preprocessed_bytes [of "arrival_info r" "arrival_bytes r"] row_length [of r]
  by (simp add: arrival_ok_def words_per_packet_def unat_of_nat)

lemma reorder_step:
  assumes shape: "buffer_shape (B, I, L)" and l: "l < FEC_MAX_K" and r: "arrival_ok r" "length (arrival_row r) \<le> 1520"
  shows "\<exists>B' I' L'. reorder_packet l (preprocessed_info (arrival_info r) # infos, bytes_words (arrival_row r) @ words, B, I, L, out_infos) =
      Some (infos, words, B', I', L', out_infos @ [preprocessed_info (arrival_info r)]) \<and> buffer_shape (B', I', L') \<and> buffer_row (B', I', L') l r \<and>
    (\<forall>l' r'. l' \<noteq> l \<longrightarrow> buffer_row (B, I, L) l' r' \<longrightarrow> buffer_row (B', I', L') l' r')"
proof -
  let ?row = "arrival_row r" and ?info = "preprocessed_info (arrival_info r)"
  let ?B = "B[l := bytes_words ?row @ drop ((length ?row + 7) div 8) (B ! l)]"
  let ?I = "I[l := info_Packet_index ?info]" and ?L = "L[l := Bytes_per_packet ?info]"
  have B: "length B = 50" "length (B ! l) = 190" "length I = 50" "length L = 50" "l < 50" using shape l by (auto simp: buffer_shape_def FEC_MAX_K_def)
  have n: "(length ?row + 7) div 8 \<le> 190" using r(2) by simp
  have "for_opt 0 (words_per_packet ?info) (\<lambda>Offset (words, buffer). do {
      (w, words) \<leftarrow> stream_read words;
      if PING_PONG_BUFFER_SIZE \<le> Offset then None else Some (words, buffer[l := (buffer ! l)[Offset := w]])
    }) (bytes_words ?row @ words, B) = Some (words, ?B)"
    using B n unfolding preprocessed_words [OF r(1)] by (intro reorder_words) simp_all
  then have "reorder_packet l (?info # infos, bytes_words ?row @ words, B, I, L, out_infos) = Some (infos, words, ?B, ?I, ?L, out_infos @ [?info])"
    using l by (simp add: reorder_packet_def)
  moreover have "buffer_shape (?B, ?I, ?L)" using shape B n by (auto simp: buffer_shape_def dest!: set_update_subset_insert [THEN subsetD])
  moreover have "info_Packet_index ?info = info_Packet_index (arrival_info r)" by (simp add: preprocessed_info_def Let_def)
  then have "buffer_row (?B, ?I, ?L) l r" using B r(1) preprocessed_bytes [of "arrival_info r" "arrival_bytes r"]
    by (simp add: buffer_row_def nth_append arrival_ok_def)
  moreover have "buffer_row (?B, ?I, ?L) l' r'" if "l' \<noteq> l" "buffer_row (B, I, L) l' r'" for l' r' using that by (simp add: buffer_row_def)
  ultimately show ?thesis by blast
qed

lemma reorder_loop:
  assumes shape: "buffer_shape (B, I, L)" and n: "length rs = n" "n \<le> FEC_MAX_K"
    and rs: "\<And>r. r \<in> set rs \<Longrightarrow> arrival_ok r \<and> length (arrival_row r) \<le> 1520"
  shows "\<exists>B' I' L'. for_opt 0 n reorder_packet (map (\<lambda>r. preprocessed_info (arrival_info r)) rs, concat (map (\<lambda>r. bytes_words (arrival_row r)) rs), B, I, L, []) =
      Some ([], [], B', I', L', map (\<lambda>r. preprocessed_info (arrival_info r)) rs) \<and> buffer_shape (B', I', L') \<and> (\<forall>l<n. buffer_row (B', I', L') l (rs ! l))"
proof -
  let ?f = "\<lambda>r. preprocessed_info (arrival_info r)" and ?g = "\<lambda>r. bytes_words (arrival_row r)"
  let ?P = "\<lambda>i s. \<exists>B' I' L'. s = (map ?f (drop i rs) @ [], concat (map ?g (drop i rs)) @ [], B', I', L', map ?f (take i rs)) \<and>
    buffer_shape (B', I', L') \<and> (\<forall>l<i. buffer_row (B', I', L') l (rs ! l))"
  have "\<exists>s. for_opt 0 n reorder_packet (map ?f rs, concat (map ?g rs), B, I, L, []) = Some s \<and> ?P n s"
  proof (rule for_opt_inv)
    show "?P 0 (map ?f rs, concat (map ?g rs), B, I, L, [])" using shape by simp
    fix i s assume i: "i < n" and "?P i s"
    then obtain B1 I1 L1 where s: "s = (map ?f (drop i rs) @ [], concat (map ?g (drop i rs)) @ [], B1, I1, L1, map ?f (take i rs))"
      and b: "buffer_shape (B1, I1, L1)" "\<And>l. l < i \<Longrightarrow> buffer_row (B1, I1, L1) l (rs ! l)" by blast
    have il: "i < length rs" "i < FEC_MAX_K" using i n by simp_all
    have "rs ! i \<in> set rs" using il by simp
    from reorder_step [OF b(1) il(2) conjunct1 [OF rs [OF this]] conjunct2 [OF rs [OF this]], of "map ?f (drop (Suc i) rs) @ []"
        "concat (map ?g (drop (Suc i) rs)) @ []" "map ?f (take i rs)"]
    obtain B2 I2 L2 where "reorder_packet i s = Some (map ?f (drop (Suc i) rs) @ [], concat (map ?g (drop (Suc i) rs)) @ [], B2, I2, L2, map ?f (take (Suc i) rs))"
      "buffer_shape (B2, I2, L2)" "buffer_row (B2, I2, L2) i (rs ! i)" "\<And>l r. l \<noteq> i \<Longrightarrow> buffer_row (B1, I1, L1) l r \<Longrightarrow> buffer_row (B2, I2, L2) l r"
      unfolding s drop_step [OF il(1)] take_step [OF il(1)] by blast
    with b(2) have "?P (Suc i) (map ?f (drop (Suc i) rs) @ [], concat (map ?g (drop (Suc i) rs)) @ [], B2, I2, L2, map ?f (take (Suc i) rs))"
      by (auto simp: less_Suc_eq)
    with \<open>reorder_packet i s = _\<close> show "\<exists>s'. reorder_packet i s = Some s' \<and> ?P (Suc i) s'" by blast
  qed simp
  then show ?thesis using n(1) by auto
qed

end
