(* ===== verification/Hls_Groups.thy ===== *)
theory Hls_Groups
  imports Hls_Stages
begin

text \<open>
  Decoding a block: with the rows of all packets but one in the buffer, every word that the decoder computes is a word of a data packet preceded by its length, and the loop ends
  with the last word of the packet.
\<close>

section \<open>Words behind the end of a packet\<close>

lemma bit_byte_mask:
  assumes "i < 8" and "b < 64"
  shows "bit (NOT (push_bit (8 * (7 - i)) 0xFF) :: u64) b \<longleftrightarrow> b div 8 \<noteq> 7 - i"
proof -
  have FF: "(0xFF :: u64) = mask 8" by (simp add: mask_eq_exp_minus_1)
  have "b div 8 = 7 - i \<longleftrightarrow> 8 * (7 - i) \<le> b \<and> b < 8 * (7 - i) + 8" by linarith
  then show ?thesis using assms unfolding FF by (auto simp: bit_not_iff bit_push_bit_iff bit_mask_iff)
qed

lemma masked_word_symbols: "masked_word w n x = word_of_symbols (\<lambda>b. if 8 * w + b < n then word_symbol x b else 0)"
proof -
  let ?f = "\<lambda>i y. if 8 * w + i < n then y else y AND NOT (push_bit (8 * (7 - i)) 0xFF) :: u64"
  have loop: "bit (for_loop 0 m ?f x) b \<longleftrightarrow> bit x b \<and> (7 - b div 8 < m \<longrightarrow> 8 * w + (7 - b div 8) < n)" if "m \<le> 8" "b < 64" for m b
    using that(1)
  proof (induction m)
    case (Suc m)
    then have m: "m < 8" by simp
    have "7 - b div 8 = m \<longleftrightarrow> b div 8 = 7 - m" using m that(2) by auto
    then show ?case using Suc bit_byte_mask [OF m that(2)] by (auto simp: for_loop_Suc bit_and_iff less_Suc_eq)
  qed simp
  have "bit (masked_word w n x) b \<longleftrightarrow> bit (word_of_symbols (\<lambda>b. if 8 * w + b < n then word_symbol x b else 0)) b" if "b < 64" for b
  proof -
    have "b div 8 \<le> 7" "b = 8 * (b div 8) + b mod 8" using that by simp_all
    then have "56 + b mod 8 - 8 * (7 - b div 8) = b" by linarith
    then have "bit (word_symbol x (7 - b div 8)) (b mod 8) \<longleftrightarrow> bit x b" by (simp add: bit_word_symbol)
    then show ?thesis using loop [of 8 b] that by (auto simp: masked_word_def Let_def bit_word_of_symbols)
  qed
  then show ?thesis by (intro bit_word_eqI) simp
qed

lemma masked_row:
  assumes "\<And>w. w < (length row + 7) div 8 \<Longrightarrow> ws ! w = bytes_words row ! w"
  shows "masked_word w (length row) (ws ! w) = word_of_symbols (\<lambda>b. padded row (8 * w + b))"
  unfolding masked_word_symbols
proof (rule word_of_symbols_cong)
  fix b :: nat assume b: "b < 8"
  show "(if 8 * w + b < length row then word_symbol (ws ! w) b else 0) = padded row (8 * w + b)"
  proof (cases "8 * w + b < length row")
    case True
    then have "w < (length row + 7) div 8" by simp
    then show ?thesis using True b assms by (simp add: word_symbol_of_symbols)
  qed (simp add: padded_def)
qed

section \<open>The loop over the words of a packet\<close>

definition decoded_word :: "rse_h \<Rightarrow> u64 list list \<Rightarrow> u16 list \<Rightarrow> fec_sym list \<Rightarrow> nat \<Rightarrow> nat \<Rightarrow> u64" where
  "decoded_word c buffer lengths Coefficients K w =
     Matrix_multiply_word c (map (\<lambda>Packet. masked_word w (unat (lengths ! Packet)) (buffer ! Packet ! w)) [0..<FEC_MAX_K]) Coefficients K"

lemma decode_words_step:
  "decode_words c buffer lengths cs K w Length Words Info =
    (if 190 \<le> w then None
     else if w + 1 = Words then Some (if w = 0 then Info\<lparr>Bytes_per_packet := ucast (drop_bit 48 (decoded_word c buffer lengths cs K w))\<rparr> else Info,
        [decoded_word c buffer lengths cs K w])
     else do {
       (Info'', out) \<leftarrow> decode_words c buffer lengths cs K (w + 1) (unat (Bytes_per_packet Info) + 2) ((Length + 7) div 8)
         (if w = 0 then Info\<lparr>Bytes_per_packet := ucast (drop_bit 48 (decoded_word c buffer lengths cs K w))\<rparr> else Info);
       Some (Info'', decoded_word c buffer lengths cs K w # out)
     })"
  by (subst decode_words.simps) (simp add: decoded_word_def Let_def FEC_AXI_BUS_WIDTH_def FEC_PACKET_LENGTH_WIDTH_def)

lemma decode_words_tail:
  assumes "w < W" and "W \<le> 190" and "0 < w" and "W = (unat (Bytes_per_packet Info) + 2 + 7) div 8"
  shows "decode_words c buffer lengths cs K w (unat (Bytes_per_packet Info) + 2) W Info = Some (Info, map (decoded_word c buffer lengths cs K) [w..<W])"
  using assms
proof (induction "W - w" arbitrary: w)
  case (Suc n)
  show ?case
  proof (cases "w + 1 = W")
    case True
    then show ?thesis using Suc.prems by (subst decode_words_step) (simp add: upt_conv_Cons)
  next
    case False
    then have "decode_words c buffer lengths cs K (w + 1) (unat (Bytes_per_packet Info) + 2) W Info = Some (Info, map (decoded_word c buffer lengths cs K) [w + 1..<W])"
      using Suc by simp
    then show ?thesis using Suc.prems False by (subst decode_words_step) (simp add: upt_conv_Cons)
  qed
qed simp

lemma decode_words_all:
  fixes c buffer lengths cs K
  defines "out \<equiv> decoded_word c buffer lengths cs K" and "n \<equiv> ucast (drop_bit 48 (decoded_word c buffer lengths cs K 0)) :: u16"
  defines "W \<equiv> (unat n + 2 + 7) div 8"
  assumes W: "4 \<le> W" "W \<le> 190" and old: "(unat (Bytes_per_packet Info) + 2 + 7) div 8 \<noteq> 3"
  shows "decode_words c buffer lengths cs K 0 1024 1024 Info = Some (Info\<lparr>Bytes_per_packet := n\<rparr>, map out [0..<W])"
proof -
  let ?I = "Info\<lparr>Bytes_per_packet := n\<rparr>" and ?L = "unat (Bytes_per_packet Info) + 2"
  have W9: "(9 + unat n) div 8 = W" by (simp add: W_def)
  have "decode_words c buffer lengths cs K 3 (unat n + 2) W ?I = Some (?I, map out [3..<W])"
    using decode_words_tail [of 3 W ?I c buffer lengths cs K] W by (simp add: W_def out_def)
  then have "decode_words c buffer lengths cs K 2 (unat n + 2) ((?L + 7) div 8) ?I = Some (?I, map out [2..<W])"
    using old W by (subst decode_words_step) (simp add: W9 out_def upt_conv_Cons)
  then have "decode_words c buffer lengths cs K 1 ?L 128 ?I = Some (?I, map out [1..<W])"
    using W by (subst decode_words_step) (simp add: out_def upt_conv_Cons numeral_2_eq_2)
  then show ?thesis using W by (subst decode_words_step) (simp add: out_def n_def upt_conv_Cons)
qed

section \<open>Decoding with one packet missing\<close>

definition hls_parity_row :: "rse_h \<Rightarrow> u8 list list \<Rightarrow> u8 list \<Rightarrow> bool" where
  \<comment> \<open>the row of the parity packet for the rows of the data packets\<close>
  "hls_parity_row c zs par \<longleftrightarrow> (\<forall>p. gf (padded par p) = (\<Sum>j<length zs. gf (padded (zs ! j) p) * gf (hls_generator c ! 0 ! j)))"

definition rows_buffered :: "nat \<Rightarrow> nat \<Rightarrow> u8 list list \<Rightarrow> u8 list \<Rightarrow> arrival list \<Rightarrow> bool" where
  \<comment> \<open>the packets in the order of their indices, without packet \<open>i\<close>\<close>
  "rows_buffered k i zs par rs \<longleftrightarrow> length rs = k \<and>
     (\<forall>l<k. arrival_ok (rs ! l) \<and> info_Packet_index (arrival_info (rs ! l)) = of_nat (row_of i l) \<and>
       arrival_row (rs ! l) = (if row_of i l < k then zs ! row_of i l else par))"

lemma decoded_symbols:
  assumes c: "byte_symbols c" "FEC_MAX_N c = 55" and k: "k = 5 \<or> k = 50" and i: "i \<le> k" and out: "out < k"
    and zs: "length zs = k" and par: "hls_parity_row c zs par" and rs: "rows_buffered k i zs par rs"
    and B: "\<And>l. l < k \<Longrightarrow> buffer_row (B, I, L) l (rs ! l)"
  shows "decoded_word c B L (Lookup_coefficients k 1 out i) k w = word_of_symbols (\<lambda>b. padded (zs ! out) (8 * w + b))"
proof -
  let ?f = "\<lambda>l. masked_word w (unat (L ! l)) (B ! l ! w)" and ?P0 = "replicate FEC_MAX_H (0 :: fec_sym)"
  have k50: "k \<le> FEC_MAX_K" "0 < k" using k by (auto simp: FEC_MAX_K_def)
  have f: "?f l = word_of_symbols (\<lambda>b. padded (if row_of i l < k then zs ! row_of i l else par) (8 * w + b))" if "l < k" for l
  proof -
    have r: "arrival_ok (rs ! l)" "arrival_row (rs ! l) = (if row_of i l < k then zs ! row_of i l else par)" using rs that by (auto simp: rows_buffered_def)
    then have "unat (L ! l) = length (arrival_row (rs ! l))" using B [OF that] row_length [OF r(1)] by (simp add: buffer_row_def unat_of_nat)
    then show ?thesis using masked_row [of "arrival_row (rs ! l)" "B ! l" w] B [OF that] r(2) by (simp add: buffer_row_def)
  qed
  have "Matrix_multiply c (map (\<lambda>x. word_symbol x b) (map ?f [0..<FEC_MAX_K])) (Lookup_coefficients k 1 out i) k = padded (zs ! out) (8 * w + b)" if b: "b < 8" for b
  proof -
    let ?p = "8 * w + b"
    have "gf (group_parity_symbol c ?P0 (map (\<lambda>z. padded z ?p) zs)) = gf (padded par ?p)"
      using par k50 zs parity_symbol_sum [OF c(1), of ?P0 "map (\<lambda>z. padded z ?p) zs"] by (auto simp: hls_parity_row_def)
    then have "padded par ?p = group_parity_symbol c ?P0 (map (\<lambda>z. padded z ?p) zs)" by simp
    moreover have "map (\<lambda>x. word_symbol x b) (map ?f [0..<FEC_MAX_K]) =
        arrived k i (map (\<lambda>z. padded z ?p) zs) (padded par ?p) @ map (\<lambda>l. word_symbol (?f l) b) [k..<FEC_MAX_K]"
      using f b zs upt_split [OF _ k50(1), of 0] by (simp add: arrived_def word_symbol_of_symbols)
    ultimately show ?thesis using symbol_recovered [OF c k i out, of "map (\<lambda>z. padded z ?p) zs" ?P0] zs out by simp
  qed
  then show ?thesis unfolding decoded_word_def Matrix_multiply_word_symbols [OF c(1)] by (intro word_of_symbols_cong) simp
qed

definition frame_row :: "u8 list \<Rightarrow> u8 list" where
  \<comment> \<open>a data packet preceded by its length\<close>
  "frame_row d = len_bytes (length d) @ d"

lemma length_frame_row [simp]: "length (frame_row d) = length d + 2"
  by (simp add: frame_row_def)

lemma decoded_length:
  assumes "length d < 65536"
  shows "(ucast (drop_bit 48 (word_of_symbols (\<lambda>b. padded (frame_row d) b))) :: u16) = of_nat (length d)"
proof (rule bit_word_eqI)
  fix b assume "b < LENGTH(16)"
  then have b: "b < 16" by simp
  have q: "(48 + b) div 8 = 6 + b div 8" "(48 + b) mod 8 = b mod 8" by simp presburger
  show "bit (ucast (drop_bit 48 (word_of_symbols (\<lambda>b. padded (frame_row d) b))) :: u16) b \<longleftrightarrow> bit (of_nat (length d) :: u16) b"
  proof (cases "b < 8")
    case True
    then have "b div 8 = 0" "b mod 8 = b" by simp_all
    then show ?thesis using True q by (simp add: bit_unsigned_iff bit_drop_bit_eq bit_word_of_symbols frame_row_def padded_def len_bytes_def)
  next
    case False
    then have "b div 8 = 1" using b by simp
    then have "b div 8 = 1" "8 + b mod 8 = b" using div_mult_mod_eq [of b 8] by simp_all
    then show ?thesis using b q by (simp add: bit_unsigned_iff bit_drop_bit_eq bit_word_of_symbols frame_row_def padded_def len_bytes_def)
  qed
qed

lemma decode_loop:
  assumes c: "byte_symbols c" "FEC_MAX_N c = 55" and k: "k = 5 \<or> k = 50" and i: "i \<le> k"
    and ds: "length ds = k" "\<And>d. d \<in> set ds \<Longrightarrow> 23 \<le> length d \<and> length d \<le> 1518"
    and par: "hls_parity_row c (map frame_row ds) par" "27 \<le> length par + 2" and rs: "rows_buffered k i (map frame_row ds) par rs"
    and B: "\<And>l. l < k \<Longrightarrow> buffer_row (B, I, L) l (rs ! l)"
  shows "for_opt 0 k (decode_packet c B L k 1 i) (map (\<lambda>r. preprocessed_info (arrival_info r)) rs, [], []) =
    Some ([], map (\<lambda>j. (preprocessed_info (arrival_info (rs ! j)))\<lparr>Bytes_per_packet := of_nat (length (ds ! j))\<rparr>) [0..<k],
      concat (map (bytes_words \<circ> frame_row) ds))"
proof -
  let ?info = "\<lambda>j. preprocessed_info (arrival_info (rs ! j))"
  let ?out = "\<lambda>j. (?info j)\<lparr>Bytes_per_packet := of_nat (length (ds ! j))\<rparr>"
  let ?S = "\<lambda>j. (map (\<lambda>r. preprocessed_info (arrival_info r)) (drop j rs) @ [], map ?out [0..<j], concat (map (bytes_words \<circ> frame_row) (take j ds)))"
  have "for_opt 0 k (decode_packet c B L k 1 i) (?S 0) = Some (?S k)"
  proof (rule for_opt_states)
    fix j assume j: "j < k"
    let ?d = "ds ! j" and ?cs = "Lookup_coefficients k 1 j i"
    have d: "23 \<le> length ?d" "length ?d \<le> 1518" using ds j by auto
    have w: "decoded_word c B L ?cs k w = word_of_symbols (\<lambda>b. padded (frame_row ?d) (8 * w + b))" for w
      using decoded_symbols [OF c k i j _ par(1) rs B, where w = w] ds(1) j by simp
    have "(ucast (drop_bit 48 (decoded_word c B L ?cs k 0)) :: u16) = of_nat (length ?d)" using decoded_length [of ?d] d by (simp add: w del: One_nat_def)
    moreover have "unat (of_nat (length ?d) :: u16) = length ?d" using d by (simp add: unat_of_nat)
    moreover have "(unat (Bytes_per_packet (?info j)) + 2 + 7) div 8 \<noteq> 3"
    proof -
      have r: "arrival_ok (rs ! j)" "arrival_row (rs ! j) = (if row_of i j < k then map frame_row ds ! row_of i j else par)"
        using rs j by (auto simp: rows_buffered_def)
      then have "unat (Bytes_per_packet (?info j)) = length (arrival_row (rs ! j))"
        using preprocessed_bytes [of "arrival_info (rs ! j)" "arrival_bytes (rs ! j)"] row_length [OF r(1)] by (simp add: arrival_ok_def unat_of_nat)
      moreover have "25 \<le> length (arrival_row (rs ! j))" using r(2) par(2) ds by auto
      ultimately show ?thesis by simp
    qed
    ultimately have "decode_words c B L ?cs k 0 1024 1024 (?info j) = Some (?out j, map (decoded_word c B L ?cs k) [0..<(length ?d + 2 + 7) div 8])"
      using decode_words_all [of c B L ?cs k "?info j"] d by simp
    moreover have "map (decoded_word c B L ?cs k) [0..<(length ?d + 2 + 7) div 8] = bytes_words (frame_row ?d)" by (simp add: bytes_words_def w del: One_nat_def)
    moreover have "j < length rs" using rs j by (simp add: rows_buffered_def)
    ultimately show "decode_packet c B L k 1 i j (?S j) = Some (?S (Suc j))"
      using j ds(1) unfolding drop_step(1) [OF \<open>j < length rs\<close>] by (simp add: decode_packet_def take_Suc_conv_app_nth)
  qed simp
  then show ?thesis using rs ds(1) by (simp add: rows_buffered_def)
qed

end
