(* ===== verification/Hls_Calls.thy ===== *)
theory Hls_Calls
  imports Hls_Groups
begin

text \<open>
  Calls of the FPGA decoder. The state of a traffic class is its current block, two counters and the packets in its streams; a call either keeps the packet, or forwards
  the data packets of a block, or decodes them.
\<close>

section \<open>Frames\<close>

lemma frame_okI:
  assumes "ws \<noteq> []" and "\<And>i. i < length ws \<Longrightarrow> pi_End_of_frame (ws ! i) \<longleftrightarrow> Suc i = length ws"
    and "\<And>i. Suc i < length ws \<Longrightarrow> pi_Count (ws ! i) = 8" and "1 \<le> pi_Count (last ws)" and "pi_Count (last ws) \<le> 8"
  shows "frame_ok ws"
  using assms
proof (induction ws rule: frame_ok.induct)
  case (3 w v vs)
  have "frame_ok (v # vs)"
    using "3.prems" by (intro "3.IH") (auto dest: "3.prems"(2,3) [of "Suc _", simplified])
  then show ?case using "3.prems"(2,3) [of 0] by simp
qed auto

lemma stream_byte_Cons: "stream_byte (w # ws) n = (if n < 8 then data_byte w n else stream_byte ws (n - 8))"
  by (simp add: stream_byte_def le_div_geq le_mod_geq)

lemma frame_holds:
  assumes "frame_ok ws"
  shows "holds_bytes (map pi_Data ws) (frame_bytes ws) \<and> length (frame_bytes ws) = 8 * (length ws - 1) + pi_Count (last ws)"
  using assms
proof (induction ws rule: frame_ok.induct)
  case (2 w)
  then show ?case by (auto simp: holds_bytes_def frame_bytes_def stream_byte_Cons)
next
  case (3 w v vs)
  let ?b = "frame_bytes (v # vs)"
  have IH: "holds_bytes (map pi_Data (v # vs)) ?b" "length ?b = 8 * (length (v # vs) - 1) + pi_Count (last (v # vs))" and w: "pi_Count w = 8"
    using 3 by simp_all
  have b: "frame_bytes (w # v # vs) = map (data_byte (pi_Data w)) [0..<8] @ ?b" by (simp add: frame_bytes_Cons [of w] w)
  then have l: "length (frame_bytes (w # v # vs)) = 8 + length ?b" by simp
  have "stream_byte (map pi_Data (w # v # vs)) n = frame_bytes (w # v # vs) ! n" if "n < length (frame_bytes (w # v # vs))" for n
    using that IH(1) unfolding b holds_bytes_def by (auto simp: stream_byte_Cons [of "pi_Data w"] nth_append)
  moreover have "length (map pi_Data (w # v # vs)) = (length (frame_bytes (w # v # vs)) + 7) div 8"
    using IH(1) unfolding l holds_bytes_def by simp
  moreover have "length (frame_bytes (w # v # vs)) = 8 * (length (w # v # vs) - 1) + pi_Count (last (w # v # vs))"
    unfolding l IH(2) by simp
  ultimately show ?case by (simp only: holds_bytes_def) simp
qed simp

lemma frame_words: "frame_ok ws \<Longrightarrow> length ws = (length (frame_bytes ws) + 7) div 8"
  using frame_holds [of ws] unfolding holds_bytes_def by (metis length_map)

definition wire_frame :: "packet_info \<Rightarrow> u64 list \<Rightarrow> packet_interface list" where
  "wire_frame Info ws = map (\<lambda>w. output_word Info w (ws ! w)) [0..<length ws]"

lemma wire_frame_bytes:
  assumes ws: "holds_bytes ws d" and d: "d \<noteq> []" "unat (Bytes_per_packet Info) = length d"
  shows "frame_ok (wire_frame Info ws) \<and> frame_bytes (wire_frame Info ws) = d"
proof -
  let ?f = "wire_frame Info ws" and ?n = "(length d + 7) div 8"
  define m where "m = (length d - 1) mod 8"
  have n: "length ws = ?n" "words_per_packet Info = ?n" "0 < ?n" using ws d by (simp_all add: holds_bytes_def words_per_packet_def Suc_le_eq div_greater_zero_iff)
  have m: "length d = 8 * (?n - 1) + m + 1" "m < 8"
  proof -
    have "?n - 1 = (length d - 1) div 8" using d(1) by (cases d) simp_all
    then show "length d = 8 * (?n - 1) + m + 1" "m < 8" using d(1) mult_div_mod_eq [of 8 "length d - 1"] by (auto simp: m_def Suc_le_eq)
  qed
  have "(8 * q + m + 1) mod 8 = (if m = 7 then 0 else m + 1)" for q using m(2) by (cases "m = 7") simp_all
  from this [of "?n - 1"] have "length d mod 8 = (if m = 7 then 0 else m + 1)" unfolding m(1) [symmetric] .
  then have last: "pi_Count (last ?f) = m + 1" using n d(2) m(2) by (auto simp: wire_frame_def last_map output_word_def Let_def)
  have ok: "frame_ok ?f"
  proof (rule frame_okI)
    show "?f \<noteq> []" using n by (auto simp: wire_frame_def)
    show "1 \<le> pi_Count (last ?f)" "pi_Count (last ?f) \<le> 8" using last m(2) by simp_all
  qed (use n in \<open>simp_all add: wire_frame_def output_word_def Let_def\<close>)
  have len: "length (frame_bytes ?f) = length d" using frame_holds [OF ok] last m(1) n by (simp add: wire_frame_def)
  have "map pi_Data ?f = ws" by (rule nth_equalityI) (simp_all add: wire_frame_def output_word_def Let_def)
  then have "frame_bytes ?f ! i = d ! i" if "i < length d" for i
    using frame_holds [OF ok] ws len that by (auto simp: holds_bytes_def)
  then show ?thesis using ok len by (auto intro: nth_equalityI)
qed

section \<open>Output\<close>

lemma output_packet_step:
  assumes "length ws = words_per_packet Info"
  shows "output_packet Tuples cmd n (Info # infos, ws @ words, tuples, out) =
    Some (infos, words, tuples @ [output_tuple Tuples cmd n Info], out @ wire_frame Info ws)"
proof -
  let ?body = "\<lambda>Offset (words, out). do { (Word, words) \<leftarrow> stream_read words; Some (words, out @ [output_word Info Offset Word]) }"
  let ?S = "\<lambda>i. (drop i ws @ words, out @ map (\<lambda>w. output_word Info w (ws ! w)) [0..<i])"
  have "for_opt 0 (length ws) ?body (?S 0) = Some (?S (length ws))" by (rule for_opt_states) (simp_all add: drop_append_Cons)
  then show ?thesis by (simp add: output_packet_def wire_frame_def assms)
qed

lemma output_loop:
  assumes "\<And>r. r \<in> set rs \<Longrightarrow> length (ws r) = words_per_packet (info r)" and "length rs = n"
  shows "Output_packets_from Tuples (concat (map ws rs)) (map info rs) n cmd =
    Some (map (\<lambda>r. output_tuple Tuples cmd n (info r)) rs, concat (map (\<lambda>r. wire_frame (info r) (ws r)) rs))"
proof -
  have "output_packet Tuples cmd n (info (rs ! i) # infos, ws (rs ! i) @ words, xs, ys) =
      Some (infos, words, xs @ [output_tuple Tuples cmd n (info (rs ! i))], ys @ wire_frame (info (rs ! i)) (ws (rs ! i)))"
    if "i < length rs" for i infos words xs ys
    using assms(1) [of "rs ! i"] that by (simp add: output_packet_step)
  from for_opt_packets [of rs "\<lambda>_. output_packet Tuples cmd n" info ws, OF this assms(2), of "[]" "[]"] show ?thesis
    by (simp add: Output_packets_from_def)
qed

lemma postprocess_loop:
  assumes "length infos = length ds" and "\<And>j. j < length ds \<Longrightarrow> unat (Bytes_per_packet (infos ! j)) = length (ds ! j)" and "n = length ds"
  shows "for_opt 0 n (\<lambda>_. postprocess_packet) (infos, concat (map (bytes_words \<circ> frame_row) ds), [], []) = Some ([], [], infos, concat (map bytes_words ds))"
proof -
  let ?rs = "zip infos ds"
  have "postprocess_packet (fst (?rs ! i) # is, bytes_words (frame_row (snd (?rs ! i))) @ words, xs, ys) =
      Some (is, words, xs @ [fst (?rs ! i)], ys @ bytes_words (snd (?rs ! i)))" if "i < length ?rs" for i "is" words xs ys
    using that assms(1,2) by (subst postprocess_packet_bytes [OF holds_bytes_words]) (simp_all add: frame_row_def)
  note loop = for_opt_packets [of ?rs "\<lambda>_. postprocess_packet" fst "\<lambda>r. bytes_words (frame_row (snd r))" fst "\<lambda>r. bytes_words (snd r)", OF this, of n "[]" "[]"]
  have z: "map (\<lambda>r. f (snd r)) ?rs = map f ds" for f :: "u8 list \<Rightarrow> u64 list"
    using arg_cong [OF map_snd_zip [OF assms(1)], of "map f"] by (simp add: comp_def)
  show ?thesis using loop assms(1,3) by (simp add: z [of bytes_words] z [of "\<lambda>d. bytes_words (frame_row d)"] comp_def)
qed

section \<open>Collecting\<close>

abbreviation tuple_class :: "input_tuples \<Rightarrow> nat" where "tuple_class t \<equiv> fec_traffic_class (Fec (Hdr t))"
abbreviation tuple_block :: "input_tuples \<Rightarrow> nat" where "tuple_block t \<equiv> fec_block_index (Fec (Hdr t))"
abbreviation tuple_index :: "input_tuples \<Rightarrow> nat" where "tuple_index t \<equiv> fec_packet_index (Fec (Hdr t))"
abbreviation tuple_K :: "input_tuples \<Rightarrow> nat" where "tuple_K t \<equiv> unat (in_K (Decoder_input t))"
abbreviation tuple_H :: "input_tuples \<Rightarrow> nat" where "tuple_H t \<equiv> unat (in_H (Decoder_input t))"

definition tuple_info :: "input_tuples \<Rightarrow> packet_info" where
  "tuple_info t = \<lparr>Data_packet = tuple_index t < tuple_K t, info_Packet_index = of_nat (tuple_index t),
     Bytes_per_packet = of_nat (fec_length (Fec (Hdr t))), Original_type = of_nat (fec_original_type (Fec (Hdr t)))\<rparr>"

definition arrival_of :: "input_tuples \<times> packet_interface list \<Rightarrow> arrival" where
  "arrival_of x = (tuple_info (fst x), frame_bytes (snd x), map pi_Data (snd x))"

definition packet_ok :: "input_tuples \<times> packet_interface list \<Rightarrow> bool" where
  \<comment> \<open>a packet for the decoder, with a tag that tells its length\<close>
  "packet_ok x \<longleftrightarrow> Stateful_valid (Decoder_input (fst x)) \<and> frame_ok (snd x) \<and> 20 \<le> length (frame_bytes (snd x)) \<and>
     fec_length (Fec (Hdr (fst x))) = length (frame_bytes (snd x))"

lemma bits_range_less: "lo \<le> hi \<Longrightarrow> bits_range w hi lo < 2 ^ (hi + 1 - lo)"
  by (simp add: bits_range_def unsigned_take_bit_eq take_bit_nat_less_exp)

lemma fec_field_bounds:
  "fec_length w < 65536" "fec_block_index w < 32" "fec_packet_index w < 256" "fec_traffic_class w < 8"
  using bits_range_less [of 0 15 w] bits_range_less [of 40 44 w] bits_range_less [of 32 39 w] bits_range_less [of 45 47 w]
  by (simp_all add: fec_length_def fec_block_index_def fec_packet_index_def fec_traffic_class_def width_defs)

lemma arrival_of_ok: "packet_ok x \<Longrightarrow> arrival_ok (arrival_of x)"
  using fec_field_bounds(1) [of "Fec (Hdr (fst x))"] frame_holds [of "snd x"]
  by (auto simp: packet_ok_def arrival_ok_def arrival_of_def info_fits_def tuple_info_def)

lemma collect_words_frame:
  assumes "frame_ok ws" and "off + 8 * (length ws - 1) < n"
  shows "collect_words False drp n (ws @ rest) off = Some (rest, if drp then [] else map pi_Data ws, [])"
  using assms by (induction ws arbitrary: off rule: frame_ok.induct) auto

definition class_state :: "decoder_state \<Rightarrow> nat \<Rightarrow> nat \<Rightarrow> nat \<Rightarrow> nat \<Rightarrow> arrival list \<Rightarrow> bool" where
  \<comment> \<open>the current block of a class, how many of its packets and of its data packets have arrived, and the packets in the streams\<close>
  "class_state st cls blk np nd rs \<longleftrightarrow> unat (Current_blocks st cls) = blk \<and> unat (Packet_counts st cls) = np \<and> unat (Data_packet_counts st cls) = nd \<and>
     Info_streams st cls = map arrival_info rs \<and> Data_streams st cls = concat (map arrival_words rs)"

definition same_class :: "decoder_state \<Rightarrow> decoder_state \<Rightarrow> nat \<Rightarrow> bool" where
  "same_class st st' cls \<longleftrightarrow> Current_blocks st' cls = Current_blocks st cls \<and> Packet_counts st' cls = Packet_counts st cls \<and>
     Data_packet_counts st' cls = Data_packet_counts st cls \<and> Info_streams st' cls = Info_streams st cls \<and> Data_streams st' cls = Data_streams st cls"

lemma class_state_same: "same_class st st' cls \<Longrightarrow> class_state st' cls blk np nd rs = class_state st cls blk np nd rs"
  by (simp add: same_class_def class_state_def)

lemma same_class_trans: "same_class st st' cls \<Longrightarrow> same_class st' st'' cls \<Longrightarrow> same_class st st'' cls"
  by (simp add: same_class_def)

lemma collect_packet:
  fixes st x
  defines "t \<equiv> fst x"
  defines "cls \<equiv> tuple_class t" and "K \<equiv> tuple_K t" and "new \<equiv> tuple_block t \<noteq> unat (Current_blocks st (tuple_class t))"
  assumes x: "packet_ok x" and st: "class_state st cls blk np nd rs" and small: "np < 255" "nd \<le> np"
  shows "\<exists>st'. Collect_packets loc True [t] (snd x) st = Some (st', [], [], \<lparr>Input_tuples = t,
      Command = (if new then if np < K then COMMAND_OUTPUT_DATA else if nd < K then COMMAND_DECODE else COMMAND_IDLE
        else if Data_packet (tuple_info t) \<and> nd + 1 = K then COMMAND_OUTPUT_DATA else COMMAND_IDLE),
      par_Packet_count = (if new then np else np + 1)\<rparr>, []) \<and>
    class_state st' cls (tuple_block t) (if new then 1 else np + 1)
      (if new then (if Data_packet (tuple_info t) then 1 else 0) else if Data_packet (tuple_info t) then nd + 1 else nd)
      (if \<not> new \<and> K \<le> nd then rs else rs @ [arrival_of x]) \<and> (\<forall>cls'. cls' \<noteq> cls \<longrightarrow> same_class st st' cls')"
proof -
  let ?n = "fec_length (Fec (Hdr t))" and ?drop = "\<not> new \<and> K \<le> nd" and ?D = "Data_packet (tuple_info t)"
  have ok: "frame_ok (snd x)" "?n = length (frame_bytes (snd x))" "Stateful_valid (Decoder_input t)" using x by (simp_all add: packet_ok_def t_def)
  have blk: "unat (Current_blocks st cls) = blk" "unat (Packet_counts st cls) = np" "unat (Data_packet_counts st cls) = nd"
    "Info_streams st cls = map arrival_info rs" "Data_streams st cls = concat (map arrival_words rs)"
    using st by (simp_all add: class_state_def)
  have c: "unat (Packet_counts st cls + 1) = np + 1" "unat (Data_packet_counts st cls + 1) = nd + 1"
    using unat_u8_Suc [of "Packet_counts st cls"] unat_u8_Suc [of "Data_packet_counts st cls"] small blk by simp_all
  have "8 * (length (snd x) - 1) < ?n" using frame_words [OF ok(1)] frame_holds [OF ok(1)] ok(1) unfolding ok(2) by (cases "snd x") (auto simp: holds_bytes_def)
  then have w: "collect_words False drp ?n (snd x) 0 = Some ([], if drp then [] else map pi_Data (snd x), [])" for drp
    using collect_words_frame [OF ok(1), of 0 ?n drp "[]"] by simp
  have index: "tuple_index t < K \<longleftrightarrow> ?D" by (simp add: tuple_info_def K_def)
  have b5: "unat (of_nat (tuple_block t) :: 5 word) = tuple_block t" using fec_field_bounds(2) [of "Fec (Hdr t)"] by (simp add: unat_of_nat)
  have cls: "tuple_class t = cls" "tuple_K t = K" "tuple_block t = blk \<longleftrightarrow> \<not> new" "blk = tuple_block t \<longleftrightarrow> \<not> new" using blk(1) by (auto simp: cls_def K_def new_def)
  have info: "\<lparr>Data_packet = D, info_Packet_index = of_nat (tuple_index t), Bytes_per_packet = of_nat ?n, Original_type = of_nat (fec_original_type (Fec (Hdr t)))\<rparr> = tuple_info t
    \<longleftrightarrow> D = ?D" for D by (simp add: tuple_info_def)
  show ?thesis
    by (cases new; cases ?D; cases "K \<le> nd")
      (simp_all add: Collect_packets_def Let_def ok(3) index cls w info Decide_to_drop_def class_state_def same_class_def arrival_of_def t_def [symmetric]
        collected_counts_def started_block_def Select_command_def blk c b5)
qed

section \<open>A call\<close>

lemma select_class:
  assumes st: "class_state st (tuple_class t) blk np nd (rs1 @ rs2)" and rs1: "\<And>r. r \<in> set rs1 \<Longrightarrow> arrival_ok r"
    and p: "Input_tuples pars = t" "Command pars = COMMAND_DECODE \<or> Command pars = COMMAND_OUTPUT_DATA"
      "length rs1 = (if Command pars = COMMAND_DECODE then tuple_K t else par_Packet_count pars)"
  shows "\<exists>st'. Select_packets pars st = Some (st',
      if Command pars \<noteq> COMMAND_DECODE then filter Data_packet (map arrival_info rs1) else [],
      if Command pars \<noteq> COMMAND_DECODE then concat (map arrival_words (filter (Data_packet \<circ> arrival_info) rs1)) else [],
      if Command pars = COMMAND_DECODE then map arrival_info rs1 else [], if Command pars = COMMAND_DECODE then concat (map arrival_words rs1) else [],
      if Command pars = COMMAND_DECODE then length rs1 else length (filter (Data_packet \<circ> arrival_info) rs1)) \<and>
    class_state st' (tuple_class t) blk np nd rs2 \<and> (\<forall>cls'. cls' \<noteq> tuple_class t \<longrightarrow> same_class st st' cls')"
proof -
  let ?n = "if Command pars = COMMAND_DECODE then tuple_K t else par_Packet_count pars"
  have s: "Info_streams st (tuple_class t) = map arrival_info rs1 @ map arrival_info rs2"
    "Data_streams st (tuple_class t) = concat (map arrival_words rs1) @ concat (map arrival_words rs2)" using st by (simp_all add: class_state_def)
  let ?st = "st\<lparr>Info_streams := (Info_streams st)(tuple_class t := map arrival_info rs2), Data_streams := (Data_streams st)(tuple_class t := concat (map arrival_words rs2))\<rparr>"
  have "class_state ?st (tuple_class t) blk np nd rs2" using st by (simp add: class_state_def)
  moreover have "same_class st ?st cls'" if "cls' \<noteq> tuple_class t" for cls' using that by (simp add: same_class_def)
  moreover note select_loop [OF rs1 p(3), of "Command pars" "map arrival_info rs2" "concat (map arrival_words rs2)", folded s]
  ultimately show ?thesis using p by (intro exI [of _ ?st]) (auto simp: Select_packets_def Let_def)
qed

lemma decoder_idle:
  assumes "Collect_packets loc True [t] p st = Some (st1, [], [], pars, [])" and "Command pars = COMMAND_IDLE"
  shows "Decoder c loc [t] p st = Some (st1, [], [], [], [])"
  using assms by (simp add: Decoder_def Select_packets_def Preprocess_headers_def Reorder_packets_def Decode_packets_def Postprocess_headers_def Output_packets_def Let_def)

lemma decoder_forward:
  assumes col: "Collect_packets loc True [t] p st = Some (st1, [], [], pars, [])" and p: "Command pars = COMMAND_OUTPUT_DATA" "Input_tuples pars = t"
    and st1: "class_state st1 (tuple_class t) blk np nd (rs1 @ rs2)" and rs1: "\<And>r. r \<in> set rs1 \<Longrightarrow> arrival_ok r" "length rs1 = par_Packet_count pars"
  shows "\<exists>st'. Decoder c loc [t] p st = Some (st', [], [],
      map (\<lambda>r. output_tuple t COMMAND_OUTPUT_DATA (length (filter (Data_packet \<circ> arrival_info) rs1)) (arrival_info r)) (filter (Data_packet \<circ> arrival_info) rs1),
      concat (map (\<lambda>r. wire_frame (arrival_info r) (arrival_words r)) (filter (Data_packet \<circ> arrival_info) rs1))) \<and>
    class_state st' (tuple_class t) blk np nd rs2 \<and> (\<forall>cls'. cls' \<noteq> tuple_class t \<longrightarrow> same_class st1 st' cls')"
proof -
  let ?ds = "filter (Data_packet \<circ> arrival_info) rs1"
  obtain st' where sel: "Select_packets pars st1 = Some (st', filter Data_packet (map arrival_info rs1), concat (map arrival_words ?ds), [], [], length ?ds)"
    and st': "class_state st' (tuple_class t) blk np nd rs2" "\<forall>cls'. cls' \<noteq> tuple_class t \<longrightarrow> same_class st1 st' cls'"
    using select_class [OF st1 rs1(1) p(2)] p rs1(2) by auto
  have "filter Data_packet (map arrival_info rs1) = map arrival_info ?ds" by (simp add: filter_map)
  moreover have "length (arrival_words r) = words_per_packet (arrival_info r)" if "r \<in> set ?ds" for r using that rs1(1) arrival_ok_words by auto
  ultimately have "Output_packets_from t (concat (map arrival_words ?ds)) (filter Data_packet (map arrival_info rs1)) (length ?ds) COMMAND_OUTPUT_DATA =
      Some (map (\<lambda>r. output_tuple t COMMAND_OUTPUT_DATA (length ?ds) (arrival_info r)) ?ds, concat (map (\<lambda>r. wire_frame (arrival_info r) (arrival_words r)) ?ds))"
    using output_loop [of ?ds arrival_words arrival_info "length ?ds" t COMMAND_OUTPUT_DATA] by simp
  then show ?thesis using col p sel st'
    by (simp add: Decoder_def Preprocess_headers_def Reorder_packets_def Decode_packets_def Postprocess_headers_def Output_packets_def Let_def)
qed

definition locals_ok :: "decoder_locals \<Rightarrow> bool" where
  \<comment> \<open>the local arrays have their sizes\<close>
  "locals_ok loc \<longleftrightarrow> buffer_shape (loc_Ping_pong_buffer loc, loc_Packet_indices loc, loc_Packet_lengths loc)"

lemma missing_found:
  assumes "buffer_shape (B, I, L)" and "\<And>l. l < k \<Longrightarrow> I ! l = of_nat (row_of i l)" and "i \<le> k" and "k \<le> 50"
  shows "Find_missing_packet (map unat I) k = i"
proof -
  have len: "length I = 50" using assms(1) by (simp add: buffer_shape_def FEC_MAX_K_def)
  have "unat (of_nat (row_of i l) :: u8) = row_of i l" if "l < k" for l using that assms(4) by (simp add: row_of_def unat_of_nat)
  then have "map unat I = map (row_of i) [0..<k] @ drop k (map unat I)" using len assms(2,4) by (intro nth_equalityI) (auto simp: nth_append)
  then show ?thesis using Find_missing_received [OF assms(3), of "drop k (map unat I)"] assms(4) by (simp add: FEC_MAX_K_def)
qed

definition buffered_block :: "rse_h \<Rightarrow> nat \<Rightarrow> nat \<Rightarrow> u8 list list \<Rightarrow> arrival list \<Rightarrow> bool" where
  \<comment> \<open>the packets of a block in the order of their indices, without packet \<open>i\<close>\<close>
  "buffered_block c k i ds rs \<longleftrightarrow> length ds = k \<and> (\<forall>d\<in>set ds. 23 \<le> length d \<and> length d \<le> 1518) \<and>
     (\<exists>par. hls_parity_row c (map frame_row ds) par \<and> 25 \<le> length par \<and> length par \<le> 1520 \<and> rows_buffered k i (map frame_row ds) par rs)"

definition decoded_info :: "arrival \<Rightarrow> u8 list \<Rightarrow> packet_info" where
  "decoded_info r d = (preprocessed_info (arrival_info r))\<lparr>Bytes_per_packet := of_nat (length d)\<rparr>"

lemma decoder_decode:
  assumes c: "byte_symbols c" "FEC_MAX_N c = 55" and k: "k = 5 \<or> k = 50" and i: "i \<le> k" and loc: "locals_ok loc"
    and col: "Collect_packets loc True [t] p st = Some (st1, [], [], pars, [])" and p: "Command pars = COMMAND_DECODE" "Input_tuples pars = t"
    and t: "tuple_K t = k" "tuple_H t = 1" and g: "buffered_block c k i ds rs1" and st1: "class_state st1 (tuple_class t) blk np nd (rs1 @ rs2)"
  shows "\<exists>st'. Decoder c loc [t] p st = Some (st', [], [],
      map (\<lambda>j. output_tuple t COMMAND_DECODE k (decoded_info (rs1 ! j) (ds ! j))) [0..<k],
      concat (map (\<lambda>j. wire_frame (decoded_info (rs1 ! j) (ds ! j)) (bytes_words (ds ! j))) [0..<k])) \<and>
    class_state st' (tuple_class t) blk np nd rs2 \<and> (\<forall>cls'. cls' \<noteq> tuple_class t \<longrightarrow> same_class st1 st' cls')"
proof -
  obtain par where ds: "length ds = k" "\<And>d. d \<in> set ds \<Longrightarrow> 23 \<le> length d \<and> length d \<le> 1518"
    and par: "hls_parity_row c (map frame_row ds) par" "25 \<le> length par" "length par \<le> 1520" and rs: "rows_buffered k i (map frame_row ds) par rs1"
    using g by (auto simp: buffered_block_def)
  let ?pre = "map (\<lambda>r. preprocessed_info (arrival_info r)) rs1" and ?infos = "map (\<lambda>j. decoded_info (rs1 ! j) (ds ! j)) [0..<k]"
  have rl: "length rs1 = k" "\<And>l. l < k \<Longrightarrow> info_Packet_index (arrival_info (rs1 ! l)) = of_nat (row_of i l)" using rs by (simp_all add: rows_buffered_def)
  have rok: "arrival_ok r \<and> length (arrival_row r) \<le> 1520" if "r \<in> set rs1" for r
  proof -
    from that obtain l where "l < k" "r = rs1 ! l" using rl by (auto simp: in_set_conv_nth)
    then have "arrival_ok r" "arrival_row r = (if row_of i l < k then map frame_row ds ! row_of i l else par)" using rs by (simp_all add: rows_buffered_def)
    then show ?thesis using par(3) ds by auto
  qed
  obtain st' where sel: "Select_packets pars st1 = Some (st', [], [], map arrival_info rs1, concat (map arrival_words rs1), k)"
    and st': "class_state st' (tuple_class t) blk np nd rs2" "\<forall>cls'. cls' \<noteq> tuple_class t \<longrightarrow> same_class st1 st' cls'"
    using select_class [OF st1 _ p(2)] p rok rl(1) t by auto
  have pre: "Preprocess_headers pars (map arrival_info rs1) (concat (map arrival_words rs1)) = Some (?pre, concat (map (\<lambda>r. bytes_words (arrival_row r)) rs1))"
    using preprocess_loop [of rs1 k] rok rl(1) p t by (simp add: Preprocess_headers_def Let_def)
  have k50: "k \<le> FEC_MAX_K" "k \<le> 50" using k by (auto simp: FEC_MAX_K_def)
  obtain B I L where reord: "Reorder_packets loc pars ?pre (concat (map (\<lambda>r. bytes_words (arrival_row r)) rs1)) = Some (B, I, L, ?pre)"
    and B: "buffer_shape (B, I, L)" "\<And>l. l < k \<Longrightarrow> buffer_row (B, I, L) l (rs1 ! l)"
    using reorder_loop [of "loc_Ping_pong_buffer loc" "loc_Packet_indices loc" "loc_Packet_lengths loc" rs1 k] rok rl(1) k50(1) loc p t
    by (auto simp: Reorder_packets_def Let_def locals_ok_def)
  have "I ! l = of_nat (row_of i l)" if "l < k" for l using B(2) [OF that] rl(2) [OF that] by (simp add: buffer_row_def)
  then have "Find_missing_packet (map unat I) k = i" by (rule missing_found [OF B(1) _ i k50(2)])
  then have dec: "Decode_packets c loc pars B I L ?pre = Some (?infos, concat (map (bytes_words \<circ> frame_row) ds))"
    using decode_loop [OF c k i ds par(1) _ rs B(2)] par(2) p t by (simp add: Decode_packets_def Let_def decoded_info_def)
  have len: "unat (Bytes_per_packet (?infos ! j)) = length (ds ! j)" if "j < k" for j
    using ds(2) [of "ds ! j"] that ds(1) by (simp add: decoded_info_def unat_of_nat)
  have "for_opt 0 k (\<lambda>_. postprocess_packet) (?infos, concat (map (bytes_words \<circ> frame_row) ds), [], []) = Some ([], [], ?infos, concat (map bytes_words ds))"
    by (rule postprocess_loop) (simp_all only: len ds(1) length_map length_upt diff_zero)
  then have post: "Postprocess_headers pars ?infos (concat (map (bytes_words \<circ> frame_row) ds)) = Some (?infos, concat (map bytes_words ds))"
    unfolding Postprocess_headers_def p t Let_def by simp
  have "map bytes_words ds = map (\<lambda>j. bytes_words (ds ! j)) [0..<k]" using ds(1) by (intro nth_equalityI) simp_all
  then have "Output_packets_from t (concat (map bytes_words ds)) ?infos k COMMAND_DECODE =
      Some (map (\<lambda>j. output_tuple t COMMAND_DECODE k (decoded_info (rs1 ! j) (ds ! j))) [0..<k],
        concat (map (\<lambda>j. wire_frame (decoded_info (rs1 ! j) (ds ! j)) (bytes_words (ds ! j))) [0..<k]))"
    using output_loop [of "[0..<k]" "\<lambda>j. bytes_words (ds ! j)" "\<lambda>j. decoded_info (rs1 ! j) (ds ! j)" k t COMMAND_DECODE] len
    by (simp add: words_per_packet_def)
  then show ?thesis using col p t sel st' pre reord dec post
    by (simp add: Decoder_def Output_packets_def Let_def)
qed

lemma decoded_frame:
  assumes "buffered_block c k i ds rs" and "j < k"
  shows "frame_ok (wire_frame (decoded_info (rs ! j) (ds ! j)) (bytes_words (ds ! j))) \<and>
    frame_bytes (wire_frame (decoded_info (rs ! j) (ds ! j)) (bytes_words (ds ! j))) = ds ! j"
proof -
  have "23 \<le> length (ds ! j) \<and> length (ds ! j) \<le> 1518" using assms by (auto simp: buffered_block_def)
  then show ?thesis by (intro wire_frame_bytes holds_bytes_words) (auto simp: decoded_info_def unat_of_nat)
qed

end
