(* ===== verification/Hls_Blocks.thy ===== *)
theory Hls_Blocks
  imports Hls_Calls
begin

text \<open>
  Blocks of packets that arrive at the FPGA decoder. All data packets of a block are forwarded when the last of them arrives; when one data packet is missing, the block
  is decoded when the next one begins.
\<close>

section \<open>Packets on the link\<close>

definition tagged :: "u8 list \<Rightarrow> u8 list \<Rightarrow> bool" where
  \<comment> \<open>a packet with the type and the header of erasure coding instead of its type\<close>
  "tagged b t \<longleftrightarrow> 14 \<le> length b \<and> (\<exists>tag. length tag = 8 \<and> t = take 12 b @ tag @ drop 14 b)"

definition ether_type :: "u8 list \<Rightarrow> nat" where
  "ether_type d = unat (d ! 12) * 256 + unat (d ! 13)"

definition sent :: "nat \<Rightarrow> nat \<Rightarrow> nat \<Rightarrow> nat \<Rightarrow> u8 list \<Rightarrow> input_tuples \<times> packet_interface list \<Rightarrow> bool" where
  \<comment> \<open>packet \<open>j\<close> of a block with \<open>k\<close> data packets and one parity packet\<close>
  "sent cls blk k j b x \<longleftrightarrow> packet_ok x \<and> tuple_class (fst x) = cls \<and> tuple_block (fst x) = blk \<and> tuple_K (fst x) = k \<and> tuple_H (fst x) = 1 \<and>
     tuple_index (fst x) = j \<and> tagged b (frame_bytes (snd x)) \<and> (j < k \<longrightarrow> fec_original_type (Fec (Hdr (fst x))) = ether_type b)"

lemma u16_bytes:
  assumes "n < 65536"
  shows "unat (ucast (drop_bit 8 (of_nat n :: u16)) :: u8) = n div 256" and "unat (ucast (of_nat n :: u16) :: u8) = n mod 256"
  using assms by (simp_all add: unsigned_ucast_eq take_bit_eq_mod unsigned_drop_bit_eq drop_bit_eq_div unat_of_nat unat_div less_mult_imp_div_less)

lemma ether_type_bytes:
  "type_byte (of_nat (ether_type d)) 12 = d ! 12" "type_byte (of_nat (ether_type d)) 13 = d ! 13"
proof -
  have n: "ether_type d < 65536" using unat_u8_le [of "d ! 12"] unat_u8_le [of "d ! 13"] unfolding ether_type_def by linarith
  have "ether_type d div 256 = unat (d ! 12)" "ether_type d mod 256 = unat (d ! 13)" by (simp_all add: ether_type_def)
  then show "type_byte (of_nat (ether_type d)) 12 = d ! 12" "type_byte (of_nat (ether_type d)) 13 = d ! 13"
    unfolding type_byte_def word_unat_eq_iff using u16_bytes [OF n] by simp_all
qed

lemma sent_row:
  assumes "sent cls blk k j b x" and "length b < 65530"
  shows "arrival_row (arrival_of x) = (if j < k then frame_row b else drop 14 b)"
proof -
  obtain tag where t: "14 \<le> length b" "length tag = 8" "frame_bytes (snd x) = take 12 b @ tag @ drop 14 b"
    using assms(1) by (auto simp: sent_def tagged_def)
  have b: "take 12 b @ [b ! 12, b ! 13] @ drop 14 b = b"
    using t(1) id_take_nth_drop [of 12 b] by (simp add: Cons_nth_drop_Suc [symmetric] numeral_eq_Suc)
  show ?thesis
  proof (cases "j < k")
    case True
    then have "Original_type (tuple_info (fst x)) = of_nat (ether_type b)" "Data_packet (tuple_info (fst x))"
      using assms(1) by (simp_all add: sent_def tuple_info_def)
    then show ?thesis using True t b by (simp add: packet_row_def arrival_of_def ether_type_bytes frame_row_def)
  next
    case False
    then have "\<not> Data_packet (tuple_info (fst x))" using assms(1) by (simp add: sent_def tuple_info_def)
    then show ?thesis using False t by (simp add: packet_row_def arrival_of_def)
  qed
qed

definition group_arrives :: "rse_h \<Rightarrow> nat \<Rightarrow> nat \<Rightarrow> nat \<Rightarrow> nat \<Rightarrow> u8 list list \<Rightarrow> (input_tuples \<times> packet_interface list) list \<Rightarrow> bool" where
  \<comment> \<open>the packets of a block arrive in order; packet \<open>i\<close> is missing, or none when \<open>i = k + 1\<close>\<close>
  "group_arrives c cls blk k i ds pkts \<longleftrightarrow> length ds = k \<and> (\<forall>d\<in>set ds. 23 \<le> length d \<and> length d \<le> 1518) \<and> i \<le> k + 1 \<and>
     length pkts = (if i \<le> k then k else k + 1) \<and>
     (\<exists>pb. map gf pb = parity_contents c 0 ds \<and> (\<forall>l<length pkts. sent cls blk k (row_of i l) ((ds @ [pb]) ! row_of i l) (pkts ! l)))"

lemma length_byte_len_bytes: "len_bytes (length d) = [length_byte d 1, length_byte d 0]"
proof -
  have FF: "(0xFF :: u32) = mask 8" by (simp add: mask_eq_exp_minus_1)
  show ?thesis unfolding len_bytes_def length_byte_def FF
    by (auto intro!: bit_word_eqI simp: bit_unsigned_iff bit_and_iff bit_drop_bit_eq bit_mask_iff bit_of_nat_iff possible_bit_word)
qed

lemma parity_contents_rows:
  assumes pb: "map gf pb = parity_contents c 0 ds" and ds: "ds \<noteq> []" "\<And>d. d \<in> set ds \<Longrightarrow> 14 \<le> length d"
  shows "hls_parity_row c (map frame_row ds) (drop 14 pb) \<and> length (drop 14 pb) = longest ds + 2 \<and> 14 \<le> length pb"
proof -
  let ?w = "\<lambda>part. group_parity c 0 part ds" and ?z = "\<lambda>p. \<Sum>j<length ds. gf (padded (map frame_row ds ! j) p) * gf (hls_generator c ! 0 ! j)"
  have "14 \<le> length (last ds)" using ds by simp
  then have d14: "map gf (drop 14 pb) = [?w (\<lambda>p. length_byte p 1), ?w (\<lambda>p. length_byte p 0)] @ map (\<lambda>i. ?w (\<lambda>p. padded p i)) [0..<longest ds]"
    using pb by (simp_all add: drop_map [symmetric] parity_contents_def HEADER_SIZE_def)
  have len: "length pb = 14 + (2 + longest ds)"
    using arg_cong [OF pb, of length] \<open>14 \<le> length (last ds)\<close> by (simp add: parity_contents_def HEADER_SIZE_def min_def)
  then have l: "length (drop 14 pb) = longest ds + 2" by simp
  have z0: "?z 0 = ?w (\<lambda>p. length_byte p 1)" "?z 1 = ?w (\<lambda>p. length_byte p 0)" "?z (p + 2) = ?w (\<lambda>d. padded d p)" for p
    by (simp_all add: group_parity_def padded_def frame_row_def length_byte_len_bytes cong: if_cong)
  have "gf (padded (drop 14 pb) p) = ?z p" for p
  proof (cases "p < longest ds + 2")
    case True
    then have "gf (padded (drop 14 pb) p) = map gf (drop 14 pb) ! p" using l by (simp add: padded_def)
    moreover have "map gf (drop 14 pb) ! p = ?z p"
    proof -
      consider "p = 0" | "p = 1" | q where "p = q + 2" by (metis One_nat_def Suc_1 add.commute add_Suc_right less_2_cases_iff nat_le_iff_add not_less)
      then show ?thesis
      proof cases
        case 1
        show ?thesis unfolding 1 z0 d14 by simp
      next
        case 2
        show ?thesis unfolding 2 z0 d14 by simp
      next
        case (3 q)
        then have "map gf (drop 14 pb) ! p = ?w (\<lambda>d. padded d q)" using True unfolding d14 by simp
        then show ?thesis unfolding 3 z0 .
      qed
    qed
    ultimately show ?thesis by simp
  next
    case False
    then have q: "p - 2 + 2 = p" "longest ds \<le> p - 2" by simp_all
    have "?w (\<lambda>d. padded d (p - 2)) = 0" using padded_beyond [OF q(2)] by (intro group_parity_zero) simp
    then have "?z p = 0" using z0(3) [of "p - 2"] unfolding q(1) by simp
    then show ?thesis using False l by (simp add: padded_def)
  qed
  then show ?thesis using l len by (simp add: hls_parity_row_def)
qed

lemma group_arrives_ok:
  assumes g: "group_arrives c cls blk k i ds pkts" and i: "i < k"
  shows "buffered_block c k i ds (map arrival_of pkts)"
proof -
  obtain pb where ds: "length ds = k" "\<And>d. d \<in> set ds \<Longrightarrow> 23 \<le> length d \<and> length d \<le> 1518" and n: "length pkts = k"
    and pb: "map gf pb = parity_contents c 0 ds" and s: "\<And>l. l < k \<Longrightarrow> sent cls blk k (row_of i l) ((ds @ [pb]) ! row_of i l) (pkts ! l)"
    using g i by (auto simp: group_arrives_def)
  have "ds \<noteq> []" using ds(1) i by auto
  then obtain d where d: "d \<in> set ds" by (cases ds) auto
  have par: "hls_parity_row c (map frame_row ds) (drop 14 pb)" "length (drop 14 pb) = longest ds + 2" "14 \<le> length pb"
    using parity_contents_rows [OF pb \<open>ds \<noteq> []\<close>] ds(2) by fastforce+
  have lo: "23 \<le> longest ds" using length_le_longest [OF d] ds(2) [OF d] by simp
  have hi: "longest ds \<le> 1518" using ds(2) by (simp add: longest_le)
  have "arrival_ok (arrival_of (pkts ! l)) \<and> info_Packet_index (arrival_info (arrival_of (pkts ! l))) = of_nat (row_of i l) \<and>
      arrival_row (arrival_of (pkts ! l)) = (if row_of i l < k then map frame_row ds ! row_of i l else drop 14 pb)" if l: "l < k" for l
  proof -
    have r: "row_of i l < k \<or> row_of i l = k" using l i by (auto simp: row_of_def)
    moreover have "length (ds ! j) < 65530" if "j < k" for j using ds(2) [of "ds ! j"] that ds(1) by simp
    moreover have "length pb < 65530" using par hi by simp
    ultimately have "length ((ds @ [pb]) ! row_of i l) < 65530" using ds(1) by (auto simp: nth_append)
    from sent_row [OF s [OF l] this] have "arrival_row (arrival_of (pkts ! l)) = (if row_of i l < k then map frame_row ds ! row_of i l else drop 14 pb)"
      using r ds(1) by (auto simp: nth_append)
    moreover have "arrival_ok (arrival_of (pkts ! l))" using s [OF l] by (intro arrival_of_ok) (simp add: sent_def)
    moreover have "info_Packet_index (arrival_info (arrival_of (pkts ! l))) = of_nat (row_of i l)"
      using s [OF l] by (simp add: sent_def arrival_of_def tuple_info_def)
    ultimately show ?thesis by blast
  qed
  then show ?thesis using ds par lo hi n unfolding buffered_block_def rows_buffered_def by (intro conjI exI [of _ "drop 14 pb"]) auto
qed

section \<open>Calls for the packets of a block\<close>

definition carries_frames :: "packet_interface list \<Rightarrow> u8 list list \<Rightarrow> bool" where
  \<comment> \<open>a stream of words consists of frames with these bytes\<close>
  "carries_frames out fs \<longleftrightarrow> (\<exists>frames. out = concat frames \<and> (\<forall>f\<in>set frames. frame_ok f) \<and> map frame_bytes frames = fs)"

lemma carries_Nil [simp]: "carries_frames [] []"
  unfolding carries_frames_def by (rule exI [of _ "[]"]) simp

lemma carries_append: "carries_frames out fs \<Longrightarrow> carries_frames out' fs' \<Longrightarrow> carries_frames (out @ out') (fs @ fs')"
  unfolding carries_frames_def by (elim exE, rename_tac f g, rule_tac x = "f @ g" in exI) auto

definition pending :: "rse_h \<Rightarrow> nat \<Rightarrow> decoder_state \<Rightarrow> nat \<Rightarrow> nat \<Rightarrow> u8 list list \<Rightarrow> bool" where
  \<comment> \<open>between two blocks: nothing is owed; or the data packets of the last block that arrived, too few for decoding; or all its data packets \<open>ds\<close>\<close>
  "pending c k st cls blk owed \<longleftrightarrow>
     (\<exists>np nd. class_state st cls blk np nd [] \<and> k \<le> nd \<and> nd \<le> np \<and> np < 255 \<and> owed = []) \<or>
     (\<exists>nd rs. class_state st cls blk (length rs) nd rs \<and> length rs < k \<and> nd \<le> length rs \<and> (\<forall>r\<in>set rs. arrival_ok r) \<and>
        owed = map arrival_bytes (filter (Data_packet \<circ> arrival_info) rs)) \<or>
     (\<exists>i rs. class_state st cls blk k (k - 1) rs \<and> i < k \<and> buffered_block c k i owed rs)"

lemma forwarded_frames:
  assumes "\<And>r. r \<in> set rs \<Longrightarrow> arrival_ok r"
  shows "carries_frames (concat (map (\<lambda>r. wire_frame (arrival_info r) (arrival_words r)) rs)) (map arrival_bytes rs)"
proof -
  have "frame_ok (wire_frame (arrival_info r) (arrival_words r)) \<and> frame_bytes (wire_frame (arrival_info r) (arrival_words r)) = arrival_bytes r" if "r \<in> set rs" for r
  proof -
    have fits: "info_fits (arrival_info r) (arrival_bytes r)" "holds_bytes (arrival_words r) (arrival_bytes r)"
      using assms [OF that] by (simp_all add: arrival_ok_def)
    then have "arrival_bytes r \<noteq> []" unfolding info_fits_def by auto
    with fits show ?thesis by (intro wire_frame_bytes info_fits_bytes)
  qed
  then show ?thesis
    unfolding carries_frames_def by (intro exI [of _ "map (\<lambda>r. wire_frame (arrival_info r) (arrival_words r)) rs"]) auto
qed

lemma idle_packet:
  assumes x: "packet_ok x" "tuple_class (fst x) = cls" "tuple_block (fst x) = blk" and st: "class_state st cls blk np nd rs"
    and n: "np < 255" "nd \<le> np" and more: "Data_packet (tuple_info (fst x)) \<longrightarrow> nd + 1 \<noteq> tuple_K (fst x)"
  shows "\<exists>st'. Decoder c loc [fst x] (snd x) st = Some (st', [], [], [], []) \<and>
    class_state st' cls blk (np + 1) (if Data_packet (tuple_info (fst x)) then nd + 1 else nd) (if tuple_K (fst x) \<le> nd then rs else rs @ [arrival_of x]) \<and>
    (\<forall>cls'. cls' \<noteq> cls \<longrightarrow> same_class st st' cls')"
proof -
  have "unat (Current_blocks st cls) = blk" using st by (simp add: class_state_def)
  with collect_packet [OF x(1) _ n, of st blk rs loc] st x more decoder_idle [of loc "fst x" "snd x" st _ _ c]
  show ?thesis by fastforce
qed

lemma complete_packet:
  assumes x: "packet_ok x" "tuple_class (fst x) = cls" "tuple_block (fst x) = blk" and st: "class_state st cls blk np nd rs"
    and n: "np < 255" "nd \<le> np" "length rs = np" and rs: "\<And>r. r \<in> set rs \<Longrightarrow> arrival_ok r"
    and last: "Data_packet (tuple_info (fst x))" "nd + 1 = tuple_K (fst x)"
  shows "\<exists>st' tuples out. Decoder c loc [fst x] (snd x) st = Some (st', [], [], tuples, out) \<and>
    carries_frames out (map arrival_bytes (filter (Data_packet \<circ> arrival_info) (rs @ [arrival_of x]))) \<and> class_state st' cls blk (np + 1) (nd + 1) []"
proof -
  let ?rs = "rs @ [arrival_of x]" and ?ds = "filter (Data_packet \<circ> arrival_info) (rs @ [arrival_of x])"
  have b: "unat (Current_blocks st cls) = blk" using st by (simp add: class_state_def)
  obtain st1 where col: "Collect_packets loc True [fst x] (snd x) st = Some (st1, [], [], \<lparr>Input_tuples = fst x, Command = COMMAND_OUTPUT_DATA, par_Packet_count = np + 1\<rparr>, [])"
    and st1: "class_state st1 cls blk (np + 1) (nd + 1) (?rs @ [])"
    using collect_packet [OF x(1) _ n(1,2), of st blk rs loc] st x last b by auto
  have ok: "arrival_ok r" if "r \<in> set ?rs" for r
    using that arrival_of_ok [OF x(1)] by (cases "r \<in> set rs") (simp_all add: rs)
  obtain st' where d: "Decoder c loc [fst x] (snd x) st = Some (st', [], [], map (\<lambda>r. output_tuple (fst x) COMMAND_OUTPUT_DATA (length ?ds) (arrival_info r)) ?ds,
      concat (map (\<lambda>r. wire_frame (arrival_info r) (arrival_words r)) ?ds))" and st': "class_state st' cls blk (np + 1) (nd + 1) []"
    using decoder_forward [OF col, of blk "np + 1" "nd + 1" ?rs "[]" c] st1 ok n(3) x(2) by auto
  have "arrival_ok r" if "r \<in> set ?ds" for r using ok that by (meson filter_is_subset subsetD)
  from forwarded_frames [OF this] d st' show ?thesis by blast
qed

lemma first_packet:
  assumes c: "byte_symbols c" "FEC_MAX_N c = 55" and k: "k = 5 \<or> k = 50" and loc: "locals_ok loc"
    and x: "packet_ok x" "tuple_class (fst x) = cls" "tuple_block (fst x) = blk" "tuple_K (fst x) = k" "tuple_H (fst x) = 1"
    and st: "pending c k st cls b owed" and new: "blk \<noteq> b \<or> class_state st cls b 0 0 []"
  shows "\<exists>st' tuples out. Decoder c loc [fst x] (snd x) st = Some (st', [], [], tuples, out) \<and> carries_frames out owed \<and>
    class_state st' cls blk 1 (if Data_packet (tuple_info (fst x)) then 1 else 0) [arrival_of x]"
  using st unfolding pending_def
proof (elim disjE exE conjE)
  fix np nd assume s: "class_state st cls b np nd []" "k \<le> nd" "nd \<le> np" "np < 255" and owed: "owed = []"
  have b: "unat (Current_blocks st cls) = b" "np \<noteq> 0" "unat (Packet_counts st cls) = np" using s k by (auto simp: class_state_def)
  then have "blk \<noteq> b" using new by (auto simp: class_state_def)
  then show ?thesis
    using collect_packet [OF x(1) _ s(4,3), of st b "[]" loc] s k x(2-4) b owed decoder_idle [of loc "fst x" "snd x" st _ _ c] by fastforce
next
  fix nd rs assume s: "class_state st cls b (length rs) nd rs" "length rs < k" "nd \<le> length rs"
    and ok: "\<forall>r\<in>set rs. arrival_ok r" and owed: "owed = map arrival_bytes (filter (Data_packet \<circ> arrival_info) rs)"
  have b: "unat (Current_blocks st cls) = b" "unat (Packet_counts st cls) = length rs" "unat (Data_packet_counts st cls) = nd"
    using s by (simp_all add: class_state_def)
  show ?thesis
  proof (cases "blk = b")
    case True
    then have "rs = []" "nd = 0" using new b by (simp_all add: class_state_def)
    then show ?thesis using True idle_packet [OF x(1,2,3), of st 0 0 "[]" c loc] s k x(4) owed by auto
  next
    case False
    let ?ds = "filter (Data_packet \<circ> arrival_info) rs"
    obtain st1 where col: "Collect_packets loc True [fst x] (snd x) st = Some (st1, [], [], \<lparr>Input_tuples = fst x, Command = COMMAND_OUTPUT_DATA, par_Packet_count = length rs\<rparr>, [])"
      and st1: "class_state st1 cls blk 1 (if Data_packet (tuple_info (fst x)) then 1 else 0) (rs @ [arrival_of x])"
      using False collect_packet [OF x(1), of st b "length rs" nd rs loc] s k x(2-4) b by auto
    have "carries_frames (concat (map (\<lambda>r. wire_frame (arrival_info r) (arrival_words r)) ?ds)) owed"
      unfolding owed using ok by (intro forwarded_frames) (meson filter_is_subset subsetD)
    then show ?thesis using decoder_forward [OF col _ _ st1 [folded x(2)], of c] ok x(2) by auto
  qed
next
  fix i rs assume s: "class_state st cls b k (k - 1) rs" and i: "i < k" and g: "buffered_block c k i owed rs"
  have b: "unat (Current_blocks st cls) = b" "unat (Packet_counts st cls) = k" using s by (simp_all add: class_state_def)
  then have "blk \<noteq> b" using new k by (auto simp: class_state_def)
  then obtain st1 where col: "Collect_packets loc True [fst x] (snd x) st = Some (st1, [], [], \<lparr>Input_tuples = fst x, Command = COMMAND_DECODE, par_Packet_count = k\<rparr>, [])"
    and st1: "class_state st1 cls blk 1 (if Data_packet (tuple_info (fst x)) then 1 else 0) (rs @ [arrival_of x])"
    using collect_packet [OF x(1) _ _ _, of st b k "k - 1" rs loc] s k x(2-4) b i by auto
  let ?f = "\<lambda>j. wire_frame (decoded_info (rs ! j) (owed ! j)) (bytes_words (owed ! j))"
  have "length owed = k" using g by (simp add: buffered_block_def)
  then have "carries_frames (concat (map ?f [0..<k])) owed"
    unfolding carries_frames_def using decoded_frame [OF g] by (intro exI [of _ "map ?f [0..<k]"]) (auto intro: nth_equalityI)
  then show ?thesis using decoder_decode [OF c k less_imp_le [OF i] loc col _ _ x(4,5) g st1 [folded x(2)]] x(2) by auto
qed

section \<open>Runs\<close>

lemma decoder_run_append:
  "decoder_run c loc (xs @ ys) st = do { (st1, outs1) \<leftarrow> decoder_run c loc xs st; (st2, outs2) \<leftarrow> decoder_run c loc ys st1; Some (st2, outs1 @ outs2) }"
proof (induction xs arbitrary: st)
  case (Cons x xs)
  obtain t p where x: "x = (t, p)" by (cases x)
  show ?case using Cons.IH
    by (cases "Decoder c loc [t] p st") (auto simp: x split: prod.split Option.bind_split)
qed (simp split: prod.split Option.bind_split)

lemma decoder_run_snoc:
  assumes "decoder_run c loc xs st = Some (st1, outs)" and "Decoder c loc [fst x] (snd x) st1 = Some (st2, ts, ps, tuples, out)"
  shows "decoder_run c loc (xs @ [x]) st = Some (st2, outs @ [(tuples, out)])"
  using assms by (cases x) (simp add: decoder_run_append)

lemma sent_data: "sent cls blk k j b x \<Longrightarrow> Data_packet (tuple_info (fst x)) \<longleftrightarrow> j < k"
  by (simp add: sent_def tuple_info_def)

lemma prefix_run:
  assumes c: "byte_symbols c" "FEC_MAX_N c = 55" and k: "k = 5 \<or> k = 50" and loc: "locals_ok loc"
    and g: "group_arrives c cls blk k i ds pkts" and st: "pending c k st cls b owed" and new: "blk \<noteq> b \<or> class_state st cls b 0 0 []"
    and m: "1 \<le> m" "m \<le> (if i < k then k else k - 1)"
  shows "\<exists>st' outs. decoder_run c loc (take m pkts) st = Some (st', outs) \<and> carries_frames (concat (map snd outs)) owed \<and>
    class_state st' cls blk m (min m (k - 1)) (map arrival_of (take m pkts))"
  using m
proof (induction m rule: dec_induct)
  case base
  have len: "0 < length pkts" using g k by (auto simp: group_arrives_def)
  obtain pb where s: "sent cls blk k (row_of i 0) ((ds @ [pb]) ! row_of i 0) (pkts ! 0)" using g len by (auto simp: group_arrives_def)
  have "row_of i 0 < k" using k by (auto simp: row_of_def)
  with sent_data [OF s] first_packet [OF c k loc _ _ _ _ _ st new, of "pkts ! 0"] s
  obtain st' tuples out where d: "Decoder c loc [fst (pkts ! 0)] (snd (pkts ! 0)) st = Some (st', [], [], tuples, out)" "carries_frames out owed"
    "class_state st' cls blk 1 1 [arrival_of (pkts ! 0)]" by (auto simp: sent_def)
  have "decoder_run c loc ([] @ [pkts ! 0]) st = Some (st', [] @ [(tuples, out)])" by (rule decoder_run_snoc [OF _ d(1)]) simp
  moreover have "take 1 pkts = [pkts ! 0]" using len by (cases pkts) auto
  ultimately show ?case using d k by auto
next
  case (step m)
  have mk: "m < k" "m < length pkts" "m < (if i < k then k else k - 1)" using step g by (auto simp: group_arrives_def split: if_splits)
  obtain pb where s: "sent cls blk k (row_of i m) ((ds @ [pb]) ! row_of i m) (pkts ! m)" using g mk(2) by (auto simp: group_arrives_def)
  obtain st1 outs where r: "decoder_run c loc (take m pkts) st = Some (st1, outs)" "carries_frames (concat (map snd outs)) owed"
    "class_state st1 cls blk m (min m (k - 1)) (map arrival_of (take m pkts))" using step by auto
  have data: "row_of i m < k \<longleftrightarrow> m < k - 1" using mk by (auto simp: row_of_def split: if_splits)
  have n: "m < 255" "min m (k - 1) \<le> m" "\<not> k \<le> min m (k - 1)" using mk k by auto
  have x: "packet_ok (pkts ! m)" "tuple_class (fst (pkts ! m)) = cls" "tuple_block (fst (pkts ! m)) = blk" "tuple_K (fst (pkts ! m)) = k"
    using s by (simp_all add: sent_def)
  have D: "Data_packet (tuple_info (fst (pkts ! m))) \<longleftrightarrow> m < k - 1" using sent_data [OF s] data by simp
  have more: "Data_packet (tuple_info (fst (pkts ! m))) \<longrightarrow> min m (k - 1) + 1 \<noteq> tuple_K (fst (pkts ! m))" unfolding D x(4) by auto
  obtain st2 where d: "Decoder c loc [fst (pkts ! m)] (snd (pkts ! m)) st1 = Some (st2, [], [], [], [])"
    "class_state st2 cls blk (m + 1) (if m < k - 1 then min m (k - 1) + 1 else min m (k - 1)) (map arrival_of (take m pkts) @ [arrival_of (pkts ! m)])"
    using idle_packet [OF x(1-3) r(3) n(1,2) more, of c loc, unfolded D x(4)] n(3) by (auto cong: if_cong)
  have "take (Suc m) pkts = take m pkts @ [pkts ! m]" using mk(2) by (simp add: take_Suc_conv_app_nth)
  moreover have "(if m < k - 1 then min m (k - 1) + 1 else min m (k - 1)) = min (Suc m) (k - 1)" using mk(1) by (auto simp: min_def)
  ultimately show ?case using decoder_run_snoc [OF r(1) d(1)] r(2) d(2) by (intro exI [of _ st2] exI [of _ "outs @ [([], [])]"]) simp
qed

definition few_arrive :: "nat \<Rightarrow> nat \<Rightarrow> nat \<Rightarrow> (input_tuples \<times> packet_interface list) list \<Rightarrow> bool" where
  \<comment> \<open>more than one packet of the block is missing\<close>
  "few_arrive cls blk k pkts \<longleftrightarrow> pkts \<noteq> [] \<and> length pkts < k \<and>
     (\<forall>x\<in>set pkts. packet_ok x \<and> tuple_class (fst x) = cls \<and> tuple_block (fst x) = blk \<and> tuple_K (fst x) = k \<and> tuple_H (fst x) = 1)"

definition delivered :: "nat \<Rightarrow> nat \<times> u8 list list \<times> (input_tuples \<times> packet_interface list) list \<Rightarrow> u8 list list" where
  \<comment> \<open>with one data packet missing a block is restored, otherwise its data packets leave as they arrived\<close>
  "delivered k = (\<lambda>(i, ds, pkts). if i < k \<and> k \<le> length pkts then ds
     else map (\<lambda>x. frame_bytes (snd x)) (filter (\<lambda>x. tuple_index (fst x) < tuple_K (fst x)) pkts))"

lemma group_run:
  assumes c: "byte_symbols c" "FEC_MAX_N c = 55" and k: "k = 5 \<or> k = 50" and loc: "locals_ok loc"
    and g: "group_arrives c cls blk k i ds pkts" and st: "pending c k st cls b owed" and new: "blk \<noteq> b \<or> class_state st cls b 0 0 []"
  shows "\<exists>st' outs owed'. decoder_run c loc pkts st = Some (st', outs) \<and> pending c k st' cls blk owed' \<and>
    (\<exists>now. carries_frames (concat (map snd outs)) (owed @ now) \<and> now @ owed' = delivered k (i, ds, pkts))"
proof (cases "i < k")
  case True
  have n: "length pkts = k" "1 \<le> k" using g True k by (auto simp: group_arrives_def)
  obtain st' outs where r: "decoder_run c loc pkts st = Some (st', outs)" "carries_frames (concat (map snd outs)) owed"
    "class_state st' cls blk k (k - 1) (map arrival_of pkts)"
    using prefix_run [OF c k loc g st new n(2)] True n by auto
  have "pending c k st' cls blk ds" unfolding pending_def using r(3) True group_arrives_ok [OF g True] by blast
  then show ?thesis using r True by (intro exI [of _ st'] exI [of _ outs] exI [of _ ds] conjI exI [of _ "[]"]) (simp_all add: delivered_def n)
next
  case False
  then have i: "i = k \<or> i = k + 1" and ds: "length ds = k" using g by (auto simp: group_arrives_def)
  have n: "k - 1 < length pkts" "1 \<le> k - 1" using g False k by (auto simp: group_arrives_def)
  obtain pb where s: "\<And>l. l < length pkts \<Longrightarrow> sent cls blk k l ((ds @ [pb]) ! l) (pkts ! l)"
    using g i by (auto simp: group_arrives_def row_of_def split: if_splits)
  obtain st1 outs where r: "decoder_run c loc (take (k - 1) pkts) st = Some (st1, outs)" "carries_frames (concat (map snd outs)) owed"
    "class_state st1 cls blk (k - 1) (k - 1) (map arrival_of (take (k - 1) pkts))"
    using prefix_run [OF c k loc g st new n(2)] False n by auto
  let ?x = "pkts ! (k - 1)"
  have s1: "sent cls blk k (k - 1) ((ds @ [pb]) ! (k - 1)) ?x" by (rule s [OF n(1)])
  have tk: "take k pkts = take (k - 1) pkts @ [?x]" using n by (simp add: take_Suc_conv_app_nth [symmetric])
  have data: "Data_packet (tuple_info (fst x)) \<and> packet_ok x" if "x \<in> set (take k pkts)" for x
  proof -
    from that n obtain l where "l < k" "l < length pkts" "x = pkts ! l" by (auto simp: in_set_conv_nth)
    then show ?thesis using s [of l] sent_data [of cls blk k l _ x] by (auto simp: sent_def)
  qed
  have "arrival_ok y" if "y \<in> set (map arrival_of (take (k - 1) pkts))" for y
    using that data arrival_of_ok tk by auto
  then obtain st2 tuples out where d: "Decoder c loc [fst ?x] (snd ?x) st1 = Some (st2, [], [], tuples, out)"
    "carries_frames out (map arrival_bytes (filter (Data_packet \<circ> arrival_info) (map arrival_of (take (k - 1) pkts) @ [arrival_of ?x])))"
    "class_state st2 cls blk k k []"
    using complete_packet [OF _ _ _ r(3), of ?x c loc] s1 n k sent_data [OF s1] by (auto simp: sent_def)
  have "\<not> tuple_index (fst x) < tuple_K (fst x)" if "x \<in> set (drop k pkts)" for x
  proof -
    from that n g i k have "length pkts = k + 1" by (auto simp: group_arrives_def)
    with that have "x = pkts ! k" by (auto simp: in_set_conv_nth)
    then show ?thesis using s [of k] \<open>length pkts = k + 1\<close> by (simp add: sent_def)
  qed
  then have "filter (\<lambda>x. tuple_index (fst x) < tuple_K (fst x)) (take k pkts @ drop k pkts) = take k pkts"
    using data unfolding filter_append tuple_info_def by (simp add: filter_id_conv filter_empty_conv)
  then have "map arrival_bytes (filter (Data_packet \<circ> arrival_info) (map arrival_of (take k pkts))) = delivered k (i, ds, pkts)"
    using data False by (auto simp: delivered_def filter_map comp_def arrival_of_def intro!: arg_cong [where f = "map _"] filter_True)
  then have now: "carries_frames out (delivered k (i, ds, pkts))" using d(2) by (simp add: tk)
  have run: "decoder_run c loc (take k pkts) st = Some (st2, outs @ [(tuples, out)])" unfolding tk by (rule decoder_run_snoc [OF r(1) d(1)])
  show ?thesis
  proof (cases "i = k")
    case True
    then have "take k pkts = pkts" using g by (simp add: group_arrives_def)
    moreover have "pending c k st2 cls blk []" unfolding pending_def using d(3) k by (intro disjI1 exI [of _ k]) auto
    ultimately show ?thesis using run carries_append [OF r(2) now]
      by (intro exI [of _ st2] exI [of _ "outs @ [(tuples, out)]"] exI [of _ "[]"] conjI exI [of _ "delivered k (i, ds, pkts)"]) simp_all
  next
    case 2: False
    then have len: "length pkts = k + 1" using g i by (auto simp: group_arrives_def)
    have sk: "sent cls blk k k ((ds @ [pb]) ! k) (pkts ! k)" using s [of k] len by simp
    obtain st3 where e: "Decoder c loc [fst (pkts ! k)] (snd (pkts ! k)) st2 = Some (st3, [], [], [], [])" "class_state st3 cls blk (k + 1) k []"
      using idle_packet [of "pkts ! k" cls blk st2 k k "[]" c loc] sk d(3) k sent_data [OF sk] by (auto simp: sent_def)
    have "take k pkts @ [pkts ! k] = pkts" using len by (simp add: take_Suc_conv_app_nth [symmetric])
    then have "decoder_run c loc pkts st = Some (st3, (outs @ [(tuples, out)]) @ [([], [])])" using decoder_run_snoc [OF run e(1)] by simp
    moreover have "pending c k st3 cls blk []" unfolding pending_def using e(2) k by (intro disjI1 exI [of _ "k + 1"] exI [of _ k]) auto
    ultimately show ?thesis using carries_append [OF r(2) now]
      by (intro exI [of _ st3] exI [of _ "(outs @ [(tuples, out)]) @ [([], [])]"] exI [of _ "[]"] conjI exI [of _ "delivered k (i, ds, pkts)"]) simp_all
  qed
qed

lemma few_prefix:
  assumes c: "byte_symbols c" "FEC_MAX_N c = 55" and k: "k = 5 \<or> k = 50" and loc: "locals_ok loc"
    and st: "pending c k st cls b owed" and new: "blk \<noteq> b \<or> class_state st cls b 0 0 []" and few: "few_arrive cls blk k pkts"
  shows "\<exists>st' outs nd. decoder_run c loc pkts st = Some (st', outs) \<and> carries_frames (concat (map snd outs)) owed \<and>
    class_state st' cls blk (length pkts) nd (map arrival_of pkts) \<and> nd \<le> length pkts"
  using few
proof (induction pkts rule: rev_induct)
  case (snoc x pkts)
  have x: "packet_ok x" "tuple_class (fst x) = cls" "tuple_block (fst x) = blk" "tuple_K (fst x) = k" "tuple_H (fst x) = 1"
    using snoc.prems by (simp_all add: few_arrive_def)
  show ?case
  proof (cases "pkts = []")
    case True
    obtain st' tuples out where d: "Decoder c loc [fst x] (snd x) st = Some (st', [], [], tuples, out)" "carries_frames out owed"
      "class_state st' cls blk 1 (if Data_packet (tuple_info (fst x)) then 1 else 0) [arrival_of x]"
      using first_packet [OF c k loc x st new] by blast
    have "decoder_run c loc ([] @ [x]) st = Some (st', [] @ [(tuples, out)])" by (rule decoder_run_snoc [OF _ d(1)]) simp
    then show ?thesis using d(2,3) True
      by (intro exI [of _ st'] exI [of _ "[(tuples, out)]"] exI [of _ "if Data_packet (tuple_info (fst x)) then 1 else 0"]) simp
  next
    case False
    then have few': "few_arrive cls blk k pkts" using snoc.prems by (simp add: few_arrive_def)
    obtain st1 outs nd where r: "decoder_run c loc pkts st = Some (st1, outs)" "carries_frames (concat (map snd outs)) owed"
      "class_state st1 cls blk (length pkts) nd (map arrival_of pkts)" "nd \<le> length pkts"
      using snoc.IH [OF few'] by blast
    have n: "length pkts < 255" "nd + 1 < k" using snoc.prems r(4) k by (auto simp: few_arrive_def)
    obtain st2 where d: "Decoder c loc [fst x] (snd x) st1 = Some (st2, [], [], [], [])"
      "class_state st2 cls blk (length pkts + 1) (if Data_packet (tuple_info (fst x)) then nd + 1 else nd) (map arrival_of pkts @ [arrival_of x])"
      using idle_packet [OF x(1-3) r(3) n(1) r(4), of c loc] n(2) x(4) by auto
    show ?thesis using decoder_run_snoc [OF r(1) d(1)] r(2,4) d(2)
      by (intro exI [of _ st2] exI [of _ "outs @ [([], [])]"] exI [of _ "if Data_packet (tuple_info (fst x)) then nd + 1 else nd"]) simp
  qed
qed (simp add: few_arrive_def)

lemma few_run:
  assumes c: "byte_symbols c" "FEC_MAX_N c = 55" and k: "k = 5 \<or> k = 50" and loc: "locals_ok loc"
    and st: "pending c k st cls b owed" and new: "blk \<noteq> b \<or> class_state st cls b 0 0 []" and few: "few_arrive cls blk k pkts"
  shows "\<exists>st' outs owed'. decoder_run c loc pkts st = Some (st', outs) \<and> pending c k st' cls blk owed' \<and>
    (\<exists>now. carries_frames (concat (map snd outs)) (owed @ now) \<and> now @ owed' = delivered k (i, ds, pkts))"
proof -
  obtain st1 outs nd where r: "decoder_run c loc pkts st = Some (st1, outs)" "carries_frames (concat (map snd outs)) owed"
    "class_state st1 cls blk (length (map arrival_of pkts)) nd (map arrival_of pkts)" "nd \<le> length (map arrival_of pkts)"
    using few_prefix [OF c k loc st new few] by auto
  have n: "length (map arrival_of pkts) < k" and ok: "\<forall>r\<in>set (map arrival_of pkts). arrival_ok r"
    using few by (auto simp: few_arrive_def arrival_of_ok)
  have "map arrival_bytes (filter (Data_packet \<circ> arrival_info) (map arrival_of pkts)) = delivered k (i, ds, pkts)"
    using n by (simp add: delivered_def filter_map comp_def arrival_of_def tuple_info_def)
  then have "pending c k st1 cls blk (delivered k (i, ds, pkts))" unfolding pending_def using r(3,4) n ok by metis
  then show ?thesis using r by (intro exI [of _ st1] exI [of _ outs] exI [of _ "delivered k (i, ds, pkts)"] conjI exI [of _ "[]"]) simp_all
qed

section \<open>Streams of blocks\<close>

type_synonym block = "nat \<times> nat \<times> u8 list list \<times> (input_tuples \<times> packet_interface list) list"

definition block_arrives :: "rse_h \<Rightarrow> nat \<Rightarrow> nat \<Rightarrow> block \<Rightarrow> bool" where
  "block_arrives c cls k = (\<lambda>(blk, i, ds, pkts). group_arrives c cls blk k i ds pkts \<or> few_arrive cls blk k pkts)"

fun stream_arrives :: "rse_h \<Rightarrow> nat \<Rightarrow> nat \<Rightarrow> block list \<Rightarrow> bool" where
  \<comment> \<open>blocks one after the other, each with another number than the one before it\<close>
  "stream_arrives c cls k [] = True"
| "stream_arrives c cls k (g # gs) = (block_arrives c cls k g \<and> (gs = [] \<or> fst (hd gs) \<noteq> fst g) \<and> stream_arrives c cls k gs)"

definition block_packets :: "block \<Rightarrow> (input_tuples \<times> packet_interface list) list" where
  "block_packets = (\<lambda>(blk, i, ds, pkts). pkts)"

definition delivered_block :: "nat \<Rightarrow> block \<Rightarrow> u8 list list" where
  "delivered_block k = (\<lambda>(blk, g). delivered k g)"

lemma block_run:
  assumes c: "byte_symbols c" "FEC_MAX_N c = 55" and k: "k = 5 \<or> k = 50" and loc: "locals_ok loc"
    and g: "block_arrives c cls k g" and st: "pending c k st cls b owed" and new: "fst g \<noteq> b \<or> class_state st cls b 0 0 []"
  shows "\<exists>st' outs owed' now. decoder_run c loc (block_packets g) st = Some (st', outs) \<and> pending c k st' cls (fst g) owed' \<and>
    carries_frames (concat (map snd outs)) (owed @ now) \<and> now @ owed' = delivered_block k g"
proof -
  obtain blk i ds pkts where x: "g = (blk, i, ds, pkts)" by (cases g)
  have "group_arrives c cls blk k i ds pkts \<or> few_arrive cls blk k pkts" "blk \<noteq> b \<or> class_state st cls b 0 0 []"
    using g new by (simp_all add: x block_arrives_def)
  then show ?thesis using group_run [OF c k loc _ st, of blk i ds pkts] few_run [OF c k loc st, of blk pkts i ds]
    unfolding x block_packets_def delivered_block_def prod.case fst_conv by blast
qed

lemma stream_run:
  assumes c: "byte_symbols c" "FEC_MAX_N c = 55" and k: "k = 5 \<or> k = 50" and loc: "locals_ok loc"
    and gs: "stream_arrives c cls k gs" and st: "pending c k st cls b owed" and new: "gs = [] \<or> fst (hd gs) \<noteq> b \<or> class_state st cls b 0 0 []"
  shows "\<exists>st' outs owed' now. decoder_run c loc (concat (map block_packets gs)) st = Some (st', outs) \<and>
    pending c k st' cls (if gs = [] then b else fst (last gs)) owed' \<and> carries_frames (concat (map snd outs)) now \<and>
    now @ owed' = owed @ concat (map (delivered_block k) gs)"
  using gs st new
proof (induction gs arbitrary: b st owed)
  case Nil
  then show ?case by (intro exI [of _ st] exI [of _ "[]"] exI [of _ owed]) simp
next
  case (Cons g gs)
  have g: "block_arrives c cls k g" "gs = [] \<or> fst (hd gs) \<noteq> fst g" "stream_arrives c cls k gs" and new: "fst g \<noteq> b \<or> class_state st cls b 0 0 []"
    using Cons.prems(1,3) by simp_all
  obtain st1 outs1 owed1 now1 where r1: "decoder_run c loc (block_packets g) st = Some (st1, outs1)" "pending c k st1 cls (fst g) owed1"
    "carries_frames (concat (map snd outs1)) (owed @ now1)" "now1 @ owed1 = delivered_block k g"
    using block_run [OF c k loc g(1) Cons.prems(2) new] by blast
  obtain st2 outs2 owed2 now2 where r2: "decoder_run c loc (concat (map block_packets gs)) st1 = Some (st2, outs2)"
    "pending c k st2 cls (if gs = [] then fst g else fst (last gs)) owed2" "carries_frames (concat (map snd outs2)) now2"
    "now2 @ owed2 = owed1 @ concat (map (delivered_block k) gs)"
    using Cons.IH [OF g(3) r1(2)] g(2) by blast
  have "decoder_run c loc (concat (map block_packets (g # gs))) st = Some (st2, outs1 @ outs2)"
    using r1(1) r2(1) by (simp add: decoder_run_append)
  moreover have "(owed @ now1 @ now2) @ owed2 = owed @ concat (map (delivered_block k) (g # gs))"
    using r2(4) r1(4) [symmetric] by simp
  moreover have "carries_frames (concat (map snd (outs1 @ outs2))) (owed @ now1 @ now2)" using carries_append [OF r1(3) r2(3)] by simp
  moreover have "pending c k st2 cls (if g # gs = [] then b else fst (last (g # gs))) owed2" using r2(2) by (cases "gs = []") simp_all
  ultimately show ?case by blast
qed

lemma stream_end:
  assumes c: "byte_symbols c" "FEC_MAX_N c = 55" and k: "k = 5 \<or> k = 50" and loc: "locals_ok loc"
    and gs: "stream_arrives c cls k gs" "gs \<noteq> []" and st: "pending c k st cls b owed" and new: "fst (hd gs) \<noteq> b \<or> class_state st cls b 0 0 []"
    and x: "packet_ok x" "tuple_class (fst x) = cls" "tuple_K (fst x) = k" "tuple_H (fst x) = 1" "tuple_block (fst x) \<noteq> fst (last gs)"
  shows "\<exists>st' outs. decoder_run c loc (concat (map block_packets gs) @ [x]) st = Some (st', outs) \<and>
    carries_frames (concat (map snd outs)) (owed @ concat (map (delivered_block k) gs))"
proof -
  obtain st1 outs owed' now where r: "decoder_run c loc (concat (map block_packets gs)) st = Some (st1, outs)"
    "pending c k st1 cls (fst (last gs)) owed'" "carries_frames (concat (map snd outs)) now" "now @ owed' = owed @ concat (map (delivered_block k) gs)"
    using stream_run [OF c k loc gs(1) st] gs(2) new by auto
  obtain st2 tuples out where d: "Decoder c loc [fst x] (snd x) st1 = Some (st2, [], [], tuples, out)" "carries_frames out owed'"
    using first_packet [OF c k loc x(1,2) refl x(3,4) r(2) disjI1 [OF x(5)]] by blast
  show ?thesis using decoder_run_snoc [OF r(1) d(1)] carries_append [OF r(3) d(2)] r(4)
    by (intro exI [of _ st2] exI [of _ "outs @ [(tuples, out)]"]) simp
qed

lemma pending_init: "0 < k \<Longrightarrow> pending c k decoder_init cls 0 []"
  by (simp add: pending_def class_state_def decoder_init_def)

end
