(* ===== verification/Hls_Link.thy ===== *)
theory Hls_Link
  imports Hls_Blocks
begin

text \<open>
  A group of packets on the way from the packet encoder of the FPGA design to its packet decoder. What the encoder emits is tagged and sent; the packets that arrive, without one
  of them, are a block for the decoder.
\<close>

section \<open>What the encoder emits\<close>

definition frame_fits :: "packet_interface list \<Rightarrow> bool" where
  "frame_fits ws \<longleftrightarrow> frame_ok ws \<and> 23 \<le> length (frame_bytes ws) \<and> length (frame_bytes ws) \<le> FEC_MAX_PACKET_SIZE"

lemma encoder_emits_group:
  assumes c: "byte_symbols c" and t: "group_params k 1 t" and s: "core_shape s" "Packet_index s = 0"
    and xs: "length xs = k" "xs \<noteq> []" "\<forall>x\<in>set xs. frame_fits (snd x)"
  shows "\<exists>s' outs hdr par. core_run c t (xs @ [y]) s = Some (s', outs @ [(hdr, par)]) \<and> map snd outs = map snd xs \<and>
    (\<forall>j<k. fst (outs ! j) = data_header j (frame_bytes (snd (xs ! j))) (fst (xs ! j))) \<and> frame_ok par \<and>
    hdr_Packet_index hdr = of_nat k \<and> hdr_Packet_length hdr = of_nat (length (frame_bytes par) + FEC_HDR_WIDTH div 8) \<and>
    map gf (frame_bytes par) = parity_contents c 0 (map (\<lambda>x. frame_bytes (snd x)) xs)"
proof -
  let ?ps = "map (\<lambda>x. frame_bytes (snd x)) xs"
  have x: "\<And>x. x \<in> set xs \<Longrightarrow> frame_ok (snd x) \<and> 23 \<le> length (frame_bytes (snd x)) \<and> length (frame_bytes (snd x)) \<le> FEC_MAX_PACKET_SIZE"
    using xs(3) by (auto simp: frame_fits_def)
  have t': "in_Valid t" "unat (in_k t) = length ?ps" "unat (in_h t) = 1" "length ?ps + 1 \<le> 255"
    using t xs(1) by (simp_all add: group_params_def)
  have "core_inv c 1 [] s" using s(1) by (simp add: core_inv_def)
  moreover have "longest ([] @ ?ps) \<le> FEC_MAX_PACKET_SIZE" using x by (simp add: longest_le)
  ultimately obtain s1 outs where d: "core_run c t xs s = Some (s1, outs)" "map snd outs = map snd xs"
    "map fst outs = map (\<lambda>i. data_header i (frame_bytes (snd (xs ! i))) (fst (xs ! i))) [0..<length xs]"
    "core_inv c 1 ?ps s1" "unat (Packet_index s1) = length ?ps + 0"
    using core_run_data [OF c t, of "[]" s xs] s(2) xs(1) x by auto
  have "23 \<le> length (frame_bytes (snd (last xs)))" using x [of "last xs"] xs(2) by simp
  then have last: "?ps \<noteq> []" "HEADER_SIZE \<le> length (last ?ps)" using xs(2) by (simp_all add: last_map HEADER_SIZE_def)
  obtain s2 hdr par where p: "Output_parity_packet t (fst y) s1 = (s2, hdr, par)"
    "hdr = (fst y)\<lparr>hdr_Packet_index := of_nat (length ?ps + 0),
      hdr_Packet_length := of_nat (longest ?ps + HEADER_SIZE + LENGTH_SIZE + FEC_HDR_WIDTH div 8)\<rparr>"
    "frame_ok par" "map gf (frame_bytes par) = parity_contents c 0 ?ps"
    using Output_parity_packet_step [OF d(4) last t'(2-4) d(5) zero_less_one, of "fst y"] by auto
  have "length (frame_bytes par) = longest ?ps + HEADER_SIZE + LENGTH_SIZE"
    using arg_cong [OF p(4), of length] last(2) by (simp add: parity_contents_def LENGTH_SIZE_def min_absorb2)
  moreover have "\<not> Packet_index s1 < in_k t" using d(5) t'(2) by (simp add: word_less_nat_alt)
  then have "core_run c t [y] s1 = Some (s2, [(hdr, par)])" using t'(1) p(1) by (cases y) (simp add: RSE_core_def)
  then have "core_run c t (xs @ [y]) s = Some (s2, outs @ [(hdr, par)])" using d(1) by (simp add: core_run_append)
  moreover have "fst (outs ! j) = data_header j (frame_bytes (snd (xs ! j))) (fst (xs ! j))" if "j < k" for j
    using arg_cong [OF d(3), of "\<lambda>l. l ! j"] arg_cong [OF d(3), of length] that xs(1) by simp
  ultimately show ?thesis using d(2) p(2-4) xs(1)
    by (intro exI [of _ s2] exI [of _ outs] exI [of _ hdr] exI [of _ par]) simp
qed

section \<open>The link\<close>

definition carried :: "nat \<Rightarrow> nat \<Rightarrow> nat \<Rightarrow> fec_header \<times> packet_interface list \<Rightarrow> input_tuples \<times> packet_interface list \<Rightarrow> bool" where
  \<comment> \<open>a packet of the encoder arrives with a tag that holds its header and its type\<close>
  "carried cls blk k x y \<longleftrightarrow> Stateful_valid (Decoder_input (fst y)) \<and> frame_ok (snd y) \<and> tagged (frame_bytes (snd x)) (frame_bytes (snd y)) \<and>
     fec_length (Fec (Hdr (fst y))) = unat (hdr_Packet_length (fst x)) \<and> tuple_index (fst y) = unat (hdr_Packet_index (fst x)) \<and>
     fec_original_type (Fec (Hdr (fst y))) = ether_type (frame_bytes (snd x)) \<and>
     tuple_class (fst y) = cls \<and> tuple_block (fst y) = blk \<and> tuple_K (fst y) = k \<and> tuple_H (fst y) = 1"

lemma carried_sent:
  assumes y: "carried cls blk k x y" and n: "length (frame_bytes (snd x)) < 65530" "j < 256"
    and x: "hdr_Packet_length (fst x) = of_nat (length (frame_bytes (snd x)) + FEC_HDR_WIDTH div 8)" "hdr_Packet_index (fst x) = of_nat j"
  shows "sent cls blk k j (frame_bytes (snd x)) y"
proof -
  obtain tag where t: "14 \<le> length (frame_bytes (snd x))" "length tag = 8"
    "frame_bytes (snd y) = take 12 (frame_bytes (snd x)) @ tag @ drop 14 (frame_bytes (snd x))"
    using y by (auto simp: carried_def tagged_def)
  then have "length (frame_bytes (snd y)) = length (frame_bytes (snd x)) + 6" by simp
  moreover have "unat (hdr_Packet_length (fst x)) = length (frame_bytes (snd x)) + 6" "unat (hdr_Packet_index (fst x)) = j"
    using n by (simp_all add: x FEC_HDR_WIDTH_def unat_of_nat del: of_nat_add)
  ultimately show ?thesis using y t(1) unfolding sent_def packet_ok_def carried_def by auto
qed

lemma group_on_link:
  assumes k: "k \<le> 50" "i \<le> k" and outs: "map snd outs = map snd xs" "length xs = k" "\<forall>x\<in>set xs. frame_fits (snd x)"
    "\<And>j. j < k \<Longrightarrow> fst (outs ! j) = data_header j (frame_bytes (snd (xs ! j))) (fst (xs ! j))"
    and par: "hdr_Packet_index hdr = of_nat k" "hdr_Packet_length hdr = of_nat (length (frame_bytes par) + FEC_HDR_WIDTH div 8)"
    "map gf (frame_bytes par) = parity_contents c 0 (map (\<lambda>x. frame_bytes (snd x)) xs)"
    and pkts: "length pkts = k" "\<And>l. l < k \<Longrightarrow> carried cls blk k ((outs @ [(hdr, par)]) ! row_of i l) (pkts ! l)"
  shows "group_arrives c cls blk k i (map (\<lambda>x. frame_bytes (snd x)) xs) pkts"
proof -
  let ?ds = "map (\<lambda>x. frame_bytes (snd x)) xs"
  have n: "length outs = k" using arg_cong [OF outs(1), of length] outs(2) by simp
  have f: "23 \<le> length d \<and> length d \<le> 1518" if "d \<in> set ?ds" for d
    using that outs(3) by (auto simp: frame_fits_def FEC_MAX_PACKET_SIZE_def)
  have lpar: "length (frame_bytes par) \<le> 16 + longest ?ds" using arg_cong [OF par(3), of length] by (simp add: parity_contents_def HEADER_SIZE_def)
  have "longest ?ds \<le> 1518" using f by (simp add: longest_le)
  have o: "snd (outs ! j) = snd (xs ! j)" if "j < k" for j using arg_cong [OF outs(1), of "\<lambda>l. l ! j"] that outs(2) n by simp
  have "sent cls blk k (row_of i l) ((?ds @ [frame_bytes par]) ! row_of i l) (pkts ! l)" if l: "l < k" for l
  proof -
    let ?j = "row_of i l" and ?x = "(outs @ [(hdr, par)]) ! row_of i l"
    have j: "?j < k \<or> ?j = k" "?j < 256" using l k by (auto simp: row_of_def)
    have b: "frame_bytes (snd ?x) = (?ds @ [frame_bytes par]) ! ?j" using j o n outs(2) by (auto simp: nth_append)
    have len: "length (frame_bytes (snd ?x)) < 65530"
    proof (cases "?j < k")
      case True
      then show ?thesis using f [of "?ds ! ?j"] outs(2) unfolding b by (simp add: nth_append)
    next
      case False
      then show ?thesis using j(1) n outs(2) lpar \<open>longest ?ds \<le> 1518\<close> unfolding b by (simp add: nth_append)
    qed
    have "hdr_Packet_length (fst ?x) = of_nat (length (frame_bytes (snd ?x)) + FEC_HDR_WIDTH div 8) \<and> hdr_Packet_index (fst ?x) = of_nat ?j"
      using j(1) n o outs(4) par(1,2) by (auto simp: nth_append data_header_def)
    then show ?thesis using carried_sent [OF pkts(2) [OF l] len j(2)] unfolding b by blast
  qed
  then show ?thesis using k(2) outs(2) pkts(1) par(3) f unfolding group_arrives_def by (intro conjI exI [of _ "frame_bytes par"]) auto
qed

lemma link_group:
  assumes c: "byte_symbols c" "FEC_MAX_N c = 55" and k: "k = 5 \<or> k = 50" "i < k" and loc: "locals_ok loc"
    and g: "group_arrives c cls blk k i ds pkts"
    and x: "packet_ok x" "tuple_class (fst x) = cls" "tuple_K (fst x) = k" "tuple_H (fst x) = 1" "tuple_block (fst x) \<noteq> blk"
  shows "\<exists>st' outs. decoder_run c loc (pkts @ [x]) decoder_init = Some (st', outs) \<and> carries_frames (concat (map snd outs)) ds"
proof -
  have "0 < k" using k by auto
  have "class_state decoder_init cls 0 0 0 []" by (simp add: class_state_def decoder_init_def)
  moreover have "stream_arrives c cls k [(blk, i, ds, pkts)]" using g by (simp add: block_arrives_def)
  ultimately have "\<exists>st' outs. decoder_run c loc (concat (map block_packets [(blk, i, ds, pkts)]) @ [x]) decoder_init = Some (st', outs) \<and>
      carries_frames (concat (map snd outs)) ([] @ concat (map (delivered_block k) [(blk, i, ds, pkts)]))"
    using stream_end [OF c k(1) loc _ _ pending_init [OF \<open>0 < k\<close>], of cls "[(blk, i, ds, pkts)]" x] x by simp
  then show ?thesis using k(2) g by (simp add: block_packets_def delivered_block_def delivered_def group_arrives_def)
qed

end
