(* ===== verification/Hls_Stall.thy ===== *)
theory Hls_Stall
  imports Hls_Streams
begin

text \<open>
  When the decoding loop of the FPGA decoder does not end: the end of a packet is found by comparing an offset for equality with a number of words that is known only after the third word.
\<close>

lemma GF_multiply_zero: "byte_symbols c \<Longrightarrow> GF_multiply c x 0 = 0"
  by (simp add: GF_multiply_gmul)

lemma Matrix_multiply_zero:
  assumes "byte_symbols c"
  shows "Matrix_multiply c xs (replicate FEC_MAX_K 0) k = 0"
proof -
  have "for_loop 0 n (\<lambda>l out. if l < k then GF_add out (GF_multiply c (xs ! l) (replicate FEC_MAX_K 0 ! l)) else out) 0 = (0 :: fec_sym)" if "n \<le> FEC_MAX_K" for n
    using that by (induction n) (simp_all add: for_loop_Suc GF_add_def GF_multiply_zero [OF assms])
  then show ?thesis by (simp add: Matrix_multiply_def)
qed

lemma Matrix_multiply_word_zero: "byte_symbols c \<Longrightarrow> Matrix_multiply_word c ws (replicate FEC_MAX_K 0) k = 0"
  unfolding Matrix_multiply_word_symbols Matrix_multiply_zero by (intro word_of_word_symbols) (simp add: word_symbol_def)

lemma Lookup_unsupported: "\<not> (k = 5 \<and> h = 1) \<Longrightarrow> \<not> (k = 50 \<and> h = 1) \<Longrightarrow> Lookup_coefficients k h out missing = replicate FEC_MAX_K 0"
  unfolding Lookup_coefficients_def by (simp only: if_False map_replicate_const length_upt diff_zero)

lemma decode_words_beyond:
  assumes "3 \<le> Offset" and "(Length + 7) div 8 \<le> 3" and "Words_per_packet \<le> 3" and "(unat (Bytes_per_packet Info) + 9) div 8 \<le> 3"
  shows "decode_words c buffer lengths cs K Offset Length Words_per_packet Info = None"
  using assms
proof (induction "190 - Offset" arbitrary: Offset Length Words_per_packet Info)
  case 0
  then show ?case by (subst decode_words.simps) simp
next
  case (Suc n)
  have "(unat (Bytes_per_packet Info) + 2 + 7) div 8 \<le> 3" using Suc.prems(4) by simp
  then have "decode_words c buffer lengths cs K (Offset + 1) (unat (Bytes_per_packet Info) + 2) ((Length + 7) div 8) Info = None"
    using Suc.hyps(2) Suc.prems by (intro Suc.hyps(1)) simp_all
  then show ?case using Suc.prems by (subst decode_words.simps) simp
qed

lemma decode_words_stall:
  \<comment> \<open>the first word tells the length of the packet; less than 23 bytes are too short\<close>
  assumes n_def: "(n :: u16) = ucast (drop_bit 48 (Matrix_multiply_word c (map (\<lambda>P. masked_word 0 (unat (lengths ! P)) (buffer ! P ! 0)) [0..<FEC_MAX_K]) cs K))"
    and n: "unat n < 23" and long: "(unat (Bytes_per_packet Info) + 9) div 8 \<noteq> 3"
  shows "decode_words c buffer lengths cs K 0 1024 1024 Info = None"
proof -
  have w: "FEC_AXI_BUS_WIDTH - FEC_PACKET_LENGTH_WIDTH = 48" by (simp add: FEC_AXI_BUS_WIDTH_def width_defs)
  let ?I = "Info\<lparr>Bytes_per_packet := n\<rparr>"
  have short: "(unat n + 9) div 8 \<le> 3" using n by simp
  then have three: "decode_words c buffer lengths cs K 3 (unat n + 2) ((unat n + 2 + 7) div 8) ?I = None"
    by (intro decode_words_beyond) (simp_all add: add.assoc)
  then have two: "decode_words c buffer lengths cs K 2 (unat n + 2) ((unat (Bytes_per_packet Info) + 2 + 7) div 8) ?I = None"
    using long by (subst decode_words.simps) (auto simp: Let_def add.assoc)
  then have "decode_words c buffer lengths cs K 1 (unat (Bytes_per_packet Info) + 2) 128 ?I = None"
    by (subst decode_words.simps) (auto simp: Let_def numeral_2_eq_2)
  then show ?thesis by (subst decode_words.simps) (auto simp: Let_def w n_def)
qed

lemma for_opt_first_None:
  assumes "0 < n" and "body 0 s = None"
  shows "for_opt 0 n body s = None"
  using assms(1)
proof (induction n)
  case (Suc n)
  then show ?case using assms(2) by (cases "n = 0") (simp_all add: for_opt_Suc)
qed simp

end
