(* ===== verification/Hls_Pipeline_Properties.thy ===== *)
theory Hls_Pipeline_Properties
  imports Hls_Link Hls_Stall Rse_Properties
begin

text \<open>
  The statements about the packet decoder of the FPGA design: what leaves it when blocks of packets arrive, and that it restores what the packet encoder was given.
\<close>

section \<open>Data for the witnesses\<close>

definition demo_locals :: decoder_locals where
  "demo_locals = \<lparr>loc_Packet_count = 0, loc_Missing_packet = 0, loc_Ping_pong_buffer = replicate 50 (replicate 190 0),
     loc_Packet_indices = replicate 50 0, loc_Packet_lengths = replicate 50 0\<rparr>"

lemma demo_locals_ok: "locals_ok demo_locals"
  by (simp add: locals_ok_def demo_locals_def buffer_shape_def FEC_MAX_K_def)

definition link_tuple :: "nat \<Rightarrow> nat \<Rightarrow> nat \<Rightarrow> nat \<Rightarrow> nat \<Rightarrow> input_tuples" where
  \<comment> \<open>the tuples of a packet of traffic class 0, with one parity packet for \<open>k\<close> data packets\<close>
  "link_tuple k blk idx len typ =
     \<lparr>Control = 0, Update_fl = \<lparr>Packet_count_1 = 0, H_1 = 1, K_1 = of_nat k\<rparr>,
      Hdr = \<lparr>Fec = of_nat (len + 2 ^ 16 * (typ + 2 ^ 16 * (idx + 2 ^ 8 * blk))), Eth = 0\<rparr>, Ioports = \<lparr>Egress_port = 0, Ingress_port = 0\<rparr>,
      Local_state = 0, Parser_extracts = 0, Decoder_input = \<lparr>in_H = 1, in_K = of_nat k, Stateful_valid = True\<rparr>\<rparr>"

lemma packed_fields:
  assumes "len < 65536" "typ < 65536" "idx < 256" "blk < (32 :: nat)"
  defines "n \<equiv> len + 65536 * (typ + 65536 * (idx + 256 * blk))"
  shows "n < 2 ^ 45" "n mod 65536 = len" "n div 65536 mod 65536 = typ" "n div 4294967296 mod 256 = idx" "n div 1099511627776 mod 32 = blk" "n div 35184372088832 = 0"
proof -
  have n1: "n div 65536 = typ + 65536 * (idx + 256 * blk)" using assms(1) by (simp add: n_def)
  have n2: "n div 4294967296 = idx + 256 * blk" using div_mult2_eq [of n 65536 65536] assms(2) by (simp add: n1)
  have n3: "n div 1099511627776 = blk" using div_mult2_eq [of n 4294967296 256] assms(3) by (simp add: n2)
  show "n < 2 ^ 45" using assms(1-4) by (simp add: n_def)
  then show "n div 35184372088832 = 0" by simp
  show "n mod 65536 = len" "n div 65536 mod 65536 = typ" "n div 4294967296 mod 256 = idx" "n div 1099511627776 mod 32 = blk"
    unfolding n1 n2 n3 unfolding n_def using assms(1-4) by (simp_all only: mod_mult_self2 mod_less)
qed

lemma link_tuple_fields:
  assumes "len < 65536" "typ < 65536" "idx < 256" "blk < 32" "k < 256"
  defines "t \<equiv> link_tuple k blk idx len typ"
  shows "fec_length (Fec (Hdr t)) = len \<and> fec_original_type (Fec (Hdr t)) = typ \<and> tuple_index t = idx \<and> tuple_block t = blk \<and> tuple_class t = 0 \<and>
    tuple_K t = k \<and> tuple_H t = 1 \<and> Stateful_valid (Decoder_input t)"
proof -
  define n where "n = len + 65536 * (typ + 65536 * (idx + 256 * blk))"
  note f = packed_fields [OF assms(1-4), folded n_def]
  have u: "unat (of_nat n :: 49 word) = n" using f(1) by (simp add: unat_of_nat)
  have b: "bits_range (of_nat n :: 49 word) hi lo = n div 2 ^ lo mod 2 ^ (hi + 1 - lo)" for hi lo
    using f(1) by (simp add: bits_range_def unsigned_take_bit_eq unsigned_drop_bit_eq u take_bit_nat_eq_self) (simp add: take_bit_eq_mod drop_bit_eq_div)
  have "Fec (Hdr t) = of_nat n" by (simp only: t_def link_tuple_def input_tuples.simps tuple_hdr.simps n_def) simp
  then show ?thesis using f assms(5)
    by (simp add: fec_length_def fec_original_type_def fec_packet_index_def fec_block_index_def fec_traffic_class_def width_defs b)
       (simp add: t_def link_tuple_def unat_of_nat)
qed

definition link_packet :: "nat \<Rightarrow> nat \<Rightarrow> nat \<Rightarrow> u8 list \<Rightarrow> input_tuples \<times> packet_interface list" where
  "link_packet k blk idx b = (let d = take 12 b @ replicate 8 0 @ drop 14 b; t = link_tuple k blk idx (length d) (ether_type b)
     in (t, wire_frame (tuple_info t) (bytes_words d)))"

lemma link_packet_carried:
  assumes "14 \<le> length b" "length b < 65530" "idx < 256" "blk < 32" "k < 256" "frame_bytes (snd x) = b"
    and "hdr_Packet_length (fst x) = of_nat (length b + FEC_HDR_WIDTH div 8)" and "hdr_Packet_index (fst x) = of_nat idx"
  shows "carried 0 blk k x (link_packet k blk idx b)"
proof -
  define d where "d = take 12 b @ replicate 8 0 @ drop 14 b"
  define t where "t = link_tuple k blk idx (length d) (ether_type b)"
  have l: "length d = length b + 6" "length d < 65536" "d \<noteq> []" using assms(1,2) by (simp_all add: d_def)
  have "ether_type b < 65536" using unat_u8_le [of "b ! 12"] unat_u8_le [of "b ! 13"] unfolding ether_type_def by linarith
  note f = link_tuple_fields [OF l(2) this assms(3-5), folded t_def]
  have "unat (Bytes_per_packet (tuple_info t)) = length d" using f l(2) by (simp add: tuple_info_def unat_of_nat)
  note w = wire_frame_bytes [OF holds_bytes_words l(3) this]
  have "unat (hdr_Packet_length (fst x)) = length d" "unat (hdr_Packet_index (fst x)) = idx"
    using l(1,2) assms(3) by (simp_all add: assms(7,8) FEC_HDR_WIDTH_def unat_of_nat del: of_nat_add)
  moreover have "tagged b d" unfolding tagged_def d_def using assms(1) by (intro conjI exI [of _ "replicate 8 0"]) simp_all
  moreover have "link_packet k blk idx b = (t, wire_frame (tuple_info t) (bytes_words d))" by (simp only: link_packet_def Let_def d_def t_def)
  ultimately show ?thesis using f w assms(6) by (simp add: carried_def)
qed

lemma carried_packet_ok:
  assumes "carried cls blk k x y" and "hdr_Packet_length (fst x) = of_nat (length (frame_bytes (snd x)) + FEC_HDR_WIDTH div 8)"
    and "length (frame_bytes (snd x)) < 65530" "hdr_Packet_index (fst x) = of_nat j" "j < 256"
  shows "packet_ok y" using carried_sent [OF assms(1,3,5,2,4)] by (simp add: sent_def)

definition demo_frames :: "(fec_header \<times> packet_interface list) list" where
  \<comment> \<open>frames of 24 bytes\<close>
  "demo_frames = map (\<lambda>n. (\<lparr>hdr_Packet_length = 0, hdr_Original_type = 0, hdr_Packet_index = 0, hdr_Block_index = 0, hdr_Traffic_class = 0, hdr_Is_valid = True\<rparr>,
     [\<lparr>pi_Error = False, pi_Count = 8, pi_Data = n, pi_End_of_frame = False, pi_Start_of_frame = True\<rparr>,
      \<lparr>pi_Error = False, pi_Count = 8, pi_Data = 2 * n, pi_End_of_frame = False, pi_Start_of_frame = False\<rparr>,
      \<lparr>pi_Error = False, pi_Count = 8, pi_Data = 3 * n, pi_End_of_frame = True, pi_Start_of_frame = False\<rparr>])) [1, 22, 333, 4444, 55555]"

lemma demo_frames_fit: "\<forall>x\<in>set demo_frames. frame_fits (snd x)" "length demo_frames = 5" "demo_frames \<noteq> []"
  by (simp_all add: demo_frames_def frame_fits_def frame_bytes_def FEC_MAX_PACKET_SIZE_def)

definition next_packet :: "input_tuples \<times> packet_interface list" where
  \<comment> \<open>the first packet of block 2\<close>
  "next_packet = link_packet 5 2 0 (frame_bytes (snd (hd demo_frames)))"

lemma next_packet_ok:
  "packet_ok next_packet \<and> tuple_class (fst next_packet) = 0 \<and> tuple_K (fst next_packet) = 5 \<and> tuple_H (fst next_packet) = 1 \<and> tuple_block (fst next_packet) = 2"
proof -
  let ?b = "frame_bytes (snd (hd demo_frames))"
  have len: "14 \<le> length ?b" "length ?b < 65530"
    using demo_frames_fit(1) hd_in_set [OF demo_frames_fit(3)] by (auto simp: frame_fits_def FEC_MAX_PACKET_SIZE_def)
  let ?h = "(fst (hd demo_frames))\<lparr>hdr_Packet_length := of_nat (length ?b + FEC_HDR_WIDTH div 8), hdr_Packet_index := of_nat 0\<rparr>"
  have c: "carried 0 2 5 (?h, snd (hd demo_frames)) next_packet" unfolding next_packet_def by (rule link_packet_carried [OF len]) simp_all
  then have "packet_ok next_packet" by (rule carried_packet_ok [of _ _ _ _ _ 0]) (use len in simp_all)
  then show ?thesis using c by (simp add: carried_def)
qed

definition demo_params :: input_tuple where
  "demo_params = \<lparr>in_h = 1, in_k = 5, in_fec = fst (hd demo_frames), in_Valid = True\<rparr>"

lemma demo_group:
  "\<exists>s' outs pkts. core_run demo_h demo_params (demo_frames @ [hd demo_frames]) core_zero = Some (s', outs) \<and> length pkts = 5 \<and>
    (\<forall>l<5. carried 0 1 5 (outs ! row_of 2 l) (pkts ! l)) \<and> group_arrives demo_h 0 1 5 2 (map (\<lambda>x. frame_bytes (snd x)) demo_frames) pkts"
proof -
  have "group_params 5 1 demo_params" by (simp add: group_params_def demo_params_def FEC_MAX_H_def)
  moreover have "Packet_index core_zero = 0" by (simp add: core_zero_def)
  ultimately obtain s' outs hdr par where e: "core_run demo_h demo_params (demo_frames @ [hd demo_frames]) core_zero = Some (s', outs @ [(hdr, par)])"
    "map snd outs = map snd demo_frames"
    "\<And>j. j < 5 \<Longrightarrow> fst (outs ! j) = data_header j (frame_bytes (snd (demo_frames ! j))) (fst (demo_frames ! j))"
    "hdr_Packet_index hdr = of_nat 5" "hdr_Packet_length hdr = of_nat (length (frame_bytes par) + FEC_HDR_WIDTH div 8)"
    "map gf (frame_bytes par) = parity_contents demo_h 0 (map (\<lambda>x. frame_bytes (snd x)) demo_frames)"
    using encoder_emits_group [OF demo_h_ok(1) _ core_shape_zero _ demo_frames_fit(2,3,1)] by blast
  let ?outs = "outs @ [(hdr, par)]"
  let ?pkt = "\<lambda>l. link_packet 5 1 (row_of 2 l) (frame_bytes (snd (?outs ! row_of 2 l)))"
  have n: "length outs = 5" using arg_cong [OF e(2), of length] demo_frames_fit(2) by simp
  have o: "snd (outs ! j) = snd (demo_frames ! j)" if "j < 5" for j using arg_cong [OF e(2), of "\<lambda>l. l ! j"] that n demo_frames_fit(2) by simp
  have fits: "14 \<le> length (frame_bytes (snd (demo_frames ! j))) \<and> length (frame_bytes (snd (demo_frames ! j))) \<le> 1518" if "j < 5" for j
    using demo_frames_fit(1,2) that nth_mem [of j demo_frames] by (fastforce simp: frame_fits_def FEC_MAX_PACKET_SIZE_def)
  have "length (frame_bytes par) = 14 + 2 + longest (map (\<lambda>x. frame_bytes (snd x)) demo_frames)"
    using arg_cong [OF e(6), of length] fits [of 4] demo_frames_fit(2,3) by (simp add: parity_contents_def HEADER_SIZE_def last_map last_conv_nth min_absorb2)
  moreover have "longest (map (\<lambda>x. frame_bytes (snd x)) demo_frames) \<le> 1518"
    using demo_frames_fit(1) by (auto simp: longest_le frame_fits_def FEC_MAX_PACKET_SIZE_def)
  ultimately have par: "14 \<le> length (frame_bytes par)" "length (frame_bytes par) < 65530" by simp_all
  have "carried 0 1 5 (?outs ! row_of 2 l) (?pkt l)" if l: "l < 5" for l
  proof (rule link_packet_carried)
    have j: "row_of 2 l < 5 \<or> row_of 2 l = 5" using l by (auto simp: row_of_def)
    show "14 \<le> length (frame_bytes (snd (?outs ! row_of 2 l)))" "length (frame_bytes (snd (?outs ! row_of 2 l))) < 65530"
      using j fits [of "row_of 2 l"] o n par by (auto simp: nth_append)
    show "hdr_Packet_length (fst (?outs ! row_of 2 l)) = of_nat (length (frame_bytes (snd (?outs ! row_of 2 l))) + FEC_HDR_WIDTH div 8)"
      "hdr_Packet_index (fst (?outs ! row_of 2 l)) = of_nat (row_of 2 l)"
      using j o n e(3-5) by (auto simp: nth_append data_header_def)
    show "row_of 2 l < 256" using j by auto
  qed simp_all
  then have c: "\<forall>l<5. carried 0 1 5 (?outs ! row_of 2 l) (map ?pkt [0..<5] ! l)" by simp
  have "group_arrives demo_h 0 1 5 2 (map (\<lambda>x. frame_bytes (snd x)) demo_frames) (map ?pkt [0..<5])"
    by (rule group_on_link [OF _ _ e(2) demo_frames_fit(2,1) e(3-6)]) (use c in simp_all)
  with c e(1) show ?thesis by (intro exI [of _ s'] exI [of _ ?outs] exI [of _ "map ?pkt [0..<5]"]) simp
qed

section \<open>Properties\<close>

text \<open>C7: The packet decoder of the FPGA design, from the start on a stream of blocks of one traffic class, with five or fifty data packets and one parity packet. Packets of a
  block arrive in order; any of them may be missing. The decoder accepts every packet, and when the first packet of a further block has arrived,
  the frames that have left it are, block after block: all data packets in their original form, when exactly one data packet was missing; the data packets as they
  arrived, when none was missing or when too few packets arrived for decoding. The words that leave form well-formed frames.\<close>

theorem hls_decoder_delivers_stream:
  assumes "byte_symbols c" and "FEC_MAX_N c = 55" and "k = 5 \<or> k = 50" and "locals_ok loc"
    and "stream_arrives c cls k gs" and "gs \<noteq> []"
    and "packet_ok x" and "tuple_class (fst x) = cls" and "tuple_K (fst x) = k" and "tuple_H (fst x) = 1" and "tuple_block (fst x) \<noteq> fst (last gs)"
  shows "\<exists>st' outs. decoder_run c loc (concat (map block_packets gs) @ [x]) decoder_init = Some (st', outs) \<and>
    carries_frames (concat (map snd outs)) (concat (map (delivered_block k) gs))"
proof -
  have "0 < k" using assms(3) by auto
  moreover have "class_state decoder_init cls 0 0 0 []" by (simp add: class_state_def decoder_init_def)
  ultimately show ?thesis using stream_end [OF assms(1-6) pending_init _ assms(7-11)] by simp
qed

theorem hls_decoder_delivers_stream_witness:
  "\<exists>pkts st' outs. length pkts = 5 \<and> decoder_run demo_h demo_locals (pkts @ [next_packet]) decoder_init = Some (st', outs) \<and>
    carries_frames (concat (map snd outs)) (map (\<lambda>x. frame_bytes (snd x)) demo_frames)"
proof -
  obtain pkts where g: "length pkts = 5" "group_arrives demo_h 0 1 5 2 (map (\<lambda>x. frame_bytes (snd x)) demo_frames) pkts" using demo_group by blast
  have "FEC_MAX_N demo_h = 55" by (simp add: demo_h_def)
  from hls_decoder_delivers_stream [OF demo_h_ok(1) this _ demo_locals_ok, of 5 0 "[(1, 2, map (\<lambda>x. frame_bytes (snd x)) demo_frames, pkts)]" next_packet]
  show ?thesis using g next_packet_ok
    by (intro exI [of _ pkts]) (simp add: block_arrives_def block_packets_def delivered_block_def delivered_def)
qed

text \<open>C2: The packet encoder and the packet decoder of the FPGA design together. The encoder is called with the five or fifty data packets of a group and once more;
  it emits one packet in each call. When these packets are tagged with what the encoder wrote to their headers and all but data packet \<open>i\<close> arrive at the decoder, followed by
  a packet of the next block, then the decoder emits frames with the bytes of the data packets that the encoder was given, including the lost one.\<close>

theorem hls_link_restores_group:
  assumes "byte_symbols c" and "FEC_MAX_N c = 55" and "k = 5 \<or> k = 50" and "i < k" and "locals_ok loc"
    and "group_params k 1 t" and "core_shape s" and "Packet_index s = 0" and "length xs = k" and "\<forall>x\<in>set xs. frame_fits (snd x)"
    and "core_run c t (xs @ [y]) s = Some (s', emitted)"
    and "length pkts = k" and "\<forall>l<k. carried cls blk k (emitted ! row_of i l) (pkts ! l)"
    and "packet_ok x" and "tuple_class (fst x) = cls" and "tuple_K (fst x) = k" and "tuple_H (fst x) = 1" and "tuple_block (fst x) \<noteq> blk"
  shows "\<exists>st' outs. decoder_run c loc (pkts @ [x]) decoder_init = Some (st', outs) \<and>
    carries_frames (concat (map snd outs)) (map (\<lambda>x. frame_bytes (snd x)) xs)"
proof -
  have k: "k \<le> 50" "i \<le> k" "xs \<noteq> []" using assms(3,4,9) by auto
  obtain outs hdr par where e: "emitted = outs @ [(hdr, par)]" "map snd outs = map snd xs"
    "\<And>j. j < k \<Longrightarrow> fst (outs ! j) = data_header j (frame_bytes (snd (xs ! j))) (fst (xs ! j))"
    "hdr_Packet_index hdr = of_nat k" "hdr_Packet_length hdr = of_nat (length (frame_bytes par) + FEC_HDR_WIDTH div 8)"
    "map gf (frame_bytes par) = parity_contents c 0 (map (\<lambda>x. frame_bytes (snd x)) xs)"
    using encoder_emits_group [OF assms(1,6-9) k(3) assms(10), of y] assms(11) by auto
  have "carried cls blk k ((outs @ [(hdr, par)]) ! row_of i l) (pkts ! l)" if "l < k" for l using assms(13) that unfolding e(1) by blast
  from group_on_link [OF k(1,2) e(2) assms(9,10) e(3-6) assms(12) this]
  have "group_arrives c cls blk k i (map (\<lambda>x. frame_bytes (snd x)) xs) pkts" .
  from link_group [OF assms(1-5) this assms(14-18)] show ?thesis .
qed

theorem hls_link_restores_group_witness:
  "\<exists>s' emitted pkts st' outs. core_run demo_h demo_params (demo_frames @ [hd demo_frames]) core_zero = Some (s', emitted) \<and>
    (\<forall>l<5. carried 0 1 5 (emitted ! row_of 2 l) (pkts ! l)) \<and> decoder_run demo_h demo_locals (pkts @ [next_packet]) decoder_init = Some (st', outs) \<and>
    carries_frames (concat (map snd outs)) (map (\<lambda>x. frame_bytes (snd x)) demo_frames)"
proof -
  obtain s' emitted pkts where g: "core_run demo_h demo_params (demo_frames @ [hd demo_frames]) core_zero = Some (s', emitted)" "length pkts = 5"
    "\<forall>l<5. carried 0 1 5 (emitted ! row_of 2 l) (pkts ! l)" using demo_group by blast
  have "FEC_MAX_N demo_h = 55" "group_params 5 1 demo_params" "Packet_index core_zero = 0"
    by (simp_all add: demo_h_def group_params_def demo_params_def FEC_MAX_H_def core_zero_def)
  then have "\<exists>st' outs. decoder_run demo_h demo_locals (pkts @ [next_packet]) decoder_init = Some (st', outs) \<and>
    carries_frames (concat (map snd outs)) (map (\<lambda>x. frame_bytes (snd x)) demo_frames)"
    using next_packet_ok by (intro hls_link_restores_group [OF demo_h_ok(1) _ _ _ demo_locals_ok _ core_shape_zero _ demo_frames_fit(2,1) g(1,2,3)]) simp_all
  with g show ?thesis by blast
qed

text \<open>C22: For other numbers of data packets and parity packets than those for which there are matrices, the decoding loop does not end: it runs over the end of
  the buffer, because the decoded length is zero and the loop looks for its last word too late. It ends by accident when the first packet of the
  block has fifteen to twenty-two bytes.\<close>

theorem hls_decode_unsupported_stalls:
  assumes "byte_symbols c" and "Command pars = COMMAND_DECODE" and "0 < tuple_K (Input_tuples pars)"
    and "\<not> (tuple_K (Input_tuples pars) = 5 \<and> tuple_H (Input_tuples pars) = 1)" and "\<not> (tuple_K (Input_tuples pars) = 50 \<and> tuple_H (Input_tuples pars) = 1)"
    and "unat (Bytes_per_packet Info) < 15 \<or> 22 < unat (Bytes_per_packet Info)"
  shows "Decode_packets c loc pars buffer indices lengths (Info # infos) = None"
proof -
  have "(unat (Bytes_per_packet Info) + 9) div 8 \<noteq> 3" using assms(6) by auto
  then have "decode_words c buffer lengths (replicate FEC_MAX_K 0) (tuple_K (Input_tuples pars)) 0 1024 1024 Info = None"
    by (intro decode_words_stall [OF refl]) (simp_all add: Matrix_multiply_word_zero [OF assms(1)])
  then show ?thesis using assms(2,3)
    by (simp add: Decode_packets_def Let_def decode_packet_def stream_read_def Lookup_unsupported [OF assms(4,5)] for_opt_first_None)
qed

theorem hls_decode_unsupported_stalls_witness:
  "Decode_packets demo_h demo_locals \<lparr>Input_tuples = link_tuple 8 1 0 90 2048, Command = COMMAND_DECODE, par_Packet_count = 8\<rparr>
     (replicate 50 (replicate 190 7)) (replicate 50 0) (replicate 50 80) (replicate 8 \<lparr>Data_packet = True, info_Packet_index = 0, Bytes_per_packet = 80, Original_type = 2048\<rparr>) = None"
  unfolding replicate_Suc numeral_eq_Suc [of "num.Bit0 (num.Bit0 (num.Bit0 num.One))"]
  by (rule hls_decode_unsupported_stalls [OF demo_h_ok(1)]) (simp_all add: link_tuple_def)

end
