(* ===== verification/Hc_Core.thy ===== *)
theory Hc_Core
  imports Hls_Pipeline
begin

text \<open>
  Header compression on the FPGA: \<^verbatim>\<open>FPGA/CompressorVivadoHLS/Compressor.cpp\<close> and the function \<open>Decompressor\<close> of \<^verbatim>\<open>FPGA/DecompressorVivadoHLS/Decompressor.cpp\<close>.
  A call gets the headers of one packet as a tuple and the words of the whole packet as a stream, and writes both again; behind the design the headers of the tuple replace the
  first bytes of the packet. The records of the two header files are merged: \<open>FEC\<close> exists in the compressor only, \<open>Cmp\<close> in the
  decompressor only, \<open>Fph\<close> unless \<open>NO_FLIGHTPLAN_HEADER\<close> is defined. A bit of one bit is a truth value.
\<close>

unbundle bit_operations_syntax

section \<open>Ranges of bits\<close>

definition rng :: "nat \<Rightarrow> nat \<Rightarrow> 'a::len word \<Rightarrow> 'b::len word" where
  \<comment> \<open>\<open>w.range(hi, lo)\<close>\<close>
  "rng hi lo w = ucast (take_bit (hi + 1 - lo) (drop_bit lo w))"

definition set_rng :: "nat \<Rightarrow> nat \<Rightarrow> 'b::len word \<Rightarrow> 'a::len word \<Rightarrow> 'a word" where
  \<comment> \<open>\<open>w.range(hi, lo) = v\<close>\<close>
  "set_rng hi lo v w = (w AND NOT (push_bit lo (mask (hi + 1 - lo)))) OR push_bit lo (take_bit (hi + 1 - lo) (ucast v))"

section \<open>Tuples\<close>

definition ETYPE_COMPRESSED_hls :: u16 where "ETYPE_COMPRESSED_hls = 0x1234"
definition ETH_HDR_LEN :: u16 where "ETH_HDR_LEN = 14"

record tuple_fph =
  fph_data :: "256 word"
  fph_Is_valid :: bool

record tuple_eth =
  eth_Type :: u16
  eth_Src :: "48 word"
  eth_Dst :: "48 word"
  eth_Is_valid :: bool

record tuple_fec =
  fec_Original_type :: u16
  fec_Packet_index :: u8
  fec_Block_index :: "5 word"
  fec_Traffic_class :: "3 word"
  fec_Is_valid :: bool

record tuple_ipv4 =
  dstAddr :: u32
  srcAddr :: u32
  hdrchecksum :: u16
  protocol :: u8
  ttl :: u8
  fragoffset :: "13 word"
  ip_flags :: "3 word"
  identification :: u16
  totallen :: u16
  diffserv :: u8
  ihl :: "4 word"
  version :: "4 word"
  ip_isValid :: bool

record tuple_tcp =
  urgent :: u16
  check :: u16
  window :: u16
  tcp_flags :: u16
  ack :: u32
  seq :: u32
  dport :: u16
  sport :: u16
  tcp_isValid :: bool

record tuple_cmp =
  cmp_urgent :: u16
  cmp_check :: u16
  cmp_window :: u16
  cmp_flags :: u16
  cmp_identification :: u16
  cmp_totallen :: u16
  cmp_pad :: "4 word"
  cmp_ackChange :: bool
  cmp_seqChange :: bool
  cmp_slotID :: "10 word"
  cmp_isValid :: bool

record hc_hdr =
  Cmp :: tuple_cmp
  Tcp :: tuple_tcp
  Ipv4 :: tuple_ipv4
  hc_FEC :: tuple_fec
  hc_Eth :: tuple_eth
  hc_Fph :: tuple_fph

record hc_tuples =
  \<comment> \<open>\<open>input_tuples\<close> and \<open>output_tuples\<close>, whose fields correspond\<close>
  hc_Control :: "22 word"
  hc_forward :: bool \<comment> \<open>\<open>CheckTcp\<close>\<close>
  hc_Hdr :: hc_hdr
  hc_Egress_port :: "4 word"
  hc_Ingress_port :: "4 word"
  hc_Local_state :: u16
  hc_Size :: u32 \<comment> \<open>\<open>Parser_extracts\<close>\<close>
  hc_Stateful_valid :: bool

record hc_compressedHeader =
  ch_slotID :: "10 word"
  ch_seqChange :: bool
  ch_ackChange :: bool
  ch_pad :: "4 word"
  ch_totallen :: u16
  ch_identification :: u16
  ch_flags :: u16
  ch_window :: u16
  ch_check :: u16
  ch_urgent :: u16

record hc_compressorTuple =
  ct_len :: u16
  ct_idx :: "10 word"
  ct_ipHeader :: tuple_ipv4
  ct_tcpHeader :: tuple_tcp

type_synonym hc_cache = "10 word \<Rightarrow> hc_compressorTuple"

definition zero_ipv4 :: tuple_ipv4 where
  "zero_ipv4 = \<lparr>dstAddr = 0, srcAddr = 0, hdrchecksum = 0, protocol = 0, ttl = 0, fragoffset = 0, ip_flags = 0, identification = 0, totallen = 0, diffserv = 0,
     ihl = 0, version = 0, ip_isValid = False\<rparr>"

definition zero_tcp :: tuple_tcp where
  "zero_tcp = \<lparr>urgent = 0, check = 0, window = 0, tcp_flags = 0, ack = 0, seq = 0, dport = 0, sport = 0, tcp_isValid = False\<rparr>"

definition hc_cache_init :: hc_cache where
  "hc_cache_init = (\<lambda>_. \<lparr>ct_len = 0, ct_idx = 0, ct_ipHeader = zero_ipv4, ct_tcpHeader = zero_tcp\<rparr>)"

section \<open>What both designs use\<close>

fun ejectPacket :: "packet_interface list \<Rightarrow> (packet_interface list \<times> packet_interface list) option" where
  \<comment> \<open>what is written, and the rest of the input\<close>
  "ejectPacket [] = None"
| "ejectPacket (data # ws) = (if pi_End_of_frame data then Some ([data], ws) else map_option (\<lambda>(out, rest). (data # out, rest)) (ejectPacket ws))"

definition crchash :: "tuple_ipv4 \<Rightarrow> tuple_tcp \<Rightarrow> 10 word" where
  "crchash ip tcp =
     (let temp = 0 :: u16;
          temp = temp XOR (rng 31 16 (srcAddr ip) XOR rng 15 0 (srcAddr ip));
          temp = temp XOR 0x8005;
          temp = temp XOR (rng 31 16 (dstAddr ip) XOR rng 15 0 (dstAddr ip));
          temp = set_rng 15 1 (rng 14 0 temp :: 15 word) temp;
          temp = set_rng 0 0 (0 :: 1 word) temp;
          temp = temp XOR sport tcp;
          temp = set_rng 14 0 (rng 15 1 temp :: 15 word) temp;
          temp = set_rng 15 15 (1 :: 1 word) temp;
          temp = temp XOR dport tcp
      in rng 9 0 temp)"

definition cur_tuple :: "hc_hdr \<Rightarrow> hc_compressorTuple" where
  \<comment> \<open>\<open>% CACHE_SZ\<close> does not change an index of ten bits\<close>
  "cur_tuple hdr = \<lparr>ct_len = ETH_HDR_LEN + totallen (Ipv4 hdr), ct_idx = crchash (Ipv4 hdr) (Tcp hdr), ct_ipHeader = Ipv4 hdr, ct_tcpHeader = Tcp hdr\<rparr>"

fun shift_words :: "bool \<Rightarrow> nat \<Rightarrow> packet_interface \<Rightarrow> packet_interface list \<Rightarrow> (packet_interface list \<times> packet_interface list) option" where
  \<comment> \<open>the loop over the payload and what follows it, with \<open>8 * s\<close> bits of each input word in the word that is written; the compressor copies \<open>Error\<close>, the decompressor does not\<close>
  "shift_words err s Temp [] = None"
| "shift_words err s Temp (packet # ws) =
     (let r = 8 - s in
      if \<not> pi_End_of_frame packet then
        let out = Temp\<lparr>pi_Data := set_rng (8 * s - 1) 0 (rng 63 (64 - 8 * s) (pi_Data packet) :: u64) (pi_Data Temp), pi_Error := if err then pi_Error packet else pi_Error Temp\<rparr>;
            next = out\<lparr>pi_Data := set_rng 63 (64 - 8 * r) (rng (8 * r - 1) 0 (pi_Data packet) :: u64) (pi_Data out)\<rparr>
        in map_option (\<lambda>(outs, rest). (out # outs, rest)) (shift_words err s next ws)
      else if pi_Count packet \<le> s then
        let n = pi_Count packet + r
        in Some ([Temp\<lparr>pi_Count := n, pi_Data := set_rng (8 * s - 1) (64 - 8 * n) (rng 63 (64 - 8 * pi_Count packet) (pi_Data packet) :: u64) (pi_Data Temp), pi_End_of_frame := True\<rparr>], ws)
      else
        let out = Temp\<lparr>pi_Count := 8, pi_Data := set_rng (8 * s - 1) 0 (rng 63 (64 - 8 * s) (pi_Data packet) :: u64) (pi_Data Temp), pi_End_of_frame := False\<rparr>;
            n = pi_Count packet - s
        in Some ([out, out\<lparr>pi_Count := n, pi_End_of_frame := True,
             pi_Data := set_rng 63 (64 - 8 * n) (rng (8 * r - 1) (64 - 8 * pi_Count packet) (pi_Data packet) :: u64) (pi_Data out)\<rparr>], ws))"

section \<open>Compression\<close>

definition hc_isHit :: "hc_compressorTuple \<Rightarrow> hc_compressorTuple \<Rightarrow> bool" where
  "hc_isHit lastPkt curPktTup \<longleftrightarrow> srcAddr (ct_ipHeader lastPkt) = srcAddr (ct_ipHeader curPktTup) \<and> dstAddr (ct_ipHeader lastPkt) = dstAddr (ct_ipHeader curPktTup) \<and>
     sport (ct_tcpHeader lastPkt) = sport (ct_tcpHeader curPktTup) \<and> dport (ct_tcpHeader lastPkt) = dport (ct_tcpHeader curPktTup)"

definition compressed_header :: "hc_compressorTuple \<Rightarrow> hc_compressorTuple \<Rightarrow> hc_compressedHeader" where
  "compressed_header lastPkt curPktTup =
     \<lparr>ch_slotID = ct_idx curPktTup,
      ch_seqChange = (seq (ct_tcpHeader lastPkt) \<noteq> seq (ct_tcpHeader curPktTup)),
      ch_ackChange = (ack (ct_tcpHeader lastPkt) \<noteq> ack (ct_tcpHeader curPktTup)),
      ch_pad = 0,
      ch_totallen = totallen (ct_ipHeader curPktTup), ch_identification = identification (ct_ipHeader curPktTup),
      ch_flags = tcp_flags (ct_tcpHeader curPktTup), ch_window = window (ct_tcpHeader curPktTup),
      ch_check = check (ct_tcpHeader curPktTup), ch_urgent = urgent (ct_tcpHeader curPktTup)\<rparr>"

definition put_compressed :: "hc_compressedHeader \<Rightarrow> hc_hdr \<Rightarrow> hc_hdr" where
  "put_compressed cHeader hdr =
     hdr\<lparr>hc_Eth := (hc_Eth hdr)\<lparr>eth_Type := ETYPE_COMPRESSED_hls\<rparr>,
         Ipv4 := (Ipv4 hdr)\<lparr>
           version := rng 9 6 (ch_slotID cHeader), ihl := rng 5 2 (ch_slotID cHeader),
           diffserv := set_rng 3 0 (ch_pad cHeader) (set_rng 4 4 (of_bool (ch_ackChange cHeader) :: 1 word) (set_rng 5 5 (of_bool (ch_seqChange cHeader) :: 1 word)
             (set_rng 7 6 (rng 1 0 (ch_slotID cHeader) :: 2 word) (diffserv (Ipv4 hdr))))),
           totallen := ch_totallen cHeader, identification := ch_identification cHeader,
           ip_flags := rng 15 13 (ch_flags cHeader), fragoffset := rng 12 0 (ch_flags cHeader),
           ttl := rng 15 8 (ch_window cHeader), protocol := rng 7 0 (ch_window cHeader),
           hdrchecksum := ch_check cHeader,
           srcAddr := set_rng 31 16 (ch_urgent cHeader) (srcAddr (Ipv4 hdr))\<rparr>\<rparr>"

definition put_optional :: "hc_compressedHeader \<Rightarrow> tuple_tcp \<Rightarrow> hc_hdr \<Rightarrow> hc_hdr" where
  "put_optional cHeader tcp hdr =
     (let ip = Ipv4 hdr in
      if ch_seqChange cHeader \<and> ch_ackChange cHeader then
        hdr\<lparr>Ipv4 := ip\<lparr>srcAddr := set_rng 15 0 (rng 31 16 (seq tcp) :: u16) (srcAddr ip),
              dstAddr := set_rng 15 0 (rng 31 16 (ack tcp) :: u16) (set_rng 31 16 (rng 15 0 (seq tcp) :: u16) (dstAddr ip))\<rparr>,
            Tcp := (Tcp hdr)\<lparr>sport := rng 15 0 (ack tcp)\<rparr>\<rparr>
      else if ch_seqChange cHeader \<and> \<not> ch_ackChange cHeader then
        hdr\<lparr>Ipv4 := ip\<lparr>srcAddr := set_rng 15 0 (rng 31 16 (seq tcp) :: u16) (srcAddr ip), dstAddr := set_rng 31 16 (rng 15 0 (seq tcp) :: u16) (dstAddr ip)\<rparr>\<rparr>
      else if \<not> ch_seqChange cHeader \<and> ch_ackChange cHeader then
        hdr\<lparr>Ipv4 := ip\<lparr>srcAddr := set_rng 15 0 (rng 31 16 (ack tcp) :: u16) (srcAddr ip), dstAddr := set_rng 31 16 (rng 15 0 (ack tcp) :: u16) (dstAddr ip)\<rparr>\<rparr>
      else hdr)"

definition optionalNum :: "hc_compressedHeader \<Rightarrow> nat" where
  "optionalNum cHeader = of_bool (ch_seqChange cHeader) + of_bool (ch_ackChange cHeader)"

definition shift_headers :: "nat \<Rightarrow> u64 \<Rightarrow> packet_interface list \<Rightarrow> hc_hdr \<Rightarrow> (hc_hdr \<times> u64 \<times> packet_interface list) option" where
  \<comment> \<open>the first bytes of the payload move to the fields behind the compressed header; also the last word that was read\<close>
  "shift_headers optional pktdata Packet_input hdr =
     (let ip = Ipv4 hdr; tcp = Tcp hdr in
      if optional = 2 then do {
        let tcp = tcp\<lparr>dport := rng 15 0 pktdata\<rparr>;
        (packet, Packet_input) \<leftarrow> stream_read Packet_input;
        let pktdata = pi_Data packet;
        let tcp = tcp\<lparr>seq := rng 63 32 pktdata, ack := rng 31 0 pktdata\<rparr>;
        (packet, Packet_input) \<leftarrow> stream_read Packet_input;
        let pktdata = pi_Data packet;
        let tcp = tcp\<lparr>tcp_flags := rng 63 48 pktdata, window := rng 47 32 pktdata, check := rng 31 16 pktdata, urgent := rng 15 0 pktdata\<rparr>;
        Some (hdr\<lparr>Tcp := tcp\<rparr>, pktdata, Packet_input)
      }
      else if optional = 1 then do {
        let ip = ip\<lparr>dstAddr := set_rng 15 0 (rng 15 0 pktdata :: u16) (dstAddr ip)\<rparr>;
        (packet, Packet_input) \<leftarrow> stream_read Packet_input;
        let pktdata = pi_Data packet;
        let tcp = tcp\<lparr>sport := rng 63 48 pktdata, dport := rng 47 32 pktdata, seq := rng 31 0 pktdata\<rparr>;
        (packet, Packet_input) \<leftarrow> stream_read Packet_input;
        let pktdata = pi_Data packet;
        let tcp = tcp\<lparr>ack := rng 63 32 pktdata, tcp_flags := rng 31 16 pktdata, window := rng 15 0 pktdata\<rparr>;
        (packet, Packet_input) \<leftarrow> stream_read Packet_input;
        let pktdata = pi_Data packet;
        let tcp = tcp\<lparr>check := rng 63 48 pktdata, urgent := rng 47 32 pktdata\<rparr>;
        Some (hdr\<lparr>Ipv4 := ip, Tcp := tcp\<rparr>, pktdata, Packet_input)
      }
      else do {
        let ip = ip\<lparr>srcAddr := set_rng 15 0 (rng 15 0 pktdata :: u16) (srcAddr ip)\<rparr>;
        (packet, Packet_input) \<leftarrow> stream_read Packet_input;
        let pktdata = pi_Data packet;
        let ip = ip\<lparr>dstAddr := rng 63 32 pktdata\<rparr>;
        let tcp = tcp\<lparr>sport := rng 31 16 pktdata, dport := rng 15 0 pktdata, seq := rng 31 0 pktdata\<rparr>;
        (packet, Packet_input) \<leftarrow> stream_read Packet_input;
        let pktdata = pi_Data packet;
        let tcp = tcp\<lparr>seq := rng 63 32 pktdata, ack := rng 31 0 pktdata\<rparr>;
        (packet, Packet_input) \<leftarrow> stream_read Packet_input;
        let pktdata = pi_Data packet;
        let tcp = tcp\<lparr>tcp_flags := rng 63 48 pktdata, window := rng 47 32 pktdata, check := rng 31 16 pktdata, urgent := rng 15 0 pktdata\<rparr>;
        Some (hdr\<lparr>Ipv4 := ip, Tcp := tcp\<rparr>, pktdata, Packet_input)
      })"

definition forward_payload :: "packet_interface \<Rightarrow> nat \<Rightarrow> u64 \<Rightarrow> packet_interface list \<Rightarrow> (packet_interface list \<times> packet_interface list) option" where
  \<comment> \<open>\<open>Temp0\<close> is what \<open>TempPacket\<close> contains before it is written\<close>
  "forward_payload Temp0 optional pktdata Packet_input =
     (let s = (if optional \<noteq> 1 then 2 else 6);
          first = Temp0\<lparr>pi_End_of_frame := False, pi_Start_of_frame := False, pi_Count := 8, pi_Data := set_rng 15 0 (rng 31 16 pktdata :: u16) (pi_Data Temp0)\<rparr>;
          (Temp1, out1) = (if optional \<noteq> 1 then (Temp0, []) else (first, [first]));
          r = 8 - s;
          Temp2 = Temp1\<lparr>pi_End_of_frame := False, pi_Start_of_frame := False,
            pi_Data := set_rng 63 (64 - 8 * r) (rng (8 * r - 1) 0 pktdata :: u64) (pi_Data Temp1), pi_Count := 8\<rparr>
      in map_option (\<lambda>(out, rest). (out1 @ out, rest)) (shift_words True s Temp2 Packet_input))"

fun copy_words :: "nat \<Rightarrow> packet_interface list \<Rightarrow> (packet_interface list \<times> packet_interface list) option" where
  \<comment> \<open>reading and writing so many words\<close>
  "copy_words 0 ws = Some ([], ws)"
| "copy_words (Suc n) ws = do { (packet, ws) \<leftarrow> stream_read ws; (out, rest) \<leftarrow> copy_words n ws; Some (packet # out, rest) }"

definition Compressor :: "bool \<Rightarrow> packet_interface \<Rightarrow> hc_tuples \<Rightarrow> packet_interface list \<Rightarrow> hc_cache \<Rightarrow>
    (hc_cache \<times> hc_tuples \<times> packet_interface list \<times> packet_interface list) option" where
  \<comment> \<open>the first argument: whether \<open>NO_FLIGHTPLAN_HEADER\<close> is defined; the result: cache, tuple, packet, and the rest of the input\<close>
  "Compressor no_fph Temp0 tuple_in Packet_input cache = do {
     (fph, Packet_input) \<leftarrow> copy_words (if no_fph then 0 else 4) Packet_input;
     let doCompress = (hc_Stateful_valid tuple_in \<and> 85 < totallen (Ipv4 (hc_Hdr tuple_in)));
     if \<not> doCompress then do {
       (out, rest) \<leftarrow> ejectPacket Packet_input;
       Some (cache, tuple_in, fph @ out, rest)
     }
     else do {
       let curPktTup = cur_tuple (hc_Hdr tuple_in);
       let lastPkt = cache (ct_idx curPktTup);
       if \<not> hc_isHit lastPkt curPktTup then do {
         (out, rest) \<leftarrow> ejectPacket Packet_input;
         Some (cache(ct_idx curPktTup := curPktTup), tuple_in, fph @ out, rest)
       }
       else do {
         let cHeader = compressed_header lastPkt curPktTup;
         let hdr = put_optional cHeader (ct_tcpHeader curPktTup) (put_compressed cHeader (hc_Hdr tuple_in));
         (head, Packet_input) \<leftarrow> copy_words 6 Packet_input;
         (packet, Packet_input) \<leftarrow> stream_read Packet_input;
         (hdr, pktdata, Packet_input) \<leftarrow> shift_headers (optionalNum cHeader) (pi_Data packet) Packet_input hdr;
         (out, rest) \<leftarrow> forward_payload Temp0 (optionalNum cHeader) pktdata Packet_input;
         Some (cache, tuple_in\<lparr>hc_Hdr := hdr\<rparr>, fph @ head @ out, rest)
       }
     }
   }"

definition ompressor :: "hc_tuples \<Rightarrow> packet_interface list \<Rightarrow> (hc_tuples \<times> packet_interface list \<times> packet_interface list) option" where
  \<comment> \<open>the design that changes nothing\<close>
  "ompressor tuple_in Packet_input = map_option (\<lambda>(out, rest). (tuple_in, out, rest)) (ejectPacket Packet_input)"

section \<open>Decompression\<close>

definition chksumcalc :: "tuple_ipv4 \<Rightarrow> u16" where
  "chksumcalc ip =
     (let Byte = set_rng 7 0 (diffserv ip) (set_rng 11 8 (ihl ip) (set_rng 15 12 (version ip) 0)) :: u16;
          temp = 0 + ucast Byte :: u32;
          temp = temp + ucast (totallen ip);
          temp = temp + ucast (identification ip);
          Byte = set_rng 12 0 (fragoffset ip) (set_rng 15 13 (ip_flags ip) Byte);
          temp = temp + ucast Byte;
          Byte = set_rng 7 0 (protocol ip) (set_rng 15 8 (ttl ip) Byte);
          temp = temp + ucast Byte;
          temp = temp + rng 31 16 (srcAddr ip) + rng 15 0 (srcAddr ip);
          temp = temp + rng 31 16 (dstAddr ip) + rng 15 0 (dstAddr ip);
          ans = rng 19 16 temp + rng 15 0 temp
      in NOT ans)"

definition restored_header :: "hc_compressorTuple \<Rightarrow> tuple_cmp \<Rightarrow> hc_hdr \<Rightarrow> hc_hdr" where
  "restored_header curPktTup cmp hdr =
     hdr\<lparr>Cmp := (Cmp hdr)\<lparr>cmp_isValid := False\<rparr>,
         hc_Eth := (hc_Eth hdr)\<lparr>eth_Type := 0x0800\<rparr>,
         Ipv4 := (ct_ipHeader curPktTup)\<lparr>identification := cmp_identification cmp, totallen := cmp_totallen cmp\<rparr>,
         Tcp := (ct_tcpHeader curPktTup)\<lparr>urgent := cmp_urgent cmp, tcp_flags := cmp_flags cmp, window := cmp_window cmp, check := cmp_check cmp\<rparr>\<rparr>"

definition read_optional :: "tuple_cmp \<Rightarrow> packet_interface \<Rightarrow> packet_interface list \<Rightarrow> tuple_tcp \<Rightarrow> (nat \<times> tuple_tcp \<times> packet_interface \<times> packet_interface list) option" where
  "read_optional cmp packet Packet_input tcp = do {
     let (optional_num, tcp) = (if cmp_seqChange cmp then (1 :: nat, tcp\<lparr>seq := rng 31 0 (pi_Data packet)\<rparr>) else (0, tcp));
     if cmp_ackChange cmp then do {
       (packet, Packet_input) \<leftarrow> (if optional_num \<noteq> 0 then stream_read Packet_input else Some (packet, Packet_input));
       Some (optional_num + 1, tcp\<lparr>ack := rng (31 + 32 * optional_num) (32 * optional_num) (pi_Data packet)\<rparr>, packet, Packet_input)
     }
     else Some (optional_num, tcp, packet, Packet_input)
   }"

definition restored_packet :: "nat \<Rightarrow> packet_interface \<Rightarrow> packet_interface list \<Rightarrow> (packet_interface list \<times> packet_interface list) option" where
  "restored_packet optional_num packet Packet_input = do {
     let out = \<lparr>pi_Error = False, pi_Count = 8, pi_Data = 0, pi_End_of_frame = False, pi_Start_of_frame = True\<rparr>;
     let blank = out\<lparr>pi_Start_of_frame := False\<rparr>;
     (packet, Packet_input) \<leftarrow> (if optional_num = 1 then stream_read Packet_input else Some (packet, Packet_input));
     let first = blank\<lparr>pi_Data := set_rng 15 0 (if optional_num = 1 then rng 63 48 (pi_Data packet) else rng 31 16 (pi_Data packet) :: u16) (pi_Data blank)\<rparr>;
     let remain = (if optional_num = 1 then 6 else 2);
     let carry = first\<lparr>pi_Data := set_rng 63 (64 - 8 * remain) (rng (8 * remain - 1) 0 (pi_Data packet) :: u64) (pi_Data first)\<rparr>;
     (outs, rest) \<leftarrow> shift_words False (8 - remain) carry Packet_input;
     Some (out # replicate 5 blank @ first # outs, rest)
   }"

definition Decompressor :: "hc_tuples \<Rightarrow> packet_interface list \<Rightarrow> hc_cache \<Rightarrow> (hc_cache \<times> hc_tuples \<times> packet_interface list \<times> packet_interface list) option" where
  "Decompressor tuple_in Packet_input cache = do {
     let hdr = hc_Hdr tuple_in;
     let valid = hc_Stateful_valid tuple_in;
     let doDecompress = (valid \<and> cmp_isValid (Cmp hdr));
     let cache = (if valid \<and> \<not> cmp_isValid (Cmp hdr) \<and> 85 < totallen (Ipv4 hdr) then cache(ct_idx (cur_tuple hdr) := cur_tuple hdr) else cache);
     if \<not> doDecompress then do {
       (out, rest) \<leftarrow> ejectPacket Packet_input;
       Some (cache, tuple_in, out, rest)
     }
     else do {
       let curPktTup = cache (cmp_slotID (Cmp hdr));
       let hdr' = restored_header curPktTup (Cmp hdr) hdr;
       (_, Packet_input) \<leftarrow> copy_words 3 Packet_input;
       (packet, Packet_input) \<leftarrow> stream_read Packet_input;
       (optional_num, tcp, packet, Packet_input) \<leftarrow> read_optional (Cmp hdr) packet Packet_input (Tcp hdr');
       let hdr' = hdr'\<lparr>Tcp := tcp\<rparr>;
       let hdr' = hdr'\<lparr>Ipv4 := (Ipv4 hdr')\<lparr>hdrchecksum := chksumcalc (Ipv4 hdr')\<rparr>\<rparr>;
       (out, rest) \<leftarrow> restored_packet optional_num packet Packet_input;
       Some (cache, tuple_in\<lparr>hc_Hdr := hdr', hc_Size := 0x1b0\<rparr>, out, rest)
     }
   }"

end
