(* ===== verification/Hc_Program.thy ===== *)
theory Hc_Program
  imports Hc_Core
begin

text \<open>
  The programs that run the header compression of the FPGA on captured frames, \<^verbatim>\<open>cpuBoosters/vjCompressor/hdrCompress.cpp\<close>, compiled with or without \<open>COMPRESSOR\<close> and always
  with \<open>NO_FLIGHTPLAN_HEADER\<close>. A frame is a function from offsets to bytes and a size, since the headers are read whatever the size. Numbers in memory have
  their least significant byte first.
\<close>

type_synonym memory = "nat \<Rightarrow> u8"

definition ETH_SIZE :: nat where "ETH_SIZE = (16 + 48 + 48) div 8"
definition UDP_SIZE :: nat where "UDP_SIZE = (16 + 16 + 16 + 16) div 8"
definition IPV4_SIZE :: nat where "IPV4_SIZE = (32 + 32 + 16 + 8 + 8 + 13 + 3 + 16 + 16 + 8 + 4 + 4) div 8"

section \<open>Numbers in memory\<close>

definition load_u64 :: "memory \<Rightarrow> nat \<Rightarrow> u64" where
  "load_u64 p a = fold (\<lambda>i w. w OR push_bit (8 * i) (ucast (p (a + i)))) [0..<8] 0"

definition mem_byte :: "u64 \<Rightarrow> nat \<Rightarrow> u8" where
  "mem_byte w i = ucast (drop_bit (8 * i) w)"

definition reverse_bytes :: "nat \<Rightarrow> u64 \<Rightarrow> u64" where
  \<comment> \<open>\<open>std::reverse\<close> on the first \<open>n\<close> bytes of a number\<close>
  "reverse_bytes n w = load_u64 (\<lambda>i. if i < n then mem_byte w (n - 1 - i) else mem_byte w i) 0"

section \<open>Copying fields\<close>

definition cp_in :: "nat \<Rightarrow> memory \<Rightarrow> nat \<times> nat \<Rightarrow> 'a::len word \<times> nat \<times> nat" where
  \<comment> \<open>a field of so many bits; the state is the address and \<open>in_offset\<close>\<close>
  "cp_in size_bits p = (\<lambda>(src, in_offset).
     let src_bits = load_u64 p src;
         src_bits = push_bit in_offset src_bits;
         src_bits = reverse_bytes ((size_bits + 8 - 1) div 8) src_bits;
         src_bits = drop_bit ((64 - size_bits) mod 8) src_bits
     in (ucast src_bits, src + (size_bits + in_offset) div 8, (size_bits + in_offset) mod 8))"

definition cp_out :: "int \<Rightarrow> nat \<Rightarrow> 'a::len word \<Rightarrow> memory \<times> nat \<times> nat \<Rightarrow> memory \<times> nat \<times> nat" where
  "cp_out flow size_bits src = (\<lambda>(p, dst, out_offset).
     let src_bits = ucast src :: u64;
         src_bits = reverse_bytes ((size_bits + 8 - 1) div 8) src_bits;
         src_bits = push_bit ((64 - (size_bits + out_offset)) mod 8) src_bits;
         p = for_loop 0 ((size_bits + out_offset + 7) div 8) (\<lambda>i p.
           if flow = 0 then
             if 0 < out_offset then p(dst + i := p (dst + i) OR mem_byte src_bits i) else p(dst + i := mem_byte src_bits i)
           else p(dst + i := p (dst + i) OR mem_byte src_bits i)) p
     in (p, dst + (size_bits + out_offset) div 8, (size_bits + out_offset) mod 8))"

definition transfer_eth :: "memory \<Rightarrow> tuple_eth \<Rightarrow> nat \<times> nat \<Rightarrow> tuple_eth \<times> nat \<times> nat" where
  "transfer_eth p eth s =
     (let (dst, s) = cp_in 48 p s; (src, s) = cp_in 48 p s; (type, s) = cp_in 16 p s
      in (eth\<lparr>eth_Dst := dst, eth_Src := src, eth_Type := type\<rparr>, s))"

definition transfer_ipv4 :: "memory \<Rightarrow> tuple_ipv4 \<Rightarrow> nat \<times> nat \<Rightarrow> tuple_ipv4 \<times> nat \<times> nat" where
  "transfer_ipv4 p ip s =
     (let (v, s) = cp_in 4 p s; (l, s) = cp_in 4 p s; (d, s) = cp_in 8 p s; (tot, s) = cp_in 16 p s; (ident, s) = cp_in 16 p s;
          (fl, s) = cp_in 3 p s; (fr, s) = cp_in 13 p s; (t, s) = cp_in 8 p s; (pr, s) = cp_in 8 p s; (ck, s) = cp_in 16 p s;
          (sa, s) = cp_in 32 p s; (da, s) = cp_in 32 p s
      in (ip\<lparr>version := v, ihl := l, diffserv := d, totallen := tot, identification := ident, ip_flags := fl, fragoffset := fr, ttl := t, protocol := pr,
            hdrchecksum := ck, srcAddr := sa, dstAddr := da\<rparr>, s))"

definition transfer_tcp :: "memory \<Rightarrow> tuple_tcp \<Rightarrow> nat \<times> nat \<Rightarrow> tuple_tcp \<times> nat \<times> nat" where
  "transfer_tcp p tcp s =
     (let (sp, s) = cp_in 16 p s; (dp, s) = cp_in 16 p s; (sq, s) = cp_in 32 p s; (ak, s) = cp_in 32 p s;
          (fl, s) = cp_in 16 p s; (w, s) = cp_in 16 p s; (ck, s) = cp_in 16 p s; (u, s) = cp_in 16 p s
      in (tcp\<lparr>sport := sp, dport := dp, seq := sq, ack := ak, tcp_flags := fl, window := w, check := ck, urgent := u, tcp_isValid := True\<rparr>, s))"

definition transfer_cmp :: "memory \<Rightarrow> tuple_cmp \<Rightarrow> nat \<times> nat \<Rightarrow> tuple_cmp \<times> nat \<times> nat" where
  "transfer_cmp p cmp s =
     (let (slot, s) = cp_in 10 p s; (sc, s) = cp_in 1 p s; (ac, s) = cp_in 1 p s; (pad, s) = cp_in 4 p s; (tot, s) = cp_in 16 p s; (ident, s) = cp_in 16 p s;
          (fl, s) = cp_in 16 p s; (w, s) = cp_in 16 p s; (ck, s) = cp_in 16 p s; (u, s) = cp_in 16 p s
      in (cmp\<lparr>cmp_slotID := slot, cmp_seqChange := (sc \<noteq> (0 :: 1 word)), cmp_ackChange := (ac \<noteq> (0 :: 1 word)), cmp_pad := pad, cmp_totallen := tot,
            cmp_identification := ident, cmp_flags := fl, cmp_window := w, cmp_check := ck, cmp_urgent := u, cmp_isValid := True\<rparr>, s))"

definition transfer_in :: "bool \<Rightarrow> memory \<Rightarrow> hc_hdr \<Rightarrow> nat \<Rightarrow> hc_hdr \<times> nat" where
  \<comment> \<open>the first argument: whether \<open>COMPRESSOR\<close> is defined; the second result is \<open>in_offset\<close> afterwards\<close>
  "transfer_in compressor p hdr in_offset =
     (let (eth, s) = transfer_eth p (hc_Eth hdr) (0, in_offset); hdr = hdr\<lparr>hc_Eth := eth\<rparr> in
      if eth_Type eth = 0x0800 then
        let (ip, s) = transfer_ipv4 p (Ipv4 hdr) s; (tcp, s) = transfer_tcp p (Tcp hdr) s in (hdr\<lparr>Ipv4 := ip, Tcp := tcp\<rparr>, snd s)
      else if eth_Type eth = 0x1234 \<and> \<not> compressor then
        let (cmp, s) = transfer_cmp p (Cmp hdr) s in (hdr\<lparr>Cmp := cmp\<rparr>, snd s)
      else (hdr, snd s))"

definition transfer_out :: "int \<Rightarrow> hc_hdr \<Rightarrow> memory \<Rightarrow> nat \<Rightarrow> memory \<times> nat" where
  "transfer_out flow hdr p out_offset =
     (let s = (p, 0, out_offset); eth = hc_Eth hdr; ip = Ipv4 hdr; tcp = Tcp hdr;
          s = cp_out flow 48 (eth_Dst eth) s; s = cp_out flow 48 (eth_Src eth) s; s = cp_out flow 16 (eth_Type eth) s;
          s = cp_out flow 4 (version ip) s; s = cp_out flow 4 (ihl ip) s; s = cp_out flow 8 (diffserv ip) s; s = cp_out flow 16 (totallen ip) s;
          s = cp_out flow 16 (identification ip) s; s = cp_out flow 3 (ip_flags ip) s; s = cp_out flow 13 (fragoffset ip) s; s = cp_out flow 8 (ttl ip) s;
          s = cp_out flow 8 (protocol ip) s; s = cp_out flow 16 (hdrchecksum ip) s; s = cp_out flow 32 (srcAddr ip) s; s = cp_out flow 32 (dstAddr ip) s;
          s = cp_out flow 16 (sport tcp) s; s = cp_out flow 16 (dport tcp) s; s = cp_out flow 32 (seq tcp) s; s = cp_out flow 32 (ack tcp) s;
          s = cp_out flow 16 (tcp_flags tcp) s; s = cp_out flow 16 (window tcp) s; s = cp_out flow 16 (check tcp) s; s = cp_out flow 16 (urgent tcp) s
      in (fst s, snd (snd s)))"

section \<open>Frames and streams\<close>

definition frame_word :: "memory \<Rightarrow> nat \<Rightarrow> nat \<Rightarrow> u64" where
  "frame_word packet packet_size i =
     for_loop 0 8 (\<lambda>j word. let word = push_bit 8 word; offset = 8 * i + j in
       if offset < packet_size then word OR ucast (packet offset) else word) 0"

definition frame_input :: "memory \<Rightarrow> nat \<Rightarrow> nat \<Rightarrow> packet_interface" where
  "frame_input packet packet_size i =
     (let at_end = (Suc i = (packet_size + 8 - 1) div 8); Count = packet_size mod 8
      in \<lparr>pi_Error = False, pi_Count = (if Count = 0 \<or> \<not> at_end then 8 else Count), pi_Data = frame_word packet packet_size i,
          pi_End_of_frame = at_end, pi_Start_of_frame = (i = 0)\<rparr>)"

definition frame_stream :: "memory \<Rightarrow> nat \<Rightarrow> packet_interface list" where
  "frame_stream packet packet_size = map (frame_input packet packet_size) [0..<(packet_size + 8 - 1) div 8]"

fun read_output :: "packet_interface list \<Rightarrow> u8 list option" where
  \<comment> \<open>the loop that fills \<open>output_packet\<close>\<close>
  "read_output [] = None"
| "read_output (output # ws) =
     (let bytes = map (data_byte (pi_Data output)) [0..<pi_Count output]
      in if pi_End_of_frame output then Some bytes else map_option ((@) bytes) (read_output ws))"

definition emit_frame :: "int \<Rightarrow> memory \<Rightarrow> hc_tuples \<Rightarrow> packet_interface list \<Rightarrow> nat \<Rightarrow> (u8 list \<times> nat) option" where
  \<comment> \<open>the frame that is forwarded, and \<open>out_offset\<close>. Behind a buffer of 2048 bytes, and when another tuple is awaited, there is no result.\<close>
  "emit_frame flow buf out_tuple out out_offset = do {
     bytes \<leftarrow> read_output out;
     if 2048 < length bytes then None else do {
       let output_packet = (\<lambda>i. if i < length bytes then bytes ! i else buf i);
       let (output_packet, out_offset) = transfer_out flow (hc_Hdr out_tuple) output_packet out_offset;
       if hc_forward out_tuple then None else Some (map output_packet [0..<length bytes], out_offset)
     }
   }"

section \<open>The programs\<close>

record hc_state =
  st_in_offset :: nat
  st_out_offset :: nat
  st_cache :: hc_cache

definition hc_init :: hc_state where
  "hc_init = \<lparr>st_in_offset = 0, st_out_offset = 0, st_cache = hc_cache_init\<rparr>"

record hc_locals =
  \<comment> \<open>local variables before they are written: what a call finds on the stack\<close>
  loc_tuple :: hc_tuples
  loc_Temp :: packet_interface
  loc_output_packet :: memory

definition input_of :: "hc_hdr \<Rightarrow> hc_tuples \<Rightarrow> hc_tuples" where
  "input_of hdr t = t\<lparr>hc_Hdr := hdr, hc_Stateful_valid := True, hc_Egress_port := 0, hc_Ingress_port := 0, hc_Local_state := 0, hc_Size := 0, hc_forward := False\<rparr>"

definition call_compressor :: "hc_locals \<Rightarrow> int \<Rightarrow> memory \<Rightarrow> nat \<Rightarrow> hc_state \<Rightarrow> (hc_state \<times> u8 list list) option" where
  \<comment> \<open>the frames that are forwarded; \<open>output_packet\<close> is cleared first\<close>
  "call_compressor loc flow packet packet_size st =
     (if packet_size < ETH_SIZE + UDP_SIZE + IPV4_SIZE then Some (st, [])
      else do {
        let (hdr, in_offset) = transfer_in True packet (hc_Hdr (loc_tuple loc)) (st_in_offset st);
        (cache, out_tuple, out, rest) \<leftarrow> Compressor True (loc_Temp loc) (input_of hdr (loc_tuple loc)) (frame_stream packet packet_size) (st_cache st);
        (frame, out_offset) \<leftarrow> emit_frame flow (\<lambda>_. 0) out_tuple out (st_out_offset st);
        Some (\<lparr>st_in_offset = in_offset, st_out_offset = out_offset, st_cache = cache\<rparr>, [frame])
      })"

definition call_decompressor :: "hc_locals \<Rightarrow> int \<Rightarrow> memory \<Rightarrow> nat \<Rightarrow> hc_state \<Rightarrow> (hc_state \<times> u8 list list) option" where
  "call_decompressor loc flow packet packet_size st =
     (if packet_size < ETH_SIZE + UDP_SIZE + IPV4_SIZE then Some (st, [])
      else do {
        let (hdr, in_offset) = transfer_in False packet (hc_Hdr (loc_tuple loc)) (st_in_offset st);
        (cache, out_tuple, out, rest) \<leftarrow> Decompressor (input_of hdr (loc_tuple loc)) (frame_stream packet packet_size) (st_cache st);
        (frame, out_offset) \<leftarrow> emit_frame flow (loc_output_packet loc) out_tuple out (st_out_offset st);
        Some (\<lparr>st_in_offset = in_offset, st_out_offset = out_offset, st_cache = cache\<rparr>, [frame])
      })"

definition in_buffer :: "memory \<Rightarrow> u8 list \<Rightarrow> memory" where
  \<comment> \<open>a captured frame and what lies behind it\<close>
  "in_buffer beyond f = (\<lambda>i. if i < length f then f ! i else beyond i)"

fun hc_loop :: "(hc_locals \<Rightarrow> memory \<Rightarrow> nat \<Rightarrow> hc_state \<Rightarrow> (hc_state \<times> u8 list list) option) \<Rightarrow> (nat \<Rightarrow> hc_locals) \<Rightarrow> (nat \<Rightarrow> memory) \<Rightarrow>
    u8 list list \<Rightarrow> hc_state \<Rightarrow> (hc_state \<times> u8 list list) option" where
  \<comment> \<open>\<open>pcap_loop\<close> with the handler of the program, for the frames that are captured; every call finds local variables and a memory behind its frame of its own\<close>
  "hc_loop handler loc beyond [] st = Some (st, [])"
| "hc_loop handler loc beyond (f # fs) st = do {
     (st, out) \<leftarrow> handler (loc 0) (in_buffer (beyond 0) f) (length f) st;
     (st, outs) \<leftarrow> hc_loop handler (\<lambda>i. loc (Suc i)) (\<lambda>i. beyond (Suc i)) fs st;
     Some (st, out @ outs)
   }"

record hc_options =
  if_name :: "string option"
  oif_name :: "string option"
  opt_flow :: int

primrec hc_main_options :: "(string \<Rightarrow> int) \<Rightarrow> (char \<times> string) list \<Rightarrow> hc_options \<Rightarrow> hc_options option" where
  \<comment> \<open>the options in their order, with \<open>atoi\<close>; any other ends with \<open>abort\<close>\<close>
  "hc_main_options atoi [] os = Some os"
| "hc_main_options atoi (oa # oas) os =
     (let (opt, optarg) = oa in
      if opt = CHR ''i'' then hc_main_options atoi oas (os\<lparr>if_name := Some optarg\<rparr>)
      else if opt = CHR ''o'' then hc_main_options atoi oas (os\<lparr>oif_name := Some optarg\<rparr>)
      else if opt = CHR ''f'' then hc_main_options atoi oas (os\<lparr>opt_flow := atoi optarg\<rparr>)
      else None)"

datatype hc_exit = Hc_abort | Hc_exit nat | Hc_stuck \<comment> \<open>the handler has no result\<close>

definition hc_main :: "bool \<Rightarrow> (string \<Rightarrow> int) \<Rightarrow> (string option \<Rightarrow> bool) \<Rightarrow> (nat \<Rightarrow> hc_locals) \<Rightarrow> (nat \<Rightarrow> memory) \<Rightarrow> (char \<times> string) list \<Rightarrow> u8 list list \<Rightarrow>
    hc_exit + bool \<times> u8 list list" where
  \<comment> \<open>whether \<open>COMPRESSOR\<close> is defined, \<open>atoi\<close>, for which interfaces \<open>pcap_open_live\<close> succeeds, and what each call finds in memory; the flag of the result: whether frames leave by an interface of their own\<close>
  "hc_main compressor atoi pcap_open loc beyond opts fs =
     (case hc_main_options atoi opts \<lparr>if_name = None, oif_name = None, opt_flow = 0\<rparr> of
        None \<Rightarrow> Inl Hc_abort
      | Some os \<Rightarrow>
          if \<not> pcap_open (if_name os) then Inl (Hc_exit 1)
          else
            let output_handle = (oif_name os \<noteq> None \<and> pcap_open (oif_name os)) in
            if opt_flow os = 0 then
              if \<not> compressor then Inl (Hc_exit 1)
              else (case hc_loop (\<lambda>l. call_compressor l 0) loc beyond fs hc_init of None \<Rightarrow> Inl Hc_stuck | Some (_, out) \<Rightarrow> Inr (output_handle, out))
            else if opt_flow os = 1 then
              if compressor then Inl (Hc_exit 1)
              else (case hc_loop (\<lambda>l. call_decompressor l 1) loc beyond fs hc_init of None \<Rightarrow> Inl Hc_stuck | Some (_, out) \<Rightarrow> Inr (output_handle, out))
            else Inl (Hc_exit 1))"

end
