(* ===== verification/Hc_Bytes.thy ===== *)
theory Hc_Bytes
  imports Hc_Program
begin

text \<open>
  Headers as bytes: what copying fields from and to memory does to the bytes, bit by bit, and the headers of a tuple as 54 bytes.
\<close>

section \<open>Bits\<close>

lemma bit_rng: "bit (rng hi lo w :: 'b::len word) n \<longleftrightarrow> n < LENGTH('b) \<and> n < hi + 1 - lo \<and> bit w (lo + n)"
  by (auto simp: rng_def bit_unsigned_iff bit_take_bit_iff bit_drop_bit_eq)

lemma bit_set_rng:
  fixes w :: "'a::len word" and v :: "'b::len word"
  assumes "lo \<le> hi"
  shows "bit (set_rng hi lo v w) n \<longleftrightarrow> n < LENGTH('a) \<and> (if lo \<le> n \<and> n \<le> hi then bit v (n - lo) else bit w n)"
  using assms
  by (auto simp: set_rng_def bit_or_iff bit_and_iff bit_not_iff bit_push_bit_iff bit_mask_iff bit_take_bit_iff bit_unsigned_iff possible_bit_word
      dest: bit_imp_le_length)

lemma bit_load_u64: "bit (load_u64 p a) n \<longleftrightarrow> n < 64 \<and> bit (p (a + n div 8)) (n mod 8)"
proof -
  have "bit (fold (\<lambda>i w. w OR push_bit (8 * i) (ucast (p (a + i)))) [0..<m] (0 :: u64)) n \<longleftrightarrow> n < 8 * m \<and> bit (p (a + n div 8)) (n mod 8)" if "m \<le> 8" for m
    using that
  proof (induction m)
    case (Suc m)
    have "bit (push_bit (8 * m) (ucast (p (a + m)) :: u64)) n \<longleftrightarrow> 8 * m \<le> n \<and> n < 8 * Suc m \<and> bit (p (a + n div 8)) (n mod 8)"
    proof (cases "8 * m \<le> n \<and> n < 8 * Suc m")
      case True
      then have q: "n div 8 = m" by (simp add: div_nat_eqI)
      then have "n mod 8 = n - 8 * m" by (simp add: modulo_nat_def)
      moreover have "n - 8 * m < 64" using True by auto
      ultimately have q: "n div 8 = m" "n mod 8 = n - 8 * m" "n - 8 * m < 64" using q by simp_all
      then show ?thesis using True Suc.prems q by (simp add: bit_push_bit_iff bit_unsigned_iff)
    qed (auto simp: bit_push_bit_iff bit_unsigned_iff dest: bit_imp_le_length)
    then show ?case using Suc by (auto simp: bit_or_iff)
  qed simp
  from this [of 8] show ?thesis by (simp add: load_u64_def)
qed

lemma bit_mem_byte: "bit (mem_byte w i) n \<longleftrightarrow> n < 8 \<and> bit w (8 * i + n)"
  by (simp add: mem_byte_def bit_unsigned_iff bit_drop_bit_eq)

lemma bit_reverse_bytes:
  "bit (reverse_bytes n w) b \<longleftrightarrow> b < 64 \<and> bit w (if b div 8 < n then 8 * (n - 1 - b div 8) + b mod 8 else b)"
  by (simp add: reverse_bytes_def bit_load_u64 bit_mem_byte)

section \<open>Reading fields\<close>

definition be :: "nat \<Rightarrow> memory \<Rightarrow> nat \<Rightarrow> 'a::len word" where
  \<comment> \<open>a number of \<open>n\<close> bytes, the most significant one first\<close>
  "be n p a = fold (\<lambda>i w. push_bit 8 w OR ucast (p (a + i))) [0..<n] 0"

lemma bit_be: "bit (be n p a :: 'a::len word) b \<longleftrightarrow> b < LENGTH('a) \<and> b < 8 * n \<and> bit (p (a + (n - 1 - b div 8))) (b mod 8)"
proof (induction n arbitrary: b)
  case (Suc n)
  show ?case
  proof (cases "b < 8")
    case True
    then show ?thesis by (simp add: be_def bit_or_iff bit_push_bit_iff bit_unsigned_iff)
  next
    case False
    then have q: "b div 8 = Suc ((b - 8) div 8)" "(b - 8) mod 8 = b mod 8" by (simp_all add: le_div_geq le_mod_geq)
    have "bit (be (Suc n) p a :: 'a word) b \<longleftrightarrow> b < LENGTH('a) \<and> bit (be n p a :: 'a word) (b - 8)"
      using False by (auto simp: be_def bit_or_iff bit_push_bit_iff bit_unsigned_iff dest: bit_imp_le_length)
    then show ?thesis using False by (auto simp: Suc.IH q)
  qed
qed (simp add: be_def)

lemma bit_cp_in:
  fixes size_bits off b :: nat and p :: memory
  defines "n \<equiv> (size_bits + 7) div 8" and "c \<equiv> b + (64 - size_bits) mod 8"
  defines "m \<equiv> 8 * (n - 1 - c div 8) + c mod 8"
  assumes "c div 8 < n" and "n \<le> 8"
  shows "bit (fst (cp_in size_bits p (a, off)) :: 'a::len word) b \<longleftrightarrow> b < LENGTH('a) \<and> off \<le> m \<and> bit (p (a + (m - off) div 8)) ((m - off) mod 8)"
proof -
  define q where "q = c div 8"
  have q: "q < n" "c mod 8 < 8" "c = 8 * q + c mod 8" using assms(4) by (simp_all add: q_def)
  have c: "c < 64" using q assms(5) by linarith
  have "n - 1 - q \<le> 7" using assms(5) by simp
  then have m: "m < 64" unfolding m_def q_def [symmetric] using q(2) by linarith
  have n: "(size_bits + 8 - 1) div 8 = n" by (simp add: n_def)
  have "bit (fst (cp_in size_bits p (a, off)) :: 'a word) b \<longleftrightarrow> b < LENGTH('a) \<and> bit (push_bit off (load_u64 p a)) m"
    using c assms(4) unfolding cp_in_def prod.case Let_def fst_conv n
    by (simp add: bit_unsigned_iff bit_drop_bit_eq bit_reverse_bytes c_def [symmetric] add.commute [of _ b] m_def)
  then show ?thesis using m by (auto simp: bit_push_bit_iff bit_load_u64)
qed

lemma cp_in_bytes:
  assumes "1 \<le> n" and "n \<le> 8" and "LENGTH('a::len) = 8 * n"
  shows "cp_in (8 * n) p (a, 0) = (be n p a :: 'a word, a + n, 0)"
proof -
  have n: "(8 * n + 7) div 8 = n" by simp
  have z: "(64 - 8 * n) mod 8 = 0" using assms(2) by (simp add: mod_eq_0_iff_dvd dvd_diff_nat)
  have "bit (fst (cp_in (8 * n) p (a, 0)) :: 'a word) b = bit (be n p a :: 'a word) b" if "b < LENGTH('a)" for b
  proof -
    have q: "b div 8 < n" using that assms(3) by (simp add: less_mult_imp_div_less mult.commute)
    then show ?thesis using bit_cp_in [of b "8 * n" p a 0, where ?'a = 'a] assms that by (simp add: z bit_be)
  qed
  then have "fst (cp_in (8 * n) p (a, 0)) = (be n p a :: 'a word)" by (intro bit_word_eqI)
  then show ?thesis by (auto simp: cp_in_def Let_def)
qed

lemma cp_in_small:
  assumes "1 \<le> k" and "k + off \<le> 8" and "LENGTH('a::len) = k"
  shows "cp_in k p (a, off) = (ucast (drop_bit (8 - (k + off)) (p a)) :: 'a word, a + (k + off) div 8, (k + off) mod 8)"
proof -
  have n: "(k + 7) div 8 = 1" using assms(1,2) by auto
  have "64 - k = 8 * 7 + (8 - k)" using assms(2) by simp
  then have z: "(64 - k) mod 8 = (8 - k) mod 8" by (simp only: mod_mult_self4)
  have "bit (fst (cp_in k p (a, off)) :: 'a word) b = bit (ucast (drop_bit (8 - (k + off)) (p a)) :: 'a word) b" if "b < LENGTH('a)" for b
  proof -
    have c: "b + (64 - k) mod 8 < 8" using that assms unfolding z by (cases "k = 8") auto
    have m: "b + (64 - k) mod 8 - off = 8 - (k + off) + b" "off \<le> b + (64 - k) mod 8" using that assms unfolding z by (cases "k = 8"; simp)+
    moreover have "8 - (k + off) + b < 8" using that assms by linarith
    ultimately show ?thesis using bit_cp_in [of b k p a off, where ?'a = 'a] c n that by (simp add: bit_unsigned_iff bit_drop_bit_eq)
  qed
  then have "fst (cp_in k p (a, off)) = (ucast (drop_bit (8 - (k + off)) (p a)) :: 'a word)" by (intro bit_word_eqI)
  then show ?thesis by (auto simp: cp_in_def Let_def)
qed

lemma cp_in_fragoffset:
  \<comment> \<open>three bits of a fragment offset are lost\<close>
  "cp_in 13 p (a, 3) = (ucast (p (a + 1) AND 0x1F) OR push_bit 8 (ucast (p a AND 0x1F)) :: 13 word, a + 2, 0)"
proof -
  have F: "(0x1F :: u8) = mask 5" by (simp add: mask_eq_exp_minus_1)
  have "bit (fst (cp_in 13 p (a, 3)) :: 13 word) b = bit (ucast (p (a + 1) AND 0x1F) OR push_bit 8 (ucast (p a AND 0x1F)) :: 13 word) b" if "b < LENGTH(13)" for b
  proof -
    from that consider "b < 5" | "5 \<le> b" "b < 8" | "8 \<le> b" "b < 13" by fastforce
    then show ?thesis
    proof cases
      case 1
      then have "(8 + b) div 8 = 1" by (simp add: div_nat_eqI)
      then show ?thesis using 1 bit_cp_in [of b 13 p a 3, where ?'a = 13] by (simp add: F bit_or_iff bit_push_bit_iff bit_unsigned_iff bit_and_iff bit_mask_iff)
    next
      case 2
      then have "(b + 3) div 8 = 1" "(b + 3) mod 8 = b - 5" by (simp_all add: div_nat_eqI mod_nat_eqI)
      then show ?thesis using 2 bit_cp_in [of b 13 p a 3, where ?'a = 13] by (auto simp: F bit_or_iff bit_push_bit_iff bit_unsigned_iff bit_and_iff bit_mask_iff)
    next
      case 3
      then have "(b + 3) div 8 = 1" "(b + 3) mod 8 = b - 5" by (simp_all add: div_nat_eqI mod_nat_eqI)
      then show ?thesis using 3 bit_cp_in [of b 13 p a 3, where ?'a = 13]
        by (auto simp: F bit_or_iff bit_push_bit_iff bit_unsigned_iff bit_and_iff bit_mask_iff dest: bit_imp_le_length)
    qed
  qed
  then have "fst (cp_in 13 p (a, 3)) = (ucast (p (a + 1) AND 0x1F) OR push_bit 8 (ucast (p a AND 0x1F)) :: 13 word)" by (intro bit_word_eqI)
  then show ?thesis by (auto simp: cp_in_def Let_def)
qed

lemma cp_in_slotID: "cp_in 10 p (a, 0) = (ucast (drop_bit 6 (p (a + 1))) OR push_bit 2 (ucast (p a)) :: 10 word, a + 1, 2)"
proof -
  have "bit (fst (cp_in 10 p (a, 0)) :: 10 word) b = bit (ucast (drop_bit 6 (p (a + 1))) OR push_bit 2 (ucast (p a)) :: 10 word) b" if "b < LENGTH(10)" for b
  proof (cases "b < 2")
    case True
    then have "(14 + b) div 8 = 1" "(14 + b) mod 8 = 6 + b" by (simp_all add: div_nat_eqI mod_nat_eqI)
    then show ?thesis using True bit_cp_in [of b 10 p a 0, where ?'a = 10] by (simp add: bit_or_iff bit_push_bit_iff bit_unsigned_iff bit_drop_bit_eq)
  next
    case False
    then have "(b + 6) div 8 = 1" "(b + 6) mod 8 = b - 2" using that by (simp_all add: div_nat_eqI mod_nat_eqI)
    then show ?thesis using False that bit_cp_in [of b 10 p a 0, where ?'a = 10]
      by (auto simp: bit_or_iff bit_push_bit_iff bit_unsigned_iff bit_drop_bit_eq dest: bit_imp_le_length)
  qed
  then have "fst (cp_in 10 p (a, 0)) = (ucast (drop_bit 6 (p (a + 1))) OR push_bit 2 (ucast (p a)) :: 10 word)" by (intro bit_word_eqI)
  then show ?thesis by (auto simp: cp_in_def Let_def)
qed

section \<open>Writing fields\<close>

definition put_bytes :: "int \<Rightarrow> memory \<Rightarrow> nat \<Rightarrow> u8 list \<Rightarrow> memory" where
  "put_bytes flow p a bs = (\<lambda>i. if a \<le> i \<and> i < a + length bs then if flow = 0 then bs ! (i - a) else p i OR bs ! (i - a) else p i)"

lemma put_bytes_append: "put_bytes flow (put_bytes flow p a bs) (a + length bs) cs = put_bytes flow p a (bs @ cs)"
  by (rule ext) (auto simp: put_bytes_def nth_append)

definition be_bytes :: "nat \<Rightarrow> 'a::len word \<Rightarrow> u8 list" where
  "be_bytes n w = map (\<lambda>i. ucast (drop_bit (8 * (n - 1 - i)) w)) [0..<n]"

lemma length_be_bytes [simp]: "length (be_bytes n w) = n"
  by (simp add: be_bytes_def)

lemma be_bytes_be:
  assumes "LENGTH('a::len) = 8 * n"
  shows "be_bytes n (be n p a :: 'a word) = map (\<lambda>i. p (a + i)) [0..<n]"
proof (rule nth_equalityI)
  fix i assume "i < length (be_bytes n (be n p a :: 'a word))"
  then have i: "i < n" by simp
  have "bit (be_bytes n (be n p a :: 'a word) ! i) b = bit (p (a + i)) b" if "b < LENGTH(8)" for b
  proof -
    have b: "b < 8" using that by simp
    have "8 * (n - 1 - i) + b < 8 * n" using i b by simp
    moreover have "n - 1 - (n - 1 - i) = i" using i by simp
    ultimately show ?thesis using i b assms by (simp add: be_bytes_def bit_unsigned_iff bit_drop_bit_eq bit_be)
  qed
  then show "be_bytes n (be n p a :: 'a word) ! i = map (\<lambda>i. p (a + i)) [0..<n] ! i" using i by (intro bit_word_eqI) simp
qed simp

lemma store_loop:
  "for_loop 0 n (\<lambda>i p. p(d + i := f (p (d + i)) i)) p = (\<lambda>x. if d \<le> x \<and> x < d + n then f (p x) (x - d) else p x)"
  by (induction n) (auto simp: for_loop_Suc fun_eq_iff)

lemma cp_out_bytes:
  fixes v :: "'a::len word"
  assumes "1 \<le> n" and "n \<le> 8"
  shows "cp_out flow (8 * n) v (p, a, 0) = (put_bytes flow p a (be_bytes n v), a + n, 0)"
proof -
  have n: "(8 * n + 8 - 1) div 8 = n" "(8 * n + 0 + 7) div 8 = n" "(8 * n + 0) div 8 = n" "(8 * n + 0) mod 8 = 0" by simp_all
  have z: "(64 - (8 * n + 0)) mod 8 = 0" using assms(2) by (simp add: mod_eq_0_iff_dvd dvd_diff_nat)
  have m: "mem_byte (reverse_bytes n (ucast v)) i = be_bytes n v ! i" if "i < n" for i
  proof (rule bit_word_eqI)
    fix b assume "b < LENGTH(8)"
    then have b: "b < 8" by simp
    have "8 * i + b < 64" "8 * (n - 1 - i) + b < 64" using that b assms(2) by simp_all
    then show "bit (mem_byte (reverse_bytes n (ucast v)) i) b = bit (be_bytes n v ! i) b"
      using b that by (auto simp: bit_mem_byte bit_reverse_bytes be_bytes_def bit_unsigned_iff bit_drop_bit_eq dest: bit_imp_le_length)
  qed
  show ?thesis unfolding cp_out_def prod.case Let_def n z push_bit_0_id id_apply
    using m by (auto simp: put_bytes_def fun_eq_iff store_loop [where f = "\<lambda>_ i. mem_byte (reverse_bytes n (ucast v)) i"]
      store_loop [where f = "\<lambda>x i. x OR mem_byte (reverse_bytes n (ucast v)) i"])
qed

lemma mem_byte_0: "mem_byte (ucast (v :: 'a::len word)) 0 = ucast v"
  by (rule bit_word_eqI) (auto simp: bit_mem_byte bit_unsigned_iff dest: bit_imp_le_length)

lemma reverse_bytes_1: "reverse_bytes (Suc 0) w = w"
  by (rule bit_word_eqI) (auto simp: bit_reverse_bytes)

lemma put_byte: "put_bytes flow p a [x] = p(a := if flow = 0 then x else p a OR x)"
  by (auto simp: put_bytes_def fun_eq_iff)

lemma cp_out_nibbles:
  fixes v l :: "4 word"
  shows "cp_out flow 4 l (cp_out flow 4 v (p, a, 0)) = (put_bytes flow p a [push_bit 4 (ucast v) OR ucast l], a + 1, 0)"
proof -
  have "mem_byte (push_bit 4 (ucast v)) 0 = push_bit 4 (ucast v)"
    by (rule bit_word_eqI) (auto simp: bit_mem_byte bit_unsigned_iff bit_push_bit_iff)
  then show ?thesis
    by (auto simp: cp_out_def Let_def reverse_bytes_1 mem_byte_0 for_loop_Suc put_byte fun_eq_iff or.assoc)
qed

lemma cp_out_flags:
  fixes f :: "3 word" and g :: "13 word"
  shows "cp_out flow 13 g (cp_out flow 3 f (p, a, 0)) =
    (put_bytes flow p a [push_bit 5 (ucast f) OR ucast (drop_bit 8 g), (if flow = 0 then p (a + 1) else 0) OR ucast g], a + 2, 0)"
proof -
  have f: "mem_byte (push_bit 5 (ucast f)) 0 = push_bit 5 (ucast f)"
    by (rule bit_word_eqI) (auto simp: bit_mem_byte bit_unsigned_iff bit_push_bit_iff)
  have g0: "mem_byte (reverse_bytes 2 (ucast g)) 0 = ucast (drop_bit 8 g)"
    by (rule bit_word_eqI) (auto simp: bit_mem_byte bit_reverse_bytes bit_unsigned_iff bit_drop_bit_eq dest: bit_imp_le_length)
  have g1: "mem_byte (reverse_bytes 2 (ucast g)) (Suc 0) = ucast g"
    by (rule bit_word_eqI) (auto simp: bit_mem_byte bit_reverse_bytes bit_unsigned_iff dest: bit_imp_le_length)
  have two: "for_loop 0 2 h s = h (Suc 0) (h 0 s)" for h :: "nat \<Rightarrow> memory \<Rightarrow> memory" and s by (simp add: for_loop_Suc numeral_2_eq_2)
  show ?thesis
    by (auto simp: cp_out_def Let_def reverse_bytes_1 f g0 g1 for_loop_Suc two put_bytes_def fun_eq_iff less_Suc_eq or.assoc)
qed

section \<open>Headers\<close>

definition eth_bytes :: "tuple_eth \<Rightarrow> u8 list" where
  "eth_bytes eth = be_bytes 6 (eth_Dst eth) @ be_bytes 6 (eth_Src eth) @ be_bytes 2 (eth_Type eth)"

definition ipv4_bytes :: "u8 \<Rightarrow> tuple_ipv4 \<Rightarrow> u8 list" where
  \<comment> \<open>the first argument is what was in the byte with the end of the fragment offset\<close>
  "ipv4_bytes old ip =
     [push_bit 4 (ucast (version ip)) OR ucast (ihl ip), diffserv ip] @ be_bytes 2 (totallen ip) @ be_bytes 2 (identification ip) @
     [push_bit 5 (ucast (ip_flags ip)) OR ucast (drop_bit 8 (fragoffset ip)), old OR ucast (fragoffset ip), ttl ip, protocol ip] @
     be_bytes 2 (hdrchecksum ip) @ be_bytes 4 (srcAddr ip) @ be_bytes 4 (dstAddr ip)"

definition tcp_header_bytes :: "tuple_tcp \<Rightarrow> u8 list" where
  "tcp_header_bytes tcp = be_bytes 2 (sport tcp) @ be_bytes 2 (dport tcp) @ be_bytes 4 (seq tcp) @ be_bytes 4 (ack tcp) @
     be_bytes 2 (tcp_flags tcp) @ be_bytes 2 (window tcp) @ be_bytes 2 (check tcp) @ be_bytes 2 (urgent tcp)"

definition hdr_bytes :: "u8 \<Rightarrow> hc_hdr \<Rightarrow> u8 list" where
  "hdr_bytes old hdr = eth_bytes (hc_Eth hdr) @ ipv4_bytes old (Ipv4 hdr) @ tcp_header_bytes (Tcp hdr)"

lemma length_hdr_bytes [simp]:
  "length (eth_bytes eth) = 14" "length (ipv4_bytes old ip) = 20" "length (tcp_header_bytes tcp) = 20" "length (hdr_bytes old hdr) = 54"
  by (simp_all add: eth_bytes_def ipv4_bytes_def tcp_header_bytes_def hdr_bytes_def)

lemma be_bytes_1: "be_bytes (Suc 0) v = [v]"
  by (simp add: be_bytes_def)

lemma cp_out_at:
  assumes "length bs = a"
  shows "cp_out flow 48 v6 (put_bytes flow p 0 bs, a, 0) = (put_bytes flow p 0 (bs @ be_bytes 6 v6), a + 6, 0)"
    and "cp_out flow 32 v4 (put_bytes flow p 0 bs, a, 0) = (put_bytes flow p 0 (bs @ be_bytes 4 v4), a + 4, 0)"
    and "cp_out flow 16 v2 (put_bytes flow p 0 bs, a, 0) = (put_bytes flow p 0 (bs @ be_bytes 2 v2), a + 2, 0)"
    and "cp_out flow 8 v1 (put_bytes flow p 0 bs, a, 0) = (put_bytes flow p 0 (bs @ [v1]), a + 1, 0)"
  using put_bytes_append [of flow p 0 bs, symmetric] assms cp_out_bytes [of 6 flow v6 "put_bytes flow p 0 bs" a] cp_out_bytes [of 4 flow v4 "put_bytes flow p 0 bs" a]
    cp_out_bytes [of 2 flow v2 "put_bytes flow p 0 bs" a] cp_out_bytes [of 1 flow v1 "put_bytes flow p 0 bs" a]
  by (simp_all add: be_bytes_1)

lemma cp_out_at_bits:
  assumes "length bs = a"
  shows "cp_out flow 4 l (cp_out flow 4 v (put_bytes flow p 0 bs, a, 0)) = (put_bytes flow p 0 (bs @ [push_bit 4 (ucast (v :: 4 word)) OR ucast (l :: 4 word)]), a + 1, 0)"
    and "cp_out flow 13 g (cp_out flow 3 f (put_bytes flow p 0 bs, a, 0)) =
      (put_bytes flow p 0 (bs @ [push_bit 5 (ucast (f :: 3 word)) OR ucast (drop_bit 8 (g :: 13 word)), (if flow = 0 then p (a + 1) else 0) OR ucast g]), a + 2, 0)"
proof -
  have "put_bytes flow p 0 bs (a + 1) = p (a + 1)" using assms by (simp add: put_bytes_def)
  then show "cp_out flow 4 l (cp_out flow 4 v (put_bytes flow p 0 bs, a, 0)) = (put_bytes flow p 0 (bs @ [push_bit 4 (ucast v) OR ucast l]), a + 1, 0)"
    and "cp_out flow 13 g (cp_out flow 3 f (put_bytes flow p 0 bs, a, 0)) =
      (put_bytes flow p 0 (bs @ [push_bit 5 (ucast f) OR ucast (drop_bit 8 g), (if flow = 0 then p (a + 1) else 0) OR ucast g]), a + 2, 0)"
    using put_bytes_append [of flow p 0 bs, symmetric] assms by (simp_all only: cp_out_nibbles cp_out_flags add_0)
qed

lemma put_bytes_Nil: "put_bytes flow p 0 [] = p"
  by (simp add: put_bytes_def)

lemma transfer_out_bytes: "transfer_out flow hdr p 0 = (put_bytes flow p 0 (hdr_bytes (if flow = 0 then p 21 else 0) hdr), 0)"
proof -
  have start: "(p, 0, 0) = (put_bytes flow p 0 [], 0, 0 :: nat)" by (simp add: put_bytes_Nil)
  show ?thesis unfolding transfer_out_def Let_def start
    by (simp add: cp_out_at cp_out_at_bits hdr_bytes_def eth_bytes_def ipv4_bytes_def tcp_header_bytes_def be_bytes_1 del: One_nat_def)
qed

lemma cp_in_at:
  "cp_in 48 p (a, 0) = (be 6 p a :: 48 word, a + 6, 0)" "cp_in 32 p (a, 0) = (be 4 p a :: u32, a + 4, 0)"
  "cp_in 16 p (a, 0) = (be 2 p a :: u16, a + 2, 0)" "cp_in 8 p (a, 0) = (p a, a + 1, 0)"
  "cp_in 4 p (a, 0) = (ucast (drop_bit 4 (p a)) :: 4 word, a, 4)" "cp_in 4 p (a, 4) = (ucast (p a) :: 4 word, a + 1, 0)"
  "cp_in 3 p (a, 0) = (ucast (drop_bit 5 (p a)) :: 3 word, a, 3)" "cp_in 1 p (a, 2) = (ucast (drop_bit 5 (p a)) :: 1 word, a, 3)"
  "cp_in 1 p (a, 3) = (ucast (drop_bit 4 (p a)) :: 1 word, a, 4)"
  using cp_in_bytes [of 6 p a, where ?'a = 48] cp_in_bytes [of 4 p a, where ?'a = 32] cp_in_bytes [of 2 p a, where ?'a = 16]
    cp_in_small [of 8 0 p a, where ?'a = 8] cp_in_small [of 4 0 p a, where ?'a = 4] cp_in_small [of 4 4 p a, where ?'a = 4]
    cp_in_small [of 3 0 p a, where ?'a = 3] cp_in_small [of 1 2 p a, where ?'a = 1] cp_in_small [of 1 3 p a, where ?'a = 1]
  by simp_all

end
