(* ===== verification/Hc_Shift.thy ===== *)
theory Hc_Shift
  imports Hc_Bytes Hls_Calls
begin

text \<open>
  Words of a packet under header compression: the bytes of a frame as a stream of words, and the loop that moves them by some bytes.
\<close>

section \<open>Bytes of a word\<close>

lemma bit_data_byte: "bit (data_byte w i) b \<longleftrightarrow> b < 8 \<and> bit w (8 * (7 - i) + b)"
proof -
  have F: "(0xFF :: u64) = mask 8" by (simp add: mask_eq_exp_minus_1)
  show ?thesis by (auto simp: data_byte_def F bit_unsigned_iff bit_and_iff bit_drop_bit_eq bit_mask_iff)
qed

lemma move_bytes:
  assumes a: "a < e" "e \<le> 8" and a': "a' < e'" "e' \<le> 8" "e' - a' = e - a" and i: "i < 8" and len: "8 * (e - a) \<le> LENGTH('b::len)"
  shows "data_byte (set_rng (63 - 8 * a) (64 - 8 * e) (rng (63 - 8 * a') (64 - 8 * e') D :: 'b word) T) i =
    (if a \<le> i \<and> i < e then data_byte (D :: u64) (a' + (i - a)) else data_byte T i)"
proof (rule bit_word_eqI)
  fix b assume "b < LENGTH(8)"
  then have b: "b < 8" by simp
  let ?m = "8 * (7 - i) + b" and ?v = "rng (63 - 8 * a') (64 - 8 * e') D :: 'b word"
  have lohi: "64 - 8 * e \<le> 63 - 8 * a" using a by linarith
  have m: "?m < 64" using b i by linarith
  have set: "bit (data_byte (set_rng (63 - 8 * a) (64 - 8 * e) ?v T) i) b \<longleftrightarrow>
      (if 64 - 8 * e \<le> ?m \<and> ?m \<le> 63 - 8 * a then bit ?v (?m - (64 - 8 * e)) else bit T ?m)"
    using b m by (simp add: bit_data_byte bit_set_rng [OF lohi])
  show "bit (data_byte (set_rng (63 - 8 * a) (64 - 8 * e) ?v T) i) b \<longleftrightarrow>
      bit (if a \<le> i \<and> i < e then data_byte D (a' + (i - a)) else data_byte T i) b"
  proof (cases "a \<le> i \<and> i < e")
    case True
    then have ie: "a \<le> i" "i < e" by simp_all
    then have r: "64 - 8 * e \<le> ?m" "?m \<le> 63 - 8 * a" using b i by linarith+
    have k: "?m - (64 - 8 * e) < 8 * (e - a)" "63 - 8 * a' + 1 - (64 - 8 * e') = 8 * (e - a)" using r a a' by linarith+
    have "64 - 8 * e' + (?m - (64 - 8 * e)) = 8 * (7 - (a' + (i - a))) + b" using r a a' ie i b by linarith
    moreover have "?m - (64 - 8 * e) < LENGTH('b)" using k(1) len by linarith
    ultimately show ?thesis unfolding set if_P [OF True] using r k b by (simp only: if_P bit_rng bit_data_byte conj_absorb) simp
  next
    case False
    then have "\<not> (64 - 8 * e \<le> ?m \<and> ?m \<le> 63 - 8 * a)" using b i a by linarith
    then show ?thesis unfolding set if_not_P [OF False] using b by (simp only: if_not_P bit_data_byte) simp
  qed
qed

section \<open>Shifting\<close>

lemma map_two_parts:
  assumes "\<And>i. i < n \<Longrightarrow> f i = g i" and "\<And>i. i < m \<Longrightarrow> f (n + i) = h i"
  shows "map f [0..<n + m] = map g [0..<n] @ map h [0..<m]"
  using assms by (auto simp: nth_append intro!: nth_equalityI) (metis add_diff_inverse_nat less_diff_conv2 linorder_not_less add.commute)

lemma shift_word_bytes:
  fixes T D :: u64
  assumes s: "r + s = 8" "1 \<le> s" "1 \<le> r"
  shows "map (data_byte (set_rng (8 * s - 1) 0 (rng 63 (64 - 8 * s) D :: u64) T)) [0..<8] = map (data_byte T) [0..<r] @ map (data_byte D) [0..<s]"
proof -
  have s8: "8 * s - 1 = 63 - 8 * r" using s by linarith
  have "map (data_byte (set_rng (63 - 8 * r) 0 (rng 63 (64 - 8 * s) D :: u64) T)) [0..<r + s] = map (data_byte T) [0..<r] @ map (data_byte D) [0..<s]"
  proof (intro map_two_parts)
    have "r < 8" "0 < s" "s \<le> 8" "s - 0 = 8 - r" using s by linarith+
    note move = move_bytes [OF this(1) order.refl this(2-4), where ?'b = 64 and D = D and T = T]
    show "data_byte (set_rng (63 - 8 * r) 0 (rng 63 (64 - 8 * s) D :: u64) T) i = data_byte T i" if "i < r" for i
      using move [of i] that s by simp
    show "data_byte (set_rng (63 - 8 * r) 0 (rng 63 (64 - 8 * s) D :: u64) T) (r + i) = data_byte D i" if "i < s" for i
      using move [of "r + i"] that s by simp
  qed
  then show ?thesis unfolding s8 using s(1) by simp
qed

lemma carry_word_bytes:
  fixes T D :: u64
  assumes s: "r + s = 8" "1 \<le> s" "1 \<le> r" and c: "s < c" "c \<le> 8"
  shows "map (data_byte (set_rng 63 (64 - 8 * (c - s)) (rng (8 * r - 1) (64 - 8 * c) D :: u64) T)) [0..<c - s] = map (\<lambda>i. data_byte D (s + i)) [0..<c - s]"
proof -
  have r8: "8 * r - 1 = 63 - 8 * s" using s by linarith
  show ?thesis unfolding r8
  proof (rule map_cong [OF refl])
    fix i assume "i \<in> set [0..<c - s]"
    moreover have "0 < c - s" "c - s \<le> 8" "s < c" "c \<le> 8" "c - s = c - s - 0" using c by linarith+
    note move_bytes [OF this, where ?'b = 64 and D = D and T = T and i = i]
    ultimately show "data_byte (set_rng 63 (64 - 8 * (c - s)) (rng (63 - 8 * s) (64 - 8 * c) D :: u64) T) i = data_byte D (s + i)" using c by simp
  qed
qed

lemma short_word_bytes:
  fixes T D :: u64
  assumes s: "r + s = 8" "1 \<le> s" "1 \<le> r" and c: "1 \<le> c" "c \<le> s"
  shows "map (data_byte (set_rng (8 * s - 1) (64 - 8 * (c + r)) (rng 63 (64 - 8 * c) D :: u64) T)) [0..<c + r] = map (data_byte T) [0..<r] @ map (data_byte D) [0..<c]"
proof -
  have s8: "8 * s - 1 = 63 - 8 * r" using s by linarith
  have "map (data_byte (set_rng (63 - 8 * r) (64 - 8 * (c + r)) (rng 63 (64 - 8 * c) D :: u64) T)) [0..<r + c] = map (data_byte T) [0..<r] @ map (data_byte D) [0..<c]"
  proof (intro map_two_parts)
    have "r < c + r" "c + r \<le> 8" "0 < c" "c \<le> 8" "c - 0 = c + r - r" using s c by linarith+
    note move = move_bytes [OF this, where ?'b = 64 and D = D and T = T]
    show "data_byte (set_rng (63 - 8 * r) (64 - 8 * (c + r)) (rng 63 (64 - 8 * c) D :: u64) T) i = data_byte T i" if "i < r" for i
      using move [of i] that s c by simp
    show "data_byte (set_rng (63 - 8 * r) (64 - 8 * (c + r)) (rng 63 (64 - 8 * c) D :: u64) T) (r + i) = data_byte D i" if "i < c" for i
      using move [of "r + i"] that s c by simp
  qed
  then show ?thesis unfolding s8 by (simp add: add.commute)
qed

lemma upt_parts: "s \<le> c \<Longrightarrow> map f [0..<c] = map f [0..<s] @ map (\<lambda>i. f (s + i)) [0..<c - s]"
  using map_two_parts [of s f f "c - s" "\<lambda>i. f (s + i)"] by simp

lemma shift_words_frame:
  assumes s: "1 \<le> s" "s \<le> 7" and ws: "frame_ok ws" and T: "\<not> pi_End_of_frame T" "pi_Count T = 8"
  shows "\<exists>out. shift_words err s T ws = Some (out, []) \<and> frame_ok out \<and>
    frame_bytes out = map (data_byte (pi_Data T)) [0..<8 - s] @ frame_bytes ws"
proof -
  define r where "r = 8 - s"
  have r: "r + s = 8" "1 \<le> s" "1 \<le> r" "8 - s = r" using s by (simp_all add: r_def)
  have "\<exists>out. shift_words err s T ws = Some (out, []) \<and> frame_ok out \<and> frame_bytes out = map (data_byte (pi_Data T)) [0..<r] @ frame_bytes ws"
    using ws T
  proof (induction ws arbitrary: T rule: frame_ok.induct)
    case (2 w)
    let ?c = "pi_Count w"
    have w: "pi_End_of_frame w" "1 \<le> ?c" "?c \<le> 8" using "2.prems" by simp_all
    show ?case
    proof (cases "?c \<le> s")
      case True
      then show ?thesis using short_word_bytes [OF r(1-3) w(2) True, of "pi_Data w" "pi_Data T"] w r
        by (simp add: frame_bytes_def Let_def del: One_nat_def)
    next
      case False
      then have "1 \<le> ?c - s \<and> ?c - s \<le> 8" using w by linarith
      then show ?thesis using False carry_word_bytes [OF r(1-3) _ w(3), of "pi_Data w"] shift_word_bytes [OF r(1-3), of "pi_Data w" "pi_Data T"]
          upt_parts [of s ?c "data_byte (pi_Data w)"] w r
        by (simp add: frame_bytes_def Let_def del: One_nat_def)
    qed
  next
    case (3 w v vs)
    let ?D = "set_rng (8 * s - 1) 0 (rng 63 (64 - 8 * s) (pi_Data w) :: u64) (pi_Data T)"
    let ?E = "set_rng 63 (64 - 8 * r) (rng (8 * r - 1) 0 (pi_Data w) :: u64) ?D"
    have w: "\<not> pi_End_of_frame w" "pi_Count w = 8" "frame_ok (v # vs)" using "3.prems"(1) by simp_all
    have E: "map (data_byte ?E) [0..<r] = map (\<lambda>i. data_byte (pi_Data w) (s + i)) [0..<r]"
      using carry_word_bytes [OF r(1-3), of 8 "pi_Data w" ?D] r by simp
    let ?out = "T\<lparr>pi_Data := ?D, pi_Error := if err then pi_Error w else pi_Error T\<rparr>"
    let ?next = "?out\<lparr>pi_Data := ?E\<rparr>"
    obtain outs where o: "shift_words err s ?next (v # vs) = Some (outs, [])" "frame_ok outs"
      "frame_bytes outs = map (data_byte (pi_Data ?next)) [0..<r] @ frame_bytes (v # vs)"
      using "3.IH" [OF w(3), of ?next] "3.prems" by auto
    obtain x xs where outs: "outs = x # xs" using o(2) by (cases outs) auto
    have "frame_ok (?out # outs)" using o(2) "3.prems" by (simp add: outs)
    moreover have "frame_bytes (?out # outs) = map (data_byte (pi_Data T)) [0..<r] @ frame_bytes (w # v # vs)"
      using o(3) "3.prems"(3) shift_word_bytes [OF r(1-3), of "pi_Data w" "pi_Data T"] E upt_parts [of s 8 "data_byte (pi_Data w)"] r
      by (simp add: frame_bytes_Cons [of ?out] frame_bytes_Cons [of w] w(2) del: One_nat_def)
    moreover have "shift_words err s T (w # v # vs) = Some (?out # outs, [])"
      using o(1) w(1) by (subst shift_words.simps) (simp add: Let_def r(4) del: shift_words.simps One_nat_def)
    ultimately show ?case by blast
  qed simp
  then show ?thesis using r(4) by simp
qed

section \<open>Frames as streams\<close>

definition frame_info :: "nat \<Rightarrow> packet_info" where
  "frame_info n = \<lparr>Data_packet = True, info_Packet_index = 0, Bytes_per_packet = of_nat n, Original_type = 0\<rparr>"

lemma frame_word_symbols: "frame_word p n i = word_of_symbols (\<lambda>j. padded (map p [0..<n]) (8 * i + j))"
proof -
  have "for_loop 0 m (\<lambda>j word. let word = push_bit 8 word; offset = 8 * i + j in if offset < n then word OR ucast (p offset) else word) (0 :: u64) =
      for_loop 0 m (\<lambda>j out. push_bit 8 out OR ucast (padded (map p [0..<n]) (8 * i + j))) 0" for m
    by (rule for_loop_cong) (simp add: Let_def padded_def)
  then show ?thesis by (simp add: frame_word_def word_of_symbols_def)
qed

lemma frame_stream_wire: "n < 65536 \<Longrightarrow> frame_stream p n = wire_frame (frame_info n) (bytes_words (map p [0..<n]))"
  by (rule nth_equalityI)
    (auto simp: frame_stream_def wire_frame_def frame_input_def output_word_def Let_def frame_info_def words_per_packet_def unat_of_nat frame_word_symbols)

lemma frame_stream_ok:
  assumes "0 < n" and "n < 65536"
  shows "frame_ok (frame_stream p n) \<and> frame_bytes (frame_stream p n) = map p [0..<n]"
  unfolding frame_stream_wire [OF assms(2)] using assms by (intro wire_frame_bytes holds_bytes_words) (simp_all add: frame_info_def unat_of_nat)

lemma ejectPacket_frame: "frame_ok ws \<Longrightarrow> ejectPacket ws = Some (ws, [])"
  by (induction ws rule: frame_ok.induct) auto

lemma read_output_frame: "frame_ok ws \<Longrightarrow> read_output ws = Some (frame_bytes ws)"
  by (induction ws rule: frame_ok.induct) (auto simp: frame_bytes_def)

lemma frame_ok_words: "frame_ok (w # ws) \<Longrightarrow> ws \<noteq> [] \<Longrightarrow> frame_ok ws \<and> \<not> pi_End_of_frame w \<and> pi_Count w = 8"
  by (cases ws) auto

lemma frame_ok_append:
  "frame_ok ws \<Longrightarrow> \<forall>w\<in>set vs. \<not> pi_End_of_frame w \<and> pi_Count w = 8 \<Longrightarrow> frame_ok (vs @ ws)"
proof (induction vs)
  case (Cons v vs)
  then obtain x xs where "vs @ ws = x # xs" by (cases "vs @ ws") auto
  with Cons show ?case by simp
qed simp

end
