(* ===== verification/Hc_Headers.thy ===== *)
theory Hc_Headers
  imports Hc_Shift
begin

text \<open>
  What the headers of a frame become when they are read, compressed and restored. The fields of a tuple and the bytes of its headers determine each other.
\<close>

section \<open>Fields and bytes\<close>

lemma be_bytes_inject:
  fixes v w :: "'a::len word"
  assumes "LENGTH('a) = 8 * n" and "be_bytes n v = be_bytes n w"
  shows "v = w"
proof (rule bit_word_eqI)
  fix b assume "b < LENGTH('a)"
  then have b: "b div 8 < n" "8 * (b div 8) + b mod 8 = b" using assms(1) by (simp_all add: less_mult_imp_div_less mult.commute)
  then have "n - 1 - (n - 1 - b div 8) = b div 8" by simp
  moreover have "be_bytes n v ! (n - 1 - b div 8) = be_bytes n w ! (n - 1 - b div 8)" using assms(2) by simp
  ultimately have "ucast (drop_bit (8 * (b div 8)) v) = (ucast (drop_bit (8 * (b div 8)) w) :: u8)" using b(1) by (simp add: be_bytes_def)
  from arg_cong [OF this, of "\<lambda>x. bit x (b mod 8)"] show "bit v b = bit w b" using b(2) by (simp add: bit_unsigned_iff bit_drop_bit_eq)
qed

lemma be_bytes_rng:
  fixes D :: u64
  assumes "a + n \<le> 8" and "LENGTH('a::len) = 8 * n" and "1 \<le> n"
  shows "be_bytes n (rng (63 - 8 * a) (64 - 8 * (a + n)) D :: 'a word) = map (data_byte D) [a..<a + n]"
proof (rule nth_equalityI)
  fix i assume "i < length (be_bytes n (rng (63 - 8 * a) (64 - 8 * (a + n)) D :: 'a word))"
  then have i: "i < n" by simp
  have "bit (be_bytes n (rng (63 - 8 * a) (64 - 8 * (a + n)) D :: 'a word) ! i) b = bit (data_byte D (a + i)) b" if "b < LENGTH(8)" for b
  proof -
    have b: "b < 8" using that by simp
    have lt: "8 * (n - 1 - i) + b < 8 * n" using i b by linarith
    moreover have "63 - 8 * a + 1 - (64 - 8 * (a + n)) = 8 * n"
    proof -
      have "a \<in> {0, 1, 2, 3, 4, 5, 6, 7}" "n \<in> {1, 2, 3, 4, 5, 6, 7, 8}" using assms(1,3) by auto
      then show ?thesis using assms(1) by auto
    qed
    then have "8 * (n - 1 - i) + b < 63 - 8 * a + 1 - (64 - 8 * (a + n))" using lt by linarith
    moreover have "64 - 8 * (a + n) + (8 * (n - 1 - i) + b) = 8 * (7 - (a + i)) + b"
    proof -
      have "64 - 8 * (a + n) = 8 * (8 - (a + n))" by simp
      moreover have "7 - (a + i) = (8 - (a + n)) + (n - 1 - i)" using i assms(1) by linarith
      ultimately show ?thesis by (simp only: distrib_left add.assoc)
    qed
    ultimately show ?thesis using i b assms(2)
      by (simp add: be_bytes_def bit_unsigned_iff bit_drop_bit_eq bit_rng bit_data_byte add.assoc [symmetric])
  qed
  then show "be_bytes n (rng (63 - 8 * a) (64 - 8 * (a + n)) D :: 'a word) ! i = map (data_byte D) [a..<a + n] ! i"
    using i by (intro bit_word_eqI) simp
qed simp

lemma word_fields:
  fixes D :: u64
  shows "be_bytes 2 (rng 63 48 D :: u16) = [data_byte D 0, data_byte D 1]" "be_bytes 2 (rng 47 32 D :: u16) = [data_byte D 2, data_byte D 3]"
    "be_bytes 2 (rng 31 16 D :: u16) = [data_byte D 4, data_byte D 5]" "be_bytes 2 (rng 15 0 D :: u16) = [data_byte D 6, data_byte D 7]"
    "be_bytes 4 (rng 63 32 D :: u32) = [data_byte D 0, data_byte D 1, data_byte D 2, data_byte D 3]"
    "be_bytes 4 (rng 31 0 D :: u32) = [data_byte D 4, data_byte D 5, data_byte D 6, data_byte D 7]"
  using be_bytes_rng [of 0 2 D, where ?'a = 16] be_bytes_rng [of 2 2 D, where ?'a = 16] be_bytes_rng [of 4 2 D, where ?'a = 16]
    be_bytes_rng [of 6 2 D, where ?'a = 16] be_bytes_rng [of 0 4 D, where ?'a = 32] be_bytes_rng [of 4 4 D, where ?'a = 32]
  by (simp_all add: upt_rec numeral_eq_Suc)

lemma be_bytes_4: "be_bytes 4 v = [ucast (drop_bit 24 v), ucast (drop_bit 16 v), ucast (drop_bit 8 v), ucast v]"
  by (simp add: be_bytes_def upt_rec)

lemma be_bytes_2: "be_bytes 2 v = [ucast (drop_bit 8 v), ucast v]"
  by (simp add: be_bytes_def upt_rec)

lemma halves_bytes:
  fixes x q :: u32 and u v :: u16
  shows "be_bytes 4 (set_rng 15 0 u (set_rng 31 16 v x)) = be_bytes 2 v @ be_bytes 2 u"
    and "be_bytes 2 (rng 31 16 q :: u16) @ be_bytes 2 (rng 15 0 q :: u16) = be_bytes 4 q"
    and "be_bytes 2 (rng 31 16 q :: u16) @ be_bytes 2 (rng 15 0 q :: u16) @ bs = be_bytes 4 q @ bs"
proof -
  show "be_bytes 4 (set_rng 15 0 u (set_rng 31 16 v x)) = be_bytes 2 v @ be_bytes 2 u"
    by (simp add: be_bytes_4 be_bytes_2)
      (intro conjI bit_word_eqI; auto simp: bit_unsigned_iff bit_drop_bit_eq bit_set_rng dest: bit_imp_le_length)
  show q: "be_bytes 2 (rng 31 16 q :: u16) @ be_bytes 2 (rng 15 0 q :: u16) = be_bytes 4 q"
    by (simp add: be_bytes_4 be_bytes_2)
      (intro conjI bit_word_eqI; auto simp: bit_unsigned_iff bit_drop_bit_eq bit_rng dest: bit_imp_le_length)
  show "be_bytes 2 (rng 31 16 q :: u16) @ be_bytes 2 (rng 15 0 q :: u16) @ bs = be_bytes 4 q @ bs"
    unfolding append_assoc [symmetric] q ..
qed

section \<open>Compressed headers\<close>

definition hc_compressed_bytes :: "hc_compressedHeader \<Rightarrow> u8 list" where
  "hc_compressed_bytes ch =
     [ucast (drop_bit 2 (ch_slotID ch)), push_bit 6 (ucast (ch_slotID ch)) OR push_bit 5 (of_bool (ch_seqChange ch)) OR push_bit 4 (of_bool (ch_ackChange ch))] @
     be_bytes 2 (ch_totallen ch) @ be_bytes 2 (ch_identification ch) @ be_bytes 2 (ch_flags ch) @ be_bytes 2 (ch_window ch) @ be_bytes 2 (ch_check ch) @ be_bytes 2 (ch_urgent ch)"

lemma length_hc_compressed_bytes [simp]: "length (hc_compressed_bytes ch) = 14"
  by (simp add: hc_compressed_bytes_def)

lemma slot_byte: "push_bit 4 (ucast (rng 9 6 (slot :: 10 word) :: 4 word)) OR ucast (rng 5 2 slot :: 4 word) = (ucast (drop_bit 2 slot) :: u8)"
  by (rule bit_word_eqI) (auto simp: bit_or_iff bit_push_bit_iff bit_unsigned_iff bit_drop_bit_eq bit_rng dest: bit_imp_le_length)

lemma change_byte:
  "set_rng 3 0 (0 :: 4 word) (set_rng 4 4 (of_bool a :: 1 word) (set_rng 5 5 (of_bool s :: 1 word) (set_rng 7 6 (rng 1 0 (slot :: 10 word) :: 2 word) (x :: u8)))) =
    push_bit 6 (ucast slot) OR push_bit 5 (of_bool s) OR push_bit 4 (of_bool a)"
proof (rule bit_word_eqI)
  fix b assume "b < LENGTH(8)"
  then have "b \<in> {0, 1, 2, 3, 4, 5, 6, 7}" by auto
  then show "bit (set_rng 3 0 (0 :: 4 word) (set_rng 4 4 (of_bool a :: 1 word) (set_rng 5 5 (of_bool s :: 1 word) (set_rng 7 6 (rng 1 0 slot :: 2 word) x)))) b =
      bit (push_bit 6 (ucast slot) OR push_bit 5 (of_bool s) OR push_bit 4 (of_bool a) :: u8) b"
    by (auto simp: bit_or_iff bit_push_bit_iff bit_unsigned_iff bit_set_rng bit_rng bit_0)
qed

lemma flags_bytes:
  "push_bit 5 (ucast (rng 15 13 (f :: u16) :: 3 word)) OR ucast (drop_bit 8 (rng 12 0 f :: 13 word)) = (ucast (drop_bit 8 f) :: u8)"
  "ucast (rng 12 0 f :: 13 word) = (ucast f :: u8)"
  by (rule bit_word_eqI; auto simp: bit_or_iff bit_push_bit_iff bit_unsigned_iff bit_drop_bit_eq bit_rng dest: bit_imp_le_length)+

lemma window_bytes: "rng 15 8 (f :: u16) = (ucast (drop_bit 8 f) :: u8)" "rng 7 0 f = (ucast f :: u8)"
  by (rule bit_word_eqI; auto simp: bit_unsigned_iff bit_drop_bit_eq bit_rng dest: bit_imp_le_length)+

end
