(* ===== verification/Hc_Frames.thy ===== *)
theory Hc_Frames
  imports Hc_Headers
begin

text \<open>
  Frames under header compression: what the headers of a frame are when they are read, that writing them back changes nothing, and the words of its stream.
\<close>

section \<open>Headers that are read\<close>

definition eth_of :: "memory \<Rightarrow> tuple_eth \<Rightarrow> tuple_eth" where
  "eth_of p eth = eth\<lparr>eth_Dst := be 6 p 0, eth_Src := be 6 p 6, eth_Type := be 2 p 12\<rparr>"

definition frag_of :: "memory \<Rightarrow> 13 word" where
  "frag_of p = ucast (p 21 AND 0x1F) OR push_bit 8 (ucast (p 20 AND 0x1F))"

definition ip_of :: "memory \<Rightarrow> tuple_ipv4 \<Rightarrow> tuple_ipv4" where
  "ip_of p ip = ip\<lparr>version := ucast (drop_bit 4 (p 14)), ihl := ucast (p 14), diffserv := p 15, totallen := be 2 p 16, identification := be 2 p 18,
     ip_flags := ucast (drop_bit 5 (p 20)), fragoffset := frag_of p, ttl := p 22, protocol := p 23,
     hdrchecksum := be 2 p 24, srcAddr := be 4 p 26, dstAddr := be 4 p 30\<rparr>"

definition tcp_of :: "memory \<Rightarrow> tuple_tcp" where
  "tcp_of p = \<lparr>urgent = be 2 p 52, check = be 2 p 50, window = be 2 p 48, tcp_flags = be 2 p 46, ack = be 4 p 42, seq = be 4 p 38, dport = be 2 p 36, sport = be 2 p 34,
     tcp_isValid = True\<rparr>"

definition cmp_of :: "memory \<Rightarrow> tuple_cmp" where
  "cmp_of p = \<lparr>cmp_urgent = be 2 p 26, cmp_check = be 2 p 24, cmp_window = be 2 p 22, cmp_flags = be 2 p 20, cmp_identification = be 2 p 18, cmp_totallen = be 2 p 16,
     cmp_pad = ucast (p 15), cmp_ackChange = (ucast (drop_bit 4 (p 15)) \<noteq> (0 :: 1 word)), cmp_seqChange = (ucast (drop_bit 5 (p 15)) \<noteq> (0 :: 1 word)),
     cmp_slotID = ucast (drop_bit 6 (p 15)) OR push_bit 2 (ucast (p 14)), cmp_isValid = True\<rparr>"

lemma transfer_in_ip:
  assumes "be 2 p 12 = (0x0800 :: u16)"
  shows "transfer_in compressor p hdr 0 = (hdr\<lparr>hc_Eth := eth_of p (hc_Eth hdr), Ipv4 := ip_of p (Ipv4 hdr), Tcp := tcp_of p\<rparr>, 0)"
  using assms
  by (simp add: transfer_in_def transfer_eth_def transfer_ipv4_def transfer_tcp_def Let_def cp_in_at cp_in_fragoffset eth_of_def ip_of_def tcp_of_def frag_of_def)

lemma transfer_in_cmp:
  assumes "be 2 p 12 = (0x1234 :: u16)"
  shows "transfer_in False p hdr 0 = (hdr\<lparr>hc_Eth := eth_of p (hc_Eth hdr), Cmp := cmp_of p\<rparr>, 0)"
  using assms
  by (simp add: transfer_in_def transfer_eth_def transfer_cmp_def Let_def cp_in_at cp_in_slotID eth_of_def cmp_of_def del: One_nat_def)

lemma nibbles_byte: "push_bit 4 (ucast (ucast (drop_bit 4 x) :: 4 word)) OR ucast (ucast x :: 4 word) = (x :: u8)"
  by (rule bit_word_eqI) (auto simp: bit_or_iff bit_push_bit_iff bit_unsigned_iff bit_drop_bit_eq dest: bit_imp_le_length)

lemma fragment_bytes:
  "push_bit 5 (ucast (ucast (drop_bit 5 (p 20)) :: 3 word)) OR ucast (drop_bit 8 (frag_of p)) = p 20" "ucast (frag_of p) = p 21 AND 0x1F"
proof -
  have F: "(0x1F :: u8) = mask 5" by (simp add: mask_eq_exp_minus_1)
  show "push_bit 5 (ucast (ucast (drop_bit 5 (p 20)) :: 3 word)) OR ucast (drop_bit 8 (frag_of p)) = p 20"
    by (rule bit_word_eqI)
      (auto simp: frag_of_def F bit_or_iff bit_and_iff bit_mask_iff bit_push_bit_iff bit_unsigned_iff bit_drop_bit_eq dest: bit_imp_le_length)
  show "ucast (frag_of p) = p 21 AND 0x1F"
    by (rule bit_word_eqI)
      (auto simp: frag_of_def F bit_or_iff bit_and_iff bit_mask_iff bit_push_bit_iff bit_unsigned_iff bit_drop_bit_eq dest: bit_imp_le_length)
qed

lemma map_upt_append: "map p [0..<n] @ map (\<lambda>i. p (n + i)) [0..<m] = map p [0..<n + m]"
  using map_two_parts [of n p p m "\<lambda>i. p (n + i)"] by simp

lemma upt_numeral_bytes: "map f [0..<2] = [f 0, f 1]" "map f [0..<4] = [f 0, f 1, f 2, f 3]" "map f [0..<6] = [f 0, f 1, f 2, f 3, f 4, f (5 :: nat)]"
  by (simp_all add: upt_rec numeral_eq_Suc)

lemma eth_of_bytes: "eth_bytes (eth_of p eth) = map p [0..<14]"
  by (simp add: eth_bytes_def eth_of_def be_bytes_be upt_numeral_bytes) (simp add: upt_rec numeral_eq_Suc)

lemma ip_of_bytes: "ipv4_bytes old (ip_of p ip) = map (\<lambda>i. if i = 7 then old OR (p 21 AND 0x1F) else p (14 + i)) [0..<20]"
proof -
  have "[0..<20] = [0, 1, 2, 3, 4, 5, 6, 7, 8, 9, 10, 11, 12, 13, 14, 15, 16, 17, 18, 19 :: nat]" by (simp add: upt_rec)
  then show ?thesis
    by (simp add: ipv4_bytes_def ip_of_def be_bytes_be upt_numeral_bytes nibbles_byte fragment_bytes)
qed

lemma tcp_of_bytes: "tcp_header_bytes (tcp_of p) = map (\<lambda>i. p (34 + i)) [0..<20]"
  by (simp add: tcp_header_bytes_def tcp_of_def be_bytes_be upt_numeral_bytes) (simp add: upt_rec numeral_eq_Suc)

lemma hdr_of_bytes:
  "hdr_bytes old (hdr\<lparr>hc_Eth := eth_of p eth, Ipv4 := ip_of p ip, Tcp := tcp_of p\<rparr>) = map (\<lambda>i. if i = 21 then old OR (p 21 AND 0x1F) else p i) [0..<54]"
proof -
  define q where "q = (\<lambda>i. if i = 21 then old OR (p 21 AND 0x1F) else p i)"
  have "map p [0..<14] = map q [0..<14]" "map (\<lambda>i. if i = 7 then old OR (p 21 AND 0x1F) else p (14 + i)) [0..<20] = map (\<lambda>i. q (14 + i)) [0..<20]"
    "map (\<lambda>i. p (34 + i)) [0..<20] = map (\<lambda>i. q (34 + i)) [0..<20]"
    by (auto simp: q_def intro!: map_cong)
  note parts = this
  have "hdr_bytes old (hdr\<lparr>hc_Eth := eth_of p eth, Ipv4 := ip_of p ip, Tcp := tcp_of p\<rparr>) =
      (map q [0..<14] @ map (\<lambda>i. q (14 + i)) [0..<20]) @ map (\<lambda>i. q (34 + i)) [0..<20]"
    unfolding parts [symmetric] by (simp add: hdr_bytes_def eth_of_bytes ip_of_bytes tcp_of_bytes)
  then show ?thesis unfolding q_def [symmetric] using map_upt_append [of q 14 20] map_upt_append [of q 34 20] by simp
qed

section \<open>Words of a frame\<close>

lemma frame_ok_suffix:
  "frame_ok (vs @ ws) \<Longrightarrow> ws \<noteq> [] \<Longrightarrow>
    frame_ok ws \<and> (\<forall>v\<in>set vs. \<not> pi_End_of_frame v \<and> pi_Count v = 8) \<and> frame_bytes (vs @ ws) = frame_bytes vs @ frame_bytes ws \<and>
    length (frame_bytes vs) = 8 * length vs"
proof (induction vs)
  case Nil
  then show ?case by (simp add: frame_bytes_def)
next
  case (Cons v vs)
  then show ?case using frame_ok_words [of v "vs @ ws"] by (auto simp: frame_bytes_Cons)
qed

lemma frame_stream_split:
  assumes "8 * k < n" and "n < 65536"
  obtains rest where "frame_stream p n = map (frame_input p n) [0..<k] @ rest" and "frame_ok rest" and "frame_bytes rest = map p [8 * k..<n]"
    and "\<forall>w\<in>set (map (frame_input p n) [0..<k]). \<not> pi_End_of_frame w \<and> pi_Count w = 8" and "frame_bytes (map (frame_input p n) [0..<k]) = map p [0..<8 * k]"
proof -
  define rest where "rest = map (frame_input p n) [k..<(n + 8 - 1) div 8]"
  have k: "k < (n + 8 - 1) div 8" using assms(1) by auto
  then have upt: "[0..<(n + 8 - 1) div 8] = [0..<k] @ [k..<(n + 8 - 1) div 8]" by (metis upt_add_eq_append le_add1 le_add_diff_inverse less_imp_le add_0)
  have s: "frame_stream p n = map (frame_input p n) [0..<k] @ rest" unfolding frame_stream_def upt by (simp add: rest_def)
  have rest: "rest \<noteq> []" using k by (simp add: rest_def)
  have all: "frame_ok (map (frame_input p n) [0..<k] @ rest)" "frame_bytes (map (frame_input p n) [0..<k] @ rest) = map p [0..<n]"
    using frame_stream_ok [of n p] assms unfolding s by simp_all
  note parts = frame_ok_suffix [OF all(1) rest]
  then have "map p [0..<n] = frame_bytes (map (frame_input p n) [0..<k]) @ frame_bytes rest" "length (frame_bytes (map (frame_input p n) [0..<k])) = 8 * k"
    using all(2) by simp_all
  moreover have "map p [0..<n] = map p [0..<8 * k] @ map p [8 * k..<n]"
    using assms(1) by (metis upt_add_eq_append le_add1 le_add_diff_inverse less_imp_le add_0 map_append)
  ultimately have "frame_bytes (map (frame_input p n) [0..<k]) = map p [0..<8 * k] \<and> frame_bytes rest = map p [8 * k..<n]" by simp
  then show ?thesis using that [of rest] s parts by blast
qed

lemma frame_input_byte: "8 * i + j < n \<Longrightarrow> j < 8 \<Longrightarrow> data_byte (pi_Data (frame_input p n i)) j = p (8 * i + j)"
  by (simp add: frame_input_def Let_def frame_word_symbols data_byte_symbol word_symbol_of_symbols padded_def)

lemma copy_words_append: "length vs = k \<Longrightarrow> copy_words k (vs @ ws) = Some (vs, ws)"
  by (induction vs arbitrary: k) auto

section \<open>Frames that are written\<close>

lemma emit_frame_bytes:
  assumes out: "frame_ok out" "frame_bytes out = bs" and len: "54 \<le> length bs" "length bs \<le> 2048" and "\<not> hc_forward t"
  shows "emit_frame 0 buf t out 0 = Some (hdr_bytes (bs ! 21) (hc_Hdr t) @ drop 54 bs, 0)"
    and "emit_frame 1 buf t out 0 = Some (map2 (OR) (take 54 bs) (hdr_bytes 0 (hc_Hdr t)) @ drop 54 bs, 0)"
proof -
  have "map (put_bytes 0 (\<lambda>i. if i < length bs then bs ! i else buf i) 0 (hdr_bytes (bs ! 21) (hc_Hdr t))) [0..<length bs] = hdr_bytes (bs ! 21) (hc_Hdr t) @ drop 54 bs"
    using len by (intro nth_equalityI) (auto simp: put_bytes_def nth_append)
  then show "emit_frame 0 buf t out 0 = Some (hdr_bytes (bs ! 21) (hc_Hdr t) @ drop 54 bs, 0)"
    using assms by (simp add: emit_frame_def read_output_frame transfer_out_bytes Let_def)
  have "map (put_bytes 1 (\<lambda>i. if i < length bs then bs ! i else buf i) 0 (hdr_bytes 0 (hc_Hdr t))) [0..<length bs] =
      map2 (OR) (take 54 bs) (hdr_bytes 0 (hc_Hdr t)) @ drop 54 bs"
    using len by (intro nth_equalityI) (auto simp: put_bytes_def nth_append)
  then show "emit_frame 1 buf t out 0 = Some (map2 (OR) (take 54 bs) (hdr_bytes 0 (hc_Hdr t)) @ drop 54 bs, 0)"
    using assms by (simp add: emit_frame_def read_output_frame transfer_out_bytes Let_def)
qed

end
