(* ===== verification/Hc_Hit.thy ===== *)
theory Hc_Hit
  imports Hc_Frames
begin

text \<open>
  A frame that the compressor of the FPGA compresses: the bytes of the headers and of the payload that leave it.
\<close>

section \<open>Headers\<close>

definition optional_bytes :: "hc_compressedHeader \<Rightarrow> tuple_tcp \<Rightarrow> u8 list" where
  "optional_bytes ch tcp = (if ch_seqChange ch then be_bytes 4 (seq tcp) else []) @ (if ch_ackChange ch then be_bytes 4 (ack tcp) else [])"

lemma length_optional_bytes: "length (optional_bytes ch tcp) = 4 * optionalNum ch"
  by (simp add: optional_bytes_def optionalNum_def)

definition compressed_eth :: "hc_hdr \<Rightarrow> u8 list" where
  "compressed_eth hdr = eth_bytes ((hc_Eth hdr)\<lparr>eth_Type := ETYPE_COMPRESSED_hls\<rparr>)"

lemma upt_word: "map f [0..<8] = [f 0, f 1, f 2, f 3, f 4, f 5, f 6, f (7 :: nat)]"
  by (simp add: upt_rec numeral_eq_Suc)

lemmas change_bytes = change_byte change_byte [of False False, simplified] change_byte [of False True, simplified] change_byte [of True False, simplified]
  change_byte [of True True, simplified]

lemmas shifted_simps = put_optional_def put_compressed_def shift_headers_def hdr_bytes_def ipv4_bytes_def tcp_header_bytes_def hc_compressed_bytes_def optional_bytes_def
  compressed_eth_def optionalNum_def slot_byte change_bytes flags_bytes window_bytes halves_bytes word_fields upt_word upt_numeral_bytes

lemma bytes_of_two_halves: "[ucast (drop_bit 8 f), ucast f] = be_bytes 2 (f :: u16)" "ucast (drop_bit 8 f) # ucast f # bs = be_bytes 2 (f :: u16) @ bs"
  by (simp_all add: be_bytes_2)

lemma shift_headers_both:
  assumes "ch_pad ch = 0" and "ch_seqChange ch" and "ch_ackChange ch"
  shows "\<exists>h. shift_headers 2 D (u # v # ws) (put_optional ch tcp (put_compressed ch hdr)) = Some (h, pi_Data v, ws) \<and>
    hdr_bytes 0 h = compressed_eth hdr @ hc_compressed_bytes ch @ optional_bytes ch tcp @
      [data_byte D 6, data_byte D 7] @ map (data_byte (pi_Data u)) [0..<8] @ map (data_byte (pi_Data v)) [0..<8]"
  using assms by (simp add: shifted_simps bytes_of_two_halves Let_def)

lemma shift_headers_one:
  assumes "ch_pad ch = 0" and "ch_seqChange ch \<longleftrightarrow> \<not> ch_ackChange ch"
  shows "\<exists>h. shift_headers 1 D (u # v # w # ws) (put_optional ch tcp (put_compressed ch hdr)) = Some (h, pi_Data w, ws) \<and>
    hdr_bytes 0 h = compressed_eth hdr @ hc_compressed_bytes ch @ optional_bytes ch tcp @
      [data_byte D 6, data_byte D 7] @ map (data_byte (pi_Data u)) [0..<8] @ map (data_byte (pi_Data v)) [0..<8] @ map (data_byte (pi_Data w)) [0..<4]"
  using assms by (cases "ch_ackChange ch") (simp_all add: shifted_simps bytes_of_two_halves Let_def)

lemma shift_headers_none:
  assumes "ch_pad ch = 0" and "\<not> ch_seqChange ch" and "\<not> ch_ackChange ch"
  shows "\<exists>h. shift_headers 0 D (u # v # w # ws) (put_optional ch tcp (put_compressed ch hdr)) = Some (h, pi_Data w, ws) \<and>
    hdr_bytes 0 h = compressed_eth hdr @ hc_compressed_bytes ch @ optional_bytes ch tcp @
      [data_byte D 6, data_byte D 7] @ map (data_byte (pi_Data u)) [0..<8] @ map (data_byte (pi_Data v)) [0..<8] @ map (data_byte (pi_Data w)) [0..<8]"
  using assms by (simp add: shifted_simps bytes_of_two_halves Let_def)

section \<open>Payload\<close>

definition payload_start :: "nat \<Rightarrow> u64 \<Rightarrow> u8 list" where
  "payload_start optional D = (if optional = 1 then map (data_byte D) [4..<8] else [])"

lemma move_tail:
  fixes D T :: u64
  assumes "1 \<le> r" and "r \<le> 7"
  shows "map (data_byte (set_rng 63 (64 - 8 * r) (rng (8 * r - 1) 0 D :: u64) T)) [0..<r] = map (\<lambda>i. data_byte D (8 - r + i)) [0..<r]"
  using carry_word_bytes [of r "8 - r" 8 D T] assms by simp

lemma forward_payload_frame:
  assumes "frame_ok ws"
  shows "\<exists>out skipped. forward_payload Temp0 optional D ws = Some (out, []) \<and> frame_ok out \<and> length skipped = 6 \<and> frame_bytes out = skipped @ payload_start optional D @ frame_bytes ws"
proof (cases "optional = 1")
  case True
  let ?first = "Temp0\<lparr>pi_End_of_frame := False, pi_Start_of_frame := False, pi_Count := 8, pi_Data := set_rng 15 0 (rng 31 16 D :: u16) (pi_Data Temp0)\<rparr>"
  let ?T = "?first\<lparr>pi_End_of_frame := False, pi_Start_of_frame := False, pi_Data := set_rng 63 48 (rng 15 0 D :: u64) (pi_Data ?first), pi_Count := 8\<rparr>"
  obtain out where out: "shift_words True 6 ?T ws = Some (out, [])" "frame_ok out" "frame_bytes out = map (data_byte (pi_Data ?T)) [0..<8 - 6] @ frame_bytes ws"
    using shift_words_frame [of 6 ws ?T True] assms by auto
  have T: "map (data_byte (pi_Data ?T)) [0..<2] = [data_byte D 6, data_byte D 7]"
    using move_tail [of 2 D "pi_Data ?first"] by (simp add: upt_numeral_bytes)
  have "data_byte (set_rng 15 0 (rng 31 16 D :: u16) (pi_Data Temp0)) i = data_byte D (i - 2)" if "i = 6 \<or> i = 7" for i
    using move_bytes [of 6 8 4 6 i, where ?'b = 16 and D = D and T = "pi_Data Temp0"] that by auto
  then have first: "frame_bytes (?first # out) = map (data_byte (pi_Data ?first)) [0..<6] @ [data_byte D 4, data_byte D 5] @ frame_bytes out"
    using map_upt_append [of "data_byte (pi_Data ?first)" 6 2] by (simp add: frame_bytes_Cons upt_numeral_bytes upt_word)
  have "forward_payload Temp0 optional D ws = Some (?first # out, [])" using True out(1) by (simp add: forward_payload_def Let_def del: One_nat_def)
  moreover have "frame_ok (?first # out)" using frame_ok_append [OF out(2), of "[?first]"] by simp
  moreover have "[4..<8] = [4, 5, 6, 7 :: nat]" by (simp add: upt_rec)
  then have "frame_bytes (?first # out) = map (data_byte (pi_Data ?first)) [0..<6] @ payload_start optional D @ frame_bytes ws"
    using True T out(3) unfolding first by (simp add: payload_start_def)
  ultimately show ?thesis by (metis length_map length_upt diff_zero)
next
  case False
  let ?T = "Temp0\<lparr>pi_End_of_frame := False, pi_Start_of_frame := False, pi_Data := set_rng 63 16 (rng 47 0 D :: u64) (pi_Data Temp0), pi_Count := 8\<rparr>"
  obtain out where out: "shift_words True 2 ?T ws = Some (out, [])" "frame_ok out" "frame_bytes out = map (data_byte (pi_Data ?T)) [0..<8 - 2] @ frame_bytes ws"
    using shift_words_frame [of 2 ws ?T True] assms by auto
  then have "forward_payload Temp0 optional D ws = Some (out, [])" using False by (simp add: forward_payload_def Let_def del: One_nat_def)
  then show ?thesis using out(2,3) False by (auto simp: payload_start_def)
qed

lemma shift_headers_all:
  assumes "ch_pad ch = 0" and "length vs = (if optionalNum ch = 2 then 2 else 3)"
  shows "\<exists>h. shift_headers (optionalNum ch) D (vs @ ws) (put_optional ch tcp (put_compressed ch hdr)) = Some (h, pi_Data (last vs), ws) \<and>
    hdr_bytes 0 h @ payload_start (optionalNum ch) (pi_Data (last vs)) =
      compressed_eth hdr @ hc_compressed_bytes ch @ optional_bytes ch tcp @ [data_byte D 6, data_byte D 7] @ concat (map (\<lambda>v. map (data_byte (pi_Data v)) [0..<8]) vs)"
proof (cases "ch_seqChange ch \<and> ch_ackChange ch")
  case True
  then obtain u v where "vs = [u, v]" using assms(2) by (auto simp: optionalNum_def length_Suc_conv numeral_2_eq_2)
  then show ?thesis using shift_headers_both [of ch D u v ws tcp hdr] assms(1) True by (auto simp: optionalNum_def payload_start_def numeral_2_eq_2)
next
  case False
  then have "length vs = Suc (Suc (Suc 0))" using assms(2) by (auto simp: optionalNum_def of_bool_def split: if_splits)
  then obtain u v w where vs: "vs = [u, v, w]" by (auto simp: length_Suc_conv)
  have four: "map f [0..<8] = map f [0..<4] @ map f [4..<8]" for f :: "nat \<Rightarrow> u8" by (simp add: upt_rec numeral_eq_Suc)
  show ?thesis
  proof (cases "ch_seqChange ch \<or> ch_ackChange ch")
    case True
    with False have "ch_seqChange ch \<longleftrightarrow> \<not> ch_ackChange ch" "optionalNum ch = 1" by (auto simp: optionalNum_def)
    then show ?thesis using shift_headers_one [of ch D u v w ws tcp hdr] assms(1) four [of "data_byte (pi_Data w)"] by (auto simp: payload_start_def vs)
  next
    case False
    then have "optionalNum ch = 0" by (simp add: optionalNum_def)
    then show ?thesis using shift_headers_none [of ch D u v w ws tcp hdr] assms(1) False by (auto simp: payload_start_def vs)
  qed
qed

section \<open>The compressor\<close>

lemma words_bytes:
  assumes "8 * (a + m) \<le> n"
  shows "concat (map (\<lambda>v. map (data_byte (pi_Data v)) [0..<8]) (map (frame_input p n) [a..<a + m])) = map p [8 * a..<8 * (a + m)]"
  using assms
proof (induction m)
  case (Suc m)
  have "map (data_byte (pi_Data (frame_input p n (a + m)))) [0..<8] = map p [8 * (a + m)..<8 * (a + m) + 8]"
    using Suc.prems by (intro nth_equalityI) (auto simp: frame_input_byte)
  moreover have "[8 * a..<8 * (a + m) + 8] = [8 * a..<8 * (a + m)] @ [8 * (a + m)..<8 * (a + m) + 8]" by (rule upt_add_eq_append) simp
  ultimately show ?case using Suc by (simp add: algebra_simps)
qed simp

lemma map_upt_join: "a \<le> b \<Longrightarrow> b \<le> c \<Longrightarrow> map p [a..<b] @ map p [b..<c] = map p [a..<c]"
  by (metis upt_add_eq_append le_add_diff_inverse map_append)

lemma compressor_hit:
  fixes t :: hc_tuples and cache :: hc_cache
  defines "hdr \<equiv> hc_Hdr t"
  defines "prev \<equiv> cache (ct_idx (cur_tuple hdr))" and "cur \<equiv> cur_tuple hdr"
  defines "ch \<equiv> compressed_header prev cur"
  assumes n: "100 \<le> n" "n < 65536" and t: "hc_Stateful_valid t" "85 < totallen (Ipv4 hdr)" and hit: "hc_isHit prev cur"
  shows "\<exists>out h. Compressor True Temp0 t (frame_stream p n) cache = Some (cache, t\<lparr>hc_Hdr := h\<rparr>, out, []) \<and> frame_ok out \<and>
    54 \<le> length (frame_bytes out) \<and> length (frame_bytes out) \<le> n \<and> frame_bytes out ! 21 = p 21 \<and>
    hdr_bytes 0 h @ drop 54 (frame_bytes out) = compressed_eth hdr @ hc_compressed_bytes ch @ optional_bytes ch (Tcp hdr) @ map p [54..<n]"
proof -
  let ?o = "optionalNum ch" and ?D = "pi_Data (frame_input p n 6)"
  define m where "m = (if ?o = 2 then 2 else 3 :: nat)"
  have m: "m \<le> 3" by (simp add: m_def)
  have pad: "ch_pad ch = 0" by (simp add: ch_def compressed_header_def)
  define head where "head = map (frame_input p n) [0..<6]"
  define vs where "vs = map (frame_input p n) [7..<7 + m]"
  have "8 * (7 + m) < n" using n(1) m by simp
  from frame_stream_split [OF this n(2), of p]
  obtain rest where rest: "frame_stream p n = map (frame_input p n) [0..<7 + m] @ rest" "frame_ok rest" "frame_bytes rest = map p [8 * (7 + m)..<n]"
    "\<forall>w\<in>set (map (frame_input p n) [0..<7 + m]). \<not> pi_End_of_frame w \<and> pi_Count w = 8" by blast
  have split: "[0..<7 + m] = [0..<6] @ 6 # [7..<7 + m]" using upt_add_eq_append [of 0 7 m] by (simp add: upt_rec)
  have stream: "frame_stream p n = head @ frame_input p n 6 # vs @ rest" unfolding rest(1) split by (simp add: head_def vs_def)
  have full: "\<forall>w\<in>set head. \<not> pi_End_of_frame w \<and> pi_Count w = 8" using rest(4) unfolding split head_def by simp
  have head: "frame_bytes head = map p [0..<48]"
    using frame_stream_split [of 6 n p] n by (auto simp: head_def)
  have "length vs = (if ?o = 2 then 2 else 3)" by (simp add: vs_def m_def)
  from shift_headers_all [OF pad this, of ?D rest "Tcp hdr" hdr]
  obtain h where h: "shift_headers ?o ?D (vs @ rest) (put_optional ch (Tcp hdr) (put_compressed ch hdr)) = Some (h, pi_Data (last vs), rest)"
    "hdr_bytes 0 h @ payload_start ?o (pi_Data (last vs)) =
      compressed_eth hdr @ hc_compressed_bytes ch @ optional_bytes ch (Tcp hdr) @ [data_byte ?D 6, data_byte ?D 7] @ concat (map (\<lambda>v. map (data_byte (pi_Data v)) [0..<8]) vs)"
    by blast
  obtain out skipped where out: "forward_payload Temp0 ?o (pi_Data (last vs)) rest = Some (out, [])" "frame_ok out" "length skipped = 6"
    "frame_bytes out = skipped @ payload_start ?o (pi_Data (last vs)) @ frame_bytes rest"
    using forward_payload_frame [OF rest(2)] by blast
  have bytes: "frame_bytes (head @ out) = (map p [0..<48] @ skipped) @ payload_start ?o (pi_Data (last vs)) @ frame_bytes rest"
    using head out(4) by (simp add: frame_bytes_def)
  have "[data_byte ?D 6, data_byte ?D 7] = map p [54..<56]" using frame_input_byte [of 6 6 n p] frame_input_byte [of 6 7 n p] n by (simp add: upt_rec)
  moreover have "concat (map (\<lambda>v. map (data_byte (pi_Data v)) [0..<8]) vs) = map p [56..<8 * (7 + m)]" using words_bytes [of 7 m n p] n m by (simp add: vs_def)
  moreover have "map p [54..<56] @ map p [56..<8 * (7 + m)] @ map p [8 * (7 + m)..<n] = map p [54..<n]"
  proof -
    have "map p [54..<56] @ map p [56..<8 * (7 + m)] = map p [54..<8 * (7 + m)]" by (rule map_upt_join) simp_all
    moreover have "map p [54..<8 * (7 + m)] @ map p [8 * (7 + m)..<n] = map p [54..<n]" by (rule map_upt_join) (use n m in simp_all)
    ultimately show ?thesis by (metis append_assoc)
  qed
  note parts = calculation this
  have all: "hdr_bytes 0 h @ drop 54 (frame_bytes (head @ out)) = compressed_eth hdr @ hc_compressed_bytes ch @ optional_bytes ch (Tcp hdr) @ map p [54..<n]"
  proof -
    have "drop 54 (frame_bytes (head @ out)) = payload_start ?o (pi_Data (last vs)) @ map p [8 * (7 + m)..<n]" unfolding bytes rest(3) using out(3) by simp
    then have "hdr_bytes 0 h @ drop 54 (frame_bytes (head @ out)) = (hdr_bytes 0 h @ payload_start ?o (pi_Data (last vs))) @ map p [8 * (7 + m)..<n]" by simp
    with parts show ?thesis unfolding h(2) by (simp del: map_append)
  qed
  have "Compressor True Temp0 t (frame_stream p n) cache = Some (cache, t\<lparr>hc_Hdr := h\<rparr>, head @ out, [])"
    using t hit h(1) out(1) unfolding hdr_def prev_def cur_def ch_def
    by (simp add: Compressor_def Let_def stream copy_words_append head_def cur_tuple_def)
  moreover have "frame_ok (head @ out)" using frame_ok_append [OF out(2) full] .
  moreover have "frame_bytes (head @ out) ! 21 = p 21" unfolding bytes by (simp add: nth_append)
  moreover have "54 \<le> length (frame_bytes (head @ out))" unfolding bytes using out(3) by simp
  moreover have "length (frame_bytes (head @ out)) \<le> n" unfolding bytes using out(3) rest(3) n m by (simp add: payload_start_def m_def)
  ultimately show ?thesis using all by blast
qed

end
