(* ===== verification/Hc_Restore.thy ===== *)
theory Hc_Restore
  imports Hc_Hit
begin

text \<open>
  A frame that the decompressor of the FPGA restores: the words that leave it, and the headers.
\<close>

section \<open>Payload\<close>

definition blank_word :: packet_interface where
  "blank_word = \<lparr>pi_Error = False, pi_Count = 8, pi_Data = 0, pi_End_of_frame = False, pi_Start_of_frame = False\<rparr>"

lemma data_byte_0: "data_byte 0 i = 0"
  by (rule bit_word_eqI) (simp add: bit_data_byte)

lemma upt_word_end: "map f [4..<8] = [f 4, f 5, f 6, f (7 :: nat)]"
  by (simp add: upt_rec numeral_eq_Suc)

lemma blank_frame:
  assumes "frame_ok outs" and "\<not> pi_End_of_frame first" and "pi_Count first = 8" and "\<forall>i<6. data_byte (pi_Data first) i = 0"
  shows "frame_ok (blank_word\<lparr>pi_Start_of_frame := True\<rparr> # replicate 5 blank_word @ first # outs)"
    and "frame_bytes (blank_word\<lparr>pi_Start_of_frame := True\<rparr> # replicate 5 blank_word @ first # outs) =
      replicate 54 0 @ [data_byte (pi_Data first) 6, data_byte (pi_Data first) 7] @ frame_bytes outs"
proof -
  show "frame_ok (blank_word\<lparr>pi_Start_of_frame := True\<rparr> # replicate 5 blank_word @ first # outs)"
    using frame_ok_append [OF assms(1), of "blank_word\<lparr>pi_Start_of_frame := True\<rparr> # replicate 5 blank_word @ [first]"] assms(2,3) by (simp add: blank_word_def)
  have "frame_bytes (replicate 5 blank_word @ first # outs) = replicate 40 0 @ frame_bytes (first # outs)"
    by (simp add: frame_bytes_def blank_word_def upt_word data_byte_0 numeral_eq_Suc)
  then show "frame_bytes (blank_word\<lparr>pi_Start_of_frame := True\<rparr> # replicate 5 blank_word @ first # outs) =
      replicate 54 0 @ [data_byte (pi_Data first) 6, data_byte (pi_Data first) 7] @ frame_bytes outs"
    using assms(3,4) by (simp add: frame_bytes_Cons upt_word blank_word_def data_byte_0 numeral_eq_Suc)
qed

lemma restored_packet_one:
  assumes "frame_ok ws"
  shows "\<exists>out. restored_packet 1 packet (w # ws) = Some (out, []) \<and> frame_ok out \<and> frame_bytes out = replicate 54 0 @ map (data_byte (pi_Data w)) [0..<8] @ frame_bytes ws"
proof -
  let ?D = "pi_Data w"
  let ?first = "blank_word\<lparr>pi_Data := set_rng 15 0 (rng 63 48 ?D :: u16) 0\<rparr>"
  let ?T = "?first\<lparr>pi_Data := set_rng 63 16 (rng 47 0 ?D :: u64) (pi_Data ?first)\<rparr>"
  obtain outs where outs: "shift_words False 2 ?T ws = Some (outs, [])" "frame_ok outs" "frame_bytes outs = map (data_byte (pi_Data ?T)) [0..<8 - 2] @ frame_bytes ws"
    using shift_words_frame [of 2 ws ?T False] assms by (auto simp: blank_word_def)
  have T: "map (data_byte (pi_Data ?T)) [0..<6] = [data_byte ?D 2, data_byte ?D 3, data_byte ?D 4, data_byte ?D 5, data_byte ?D 6, data_byte ?D 7]"
    using move_tail [of 6 ?D "pi_Data ?first"] by (simp add: upt_rec numeral_eq_Suc)
  have "data_byte (pi_Data ?first) i = (if i < 6 then 0 else data_byte ?D (i - 6))" if "i < 8" for i
    using move_bytes [of 6 8 0 2 i, where ?'b = 16 and D = ?D and T = 0] that by (simp add: data_byte_0)
  then have first: "\<forall>i<6. data_byte (pi_Data ?first) i = 0" "data_byte (pi_Data ?first) 6 = data_byte ?D 0" "data_byte (pi_Data ?first) 7 = data_byte ?D 1"
    by simp_all
  have "restored_packet 1 packet (w # ws) = Some (blank_word\<lparr>pi_Start_of_frame := True\<rparr> # replicate 5 blank_word @ ?first # outs, [])"
    using outs(1) by (simp add: restored_packet_def Let_def blank_word_def del: One_nat_def)
  then show ?thesis using blank_frame [OF outs(2), of ?first] outs(3) T first by (simp add: blank_word_def upt_word)
qed

lemma restored_packet_other:
  assumes "frame_ok ws" and "num \<noteq> 1"
  shows "\<exists>out. restored_packet num packet ws = Some (out, []) \<and> frame_ok out \<and> frame_bytes out = replicate 54 0 @ map (data_byte (pi_Data packet)) [4..<8] @ frame_bytes ws"
proof -
  let ?D = "pi_Data packet"
  let ?first = "blank_word\<lparr>pi_Data := set_rng 15 0 (rng 31 16 ?D :: u16) 0\<rparr>"
  let ?T = "?first\<lparr>pi_Data := set_rng 63 48 (rng 15 0 ?D :: u64) (pi_Data ?first)\<rparr>"
  obtain outs where outs: "shift_words False 6 ?T ws = Some (outs, [])" "frame_ok outs" "frame_bytes outs = map (data_byte (pi_Data ?T)) [0..<8 - 6] @ frame_bytes ws"
    using shift_words_frame [of 6 ws ?T False] assms by (auto simp: blank_word_def)
  have T: "map (data_byte (pi_Data ?T)) [0..<2] = map (\<lambda>i. data_byte ?D (6 + i)) [0..<2]"
    using move_tail [of 2 ?D "pi_Data ?first"] by simp
  have "data_byte (pi_Data ?first) i = (if i < 6 then 0 else data_byte ?D (i - 2))" if "i < 8" for i
    using move_bytes [of 6 8 4 6 i, where ?'b = 16 and D = ?D and T = 0] that by (simp add: data_byte_0)
  then have first: "\<forall>i<6. data_byte (pi_Data ?first) i = 0" "data_byte (pi_Data ?first) 6 = data_byte ?D 4" "data_byte (pi_Data ?first) 7 = data_byte ?D 5"
    by simp_all
  have "restored_packet num packet ws = Some (blank_word\<lparr>pi_Start_of_frame := True\<rparr> # replicate 5 blank_word @ ?first # outs, [])"
    using outs(1) assms(2) by (simp add: restored_packet_def Let_def blank_word_def del: One_nat_def)
  then show ?thesis using blank_frame [OF outs(2), of ?first] outs(3) T first by (simp add: blank_word_def upt_word_end upt_numeral_bytes)
qed

section \<open>The decompressor\<close>

definition optional_tcp :: "memory \<Rightarrow> tuple_cmp \<Rightarrow> tuple_tcp \<Rightarrow> tuple_tcp" where
  "optional_tcp q cmp tcp =
     (let tcp = (if cmp_seqChange cmp then tcp\<lparr>seq := be 4 q 28\<rparr> else tcp)
      in if cmp_ackChange cmp then tcp\<lparr>ack := be 4 q (if cmp_seqChange cmp then 32 else 28)\<rparr> else tcp)"

definition decompressed_hdr :: "memory \<Rightarrow> hc_compressorTuple \<Rightarrow> hc_hdr \<Rightarrow> hc_hdr" where
  "decompressed_hdr q ct hdr =
     (let h = restored_header ct (Cmp hdr) hdr in h\<lparr>Tcp := optional_tcp q (Cmp hdr) (Tcp h), Ipv4 := (Ipv4 h)\<lparr>hdrchecksum := chksumcalc (Ipv4 h)\<rparr>\<rparr>)"

lemma word_number:
  assumes "8 * i + 8 \<le> n"
  shows "rng 63 32 (pi_Data (frame_input p n i)) = (be 4 p (8 * i) :: u32)" and "rng 31 0 (pi_Data (frame_input p n i)) = (be 4 p (8 * i + 4) :: u32)"
proof -
  let ?D = "pi_Data (frame_input p n i)"
  have "be_bytes 4 (rng 63 32 ?D :: u32) = be_bytes 4 (be 4 p (8 * i) :: u32)" "be_bytes 4 (rng 31 0 ?D :: u32) = be_bytes 4 (be 4 p (8 * i + 4) :: u32)"
    using assms by (simp_all add: word_fields be_bytes_be upt_numeral_bytes frame_input_byte add.commute)
  then show "rng 63 32 ?D = (be 4 p (8 * i) :: u32)" "rng 31 0 ?D = (be 4 p (8 * i + 4) :: u32)" by (auto intro: be_bytes_inject [of 4])
qed

lemma decompressor_restores:
  fixes t :: hc_tuples and cache :: hc_cache
  defines "hdr \<equiv> hc_Hdr t"
  defines "cmp \<equiv> Cmp hdr"
  defines "o' \<equiv> of_bool (cmp_seqChange cmp) + of_bool (cmp_ackChange cmp) :: nat"
  assumes n: "60 \<le> n" "n < 65536" and t: "hc_Stateful_valid t" "cmp_isValid cmp"
  shows "\<exists>out. Decompressor t (frame_stream p n) cache = Some (cache, t\<lparr>hc_Hdr := decompressed_hdr p (cache (cmp_slotID cmp)) hdr, hc_Size := 0x1b0\<rparr>, out, []) \<and>
    frame_ok out \<and> frame_bytes out = replicate 54 0 @ map p [28 + 4 * o'..<n]"
proof -
  let ?w3 = "frame_input p n 3" and ?w4 = "frame_input p n 4"
  from frame_stream_split [of 4 n p] n
  obtain r4 where r4: "frame_stream p n = map (frame_input p n) [0..<4] @ r4" "frame_ok r4" "frame_bytes r4 = map p [32..<n]" by auto
  from frame_stream_split [of 5 n p] n
  obtain r5 where r5: "frame_stream p n = map (frame_input p n) [0..<5] @ r5" "frame_ok r5" "frame_bytes r5 = map p [40..<n]" by auto
  have upt: "[0..<4] = [0..<3] @ [3 :: nat]" "[0..<5] = [0..<4] @ [4 :: nat]" by (simp_all add: upt_rec numeral_eq_Suc)
  have r45: "r4 = ?w4 # r5" using r4(1) r5(1) unfolding upt(2) by simp
  have stream: "frame_stream p n = map (frame_input p n) [0..<3] @ ?w3 # r4" using r4(1) unfolding upt(1) by simp
  have b3: "map (data_byte (pi_Data ?w3)) [4..<8] = map p [28..<32]"
    and b4: "map (data_byte (pi_Data ?w4)) [0..<8] = map p [32..<40]" "map (data_byte (pi_Data ?w4)) [4..<8] = map p [36..<40]"
    using n by (intro nth_equalityI; simp add: frame_input_byte del: upt_rec_numeral)+
  have numbers: "rng 31 0 (pi_Data ?w3) = (be 4 p 28 :: u32)" "rng 63 32 (pi_Data ?w4) = (be 4 p 32 :: u32)"
    using word_number [of 3 n p] word_number [of 4 n p] n by simp_all
  let ?h = "decompressed_hdr p (cache (cmp_slotID cmp)) hdr" and ?tcp = "optional_tcp p cmp (Tcp (restored_header (cache (cmp_slotID cmp)) cmp hdr))"
  have run: "Decompressor t (frame_stream p n) cache = Some (cache, t\<lparr>hc_Hdr := ?h, hc_Size := 0x1b0\<rparr>, out, [])"
    if "read_optional cmp ?w3 r4 (Tcp (restored_header (cache (cmp_slotID cmp)) cmp hdr)) = Some (o', ?tcp, w, ws)" and "restored_packet o' w ws = Some (out, [])" for w ws out
    using that t unfolding hdr_def cmp_def by (simp add: Decompressor_def Let_def stream copy_words_append decompressed_hdr_def)
  consider "cmp_seqChange cmp" "cmp_ackChange cmp" | "cmp_seqChange cmp \<longleftrightarrow> \<not> cmp_ackChange cmp" | "\<not> cmp_seqChange cmp" "\<not> cmp_ackChange cmp" by blast
  then show ?thesis
  proof cases
    case 1
    then have "o' = 2" by (simp add: o'_def)
    with restored_packet_other [OF r5(2), of o' ?w4] obtain out where out: "restored_packet o' ?w4 r5 = Some (out, [])" "frame_ok out"
      "frame_bytes out = replicate 54 0 @ map p [36..<40] @ map p [40..<n]" unfolding b4 r5(3) by auto
    have "read_optional cmp ?w3 r4 (Tcp (restored_header (cache (cmp_slotID cmp)) cmp hdr)) = Some (o', ?tcp, ?w4, r5)"
      using 1 \<open>o' = 2\<close> numbers by (simp add: read_optional_def optional_tcp_def Let_def r45)
    from run [OF this out(1)] show ?thesis using out(2,3) \<open>o' = 2\<close> n map_upt_join [of 36 40 n p] by auto
  next
    case 2
    then have "o' = 1" by (auto simp: o'_def)
    with restored_packet_one [OF r5(2), of ?w3 ?w4] obtain out where out: "restored_packet o' ?w3 r4 = Some (out, [])" "frame_ok out"
      "frame_bytes out = replicate 54 0 @ map p [32..<40] @ map p [40..<n]" unfolding b4 r5(3) r45 by auto
    have "read_optional cmp ?w3 r4 (Tcp (restored_header (cache (cmp_slotID cmp)) cmp hdr)) = Some (o', ?tcp, ?w3, r4)"
      using 2 \<open>o' = 1\<close> numbers by (cases "cmp_ackChange cmp") (simp_all add: read_optional_def optional_tcp_def Let_def)
    from run [OF this out(1)] show ?thesis using out(2,3) \<open>o' = 1\<close> n map_upt_join [of 32 40 n p] by auto
  next
    case 3
    then have "o' = 0" by (simp add: o'_def)
    with restored_packet_other [OF r4(2), of o' ?w3] obtain out where out: "restored_packet o' ?w3 r4 = Some (out, [])" "frame_ok out"
      "frame_bytes out = replicate 54 0 @ map p [28..<32] @ map p [32..<n]" unfolding b3 r4(3) by auto
    have "read_optional cmp ?w3 r4 (Tcp (restored_header (cache (cmp_slotID cmp)) cmp hdr)) = Some (o', ?tcp, ?w3, r4)"
      using 3 \<open>o' = 0\<close> by (simp add: read_optional_def optional_tcp_def Let_def)
    from run [OF this out(1)] show ?thesis using out(2,3) \<open>o' = 0\<close> n map_upt_join [of 28 32 n p] by auto
  qed
qed

end
