(* ===== verification/Hc_Stream.thy ===== *)
theory Hc_Stream
  imports Hc_Restore
begin

text \<open>
  The compressor of the FPGA and the decompressor behind it, on a sequence of frames: which frames come through unchanged, and the relation between the two caches.
\<close>

section \<open>Numbers in a frame\<close>

lemma be_2I:
  assumes "q a = ucast (drop_bit 8 v)" and "q (a + 1) = ucast v"
  shows "be 2 q a = (v :: u16)"
proof (rule be_bytes_inject [of 2])
  have "be_bytes 2 (be 2 q a :: u16) = [q a, q (a + 1)]" by (simp add: be_bytes_be upt_numeral_bytes)
  then show "be_bytes 2 (be 2 q a :: u16) = be_bytes 2 v" unfolding be_bytes_2 [of v] assms .
qed simp

lemma be_in_buffer:
  assumes "LENGTH('a::len) = 8 * n" and "length A = a"
  shows "be n (in_buffer b (A @ be_bytes n (v :: 'a word) @ B)) a = v"
proof (rule be_bytes_inject [OF assms(1)])
  have "map (\<lambda>i. in_buffer b (A @ be_bytes n v @ B) (a + i)) [0..<n] = be_bytes n v"
    using assms(2) by (intro nth_equalityI) (auto simp: in_buffer_def nth_append)
  then show "be_bytes n (be n (in_buffer b (A @ be_bytes n v @ B)) a :: 'a word) = be_bytes n v" by (simp add: be_bytes_be [OF assms(1)])
qed

lemma be_cong: "(\<And>i. i < n \<Longrightarrow> p (a + i) = q (a + i)) \<Longrightarrow> be n p a = be n q a"
  unfolding be_def by (rule fold_cong) auto

lemma be_header: "\<forall>i<54. p i = q i \<Longrightarrow> a + n \<le> 54 \<Longrightarrow> be n p a = be n q a"
  by (rule be_cong) simp

lemma of_header:
  assumes "\<forall>i<54. p i = q i"
  shows "eth_of p eth = eth_of q eth" and "ip_of p ip = ip_of q ip" and "tcp_of p = tcp_of q"
  using assms by (simp_all add: eth_of_def ip_of_def tcp_of_def frag_of_def be_header [OF assms])

lemma slot_bits:
  fixes slot :: "10 word" and s a :: bool
  defines "y \<equiv> push_bit 6 (ucast slot) OR push_bit 5 (of_bool s) OR push_bit 4 (of_bool a) :: u8"
  shows "ucast (drop_bit 6 y) OR push_bit 2 (ucast (ucast (drop_bit 2 slot) :: u8)) = slot"
    and "ucast (drop_bit 5 y) \<noteq> (0 :: 1 word) \<longleftrightarrow> s" and "ucast (drop_bit 4 y) \<noteq> (0 :: 1 word) \<longleftrightarrow> a" and "ucast y = (0 :: 4 word)"
proof -
  have S: "\<not> n < 2 \<Longrightarrow> Suc (Suc (n - 2)) = n" for n by simp
  show "ucast (drop_bit 6 y) OR push_bit 2 (ucast (ucast (drop_bit 2 slot) :: u8)) = slot"
    by (rule bit_word_eqI) (auto simp: y_def bit_or_iff bit_push_bit_iff bit_unsigned_iff bit_drop_bit_eq bit_1_iff S dest: bit_imp_le_length)
  have "bit y 5 = s" "bit y 4 = a" by (auto simp: y_def bit_or_iff bit_push_bit_iff bit_unsigned_iff bit_1_iff)
  moreover have "v \<noteq> 0 \<longleftrightarrow> bit v 0" for v :: "1 word" by (cases "bit v 0") (auto intro!: bit_word_eqI)
  ultimately show "ucast (drop_bit 5 y) \<noteq> (0 :: 1 word) \<longleftrightarrow> s" "ucast (drop_bit 4 y) \<noteq> (0 :: 1 word) \<longleftrightarrow> a"
    by (simp_all add: bit_unsigned_iff bit_drop_bit_eq)
  show "ucast y = (0 :: 4 word)"
    by (rule bit_word_eqI) (auto simp: y_def bit_or_iff bit_push_bit_iff bit_unsigned_iff bit_1_iff)
qed

lemma cmp_of_compressed:
  assumes "length E = 14"
  shows "cmp_of (in_buffer b (E @ hc_compressed_bytes ch @ B)) =
    \<lparr>cmp_urgent = ch_urgent ch, cmp_check = ch_check ch, cmp_window = ch_window ch, cmp_flags = ch_flags ch, cmp_identification = ch_identification ch,
     cmp_totallen = ch_totallen ch, cmp_pad = 0, cmp_ackChange = ch_ackChange ch, cmp_seqChange = ch_seqChange ch, cmp_slotID = ch_slotID ch, cmp_isValid = True\<rparr>"
proof -
  define q where "q = in_buffer b (E @ hc_compressed_bytes ch @ B)"
  have bytes: "q 14 = ucast (drop_bit 2 (ch_slotID ch))"
    "q 15 = push_bit 6 (ucast (ch_slotID ch)) OR push_bit 5 (of_bool (ch_seqChange ch)) OR push_bit 4 (of_bool (ch_ackChange ch))"
    using assms by (simp_all add: q_def in_buffer_def nth_append hc_compressed_bytes_def)
  have "be 2 q 16 = ch_totallen ch" "be 2 q 18 = ch_identification ch" "be 2 q 20 = ch_flags ch" "be 2 q 22 = ch_window ch" "be 2 q 24 = ch_check ch" "be 2 q 26 = ch_urgent ch"
    using assms by (intro be_2I; simp add: q_def in_buffer_def nth_append hc_compressed_bytes_def be_bytes_2)+
  then show ?thesis unfolding q_def [symmetric] cmp_of_def bytes slot_bits by simp
qed

section \<open>Frames that come through\<close>

definition frame_hdr :: "u8 list \<Rightarrow> hc_hdr \<Rightarrow> hc_hdr" where
  \<comment> \<open>the headers of a frame, in a tuple with something in it\<close>
  "frame_hdr f hdr = hdr\<lparr>hc_Eth := eth_of ((!) f) (hc_Eth hdr), Ipv4 := ip_of ((!) f) (Ipv4 hdr), Tcp := tcp_of ((!) f)\<rparr>"

definition hc_key :: "hc_compressorTuple \<Rightarrow> u32 \<times> u32 \<times> u16 \<times> u16" where
  "hc_key ct = (srcAddr (ct_ipHeader ct), dstAddr (ct_ipHeader ct), sport (ct_tcpHeader ct), dport (ct_tcpHeader ct))"

definition frame_key :: "u8 list \<Rightarrow> u32 \<times> u32 \<times> u16 \<times> u16" where
  "frame_key f = (be 4 ((!) f) 26, be 4 ((!) f) 30, be 2 ((!) f) 34, be 2 ((!) f) 36)"

definition frame_static :: "u8 list \<Rightarrow> u8 list" where
  \<comment> \<open>version, length of the header, service, flags, fragment offset, time to live and protocol\<close>
  "frame_static f = [f ! 14, f ! 15, f ! 20, f ! 22, f ! 23]"

definition frame_totallen :: "u8 list \<Rightarrow> u16" where
  "frame_totallen f = be 2 ((!) f) 16"

definition hc_frame_ok :: "(u32 \<times> u32 \<times> u16 \<times> u16 \<Rightarrow> u8 list) \<Rightarrow> u8 list \<Rightarrow> bool" where
  \<comment> \<open>a frame of the Internet Protocol; one that is long enough for compression is as long as its header says, not a fragment, has the fixed fields of its flow, which is not
    that of the empty cache\<close>
  "hc_frame_ok F f \<longleftrightarrow>
     54 \<le> length f \<and> length f \<le> 2048 \<and> be 2 ((!) f) 12 = (0x0800 :: u16) \<and>
     (85 < frame_totallen f \<longrightarrow>
        14 + unat (frame_totallen f) \<le> length f \<and> f ! 21 = 0 \<and> frame_static f = F (frame_key f) \<and> frame_key f \<noteq> (0, 0, 0, 0))"

definition is_ip_frame :: "u8 list \<Rightarrow> bool" where
  "is_ip_frame f \<longleftrightarrow> be 2 ((!) f) 12 = (0x0800 :: u16)"

definition with_checksum :: "u8 list \<Rightarrow> u8 list" where
  \<comment> \<open>the frame with the checksum that \<open>chksumcalc\<close> computes for its header\<close>
  "with_checksum f = take 24 f @ be_bytes 2 (chksumcalc (ip_of ((!) f) zero_ipv4)) @ drop 26 f"

lemma with_checksum_nth:
  assumes "54 \<le> length f"
  shows "length (with_checksum f) = length f" and "i \<noteq> 24 \<Longrightarrow> i \<noteq> 25 \<Longrightarrow> i < length f \<Longrightarrow> with_checksum f ! i = f ! i"
    and "be 2 ((!) (with_checksum f)) 24 = chksumcalc (ip_of ((!) f) zero_ipv4)"
proof -
  let ?v = "chksumcalc (ip_of ((!) f) zero_ipv4)"
  show "length (with_checksum f) = length f" using assms by (simp add: with_checksum_def)
  show "with_checksum f ! i = f ! i" if "i \<noteq> 24" "i \<noteq> 25" "i < length f"
  proof (cases "i < 24")
    case False
    then have "26 \<le> i" "\<not> i - 24 < 2" using that by simp_all
    then show ?thesis using that assms by (simp add: with_checksum_def nth_append)
  qed (use assms in \<open>simp add: with_checksum_def nth_append\<close>)
  show "be 2 ((!) (with_checksum f)) 24 = ?v" using assms by (intro be_2I) (simp_all add: with_checksum_def nth_append be_bytes_2)
qed

lemma with_checksum_of:
  assumes "54 \<le> length f"
  shows "ip_of ((!) (with_checksum f)) zero_ipv4 = (ip_of ((!) f) zero_ipv4)\<lparr>hdrchecksum := chksumcalc (ip_of ((!) f) zero_ipv4)\<rparr>"
    and "tcp_of ((!) (with_checksum f)) = tcp_of ((!) f)" and "eth_of ((!) (with_checksum f)) eth = eth_of ((!) f) eth"
    and "drop 54 (with_checksum f) = drop 54 f"
proof -
  note same = with_checksum_nth(2) [OF assms]
  have b: "be n ((!) (with_checksum f)) a = be n ((!) f) a" if "a + n \<le> 24 \<or> 26 \<le> a \<and> a + n \<le> 54" for n a
    using that assms by (intro be_cong same) auto
  show "ip_of ((!) (with_checksum f)) zero_ipv4 = (ip_of ((!) f) zero_ipv4)\<lparr>hdrchecksum := chksumcalc (ip_of ((!) f) zero_ipv4)\<rparr>"
    unfolding with_checksum_nth(3) [OF assms, symmetric] using assms by (simp add: ip_of_def frag_of_def b same)
  show "tcp_of ((!) (with_checksum f)) = tcp_of ((!) f)" "eth_of ((!) (with_checksum f)) eth = eth_of ((!) f) eth"
    by (simp_all add: tcp_of_def eth_of_def b)
  show "drop 54 (with_checksum f) = drop 54 f" using assms by (simp add: with_checksum_def)
qed

lemma with_checksum_same:
  assumes "54 \<le> length f" and "be 2 ((!) f) 24 = chksumcalc (ip_of ((!) f) zero_ipv4)"
  shows "with_checksum f = f"
proof -
  have "be_bytes 2 (chksumcalc (ip_of ((!) f) zero_ipv4)) = map (\<lambda>i. f ! (24 + i)) [0..<2]" unfolding assms(2) [symmetric] by (simp add: be_bytes_be)
  also have "\<dots> = take 2 (drop 24 f)" using assms(1) by (intro nth_equalityI) auto
  finally show ?thesis using append_take_drop_id [of 24 f] append_take_drop_id [of 2 "drop 24 f"] by (simp add: with_checksum_def)
qed

lemma buffer_header: "54 \<le> length f \<Longrightarrow> \<forall>i<54. in_buffer b f i = f ! i"
  by (simp add: in_buffer_def)

lemma transfer_in_frame:
  assumes "hc_frame_ok F f"
  shows "transfer_in compressor (in_buffer b f) hdr 0 = (frame_hdr f hdr, 0)"
proof -
  have h: "\<forall>i<54. in_buffer b f i = f ! i" using assms by (simp add: hc_frame_ok_def buffer_header)
  have "be 2 (in_buffer b f) 12 = (0x0800 :: u16)" using assms be_header [OF h, of 12 2, where ?'a = 16] by (simp add: hc_frame_ok_def)
  from transfer_in_ip [OF this] show ?thesis by (simp add: frame_hdr_def of_header [OF h])
qed

lemma frame_bytes_stream:
  assumes "hc_frame_ok F f"
  shows "frame_ok (frame_stream (in_buffer b f) (length f)) \<and> frame_bytes (frame_stream (in_buffer b f) (length f)) = f"
proof -
  have "0 < length f" "length f < 65536" using assms by (auto simp: hc_frame_ok_def)
  from frame_stream_ok [OF this, of "in_buffer b f"] show ?thesis by (auto simp: in_buffer_def intro: nth_equalityI)
qed

lemma emit_unchanged:
  assumes f: "hc_frame_ok F f" and "\<not> hc_forward t" and "hc_Hdr t = frame_hdr f hdr" and "flow = 0 \<or> flow = 1"
  shows "emit_frame flow buf t (frame_stream (in_buffer b f) (length f)) 0 = Some (f, 0)"
proof -
  have len: "54 \<le> length f" "length f \<le> 2048" using f by (simp_all add: hc_frame_ok_def)
  note stream = conjunct1 [OF frame_bytes_stream [OF f]] conjunct2 [OF frame_bytes_stream [OF f]]
  have h: "hdr_bytes old (hc_Hdr t) = map (\<lambda>i. if i = 21 then old OR (f ! 21 AND 0x1F) else f ! i) [0..<54]" for old
    using hdr_of_bytes [where p = "(!) f" and hdr = hdr and eth = "hc_Eth hdr" and ip = "Ipv4 hdr" and old = old] assms(3) by (simp add: frame_hdr_def)
  have o: "f ! 21 OR (f ! 21 AND 0x1F) = f ! 21" by (rule bit_word_eqI) (auto simp: bit_or_iff bit_and_iff)
  have "hdr_bytes (f ! 21) (hc_Hdr t) = take 54 f" unfolding h using len o by (auto intro!: nth_equalityI)
  moreover have "map2 (OR) (take 54 f) (hdr_bytes 0 (hc_Hdr t)) = take 54 f" unfolding h using len o by (auto intro!: nth_equalityI)
  ultimately show ?thesis using emit_frame_bytes [OF stream len assms(2), where buf = buf] assms(4) by auto
qed

section \<open>Caches\<close>

definition entry_ok :: "(u32 \<times> u32 \<times> u16 \<times> u16 \<Rightarrow> u8 list) \<Rightarrow> hc_compressorTuple \<Rightarrow> bool" where
  "entry_ok F ct \<longleftrightarrow> hc_key ct = (0, 0, 0, 0) \<or>
     (\<exists>f. hc_frame_ok F f \<and> 85 < frame_totallen f \<and> (ct_ipHeader ct)\<lparr>ip_isValid := False\<rparr> = ip_of ((!) f) zero_ipv4 \<and> ct_tcpHeader ct = tcp_of ((!) f))"

definition hc_caches_agree :: "(u32 \<times> u32 \<times> u16 \<times> u16 \<Rightarrow> u8 list) \<Rightarrow> hc_cache \<Rightarrow> hc_cache \<Rightarrow> bool" where
  \<comment> \<open>the same headers, but for a bit that no header has, each of a frame\<close>
  "hc_caches_agree F c d \<longleftrightarrow>
     (\<forall>i. ct_tcpHeader (c i) = ct_tcpHeader (d i) \<and> (ct_ipHeader (c i))\<lparr>ip_isValid := False\<rparr> = (ct_ipHeader (d i))\<lparr>ip_isValid := False\<rparr> \<and> entry_ok F (c i))"

lemma hc_caches_agree_init: "hc_caches_agree F hc_cache_init hc_cache_init"
  by (simp add: hc_caches_agree_def entry_ok_def hc_key_def hc_cache_init_def zero_ipv4_def zero_tcp_def)

lemma frame_hdr_simps [simp]:
  "Ipv4 (frame_hdr f hdr) = ip_of ((!) f) (Ipv4 hdr)" "Tcp (frame_hdr f hdr) = tcp_of ((!) f)" "hc_Eth (frame_hdr f hdr) = eth_of ((!) f) (hc_Eth hdr)"
  "Cmp (frame_hdr f hdr) = Cmp hdr" "totallen (ip_of ((!) f) ip) = frame_totallen f"
  by (simp_all add: frame_hdr_def ip_of_def frame_totallen_def)

lemma ip_of_valid: "(ip_of p ip)\<lparr>ip_isValid := False\<rparr> = ip_of p zero_ipv4"
  by (simp add: ip_of_def zero_ipv4_def)

definition frame_index :: "u8 list \<Rightarrow> 10 word" where
  "frame_index f = crchash (ip_of ((!) f) zero_ipv4) (tcp_of ((!) f))"

lemma cur_tuple_frame:
  "ct_idx (cur_tuple (frame_hdr f hdr)) = frame_index f" "ct_ipHeader (cur_tuple (frame_hdr f hdr)) = ip_of ((!) f) (Ipv4 hdr)"
  "ct_tcpHeader (cur_tuple (frame_hdr f hdr)) = tcp_of ((!) f)"
  by (simp_all add: cur_tuple_def frame_index_def crchash_def ip_of_def)

lemma hc_caches_agree_update:
  assumes "hc_caches_agree F c d" and "hc_frame_ok F f" and "85 < frame_totallen f"
  shows "hc_caches_agree F (c(i := cur_tuple (frame_hdr f hdr))) (d(i := cur_tuple (frame_hdr f hdr')))"
proof -
  have "entry_ok F (cur_tuple (frame_hdr f hdr))" using assms(2,3) unfolding entry_ok_def cur_tuple_frame ip_of_valid by blast
  then show ?thesis using assms(1) unfolding hc_caches_agree_def by (simp add: cur_tuple_frame ip_of_valid)
qed

section \<open>Frames that are not compressed\<close>

abbreviation hc_at :: "hc_cache \<Rightarrow> hc_state" where
  "hc_at c \<equiv> \<lparr>st_in_offset = 0, st_out_offset = 0, st_cache = c\<rparr>"

definition cache_frame :: "u8 list \<Rightarrow> hc_hdr \<Rightarrow> hc_cache \<Rightarrow> hc_cache" where
  "cache_frame f hdr c = (if 85 < frame_totallen f then c(frame_index f := cur_tuple (frame_hdr f hdr)) else c)"

lemma frame_large:
  assumes "hc_frame_ok F f"
  shows "\<not> length f < ETH_SIZE + UDP_SIZE + IPV4_SIZE"
  using assms by (simp add: hc_frame_ok_def ETH_SIZE_def UDP_SIZE_def IPV4_SIZE_def)

lemma input_of_simps [simp]:
  "hc_Hdr (input_of hdr t) = hdr" "hc_Stateful_valid (input_of hdr t)" "\<not> hc_forward (input_of hdr t)"
  by (simp_all add: input_of_def)

lemma decompressor_passes:
  assumes "hc_frame_ok F f" and "\<not> cmp_isValid (Cmp (hc_Hdr (loc_tuple loc)))"
  shows "call_decompressor loc 1 (in_buffer b f) (length f) (hc_at d) = Some (hc_at (cache_frame f (hc_Hdr (loc_tuple loc)) d), [f])"
proof -
  note stream = frame_bytes_stream [OF assms(1), of b]
  show ?thesis using assms emit_unchanged [OF assms(1), of "input_of (frame_hdr f (hc_Hdr (loc_tuple loc))) (loc_tuple loc)"]
    by (simp add: call_decompressor_def frame_large transfer_in_frame [OF assms(1)] Decompressor_def Let_def ejectPacket_frame stream cache_frame_def cur_tuple_frame)
qed

lemma compressor_passes:
  assumes "hc_frame_ok F f" and "85 < frame_totallen f \<Longrightarrow> \<not> hc_isHit (c (frame_index f)) (cur_tuple (frame_hdr f (hc_Hdr (loc_tuple loc))))"
  shows "call_compressor loc 0 (in_buffer b f) (length f) (hc_at c) = Some (hc_at (cache_frame f (hc_Hdr (loc_tuple loc)) c), [f])"
proof -
  note stream = frame_bytes_stream [OF assms(1), of b]
  show ?thesis using assms emit_unchanged [OF assms(1), of "input_of (frame_hdr f (hc_Hdr (loc_tuple loc))) (loc_tuple loc)"]
    by (simp add: call_compressor_def frame_large transfer_in_frame [OF assms(1)] Compressor_def Let_def ejectPacket_frame stream cache_frame_def cur_tuple_frame)
qed

section \<open>Frames that are compressed\<close>

definition compressed_frame :: "hc_compressedHeader \<Rightarrow> u8 list \<Rightarrow> u8 list" where
  "compressed_frame ch f = take 12 f @ be_bytes 2 ETYPE_COMPRESSED_hls @ hc_compressed_bytes ch @ optional_bytes ch (tcp_of ((!) f)) @ drop 54 f"

lemma compressed_eth_frame:
  assumes "54 \<le> length f"
  shows "compressed_eth (frame_hdr f hdr) = take 12 f @ be_bytes 2 ETYPE_COMPRESSED_hls"
proof -
  let ?e = "eth_of ((!) f) (hc_Eth hdr)"
  have "eth_bytes ?e = map ((!) f) [0..<12 + 2]" by (simp add: eth_of_bytes)
  also have "\<dots> = take 12 f @ map (\<lambda>i. f ! (12 + i)) [0..<2]"
    using assms by (simp only: map_upt_append [symmetric]) (auto intro!: nth_equalityI simp: nth_append)
  finally have "be_bytes 6 (eth_Dst ?e) @ be_bytes 6 (eth_Src ?e) = take 12 f"
    by (simp add: eth_bytes_def append_assoc [symmetric] append_eq_append_conv del: append_assoc)
  then show ?thesis by (simp add: compressed_eth_def eth_bytes_def append_assoc [symmetric] del: append_assoc)
qed

lemma frame_long:
  assumes "hc_frame_ok F f" and "85 < frame_totallen f"
  shows "100 \<le> length f" and "length f < 65536" and "length f \<le> 2048"
proof -
  have "85 < unat (frame_totallen f)" using assms(2) by (simp add: word_less_nat_alt)
  then show "100 \<le> length f" "length f < 65536" "length f \<le> 2048" using assms by (auto simp: hc_frame_ok_def)
qed

lemma compressor_compresses:
  assumes f: "hc_frame_ok F f" "85 < frame_totallen f" and hit: "hc_isHit (c (frame_index f)) (cur_tuple (frame_hdr f (hc_Hdr (loc_tuple loc))))"
  shows "call_compressor loc 0 (in_buffer b f) (length f) (hc_at c) =
    Some (hc_at c, [compressed_frame (compressed_header (c (frame_index f)) (cur_tuple (frame_hdr f (hc_Hdr (loc_tuple loc))))) f])"
proof -
  let ?hdr = "frame_hdr f (hc_Hdr (loc_tuple loc))" and ?p = "in_buffer b f"
  let ?t = "input_of ?hdr (loc_tuple loc)" and ?ch = "compressed_header (c (frame_index f)) (cur_tuple (frame_hdr f (hc_Hdr (loc_tuple loc))))"
  note len = frame_long [OF f]
  obtain out h where out: "Compressor True (loc_Temp loc) ?t (frame_stream ?p (length f)) c = Some (c, ?t\<lparr>hc_Hdr := h\<rparr>, out, [])" "frame_ok out"
    "54 \<le> length (frame_bytes out)" "length (frame_bytes out) \<le> length f" "frame_bytes out ! 21 = ?p 21"
    "hdr_bytes 0 h @ drop 54 (frame_bytes out) = compressed_eth ?hdr @ hc_compressed_bytes ?ch @ optional_bytes ?ch (Tcp ?hdr) @ map ?p [54..<length f]"
  proof -
    have "85 < totallen (Ipv4 (hc_Hdr ?t))" "hc_isHit (c (ct_idx (cur_tuple (hc_Hdr ?t)))) (cur_tuple (hc_Hdr ?t))" using f(2) hit by (simp_all add: cur_tuple_frame)
    from compressor_hit [where cache = c and p = ?p and ?Temp0.0 = "loc_Temp loc", OF len(1,2) input_of_simps(2) this] show ?thesis
      using that by (simp only: input_of_simps cur_tuple_frame) blast
  qed
  have "map ?p [54..<length f] = drop 54 f" by (intro nth_equalityI) (auto simp: in_buffer_def)
  moreover have "?p 21 = 0" using f len by (simp add: in_buffer_def hc_frame_ok_def)
  ultimately have "emit_frame 0 (\<lambda>_. 0) (?t\<lparr>hc_Hdr := h\<rparr>) out 0 = Some (compressed_frame ?ch f, 0)"
    using emit_frame_bytes(1) [OF out(2) refl out(3), of "?t\<lparr>hc_Hdr := h\<rparr>"] out(4-6) len by (simp add: compressed_frame_def compressed_eth_frame input_of_def)
  then show ?thesis using out(1) by (simp add: call_compressor_def frame_large [OF f(1)] transfer_in_frame [OF f(1)])
qed

lemma checksum_cong: "chksumcalc (ip\<lparr>hdrchecksum := v\<rparr>) = chksumcalc ip" "chksumcalc (ip\<lparr>ip_isValid := w\<rparr>) = chksumcalc ip"
  by (simp_all add: chksumcalc_def)

lemma ipv4_bytes_valid: "ipv4_bytes old (ip\<lparr>ip_isValid := v\<rparr>) = ipv4_bytes old ip"
  by (simp add: ipv4_bytes_def)

lemma cached_header:
  assumes f: "hc_frame_ok F f" "85 < frame_totallen f" and ct: "entry_ok F ct" and hit: "hc_isHit ct (cur_tuple (frame_hdr f hdr))"
  shows "((ct_ipHeader ct)\<lparr>ip_isValid := False\<rparr>)\<lparr>identification := be 2 ((!) f) 18, totallen := frame_totallen f, hdrchecksum := be 2 ((!) f) 24\<rparr> = ip_of ((!) f) zero_ipv4"
    and "(ct_tcpHeader ct)\<lparr>urgent := be 2 ((!) f) 52, tcp_flags := be 2 ((!) f) 46, window := be 2 ((!) f) 48, check := be 2 ((!) f) 50,
      seq := be 4 ((!) f) 38, ack := be 4 ((!) f) 42\<rparr> = tcp_of ((!) f)"
proof -
  have key: "hc_key ct = frame_key f" using hit by (simp add: hc_isHit_def hc_key_def frame_key_def cur_tuple_frame ip_of_def tcp_of_def)
  then obtain f0 where f0: "hc_frame_ok F f0" "85 < frame_totallen f0" "(ct_ipHeader ct)\<lparr>ip_isValid := False\<rparr> = ip_of ((!) f0) zero_ipv4" "ct_tcpHeader ct = tcp_of ((!) f0)"
    using ct f by (auto simp: entry_ok_def hc_frame_ok_def)
  have "srcAddr (ct_ipHeader ct) = be 4 ((!) f0) 26" "dstAddr (ct_ipHeader ct) = be 4 ((!) f0) 30"
    using arg_cong [OF f0(3), of srcAddr] arg_cong [OF f0(3), of dstAddr] by (simp_all add: ip_of_def)
  then have key0: "frame_key f0 = frame_key f" using key by (simp add: hc_key_def frame_key_def f0(4) tcp_of_def)
  have "frame_static f0 = frame_static f" "f0 ! 21 = f ! 21" using f f0 key0 by (simp_all add: hc_frame_ok_def)
  note same = this key0
  show "((ct_ipHeader ct)\<lparr>ip_isValid := False\<rparr>)\<lparr>identification := be 2 ((!) f) 18, totallen := frame_totallen f, hdrchecksum := be 2 ((!) f) 24\<rparr> = ip_of ((!) f) zero_ipv4"
    unfolding f0(3) using same by (simp add: ip_of_def frame_totallen_def frame_static_def frame_key_def frag_of_def)
  show "(ct_tcpHeader ct)\<lparr>urgent := be 2 ((!) f) 52, tcp_flags := be 2 ((!) f) 46, window := be 2 ((!) f) 48, check := be 2 ((!) f) 50,
      seq := be 4 ((!) f) 38, ack := be 4 ((!) f) 42\<rparr> = tcp_of ((!) f)"
    unfolding f0(4) using same by (simp add: tcp_of_def frame_key_def)
qed

lemma buffer_tail: "length A = a \<Longrightarrow> map (in_buffer b (A @ B)) [a..<length (A @ B)] = B"
  by (rule nth_equalityI) (auto simp: in_buffer_def nth_append)

lemma optional_tcp_bytes:
  assumes "length A = 28" and "cmp_seqChange cmp = ch_seqChange ch" and "cmp_ackChange cmp = ch_ackChange ch"
  shows "optional_tcp (in_buffer b (A @ optional_bytes ch tcp @ B)) cmp tcp0 =
    tcp0\<lparr>seq := if ch_seqChange ch then seq tcp else seq tcp0, ack := if ch_ackChange ch then ack tcp else ack tcp0\<rparr>"
proof -
  let ?q = "in_buffer b (A @ optional_bytes ch tcp @ B)"
  have s: "be 4 ?q 28 = seq tcp" if "ch_seqChange ch"
    using be_in_buffer [of 4 A 28 b "seq tcp" "(if ch_ackChange ch then be_bytes 4 (ack tcp) else []) @ B"] assms(1) that by (simp add: optional_bytes_def)
  have a: "be 4 ?q 28 = ack tcp" if "\<not> ch_seqChange ch" "ch_ackChange ch"
    using be_in_buffer [of 4 A 28 b "ack tcp" B] assms(1) that by (simp add: optional_bytes_def)
  have sa: "be 4 ?q 32 = ack tcp" if "ch_seqChange ch" "ch_ackChange ch"
    using be_in_buffer [of 4 "A @ be_bytes 4 (seq tcp)" 32 b "ack tcp" B] assms(1) that by (simp add: optional_bytes_def)
  show ?thesis using s a sa assms(2,3) by (cases "ch_seqChange ch"; cases "ch_ackChange ch") (simp_all add: optional_tcp_def)
qed

lemma decompressor_restores_frame:
  assumes f: "hc_frame_ok F f" "85 < frame_totallen f" and agree: "hc_caches_agree F c d" and hit: "hc_isHit (c (frame_index f)) (cur_tuple (frame_hdr f hdr))"
  defines "g \<equiv> compressed_frame (compressed_header (c (frame_index f)) (cur_tuple (frame_hdr f hdr))) f"
  shows "call_decompressor loc 1 (in_buffer b g) (length g) (hc_at d) = Some (hc_at d, [with_checksum f])"
proof -
  define ch where "ch = compressed_header (c (frame_index f)) (cur_tuple (frame_hdr f hdr))"
  define q where "q = in_buffer b g"
  define dt where "dt = d (frame_index f)"
  let ?L = "hc_Hdr (loc_tuple loc)"
  let ?h = "?L\<lparr>hc_Eth := eth_of q (hc_Eth ?L), Cmp := cmp_of q\<rparr>"
  let ?t = "input_of ?h (loc_tuple loc)"
  note len = frame_long [OF f]
  have g: "g = ((take 12 f @ be_bytes 2 ETYPE_COMPRESSED_hls) @ hc_compressed_bytes ch) @ optional_bytes ch (tcp_of ((!) f)) @ drop 54 f"
    by (simp add: g_def ch_def compressed_frame_def)
  have head: "length (take 12 f @ be_bytes 2 ETYPE_COMPRESSED_hls) = 14" "length ((take 12 f @ be_bytes 2 ETYPE_COMPRESSED_hls) @ hc_compressed_bytes ch) = 28" using len by simp_all
  have g_len: "length g = 28 + 4 * optionalNum ch + (length f - 54)" unfolding g using head by (simp add: length_optional_bytes)
  have o: "optionalNum ch \<le> 2" by (simp add: optionalNum_def)
  have len_g: "60 \<le> length g" "length g < 65536" using g_len len o by simp_all
  have type: "be 2 q 12 = (0x1234 :: u16)"
    using be_in_buffer [of 2 "take 12 f" 12 b ETYPE_COMPRESSED_hls] len unfolding q_def g by (simp add: ETYPE_COMPRESSED_hls_def)
  have cmp: "cmp_of q = \<lparr>cmp_urgent = ch_urgent ch, cmp_check = ch_check ch, cmp_window = ch_window ch, cmp_flags = ch_flags ch, cmp_identification = ch_identification ch,
     cmp_totallen = ch_totallen ch, cmp_pad = 0, cmp_ackChange = ch_ackChange ch, cmp_seqChange = ch_seqChange ch, cmp_slotID = ch_slotID ch, cmp_isValid = True\<rparr>"
    using cmp_of_compressed [OF head(1)] unfolding q_def g by simp
  have tail: "map q [28 + 4 * optionalNum ch..<length g] = drop 54 f"
    using buffer_tail [of "((take 12 f @ be_bytes 2 ETYPE_COMPRESSED_hls) @ hc_compressed_bytes ch) @ optional_bytes ch (tcp_of ((!) f))" "28 + 4 * optionalNum ch" b "drop 54 f"] head
    unfolding q_def g by (simp only: append_assoc length_append length_optional_bytes)
  obtain out where out: "Decompressor ?t (frame_stream q (length g)) d = Some (d, ?t\<lparr>hc_Hdr := decompressed_hdr q (d (ch_slotID ch)) ?h, hc_Size := 0x1b0\<rparr>, out, [])"
    "frame_ok out" "frame_bytes out = replicate 54 0 @ drop 54 f"
  proof -
    have c: "Cmp (hc_Hdr ?t) = cmp_of q" by simp
    have v: "cmp_isValid (Cmp (hc_Hdr ?t))" unfolding c by (simp add: cmp)
    have n: "of_bool (cmp_seqChange (cmp_of q)) + of_bool (cmp_ackChange (cmp_of q)) = optionalNum ch" "cmp_slotID (cmp_of q) = ch_slotID ch"
      by (simp_all add: cmp optionalNum_def)
    from decompressor_restores [where cache = d and p = q, OF len_g input_of_simps(2) v] show ?thesis
      using that unfolding c n tail by (simp only: input_of_simps) blast
  qed
  define h' where "h' = decompressed_hdr q (d (ch_slotID ch)) ?h"
  have agreed: "ct_tcpHeader dt = ct_tcpHeader (c (frame_index f))"
    "(ct_ipHeader dt)\<lparr>ip_isValid := False\<rparr> = (ct_ipHeader (c (frame_index f)))\<lparr>ip_isValid := False\<rparr>" "entry_ok F (c (frame_index f))"
    using agree by (simp_all add: hc_caches_agree_def dt_def)
  have h': "h' = decompressed_hdr q dt ?h" by (simp add: h'_def dt_def ch_def compressed_header_def cur_tuple_frame)
  define ct where "ct = c (frame_index f)"
  have hit': "hc_isHit ct (cur_tuple (frame_hdr f hdr))" using hit by (simp add: ct_def)
  note cached = cached_header [OF f agreed(3) [folded ct_def] hit']
  have ch_fields: "ch_totallen ch = frame_totallen f" "ch_identification ch = be 2 ((!) f) 18" "ch_flags ch = be 2 ((!) f) 46" "ch_window ch = be 2 ((!) f) 48"
    "ch_check ch = be 2 ((!) f) 50" "ch_urgent ch = be 2 ((!) f) 52" "ch_seqChange ch \<longleftrightarrow> seq (ct_tcpHeader ct) \<noteq> be 4 ((!) f) 38"
    "ch_ackChange ch \<longleftrightarrow> ack (ct_tcpHeader ct) \<noteq> be 4 ((!) f) 42"
    by (simp_all add: ch_def ct_def compressed_header_def cur_tuple_frame tcp_of_def ip_of_def frame_totallen_def)
  have tcp: "Tcp h' = tcp_of ((!) f)"
  proof -
    have "optional_tcp q (cmp_of q) x = x\<lparr>seq := if ch_seqChange ch then be 4 ((!) f) 38 else seq x, ack := if ch_ackChange ch then be 4 ((!) f) 42 else ack x\<rparr>" for x
      using optional_tcp_bytes [OF head(2), of "cmp_of q" ch b "tcp_of ((!) f)" "drop 54 f"] unfolding q_def [symmetric] g [symmetric] by (simp add: cmp tcp_of_def)
    then show ?thesis using cached(2) ch_fields(7,8) agreed(1)
      by (simp add: h' decompressed_hdr_def Let_def restored_header_def cmp ch_fields(1-6) ct_def [symmetric] cong: if_cong)
  qed
  define f1 where "f1 = with_checksum f"
  have len54: "54 \<le> length f" using len by simp
  note f1 = with_checksum_of [OF len54, folded f1_def] with_checksum_nth [OF len54, folded f1_def]
  have ip: "(Ipv4 h')\<lparr>ip_isValid := False\<rparr> = ip_of ((!) f1) zero_ipv4"
  proof -
    define R where "R = (ct_ipHeader dt)\<lparr>identification := be 2 ((!) f) 18, totallen := frame_totallen f\<rparr>"
    define X where "X = ((ct_ipHeader ct)\<lparr>ip_isValid := False\<rparr>)\<lparr>identification := be 2 ((!) f) 18, totallen := frame_totallen f\<rparr>"
    have R: "Ipv4 h' = R\<lparr>hdrchecksum := chksumcalc R\<rparr>"
      by (simp add: h' decompressed_hdr_def Let_def restored_header_def cmp ch_fields(1-6) R_def)
    have X: "R\<lparr>ip_isValid := False\<rparr> = X" unfolding X_def ct_def agreed(2) [symmetric] by (simp add: R_def)
    have Xf: "X\<lparr>hdrchecksum := be 2 ((!) f) 24\<rparr> = ip_of ((!) f) zero_ipv4" using cached(1) by (simp add: X_def)
    have "chksumcalc R = chksumcalc (X\<lparr>hdrchecksum := be 2 ((!) f) 24\<rparr>)" unfolding X [symmetric] by (simp only: checksum_cong)
    then have "Ipv4 h' = R\<lparr>hdrchecksum := chksumcalc (ip_of ((!) f) zero_ipv4)\<rparr>" unfolding Xf by (simp add: R)
    moreover have "(R\<lparr>hdrchecksum := v\<rparr>)\<lparr>ip_isValid := False\<rparr> = ((R\<lparr>ip_isValid := False\<rparr>)\<lparr>hdrchecksum := w\<rparr>)\<lparr>hdrchecksum := v\<rparr>" for v w by simp
    ultimately show ?thesis unfolding f1(1) X using Xf by metis
  qed
  have eth: "eth_bytes (hc_Eth h') = take 14 f"
  proof -
    have "q i = f ! i" if "i < 12" for i
    proof -
      have "q i = g ! i" using that len_g(1) by (simp add: q_def in_buffer_def)
      then show ?thesis using that len by (simp add: g nth_append)
    qed
    then have "be 6 q 0 = (be 6 ((!) f) 0 :: 48 word)" "be 6 q 6 = (be 6 ((!) f) 6 :: 48 word)" by (auto intro!: be_cong)
    moreover have "be 2 ((!) f) 12 = (0x0800 :: u16)" using f by (simp add: hc_frame_ok_def)
    ultimately have "eth_bytes (hc_Eth h') = eth_bytes (eth_of ((!) f) (hc_Eth ?L))"
      by (simp add: h' decompressed_hdr_def Let_def restored_header_def eth_of_def eth_bytes_def)
    also have "\<dots> = take 14 f" unfolding eth_of_bytes using len by (auto intro!: nth_equalityI)
    finally show ?thesis .
  qed
  have headers: "hdr_bytes 0 h' = take 54 f1"
  proof -
    have "hdr_bytes 0 h' = hdr_bytes 0 (?L\<lparr>hc_Eth := eth_of ((!) f1) (hc_Eth ?L), Ipv4 := ip_of ((!) f1) zero_ipv4, Tcp := tcp_of ((!) f1)\<rparr>)"
      using len by (simp add: hdr_bytes_def eth tcp f1(2,3) eth_of_bytes ip [symmetric] ipv4_bytes_valid) (auto intro!: nth_equalityI)
    also have "\<dots> = take 54 f1" unfolding hdr_of_bytes using f len f1(5) f1(6) [of 21] by (auto simp: hc_frame_ok_def intro!: nth_equalityI)
    finally show ?thesis .
  qed
  have "map2 (OR) (take 54 (replicate 54 0 @ drop 54 f)) (take 54 f1) = take 54 f1" using len f1(5) by (auto intro!: nth_equalityI)
  moreover have "take 54 f1 @ drop 54 f = f1" unfolding f1(4) [symmetric] by simp
  ultimately have emit: "emit_frame 1 (loc_output_packet loc) (?t\<lparr>hc_Hdr := h', hc_Size := 0x1b0\<rparr>) out 0 = Some (with_checksum f, 0)"
    using emit_frame_bytes(2) [OF out(2,3), where t = "?t\<lparr>hc_Hdr := h', hc_Size := 0x1b0\<rparr>" and buf = "loc_output_packet loc"] len headers
    by (simp add: input_of_def f1_def [symmetric])
  have "\<not> length g < ETH_SIZE + UDP_SIZE + IPV4_SIZE" using len_g by (simp add: ETH_SIZE_def UDP_SIZE_def IPV4_SIZE_def)
  then show ?thesis using out(1) emit
    by (simp add: call_decompressor_def q_def [symmetric] transfer_in_cmp [OF type] h'_def [symmetric])
qed

end
