(* ===== verification/Hc_Properties.thy ===== *)
theory Hc_Properties
  imports Hc_Stream
begin

text \<open>
  The properties of the header compression of the FPGA: the programs that run it give every frame back, and what a compressed frame is.
\<close>

section \<open>Runs\<close>

lemma compressed_frame_type:
  assumes "54 \<le> length f"
  shows "be 2 ((!) (compressed_frame ch f)) 12 = ETYPE_COMPRESSED_hls"
  using assms by (intro be_2I) (simp_all add: compressed_frame_def nth_append be_bytes_2)






section \<open>Properties\<close>


text \<open>C31: What the residue does: when a call of the decompressor with a frame that is not compressed finds a one in \<open>Cmp.isValid\<close>, it takes the frame for a compressed
  one: a frame leaves that is longer by 26 bytes, less four for each of the two bits of residue that announce a sequence or an acknowledgement number, with
  54 bytes of headers in front of what follows offset 28 of the frame, and the frame does not enter the cache.
\<close>

theorem hc_residue_lengthens:
  assumes "hc_frame_ok F f" and "60 \<le> length f" and "length f + 26 \<le> 2048"
    and "cmp = Cmp (hc_Hdr (loc_tuple loc))" and "cmp_isValid cmp"
  defines "o' \<equiv> of_bool (cmp_seqChange cmp) + of_bool (cmp_ackChange cmp) :: nat"
  shows "\<exists>g. call_decompressor loc 1 (in_buffer b f) (length f) (hc_at d) = Some (hc_at d, [g]) \<and>
    length g + 4 * o' = length f + 26 \<and> drop 54 g = drop (28 + 4 * o') f"
proof -
  let ?t = "input_of (frame_hdr f (hc_Hdr (loc_tuple loc))) (loc_tuple loc)"
  have c: "Cmp (hc_Hdr ?t) = cmp" by (simp add: assms(4))
  have n: "length f < 65536" and o: "o' \<le> 2" using assms(3) by (simp_all add: o'_def)
  from decompressor_restores [where t = ?t and cache = d and p = "in_buffer b f", OF assms(2) n input_of_simps(2)] assms(5)
  obtain h out where out: "Decompressor ?t (frame_stream (in_buffer b f) (length f)) d = Some (d, ?t\<lparr>hc_Hdr := h, hc_Size := 0x1b0\<rparr>, out, [])"
    "frame_ok out" "frame_bytes out = replicate 54 0 @ map (in_buffer b f) [28 + 4 * o'..<length f]"
    unfolding c o'_def [symmetric] by blast
  have tail: "map (in_buffer b f) [28 + 4 * o'..<length f] = drop (28 + 4 * o') f" by (intro nth_equalityI) (auto simp: in_buffer_def)
  let ?g = "map2 (OR) (replicate 54 0) (hdr_bytes 0 h) @ drop (28 + 4 * o') f"
  have l: "length (hdr_bytes 0 h) = 54" by (simp add: length_hdr_bytes)
  have "emit_frame 1 (loc_output_packet loc) (?t\<lparr>hc_Hdr := h, hc_Size := 0x1b0\<rparr>) out 0 = Some (?g, 0)"
    using emit_frame_bytes(2) [OF out(2,3), where t = "?t\<lparr>hc_Hdr := h, hc_Size := 0x1b0\<rparr>" and buf = "loc_output_packet loc"] assms(2,3) o
    by (simp add: input_of_def tail)
  then have "call_decompressor loc 1 (in_buffer b f) (length f) (hc_at d) = Some (hc_at d, [?g])"
    using out(1) by (simp add: call_decompressor_def frame_large [OF assms(1)] transfer_in_frame [OF assms(1)])
  then show ?thesis using l assms(2) o by (intro exI [of _ ?g]) simp
qed

text \<open>C40: A frame that finds the addresses and ports of its flow in the cache leaves the program with the compressor with the type of compressed frames, and shorter by 26 bytes less
  four for each of the sequence and the acknowledgement number that changed; the cache stays as it is.
\<close>

theorem hc_hit_shortens:
  assumes "hc_frame_ok F f" and "85 < frame_totallen f" and "hc_key (c (frame_index f)) = frame_key f"
  defines "tcp \<equiv> ct_tcpHeader (c (frame_index f))"
  shows "\<exists>g. call_compressor loc 0 (in_buffer b f) (length f) (hc_at c) = Some (hc_at c, [g]) \<and> be 2 ((!) g) 12 = ETYPE_COMPRESSED_hls \<and> take 12 g = take 12 f \<and>
    length g + 26 = length f + (if seq tcp = be 4 ((!) f) 38 then 0 else 4) + (if ack tcp = be 4 ((!) f) 42 then 0 else 4)"
proof -
  let ?cur = "cur_tuple (frame_hdr f (hc_Hdr (loc_tuple loc)))"
  let ?ch = "compressed_header (c (frame_index f)) ?cur"
  let ?g = "compressed_frame ?ch f"
  have len: "100 \<le> length f" "Suc (Suc (length f - 2)) = length f" using frame_long [OF assms(1,2)] by simp_all
  have "hc_isHit (c (frame_index f)) ?cur" using assms(3) by (auto simp: hc_isHit_def hc_key_def frame_key_def cur_tuple_frame ip_of_def tcp_of_def)
  from compressor_compresses [where c = c and loc = loc and b = b, OF assms(1,2) this] have "call_compressor loc 0 (in_buffer b f) (length f) (hc_at c) = Some (hc_at c, [?g])" .
  moreover have "length ?g + 26 = length f + (if seq tcp = be 4 ((!) f) 38 then 0 else 4) + (if ack tcp = be 4 ((!) f) 42 then 0 else 4)"
    using len by (simp add: compressed_frame_def length_optional_bytes optionalNum_def compressed_header_def cur_tuple_frame tcp_of_def tcp_def)
  moreover have "be 2 ((!) ?g) 12 = ETYPE_COMPRESSED_hls" using len by (simp add: compressed_frame_type)
  moreover have "take 12 ?g = take 12 f" using len by (simp add: compressed_frame_def)
  ultimately show ?thesis by blast
qed

section \<open>Witnesses\<close>

definition sample_frame :: "u8 \<Rightarrow> u8 \<Rightarrow> u8 \<Rightarrow> u8 list" where
  \<comment> \<open>one segment of a flow: identification, the end of its checksum, and a sequence number\<close>
  "sample_frame ident ck sq =
     [1, 2, 3, 4, 5, 6, 7, 8, 9, 10, 11, 12, 8, 0, 0x45, 0, 0, 86, 0, ident, 0x40, 0, 0x40, 6, 0x26, ck, 10, 0, 0, 1, 10, 0, 0, 2,
      0x12, 0x34, 0, 80, 0, 0, 0, sq, 0, 0, 0, 9, 0x50, 0x10, 1, 0, 0xAB, 0xCD, 0, 0] @ replicate 46 7"

definition sample_loc :: hc_locals where
  "sample_loc =
     \<lparr>loc_tuple = \<lparr>hc_Control = 0, hc_forward = False,
        hc_Hdr = \<lparr>Cmp = \<lparr>cmp_urgent = 0, cmp_check = 0, cmp_window = 0, cmp_flags = 0, cmp_identification = 0, cmp_totallen = 0, cmp_pad = 0, cmp_ackChange = False,
            cmp_seqChange = False, cmp_slotID = 0, cmp_isValid = False\<rparr>,
          Tcp = zero_tcp, Ipv4 = zero_ipv4, hc_FEC = \<lparr>fec_Original_type = 0, fec_Packet_index = 0, fec_Block_index = 0, fec_Traffic_class = 0, fec_Is_valid = False\<rparr>,
          hc_Eth = \<lparr>eth_Type = 0, eth_Src = 0, eth_Dst = 0, eth_Is_valid = False\<rparr>, hc_Fph = \<lparr>fph_data = 0, fph_Is_valid = False\<rparr>\<rparr>,
        hc_Egress_port = 0, hc_Ingress_port = 0, hc_Local_state = 0, hc_Size = 0, hc_Stateful_valid = False\<rparr>,
      loc_Temp = \<lparr>pi_Error = False, pi_Count = 0, pi_Data = 0, pi_End_of_frame = False, pi_Start_of_frame = False\<rparr>, loc_output_packet = (\<lambda>_. 0)\<rparr>"

lemma sample_frames_ok:
  "hc_frame_ok (\<lambda>_. [0x45, 0, 0x40, 0x40, 6]) (sample_frame 1 0x9f 1)" "hc_frame_ok (\<lambda>_. [0x45, 0, 0x40, 0x40, 6]) (sample_frame 2 0x9e 5)"
  by code_simp+




lemma sample_residue:
  "hc_frame_ok (\<lambda>_. [0x45, 0, 0x40, 0x40, 6]) (sample_frame 1 0x9F 1)" "length (sample_frame 1 0x9F 1) = 100"
  by (simp_all add: sample_frames_ok) (simp add: sample_frame_def)

theorem hc_residue_lengthens_witness:
  "\<exists>g. call_decompressor (sample_loc\<lparr>loc_tuple := (loc_tuple sample_loc)\<lparr>hc_Hdr := (hc_Hdr (loc_tuple sample_loc))\<lparr>Cmp := (Cmp (hc_Hdr (loc_tuple sample_loc)))
       \<lparr>cmp_isValid := True, cmp_seqChange := True\<rparr>\<rparr>\<rparr>\<rparr>) 1 (in_buffer (\<lambda>_. 0) (sample_frame 1 0x9F 1)) 100 hc_init = Some (hc_init, [g]) \<and> length g = 122"
  using hc_residue_lengthens [OF sample_residue(1) _ _ refl, where b = "\<lambda>_. 0" and d = hc_cache_init and
      loc = "sample_loc\<lparr>loc_tuple := (loc_tuple sample_loc)\<lparr>hc_Hdr := (hc_Hdr (loc_tuple sample_loc))\<lparr>Cmp := (Cmp (hc_Hdr (loc_tuple sample_loc)))
       \<lparr>cmp_isValid := True, cmp_seqChange := True\<rparr>\<rparr>\<rparr>\<rparr>"]
  by (auto simp: sample_residue(2) hc_init_def sample_loc_def)

lemma sample_hit:
  "85 < frame_totallen (sample_frame 2 0x9E 5)" "hc_key (cur_tuple (frame_hdr (sample_frame 1 0x9F 1) (hc_Hdr (loc_tuple sample_loc)))) = frame_key (sample_frame 2 0x9E 5)"
  by code_simp+

theorem hc_hit_shortens_witness:
  "\<exists>c g. call_compressor sample_loc 0 (in_buffer (\<lambda>_. 0) (sample_frame 2 0x9E 5)) (length (sample_frame 2 0x9E 5)) \<lparr>st_in_offset = 0, st_out_offset = 0, st_cache = c\<rparr> =
     Some (\<lparr>st_in_offset = 0, st_out_offset = 0, st_cache = c\<rparr>, [g]) \<and> be 2 ((!) g) 12 = ETYPE_COMPRESSED_hls"
  using hc_hit_shortens [OF sample_frames_ok(2) sample_hit(1), of "\<lambda>_. cur_tuple (frame_hdr (sample_frame 1 0x9F 1) (hc_Hdr (loc_tuple sample_loc)))" sample_loc "\<lambda>_. 0"]
    sample_hit(2) by blast

end
