(* ===== verification/Matrix_Generator.thy ===== *)
theory Matrix_Generator
  imports Hls_Encoder Complex_Main
begin

text \<open>
  The program that generates the matrices of the FPGA decoder, \<^verbatim>\<open>FPGA/Utilities/MatrixGenerator/MatrixGenerator.cpp\<close>: it computes the generator matrix,
  inverts the matrix of the packets that arrive for every packet that can be missing, and writes the inverse matrices with padding. The field arithmetic is that of
  \<^verbatim>\<open>Encoder.c\<close>, with tables.

  Matrices are lists of rows. Cells that the program does not write before it reads them do not exist; the arrays start as zeros. A matrix without a pivot,
  for which \<^verbatim>\<open>Pivot_row\<close> is not initialised, has the result \<open>None\<close>.
\<close>

section \<open>The generator matrix\<close>

definition set_cell :: "'a list list \<Rightarrow> nat \<Rightarrow> nat \<Rightarrow> 'a \<Rightarrow> 'a list list" where
  "set_cell M i j v = M[i := (M ! i)[j := v]]"

definition mg_weights :: "rse_h \<Rightarrow> fec_sym list list" where
  "mg_weights c =
     for_loop 0 FEC_MAX_H (\<lambda>i. for_loop 0 (FEC_MAX_N c) (\<lambda>j M.
       set_cell M i j (if j = 0 \<or> i = 0 then 1 else GF_multiply c (of_nat (j + 1)) (M ! (i - 1) ! j))))
       (replicate FEC_MAX_H (replicate (FEC_MAX_N c) 0))"

definition mg_normalise :: "rse_h \<Rightarrow> nat \<Rightarrow> fec_sym list list \<Rightarrow> fec_sym list list" where
  "mg_normalise c k =
     for_loop 0 FEC_MAX_H (\<lambda>i M.
       let Value = M ! i ! (FEC_MAX_N c - 1 - k) in
       if Value \<noteq> 0
       then for_loop 0 (FEC_MAX_N c) (\<lambda>j M. set_cell M i j (GF_multiply c (M ! i ! j) (GF_invert c Value))) M
       else M)"

definition mg_subtract :: "rse_h \<Rightarrow> nat \<Rightarrow> fec_sym list list \<Rightarrow> fec_sym list list" where
  "mg_subtract c k =
     for_loop 0 FEC_MAX_H (\<lambda>i M.
       if i \<noteq> k \<and> M ! i ! (FEC_MAX_N c - 1 - k) \<noteq> 0
       then for_loop 0 (FEC_MAX_N c) (\<lambda>j M. set_cell M i j (GF_substract (M ! i ! j) (M ! k ! j))) M
       else M)"

definition mg_eliminated :: "rse_h \<Rightarrow> fec_sym list list" where
  "mg_eliminated c = for_loop 0 FEC_MAX_H (\<lambda>k M. mg_subtract c k (mg_normalise c k M)) (mg_weights c)"

definition mg_Generate_generator :: "rse_h \<Rightarrow> fec_sym list list" where
  "mg_Generate_generator c =
     (let Matrix = mg_eliminated c in
      for_loop 0 FEC_MAX_H (\<lambda>i Generator.
        let Reciprocal = GF_invert c (Matrix ! i ! (FEC_MAX_N c - 1 - i)) in
        for_loop 0 FEC_MAX_K (\<lambda>j Generator. set_cell Generator i j (GF_multiply c (Matrix ! i ! j) Reciprocal)) Generator)
        (replicate FEC_MAX_H (replicate FEC_MAX_K 0)))"

section \<open>The inverse matrices\<close>

definition mg_pivot_row :: "nat \<Rightarrow> nat \<Rightarrow> fec_sym list list \<Rightarrow> nat option" where
  "mg_pivot_row k l Matrix = for_loop l k (\<lambda>i Pivot_row. if Matrix ! i ! l \<noteq> 0 then Some i else Pivot_row) None"

definition swap_cell :: "nat \<Rightarrow> nat \<Rightarrow> nat \<Rightarrow> fec_sym list list \<Rightarrow> fec_sym list list" where
  "swap_cell l p i M = (let Temp = M ! l ! i; M1 = set_cell M l i (M ! p ! i) in set_cell M1 p i Temp)"

definition scale_cell :: "rse_h \<Rightarrow> nat \<Rightarrow> fec_sym \<Rightarrow> nat \<Rightarrow> fec_sym list list \<Rightarrow> fec_sym list list" where
  "scale_cell c l Reciprocal i M = set_cell M l i (GF_multiply c (M ! l ! i) Reciprocal)"

definition reduce_cell :: "rse_h \<Rightarrow> nat \<Rightarrow> nat \<Rightarrow> fec_sym \<Rightarrow> nat \<Rightarrow> fec_sym list list \<Rightarrow> fec_sym list list" where
  "reduce_cell c l i Factor j M = (if i \<noteq> l then set_cell M i j (GF_substract (M ! i ! j) (GF_multiply c Factor (M ! l ! j))) else M)"

definition mg_invert_step :: "rse_h \<Rightarrow> nat \<Rightarrow> nat \<Rightarrow> fec_sym list list \<times> fec_sym list list \<Rightarrow> (fec_sym list list \<times> fec_sym list list) option" where
  \<comment> \<open>the body of the loop over \<open>l\<close>; the pair is \<open>Matrix\<close> and \<open>Result\<close>\<close>
  "mg_invert_step c k l MR =
     (case mg_pivot_row k l (fst MR) of
        None \<Rightarrow> None
      | Some Pivot_row \<Rightarrow>
          let (M1, R1) = for_loop 0 k (\<lambda>i (M, R). (swap_cell l Pivot_row i M, swap_cell l Pivot_row i R)) MR;
              Reciprocal = GF_invert c (M1 ! l ! l);
              MR2 = for_loop 0 k (\<lambda>i (M, R). (scale_cell c l Reciprocal i M, scale_cell c l Reciprocal i R)) (M1, R1)
          in Some (for_loop 0 k (\<lambda>i MR.
               let Factor = fst MR ! i ! l in
               for_loop 0 k (\<lambda>j (M, R). (reduce_cell c l i Factor j M, reduce_cell c l i Factor j R)) MR) MR2))"

definition Invert_matrix :: "rse_h \<Rightarrow> nat \<Rightarrow> fec_sym list list \<Rightarrow> fec_sym list list option" where
  "Invert_matrix c k Matrix =
     (let Result = for_loop 0 k (\<lambda>i. for_loop 0 k (\<lambda>j R. set_cell R i j (if i = j then 1 else 0))) (replicate k (replicate k 0)) in
      case for_loop 0 k (\<lambda>l s. Option.bind s (mg_invert_step c k l)) (Some (Matrix, Result)) of
        None \<Rightarrow> None
      | Some (M, R) \<Rightarrow> Some (for_loop 0 k (\<lambda>i. for_loop 0 k (\<lambda>j M. set_cell M i j (R ! i ! j))) M))"

definition mg_received_matrix :: "fec_sym list list \<Rightarrow> nat \<Rightarrow> nat \<Rightarrow> fec_sym list list" where
  \<comment> \<open>the matrix of the packets that arrive when packet \<open>i\<close> is missing\<close>
  "mg_received_matrix Generator k i =
     for_loop 0 k (\<lambda>j. for_loop 0 k (\<lambda>l M.
       let Row = (if j < i then j else j + 1) in
       set_cell M j l (if Row < k then (if Row = l then 1 else 0) else Generator ! 0 ! l))) (replicate k (replicate k 0))"

definition Precompute_matrices_h_1 :: "rse_h \<Rightarrow> nat \<Rightarrow> fec_sym list list option list" where
  "Precompute_matrices_h_1 c k =
     (let Generator = mg_Generate_generator c in map (\<lambda>i. Invert_matrix c k (mg_received_matrix Generator k i)) [0..<k + 1])"

definition matrix_size :: "nat \<Rightarrow> nat" where
  \<comment> \<open>\<open>1 << (int) ceil(log(k) / log(2))\<close>, without rounding errors of the logarithms\<close>
  "matrix_size k = 2 ^ nat \<lceil>ln (real k) / ln 2\<rceil>"

definition Output_matrices :: "rse_h \<Rightarrow> nat \<Rightarrow> fec_sym list list option list" where
  \<comment> \<open>the initialiser that is written\<close>
  "Output_matrices c k =
     map (map_option (\<lambda>M. map (\<lambda>j. map (\<lambda>l. if j < k \<and> l < k then M ! j ! l else 0) [0..<matrix_size k]) [0..<matrix_size k]))
       (Precompute_matrices_h_1 c k)"

section \<open>Loops over the cells of a matrix\<close>

definition has_size :: "nat \<Rightarrow> nat \<Rightarrow> 'a list list \<Rightarrow> bool" where
  "has_size R C M \<longleftrightarrow> length M = R \<and> (\<forall>i<R. length (M ! i) = C)"

lemma has_size_update: "has_size R C M \<Longrightarrow> length row = C \<Longrightarrow> has_size R C (M[i := row])"
  by (cases "i < R") (auto simp: has_size_def nth_list_update)

lemma row_loop:
  assumes "i < length M" and "n \<le> length (M ! i)" and F: "\<And>j x row. F j x (M[i := row]) = F j x M"
  shows "for_loop 0 n (\<lambda>j M. set_cell M i j (F j (M ! i ! j) M)) M = M[i := map (\<lambda>j. F j (M ! i ! j) M) [0..<n] @ drop n (M ! i)]"
  using assms(2)
proof (induction n)
  case 0
  then show ?case by simp
next
  case (Suc n)
  then have "drop n (M ! i) = M ! i ! n # drop (Suc n) (M ! i)" by (simp add: Cons_nth_drop_Suc)
  with Suc assms(1) show ?case by (simp add: for_loop_Suc set_cell_def F nth_append list_update_append)
qed

lemma matrix_rows_loop:
  assumes "length M = R"
    and body: "\<And>i M'. i < R \<Longrightarrow> length M' = R \<Longrightarrow> (\<forall>r<R. M' ! r = (if r < i then G r else M ! r)) \<Longrightarrow> body i M' = M'[i := G i]"
  shows "for_loop 0 R body M = map G [0..<R]"
proof -
  have "0 \<le> R" by simp
  then have "length (for_loop 0 R body M) = R \<and> (\<forall>r<R. for_loop 0 R body M ! r = (if r < R then G r else M ! r))"
  proof (induction rule: for_loop_induct [where P = "\<lambda>n M'. length M' = R \<and> (\<forall>r<R. M' ! r = (if r < n then G r else M ! r))"])
    case init
    then show ?case using assms(1) by simp
  next
    case (step i M')
    then have "body i M' = M'[i := G i]" by (intro body) auto
    with step show ?case by (auto simp: nth_list_update)
  qed
  then show ?thesis by (intro nth_equalityI) auto
qed

lemma cells_loop:
  assumes "has_size R C M"
    and F: "\<And>i j M'. i < R \<Longrightarrow> j < C \<Longrightarrow> has_size R C M' \<Longrightarrow> (\<forall>r<i. M' ! r = map (f r) [0..<C]) \<Longrightarrow> F i j M' = f i j"
  shows "for_loop 0 R (\<lambda>i. for_loop 0 C (\<lambda>j M. set_cell M i j (F i j M))) M = map (\<lambda>i. map (f i) [0..<C]) [0..<R]"
proof (rule matrix_rows_loop)
  fix i M' assume i: "i < R" "length M' = R" and M': "\<forall>r<R. M' ! r = (if r < i then map (f r) [0..<C] else M ! r)"
  then have s: "has_size R C M'" using assms(1) by (auto simp: has_size_def)
  have "for_loop 0 n (\<lambda>j M. set_cell M i j (F i j M)) M' = M'[i := map (f i) [0..<n] @ drop n (M' ! i)]" if "n \<le> C" for n
    using that
  proof (induction n)
    case 0
    then show ?case by simp
  next
    case (Suc n)
    let ?N = "M'[i := map (f i) [0..<n] @ drop n (M' ! i)]"
    have l: "length (M' ! i) = C" using s i by (simp add: has_size_def)
    then have "has_size R C ?N" using s Suc.prems by (intro has_size_update) auto
    then have "F i n ?N = f i n" using i M' Suc.prems by (intro F) auto
    moreover have "drop n (M' ! i) = M' ! i ! n # drop (Suc n) (M' ! i)" using l Suc.prems by (simp add: Cons_nth_drop_Suc)
    ultimately show ?case using Suc i by (simp add: for_loop_Suc set_cell_def list_update_append)
  qed
  from this [of C] show "for_loop 0 C (\<lambda>j M. set_cell M i j (F i j M)) M' = M'[i := map (f i) [0..<C]]"
    using s i by (simp add: has_size_def)
qed (use assms in \<open>simp add: has_size_def\<close>)

end
