(* ===== verification/Matrix_Inverse.thy ===== *)
theory Matrix_Inverse
  imports Matrix_Generator Hls_Recover
begin

text \<open>
  What the matrix generator computes: its generator matrix is that of the encoder, its elimination with pivots inverts every matrix that has an inverse, and
  the inverse for a missing packet has the coefficients that the decoder uses.
\<close>

section \<open>Elimination with pivots\<close>

definition pivoted :: "'a::field mat \<Rightarrow> nat \<Rightarrow> nat \<Rightarrow> 'a mat \<Rightarrow> 'a mat" where
  \<comment> \<open>rows \<open>l\<close> and \<open>p\<close> exchanged, the pivot row scaled, and subtracted from the others, with the factors of \<open>A\<close>\<close>
  "pivoted A l p B =
     (\<lambda>i j. if i = l then B p j * inverse (A p l)
            else let s = (if i = p then l else i) in B s j - A s l * (B p j * inverse (A p l)))"

definition kernel_in :: "nat \<Rightarrow> 'a::field mat \<Rightarrow> 'a mat \<Rightarrow> bool" where
  "kernel_in k A M \<longleftrightarrow> (\<forall>x. (\<forall>i<k. (\<Sum>j<k. A i j * x j) = 0) \<longrightarrow> (\<forall>i<k. (\<Sum>j<k. M i j * x j) = 0))"

definition trivial_kernel :: "nat \<Rightarrow> 'a::field mat \<Rightarrow> bool" where
  "trivial_kernel k M \<longleftrightarrow> (\<forall>x. (\<forall>i<k. (\<Sum>j<k. M i j * x j) = 0) \<longrightarrow> (\<forall>j<k. x j = 0))"

definition gauss_inv :: "nat \<Rightarrow> nat \<Rightarrow> 'a::field mat \<Rightarrow> 'a mat \<Rightarrow> 'a mat \<Rightarrow> bool" where
  "gauss_inv k l M A B \<longleftrightarrow>
     (\<forall>i<k. \<forall>j<l. A i j = (if i = j then 1 else 0)) \<and>
     (\<forall>i<k. \<forall>j<k. A i j = (\<Sum>r<k. B i r * M r j)) \<and> kernel_in k A M"

lemma gauss_pivot_exists:
  assumes inv: "gauss_inv k l M A B" and l: "l < k" and reg: "trivial_kernel k M"
  shows "\<exists>p. l \<le> p \<and> p < k \<and> A p l \<noteq> 0"
proof (rule ccontr)
  assume "\<not> ?thesis"
  then have z: "A p l = 0" if "l \<le> p" "p < k" for p using that by blast
  define x where "x j = (if j = l then 1 else if j < l then - A j l else 0)" for j
  have "(\<Sum>j<k. A i j * x j) = 0" if i: "i < k" for i
  proof -
    have "(\<Sum>j<k. A i j * x j) = (\<Sum>j<Suc l. A i j * x j)"
      using l by (intro sum.mono_neutral_right) (auto simp: x_def)
    also have "(\<Sum>j<Suc l. A i j * x j) = (\<Sum>j<l. if j = i then - A j l else 0) + A i l"
    proof -
      have "(\<Sum>j<l. A i j * x j) = (\<Sum>j<l. if j = i then - A j l else 0)"
        using inv i by (intro sum.cong) (auto simp: gauss_inv_def x_def)
      then show ?thesis by (simp add: x_def)
    qed
    also have "\<dots> = 0" using z [of i] i by (cases "i < l") simp_all
    finally show ?thesis .
  qed
  then have "\<forall>i<k. (\<Sum>j<k. M i j * x j) = 0" using inv by (simp add: gauss_inv_def kernel_in_def)
  with reg l have "x l = 0" by (simp add: trivial_kernel_def)
  then show False by (simp add: x_def)
qed

lemma gauss_inv_step:
  assumes inv: "gauss_inv k l M A B" and p: "l \<le> p" "p < k" and nz: "A p l \<noteq> 0"
  shows "gauss_inv k (Suc l) M (pivoted A l p A) (pivoted A l p B)"
proof -
  let ?s = "\<lambda>i. if i = p then l else i"
  have s: "?s i < k" if "i < k" for i using that p by auto
  have unit: "A i j = (if i = j then 1 else 0)" if "i < k" "j < l" for i j using inv that by (simp add: gauss_inv_def)
  have comb: "A i j = (\<Sum>r<k. B i r * M r j)" if "i < k" "j < k" for i j using inv that by (simp add: gauss_inv_def)
  have "pivoted A l p A i j = (if i = j then 1 else 0)" if "i < k" "j < Suc l" for i j
  proof (cases "j = l")
    case True
    then show ?thesis using nz by (simp add: pivoted_def Let_def)
  next
    case False
    then have "j < l" using that by simp
    moreover from this have "A p j = 0" using unit [of p j] p by simp
    ultimately show ?thesis using unit [OF s [OF that(1)], of j] p by (auto simp: pivoted_def Let_def)
  qed
  moreover have "pivoted A l p A i j = (\<Sum>r<k. pivoted A l p B i r * M r j)" if "i < k" "j < k" for i j
  proof -
    have "(\<Sum>r<k. (B s r - a * (B p r * d)) * M r j) = (\<Sum>r<k. B s r * M r j) - a * ((\<Sum>r<k. B p r * M r j) * d)" for s a d
      by (simp add: sum_distrib_left sum_distrib_right sum_subtractf [symmetric] algebra_simps)
    moreover have "(\<Sum>r<k. B p r * d * M r j) = (\<Sum>r<k. B p r * M r j) * d" for d by (simp add: sum_distrib_left sum_distrib_right ac_simps)
    ultimately show ?thesis using comb [OF p(2) that(2)] comb [OF s [OF that(1)] that(2)] by (simp add: pivoted_def Let_def)
  qed
  moreover have "kernel_in k (pivoted A l p A) A"
    unfolding kernel_in_def
  proof (intro allI impI)
    fix x i assume z: "\<forall>i<k. (\<Sum>j<k. pivoted A l p A i j * x j) = 0" and i: "i < k"
    have l: "l < k" using p by simp
    have "(\<Sum>j<k. A p j * inverse (A p l) * x j) = 0" using z [rule_format, OF l] by (simp add: pivoted_def)
    then have "inverse (A p l) * (\<Sum>j<k. A p j * x j) = 0" by (simp add: sum_distrib_left ac_simps)
    then have pz: "(\<Sum>j<k. A p j * x j) = 0" using nz by simp
    show "(\<Sum>j<k. A i j * x j) = 0"
    proof (cases "i = p")
      case False
      let ?t = "if i = l then p else i"
      have t: "?t < k" "?t \<noteq> l" "?s ?t = i" using False i p by auto
      have "(\<Sum>j<k. (A i j - A i l * (A p j * inverse (A p l))) * x j) = 0"
        using z [rule_format, OF t(1)] t(2,3) by (simp add: pivoted_def Let_def)
      moreover have "(\<Sum>j<k. (A i j - A i l * (A p j * inverse (A p l))) * x j) =
          (\<Sum>j<k. A i j * x j) - A i l * inverse (A p l) * (\<Sum>j<k. A p j * x j)"
        by (simp add: sum_distrib_left sum_subtractf [symmetric] algebra_simps)
      ultimately show ?thesis using pz by simp
    qed (use pz in simp)
  qed
  then have "kernel_in k (pivoted A l p A) M" using inv by (simp add: gauss_inv_def kernel_in_def)
  ultimately show ?thesis by (simp add: gauss_inv_def)
qed

lemma gauss_inv_start:
  assumes "\<And>i j. i < k \<Longrightarrow> j < k \<Longrightarrow> B i j = (if i = j then 1 else 0)"
  shows "gauss_inv k 0 M M B"
proof -
  have "(\<Sum>r<k. B i r * M r j) = (\<Sum>r<k. if r = i then M r j else 0)" if "i < k" for i j
    using assms that by (intro sum.cong) auto
  then show ?thesis by (simp add: gauss_inv_def kernel_in_def)
qed

lemma gauss_inv_cong:
  assumes "gauss_inv k l M A B" and "l \<le> k" and "\<And>i j. i < k \<Longrightarrow> j < k \<Longrightarrow> A' i j = A i j" and "\<And>i j. i < k \<Longrightarrow> j < k \<Longrightarrow> B' i j = B i j"
  shows "gauss_inv k l M A' B'"
  using assms(1,2) by (simp add: gauss_inv_def kernel_in_def assms(3,4))

section \<open>The program's elimination\<close>

definition gmat :: "fec_sym list list \<Rightarrow> gf256 mat" where
  "gmat M = (\<lambda>i j. gf (M ! i ! j))"

lemma GF_invert_table:
  assumes c: "byte_symbols c"
  shows "GF_invert c x = ginv x"
proof -
  have N: "FEC_N c = 256" using c by (simp add: byte_symbols_def)
  define ix where "ix i = GF_exp c (of_nat (FEC_N c - 1 - unat (GF_log c (of_nat i))))" for i
  have ix: "ix i = ginv (of_nat i)" if "0 < i" "i < 256" for i
  proof -
    have "(of_nat i :: u8) \<noteq> 0" using that unat_of_nat_u8 [of i] by (metis less_irrefl unat_0)
    moreover have "unat (of_nat (255 - unat (GF_log c (of_nat i))) :: u8) = 255 - unat (GF_log c (of_nat i))" by (intro unat_of_nat_u8) simp
    ultimately show ?thesis unfolding ix_def GF_exp_gexp [OF c] N using GF_log_gexp(2) [OF c, of "of_nat i"] by (simp add: gexp_inverse)
  qed
  have nz: "unat (ix i) \<noteq> 0" for i by (simp add: ix_def GF_exp_gexp [OF c] unat_eq_zero)
  define inv_table :: "u8 list" where "inv_table = for_loop 0 256 (\<lambda>i T. T[unat (ix i) := of_nat i]) (replicate 256 0)"
  have "(0 :: nat) \<le> 256" by simp
  then have T: "length inv_table = 256 \<and> inv_table ! 0 = 0 \<and> (\<forall>j<256. 0 < j \<longrightarrow> inv_table ! unat (ginv (of_nat j)) = of_nat j)"
    unfolding inv_table_def
  proof (induction rule: for_loop_induct [where P = "\<lambda>n T. length T = 256 \<and> T ! 0 = (0 :: u8) \<and> (\<forall>j<n. 0 < j \<longrightarrow> T ! unat (ginv (of_nat j)) = of_nat j)"])
    case init
    then show ?case by simp
  next
    case (step i T)
    have "T[unat (ix i) := of_nat i] ! unat (ginv (of_nat j)) = of_nat j" if j: "j < Suc i" "0 < j" for j
    proof (cases "j = i")
      case True
      then have "ix i = ginv (of_nat j)" using ix [of i] j step(2) by simp
      then show ?thesis using True step(3) by simp
    next
      case False
      have "unat (of_nat i :: u8) = i" using step(2) by (intro unat_of_nat_u8) simp
      moreover have "unat (of_nat j :: u8) = j" using j step(2) by (intro unat_of_nat_u8) simp
      ultimately have "(of_nat i :: u8) \<noteq> of_nat j" using False by metis
      moreover have "0 < i" using False j by simp
      ultimately have "ix i \<noteq> ginv (of_nat j)" using ix [of i] step(2) by simp
      then have "unat (ix i) \<noteq> unat (ginv (of_nat j))" by (metis word_unat_eq_iff)
      then show ?thesis using False j step(3) by simp
    qed
    then show ?case using step nz [of i] by simp
  qed
  show ?thesis
  proof (cases "x = 0")
    case True
    then show ?thesis using T by (simp add: GF_invert_def Generate_invert_table_def N ix_def inv_table_def)
  next
    case False
    define y where "y = ginv x"
    have "unat y < 256" "0 < unat y" using False by (simp_all add: y_def unat_gt_0)
    then have "inv_table ! unat (ginv y) = y" using T by (metis of_nat_unat)
    then show ?thesis by (simp add: y_def GF_invert_def Generate_invert_table_def N ix_def inv_table_def)
  qed
qed

interpretation table_arith: gf_arith byte_symbols GF_multiply GF_invert
  by unfold_locales (simp_all add: GF_multiply_gmul GF_invert_table gf_gmul gf_ginv)

lemma for_loop_pair:
  "for_loop m n (\<lambda>i (a, b). (f i a, g i b)) (a, b) = (for_loop m n f a, for_loop m n g b)"
proof (cases "m \<le> n")
  case True
  then show ?thesis by (induction n rule: dec_induct) (simp_all add: for_loop_Suc)
qed simp

lemma pivot_row_some:
  assumes "mg_pivot_row k l M = Some p"
  shows "l \<le> p \<and> p < k \<and> M ! p ! l \<noteq> 0"
proof (cases "l \<le> k")
  case True
  let ?f = "\<lambda>i Pivot_row. if M ! i ! l \<noteq> 0 then Some i else Pivot_row"
  have "\<forall>p. for_loop l k ?f None = Some p \<longrightarrow> l \<le> p \<and> p < k \<and> M ! p ! l \<noteq> 0"
    using True by (induction k rule: dec_induct) (auto simp: for_loop_Suc split: if_splits)
  then show ?thesis using assms by (simp add: mg_pivot_row_def)
qed (use assms in \<open>simp add: mg_pivot_row_def\<close>)

lemma pivot_row_exists:
  assumes "l \<le> p" and "p < k" and "M ! p ! l \<noteq> 0"
  shows "mg_pivot_row k l M \<noteq> None"
proof -
  let ?f = "\<lambda>i Pivot_row. if M ! i ! l \<noteq> 0 then Some i else Pivot_row"
  have "Suc p \<le> k" using assms by simp
  then have "for_loop l k ?f None \<noteq> None"
  proof (induction k rule: dec_induct)
    case base
    then show ?case using assms by (simp add: for_loop_Suc)
  next
    case (step n)
    then show ?case using assms(1) by (simp add: for_loop_Suc)
  qed
  then show ?thesis by (simp add: mg_pivot_row_def)
qed

lemma swap_rows:
  assumes M: "has_size k k M" and lp: "l < k" "p < k"
  shows "for_loop 0 k (swap_cell l p) M = M[l := M ! p, p := M ! l]"
proof (cases "l = p")
  case True
  have "swap_cell l l i N = N" for i N by (simp add: swap_cell_def set_cell_def Let_def)
  then have "for_loop 0 n (swap_cell l l) M = M" for n by (induction n) (simp_all add: for_loop_Suc)
  then show ?thesis using True by simp
next
  case False
  have len: "length (M ! l) = k" "length (M ! p) = k" "length M = k" using M lp by (simp_all add: has_size_def)
  have "for_loop 0 n (swap_cell l p) M = M[l := take n (M ! p) @ drop n (M ! l), p := take n (M ! l) @ drop n (M ! p)]" if "n \<le> k" for n
    using that
  proof (induction n)
    case (Suc n)
    then have "drop n (M ! r) = M ! r ! n # drop (Suc n) (M ! r)" "take (Suc n) (M ! r) = take n (M ! r) @ [M ! r ! n]" if "r = l \<or> r = p" for r
      using len that by (auto simp: Cons_nth_drop_Suc take_Suc_conv_app_nth)
    then show ?case using Suc False len lp
      by (simp add: for_loop_Suc swap_cell_def set_cell_def Let_def nth_append list_update_append list_update_swap [of p l])
  qed (simp add: list_update_id)
  from this [of k] show ?thesis using len by simp
qed

lemma scale_row:
  assumes "has_size k k M" and "l < k"
  shows "for_loop 0 k (scale_cell c l v) M = M[l := map (\<lambda>x. GF_multiply c x v) (M ! l)]"
proof -
  have "length (M ! l) = k" "l < length M" using assms by (simp_all add: has_size_def)
  moreover from this have "map (\<lambda>j. GF_multiply c (M ! l ! j) v) [0..<k] = map (\<lambda>x. GF_multiply c x v) (M ! l)" by (intro nth_equalityI) simp_all
  ultimately show ?thesis using row_loop [of l M k "\<lambda>j x M. GF_multiply c x v"] by (simp add: scale_cell_def [abs_def])
qed

lemma reduce_row:
  assumes "has_size k k M" and "i < k"
  shows "for_loop 0 k (reduce_cell c l i v) M =
    (if i = l then M else M[i := map (\<lambda>j. GF_substract (M ! i ! j) (GF_multiply c v (M ! l ! j))) [0..<k]])"
proof (cases "i = l")
  case True
  then have "for_loop 0 n (reduce_cell c l i v) M = M" for n by (induction n) (simp_all add: for_loop_Suc reduce_cell_def)
  then show ?thesis using True by simp
next
  case False
  have "length (M ! i) = k" "i < length M" using assms by (simp_all add: has_size_def)
  then show ?thesis
    using row_loop [of i M k "\<lambda>j x M. GF_substract x (GF_multiply c v (M ! l ! j))"] False by (simp add: reduce_cell_def [abs_def])
qed

definition scaled_swap :: "rse_h \<Rightarrow> nat \<Rightarrow> nat \<Rightarrow> fec_sym \<Rightarrow> fec_sym list list \<Rightarrow> fec_sym list list" where
  "scaled_swap c l p v X = (X[l := X ! p, p := X ! l])[l := map (\<lambda>x. GF_multiply c x v) (X ! p)]"

lemma scaled_swap:
  assumes "has_size k k X" and "l < k" and "p < k"
  shows "has_size k k (scaled_swap c l p v X)"
    and "for_loop 0 k (scale_cell c l v) (for_loop 0 k (swap_cell l p) X) = scaled_swap c l p v X"
    and "i < k \<Longrightarrow> scaled_swap c l p v X ! i = (if i = l then map (\<lambda>x. GF_multiply c x v) (X ! p) else X ! (if i = p then l else i))"
proof -
  have s: "has_size k k (X[l := X ! p, p := X ! l])" "X[l := X ! p, p := X ! l] ! l = X ! p"
    using assms by (auto intro!: has_size_update simp: has_size_def nth_list_update)
  have "length (X ! p) = k" using assms by (simp add: has_size_def)
  with s show "has_size k k (scaled_swap c l p v X)" unfolding scaled_swap_def by (intro has_size_update [OF s(1)]) simp
  show "for_loop 0 k (scale_cell c l v) (for_loop 0 k (swap_cell l p) X) = scaled_swap c l p v X"
    unfolding swap_rows [OF assms] scale_row [OF s(1) assms(2)] s(2) scaled_swap_def by (rule refl)
  show "i < k \<Longrightarrow> scaled_swap c l p v X ! i = (if i = l then map (\<lambda>x. GF_multiply c x v) (X ! p) else X ! (if i = p then l else i))"
    using assms by (simp add: scaled_swap_def has_size_def nth_list_update)
qed

definition reduced :: "rse_h \<Rightarrow> nat \<Rightarrow> nat \<Rightarrow> fec_sym list list \<Rightarrow> fec_sym list list \<Rightarrow> nat \<Rightarrow> fec_sym list" where
  "reduced c k l M X i =
     (if i = l then X ! i else map (\<lambda>j. GF_substract (X ! i ! j) (GF_multiply c (M ! i ! l) (X ! l ! j))) [0..<k])"

lemma reduce_rows:
  assumes M: "has_size k k M" and R: "has_size k k R" and l: "l < k"
  shows "for_loop 0 k (\<lambda>i MR. let Factor = fst MR ! i ! l in
      for_loop 0 k (\<lambda>j (M, R). (reduce_cell c l i Factor j M, reduce_cell c l i Factor j R)) MR) (M, R) =
    (map (reduced c k l M M) [0..<k], map (reduced c k l M R) [0..<k])"
proof -
  let ?P = "\<lambda>X n Y. length Y = k \<and> (\<forall>r<k. Y ! r = (if r < n then reduced c k l M X r else X ! r))"
  let ?body = "\<lambda>i MR. let Factor = fst MR ! i ! l in
      for_loop 0 k (\<lambda>j (M, R). (reduce_cell c l i Factor j M, reduce_cell c l i Factor j R)) MR"
  have row: "?P X (Suc i) (for_loop 0 k (reduce_cell c l i (M ! i ! l)) Y)" if X: "has_size k k X" and i: "i < k" and Y: "?P X i Y" for X Y i
  proof -
    have "has_size k k Y" using X Y by (auto simp: has_size_def reduced_def)
    moreover have "Y ! l = X ! l" "Y ! i = X ! i" using Y i l by (auto simp: reduced_def)
    ultimately have "for_loop 0 k (reduce_cell c l i (M ! i ! l)) Y = Y[i := reduced c k l M X i]"
      using i list_update_id [of Y i] by (auto simp: reduce_row reduced_def)
    then show ?thesis using Y i by (auto simp: nth_list_update less_Suc_eq)
  qed
  have "0 \<le> k" by simp
  then have "?P M k (fst (for_loop 0 k ?body (M, R))) \<and> ?P R k (snd (for_loop 0 k ?body (M, R)))"
  proof (induction rule: for_loop_induct [where P = "\<lambda>n MR. ?P M n (fst MR) \<and> ?P R n (snd MR)"])
    case init
    then show ?case using M R by (simp add: has_size_def)
  next
    case (step i MR)
    have "fst MR ! i ! l = M ! i ! l" using step by simp
    then have "?body i MR = (for_loop 0 k (reduce_cell c l i (M ! i ! l)) (fst MR), for_loop 0 k (reduce_cell c l i (M ! i ! l)) (snd MR))"
      using for_loop_pair [of 0 k "reduce_cell c l i (M ! i ! l)" "reduce_cell c l i (M ! i ! l)" "fst MR" "snd MR"] by (simp add: Let_def)
    then show ?case using row [OF M step(2)] row [OF R step(2)] step by simp
  qed
  then show ?thesis by (intro prod_eqI nth_equalityI) simp_all
qed

lemma invert_step:
  assumes c: "byte_symbols c" and M: "has_size k k M" and R: "has_size k k R" and l: "l < k" and piv: "mg_pivot_row k l M = Some p"
  obtains M' R' where "mg_invert_step c k l (M, R) = Some (M', R')" "has_size k k M'" "has_size k k R'"
    "\<And>i j. i < k \<Longrightarrow> j < k \<Longrightarrow> gmat M' i j = pivoted (gmat M) l p (gmat M) i j"
    "\<And>i j. i < k \<Longrightarrow> j < k \<Longrightarrow> gmat R' i j = pivoted (gmat M) l p (gmat R) i j"
proof -
  have p: "l \<le> p" "p < k" using pivot_row_some [OF piv] by simp_all
  define v where "v = GF_invert c (M ! p ! l)"
  let ?S = "scaled_swap c l p v"
  have v: "gf v = inverse (gf (M ! p ! l))" by (simp add: v_def table_arith.inv_ok [OF c])
  have vl: "for_loop 0 k (swap_cell l p) M ! l ! l = M ! p ! l" using M l p by (simp add: swap_rows has_size_def nth_list_update)
  have step: "mg_invert_step c k l (M, R) = Some (map (reduced c k l (?S M) (?S M)) [0..<k], map (reduced c k l (?S M) (?S R)) [0..<k])"
    using reduce_rows [OF scaled_swap(1) [OF M l p(2)] scaled_swap(1) [OF R l p(2)] l]
    by (simp add: mg_invert_step_def piv for_loop_pair vl v_def [symmetric] scaled_swap(2) [OF _ l p(2)] M R Let_def)
  have size: "has_size k k (map (reduced c k l (?S M) (?S X)) [0..<k])" if X: "has_size k k X" for X
    using scaled_swap(1) [OF X l p(2)] by (auto simp: has_size_def reduced_def)
  have len: "length (X ! i) = k" if "has_size k k X" "i < k" for X i using that by (simp add: has_size_def)
  have ent: "gmat (map (reduced c k l (?S M) (?S X)) [0..<k]) i j = pivoted (gmat M) l p (gmat X) i j"
    if X: "has_size k k X" and ij: "i < k" "j < k" for X i j
    using ij l p len [OF X p(2)] len [OF M l] len [OF M p(2)]
    by (auto simp: gmat_def reduced_def pivoted_def Let_def scaled_swap(3) [OF X l p(2)] scaled_swap(3) [OF M l p(2)] GF_substract_def gf_xor
        table_arith.mul_ok [OF c] v gf256_minus_plus)
  show thesis by (rule that [OF step size [OF M] size [OF R] ent [OF M] ent [OF R]])
qed

lemma cells_filled:
  assumes "has_size k k M"
  shows "for_loop 0 k (\<lambda>i. for_loop 0 k (\<lambda>j M. set_cell M i j (f i j))) M = map (\<lambda>i. map (f i) [0..<k]) [0..<k]"
  using assms by (rule cells_loop [where F = "\<lambda>i j _. f i j"]) simp

lemma has_size_map: "has_size R C (map (\<lambda>i. map (f i) [0..<C]) [0..<R])"
  by (simp add: has_size_def)

lemma has_size_replicate: "has_size R C (replicate R (replicate C x))"
  by (simp add: has_size_def)

theorem Invert_matrix_inverts:
  assumes c: "byte_symbols c" and M: "has_size k k M" and reg: "trivial_kernel k (gmat M)"
  obtains N where "Invert_matrix c k M = Some N" "has_size k k N"
    "\<And>i j. i < k \<Longrightarrow> j < k \<Longrightarrow> (\<Sum>r<k. gmat N i r * gmat M r j) = (if i = j then 1 else 0)"
proof -
  let ?I = "map (\<lambda>i. map (\<lambda>j. if i = j then 1 else 0) [0..<k]) [0..<k] :: fec_sym list list"
  let ?loop = "\<lambda>n. for_loop 0 n (\<lambda>l s. Option.bind s (mg_invert_step c k l)) (Some (M, ?I))"
  have I: "for_loop 0 k (\<lambda>i. for_loop 0 k (\<lambda>j R. set_cell R i j (if i = j then 1 else 0))) (replicate k (replicate k 0)) = ?I"
    by (rule cells_filled [OF has_size_replicate])
  have "\<exists>A B. ?loop n = Some (A, B) \<and> has_size k k A \<and> has_size k k B \<and> gauss_inv k n (gmat M) (gmat A) (gmat B)" if "n \<le> k" for n
    using that
  proof (induction n)
    case 0
    have "gauss_inv k 0 (gmat M) (gmat M) (gmat ?I)" by (rule gauss_inv_start) (simp add: gmat_def)
    then show ?case using M has_size_map [of k k] by auto
  next
    case (Suc n)
    then obtain A B where AB: "?loop n = Some (A, B)" "has_size k k A" "has_size k k B" "gauss_inv k n (gmat M) (gmat A) (gmat B)" and n: "n < k"
      by auto
    obtain p where p: "mg_pivot_row k n A = Some p"
      using gauss_pivot_exists [OF AB(4) n reg] pivot_row_exists [of n _ k A] by (auto simp: gmat_def)
    from pivot_row_some [OF p] have pv: "n \<le> p" "p < k" "gmat A p n \<noteq> 0" by (simp_all add: gmat_def)
    obtain A' B' where s: "mg_invert_step c k n (A, B) = Some (A', B')" "has_size k k A'" "has_size k k B'"
      "\<And>i j. i < k \<Longrightarrow> j < k \<Longrightarrow> gmat A' i j = pivoted (gmat A) n p (gmat A) i j"
      "\<And>i j. i < k \<Longrightarrow> j < k \<Longrightarrow> gmat B' i j = pivoted (gmat A) n p (gmat B) i j"
      using invert_step [OF c AB(2,3) n p] by metis
    have "gauss_inv k (Suc n) (gmat M) (gmat A') (gmat B')"
      using gauss_inv_step [OF AB(4) pv] by (rule gauss_inv_cong) (use n s(4,5) in auto)
    with AB(1) s(1-3) show ?case by (simp add: for_loop_Suc)
  qed
  then obtain A B where AB: "?loop k = Some (A, B)" "has_size k k A" "has_size k k B" "gauss_inv k k (gmat M) (gmat A) (gmat B)" by blast
  let ?N = "map (\<lambda>i. map (\<lambda>j. B ! i ! j) [0..<k]) [0..<k]"
  show thesis
  proof (rule that)
    show "Invert_matrix c k M = Some ?N" by (simp add: Invert_matrix_def I AB(1) cells_filled [OF AB(2)])
    show "has_size k k ?N" by (rule has_size_map)
    fix i j assume "i < k" "j < k"
    moreover from this have "gmat A i j = (if i = j then 1 else 0)" "gmat A i j = (\<Sum>r<k. gmat B i r * gmat M r j)"
      using AB(4) unfolding gauss_inv_def by blast+
    ultimately show "(\<Sum>r<k. gmat ?N i r * gmat M r j) = (if i = j then 1 else 0)" by (simp add: gmat_def)
  qed
qed

end
