(* ===== verification/Matrix_Tables.thy ===== *)
theory Matrix_Tables
  imports Matrix_Inverse
begin

text \<open>
  The output of the matrix generator. Its generator matrix is that of the encoder although it is computed with other arithmetic and in another order, and the matrices that it
  writes for five and for fifty packets are those of \<^verbatim>\<open>Matrices.h\<close>.
\<close>

section \<open>The generator matrix\<close>

definition amat :: "nat \<Rightarrow> fec_sym list list \<Rightarrow> gf256 mat" where
  \<comment> \<open>with the columns in reverse order\<close>
  "amat N M = (\<lambda>i j. gf (M ! i ! (N - 1 - j)))"

definition point_power :: "nat \<Rightarrow> nat \<Rightarrow> fec_sym" where
  "point_power j i = (gmul (of_nat (j + 1)) ^^ i) 1"

lemma gf_point_power: "gf (point_power j i) = gf (of_nat (j + 1)) ^ i"
  unfolding point_power_def by (induction i) (simp_all add: gf_gmul del: of_nat_add of_nat_Suc)

lemma point_power_0: "point_power 0 i = 1" "point_power j 0 = 1"
  unfolding point_power_def by (induction i) simp_all

lemma mg_weights_eq:
  assumes c: "byte_symbols c"
  shows "mg_weights c = map (\<lambda>i. map (\<lambda>j. point_power j i) [0..<FEC_MAX_N c]) [0..<FEC_MAX_H]"
  unfolding mg_weights_def
proof (rule cells_loop [where F = "\<lambda>i j M. if j = 0 \<or> i = 0 then 1 else GF_multiply c (of_nat (j + 1)) (M ! (i - 1) ! j)", OF has_size_replicate])
  fix i j M' assume i: "j < FEC_MAX_N c" and M': "\<forall>r<i. M' ! r = map (\<lambda>j. point_power j r) [0..<FEC_MAX_N c]"
  show "(if j = 0 \<or> i = 0 then 1 else GF_multiply c (of_nat (j + 1)) (M' ! (i - 1) ! j)) = point_power j i"
  proof (cases "j = 0 \<or> i = 0")
    case True
    then show ?thesis using point_power_0 by auto
  next
    case False
    then obtain n where "i = Suc n" by (cases i) auto
    then show ?thesis using False M' i by (simp add: GF_multiply_gmul [OF c] point_power_def del: of_nat_add of_nat_Suc)
  qed
qed

lemma mg_normalise_eq:
  assumes c: "byte_symbols c" and M: "has_size FEC_MAX_H (FEC_MAX_N c) M" and k: "k < FEC_MAX_N c"
  shows "has_size FEC_MAX_H (FEC_MAX_N c) (mg_normalise c k M)"
    and "mat_eq FEC_MAX_H (FEC_MAX_N c) (amat (FEC_MAX_N c) (mg_normalise c k M)) (norm_rows FEC_MAX_H k (amat (FEC_MAX_N c) M))"
proof -
  let ?N = "FEC_MAX_N c"
  let ?v = "\<lambda>i. M ! i ! (?N - 1 - k)"
  let ?G = "\<lambda>i. if ?v i \<noteq> 0 then map (\<lambda>j. GF_multiply c (M ! i ! j) (GF_invert c (?v i))) [0..<?N] else M ! i"
  have "mg_normalise c k M = map ?G [0..<FEC_MAX_H]"
    unfolding mg_normalise_def Let_def
  proof (rule matrix_rows_loop)
    fix i M' assume i: "i < FEC_MAX_H" "length M' = FEC_MAX_H" and M': "\<forall>r<FEC_MAX_H. M' ! r = (if r < i then ?G r else M ! r)"
    then have "M' ! i = M ! i" "length (M' ! i) = ?N" using M by (simp_all add: has_size_def)
    then show "(if M' ! i ! (?N - 1 - k) \<noteq> 0
        then for_loop 0 ?N (\<lambda>j Ma. set_cell Ma i j (GF_multiply c (Ma ! i ! j) (GF_invert c (M' ! i ! (?N - 1 - k))))) M' else M') = M'[i := ?G i]"
      using i row_loop [of i M' ?N "\<lambda>j x _. GF_multiply c x (GF_invert c (?v i))"] list_update_id [of M' i] by auto
  qed (use M in \<open>simp add: has_size_def\<close>)
  then show "has_size FEC_MAX_H ?N (mg_normalise c k M)"
    and "mat_eq FEC_MAX_H ?N (amat ?N (mg_normalise c k M)) (norm_rows FEC_MAX_H k (amat ?N M))"
    using M k by (auto simp: has_size_def mat_eq_def amat_def norm_rows_def table_arith.mul_ok [OF c] table_arith.inv_ok [OF c])
qed

lemma mg_subtract_eq:
  assumes M: "has_size FEC_MAX_H (FEC_MAX_N c) M" and k: "k < FEC_MAX_N c" "k < FEC_MAX_H"
  shows "has_size FEC_MAX_H (FEC_MAX_N c) (mg_subtract c k M)"
    and "mat_eq FEC_MAX_H (FEC_MAX_N c) (amat (FEC_MAX_N c) (mg_subtract c k M)) (sub_row FEC_MAX_H k (amat (FEC_MAX_N c) M))"
proof -
  let ?N = "FEC_MAX_N c"
  let ?G = "\<lambda>i. if i \<noteq> k \<and> M ! i ! (?N - 1 - k) \<noteq> 0 then map (\<lambda>j. GF_substract (M ! i ! j) (M ! k ! j)) [0..<?N] else M ! i"
  have "mg_subtract c k M = map ?G [0..<FEC_MAX_H]"
    unfolding mg_subtract_def
  proof (rule matrix_rows_loop)
    fix i M' assume i: "i < FEC_MAX_H" "length M' = FEC_MAX_H" and M': "\<forall>r<FEC_MAX_H. M' ! r = (if r < i then ?G r else M ! r)"
    then have "M' ! i = M ! i" "M' ! k = M ! k" "length (M' ! i) = ?N" using M k by (simp_all add: has_size_def)
    then show "(if i \<noteq> k \<and> M' ! i ! (?N - 1 - k) \<noteq> 0
        then for_loop 0 ?N (\<lambda>j Ma. set_cell Ma i j (GF_substract (Ma ! i ! j) (Ma ! k ! j))) M' else M') = M'[i := ?G i]"
      using i row_loop [of i M' ?N "\<lambda>j x Ma. GF_substract x (Ma ! k ! j)"] list_update_id [of M' i] by auto
  qed (use M in \<open>simp add: has_size_def\<close>)
  then show "has_size FEC_MAX_H ?N (mg_subtract c k M)"
    and "mat_eq FEC_MAX_H ?N (amat ?N (mg_subtract c k M)) (sub_row FEC_MAX_H k (amat ?N M))"
    using M k by (auto simp: has_size_def mat_eq_def amat_def sub_row_def GF_substract_def gf_xor gf256_minus_plus)
qed

lemma mg_eliminated_eq:
  assumes c: "byte_symbols c" and gfit: "group_fits c"
  shows "mat_eq FEC_MAX_H (FEC_MAX_N c) (amat (FEC_MAX_N c) (mg_eliminated c)) (elim FEC_MAX_H FEC_MAX_H (vandermonde (rs_point c)))"
proof -
  let ?N = "FEC_MAX_N c" and ?V = "vandermonde (rs_point c)"
  let ?loop = "\<lambda>n. for_loop 0 n (\<lambda>k M. mg_subtract c k (mg_normalise c k M)) (mg_weights c)"
  have N: "FEC_MAX_H \<le> ?N" using gfit by (simp add: group_fits_def)
  have "has_size FEC_MAX_H ?N (?loop n) \<and> mat_eq FEC_MAX_H ?N (amat ?N (?loop n)) (elim FEC_MAX_H n ?V)" if "n \<le> FEC_MAX_H" for n
    using that
  proof (induction n)
    case 0
    have "Suc (?N - 1 - j) = ?N - j" if "j < ?N" for j using that by simp
    then have "mat_eq FEC_MAX_H ?N (amat ?N (mg_weights c)) ?V"
      by (simp add: mat_eq_def amat_def mg_weights_eq [OF c] gf_point_power vandermonde_def rs_point_def del: of_nat_Suc)
    then show ?case by (simp add: mg_weights_eq [OF c] has_size_map)
  next
    case (Suc n)
    then have n: "n < ?N" "n < FEC_MAX_H" and s: "has_size FEC_MAX_H ?N (?loop n)" and e: "mat_eq FEC_MAX_H ?N (amat ?N (?loop n)) (elim FEC_MAX_H n ?V)"
      using N by simp_all
    note nr = mg_normalise_eq [OF c s n(1)]
    have "mat_eq FEC_MAX_H ?N (amat ?N (mg_subtract c n (mg_normalise c n (?loop n)))) (elim_step FEC_MAX_H n (amat ?N (?loop n)))"
      unfolding elim_step_def using mg_subtract_eq(2) [OF nr(1) n] sub_row_cong [OF nr(2) n] by (rule mat_eq_trans)
    then have "mat_eq FEC_MAX_H ?N (amat ?N (mg_subtract c n (mg_normalise c n (?loop n)))) (elim FEC_MAX_H (Suc n) ?V)"
      using elim_step_cong [OF e n] by (auto intro: mat_eq_trans)
    then show ?case using mg_subtract_eq(1) [OF nr(1) n] by (simp add: for_loop_Suc)
  qed
  then show ?thesis by (simp add: mg_eliminated_def)
qed

theorem mg_generator_eq:
  assumes c: "byte_symbols c" and gfit: "group_fits c" and i: "i < FEC_MAX_H" and j: "j < FEC_MAX_K"
  shows "mg_Generate_generator c ! i ! j = hls_generator c ! i ! j"
proof -
  let ?N = "FEC_MAX_N c" and ?V = "vandermonde (rs_point c)" and ?M = "mg_eliminated c"
  have N: "FEC_MAX_K + FEC_MAX_H \<le> ?N" using gfit by (simp add: group_fits_def)
  have "mg_Generate_generator c = map (\<lambda>i. map (\<lambda>j. GF_multiply c (?M ! i ! j) (GF_invert c (?M ! i ! (?N - 1 - i)))) [0..<FEC_MAX_K]) [0..<FEC_MAX_H]"
    unfolding mg_Generate_generator_def Let_def by (rule cells_loop [OF has_size_replicate]) simp
  then have "gf (mg_Generate_generator c ! i ! j) = gf (?M ! i ! j) * inverse (gf (?M ! i ! (?N - 1 - i)))"
    using i j by (simp add: table_arith.mul_ok [OF c] table_arith.inv_ok [OF c])
  also have "gf (?M ! i ! j) = elim FEC_MAX_H FEC_MAX_H ?V i (?N - 1 - j)"
    using mat_eqD [OF mg_eliminated_eq [OF c gfit] i, of "?N - 1 - j"] N j by (simp add: amat_def)
  also have "gf (?M ! i ! (?N - 1 - i)) = elim FEC_MAX_H FEC_MAX_H ?V i i"
    using mat_eqD [OF mg_eliminated_eq [OF c gfit] i, of i] N i by (simp add: amat_def)
  also have "elim FEC_MAX_H FEC_MAX_H ?V i (?N - 1 - j) * inverse (elim FEC_MAX_H FEC_MAX_H ?V i i) = gf (hls_generator c ! i ! j)"
    unfolding hls_generator_entry [OF c gfit i j] by (rule elim_solve [OF gfit i])
  finally show ?thesis by simp
qed

section \<open>The inverse for a missing packet\<close>

lemma mg_received_matrix_eq:
  "mg_received_matrix G k i = map (\<lambda>j. map (\<lambda>l. if row_of i j < k then (if row_of i j = l then 1 else 0) else G ! 0 ! l) [0..<k]) [0..<k]"
proof -
  have r: "(if j < i then j else j + 1) = row_of i j" for j by (simp add: row_of_def)
  show ?thesis unfolding mg_received_matrix_def Let_def r by (rule cells_filled [OF has_size_replicate])
qed

lemma received_unit_sum:
  assumes "out < k" and "out \<noteq> i" and "i \<le> k"
  shows "(\<Sum>r<k. if row_of i r = out then f r else 0) = (f (if out < i then out else out - 1) :: gf256)"
proof -
  let ?l = "if out < i then out else out - 1"
  have "(\<Sum>r<k. if row_of i r = out then f r else 0) = (\<Sum>r<k. if r = ?l then f r else 0)"
    using assms by (intro sum.cong) (auto simp: row_of_def)
  moreover have "?l < k" using assms by auto
  ultimately show ?thesis by simp
qed

lemma received_regular:
  fixes g :: "nat \<Rightarrow> gf256"
  assumes i: "i \<le> k" and g: "i < k \<Longrightarrow> g i \<noteq> 0"
  shows "trivial_kernel k (\<lambda>r j. if row_of i r < k then (if row_of i r = j then 1 else 0) else g j)"
  unfolding trivial_kernel_def
proof (intro allI impI)
  fix x j assume z: "\<forall>r<k. (\<Sum>j<k. (if row_of i r < k then (if row_of i r = j then 1 else 0) else g j) * x j) = 0" and j: "j < k"
  have other: "x j = 0" if "j < k" "j \<noteq> i" for j
  proof -
    let ?r = "if j < i then j else j - 1"
    have r: "?r < k" "row_of i ?r = j" using that by (auto simp: row_of_def)
    have "(\<Sum>l<k. (if j = l then 1 else 0) * x l) = 0" using z [rule_format, OF r(1)] that(1) unfolding r(2) by simp
    moreover have "(\<Sum>l<k. (if j = l then 1 else 0) * x l) = (\<Sum>l<k. if l = j then x l else 0)" by (intro sum.cong) auto
    ultimately show ?thesis using that(1) by simp
  qed
  show "x j = 0"
  proof (cases "j = i")
    case True
    then have "i < k" using j by simp
    then have "\<not> row_of i (k - 1) < k" "k - 1 < k" by (auto simp: row_of_def)
    then have "(\<Sum>l<k. g l * x l) = 0" using z [rule_format, of "k - 1"] by simp
    moreover have "(\<Sum>l<k. g l * x l) = (\<Sum>l<k. if l = i then g l * x l else 0)" using other by (intro sum.cong) auto
    ultimately have "g i * x i = 0" using \<open>i < k\<close> by simp
    then show ?thesis using g [OF \<open>i < k\<close>] True by simp
  qed (rule other [OF j])
qed

lemma inverse_coefficients:
  fixes g :: "nat \<Rightarrow> gf256"
  assumes i: "i \<le> k" and g: "i < k \<Longrightarrow> g i \<noteq> 0" and out: "out < k" and l: "l < k"
    and inv: "\<And>j. j < k \<Longrightarrow> (\<Sum>r<k. n r * (if row_of i r < k then (if row_of i r = j then 1 else 0) else g j)) = (if out = j then 1 else 0)"
  shows "n l = decode_coeff g k i out l"
proof -
  let ?last = "if i < k then n (k - 1) else 0"
  let ?e = "\<lambda>j. \<Sum>r<k. if row_of i r = j then n r else 0"
  have eq: "?e j + ?last * g j = (if out = j then 1 else 0)" if j: "j < k" for j
  proof -
    have nk: "row_of i r < k \<longleftrightarrow> \<not> (i < k \<and> r = k - 1)" if "r < k" for r using that i by (auto simp: row_of_def)
    have "(\<Sum>r<k. n r * (if row_of i r < k then (if row_of i r = j then 1 else 0) else g j)) =
        (\<Sum>r<k. (if row_of i r = j then n r else 0) + (if r = k - 1 then ?last * g j else 0))"
      using j by (intro sum.cong) (auto simp: nk)
    also have "\<dots> = ?e j + ?last * g j" using j by (simp add: sum.distrib)
    finally show ?thesis using inv [OF j] by simp
  qed
  have last: "n (k - 1) = (if out = i then inverse (g i) else 0)" if "i < k"
  proof -
    have "row_of i r \<noteq> i" for r by (simp add: row_of_def)
    then have "n (k - 1) * g i = (if out = i then 1 else 0)" using eq [OF that] that by simp
    then have "n (k - 1) = (if out = i then 1 else 0) / g i" using g [OF that] by (simp only: eq_divide_eq) simp
    then show ?thesis by (simp add: divide_inverse)
  qed
  show ?thesis
  proof (cases "row_of i l < k")
    case True
    let ?j = "row_of i l"
    have j: "?j \<noteq> i" "(if ?j < i then ?j else ?j - 1) = l" by (auto simp: row_of_def)
    have "?e ?j = n l" using received_unit_sum [OF True j(1) i, of n] unfolding j(2) .
    then have "n l = (if out = ?j then 1 else 0) - ?last * g ?j" using eq [OF True] by (simp add: eq_diff_eq)
    then show ?thesis using True last out i j(1) by (auto simp: decode_coeff_def mult.commute)
  next
    case False
    then have "i < k" "l = k - 1" using l i by (auto simp: row_of_def split: if_splits)
    then show ?thesis using False last out by (simp add: decode_coeff_def)
  qed
qed

lemma precomputed_inverse:
  assumes c: "byte_symbols c" "FEC_MAX_N c = 55" and k: "k \<le> 50" and i: "i \<le> k"
  obtains N where "Invert_matrix c k (mg_received_matrix (mg_Generate_generator c) k i) = Some N"
    "\<And>out l. out < k \<Longrightarrow> l < k \<Longrightarrow> gf (N ! out ! l) = decode_coeff row_weight k i out l"
proof -
  let ?G = "mg_Generate_generator c" and ?M = "mg_received_matrix (mg_Generate_generator c) k i"
  let ?m = "\<lambda>r j. if row_of i r < k then (if row_of i r = j then 1 else 0) else row_weight j"
  have gfit: "group_fits c" using c(2) by (simp add: group_fits_def FEC_MAX_K_def FEC_MAX_H_def)
  have "gf (?G ! 0 ! j) = row_weight j" if "j < k" for j
    using mg_generator_eq [OF c(1) gfit, of 0 j] hls_generator_first_row [OF c, of j] that k by (simp add: FEC_MAX_H_def FEC_MAX_K_def row_weight_def)
  then have m: "gmat ?M r j = ?m r j" if "r < k" "j < k" for r j
    using that by (simp add: mg_received_matrix_eq gmat_def)
  have nz: "row_weight j \<noteq> 0" for j by (simp add: row_weight_def)
  have "trivial_kernel k ?m" by (rule received_regular [OF i nz])
  then have reg: "trivial_kernel k (gmat ?M)" using m by (simp add: trivial_kernel_def)
  have size: "has_size k k ?M" by (simp add: mg_received_matrix_eq has_size_map)
  obtain N where N: "Invert_matrix c k ?M = Some N" "has_size k k N"
    "\<And>out j. out < k \<Longrightarrow> j < k \<Longrightarrow> (\<Sum>r<k. gmat N out r * gmat ?M r j) = (if out = j then 1 else 0)"
    by (fact Invert_matrix_inverts [OF c(1) size reg])
  have "gmat N out l = decode_coeff row_weight k i out l" if "out < k" "l < k" for out l
    using N(3) [OF that(1)] m by (intro inverse_coefficients [OF i nz that]) simp
  with N(1) show thesis by (intro that) (simp_all add: gmat_def)
qed

section \<open>The matrices that are written\<close>

lemma matrix_size_values: "matrix_size 5 = 8" "matrix_size 50 = 64"
proof -
  have "\<lceil>log 2 (real 5)\<rceil> = 3" using ceiling_log_nat_eq_if [of 2 2 5] by simp
  moreover have "\<lceil>log 2 (real 50)\<rceil> = 6" using ceiling_log_nat_eq_if [of 2 5 50] by simp
  ultimately show "matrix_size 5 = 8" "matrix_size 50 = 64" by (simp_all add: matrix_size_def log_def)
qed

lemma output_matrix:
  assumes c: "byte_symbols c" "FEC_MAX_N c = 55" and k: "k \<le> 50" and i: "i \<le> k"
    and T: "\<And>out l. out < k \<Longrightarrow> l < k \<Longrightarrow> gf (T out l) = decode_coeff row_weight k i out l"
  shows "Output_matrices c k ! i = Some (map (\<lambda>j. map (\<lambda>l. if j < k \<and> l < k then T j l else 0) [0..<matrix_size k]) [0..<matrix_size k])"
proof -
  obtain N where N: "Invert_matrix c k (mg_received_matrix (mg_Generate_generator c) k i) = Some N"
    "\<And>out l. out < k \<Longrightarrow> l < k \<Longrightarrow> gf (N ! out ! l) = decode_coeff row_weight k i out l"
    using precomputed_inverse [OF c k i] by metis
  have "N ! j ! l = T j l" if "j < k" "l < k" for j l using N(2) [OF that] T [OF that] by (metis gf_eq_iff)
  then show ?thesis using i N(1) by (auto simp: Output_matrices_def Precompute_matrices_h_1_def Let_def nth_append le_less intro!: map_cong)
qed

lemma matrices_5_shape:
  "length Matrices_k_5_h_1 = 6" "\<forall>i\<in>{..<6}. length (Matrices_k_5_h_1 ! i) = 8"
  "\<forall>i\<in>{..<6}. \<forall>j\<in>{..<8}. length (Matrices_k_5_h_1 ! i ! j) = 8"
  "\<forall>i\<in>{..<6}. \<forall>j\<in>{..<8}. \<forall>l\<in>{..<8}. j < 5 \<and> l < 5 \<or> Matrices_k_5_h_1 ! i ! j ! l = 0"
  by (simp_all add: Matrices_k_5_h_1_def lessThan_nat_numeral lessThan_Suc)

end
