(* ===== verification/Matrix_Properties.thy ===== *)
theory Matrix_Properties
  imports Matrix_Tables Rse_Properties
begin

text \<open>
  The matrices that are compiled into the FPGA decoder are the output of the generator program, entry by entry, and the
  inversion that it uses solves every regular system.
\<close>

lemma output_matrices_length [simp]: "length (Output_matrices c k) = Suc k"
  by (simp add: Output_matrices_def Precompute_matrices_h_1_def Let_def)

lemma cells_eq:
  assumes "length M = n" and "\<And>j. j < n \<Longrightarrow> length (M ! j) = m" and "\<And>j l. j < n \<Longrightarrow> l < m \<Longrightarrow> M ! j ! l = f j l"
  shows "map (\<lambda>j. map (f j) [0..<m]) [0..<n] = M"
  using assms by (intro nth_equalityI) (auto intro!: nth_equalityI)

lemma output_matrices_5:
  assumes c: "byte_symbols c" "FEC_MAX_N c = 55"
  shows "Output_matrices c 5 = map Some Matrices_k_5_h_1"
proof (rule nth_equalityI)
  show "length (Output_matrices c 5) = length (map Some Matrices_k_5_h_1)" by (simp add: matrices_5_shape)
  fix i assume "i < length (Output_matrices c 5)"
  then have i: "i \<le> 5" "i \<in> {..<6}" by simp_all
  have "Matrices_k_5_h_1 ! i ! j ! l = 0" if "j < 8" "l < 8" "\<not> (j < 5 \<and> l < 5)" for j l
    using matrices_5_shape(4) i(2) that by blast
  then have "map (\<lambda>j. map (\<lambda>l. if j < 5 \<and> l < 5 then Matrices_k_5_h_1 ! i ! j ! l else 0) [0..<8]) [0..<8] = Matrices_k_5_h_1 ! i"
    using matrices_5_shape(2,3) i(2) by (intro cells_eq) auto
  then show "Output_matrices c 5 ! i = map Some Matrices_k_5_h_1 ! i"
    using output_matrix [OF c _ i(1), of "\<lambda>j l. Matrices_k_5_h_1 ! i ! j ! l"] coefficients_5 [OF i(1)] i
    by (simp add: matrix_size_values matrices_5_shape(1))
qed

lemma output_matrices_50:
  assumes c: "byte_symbols c" "FEC_MAX_N c = 55"
  shows "Output_matrices c 50 = map (\<lambda>i. Some (map (\<lambda>j. map (Matrices_k_50_h_1 i j) [0..<64]) [0..<64])) [0..<51]"
proof (rule nth_equalityI)
  fix i assume "i < length (Output_matrices c 50)"
  then have i: "i \<le> 50" "i < 51" by simp_all
  have cell: "(if j < 50 \<and> l < 50 then Matrices_k_50_h_1 i j l else 0) = Matrices_k_50_h_1 i j l" for j l by (simp add: Matrices_k_50_h_1_def)
  show "Output_matrices c 50 ! i = map (\<lambda>i. Some (map (\<lambda>j. map (Matrices_k_50_h_1 i j) [0..<64]) [0..<64])) [0..<51] ! i"
    using output_matrix [OF c _ i(1), of "Matrices_k_50_h_1 i"] coefficients_50 [OF i(1)] i(2)
    by (simp add: matrix_size_values cell del: upt_Suc)
qed simp

text \<open>C11: The matrices of \<^verbatim>\<open>Matrices.h\<close> are what the generator program writes: for five and for fifty data packets and one parity
  packet, the inversion succeeds for every missing packet, and the initialiser has exactly the entries of the file, the zeros that fill it to a power of
  two included.\<close>

theorem matrices_h_is_generated:
  assumes "byte_symbols c" and "FEC_MAX_N c = 55"
  shows "Output_matrices c 5 = map Some Matrices_k_5_h_1 \<and>
    Output_matrices c 50 = map (\<lambda>i. Some (map (\<lambda>j. map (Matrices_k_50_h_1 i j) [0..<64]) [0..<64])) [0..<51]"
  using output_matrices_5 [OF assms] output_matrices_50 [OF assms] by simp

theorem matrices_h_is_generated_witness:
  "byte_symbols demo_h \<and> FEC_MAX_N demo_h = 55 \<and> Output_matrices demo_h 5 = map Some Matrices_k_5_h_1"
  using matrices_h_is_generated [of demo_h] demo_h_ok by (simp add: demo_h_def)

end
