(* ===== verification/Fpga_Init.thy ===== *)
theory Fpga_Init
  imports Prelude Complex_Main
begin

text \<open>
  The programs that run on the processor beside the FPGA: \<^verbatim>\<open>Init.c\<close> of the boards under \<^verbatim>\<open>FPGA/TopLevelSDx/Sources\<close> and
  \<^verbatim>\<open>RSE_init.c\<close> of the forwarder. They write registers of the Ethernet ports and of the general-purpose outputs; the packet dropper
  also reads a drop rate from the serial port.

  A run is the list of its register writes, in order. Base addresses that the board support package defines are the fields of a record, and
  \<^verbatim>\<open>sscanf\<close> of a floating point number is an argument. The dropper reads its lines to the null pointer; the model takes
  the memory at address 0 to be writable and unused, as it is on this processor.
\<close>

type_synonym reg_write = "u32 \<times> u32"

record xparameters =
  XPAR_XGPIOPS_0_BASEADDR :: u32
  XPAR_XXV_ETHERNET_0_BASEADDR :: u32
  XPAR_PACKETDROPPERVIVADO_0_BASEADDR :: u32

definition XGpioPs_WriteReg :: "u32 \<Rightarrow> u32 \<Rightarrow> u32 \<Rightarrow> reg_write" where
  "XGpioPs_WriteReg base offset data = (base + offset, data)"

definition Xil_Out32 :: "u32 \<Rightarrow> u32 \<Rightarrow> reg_write" where
  "Xil_Out32 addr data = (addr, data)"

definition registers :: "reg_write list \<Rightarrow> u32 \<Rightarrow> u32 option" where
  \<comment> \<open>what the registers hold after the writes\<close>
  "registers ws = map_of (rev ws)"

section \<open>Boards\<close>

definition gpio_setup :: "xparameters \<Rightarrow> reg_write list" where
  "gpio_setup x =
     [XGpioPs_WriteReg (XPAR_XGPIOPS_0_BASEADDR x) 0x18 1, XGpioPs_WriteReg (XPAR_XGPIOPS_0_BASEADDR x) 0x2C4 1,
      XGpioPs_WriteReg (XPAR_XGPIOPS_0_BASEADDR x) 0x2C8 1, XGpioPs_WriteReg (XPAR_XGPIOPS_0_BASEADDR x) 0x2C 0xC0000000,
      XGpioPs_WriteReg (XPAR_XGPIOPS_0_BASEADDR x) 0x344 0xC0000000, XGpioPs_WriteReg (XPAR_XGPIOPS_0_BASEADDR x) 0x348 0xC0000000]"

definition Initialize_1 :: "xparameters \<Rightarrow> reg_write list" where
  "Initialize_1 x =
     (let ADDR_GT_RESET_REG = XPAR_XXV_ETHERNET_0_BASEADDR x + 0x00000000;
          ADDR_CONFIG_TX_REG1 = XPAR_XXV_ETHERNET_0_BASEADDR x + 0x0000000C;
          ADDR_CONFIG_RX_REG1 = XPAR_XXV_ETHERNET_0_BASEADDR x + 0x00000014
      in gpio_setup x @
         [XGpioPs_WriteReg (XPAR_XGPIOPS_0_BASEADDR x) 0x54 0x80000000, Xil_Out32 ADDR_GT_RESET_REG 1, Xil_Out32 ADDR_CONFIG_TX_REG1 0x3002,
          XGpioPs_WriteReg (XPAR_XGPIOPS_0_BASEADDR x) 0x4C 0, Xil_Out32 ADDR_CONFIG_RX_REG1 0x32] @
         [XGpioPs_WriteReg (XPAR_XGPIOPS_0_BASEADDR x) 0x54 0xC0000000, Xil_Out32 ADDR_GT_RESET_REG 0, Xil_Out32 ADDR_CONFIG_TX_REG1 0x3003,
          XGpioPs_WriteReg (XPAR_XGPIOPS_0_BASEADDR x) 0x4C 1, Xil_Out32 ADDR_CONFIG_RX_REG1 0x33])"

definition Initialize_2 :: "xparameters \<Rightarrow> reg_write list" where
  "Initialize_2 x =
     gpio_setup x @
     [XGpioPs_WriteReg (XPAR_XGPIOPS_0_BASEADDR x) 0x54 0x80000000, Xil_Out32 0x80000000 1, Xil_Out32 0x80010000 1, Xil_Out32 0x8000000C 0x3002,
      XGpioPs_WriteReg (XPAR_XGPIOPS_0_BASEADDR x) 0x4C 0, Xil_Out32 0x80010014 0x32] @
     [XGpioPs_WriteReg (XPAR_XGPIOPS_0_BASEADDR x) 0x54 0xC0000000, Xil_Out32 0x80000000 0, Xil_Out32 0x80010000 0, Xil_Out32 0x8000000C 0x3003,
      XGpioPs_WriteReg (XPAR_XGPIOPS_0_BASEADDR x) 0x4C 1, Xil_Out32 0x80010014 0x33]"

definition Initialize_4 :: "xparameters \<Rightarrow> reg_write list" where
  "Initialize_4 x =
     gpio_setup x @
     [XGpioPs_WriteReg (XPAR_XGPIOPS_0_BASEADDR x) 0x54 0x80000000,
      Xil_Out32 0x80000000 1, Xil_Out32 0x80010000 1, Xil_Out32 0x80020000 1, Xil_Out32 0x80030000 1,
      Xil_Out32 0x8000000C 0x3002, Xil_Out32 0x8001000C 0x3002, Xil_Out32 0x8002000C 0x3002, Xil_Out32 0x8003000C 0x3002,
      XGpioPs_WriteReg (XPAR_XGPIOPS_0_BASEADDR x) 0x4C 0,
      Xil_Out32 0x80000014 0x32, Xil_Out32 0x80010014 0x32, Xil_Out32 0x80020014 0x32, Xil_Out32 0x80030014 0x32] @
     [XGpioPs_WriteReg (XPAR_XGPIOPS_0_BASEADDR x) 0x54 0xC0000000,
      Xil_Out32 0x80000000 0, Xil_Out32 0x80010000 0, Xil_Out32 0x80020000 0, Xil_Out32 0x80030000 0,
      Xil_Out32 0x8000000C 0x3003, Xil_Out32 0x8001000C 0x3003, Xil_Out32 0x8002000C 0x3003, Xil_Out32 0x8003000C 0x3003,
      XGpioPs_WriteReg (XPAR_XGPIOPS_0_BASEADDR x) 0x4C 1,
      Xil_Out32 0x80000014 0x33, Xil_Out32 0x80010014 0x33, Xil_Out32 0x80020014 0x33, Xil_Out32 0x80030014 0x33]"

section \<open>The packet dropper\<close>

definition Initialize_dropper :: "xparameters \<Rightarrow> reg_write list" where
  "Initialize_dropper x =
     gpio_setup x @
     [XGpioPs_WriteReg (XPAR_XGPIOPS_0_BASEADDR x) 0x54 0x80000000, Xil_Out32 0x80000000 1, Xil_Out32 0x80010000 1, Xil_Out32 0x8000000C 0x3002,
      XGpioPs_WriteReg (XPAR_XGPIOPS_0_BASEADDR x) 0x4C 0, Xil_Out32 0x80010014 0x32] @
     [XGpioPs_WriteReg (XPAR_XGPIOPS_0_BASEADDR x) 0x54 0xC0000000, Xil_Out32 0x80000000 0, Xil_Out32 0x80010000 0, Xil_Out32 0x8000000C 0x3003,
      XGpioPs_WriteReg (XPAR_XGPIOPS_0_BASEADDR x) 0x4C 1, Xil_Out32 0x80010014 0x33]"

fun Read_line :: "nat \<Rightarrow> string \<Rightarrow> string \<times> string" where
  \<comment> \<open>the letters stored in the buffer of the given size before the terminating zero, and the rest of the input;
    when the input ends there are no more letters to wait for\<close>
  "Read_line sz inp =
     (if 1 < sz then
        case inp of
          [] \<Rightarrow> ([], [])
        | Letter # rest \<Rightarrow>
            if Letter = CHR 0x0D then ([], rest)
            else let (line, rest1) = Read_line (sz - 1) rest in (Letter # line, rest1)
      else ([], inp))"

declare Read_line.simps [simp del]

definition BUFFER_SIZE :: nat where "BUFFER_SIZE = 256"

datatype dropper_reply = Reply_identity | Reply_no_number | Reply_range | Reply_set reg_write

definition drop_threshold :: u32 where
  \<comment> \<open>\<open>0.1 * 0x100000000\<close>, truncated, and compared in 64 bits with \<open>0x100000000\<close>\<close>
  "drop_threshold =
     (let Threshold = word_of_int \<lfloor>(1 / 10 :: real) * 0x100000000\<rfloor> :: u32
      in if uint Threshold < 0x100000000 then Threshold else 0xFFFFFFFF)"

definition dropper_line :: "xparameters \<Rightarrow> (string \<Rightarrow> real option) \<Rightarrow> string \<Rightarrow> dropper_reply" where
  \<comment> \<open>the body of the inner loop; a rate in range ends it\<close>
  "dropper_line x sscanf Line =
     (if takeWhile (\<lambda>c. c \<noteq> NUL) Line = ''Identify yourself!'' then Reply_identity
      else case sscanf (takeWhile (\<lambda>c. c \<noteq> NUL) Line) of
             None \<Rightarrow> Reply_no_number
           | Some Rate \<Rightarrow>
               if 0 \<le> Rate \<and> Rate \<le> 1 then Reply_set (Xil_Out32 (XPAR_PACKETDROPPERVIVADO_0_BASEADDR x) drop_threshold) else Reply_range)"

primrec dropper_lines :: "nat \<Rightarrow> xparameters \<Rightarrow> (string \<Rightarrow> real option) \<Rightarrow> string \<Rightarrow> dropper_reply list" where
  \<comment> \<open>the replies to the first lines of the input\<close>
  "dropper_lines 0 x sscanf inp = []"
| "dropper_lines (Suc n) x sscanf inp =
     (let (Line, rest) = Read_line BUFFER_SIZE inp in dropper_line x sscanf Line # dropper_lines n x sscanf rest)"

definition dropper_writes :: "nat \<Rightarrow> xparameters \<Rightarrow> (string \<Rightarrow> real option) \<Rightarrow> string \<Rightarrow> reg_write list" where
  \<comment> \<open>the writes of the program while it answers the first \<open>n\<close> lines\<close>
  "dropper_writes n x sscanf inp =
     Initialize_dropper x @ concat (map (\<lambda>r. case r of Reply_set w \<Rightarrow> [w] | _ \<Rightarrow> []) (dropper_lines n x sscanf inp))"

section \<open>The forwarder\<close>

definition rse_init_writes :: "xparameters \<Rightarrow> reg_write list" where
  "rse_init_writes x =
     [Xil_Out32 (XPAR_XXV_ETHERNET_0_BASEADDR x + 0x14) 0x33, Xil_Out32 (XPAR_XXV_ETHERNET_0_BASEADDR x + 0xC) 0x3003,
      Xil_Out32 (XPAR_XXV_ETHERNET_0_BASEADDR x) 1, Xil_Out32 (XPAR_XXV_ETHERNET_0_BASEADDR x) 0]"

definition packet_counts :: "xparameters \<Rightarrow> (u32 \<Rightarrow> u32) \<Rightarrow> reg_write \<times> 64 word \<times> 64 word" where
  \<comment> \<open>one turn of the loop: the tick and the numbers of received and sent packets it prints\<close>
  "packet_counts x Xil_In32 =
     (Xil_Out32 (XPAR_XXV_ETHERNET_0_BASEADDR x + 0x20) 1,
      ucast (Xil_In32 (XPAR_XXV_ETHERNET_0_BASEADDR x + 0x808)) + push_bit 32 (ucast (Xil_In32 (XPAR_XXV_ETHERNET_0_BASEADDR x + 0x80C))),
      ucast (Xil_In32 (XPAR_XXV_ETHERNET_0_BASEADDR x + 0x700)) + push_bit 32 (ucast (Xil_In32 (XPAR_XXV_ETHERNET_0_BASEADDR x + 0x704))))"

section \<open>Registers\<close>

lemma drop_threshold_value: "drop_threshold = 429496729"
proof -
  have "\<lfloor>(1 / 10 :: real) * 0x100000000\<rfloor> = 429496729" by (simp add: floor_eq_iff)
  then show ?thesis by (simp add: drop_threshold_def)
qed

lemma registers_append: "registers (ws @ vs) a = (case registers vs a of None \<Rightarrow> registers ws a | Some v \<Rightarrow> Some v)"
  by (simp add: registers_def map_add_def split: option.split)

lemma registers_same:
  assumes "\<forall>w\<in>set ws. w = (b, v)"
  shows "registers ws b = (if ws = [] then None else Some v)" and "a \<noteq> b \<Longrightarrow> registers ws a = None"
  using assms by (induction ws) (auto simp: registers_def map_add_def split: option.split)

lemma dropper_line_set: "dropper_line x sscanf Line = Reply_set w \<Longrightarrow> w = (XPAR_PACKETDROPPERVIVADO_0_BASEADDR x, 429496729)"
  by (auto simp: dropper_line_def drop_threshold_value Xil_Out32_def split: if_splits option.splits)

lemma dropper_lines_set: "Reply_set w \<in> set (dropper_lines n x sscanf inp) \<Longrightarrow> w = (XPAR_PACKETDROPPERVIVADO_0_BASEADDR x, 429496729)"
proof (induction n arbitrary: inp)
  case (Suc n)
  then have "Reply_set w = dropper_line x sscanf (fst (Read_line BUFFER_SIZE inp)) \<or>
      Reply_set w \<in> set (dropper_lines n x sscanf (snd (Read_line BUFFER_SIZE inp)))" by (simp add: split_beta Let_def)
  then show ?case using dropper_line_set [OF sym] Suc.IH by blast
qed simp

text \<open>Whatever rates are entered, the packet dropper drops one packet in ten: after any number of lines of which at least one holds an accepted rate, the
  threshold register holds a tenth of 2 to the 32; both ports have been released from reset, the transmitter of the first and the receiver of the
  second are enabled.\<close>

theorem dropper_rate_ignored:
  assumes "XPAR_XGPIOPS_0_BASEADDR x = 0xFF0A0000" and "XPAR_PACKETDROPPERVIVADO_0_BASEADDR x \<notin> fst ` set (Initialize_dropper x)"
  shows "registers (dropper_writes n x sscanf inp) (XPAR_PACKETDROPPERVIVADO_0_BASEADDR x) =
      (if \<exists>w. Reply_set w \<in> set (dropper_lines n x sscanf inp) then Some 429496729 else None) \<and>
    registers (dropper_writes n x sscanf inp) 0x80000000 = Some 0 \<and> registers (dropper_writes n x sscanf inp) 0x80010000 = Some 0 \<and>
    registers (dropper_writes n x sscanf inp) 0x8000000C = Some 0x3003 \<and> registers (dropper_writes n x sscanf inp) 0x80010014 = Some 0x33"
proof -
  let ?b = "XPAR_PACKETDROPPERVIVADO_0_BASEADDR x"
  define ws where "ws = concat (map (\<lambda>r. case r of Reply_set w \<Rightarrow> [w] | _ \<Rightarrow> []) (dropper_lines n x sscanf inp))"
  have all: "\<forall>w\<in>set ws. w = (?b, 429496729)" using dropper_lines_set by (auto simp: ws_def split: dropper_reply.splits)
  have ne: "ws = [] \<longleftrightarrow> \<not> (\<exists>w. Reply_set w \<in> set (dropper_lines n x sscanf inp))" by (force simp: ws_def split: dropper_reply.splits)
  have "registers (Initialize_dropper x) ?b = None" using assms(2) by (simp add: registers_def map_of_eq_None_iff)
  then have b: "registers (dropper_writes n x sscanf inp) ?b = (if \<exists>w. Reply_set w \<in> set (dropper_lines n x sscanf inp) then Some 429496729 else None)"
    using registers_same(1) [OF all] ne by (simp add: dropper_writes_def ws_def [symmetric] registers_append)
  have rest: "registers (dropper_writes n x sscanf inp) a = registers (Initialize_dropper x) a" if "a \<in> fst ` set (Initialize_dropper x)" for a
  proof -
    have "a \<noteq> ?b" using that assms(2) by blast
    then show ?thesis using registers_same(2) [OF all] by (simp add: dropper_writes_def ws_def [symmetric] registers_append)
  qed
  note defs = Initialize_dropper_def gpio_setup_def XGpioPs_WriteReg_def Xil_Out32_def
  have mem: "{0x80000000, 0x80010000, 0x8000000C, 0x80010014} \<subseteq> fst ` set (Initialize_dropper x)" by (simp add: defs)
  have vals: "registers (Initialize_dropper x) 0x80000000 = Some 0" "registers (Initialize_dropper x) 0x80010000 = Some 0"
    "registers (Initialize_dropper x) 0x8000000C = Some 0x3003" "registers (Initialize_dropper x) 0x80010014 = Some 0x33"
    using assms(1) by (simp_all add: defs registers_def)
  show ?thesis using b vals rest mem by auto
qed

theorem dropper_rate_ignored_witness:
  "registers (dropper_writes 2 \<lparr>XPAR_XGPIOPS_0_BASEADDR = 0xFF0A0000, XPAR_XXV_ETHERNET_0_BASEADDR = 0, XPAR_PACKETDROPPERVIVADO_0_BASEADDR = 0x80020000\<rparr>
     (\<lambda>s. if s = ''0.5'' then Some (1 / 2) else None) (''x'' @ [CHR 0x0D] @ ''0.5'' @ [CHR 0x0D])) 0x80020000 = Some 429496729"
proof -
  let ?x = "\<lparr>XPAR_XGPIOPS_0_BASEADDR = 0xFF0A0000, XPAR_XXV_ETHERNET_0_BASEADDR = 0, XPAR_PACKETDROPPERVIVADO_0_BASEADDR = 0x80020000\<rparr>"
  let ?f = "\<lambda>s. if s = ''0.5'' then Some (1 / 2) else None" and ?i = "''x'' @ [CHR 0x0D] @ ''0.5'' @ [CHR 0x0D]"
  have "Reply_set (0x80020000, drop_threshold) \<in> set (dropper_lines 2 ?x ?f ?i)"
    by (simp add: numeral_2_eq_2 dropper_line_def Read_line.simps BUFFER_SIZE_def Xil_Out32_def)
  then show ?thesis
    using dropper_rate_ignored [of ?x 2 ?f ?i] by (auto simp: Initialize_dropper_def gpio_setup_def XGpioPs_WriteReg_def Xil_Out32_def)
qed

end
