(* ===== verification/Pcap_Tools.thy ===== *)
theory Pcap_Tools
  imports Fec_Pcap
begin

text \<open>
  Small programs around the boosters: the interface of the memcached booster to pcap (\<^verbatim>\<open>memcached/memcachedPcap.c\<close>), the
  console for the control interface (\<^verbatim>\<open>fecBoosters/boosterCliTest.c\<close>) and the forwarder for profiling (\<^verbatim>\<open>profilingTools/forwardingNonbooster.c\<close>).

  The handler of memcached packets is C++ code outside this development and an argument of the definitions: it maps a packet to the frames it forwards, each with the
  direction. Whether the calls of pcap succeed is an argument, too.
\<close>

section \<open>The memcached booster\<close>

definition mc_forward_frame :: "bool \<Rightarrow> bytes \<Rightarrow> nat \<Rightarrow> bool \<Rightarrow> (bool \<times> frame) list" where
  \<comment> \<open>the flag of the result says that the frame leaves by the output interface\<close>
  "mc_forward_frame output_handle packet len reverse =
     (if output_handle \<and> \<not> reverse then [(True, frame_of packet len)] else [(False, frame_of packet len)])"

definition mc_PORT_OFFSET :: nat where "mc_PORT_OFFSET = 14 + 22"

definition mc_get_port :: "bytes \<Rightarrow> nat \<Rightarrow> u16" where
  "mc_get_port packet pkt_len = (if pkt_len < mc_PORT_OFFSET then 0 else htons (load16 packet mc_PORT_OFFSET))"

definition mc_packet_handler :: "(bytes \<Rightarrow> nat \<Rightarrow> ((bytes \<times> nat) \<times> bool) list) \<Rightarrow> bool \<Rightarrow> bytes \<Rightarrow> nat \<Rightarrow> (bool \<times> frame) list" where
  "mc_packet_handler call_memcached output_handle packet len =
     (if mc_get_port packet len \<noteq> 11211 then mc_forward_frame output_handle packet len False
      else concat (map (\<lambda>((p, n), reverse). mc_forward_frame output_handle p n reverse) (call_memcached packet len)))"

primrec mc_options :: "(char \<times> string) list \<Rightarrow> interfaces \<Rightarrow> halt + interfaces" where
  "mc_options [] ifs = Inr ifs"
| "mc_options (oa # oas) ifs =
     (let (opt, optarg) = oa in
      if opt = CHR ''i'' then mc_options oas (ifs\<lparr>inputInterface := Some optarg\<rparr>)
      else if opt = CHR ''o'' then mc_options oas (ifs\<lparr>outputInterface := Some optarg\<rparr>)
      else Inl Abort)"

record pcap_calls =
  pcap_create :: "string \<Rightarrow> bool"
  pcap_set_promisc :: "string \<Rightarrow> int"
  pcap_set_immediate_mode :: "string \<Rightarrow> int"
  pcap_activate :: "string \<Rightarrow> int"

definition mc_open :: "pcap_calls \<Rightarrow> string \<Rightarrow> halt option" where
  "mc_open pc interface =
     (if \<not> pcap_create pc interface then Some (Exit 1)
      else if pcap_set_promisc pc interface \<noteq> 0 then Some (Exit (- 1))
      else if pcap_set_immediate_mode pc interface \<noteq> 0 then Some (Exit (- 1))
      else if pcap_activate pc interface \<noteq> 0 then Some (Exit (- 1))
      else None)"

definition mc_main :: "pcap_calls \<Rightarrow> (char \<times> string) list \<Rightarrow> halt + interfaces" where
  \<comment> \<open>up to the loop over the packets\<close>
  "mc_main pc opts =
     (case mc_options opts \<lparr>inputInterface = None, outputInterface = None\<rparr> of
        Inl err \<Rightarrow> Inl err
      | Inr ifs \<Rightarrow>
          (case inputInterface ifs of
             None \<Rightarrow> Inl (Exit 1)
           | Some inp \<Rightarrow>
               (case (case outputInterface ifs of None \<Rightarrow> None | Some outp \<Rightarrow> mc_open pc outp) of
                  Some err \<Rightarrow> Inl err
                | None \<Rightarrow> (case mc_open pc inp of Some err \<Rightarrow> Inl err | None \<Rightarrow> Inr ifs))))"

lemma mc_other_ports: "mc_get_port packet len \<noteq> 11211 \<Longrightarrow> mc_packet_handler f out packet len = [(out, frame_of packet len)]"
  by (simp add: mc_packet_handler_def mc_forward_frame_def)

lemma mc_short_packets: "len < 36 \<Longrightarrow> mc_packet_handler f out packet len = [(out, frame_of packet len)]"
  by (rule mc_other_ports) (simp add: mc_get_port_def mc_PORT_OFFSET_def)

section \<open>The console\<close>

definition cli_line :: "string \<Rightarrow> wharf \<Rightarrow> (wharf \<times> bool) option" where
  \<comment> \<open>one line with its last character, and whether an error is printed\<close>
  "cli_line buff w =
     (if length buff \<noteq> 1 then map_option (\<lambda>(w1, rc). (w1, rc \<noteq> 0)) (wharf_str_call (butlast buff) w) else Some (w, False))"

primrec cli_lines :: "nat \<Rightarrow> string \<Rightarrow> wharf \<Rightarrow> (wharf \<times> bool list) option" where
  \<comment> \<open>the first lines of the input; at its end the loop goes on without reading anything\<close>
  "cli_lines 0 inp w = Some (w, [])"
| "cli_lines (Suc n) inp w =
     (if inp = [] then Some (w, [])
      else
        let (buff, rest) = fgets 2048 inp in
        case cli_line buff w of None \<Rightarrow> None
        | Some (w1, err) \<Rightarrow> (case cli_lines n rest w1 of None \<Rightarrow> None | Some (w2, errs) \<Rightarrow> Some (w2, err # errs)))"

definition cli_main :: "(string \<Rightarrow> string option) \<Rightarrow> string list \<Rightarrow> wharf \<Rightarrow> halt + wharf" where
  \<comment> \<open>the arguments of the command line after the program's name; the result is the state before the first line\<close>
  "cli_main files args w =
     (case args of
        [] \<Rightarrow> Inr w
      | [file] \<Rightarrow>
          (case wharf_load_from_file (files file) (wharf_set_enabled True w) of
             None \<Rightarrow> Inl Null_Pointer
           | Some (w1, rc) \<Rightarrow> if rc \<noteq> 0 then Inl (Exit (- 1)) else Inr w1)
      | _ \<Rightarrow> Inl (Exit (- 1)))"

section \<open>The forwarder for profiling\<close>

definition prof_k :: int where "prof_k = 10"
definition prof_h :: int where "prof_h = 4"
definition prof_dropUpTo :: int where "prof_dropUpTo = 4"

record prof_state =
  rolloverCtr :: int
  prof_packets_so_far :: int

definition prof_my_packet_handler :: "bytes \<Rightarrow> nat \<Rightarrow> prof_state \<Rightarrow> prof_state \<times> frame list" where
  "prof_my_packet_handler packet len p =
     (let out = (if rolloverCtr p < prof_dropUpTo then [] else forward_frame packet len);
          ctr = rolloverCtr p + 1
      in (\<lparr>rolloverCtr = (if ctr = prof_k + prof_h then 0 else ctr), prof_packets_so_far = signed_take_bit 31 (prof_packets_so_far p + 1)\<rparr>, out))"

primrec prof_run :: "(bytes \<times> nat) list \<Rightarrow> prof_state \<Rightarrow> prof_state \<times> frame list" where
  "prof_run [] p = (p, [])"
| "prof_run (x # xs) p =
     (let (p1, out1) = prof_my_packet_handler (fst x) (snd x) p; (p2, out2) = prof_run xs p1 in (p2, out1 @ out2))"

lemma prof_run_from:
  "0 \<le> rolloverCtr p \<Longrightarrow> rolloverCtr p + int (length xs) < 14 \<Longrightarrow>
    rolloverCtr (fst (prof_run xs p)) = rolloverCtr p + int (length xs) \<and>
    snd (prof_run xs p) = map (\<lambda>x. frame_of (fst x) (snd x)) (drop (nat (4 - rolloverCtr p)) xs)"
proof (induction xs arbitrary: p)
  case (Cons x xs)
  define p1 where "p1 = fst (prof_my_packet_handler (fst x) (snd x) p)"
  have ctr: "rolloverCtr p1 = rolloverCtr p + 1" using Cons.prems by (simp add: p1_def prof_my_packet_handler_def Let_def prof_k_def prof_h_def)
  have IH: "rolloverCtr (fst (prof_run xs p1)) = rolloverCtr p1 + int (length xs)"
    "snd (prof_run xs p1) = map (\<lambda>x. frame_of (fst x) (snd x)) (drop (nat (4 - rolloverCtr p1)) xs)"
    using Cons.IH [of p1] Cons.prems ctr by simp_all
  have out: "snd (prof_my_packet_handler (fst x) (snd x) p) = (if rolloverCtr p < 4 then [] else [frame_of (fst x) (snd x)])"
    by (simp add: prof_my_packet_handler_def Let_def prof_dropUpTo_def forward_frame_def)
  have "nat (4 - rolloverCtr p) = (if rolloverCtr p < 4 then Suc (nat (4 - rolloverCtr p1)) else 0)" using ctr by auto
  moreover have "\<not> rolloverCtr p < 4 \<Longrightarrow> nat (4 - rolloverCtr p1) = 0" using ctr by simp
  ultimately show ?case using IH ctr out by (auto simp: split_beta Let_def p1_def [symmetric])
qed simp

text \<open>Of every group of 14 frames the first four are dropped, as many as the decoder can replace with \<open>k = 10\<close> and \<open>h = 4\<close>.\<close>

lemma prof_run_group:
  assumes "rolloverCtr p = 0" and "length xs = 14"
  shows "rolloverCtr (fst (prof_run xs p)) = 0" and "snd (prof_run xs p) = map (\<lambda>x. frame_of (fst x) (snd x)) (drop 4 xs)"
proof -
  obtain ys y where xs: "xs = ys @ [y]" "length ys = 13" using assms(2) by (cases xs rule: rev_cases) auto
  have app: "prof_run (as @ bs) q = (let (q1, o1) = prof_run as q; (q2, o2) = prof_run bs q1 in (q2, o1 @ o2))" for as bs q
    by (induction as arbitrary: q) (auto simp: split_beta Let_def)
  have r: "rolloverCtr (fst (prof_run ys p)) = 13" "snd (prof_run ys p) = map (\<lambda>x. frame_of (fst x) (snd x)) (drop 4 ys)"
    using prof_run_from [of p ys] assms(1) xs(2) by simp_all
  have last: "rolloverCtr (fst (prof_run [y] q)) = 0 \<and> snd (prof_run [y] q) = [frame_of (fst y) (snd y)]" if "rolloverCtr q = 13" for q
    using that by (simp add: prof_my_packet_handler_def Let_def prof_k_def prof_h_def prof_dropUpTo_def forward_frame_def)
  show "rolloverCtr (fst (prof_run xs p)) = 0" "snd (prof_run xs p) = map (\<lambda>x. frame_of (fst x) (snd x)) (drop 4 xs)"
    using last [OF r(1)] r(2) xs by (simp_all only: app split_beta Let_def fst_conv snd_conv) (simp_all add: xs)
qed

end
