(* ===== verification/Spec2Isabelle.thy ===== *)
theory Spec2Isabelle
  imports Rse_Properties Rse_Test_Run Hls_Properties Fec_Properties Wharf_Properties Kv_Properties Vj_Properties Hls_Decoder_Properties Hls_Pipeline_Properties Hc_Properties Matrix_Properties Fpga_Init Pcap_Tools
begin

text \<open>
  Flightplan splits data-plane programs over switches, FPGAs and servers, and adds \<^emph>\<open>boosters\<close> to a network: forward erasure correction on lossy links,
  header compression, and a cache in front of a key-value store. This development models the boosters and the coders they share, and proves what they
  promise to each other. Paths are relative to \<^verbatim>\<open>src/\<close>.

  \<^bold>\<open>The parts of the program and how they work together.\<close>

  \<^item> The \<^emph>\<open>reference coder\<close> (\<^verbatim>\<open>cpuBoosters/profilingTools/rse.bkp.c\<close>, tested by \<^verbatim>\<open>FPGA/RSEVivadoHLS/rsetest.c\<close>) computes parity packets and recovers lost packets of a
    group. The state is a table of blocks and the weight matrix.
  \<^item> The \<^emph>\<open>erasure booster\<close> (\<^verbatim>\<open>cpuBoosters/fecBoosters\<close>) keeps packet buffers for each traffic class and port, tags frames, and calls the coder.
    One process encodes (\<^verbatim>\<open>fecEncodeBooster.c\<close>), one on the other side of the link decodes (\<^verbatim>\<open>fecDecodeBooster.c\<close>); \<^verbatim>\<open>fecBoosterApi.c\<close> configures both with
    rules that map ports to traffic classes.
  \<^item> The \<^emph>\<open>FPGA encoder\<close> (\<^verbatim>\<open>FPGA/RSEVivadoHLS\<close>) computes the same parity symbols incrementally; the \<^emph>\<open>FPGA decoder\<close> (\<^verbatim>\<open>FPGA/DecoderVivadoHLS\<close>) collects the packets
    of each block and multiplies them with inverse matrices that a generator program (\<^verbatim>\<open>FPGA/Utilities/MatrixGenerator\<close>) has written.
  \<^item> The \<^emph>\<open>header compression booster\<close> (\<^verbatim>\<open>cpuBoosters/vjCompressor\<close>) shortens TCP packets on one side of a link and restores them on the other; the FPGA designs for the
    same purpose (\<^verbatim>\<open>FPGA/CompressorVivadoHLS\<close>, \<^verbatim>\<open>FPGA/DecompressorVivadoHLS\<close>) have a format of their own.
  \<^item> The \<^emph>\<open>key-value cache\<close> (\<^verbatim>\<open>kvstore\<close>) parses memcached requests and answers them from a hash table.
  \<^item> Small programs configure FPGA boards (\<^verbatim>\<open>FPGA/TopLevelSDx/Sources\<close>), forward and drop packets, and read commands.

  \<^bold>\<open>Which theory models which part.\<close>

  \<^item> \<^verbatim>\<open>Prelude\<close>: machine types, the counted loop \<^verbatim>\<open>for_loop\<close> with its invariant rule, and shared facts on lists and words. \<^verbatim>\<open>Tables\<close>: the interfaces of
    lookup tables as locales. \<^verbatim>\<open>GF256\<close>, \<^verbatim>\<open>Gf_Table\<close>: the field with 256 elements as an instance of the class of fields. \<^verbatim>\<open>Linear_Code\<close>: elimination and systematic codes
    over a field, without reference to the program.
  \<^item> \<^verbatim>\<open>Rse_Math\<close>, \<^verbatim>\<open>Rse_Matrix\<close>, \<^verbatim>\<open>Rse_Codewords\<close>, \<^verbatim>\<open>Rse_Block\<close>, \<^verbatim>\<open>Rse_Code\<close>: the functions of \<^verbatim>\<open>rse.bkp.c\<close> in their order (tables and macros, the in-place solver, initialisation,
    the block, encoder and decoder). The interface of a field arithmetic is a locale that the table macros of this coder, of the FPGA encoder and of the matrix
    generator interpret. \<^verbatim>\<open>Rse_Roundtrip\<close> and \<^verbatim>\<open>Rse_Recover\<close> show that decoding inverts encoding; \<^verbatim>\<open>Rse_Test\<close> and \<^verbatim>\<open>Rse_Test_Run\<close> are the test program and its run.
    \<^verbatim>\<open>Rse_Properties\<close> states the results.
  \<^item> \<^verbatim>\<open>Hls_Encoder\<close> (\<^verbatim>\<open>Encoder.c\<close>, \<^verbatim>\<open>RSE_core_test.c\<close>) and \<^verbatim>\<open>Rse_Core\<close> (\<^verbatim>\<open>RSECore.c\<close>) with \<^verbatim>\<open>Hls_Properties\<close>: the generator matrix equals the weights of the reference coder, and the packet
    encoder emits the parity packets of each group.
  \<^item> \<^verbatim>\<open>Hls_Decoder\<close> (\<^verbatim>\<open>Decoder_core.cpp\<close>, \<^verbatim>\<open>Matrices.h\<close>, and the search for the missing packet in \<^verbatim>\<open>Decoder.cpp\<close>), \<^verbatim>\<open>Hls_Tables\<close>, \<^verbatim>\<open>Hls_Recover\<close>, \<^verbatim>\<open>Hls_Decoder_Properties\<close>: the decoder's
    matrices invert the encoder. \<^verbatim>\<open>Matrix_Generator\<close> (\<^verbatim>\<open>MatrixGenerator.cpp\<close>), \<^verbatim>\<open>Matrix_Inverse\<close>, \<^verbatim>\<open>Matrix_Tables\<close>, \<^verbatim>\<open>Matrix_Properties\<close>: the inversion is correct for
    regular matrices, and the program's output is \<^verbatim>\<open>Matrices.h\<close>.
  \<^item> \<^verbatim>\<open>Hls_Pipeline\<close> (\<^verbatim>\<open>Decoder.cpp\<close>, \<^verbatim>\<open>Decoder.h\<close>, \<^verbatim>\<open>Types.h\<close>): the packet decoder as a pipeline of stages that read and write streams. \<^verbatim>\<open>Hls_Streams\<close>: bytes in streams of words,
    and an interface (a locale) for stages that keep some bytes and pack them again, interpreted for the stages before and after decoding. \<^verbatim>\<open>Hls_Stages\<close> and \<^verbatim>\<open>Hls_Groups\<close> give the effect
    of each stage on a block, \<^verbatim>\<open>Hls_Calls\<close> that of a call, \<^verbatim>\<open>Hls_Blocks\<close> that of a stream of blocks, \<^verbatim>\<open>Hls_Link\<close> joins encoder and decoder, and \<^verbatim>\<open>Hls_Stall\<close> shows when
    the decoding loop does not end. \<^verbatim>\<open>Hls_Pipeline_Properties\<close> states the results.
  \<^item> \<^verbatim>\<open>Fec_Booster\<close> (\<^verbatim>\<open>fecBooster.c\<close>, \<^verbatim>\<open>fecBooster.h\<close>, \<^verbatim>\<open>fecDefs.h\<close>) and \<^verbatim>\<open>Fec_Pcap\<close> (\<^verbatim>\<open>fecPcap.c\<close> and the handlers of encoder, decoder and forwarder) are the operations of the erasure
    booster. \<^verbatim>\<open>Fec_Tag\<close>, \<^verbatim>\<open>Fec_Codec\<close>, \<^verbatim>\<open>Fec_Group\<close>, \<^verbatim>\<open>Fec_Encoder\<close>, \<^verbatim>\<open>Fec_Decoder\<close> and \<^verbatim>\<open>Fec_Stream\<close> follow a packet from the encoder to the decoder; \<^verbatim>\<open>Fec_Invariant\<close> treats the encoder
    as a state machine. \<^verbatim>\<open>Fec_Properties\<close> states the results.
  \<^item> \<^verbatim>\<open>Wharf_Api\<close> (\<^verbatim>\<open>fecBoosterApi.c\<close>), \<^verbatim>\<open>Wharf_Rules\<close>, \<^verbatim>\<open>Wharf_Cli\<close>, \<^verbatim>\<open>Wharf_Config\<close>, \<^verbatim>\<open>Wharf_Properties\<close>: the control interface, its rule table as a map, and its command language.
  \<^item> \<^verbatim>\<open>Uthash\<close> (\<^verbatim>\<open>uthash.h\<close>), \<^verbatim>\<open>Uthash_Map\<close>, \<^verbatim>\<open>Kvcache\<close> (\<^verbatim>\<open>kvcache.c\<close>), \<^verbatim>\<open>Kv_Parser\<close> (\<^verbatim>\<open>memcache_parser.c\<close>, \<^verbatim>\<open>memcache_forwarder.c\<close>), \<^verbatim>\<open>Kv_Tokens\<close>, \<^verbatim>\<open>Kv_Properties\<close>: the hash table
    implements a map, the cache refines a map whose updates overlay values, and the tokenizer finds the words.
  \<^item> \<^verbatim>\<open>Vj_Compression\<close> (\<^verbatim>\<open>vjCompression.cpp\<close>, \<^verbatim>\<open>compressor.h\<close>, \<^verbatim>\<open>pcapCompressorAndDecompressor.cpp\<close>), \<^verbatim>\<open>Vj_Roundtrip\<close>, \<^verbatim>\<open>Vj_Properties\<close>: a stream is restored from its compressed form.
  \<^item> \<^verbatim>\<open>Hc_Core\<close> (\<^verbatim>\<open>FPGA/CompressorVivadoHLS\<close>, \<^verbatim>\<open>FPGA/DecompressorVivadoHLS\<close>) and \<^verbatim>\<open>Hc_Program\<close> (\<^verbatim>\<open>hdrCompress.cpp\<close>): header compression on the FPGA, and the programs that run it on
    captured frames. \<^verbatim>\<open>Hc_Bytes\<close> and \<^verbatim>\<open>Hc_Headers\<close> relate fields of headers to bytes, \<^verbatim>\<open>Hc_Shift\<close> and \<^verbatim>\<open>Hc_Frames\<close> words of a stream to bytes; \<^verbatim>\<open>Hc_Hit\<close> and \<^verbatim>\<open>Hc_Restore\<close> give the bytes that leave
    the two designs, \<^verbatim>\<open>Hc_Stream\<close> the relation between their caches, and \<^verbatim>\<open>Hc_Properties\<close> the results.
  \<^item> \<^verbatim>\<open>Fpga_Init\<close> (\<^verbatim>\<open>Init.c\<close> of the boards, \<^verbatim>\<open>RSE_init.c\<close>) and \<^verbatim>\<open>Pcap_Tools\<close> (\<^verbatim>\<open>memcachedPcap.c\<close>, \<^verbatim>\<open>boosterCliTest.c\<close>, the forwarder for profiling): the small programs.

  \<^bold>\<open>State, errors and machine integers.\<close> A structure of the program is a record, its static variables are the record of the component, and an operation returns the changed
  record. Integers keep their width where the program relies on it; counters that the program keeps within bounds are natural numbers. Results
  on the left of a sum are the ways a program ends or leaves defined behaviour: \<^verbatim>\<open>exit\<close>, \<^verbatim>\<open>abort\<close>, a division by zero, a read of an
  indeterminate value, an access outside an array. The tables of traffic classes, the packet buffers with their slots of \<^verbatim>\<open>PKT_BUF_SZ\<close> bytes and the index arrays of the
  coder have their sizes: an operation that leaves them has the result \<^verbatim>\<open>None\<close>, and a handler that calls it \<^verbatim>\<open>Out_Of_Bounds\<close>; the theorems say when, and never take such an access
  for a harmless one. Pointers to packets are functions from offsets to bytes, so that reads behind a captured frame are
  visible; what lies there, and what uninitialised variables contain at each call, are arguments.

  \<^bold>\<open>Loops.\<close> Counted loops are folds over an interval. A loop of \<^verbatim>\<open>rse.bkp.c\<close> whose index is an eight-bit symbol does not end when its bound exceeds
  255, since the index wraps; \<^verbatim>\<open>for_loop8\<close> is a partial function on options, which then has no result and otherwise equals the counted loop. In the FPGA decoder reading from an
  empty stream or behind a buffer has no result; the decoding loop stops at the end of its buffer. Input loops run over the list of the events that arrive
  (captured frames, alarms, lines, requests), of any finite length.

  \<^bold>\<open>Parameters for code outside the repository.\<close> The header \<^verbatim>\<open>rse.h\<close> is the record \<^verbatim>\<open>rse_h\<close> of its constants; theorems say which they need (eight-bit symbols, a code length of at most 256).
  The callback of the memcached booster, the results of \<^verbatim>\<open>pcap_open_live\<close>, \<^verbatim>\<open>rand\<close>, \<^verbatim>\<open>sscanf\<close> of floating point numbers and the addresses of the board support package are arguments.

  \<^bold>\<open>Not modelled.\<close> The depths of the streams in the FPGA decoder and the overlap of its stages in time are left out. The C++ memcached booster, the FPGA design for memcached, the planner (\<^verbatim>\<open>flightplanner\<close>), the bindings to the behavioral-model switch, and the telemetry parser are separate C++ programs. Board support packages
  and tcpdump are third-party code. P4 programs, Verilog and scripts are not C. Printing, logging and timing are left out everywhere.
\<close>

end
